(* ===== verification/Prelude.thy ===== *)
theory Prelude
  imports Complex_Main "HOL-Library.AList" "HOL-Library.Multiset" "HOL-Library.Word"
begin

text \<open>
  Shared material of the development: the outcome of a Go call (a value, a run-time panic, or
  a loop that has used up its fuel), Go maps as association lists, the \<open>swap\<close> of two slice
  elements, and the theorem collections the component theories extend.
\<close>

named_theorems go_defs \<open>definitions unfolded when a model operation is evaluated\<close>
named_theorems frame \<open>components that an operation leaves alone\<close>

section \<open>Outcomes\<close>

text \<open>
  A Go call either returns, or panics (nil dereference, close of a closed channel, big.ErrNaN),
  or is still running. Loops of the source that need not end are given fuel, and
  \<open>OutOfFuel\<close> says that the fuel did not suffice; it is never a result of the code.
\<close>

datatype 'a outcome = Done 'a | Panicked | OutOfFuel

fun obind :: "'a outcome \<Rightarrow> ('a \<Rightarrow> 'b outcome) \<Rightarrow> 'b outcome" where
  "obind (Done x) f = f x"
| "obind Panicked f = Panicked"
| "obind OutOfFuel f = OutOfFuel"

fun of_option :: "'a option \<Rightarrow> 'a outcome" where
  "of_option None = Panicked"
| "of_option (Some x) = Done x"

lemma obind_eq_Done [simp]: "obind m f = Done y \<longleftrightarrow> (\<exists>x. m = Done x \<and> f x = Done y)"
  by (cases m) auto

lemma obind_cong [fundef_cong]:
  "m = m' \<Longrightarrow> (\<And>x. m' = Done x \<Longrightarrow> f x = f' x) \<Longrightarrow> obind m f = obind m' f'"
  by (cases m') auto

lemma of_option_eq_Done [simp]: "of_option m = Done y \<longleftrightarrow> m = Some y"
  by (cases m) auto

lemma obind_eq_OutOfFuel:
  "obind m f = OutOfFuel \<longleftrightarrow> m = OutOfFuel \<or> (\<exists>x. m = Done x \<and> f x = OutOfFuel)"
  by (cases m) auto

lemma of_option_not_OutOfFuel [simp]: "of_option m \<noteq> OutOfFuel"
  by (cases m) auto

section \<open>Go maps\<close>

text \<open>
  A Go map is an association list with distinct keys. Go leaves the order of a \<open>range\<close> over a
  map open; the list fixes one such order.
\<close>

type_synonym ('k, 'v) gomap = "('k \<times> 'v) list"

abbreviation gm_get :: "('k, 'v) gomap \<Rightarrow> 'k \<Rightarrow> 'v option" where
  "gm_get m k \<equiv> map_of m k"

abbreviation gm_put :: "'k \<Rightarrow> 'v \<Rightarrow> ('k, 'v) gomap \<Rightarrow> ('k, 'v) gomap" where
  "gm_put k v m \<equiv> AList.update k v m"

abbreviation gm_del :: "'k \<Rightarrow> ('k, 'v) gomap \<Rightarrow> ('k, 'v) gomap" where
  "gm_del k m \<equiv> AList.delete k m"

abbreviation gm_wf :: "('k, 'v) gomap \<Rightarrow> bool" where
  "gm_wf m \<equiv> distinct (map fst m)"

lemma gm_wf_put [intro, simp]: "gm_wf m \<Longrightarrow> gm_wf (gm_put k v m)"
  by (rule distinct_update)

lemma gm_wf_del [intro, simp]: "gm_wf m \<Longrightarrow> gm_wf (gm_del k m)"
  by (rule distinct_delete)

lemma gm_get_put [simp]: "gm_get (gm_put k v m) k' = (if k' = k then Some v else gm_get m k')"
  by (simp add: update_conv)

lemma gm_get_del [simp]: "gm_get (gm_del k m) k' = (if k' = k then None else gm_get m k')"
  by (simp add: delete_conv)

declare map_of_eq_Some_iff [simp del] Some_eq_map_of_iff [simp del]

lemma gm_del_empty: "gm_del k m = [] \<Longrightarrow> gm_get m k' \<noteq> None \<Longrightarrow> k' = k"
  using gm_get_del [of k m k'] by (auto split: if_splits)

lemma gm_put_nonempty [simp]: "gm_put k v m \<noteq> []"
  by (cases m) auto

lemma length_gm_put:
  "length (gm_put k v m) = (if gm_get m k = None then Suc (length m) else length m)"
  by (induction m) auto

lemma length_gm_del_le: "length (gm_del k m) \<le> length m"
  by (simp add: AList.delete_eq)

lemma length_gm_del:
  "gm_wf m \<Longrightarrow> gm_get m k \<noteq> None \<Longrightarrow> Suc (length (gm_del k m)) = length m"
proof (induction m)
  case (Cons p m)
  show ?case
  proof (cases "fst p = k")
    case True
    with Cons.prems have "k \<notin> fst ` set m" by (cases p) auto
    then have "gm_del k m = m" by (simp add: delete_id)
    with True show ?thesis by (cases p) simp
  next
    case False
    with Cons show ?thesis by (cases p) auto
  qed
qed simp

text \<open>The sum over the entries after one of them is replaced or added.\<close>

lemma sum_gm_put:
  "(\<Sum>(i, t)\<leftarrow>gm_put j t' m. g t) =
   (\<Sum>(i, t)\<leftarrow>m. g t) + g t' - (case gm_get m j of None \<Rightarrow> 0 | Some t \<Rightarrow> (g t :: 'b::ab_group_add))"
  by (induction m) auto

lemma set_gm_put: "set (gm_put k v m) \<subseteq> insert (k, v) (set m)"
  by (induction m) auto

lemma set_gm_get: "gm_wf m \<Longrightarrow> (k, v) \<in> set m \<longleftrightarrow> gm_get m k = Some v"
  by (simp add: map_of_eq_Some_iff)

section \<open>Slices\<close>

definition swap :: "'a list \<Rightarrow> nat \<Rightarrow> nat \<Rightarrow> 'a list" where
  "swap xs i j = xs[i := xs ! j, j := xs ! i]"

lemma length_swap [simp]: "length (swap xs i j) = length xs"
  by (simp add: swap_def)

lemma mset_swap_idx [simp]: "i < length xs \<Longrightarrow> j < length xs \<Longrightarrow> mset (swap xs i j) = mset xs"
  unfolding swap_def by (rule mset_swap)

lemma set_swap_idx [simp]: "i < length xs \<Longrightarrow> j < length xs \<Longrightarrow> set (swap xs i j) = set xs"
  using mset_swap_idx mset_eq_setD by blast

lemma nth_swap:
  "i < length xs \<Longrightarrow> j < length xs \<Longrightarrow> k < length xs \<Longrightarrow>
   swap xs i j ! k = (if k = i then xs ! j else if k = j then xs ! i else xs ! k)"
  by (auto simp: swap_def nth_list_update)

end
