(* ===== verification/BigFloat.thy ===== *)
theory BigFloat
  imports Prelude
begin

text \<open>
  The part of Go's \<open>math/big.Float\<close> that the exchange uses. A float is a mantissa precision and
  a value; the value of a finite float is a rational number (a dyadic one). Every operation
  computes exactly and then rounds to nearest, ties to even, at the precision of the receiver,
  as the library documents. Not modelled: infinities (no operation below produces one from
  finite operands but \<open>Quo\<close> by zero, which is \<open>None\<close>), the sign of zero, and the limit on the
  exponent, a 32-bit number.
\<close>

section \<open>Rounding\<close>

fun nbits :: "nat \<Rightarrow> nat" where
  "nbits n = (if n = 0 then 0 else Suc (nbits (n div 2)))"

declare nbits.simps [simp del]

lemma nbits_0 [simp]: "nbits 0 = 0"
  by (simp add: nbits.simps)

lemma nbits_bounds: "0 < n \<Longrightarrow> 2 ^ (nbits n - 1) \<le> n \<and> n < 2 ^ nbits n \<and> 0 < nbits n"
proof (induction n rule: nbits.induct)
  case (1 n)
  show ?case
  proof (cases "n = 1")
    case True
    then show ?thesis by (simp add: nbits.simps)
  next
    case False
    with 1 have m: "0 < n div 2" by auto
    with 1 have IH: "2 ^ (nbits (n div 2) - 1) \<le> n div 2" "n div 2 < 2 ^ nbits (n div 2)"
      "0 < nbits (n div 2)" by auto
    have n: "nbits n = Suc (nbits (n div 2))" using 1 by (subst nbits.simps) simp
    have "(2::nat) ^ nbits (n div 2) = 2 * 2 ^ (nbits (n div 2) - 1)"
      using IH(3) by (metis Suc_diff_1 power_Suc)
    moreover define P where "P = (2::nat) ^ (nbits (n div 2) - 1)"
    ultimately have b: "P \<le> n div 2" "n div 2 < 2 * P" using IH by simp_all
    have e: "(2::nat) ^ (nbits n - 1) = 2 * P" "(2::nat) ^ nbits n = 4 * P"
      using n IH(3) P_def power_Suc [of "2::nat" "nbits (n div 2) - 1"] by simp_all
    have "2 * P \<le> n" "n < 4 * P" using b by arith+
    with e n show ?thesis by simp
  qed
qed

text \<open>\<open>MantExp\<close>: the exponent \<open>e\<close> with \<open>2^(e-1) \<le> |x| < 2^e\<close>; 0 for 0.\<close>

definition bexp :: "rat \<Rightarrow> int" where
  "bexp x =
     (if x = 0 then 0
      else let q = quotient_of \<bar>x\<bar>;
               c = int (nbits (nat (fst q))) - int (nbits (nat (snd q)))
           in if 2 powi c \<le> \<bar>x\<bar> then c + 1 else c)"

lemma powi_pos [simp]: "(0::rat) < 2 powi e"
  by simp

lemma powi_Suc: "(2::rat) powi (e + 1) = 2 * 2 powi e"
  by (simp add: power_int_add)

lemma powi_pred: "2 * (2::rat) powi (e - 1) = 2 powi e"
  using powi_Suc [of "e - 1"] by simp

lemma powi_le: "(2::rat) powi a \<le> 2 powi b \<longleftrightarrow> a \<le> b"
  by (metis linorder_not_le one_less_numeral_iff power_int_strict_increasing
      power_int_increasing semiring_norm(76) order_less_imp_le)

lemma powi_less: "(2::rat) powi a < 2 powi b \<longleftrightarrow> a < b"
  by (meson linorder_not_le powi_le)

lemma bexp_bounds:
  assumes "x \<noteq> 0"
  shows "2 powi (bexp x - 1) \<le> \<bar>x\<bar> \<and> \<bar>x\<bar> < 2 powi bexp x"
proof -
  obtain n d where q: "quotient_of \<bar>x\<bar> = (n, d)" by fastforce
  have d: "0 < d" using q by (rule quotient_of_denom_pos)
  have x: "\<bar>x\<bar> = of_int n / of_int d" using q by (rule quotient_of_div)
  have n: "0 < n"
  proof -
    have "0 < \<bar>x\<bar>" using assms by simp
    then have nd: "(0::rat) < of_int n / of_int d" unfolding x .
    have "(0::rat) < of_int d" using d by simp
    with nd have "(0::rat) < of_int n" by (meson not_less_iff_gr_or_eq zero_less_divide_iff)
    then show ?thesis by simp
  qed
  obtain N D where N: "n = int N" and D: "d = int D"
    using n d by (metis nonneg_int_cases order_less_imp_le)
  define a b where "a = nbits N" and "b = nbits D"
  have an: "2 ^ (a - 1) \<le> N \<and> N < 2 ^ a \<and> 0 < a"
    unfolding a_def using n N by (intro nbits_bounds) simp
  have bd: "2 ^ (b - 1) \<le> D \<and> D < 2 ^ b \<and> 0 < b"
    unfolding b_def using d D by (intro nbits_bounds) simp
  have bits: "(2::rat) powi (int m - 1) \<le> of_nat M \<and> of_nat M < (2::rat) powi int m"
    if "2 ^ (m - 1) \<le> M \<and> M < 2 ^ m \<and> 0 < m" for m M
  proof -
    have "(of_nat (2 ^ (m - 1)) :: rat) \<le> of_nat M" "(of_nat M :: rat) < of_nat (2 ^ m)"
      using that by (simp_all only: of_nat_le_iff of_nat_less_iff)
    moreover have "(2::rat) powi (int m - 1) = 2 ^ (m - 1)"
    proof -
      have "int m - 1 = int (m - 1)" using that by simp
      then show ?thesis by (simp only: power_int_of_nat)
    qed
    ultimately show ?thesis by simp
  qed
  have nl: "(2::rat) powi (int a - 1) \<le> of_int n" and nu: "of_int n < (2::rat) powi int a"
    using bits [OF an] N by simp_all
  have dl: "(2::rat) powi (int b - 1) \<le> of_int d" and du: "of_int d < (2::rat) powi int b"
    using bits [OF bd] D by simp_all
  define c where "c = int a - int b"
  have lo: "2 powi (c - 1) \<le> \<bar>x\<bar>"
  proof -
    have "2 powi (c - 1) * of_int d \<le> (2::rat) powi (c - 1) * 2 powi int b"
      using du by simp
    also have "\<dots> = 2 powi (int a - 1)"
      by (subst power_int_add [symmetric]) (simp_all add: c_def)
    also have "\<dots> \<le> of_int n" by (rule nl)
    finally show ?thesis using d x by (simp add: le_divide_eq)
  qed
  have hi: "\<bar>x\<bar> < 2 powi (c + 1)"
  proof -
    have "of_int n < (2::rat) powi int a" by (rule nu)
    also have "\<dots> = 2 powi (c + 1) * 2 powi (int b - 1)"
      by (subst power_int_add [symmetric]) (simp_all add: c_def)
    also have "\<dots> \<le> 2 powi (c + 1) * of_int d" using dl by simp
    finally show ?thesis using d x by (simp add: divide_less_eq)
  qed
  have "bexp x = (if 2 powi c \<le> \<bar>x\<bar> then c + 1 else c)"
    using assms by (simp add: bexp_def q c_def a_def b_def N D Let_def)
  with lo hi show ?thesis by auto
qed

lemma bexp_unique: "2 powi (e - 1) \<le> \<bar>x\<bar> \<Longrightarrow> \<bar>x\<bar> < 2 powi e \<Longrightarrow> bexp x = e"
proof -
  assume a: "2 powi (e - 1) \<le> \<bar>x\<bar>" "\<bar>x\<bar> < 2 powi e"
  have "x \<noteq> 0"
  proof
    assume "x = 0"
    with a(1) have "(2::rat) powi (e - 1) \<le> 0" by simp
    with powi_pos [of "e - 1"] show False by linarith
  qed
  then have b: "2 powi (bexp x - 1) \<le> \<bar>x\<bar>" "\<bar>x\<bar> < 2 powi bexp x" using bexp_bounds by auto
  from a(1) b(2) have "(2::rat) powi (e - 1) < 2 powi bexp x" by linarith
  moreover from a(2) b(1) have "(2::rat) powi (bexp x - 1) < 2 powi e" by linarith
  ultimately show ?thesis by (simp add: powi_less)
qed

definition round_even :: "rat \<Rightarrow> int" where
  "round_even x =
     (let f = \<lfloor>x\<rfloor>; d = x - of_int f
      in if d < 1/2 then f else if 1/2 < d then f + 1 else if even f then f else f + 1)"

lemma round_even_of_int [simp]: "round_even (of_int k) = k"
  by (simp add: round_even_def)

lemma round_even_0 [simp]: "round_even 0 = 0"
  using round_even_of_int [of 0] by simp

lemma round_even_alt:
  "of_int f \<le> x \<Longrightarrow> x < of_int f + 1 \<Longrightarrow>
   round_even x = (if x - of_int f < 1/2 then f else if 1/2 < x - of_int f then f + 1
                   else if even f then f else f + 1)"
  using floor_unique [of f x] by (simp add: round_even_def Let_def)

lemma floor_split: obtains f where "of_int f \<le> x" "x < of_int f + (1::rat)"
  by (rule that [of "\<lfloor>x\<rfloor>"]) linarith+

lemma round_even_near: "\<bar>of_int (round_even x) - x\<bar> \<le> 1/2"
proof -
  obtain f where f: "of_int f \<le> x" "x < of_int f + 1" by (rule floor_split)
  then show ?thesis by (auto simp: round_even_alt [OF f] abs_if)
qed

lemma round_even_unique: "\<bar>r - of_int k\<bar> < 1/2 \<Longrightarrow> round_even r = k"
proof -
  assume "\<bar>r - of_int k\<bar> < 1/2"
  then have "\<bar>of_int (round_even r) - of_int k\<bar> < (1 :: rat)" using round_even_near [of r] by linarith
  then have "\<bar>round_even r - k\<bar> < 1" by (simp only: of_int_diff [symmetric] of_int_abs [symmetric] of_int_less_1_iff)
  then show ?thesis by simp
qed

lemma round_even_ge: "of_int k \<le> x \<Longrightarrow> k \<le> round_even x"
proof -
  assume "of_int k \<le> x"
  then have "k \<le> \<lfloor>x\<rfloor>" by (simp add: le_floor_iff)
  then show ?thesis by (auto simp: round_even_def Let_def)
qed

lemma round_even_le: "x \<le> of_int k \<Longrightarrow> round_even x \<le> k"
proof (cases "x = of_int k")
  case False
  assume "x \<le> of_int k"
  with False have "\<lfloor>x\<rfloor> < k" by (simp add: floor_less_iff)
  then show ?thesis by (auto simp: round_even_def Let_def)
qed simp

lemma round_even_mono: "x \<le> y \<Longrightarrow> round_even x \<le> round_even y"
proof -
  assume xy: "x \<le> y"
  show ?thesis
  proof (cases "\<lfloor>x\<rfloor> = \<lfloor>y\<rfloor>")
    case True
    with xy show ?thesis by (auto simp: round_even_def Let_def)
  next
    case False
    with xy have l: "\<lfloor>x\<rfloor> + 1 \<le> \<lfloor>y\<rfloor>" using floor_mono [OF xy] by linarith
    have "round_even x \<le> \<lfloor>x\<rfloor> + 1" by (auto simp: round_even_def Let_def)
    also have "\<dots> \<le> round_even y" using l by (auto simp: round_even_def Let_def)
    finally show ?thesis .
  qed
qed

lemma round_even_minus: "round_even (- x) = - round_even x"
proof -
  obtain f where f: "of_int f \<le> x" "x < of_int f + 1" by (rule floor_split)
  show ?thesis
  proof (cases "x = of_int f")
    case True
    then have "- x = of_int (- f)" by simp
    with True show ?thesis by (simp only: round_even_of_int)
  next
    case False
    with f have g: "of_int (- f - 1) \<le> - x" "- x < of_int (- f - 1) + 1" by auto
    show ?thesis unfolding round_even_alt [OF f] round_even_alt [OF g] by auto
  qed
qed

text \<open>\<open>fround p x\<close>: the \<open>p\<close>-bit value nearest to \<open>x\<close> (\<open>big.ToNearestEven\<close>).\<close>

definition fround :: "nat \<Rightarrow> rat \<Rightarrow> rat" where
  "fround p x =
     (if p = 0 \<or> x = 0 then 0
      else let u = 2 powi (bexp x - int p) in of_int (round_even (x / u)) * u)"

lemma fround_0 [simp]: "fround p 0 = 0" "fround 0 x = 0"
  by (simp_all add: fround_def)

lemma fround_minus: "fround p (- x) = - fround p x"
proof -
  have "bexp (- x) = bexp x" by (simp add: bexp_def)
  then show ?thesis by (simp add: fround_def Let_def round_even_minus)
qed

text \<open>The quotient \<open>|x|/u\<close> lies in \<open>[2^(p-1), 2^p)\<close>, and so does its rounding, up to \<open>2^p\<close>.\<close>

lemma fround_pos:
  assumes "0 < p" "0 < x"
  shows "2 powi (bexp x - 1) \<le> fround p x \<and> fround p x \<le> 2 powi bexp x"
proof -
  define u where "u = (2::rat) powi (bexp x - int p)"
  have u: "0 < u" by (simp add: u_def)
  have b: "2 powi (bexp x - 1) \<le> x" "x < 2 powi bexp x" using bexp_bounds [of x] assms by auto
  have l: "of_int (2 ^ (p - 1)) * u = 2 powi (bexp x - 1)"
  proof -
    have "(2::rat) powi (bexp x - 1) = 2 powi int (p - 1) * 2 powi (bexp x - int p)"
      using assms(1) by (subst power_int_add [symmetric]) (auto simp: of_nat_diff algebra_simps)
    then show ?thesis by (simp add: u_def)
  qed
  have h: "of_int (2 ^ p) * u = 2 powi bexp x"
  proof -
    have "(2::rat) powi bexp x = 2 powi int p * 2 powi (bexp x - int p)"
      by (subst power_int_add [symmetric]) auto
    then show ?thesis by (simp add: u_def)
  qed
  have "2 ^ (p - 1) \<le> round_even (x / u)"
    using b(1) u l by (intro round_even_ge) (simp add: le_divide_eq)
  then have "of_int (2 ^ (p - 1)) * u \<le> of_int (round_even (x / u)) * u"
    using u by (intro mult_right_mono) (simp_all only: of_int_le_iff order_less_imp_le)
  moreover have "round_even (x / u) \<le> 2 ^ p"
    using b(2) u h by (intro round_even_le) (simp add: divide_le_eq)
  then have "of_int (round_even (x / u)) * u \<le> of_int (2 ^ p) * u"
    using u by (intro mult_right_mono) (simp_all only: of_int_le_iff order_less_imp_le)
  moreover have "fround p x = of_int (round_even (x / u)) * u"
    using assms by (simp add: fround_def Let_def u_def)
  ultimately show ?thesis by (simp only: l h)
qed

lemma fround_gt_0 [simp]: "0 < p \<Longrightarrow> 0 < fround p x \<longleftrightarrow> 0 < x"
proof -
  assume p: "0 < p"
  have pos: "0 < fround p y" if "0 < y" for y
    using fround_pos [OF p that] powi_pos [of "bexp y - 1"] by linarith
  consider "0 < x" | "x = 0" | "0 < - x" by linarith
  then show ?thesis
  proof cases
    case 1 then show ?thesis using pos by simp
  next
    case 2 then show ?thesis by simp
  next
    case 3
    from pos [OF this] have "fround p x < 0" by (simp add: fround_minus)
    with 3 show ?thesis by simp
  qed
qed

lemma fround_lt_0 [simp]: "0 < p \<Longrightarrow> fround p x < 0 \<longleftrightarrow> x < 0"
  using fround_gt_0 [of p "- x"] by (simp add: fround_minus)

lemma fround_eq_0 [simp]: "0 < p \<Longrightarrow> fround p x = 0 \<longleftrightarrow> x = 0"
  using fround_gt_0 [of p x] fround_lt_0 [of p x] by (metis linorder_neqE_linordered_idom order_less_irrefl)

lemma fround_ge_0 [simp]: "0 < p \<Longrightarrow> 0 \<le> fround p x \<longleftrightarrow> 0 \<le> x"
  using fround_lt_0 [of p x] by (metis not_less)

lemma fround_nonneg: "0 \<le> x \<Longrightarrow> 0 \<le> fround p x"
  by (cases "p = 0") simp_all

section \<open>Exactness\<close>

text \<open>
  A value that is an integer multiple \<open>k\<close> of some power of two with \<open>|k| \<le> 2^p\<close> is kept as it is.
  This is what makes sums of quantities on a common binary grid exact.
\<close>

definition repr :: "nat \<Rightarrow> rat \<Rightarrow> bool" where
  "repr p x \<longleftrightarrow> (\<exists>k e. x = of_int k * 2 powi e \<and> \<bar>k\<bar> \<le> 2 ^ p)"

definition on_grid :: "int \<Rightarrow> rat \<Rightarrow> bool" where
  "on_grid g x \<longleftrightarrow> (\<exists>k. x = of_int k * 2 powi g)"

lemma fround_exact:
  assumes p: "0 < p" and g: "on_grid g x" and b: "\<bar>x\<bar> < 2 powi (g + int p)"
  shows "fround p x = x"
proof (cases "x = 0")
  case False
  obtain k where k: "x = of_int k * 2 powi g" using g by (auto simp: on_grid_def)
  have e: "2 powi (bexp x - 1) \<le> \<bar>x\<bar>" using bexp_bounds [OF False] by simp
  with b have "(2::rat) powi (bexp x - 1) < 2 powi (g + int p)" by linarith
  then have le: "bexp x \<le> g + int p" by (simp add: powi_less)
  define n where "n = nat (g - (bexp x - int p))"
  have "x / 2 powi (bexp x - int p) = of_int k * (2 powi g / 2 powi (bexp x - int p))"
    by (simp add: k)
  also have "(2::rat) powi g / 2 powi (bexp x - int p) = 2 powi int n"
    using le by (simp add: n_def power_int_diff [symmetric])
  finally have "x / 2 powi (bexp x - int p) = of_int (k * 2 ^ n)" by simp
  then have "fround p x = of_int (k * 2 ^ n) * 2 powi (bexp x - int p)"
    using p False by (simp only: fround_def Let_def round_even_of_int) simp
  also have "\<dots> = x" using \<open>x / 2 powi (bexp x - int p) = of_int (k * 2 ^ n)\<close>
    by (metis nonzero_eq_divide_eq power_int_not_zero zero_neq_numeral)
  finally show ?thesis .
qed simp

lemma on_grid_0 [simp]: "on_grid g 0"
  unfolding on_grid_def by (rule exI [of _ 0]) simp

lemma on_grid_add: "on_grid g x \<Longrightarrow> on_grid g y \<Longrightarrow> on_grid g (x + y)"
proof -
  assume "on_grid g x" "on_grid g y"
  then obtain a b where "x = of_int a * 2 powi g" "y = of_int b * 2 powi g"
    by (auto simp: on_grid_def)
  then have "x + y = of_int (a + b) * 2 powi g" by (simp add: algebra_simps)
  then show ?thesis unfolding on_grid_def by blast
qed

lemma on_grid_minus: "on_grid g x \<Longrightarrow> on_grid g (- x)"
  unfolding on_grid_def by (metis mult_minus_left of_int_minus)

lemma on_grid_diff: "on_grid g x \<Longrightarrow> on_grid g y \<Longrightarrow> on_grid g (x - y)"
  using on_grid_add [OF _ on_grid_minus, of g x y] by simp

lemma on_grid_int: "on_grid 0 (of_int k)"
  by (simp add: on_grid_def)

lemma fround_of_int: "0 < p \<Longrightarrow> \<bar>k\<bar> < 2 ^ p \<Longrightarrow> fround p (of_int k) = of_int k"
proof (rule fround_exact [where g = 0])
  assume "\<bar>k\<bar> < 2 ^ p"
  then have "(of_int \<bar>k\<bar> :: rat) < of_int (2 ^ p)" by (simp only: of_int_less_iff)
  then show "\<bar>of_int k :: rat\<bar> < 2 powi (0 + int p)" by simp
qed (simp_all add: on_grid_int)

lemma fround_numeral [simp]:
  "0 < p \<Longrightarrow> (numeral n :: int) < 2 ^ p \<Longrightarrow> fround p (numeral n) = numeral n"
  using fround_of_int [of p "numeral n"] by simp

lemma fround_neg_numeral [simp]:
  "0 < p \<Longrightarrow> (numeral n :: int) < 2 ^ p \<Longrightarrow> fround p (- numeral n) = - numeral n"
  by (simp add: fround_minus)

lemma fround_1 [simp]: "0 < p \<Longrightarrow> fround p 1 = 1"
  using fround_of_int [of p 1] by simp

section \<open>Order and error of rounding\<close>

lemma fround_mono: "x \<le> y \<Longrightarrow> fround p x \<le> fround p y"
proof -
  have pos: "fround p a \<le> fround p b" if ab: "0 < a" "a \<le> b" and p: "0 < p" for a b :: rat
  proof (cases "bexp a = bexp b")
    case True
    define u where "u = (2::rat) powi (bexp b - int p)"
    have "round_even (a / u) \<le> round_even (b / u)"
      using ab by (intro round_even_mono divide_right_mono) (simp_all add: u_def)
    then have "of_int (round_even (a / u)) * u \<le> of_int (round_even (b / u)) * u"
      by (intro mult_right_mono) (simp_all add: u_def)
    with ab p True show ?thesis by (simp add: fround_def Let_def u_def)
  next
    case False
    have "2 powi (bexp a - 1) \<le> a" "b < 2 powi bexp b"
      using bexp_bounds [of a] bexp_bounds [of b] ab by auto
    with ab have "(2::rat) powi (bexp a - 1) < 2 powi bexp b" by linarith
    with False have "bexp a \<le> bexp b - 1" by (simp add: powi_less)
    then have "(2::rat) powi bexp a \<le> 2 powi (bexp b - 1)" by (simp add: powi_le)
    moreover have "fround p a \<le> 2 powi bexp a" "2 powi (bexp b - 1) \<le> fround p b"
      using fround_pos [OF p] ab by auto
    ultimately show ?thesis by linarith
  qed
  assume xy: "x \<le> y"
  show ?thesis
  proof (cases "p = 0")
    case False
    then have p: "0 < p" by simp
    consider "0 < x" | "x \<le> 0" "0 \<le> y" | "y < 0" by linarith
    then show ?thesis
    proof cases
      case 1 with pos xy p show ?thesis by blast
    next
      case 2
      with p have "fround p x \<le> 0" "0 \<le> fround p y" by (simp_all add: linorder_not_less [symmetric])
      then show ?thesis by linarith
    next
      case 3
      from pos [of "- y" "- x"] 3 xy p show ?thesis by (simp add: fround_minus)
    qed
  qed simp
qed

lemma fround_error:
  assumes "0 < p"
  shows "\<bar>fround p x - x\<bar> \<le> \<bar>x\<bar> * 2 powi (- int p)"
proof (cases "x = 0")
  case False
  define u where "u = (2::rat) powi (bexp x - int p)"
  have u: "0 < u" by (simp add: u_def)
  have "fround p x - x = (of_int (round_even (x / u)) - x / u) * u"
    using False assms u by (simp add: fround_def Let_def u_def [symmetric] algebra_simps)
  then have "\<bar>fround p x - x\<bar> = \<bar>of_int (round_even (x / u)) - x / u\<bar> * u"
    using u by (simp add: abs_mult)
  also have "\<dots> \<le> 1/2 * u" using u by (intro mult_right_mono round_even_near) simp
  also have "\<dots> = 2 powi (bexp x - 1) * 2 powi (- int p)"
  proof -
    have "u = 2 * 2 powi (bexp x - int p - 1)"
      unfolding u_def using powi_pred [of "bexp x - int p"] by simp
    moreover have "(2::rat) powi (bexp x - int p - 1) = 2 powi (bexp x - 1) * 2 powi (- int p)"
      by (subst power_int_add [symmetric]) (simp_all add: algebra_simps)
    ultimately show ?thesis by simp
  qed
  also have "\<dots> \<le> \<bar>x\<bar> * 2 powi (- int p)"
    using bexp_bounds [OF False] by (intro mult_right_mono) auto
  finally show ?thesis .
qed simp

lemma fround_le: "x \<le> y \<Longrightarrow> fround p y = y \<Longrightarrow> fround p x \<le> y"
  by (metis fround_mono)

lemma fround_fround [simp]: "fround p (fround p x) = fround p x"
proof (cases "p = 0 \<or> x = 0")
  case True
  then show ?thesis by auto
next
  case False
  then have p: "0 < p" and x: "x \<noteq> 0" by auto
  define r u where "r = round_even (x / u)" and "u = (2::rat) powi (bexp x - int p)"
  have f: "fround p x = of_int r * 2 powi (bexp x - int p)"
    using p x by (simp add: fround_def Let_def r_def u_def)
  have le: "\<bar>fround p x\<bar> \<le> 2 powi bexp x"
  proof (cases "0 < x")
    case True
    then show ?thesis using fround_pos [OF p True] fround_nonneg [of x p] by simp
  next
    case False
    with x have m: "0 < - x" by simp
    have "bexp (- x) = bexp x" by (simp add: bexp_def)
    then show ?thesis using fround_pos [OF p m] fround_nonneg [of "- x" p] m
      by (simp add: fround_minus)
  qed
  show ?thesis
  proof (cases "\<bar>fround p x\<bar> < 2 powi bexp x")
    case True
    show ?thesis
      by (rule fround_exact [OF p, where g = "bexp x - int p"]) (use f True in \<open>auto simp: on_grid_def\<close>)
  next
    case False
    with le have "\<bar>fround p x\<bar> = 2 powi bexp x" by simp
    then have "fround p x = of_int 1 * 2 powi bexp x \<or> fround p x = of_int (- 1) * 2 powi bexp x"
      by (auto simp: abs_if split: if_splits)
    then have g: "on_grid (bexp x) (fround p x)" unfolding on_grid_def by blast
    show ?thesis
      by (rule fround_exact [OF p g]) (use le p powi_less [of "bexp x" "bexp x + int p"] in linarith)
  qed
qed

lemma fround_widen: "p \<le> p' \<Longrightarrow> fround p' (fround p v) = fround p v"
proof (cases "p = p' \<or> p = 0 \<or> v = 0")
  case False
  assume "p \<le> p'"
  define g where "g = bexp v - int p"
  have "on_grid g (fround p v)" using False by (auto simp: fround_def on_grid_def Let_def g_def)
  moreover have "\<bar>fround p v\<bar> \<le> 2 powi bexp v"
  proof -
    have "bexp (- v) = bexp v" by (simp add: bexp_def)
    then show ?thesis using False fround_pos [of p v] fround_pos [of p "- v"] powi_pos [of "bexp v - 1"]
      by (cases "0 < v") (simp_all add: fround_minus abs_if)
  qed
  moreover have "(2::rat) powi bexp v < 2 powi (g + int p')"
    using \<open>p \<le> p'\<close> False unfolding g_def powi_less by simp
  ultimately show ?thesis using \<open>p \<le> p'\<close> False by (intro fround_exact [of p' g]) auto
qed auto

text \<open>A value closer than half a unit of the last place to a value of the grid is rounded to it.\<close>

lemma fround_grid:
  assumes "0 < q" "d \<noteq> 0" "on_grid (bexp d - int q) v" "\<bar>d - v\<bar> < 2 powi (bexp d - int q - 1)"
  shows "fround q d = v"
proof -
  define u where "u = (2::rat) powi (bexp d - int q)"
  obtain k where k: "v = of_int k * u" using assms(3) by (auto simp: on_grid_def u_def)
  have u: "0 < u" by (simp add: u_def)
  have "\<bar>d - v\<bar> < u / 2" using assms(4) powi_pred [of "bexp d - int q"] by (simp add: u_def)
  moreover have "d / u - of_int k = (d - v) / u" using u by (simp add: k field_simps)
  ultimately have "\<bar>d / u - of_int k\<bar> < 1/2" using u by (simp add: abs_divide pos_divide_less_eq)
  then have "round_even (d / u) = k" by (rule round_even_unique)
  then show ?thesis using assms(1,2) by (simp add: fround_def Let_def k u_def)
qed

lemma on_grid_finer: "on_grid g v \<Longrightarrow> h \<le> g \<Longrightarrow> on_grid h v"
proof -
  assume g: "on_grid g v" and h: "h \<le> g"
  obtain k where k: "v = of_int k * 2 powi g" using g by (auto simp: on_grid_def)
  define n where "n = nat (g - h)"
  have "(2::rat) powi g / 2 powi h = 2 powi int n" using h by (simp add: n_def power_int_diff [symmetric])
  then have "v = of_int (k * 2 ^ n) * 2 powi h" by (simp add: k field_simps)
  then show ?thesis unfolding on_grid_def ..
qed

lemma on_grid_fround: "on_grid (bexp v - int p) (fround p v)"
  by (cases "p = 0 \<or> v = 0") (auto simp: fround_def on_grid_def Let_def)

text \<open>Closer than a quarter of the last place of a value that is kept: rounded to that value, also when it is a power of two.\<close>

lemma fround_near:
  assumes q: "0 < q" and v: "0 < v" "fround q v = v" and d: "\<bar>d - v\<bar> < 2 powi (bexp v - int q - 2)"
  shows "fround q d = v"
proof -
  define b where "b = bexp v"
  define u where "u = (2::rat) powi (b - int q - 2)"
  have u: "0 < u" "(2::rat) powi (b - int q) = 4 * u" "(2::rat) powi (b - int q - 1) = 2 * u"
    using powi_Suc [of "b - int q - 2"] powi_Suc [of "b - int q - 1"] by (simp_all add: u_def)
  have B: "2 powi (b - 1) \<le> v" "v < 2 powi b" using bexp_bounds [of v] v(1) by (simp_all add: b_def)
  have g: "on_grid (b - int q) v" using on_grid_fround [of v q] v(2) by (simp add: b_def)
  have lt: "\<bar>d - v\<bar> < u" using d by (simp add: b_def u_def)
  have ule: "u \<le> 2 powi (b - 3)" unfolding u_def powi_le using q by simp
  have half: "(2::rat) powi (b - 1) = 2 * 2 powi (b - 2)" "(2::rat) powi (b - 2) = 2 * 2 powi (b - 3)"
    using powi_Suc [of "b - 2"] powi_Suc [of "b - 3"] by simp_all
  have lo: "2 powi (b - 2) < d" using lt ule B(1) half powi_pos [of "b - 3"] by linarith
  then have pos: "0 < d" using powi_pos [of "b - 2"] by linarith
  have hi: "d < 2 powi b"
  proof -
    obtain k where k: "v = of_int k * (4 * u)" using g u(2) by (auto simp: on_grid_def)
    have top: "(2::rat) powi b = of_int (2 ^ q) * (4 * u)"
      using power_int_add [of "2::rat" "int q" "b - int q"] by (simp add: u(2))
    have "k < 2 ^ q" using B(2) u(1) unfolding k top by (simp only: mult_less_cancel_right_pos [of "4 * u"] of_int_less_iff)
    then have "of_int (k + 1) * (4 * u) \<le> of_int (2 ^ q) * (4 * u)" using u(1) by (intro mult_right_mono) (simp_all only: of_int_le_iff)
    then have "v + 4 * u \<le> 2 powi b" by (simp add: top k algebra_simps)
    then show ?thesis using lt u(1) by linarith
  qed
  show ?thesis
  proof (cases "2 powi (b - 1) \<le> d")
    case True
    have e: "bexp d = b" by (rule bexp_unique) (use True hi pos in simp_all)
    show ?thesis by (rule fround_grid [OF q]) (use pos g lt u in \<open>simp_all add: e\<close>)
  next
    case False
    have e: "bexp d = b - 1" by (rule bexp_unique) (use False lo pos in \<open>simp_all add: algebra_simps\<close>)
    have "on_grid (b - 1 - int q) v" by (rule on_grid_finer [OF g]) simp
    then show ?thesis by (intro fround_grid [OF q]) (use pos lt u_def in \<open>simp_all add: e algebra_simps\<close>)
  qed
qed

section \<open>big.Float\<close>

text \<open>
  \<open>new_float\<close> is \<open>new(big.Float)\<close>, a zero of precision 0: the receiver then takes the precision of
  its operands. \<open>NewFloat v\<close> has the 53 bits of a float64.
\<close>

datatype bf = BF (bprec: nat) (bval: rat)

abbreviation new_float :: bf where
  "new_float \<equiv> BF 0 0"

definition NewFloat :: "rat \<Rightarrow> bf" where
  "NewFloat v = BF 53 (fround 53 v)"

definition bf_set :: "bf \<Rightarrow> bf \<Rightarrow> bf" where
  "bf_set z x =
     (if bprec z = 0 then x
      else BF (bprec z) (if bprec z < bprec x then fround (bprec z) (bval x) else bval x))"

definition bf_setprec :: "bf \<Rightarrow> nat \<Rightarrow> bf" where
  "bf_setprec z p = BF p (if p < bprec z then fround p (bval z) else bval z)"

definition res_prec :: "bf \<Rightarrow> bf \<Rightarrow> bf \<Rightarrow> nat" where
  "res_prec z x y = (if bprec z = 0 then max (bprec x) (bprec y) else bprec z)"

definition bf_add :: "bf \<Rightarrow> bf \<Rightarrow> bf \<Rightarrow> bf" where
  "bf_add z x y = BF (res_prec z x y) (fround (res_prec z x y) (bval x + bval y))"

definition bf_sub :: "bf \<Rightarrow> bf \<Rightarrow> bf \<Rightarrow> bf" where
  "bf_sub z x y = BF (res_prec z x y) (fround (res_prec z x y) (bval x - bval y))"

definition bf_mul :: "bf \<Rightarrow> bf \<Rightarrow> bf \<Rightarrow> bf" where
  "bf_mul z x y = BF (res_prec z x y) (fround (res_prec z x y) (bval x * bval y))"

text \<open>Division by zero gives an infinity, or panics on 0/0; both leave the finite floats.\<close>

definition bf_quo :: "bf \<Rightarrow> bf \<Rightarrow> bf \<Rightarrow> bf option" where
  "bf_quo z x y =
     (if bval y = 0 then None
      else Some (BF (res_prec z x y) (fround (res_prec z x y) (bval x / bval y))))"

definition bf_neg :: "bf \<Rightarrow> bf \<Rightarrow> bf" where
  "bf_neg z x = (let s = bf_set z x in BF (bprec s) (- bval s))"

definition bf_abs :: "bf \<Rightarrow> bf \<Rightarrow> bf" where
  "bf_abs z x = (let s = bf_set z x in BF (bprec s) \<bar>bval s\<bar>)"

definition bf_sign :: "bf \<Rightarrow> int" where
  "bf_sign x = (if bval x < 0 then -1 else if 0 < bval x then 1 else 0)"

definition bf_cmp :: "bf \<Rightarrow> bf \<Rightarrow> int" where
  "bf_cmp x y = (if bval x < bval y then -1 else if bval y < bval x then 1 else 0)"

text \<open>A float's value always fits its precision.\<close>

definition bf_ok :: "bf \<Rightarrow> bool" where
  "bf_ok x \<longleftrightarrow> fround (bprec x) (bval x) = bval x"

lemma bf_sign_simps [simp]:
  "0 < bf_sign x \<longleftrightarrow> 0 < bval x" "bf_sign x \<le> 0 \<longleftrightarrow> bval x \<le> 0"
  "bf_sign x < 0 \<longleftrightarrow> bval x < 0" "bf_sign x = 0 \<longleftrightarrow> bval x = 0"
  by (auto simp: bf_sign_def)

lemma bf_cmp_simps [simp]:
  "0 < bf_cmp x y \<longleftrightarrow> bval y < bval x" "bf_cmp x y < 0 \<longleftrightarrow> bval x < bval y"
  "0 \<le> bf_cmp x y \<longleftrightarrow> bval y \<le> bval x" "bf_cmp x y \<le> 0 \<longleftrightarrow> bval x \<le> bval y"
  "bf_cmp x y = 0 \<longleftrightarrow> bval x = bval y"
  by (auto simp: bf_cmp_def)

lemma bf_ok_results [simp]:
  "bf_ok (BF p (fround p v))" "bf_ok (bf_add z x y)" "bf_ok (bf_sub z x y)" "bf_ok (bf_mul z x y)"
  by (simp_all add: bf_ok_def bf_add_def bf_sub_def bf_mul_def)

lemma bf_set_widen: "bprec x \<le> bprec z \<Longrightarrow> 0 < bprec z \<Longrightarrow> bf_set z x = BF (bprec z) (bval x)"
  by (simp add: bf_set_def)

lemma bprec_set: "0 < bprec z \<Longrightarrow> bprec (bf_set z x) = bprec z"
  by (simp add: bf_set_def)

end
