(* ===== verification/Decimal.thy ===== *)
theory Decimal
  imports BigFloat
begin

text \<open>
  Decimal text of floats: \<open>Float.Text('f', n)\<close>, which rounds the exact value to \<open>n\<close> decimals
  (ties to even), and \<open>Float.Parse(s, 10)\<close>, which rounds the decimal to the receiver's precision,
  64 bits when the receiver has none. Parsing is modelled for an optional sign, digits and an
  optional fraction, the form \<open>Text\<close> writes; a string with an exponent is outside the model.
\<close>

section \<open>Printing\<close>

definition digit :: "nat \<Rightarrow> char" where
  "digit d = char_of (48 + d)"

fun nat_text :: "nat \<Rightarrow> string" where
  "nat_text n = (if n < 10 then [digit n] else nat_text (n div 10) @ [digit (n mod 10)])"

declare nat_text.simps [simp del]

fun fixed_digits :: "nat \<Rightarrow> nat \<Rightarrow> string" where
  "fixed_digits 0 m = []"
| "fixed_digits (Suc k) m = fixed_digits k (m div 10) @ [digit (m mod 10)]"

definition text_f :: "nat \<Rightarrow> bf \<Rightarrow> string" where
  "text_f n x =
     (let k = nat (round_even (\<bar>bval x\<bar> * 10 ^ n))
      in (if bval x < 0 then ''-'' else []) @ nat_text (k div 10 ^ n) @
         (if n = 0 then [] else ''.'' @ fixed_digits n (k mod 10 ^ n)))"

section \<open>Parsing\<close>

definition is_digit :: "char \<Rightarrow> bool" where
  "is_digit c \<longleftrightarrow> 48 \<le> (of_char c :: nat) \<and> (of_char c :: nat) \<le> 57"

definition digit_val :: "char \<Rightarrow> nat" where
  "digit_val c = of_char c - 48"

fun scan_digits :: "nat \<Rightarrow> nat \<Rightarrow> string \<Rightarrow> nat \<times> nat \<times> string" where
  "scan_digits m n [] = (m, n, [])"
| "scan_digits m n (c # cs) =
     (if is_digit c then scan_digits (10 * m + digit_val c) (Suc n) cs else (m, n, c # cs))"

definition parse_udec :: "string \<Rightarrow> rat option" where
  "parse_udec s =
     (let (i, n1, r) = scan_digits 0 0 s;
          (m, n2, r') = (case r of c # cs \<Rightarrow> if c = CHR ''.'' then scan_digits i 0 cs else (i, 0, r)
                                 | [] \<Rightarrow> (i, 0, r))
      in if n1 + n2 = 0 \<or> r' \<noteq> [] then None else Some (of_nat m / 10 ^ n2))"

fun parse_dec :: "string \<Rightarrow> rat option" where
  "parse_dec [] = None"
| "parse_dec (c # cs) =
     (if c = CHR ''-'' then map_option uminus (parse_udec cs)
      else if c = CHR ''+'' then parse_udec cs else parse_udec (c # cs))"

definition bf_parse :: "bf \<Rightarrow> string \<Rightarrow> bf option" where
  "bf_parse z s =
     (let p = (if bprec z = 0 then 64 else bprec z)
      in map_option (\<lambda>v. BF p (fround p v)) (parse_dec s))"

section \<open>What is printed is parsed\<close>

lemma of_char_digit: "d < 10 \<Longrightarrow> (of_char (digit d) :: nat) = 48 + d"
  by (simp add: digit_def)

lemma digit_facts [simp]:
  "d < 10 \<Longrightarrow> is_digit (digit d)" "d < 10 \<Longrightarrow> digit_val (digit d) = d"
  by (simp_all add: is_digit_def digit_val_def of_char_digit)

abbreviation all_digits :: "string \<Rightarrow> bool" where
  "all_digits s \<equiv> list_all is_digit s"

abbreviation dec_val :: "nat \<Rightarrow> string \<Rightarrow> nat" where
  "dec_val \<equiv> foldl (\<lambda>m c. 10 * m + digit_val c)"

lemma scan_digits_append:
  "all_digits s \<Longrightarrow> scan_digits m n (s @ r) = scan_digits (dec_val m s) (n + length s) r"
  by (induction s arbitrary: m n) auto

lemma scan_digits_stop:
  "all_digits s \<Longrightarrow> r = [] \<or> \<not> is_digit (hd r) \<Longrightarrow>
   scan_digits m n (s @ r) = (dec_val m s, n + length s, r)"
  using scan_digits_append [of s m n r] by (cases r) auto

lemma nat_text_digits: "all_digits (nat_text n) \<and> nat_text n \<noteq> [] \<and> dec_val 0 (nat_text n) = n"
proof (induction n rule: nat_text.induct)
  case (1 n)
  then show ?case by (cases "n < 10") (simp_all add: nat_text.simps [of n])
qed

lemma fixed_digits_facts:
  "all_digits (fixed_digits k m) \<and> length (fixed_digits k m) = k \<and>
   dec_val a (fixed_digits k m) = a * 10 ^ k + m mod 10 ^ k"
proof (induction k arbitrary: m)
  case (Suc k)
  have "m mod (10 * 10 ^ k) = 10 * (m div 10 mod 10 ^ k) + m mod 10"
    by (rule mod_mult2_eq)
  with Suc show ?case by (simp add: algebra_simps)
qed simp

lemma not_digit_punct [simp]:
  "\<not> is_digit CHR ''.''" "\<not> is_digit CHR ''-''" "\<not> is_digit CHR ''+''"
  by (simp_all add: is_digit_def)

lemma parse_udec_text:
  "parse_udec (nat_text i @ (if n = 0 then [] else CHR ''.'' # fixed_digits n m)) =
   Some (of_nat (i * 10 ^ n + m mod 10 ^ n) / 10 ^ n)"
proof (cases n)
  case 0
  then show ?thesis
    using nat_text_digits [of i] scan_digits_stop [of "nat_text i" "[]" 0 0]
    by (auto simp: parse_udec_def)
next
  case (Suc k)
  have a: "scan_digits 0 0 (nat_text i @ CHR ''.'' # fixed_digits n m) =
      (i, length (nat_text i), CHR ''.'' # fixed_digits n m)"
    using nat_text_digits [of i] scan_digits_stop [of "nat_text i" "CHR ''.'' # fixed_digits n m" 0 0]
    by simp
  have b: "scan_digits i 0 (fixed_digits n m) = (i * 10 ^ n + m mod 10 ^ n, n, [])"
    using fixed_digits_facts [of n m i] scan_digits_stop [of "fixed_digits n m" "[]" i 0] by simp
  show ?thesis using Suc a b nat_text_digits [of i] by (simp add: parse_udec_def)
qed

lemma nat_text_no_sign: "nat_text n = c # cs \<Longrightarrow> c \<noteq> CHR ''-'' \<and> c \<noteq> CHR ''+''"
  using nat_text_digits [of n] by auto

lemma parse_text_nonneg:
  "parse_dec (nat_text i @ r) = parse_udec (nat_text i @ r)"
  using nat_text_digits [of i] nat_text_no_sign [of i] by (cases "nat_text i") auto

lemma parse_text_f:
  "parse_dec (text_f n x) = Some (of_int (round_even (bval x * 10 ^ n)) / 10 ^ n)"
proof -
  define k where "k = nat (round_even (\<bar>bval x\<bar> * 10 ^ n))"
  have "0 \<le> round_even (\<bar>bval x\<bar> * 10 ^ n)" using round_even_ge [of 0] by simp
  then have k: "(of_nat k :: rat) = of_int (round_even (\<bar>bval x\<bar> * 10 ^ n))"
    by (simp add: k_def)
  have km: "k div 10 ^ n * 10 ^ n + k mod 10 ^ n mod 10 ^ n = k"
    by (simp only: mod_mod_trivial div_mult_mod_eq)
  let ?b = "nat_text (k div 10 ^ n) @ (if n = 0 then [] else CHR ''.'' # fixed_digits n (k mod 10 ^ n))"
  have b: "parse_udec ?b = Some (of_nat k / 10 ^ n)" unfolding parse_udec_text km ..
  have t: "text_f n x = (if bval x < 0 then CHR ''-'' # ?b else ?b)"
    by (simp add: text_f_def Let_def k_def)
  show ?thesis
  proof (cases "bval x < 0")
    case True
    then have "\<bar>bval x\<bar> * 10 ^ n = - (bval x * 10 ^ n)" by simp
    with k have "(of_nat k :: rat) = - of_int (round_even (bval x * 10 ^ n))"
      by (simp only: round_even_minus of_int_minus)
    with True t b show ?thesis by simp
  next
    case False
    with k have "(of_nat k :: rat) = of_int (round_even (bval x * 10 ^ n))" by simp
    with False t b show ?thesis by (simp add: parse_text_nonneg)
  qed
qed

text \<open>A value with at most \<open>n\<close> decimals survives the round trip, up to the parser's precision.\<close>

lemma bf_parse_text_f:
  assumes "bval x * 10 ^ n = of_int k"
  shows "bf_parse z (text_f n x) =
    Some (let p = (if bprec z = 0 then 64 else bprec z) in BF p (fround p (bval x)))"
proof -
  have "of_int (round_even (bval x * 10 ^ n)) / 10 ^ n = bval x"
    using assms by (simp add: field_simps)
  then show ?thesis by (simp add: bf_parse_def parse_text_f Let_def)
qed

end
