(* ===== verification/Order_Model.thy ===== *)
theory Order_Model
  imports Decimal
begin

text \<open>
  \<open>internal/matching/order.go\<close>: the enumerations of an order, the order itself, trades and
  book levels. The enumerations are Go \<open>int8\<close> types, so each datatype has one constructor per
  named constant and one more that carries any other value (such values come out of the WAL).
  A \<open>*big.Float\<close> that the code tests for \<open>nil\<close> is an option. Times are nanoseconds since
  the epoch, kept as integers (the \<open>int64\<close> overflows in the year 2262).
\<close>

section \<open>Enumerations\<close>

datatype side = Buy | Sell | OtherSide "8 word"

fun side_String :: "side \<Rightarrow> string" where
  "side_String s = (if s = Buy then ''buy'' else ''sell'')"

fun side_Opposite :: "side \<Rightarrow> side" where
  "side_Opposite s = (if s = Buy then Sell else Buy)"

datatype order_type = Limit | Market | StopLoss | StopLimit | Iceberg | FillOrKill
  | ImmediateOrCancel | PostOnly | OtherType "8 word"

datatype time_in_force = GTC | IOC | FOK | GTD | OtherTIF "8 word"

datatype order_status = New | PartiallyFilled | Filled | Cancelled | Rejected | Expired
  | OtherStatus "8 word"

datatype stp_mode = STPDisabled | STPCancelTaker | STPCancelMaker | STPCancelBoth
  | OtherSTP "8 word"

fun status_String :: "order_status \<Rightarrow> string" where
  "status_String New = ''new''"
| "status_String PartiallyFilled = ''partially_filled''"
| "status_String Filled = ''filled''"
| "status_String Cancelled = ''cancelled''"
| "status_String Rejected = ''rejected''"
| "status_String Expired = ''expired''"
| "status_String (OtherStatus n) = ''unknown''"

fun type_String :: "order_type \<Rightarrow> string" where
  "type_String Limit = ''limit''"
| "type_String Market = ''market''"
| "type_String StopLoss = ''stop_loss''"
| "type_String StopLimit = ''stop_limit''"
| "type_String Iceberg = ''iceberg''"
| "type_String FillOrKill = ''fok''"
| "type_String ImmediateOrCancel = ''ioc''"
| "type_String PostOnly = ''post_only''"
| "type_String (OtherType n) = ''unknown''"

fun stp_String :: "stp_mode \<Rightarrow> string" where
  "stp_String STPCancelTaker = ''cancel_taker''"
| "stp_String STPCancelMaker = ''cancel_maker''"
| "stp_String STPCancelBoth = ''cancel_both''"
| "stp_String m = ''disabled''"

text \<open>The conversions \<open>int8(x)\<close> and \<open>T(n)\<close> that the WAL uses.\<close>

fun int8_of_side :: "side \<Rightarrow> 8 word" where
  "int8_of_side Buy = 1"
| "int8_of_side Sell = -1"
| "int8_of_side (OtherSide n) = n"

definition side_of_int8 :: "8 word \<Rightarrow> side" where
  "side_of_int8 n = (if n = 1 then Buy else if n = -1 then Sell else OtherSide n)"

fun int8_of_type :: "order_type \<Rightarrow> 8 word" where
  "int8_of_type Limit = 0"
| "int8_of_type Market = 1"
| "int8_of_type StopLoss = 2"
| "int8_of_type StopLimit = 3"
| "int8_of_type Iceberg = 4"
| "int8_of_type FillOrKill = 5"
| "int8_of_type ImmediateOrCancel = 6"
| "int8_of_type PostOnly = 7"
| "int8_of_type (OtherType n) = n"

definition type_of_int8 :: "8 word \<Rightarrow> order_type" where
  "type_of_int8 n =
     (if n = 0 then Limit else if n = 1 then Market else if n = 2 then StopLoss
      else if n = 3 then StopLimit else if n = 4 then Iceberg else if n = 5 then FillOrKill
      else if n = 6 then ImmediateOrCancel else if n = 7 then PostOnly else OtherType n)"

fun int8_of_tif :: "time_in_force \<Rightarrow> 8 word" where
  "int8_of_tif GTC = 0"
| "int8_of_tif IOC = 1"
| "int8_of_tif FOK = 2"
| "int8_of_tif GTD = 3"
| "int8_of_tif (OtherTIF n) = n"

definition tif_of_int8 :: "8 word \<Rightarrow> time_in_force" where
  "tif_of_int8 n =
     (if n = 0 then GTC else if n = 1 then IOC else if n = 2 then FOK else if n = 3 then GTD
      else OtherTIF n)"

fun int8_of_stp :: "stp_mode \<Rightarrow> 8 word" where
  "int8_of_stp STPDisabled = 0"
| "int8_of_stp STPCancelTaker = 1"
| "int8_of_stp STPCancelMaker = 2"
| "int8_of_stp STPCancelBoth = 3"
| "int8_of_stp (OtherSTP n) = n"

definition stp_of_int8 :: "8 word \<Rightarrow> stp_mode" where
  "stp_of_int8 n =
     (if n = 0 then STPDisabled else if n = 1 then STPCancelTaker else if n = 2 then STPCancelMaker
      else if n = 3 then STPCancelBoth else OtherSTP n)"

text \<open>A value is canonical when no named constant has its number.\<close>

definition canonical_enums :: "side \<Rightarrow> order_type \<Rightarrow> time_in_force \<Rightarrow> stp_mode \<Rightarrow> bool" where
  "canonical_enums s t f m \<longleftrightarrow>
     (\<forall>n. s = OtherSide n \<longrightarrow> n \<notin> {1, -1}) \<and> (\<forall>n. t = OtherType n \<longrightarrow> n \<notin> {0, 1, 2, 3, 4, 5, 6, 7}) \<and>
     (\<forall>n. f = OtherTIF n \<longrightarrow> n \<notin> {0, 1, 2, 3}) \<and> (\<forall>n. m = OtherSTP n \<longrightarrow> n \<notin> {0, 1, 2, 3})"

lemma enum_roundtrip:
  assumes "canonical_enums s t f m"
  shows "side_of_int8 (int8_of_side s) = s" "type_of_int8 (int8_of_type t) = t"
    "tif_of_int8 (int8_of_tif f) = f" "stp_of_int8 (int8_of_stp m) = m"
proof -
  show "side_of_int8 (int8_of_side s) = s"
    using assms by (cases s) (simp_all add: side_of_int8_def canonical_enums_def)
  show "type_of_int8 (int8_of_type t) = t"
    using assms by (cases t) (simp_all add: type_of_int8_def canonical_enums_def)
  show "tif_of_int8 (int8_of_tif f) = f"
    using assms by (cases f) (simp_all add: tif_of_int8_def canonical_enums_def)
  show "stp_of_int8 (int8_of_stp m) = m"
    using assms by (cases m) (simp_all add: stp_of_int8_def canonical_enums_def)
qed

section \<open>Money\<close>

definition DefaultPrecision :: nat where
  "DefaultPrecision = 128"

definition newBigFloat :: bf where
  "newBigFloat = BF DefaultPrecision 0"

definition newBigFloatCopy :: "bf option \<Rightarrow> bf option" where
  "newBigFloatCopy x = (case x of None \<Rightarrow> None | Some v \<Rightarrow> Some (bf_set newBigFloat v))"

section \<open>Orders, trades, levels\<close>

text \<open>The completion channel \<open>done\<close> of an order: none, open, or closed.\<close>

datatype done_chan = NoChan | OpenChan | ClosedChan

datatype order_err = WalAppendFailed

record order =
  o_ID :: string
  o_ClientOrderID :: string
  o_UserID :: string
  o_Pair :: string
  o_Side :: side
  o_Type :: order_type
  o_Price :: "bf option"
  o_StopPrice :: "bf option"
  o_Quantity :: "bf option"
  o_FilledQty :: bf
  o_RemainingQty :: "bf option"
  o_IcebergQty :: "bf option"
  o_VisibleQty :: "bf option"
  o_TIF :: time_in_force
  o_Status :: order_status
  o_CreatedAt :: int
  o_UpdatedAt :: int
  o_STP :: stp_mode
  o_PostOnly :: bool
  o_bookSeq :: "64 word"
  o_done :: done_chan
  o_Err :: "order_err option"

text \<open>\<open>NewOrder\<close>: \<open>uuid\<close> is the identifier the uuid package returns, \<open>now\<close> the clock.\<close>

definition NewOrder ::
  "string \<Rightarrow> int \<Rightarrow> string \<Rightarrow> string \<Rightarrow> side \<Rightarrow> order_type \<Rightarrow> bf option \<Rightarrow> bf option \<Rightarrow> order" where
  "NewOrder uuid now userID pair sd oType price quantity =
     \<lparr>o_ID = uuid, o_ClientOrderID = [], o_UserID = userID, o_Pair = pair, o_Side = sd,
      o_Type = oType, o_Price = newBigFloatCopy price, o_StopPrice = None,
      o_Quantity = newBigFloatCopy quantity, o_FilledQty = newBigFloat,
      o_RemainingQty = newBigFloatCopy quantity, o_IcebergQty = None, o_VisibleQty = None,
      o_TIF = GTC, o_Status = New, o_CreatedAt = now, o_UpdatedAt = now, o_STP = STPDisabled,
      o_PostOnly = (oType = PostOnly), o_bookSeq = 0, o_done = NoChan, o_Err = None\<rparr>"

record trade =
  t_ID :: string
  t_BuyOrderID :: string
  t_SellOrderID :: string
  t_BuyerID :: string
  t_SellerID :: string
  t_Pair :: string
  t_Price :: bf
  t_Quantity :: bf
  t_TakerSide :: side
  t_Fee :: bf
  t_CreatedAt :: int

record price_level =
  pl_Price :: bf
  pl_Quantity :: bf
  pl_Count :: nat

record book_depth =
  d_Pair :: string
  d_Bids :: "price_level list"
  d_Asks :: "price_level list"
  d_SeqNo :: "64 word"

text \<open>
  \<open>RemainingQty\<close> is dereferenced without a test once \<open>processOrder\<close> has replaced \<open>nil\<close>; the
  order book's invariant says it is never \<open>nil\<close> there.
\<close>

definition rem_q :: "order \<Rightarrow> bf" where
  "rem_q o' = (case o_RemainingQty o' of Some x \<Rightarrow> x | None \<Rightarrow> new_float)"

lemma newBigFloat_simps [simp]: "bprec newBigFloat = 128" "bval newBigFloat = 0"
  by (simp_all add: newBigFloat_def DefaultPrecision_def)

lemma rem_q_simps [simp]:
  "rem_q (o'\<lparr>o_RemainingQty := Some x\<rparr>) = x" "rem_q (o'\<lparr>o_FilledQty := f\<rparr>) = rem_q o'"
  "rem_q (o'\<lparr>o_Status := st\<rparr>) = rem_q o'" "rem_q (o'\<lparr>o_UpdatedAt := t\<rparr>) = rem_q o'"
  "rem_q (o'\<lparr>o_bookSeq := n\<rparr>) = rem_q o'" "rem_q (o'\<lparr>o_Type := ty\<rparr>) = rem_q o'"
  "rem_q (o'\<lparr>o_VisibleQty := v\<rparr>) = rem_q o'" "rem_q (o'\<lparr>o_done := d\<rparr>) = rem_q o'"
  "rem_q (o'\<lparr>o_Err := e\<rparr>) = rem_q o'"
  by (simp_all add: rem_q_def)

end
