(* ===== verification/Heap_Array.thy ===== *)
theory Heap_Array
  imports Prelude
begin

text \<open>
  Go's \<open>container/heap\<close> on a slice: \<open>up\<close>, \<open>down\<close>, \<open>Push\<close> and \<open>Pop\<close> as the library writes them,
  over a \<open>Less\<close> that may panic. The locale \<open>prio_order\<close> is the contract a client's \<open>Less\<close> has
  to meet (a strict weak order on the elements the heap admits); under it \<open>Push\<close> and \<open>Pop\<close>
  return, keep the heap order and the multiset of elements, and \<open>Pop\<close> removes a minimal one.
\<close>

section \<open>The operations\<close>

fun hup :: "('a \<Rightarrow> 'a \<Rightarrow> bool outcome) \<Rightarrow> 'a list \<Rightarrow> nat \<Rightarrow> 'a list outcome" where
  "hup lss xs j =
     (if (j - 1) div 2 = j then Done xs
      else obind (lss (xs ! j) (xs ! ((j - 1) div 2)))
        (\<lambda>b. if b then hup lss (swap xs ((j - 1) div 2) j) ((j - 1) div 2) else Done xs))"

definition hpush :: "('a \<Rightarrow> 'a \<Rightarrow> bool outcome) \<Rightarrow> 'a list \<Rightarrow> 'a \<Rightarrow> 'a list outcome" where
  "hpush lss xs x = hup lss (xs @ [x]) (length xs)"

text \<open>The smaller child of \<open>i\<close> among the first \<open>n\<close> elements, \<open>2 i + 1\<close> being one of them.\<close>

definition hchild :: "('a \<Rightarrow> 'a \<Rightarrow> bool outcome) \<Rightarrow> 'a list \<Rightarrow> nat \<Rightarrow> nat \<Rightarrow> nat outcome" where
  "hchild lss xs i n =
     (let j1 = 2 * i + 1; j2 = j1 + 1
      in if j2 < n then obind (lss (xs ! j2) (xs ! j1)) (\<lambda>b. Done (if b then j2 else j1))
         else Done j1)"

lemma hchild_cases: "hchild lss xs i n = Done j \<Longrightarrow> 2 * i + 1 < n \<Longrightarrow> (j = 2 * i + 1 \<or> j = 2 * i + 2) \<and> j < n"
  by (auto simp: hchild_def Let_def split: if_splits)

function hdown :: "('a \<Rightarrow> 'a \<Rightarrow> bool outcome) \<Rightarrow> 'a list \<Rightarrow> nat \<Rightarrow> nat \<Rightarrow> 'a list outcome" where
  "hdown lss xs i n =
     (if n \<le> 2 * i + 1 then Done xs
      else case hchild lss xs i n of
          Done j \<Rightarrow> obind (lss (xs ! j) (xs ! i)) (\<lambda>b. if b then hdown lss (swap xs i j) j n else Done xs)
        | Panicked \<Rightarrow> Panicked
        | OutOfFuel \<Rightarrow> OutOfFuel)"
  by pat_completeness auto
termination
  by (relation "measure (\<lambda>(lss, xs, i, n). n - i)") (auto dest: hchild_cases)

declare hup.simps [simp del] hdown.simps [simp del]

definition hpop :: "('a \<Rightarrow> 'a \<Rightarrow> bool outcome) \<Rightarrow> 'a list \<Rightarrow> ('a \<times> 'a list) outcome" where
  "hpop lss xs =
     (let n = length xs - 1
      in obind (hdown lss (swap xs 0 n) 0 n) (\<lambda>zs. Done (zs ! n, take n zs)))"

section \<open>Heap order\<close>

definition heap_upto :: "('a \<Rightarrow> 'a \<Rightarrow> bool) \<Rightarrow> 'a list \<Rightarrow> nat \<Rightarrow> bool" where
  "heap_upto lt xs n \<longleftrightarrow> (\<forall>k. 0 < k \<and> k < n \<longrightarrow> \<not> lt (xs ! k) (xs ! ((k - 1) div 2)))"

abbreviation heap_ord :: "('a \<Rightarrow> 'a \<Rightarrow> bool) \<Rightarrow> 'a list \<Rightarrow> bool" where
  "heap_ord lt xs \<equiv> heap_upto lt xs (length xs)"

lemma heap_upto_0 [simp]: "heap_upto lt xs 0"
  by (simp add: heap_upto_def)

lemma parent_less: "0 < k \<Longrightarrow> (k - 1) div 2 < (k::nat)"
  by arith

lemma parent_child: "(k - 1) div 2 = i \<Longrightarrow> 0 < k \<Longrightarrow> k = 2 * i + 1 \<or> k = 2 * i + (2::nat)"
  by arith

text \<open>The heap order only looks at the comparisons of the elements it holds.\<close>

lemma heap_ord_cong:
  assumes "\<And>a b. a \<in> set xs \<Longrightarrow> b \<in> set xs \<Longrightarrow> lt a b = lt' a b"
  shows "heap_ord lt xs = heap_ord lt' xs"
proof -
  have "lt (xs ! k) (xs ! ((k - 1) div 2)) = lt' (xs ! k) (xs ! ((k - 1) div 2))"
    if "0 < k" "k < length xs" for k
    using that parent_less [of k] by (intro assms) simp_all
  then show ?thesis by (auto simp: heap_upto_def)
qed

section \<open>The contract of Less\<close>

locale prio_order =
  fixes lss :: "'a \<Rightarrow> 'a \<Rightarrow> bool outcome"
    and lt :: "'a \<Rightarrow> 'a \<Rightarrow> bool"
    and adm :: "'a \<Rightarrow> bool"
  assumes less_lt: "adm a \<Longrightarrow> adm b \<Longrightarrow> lss a b = Done (lt a b)"
    and lt_asym: "adm a \<Longrightarrow> adm b \<Longrightarrow> lt a b \<Longrightarrow> \<not> lt b a"
    and le_trans: "adm a \<Longrightarrow> adm b \<Longrightarrow> adm c \<Longrightarrow> \<not> lt b a \<Longrightarrow> \<not> lt c b \<Longrightarrow> \<not> lt c a"
begin

lemma heap_root_least:
  assumes h: "heap_upto lt xs n" and a: "\<forall>x \<in> set xs. adm x" and n: "n \<le> length xs"
  shows "k < n \<Longrightarrow> \<not> lt (xs ! k) (xs ! 0)"
proof (induction k rule: less_induct)
  case (less k)
  have ad: "adm (xs ! i)" if "i < n" for i using that a n by simp
  show ?case
  proof (cases "k = 0")
    case True
    with less.prems ad lt_asym show ?thesis by blast
  next
    case False
    then have p: "(k - 1) div 2 < k" by (intro parent_less) simp
    with less have "\<not> lt (xs ! ((k - 1) div 2)) (xs ! 0)" by simp
    moreover have "\<not> lt (xs ! k) (xs ! ((k - 1) div 2))"
      using h False less.prems by (simp add: heap_upto_def)
    ultimately show ?thesis
      using le_trans [of "xs ! 0" "xs ! ((k - 1) div 2)" "xs ! k"] ad less.prems p by auto
  qed
qed

text \<open>\<open>up\<close>: heap order may fail only between \<open>j\<close> and its parent.\<close>

definition up_inv :: "'a list \<Rightarrow> nat \<Rightarrow> bool" where
  "up_inv xs j \<longleftrightarrow> j < length xs \<and> (\<forall>x \<in> set xs. adm x) \<and>
     (\<forall>k. 0 < k \<and> k < length xs \<and> k \<noteq> j \<longrightarrow> \<not> lt (xs ! k) (xs ! ((k - 1) div 2))) \<and>
     (\<forall>k. 0 < k \<and> k < length xs \<and> (k - 1) div 2 = j \<and> 0 < j \<longrightarrow> \<not> lt (xs ! k) (xs ! ((j - 1) div 2)))"

lemma up_inv_swap:
  assumes inv: "up_inv xs j" and j: "0 < j" and l: "lt (xs ! j) (xs ! ((j - 1) div 2))"
  shows "up_inv (swap xs ((j - 1) div 2) j) ((j - 1) div 2)"
proof -
  define i where "i = (j - 1) div 2"
  have i: "i < j" using j parent_less i_def by simp
  have jl: "j < length xs" using inv by (simp add: up_inv_def)
  have ad: "adm (xs ! k)" if "k < length xs" for k using inv that by (simp add: up_inv_def)
  have ok: "\<not> lt (xs ! k) (xs ! ((k - 1) div 2))" if "0 < k" "k < length xs" "k \<noteq> j" for k
    using inv that by (simp add: up_inv_def)
  have gp: "\<not> lt (xs ! k) (xs ! i)" if "0 < k" "k < length xs" "(k - 1) div 2 = j" for k
    using inv that j by (simp add: up_inv_def i_def)
  have ji: "\<not> lt (xs ! i) (xs ! j)" using l lt_asym ad jl i by (simp add: i_def)
  have sw: "swap xs i j ! k = (if k = i then xs ! j else if k = j then xs ! i else xs ! k)"
    if "k < length xs" for k using nth_swap [of i xs j k] that i jl by simp
  have c1: "\<not> lt (swap xs i j ! k) (swap xs i j ! ((k - 1) div 2))"
    if k: "0 < k" "k < length xs" "k \<noteq> i" for k
  proof -
    have pk: "(k - 1) div 2 < length xs" using parent_less [of k] k by simp
    consider "k = j" | "k \<noteq> j" "(k - 1) div 2 = j" | "k \<noteq> j" "(k - 1) div 2 = i"
      | "k \<noteq> j" "(k - 1) div 2 \<noteq> j" "(k - 1) div 2 \<noteq> i" by blast
    then show ?thesis
    proof cases
      case 1 then show ?thesis using k pk sw ji i by (simp add: i_def)
    next
      case 2 then show ?thesis using k pk sw gp i by simp
    next
      case 3
      then have "\<not> lt (xs ! k) (xs ! i)" using ok k by metis
      with 3 show ?thesis using k pk sw le_trans [of "xs ! j" "xs ! i" "xs ! k"] ji ad jl i by simp
    next
      case 4 then show ?thesis using k pk sw ok by simp
    qed
  qed
  have c2: "\<not> lt (swap xs i j ! k) (swap xs i j ! ((i - 1) div 2))"
    if k: "0 < k" "k < length xs" "(k - 1) div 2 = i" "0 < i" for k
  proof -
    have pi: "(i - 1) div 2 < i" using parent_less k by simp
    have pin: "\<not> lt (xs ! i) (xs ! ((i - 1) div 2))" using ok k i jl by simp
    have s: "swap xs i j ! ((i - 1) div 2) = xs ! ((i - 1) div 2)" using sw pi i jl by simp
    have ki: "k \<noteq> i" using parent_less [of k] k by auto
    show ?thesis
    proof (cases "k = j")
      case True then show ?thesis using sw k ki s pin by simp
    next
      case False
      then have "\<not> lt (xs ! k) (xs ! i)" using ok k by metis
      then show ?thesis
        using False sw k ki s pin pi i jl ad le_trans [of "xs ! ((i - 1) div 2)" "xs ! i" "xs ! k"] by simp
    qed
  qed
  have "set (swap xs i j) = set xs" using i jl by simp
  then have "\<forall>x \<in> set (swap xs i j). adm x" using inv by (simp add: up_inv_def)
  moreover have "i < length (swap xs i j)" using i jl by simp
  ultimately show ?thesis
    unfolding up_inv_def i_def [symmetric] length_swap using c1 c2 by blast
qed

lemma hup_ok: "up_inv xs j \<Longrightarrow> \<exists>ys. hup lss xs j = Done ys \<and> heap_ord lt ys \<and> mset ys = mset xs"
proof (induction j arbitrary: xs rule: less_induct)
  case (less j)
  have jl: "j < length xs" using less.prems by (simp add: up_inv_def)
  show ?case
  proof (cases "j = 0")
    case True
    then show ?thesis using less.prems by (auto simp: hup.simps up_inv_def heap_upto_def)
  next
    case False
    then have p: "(j - 1) div 2 < j" by (intro parent_less) simp
    have ad: "adm (xs ! j)" "adm (xs ! ((j - 1) div 2))"
      using less.prems jl p by (auto simp: up_inv_def)
    show ?thesis
    proof (cases "lt (xs ! j) (xs ! ((j - 1) div 2))")
      case True
      then have "up_inv (swap xs ((j - 1) div 2) j) ((j - 1) div 2)"
        using less.prems False by (intro up_inv_swap) simp_all
      from less.IH [OF p this] obtain ys where
        "hup lss (swap xs ((j - 1) div 2) j) ((j - 1) div 2) = Done ys" "heap_ord lt ys"
        "mset ys = mset (swap xs ((j - 1) div 2) j)" by blast
      then show ?thesis using p jl True ad by (subst hup.simps) (simp add: less_lt)
    next
      case n: False
      then have "heap_ord lt xs" using less.prems by (auto simp: up_inv_def heap_upto_def)
      then show ?thesis using p n ad by (subst hup.simps) (simp add: less_lt)
    qed
  qed
qed

lemma hpush_ok:
  assumes "heap_ord lt xs" and "\<forall>y \<in> set xs. adm y" and "adm x"
  shows "\<exists>ys. hpush lss xs x = Done ys \<and> heap_ord lt ys \<and> mset ys = add_mset x (mset xs)"
proof -
  have 1: "\<not> lt ((xs @ [x]) ! k) ((xs @ [x]) ! ((k - 1) div 2))" if "0 < k" "k < length xs" for k
    using that assms(1) parent_less [of k] by (simp add: nth_append heap_upto_def)
  have 2: False if "0 < k" "k < length (xs @ [x])" "(k - 1) div 2 = length xs" for k
    using that parent_less [of k] by simp
  have "up_inv (xs @ [x]) (length xs)"
    unfolding up_inv_def using assms(2,3) 1 2 by auto
  from hup_ok [OF this] show ?thesis by (simp add: hpush_def)
qed

text \<open>\<open>down\<close> on the first \<open>n\<close> elements: heap order may fail only between \<open>i\<close> and its children.\<close>

definition down_inv :: "'a list \<Rightarrow> nat \<Rightarrow> nat \<Rightarrow> bool" where
  "down_inv xs i n \<longleftrightarrow> n \<le> length xs \<and> (\<forall>x \<in> set xs. adm x) \<and>
     (\<forall>k. 0 < k \<and> k < n \<and> (k - 1) div 2 \<noteq> i \<longrightarrow> \<not> lt (xs ! k) (xs ! ((k - 1) div 2))) \<and>
     (\<forall>k. 0 < k \<and> k < n \<and> (k - 1) div 2 = i \<and> 0 < i \<longrightarrow> \<not> lt (xs ! k) (xs ! ((i - 1) div 2)))"

lemma hchild_ok:
  assumes a: "\<forall>x \<in> set xs. adm x" and n: "n \<le> length xs" and c: "2 * i + 1 < n"
  shows "\<exists>j. hchild lss xs i n = Done j \<and> (j = 2 * i + 1 \<or> j = 2 * i + 2) \<and> j < n \<and>
    (\<forall>k. 0 < k \<and> k < n \<and> (k - 1) div 2 = i \<longrightarrow> \<not> lt (xs ! k) (xs ! j))"
proof -
  have ad: "adm (xs ! k)" if "k < n" for k using that a n by simp
  have irr: "\<not> lt (xs ! k) (xs ! k)" if "k < n" for k using lt_asym ad [OF that] by blast
  have kids: "k = 2 * i + 1 \<or> k = 2 * i + 2" if "0 < k" "(k - 1) div 2 = i" for k
    using parent_child that by blast
  show ?thesis
  proof (cases "2 * i + 2 < n")
    case True
    with ad c have l: "lss (xs ! (2 * i + 2)) (xs ! (2 * i + 1)) =
        Done (lt (xs ! (2 * i + 2)) (xs ! (2 * i + 1)))" by (intro less_lt) simp_all
    show ?thesis
    proof (cases "lt (xs ! (2 * i + 2)) (xs ! (2 * i + 1))")
      case t: True
      have "hchild lss xs i n = Done (2 * i + 2)" using True l t by (simp add: hchild_def Let_def)
      moreover have "\<not> lt (xs ! k) (xs ! (2 * i + 2))" if "0 < k" "(k - 1) div 2 = i" for k
        using kids [OF that] t True irr lt_asym ad c by blast
      ultimately show ?thesis using True by blast
    next
      case f: False
      have "hchild lss xs i n = Done (2 * i + 1)" using True l f by (simp add: hchild_def Let_def)
      moreover have "\<not> lt (xs ! k) (xs ! (2 * i + 1))" if "0 < k" "(k - 1) div 2 = i" for k
        using kids [OF that] f irr c by blast
      ultimately show ?thesis using c by blast
    qed
  next
    case False
    have "hchild lss xs i n = Done (2 * i + 1)" using False by (simp add: hchild_def Let_def)
    moreover have "\<not> lt (xs ! k) (xs ! (2 * i + 1))" if "0 < k" "k < n" "(k - 1) div 2 = i" for k
      using kids [of k] that False irr c by blast
    ultimately show ?thesis using c by blast
  qed
qed

lemma down_inv_swap:
  assumes inv: "down_inv xs i n" and j: "j = 2 * i + 1 \<or> j = 2 * i + 2" "j < n"
    and least: "\<forall>k. 0 < k \<and> k < n \<and> (k - 1) div 2 = i \<longrightarrow> \<not> lt (xs ! k) (xs ! j)"
    and l: "lt (xs ! j) (xs ! i)"
  shows "down_inv (swap xs i j) j n"
proof -
  have pj: "(j - 1) div 2 = i" "0 < j" "i < j" using j by auto
  have nl: "n \<le> length xs" using inv by (simp add: down_inv_def)
  have ad: "adm (xs ! k)" if "k < n" for k using inv that by (simp add: down_inv_def)
  have ok: "\<not> lt (xs ! k) (xs ! ((k - 1) div 2))" if "0 < k" "k < n" "(k - 1) div 2 \<noteq> i" for k
    using inv that by (simp add: down_inv_def)
  have inn: "i < n" using pj(3) j(2) by linarith
  have ji: "\<not> lt (xs ! i) (xs ! j)" using lt_asym [OF ad [OF j(2)] ad [OF inn] l] .
  have sw: "swap xs i j ! k = (if k = i then xs ! j else if k = j then xs ! i else xs ! k)"
    if "k < n" for k using nth_swap [of i xs j k] that pj nl j by simp
  have c1: "\<not> lt (swap xs i j ! k) (swap xs i j ! ((k - 1) div 2))"
    if k: "0 < k" "k < n" "(k - 1) div 2 \<noteq> j" for k
  proof -
    have pk: "(k - 1) div 2 < n" using parent_less [of k] k by simp
    consider "k = j" | "k = i" | "k \<noteq> j" "(k - 1) div 2 = i" | "k \<noteq> j" "k \<noteq> i" "(k - 1) div 2 \<noteq> i"
      by blast
    then show ?thesis
    proof cases
      case 1 then show ?thesis using k pj sw [of j] sw [of i] ji j by simp
    next
      case 2
      then have "(k - 1) div 2 \<noteq> i" using parent_less [of k] k by auto
      moreover have "\<not> lt (xs ! j) (xs ! ((i - 1) div 2))"
        using inv j pj k 2 by (simp add: down_inv_def)
      ultimately show ?thesis using 2 sw [OF k(2)] sw [OF pk] k by simp
    next
      case 3
      then have "k \<noteq> i" using parent_less [of k] k by auto
      with 3 show ?thesis using sw [OF k(2)] sw [OF pk] least k by simp
    next
      case 4 then show ?thesis using sw [OF k(2)] sw [OF pk] ok k by simp
    qed
  qed
  have c2: "\<not> lt (swap xs i j ! k) (swap xs i j ! ((j - 1) div 2))"
    if k: "0 < k" "k < n" "(k - 1) div 2 = j" for k
  proof -
    have "k \<noteq> j" "k \<noteq> i" using parent_less [of k] k pj by auto
    moreover have "\<not> lt (xs ! k) (xs ! j)" using ok [of k] k pj by auto
    ultimately show ?thesis using sw [OF k(2)] sw [of i] pj j by simp
  qed
  have "set (swap xs i j) = set xs" using pj j nl by simp
  then have "\<forall>x \<in> set (swap xs i j). adm x" using inv by (simp add: down_inv_def)
  moreover have "n \<le> length (swap xs i j)" using nl by simp
  ultimately show ?thesis unfolding down_inv_def using c1 c2 by blast
qed

lemma hdown_ok:
  "down_inv xs i n \<Longrightarrow>
   \<exists>ys. hdown lss xs i n = Done ys \<and> heap_upto lt ys n \<and> mset ys = mset xs \<and> drop n ys = drop n xs"
proof (induction "n - i" arbitrary: xs i rule: less_induct)
  case less
  have nl: "n \<le> length xs" and ad: "\<forall>x \<in> set xs. adm x" using less.prems by (simp_all add: down_inv_def)
  show ?case
  proof (cases "2 * i + 1 < n")
    case False
    then have "(k - 1) div 2 \<noteq> i" if "0 < k" "k < n" for k using parent_child [of k i] that by linarith
    then have "heap_upto lt xs n" using less.prems by (auto simp: down_inv_def heap_upto_def)
    then show ?thesis using False by (subst hdown.simps) simp
  next
    case True
    then have i: "i < length xs" using nl by simp
    from hchild_ok [OF ad nl True] obtain j where
      hc: "hchild lss xs i n = Done j" "j = 2 * i + 1 \<or> j = 2 * i + 2" "j < n"
      and least: "\<forall>k. 0 < k \<and> k < n \<and> (k - 1) div 2 = i \<longrightarrow> \<not> lt (xs ! k) (xs ! j)" by blast
    have l: "lss (xs ! j) (xs ! i) = Done (lt (xs ! j) (xs ! i))"
      using ad nl hc(3) i by (intro less_lt) simp_all
    have un: "hdown lss xs i n = (if lt (xs ! j) (xs ! i) then hdown lss (swap xs i j) j n else Done xs)"
      using True hc(1) l by (subst hdown.simps) simp
    show ?thesis
    proof (cases "lt (xs ! j) (xs ! i)")
      case t: True
      have d: "down_inv (swap xs i j) j n" using less.prems hc least t by (intro down_inv_swap) simp_all
      have "n - j < n - i" using hc(2,3) by auto
      from less.hyps [OF this d] obtain ys where
        "hdown lss (swap xs i j) j n = Done ys" "heap_upto lt ys n" "mset ys = mset (swap xs i j)"
        "drop n ys = drop n (swap xs i j)" by blast
      moreover have "i < j" "j < length xs" using hc(2,3) nl by auto
      moreover have "drop n (swap xs i j) = drop n xs"
        using hc(3) \<open>i < j\<close> by (simp add: swap_def)
      ultimately show ?thesis using un t i by simp
    next
      case f: False
      have nf: "\<not> lt (xs ! k) (xs ! ((k - 1) div 2))" if k: "0 < k" "k < n" for k
      proof (cases "(k - 1) div 2 = i")
        case True
        then have "\<not> lt (xs ! k) (xs ! j)" using least k by blast
        then show ?thesis using f True le_trans [of "xs ! i" "xs ! j" "xs ! k"] ad nl hc(3) i k by simp
      next
        case False then show ?thesis using less.prems k by (simp add: down_inv_def)
      qed
      then show ?thesis using un f by (simp add: heap_upto_def)
    qed
  qed
qed

lemma hpop_ok:
  assumes h: "heap_ord lt xs" and a: "\<forall>x \<in> set xs. adm x" and ne: "xs \<noteq> []"
  shows "\<exists>ys. hpop lss xs = Done (xs ! 0, ys) \<and> heap_ord lt ys \<and> add_mset (xs ! 0) (mset ys) = mset xs"
proof -
  define n where "n = length xs - 1"
  have n: "n < length xs" "length xs = Suc n" using ne by (simp_all add: n_def)
  have sw: "swap xs 0 n ! k = (if k = 0 then xs ! n else if k = n then xs ! 0 else xs ! k)"
    if "k < length xs" for k using nth_swap [of 0 xs n k] that n by simp
  have "down_inv (swap xs 0 n) 0 n"
  proof -
    have "\<not> lt (swap xs 0 n ! k) (swap xs 0 n ! ((k - 1) div 2))"
      if k: "0 < k" "k < n" "(k - 1) div 2 \<noteq> 0" for k
    proof -
      have "(k - 1) div 2 < n" using parent_less [of k] k by simp
      then show ?thesis using sw [of k] sw [of "(k - 1) div 2"] k n h by (simp add: heap_upto_def)
    qed
    moreover have "\<forall>x \<in> set (swap xs 0 n). adm x" using a ne n by simp
    ultimately show ?thesis using n by (simp add: down_inv_def)
  qed
  from hdown_ok [OF this] obtain zs where
    z: "hdown lss (swap xs 0 n) 0 n = Done zs" "heap_upto lt zs n" "mset zs = mset (swap xs 0 n)"
      "drop n zs = drop n (swap xs 0 n)" by blast
  have len: "length zs = Suc n" using z(3) n mset_eq_length [of zs "swap xs 0 n"] by simp
  have "drop n zs = [zs ! n]" using len by (simp add: Cons_nth_drop_Suc [symmetric])
  moreover have "drop n (swap xs 0 n) = [swap xs 0 n ! n]"
    using n by (simp add: Cons_nth_drop_Suc [symmetric])
  ultimately have last: "zs ! n = xs ! 0" using z(4) sw [of n] n by (simp split: if_splits)
  have "mset zs = mset (take n zs @ [zs ! n])" using len by (simp flip: take_Suc_conv_app_nth)
  then have "add_mset (xs ! 0) (mset (take n zs)) = mset xs" using z(3) last ne n by simp
  moreover have "heap_ord lt (take n zs)"
    using z(2) len by (auto simp: heap_upto_def dest: parent_less)
  moreover have "hpop lss xs = Done (xs ! 0, take n zs)"
    using z(1) last unfolding hpop_def Let_def n_def [symmetric] by simp
  ultimately show ?thesis by blast
qed

end

end
