(* ===== verification/Order_Book.thy ===== *)
theory Order_Book
  imports Order_Model Heap_Array
begin

text \<open>
  \<open>internal/matching/orderbook.go\<close>. Orders are heap objects that the book, the two price-time
  heaps, the stop list and the engine share, so the state has a store from references to
  orders. The locks of the source make each operation atomic; an operation here is the body
  run under the lock.
\<close>

section \<open>State\<close>

type_synonym ref = nat

text \<open>
  \<open>store\<close> and \<open>nextref\<close> are the allocated orders, \<open>clock\<close> is what \<open>nowNanos\<close> returns; the other
  fields are those of \<open>OrderBook\<close>. The two heaps are the slices \<open>bids.orders\<close> and \<open>asks.orders\<close>.
\<close>

record book =
  store :: "ref \<Rightarrow> order"
  nextref :: ref
  clock :: int
  ob_Pair :: string
  bids :: "ref list"
  asks :: "ref list"
  orders :: "(string, ref) gomap"
  userOrders :: "(string, (string, unit) gomap) gomap"
  seqNo :: "64 word"
  lastTradePrice :: "bf option"
  stops :: "ref list"

definition NewOrderBook :: "(ref \<Rightarrow> order) \<Rightarrow> string \<Rightarrow> book" where
  "NewOrderBook st pair =
     \<lparr>store = st, nextref = 0, clock = 0, ob_Pair = pair, bids = [], asks = [], orders = [],
      userOrders = [], seqNo = 0, lastTradePrice = Some (NewFloat 0), stops = []\<rparr>"

definition upd_order :: "ref \<Rightarrow> (order \<Rightarrow> order) \<Rightarrow> 'a book_scheme \<Rightarrow> 'a book_scheme" where
  "upd_order r f s = s\<lparr>store := (store s)(r := f (store s r))\<rparr>"

text \<open>Allocation of a new order, \<open>&Order{...}\<close>.\<close>

definition alloc :: "order \<Rightarrow> 'a book_scheme \<Rightarrow> ref \<times> 'a book_scheme" where
  "alloc v s = (nextref s, s\<lparr>store := (store s)(nextref s := v), nextref := Suc (nextref s)\<rparr>)"

section \<open>Price-time priority\<close>

text \<open>\<open>OrderHeap.Less\<close>: \<open>Cmp\<close> on a \<open>nil\<close> price panics.\<close>

definition order_less :: "side \<Rightarrow> (ref \<Rightarrow> order) \<Rightarrow> ref \<Rightarrow> ref \<Rightarrow> bool outcome" where
  "order_less sd st a b =
     (case (o_Price (st a), o_Price (st b)) of
        (Some p, Some q) \<Rightarrow>
          Done (let c = bf_cmp p q
                in if c \<noteq> 0 then (if sd = Buy then 0 < c else c < 0)
                   else o_bookSeq (st a) < o_bookSeq (st b))
      | _ \<Rightarrow> Panicked)"

text \<open>The same order on priced elements, as a relation.\<close>

definition price_of :: "order \<Rightarrow> rat" where
  "price_of v = (case o_Price v of Some p \<Rightarrow> bval p | None \<Rightarrow> 0)"

definition order_lt :: "side \<Rightarrow> (ref \<Rightarrow> order) \<Rightarrow> ref \<Rightarrow> ref \<Rightarrow> bool" where
  "order_lt sd st a b \<longleftrightarrow>
     (if price_of (st a) = price_of (st b) then o_bookSeq (st a) < o_bookSeq (st b)
      else if sd = Buy then price_of (st b) < price_of (st a) else price_of (st a) < price_of (st b))"

interpretation book_heap: prio_order
  "order_less sd st" "order_lt sd st" "\<lambda>r. o_Price (st r) \<noteq> None"
  for sd :: side and st :: "ref \<Rightarrow> order"
proof
  show "order_less sd st a b = Done (order_lt sd st a b)"
    if "o_Price (st a) \<noteq> None" "o_Price (st b) \<noteq> None" for a b
    using that by (auto simp: order_less_def order_lt_def price_of_def Let_def bf_cmp_def)
  show "\<not> order_lt sd st b a" if "order_lt sd st a b" for a b
    using that by (auto simp: order_lt_def split: if_splits)
  show "\<not> order_lt sd st c a" if "\<not> order_lt sd st b a" "\<not> order_lt sd st c b" for a b c
    using that by (auto simp: order_lt_def split: if_splits)
qed

definition side_heap :: "side \<Rightarrow> 'a book_scheme \<Rightarrow> ref list" where
  "side_heap sd s = (if sd = Buy then bids s else asks s)"

definition set_side_heap :: "side \<Rightarrow> ref list \<Rightarrow> 'a book_scheme \<Rightarrow> 'a book_scheme" where
  "set_side_heap sd h s = (if sd = Buy then s\<lparr>bids := h\<rparr> else s\<lparr>asks := h\<rparr>)"

section \<open>The per-user index\<close>

definition indexAdd :: "order \<Rightarrow> 'a book_scheme \<Rightarrow> 'a book_scheme" where
  "indexAdd v s =
     (let ids = (case gm_get (userOrders s) (o_UserID v) of None \<Rightarrow> [] | Some ids \<Rightarrow> ids)
      in s\<lparr>userOrders := gm_put (o_UserID v) (gm_put (o_ID v) () ids) (userOrders s)\<rparr>)"

definition indexRemove :: "order \<Rightarrow> 'a book_scheme \<Rightarrow> 'a book_scheme" where
  "indexRemove v s =
     (case gm_get (userOrders s) (o_UserID v) of
        None \<Rightarrow> s
      | Some ids \<Rightarrow>
          let ids' = gm_del (o_ID v) ids
          in if ids' = [] then s\<lparr>userOrders := gm_del (o_UserID v) (userOrders s)\<rparr>
             else s\<lparr>userOrders := gm_put (o_UserID v) ids' (userOrders s)\<rparr>)"

section \<open>Adding and removing\<close>

definition next_seq :: "ref \<Rightarrow> 'a book_scheme \<Rightarrow> 'a book_scheme" where
  "next_seq r s =
     (let s' = s\<lparr>seqNo := seqNo s + 1\<rparr>
      in if o_bookSeq (store s r) = 0 then upd_order r (\<lambda>v. v\<lparr>o_bookSeq := seqNo s + 1\<rparr>) s' else s')"

definition addStop :: "ref \<Rightarrow> 'a book_scheme \<Rightarrow> 'a book_scheme" where
  "addStop r s = next_seq r (s\<lparr>stops := stops s @ [r]\<rparr>)"

definition addLocked :: "ref \<Rightarrow> 'a book_scheme \<Rightarrow> 'a book_scheme outcome" where
  "addLocked r s =
     (let s1 = next_seq r s;
          s2 = s1\<lparr>orders := gm_put (o_ID (store s1 r)) r (orders s1)\<rparr>;
          s3 = indexAdd (store s2 r) s2;
          sd = (if o_Side (store s3 r) = Buy then Buy else Sell)
      in obind (hpush (order_less sd (store s3)) (side_heap sd s3) r)
           (\<lambda>h. Done (set_side_heap sd h s3)))"

definition removeLocked :: "string \<Rightarrow> 'a book_scheme \<Rightarrow> ref option \<times> 'a book_scheme" where
  "removeLocked orderID s =
     (case gm_get (orders s) orderID of
        None \<Rightarrow> (None, s)
      | Some r \<Rightarrow>
          let s1 = s\<lparr>orders := gm_del orderID (orders s)\<rparr>;
              s2 = indexRemove (store s1 r) s1;
              s3 = upd_order r (\<lambda>v. v\<lparr>o_Status := Cancelled, o_UpdatedAt := clock s\<rparr>) s2
          in (Some r, s3\<lparr>seqNo := seqNo s3 + 1\<rparr>))"

fun find_stop :: "(ref \<Rightarrow> order) \<Rightarrow> string \<Rightarrow> ref list \<Rightarrow> (ref \<times> ref list) option" where
  "find_stop st orderID [] = None"
| "find_stop st orderID (r # rs) =
     (if o_ID (st r) = orderID then Some (r, rs)
      else map_option (\<lambda>(x, ys). (x, r # ys)) (find_stop st orderID rs))"

definition RemoveStop :: "string \<Rightarrow> 'a book_scheme \<Rightarrow> ref option \<times> 'a book_scheme" where
  "RemoveStop orderID s =
     (case find_stop (store s) orderID (stops s) of
        None \<Rightarrow> (None, s)
      | Some (r, rest) \<Rightarrow>
          let s1 = upd_order r (\<lambda>v. v\<lparr>o_Status := Cancelled, o_UpdatedAt := clock s\<rparr>) (s\<lparr>stops := rest\<rparr>)
          in (Some r, s1\<lparr>seqNo := seqNo s1 + 1\<rparr>))"

definition StopCount :: "'a book_scheme \<Rightarrow> nat" where
  "StopCount s = length (stops s)"

definition GetOrder :: "string \<Rightarrow> 'a book_scheme \<Rightarrow> ref option" where
  "GetOrder orderID s = gm_get (orders s) orderID"

definition GetOrdersByUser :: "string \<Rightarrow> 'a book_scheme \<Rightarrow> ref list" where
  "GetOrdersByUser userID s =
     (case gm_get (userOrders s) userID of
        None \<Rightarrow> []
      | Some ids \<Rightarrow> List.map_filter (\<lambda>(id, u). gm_get (orders s) id) ids)"

definition Size :: "'a book_scheme \<Rightarrow> nat" where
  "Size s = length (orders s)"

definition LastTradePrice :: "'a book_scheme \<Rightarrow> bf option" where
  "LastTradePrice s = lastTradePrice s"

text \<open>\<open>new(big.Float).Copy(p)\<close> dereferences \<open>p\<close>.\<close>

definition setLastTradePrice :: "bf option \<Rightarrow> 'a book_scheme \<Rightarrow> 'a book_scheme outcome" where
  "setLastTradePrice p s = obind (of_option p) (\<lambda>v. Done (s\<lparr>lastTradePrice := Some v\<rparr>))"

section \<open>Best orders\<close>

text \<open>An entry of a heap is stale when its order left the map or has nothing remaining.\<close>

definition is_live :: "'a book_scheme \<Rightarrow> ref \<Rightarrow> bool" where
  "is_live s r \<longleftrightarrow> gm_get (orders s) (o_ID (store s r)) \<noteq> None \<and> 0 < bf_sign (rem_q (store s r))"

lemma length_hup: "hup lss xs j = Done ys \<Longrightarrow> length ys = length xs"
proof (induction lss xs j rule: hup.induct)
  case (1 lss xs j)
  from "1.prems" show ?case
    by (subst (asm) hup.simps) (auto split: if_splits dest!: "1.IH" [simplified])
qed

lemma length_hdown: "hdown lss xs i n = Done ys \<Longrightarrow> length ys = length xs"
proof (induction lss xs i n rule: hdown.induct)
  case (1 lss xs i n)
  from "1.prems" show ?case
    by (subst (asm) hdown.simps) (auto split: if_splits outcome.splits dest!: "1.IH" [simplified])
qed

lemma length_hpop: "hpop lss xs = Done (x, ys) \<Longrightarrow> xs \<noteq> [] \<Longrightarrow> length ys < length xs"
  by (auto simp: hpop_def Let_def dest!: length_hdown)

text \<open>\<open>bestBidLocked\<close> and \<open>bestAskLocked\<close>: pop stale entries until a live one is on top.\<close>

function best_loop :: "side \<Rightarrow> 'a book_scheme \<Rightarrow> ref list \<Rightarrow> (ref option \<times> ref list) outcome" where
  "best_loop sd s [] = Done (None, [])"
| "best_loop sd s (t # h) =
     (if is_live s t then Done (Some t, t # h)
      else obind (hpop (order_less sd (store s)) (t # h)) (\<lambda>(x, h'). best_loop sd s h'))"
  by pat_completeness auto
termination
  by (relation "measure (\<lambda>(sd, s, h). length h)") (auto dest!: length_hpop)

definition bestLocked :: "side \<Rightarrow> 'a book_scheme \<Rightarrow> (ref option \<times> 'a book_scheme) outcome" where
  "bestLocked sd s =
     obind (best_loop sd s (side_heap sd s)) (\<lambda>(b, h). Done (b, set_side_heap sd h s))"

definition bestBidLocked :: "'a book_scheme \<Rightarrow> (ref option \<times> 'a book_scheme) outcome" where
  "bestBidLocked s = bestLocked Buy s"

definition bestAskLocked :: "'a book_scheme \<Rightarrow> (ref option \<times> 'a book_scheme) outcome" where
  "bestAskLocked s = bestLocked Sell s"

text \<open>\<open>PopBestBid\<close> and \<open>PopBestAsk\<close>.\<close>

function pop_loop :: "side \<Rightarrow> 'a book_scheme \<Rightarrow> ref list \<Rightarrow> (ref option \<times> ref list) outcome" where
  "pop_loop sd s [] = Done (None, [])"
| "pop_loop sd s (t # h) =
     obind (hpop (order_less sd (store s)) (t # h))
       (\<lambda>(x, h'). if is_live s x then Done (Some x, h') else pop_loop sd s h')"
  by pat_completeness auto
termination
  by (relation "measure (\<lambda>(sd, s, h). length h)") (auto dest!: length_hpop)

definition popBest :: "side \<Rightarrow> 'a book_scheme \<Rightarrow> (ref option \<times> 'a book_scheme) outcome" where
  "popBest sd s =
     obind (pop_loop sd s (side_heap sd s)) (\<lambda>(b, h).
       let s1 = set_side_heap sd h s
       in case b of
            None \<Rightarrow> Done (None, s1)
          | Some r \<Rightarrow>
              let s2 = indexRemove (store s1 r) (s1\<lparr>orders := gm_del (o_ID (store s1 r)) (orders s1)\<rparr>)
              in Done (Some r, s2\<lparr>seqNo := seqNo s2 + 1\<rparr>))"

end
