(* ===== verification/Market_Data.thy ===== *)
theory Market_Data
  imports Order_Model
begin

text \<open>
  \<open>internal/matching/marketdata.go\<close>: the recorder of trades, with its rolling 24h window, the
  set of ids it has seen, OHLCV candles per interval, and the ticker. Time arguments are what
  \<open>timeNowUnixNano\<close> returned.
\<close>

section \<open>Intervals\<close>

definition intervalSeconds :: "(string, int) gomap" where
  "intervalSeconds =
     [(''1s'', 1), (''1m'', 60), (''3m'', 180), (''5m'', 300), (''15m'', 900), (''30m'', 1800),
      (''1h'', 3600), (''2h'', 7200), (''4h'', 14400), (''6h'', 21600), (''8h'', 28800),
      (''12h'', 43200), (''1d'', 86400), (''3d'', 259200), (''1w'', 604800), (''1M'', 2592000)]"

definition IntervalSeconds :: "string \<Rightarrow> int" where
  "IntervalSeconds i = (case gm_get intervalSeconds i of None \<Rightarrow> 0 | Some n \<Rightarrow> n)"

definition IntervalNames :: "string list" where
  "IntervalNames = sort_key IntervalSeconds (map fst intervalSeconds)"

section \<open>Recorder\<close>

record candle =
  c_Pair :: string
  c_Interval :: string
  c_Open :: bf
  c_High :: bf
  c_Low :: bf
  c_Close :: bf
  c_Volume :: bf
  c_Timestamp :: int
  c_CloseTime :: int

record md_recorder =
  md_pair :: string
  md_trades :: "trade list"
  md_seen :: "(string, unit) gomap"
  md_candles :: "(string, candle list) gomap"
  md_maxTrades :: nat
  md_maxCandles :: nat

definition NewMarketDataRecorder :: "string \<Rightarrow> md_recorder" where
  "NewMarketDataRecorder pair =
     \<lparr>md_pair = pair, md_trades = [], md_seen = [], md_candles = [], md_maxTrades = 100000,
      md_maxCandles = 1500\<rparr>"

text \<open>A copy at the default precision, of a value that is not nil.\<close>

abbreviation bf128 :: "bf \<Rightarrow> bf" where
  "bf128 x \<equiv> bf_set newBigFloat x"

text \<open>Go's integer division truncates towards zero.\<close>

definition go_div :: "int \<Rightarrow> int \<Rightarrow> int" where
  "go_div a b = sgn a * sgn b * (\<bar>a\<bar> div \<bar>b\<bar>)"

definition new_candle :: "string \<Rightarrow> string \<Rightarrow> trade \<Rightarrow> int \<Rightarrow> int \<Rightarrow> candle" where
  "new_candle pair interval t ts closeTime =
     \<lparr>c_Pair = pair, c_Interval = interval, c_Open = bf128 (t_Price t), c_High = bf128 (t_Price t),
      c_Low = bf128 (t_Price t), c_Close = bf128 (t_Price t), c_Volume = bf128 (t_Quantity t),
      c_Timestamp = ts, c_CloseTime = closeTime\<rparr>"

definition bump_candle :: "trade \<Rightarrow> int \<Rightarrow> candle \<Rightarrow> candle" where
  "bump_candle t closeTime c =
     c\<lparr>c_High := (if 0 < bf_cmp (t_Price t) (c_High c) then bf128 (t_Price t) else c_High c),
       c_Low := (if bf_cmp (t_Price t) (c_Low c) < 0 then bf128 (t_Price t) else c_Low c),
       c_Close := bf128 (t_Price t),
       c_Volume := bf_add (c_Volume c) (c_Volume c) (t_Quantity t),
       c_CloseTime := closeTime\<rparr>"

text \<open>The last \<open>n\<close> elements of a slice, \<open>xs[len(xs)-n:]\<close>.\<close>

definition keep_last :: "nat \<Rightarrow> 'a list \<Rightarrow> 'a list" where
  "keep_last n xs = drop (length xs - n) xs"

definition candle_series :: "md_recorder \<Rightarrow> trade \<Rightarrow> string \<Rightarrow> int \<Rightarrow> candle list \<Rightarrow> candle list" where
  "candle_series r t interval bucket series =
     (let ns = bucket * 1000000000;
          ts = go_div (t_CreatedAt t) ns * ns;
          closeTime = ts + ns - 1
      in if series \<noteq> [] \<and> c_Timestamp (last series) = ts
         then butlast series @ [bump_candle t closeTime (last series)]
         else keep_last (md_maxCandles r) (series @ [new_candle (md_pair r) interval t ts closeTime]))"

fun updateCandles :: "(string \<times> int) list \<Rightarrow> trade \<Rightarrow> md_recorder \<Rightarrow> md_recorder" where
  "updateCandles [] t r = r"
| "updateCandles ((interval, bucket) # is) t r =
     (if bucket = 0 then updateCandles is t r
      else let series = (case gm_get (md_candles r) interval of None \<Rightarrow> [] | Some cs \<Rightarrow> cs)
           in updateCandles is t
                (r\<lparr>md_candles := gm_put interval (candle_series r t interval bucket series) (md_candles r)\<rparr>))"

fun forget :: "trade list \<Rightarrow> (string, unit) gomap \<Rightarrow> (string, unit) gomap" where
  "forget [] m = m"
| "forget (ev # evs) m = forget evs (gm_del (t_ID ev) m)"

definition evict_trades :: "nat \<Rightarrow> md_recorder \<Rightarrow> md_recorder" where
  "evict_trades n r =
     r\<lparr>md_seen := forget (take n (md_trades r)) (md_seen r), md_trades := drop n (md_trades r)\<rparr>"

definition day_ns :: int where
  "day_ns = 24 * 3600000000000"

definition RecordTrade :: "int \<Rightarrow> trade \<Rightarrow> md_recorder \<Rightarrow> md_recorder" where
  "RecordTrade now t r =
     (if gm_get (md_seen r) (t_ID t) \<noteq> None then r
      else let r1 = r\<lparr>md_trades := md_trades r @ [t], md_seen := gm_put (t_ID t) () (md_seen r)\<rparr>;
               cutoff = now - day_ns;
               r2 = evict_trades (length (takeWhile (\<lambda>x. t_CreatedAt x < cutoff) (md_trades r1))) r1;
               r3 = evict_trades (length (md_trades r2) - md_maxTrades r2) r2
           in updateCandles intervalSeconds t r3)"

section \<open>Queries\<close>

definition md_Candles :: "md_recorder \<Rightarrow> string \<Rightarrow> int \<Rightarrow> int \<Rightarrow> int \<Rightarrow> candle list" where
  "md_Candles r interval limit start end' =
     (case gm_get (md_candles r) interval of
        None \<Rightarrow> []
      | Some series \<Rightarrow>
          let out = filter (\<lambda>c. \<not> (0 < start \<and> c_Timestamp c < start) \<and> \<not> (0 < end' \<and> end' < c_Timestamp c)) series
          in if 0 < limit \<and> limit < int (length out) then keep_last (nat limit) out else out)"

definition RecentTrades :: "md_recorder \<Rightarrow> int \<Rightarrow> trade list" where
  "RecentTrades r limit =
     (let n = length (md_trades r);
          l = (if limit \<le> 0 \<or> int n < limit then n else nat limit)
      in map (\<lambda>i. md_trades r ! (n - 1 - i)) [0..<l])"

text \<open>\<open>sort.Search\<close>: the binary search of the standard library on \<open>[i, j)\<close>.\<close>

function sort_search :: "(nat \<Rightarrow> bool) \<Rightarrow> nat \<Rightarrow> nat \<Rightarrow> nat" where
  "sort_search f i j =
     (if i < j then let h = (i + j) div 2 in if f h then sort_search f i h else sort_search f (h + 1) j
      else i)"
  by pat_completeness auto
termination
  by (relation "measure (\<lambda>(f, i, j). j - i)") auto

declare sort_search.simps [simp del]

record ticker =
  tk_Pair :: string
  tk_LastPrice :: bf
  tk_Bid :: bf
  tk_Ask :: bf
  tk_Spread :: bf
  tk_Volume24H :: bf
  tk_QuoteVolume24H :: bf
  tk_High24H :: bf
  tk_Low24H :: bf
  tk_Open24H :: bf
  tk_Change24H :: bf
  tk_ChangePct24H :: bf
  tk_Timestamp :: int

text \<open>One step of the ticker's loop: high, low, volume, quote volume.\<close>

fun ticker_step :: "trade \<Rightarrow> bf \<times> bf \<times> bf \<times> bf \<Rightarrow> bf \<times> bf \<times> bf \<times> bf" where
  "ticker_step t (high, low, vol, qvol) =
     ((if 0 < bf_cmp (t_Price t) high then bf128 (t_Price t) else high),
      (if bf_cmp (t_Price t) low < 0 then bf128 (t_Price t) else low),
      bf_add vol vol (t_Quantity t),
      bf_add qvol qvol (bf_mul newBigFloat (t_Price t) (t_Quantity t)))"

definition md_Ticker :: "md_recorder \<Rightarrow> int \<Rightarrow> bf option \<Rightarrow> bf option \<Rightarrow> ticker" where
  "md_Ticker r now bid ask =
     (let cutoff = now - day_ns;
          idx = sort_search (\<lambda>i. cutoff \<le> t_CreatedAt (md_trades r ! i)) 0 (length (md_trades r));
          window = drop idx (md_trades r);
          b = (case bid of None \<Rightarrow> newBigFloat | Some x \<Rightarrow> bf128 x);
          a = (case ask of None \<Rightarrow> newBigFloat | Some x \<Rightarrow> bf128 x);
          t0 = \<lparr>tk_Pair = md_pair r, tk_LastPrice = newBigFloat, tk_Bid = b, tk_Ask = a,
                tk_Spread = (if 0 < bf_sign b \<and> 0 < bf_sign a then bf_sub new_float a b else newBigFloat),
                tk_Volume24H = newBigFloat, tk_QuoteVolume24H = newBigFloat, tk_High24H = newBigFloat,
                tk_Low24H = newBigFloat, tk_Open24H = newBigFloat, tk_Change24H = newBigFloat,
                tk_ChangePct24H = newBigFloat, tk_Timestamp = now\<rparr>
      in case window of
           [] \<Rightarrow> t0
         | w # ws \<Rightarrow>
             let op = bf128 (t_Price w);
                 la = bf128 (t_Price (last window));
                 (hi, lo, vol, qvol) = fold ticker_step window (op, op, newBigFloat, newBigFloat);
                 change = bf_sub new_float la op;
                 pct = (if 0 < bf_sign op then case bf_quo new_float change op of Some q \<Rightarrow> q | None \<Rightarrow> newBigFloat
                        else newBigFloat)
             in t0\<lparr>tk_Open24H := op, tk_LastPrice := la, tk_Volume24H := vol, tk_QuoteVolume24H := qvol,
                   tk_High24H := hi, tk_Low24H := lo, tk_Change24H := change, tk_ChangePct24H := pct\<rparr>)"

section \<open>The window\<close>

text \<open>The ids seen are exactly those of the trades in the window, each once, and few enough.\<close>

definition md_inv :: "md_recorder \<Rightarrow> bool" where
  "md_inv r \<longleftrightarrow> gm_wf (md_seen r) \<and> distinct (map t_ID (md_trades r)) \<and>
     (\<forall>i. gm_get (md_seen r) i \<noteq> None \<longleftrightarrow> i \<in> t_ID ` set (md_trades r)) \<and>
     length (md_trades r) \<le> md_maxTrades r"

lemma forget_facts:
  "gm_wf m \<Longrightarrow> gm_wf (forget evs m) \<and>
   (\<forall>i. gm_get (forget evs m) i \<noteq> None \<longleftrightarrow> gm_get m i \<noteq> None \<and> i \<notin> t_ID ` set evs)"
proof (induction evs arbitrary: m)
  case (Cons e evs)
  have "gm_wf (gm_del (t_ID e) m)" using Cons.prems by simp
  from Cons.IH [OF this] show ?case by auto
qed simp

definition seen_matches :: "md_recorder \<Rightarrow> bool" where
  "seen_matches r \<longleftrightarrow> gm_wf (md_seen r) \<and> distinct (map t_ID (md_trades r)) \<and>
     (\<forall>i. gm_get (md_seen r) i \<noteq> None \<longleftrightarrow> i \<in> t_ID ` set (md_trades r))"

lemma evict_trades_matches:
  assumes "seen_matches r"
  shows "seen_matches (evict_trades n r)"
proof -
  define a b where "a = take n (md_trades r)" and "b = drop n (md_trades r)"
  have ab: "md_trades r = a @ b" by (simp add: a_def b_def)
  then have "t_ID ` set a \<inter> t_ID ` set b = {}" "distinct (map t_ID b)"
    using assms by (auto simp: seen_matches_def)
  then have "i \<in> t_ID ` set (md_trades r) \<and> i \<notin> t_ID ` set a \<longleftrightarrow> i \<in> t_ID ` set b" for i
    using ab by auto
  moreover have "gm_wf (md_seen r)" using assms by (simp add: seen_matches_def)
  ultimately show ?thesis
    using forget_facts [of "md_seen r" a] assms \<open>distinct (map t_ID b)\<close>
    by (simp add: seen_matches_def evict_trades_def a_def [symmetric] b_def [symmetric])
qed

lemma updateCandles_fields [simp]:
  "md_trades (updateCandles is t r) = md_trades r" "md_seen (updateCandles is t r) = md_seen r"
  "md_maxTrades (updateCandles is t r) = md_maxTrades r" "md_maxCandles (updateCandles is t r) = md_maxCandles r"
  "md_pair (updateCandles is t r) = md_pair r"
  by (induction "is" t r rule: updateCandles.induct) (auto simp: Let_def)

lemma evict_trades_fields [simp]:
  "md_trades (evict_trades n r) = drop n (md_trades r)" "md_maxTrades (evict_trades n r) = md_maxTrades r"
  "md_maxCandles (evict_trades n r) = md_maxCandles r" "md_candles (evict_trades n r) = md_candles r"
  by (simp_all add: evict_trades_def)

lemma md_inv_matches: "md_inv r \<longleftrightarrow> seen_matches r \<and> length (md_trades r) \<le> md_maxTrades r"
  by (auto simp: md_inv_def seen_matches_def)

lemma RecordTrade_inv:
  assumes "md_inv r"
  shows "md_inv (RecordTrade now t r)"
proof (cases "gm_get (md_seen r) (t_ID t) = None")
  case True
  define r1 where "r1 = r\<lparr>md_trades := md_trades r @ [t], md_seen := gm_put (t_ID t) () (md_seen r)\<rparr>"
  define r2 where "r2 = evict_trades (length (takeWhile (\<lambda>x. t_CreatedAt x < now - day_ns) (md_trades r1))) r1"
  define r3 where "r3 = evict_trades (length (md_trades r2) - md_maxTrades r2) r2"
  have "t_ID t \<notin> t_ID ` set (md_trades r)" using assms True unfolding md_inv_def by blast
  then have "seen_matches r1" using assms True by (auto simp: md_inv_def seen_matches_def r1_def)
  then have "seen_matches r3" by (simp add: r2_def r3_def evict_trades_matches)
  moreover have "length (md_trades r3) \<le> md_maxTrades r3" by (simp add: r3_def)
  moreover have "RecordTrade now t r = updateCandles intervalSeconds t r3"
    unfolding RecordTrade_def Let_def r1_def r2_def r3_def by (rule if_not_P) (simp add: True)
  ultimately show ?thesis by (simp add: md_inv_matches seen_matches_def)
qed (use assms in \<open>simp add: RecordTrade_def\<close>)

text \<open>A trade that is still in the window is recorded at most once.\<close>

lemma RecordTrade_dup:
  "md_inv r \<Longrightarrow> t' \<in> set (md_trades r) \<Longrightarrow> t_ID t' = t_ID t \<Longrightarrow> RecordTrade now t r = r"
proof -
  assume "md_inv r" "t' \<in> set (md_trades r)" "t_ID t' = t_ID t"
  then have "gm_get (md_seen r) (t_ID t) \<noteq> None" unfolding md_inv_def by (metis imageI)
  then show ?thesis by (simp add: RecordTrade_def)
qed

section \<open>Candles\<close>

text \<open>Low and high bound the prices of a candle, and a series is never longer than its cap.\<close>

definition candle_ok :: "candle \<Rightarrow> bool" where
  "candle_ok c \<longleftrightarrow> bval (c_Low c) \<le> bval (c_Open c) \<and> bval (c_Open c) \<le> bval (c_High c) \<and>
     bval (c_Low c) \<le> bval (c_Close c) \<and> bval (c_Close c) \<le> bval (c_High c)"

definition candles_ok :: "md_recorder \<Rightarrow> bool" where
  "candles_ok r \<longleftrightarrow> (\<forall>i cs. gm_get (md_candles r) i = Some cs \<longrightarrow>
     (\<forall>c \<in> set cs. candle_ok c) \<and> length cs \<le> md_maxCandles r)"

lemma bf128_exact: "bprec x \<le> 128 \<Longrightarrow> bval (bf128 x) = bval x"
  by (simp add: bf_set_def)

lemma bump_candle_ok: "candle_ok c \<Longrightarrow> bprec (t_Price t) \<le> 128 \<Longrightarrow> candle_ok (bump_candle t ct c)"
  by (auto simp: candle_ok_def bump_candle_def bf128_exact)

lemma new_candle_ok: "candle_ok (new_candle p i t ts ct)"
  by (simp add: candle_ok_def new_candle_def)

lemma keep_last_facts [simp]: "set (keep_last n xs) \<subseteq> set xs" "length (keep_last n xs) \<le> n"
  by (auto simp: keep_last_def dest: in_set_dropD)

lemma keep_last_mem: "x \<in> set (keep_last n (cs @ [c])) \<Longrightarrow> x = c \<or> x \<in> set cs"
  using keep_last_facts(1) [of n "cs @ [c]"] by auto

lemma candle_series_ok:
  assumes "\<forall>c \<in> set cs. candle_ok c" and "length cs \<le> md_maxCandles r" and "bprec (t_Price t) \<le> 128"
  shows "(\<forall>c \<in> set (candle_series r t i b cs). candle_ok c) \<and>
    length (candle_series r t i b cs) \<le> md_maxCandles r"
proof -
  have "length (butlast cs @ [x]) = length cs" if "cs \<noteq> []" for x :: candle using that by simp
  moreover have "candle_ok x" if "x \<in> set (keep_last (md_maxCandles r) (cs @ [new_candle p i t ts ct]))"
    for x p ts ct using keep_last_mem [OF that] assms(1) new_candle_ok by blast
  ultimately show ?thesis
    using assms by (auto simp: candle_series_def Let_def bump_candle_ok dest: in_set_butlastD
        simp del: append_Nil)
qed

lemma updateCandles_ok:
  "candles_ok r \<Longrightarrow> bprec (t_Price t) \<le> 128 \<Longrightarrow> candles_ok (updateCandles is t r)"
proof (induction "is" t r rule: updateCandles.induct)
  case (2 interval bucket "is" t r)
  define cs where "cs = (case gm_get (md_candles r) interval of None \<Rightarrow> [] | Some cs \<Rightarrow> cs)"
  have "(\<forall>c \<in> set cs. candle_ok c) \<and> length cs \<le> md_maxCandles r"
    using "2.prems"(1) by (auto simp: cs_def candles_ok_def split: option.splits)
  then have "candles_ok (r\<lparr>md_candles := gm_put interval (candle_series r t interval bucket cs) (md_candles r)\<rparr>)"
    using candle_series_ok [of cs r t interval bucket] "2.prems" by (auto simp: candles_ok_def candle_series_def)
  then show ?case using 2 by (simp add: Let_def cs_def [symmetric])
qed simp

lemma RecordTrade_candles_ok:
  "candles_ok r \<Longrightarrow> bprec (t_Price t) \<le> 128 \<Longrightarrow> candles_ok (RecordTrade now t r)"
  unfolding RecordTrade_def Let_def
  by (auto intro!: updateCandles_ok) (simp add: candles_ok_def)

section \<open>Properties\<close>

definition record_all :: "string \<Rightarrow> (int \<times> trade) list \<Rightarrow> md_recorder" where
  "record_all pair xs = foldl (\<lambda>r (now, t). RecordTrade now t r) (NewMarketDataRecorder pair) xs"

definition demo_trade :: trade where
  "demo_trade = \<lparr>t_ID = ''x1'', t_BuyOrderID = ''b'', t_SellOrderID = ''s'', t_BuyerID = ''bob'', t_SellerID = ''alice'',
     t_Pair = ''BTC/USDT'', t_Price = BF 128 100, t_Quantity = BF 128 2, t_TakerSide = Buy, t_Fee = newBigFloat, t_CreatedAt = 7\<rparr>"

text \<open>
  The recorder's invariant. After any sequence of recorded trades the window holds no trade id twice, the set of ids seen is
  exactly the set of ids in the window, the window and every candle series respect their caps, and in every candle the low price
  is at most, and the high price at least, the opening and the closing price.
\<close>

theorem recorder_invariant:
  assumes "\<forall>(now, t) \<in> set xs. bprec (t_Price t) \<le> 128"
  shows "md_inv (record_all pair xs) \<and> candles_ok (record_all pair xs)"
  using assms
proof (induction xs rule: rev_induct)
  case (snoc x xs)
  obtain now t where "x = (now, t)" by (cases x)
  then show ?case using snoc by (simp add: record_all_def RecordTrade_inv RecordTrade_candles_ok)
qed (simp add: record_all_def md_inv_def candles_ok_def NewMarketDataRecorder_def)

theorem recorder_invariant_witness: "md_inv (record_all ''BTC/USDT'' [(7, demo_trade)])"
  using recorder_invariant [of "[(7, demo_trade)]"] by (simp add: demo_trade_def)

text \<open>
  A trade is recorded once. A trade whose id is still in the window changes nothing when it is recorded again, neither the
  window nor a candle.
\<close>

theorem trade_recorded_once:
  assumes "md_inv r" "t' \<in> set (md_trades r)" "t_ID t' = t_ID t"
  shows "RecordTrade now t r = r"
  using RecordTrade_dup [OF assms] .

theorem trade_recorded_once_witness:
  "RecordTrade 9 demo_trade (record_all ''BTC/USDT'' [(7, demo_trade)]) = record_all ''BTC/USDT'' [(7, demo_trade)]"
proof -
  let ?r = "record_all ''BTC/USDT'' [(7, demo_trade)]"
  have i: "md_inv ?r"
    unfolding record_all_def by (simp, rule RecordTrade_inv) (simp add: md_inv_def NewMarketDataRecorder_def)
  have "md_trades ?r = [demo_trade]"
    by (simp add: record_all_def RecordTrade_def Let_def NewMarketDataRecorder_def demo_trade_def day_ns_def)
  then show ?thesis using trade_recorded_once [OF i] by simp
qed

end
