(* ===== verification/Wal.thy ===== *)
theory Wal
  imports Order_Model
begin

text \<open>
  \<open>internal/matching/wal.go\<close>: the write-ahead log. A log file is the list of its lines; a line
  is a record (the JSON codec of the standard library returns what it was given) or does not
  decode, and the last line may lack its newline. The environment decides for each append whether
  the write or the fsync fails; a failed write may leave part of a line behind, and makes the
  buffered writer refuse all later writes.
\<close>

section \<open>Records and files\<close>

record wal_record =
  wr_Seq :: "64 word"
  wr_Timestamp :: int
  wr_Op :: string
  wr_OrderID :: string
  wr_ClientOrderID :: string
  wr_UserID :: string
  wr_Pair :: string
  wr_Side :: "8 word"
  wr_Type :: "8 word"
  wr_Price :: string
  wr_StopPrice :: string
  wr_Quantity :: string
  wr_TIF :: "8 word"
  wr_STP :: "8 word"

text \<open>
  \<open>Torn\<close> is a last line without newline: the part of a record that a failed write left, with the
  record when only the newline is missing. What is appended next continues that line, and two
  records, or a part and a record, on one line do not decode.
\<close>

datatype wal_line = Line wal_record | Corrupt | Torn "wal_record option"

datatype io_fault = NoFault | WriteFault "unit option option" | SyncFault

fun add_line :: "wal_line \<Rightarrow> wal_line list \<Rightarrow> wal_line list" where
  "add_line l [] = [l]"
| "add_line l [Torn x] = [case l of Torn y \<Rightarrow> Torn None | _ \<Rightarrow> Corrupt]"
| "add_line l (a # ls) = a # add_line l ls"

datatype wal_error = WriteFailed | SyncFailed

record wal_writer =
  w_file :: "wal_line list"
  w_synced :: nat
  w_bwerr :: bool
  w_seq :: "64 word"
  w_syncEvery :: int
  w_syncInterval :: int
  w_pending :: int
  w_lastSyncAt :: int

text \<open>\<open>w_synced\<close> counts the lines that were in the file at the last successful fsync.\<close>

fun count_lines :: "wal_line list \<Rightarrow> nat" where
  "count_lines [] = 0"
| "count_lines (Line r # ls) = Suc (count_lines ls)"
| "count_lines (Torn (Some r) # ls) = Suc (count_lines ls)"
| "count_lines (Torn None # ls) = count_lines ls"
| "count_lines (Corrupt # ls) = count_lines ls"

definition countWALRecords :: "wal_line list \<Rightarrow> 64 word" where
  "countWALRecords ls = of_nat (count_lines ls)"

text \<open>The two environment variables, as \<open>strconv.Atoi\<close> reads them.\<close>

definition defaultWALSyncPolicy :: "int option \<Rightarrow> int option \<Rightarrow> int \<times> int" where
  "defaultWALSyncPolicy env_every env_ms =
     ((case env_every of Some n \<Rightarrow> if 0 < n then n else 1 | None \<Rightarrow> 1),
      (case env_ms of Some ms \<Rightarrow> if 0 < ms then ms * 1000000 else 0 | None \<Rightarrow> 0))"

definition NewWALWriter :: "wal_line list \<Rightarrow> int \<times> int \<Rightarrow> int \<Rightarrow> wal_writer" where
  "NewWALWriter file policy now =
     \<lparr>w_file = file, w_synced = length file, w_bwerr = False, w_seq = countWALRecords file,
      w_syncEvery = fst policy, w_syncInterval = snd policy, w_pending = 0, w_lastSyncAt = now\<rparr>"

definition SetSyncPolicy :: "int \<Rightarrow> int \<Rightarrow> int \<Rightarrow> wal_writer \<Rightarrow> wal_writer" where
  "SetSyncPolicy every interval now w =
     w\<lparr>w_syncEvery := every, w_syncInterval := interval, w_pending := 0, w_lastSyncAt := now\<rparr>"

section \<open>Appending\<close>

definition maybeSync :: "io_fault \<Rightarrow> int \<Rightarrow> wal_writer \<Rightarrow> wal_error option \<times> wal_writer" where
  "maybeSync io now w =
     (let w1 = w\<lparr>w_pending := w_pending w + 1\<rparr>
      in if 1 < w_syncEvery w1 \<and> w_pending w1 < w_syncEvery w1 \<and>
            (w_syncInterval w1 \<le> 0 \<or> now - w_lastSyncAt w1 < w_syncInterval w1)
         then (None, w1)
         else let w2 = w1\<lparr>w_pending := 0, w_lastSyncAt := now\<rparr>
              in if io = SyncFault then (Some SyncFailed, w2)
                 else (None, w2\<lparr>w_synced := length (w_file w2)\<rparr>))"

definition wal_append :: "io_fault \<Rightarrow> int \<Rightarrow> wal_record \<Rightarrow> wal_writer \<Rightarrow> wal_error option \<times> wal_writer" where
  "wal_append io now rc w =
     (let w1 = w\<lparr>w_seq := w_seq w + 1\<rparr>;
          rc1 = rc\<lparr>wr_Seq := w_seq w1, wr_Timestamp := now\<rparr>
      in if w_bwerr w1 then (Some WriteFailed, w1)
         else case io of
             WriteFault spill \<Rightarrow>
               (Some WriteFailed,
                w1\<lparr>w_bwerr := True,
                   w_file := (case spill of None \<Rightarrow> w_file w1
                              | Some whole \<Rightarrow> add_line (Torn (map_option (\<lambda>_. rc1) whole)) (w_file w1))\<rparr>)
           | _ \<Rightarrow> maybeSync io now (w1\<lparr>w_file := add_line (Line rc1) (w_file w1)\<rparr>))"

definition wal_text :: "bf option \<Rightarrow> string" where
  "wal_text f = (case f of None \<Rightarrow> [] | Some x \<Rightarrow> text_f 18 x)"

definition order_record :: "order \<Rightarrow> wal_record" where
  "order_record v =
     \<lparr>wr_Seq = 0, wr_Timestamp = 0, wr_Op = ''order'', wr_OrderID = o_ID v,
      wr_ClientOrderID = o_ClientOrderID v, wr_UserID = o_UserID v, wr_Pair = o_Pair v,
      wr_Side = int8_of_side (o_Side v), wr_Type = int8_of_type (o_Type v),
      wr_Price = wal_text (o_Price v), wr_StopPrice = wal_text (o_StopPrice v),
      wr_Quantity = wal_text (o_Quantity v), wr_TIF = int8_of_tif (o_TIF v), wr_STP = int8_of_stp (o_STP v)\<rparr>"

definition cancel_record :: "string \<Rightarrow> string \<Rightarrow> wal_record" where
  "cancel_record orderID userID =
     \<lparr>wr_Seq = 0, wr_Timestamp = 0, wr_Op = ''cancel'', wr_OrderID = orderID, wr_ClientOrderID = [],
      wr_UserID = userID, wr_Pair = [], wr_Side = 0, wr_Type = 0, wr_Price = [], wr_StopPrice = [],
      wr_Quantity = [], wr_TIF = 0, wr_STP = 0\<rparr>"

text \<open>A \<open>nil\<close> writer accepts everything and journals nothing.\<close>

definition AppendRecord ::
  "io_fault \<Rightarrow> int \<Rightarrow> wal_record \<Rightarrow> wal_writer option \<Rightarrow> wal_error option \<times> wal_writer option" where
  "AppendRecord io now rc w =
     (case w of None \<Rightarrow> (None, None)
      | Some w' \<Rightarrow> (let (e, w2) = wal_append io now rc w' in (e, Some w2)))"

definition AppendOrder ::
  "io_fault \<Rightarrow> int \<Rightarrow> order \<Rightarrow> wal_writer option \<Rightarrow> wal_error option \<times> wal_writer option" where
  "AppendOrder io now v w = AppendRecord io now (order_record v) w"

definition AppendCancel ::
  "io_fault \<Rightarrow> int \<Rightarrow> string \<Rightarrow> string \<Rightarrow> wal_writer option \<Rightarrow> wal_error option \<times> wal_writer option" where
  "AppendCancel io now orderID userID w = AppendRecord io now (cancel_record orderID userID) w"

definition wal_Sync :: "io_fault \<Rightarrow> int \<Rightarrow> wal_writer \<Rightarrow> wal_error option \<times> wal_writer" where
  "wal_Sync io now w =
     (if w_bwerr w then (Some WriteFailed, w)
      else if io = SyncFault then (Some SyncFailed, w)
      else (None, w\<lparr>w_pending := 0, w_lastSyncAt := now, w_synced := length (w_file w)\<rparr>))"

section \<open>Replay\<close>

text \<open>\<open>Replay\<close> hands every decodable record to \<open>fn\<close>, in file order, and skips the others.\<close>

fun replay :: "(wal_record \<Rightarrow> 's \<Rightarrow> 's outcome) \<Rightarrow> wal_line list \<Rightarrow> 's \<Rightarrow> 's outcome" where
  "replay fn [] s = Done s"
| "replay fn (Line r # ls) s = obind (fn r s) (replay fn ls)"
| "replay fn (Torn (Some r) # ls) s = obind (fn r s) (replay fn ls)"
| "replay fn (Torn None # ls) s = replay fn ls s"
| "replay fn (Corrupt # ls) s = replay fn ls s"

fun lines_of :: "wal_line list \<Rightarrow> wal_record list" where
  "lines_of [] = []"
| "lines_of (Line r # ls) = r # lines_of ls"
| "lines_of (Torn (Some r) # ls) = r # lines_of ls"
| "lines_of (Torn None # ls) = lines_of ls"
| "lines_of (Corrupt # ls) = lines_of ls"

lemma lines_of_append [simp]: "lines_of (a @ b) = lines_of a @ lines_of b"
  by (induction a rule: lines_of.induct) auto

lemma length_lines_of: "length (lines_of ls) = count_lines ls"
  by (induction ls rule: count_lines.induct) auto

lemma replay_append: "replay fn (a @ b) s = obind (replay fn a s) (replay fn b)"
proof (induction a arbitrary: s rule: lines_of.induct)
  case (2 r ls)
  then show ?case by (cases "fn r s") auto
next
  case (3 r ls)
  then show ?case by (cases "fn r s") auto
qed auto

text \<open>A log whose last line is complete.\<close>

definition ended :: "wal_line list \<Rightarrow> bool" where
  "ended ls \<longleftrightarrow> (\<forall>x. ls \<noteq> [] \<longrightarrow> last ls \<noteq> Torn x)"

lemma add_line_ended: "ended ls \<Longrightarrow> add_line l ls = ls @ [l]"
  by (induction l ls rule: add_line.induct) (auto simp: ended_def split: if_splits)

lemma replay_lines_of:
  "replay fn ls s = foldl (\<lambda>acc r. obind acc (fn r)) (Done s) (lines_of ls)"
proof (induction ls arbitrary: s rule: lines_of.induct)
  case (2 r ls)
  have "foldl (\<lambda>acc r. obind acc (fn r)) Panicked rs = Panicked" for rs by (induction rs) auto
  moreover have "foldl (\<lambda>acc r. obind acc (fn r)) OutOfFuel rs = OutOfFuel" for rs by (induction rs) auto
  ultimately show ?case using 2 by (cases "fn r s") auto
next
  case (3 r ls)
  have "foldl (\<lambda>acc r. obind acc (fn r)) Panicked rs = Panicked" for rs by (induction rs) auto
  moreover have "foldl (\<lambda>acc r. obind acc (fn r)) OutOfFuel rs = OutOfFuel" for rs by (induction rs) auto
  ultimately show ?case using 3 by (cases "fn r s") auto
qed auto

section \<open>Sequence numbers\<close>

text \<open>A log is numbered when its records carry 1, 2, 3, ... and the writer knows the last one.\<close>

definition numbered :: "wal_writer \<Rightarrow> bool" where
  "numbered w \<longleftrightarrow> ended (w_file w) \<and> w_seq w = of_nat (length (lines_of (w_file w))) \<and>
     map wr_Seq (lines_of (w_file w)) = map of_nat [1..<Suc (length (lines_of (w_file w)))]"

lemma maybeSync_fields [simp]:
  "w_file (snd (maybeSync io now w)) = w_file w" "w_seq (snd (maybeSync io now w)) = w_seq w"
  "w_bwerr (snd (maybeSync io now w)) = w_bwerr w"
  by (simp_all add: maybeSync_def Let_def)

lemma wal_append_ok:
  assumes "\<not> w_bwerr w" and "io = NoFault \<or> io = SyncFault"
  shows "w_file (snd (wal_append io now rc w)) =
           add_line (Line (rc\<lparr>wr_Seq := w_seq w + 1, wr_Timestamp := now\<rparr>)) (w_file w)"
    and "w_seq (snd (wal_append io now rc w)) = w_seq w + 1"
    and "\<not> w_bwerr (snd (wal_append io now rc w))"
  using assms by (auto simp: wal_append_def Let_def)

lemma wal_append_numbered:
  assumes "numbered w" and "\<not> w_bwerr w" and "io = NoFault \<or> io = SyncFault"
  shows "numbered (snd (wal_append io now rc w))"
  using assms by (auto simp: numbered_def wal_append_ok add_line_ended ended_def [of "xs @ [y]" for xs y])

lemma NewWALWriter_numbered_empty: "numbered (NewWALWriter [] p now)"
  by (simp add: numbered_def NewWALWriter_def countWALRecords_def ended_def)

text \<open>Reopening a numbered log without damage resumes at the right number.\<close>

lemma reopen_numbered: "numbered w \<Longrightarrow> numbered (NewWALWriter (w_file w) p now)"
  by (simp add: numbered_def NewWALWriter_def countWALRecords_def length_lines_of)

text \<open>With fsync on every record, a successful append is durable when it returns.\<close>

lemma append_durable:
  assumes "w_syncEvery w \<le> 1" and "wal_append io now rc w = (None, w')"
  shows "w_synced w' = length (w_file w') \<and>
    w_file w' = add_line (Line (rc\<lparr>wr_Seq := w_seq w + 1, wr_Timestamp := now\<rparr>)) (w_file w)"
  using assms by (auto simp: wal_append_def maybeSync_def Let_def split: if_splits io_fault.splits)

section \<open>Sequences of appends\<close>

text \<open>The appends of one writer in turn: what the disk does, the clock and the record of each.\<close>

fun append_all :: "(io_fault \<times> int \<times> wal_record) list \<Rightarrow> wal_writer \<Rightarrow> wal_writer" where
  "append_all [] w = w"
| "append_all ((io, now, rc) # xs) w = append_all xs (snd (wal_append io now rc w))"

definition written :: "io_fault \<Rightarrow> bool" where
  "written io \<longleftrightarrow> io = NoFault \<or> io = SyncFault"

text \<open>The records as the file holds them, numbered from \<open>n\<close>.\<close>

fun stamped :: "64 word \<Rightarrow> (io_fault \<times> int \<times> wal_record) list \<Rightarrow> wal_record list" where
  "stamped n [] = []"
| "stamped n ((io, now, rc) # xs) = rc\<lparr>wr_Seq := n + 1, wr_Timestamp := now\<rparr> # stamped (n + 1) xs"

lemma append_all_lines:
  assumes "ended (w_file w)" "\<not> w_bwerr w" "\<forall>(io, x) \<in> set xs. written io"
  shows "lines_of (w_file (append_all xs w)) = lines_of (w_file w) @ stamped (w_seq w) xs \<and>
    ended (w_file (append_all xs w)) \<and> \<not> w_bwerr (append_all xs w) \<and>
    w_seq (append_all xs w) = w_seq w + of_nat (length xs)"
  using assms
proof (induction xs arbitrary: w)
  case (Cons x xs)
  obtain io now rc where x: "x = (io, now, rc)" by (cases x)
  let ?w = "snd (wal_append io now rc w)"
  have ok: "io = NoFault \<or> io = SyncFault" using Cons.prems(3) x by (simp add: written_def)
  note f = wal_append_ok [OF Cons.prems(2) ok, of now rc]
  have "ended (w_file ?w)" using Cons.prems(1) by (simp add: f add_line_ended) (simp add: ended_def)
  then have "lines_of (w_file (append_all xs ?w)) = lines_of (w_file ?w) @ stamped (w_seq ?w) xs \<and>
    ended (w_file (append_all xs ?w)) \<and> \<not> w_bwerr (append_all xs ?w) \<and>
    w_seq (append_all xs ?w) = w_seq ?w + of_nat (length xs)"
    using f(3) Cons.prems(3) by (intro Cons.IH) simp_all
  then show ?case using x by (simp add: f add_line_ended [OF Cons.prems(1)] add.assoc)
qed simp

lemma append_all_numbered:
  assumes "numbered w" "\<not> w_bwerr w" "\<forall>(io, x) \<in> set xs. written io"
  shows "numbered (append_all xs w)"
  using assms
proof (induction xs arbitrary: w)
  case (Cons x xs)
  obtain io now rc where x: "x = (io, now, rc)" by (cases x)
  have ok: "io = NoFault \<or> io = SyncFault" using Cons.prems(3) x by (simp add: written_def)
  have "numbered (append_all xs (snd (wal_append io now rc w)))"
    using wal_append_numbered [OF Cons.prems(1,2) ok] wal_append_ok(3) [OF Cons.prems(2) ok] Cons.prems(3)
    by (intro Cons.IH) simp_all
  then show ?case by (simp add: x)
qed simp

definition demo_record :: wal_record where
  "demo_record = cancel_record ''o1'' ''alice''"

definition demo_writer :: wal_writer where
  "demo_writer = NewWALWriter [] (1, 0) 0"

lemma demo_writer_ok [simp]: "numbered demo_writer" "ended (w_file demo_writer)" "\<not> w_bwerr demo_writer" "w_syncEvery demo_writer \<le> 1"
  by (simp_all add: demo_writer_def NewWALWriter_numbered_empty) (simp_all add: NewWALWriter_def ended_def)

text \<open>
  C34: Journal round trip. Whatever records a writer that has met no write error appends to a log whose last line is complete, as long as the writes
  themselves succeed (fsyncs may fail), replaying the file afterwards applies the old records and then every appended record, in
  order, each under the next sequence number of the writer. If the log was numbered 1, 2, 3, \<dots> up to the number of its writer, it still is, so that a
  writer opened on it again continues with the right number.
\<close>

theorem journal_roundtrip:
  assumes "ended (w_file w)" "\<not> w_bwerr w" "\<forall>(io, x) \<in> set xs. written io"
  shows "replay fn (w_file (append_all xs w)) s =
      obind (replay fn (w_file w) s) (\<lambda>s1. foldl (\<lambda>acc r. obind acc (fn r)) (Done s1) (stamped (w_seq w) xs)) \<and>
    (numbered w \<longrightarrow> numbered (NewWALWriter (w_file (append_all xs w)) p now))"
proof -
  note e = assms(1)
  have stuck: "foldl (\<lambda>acc r. obind acc (fn r)) Panicked rs = Panicked"
    "foldl (\<lambda>acc r. obind acc (fn r)) OutOfFuel rs = OutOfFuel" for rs by (induction rs) auto
  have "replay fn (w_file (append_all xs w)) s =
      obind (replay fn (w_file w) s) (\<lambda>s1. foldl (\<lambda>acc r. obind acc (fn r)) (Done s1) (stamped (w_seq w) xs))"
    unfolding replay_lines_of conjunct1 [OF append_all_lines [OF e assms(2,3)]] foldl_append
    by (cases "foldl (\<lambda>acc r. obind acc (fn r)) (Done s) (lines_of (w_file w))") (simp_all add: stuck)
  then show ?thesis using reopen_numbered [OF append_all_numbered [OF _ assms(2,3)]] by blast
qed

theorem journal_roundtrip_witness:
  "replay (\<lambda>r s. Done (s @ [wr_OrderID r])) (w_file (append_all [(NoFault, 5, demo_record)] demo_writer)) [] =
     Done [''o1''] \<and>
   numbered (NewWALWriter (w_file (append_all [(NoFault, 5, demo_record)] demo_writer)) (1, 0) 9)"
proof -
  have r: "replay fn (w_file demo_writer) s = Done s" for fn :: "wal_record \<Rightarrow> string list \<Rightarrow> string list outcome" and s
    by (simp add: demo_writer_def NewWALWriter_def)
  show ?thesis
    using journal_roundtrip [of demo_writer "[(NoFault, 5, demo_record)]" "\<lambda>r s. Done (s @ [wr_OrderID r])" "[]" "(1, 0)" 9]
    by (simp add: r written_def demo_record_def cancel_record_def del: append_all.simps)
qed

text \<open>
  A successful append is durable. With the default policy (fsync on every record) \<open>append\<close> reports success only when the
  record is in the file and the file, up to and including it, has been fsynced; and it never reports success after a failed write
  (\<open>w_bwerr\<close>, the sticky error of the buffered writer).
\<close>

theorem append_is_durable:
  assumes "w_syncEvery w \<le> 1" and "wal_append io now rc w = (None, w')"
  shows "\<not> w_bwerr w \<and> io = NoFault \<and> w_synced w' = length (w_file w') \<and>
    w_file w' = add_line (Line (rc\<lparr>wr_Seq := w_seq w + 1, wr_Timestamp := now\<rparr>)) (w_file w)"
  using append_durable [OF assms] assms
  by (auto simp: wal_append_def maybeSync_def Let_def split: if_splits io_fault.splits)

theorem append_is_durable_witness:
  "w_synced (snd (wal_append NoFault 5 demo_record demo_writer)) = 1"
proof -
  have "w_syncEvery demo_writer \<le> 1" by simp
  moreover have "wal_append NoFault 5 demo_record demo_writer = (None, snd (wal_append NoFault 5 demo_record demo_writer))"
    by (simp add: wal_append_def maybeSync_def demo_writer_def NewWALWriter_def Let_def)
  ultimately show ?thesis
    using append_is_durable [of demo_writer NoFault 5 demo_record] by (fastforce simp: demo_writer_def NewWALWriter_def)
qed

text \<open>
  A log with a torn tail loses the next record. When a crash or a failed write left a last line without newline, a
  writer opened on the file appends the next record to that very line: the append reports success and is fsynced, but the line no longer
  decodes, and a replay sees neither the new record nor the one the torn line may have held.
\<close>

theorem torn_tail_loses_record:
  "fst (wal_append NoFault now rc (NewWALWriter (ls @ [Torn x]) (1, 0) t)) = None \<and>
   lines_of (w_file (snd (wal_append NoFault now rc (NewWALWriter (ls @ [Torn x]) (1, 0) t)))) = lines_of ls"
proof -
  have "add_line (Line r) (ls @ [Torn x]) = ls @ [Corrupt]" for r
  proof (induction ls)
    case (Cons a ls)
    then show ?case by (cases a; cases ls) auto
  qed simp
  then show ?thesis by (simp add: wal_append_def maybeSync_def NewWALWriter_def Let_def)
qed

end
