(* ===== verification/Engine.thy ===== *)
theory Engine
  imports Order_Book Market_Data Wal
begin

text \<open>
  \<open>internal/matching/engine.go\<close>: the matching engine of one pair. The engine's state extends the
  book's; an operation is the work the engine goroutine does for one order, one cancel or one
  scan of the stops while it holds the book's lock.
\<close>

section \<open>State\<close>

record engine_stats =
  OrdersReceived :: "64 word"
  OrdersMatched :: "64 word"
  OrdersRejected :: "64 word"
  OrdersCancelled :: "64 word"
  TradesExecuted :: "64 word"
  TradesDropped :: "64 word"
  FillsDropped :: "64 word"
  WALErrors :: "64 word"

record fill =
  f_TakerOrderID :: string
  f_MakerOrderID :: string
  f_TakerUserID :: string
  f_MakerUserID :: string
  f_Pair :: string
  f_Side :: side
  f_Price :: "bf option"
  f_Quantity :: bf
  f_RemainingQty :: "bf option"
  f_TakerFilled :: bool
  f_MakerFilled :: bool

text \<open>
  \<open>e_Trades\<close> and \<open>e_Fills\<close> are the contents of the two outbound channels. \<open>e_io\<close> says what the
  next journal write will meet, and \<open>e_uuid\<close>, \<open>e_nuuid\<close> are the identifiers the uuid package
  hands out and how many it has handed out. The pair is the book's.
\<close>

record engine = book +
  e_Trades :: "trade list"
  e_Fills :: "fill list"
  e_stats :: engine_stats
  e_MD :: "md_recorder option"
  e_stp :: stp_mode
  e_wal :: "wal_writer option"
  e_degraded :: bool
  e_io :: io_fault
  e_uuid :: "nat \<Rightarrow> string"
  e_nuuid :: nat

definition zero_stats :: engine_stats where
  "zero_stats = \<lparr>OrdersReceived = 0, OrdersMatched = 0, OrdersRejected = 0, OrdersCancelled = 0,
     TradesExecuted = 0, TradesDropped = 0, FillsDropped = 0, WALErrors = 0\<rparr>"

definition NewMatchingEngine :: "(ref \<Rightarrow> order) \<Rightarrow> (nat \<Rightarrow> string) \<Rightarrow> string \<Rightarrow> engine" where
  "NewMatchingEngine st uuid pair =
     book.extend (NewOrderBook st pair)
       \<lparr>e_Trades = [], e_Fills = [], e_stats = zero_stats, e_MD = Some (NewMarketDataRecorder pair),
        e_stp = STPDisabled, e_wal = None, e_degraded = False, e_io = NoFault,
        e_uuid = uuid, e_nuuid = 0\<rparr>"

definition SetSelfTradePrevention :: "stp_mode \<Rightarrow> engine \<Rightarrow> engine" where
  "SetSelfTradePrevention mode e = e\<lparr>e_stp := mode\<rparr>"

definition SetWAL :: "wal_writer option \<Rightarrow> engine \<Rightarrow> engine" where
  "SetWAL w e = e\<lparr>e_wal := w\<rparr>"

definition IsHealthy :: "engine \<Rightarrow> bool" where
  "IsHealthy e \<longleftrightarrow> \<not> e_degraded e"

definition WALFailureCount :: "engine \<Rightarrow> 64 word" where
  "WALFailureCount e = WALErrors (e_stats e)"

definition upd_stats :: "(engine_stats \<Rightarrow> engine_stats) \<Rightarrow> engine \<Rightarrow> engine" where
  "upd_stats f e = e\<lparr>e_stats := f (e_stats e)\<rparr>"

definition reject_count :: "engine \<Rightarrow> engine" where
  "reject_count = upd_stats (\<lambda>t. t\<lparr>OrdersRejected := OrdersRejected t + 1\<rparr>)"

definition set_status :: "order_status \<Rightarrow> ref \<Rightarrow> engine \<Rightarrow> engine" where
  "set_status st r = upd_order r (\<lambda>v. v\<lparr>o_Status := st\<rparr>)"

text \<open>\<open>close(order.done)\<close>, when the order has the channel: closing it twice panics.\<close>

definition close_done :: "ref \<Rightarrow> engine \<Rightarrow> engine outcome" where
  "close_done r e =
     (case o_done (store e r) of
        NoChan \<Rightarrow> Done e
      | OpenChan \<Rightarrow> Done (upd_order r (\<lambda>v. v\<lparr>o_done := ClosedChan\<rparr>) e)
      | ClosedChan \<Rightarrow> Panicked)"

section \<open>Fills\<close>

definition chan_cap :: nat where
  "chan_cap = 100000"

definition emitTrade :: "trade \<Rightarrow> engine \<Rightarrow> engine" where
  "emitTrade t e =
     (if length (e_Trades e) < chan_cap then e\<lparr>e_Trades := e_Trades e @ [t]\<rparr>
      else upd_stats (\<lambda>x. x\<lparr>TradesDropped := TradesDropped x + 1\<rparr>) e)"

definition emitFill :: "ref \<Rightarrow> ref \<Rightarrow> bf \<Rightarrow> bool \<Rightarrow> engine \<Rightarrow> engine" where
  "emitFill taker maker qty makerFilled e =
     (let t = store e taker; m = store e maker;
          n = \<lparr>f_TakerOrderID = o_ID t, f_MakerOrderID = o_ID m, f_TakerUserID = o_UserID t,
               f_MakerUserID = o_UserID m, f_Pair = ob_Pair e, f_Side = o_Side t,
               f_Price = newBigFloatCopy (o_Price m), f_Quantity = bf128 qty,
               f_RemainingQty = newBigFloatCopy (o_RemainingQty t),
               f_TakerFilled = (o_Status t = Filled), f_MakerFilled = makerFilled\<rparr>
      in if length (e_Fills e) < chan_cap then e\<lparr>e_Fills := e_Fills e @ [n]\<rparr>
         else upd_stats (\<lambda>x. x\<lparr>FillsDropped := FillsDropped x + 1\<rparr>) e)"

definition take_fill :: "bf \<Rightarrow> order \<Rightarrow> order" where
  "take_fill q v =
     v\<lparr>o_FilledQty := bf_add (o_FilledQty v) (o_FilledQty v) q,
       o_RemainingQty := Some (bf_sub (rem_q v) (rem_q v) q)\<rparr>"

definition fill_qty :: "order \<Rightarrow> order \<Rightarrow> bf" where
  "fill_qty taker maker =
     (if 0 \<le> bf_cmp (rem_q taker) (rem_q maker) then bf_set newBigFloat (rem_q maker)
      else bf_set newBigFloat (rem_q taker))"

definition mk_trade :: "ref \<Rightarrow> ref \<Rightarrow> bf \<Rightarrow> bf \<Rightarrow> engine \<Rightarrow> trade" where
  "mk_trade taker maker price q e =
     (let t = store e taker; m = store e maker;
          (b, s) = (if o_Side t = Sell then (m, t) else (t, m))
      in \<lparr>t_ID = e_uuid e (e_nuuid e), t_BuyOrderID = o_ID b, t_SellOrderID = o_ID s,
          t_BuyerID = o_UserID b, t_SellerID = o_UserID s, t_Pair = ob_Pair e,
          t_Price = bf128 price, t_Quantity = bf128 q, t_TakerSide = o_Side t,
          t_Fee = newBigFloat, t_CreatedAt = clock e\<rparr>)"

text \<open>The balances and the book, up to the trade price: the first half of \<open>fillLocked\<close>.\<close>

definition fill_book :: "bf \<Rightarrow> ref \<Rightarrow> ref \<Rightarrow> engine \<Rightarrow> engine" where
  "fill_book q taker maker e =
     (let e1 = upd_order taker (take_fill q) e;
          e2 = upd_order maker (take_fill q) e1;
          e3 = set_status (if bf_sign (rem_q (store e2 taker)) = 0 then Filled else PartiallyFilled) taker e2;
          e4 = (if bf_sign (rem_q (store e3 maker)) = 0
                then snd (removeLocked (o_ID (store e3 maker)) (set_status Filled maker e3))
                else set_status PartiallyFilled maker e3)
      in upd_order maker (\<lambda>v. v\<lparr>o_UpdatedAt := clock e4\<rparr>) e4)"

text \<open>The trade and its notifications: the second half.\<close>

definition fill_publish :: "bf \<Rightarrow> bf \<Rightarrow> bool \<Rightarrow> ref \<Rightarrow> ref \<Rightarrow> engine \<Rightarrow> engine" where
  "fill_publish price q makerFilled taker maker e =
     (let t = mk_trade taker maker price q e;
          e1 = upd_stats (\<lambda>x. x\<lparr>TradesExecuted := TradesExecuted x + 1\<rparr>) (e\<lparr>e_nuuid := Suc (e_nuuid e)\<rparr>);
          e2 = e1\<lparr>e_MD := map_option (RecordTrade (clock e1) t) (e_MD e1)\<rparr>
      in emitFill taker maker q makerFilled (emitTrade t e2))"

definition fillLocked :: "ref \<Rightarrow> ref \<Rightarrow> engine \<Rightarrow> engine outcome" where
  "fillLocked taker maker e =
     (let q = fill_qty (store e taker) (store e maker)
      in if bf_sign q \<le> 0 then Done e
         else let e1 = fill_book q taker maker e;
                  makerFilled = (bf_sign (rem_q (store e1 maker)) = 0);
                  execPrice = newBigFloatCopy (o_Price (store e1 maker))
              in obind (setLastTradePrice execPrice e1) (\<lambda>e2.
                 obind (of_option execPrice) (\<lambda>p.
                 Done (fill_publish p q makerFilled taker maker e2))))"

section \<open>Self-trade prevention\<close>

definition isSelfTrade :: "engine \<Rightarrow> order \<Rightarrow> order \<Rightarrow> bool" where
  "isSelfTrade e taker maker \<longleftrightarrow>
     \<not> (o_STP taker = STPDisabled \<and> e_stp e = STPDisabled) \<and>
     o_UserID taker = o_UserID maker \<and> o_UserID taker \<noteq> []"

definition stp_mode_of :: "engine \<Rightarrow> order \<Rightarrow> stp_mode" where
  "stp_mode_of e taker = (if o_STP taker = STPDisabled then e_stp e else o_STP taker)"

text \<open>\<open>True\<close> means: go on matching.\<close>

definition applySTP :: "ref \<Rightarrow> ref \<Rightarrow> engine \<Rightarrow> bool \<times> engine" where
  "applySTP taker maker e =
     (case stp_mode_of e (store e taker) of
        STPCancelTaker \<Rightarrow> (False, set_status Cancelled taker e)
      | STPCancelMaker \<Rightarrow> (True, snd (removeLocked (o_ID (store e maker)) e))
      | STPCancelBoth \<Rightarrow>
          (False, set_status Cancelled taker (snd (removeLocked (o_ID (store e maker)) e)))
      | _ \<Rightarrow> (True, e))"

section \<open>The matching loop\<close>

definition bestOppositeLocked :: "side \<Rightarrow> engine \<Rightarrow> (ref option \<times> engine) outcome" where
  "bestOppositeLocked sd e = (if sd = Buy then bestAskLocked e else bestBidLocked e)"

definition price_cmp :: "bf option \<Rightarrow> bf option \<Rightarrow> int outcome" where
  "price_cmp a b = (case (a, b) of (Some p, Some q) \<Rightarrow> Done (bf_cmp p q) | _ \<Rightarrow> Panicked)"

text \<open>When the best opposite order no longer crosses: the tests of the limit and the IOC loop.\<close>

definition limit_break :: "order \<Rightarrow> order \<Rightarrow> bool outcome" where
  "limit_break v best =
     (if o_Side v = Buy then obind (price_cmp (o_Price best) (o_Price v)) (\<lambda>c. Done (0 < c))
      else if o_Side v = Sell then obind (price_cmp (o_Price best) (o_Price v)) (\<lambda>c. Done (c < 0))
      else Done False)"

definition market_break :: "order \<Rightarrow> order \<Rightarrow> bool outcome" where
  "market_break v best = Done False"

definition ioc_break :: "order \<Rightarrow> order \<Rightarrow> bool outcome" where
  "ioc_break v best = (if o_Price v \<noteq> None then limit_break v best else Done False)"

text \<open>
  The loop shared by the limit, market and IOC strategies, which differ in the test alone. The
  fuel bounds the iterations: with an unknown self-trade mode the loop need not end.
\<close>

fun match_loop :: "(order \<Rightarrow> order \<Rightarrow> bool outcome) \<Rightarrow> nat \<Rightarrow> ref \<Rightarrow> engine \<Rightarrow> engine outcome" where
  "match_loop brk 0 r e = OutOfFuel"
| "match_loop brk (Suc n) r e =
     (if bf_sign (rem_q (store e r)) \<le> 0 then Done e
      else obind (bestOppositeLocked (o_Side (store e r)) e) (\<lambda>(best, e1).
        case best of
          None \<Rightarrow> Done e1
        | Some m \<Rightarrow>
            obind (brk (store e1 r) (store e1 m)) (\<lambda>stop.
              if stop then Done e1
              else if isSelfTrade e1 (store e1 r) (store e1 m)
              then (let (go, e2) = applySTP r m e1 in if go then match_loop brk n r e2 else Done e2)
              else obind (fillLocked r m e1) (match_loop brk n r))))"

section \<open>Strategies\<close>

definition matchLimitLocked :: "nat \<Rightarrow> ref \<Rightarrow> engine \<Rightarrow> engine outcome" where
  "matchLimitLocked fuel r e =
     obind (match_loop limit_break fuel r e) (\<lambda>e1.
       if 0 < bf_sign (rem_q (store e1 r)) \<and> o_TIF (store e1 r) = GTC
       then obind (addLocked r e1) (\<lambda>e2.
              Done (if o_Status (store e2 r) \<noteq> PartiallyFilled then set_status New r e2 else e2))
       else Done e1)"

text \<open>What is left of a market or IOC order lapses.\<close>

definition lapse :: "ref \<Rightarrow> engine \<Rightarrow> engine" where
  "lapse r e =
     (if 0 < bf_sign (rem_q (store e r))
      then set_status (if 0 < bf_sign (o_FilledQty (store e r)) then PartiallyFilled else Cancelled) r e
      else e)"

definition matchMarketLocked :: "nat \<Rightarrow> ref \<Rightarrow> engine \<Rightarrow> engine outcome" where
  "matchMarketLocked fuel r e = obind (match_loop market_break fuel r e) (\<lambda>e1. Done (lapse r e1))"

definition matchIOCLocked :: "nat \<Rightarrow> ref \<Rightarrow> engine \<Rightarrow> engine outcome" where
  "matchIOCLocked fuel r e = obind (match_loop ioc_break fuel r e) (\<lambda>e1. Done (lapse r e1))"

definition collectOppositeLocked :: "side \<Rightarrow> engine \<Rightarrow> ref list" where
  "collectOppositeLocked sd e = (if sd = Buy then asks e else bids e)"

text \<open>The liquidity a fill-or-kill order counts: everything in the opposite heap that crosses.\<close>

fun fok_available :: "engine \<Rightarrow> order \<Rightarrow> ref list \<Rightarrow> bf \<Rightarrow> bf outcome" where
  "fok_available e v [] acc = Done acc"
| "fok_available e v (m # ms) acc =
     obind (ioc_break v (store e m)) (\<lambda>skip.
       if skip \<or> isSelfTrade e v (store e m) then fok_available e v ms acc
       else fok_available e v ms (bf_add acc acc (rem_q (store e m))))"

definition matchFOKLocked :: "nat \<Rightarrow> ref \<Rightarrow> engine \<Rightarrow> engine outcome" where
  "matchFOKLocked fuel r e =
     obind (fok_available e (store e r) (collectOppositeLocked (o_Side (store e r)) e) newBigFloat) (\<lambda>available.
     obind (of_option (o_Quantity (store e r))) (\<lambda>qty.
       if bf_cmp available qty < 0 then Done (reject_count (set_status Rejected r e))
       else obind (matchLimitLocked fuel r e) (\<lambda>e1.
              Done (if 0 < bf_sign (rem_q (store e1 r)) then set_status Rejected r e1 else e1))))"

definition matchPostOnlyLocked :: "ref \<Rightarrow> engine \<Rightarrow> engine outcome" where
  "matchPostOnlyLocked r e =
     (case o_Price (store e r) of
        None \<Rightarrow> Done (reject_count (set_status Rejected r e))
      | Some p \<Rightarrow>
          if bf_sign p \<le> 0 then Done (reject_count (set_status Rejected r e))
          else obind (bestOppositeLocked (o_Side (store e r)) e) (\<lambda>(best, e1).
            obind (case best of
                     None \<Rightarrow> Done False
                   | Some m \<Rightarrow>
                       if o_Side (store e1 r) = Buy
                       then obind (price_cmp (o_Price (store e1 m)) (Some p)) (\<lambda>c. Done (c \<le> 0))
                       else if o_Side (store e1 r) = Sell
                       then obind (price_cmp (o_Price (store e1 m)) (Some p)) (\<lambda>c. Done (0 \<le> c))
                       else Done False) (\<lambda>wouldCross.
              if wouldCross then Done (reject_count (set_status Rejected r e1))
              else obind (addLocked r e1) (\<lambda>e2. Done (set_status New r e2)))))"

definition triggerStopLocked :: "engine \<Rightarrow> order \<Rightarrow> bool outcome" where
  "triggerStopLocked e v =
     (case LastTradePrice e of
        None \<Rightarrow> Done False
      | Some lp \<Rightarrow>
          if bf_sign lp \<le> 0 then Done False
          else obind (price_cmp (Some lp) (o_StopPrice v)) (\<lambda>c.
                 Done (if o_Side v = Buy then 0 \<le> c else c \<le> 0)))"

definition matchStopLocked :: "nat \<Rightarrow> bool \<Rightarrow> ref \<Rightarrow> engine \<Rightarrow> engine outcome" where
  "matchStopLocked fuel isLimit r e =
     (if (case o_StopPrice (store e r) of None \<Rightarrow> True | Some p \<Rightarrow> bf_sign p \<le> 0)
      then Done (reject_count (set_status Rejected r e))
      else obind (triggerStopLocked e (store e r)) (\<lambda>fire.
        if fire
        then (if isLimit then matchLimitLocked fuel r (upd_order r (\<lambda>v. v\<lparr>o_Type := Limit\<rparr>) e)
              else matchMarketLocked fuel r (upd_order r (\<lambda>v. v\<lparr>o_Type := Market\<rparr>) e))
        else Done (set_status New r (addStop r e))))"

text \<open>The order that stands for the visible slice of an iceberg.\<close>

definition ice_slice :: "order \<Rightarrow> order" where
  "ice_slice v =
     \<lparr>o_ID = o_ID v @ '':ice'', o_ClientOrderID = [], o_UserID = o_UserID v, o_Pair = o_Pair v,
      o_Side = o_Side v, o_Type = Limit, o_Price = newBigFloatCopy (o_Price v), o_StopPrice = None,
      o_Quantity = newBigFloatCopy (o_VisibleQty v), o_FilledQty = newBigFloat,
      o_RemainingQty = newBigFloatCopy (o_VisibleQty v), o_IcebergQty = None, o_VisibleQty = None,
      o_TIF = IOC, o_Status = New, o_CreatedAt = o_CreatedAt v, o_UpdatedAt = 0, o_STP = o_STP v,
      o_PostOnly = False, o_bookSeq = 0, o_done = NoChan, o_Err = None\<rparr>"

text \<open>What an iceberg takes over from its slice, and the next slice it shows.\<close>

definition ice_absorb :: "order \<Rightarrow> order \<Rightarrow> order" where
  "ice_absorb vis v =
     (let v1 = v\<lparr>o_FilledQty := bf_add (o_FilledQty v) (o_FilledQty v) (o_FilledQty vis),
                 o_RemainingQty := Some (bf_sub (rem_q v) (rem_q v) (o_FilledQty vis))\<rparr>
      in case o_IcebergQty v1 of
           None \<Rightarrow> v1
         | Some iq \<Rightarrow>
             if 0 < bf_sign (rem_q v1) \<and> 0 < bf_sign iq
             then v1\<lparr>o_VisibleQty :=
                       Some (bf_set newBigFloat (if 0 \<le> bf_cmp (rem_q v1) iq then iq else rem_q v1))\<rparr>
             else v1)"

fun iceberg_loop :: "nat \<Rightarrow> nat \<Rightarrow> ref \<Rightarrow> engine \<Rightarrow> engine outcome" where
  "iceberg_loop 0 fuel r e = OutOfFuel"
| "iceberg_loop (Suc n) fuel r e =
     (if bf_sign (rem_q (store e r)) \<le> 0 then Done e
      else case o_VisibleQty (store e r) of
          None \<Rightarrow> Done e
        | Some q \<Rightarrow>
            if bf_sign q \<le> 0 then Done e
            else let (vis, e1) = alloc (ice_slice (store e r)) e
                 in obind (matchIOCLocked fuel vis e1) (\<lambda>e2.
                    iceberg_loop n fuel r (upd_order r (ice_absorb (store e2 vis)) e2)))"

definition matchIcebergLocked :: "nat \<Rightarrow> ref \<Rightarrow> engine \<Rightarrow> engine outcome" where
  "matchIcebergLocked fuel r e =
     obind (iceberg_loop fuel fuel r e) (\<lambda>e1.
       Done (set_status (if bf_sign (rem_q (store e1 r)) = 0 then Filled
                         else if 0 < bf_sign (o_FilledQty (store e1 r)) then PartiallyFilled
                         else Cancelled) r e1))"

section \<open>Stops\<close>

definition stop_fires :: "bf \<Rightarrow> order \<Rightarrow> bool outcome" where
  "stop_fires lp v =
     (if o_Side v = Buy then obind (price_cmp (Some lp) (o_StopPrice v)) (\<lambda>c. Done (0 \<le> c))
      else if o_Side v = Sell then obind (price_cmp (Some lp) (o_StopPrice v)) (\<lambda>c. Done (c \<le> 0))
      else Done False)"

fun split_stops :: "(ref \<Rightarrow> order) \<Rightarrow> bf \<Rightarrow> ref list \<Rightarrow> (ref list \<times> ref list) outcome" where
  "split_stops st lp [] = Done ([], [])"
| "split_stops st lp (r # rs) =
     obind (stop_fires lp (st r)) (\<lambda>fire.
     obind (split_stops st lp rs) (\<lambda>(triggered, pending).
       Done (if fire then (r # triggered, pending) else (triggered, r # pending))))"

fun run_triggered :: "nat \<Rightarrow> ref list \<Rightarrow> engine \<Rightarrow> engine outcome" where
  "run_triggered fuel [] e = Done e"
| "run_triggered fuel (r # rs) e =
     obind (if o_Type (store e r) = StopLoss
            then matchMarketLocked fuel r (upd_order r (\<lambda>v. v\<lparr>o_Type := Market\<rparr>) e)
            else matchLimitLocked fuel r (upd_order r (\<lambda>v. v\<lparr>o_Type := Limit\<rparr>) e))
       (run_triggered fuel rs)"

definition triggerStops :: "nat \<Rightarrow> engine \<Rightarrow> engine outcome" where
  "triggerStops fuel e =
     (if stops e = [] then Done e
      else case LastTradePrice e of
          None \<Rightarrow> Done e
        | Some lp \<Rightarrow>
            if bf_sign lp \<le> 0 then Done e
            else obind (split_stops (store e) lp (stops e)) (\<lambda>(triggered, pending).
                   run_triggered fuel triggered (e\<lparr>stops := pending\<rparr>)))"

section \<open>Orders and cancels\<close>

definition markWALFailure :: "engine \<Rightarrow> engine" where
  "markWALFailure e = (upd_stats (\<lambda>t. t\<lparr>WALErrors := WALErrors t + 1\<rparr>) e)\<lparr>e_degraded := True\<rparr>"

definition dispatch :: "nat \<Rightarrow> ref \<Rightarrow> engine \<Rightarrow> engine outcome" where
  "dispatch fuel r e =
     (case o_Type (store e r) of
        Market \<Rightarrow> matchMarketLocked fuel r e
      | Limit \<Rightarrow> matchLimitLocked fuel r e
      | FillOrKill \<Rightarrow> matchFOKLocked fuel r e
      | ImmediateOrCancel \<Rightarrow> matchIOCLocked fuel r e
      | Iceberg \<Rightarrow> matchIcebergLocked fuel r e
      | StopLoss \<Rightarrow> matchStopLocked fuel False r e
      | StopLimit \<Rightarrow> matchStopLocked fuel True r e
      | PostOnly \<Rightarrow> matchPostOnlyLocked r e
      | OtherType n \<Rightarrow> matchLimitLocked fuel r e)"

text \<open>A missing or exhausted remaining quantity is set to the quantity.\<close>

definition ready :: "ref \<Rightarrow> engine \<Rightarrow> engine" where
  "ready r e =
     (if (case o_RemainingQty (store e r) of None \<Rightarrow> True | Some q \<Rightarrow> bf_sign q \<le> 0)
      then upd_order r (\<lambda>v. v\<lparr>o_RemainingQty := newBigFloatCopy (o_Quantity v)\<rparr>) e else e)"

definition processOrder :: "nat \<Rightarrow> ref \<Rightarrow> engine \<Rightarrow> engine outcome" where
  "processOrder fuel r e =
     (case AppendOrder (e_io e) (clock e) (store e r) (e_wal e) of
        (Some err, w) \<Rightarrow>
          close_done r (upd_order r (\<lambda>v. v\<lparr>o_UpdatedAt := clock e\<rparr>) (reject_count
            (upd_order r (\<lambda>v. v\<lparr>o_Status := Rejected, o_Err := Some WalAppendFailed\<rparr>)
              (markWALFailure (e\<lparr>e_wal := w\<rparr>)))))
      | (None, w) \<Rightarrow>
          let e0 = e\<lparr>e_wal := w\<rparr>
          in if (case o_Quantity (store e0 r) of None \<Rightarrow> True | Some q \<Rightarrow> bf_sign q \<le> 0)
             then Done (reject_count (set_status Rejected r e0))
             else obind (dispatch fuel r (ready r e0)) (\<lambda>e2.
                     let e3 = (if o_Status (store e2 r) \<in> {Filled, PartiallyFilled}
                               then upd_stats (\<lambda>t. t\<lparr>OrdersMatched := OrdersMatched t + 1\<rparr>) e2 else e2)
                     in close_done r (upd_order r (\<lambda>v. v\<lparr>o_UpdatedAt := clock e3\<rparr>) e3)))"

datatype cancel_error = CancelWal | OrderNotFound | OrderNotOwned

definition processCancel :: "string \<Rightarrow> string \<Rightarrow> engine \<Rightarrow> (cancel_error + ref) \<times> engine" where
  "processCancel orderID userID e =
     (case AppendCancel (e_io e) (clock e) orderID userID (e_wal e) of
        (Some err, w) \<Rightarrow> (Inl CancelWal, markWALFailure (e\<lparr>e_wal := w\<rparr>))
      | (None, w) \<Rightarrow>
          let e0 = e\<lparr>e_wal := w\<rparr>
          in case gm_get (orders e0) orderID of
               None \<Rightarrow> (Inl OrderNotFound, e0)
             | Some r \<Rightarrow>
                 if userID \<noteq> [] \<and> o_UserID (store e0 r) \<noteq> userID then (Inl OrderNotOwned, e0)
                 else (Inr r, upd_stats (\<lambda>t. t\<lparr>OrdersCancelled := OrdersCancelled t + 1\<rparr>)
                                (snd (removeLocked (o_ID (store e0 r)) e0))))"

fun cancel_each :: "ref list \<Rightarrow> string \<Rightarrow> nat \<Rightarrow> engine \<Rightarrow> nat \<times> engine" where
  "cancel_each [] userID n e = (n, e)"
| "cancel_each (r # rs) userID n e =
     (case processCancel (o_ID (store e r)) userID e of
        (Inl err, e1) \<Rightarrow> cancel_each rs userID n e1
      | (Inr x, e1) \<Rightarrow> cancel_each rs userID (Suc n) e1)"

definition CancelAll :: "string \<Rightarrow> engine \<Rightarrow> nat \<times> engine" where
  "CancelAll userID e = cancel_each (GetOrdersByUser userID e) userID 0 e"

definition engine_RecentTrades :: "int \<Rightarrow> engine \<Rightarrow> trade list" where
  "engine_RecentTrades limit e = (case e_MD e of None \<Rightarrow> [] | Some r \<Rightarrow> RecentTrades r limit)"

text \<open>One batch of the engine loop: the drained orders in turn, then the stops.\<close>

fun process_batch :: "nat \<Rightarrow> ref list \<Rightarrow> engine \<Rightarrow> engine outcome" where
  "process_batch fuel [] e = triggerStops fuel e"
| "process_batch fuel (r # rs) e = obind (processOrder fuel r e) (process_batch fuel rs)"

end
