(* ===== verification/Book_Invariant.thy ===== *)
theory Book_Invariant
  imports Order_Book
begin

text \<open>
  The order book's well-formedness: the lookup map, the two heaps and the per-user index agree.
  Every operation of the book keeps it, and under it the best order of a side is the live order
  with the highest price-time priority.
\<close>

section \<open>Well-formedness\<close>

definition heap_refs :: "'a book_scheme \<Rightarrow> ref set" where
  "heap_refs s = set (bids s) \<union> set (asks s)"

definition side_ok :: "side \<Rightarrow> 'a book_scheme \<Rightarrow> bool" where
  "side_ok sd s \<longleftrightarrow>
     (\<forall>r \<in> set (side_heap sd s). o_Price (store s r) \<noteq> None \<and> o_RemainingQty (store s r) \<noteq> None \<and>
        (o_Side (store s r) = Buy \<longleftrightarrow> sd = Buy) \<and> r < nextref s) \<and>
     heap_ord (order_lt sd (store s)) (side_heap sd s)"

definition orders_ok :: "'a book_scheme \<Rightarrow> bool" where
  "orders_ok s \<longleftrightarrow> gm_wf (orders s) \<and>
     (\<forall>oid r. gm_get (orders s) oid = Some r \<longrightarrow>
        o_ID (store s r) = oid \<and>
        (0 < bval (rem_q (store s r)) \<longrightarrow> r \<in> set (side_heap (o_Side (store s r)) s)))"

text \<open>The map entry of a heap element's id, if there is one, is that element.\<close>

definition unique_ids :: "'a book_scheme \<Rightarrow> bool" where
  "unique_ids s \<longleftrightarrow>
     (\<forall>r \<in> heap_refs s. \<forall>r'. gm_get (orders s) (o_ID (store s r)) = Some r' \<longrightarrow> r' = r)"

definition indexed :: "'a book_scheme \<Rightarrow> string \<Rightarrow> string \<Rightarrow> bool" where
  "indexed s u oid = (case gm_get (userOrders s) u of None \<Rightarrow> False | Some ids \<Rightarrow> gm_get ids oid \<noteq> None)"

definition index_ok :: "'a book_scheme \<Rightarrow> bool" where
  "index_ok s \<longleftrightarrow> gm_wf (userOrders s) \<and>
     (\<forall>u ids. gm_get (userOrders s) u = Some ids \<longrightarrow> gm_wf ids \<and> ids \<noteq> []) \<and>
     (\<forall>u oid. indexed s u oid \<longleftrightarrow> (\<exists>r. gm_get (orders s) oid = Some r \<and> o_UserID (store s r) = u))"

definition alloc_ok :: "'a book_scheme \<Rightarrow> bool" where
  "alloc_ok s \<longleftrightarrow> (\<forall>oid r. gm_get (orders s) oid = Some r \<longrightarrow> r < nextref s)"

definition book_wf :: "'a book_scheme \<Rightarrow> bool" where
  "book_wf s \<longleftrightarrow> side_ok Buy s \<and> side_ok Sell s \<and> orders_ok s \<and> unique_ids s \<and> index_ok s \<and> alloc_ok s"

lemma side_heap_simps [simp]:
  "side_heap Buy s = bids s" "sd \<noteq> Buy \<Longrightarrow> side_heap sd s = asks s"
  "set_side_heap Buy h s = s\<lparr>bids := h\<rparr>" "sd \<noteq> Buy \<Longrightarrow> set_side_heap sd h s = s\<lparr>asks := h\<rparr>"
  by (simp_all add: side_heap_def set_side_heap_def)

lemma heap_refsI: "r \<in> set (side_heap sd s) \<Longrightarrow> r \<in> heap_refs s"
  by (auto simp: heap_refs_def side_heap_def split: if_splits)

lemma order_lt_sell: "sd \<noteq> Buy \<Longrightarrow> order_lt sd st = order_lt Sell st"
  by (intro ext) (simp add: order_lt_def)

lemma side_ok_sell: "sd \<noteq> Buy \<Longrightarrow> side_ok sd s = side_ok Sell s"
proof -
  assume b: "sd \<noteq> Buy"
  have "side_heap sd s = side_heap Sell s" using b by (simp add: side_heap_def)
  then show ?thesis unfolding side_ok_def order_lt_sell [OF b] using b by auto
qed

lemma book_wf_side: "book_wf s \<Longrightarrow> side_ok sd s"
  using side_ok_sell [of sd s] by (cases "sd = Buy") (simp_all add: book_wf_def)

text \<open>The empty book.\<close>

lemma NewOrderBook_wf [simp]: "book_wf (NewOrderBook st pair)"
  by (simp add: book_wf_def side_ok_def orders_ok_def unique_ids_def index_ok_def indexed_def
      alloc_ok_def heap_refs_def NewOrderBook_def side_heap_def)

section \<open>Changes of orders that the book does not see\<close>

text \<open>
  What the book relies on in an order: its id, owner, side, price and sequence number. The
  remaining quantity may change as long as it does not grow from nothing.
\<close>

definition same_key :: "order \<Rightarrow> order \<Rightarrow> bool" where
  "same_key a b \<longleftrightarrow> o_ID b = o_ID a \<and> o_UserID b = o_UserID a \<and> o_Side b = o_Side a \<and>
     o_Price b = o_Price a \<and> o_bookSeq b = o_bookSeq a \<and>
     (o_RemainingQty a \<noteq> None \<longrightarrow> o_RemainingQty b \<noteq> None) \<and>
     (0 < bval (rem_q b) \<longrightarrow> 0 < bval (rem_q a))"

lemma same_key_refl [simp]: "same_key a a"
  by (simp add: same_key_def)

lemma same_key_simps [simp]:
  "same_key a (a\<lparr>o_Status := st\<rparr>)" "same_key a (a\<lparr>o_UpdatedAt := t\<rparr>)"
  "same_key a (a\<lparr>o_Status := st, o_UpdatedAt := t\<rparr>)" "same_key a (a\<lparr>o_Type := ty\<rparr>)"
  "same_key a (a\<lparr>o_FilledQty := f\<rparr>)" "same_key a (a\<lparr>o_done := d\<rparr>)"
  by (simp_all add: same_key_def rem_q_def)

lemma same_key_trans: "same_key a b \<Longrightarrow> same_key b c \<Longrightarrow> same_key a c"
  by (auto simp: same_key_def)

lemma same_key_lt:
  "same_key (st a) (st' a) \<Longrightarrow> same_key (st b) (st' b) \<Longrightarrow> order_lt sd st' a b = order_lt sd st a b"
  by (simp add: order_lt_def price_of_def same_key_def)

lemma side_ok_cong:
  assumes "side_ok sd s" and "side_heap sd s' = side_heap sd s" and "nextref s \<le> nextref s'"
    and k: "\<And>r. r \<in> set (side_heap sd s) \<Longrightarrow> same_key (store s r) (store s' r)"
  shows "side_ok sd s'"
proof -
  have "heap_ord (order_lt sd (store s')) (side_heap sd s) = heap_ord (order_lt sd (store s)) (side_heap sd s)"
    by (rule heap_ord_cong) (simp add: same_key_lt k)
  with assms show ?thesis by (fastforce simp: side_ok_def same_key_def)
qed

lemma book_wf_cong:
  assumes wf: "book_wf s"
    and eq: "bids s' = bids s" "asks s' = asks s" "orders s' = orders s" "userOrders s' = userOrders s"
      "nextref s \<le> nextref s'"
    and k: "\<And>r. r < nextref s \<Longrightarrow> same_key (store s r) (store s' r)"
  shows "book_wf s'"
proof -
  have hr: "r < nextref s" if "r \<in> heap_refs s" for r
    using wf that by (auto simp: book_wf_def side_ok_def heap_refs_def)
  have oref: "r < nextref s" if "gm_get (orders s) oid = Some r" for oid r
    using wf that by (auto simp: book_wf_def alloc_ok_def)
  have "side_ok Buy s'" "side_ok Sell s'"
    using wf eq k hr by (auto simp: book_wf_def heap_refs_def intro!: side_ok_cong [of _ s s'])
  moreover have "orders_ok s'" unfolding orders_ok_def
  proof (intro conjI allI impI)
    show "gm_wf (orders s')" using wf eq by (simp add: book_wf_def orders_ok_def)
    fix oid r assume g: "gm_get (orders s') oid = Some r"
    then have g': "gm_get (orders s) oid = Some r" using eq by simp
    have sk: "same_key (store s r) (store s' r)" using oref [OF g'] by (rule k)
    show "o_ID (store s' r) = oid" using wf g' sk by (auto simp: book_wf_def orders_ok_def same_key_def)
    show "r \<in> set (side_heap (o_Side (store s' r)) s')" if "0 < bval (rem_q (store s' r))"
    proof -
      have "side_heap sd s' = side_heap sd s" for sd using eq by (simp add: side_heap_def)
      moreover have "o_Side (store s' r) = o_Side (store s r)" "0 < bval (rem_q (store s r))"
        using sk that by (simp_all add: same_key_def)
      ultimately show ?thesis using wf g' by (simp add: book_wf_def orders_ok_def)
    qed
  qed
  moreover have "unique_ids s'"
    using wf eq k hr by (auto simp: book_wf_def unique_ids_def heap_refs_def same_key_def)
  moreover have "index_ok s'"
  proof -
    have "indexed s' = indexed s" using eq by (simp add: indexed_def fun_eq_iff)
    moreover have "gm_get (orders s) oid = Some r \<and> o_UserID (store s' r) = u \<longleftrightarrow>
        gm_get (orders s) oid = Some r \<and> o_UserID (store s r) = u" for oid r u
      using k oref by (auto simp: same_key_def)
    ultimately show ?thesis using wf eq by (simp add: book_wf_def index_ok_def)
  qed
  moreover have "alloc_ok s'" using wf eq by (fastforce simp: book_wf_def alloc_ok_def)
  ultimately show ?thesis by (simp add: book_wf_def)
qed

lemma upd_order_simps [simp]:
  "bids (upd_order r f s) = bids s" "asks (upd_order r f s) = asks s" "orders (upd_order r f s) = orders s"
  "userOrders (upd_order r f s) = userOrders s" "nextref (upd_order r f s) = nextref s"
  "seqNo (upd_order r f s) = seqNo s" "stops (upd_order r f s) = stops s" "clock (upd_order r f s) = clock s"
  "lastTradePrice (upd_order r f s) = lastTradePrice s" "ob_Pair (upd_order r f s) = ob_Pair s"
  "store (upd_order r f s) = (store s)(r := f (store s r))"
  by (simp_all add: upd_order_def)

lemma upd_order_wf: "book_wf s \<Longrightarrow> same_key (store s r) (f (store s r)) \<Longrightarrow> book_wf (upd_order r f s)"
  by (rule book_wf_cong) auto

text \<open>An order that is not in the book may change freely.\<close>

lemma upd_free_wf:
  assumes "book_wf s" and "r \<notin> heap_refs s" and "\<And>oid. gm_get (orders s) oid \<noteq> Some r"
  shows "book_wf (upd_order r f s)"
proof -
  have sk: "same_key (store s x) (store (upd_order r f s) x)" if "x \<noteq> r" for x
    using that by simp
  have "side_ok Buy (upd_order r f s)" "side_ok Sell (upd_order r f s)"
    using assms sk by (auto simp: book_wf_def heap_refs_def side_heap_def intro!: side_ok_cong [of _ s])
  moreover have "orders_ok (upd_order r f s)"
    using assms by (fastforce simp: book_wf_def orders_ok_def side_heap_def)
  moreover have "unique_ids (upd_order r f s)"
    using assms by (auto simp: book_wf_def unique_ids_def heap_refs_def)
  moreover have "index_ok (upd_order r f s)"
  proof -
    have "indexed (upd_order r f s) = indexed s" by (simp add: indexed_def fun_eq_iff)
    moreover have "gm_get (orders s) oid = Some x \<and> o_UserID (store (upd_order r f s) x) = u \<longleftrightarrow>
        gm_get (orders s) oid = Some x \<and> o_UserID (store s x) = u" for oid x u
      using assms(3) by auto
    ultimately show ?thesis using assms(1) by (simp add: book_wf_def index_ok_def)
  qed
  moreover have "alloc_ok (upd_order r f s)" using assms(1) by (simp add: book_wf_def alloc_ok_def)
  ultimately show ?thesis by (simp add: book_wf_def)
qed

section \<open>Removal\<close>

lemma indexRemove_fields [simp]:
  "bids (indexRemove v s) = bids s" "asks (indexRemove v s) = asks s" "orders (indexRemove v s) = orders s"
  "store (indexRemove v s) = store s" "nextref (indexRemove v s) = nextref s"
  "seqNo (indexRemove v s) = seqNo s" "stops (indexRemove v s) = stops s" "clock (indexRemove v s) = clock s"
  "lastTradePrice (indexRemove v s) = lastTradePrice s" "ob_Pair (indexRemove v s) = ob_Pair s"
  by (simp_all add: indexRemove_def Let_def split: option.split)

lemma indexed_indexRemove:
  "indexed (indexRemove v s) u i \<longleftrightarrow> indexed s u i \<and> \<not> (u = o_UserID v \<and> i = o_ID v)"
proof (cases "gm_get (userOrders s) (o_UserID v)")
  case None
  then show ?thesis by (auto simp: indexed_def indexRemove_def)
next
  case (Some ids)
  then show ?thesis using gm_del_empty [of "o_ID v" ids i]
    by (auto simp: indexed_def indexRemove_def Let_def split: option.splits)
qed

lemma indexRemove_lists:
  "index_ok s \<Longrightarrow> gm_wf (userOrders (indexRemove v s)) \<and>
     (\<forall>u ids. gm_get (userOrders (indexRemove v s)) u = Some ids \<longrightarrow> gm_wf ids \<and> ids \<noteq> [])"
  by (auto simp: indexRemove_def index_ok_def Let_def split: option.splits if_splits)

text \<open>Deleting an entry from the map together with its index entry keeps the invariant.\<close>

lemma delete_entry_wf:
  assumes wf: "book_wf s" and g: "gm_get (orders s) oid = Some r"
  shows "book_wf (indexRemove (store s r) (s\<lparr>orders := gm_del oid (orders s)\<rparr>))" (is "book_wf ?t")
proof -
  have idr: "o_ID (store s r) = oid" using wf g by (auto simp: book_wf_def orders_ok_def)
  let ?s = "s\<lparr>orders := gm_del oid (orders s)\<rparr>"
  have ix: "index_ok s" using wf by (simp add: book_wf_def)
  have eq: "indexRemove (store s r) ?s = (indexRemove (store s r) s)\<lparr>orders := gm_del oid (orders s)\<rparr>"
    by (simp add: indexRemove_def Let_def split: option.split)
  have "indexed ?t u i \<longleftrightarrow> (\<exists>x. gm_get (gm_del oid (orders s)) i = Some x \<and> o_UserID (store s x) = u)" for u i
  proof -
    have "indexed ?t u i \<longleftrightarrow> indexed s u i \<and> \<not> (u = o_UserID (store s r) \<and> i = oid)"
      using indexed_indexRemove [of "store s r" s u i] idr unfolding eq by (simp add: indexed_def)
    then show ?thesis using ix g by (auto simp: index_ok_def)
  qed
  moreover have "gm_wf (userOrders ?t)" "\<And>u ids. gm_get (userOrders ?t) u = Some ids \<Longrightarrow> gm_wf ids \<and> ids \<noteq> []"
    using indexRemove_lists [OF ix, of "store s r"] unfolding eq by auto
  ultimately have "index_ok ?t" by (simp add: index_ok_def)
  moreover have "side_ok Buy ?t" "side_ok Sell ?t"
    using wf by (auto simp: book_wf_def side_ok_def side_heap_def)
  moreover have "side_heap sd ?t = side_heap sd s" for sd by (simp add: side_heap_def)
  then have "orders_ok ?t" using wf by (auto simp: book_wf_def orders_ok_def)
  moreover have "unique_ids ?t" using wf by (auto simp: book_wf_def unique_ids_def heap_refs_def)
  moreover have "alloc_ok ?t" using wf by (auto simp: book_wf_def alloc_ok_def)
  ultimately show ?thesis by (simp add: book_wf_def)
qed

lemma seqNo_wf [simp]: "book_wf (s\<lparr>seqNo := n\<rparr>) = book_wf s"
  by (simp add: book_wf_def side_ok_def orders_ok_def unique_ids_def index_ok_def indexed_def
      alloc_ok_def heap_refs_def side_heap_def)

lemma removeLocked_wf:
  assumes wf: "book_wf s"
  shows "book_wf (snd (removeLocked oid s))"
proof (cases "gm_get (orders s) oid")
  case None
  then show ?thesis using wf by (simp add: removeLocked_def)
next
  case (Some r)
  then show ?thesis using delete_entry_wf [OF wf Some]
    by (auto simp: removeLocked_def Let_def intro!: upd_order_wf)
qed

lemma removeLocked_fields [simp]:
  "bids (snd (removeLocked oid s)) = bids s" "asks (snd (removeLocked oid s)) = asks s"
  "orders (snd (removeLocked oid s)) = gm_del oid (orders s)"
  "nextref (snd (removeLocked oid s)) = nextref s" "stops (snd (removeLocked oid s)) = stops s"
  "clock (snd (removeLocked oid s)) = clock s"
  "lastTradePrice (snd (removeLocked oid s)) = lastTradePrice s"
  "ob_Pair (snd (removeLocked oid s)) = ob_Pair s"
  by (auto simp: removeLocked_def Let_def dom_map_of_conv_image_fst map_of_eq_None_iff
      intro!: delete_id [symmetric] split: option.split)

lemma fst_removeLocked [simp]: "fst (removeLocked oid s) = gm_get (orders s) oid"
  by (simp add: removeLocked_def Let_def split: option.split)

lemma store_removeLocked:
  "store (snd (removeLocked oid s)) =
     (case gm_get (orders s) oid of None \<Rightarrow> store s
      | Some r \<Rightarrow> (store s)(r := (store s r)\<lparr>o_Status := Cancelled, o_UpdatedAt := clock s\<rparr>))"
  by (simp add: removeLocked_def Let_def split: option.split)

section \<open>Adding\<close>

lemma indexAdd_fields [simp]:
  "bids (indexAdd v s) = bids s" "asks (indexAdd v s) = asks s" "orders (indexAdd v s) = orders s"
  "store (indexAdd v s) = store s" "nextref (indexAdd v s) = nextref s"
  "seqNo (indexAdd v s) = seqNo s" "stops (indexAdd v s) = stops s" "clock (indexAdd v s) = clock s"
  "lastTradePrice (indexAdd v s) = lastTradePrice s" "ob_Pair (indexAdd v s) = ob_Pair s"
  by (simp_all add: indexAdd_def Let_def)

lemma indexed_indexAdd: "indexed (indexAdd v s) u i \<longleftrightarrow> indexed s u i \<or> (u = o_UserID v \<and> i = o_ID v)"
  by (auto simp: indexed_def indexAdd_def Let_def split: option.splits)

lemma indexAdd_lists:
  "index_ok s \<Longrightarrow> gm_wf (userOrders (indexAdd v s)) \<and>
     (\<forall>u ids. gm_get (userOrders (indexAdd v s)) u = Some ids \<longrightarrow> gm_wf ids \<and> ids \<noteq> [])"
  by (auto simp: indexAdd_def index_ok_def Let_def split: option.splits if_splits)

text \<open>
  An order can be added when it is priced, allocated, not in the book and its id is nobody else's.
\<close>

definition addable :: "ref \<Rightarrow> 'a book_scheme \<Rightarrow> bool" where
  "addable r s \<longleftrightarrow> r < nextref s \<and> r \<notin> heap_refs s \<and> o_Price (store s r) \<noteq> None \<and>
     o_RemainingQty (store s r) \<noteq> None \<and> gm_get (orders s) (o_ID (store s r)) = None \<and>
     (\<forall>x \<in> heap_refs s. o_ID (store s x) \<noteq> o_ID (store s r))"

lemma next_seq_fields [simp]:
  "bids (next_seq r s) = bids s" "asks (next_seq r s) = asks s" "orders (next_seq r s) = orders s"
  "userOrders (next_seq r s) = userOrders s" "nextref (next_seq r s) = nextref s"
  "seqNo (next_seq r s) = seqNo s + 1" "stops (next_seq r s) = stops s" "clock (next_seq r s) = clock s"
  "lastTradePrice (next_seq r s) = lastTradePrice s" "ob_Pair (next_seq r s) = ob_Pair s"
  by (simp_all add: next_seq_def Let_def)

lemma store_next_seq:
  "store (next_seq r s) = (store s)(r := (store s r)\<lparr>o_bookSeq :=
     (if o_bookSeq (store s r) = 0 then seqNo s + 1 else o_bookSeq (store s r))\<rparr>)"
  by (auto simp: next_seq_def Let_def fun_eq_iff)

lemma addable_wf_next_seq:
  assumes wf: "book_wf s" and a: "addable r s"
  shows "book_wf (next_seq r s)" "addable r (next_seq r s)"
proof -
  have "gm_get (orders s) oid \<noteq> Some r" for oid
    using wf a by (auto simp: book_wf_def orders_ok_def addable_def)
  then show "book_wf (next_seq r s)" using wf a
    by (auto simp: next_seq_def Let_def addable_def heap_refs_def intro!: upd_free_wf)
  show "addable r (next_seq r s)"
    using a by (auto simp: addable_def heap_refs_def store_next_seq)
qed

lemma addLocked_ok:
  assumes wf: "book_wf s" and a: "addable r s"
  shows "\<exists>t. addLocked r s = Done t \<and> book_wf t \<and> store t = store (next_seq r s) \<and>
    orders t = gm_put (o_ID (store s r)) r (orders s) \<and> heap_refs t = insert r (heap_refs s) \<and>
    set (side_heap (o_Side (store s r)) t) = insert r (set (side_heap (o_Side (store s r)) s)) \<and>
    nextref t = nextref s \<and> stops t = stops s \<and> seqNo t = seqNo s + 1"
proof -
  define s1 where "s1 = next_seq r s"
  have wf1: "book_wf s1" and a1: "addable r s1" unfolding s1_def by (rule addable_wf_next_seq [OF wf a])+
  define v where "v = store s1 r"
  define s2 where "s2 = s1\<lparr>orders := gm_put (o_ID v) r (orders s1)\<rparr>"
  define s3 where "s3 = indexAdd v s2"
  define sd where "sd = (if o_Side v = Buy then Buy else Sell)"
  have st: "store s3 = store s1" by (simp add: s3_def s2_def)
  have so: "side_ok sd s1" using wf1 by (rule book_wf_side)
  have sh: "side_heap sd s3 = side_heap sd s1" by (simp add: side_heap_def s3_def s2_def)
  obtain h where h: "hpush (order_less sd (store s3)) (side_heap sd s3) r = Done h"
      "heap_ord (order_lt sd (store s3)) h" "mset h = add_mset r (mset (side_heap sd s1))"
    using book_heap.hpush_ok [of sd "store s1" "side_heap sd s1" r] so a1 st sh
    by (auto simp: side_ok_def addable_def)
  have hs: "set h = insert r (set (side_heap sd s1))" using h(3) by (metis set_mset_add_mset_insert set_mset_mset)
  define t where "t = set_side_heap sd h s3"
  have "addLocked r s = obind (hpush (order_less sd (store s3)) (side_heap sd s3) r) (\<lambda>h. Done (set_side_heap sd h s3))"
    unfolding addLocked_def Let_def s3_def s2_def v_def s1_def sd_def by simp
  then have add: "addLocked r s = Done t" unfolding h(1) t_def by simp
  have fields: "store t = store s1" "orders t = gm_put (o_ID v) r (orders s1)" "nextref t = nextref s"
    "stops t = stops s" "seqNo t = seqNo s + 1" "userOrders t = userOrders s3"
    "side_heap sd t = h" "\<And>d. (d = Buy) \<noteq> (sd = Buy) \<Longrightarrow> side_heap d t = side_heap d s1"
    by (auto simp: t_def set_side_heap_def side_heap_def s3_def s2_def s1_def)
  have sdv: "side_heap (o_Side v) x = side_heap sd x" for x :: "'a book_scheme"
    by (simp add: sd_def side_heap_def)
  have a1': "o_ID (store s1 x) \<noteq> o_ID v" if "x \<in> heap_refs s1" for x
    using a1 that by (simp add: addable_def v_def)
  have hr: "heap_refs t = insert r (heap_refs s1)"
    using hs fields(7) fields(8) [of Buy] fields(8) [of Sell]
    by (cases "sd = Buy") (auto simp: heap_refs_def)
  have "side_ok d t" if "d = Buy \<or> d = Sell" for d
  proof (cases "d = sd")
    case True
    have v: "o_Price v \<noteq> None" "o_RemainingQty v \<noteq> None" "r < nextref s" "(o_Side v = Buy) = (sd = Buy)"
      using a1 by (simp_all add: addable_def v_def s1_def sd_def)
    have "heap_ord (order_lt sd (store s1)) h" using h(2) st by simp
    moreover have "nextref s1 = nextref s" by (simp add: s1_def)
    ultimately show ?thesis using so v
      unfolding side_ok_def True fields(1,3,7) hs by (auto simp: v_def)
  next
    case False
    then have "side_heap d t = side_heap d s1" using that fields(8) [of d] by (auto simp: sd_def split: if_splits)
    moreover have "side_ok d s1" using wf1 by (rule book_wf_side)
    ultimately show ?thesis using fields by (auto simp: side_ok_def s1_def)
  qed
  moreover have "orders_ok t"
  proof -
    have "x \<in> set (side_heap (o_Side (store s1 x)) t)"
      if "x \<in> set (side_heap (o_Side (store s1 x)) s1)" for x
      using that fields(7,8) hs by (cases "o_Side (store s1 x) = Buy"; cases "sd = Buy")
        (auto simp: side_heap_def)
    moreover have "r \<in> set (side_heap (o_Side v) t)" using fields(7) hs sdv by simp
    ultimately show ?thesis using wf1 fields by (auto simp: book_wf_def orders_ok_def v_def)
  qed
  moreover have "unique_ids t"
    using wf1 fields hr a1' by (auto simp: book_wf_def unique_ids_def v_def)
  moreover have "index_ok t"
  proof -
    have i2: "gm_wf (userOrders s3) \<and> (\<forall>u ids. gm_get (userOrders s3) u = Some ids \<longrightarrow> gm_wf ids \<and> ids \<noteq> [])"
      using indexAdd_lists [of s1 v] wf1 by (simp add: s3_def s2_def book_wf_def indexAdd_def Let_def)
    have "indexed t u i \<longleftrightarrow> indexed s1 u i \<or> (u = o_UserID v \<and> i = o_ID v)" for u i
      using indexed_indexAdd [of v s2 u i] fields(6) by (simp add: indexed_def s3_def s2_def)
    moreover have "gm_get (orders s1) (o_ID v) = None" using a1 by (simp add: addable_def v_def)
    ultimately show ?thesis using i2 wf1 fields
      by (auto simp: book_wf_def index_ok_def v_def)
  qed
  moreover have "alloc_ok t"
    using wf1 fields a1 by (auto simp: book_wf_def alloc_ok_def addable_def s1_def)
  ultimately have "book_wf t" by (simp add: book_wf_def)
  moreover have "heap_refs s1 = heap_refs s" "side_heap d s1 = side_heap d s" for d
    by (simp_all add: heap_refs_def side_heap_def s1_def)
  moreover have "o_ID v = o_ID (store s r)" "o_Side v = o_Side (store s r)" "orders s1 = orders s"
    by (simp_all add: v_def s1_def store_next_seq)
  ultimately show ?thesis using add fields hr hs sdv by (auto simp: s1_def)
qed

section \<open>The best order\<close>

lemma is_live_set_side_heap [simp]: "is_live (set_side_heap sd h s) r = is_live s r"
  by (simp add: is_live_def set_side_heap_def)

lemma set_side_heap_fields [simp]:
  "store (set_side_heap sd h s) = store s" "orders (set_side_heap sd h s) = orders s"
  "userOrders (set_side_heap sd h s) = userOrders s" "nextref (set_side_heap sd h s) = nextref s"
  "stops (set_side_heap sd h s) = stops s" "seqNo (set_side_heap sd h s) = seqNo s"
  "lastTradePrice (set_side_heap sd h s) = lastTradePrice s" "clock (set_side_heap sd h s) = clock s"
  "ob_Pair (set_side_heap sd h s) = ob_Pair s"
  by (simp_all add: set_side_heap_def)

lemma side_heap_set [simp]: "side_heap sd (set_side_heap sd h s) = h"
  by (simp add: side_heap_def set_side_heap_def)

lemma side_heap_set_other: "(d = Buy) \<noteq> (sd = Buy) \<Longrightarrow> side_heap d (set_side_heap sd h s) = side_heap d s"
  by (auto simp: side_heap_def set_side_heap_def)

lemma best_loop_ok:
  assumes "\<forall>x \<in> set h. o_Price (store s x) \<noteq> None" and "heap_ord (order_lt sd (store s)) h"
  shows "\<exists>b h'. best_loop sd s h = Done (b, h') \<and> heap_ord (order_lt sd (store s)) h' \<and>
    set h' \<subseteq> set h \<and> (\<forall>x \<in> set h. is_live s x \<longrightarrow> x \<in> set h') \<and>
    (case b of None \<Rightarrow> h' = []
     | Some r \<Rightarrow> r \<in> set h' \<and> is_live s r \<and> (\<forall>x \<in> set h'. \<not> order_lt sd (store s) x r))"
  using assms
proof (induction "length h" arbitrary: h rule: less_induct)
  case less
  show ?case
  proof (cases h)
    case Nil
    then show ?thesis by simp
  next
    case (Cons t ts)
    show ?thesis
    proof (cases "is_live s t")
      case True
      have "\<not> order_lt sd (store s) x t" if x: "x \<in> set h" for x
      proof -
        obtain k where k: "k < length h" "h ! k = x" using x by (auto simp: in_set_conv_nth)
        have "\<not> order_lt sd (store s) (h ! k) (h ! 0)"
          using book_heap.heap_root_least [OF less.prems(2,1) order_refl k(1)] .
        then show ?thesis using k Cons by simp
      qed
      then show ?thesis using True Cons less.prems(2) by (intro exI [of _ "Some t"] exI [of _ h]) auto
    next
      case False
      obtain ys where p: "hpop (order_less sd (store s)) h = Done (t, ys)"
          "heap_ord (order_lt sd (store s)) ys" "add_mset t (mset ys) = mset h"
        using book_heap.hpop_ok [OF less.prems(2,1)] Cons by auto
      have sub: "set h = insert t (set ys)" using p(3) by (metis set_mset_add_mset_insert set_mset_mset)
      have len: "length ys < length h" using p(3) by (metis length_Cons lessI mset.simps(2) mset_eq_length)
      have "\<forall>x \<in> set ys. o_Price (store s x) \<noteq> None" using less.prems(1) sub by auto
      from less.hyps [OF len this p(2)] obtain b h' where
        r: "best_loop sd s ys = Done (b, h')" "heap_ord (order_lt sd (store s)) h'" "set h' \<subseteq> set ys"
          "\<forall>x \<in> set ys. is_live s x \<longrightarrow> x \<in> set h'"
          "case b of None \<Rightarrow> h' = []
           | Some r \<Rightarrow> r \<in> set h' \<and> is_live s r \<and> (\<forall>x \<in> set h'. \<not> order_lt sd (store s) x r)"
        by blast
      have "best_loop sd s h = Done (b, h')" using p(1) r(1) False unfolding Cons by simp
      then show ?thesis using r(2-5) sub False
        by (intro exI [of _ b] exI [of _ h'] conjI) auto
    qed
  qed
qed

text \<open>What the best order of a side is: a live one no live order of the side beats.\<close>

definition best_spec :: "side \<Rightarrow> 'a book_scheme \<Rightarrow> ref option \<Rightarrow> bool" where
  "best_spec sd s b \<longleftrightarrow>
     (case b of
        None \<Rightarrow> \<forall>r \<in> set (side_heap sd s). \<not> is_live s r
      | Some r \<Rightarrow> r \<in> set (side_heap sd s) \<and> is_live s r \<and>
          (\<forall>x \<in> set (side_heap sd s). is_live s x \<longrightarrow> \<not> order_lt sd (store s) x r))"

text \<open>Shrinking a heap to a sub-heap that keeps the live orders keeps the invariant.\<close>

lemma shrink_heap_wf:
  assumes wf: "book_wf s" and h: "heap_ord (order_lt sd (store s)) h" "set h \<subseteq> set (side_heap sd s)"
    and live: "\<forall>x \<in> set (side_heap sd s). is_live s x \<longrightarrow> x \<in> set h"
  shows "book_wf (set_side_heap sd h s)" (is "book_wf ?t")
proof -
  have side: "side_ok d ?t" for d
  proof (cases "(d = Buy) = (sd = Buy)")
    case True
    then have "side_heap d ?t = h" "order_lt d (store s) = order_lt sd (store s)"
      "side_heap d s = side_heap sd s"
      by (auto simp: side_heap_def set_side_heap_def order_lt_def fun_eq_iff)
    then show ?thesis using book_wf_side [OF wf, of d] h by (auto simp: side_ok_def)
  next
    case False
    then show ?thesis using book_wf_side [OF wf, of d] by (auto simp: side_ok_def side_heap_set_other)
  qed
  have "x \<in> set (side_heap (o_Side (store s x)) ?t)"
    if g: "gm_get (orders s) i = Some x" and p: "0 < bval (rem_q (store s x))" for i x
  proof -
    have m: "x \<in> set (side_heap (o_Side (store s x)) s)" "o_ID (store s x) = i"
      using wf g p by (auto simp: book_wf_def orders_ok_def)
    have l: "is_live s x" using g m p by (simp add: is_live_def)
    show ?thesis
    proof (cases "(o_Side (store s x) = Buy) = (sd = Buy)")
      case True
      then have "side_heap (o_Side (store s x)) s = side_heap sd s" "side_heap (o_Side (store s x)) ?t = h"
        by (auto simp: side_heap_def set_side_heap_def)
      then show ?thesis using m l live by simp
    next
      case False then show ?thesis using m by (simp add: side_heap_set_other)
    qed
  qed
  then have "orders_ok ?t" using wf by (simp add: book_wf_def orders_ok_def)
  moreover have "heap_refs ?t \<subseteq> heap_refs s"
    using h(2) by (auto simp: heap_refs_def side_heap_def set_side_heap_def split: if_splits)
  then have "unique_ids ?t" using wf by (auto simp: book_wf_def unique_ids_def)
  moreover have "index_ok ?t" using wf by (simp add: book_wf_def index_ok_def indexed_def)
  moreover have "alloc_ok ?t" using wf by (simp add: book_wf_def alloc_ok_def)
  ultimately show ?thesis using side by (simp add: book_wf_def)
qed

lemma bestLocked_ok:
  assumes wf: "book_wf s"
  shows "\<exists>b h. bestLocked sd s = Done (b, set_side_heap sd h s) \<and> book_wf (set_side_heap sd h s) \<and>
    set h \<subseteq> set (side_heap sd s) \<and> (\<forall>x \<in> set (side_heap sd s). is_live s x \<longrightarrow> x \<in> set h) \<and>
    best_spec sd s b \<and> (\<forall>r. b = Some r \<longrightarrow> r \<in> set h)"
proof -
  have so: "side_ok sd s" using wf by (rule book_wf_side)
  then have a: "\<forall>x \<in> set (side_heap sd s). o_Price (store s x) \<noteq> None"
    "heap_ord (order_lt sd (store s)) (side_heap sd s)" by (auto simp: side_ok_def)
  from best_loop_ok [OF a] obtain b h where
    r: "best_loop sd s (side_heap sd s) = Done (b, h)" "heap_ord (order_lt sd (store s)) h"
      "set h \<subseteq> set (side_heap sd s)" "\<forall>x \<in> set (side_heap sd s). is_live s x \<longrightarrow> x \<in> set h"
      "case b of None \<Rightarrow> h = []
       | Some r \<Rightarrow> r \<in> set h \<and> is_live s r \<and> (\<forall>x \<in> set h. \<not> order_lt sd (store s) x r)"
    by blast
  have "best_spec sd s b" using r(3-5) by (auto simp: best_spec_def split: option.splits)
  moreover have "r \<in> set h" if "b = Some r" for r using r(5) that by simp
  moreover have "book_wf (set_side_heap sd h s)" using shrink_heap_wf [OF wf r(2,3,4)] .
  ultimately show ?thesis using r(1,3,4) by (auto simp: bestLocked_def)
qed

lemma pop_loop_ok:
  assumes "\<forall>x \<in> set h. o_Price (store s x) \<noteq> None" and "heap_ord (order_lt sd (store s)) h"
  shows "\<exists>b h'. pop_loop sd s h = Done (b, h') \<and> heap_ord (order_lt sd (store s)) h' \<and>
    set h' \<subseteq> set h \<and> (\<forall>x \<in> set h. is_live s x \<longrightarrow> x \<in> set h' \<or> b = Some x) \<and>
    (case b of None \<Rightarrow> h' = []
     | Some r \<Rightarrow> r \<in> set h \<and> is_live s r \<and> (\<forall>x \<in> set h'. \<not> order_lt sd (store s) x r))"
  using assms
proof (induction "length h" arbitrary: h rule: less_induct)
  case less
  show ?case
  proof (cases h)
    case Nil
    then show ?thesis by simp
  next
    case (Cons t ts)
    obtain ys where p: "hpop (order_less sd (store s)) h = Done (t, ys)"
        "heap_ord (order_lt sd (store s)) ys" "add_mset t (mset ys) = mset h"
      using book_heap.hpop_ok [OF less.prems(2,1)] Cons by auto
    have sub: "set h = insert t (set ys)" using p(3) by (metis set_mset_add_mset_insert set_mset_mset)
    have len: "length ys < length h" using p(3) by (metis length_Cons lessI mset.simps(2) mset_eq_length)
    have least: "\<not> order_lt sd (store s) x t" if x: "x \<in> set h" for x
    proof -
      obtain k where k: "k < length h" "h ! k = x" using x by (auto simp: in_set_conv_nth)
      have "\<not> order_lt sd (store s) (h ! k) (h ! 0)"
        using book_heap.heap_root_least [OF less.prems(2,1) order_refl k(1)] .
      then show ?thesis using k Cons by simp
    qed
    show ?thesis
    proof (cases "is_live s t")
      case True
      then have "pop_loop sd s h = Done (Some t, ys)" using p(1) unfolding Cons by simp
      then show ?thesis using p(2) sub least True by auto
    next
      case False
      have "\<forall>x \<in> set ys. o_Price (store s x) \<noteq> None" using less.prems(1) sub by auto
      from less.hyps [OF len this p(2)] obtain b h' where
        r: "pop_loop sd s ys = Done (b, h')" "heap_ord (order_lt sd (store s)) h'" "set h' \<subseteq> set ys"
          "\<forall>x \<in> set ys. is_live s x \<longrightarrow> x \<in> set h' \<or> b = Some x"
          "case b of None \<Rightarrow> h' = []
           | Some r \<Rightarrow> r \<in> set ys \<and> is_live s r \<and> (\<forall>x \<in> set h'. \<not> order_lt sd (store s) x r)"
        by blast
      have "pop_loop sd s h = Done (b, h')" using p(1) r(1) False unfolding Cons by simp
      then show ?thesis using r(2-5) sub False by (auto split: option.splits)
    qed
  qed
qed

text \<open>\<open>PopBestBid\<close>/\<open>PopBestAsk\<close> hand out the best live order and take it off the book.\<close>

lemma popBest_ok:
  assumes wf: "book_wf s"
  shows "\<exists>b t. popBest sd s = Done (b, t) \<and> book_wf t \<and> best_spec sd s b \<and>
    (\<forall>r. b = Some r \<longrightarrow> gm_get (orders t) (o_ID (store s r)) = None)"
proof -
  have so: "side_ok sd s" using wf by (rule book_wf_side)
  then have a: "\<forall>x \<in> set (side_heap sd s). o_Price (store s x) \<noteq> None"
    "heap_ord (order_lt sd (store s)) (side_heap sd s)" by (auto simp: side_ok_def)
  from pop_loop_ok [OF a] obtain b h where
    r: "pop_loop sd s (side_heap sd s) = Done (b, h)" "heap_ord (order_lt sd (store s)) h"
      "set h \<subseteq> set (side_heap sd s)"
      "\<forall>x \<in> set (side_heap sd s). is_live s x \<longrightarrow> x \<in> set h \<or> b = Some x"
      "case b of None \<Rightarrow> h = []
       | Some r \<Rightarrow> r \<in> set (side_heap sd s) \<and> is_live s r \<and> (\<forall>x \<in> set h. \<not> order_lt sd (store s) x r)"
    by blast
  show ?thesis
  proof (cases b)
    case None
    then have n: "\<forall>x \<in> set (side_heap sd s). is_live s x \<longrightarrow> x \<in> set h" using r(4) by simp
    have "book_wf (set_side_heap sd h s)" using shrink_heap_wf [OF wf r(2,3) n] .
    moreover have "popBest sd s = Done (None, set_side_heap sd h s)"
      using r(1) None by (simp add: popBest_def Let_def)
    moreover have "best_spec sd s None" using n r(5) None by (auto simp: best_spec_def)
    ultimately show ?thesis using None by blast
  next
    case (Some x)
    have x: "x \<in> set (side_heap sd s)" "is_live s x" "\<forall>y \<in> set h. \<not> order_lt sd (store s) y x"
      using r(5) Some by auto
    then obtain y where "gm_get (orders s) (o_ID (store s x)) = Some y" by (auto simp: is_live_def)
    moreover have "y = x" using wf x(1) calculation by (auto simp: book_wf_def unique_ids_def dest: heap_refsI)
    ultimately have g: "gm_get (orders s) (o_ID (store s x)) = Some x" by simp
    define u where "u = indexRemove (store s x) (s\<lparr>orders := gm_del (o_ID (store s x)) (orders s)\<rparr>)"
    have wu: "book_wf u" unfolding u_def by (rule delete_entry_wf [OF wf g])
    have su: "store u = store s" "orders u = gm_del (o_ID (store s x)) (orders s)"
      "side_heap sd u = side_heap sd s"
      by (simp_all add: u_def side_heap_def)
    have "y \<in> set h" if "y \<in> set (side_heap sd s)" "is_live u y" for y
    proof -
      have "is_live s y" "y \<noteq> x" using that(2) su by (auto simp: is_live_def split: if_splits)
      then show ?thesis using r(4) that(1) Some by auto
    qed
    then have "book_wf (set_side_heap sd h u)"
      using shrink_heap_wf [OF wu, of sd h] r(2,3) su by simp
    moreover have "set_side_heap sd h u =
        indexRemove (store s x) ((set_side_heap sd h s)\<lparr>orders := gm_del (o_ID (store s x)) (orders s)\<rparr>)"
      by (simp add: u_def set_side_heap_def indexRemove_def Let_def split: option.split)
    ultimately have "popBest sd s = Done (Some x, (set_side_heap sd h u)\<lparr>seqNo := seqNo s + 1\<rparr>)"
      using r(1) Some by (simp add: popBest_def Let_def)
    moreover have "best_spec sd s (Some x)"
    proof -
      have "\<not> order_lt sd (store s) x x" by (simp add: order_lt_def)
      then show ?thesis using x r(4) Some by (auto simp: best_spec_def)
    qed
    ultimately show ?thesis using \<open>book_wf (set_side_heap sd h u)\<close> su Some by auto
  qed
qed

end
