(* ===== verification/Matching.thy ===== *)
theory Matching
  imports Engine Book_Invariant
begin

text \<open>
  The matching loop of \<open>engine.go\<close>, iteration by iteration: a step relation, what each step does
  to the book, the orders and the trades, and the facts that hold of every step.
\<close>

section \<open>Frames\<close>

lemma upd_stats_book [simp]:
  "store (upd_stats f e) = store e" "bids (upd_stats f e) = bids e" "asks (upd_stats f e) = asks e"
  "orders (upd_stats f e) = orders e" "userOrders (upd_stats f e) = userOrders e"
  "nextref (upd_stats f e) = nextref e" "stops (upd_stats f e) = stops e" "clock (upd_stats f e) = clock e"
  "lastTradePrice (upd_stats f e) = lastTradePrice e" "seqNo (upd_stats f e) = seqNo e"
  "ob_Pair (upd_stats f e) = ob_Pair e"
  by (simp_all add: upd_stats_def)

lemma upd_stats_engine [simp]:
  "e_Trades (upd_stats f e) = e_Trades e" "e_Fills (upd_stats f e) = e_Fills e" "e_stp (upd_stats f e) = e_stp e"
  "e_wal (upd_stats f e) = e_wal e" "e_degraded (upd_stats f e) = e_degraded e" "e_io (upd_stats f e) = e_io e"
  "e_stats (upd_stats f e) = f (e_stats e)" "e_MD (upd_stats f e) = e_MD e"
  "e_uuid (upd_stats f e) = e_uuid e" "e_nuuid (upd_stats f e) = e_nuuid e"
  by (simp_all add: upd_stats_def)

lemma reject_count_fields [simp]:
  "store (reject_count e) = store e" "bids (reject_count e) = bids e" "asks (reject_count e) = asks e"
  "orders (reject_count e) = orders e" "userOrders (reject_count e) = userOrders e"
  "nextref (reject_count e) = nextref e" "stops (reject_count e) = stops e" "clock (reject_count e) = clock e"
  "e_Trades (reject_count e) = e_Trades e" "e_stp (reject_count e) = e_stp e"
  "lastTradePrice (reject_count e) = lastTradePrice e" "e_wal (reject_count e) = e_wal e"
  "e_degraded (reject_count e) = e_degraded e" "e_stats (reject_count e) = (e_stats e)\<lparr>OrdersRejected := OrdersRejected (e_stats e) + 1\<rparr>"
  by (simp_all add: reject_count_def)

lemma engine_book_frames [simp]:
  "e_Trades (upd_order r f e) = e_Trades e" "e_Fills (upd_order r f e) = e_Fills e"
  "e_stp (upd_order r f e) = e_stp e" "e_stats (upd_order r f e) = e_stats e"
  "e_Trades (set_side_heap sd h e) = e_Trades e" "e_Fills (set_side_heap sd h e) = e_Fills e"
  "e_stp (set_side_heap sd h e) = e_stp e" "e_stats (set_side_heap sd h e) = e_stats e"
  "e_Trades (indexRemove v e) = e_Trades e" "e_Fills (indexRemove v e) = e_Fills e"
  "e_stp (indexRemove v e) = e_stp e" "e_stats (indexRemove v e) = e_stats e"
  "e_Trades (indexAdd v e) = e_Trades e" "e_Fills (indexAdd v e) = e_Fills e"
  "e_stp (indexAdd v e) = e_stp e" "e_stats (indexAdd v e) = e_stats e"
  "e_Trades (next_seq r e) = e_Trades e" "e_Fills (next_seq r e) = e_Fills e"
  "e_stp (next_seq r e) = e_stp e" "e_stats (next_seq r e) = e_stats e"
  "e_degraded (upd_order r f e) = e_degraded e" "e_wal (upd_order r f e) = e_wal e" "e_io (upd_order r f e) = e_io e"
  by (auto simp: upd_order_def set_side_heap_def indexRemove_def indexAdd_def next_seq_def Let_def
      split: option.split)

lemma removeLocked_engine [simp]:
  "e_Trades (snd (removeLocked i e)) = e_Trades e" "e_Fills (snd (removeLocked i e)) = e_Fills e"
  "e_stp (snd (removeLocked i e)) = e_stp e" "e_stats (snd (removeLocked i e)) = e_stats e"
  by (auto simp: removeLocked_def Let_def split: option.split)

lemma addLocked_engine:
  "addLocked r e = Done t \<Longrightarrow> e_Trades t = e_Trades e \<and> e_Fills t = e_Fills e \<and> e_stp t = e_stp e \<and>
     e_stats t = e_stats e"
  by (auto simp: addLocked_def Let_def)

lemma set_status_fields [simp]:
  "bids (set_status x r e) = bids e" "asks (set_status x r e) = asks e" "orders (set_status x r e) = orders e"
  "userOrders (set_status x r e) = userOrders e" "nextref (set_status x r e) = nextref e"
  "stops (set_status x r e) = stops e" "clock (set_status x r e) = clock e" "seqNo (set_status x r e) = seqNo e"
  "lastTradePrice (set_status x r e) = lastTradePrice e" "e_Trades (set_status x r e) = e_Trades e"
  "e_stp (set_status x r e) = e_stp e" "e_stats (set_status x r e) = e_stats e"
  "ob_Pair (set_status x r e) = ob_Pair e"
  "store (set_status x r e) = (store e)(r := (store e r)\<lparr>o_Status := x\<rparr>)"
  by (simp_all add: set_status_def)

section \<open>One fill\<close>

text \<open>The two orders after a fill of \<open>q\<close>; a filled maker has been through \<open>removeLocked\<close>.\<close>

definition taker_after :: "bf \<Rightarrow> order \<Rightarrow> order" where
  "taker_after q v = (take_fill q v)\<lparr>o_Status := if bval (rem_q (take_fill q v)) = 0 then Filled else PartiallyFilled\<rparr>"

definition maker_after :: "int \<Rightarrow> bf \<Rightarrow> order \<Rightarrow> order" where
  "maker_after now q v = (take_fill q v)\<lparr>
     o_Status := if bval (rem_q (take_fill q v)) = 0 then Cancelled else PartiallyFilled,
     o_UpdatedAt := now\<rparr>"

lemma rem_take_fill: "rem_q (take_fill q v) = bf_sub (rem_q v) (rem_q v) q"
  by (simp add: take_fill_def)

lemma take_fill_same [simp]:
  "o_ID (take_fill q v) = o_ID v" "o_UserID (take_fill q v) = o_UserID v" "o_Side (take_fill q v) = o_Side v"
  "o_Price (take_fill q v) = o_Price v" "o_bookSeq (take_fill q v) = o_bookSeq v" "o_TIF (take_fill q v) = o_TIF v"
  "o_STP (take_fill q v) = o_STP v" "o_Type (take_fill q v) = o_Type v" "o_Quantity (take_fill q v) = o_Quantity v"
  "o_done (take_fill q v) = o_done v" "o_RemainingQty (take_fill q v) = Some (bf_sub (rem_q v) (rem_q v) q)"
  "o_FilledQty (take_fill q v) = bf_add (o_FilledQty v) (o_FilledQty v) q"
  "o_StopPrice (take_fill q v) = o_StopPrice v"
  by (simp_all add: take_fill_def)

lemma store_fill_book:
  assumes "r \<noteq> m" and "gm_get (orders e) (o_ID (store e m)) = Some m"
  shows "store (fill_book q r m e) =
    (store e)(r := taker_after q (store e r), m := maker_after (clock e) q (store e m))"
  using assms by (auto simp: fill_book_def Let_def store_removeLocked taker_after_def maker_after_def
      fun_eq_iff split: if_splits)

lemma fill_book_fields [simp]:
  "bids (fill_book q r m e) = bids e" "asks (fill_book q r m e) = asks e"
  "nextref (fill_book q r m e) = nextref e" "stops (fill_book q r m e) = stops e"
  "clock (fill_book q r m e) = clock e" "ob_Pair (fill_book q r m e) = ob_Pair e"
  "e_Trades (fill_book q r m e) = e_Trades e" "e_stp (fill_book q r m e) = e_stp e"
  "e_stats (fill_book q r m e) = e_stats e"
  by (auto simp: fill_book_def Let_def)

lemma orders_fill_book:
  "r \<noteq> m \<Longrightarrow> orders (fill_book q r m e) =
     (if bval (rem_q (take_fill q (store e m))) = 0 then gm_del (o_ID (store e m)) (orders e) else orders e)"
  by (auto simp: fill_book_def Let_def)

lemma fill_publish_book [simp]:
  "store (fill_publish p q b r m e) = store e" "bids (fill_publish p q b r m e) = bids e"
  "asks (fill_publish p q b r m e) = asks e" "orders (fill_publish p q b r m e) = orders e"
  "userOrders (fill_publish p q b r m e) = userOrders e" "nextref (fill_publish p q b r m e) = nextref e"
  "stops (fill_publish p q b r m e) = stops e" "clock (fill_publish p q b r m e) = clock e"
  "lastTradePrice (fill_publish p q b r m e) = lastTradePrice e" "seqNo (fill_publish p q b r m e) = seqNo e"
  "e_stp (fill_publish p q b r m e) = e_stp e" "ob_Pair (fill_publish p q b r m e) = ob_Pair e"
  by (auto simp: fill_publish_def Let_def emitTrade_def emitFill_def)

lemma fill_publish_trades:
  "e_Trades (fill_publish p q b r m e) =
     (if length (e_Trades e) < chan_cap then e_Trades e @ [mk_trade r m p q e] else e_Trades e)"
  by (auto simp: fill_publish_def Let_def emitTrade_def emitFill_def)

text \<open>An order with a remaining quantity of at most the default precision.\<close>

definition sized :: "order \<Rightarrow> bool" where
  "sized v \<longleftrightarrow> (\<exists>x. o_RemainingQty v = Some x \<and> 0 < bprec x \<and> bprec x \<le> 128)"

lemma sized_rem: "sized v \<Longrightarrow> 0 < bprec (rem_q v) \<and> bprec (rem_q v) \<le> 128 \<and> o_RemainingQty v \<noteq> None"
  by (auto simp: sized_def rem_q_def)

lemma sized_take_fill [simp]: "sized v \<Longrightarrow> sized (take_fill q v)"
  by (auto simp: sized_def rem_q_def bf_sub_def res_prec_def)

lemma sized_simps [simp]:
  "sized (v\<lparr>o_Status := x\<rparr>) = sized v" "sized (v\<lparr>o_UpdatedAt := t\<rparr>) = sized v"
  "sized (v\<lparr>o_Type := ty\<rparr>) = sized v" "sized (v\<lparr>o_bookSeq := n\<rparr>) = sized v"
  "sized (v\<lparr>o_done := d\<rparr>) = sized v"
  by (simp_all add: sized_def)

lemma sized_after [simp]: "sized v \<Longrightarrow> sized (taker_after q v)" "sized v \<Longrightarrow> sized (maker_after t q v)"
  by (simp_all add: taker_after_def maker_after_def)

lemma bval_fill_qty:
  "sized t \<Longrightarrow> sized m \<Longrightarrow> bval (fill_qty t m) = min (bval (rem_q t)) (bval (rem_q m)) \<and>
     bprec (fill_qty t m) = 128"
  using sized_rem [of t] sized_rem [of m] by (auto simp: fill_qty_def bf_set_widen)

text \<open>A fill never takes more than there is, and uses one of the two orders up.\<close>

lemma rem_after_fill:
  assumes "sized v" and "0 \<le> bval q" and "bval q \<le> bval (rem_q v)"
  shows "0 \<le> bval (rem_q (take_fill q v))"
    "bval (rem_q (take_fill q v)) = 0 \<longleftrightarrow> bval q = bval (rem_q v)"
  using assms sized_rem [of v] by (auto simp: rem_take_fill bf_sub_def res_prec_def)

lemma same_key_take_fill:
  assumes "sized v" and "0 \<le> bval q" and "bval q \<le> bval (rem_q v)" and "0 < bval (rem_q v)"
  shows "same_key v (take_fill q v)"
  using assms by (simp add: same_key_def)

lemma price_cmp_Done: "p \<noteq> None \<Longrightarrow> q \<noteq> None \<Longrightarrow> \<exists>c. price_cmp p q = Done c"
  by (auto simp: price_cmp_def)

section \<open>The taker\<close>

text \<open>
  While an order is matched it is allocated but not yet in the book, and no order of the book
  carries its identifier.
\<close>

definition off_book :: "ref \<Rightarrow> 'a book_scheme \<Rightarrow> bool" where
  "off_book r s \<longleftrightarrow> r < nextref s \<and> r \<notin> heap_refs s \<and> gm_get (orders s) (o_ID (store s r)) = None \<and>
     (\<forall>x \<in> heap_refs s. o_ID (store s x) \<noteq> o_ID (store s r))"

definition taking :: "ref \<Rightarrow> 'a book_scheme \<Rightarrow> bool" where
  "taking r s \<longleftrightarrow> book_wf s \<and> off_book r s \<and> sized (store s r) \<and> (\<forall>x \<in> heap_refs s. sized (store s x))"

lemma off_book_unmapped: "book_wf s \<Longrightarrow> off_book r s \<Longrightarrow> gm_get (orders s) oid \<noteq> Some r"
  by (auto simp: off_book_def book_wf_def orders_ok_def)

lemma taking_free_wf: "taking r s \<Longrightarrow> book_wf (upd_order r f s)"
  by (auto simp: taking_def off_book_unmapped intro!: upd_free_wf) (auto simp: off_book_def)

text \<open>A live entry of a heap is the one the lookup map has for its id.\<close>

lemma live_mapped:
  assumes "book_wf s" "m \<in> heap_refs s" "is_live s m"
  shows "gm_get (orders s) (o_ID (store s m)) = Some m" "0 < bval (rem_q (store s m))"
    "o_Price (store s m) \<noteq> None"
proof -
  obtain x where "gm_get (orders s) (o_ID (store s m)) = Some x" using assms(3) by (auto simp: is_live_def)
  moreover from this have "x = m" using assms(1,2) by (auto simp: book_wf_def unique_ids_def)
  ultimately show "gm_get (orders s) (o_ID (store s m)) = Some m" by simp
  show "0 < bval (rem_q (store s m))" using assms(3) by (simp add: is_live_def)
  show "o_Price (store s m) \<noteq> None"
    using assms(1,2) by (auto simp: book_wf_def side_ok_def heap_refs_def)
qed

text \<open>Dropping stale heap entries, changing the taker and removing orders keep \<open>taking\<close>.\<close>

lemma taking_shrink:
  assumes "taking r s" "book_wf t" "heap_refs t \<subseteq> heap_refs s" "nextref s \<le> nextref t"
    and "\<And>i. gm_get (orders s) i = None \<Longrightarrow> gm_get (orders t) i = None"
    and "\<And>x. x = r \<or> x \<in> heap_refs t \<Longrightarrow>
      o_ID (store t x) = o_ID (store s x) \<and> (sized (store s x) \<longrightarrow> sized (store t x))"
  shows "taking r t"
proof -
  have "off_book r s" using assms(1) by (simp add: taking_def)
  then have "off_book r t" using assms(3-6) by (auto simp: off_book_def)
  then show ?thesis using assms by (auto simp: taking_def)
qed

lemma heap_refs_set_side_heap: "set h \<subseteq> set (side_heap sd s) \<Longrightarrow> heap_refs (set_side_heap sd h s) \<subseteq> heap_refs s"
  by (auto simp: heap_refs_def side_heap_def set_side_heap_def split: if_splits)

lemma taking_clean:
  "taking r s \<Longrightarrow> book_wf (set_side_heap sd h s) \<Longrightarrow> set h \<subseteq> set (side_heap sd s) \<Longrightarrow>
   taking r (set_side_heap sd h s)"
  by (erule taking_shrink) (auto simp: heap_refs_set_side_heap)

lemma heap_refs_removeLocked [simp]: "heap_refs (snd (removeLocked i s)) = heap_refs s"
  by (simp add: heap_refs_def)

lemma taking_removeLocked:
  assumes "taking r s"
  shows "taking r (snd (removeLocked i s))"
proof (rule taking_shrink [OF assms])
  show "book_wf (snd (removeLocked i s))" using assms by (simp add: taking_def removeLocked_wf)
qed (auto simp: store_removeLocked split: option.split)

lemma heap_refs_upd_order [simp]: "heap_refs (upd_order r f s) = heap_refs s"
  by (simp add: heap_refs_def)

lemma heap_refs_set_status [simp]: "heap_refs (set_status x r s) = heap_refs s"
  by (simp add: heap_refs_def)

lemma taking_set_status:
  assumes "taking r e"
  shows "taking r (set_status x r e)"
proof (rule taking_shrink [OF assms])
  show "book_wf (set_status x r e)" using assms by (simp add: set_status_def taking_free_wf)
qed auto

section \<open>What a fill does\<close>

lemma heap_refs_fill_publish [simp]: "heap_refs (fill_publish p q b r m e) = heap_refs e"
  by (simp add: heap_refs_def)

lemma heap_refs_fill_book [simp]: "heap_refs (fill_book q r m e) = heap_refs e"
  by (simp add: heap_refs_def)

lemma book_wf_lastTradePrice [simp]: "book_wf (s\<lparr>lastTradePrice := p\<rparr>) = book_wf s"
  by (simp add: book_wf_def side_ok_def orders_ok_def unique_ids_def index_ok_def indexed_def
      alloc_ok_def heap_refs_def side_heap_def)

text \<open>\<open>fill_book\<close> keeps the book well-formed: the taker is off the book, the maker loses quantity.\<close>

lemma fill_book_wf:
  assumes t: "taking r e" and m: "m \<in> heap_refs e" "is_live e m" "0 < bval (rem_q (store e r))"
  shows "book_wf (fill_book (fill_qty (store e r) (store e m)) r m e)"
proof -
  define q where "q = fill_qty (store e r) (store e m)"
  have wf: "book_wf e" and s: "sized (store e r)" "sized (store e m)" and rm: "r \<noteq> m"
    using t m by (auto simp: taking_def off_book_def)
  note lm = live_mapped [OF wf m(1,2)]
  have q: "0 < bval q" "bval q \<le> bval (rem_q (store e m))"
    using bval_fill_qty [OF s] m(3) lm(2) by (auto simp: q_def)
  define e1 where "e1 = upd_order r (take_fill q) e"
  define e2 where "e2 = upd_order m (take_fill q) e1"
  define e3 where "e3 = set_status (if bf_sign (rem_q (store e2 r)) = 0 then Filled else PartiallyFilled) r e2"
  define e4 where "e4 = (if bf_sign (rem_q (store e3 m)) = 0
                then snd (removeLocked (o_ID (store e3 m)) (set_status Filled m e3))
                else set_status PartiallyFilled m e3)"
  have "book_wf e1" unfolding e1_def by (rule taking_free_wf [OF t])
  then have "book_wf e2" unfolding e2_def
    by (rule upd_order_wf) (use same_key_take_fill [OF s(2)] q lm(2) rm in \<open>auto simp: e1_def\<close>)
  then have "book_wf e3" unfolding e3_def set_status_def by (rule upd_order_wf) simp
  then have "book_wf (set_status x m e3)" for x unfolding set_status_def by (rule upd_order_wf) simp
  then have "book_wf e4" unfolding e4_def by (simp add: removeLocked_wf)
  then have "book_wf (upd_order m (\<lambda>v. v\<lparr>o_UpdatedAt := clock e4\<rparr>) e4)" by (rule upd_order_wf) simp
  then show ?thesis unfolding fill_book_def Let_def q_def e4_def e3_def e2_def e1_def .
qed

text \<open>The state a fill ends in, when it does not panic.\<close>

definition after_fill :: "ref \<Rightarrow> ref \<Rightarrow> engine \<Rightarrow> engine" where
  "after_fill r m e =
     (let q = fill_qty (store e r) (store e m);
          e1 = fill_book q r m e;
          p = bf_set newBigFloat (the (o_Price (store e m)))
      in fill_publish p q (bf_sign (rem_q (store e1 m)) = 0) r m (e1\<lparr>lastTradePrice := Some p\<rparr>))"

lemma fillLocked_Done:
  assumes t: "taking r e" and m: "m \<in> heap_refs e" "is_live e m" "0 < bval (rem_q (store e r))"
  shows "fillLocked r m e = Done (after_fill r m e)"
proof -
  have wf: "book_wf e" and s: "sized (store e r)" "sized (store e m)" and rm: "r \<noteq> m"
    using t m by (auto simp: taking_def off_book_def)
  note lm = live_mapped [OF wf m(1,2)]
  define q where "q = fill_qty (store e r) (store e m)"
  have q: "0 < bval q" using bval_fill_qty [OF s] m(3) lm(2) by (simp add: q_def)
  obtain p where p: "o_Price (store e m) = Some p" using lm(3) by auto
  have "o_Price (store (fill_book q r m e) m) = Some p"
    using p rm by (simp add: store_fill_book [OF rm lm(1)] maker_after_def)
  then show ?thesis using p q
    by (simp add: fillLocked_def after_fill_def Let_def q_def [symmetric] setLastTradePrice_def
        newBigFloatCopy_def)
qed

lemma heap_refs_lastTradePrice [simp]: "heap_refs (s\<lparr>lastTradePrice := p\<rparr>) = heap_refs s"
  by (simp add: heap_refs_def)

lemma after_fill_fields [simp]:
  "bids (after_fill r m e) = bids e" "asks (after_fill r m e) = asks e" "heap_refs (after_fill r m e) = heap_refs e"
  "nextref (after_fill r m e) = nextref e" "stops (after_fill r m e) = stops e"
  "clock (after_fill r m e) = clock e" "e_stp (after_fill r m e) = e_stp e"
  "side_heap sd (after_fill r m e) = side_heap sd e"
  by (simp_all add: after_fill_def Let_def side_heap_def)

lemma store_after_fill:
  assumes "r \<noteq> m" and "gm_get (orders e) (o_ID (store e m)) = Some m"
  shows "store (after_fill r m e) =
    (store e)(r := taker_after (fill_qty (store e r) (store e m)) (store e r),
              m := maker_after (clock e) (fill_qty (store e r) (store e m)) (store e m))"
  by (simp add: after_fill_def Let_def store_fill_book [OF assms])

lemma orders_after_fill:
  "r \<noteq> m \<Longrightarrow> orders (after_fill r m e) =
     (if bval (rem_q (take_fill (fill_qty (store e r) (store e m)) (store e m))) = 0
      then gm_del (o_ID (store e m)) (orders e) else orders e)"
  by (simp add: after_fill_def Let_def orders_fill_book)

text \<open>The trade of a fill: the maker's price, the smaller remaining quantity, the taker's side.\<close>

definition fill_trade :: "ref \<Rightarrow> ref \<Rightarrow> engine \<Rightarrow> trade \<Rightarrow> bool" where
  "fill_trade r m e t \<longleftrightarrow>
     bval (t_Price t) = bval (bf_set newBigFloat (the (o_Price (store e m)))) \<and>
     bval (t_Quantity t) = min (bval (rem_q (store e r))) (bval (rem_q (store e m))) \<and>
     t_TakerSide t = o_Side (store e r) \<and> t_Pair t = ob_Pair e \<and>
     (if o_Side (store e r) = Sell
      then t_BuyOrderID t = o_ID (store e m) \<and> t_SellOrderID t = o_ID (store e r) \<and>
        t_BuyerID t = o_UserID (store e m) \<and> t_SellerID t = o_UserID (store e r)
      else t_BuyOrderID t = o_ID (store e r) \<and> t_SellOrderID t = o_ID (store e m) \<and>
        t_BuyerID t = o_UserID (store e r) \<and> t_SellerID t = o_UserID (store e m))"

lemma trades_after_fill:
  assumes t: "taking r e" and m: "m \<in> heap_refs e" "is_live e m" "0 < bval (rem_q (store e r))"
  shows "\<exists>t. fill_trade r m e t \<and> e_Trades (after_fill r m e) =
     (if length (e_Trades e) < chan_cap then e_Trades e @ [t] else e_Trades e)"
proof -
  have wf: "book_wf e" and s: "sized (store e r)" "sized (store e m)" and rm: "r \<noteq> m"
    using t m by (auto simp: taking_def off_book_def)
  note lm = live_mapped [OF wf m(1,2)]
  define q where "q = fill_qty (store e r) (store e m)"
  define p where "p = bf_set newBigFloat (the (o_Price (store e m)))"
  define e1 where "e1 = (fill_book q r m e)\<lparr>lastTradePrice := Some p\<rparr>"
  have st: "store e1 = (store e)(r := taker_after q (store e r), m := maker_after (clock e) q (store e m))"
    by (simp add: e1_def store_fill_book [OF rm lm(1)])
  have pq: "bprec p = 128" "bprec q = 128" "bval q = min (bval (rem_q (store e r))) (bval (rem_q (store e m)))"
    using bval_fill_qty [OF s] by (simp_all add: p_def q_def bprec_set)
  have "fill_trade r m e (mk_trade r m p q e1)"
    using rm pq by (simp add: fill_trade_def mk_trade_def st taker_after_def maker_after_def
        p_def [symmetric] bf_set_widen Let_def) (simp add: e1_def)
  then show ?thesis
    by (intro exI [of _ "mk_trade r m p q e1"])
      (simp add: after_fill_def Let_def fill_publish_trades e1_def p_def q_def)
qed

lemma taking_after_fill:
  assumes t: "taking r e" and m: "m \<in> heap_refs e" "is_live e m" "0 < bval (rem_q (store e r))"
  shows "taking r (after_fill r m e)"
proof (rule taking_shrink [OF t])
  have wf: "book_wf e" and rm: "r \<noteq> m" using t m by (auto simp: taking_def off_book_def)
  note lm = live_mapped [OF wf m(1,2)]
  have "book_wf (fill_book (fill_qty (store e r) (store e m)) r m e)" by (rule fill_book_wf [OF t m])
  then show "book_wf (after_fill r m e)" unfolding after_fill_def Let_def
    by (rule book_wf_cong) (simp_all add: fill_publish_def emitTrade_def emitFill_def Let_def)
  show "gm_get (orders (after_fill r m e)) i = None" if "gm_get (orders e) i = None" for i
    using that rm by (simp add: orders_after_fill)
  show "o_ID (store (after_fill r m e) x) = o_ID (store e x) \<and>
      (sized (store e x) \<longrightarrow> sized (store (after_fill r m e) x))" for x
    by (simp add: store_after_fill [OF rm lm(1)] taker_after_def maker_after_def)
qed simp_all

text \<open>A fill uses up the maker, which leaves the map, or the taker.\<close>

lemma after_fill_progress:
  assumes t: "taking r e" and m: "m \<in> heap_refs e" "is_live e m" "0 < bval (rem_q (store e r))"
  shows "length (orders (after_fill r m e)) < length (orders e) \<or>
    bval (rem_q (store (after_fill r m e) r)) = 0"
    "0 \<le> bval (rem_q (store (after_fill r m e) r))"
    "length (orders (after_fill r m e)) \<le> length (orders e)"
proof -
  have wf: "book_wf e" and s: "sized (store e r)" "sized (store e m)" and rm: "r \<noteq> m"
    using t m by (auto simp: taking_def off_book_def)
  note lm = live_mapped [OF wf m(1,2)]
  define q where "q = fill_qty (store e r) (store e m)"
  have q: "bval q = min (bval (rem_q (store e r))) (bval (rem_q (store e m)))"
    using bval_fill_qty [OF s] by (simp add: q_def)
  note rr = rem_after_fill [OF s(1), of q] and rmk = rem_after_fill [OF s(2), of q]
  have g: "gm_wf (orders e)" using wf by (simp add: book_wf_def orders_ok_def)
  have st: "store (after_fill r m e) r = taker_after q (store e r)"
    using rm by (simp add: store_after_fill [OF rm lm(1)] q_def)
  have sr: "bval (rem_q (taker_after q (store e r))) = bval (rem_q (take_fill q (store e r)))"
    by (simp add: taker_after_def)
  show "0 \<le> bval (rem_q (store (after_fill r m e) r))" unfolding st sr using rr q m(3) lm(2) by simp
  show "length (orders (after_fill r m e)) \<le> length (orders e)"
    by (simp add: orders_after_fill [OF rm] length_gm_del_le)
  show "length (orders (after_fill r m e)) < length (orders e) \<or> bval (rem_q (store (after_fill r m e) r)) = 0"
  proof (cases "bval (rem_q (store e m)) \<le> bval (rem_q (store e r))")
    case True
    then have "bval (rem_q (take_fill q (store e m))) = 0" using rmk q m(3) lm(2) by simp
    then have "length (orders (after_fill r m e)) < length (orders e)"
      using length_gm_del [OF g, of "o_ID (store e m)"] lm(1) by (simp add: orders_after_fill [OF rm] q_def)
    then show ?thesis ..
  next
    case False
    then show ?thesis unfolding st sr using rr q m(3) lm(2) by simp
  qed
qed

end
