(* ===== verification/Match_Loop.thy ===== *)
theory Match_Loop
  imports Matching
begin

text \<open>
  The matching loop refines an abstract transition system: stale heap entries may be dropped, and
  the live order with the best price-time priority is filled or, when it is the taker's own, handed to
  self-trade prevention. Under a known prevention mode the loop ends, and it ends for a reason.
\<close>

declare side_Opposite.simps [simp del]

section \<open>The abstract steps\<close>

definition cleaned :: "side \<Rightarrow> 'a book_scheme \<Rightarrow> 'a book_scheme \<Rightarrow> bool" where
  "cleaned sd s t \<longleftrightarrow> (\<exists>h. t = set_side_heap sd h s \<and> book_wf t \<and> set h \<subseteq> set (side_heap sd s) \<and>
     (\<forall>x \<in> set (side_heap sd s). is_live s x \<longrightarrow> x \<in> set h))"

inductive match_step :: "(order \<Rightarrow> order \<Rightarrow> bool outcome) \<Rightarrow> ref \<Rightarrow> engine \<Rightarrow> engine \<Rightarrow> bool"
  for brk :: "order \<Rightarrow> order \<Rightarrow> bool outcome" and r :: ref where
  drop_stale: "cleaned (side_Opposite (o_Side (store e r))) e e1 \<Longrightarrow> match_step brk r e e1"
| self_trade: "0 < bval (rem_q (store e r)) \<Longrightarrow> best_spec (side_Opposite (o_Side (store e r))) e (Some m) \<Longrightarrow>
    brk (store e r) (store e m) = Done False \<Longrightarrow> isSelfTrade e (store e r) (store e m) \<Longrightarrow>
    match_step brk r e (snd (applySTP r m e))"
| trade_step: "0 < bval (rem_q (store e r)) \<Longrightarrow> best_spec (side_Opposite (o_Side (store e r))) e (Some m) \<Longrightarrow>
    brk (store e r) (store e m) = Done False \<Longrightarrow> \<not> isSelfTrade e (store e r) (store e m) \<Longrightarrow>
    match_step brk r e (after_fill r m e)"

inductive_cases match_stepE: "match_step brk r e e'"

text \<open>Why the loop may stop.\<close>

definition match_end :: "(order \<Rightarrow> order \<Rightarrow> bool outcome) \<Rightarrow> ref \<Rightarrow> engine \<Rightarrow> bool" where
  "match_end brk r e \<longleftrightarrow>
     bval (rem_q (store e r)) \<le> 0 \<or>
     best_spec (side_Opposite (o_Side (store e r))) e None \<or>
     (\<exists>m. best_spec (side_Opposite (o_Side (store e r))) e (Some m) \<and> brk (store e r) (store e m) = Done True) \<or>
     (stp_mode_of e (store e r) \<in> {STPCancelTaker, STPCancelBoth} \<and> o_Status (store e r) = Cancelled)"

lemma match_end_break:
  "best_spec (side_Opposite (o_Side (store e r))) e (Some m) \<Longrightarrow> brk (store e r) (store e m) = Done True \<Longrightarrow>
   match_end brk r e"
  unfolding match_end_def by blast

lemma cleaned_simps:
  assumes "cleaned sd s t"
  shows "store t = store s" "orders t = orders s" "nextref t = nextref s" "stops t = stops s"
    "clock t = clock s" "book_wf t" "heap_refs t \<subseteq> heap_refs s" "userOrders t = userOrders s"
    "lastTradePrice t = lastTradePrice s" "seqNo t = seqNo s" "ob_Pair t = ob_Pair s"
  using assms heap_refs_set_side_heap by (auto simp: cleaned_def)

lemma cleaned_engine:
  assumes "cleaned sd s (t :: engine)"
  shows "e_Trades t = e_Trades s" "e_stp t = e_stp s" "e_Fills t = e_Fills s" "e_stats t = e_stats s"
  using assms by (auto simp: cleaned_def)

lemma cleaned_live:
  assumes "cleaned sd s t" "is_live s x"
  shows "x \<in> set (side_heap d t) \<longleftrightarrow> x \<in> set (side_heap d s)"
proof -
  obtain h where h: "t = set_side_heap sd h s" "set h \<subseteq> set (side_heap sd s)" "x \<in> set (side_heap sd s) \<longrightarrow> x \<in> set h"
    using assms by (auto simp: cleaned_def)
  then show ?thesis by (auto simp: side_heap_def set_side_heap_def split: if_splits)
qed

lemma cleaned_is_live: "cleaned sd s t \<Longrightarrow> is_live t x = is_live s x"
  by (auto simp: cleaned_def)

lemma taking_cleaned: "taking r s \<Longrightarrow> cleaned sd s t \<Longrightarrow> taking r t"
  by (auto simp: cleaned_def taking_clean)

text \<open>The code's search for the best opposite order is a cleaning step and returns the best.\<close>

lemma bestOpposite_ok:
  assumes "book_wf e"
  shows "\<exists>b e1. bestOppositeLocked sd e = Done (b, e1) \<and> cleaned (side_Opposite sd) e e1 \<and>
    best_spec (side_Opposite sd) e1 b"
proof -
  define d where "d = side_Opposite sd"
  have c: "bestOppositeLocked sd e = bestLocked d e"
    by (simp add: bestOppositeLocked_def d_def bestAskLocked_def bestBidLocked_def side_Opposite.simps)
  from bestLocked_ok [OF assms, of d] obtain b h where
    b: "bestLocked d e = Done (b, set_side_heap d h e)" "book_wf (set_side_heap d h e)"
      "set h \<subseteq> set (side_heap d e)" "\<forall>x \<in> set (side_heap d e). is_live e x \<longrightarrow> x \<in> set h"
      "best_spec d e b" "\<forall>r. b = Some r \<longrightarrow> r \<in> set h" by blast
  have "cleaned d e (set_side_heap d h e)" using b by (auto simp: cleaned_def)
  moreover have "best_spec d (set_side_heap d h e) b"
    using b(3,5,6) by (auto simp: best_spec_def split: option.splits)
  ultimately show ?thesis using b(1) unfolding c d_def [symmetric] by blast
qed

lemma best_spec_live:
  assumes "best_spec sd s (Some m)"
  shows "m \<in> set (side_heap sd s)" "m \<in> heap_refs s" "is_live s m"
  using assms heap_refsI by (auto simp: best_spec_def)

section \<open>Every step keeps the book well-formed\<close>

lemma taking_applySTP: "taking r e \<Longrightarrow> taking r (snd (applySTP r m e))"
  by (auto simp: applySTP_def taking_set_status taking_removeLocked split: stp_mode.splits)

lemma match_step_taking:
  assumes "match_step brk r e e'" "taking r e"
  shows "taking r e'"
  using assms
proof (cases rule: match_step.cases)
  case drop_stale
  then show ?thesis using assms(2) by (simp add: taking_cleaned)
next
  case (self_trade m)
  then show ?thesis using assms(2) by (simp add: taking_applySTP)
next
  case (trade_step m)
  then show ?thesis using taking_after_fill [OF assms(2) best_spec_live(2,3) [OF trade_step(3)]] by simp
qed

lemma match_steps_taking: "(match_step brk r)\<^sup>*\<^sup>* e e' \<Longrightarrow> taking r e \<Longrightarrow> taking r e'"
  by (induction rule: rtranclp_induct) (auto intro: match_step_taking)

text \<open>
  What the taker keeps: identity, side, price, and all else a step does not touch. The same holds
  of every order.
\<close>

definition same_terms :: "order \<Rightarrow> order \<Rightarrow> bool" where
  "same_terms a b \<longleftrightarrow> o_ID b = o_ID a \<and> o_UserID b = o_UserID a \<and> o_Side b = o_Side a \<and> o_Price b = o_Price a \<and>
     o_TIF b = o_TIF a \<and> o_STP b = o_STP a \<and> o_bookSeq b = o_bookSeq a \<and> o_Type b = o_Type a \<and>
     o_Quantity b = o_Quantity a \<and> o_StopPrice b = o_StopPrice a \<and> o_done b = o_done a"

lemma same_terms_refl [simp]: "same_terms a a"
  by (simp add: same_terms_def)

lemma same_terms_trans: "same_terms a b \<Longrightarrow> same_terms b c \<Longrightarrow> same_terms a c"
  by (simp add: same_terms_def)

lemma same_terms_after [simp]:
  "same_terms v (taker_after q v)" "same_terms v (maker_after t q v)" "same_terms v (v\<lparr>o_Status := st\<rparr>)"
  "same_terms v (v\<lparr>o_Status := st, o_UpdatedAt := n\<rparr>)" "same_terms v (v\<lparr>o_UpdatedAt := n, o_Status := st\<rparr>)"
  by (simp_all add: same_terms_def taker_after_def maker_after_def)

lemma same_terms_applySTP: "same_terms (store e x) (store (snd (applySTP r m e)) x)"
  by (auto simp: applySTP_def store_removeLocked split: stp_mode.splits option.splits)

lemma trade_step_mapped:
  assumes "taking r e" "best_spec sd e (Some m)"
  shows "r \<noteq> m" "gm_get (orders e) (o_ID (store e m)) = Some m" "0 < bval (rem_q (store e m))"
    "o_Price (store e m) \<noteq> None"
proof -
  have wf: "book_wf e" using assms(1) by (simp add: taking_def)
  note lm = live_mapped [OF wf best_spec_live(2,3) [OF assms(2)]]
  show "r \<noteq> m" using assms best_spec_live(2) [OF assms(2)] by (auto simp: taking_def off_book_def)
  show "gm_get (orders e) (o_ID (store e m)) = Some m" "0 < bval (rem_q (store e m))" "o_Price (store e m) \<noteq> None"
    by (rule lm)+
qed

lemma match_step_terms:
  assumes "match_step brk r e e'" "taking r e"
  shows "same_terms (store e x) (store e' x)"
  using assms
proof (cases rule: match_step.cases)
  case drop_stale
  then show ?thesis by (simp add: cleaned_simps)
next
  case (self_trade m)
  then show ?thesis using same_terms_applySTP by simp
next
  case (trade_step m)
  then show ?thesis using trade_step_mapped [OF assms(2) trade_step(3)] by (simp add: store_after_fill)
qed

lemma match_steps_terms:
  assumes "(match_step brk r)\<^sup>*\<^sup>* e e'" "taking r e"
  shows "same_terms (store e x) (store e' x)"
  using assms
proof (induction rule: rtranclp_induct)
  case (step e1 e2)
  then have "same_terms (store e1 x) (store e2 x)" by (blast intro: match_step_terms match_steps_taking)
  then show ?case using step by (blast intro: same_terms_trans)
qed simp

lemma applySTP_engine [simp]:
  "e_stp (snd (applySTP r m e)) = e_stp e" "e_Trades (snd (applySTP r m e)) = e_Trades e"
  "heap_refs (snd (applySTP r m e)) = heap_refs e" "stops (snd (applySTP r m e)) = stops e"
  "nextref (snd (applySTP r m e)) = nextref e" "clock (snd (applySTP r m e)) = clock e"
  "side_heap sd (snd (applySTP r m e)) = side_heap sd e"
  by (auto simp: applySTP_def side_heap_def split: stp_mode.splits)

lemma match_step_frame:
  assumes "match_step brk r e e'"
  shows "e_stp e' = e_stp e \<and> stops e' = stops e \<and> nextref e' = nextref e \<and> clock e' = clock e"
  using assms by (cases rule: match_step.cases) (auto simp: cleaned_simps cleaned_engine)

lemma match_steps_frame:
  "(match_step brk r)\<^sup>*\<^sup>* e e' \<Longrightarrow>
   e_stp e' = e_stp e \<and> stops e' = stops e \<and> nextref e' = nextref e \<and> clock e' = clock e"
  by (induction rule: rtranclp_induct) (auto dest: match_step_frame)

lemma stp_mode_of_cong:
  "e_stp e' = e_stp e \<Longrightarrow> o_STP b = o_STP a \<Longrightarrow> stp_mode_of e' b = stp_mode_of e a"
  by (simp add: stp_mode_of_def)

text \<open>Self-trade prevention stops the loop only by cancelling the taker.\<close>

lemma applySTP_stop:
  assumes "applySTP r m e = (False, e2)"
  shows "match_end brk r e2"
proof -
  have "stp_mode_of e2 (store e2 r) = stp_mode_of e (store e r)"
    using assms same_terms_applySTP [of e r r m] applySTP_engine(1) [of r m e]
    by (intro stp_mode_of_cong) (auto simp: same_terms_def)
  moreover have "o_Status (store e2 r) = Cancelled" using assms
    by (auto simp: applySTP_def split: stp_mode.splits)
  moreover have "stp_mode_of e (store e r) \<in> {STPCancelTaker, STPCancelBoth}" using assms
    by (auto simp: applySTP_def split: stp_mode.splits)
  ultimately show ?thesis by (simp add: match_end_def)
qed

section \<open>The loop takes abstract steps and ends for a reason\<close>

lemma match_loop_refines:
  assumes "match_loop brk n r e = Done e'" and "taking r e"
  shows "(match_step brk r)\<^sup>*\<^sup>* e e' \<and> match_end brk r e'"
  using assms
proof (induction n arbitrary: e)
  case (Suc n)
  show ?case
  proof (cases "bval (rem_q (store e r)) \<le> 0")
    case True
    then show ?thesis using Suc.prems by (simp add: match_end_def)
  next
    case False
    define sd where "sd = o_Side (store e r)"
    have wf: "book_wf e" using Suc.prems by (simp add: taking_def)
    from bestOpposite_ok [OF wf, of sd] obtain b e1 where
      b: "bestOppositeLocked sd e = Done (b, e1)" "cleaned (side_Opposite sd) e e1"
        "best_spec (side_Opposite sd) e1 b" by blast
    have s1: "match_step brk r e e1" using b(2) by (auto simp: sd_def intro: match_step.drop_stale)
    have t1: "taking r e1" using Suc.prems(2) b(2) by (rule taking_cleaned)
    have st: "store e1 = store e" using b(2) by (rule cleaned_simps)
    note loop = Suc.prems(1) [unfolded match_loop.simps, folded sd_def]
    show ?thesis
    proof (cases b)
      case None
      then have "e' = e1" using loop False b(1) by simp
      moreover have "match_end brk r e1" using b(3) None by (simp add: match_end_def st sd_def)
      ultimately show ?thesis using s1 by auto
    next
      case (Some m)
      have bs: "best_spec (side_Opposite (o_Side (store e1 r))) e1 (Some m)" using b(3) Some st by (simp add: sd_def)
      obtain c where c: "brk (store e1 r) (store e1 m) = Done c" using loop False b(1) Some by auto
      show ?thesis
      proof (cases c)
        case True
        then have "e' = e1" using loop False b(1) Some c by simp
        moreover have "match_end brk r e1" using match_end_break [OF bs, of brk] c True by simp
        ultimately show ?thesis using s1 by auto
      next
        case nc: False
        show ?thesis
        proof (cases "isSelfTrade e1 (store e1 r) (store e1 m)")
          case self: True
          obtain go e2 where g: "applySTP r m e1 = (go, e2)" by fastforce
          have s2: "match_step brk r e1 e2"
            using match_step.self_trade [of e1 r m brk] bs c nc self False st g by simp
          then have t2: "taking r e2" using t1 by (rule match_step_taking)
          show ?thesis
          proof (cases go)
            case True
            then have "match_loop brk n r e2 = Done e'" using loop False b(1) Some c nc self g by simp
            then show ?thesis using Suc.IH [OF _ t2] s1 s2 by (meson converse_rtranclp_into_rtranclp)
          next
            case stop: False
            then have "e' = e2" using loop False b(1) Some c nc self g by simp
            moreover have "match_end brk r e2" using g stop by (simp add: applySTP_stop)
            ultimately show ?thesis using s1 s2 by auto
          qed
        next
          case fill: False
          have ff: "fillLocked r m e1 = Done (after_fill r m e1)"
            using fillLocked_Done [OF t1 best_spec_live(2,3) [OF bs]] False st by simp
          then have l: "match_loop brk n r (after_fill r m e1) = Done e'"
            using loop False b(1) Some c nc fill by simp
          have s2: "match_step brk r e1 (after_fill r m e1)"
            using match_step.trade_step [of e1 r m brk] bs c nc fill False st by simp
          then show ?thesis using Suc.IH [OF l match_step_taking [OF s2 t1]] s1
            by (meson converse_rtranclp_into_rtranclp)
        qed
      qed
    qed
  qed
qed simp

text \<open>More fuel does not change a result.\<close>

lemma match_loop_mono: "match_loop brk n r e = Done e' \<Longrightarrow> n \<le> k \<Longrightarrow> match_loop brk k r e = Done e'"
proof (induction n arbitrary: e k)
  case (Suc n)
  obtain k' where k: "k = Suc k'" "n \<le> k'" using Suc.prems(2) by (cases k) auto
  note loop = Suc.prems(1) [unfolded match_loop.simps]
  show ?case
  proof (cases "bval (rem_q (store e r)) \<le> 0")
    case False
    obtain b e1 where b: "bestOppositeLocked (o_Side (store e r)) e = Done (b, e1)"
      using loop False by auto
    show ?thesis
    proof (cases b)
      case (Some m)
      obtain c where c: "brk (store e1 r) (store e1 m) = Done c" using loop False b Some by auto
      obtain go e2 where g: "applySTP r m e1 = (go, e2)" by fastforce
      show ?thesis
      proof (cases "isSelfTrade e1 (store e1 r) (store e1 m)")
        case True
        then show ?thesis using loop False b Some c g Suc.IH [OF _ k(2), of e2] unfolding k(1)
          by (cases c; cases go) simp_all
      next
        case nself: False
        show ?thesis
        proof (cases c)
          case nc: False
          then obtain e2 where "fillLocked r m e1 = Done e2" using loop False b Some c nself by auto
          then show ?thesis using loop False b Some c nself nc Suc.IH [OF _ k(2), of e2] unfolding k(1) by simp
        qed (use loop False b Some c nself k(1) in simp)
      qed
    qed (use loop False b k(1) in simp)
  qed (use loop k(1) in simp)
qed simp

section \<open>The loop ends\<close>

text \<open>
  What the loop relies on in the test of a strategy: it does not panic on a priced maker when the
  taker has what it needs, and it reads nothing of the taker but its side and price.
\<close>

locale match_test =
  fixes brk :: "order \<Rightarrow> order \<Rightarrow> bool outcome" and admissible :: "order \<Rightarrow> bool"
  assumes brk_total: "admissible v \<Longrightarrow> o_Price m \<noteq> None \<Longrightarrow> \<exists>c. brk v m = Done c"
    and admissible_cong: "o_Side w = o_Side v \<Longrightarrow> o_Price w = o_Price v \<Longrightarrow> admissible w = admissible v"
begin

lemma match_loop_total:
  assumes "taking r e" "admissible (store e r)" "\<And>n. stp_mode_of e (store e r) \<noteq> OtherSTP n"
    and "length (orders e) < fuel \<or> bval (rem_q (store e r)) \<le> 0 \<and> 0 < fuel"
  shows "\<exists>e'. match_loop brk fuel r e = Done e'"
  using assms
proof (induction fuel arbitrary: e)
  case (Suc n)
  show ?case
  proof (cases "bval (rem_q (store e r)) \<le> 0")
    case False
    define sd where "sd = o_Side (store e r)"
    have wf: "book_wf e" using Suc.prems by (simp add: taking_def)
    from bestOpposite_ok [OF wf, of sd] obtain b e1 where
      b: "bestOppositeLocked sd e = Done (b, e1)" "cleaned (side_Opposite sd) e e1"
        "best_spec (side_Opposite sd) e1 b" by blast
    have t1: "taking r e1" using Suc.prems(1) b(2) by (rule taking_cleaned)
    have st: "store e1 = store e" "orders e1 = orders e" "e_stp e1 = e_stp e"
      using cleaned_simps [OF b(2)] cleaned_engine [OF b(2)] by simp_all
    have len: "length (orders e) \<le> n" using Suc.prems(4) False by simp
    show ?thesis
    proof (cases b)
      case None
      then show ?thesis using False b(1) by (simp add: sd_def)
    next
      case (Some m)
      have bs: "best_spec (side_Opposite sd) e1 (Some m)" using b(3) Some by simp
      note live = trade_step_mapped [OF t1 bs]
      obtain c where c: "brk (store e1 r) (store e1 m) = Done c"
        using brk_total [of "store e1 r" "store e1 m"] live(4) Suc.prems(2) st by auto
      have n: "0 < n" using live(2) len st by (cases "orders e") auto
      have wf1: "gm_wf (orders e1)" using t1 by (simp add: taking_def book_wf_def orders_ok_def)
      have shorter: "length (gm_del (o_ID (store e1 m)) (orders e1)) < length (orders e1)"
        using length_gm_del [OF wf1, of "o_ID (store e1 m)"] live(2) by simp
      have go: "\<exists>e'. match_loop brk n r e2 = Done e'"
        if s: "match_step brk r e1 e2"
          and l: "length (orders e2) < n \<or> bval (rem_q (store e2 r)) \<le> 0 \<and> 0 < n" for e2
      proof (rule Suc.IH [OF match_step_taking [OF s t1] _ _ l])
        have st2: "same_terms (store e r) (store e2 r)" using match_step_terms [OF s t1, of r] st by simp
        then show "admissible (store e2 r)" using Suc.prems(2) admissible_cong [of "store e2 r" "store e r"] by (simp add: same_terms_def)
        have "stp_mode_of e2 (store e2 r) = stp_mode_of e (store e r)"
          using st2 match_step_frame [OF s] st by (intro stp_mode_of_cong) (simp_all add: same_terms_def)
        then show "stp_mode_of e2 (store e2 r) \<noteq> OtherSTP k" for k using Suc.prems(3) by simp
      qed
      show ?thesis
      proof (cases c)
        case True
        then show ?thesis using False b(1) Some c by (simp add: sd_def)
      next
        case nc: False
        have pos: "0 < bval (rem_q (store e1 r))" using False st by simp
        have bs': "best_spec (side_Opposite (o_Side (store e1 r))) e1 (Some m)" using bs st by (simp add: sd_def)
        show ?thesis
        proof (cases "isSelfTrade e1 (store e1 r) (store e1 m)")
          case self: True
          obtain g e2 where g: "applySTP r m e1 = (g, e2)" by fastforce
          show ?thesis
          proof (cases g)
            case True
            have mode: "stp_mode_of e1 (store e1 r) = STPCancelMaker"
              using Suc.prems(3) self g True st
              by (cases "stp_mode_of e1 (store e1 r)")
                (auto simp: applySTP_def isSelfTrade_def stp_mode_of_def split: if_splits)
            have e2: "e2 = snd (removeLocked (o_ID (store e1 m)) e1)"
              using g mode by (simp add: applySTP_def)
            have s: "match_step brk r e1 e2"
              using match_step.self_trade [of e1 r m brk] pos bs' c nc self g by simp
            have "length (orders e2) < n" using shorter len st by (simp add: e2)
            then have "\<exists>e'. match_loop brk n r e2 = Done e'" by (intro go [OF s] disjI1)
            then show ?thesis using False b(1) Some c nc self g True by (simp add: sd_def)
          next
            case stop: False
            then show ?thesis using False b(1) Some c nc self g by (simp add: sd_def)
          qed
        next
          case fill: False
          have ff: "fillLocked r m e1 = Done (after_fill r m e1)"
            by (rule fillLocked_Done [OF t1 best_spec_live(2,3) [OF bs] pos])
          have s: "match_step brk r e1 (after_fill r m e1)"
            using match_step.trade_step [of e1 r m brk] pos bs' c nc fill by simp
          have "length (orders (after_fill r m e1)) < n \<or> bval (rem_q (store (after_fill r m e1) r)) \<le> 0 \<and> 0 < n"
            using after_fill_progress [OF t1 best_spec_live(2,3) [OF bs] pos] len n st by auto
          then have "\<exists>e'. match_loop brk n r (after_fill r m e1) = Done e'" by (rule go [OF s])
          then show ?thesis using False b(1) Some c nc fill ff by (simp add: sd_def)
        qed
      qed
    qed
  qed (use Suc.prems in simp)
qed simp

end

interpretation limit_test: match_test limit_break "\<lambda>v. o_Price v \<noteq> None"
proof
  show "\<exists>c. limit_break v m = Done c" if "o_Price v \<noteq> None" "o_Price m \<noteq> None" for v m
    using that by (auto simp: limit_break_def price_cmp_def)
qed simp

interpretation market_test: match_test market_break "\<lambda>v. True"
proof
  show "\<exists>c. market_break v m = Done c" for v m by (rule exI [of _ False]) (simp add: market_break_def)
qed simp

interpretation ioc_test: match_test ioc_break "\<lambda>v. True"
proof
  show "\<exists>c. ioc_break v m = Done c" if "o_Price m \<noteq> None" for v m
    using that by (auto simp: ioc_break_def limit_break_def price_cmp_def)
qed simp

end
