(* ===== verification/Engine_Correct.thy ===== *)
theory Engine_Correct
  imports Match_Loop
begin

text \<open>
  Total correctness of the engine's operations: on a well-formed engine every strategy returns,
  \<open>processOrder\<close>, \<open>processCancel\<close> and the stop scan included, and the engine stays well-formed.
\<close>

section \<open>What a strategy may change\<close>

definition evolves :: "ref \<Rightarrow> engine \<Rightarrow> engine \<Rightarrow> bool" where
  "evolves r e e' \<longleftrightarrow> heap_refs e' \<subseteq> insert r (heap_refs e) \<and>
     (\<forall>i. gm_get (orders e) i = None \<and> i \<noteq> o_ID (store e r) \<longrightarrow> gm_get (orders e') i = None) \<and>
     (\<forall>x. o_ID (store e' x) = o_ID (store e x) \<and> (sized (store e x) \<longrightarrow> sized (store e' x)) \<and>
       o_done (store e' x) = o_done (store e x) \<and> (x \<noteq> r \<longrightarrow> same_terms (store e x) (store e' x))) \<and>
     nextref e' = nextref e \<and> e_stp e' = e_stp e"

lemma evolves_refl [simp]: "evolves r e e"
  by (auto simp: evolves_def)

lemma evolves_trans [trans]: "evolves r e e1 \<Longrightarrow> evolves r e1 e2 \<Longrightarrow> evolves r e e2"
  by (auto simp: evolves_def intro: same_terms_trans)

lemma evolves_upd:
  "o_ID (f (store e r)) = o_ID (store e r) \<Longrightarrow> (sized (store e r) \<Longrightarrow> sized (f (store e r))) \<Longrightarrow>
   o_done (f (store e r)) = o_done (store e r) \<Longrightarrow> evolves r e (upd_order r f e)"
  by (auto simp: evolves_def)

lemma evolves_set_status [simp]: "evolves r e (set_status x r e)"
  unfolding set_status_def by (rule evolves_upd) auto

lemma evolves_reject_count [simp]: "evolves r e (reject_count e') = evolves r e e'"
  by (simp add: evolves_def heap_refs_def)

lemma match_step_evolves:
  assumes "match_step brk r e e'" "taking r e"
  shows "evolves r e e'"
proof -
  have terms: "same_terms (store e x) (store e' x)" for x by (rule match_step_terms [OF assms])
  have fr: "nextref e' = nextref e" "e_stp e' = e_stp e" using match_step_frame [OF assms(1)] by simp_all
  have "heap_refs e' \<subseteq> heap_refs e \<and> (\<forall>i. gm_get (orders e) i = None \<longrightarrow> gm_get (orders e') i = None) \<and>
      (\<forall>x. sized (store e x) \<longrightarrow> sized (store e' x))"
    using assms
  proof (cases rule: match_step.cases)
    case drop_stale
    then show ?thesis by (simp add: cleaned_simps)
  next
    case (self_trade m)
    have "gm_get (orders e') i = None" if "gm_get (orders e) i = None" for i
      using that by (auto simp: self_trade applySTP_def split: stp_mode.splits)
    moreover have "sized (store e' x)" if "sized (store e x)" for x
      using that by (auto simp: self_trade applySTP_def store_removeLocked split: stp_mode.splits option.splits)
    ultimately show ?thesis by (simp add: self_trade)
  next
    case (trade_step m)
    note live = trade_step_mapped [OF assms(2) trade_step(3)]
    show ?thesis by (simp add: trade_step store_after_fill [OF live(1,2)] orders_after_fill [OF live(1)])
  qed
  then show ?thesis using terms fr by (auto simp: evolves_def same_terms_def)
qed

lemma match_step_length: "match_step brk r e e' \<Longrightarrow> taking r e \<Longrightarrow> length (orders e') \<le> length (orders e)"
proof (induction rule: match_step.cases)
  case (trade_step e m)
  then show ?case using after_fill_progress(3) best_spec_live by blast
next
  case (self_trade e m)
  then show ?case by (auto simp: applySTP_def length_gm_del_le split: stp_mode.splits)
qed (simp add: cleaned_simps)

lemma match_steps_evolves:
  assumes "(match_step brk r)\<^sup>*\<^sup>* e e'" "taking r e"
  shows "evolves r e e' \<and> length (orders e') \<le> length (orders e)"
  using assms
proof (induction rule: rtranclp_induct)
  case (step e1 e2)
  have t: "taking r e1" using step by (blast intro: match_steps_taking)
  have "evolves r e1 e2" "length (orders e2) \<le> length (orders e1)"
    using match_step_evolves [OF step(2) t] match_step_length [OF step(2) t] by simp_all
  then show ?case using step by (auto intro: evolves_trans)
qed simp

section \<open>Well-formed engines\<close>

definition resting_ok :: "engine \<Rightarrow> bool" where
  "resting_ok e \<longleftrightarrow> book_wf e \<and> (\<forall>x \<in> heap_refs e. sized (store e x))"

definition known_stp :: "stp_mode \<Rightarrow> bool" where
  "known_stp m \<longleftrightarrow> m \<in> {STPDisabled, STPCancelTaker, STPCancelMaker, STPCancelBoth}"

lemma known_stp_other: "known_stp m \<longleftrightarrow> (\<forall>n. m \<noteq> OtherSTP n)"
  by (cases m) (auto simp: known_stp_def)

lemma known_stp_mode_of: "known_stp (e_stp e) \<Longrightarrow> known_stp (o_STP v) \<Longrightarrow> known_stp (stp_mode_of e v)"
  by (simp add: stp_mode_of_def)

text \<open>A pending stop: what \<open>matchStopLocked\<close> has checked, and what its later matching needs.\<close>

definition stop_ok :: "order \<Rightarrow> bool" where
  "stop_ok v \<longleftrightarrow> sized v \<and> o_StopPrice v \<noteq> None \<and> (o_Type v \<noteq> StopLoss \<longrightarrow> o_Price v \<noteq> None) \<and> known_stp (o_STP v)"

definition stops_ok :: "engine \<Rightarrow> bool" where
  "stops_ok e \<longleftrightarrow> distinct (map (\<lambda>x. o_ID (store e x)) (stops e)) \<and>
     (\<forall>x \<in> set (stops e). off_book x e \<and> stop_ok (store e x))"

definition engine_wf :: "engine \<Rightarrow> bool" where
  "engine_wf e \<longleftrightarrow> resting_ok e \<and> stops_ok e \<and> known_stp (e_stp e)"

lemma NewMatchingEngine_wf: "engine_wf (NewMatchingEngine st uuid pair)"
  by (simp add: engine_wf_def resting_ok_def stops_ok_def NewMatchingEngine_def book.extend_def
      NewOrderBook_def known_stp_def book_wf_def side_ok_def orders_ok_def unique_ids_def index_ok_def
      indexed_def alloc_ok_def heap_refs_def side_heap_def)

lemma resting_ok_taking: "resting_ok e \<Longrightarrow> off_book r e \<Longrightarrow> sized (store e r) \<Longrightarrow> taking r e"
  by (simp add: resting_ok_def taking_def)

lemma taking_resting_ok: "taking r e \<Longrightarrow> resting_ok e"
  by (simp add: resting_ok_def taking_def)

lemma resting_ok_cong:
  "resting_ok e \<Longrightarrow> store e' = store e \<Longrightarrow> bids e' = bids e \<Longrightarrow> asks e' = asks e \<Longrightarrow> orders e' = orders e \<Longrightarrow>
   userOrders e' = userOrders e \<Longrightarrow> nextref e' = nextref e \<Longrightarrow> resting_ok e'"
  unfolding resting_ok_def by (auto intro: book_wf_cong simp: heap_refs_def)

lemma resting_ok_set_status: "resting_ok e \<Longrightarrow> resting_ok (set_status x r e)"
  by (auto simp: resting_ok_def set_status_def upd_order_wf)

lemma resting_ok_reject_count [simp]: "resting_ok (reject_count e) = resting_ok e"
  by (auto intro: resting_ok_cong)

lemma evolves_off_book:
  "evolves r e e' \<Longrightarrow> off_book x e \<Longrightarrow> o_ID (store e x) \<noteq> o_ID (store e r) \<Longrightarrow> off_book x e'"
  unfolding evolves_def off_book_def by (metis insertE subsetD)

text \<open>What every strategy but the stop's own promises.\<close>

definition strat_post :: "ref \<Rightarrow> engine \<Rightarrow> engine \<Rightarrow> bool" where
  "strat_post r e e' \<longleftrightarrow> resting_ok e' \<and> evolves r e e' \<and> stops e' = stops e \<and>
     length (orders e') \<le> Suc (length (orders e))"

lemma strat_post_status: "strat_post r e e' \<Longrightarrow> strat_post r e (set_status x r e')"
  unfolding strat_post_def by (auto intro: resting_ok_set_status evolves_trans evolves_set_status)

lemma strat_post_reject: "strat_post r e e' \<Longrightarrow> strat_post r e (reject_count e')"
  by (simp add: strat_post_def)

lemma strat_post_match:
  assumes "match_loop brk n r e = Done e'" "taking r e"
  shows "strat_post r e e' \<and> taking r e' \<and> length (orders e') \<le> length (orders e)"
proof -
  have s: "(match_step brk r)\<^sup>*\<^sup>* e e'" using match_loop_refines [OF assms] by simp
  have "taking r e'" by (rule match_steps_taking [OF s assms(2)])
  then show ?thesis using match_steps_evolves [OF s assms(2)] match_steps_frame [OF s]
    by (simp add: strat_post_def taking_resting_ok)
qed

lemma strat_post_add:
  assumes "taking r e1" "o_Price (store e1 r) \<noteq> None" and p: "strat_post r e e1" "length (orders e1) \<le> length (orders e)"
  shows "\<exists>e2. addLocked r e1 = Done e2 \<and> strat_post r e e2"
proof -
  have a: "addable r e1" using assms(1,2) sized_rem by (auto simp: taking_def addable_def off_book_def)
  have wf: "book_wf e1" and s: "sized (store e1 r)" using assms(1) by (simp_all add: taking_def)
  from addLocked_ok [OF wf a] obtain e2 where
    t: "addLocked r e1 = Done e2" "book_wf e2" "store e2 = store (next_seq r e1)"
      "orders e2 = gm_put (o_ID (store e1 r)) r (orders e1)" "heap_refs e2 = insert r (heap_refs e1)"
      "nextref e2 = nextref e1" "stops e2 = stops e1" by blast
  have st: "store e2 = (store e1)(r := (store e1 r)\<lparr>o_bookSeq :=
     (if o_bookSeq (store e1 r) = 0 then seqNo e1 + 1 else o_bookSeq (store e1 r))\<rparr>)"
    by (simp add: t(3) store_next_seq)
  have "resting_ok e2" using assms(1) t(2,5) s by (auto simp: resting_ok_def taking_def st)
  moreover have "evolves r e1 e2"
    using t(4-6) addLocked_engine [OF t(1)] by (auto simp: evolves_def st)
  moreover have "length (orders e2) \<le> Suc (length (orders e))"
    using p(2) by (simp add: t(4) length_gm_put)
  ultimately show ?thesis using t(1,7) p(1) by (auto simp: strat_post_def intro: evolves_trans)
qed

section \<open>The strategies return\<close>

lemma matchLimit_ok:
  assumes t: "taking r e" "o_Price (store e r) \<noteq> None" "known_stp (stp_mode_of e (store e r))"
    and f: "length (orders e) < fuel"
  shows "\<exists>e'. matchLimitLocked fuel r e = Done e' \<and> strat_post r e e'"
proof -
  obtain e1 where l: "match_loop limit_break fuel r e = Done e1"
    using limit_test.match_loop_total [OF t(1), of fuel] t f known_stp_other by blast
  note p = strat_post_match [OF l t(1)]
  show ?thesis
  proof (cases "0 < bf_sign (rem_q (store e1 r)) \<and> o_TIF (store e1 r) = GTC")
    case True
    have "(match_step limit_break r)\<^sup>*\<^sup>* e e1" using match_loop_refines [OF l t(1)] by simp
    then have "same_terms (store e r) (store e1 r)" by (rule match_steps_terms [OF _ t(1)])
    then have "o_Price (store e1 r) \<noteq> None" using t(2) by (simp add: same_terms_def)
    from strat_post_add [OF _ this, of e] p obtain e2 where "addLocked r e1 = Done e2" "strat_post r e e2"
      by blast
    then show ?thesis using l True strat_post_status by (auto simp: matchLimitLocked_def)
  next
    case False
    then show ?thesis using l p unfolding matchLimitLocked_def by (auto intro!: exI [of _ e1])
  qed
qed

lemma strat_post_lapse: "strat_post r e e' \<Longrightarrow> strat_post r e (lapse r e')"
  by (simp add: lapse_def strat_post_status)

lemma matchMarket_ok:
  assumes "taking r e" "known_stp (stp_mode_of e (store e r))" "length (orders e) < fuel"
  shows "\<exists>e'. matchMarketLocked fuel r e = Done e' \<and> strat_post r e e'"
proof -
  obtain e1 where l: "match_loop market_break fuel r e = Done e1"
    using market_test.match_loop_total [OF assms(1), of fuel] assms known_stp_other by blast
  then show ?thesis using strat_post_match [OF l assms(1)]
    by (simp add: matchMarketLocked_def strat_post_lapse)
qed

lemma matchIOC_ok:
  assumes "taking r e" "known_stp (stp_mode_of e (store e r))" "length (orders e) < fuel"
  shows "\<exists>e'. matchIOCLocked fuel r e = Done e' \<and> strat_post r e e'"
proof -
  obtain e1 where l: "match_loop ioc_break fuel r e = Done e1"
    using ioc_test.match_loop_total [OF assms(1), of fuel] assms known_stp_other by blast
  then show ?thesis using strat_post_match [OF l assms(1)]
    by (simp add: matchIOCLocked_def strat_post_lapse)
qed

lemma fok_available_total:
  "(\<forall>m \<in> set ms. o_Price (store e m) \<noteq> None) \<Longrightarrow> \<exists>a. fok_available e v ms acc = Done a"
proof (induction ms arbitrary: acc)
  case (Cons m ms)
  then obtain c where "ioc_break v (store e m) = Done c" using ioc_test.brk_total [of "store e m" v] by auto
  then show ?case using Cons by simp
qed simp

lemma collect_priced: "book_wf e \<Longrightarrow> m \<in> set (collectOppositeLocked sd e) \<Longrightarrow> o_Price (store e m) \<noteq> None"
  using book_wf_side [of e Buy] book_wf_side [of e Sell]
  by (auto simp: collectOppositeLocked_def side_ok_def split: if_splits)

lemma strat_post_refl: "taking r e \<Longrightarrow> strat_post r e e"
  by (simp add: strat_post_def taking_resting_ok)

lemma matchFOK_ok:
  assumes t: "taking r e" "o_Price (store e r) \<noteq> None" "known_stp (stp_mode_of e (store e r))"
    and f: "length (orders e) < fuel" and q: "o_Quantity (store e r) \<noteq> None"
  shows "\<exists>e'. matchFOKLocked fuel r e = Done e' \<and> strat_post r e e'"
proof -
  have "book_wf e" using t(1) by (simp add: taking_def)
  then obtain a where a: "fok_available e (store e r) (collectOppositeLocked (o_Side (store e r)) e) newBigFloat = Done a"
    using fok_available_total collect_priced by blast
  obtain w where w: "o_Quantity (store e r) = Some w" using q by auto
  obtain e1 where l: "matchLimitLocked fuel r e = Done e1" "strat_post r e e1"
    using matchLimit_ok [OF t f] by blast
  show ?thesis
    using a w l strat_post_refl [OF t(1)]
    by (simp add: matchFOKLocked_def strat_post_status strat_post_reject del: bf_cmp_simps)
qed

lemma matchPostOnly_ok:
  assumes t: "taking r e"
  shows "\<exists>e'. matchPostOnlyLocked r e = Done e' \<and> strat_post r e e'"
proof (cases "case o_Price (store e r) of None \<Rightarrow> True | Some p \<Rightarrow> bf_sign p \<le> 0")
  case True
  then have "matchPostOnlyLocked r e = Done (reject_count (set_status Rejected r e))"
    by (auto simp: matchPostOnlyLocked_def split: option.splits)
  then show ?thesis using strat_post_refl [OF t] by (simp add: strat_post_status strat_post_reject)
next
  case False
  then obtain p where p: "o_Price (store e r) = Some p" "\<not> bf_sign p \<le> 0" by (auto split: option.splits)
  have wf: "book_wf e" using t by (simp add: taking_def)
  define sd where "sd = o_Side (store e r)"
  from bestOpposite_ok [OF wf, of sd] obtain b e1 where
    b: "bestOppositeLocked sd e = Done (b, e1)" "cleaned (side_Opposite sd) e e1"
      "best_spec (side_Opposite sd) e1 b" by blast
  have t1: "taking r e1" using t b(2) by (rule taking_cleaned)
  have s1: "match_step limit_break r e e1" using b(2) by (auto simp: sd_def intro: match_step.drop_stale)
  have p1: "strat_post r e e1" "length (orders e1) \<le> length (orders e)"
    using match_step_evolves [OF s1 t] match_step_length [OF s1 t] match_step_frame [OF s1] taking_resting_ok [OF t1]
    by (simp_all add: strat_post_def)
  have st: "store e1 = store e" using b(2) by (rule cleaned_simps)
  obtain e2 where e2: "addLocked r e1 = Done e2" "strat_post r e e2"
    using strat_post_add [OF t1 _ p1] p st by auto
  define cross where "cross = (case b of None \<Rightarrow> Done False
      | Some m \<Rightarrow>
          if o_Side (store e1 r) = Buy then obind (price_cmp (o_Price (store e1 m)) (Some p)) (\<lambda>c. Done (c \<le> 0))
          else if o_Side (store e1 r) = Sell
          then obind (price_cmp (o_Price (store e1 m)) (Some p)) (\<lambda>c. Done (0 \<le> c))
          else Done False)"
  have "\<exists>w. cross = Done w"
  proof (cases b)
    case (Some m)
    then have "o_Price (store e1 m) \<noteq> None" using trade_step_mapped(4) [OF t1] b(3) by simp
    then show ?thesis using price_cmp_Done [of "o_Price (store e1 m)" "Some p"] Some by (auto simp: cross_def)
  next
    case None
    then show ?thesis by (intro exI [of _ False]) (simp add: cross_def)
  qed
  then obtain w where w: "cross = Done w" ..
  have "matchPostOnlyLocked r e = obind cross (\<lambda>w. if w then Done (reject_count (set_status Rejected r e1))
      else obind (addLocked r e1) (\<lambda>e2. Done (set_status New r e2)))"
    using p b(1) by (simp add: matchPostOnlyLocked_def cross_def sd_def [symmetric] st)
  then show ?thesis using w e2 p1(1) by (cases w) (simp_all add: strat_post_status strat_post_reject)
qed

section \<open>Stops\<close>

lemma triggerStopLocked_total: "o_StopPrice v \<noteq> None \<Longrightarrow> \<exists>c. triggerStopLocked e v = Done c"
  by (auto simp: triggerStopLocked_def price_cmp_def split: option.split)

lemma taking_upd_type: "taking r e \<Longrightarrow> taking r (upd_order r (\<lambda>v. v\<lparr>o_Type := ty\<rparr>) e)"
  by (rule taking_shrink) (auto simp: taking_free_wf)

lemma strat_post_upd_type:
  assumes "strat_post r (upd_order r (\<lambda>v. v\<lparr>o_Type := ty\<rparr>) e) e'"
  shows "strat_post r e e'"
proof -
  have "evolves r e (upd_order r (\<lambda>v. v\<lparr>o_Type := ty\<rparr>) e)" by (rule evolves_upd) auto
  then show ?thesis using assms by (auto simp: strat_post_def intro: evolves_trans)
qed

text \<open>An activated stop matches as a market or a limit order.\<close>

lemma activated_ok:
  assumes t: "taking r e" "known_stp (stp_mode_of e (store e r))" "length (orders e) < fuel"
    and l: "isLimit \<Longrightarrow> o_Price (store e r) \<noteq> None"
  shows "\<exists>e'. (if isLimit then matchLimitLocked fuel r (upd_order r (\<lambda>v. v\<lparr>o_Type := Limit\<rparr>) e)
       else matchMarketLocked fuel r (upd_order r (\<lambda>v. v\<lparr>o_Type := Market\<rparr>) e)) = Done e' \<and> strat_post r e e'"
proof -
  have m: "stp_mode_of (upd_order r (\<lambda>v. v\<lparr>o_Type := ty\<rparr>) e) (store (upd_order r (\<lambda>v. v\<lparr>o_Type := ty\<rparr>) e) r)
      = stp_mode_of e (store e r)" for ty
    by (simp add: stp_mode_of_def)
  show ?thesis
  proof (cases isLimit)
    case True
    then show ?thesis
      using matchLimit_ok [OF taking_upd_type [OF t(1)], of Limit fuel] t(2,3) l m [of Limit]
      by (auto dest: strat_post_upd_type)
  next
    case False
    then show ?thesis
      using matchMarket_ok [OF taking_upd_type [OF t(1)], of Market fuel] t(2,3) m [of Market]
      by (auto dest: strat_post_upd_type)
  qed
qed

lemma addStop_fields [simp]:
  "bids (addStop r e) = bids e" "asks (addStop r e) = asks e" "orders (addStop r e) = orders e"
  "userOrders (addStop r e) = userOrders e" "nextref (addStop r e) = nextref e"
  "stops (addStop r e) = stops e @ [r]" "heap_refs (addStop r e) = heap_refs e"
  by (simp_all add: addStop_def heap_refs_def)

lemma addStop_engine [simp]: "e_stp (addStop r e) = e_stp e" "e_Trades (addStop r e) = e_Trades e"
  by (simp_all add: addStop_def)

lemma store_addStop: "store (addStop r s) = store (next_seq r s)"
  by (auto simp: addStop_def next_seq_def Let_def)

text \<open>A stop order either matches at once or joins the stop list, still off the book.\<close>

lemma matchStop_ok:
  assumes t: "taking r e" "known_stp (stp_mode_of e (store e r))" "length (orders e) < fuel"
    and l: "isLimit \<Longrightarrow> o_Price (store e r) \<noteq> None"
  shows "\<exists>e'. matchStopLocked fuel isLimit r e = Done e' \<and>
    (strat_post r e e' \<or>
     resting_ok e' \<and> evolves r e e' \<and> stops e' = stops e @ [r] \<and> off_book r e' \<and>
       o_StopPrice (store e r) \<noteq> None \<and> same_terms (store e r) ((store e' r)\<lparr>o_bookSeq := o_bookSeq (store e r)\<rparr>))"
proof (cases "case o_StopPrice (store e r) of None \<Rightarrow> True | Some p \<Rightarrow> bf_sign p \<le> 0")
  case True
  then have "matchStopLocked fuel isLimit r e = Done (reject_count (set_status Rejected r e))"
    by (simp add: matchStopLocked_def)
  then show ?thesis using strat_post_refl [OF t(1)] by (simp add: strat_post_status strat_post_reject)
next
  case False
  then have sp: "o_StopPrice (store e r) \<noteq> None" by (auto split: option.splits)
  then obtain c where c: "triggerStopLocked e (store e r) = Done c" using triggerStopLocked_total by blast
  show ?thesis
  proof (cases c)
    case True
    then have "matchStopLocked fuel isLimit r e =
        (if isLimit then matchLimitLocked fuel r (upd_order r (\<lambda>v. v\<lparr>o_Type := Limit\<rparr>) e)
         else matchMarketLocked fuel r (upd_order r (\<lambda>v. v\<lparr>o_Type := Market\<rparr>) e))"
      using False c unfolding matchStopLocked_def by simp
    moreover from activated_ok [OF t l] obtain e' where
      "(if isLimit then matchLimitLocked fuel r (upd_order r (\<lambda>v. v\<lparr>o_Type := Limit\<rparr>) e)
       else matchMarketLocked fuel r (upd_order r (\<lambda>v. v\<lparr>o_Type := Market\<rparr>) e)) = Done e'" "strat_post r e e'"
      by blast
    ultimately show ?thesis by (intro exI [of _ e']) simp
  next
    case nc: False
    define e1 where "e1 = addStop r e"
    have res: "matchStopLocked fuel isLimit r e = Done (set_status New r e1)"
      using False c nc unfolding matchStopLocked_def e1_def by simp
    have st: "store e1 = (store e)(r := (store e r)\<lparr>o_bookSeq :=
        (if o_bookSeq (store e r) = 0 then seqNo e + 1 else o_bookSeq (store e r))\<rparr>)"
      by (simp add: e1_def store_addStop store_next_seq)
    define f :: "order \<Rightarrow> order" where "f = (\<lambda>v. v\<lparr>o_bookSeq :=
        (if o_bookSeq (store e r) = 0 then seqNo e + 1 else o_bookSeq (store e r)), o_Status := New\<rparr>)"
    have st2: "store (set_status New r e1) = (store e)(r := f (store e r))" by (simp add: st f_def)
    have "taking r (upd_order r f e)"
      by (rule taking_shrink [OF t(1) taking_free_wf [OF t(1)]]) (auto simp: f_def sized_def)
    then have w: "book_wf (upd_order r f e)" "off_book r (upd_order r f e)" "\<forall>x \<in> heap_refs e. sized (store (upd_order r f e) x)"
      by (simp_all add: taking_def)
    have fe: "bids e1 = bids e" "asks e1 = asks e" "orders e1 = orders e" "userOrders e1 = userOrders e"
      "nextref e1 = nextref e" by (simp_all add: e1_def)
    have "book_wf (set_status New r e1)"
      by (rule book_wf_cong [OF w(1)]) (simp_all add: fe st f_def)
    moreover have fh: "heap_refs (set_status New r e1) = heap_refs e" "e_stp e1 = e_stp e"
      "heap_refs e1 = heap_refs e" "stops e1 = stops e @ [r]" by (simp_all add: e1_def)
    ultimately have "resting_ok (set_status New r e1)" using w(3) unfolding resting_ok_def fh st2 by simp
    moreover have "evolves r e (set_status New r e1)"
      using fh by (auto simp: evolves_def st fe sized_def)
    moreover have "off_book r (set_status New r e1)"
      using w(2) by (simp add: off_book_def fh fe st f_def)
    ultimately show ?thesis using res sp by (auto simp: same_terms_def st fh)
  qed
qed

lemma stop_fires_eq:
  "o_StopPrice v = Some p \<Longrightarrow> stop_fires lp v =
     Done (o_Side v = Buy \<and> bval p \<le> bval lp \<or> o_Side v = Sell \<and> bval lp \<le> bval p)"
  by (simp add: stop_fires_def price_cmp_def)

lemma split_stops_total:
  "(\<forall>x \<in> set rs. o_StopPrice (st x) \<noteq> None) \<Longrightarrow>
   \<exists>a b. split_stops st lp rs = Done (a, b) \<and> mset rs = mset a + mset b"
proof (induction rs)
  case (Cons r rs)
  then obtain a b where ab: "split_stops st lp rs = Done (a, b)" "mset rs = mset a + mset b" by auto
  obtain p where p: "o_StopPrice (st r) = Some p" using Cons.prems by auto
  obtain c where "stop_fires lp (st r) = Done c" using stop_fires_eq [OF p] by blast
  then show ?case using ab by (cases c) simp_all
qed simp

lemma run_triggered_ok:
  assumes "resting_ok e" "known_stp (e_stp e)" "distinct (map (\<lambda>x. o_ID (store e x)) rs)"
    and "\<forall>x \<in> set rs. off_book x e \<and> stop_ok (store e x)" and "length (orders e) + length rs < fuel"
  shows "\<exists>e'. run_triggered fuel rs e = Done e' \<and> resting_ok e' \<and> stops e' = stops e \<and> e_stp e' = e_stp e \<and>
    nextref e' = nextref e \<and>
    (\<forall>x. off_book x e \<and> o_ID (store e x) \<notin> (\<lambda>x. o_ID (store e x)) ` set rs \<longrightarrow>
       off_book x e' \<and> (stop_ok (store e x) \<longrightarrow> stop_ok (store e' x))) \<and>
    (\<forall>x. o_ID (store e' x) = o_ID (store e x))"
  using assms
proof (induction rs arbitrary: e)
  case (Cons r rs)
  have r: "off_book r e" "stop_ok (store e r)" using Cons.prems(4) by simp_all
  then have t: "taking r e" using Cons.prems(1) by (simp add: resting_ok_taking stop_ok_def)
  have k: "known_stp (stp_mode_of e (store e r))"
    using r(2) Cons.prems(2) by (simp add: known_stp_mode_of stop_ok_def)
  have len: "length (orders e) < fuel" using Cons.prems(5) by simp
  have "o_Type (store e r) \<noteq> StopLoss \<Longrightarrow> o_Price (store e r) \<noteq> None" using r(2) by (simp add: stop_ok_def)
  from activated_ok [OF t k len this] obtain e1 where
    e1: "(if o_Type (store e r) \<noteq> StopLoss then matchLimitLocked fuel r (upd_order r (\<lambda>v. v\<lparr>o_Type := Limit\<rparr>) e)
         else matchMarketLocked fuel r (upd_order r (\<lambda>v. v\<lparr>o_Type := Market\<rparr>) e)) = Done e1" "strat_post r e e1"
    by blast
  have run: "run_triggered fuel (r # rs) e = run_triggered fuel rs e1" using e1(1) by (cases "o_Type (store e r) = StopLoss") simp_all
  have ev: "evolves r e e1" and re: "resting_ok e1" and st: "stops e1 = stops e" and
    ln: "length (orders e1) \<le> Suc (length (orders e))" using e1(2) by (simp_all add: strat_post_def)
  have ids: "o_ID (store e1 x) = o_ID (store e x)" for x using ev by (simp add: evolves_def)
  have keep: "off_book x e1 \<and> (stop_ok (store e x) \<longrightarrow> stop_ok (store e1 x))"
    if "off_book x e" "o_ID (store e x) \<noteq> o_ID (store e r)" for x
  proof -
    have "x \<noteq> r" using that by auto
    then have "same_terms (store e x) (store e1 x)" "sized (store e x) \<longrightarrow> sized (store e1 x)"
      using ev by (auto simp: evolves_def)
    then show ?thesis using evolves_off_book [OF ev that] by (simp add: stop_ok_def same_terms_def)
  qed
  have "\<exists>e'. run_triggered fuel rs e1 = Done e' \<and> resting_ok e' \<and> stops e' = stops e1 \<and> e_stp e' = e_stp e1 \<and>
    nextref e' = nextref e1 \<and>
    (\<forall>x. off_book x e1 \<and> o_ID (store e1 x) \<notin> (\<lambda>x. o_ID (store e1 x)) ` set rs \<longrightarrow>
       off_book x e' \<and> (stop_ok (store e1 x) \<longrightarrow> stop_ok (store e' x))) \<and>
    (\<forall>x. o_ID (store e' x) = o_ID (store e1 x))"
  proof (rule Cons.IH [OF re])
    show "known_stp (e_stp e1)" using Cons.prems(2) ev by (simp add: evolves_def)
    show "distinct (map (\<lambda>x. o_ID (store e1 x)) rs)" using Cons.prems(3) ids by simp
    show "\<forall>x \<in> set rs. off_book x e1 \<and> stop_ok (store e1 x)"
    proof
      fix x assume x: "x \<in> set rs"
      then have "o_ID (store e x) \<noteq> o_ID (store e r)" using Cons.prems(3) by (force simp: image_iff)
      then show "off_book x e1 \<and> stop_ok (store e1 x)" using Cons.prems(4) x keep [of x] by simp
    qed
    show "length (orders e1) + length rs < fuel" using ln Cons.prems(5) by simp
  qed
  then obtain e' where e': "run_triggered fuel (r # rs) e = Done e'" "resting_ok e'" "stops e' = stops e"
      "e_stp e' = e_stp e1" "nextref e' = nextref e1"
      "\<And>x. off_book x e1 \<Longrightarrow> o_ID (store e x) \<notin> (\<lambda>x. o_ID (store e x)) ` set rs \<Longrightarrow>
         off_book x e' \<and> (stop_ok (store e1 x) \<longrightarrow> stop_ok (store e' x))"
      "\<And>x. o_ID (store e' x) = o_ID (store e x)"
    unfolding run st ids by blast
  have "e_stp e1 = e_stp e" "nextref e1 = nextref e" using ev by (simp_all add: evolves_def)
  then have fr: "e_stp e' = e_stp e" "nextref e' = nextref e" using e'(4,5) by simp_all
  have "off_book x e' \<and> (stop_ok (store e x) \<longrightarrow> stop_ok (store e' x))"
    if x: "off_book x e" "o_ID (store e x) \<notin> (\<lambda>x. o_ID (store e x)) ` set (r # rs)" for x
  proof -
    have "off_book x e1 \<and> (stop_ok (store e x) \<longrightarrow> stop_ok (store e1 x))" using keep [of x] x by simp
    then show ?thesis using e'(6) [of x] x(2) by simp
  qed
  then show ?case using e'(1-3,7) fr by blast
qed simp

theorem triggerStops_ok:
  assumes "engine_wf e" and "length (orders e) + length (stops e) < fuel"
  shows "\<exists>e'. triggerStops fuel e = Done e' \<and> engine_wf e'"
proof -
  note wf = assms(1) [unfolded engine_wf_def stops_ok_def]
  show ?thesis
  proof (cases "stops e = [] \<or> LastTradePrice e = None \<or> bf_sign (the (LastTradePrice e)) \<le> 0")
    case True
    then have "triggerStops fuel e = Done e" by (auto simp: triggerStops_def split: option.split)
    then show ?thesis using assms(1) by simp
  next
    case False
    then obtain lp where lp: "LastTradePrice e = Some lp" "\<not> bf_sign lp \<le> 0" by auto
    obtain a b where ab: "split_stops (store e) lp (stops e) = Done (a, b)" "mset (stops e) = mset a + mset b"
      using split_stops_total [of "stops e" "store e" lp] wf by (auto simp: stop_ok_def)
    define e1 where "e1 = e\<lparr>stops := b\<rparr>"
    have res: "triggerStops fuel e = run_triggered fuel a e1"
      using False lp ab(1) by (simp add: triggerStops_def e1_def)
    have f: "store e1 = store e" "orders e1 = orders e" "heap_refs e1 = heap_refs e" "stops e1 = b"
      "e_stp e1 = e_stp e" "nextref e1 = nextref e" by (simp_all add: e1_def heap_refs_def)
    have ob: "off_book x e1 = off_book x e" for x by (simp add: off_book_def f)
    have sets: "set (stops e) = set a \<union> set b" using ab(2) by (metis set_mset_mset set_mset_union)
    have d: "distinct (map (\<lambda>x. o_ID (store e x)) (a @ b))"
      using wf ab(2) by (metis mset_append mset_eq_imp_distinct_iff mset_map)
    have "\<exists>e'. run_triggered fuel a e1 = Done e' \<and> resting_ok e' \<and> stops e' = stops e1 \<and> e_stp e' = e_stp e1 \<and>
      nextref e' = nextref e1 \<and>
      (\<forall>x. off_book x e1 \<and> o_ID (store e1 x) \<notin> (\<lambda>x. o_ID (store e1 x)) ` set a \<longrightarrow>
         off_book x e' \<and> (stop_ok (store e1 x) \<longrightarrow> stop_ok (store e' x))) \<and>
      (\<forall>x. o_ID (store e' x) = o_ID (store e1 x))"
    proof (rule run_triggered_ok)
      show "resting_ok e1" by (rule resting_ok_cong [of e]) (use wf in \<open>simp_all add: e1_def\<close>)
      show "known_stp (e_stp e1)" using wf f by simp
      show "distinct (map (\<lambda>x. o_ID (store e1 x)) a)" using d f by simp
      show "\<forall>x \<in> set a. off_book x e1 \<and> stop_ok (store e1 x)" using wf sets f ob by simp
      have "length (stops e) = length a + length b" using ab(2) by (metis size_mset size_union)
      then show "length (orders e1) + length a < fuel" using assms(2) f by simp
    qed
    then obtain e' where e': "run_triggered fuel a e1 = Done e'" "resting_ok e'" "stops e' = b" "e_stp e' = e_stp e"
      "\<forall>x. off_book x e \<and> o_ID (store e x) \<notin> (\<lambda>x. o_ID (store e x)) ` set a \<longrightarrow>
         off_book x e' \<and> (stop_ok (store e x) \<longrightarrow> stop_ok (store e' x))"
      "\<forall>x. o_ID (store e' x) = o_ID (store e x)" unfolding f ob by blast
    have "stops_ok e'" unfolding stops_ok_def e'(3)
    proof (intro conjI ballI)
      show "distinct (map (\<lambda>x. o_ID (store e' x)) b)" using d e'(6) by simp
      fix x assume x: "x \<in> set b"
      have "o_ID (store e x) \<notin> (\<lambda>x. o_ID (store e x)) ` set a" using d x by auto
      then show "off_book x e'" "stop_ok (store e' x)" using e'(5) wf sets x by auto
    qed
    then show ?thesis using res e' wf by (simp add: engine_wf_def)
  qed
qed

section \<open>Orders\<close>

text \<open>What a submitter has to provide: the fields the type's strategy dereferences.\<close>

definition order_ok :: "order \<Rightarrow> bool" where
  "order_ok v \<longleftrightarrow>
     (case o_RemainingQty v of None \<Rightarrow> True
      | Some q \<Rightarrow> bprec q \<le> 128 \<and> (0 < bval q \<longrightarrow> 0 < bprec q)) \<and>
     o_Type v \<noteq> Iceberg \<and>
     (o_Type v \<notin> {Market, ImmediateOrCancel, StopLoss, PostOnly} \<longrightarrow> o_Price v \<noteq> None) \<and>
     known_stp (o_STP v) \<and> o_done v \<noteq> ClosedChan"

definition fresh :: "ref \<Rightarrow> engine \<Rightarrow> bool" where
  "fresh r e \<longleftrightarrow> off_book r e \<and> o_ID (store e r) \<notin> (\<lambda>x. o_ID (store e x)) ` set (stops e)"

lemma engine_wf_evolves:
  assumes wf: "engine_wf e" and f: "fresh r e" and e': "resting_ok e'" "evolves r e e'"
    and st: "stops e' = stops e \<or> stops e' = stops e @ [r] \<and> off_book r e' \<and> stop_ok (store e' r)"
  shows "engine_wf e'"
proof -
  have ids: "o_ID (store e' x) = o_ID (store e x)" for x using e'(2) by (simp add: evolves_def)
  have old: "off_book x e' \<and> stop_ok (store e' x)" if x: "x \<in> set (stops e)" for x
  proof -
    have ne: "o_ID (store e x) \<noteq> o_ID (store e r)" using f x by (force simp: fresh_def image_iff)
    then have "x \<noteq> r" by auto
    then have "same_terms (store e x) (store e' x)" "sized (store e x) \<longrightarrow> sized (store e' x)"
      using e'(2) by (auto simp: evolves_def)
    moreover have "off_book x e" "stop_ok (store e x)" using wf x by (simp_all add: engine_wf_def stops_ok_def)
    ultimately show ?thesis using evolves_off_book [OF e'(2) _ ne] by (simp add: stop_ok_def same_terms_def)
  qed
  have d: "distinct (map (\<lambda>x. o_ID (store e x)) (stops e))" using wf by (simp add: engine_wf_def stops_ok_def)
  have "stops_ok e'" using st
  proof
    assume "stops e' = stops e"
    then show ?thesis using old d ids by (simp add: stops_ok_def)
  next
    assume "stops e' = stops e @ [r] \<and> off_book r e' \<and> stop_ok (store e' r)"
    then show ?thesis using old d ids f by (auto simp: stops_ok_def fresh_def)
  qed
  then show ?thesis using wf e' by (simp add: engine_wf_def evolves_def)
qed

text \<open>Time stamps, completion channels and counters are invisible to the invariant.\<close>

lemma engine_wf_same:
  assumes wf: "engine_wf e"
    and eq: "bids e' = bids e" "asks e' = asks e" "orders e' = orders e" "userOrders e' = userOrders e"
      "nextref e' = nextref e" "stops e' = stops e" "e_stp e' = e_stp e"
    and k: "\<And>x. same_key (store e x) (store e' x) \<and> (sized (store e x) \<longrightarrow> sized (store e' x)) \<and>
      (stop_ok (store e x) \<longrightarrow> stop_ok (store e' x))"
  shows "engine_wf e'"
proof -
  have h: "heap_refs e' = heap_refs e" using eq by (simp add: heap_refs_def)
  have ids: "o_ID (store e' x) = o_ID (store e x)" for x using k [of x] by (simp add: same_key_def)
  have "book_wf e'" using wf by (intro book_wf_cong [of e e']) (simp_all add: eq k engine_wf_def resting_ok_def)
  then have "resting_ok e'" using wf k by (simp add: engine_wf_def resting_ok_def h)
  moreover have "stops_ok e'" using wf k by (simp add: engine_wf_def stops_ok_def eq ids off_book_def h)
  ultimately show ?thesis using wf by (simp add: engine_wf_def eq)
qed

lemma stop_ok_simps [simp]:
  "stop_ok (v\<lparr>o_UpdatedAt := t\<rparr>) = stop_ok v" "stop_ok (v\<lparr>o_done := d\<rparr>) = stop_ok v"
  "stop_ok (v\<lparr>o_Status := st\<rparr>) = stop_ok v" "stop_ok (v\<lparr>o_Status := st, o_Err := x\<rparr>) = stop_ok v"
  by (simp_all add: stop_ok_def sized_def)

lemma engine_wf_upd:
  "engine_wf e \<Longrightarrow> (\<And>v. same_key v (f v)) \<Longrightarrow> (\<And>v. sized v \<Longrightarrow> sized (f v)) \<Longrightarrow> (\<And>v. stop_ok v \<Longrightarrow> stop_ok (f v)) \<Longrightarrow>
   engine_wf (upd_order r f e)"
  by (rule engine_wf_same) auto

lemma engine_wf_frame:
  assumes "engine_wf e" "book.truncate e' = book.truncate e" "e_stp e' = e_stp e"
  shows "engine_wf e'"
proof -
  have eq: "store e' = store e" "bids e' = bids e" "asks e' = asks e" "orders e' = orders e"
    "userOrders e' = userOrders e" "nextref e' = nextref e" "stops e' = stops e"
    using assms(2) by (simp_all add: book.defs)
  show ?thesis by (rule engine_wf_same [OF assms(1) eq(2-7) assms(3)]) (simp add: eq(1))
qed

lemma close_done_ok:
  assumes "engine_wf e" "o_done (store e r) \<noteq> ClosedChan"
  shows "\<exists>e'. close_done r e = Done e' \<and> engine_wf e'"
  using assms by (cases "o_done (store e r)") (auto simp: close_done_def intro!: engine_wf_upd)

text \<open>The strategy of the order's type.\<close>

lemma dispatch_ok:
  assumes wf: "engine_wf e" and f: "fresh r e" and s: "sized (store e r)" "o_Quantity (store e r) \<noteq> None"
    and v: "order_ok (store e r)" and n: "length (orders e) < fuel"
  shows "\<exists>e'. dispatch fuel r e = Done e' \<and> engine_wf e' \<and> o_done (store e' r) = o_done (store e r)"
proof -
  have t: "taking r e" using wf f s by (simp add: engine_wf_def fresh_def resting_ok_taking)
  have k: "known_stp (stp_mode_of e (store e r))" using wf v by (simp add: engine_wf_def order_ok_def known_stp_mode_of)
  have fin: "engine_wf e' \<and> o_done (store e' r) = o_done (store e r)" if "strat_post r e e'" for e'
    using that engine_wf_evolves [OF wf f] by (auto simp: strat_post_def evolves_def)
  have lim: "\<exists>e'. matchLimitLocked fuel r e = Done e' \<and> engine_wf e' \<and> o_done (store e' r) = o_done (store e r)"
    if "o_Price (store e r) \<noteq> None"
    using matchLimit_ok [OF t that k n] fin by blast
  have stop: "\<exists>e'. matchStopLocked fuel isLimit r e = Done e' \<and> engine_wf e' \<and> o_done (store e' r) = o_done (store e r)"
    if l: "o_Type (store e r) = (if isLimit then StopLimit else StopLoss)" for isLimit
  proof -
    have pr: "isLimit \<Longrightarrow> o_Price (store e r) \<noteq> None" using v l by (simp add: order_ok_def)
    obtain e' where e': "matchStopLocked fuel isLimit r e = Done e'"
      "strat_post r e e' \<or>
       resting_ok e' \<and> evolves r e e' \<and> stops e' = stops e @ [r] \<and> off_book r e' \<and>
         o_StopPrice (store e r) \<noteq> None \<and> same_terms (store e r) ((store e' r)\<lparr>o_bookSeq := o_bookSeq (store e r)\<rparr>)"
      using matchStop_ok [OF t k n pr] by blast
    show ?thesis
    proof (cases "strat_post r e e'")
      case True
      then show ?thesis using e'(1) fin by blast
    next
      case False
      then have p: "resting_ok e'" "evolves r e e'" "stops e' = stops e @ [r]" "off_book r e'"
        "o_StopPrice (store e r) \<noteq> None" "same_terms (store e r) ((store e' r)\<lparr>o_bookSeq := o_bookSeq (store e r)\<rparr>)"
        using e'(2) by blast+
      have "sized (store e' r)" using p(2) s(1) by (auto simp: evolves_def)
      then have "stop_ok (store e' r)" using p(5,6) v pr l
        by (cases isLimit) (simp_all add: stop_ok_def same_terms_def order_ok_def)
      then have "engine_wf e'" using engine_wf_evolves [OF wf f p(1,2)] p(3,4) by blast
      then show ?thesis using e'(1) p(2) by (auto simp: evolves_def)
    qed
  qed
  show ?thesis
  proof (cases "o_Type (store e r)")
    case Limit
    then show ?thesis using lim v by (simp add: dispatch_def order_ok_def)
  next
    case Market
    then show ?thesis using matchMarket_ok [OF t k n] fin by (auto simp: dispatch_def)
  next
    case StopLoss
    then show ?thesis using stop [of False] by (simp add: dispatch_def)
  next
    case StopLimit
    then show ?thesis using stop [of True] by (simp add: dispatch_def)
  next
    case FillOrKill
    then have "o_Price (store e r) \<noteq> None" using v by (simp add: order_ok_def)
    then show ?thesis using matchFOK_ok [OF t _ k n s(2)] fin FillOrKill by (auto simp: dispatch_def)
  next
    case ImmediateOrCancel
    then show ?thesis using matchIOC_ok [OF t k n] fin by (auto simp: dispatch_def)
  next
    case PostOnly
    then show ?thesis using matchPostOnly_ok [OF t] fin by (auto simp: dispatch_def)
  next
    case (OtherType x)
    then show ?thesis using lim v by (simp add: dispatch_def order_ok_def)
  qed (use v in \<open>simp add: order_ok_def\<close>)
qed

text \<open>The three ways \<open>processOrder\<close> can go.\<close>

lemma processOrder_cases:
  assumes "processOrder fuel r e = Done e'"
  obtains (journal) err w where "AppendOrder (e_io e) (clock e) (store e r) (e_wal e) = (Some err, w)"
      "close_done r (upd_order r (\<lambda>v. v\<lparr>o_UpdatedAt := clock e\<rparr>) (reject_count
            (upd_order r (\<lambda>v. v\<lparr>o_Status := Rejected, o_Err := Some WalAppendFailed\<rparr>)
              (markWALFailure (e\<lparr>e_wal := w\<rparr>))))) = Done e'"
    | (empty) w where "AppendOrder (e_io e) (clock e) (store e r) (e_wal e) = (None, w)"
      "case o_Quantity (store e r) of None \<Rightarrow> True | Some q \<Rightarrow> bf_sign q \<le> 0"
      "e' = reject_count (set_status Rejected r (e\<lparr>e_wal := w\<rparr>))"
    | (matched) w e2 e3 where "AppendOrder (e_io e) (clock e) (store e r) (e_wal e) = (None, w)"
      "\<not> (case o_Quantity (store e r) of None \<Rightarrow> True | Some q \<Rightarrow> bf_sign q \<le> 0)"
      "dispatch fuel r (ready r (e\<lparr>e_wal := w\<rparr>)) = Done e2"
      "e3 = (if o_Status (store e2 r) \<in> {Filled, PartiallyFilled}
             then upd_stats (\<lambda>t. t\<lparr>OrdersMatched := OrdersMatched t + 1\<rparr>) e2 else e2)"
      "close_done r (upd_order r (\<lambda>v. v\<lparr>o_UpdatedAt := clock e3\<rparr>) e3) = Done e'"
proof (cases "AppendOrder (e_io e) (clock e) (store e r) (e_wal e)")
  case (Pair err w)
  show ?thesis
  proof (cases err)
    case (Some x)
    have "close_done r (upd_order r (\<lambda>v. v\<lparr>o_UpdatedAt := clock e\<rparr>) (reject_count
            (upd_order r (\<lambda>v. v\<lparr>o_Status := Rejected, o_Err := Some WalAppendFailed\<rparr>)
              (markWALFailure (e\<lparr>e_wal := w\<rparr>))))) = Done e'"
      using assms unfolding processOrder_def Pair Some prod.case option.case .
    then show ?thesis using Pair Some by (intro journal) auto
  next
    case None
    define e0 where "e0 = e\<lparr>e_wal := w\<rparr>"
    have q: "o_Quantity (store e0 r) = o_Quantity (store e r)" by (simp add: e0_def)
    note res = assms [unfolded processOrder_def Pair None prod.case option.case Let_def, folded e0_def, unfolded q]
    show ?thesis
    proof (cases "case o_Quantity (store e r) of None \<Rightarrow> True | Some q \<Rightarrow> bf_sign q \<le> 0")
      case True
      then have "e' = reject_count (set_status Rejected r e0)" using res by simp
      then show ?thesis using empty [of w] Pair None True by (simp add: e0_def)
    next
      case False
      then obtain e2 where e2: "dispatch fuel r (ready r e0) = Done e2"
        "close_done r (upd_order r (\<lambda>v. v\<lparr>o_UpdatedAt := clock (if o_Status (store e2 r) \<in> {Filled, PartiallyFilled}
             then upd_stats (\<lambda>t. t\<lparr>OrdersMatched := OrdersMatched t + 1\<rparr>) e2 else e2)\<rparr>)
           (if o_Status (store e2 r) \<in> {Filled, PartiallyFilled}
             then upd_stats (\<lambda>t. t\<lparr>OrdersMatched := OrdersMatched t + 1\<rparr>) e2 else e2)) = Done e'"
        using res unfolding if_not_P [OF False] obind_eq_Done by blast
      show ?thesis using matched [OF _ False _ refl] Pair None e2 unfolding e0_def by blast
    qed
  qed
qed

lemma ready_ok:
  assumes wf: "engine_wf e" and f: "fresh r e" and v: "order_ok (store e r)"
    and q: "\<not> (case o_Quantity (store e r) of None \<Rightarrow> True | Some q \<Rightarrow> bf_sign q \<le> 0)"
  shows "engine_wf (ready r e)" "fresh r (ready r e)" "sized (store (ready r e) r)"
    "o_Quantity (store (ready r e) r) \<noteq> None" "order_ok (store (ready r e) r)" "orders (ready r e) = orders e"
    "o_done (store (ready r e) r) = o_done (store e r)"
proof -
  define refill where "refill = (case o_RemainingQty (store e r) of None \<Rightarrow> True | Some q \<Rightarrow> bf_sign q \<le> 0)"
  have e1: "ready r e = (if refill
     then upd_order r (\<lambda>v. v\<lparr>o_RemainingQty := newBigFloatCopy (o_Quantity v)\<rparr>) e else e)"
    by (simp add: ready_def refill_def)
  obtain q where q: "o_Quantity (store e r) = Some q" using q by (auto split: option.splits)
  have "heap_refs (ready r e) = heap_refs e" "nextref (ready r e) = nextref e" "stops (ready r e) = stops e"
    "\<And>x. o_ID (store (ready r e) x) = o_ID (store e x)" by (simp_all add: e1)
  then show "fresh r (ready r e)" using f by (simp add: fresh_def off_book_def e1)
  show s: "sized (store (ready r e) r)"
  proof (cases refill)
    case True
    then show ?thesis using q(1) by (simp add: e1 sized_def newBigFloatCopy_def bprec_set)
  next
    case False
    then obtain y where "o_RemainingQty (store e r) = Some y" "0 < bval y"
      unfolding refill_def by (auto split: option.splits)
    then show ?thesis using False v by (simp add: e1 sized_def order_ok_def)
  qed
  show "order_ok (store (ready r e) r)" using v q
    by (cases refill) (simp_all add: e1 order_ok_def newBigFloatCopy_def bprec_set)
  show "o_Quantity (store (ready r e) r) \<noteq> None" "orders (ready r e) = orders e"
    "o_done (store (ready r e) r) = o_done (store e r)" using q by (simp_all add: e1)
  show "engine_wf (ready r e)"
  proof (cases refill)
    case True
    have "evolves r e (ready r e)" using s by (auto simp: evolves_def e1)
    moreover have "resting_ok (ready r e)"
    proof -
      have t: "r \<notin> heap_refs e" "off_book r e" using f by (simp_all add: fresh_def off_book_def)
      have "book_wf e" using wf by (simp add: engine_wf_def resting_ok_def)
      then have "book_wf (ready r e)" using True t off_book_unmapped by (auto simp: e1 intro!: upd_free_wf)
      then show ?thesis using wf t(1) True by (auto simp: engine_wf_def resting_ok_def e1)
    qed
    ultimately show ?thesis using engine_wf_evolves [OF wf f] by (simp add: e1)
  qed (simp add: e1 wf)
qed

lemma processOrder_done:
  assumes "engine_wf e" and "fresh r e" and "order_ok (store e r)" and "length (orders e) < fuel"
  shows "\<exists>e'. processOrder fuel r e = Done e' \<and> engine_wf e'"
proof (cases "AppendOrder (e_io e) (clock e) (store e r) (e_wal e)")
  case (Pair err w)
  define e0 where "e0 = e\<lparr>e_wal := w\<rparr>"
  have wf0: "engine_wf e0" by (rule engine_wf_frame [OF assms(1)]) (simp_all add: e0_def book.defs)
  have f0: "fresh r e0" "store e0 = store e" "orders e0 = orders e" "clock e0 = clock e"
    using assms(2) by (simp_all add: e0_def fresh_def off_book_def heap_refs_def)
  have dn: "o_done (store e r) \<noteq> ClosedChan" using assms(3) by (simp add: order_ok_def)
  show ?thesis
  proof (cases err)
    case (Some x)
    define e1 where "e1 = upd_order r (\<lambda>v. v\<lparr>o_UpdatedAt := clock e\<rparr>) (reject_count
            (upd_order r (\<lambda>v. v\<lparr>o_Status := Rejected, o_Err := Some WalAppendFailed\<rparr>) (markWALFailure e0)))"
    have "engine_wf (markWALFailure e0)"
      by (rule engine_wf_frame [OF wf0]) (simp_all add: markWALFailure_def upd_stats_def book.defs)
    then have "engine_wf (upd_order r (\<lambda>v. v\<lparr>o_Status := Rejected, o_Err := Some WalAppendFailed\<rparr>) (markWALFailure e0))"
      by (rule engine_wf_upd) (simp_all add: same_key_def sized_def rem_q_def)
    then have "engine_wf (reject_count (upd_order r (\<lambda>v. v\<lparr>o_Status := Rejected, o_Err := Some WalAppendFailed\<rparr>) (markWALFailure e0)))"
      by (rule engine_wf_frame) (simp_all add: reject_count_def upd_stats_def book.defs)
    then have wf1: "engine_wf e1" unfolding e1_def by (rule engine_wf_upd) simp_all
    have "o_done (store e1 r) \<noteq> ClosedChan"
      using dn by (simp add: e1_def markWALFailure_def f0(2))
    from close_done_ok [OF wf1 this] show ?thesis
      using Pair Some by (simp add: processOrder_def e1_def e0_def)
  next
    case None
    show ?thesis
    proof (cases "case o_Quantity (store e0 r) of None \<Rightarrow> True | Some q \<Rightarrow> bf_sign q \<le> 0")
      case True
      then have "processOrder fuel r e = Done (reject_count (set_status Rejected r e0))"
        using Pair None by (simp add: processOrder_def e0_def)
      moreover have "engine_wf (reject_count (set_status Rejected r e0))"
        by (rule engine_wf_frame [OF engine_wf_upd [OF wf0, of "\<lambda>v. v\<lparr>o_Status := Rejected\<rparr>" r]])
          (simp_all add: reject_count_def upd_stats_def set_status_def book.defs)
      ultimately show ?thesis by simp
    next
      case False
      have v: "order_ok (store e0 r)" using assms(3) f0(2) by simp
      note rd = ready_ok [OF wf0 f0(1) v False]
      have "length (orders (ready r e0)) < fuel" using assms(4) f0(3) rd(6) by simp
      from dispatch_ok [OF rd(1-5) this] obtain e2 where
        e2: "dispatch fuel r (ready r e0) = Done e2" "engine_wf e2" "o_done (store e2 r) \<noteq> ClosedChan"
        using rd(7) dn f0(2) by auto
      have cont: "processOrder fuel r e = obind (dispatch fuel r (ready r e0)) (\<lambda>e2.
                     let e3 = (if o_Status (store e2 r) \<in> {Filled, PartiallyFilled}
                               then upd_stats (\<lambda>t. t\<lparr>OrdersMatched := OrdersMatched t + 1\<rparr>) e2 else e2)
                     in close_done r (upd_order r (\<lambda>v. v\<lparr>o_UpdatedAt := clock e3\<rparr>) e3))"
        using False unfolding processOrder_def Pair None prod.case option.case Let_def e0_def [symmetric]
        by (rule if_not_P)
      define e3 where "e3 = (if o_Status (store e2 r) \<in> {Filled, PartiallyFilled}
                               then upd_stats (\<lambda>t. t\<lparr>OrdersMatched := OrdersMatched t + 1\<rparr>) e2 else e2)"
      have "engine_wf e3" by (rule engine_wf_frame [OF e2(2)]) (simp_all add: e3_def upd_stats_def book.defs)
      then have "engine_wf (upd_order r (\<lambda>v. v\<lparr>o_UpdatedAt := clock e3\<rparr>) e3)" by (rule engine_wf_upd) simp_all
      moreover have "o_done (store (upd_order r (\<lambda>v. v\<lparr>o_UpdatedAt := clock e3\<rparr>) e3) r) \<noteq> ClosedChan"
        using e2(3) by (simp add: e3_def)
      ultimately obtain e' where "close_done r (upd_order r (\<lambda>v. v\<lparr>o_UpdatedAt := clock e3\<rparr>) e3) = Done e'" "engine_wf e'"
        using close_done_ok by blast
      then show ?thesis unfolding cont e2(1) obind.simps Let_def e3_def [symmetric] by blast
    qed
  qed
qed

section \<open>Cancels\<close>

lemma engine_wf_removeLocked:
  assumes "engine_wf e"
  shows "engine_wf (snd (removeLocked i e))"
proof -
  have k: "same_key (store e x) (store (snd (removeLocked i e)) x) \<and>
      (sized (store e x) \<longrightarrow> sized (store (snd (removeLocked i e)) x)) \<and>
      (stop_ok (store e x) \<longrightarrow> stop_ok (store (snd (removeLocked i e)) x))" for x
    by (auto simp: store_removeLocked stop_ok_def split: option.split)
  have "resting_ok (snd (removeLocked i e))"
    using assms k by (simp add: engine_wf_def resting_ok_def removeLocked_wf)
  moreover have "stops_ok (snd (removeLocked i e))" using assms k
    by (auto simp: engine_wf_def stops_ok_def off_book_def same_key_def)
  ultimately show ?thesis using assms by (simp add: engine_wf_def)
qed

lemma processCancel_wf:
  assumes "engine_wf e"
  shows "engine_wf (snd (processCancel oid uid e))"
proof (cases "AppendCancel (e_io e) (clock e) oid uid (e_wal e)")
  case (Pair err w)
  have wf0: "engine_wf (e\<lparr>e_wal := w\<rparr>)" by (rule engine_wf_frame [OF assms]) (simp_all add: book.defs)
  have st: "engine_wf (upd_stats f x)" if "engine_wf x" for f x
    by (rule engine_wf_frame [OF that]) (simp_all add: upd_stats_def book.defs)
  have "engine_wf (markWALFailure x)" if "engine_wf x" for x
    by (rule engine_wf_frame [OF that]) (simp_all add: markWALFailure_def upd_stats_def book.defs)
  then show ?thesis using Pair wf0 engine_wf_removeLocked [OF wf0] st
    by (auto simp: processCancel_def Let_def split: option.splits)
qed

lemma cancel_each_wf: "engine_wf e \<Longrightarrow> engine_wf (snd (cancel_each rs uid n e))"
proof (induction rs arbitrary: n e)
  case (Cons r rs)
  have "engine_wf (snd (processCancel (o_ID (store e r)) uid e))" using Cons.prems by (rule processCancel_wf)
  then show ?case using Cons.IH
    by (cases "processCancel (o_ID (store e r)) uid e") (auto split: sum.split)
qed simp

end
