(* ===== verification/Engine_Safety.thy ===== *)
theory Engine_Safety
  imports Engine_Correct
begin

text \<open>
  What matching never does: create or lose quantity, trade through a limit price, or leave the
  book crossed. Each fact is an invariant of the abstract steps of \<open>Match_Loop\<close>.
\<close>

section \<open>Conservation of quantity\<close>

text \<open>
  The quantities of an order on a binary grid: multiples of \<open>2 ^ g\<close> whose sum fits the 128 bits
  of the default precision, so that no addition or subtraction of a fill rounds.
\<close>

definition exact_order :: "int \<Rightarrow> order \<Rightarrow> bool" where
  "exact_order g v \<longleftrightarrow> bprec (o_FilledQty v) = 128 \<and> bprec (rem_q v) = 128 \<and> o_RemainingQty v \<noteq> None \<and>
     on_grid g (bval (o_FilledQty v)) \<and> on_grid g (bval (rem_q v)) \<and>
     0 \<le> bval (o_FilledQty v) \<and> 0 \<le> bval (rem_q v) \<and>
     bval (o_FilledQty v) + bval (rem_q v) < 2 powi (g + 128)"

definition total_qty :: "order \<Rightarrow> rat" where
  "total_qty v = bval (o_FilledQty v) + bval (rem_q v)"

lemma exact_sized: "exact_order g v \<Longrightarrow> sized v"
  by (auto simp: exact_order_def sized_def rem_q_def)

lemma exact_take_fill:
  assumes e: "exact_order g v" and q: "on_grid g (bval q)" "0 \<le> bval q" "bval q \<le> bval (rem_q v)"
  shows "bval (o_FilledQty (take_fill q v)) = bval (o_FilledQty v) + bval q"
    "bval (rem_q (take_fill q v)) = bval (rem_q v) - bval q" "exact_order g (take_fill q v)"
proof -
  let ?f = "bval (o_FilledQty v)" let ?r = "bval (rem_q v)" let ?q = "bval q"
  have b: "?f + ?r < 2 powi (g + int 128)" "0 \<le> ?f" "0 \<le> ?r" using e by (simp_all add: exact_order_def)
  have g: "on_grid g (?f + ?q)" "on_grid g (?r - ?q)"
    using e q(1) by (auto simp: exact_order_def intro: on_grid_add on_grid_diff)
  have "fround 128 (?f + ?q) = ?f + ?q" by (rule fround_exact [OF _ g(1)]) (use b q in auto)
  then show f: "bval (o_FilledQty (take_fill q v)) = ?f + ?q"
    using e by (simp add: bf_add_def res_prec_def exact_order_def)
  have "fround 128 (?r - ?q) = ?r - ?q" by (rule fround_exact [OF _ g(2)]) (use b q in auto)
  then show r: "bval (rem_q (take_fill q v)) = ?r - ?q"
    using e by (simp add: rem_take_fill bf_sub_def res_prec_def exact_order_def)
  have "bprec (o_FilledQty (take_fill q v)) = 128" "bprec (rem_q (take_fill q v)) = 128"
    using e by (simp_all add: rem_take_fill bf_add_def bf_sub_def res_prec_def exact_order_def)
  then show "exact_order g (take_fill q v)" using e q g f r by (simp add: exact_order_def)
qed

lemma exact_order_simps [simp]:
  "exact_order g (v\<lparr>o_Status := st\<rparr>) = exact_order g v" "exact_order g (v\<lparr>o_UpdatedAt := t\<rparr>) = exact_order g v"
  "total_qty (v\<lparr>o_Status := st\<rparr>) = total_qty v" "total_qty (v\<lparr>o_UpdatedAt := t\<rparr>) = total_qty v"
  by (simp_all add: exact_order_def total_qty_def)

lemma exact_after:
  assumes "exact_order g v" "on_grid g (bval q)" "0 \<le> bval q" "bval q \<le> bval (rem_q v)"
  shows "exact_order g (taker_after q v)" "total_qty (taker_after q v) = total_qty v"
    "exact_order g (maker_after t q v)" "total_qty (maker_after t q v) = total_qty v"
    "bval (o_FilledQty (taker_after q v)) = bval (o_FilledQty v) + bval q"
  using exact_take_fill [OF assms] by (simp_all add: taker_after_def maker_after_def total_qty_def)

text \<open>A fill's quantity is on the grid of the two orders it fills.\<close>

lemma exact_fill_qty:
  assumes "exact_order g a" "exact_order g b"
  shows "on_grid g (bval (fill_qty a b))" "0 \<le> bval (fill_qty a b)"
    "bval (fill_qty a b) \<le> bval (rem_q a)" "bval (fill_qty a b) \<le> bval (rem_q b)"
  using bval_fill_qty [OF exact_sized exact_sized, OF assms] assms
  by (auto simp: exact_order_def min_def)

lemma match_step_exact:
  assumes s: "match_step brk r e e'" "taking r e"
    and ex: "\<forall>x \<in> insert r (heap_refs e). exact_order g (store e x)"
  shows "(exact_order g (store e x) \<longrightarrow> exact_order g (store e' x)) \<and> total_qty (store e' x) = total_qty (store e x)"
  using s
proof (cases rule: match_step.cases)
  case drop_stale
  then show ?thesis by (simp add: cleaned_simps)
next
  case (self_trade m)
  then show ?thesis by (auto simp: applySTP_def store_removeLocked split: stp_mode.splits option.splits)
next
  case (trade_step m)
  note live = trade_step_mapped [OF s(2) trade_step(3)]
  have ab: "exact_order g (store e r)" "exact_order g (store e m)"
    using ex best_spec_live(2) [OF trade_step(3)] by simp_all
  note q = exact_fill_qty [OF ab]
  show ?thesis using exact_after [OF ab(1) q(1-3)] exact_after [OF ab(2) q(1,2,4)]
    by (simp add: trade_step store_after_fill [OF live(1,2)])
qed

lemma match_step_heap_refs: "match_step brk r e e' \<Longrightarrow> heap_refs e' \<subseteq> heap_refs e"
  by (cases rule: match_step.cases) (auto dest: cleaned_simps(7))

lemma match_steps_heap_refs: "(match_step brk r)\<^sup>*\<^sup>* e e' \<Longrightarrow> heap_refs e' \<subseteq> heap_refs e"
  by (induction rule: rtranclp_induct) (auto dest: match_step_heap_refs)

lemma match_steps_exact:
  assumes "(match_step brk r)\<^sup>*\<^sup>* e e'" "taking r e"
    and ex: "\<forall>x \<in> insert r (heap_refs e). exact_order g (store e x)"
  shows "(exact_order g (store e x) \<longrightarrow> exact_order g (store e' x)) \<and> total_qty (store e' x) = total_qty (store e x)"
  using assms(1)
proof (induction arbitrary: x rule: rtranclp_induct)
  case (step e1 e2)
  have t: "taking r e1" using match_steps_taking [OF step(1) assms(2)] .
  have "\<forall>y \<in> insert r (heap_refs e1). exact_order g (store e1 y)"
    using match_steps_heap_refs [OF step(1)] ex step.IH by blast
  from match_step_exact [OF step(2) t this, of x] step.IH [of x] show ?case by simp
qed simp

section \<open>The trades of a run\<close>

text \<open>
  Of every trade a run appends: the maker is a live order of the opposite side which the strategy's
  test accepts, the price is the maker's, and the parties are on the sides their orders are on.
\<close>

definition good_trade :: "(order \<Rightarrow> order \<Rightarrow> bool outcome) \<Rightarrow> order \<Rightarrow> (ref \<Rightarrow> order) \<Rightarrow> ref set \<Rightarrow> trade \<Rightarrow> bool" where
  "good_trade brk v st ms t \<longleftrightarrow> 0 < bval (t_Quantity t) \<and> t_TakerSide t = o_Side v \<and>
     (\<exists>m \<in> ms. brk v (st m) = Done False \<and>
        bval (t_Price t) = bval (bf_set newBigFloat (the (o_Price (st m)))) \<and>
        (if o_Side v = Sell
         then t_BuyOrderID t = o_ID (st m) \<and> t_SellOrderID t = o_ID v \<and> t_BuyerID t = o_UserID (st m) \<and> t_SellerID t = o_UserID v
         else t_BuyOrderID t = o_ID v \<and> t_SellOrderID t = o_ID (st m) \<and> t_BuyerID t = o_UserID v \<and> t_SellerID t = o_UserID (st m)))"

text \<open>The tests of the strategies read nothing of the two orders but sides and prices.\<close>

definition reads_terms :: "(order \<Rightarrow> order \<Rightarrow> bool outcome) \<Rightarrow> bool" where
  "reads_terms brk \<longleftrightarrow> (\<forall>v w m n. o_Side w = o_Side v \<longrightarrow> o_Price w = o_Price v \<longrightarrow> o_Price n = o_Price m \<longrightarrow> brk w n = brk v m)"

lemma reads_terms_tests [simp]: "reads_terms limit_break" "reads_terms market_break" "reads_terms ioc_break"
  unfolding reads_terms_def by (simp_all add: limit_break_def market_break_def ioc_break_def)

lemma match_step_trades:
  assumes s: "match_step brk r e e'" "taking r e"
  shows "\<exists>ts. e_Trades e' = e_Trades e @ ts \<and>
    (\<forall>t \<in> set ts. good_trade brk (store e r) (store e) (set (side_heap (side_Opposite (o_Side (store e r))) e)) t)"
  using s
proof (cases rule: match_step.cases)
  case (trade_step m)
  note live = trade_step_mapped [OF s(2) trade_step(3)] and b = best_spec_live [OF trade_step(3)]
  obtain t where t: "fill_trade r m e t"
    "e_Trades e' = (if length (e_Trades e) < chan_cap then e_Trades e @ [t] else e_Trades e)"
    using trades_after_fill [OF s(2) b(2,3) trade_step(2)] trade_step(1) by auto
  have "good_trade brk (store e r) (store e) (set (side_heap (side_Opposite (o_Side (store e r))) e)) t"
    using t(1) live(3) trade_step(2,4) b(1) unfolding good_trade_def fill_trade_def by auto
  then show ?thesis using t(2) by auto
qed (simp_all add: cleaned_engine)

lemma side_heap_match_step:
  "match_step brk r e e' \<Longrightarrow> set (side_heap sd e') \<subseteq> set (side_heap sd e)"
proof (induction rule: match_step.cases)
  case (drop_stale e e1)
  then show ?case
    by (auto simp: cleaned_def side_heap_def set_side_heap_def split: if_splits)
qed auto

lemma match_steps_trades:
  assumes "(match_step brk r)\<^sup>*\<^sup>* e e'" "taking r e" "reads_terms brk"
  shows "\<exists>ts. e_Trades e' = e_Trades e @ ts \<and>
    (\<forall>t \<in> set ts. good_trade brk (store e r) (store e) (set (side_heap (side_Opposite (o_Side (store e r))) e)) t) \<and>
    (\<forall>sd. set (side_heap sd e') \<subseteq> set (side_heap sd e))"
  using assms(1)
proof (induction rule: rtranclp_induct)
  case (step e1 e2)
  have t: "taking r e1" using match_steps_taking [OF step(1) assms(2)] .
  have st: "same_terms (store e x) (store e1 x)" for x by (rule match_steps_terms [OF step(1) assms(2)])
  obtain ts where ts: "e_Trades e1 = e_Trades e @ ts"
    "\<forall>t \<in> set ts. good_trade brk (store e r) (store e) (set (side_heap (side_Opposite (o_Side (store e r))) e)) t"
    "\<forall>sd. set (side_heap sd e1) \<subseteq> set (side_heap sd e)" using step.IH by blast
  obtain us where us: "e_Trades e2 = e_Trades e1 @ us"
    "\<forall>t \<in> set us. good_trade brk (store e1 r) (store e1) (set (side_heap (side_Opposite (o_Side (store e1 r))) e1)) t"
    using match_step_trades [OF step(2) t] by blast
  have same: "o_Side (store e1 x) = o_Side (store e x)" "o_Price (store e1 x) = o_Price (store e x)"
    "o_ID (store e1 x) = o_ID (store e x)" "o_UserID (store e1 x) = o_UserID (store e x)" for x
    using st [of x] by (simp_all add: same_terms_def)
  have brk: "brk (store e1 r) (store e1 m) = brk (store e r) (store e m)" for m
    using assms(3) same unfolding reads_terms_def by blast
  have "good_trade brk (store e r) (store e) (set (side_heap (side_Opposite (o_Side (store e r))) e)) t" if "t \<in> set us" for t
  proof -
    have "good_trade brk (store e1 r) (store e1) (set (side_heap (side_Opposite (o_Side (store e1 r))) e1)) t"
      using us(2) that by blast
    then show ?thesis using ts(3) unfolding good_trade_def same brk by blast
  qed
  then show ?case using ts us side_heap_match_step [OF step(2)] by (intro exI [of _ "ts @ us"]) fastforce
qed simp

text \<open>As long as the trade channel has room, what the taker was filled is what was traded.\<close>

definition traded :: "trade list \<Rightarrow> rat" where
  "traded ts = sum_list (map (\<lambda>t. bval (t_Quantity t)) ts)"

lemma match_step_traded:
  assumes s: "match_step brk r e e'" "taking r e"
    and ex: "\<forall>x \<in> insert r (heap_refs e). exact_order g (store e x)"
    and room: "length (e_Trades e') < chan_cap"
  shows "bval (o_FilledQty (store e' r)) = bval (o_FilledQty (store e r)) +
      traded (drop (length (e_Trades e)) (e_Trades e'))"
  using s(1)
proof (cases rule: match_step.cases)
  case drop_stale
  then show ?thesis by (simp add: cleaned_simps cleaned_engine traded_def)
next
  case (self_trade m)
  then show ?thesis
    by (auto simp: applySTP_def store_removeLocked traded_def split: stp_mode.splits option.splits)
next
  case (trade_step m)
  note live = trade_step_mapped [OF s(2) trade_step(3)] and b = best_spec_live [OF trade_step(3)]
  have ab: "exact_order g (store e r)" "exact_order g (store e m)" using ex b(2) by simp_all
  note q = exact_fill_qty [OF ab]
  obtain t where t: "fill_trade r m e t"
    "e_Trades e' = (if length (e_Trades e) < chan_cap then e_Trades e @ [t] else e_Trades e)"
    using trades_after_fill [OF s(2) b(2,3) trade_step(2)] trade_step(1) by auto
  have "e_Trades e' = e_Trades e @ [t]" using t(2) room by (auto split: if_splits)
  then show ?thesis using exact_after(5) [OF ab(1) q(1-3)] t(1) live(1)
      bval_fill_qty [OF exact_sized [OF ab(1)] exact_sized [OF ab(2)]]
    by (simp add: traded_def trade_step(1) store_after_fill [OF live(1,2)] fill_trade_def)
qed

lemma match_steps_traded:
  assumes "(match_step brk r)\<^sup>*\<^sup>* e e'" "taking r e"
    and ex: "\<forall>x \<in> insert r (heap_refs e). exact_order g (store e x)"
    and room: "length (e_Trades e') < chan_cap"
  shows "bval (o_FilledQty (store e' r)) = bval (o_FilledQty (store e r)) +
      traded (drop (length (e_Trades e)) (e_Trades e'))"
  using assms(1) room
proof (induction rule: rtranclp_induct)
  case base
  then show ?case by (simp add: traded_def)
next
  case (step e1 e2)
  have t: "taking r e1" using match_steps_taking [OF step(1) assms(2)] .
  obtain us where us: "e_Trades e2 = e_Trades e1 @ us" using match_step_trades [OF step(2) t] by blast
  have more: "\<exists>ts. e_Trades e1 = e_Trades e @ ts" using step(1)
  proof (induction rule: rtranclp_induct)
    case base
    then show ?case by simp
  next
    case (step f1 f2)
    have "taking r f1" using match_steps_taking [OF step(1) assms(2)] .
    then show ?case using match_step_trades [OF step(2)] step(3) by fastforce
  qed
  then obtain ts where ts: "e_Trades e1 = e_Trades e @ ts" ..
  have "\<forall>y \<in> insert r (heap_refs e1). exact_order g (store e1 y)"
    using match_steps_heap_refs [OF step(1)] ex match_steps_exact [OF step(1) assms(2) ex] by blast
  from match_step_traded [OF step(2) t this step.prems] step.IH us ts step.prems
  show ?case by (simp add: traded_def)
qed

section \<open>The book is never crossed\<close>

definition uncrossed :: "'a book_scheme \<Rightarrow> bool" where
  "uncrossed s \<longleftrightarrow> (\<forall>b \<in> set (bids s). \<forall>a \<in> set (asks s).
     is_live s b \<longrightarrow> is_live s a \<longrightarrow> price_of (store s b) < price_of (store s a))"

text \<open>A change that only drops live orders keeps the book uncrossed.\<close>

definition thins :: "'a book_scheme \<Rightarrow> 'a book_scheme \<Rightarrow> bool" where
  "thins s t \<longleftrightarrow> set (bids t) \<subseteq> set (bids s) \<and> set (asks t) \<subseteq> set (asks s) \<and>
     (\<forall>x \<in> heap_refs t. o_Price (store t x) = o_Price (store s x) \<and> (is_live t x \<longrightarrow> is_live s x))"

lemma thins_refl [simp]: "thins s s"
  by (simp add: thins_def)

lemma thins_trans: "thins s t \<Longrightarrow> thins t u \<Longrightarrow> thins s u"
  unfolding thins_def heap_refs_def by auto

lemma thins_uncrossed: "thins s t \<Longrightarrow> uncrossed s \<Longrightarrow> uncrossed t"
  unfolding thins_def uncrossed_def heap_refs_def price_of_def by (auto 0 4)

lemma match_step_thins:
  assumes "match_step brk r e e'" "taking r e"
  shows "thins e e'"
proof -
  have hs: "set (side_heap sd e') \<subseteq> set (side_heap sd e)" for sd by (rule side_heap_match_step [OF assms(1)])
  have sub: "set (bids e') \<subseteq> set (bids e)" "set (asks e') \<subseteq> set (asks e)"
    using hs [of Buy] hs [of Sell] by simp_all
  have "is_live e x" if x: "x \<in> heap_refs e'" "is_live e' x" for x
    using assms
  proof (cases rule: match_step.cases)
    case drop_stale
    then show ?thesis using x(2) cleaned_is_live by blast
  next
    case (self_trade m)
    then show ?thesis using x(2)
      by (auto simp: is_live_def applySTP_def store_removeLocked split: stp_mode.splits option.splits if_splits)
  next
    case (trade_step m)
    note live = trade_step_mapped [OF assms(2) trade_step(3)] and b = best_spec_live [OF trade_step(3)]
    have "x \<noteq> r" using x(1) sub assms(2) by (auto simp: taking_def off_book_def heap_refs_def)
    then show ?thesis using x(2) b(3) unfolding trade_step(1)
      by (auto simp: is_live_def store_after_fill [OF live(1,2)] orders_after_fill [OF live(1)] maker_after_def split: if_splits)
  qed
  moreover have "o_Price (store e' x) = o_Price (store e x)" for x
    using match_step_terms [OF assms, of x] by (simp add: same_terms_def)
  ultimately show ?thesis using sub by (simp add: thins_def)
qed

lemma match_steps_thins: "(match_step brk r)\<^sup>*\<^sup>* e e' \<Longrightarrow> taking r e \<Longrightarrow> thins e e'"
  by (induction rule: rtranclp_induct) (auto intro: thins_trans match_step_thins match_steps_taking)

text \<open>An order may rest when every live order of the opposite side is beyond its price.\<close>

definition clears :: "ref \<Rightarrow> 'a book_scheme \<Rightarrow> bool" where
  "clears r s \<longleftrightarrow> (\<forall>m \<in> set (side_heap (side_Opposite (o_Side (store s r))) s). is_live s m \<longrightarrow>
     (if o_Side (store s r) = Buy then price_of (store s r) < price_of (store s m)
      else price_of (store s m) < price_of (store s r)))"

lemma addLocked_uncrossed:
  assumes t: "taking r e" "o_Price (store e r) \<noteq> None" and u: "uncrossed e" "clears r e"
    and add: "addLocked r e = Done e2"
  shows "uncrossed e2"
proof -
  have a: "addable r e" using t sized_rem by (auto simp: taking_def addable_def off_book_def)
  have wf: "book_wf e" using t(1) by (simp add: taking_def)
  let ?sd = "o_Side (store e r)"
  from addLocked_ok [OF wf a] add have
    f: "store e2 = store (next_seq r e)" "orders e2 = gm_put (o_ID (store e r)) r (orders e)"
      "heap_refs e2 = insert r (heap_refs e)"
      "set (side_heap ?sd e2) = insert r (set (side_heap ?sd e))" by auto
  have other: "side_heap (side_Opposite ?sd) e2 = side_heap (side_Opposite ?sd) e"
    using add by (auto simp: addLocked_def Let_def side_Opposite.simps side_heap_def set_side_heap_def store_next_seq split: if_splits)
  have nr: "r \<notin> heap_refs e" "\<forall>x \<in> heap_refs e. o_ID (store e x) \<noteq> o_ID (store e r)"
    using t(1) by (simp_all add: taking_def off_book_def)
  have pr: "price_of (store e2 x) = price_of (store e x)" for x by (simp add: f(1) store_next_seq price_of_def)
  have lv: "is_live e2 x = is_live e x" if "x \<in> heap_refs e" for x
    using that nr by (auto simp: is_live_def f(1,2) store_next_seq)
  have old: "price_of (store e b) < price_of (store e a)"
    if "b \<in> set (bids e)" "a \<in> set (asks e)" "is_live e2 b" "is_live e2 a" for b a
    using that u(1) lv by (auto simp: uncrossed_def heap_refs_def)
  show ?thesis
  proof (cases "?sd = Buy")
    case True
    then have h: "set (bids e2) = insert r (set (bids e))" "asks e2 = asks e"
      using f(4) other by (simp_all add: side_Opposite.simps)
    have "price_of (store e r) < price_of (store e a)" if "a \<in> set (asks e)" "is_live e2 a" for a
      using u(2) that True lv by (auto simp: clears_def side_Opposite.simps heap_refs_def)
    then show ?thesis using old by (auto simp: uncrossed_def h pr)
  next
    case False
    then have h: "set (asks e2) = insert r (set (asks e))" "bids e2 = bids e"
      using f(4) other by (simp_all add: side_Opposite.simps)
    have "price_of (store e b) < price_of (store e r)" if "b \<in> set (bids e)" "is_live e2 b" for b
      using u(2) that False lv by (auto simp: clears_def side_Opposite.simps heap_refs_def)
    then show ?thesis using old by (auto simp: uncrossed_def h pr)
  qed
qed

text \<open>A stopping reason of the limit loop, other than a full fill, clears the taker's price.\<close>

lemma match_end_clears:
  assumes e: "match_end limit_break r e" "0 < bval (rem_q (store e r))"
    and m: "stp_mode_of e (store e r) \<in> {STPDisabled, STPCancelMaker}"
    and t: "taking r e" "o_Price (store e r) \<noteq> None"
  shows "clears r e"
proof -
  let ?sd = "o_Side (store e r)"
  obtain p where p: "o_Price (store e r) = Some p" using t(2) by auto
  consider "best_spec (side_Opposite ?sd) e None"
    | m where "best_spec (side_Opposite ?sd) e (Some m)" "limit_break (store e r) (store e m) = Done True"
    using e m by (auto simp: match_end_def)
  then show ?thesis
  proof cases
    case 1
    then show ?thesis by (simp add: best_spec_def clears_def)
  next
    case (2 m)
    obtain q where q: "o_Price (store e m) = Some q" using trade_step_mapped(4) [OF t(1) 2(1)] by auto
    have sd: "?sd = Buy \<and> bval p < bval q \<or> ?sd = Sell \<and> bval q < bval p"
      using 2(2) p q by (auto simp: limit_break_def price_cmp_def split: if_splits)
    have "\<not> order_lt (side_Opposite ?sd) (store e) x m"
      if "x \<in> set (side_heap (side_Opposite ?sd) e)" "is_live e x" for x
      using 2(1) that by (auto simp: best_spec_def)
    then have "if ?sd = Buy then price_of (store e m) \<le> price_of (store e x) else price_of (store e x) \<le> price_of (store e m)"
      if "x \<in> set (side_heap (side_Opposite ?sd) e)" "is_live e x" for x
      using that sd by (fastforce simp: order_lt_def side_Opposite.simps split: if_splits)
    moreover have "price_of (store e m) = bval q" "price_of (store e r) = bval p" by (simp_all add: price_of_def p q)
    ultimately show ?thesis using sd unfolding clears_def by fastforce
  qed
qed

lemma uncrossed_same:
  fixes s t :: "'a book_scheme"
  assumes "uncrossed s" "bids t = bids s" "asks t = asks s" "orders t = orders s"
    and "\<And>x. x \<in> heap_refs s \<Longrightarrow> o_ID (store t x) = o_ID (store s x) \<and> o_Price (store t x) = o_Price (store s x) \<and>
      rem_q (store t x) = rem_q (store s x)"
  shows "uncrossed t"
proof (rule thins_uncrossed [OF _ assms(1)])
  show "thins s t" using assms by (auto simp: thins_def is_live_def heap_refs_def)
qed

lemma uncrossed_set_status [simp]: "uncrossed e \<Longrightarrow> uncrossed (set_status x r e)"
  by (erule uncrossed_same) auto

lemma uncrossed_reject_count [simp]: "uncrossed e \<Longrightarrow> uncrossed (reject_count e)"
  by (erule uncrossed_same) auto

lemma uncrossed_lapse [simp]: "uncrossed e \<Longrightarrow> uncrossed (lapse r e)"
  by (simp add: lapse_def)

definition stp_safe :: "engine \<Rightarrow> order \<Rightarrow> bool" where
  "stp_safe e v \<longleftrightarrow> stp_mode_of e v \<in> {STPDisabled, STPCancelMaker}"

lemma stp_safe_known: "stp_safe e v \<Longrightarrow> known_stp (stp_mode_of e v)"
  by (auto simp: stp_safe_def known_stp_def)

lemma match_loop_uncrossed:
  "match_loop brk n r e = Done e' \<Longrightarrow> taking r e \<Longrightarrow> uncrossed e \<Longrightarrow> uncrossed e'"
  using match_loop_refines match_steps_thins thins_uncrossed by blast

lemma matchLimit_uncrossed:
  assumes t: "taking r e" "o_Price (store e r) \<noteq> None" "stp_safe e (store e r)" "uncrossed e"
    and l: "matchLimitLocked fuel r e = Done e'"
  shows "uncrossed e'"
proof -
  obtain e1 where m: "match_loop limit_break fuel r e = Done e1" using l by (auto simp: matchLimitLocked_def)
  have s: "(match_step limit_break r)\<^sup>*\<^sup>* e e1" and fin: "match_end limit_break r e1"
    using match_loop_refines [OF m t(1)] by simp_all
  have u1: "uncrossed e1" by (rule match_loop_uncrossed [OF m t(1,4)])
  have t1: "taking r e1" by (rule match_steps_taking [OF s t(1)])
  have st: "same_terms (store e r) (store e1 r)" by (rule match_steps_terms [OF s t(1)])
  have p1: "o_Price (store e1 r) \<noteq> None" using st t(2) by (simp add: same_terms_def)
  have "stp_mode_of e1 (store e1 r) = stp_mode_of e (store e r)"
    using st match_steps_frame [OF s] by (intro stp_mode_of_cong) (simp_all add: same_terms_def)
  then have mode: "stp_mode_of e1 (store e1 r) \<in> {STPDisabled, STPCancelMaker}"
    using t(3) by (simp add: stp_safe_def)
  show ?thesis
  proof (cases "0 < bf_sign (rem_q (store e1 r)) \<and> o_TIF (store e1 r) = GTC")
    case True
    then have "clears r e1" using match_end_clears [OF fin _ mode t1 p1] by simp
    moreover obtain e2 where "addLocked r e1 = Done e2"
      "e' = (if o_Status (store e2 r) \<noteq> PartiallyFilled then set_status New r e2 else e2)"
      using l m True by (auto simp: matchLimitLocked_def)
    ultimately show ?thesis using addLocked_uncrossed [OF t1 p1 u1] by simp
  next
    case False
    then show ?thesis using l m u1 by (auto simp: matchLimitLocked_def)
  qed
qed

lemma matchMarket_uncrossed:
  "taking r e \<Longrightarrow> uncrossed e \<Longrightarrow> matchMarketLocked fuel r e = Done e' \<Longrightarrow> uncrossed e'"
  by (auto simp: matchMarketLocked_def intro!: uncrossed_lapse intro: match_loop_uncrossed)

lemma matchIOC_uncrossed:
  "taking r e \<Longrightarrow> uncrossed e \<Longrightarrow> matchIOCLocked fuel r e = Done e' \<Longrightarrow> uncrossed e'"
  by (auto simp: matchIOCLocked_def intro!: uncrossed_lapse intro: match_loop_uncrossed)

lemma matchFOK_uncrossed:
  assumes "taking r e" "o_Price (store e r) \<noteq> None" "stp_safe e (store e r)" "uncrossed e"
    and l: "matchFOKLocked fuel r e = Done e'"
  shows "uncrossed e'"
  using l matchLimit_uncrossed [OF assms(1-4)] assms(4)
  by (auto simp: matchFOKLocked_def split: if_splits)

lemma matchPostOnly_uncrossed:
  assumes t: "taking r e" "uncrossed e" and side: "o_Side (store e r) \<in> {Buy, Sell}"
    and l: "matchPostOnlyLocked r e = Done e'"
  shows "uncrossed e'"
proof (cases "case o_Price (store e r) of None \<Rightarrow> True | Some p \<Rightarrow> bf_sign p \<le> 0")
  case True
  then have "e' = reject_count (set_status Rejected r e)"
    using l by (auto simp: matchPostOnlyLocked_def split: option.splits)
  then show ?thesis using t(2) by simp
next
  case False
  then obtain p where p: "o_Price (store e r) = Some p" "\<not> bf_sign p \<le> 0" by (auto split: option.splits)
  have wf: "book_wf e" using t by (simp add: taking_def)
  define sd where "sd = o_Side (store e r)"
  from bestOpposite_ok [OF wf, of sd] obtain b e1 where
    b: "bestOppositeLocked sd e = Done (b, e1)" "cleaned (side_Opposite sd) e e1"
      "best_spec (side_Opposite sd) e1 b" by blast
  have t1: "taking r e1" using t(1) b(2) by (rule taking_cleaned)
  have st: "store e1 = store e" using b(2) by (rule cleaned_simps)
  have s1: "match_step limit_break r e e1" using b(2) by (auto simp: sd_def intro: match_step.drop_stale)
  have u1: "uncrossed e1" using match_step_thins [OF s1 t(1)] t(2) by (rule thins_uncrossed)
  define cross where "cross = (case b of None \<Rightarrow> Done False
      | Some m \<Rightarrow>
          if o_Side (store e1 r) = Buy then obind (price_cmp (o_Price (store e1 m)) (Some p)) (\<lambda>c. Done (c \<le> 0))
          else if o_Side (store e1 r) = Sell
          then obind (price_cmp (o_Price (store e1 m)) (Some p)) (\<lambda>c. Done (0 \<le> c))
          else Done False)"
  have res: "matchPostOnlyLocked r e = obind cross (\<lambda>w. if w then Done (reject_count (set_status Rejected r e1))
      else obind (addLocked r e1) (\<lambda>e2. Done (set_status New r e2)))"
    using p b(1) by (simp add: matchPostOnlyLocked_def cross_def sd_def [symmetric] st)
  then obtain w where w: "cross = Done w" using l by (cases cross) simp_all
  show ?thesis
  proof (cases w)
    case True
    then show ?thesis using l res w u1 by auto
  next
    case nw: False
    then obtain e2 where e2: "addLocked r e1 = Done e2" "e' = set_status New r e2" using l res w by auto
    have "clears r e1" unfolding clears_def
    proof (intro ballI impI)
      fix x assume x: "x \<in> set (side_heap (side_Opposite (o_Side (store e1 r))) e1)" "is_live e1 x"
      then obtain m where m: "b = Some m" using b(3) by (cases b) (auto simp: best_spec_def st sd_def)
      obtain q where q: "o_Price (store e1 m) = Some q" using trade_step_mapped(4) [OF t1] b(3) m by auto
      have "\<not> order_lt (side_Opposite sd) (store e1) x m" using b(3) m x by (simp add: best_spec_def st sd_def)
      moreover have "if sd = Buy then bval p < bval q else bval q < bval p"
        using w nw m q side by (auto simp: cross_def st sd_def price_cmp_def split: if_splits)
      moreover have "price_of (store e1 m) = bval q" "price_of (store e1 r) = bval p"
        using p(1) q by (simp_all add: price_of_def st)
      ultimately show "if o_Side (store e1 r) = Buy then price_of (store e1 r) < price_of (store e1 x)
          else price_of (store e1 x) < price_of (store e1 r)"
        using side by (auto simp: order_lt_def side_Opposite.simps sd_def st split: if_splits)
    qed
    then show ?thesis using addLocked_uncrossed [OF t1 _ u1 _ e2(1)] p st e2(2) by simp
  qed
qed

lemma uncrossed_upd_type: "uncrossed e \<Longrightarrow> uncrossed (upd_order r (\<lambda>v. v\<lparr>o_Type := ty\<rparr>) e)"
  by (erule uncrossed_same) auto

lemma stp_safe_simps [simp]:
  "stp_safe (upd_order r f e) v = stp_safe e v" "stp_safe e (v\<lparr>o_Type := ty\<rparr>) = stp_safe e v"
  by (simp_all add: stp_safe_def stp_mode_of_def)

lemma activated_uncrossed:
  assumes t: "taking r e" "stp_safe e (store e r)" "uncrossed e"
    and l: "isLimit \<Longrightarrow> o_Price (store e r) \<noteq> None"
    and res: "(if isLimit then matchLimitLocked fuel r (upd_order r (\<lambda>v. v\<lparr>o_Type := Limit\<rparr>) e)
       else matchMarketLocked fuel r (upd_order r (\<lambda>v. v\<lparr>o_Type := Market\<rparr>) e)) = Done e'"
  shows "uncrossed e'"
proof (cases isLimit)
  case True
  show ?thesis
    by (rule matchLimit_uncrossed [OF taking_upd_type [OF t(1)]])
      (use True res l t(2,3) uncrossed_upd_type in auto)
next
  case False
  show ?thesis
    by (rule matchMarket_uncrossed [OF taking_upd_type [OF t(1)]])
      (use False res t(3) uncrossed_upd_type in auto)
qed

lemma uncrossed_addStop:
  assumes "uncrossed e" "r \<notin> heap_refs e"
  shows "uncrossed (addStop r e)"
proof (rule uncrossed_same [OF assms(1)])
  fix x assume "x \<in> heap_refs e"
  then have "x \<noteq> r" using assms(2) by auto
  then show "o_ID (store (addStop r e) x) = o_ID (store e x) \<and> o_Price (store (addStop r e) x) = o_Price (store e x) \<and>
      rem_q (store (addStop r e) x) = rem_q (store e x)"
    by (simp add: store_addStop store_next_seq)
qed simp_all

lemma matchStop_uncrossed:
  assumes t: "taking r e" "stp_safe e (store e r)" "uncrossed e"
    and l: "isLimit \<Longrightarrow> o_Price (store e r) \<noteq> None" and res: "matchStopLocked fuel isLimit r e = Done e'"
  shows "uncrossed e'"
proof -
  have nr: "r \<notin> heap_refs e" using t(1) by (simp add: taking_def off_book_def)
  consider "e' = reject_count (set_status Rejected r e)"
    | "(if isLimit then matchLimitLocked fuel r (upd_order r (\<lambda>v. v\<lparr>o_Type := Limit\<rparr>) e)
       else matchMarketLocked fuel r (upd_order r (\<lambda>v. v\<lparr>o_Type := Market\<rparr>) e)) = Done e'"
    | "e' = set_status New r (addStop r e)"
  proof (cases "case o_StopPrice (store e r) of None \<Rightarrow> True | Some p \<Rightarrow> bf_sign p \<le> 0")
    case True
    then show ?thesis using res that(1) by (simp add: matchStopLocked_def)
  next
    case False
    then obtain c where "triggerStopLocked e (store e r) = Done c" using res by (auto simp: matchStopLocked_def)
    then show ?thesis using res False that(2,3) by (cases c) (simp_all add: matchStopLocked_def)
  qed
  then show ?thesis
  proof cases
    case 2
    then show ?thesis using activated_uncrossed [OF t, of isLimit] l by blast
  next
    case 3
    then show ?thesis using uncrossed_addStop [OF t(3) nr] by simp
  qed (simp add: t(3))
qed

text \<open>All strategies together, for orders of the two real sides.\<close>

lemma dispatch_uncrossed:
  assumes t: "taking r e" "stp_safe e (store e r)" "uncrossed e" and v: "order_ok (store e r)"
    and side: "o_Side (store e r) \<in> {Buy, Sell}" and res: "dispatch fuel r e = Done e'"
  shows "uncrossed e'"
proof (cases "o_Type (store e r) \<in> {Market, ImmediateOrCancel, StopLoss, PostOnly}")
  case True
  have "matchStopLocked fuel False r e = Done e' \<Longrightarrow> uncrossed e'"
    by (rule matchStop_uncrossed [OF t, of False]) simp_all
  then show ?thesis using True res matchMarket_uncrossed [OF t(1,3)] matchIOC_uncrossed [OF t(1,3)]
      matchPostOnly_uncrossed [OF t(1,3) side]
    by (auto simp: dispatch_def)
next
  case False
  then have p: "o_Price (store e r) \<noteq> None" using v by (simp add: order_ok_def)
  have stop: "matchStopLocked fuel True r e = Done e' \<Longrightarrow> uncrossed e'"
    by (rule matchStop_uncrossed [OF t, of True]) (simp_all add: p)
  have "o_Type (store e r) \<noteq> Iceberg" using v by (simp add: order_ok_def)
  then show ?thesis using False res stop matchLimit_uncrossed [OF t(1) p t(2,3)] matchFOK_uncrossed [OF t(1) p t(2,3)]
    by (cases "o_Type (store e r)") (simp_all add: dispatch_def)
qed

lemma uncrossed_close_done: "uncrossed e \<Longrightarrow> close_done r e = Done e' \<Longrightarrow> uncrossed e'"
  by (auto simp: close_done_def split: done_chan.splits intro: uncrossed_same)

lemma uncrossed_upd_time [simp]: "uncrossed e \<Longrightarrow> uncrossed (upd_order r (\<lambda>v. v\<lparr>o_UpdatedAt := t\<rparr>) e)"
  by (erule uncrossed_same) auto

lemma uncrossed_frame: "uncrossed (e :: engine) \<Longrightarrow> book.truncate e' = book.truncate e \<Longrightarrow> uncrossed (e' :: engine)"
  by (erule uncrossed_same) (simp_all add: book.defs)

lemma processOrder_uncrossed_aux:
  assumes wf: "engine_wf e" "fresh r e" "order_ok (store e r)" and u: "uncrossed e" "stp_safe e (store e r)"
    and side: "o_Side (store e r) \<in> {Buy, Sell}" and res: "processOrder fuel r e = Done e'"
  shows "uncrossed e'"
  using res
proof (cases rule: processOrder_cases)
  case (journal err w)
  have "uncrossed (markWALFailure (e\<lparr>e_wal := w\<rparr>))"
    by (rule uncrossed_frame [OF u(1)]) (simp add: markWALFailure_def upd_stats_def book.defs)
  then have "uncrossed (upd_order r (\<lambda>v. v\<lparr>o_Status := Rejected, o_Err := Some WalAppendFailed\<rparr>) (markWALFailure (e\<lparr>e_wal := w\<rparr>)))"
    by (rule uncrossed_same) auto
  then show ?thesis using uncrossed_close_done [OF _ journal(2)] by simp
next
  case (empty w)
  have "uncrossed (e\<lparr>e_wal := w\<rparr>)" by (rule uncrossed_frame [OF u(1)]) (simp add: book.defs)
  then show ?thesis by (simp add: empty)
next
  case (matched w e2 e3)
  define e0 where "e0 = e\<lparr>e_wal := w\<rparr>"
  have e0: "engine_wf e0" "fresh r e0" "order_ok (store e0 r)" "uncrossed e0"
    using wf u(1) by (auto simp: e0_def fresh_def off_book_def heap_refs_def book.defs intro: engine_wf_frame uncrossed_frame)
  have q: "\<not> (case o_Quantity (store e0 r) of None \<Rightarrow> True | Some q \<Rightarrow> bf_sign q \<le> 0)"
    using matched(2) by (simp add: e0_def)
  note rd = ready_ok [OF e0(1-3) q]
  have t: "taking r (ready r e0)" using rd by (simp add: engine_wf_def fresh_def resting_ok_taking)
  have nr: "r \<notin> heap_refs e0" using e0(2) by (simp add: fresh_def off_book_def)
  have "uncrossed (ready r e0)" by (rule uncrossed_same [OF e0(4)]) (use nr in \<open>auto simp: ready_def\<close>)
  moreover have "stp_safe (ready r e0) (store (ready r e0) r)" "o_Side (store (ready r e0) r) \<in> {Buy, Sell}"
    using u(2) side by (auto simp: ready_def e0_def stp_safe_def stp_mode_of_def split: if_splits)
  ultimately have "uncrossed e2"
    using dispatch_uncrossed [OF t _ _ rd(5)] matched(3) by (simp add: e0_def)
  then have "uncrossed e3" unfolding matched(4)
    by (auto intro: uncrossed_frame simp: upd_stats_def book.defs)
  then show ?thesis using uncrossed_close_done [OF _ matched(5)] by simp
qed

end
