(* ===== verification/Engine_Behaviour.thy ===== *)
theory Engine_Behaviour
  imports Engine_Safety
begin

text \<open>
  Consequences for whole operations: quantities over \<open>processOrder\<close>, cancels, the user index,
  and the runs in which the matching loop does not end or ends in a surprising state.
\<close>

section \<open>Quantities over a whole order\<close>

definition conserves :: "engine \<Rightarrow> engine \<Rightarrow> bool" where
  "conserves e e' \<longleftrightarrow> (\<forall>x g. (exact_order g (store e x) \<longrightarrow> exact_order g (store e' x)) \<and>
     total_qty (store e' x) = total_qty (store e x))"

lemma conserves_refl [simp]: "conserves e e"
  by (simp add: conserves_def)

lemma conserves_trans [trans]: "conserves e f \<Longrightarrow> conserves f h \<Longrightarrow> conserves e h"
  by (simp add: conserves_def)

lemma conserves_same:
  "(\<And>x. o_FilledQty (store e' x) = o_FilledQty (store e x) \<and> o_RemainingQty (store e' x) = o_RemainingQty (store e x)) \<Longrightarrow>
   conserves e e'"
  by (simp add: conserves_def exact_order_def total_qty_def rem_q_def)

lemma conserves_addLocked: "addLocked r e = Done e' \<Longrightarrow> conserves e e'"
  by (rule conserves_same) (auto simp: addLocked_def Let_def store_next_seq)

lemma conserves_status [simp]: "conserves e (set_status x r e)" "conserves e (lapse r e)"
  "conserves e (reject_count e)" "conserves e (reject_count (set_status x r e))"
  by (auto intro!: conserves_same simp: lapse_def)

lemma conserves_match:
  assumes "match_loop brk n r e = Done e'" "taking r e" "\<forall>x \<in> insert r (heap_refs e). exact_order g (store e x)"
  shows "(exact_order g (store e x) \<longrightarrow> exact_order g (store e' x)) \<and> total_qty (store e' x) = total_qty (store e x)"
  using match_steps_exact [OF _ assms(2,3)] match_loop_refines [OF assms(1,2)] by blast

definition keeps_qty :: "int \<Rightarrow> engine \<Rightarrow> engine \<Rightarrow> bool" where
  "keeps_qty g e e' \<longleftrightarrow> (\<forall>x. (exact_order g (store e x) \<longrightarrow> exact_order g (store e' x)) \<and>
     total_qty (store e' x) = total_qty (store e x))"

lemma keeps_match:
  "match_loop brk n r e = Done e' \<Longrightarrow> taking r e \<Longrightarrow> \<forall>x \<in> insert r (heap_refs e). exact_order g (store e x) \<Longrightarrow>
   keeps_qty g e e'"
  unfolding keeps_qty_def using conserves_match by blast

lemma keeps_then: "keeps_qty g e f \<Longrightarrow> conserves f h \<Longrightarrow> keeps_qty g e h"
  by (simp add: keeps_qty_def conserves_def)

lemma conserves_keeps: "conserves e f \<Longrightarrow> keeps_qty g f h \<Longrightarrow> keeps_qty g e h"
  by (simp add: keeps_qty_def conserves_def)

lemma conserves_imp: "conserves e f \<Longrightarrow> keeps_qty g e f"
  by (simp add: keeps_qty_def conserves_def)

text \<open>Every strategy but the iceberg's keeps every order's total.\<close>

lemma matchLimit_keeps:
  assumes t: "taking r e" and ex: "\<forall>x \<in> insert r (heap_refs e). exact_order g (store e x)" and l: "matchLimitLocked fuel r e = Done e'"
  shows "keeps_qty g e e'"
proof -
  obtain e1 where m: "match_loop limit_break fuel r e = Done e1" using l by (auto simp: matchLimitLocked_def)
  have k: "keeps_qty g e e1" by (rule keeps_match [OF m t ex])
  have "conserves e1 e'"
  proof (cases "0 < bf_sign (rem_q (store e1 r)) \<and> o_TIF (store e1 r) = GTC")
    case True
    then obtain e2 where e2: "addLocked r e1 = Done e2"
      "e' = (if o_Status (store e2 r) \<noteq> PartiallyFilled then set_status New r e2 else e2)"
      using l m by (auto simp: matchLimitLocked_def)
    have "conserves e2 e'" using e2(2) by simp
    then show ?thesis using conserves_addLocked [OF e2(1)] conserves_trans by blast
  next
    case False
    then show ?thesis using l m by (auto simp: matchLimitLocked_def)
  qed
  with k show ?thesis by (rule keeps_then)
qed

lemma matchMarket_keeps:
  assumes t: "taking r e" and ex: "\<forall>x \<in> insert r (heap_refs e). exact_order g (store e x)" and l: "matchMarketLocked fuel r e = Done e'"
  shows "keeps_qty g e e'"
  using l by (auto simp: matchMarketLocked_def intro: keeps_then [OF keeps_match [OF _ t ex]])

lemma matchIOC_keeps:
  assumes t: "taking r e" and ex: "\<forall>x \<in> insert r (heap_refs e). exact_order g (store e x)" and l: "matchIOCLocked fuel r e = Done e'"
  shows "keeps_qty g e e'"
  using l by (auto simp: matchIOCLocked_def intro: keeps_then [OF keeps_match [OF _ t ex]])

lemma matchFOK_keeps:
  assumes t: "taking r e" and ex: "\<forall>x \<in> insert r (heap_refs e). exact_order g (store e x)" and l: "matchFOKLocked fuel r e = Done e'"
  shows "keeps_qty g e e'"
  using l by (auto simp: matchFOKLocked_def split: if_splits
      intro: conserves_imp keeps_then matchLimit_keeps [OF t ex])

lemma matchPostOnly_keeps:
  assumes t: "taking r e" and ex: "\<forall>x \<in> insert r (heap_refs e). exact_order g (store e x)" and l: "matchPostOnlyLocked r e = Done e'"
  shows "keeps_qty g e e'"
proof -
  have "conserves e e'"
  proof (cases "case o_Price (store e r) of None \<Rightarrow> True | Some p \<Rightarrow> bf_sign p \<le> 0")
    case True
    then have "e' = reject_count (set_status Rejected r e)"
      using l by (auto simp: matchPostOnlyLocked_def split: option.splits)
    then show ?thesis by simp
  next
    case False
    then obtain p where p: "o_Price (store e r) = Some p" "\<not> bf_sign p \<le> 0" by (auto split: option.splits)
    have "book_wf e" using t by (simp add: taking_def)
    from bestOpposite_ok [OF this, of "o_Side (store e r)"] obtain b e1 where
      b: "bestOppositeLocked (o_Side (store e r)) e = Done (b, e1)"
        "cleaned (side_Opposite (o_Side (store e r))) e e1" by blast
    have "conserves e e1" by (rule conserves_same) (simp add: cleaned_simps [OF b(2)])
    moreover consider "e' = reject_count (set_status Rejected r e1)"
      | e2 where "addLocked r e1 = Done e2" "e' = set_status New r e2"
      using l p b(1) by (auto simp: matchPostOnlyLocked_def split: if_splits)
    then have "conserves e1 e'" by cases (auto intro: conserves_trans conserves_addLocked)
    ultimately show ?thesis by (rule conserves_trans)
  qed
  then show ?thesis by (rule conserves_imp)
qed

lemma exact_upd_type:
  "\<forall>x \<in> insert r (heap_refs e). exact_order g (store e x) \<Longrightarrow>
   \<forall>x \<in> insert r (heap_refs (upd_order r (\<lambda>v. v\<lparr>o_Type := ty\<rparr>) e)). exact_order g (store (upd_order r (\<lambda>v. v\<lparr>o_Type := ty\<rparr>) e) x)"
  by (auto simp: exact_order_def)

lemma matchStop_keeps:
  assumes t: "taking r e" and ex: "\<forall>x \<in> insert r (heap_refs e). exact_order g (store e x)"
    and res: "matchStopLocked fuel isLimit r e = Done e'"
  shows "keeps_qty g e e'"
proof (cases "case o_StopPrice (store e r) of None \<Rightarrow> True | Some p \<Rightarrow> bf_sign p \<le> 0")
  case True
  then have "e' = reject_count (set_status Rejected r e)" using res by (simp add: matchStopLocked_def)
  then show ?thesis by (simp add: conserves_imp)
next
  case False
  then obtain c where c: "triggerStopLocked e (store e r) = Done c" using res by (auto simp: matchStopLocked_def)
  show ?thesis
  proof (cases c)
    case True
    have ty: "conserves e (upd_order r (\<lambda>v. v\<lparr>o_Type := ty\<rparr>) e)" for ty by (rule conserves_same) simp
    show ?thesis
    proof (cases isLimit)
      case lim: True
      then have "matchLimitLocked fuel r (upd_order r (\<lambda>v. v\<lparr>o_Type := Limit\<rparr>) e) = Done e'"
        using res False c True by (simp add: matchStopLocked_def)
      then show ?thesis using matchLimit_keeps [OF taking_upd_type [OF t] exact_upd_type [OF ex]] ty
        by (blast intro: conserves_keeps)
    next
      case lim: False
      then have "matchMarketLocked fuel r (upd_order r (\<lambda>v. v\<lparr>o_Type := Market\<rparr>) e) = Done e'"
        using res False c True by (simp add: matchStopLocked_def)
      then show ?thesis using matchMarket_keeps [OF taking_upd_type [OF t] exact_upd_type [OF ex]] ty
        by (blast intro: conserves_keeps)
    qed
  next
    case nc: False
    then have "e' = set_status New r (addStop r e)" using res False c by (simp add: matchStopLocked_def)
    moreover have "conserves e (addStop r e)"
      by (rule conserves_same) (simp add: store_addStop store_next_seq)
    ultimately show ?thesis using conserves_trans conserves_status(1) by (blast intro: conserves_imp)
  qed
qed

lemma dispatch_keeps:
  assumes t: "taking r e" and ex: "\<forall>x \<in> insert r (heap_refs e). exact_order g (store e x)"
    and ty: "o_Type (store e r) \<noteq> Iceberg" and res: "dispatch fuel r e = Done e'"
  shows "keeps_qty g e e'"
  using ty res matchMarket_keeps [OF t ex] matchLimit_keeps [OF t ex] matchFOK_keeps [OF t ex]
    matchIOC_keeps [OF t ex] matchStop_keeps [OF t ex] matchPostOnly_keeps [OF t ex]
  by (cases "o_Type (store e r)") (simp_all add: dispatch_def)

lemma conserves_close: "close_done r e = Done e' \<Longrightarrow> conserves e e'"
  by (rule conserves_same) (auto simp: close_done_def split: done_chan.splits)

lemma processOrder_keeps:
  assumes wf: "engine_wf e" "fresh r e" "order_ok (store e r)"
    and ex: "\<forall>x \<in> insert r (heap_refs e). exact_order g (store e x)" and pos: "0 < bval (rem_q (store e r))"
    and res: "processOrder fuel r e = Done e'"
  shows "keeps_qty g e e'"
  using res
proof (cases rule: processOrder_cases)
  case (journal err w)
  have "conserves e (upd_order r (\<lambda>v. v\<lparr>o_UpdatedAt := clock e\<rparr>) (reject_count
            (upd_order r (\<lambda>v. v\<lparr>o_Status := Rejected, o_Err := Some WalAppendFailed\<rparr>)
              (markWALFailure (e\<lparr>e_wal := w\<rparr>)))))"
    by (rule conserves_same) (simp add: markWALFailure_def)
  then show ?thesis using conserves_close [OF journal(2)] by (blast intro: conserves_imp conserves_trans)
next
  case (empty w)
  have "conserves e e'" unfolding empty by (rule conserves_same) simp
  then show ?thesis by (rule conserves_imp)
next
  case (matched w e2 e3)
  define e0 where "e0 = e\<lparr>e_wal := w\<rparr>"
  have "o_RemainingQty (store e0 r) \<noteq> None" "0 < bval (rem_q (store e0 r))"
    using ex pos by (auto simp: exact_order_def e0_def)
  then have same: "ready r e0 = e0" by (auto simp: ready_def rem_q_def)
  have e0: "engine_wf e0" "fresh r e0" "\<forall>x \<in> insert r (heap_refs e0). exact_order g (store e0 x)"
    using wf ex by (auto simp: e0_def fresh_def off_book_def heap_refs_def book.defs intro: engine_wf_frame)
  have s: "sized (store e0 r)" using e0(3) exact_sized by blast
  have t: "taking r e0" using e0(1,2) s by (simp add: engine_wf_def fresh_def resting_ok_taking)
  have ty: "o_Type (store e0 r) \<noteq> Iceberg" using wf(3) by (simp add: order_ok_def e0_def)
  have "conserves e e0" by (rule conserves_same) (simp add: e0_def)
  moreover have "keeps_qty g e0 e2"
    using dispatch_keeps [OF t e0(3) ty] matched(3) same by (simp add: e0_def)
  moreover have "conserves e2 (upd_order r (\<lambda>v. v\<lparr>o_UpdatedAt := clock e3\<rparr>) e3)"
    by (rule conserves_same) (simp add: matched(4))
  ultimately show ?thesis using conserves_close [OF matched(5)]
    by (blast intro: conserves_keeps keeps_then conserves_trans)
qed

section \<open>Cancels and the user index\<close>

text \<open>The orders \<open>GetOrdersByUser\<close> returns are the user's open orders, once each.\<close>

lemma set_GetOrdersByUser:
  assumes wf: "book_wf s"
  shows "set (GetOrdersByUser u s) = {r. \<exists>i. gm_get (orders s) i = Some r \<and> o_UserID (store s r) = u}"
proof -
  have ix: "indexed s u i \<longleftrightarrow> (\<exists>r. gm_get (orders s) i = Some r \<and> o_UserID (store s r) = u)" for i
    using wf by (simp add: book_wf_def index_ok_def)
  show ?thesis
  proof (cases "gm_get (userOrders s) u")
    case None
    then show ?thesis using ix by (auto simp: GetOrdersByUser_def indexed_def)
  next
    case (Some ids)
    have w: "gm_wf ids" using wf Some by (auto simp: book_wf_def index_ok_def)
    have mem: "i \<in> fst ` set ids \<longleftrightarrow> indexed s u i" for i
      using Some by (simp add: indexed_def map_of_eq_None_iff)
    have "set (GetOrdersByUser u s) = {r. \<exists>i \<in> fst ` set ids. gm_get (orders s) i = Some r}"
      by (force simp: GetOrdersByUser_def Some List.map_filter_def)
    also have "... = {r. \<exists>i. gm_get (orders s) i = Some r \<and> o_UserID (store s r) = u}"
      by (simp only: Bex_def mem ix) auto
    finally show ?thesis .
  qed
qed

lemma ids_of_refs:
  assumes "book_wf s" "gm_get (orders s) i = Some r"
  shows "o_ID (store s r) = i"
  using assms by (auto simp: book_wf_def orders_ok_def)

lemma distinct_GetOrdersByUser:
  assumes wf: "book_wf s"
  shows "distinct (map (\<lambda>r. o_ID (store s r)) (GetOrdersByUser u s))"
proof (cases "gm_get (userOrders s) u")
  case None
  then show ?thesis by (simp add: GetOrdersByUser_def)
next
  case (Some ids)
  have w: "gm_wf ids" using wf Some by (auto simp: book_wf_def index_ok_def)
  have eq: "map (\<lambda>r. o_ID (store s r)) (List.map_filter (\<lambda>(i, u). gm_get (orders s) i) xs) =
      filter (\<lambda>i. gm_get (orders s) i \<noteq> None) (map fst xs)" for xs
    by (induction xs) (auto simp: List.map_filter_simps ids_of_refs [OF wf])
  show ?thesis unfolding GetOrdersByUser_def Some option.case eq by (rule distinct_filter [OF w])
qed

text \<open>A journal that accepts the next record: none at all, or one whose next write meets no fault.\<close>

definition journal_ok :: "engine \<Rightarrow> bool" where
  "journal_ok e \<longleftrightarrow> (case e_wal e of None \<Rightarrow> True | Some w \<Rightarrow> \<not> w_bwerr w \<and> e_io e = NoFault)"

lemma AppendRecord_ok:
  assumes "journal_ok e"
  shows "\<exists>w. AppendRecord (e_io e) now rc (e_wal e) = (None, w) \<and> journal_ok (e\<lparr>e_wal := w\<rparr>)"
  using assms
  by (auto simp: journal_ok_def AppendRecord_def wal_append_def maybeSync_def Let_def split: option.splits)

lemma removeLocked_journal [simp]:
  "e_wal (snd (removeLocked i e)) = e_wal e" "e_io (snd (removeLocked i e)) = e_io e"
  by (auto simp: removeLocked_def indexRemove_def upd_order_def Let_def split: option.split)

text \<open>A journaled cancel, case by case.\<close>

lemma processCancel_cases:
  assumes j: "journal_ok e"
  shows "\<exists>w. let e0 = e\<lparr>e_wal := w\<rparr> in journal_ok e0 \<and>
    processCancel oid uid e =
      (case gm_get (orders e) oid of
         None \<Rightarrow> (Inl OrderNotFound, e0)
       | Some r \<Rightarrow> if uid \<noteq> [] \<and> o_UserID (store e r) \<noteq> uid then (Inl OrderNotOwned, e0)
           else (Inr r, upd_stats (\<lambda>t. t\<lparr>OrdersCancelled := OrdersCancelled t + 1\<rparr>)
                   (snd (removeLocked (o_ID (store e r)) e0))))"
proof -
  obtain w where "AppendCancel (e_io e) (clock e) oid uid (e_wal e) = (None, w)" "journal_ok (e\<lparr>e_wal := w\<rparr>)"
    using AppendRecord_ok [OF j] by (auto simp: AppendCancel_def)
  then show ?thesis by (intro exI [of _ w]) (simp add: processCancel_def Let_def split: option.split)
qed

lemma cancel_each_ok:
  assumes "engine_wf e" "journal_ok e" "distinct (map (\<lambda>r. o_ID (store e r)) rs)"
    and "\<forall>r \<in> set rs. gm_get (orders e) (o_ID (store e r)) = Some r \<and> o_UserID (store e r) = uid"
  shows "\<exists>e'. cancel_each rs uid n e = (n + length rs, e') \<and> engine_wf e' \<and>
    (\<forall>i. gm_get (orders e') i = (if i \<in> (\<lambda>r. o_ID (store e r)) ` set rs then None else gm_get (orders e) i)) \<and>
    (\<forall>r \<in> set rs. o_Status (store e' r) = Cancelled) \<and> (\<forall>r. r \<notin> set rs \<longrightarrow> store e' r = store e r)"
  using assms
proof (induction rs arbitrary: n e)
  case (Cons r rs)
  have g: "gm_get (orders e) (o_ID (store e r)) = Some r" "o_UserID (store e r) = uid" using Cons.prems(4) by simp_all
  from processCancel_cases [OF Cons.prems(2), of "o_ID (store e r)" uid] obtain w where
    w: "journal_ok (e\<lparr>e_wal := w\<rparr>)" "processCancel (o_ID (store e r)) uid e =
       (Inr r, upd_stats (\<lambda>t. t\<lparr>OrdersCancelled := OrdersCancelled t + 1\<rparr>)
                   (snd (removeLocked (o_ID (store e r)) (e\<lparr>e_wal := w\<rparr>))))"
    using g by (auto simp: Let_def)
  define e1 where "e1 = upd_stats (\<lambda>t. t\<lparr>OrdersCancelled := OrdersCancelled t + 1\<rparr>)
                   (snd (removeLocked (o_ID (store e r)) (e\<lparr>e_wal := w\<rparr>)))"
  have e1: "processCancel (o_ID (store e r)) uid e = (Inr r, e1)" using w(2) by (simp add: e1_def)
  have st: "store e1 = (store e)(r := (store e r)\<lparr>o_Status := Cancelled, o_UpdatedAt := clock e\<rparr>)"
    using g by (simp add: e1_def store_removeLocked)
  have ord: "orders e1 = gm_del (o_ID (store e r)) (orders e)" by (simp add: e1_def)
  have same: "o_ID (store e1 x) = o_ID (store e x)" "o_UserID (store e1 x) = o_UserID (store e x)" for x
    by (simp_all add: st)
  have "engine_wf e1" using processCancel_wf [OF Cons.prems(1), of "o_ID (store e r)" uid] e1 by simp
  moreover have "journal_ok e1" using w(1) by (cases w) (simp_all add: e1_def journal_ok_def)
  moreover have "distinct (map (\<lambda>r. o_ID (store e1 r)) rs)" using Cons.prems(3) by (simp add: same)
  moreover have "\<forall>x \<in> set rs. gm_get (orders e1) (o_ID (store e1 x)) = Some x \<and> o_UserID (store e1 x) = uid"
  proof
    fix x assume x: "x \<in> set rs"
    then have "o_ID (store e x) \<noteq> o_ID (store e r)" using Cons.prems(3) by (force simp: image_iff)
    then show "gm_get (orders e1) (o_ID (store e1 x)) = Some x \<and> o_UserID (store e1 x) = uid"
      using Cons.prems(4) x by (simp add: same ord)
  qed
  ultimately obtain e' where e': "cancel_each rs uid (Suc n) e1 = (Suc n + length rs, e')" "engine_wf e'"
    "\<forall>i. gm_get (orders e') i = (if i \<in> (\<lambda>r. o_ID (store e1 r)) ` set rs then None else gm_get (orders e1) i)"
    "\<forall>x \<in> set rs. o_Status (store e' x) = Cancelled" "\<forall>x. x \<notin> set rs \<longrightarrow> store e' x = store e1 x"
    using Cons.IH by blast
  have nr: "r \<notin> set rs" using Cons.prems(3) by auto
  show ?case
  proof (intro exI [of _ e'] conjI allI ballI impI)
    show "cancel_each (r # rs) uid n e = (n + length (r # rs), e')" using e1 e'(1) by simp
    show "engine_wf e'" by (rule e'(2))
    show "gm_get (orders e') i = (if i \<in> (\<lambda>r. o_ID (store e r)) ` set (r # rs) then None else gm_get (orders e) i)" for i
      using e'(3) by (simp add: same ord)
    show "o_Status (store e' x) = Cancelled" if "x \<in> set (r # rs)" for x
      using that e'(4,5) nr st by auto
    show "store e' x = store e x" if "x \<notin> set (r # rs)" for x using that e'(5) st by simp
  qed
qed simp

section \<open>Runs that do not end\<close>

text \<open>Under a self-trade mode with no named constant the loop spins on the taker's own order.\<close>

lemma best_stays:
  assumes "bestOppositeLocked (o_Side (store e r)) e = Done (Some m, e)"
    and "0 < bval (rem_q (store e r))" "brk (store e r) (store e m) = Done False"
    and "isSelfTrade e (store e r) (store e m)" "stp_mode_of e (store e r) = OtherSTP k"
  shows "match_loop brk n r e = OutOfFuel"
proof (induction n)
  case (Suc n)
  have "applySTP r m e = (True, e)" using assms(5) by (simp add: applySTP_def)
  then show ?case unfolding match_loop.simps assms(1,3) obind.simps prod.case option.case
    using assms(2,4) Suc by simp
qed simp

text \<open>An iceberg whose slice finds nothing to trade with shows the same slice for ever.\<close>

lemma ice_absorb_zero:
  assumes "o_FilledQty vis = newBigFloat" "bprec (o_FilledQty v) = 128" "bf_ok (o_FilledQty v)"
    and "o_RemainingQty v \<noteq> None" "bf_ok (rem_q v)" "0 < bprec (rem_q v)" "0 < bval (rem_q v)"
  shows "ice_absorb vis v = v \<or> (\<exists>y. 0 < bval y \<and> ice_absorb vis v = v\<lparr>o_VisibleQty := Some y\<rparr>)"
proof -
  obtain rq where rq: "o_RemainingQty v = Some rq" using assms(4) by auto
  have add: "bf_add (o_FilledQty v) (o_FilledQty v) newBigFloat = o_FilledQty v"
    using assms(2,3) by (cases "o_FilledQty v") (simp add: bf_add_def res_prec_def bf_ok_def)
  have sub: "bf_sub (rem_q v) (rem_q v) newBigFloat = rem_q v"
    using assms(5,6) by (cases "rem_q v") (simp add: bf_sub_def res_prec_def bf_ok_def)
  have v: "v\<lparr>o_FilledQty := o_FilledQty v, o_RemainingQty := Some (rem_q v)\<rparr> = v"
    using rq by (simp add: rem_q_def)
  have pos: "0 < bval (bf_set newBigFloat x)" if "0 < bval x" for x
    using that by (simp add: bf_set_def)
  have absorb: "ice_absorb vis v = (case o_IcebergQty v of
           None \<Rightarrow> v
         | Some iq \<Rightarrow>
             if 0 < bf_sign (rem_q v) \<and> 0 < bf_sign iq
             then v\<lparr>o_VisibleQty :=
                       Some (bf_set newBigFloat (if 0 \<le> bf_cmp (rem_q v) iq then iq else rem_q v))\<rparr>
             else v)"
    unfolding ice_absorb_def assms(1) add sub v Let_def ..
  show ?thesis
  proof (cases "\<exists>iq. o_IcebergQty v = Some iq \<and> 0 < bf_sign iq")
    case True
    then obtain iq where iq: "o_IcebergQty v = Some iq" "0 < bf_sign iq" by blast
    define y where "y = bf_set newBigFloat (if 0 \<le> bf_cmp (rem_q v) iq then iq else rem_q v)"
    have "0 < bval y" unfolding y_def using iq(2) assms(7) by (intro pos) simp
    moreover have "ice_absorb vis v = v\<lparr>o_VisibleQty := Some y\<rparr>"
      unfolding absorb iq(1) option.case y_def using iq(2) assms(7) by simp
    ultimately show ?thesis by blast
  next
    case False
    then have "ice_absorb vis v = v" unfolding absorb by (cases "o_IcebergQty v") simp_all
    then show ?thesis ..
  qed
qed

lemma iceberg_stuck:
  assumes "bids e = []" "asks e = []" "0 < bval (rem_q (store e r))" "r < nextref e"
    and "\<exists>q. o_VisibleQty (store e r) = Some q \<and> 0 < bval q"
    and "bprec (o_FilledQty (store e r)) = 128" and "0 < fuel"
    and "bf_ok (o_FilledQty (store e r))"
    and "o_RemainingQty (store e r) \<noteq> None" "bf_ok (rem_q (store e r))" "0 < bprec (rem_q (store e r))"
  shows "iceberg_loop n fuel r e = OutOfFuel"
  using assms
proof (induction n arbitrary: e)
  case (Suc n)
  obtain q where vq: "o_VisibleQty (store e r) = Some q" "0 < bval q" using Suc.prems(5) by blast
  define vis where "vis = nextref e"
  define e1 where "e1 = snd (alloc (ice_slice (store e r)) e)"
  have al: "alloc (ice_slice (store e r)) e = (vis, e1)" by (simp add: e1_def vis_def alloc_def)
  have e1: "store e1 = (store e)(vis := ice_slice (store e r))" "bids e1 = []" "asks e1 = []" "nextref e1 = Suc (nextref e)"
    using Suc.prems(1,2) by (simp_all add: e1_def alloc_def vis_def)
  have rv: "r \<noteq> vis" using Suc.prems(4) by (simp add: vis_def)
  have q: "rem_q (ice_slice (store e r)) = bf_set newBigFloat q" "0 < bval (bf_set newBigFloat q)"
    using vq by (simp_all add: ice_slice_def rem_q_def newBigFloatCopy_def bf_set_def)
  have best: "bestOppositeLocked sd e1 = Done (None, e1)" for sd
    using e1 by (simp add: bestOppositeLocked_def bestAskLocked_def bestBidLocked_def bestLocked_def side_heap_def set_side_heap_def)
  obtain k where k: "fuel = Suc k" using Suc.prems(7) by (cases fuel) auto
  have "match_loop ioc_break fuel vis e1 = Done e1"
    using q best by (simp add: k e1(1))
  then have ioc: "matchIOCLocked fuel vis e1 = Done (set_status Cancelled vis e1)"
    using q by (simp add: matchIOCLocked_def lapse_def e1(1) ice_slice_def)
  define e2 where "e2 = set_status Cancelled vis e1"
  have fz: "o_FilledQty (store e2 vis) = newBigFloat" by (simp add: e2_def e1(1) ice_slice_def)
  define e3 where "e3 = upd_order r (ice_absorb (store e2 vis)) e2"
  have sr: "store e2 r = store e r" using rv by (simp add: e2_def e1(1))
  have s3: "store e3 r = ice_absorb (store e2 vis) (store e r)" by (simp add: e3_def sr)
  have "store e3 r = store e r \<or> (\<exists>y. 0 < bval y \<and> store e3 r = (store e r)\<lparr>o_VisibleQty := Some y\<rparr>)"
    unfolding s3 using Suc.prems fz by (intro ice_absorb_zero)
  then have f: "rem_q (store e3 r) = rem_q (store e r)" "o_FilledQty (store e3 r) = o_FilledQty (store e r)"
    "o_RemainingQty (store e3 r) = o_RemainingQty (store e r)" "\<exists>q. o_VisibleQty (store e3 r) = Some q \<and> 0 < bval q"
    using vq by auto
  have h: "bids e3 = []" "asks e3 = []" "r < nextref e3" using e1 Suc.prems(4) by (simp_all add: e3_def e2_def)
  have "iceberg_loop n fuel r e3 = OutOfFuel"
    by (rule Suc.IH) (simp_all only: f h Suc.prems not_False_eq_True)
  then show ?case using Suc.prems(3) vq al ioc by (simp add: e3_def e2_def)
qed simp

end
