(* ===== verification/Engine_Properties.thy ===== *)
theory Engine_Properties
  imports Engine_Behaviour
begin

text \<open>
  The properties of the matching engine and of the order book, each with a concrete run at which
  its hypotheses hold.
\<close>

section \<open>A concrete engine\<close>

text \<open>One resting sell order of alice, 5 at 100, and an incoming buy order of bob, 3 at 101.\<close>

definition demo_maker :: order where
  "demo_maker = (NewOrder ''m1'' 1 ''alice'' ''BTC/USDT'' Sell Limit (Some (BF 128 100)) (Some (BF 128 5)))\<lparr>o_bookSeq := 1\<rparr>"

definition demo_taker :: order where
  "demo_taker = NewOrder ''t1'' 2 ''bob'' ''BTC/USDT'' Buy Limit (Some (BF 128 101)) (Some (BF 128 3))"

definition demo_engine :: engine where
  "demo_engine = (NewMatchingEngine (\<lambda>r. if r = 0 then demo_maker else demo_taker) (\<lambda>n. ''trade'') ''BTC/USDT'')
     \<lparr>nextref := 2, asks := [0], orders := [(''m1'', 0)], userOrders := [(''alice'', [(''m1'', ())])], seqNo := 1\<rparr>"

lemma demo_maker_simps [simp]:
  "o_ID demo_maker = ''m1''" "o_UserID demo_maker = ''alice''" "o_Side demo_maker = Sell" "o_Type demo_maker = Limit"
  "o_Price demo_maker = Some (BF 128 100)" "o_RemainingQty demo_maker = Some (BF 128 5)" "o_bookSeq demo_maker = 1"
  "o_FilledQty demo_maker = newBigFloat" "o_STP demo_maker = STPDisabled" "rem_q demo_maker = BF 128 5"
  by (simp_all add: demo_maker_def NewOrder_def newBigFloatCopy_def bf_set_def newBigFloat_def DefaultPrecision_def rem_q_def)

lemma demo_taker_simps [simp]:
  "o_ID demo_taker = ''t1''" "o_UserID demo_taker = ''bob''" "o_Side demo_taker = Buy" "o_Type demo_taker = Limit"
  "o_Price demo_taker = Some (BF 128 101)" "o_RemainingQty demo_taker = Some (BF 128 3)" "o_bookSeq demo_taker = 0"
  "o_FilledQty demo_taker = newBigFloat" "o_STP demo_taker = STPDisabled" "rem_q demo_taker = BF 128 3"
  "o_TIF demo_taker = GTC" "o_done demo_taker = NoChan" "o_Quantity demo_taker = Some (BF 128 3)"
  by (simp_all add: demo_taker_def NewOrder_def newBigFloatCopy_def bf_set_def newBigFloat_def DefaultPrecision_def rem_q_def)

lemma demo_engine_simps [simp]:
  "bids demo_engine = []" "asks demo_engine = [0]" "orders demo_engine = [(''m1'', 0)]" "nextref demo_engine = 2"
  "stops demo_engine = []" "userOrders demo_engine = [(''alice'', [(''m1'', ())])]" "e_stp demo_engine = STPDisabled"
  "store demo_engine = (\<lambda>r. if r = 0 then demo_maker else demo_taker)" "e_wal demo_engine = None"
  "e_Trades demo_engine = []" "lastTradePrice demo_engine = Some (NewFloat 0)"
  by (simp_all add: demo_engine_def NewMatchingEngine_def book.extend_def NewOrderBook_def)

lemma demo_wf: "engine_wf demo_engine"
proof -
  have i: "indexed demo_engine u i \<longleftrightarrow> u = ''alice'' \<and> i = ''m1''" for u i by (simp add: indexed_def)
  show ?thesis
    by (simp add: engine_wf_def resting_ok_def stops_ok_def known_stp_def book_wf_def side_ok_def orders_ok_def
        unique_ids_def index_ok_def i alloc_ok_def heap_refs_def side_heap_def sized_def rem_q_def
        heap_upto_def eq_commute [of "''alice''"])
qed

lemma demo_fresh: "fresh 1 demo_engine" "order_ok (store demo_engine 1)"
  by (simp_all add: fresh_def off_book_def heap_refs_def order_ok_def known_stp_def)

lemma demo_exact: "\<forall>x \<in> insert 1 (heap_refs demo_engine). exact_order 0 (store demo_engine x)"
proof -
  have "on_grid 0 5" "on_grid 0 3" using on_grid_int [of 5] on_grid_int [of 3] by simp_all
  then show ?thesis by (simp add: heap_refs_def exact_order_def)
qed

lemma demo_taking: "taking 1 demo_engine"
  by (rule resting_ok_taking)
    (use demo_wf demo_fresh in \<open>simp_all add: engine_wf_def fresh_def sized_def\<close>)

lemma demo_uncrossed: "uncrossed demo_engine"
  by (simp add: uncrossed_def)

lemma demo_live: "is_live demo_engine 0" "0 \<in> heap_refs demo_engine"
  by (simp_all add: is_live_def heap_refs_def)

lemma demo_best: "bestOppositeLocked Buy demo_engine = Done (Some 0, demo_engine)"
  using demo_live
  by (simp add: bestOppositeLocked_def bestAskLocked_def bestLocked_def side_heap_def set_side_heap_def)

text \<open>The limit loop on this engine: one fill.\<close>

lemma demo_run: "match_loop limit_break 2 1 demo_engine = Done (after_fill 1 0 demo_engine)"
proof -
  have f: "fillLocked 1 0 demo_engine = Done (after_fill 1 0 demo_engine)"
    by (rule fillLocked_Done [OF demo_taking demo_live(2,1)]) simp
  have "bval (rem_q (store (after_fill 1 0 demo_engine) 1)) = 0"
    by (simp add: store_after_fill taker_after_def rem_take_fill fill_qty_def bf_set_def bf_sub_def newBigFloat_def
        DefaultPrecision_def res_prec_def)
  then show ?thesis using demo_best f
    by (simp add: numeral_2_eq_2 limit_break_def price_cmp_def isSelfTrade_def)
qed

lemma demo_trades: "\<exists>t. e_Trades (after_fill 1 0 demo_engine) = [t] \<and> fill_trade 1 0 demo_engine t"
  using trades_after_fill [OF demo_taking demo_live(2,1)] by (auto simp: chan_cap_def)

section \<open>Processing an order\<close>

text \<open>
  C2: Total correctness of order processing, for every type of order but icebergs. On a well-formed engine (heaps, lookup map, user index and stop list
  agree, the self-trade mode of the engine and of its stops is a named one), for an order that is not an iceberg, is in neither the book nor the stops, has an amount of at
  most 128 bits, a named self-trade mode and a channel that is not closed, and a price unless its type is market, immediate-or-cancel, stop-loss or post-only,
  \<open>processOrder\<close> returns with the engine well-formed again; one more unit of fuel than there are open orders is enough, so
  the matching loop ends after at most that many iterations. For an iceberg no fuel need be enough: \<open>iceberg_never_returns\<close>.
\<close>

theorem processOrder_total:
  assumes "engine_wf e" and "fresh r e" and "order_ok (store e r)" and "length (orders e) < fuel"
  shows "\<exists>e'. processOrder fuel r e = Done e' \<and> engine_wf e'"
  using assms by (rule processOrder_done)

theorem processOrder_total_witness: "\<exists>e'. processOrder 2 1 demo_engine = Done e' \<and> engine_wf e'"
  by (rule processOrder_total [OF demo_wf demo_fresh]) simp

text \<open>
  C1: Price-time priority. Every result of the matching loop, whichever strategy's test it runs, comes from steps that
  each fill the taker against the live opposite order that no other live one beats on price and then on arrival
  (or hand that order to self-trade prevention); and the loop stops only when the taker is filled, the opposite side
  has no live order, the best one fails the strategy's test, or self-trade prevention cancels the taker.
\<close>

theorem matching_priority:
  assumes "taking r e" and "match_loop brk fuel r e = Done e'"
  shows "(match_step brk r)\<^sup>*\<^sup>* e e' \<and> match_end brk r e'"
  using assms match_loop_refines by blast

theorem matching_priority_witness:
  "(match_step limit_break 1)\<^sup>*\<^sup>* demo_engine (after_fill 1 0 demo_engine) \<and>
   match_end limit_break 1 (after_fill 1 0 demo_engine)"
  by (rule matching_priority [OF demo_taking demo_run])

lemma limit_trades:
  assumes "taking r e" and "o_Price (store e r) = Some p" and "o_Side (store e r) \<in> {Buy, Sell}"
    and "\<forall>m \<in> heap_refs e. \<exists>q. o_Price (store e m) = Some q \<and> bprec q \<le> 128"
    and "match_loop limit_break fuel r e = Done e'"
  shows "\<exists>ts. e_Trades e' = e_Trades e @ ts \<and> (\<forall>t \<in> set ts. 0 < bval (t_Quantity t) \<and>
    (\<exists>m \<in> heap_refs e. \<exists>q. o_Price (store e m) = Some q \<and> bval (t_Price t) = bval q \<and>
      (if o_Side (store e r) = Buy then t_BuyOrderID t = o_ID (store e r) \<and> t_SellOrderID t = o_ID (store e m) \<and> bval q \<le> bval p
       else t_SellOrderID t = o_ID (store e r) \<and> t_BuyOrderID t = o_ID (store e m) \<and> bval p \<le> bval q)))"
proof -
  let ?S = "set (side_heap (side_Opposite (o_Side (store e r))) e)"
  have "(match_step limit_break r)\<^sup>*\<^sup>* e e'" using match_loop_refines [OF assms(5,1)] by simp
  from match_steps_trades [OF this assms(1)] obtain ts where ts: "e_Trades e' = e_Trades e @ ts"
    "\<forall>t \<in> set ts. good_trade limit_break (store e r) (store e) ?S t" by auto
  have "0 < bval (t_Quantity t) \<and> (\<exists>m \<in> heap_refs e. \<exists>q. o_Price (store e m) = Some q \<and> bval (t_Price t) = bval q \<and>
      (if o_Side (store e r) = Buy then t_BuyOrderID t = o_ID (store e r) \<and> t_SellOrderID t = o_ID (store e m) \<and> bval q \<le> bval p
       else t_SellOrderID t = o_ID (store e r) \<and> t_BuyOrderID t = o_ID (store e m) \<and> bval p \<le> bval q))"
    if good: "good_trade limit_break (store e r) (store e) ?S t" for t
  proof -
    obtain m where m: "m \<in> ?S" "limit_break (store e r) (store e m) = Done False"
      "bval (t_Price t) = bval (bf_set newBigFloat (the (o_Price (store e m))))"
      "if o_Side (store e r) = Sell then t_BuyOrderID t = o_ID (store e m) \<and> t_SellOrderID t = o_ID (store e r)
       else t_BuyOrderID t = o_ID (store e r) \<and> t_SellOrderID t = o_ID (store e m)"
      using good by (auto simp: good_trade_def split: if_splits)
    obtain q where q: "o_Price (store e m) = Some q" "bprec q \<le> 128"
      using assms(4) heap_refsI [OF m(1)] by blast
    have "bval (t_Price t) = bval q" using m(3) q by (simp add: bf_set_widen)
    moreover have "if o_Side (store e r) = Buy then bval q \<le> bval p else bval p \<le> bval q"
      using m(2) q assms(2,3) by (auto simp: limit_break_def price_cmp_def split: if_splits)
    moreover have "0 < bval (t_Quantity t)" using good by (simp add: good_trade_def)
    ultimately show ?thesis using heap_refsI [OF m(1)] m(4) q(1) assms(3) by (auto intro!: bexI [of _ m])
  qed
  then show ?thesis using ts by blast
qed

lemma trades_frame [simp]:
  "e_Trades (reject_count e) = e_Trades e" "e_Trades (set_status x r e) = e_Trades e" "e_Trades (upd_order r f e) = e_Trades e"
  "e_Trades (markWALFailure e) = e_Trades e" "e_Trades (upd_stats g e) = e_Trades e" "e_Trades (ready r e) = e_Trades e"
  by (simp_all add: reject_count_def set_status_def upd_order_def markWALFailure_def upd_stats_def ready_def)

lemma trades_close: "close_done r e = Done e' \<Longrightarrow> e_Trades e' = e_Trades e"
  by (auto simp: close_done_def upd_order_def split: done_chan.splits)

lemma trades_add: "addLocked r e = Done e' \<Longrightarrow> e_Trades e' = e_Trades e"
  by (auto simp: addLocked_def next_seq_def indexAdd_def upd_order_def set_side_heap_def Let_def)

lemma trades_limit:
  assumes "matchLimitLocked fuel r e = Done e'"
  obtains e1 where "match_loop limit_break fuel r e = Done e1" "e_Trades e' = e_Trades e1"
  using assms by (auto simp: matchLimitLocked_def dest: trades_add split: if_splits)

text \<open>
  C3: Limit prices are respected. On a well-formed engine whose book has prices of at most 128 bits (the precision of the engine's floats), a new order of
  type limit, to buy or to sell, with the fields that \<open>processOrder_total\<close> asks for, adds to the trade channel only trades that have a positive quantity, are between
  the order, on its own side, and an order that rested in the book, and execute at exactly the price of that resting order, which is never
  above a buy order's limit and never below a sell order's.
\<close>

theorem limit_price_respected:
  assumes "engine_wf e" and "fresh r e" and "order_ok (store e r)" and "o_Type (store e r) = Limit"
    and "o_Price (store e r) = Some p" and "o_Side (store e r) \<in> {Buy, Sell}"
    and "\<forall>m \<in> heap_refs e. \<exists>q. o_Price (store e m) = Some q \<and> bprec q \<le> 128"
    and "processOrder fuel r e = Done e'"
  shows "\<exists>ts. e_Trades e' = e_Trades e @ ts \<and> (\<forall>t \<in> set ts. 0 < bval (t_Quantity t) \<and>
    (\<exists>m \<in> heap_refs e. \<exists>q. o_Price (store e m) = Some q \<and> bval (t_Price t) = bval q \<and>
      (if o_Side (store e r) = Buy then t_BuyOrderID t = o_ID (store e r) \<and> t_SellOrderID t = o_ID (store e m) \<and> bval q \<le> bval p
       else t_SellOrderID t = o_ID (store e r) \<and> t_BuyOrderID t = o_ID (store e m) \<and> bval p \<le> bval q)))"
  using assms(8)
proof (cases rule: processOrder_cases)
  case (journal err w)
  then show ?thesis using trades_close [OF journal(2)] by simp
next
  case (empty w)
  then show ?thesis by simp
next
  case (matched w e2 e3)
  define e0 where "e0 = e\<lparr>e_wal := w\<rparr>"
  define e1 where "e1 = ready r e0"
  have e0: "engine_wf e0" "fresh r e0" "order_ok (store e0 r)"
    using assms(1-3) by (auto simp: e0_def fresh_def off_book_def heap_refs_def book.defs intro: engine_wf_frame)
  have q: "\<not> (case o_Quantity (store e0 r) of None \<Rightarrow> True | Some q \<Rightarrow> bf_sign q \<le> 0)"
    using matched(2) by (simp add: e0_def)
  note rd = ready_ok [OF e0 q]
  have t: "taking r e1" using rd by (simp add: e1_def engine_wf_def fresh_def resting_ok_taking)
  have same: "o_Price (store e1 x) = o_Price (store e x)" "o_ID (store e1 x) = o_ID (store e x)" "o_Side (store e1 x) = o_Side (store e x)"
    "o_Type (store e1 x) = o_Type (store e x)" "heap_refs e1 = heap_refs e" for x
    by (auto simp: e1_def e0_def ready_def heap_refs_def)
  have "matchLimitLocked fuel r e1 = Done e2" using matched(3) same(4) assms(4) by (simp add: e1_def e0_def dispatch_def)
  then obtain f where f: "match_loop limit_break fuel r e1 = Done f" "e_Trades e2 = e_Trades f" by (rule trades_limit)
  have "e_Trades e' = e_Trades f" using trades_close [OF matched(5)] f(2) by (simp add: matched(4))
  moreover have "e_Trades e1 = e_Trades e" by (simp add: e1_def e0_def)
  ultimately show ?thesis using limit_trades [OF t _ _ _ f(1), unfolded same, OF assms(5-7)] by simp
qed

theorem limit_price_respected_witness:
  "\<exists>e' t. processOrder 2 1 demo_engine = Done e' \<and> e_Trades e' = [t] \<and> t_BuyOrderID t = ''t1'' \<and> t_SellOrderID t = ''m1'' \<and> bval (t_Price t) = 100"
proof -
  obtain t where t: "e_Trades (after_fill 1 0 demo_engine) = [t]" using demo_trades by blast
  obtain e' where e': "processOrder 2 1 demo_engine = Done e'" using processOrder_done [OF demo_wf demo_fresh, of 2] by auto
  have r: "ready 1 demo_engine = demo_engine" "demo_engine\<lparr>e_wal := None\<rparr> = demo_engine" "dispatch 2 1 demo_engine = matchLimitLocked 2 1 demo_engine"
    by (simp_all add: ready_def dispatch_def)
  have "e_Trades e' = [t]"
    using e'
  proof (cases rule: processOrder_cases)
    case (matched w e2 e3)
    have w: "w = None" using matched(1) by (simp add: AppendOrder_def AppendRecord_def)
    have "matchLimitLocked 2 1 demo_engine = Done e2" using matched(3) unfolding w r .
    then have "e_Trades e2 = [t]" using t by (auto simp only: demo_run outcome.inject elim: trades_limit)
    then show ?thesis using trades_close [OF matched(5)] by (simp add: matched(4))
  qed (simp_all add: AppendOrder_def AppendRecord_def)
  then show ?thesis using limit_price_respected [OF demo_wf demo_fresh _ _ _ _ e'] e' by (auto simp: heap_refs_def)
qed

text \<open>
  C4: Quantity is conserved when an order of any type but an iceberg is processed. On a well-formed engine, for a new order with the fields that
  \<open>processOrder_total\<close> asks for and something left to fill, when the quantities of the order and of the book lie on a binary
  grid that fits 128 bits, \<open>processOrder\<close> leaves filled plus remaining quantity of every order unchanged, and every quantity on
  the grid: nothing is filled twice, lost to rounding, or filled beyond what remained. (An iceberg trades through slices, which may be larger than
  what remains of it.)
\<close>

theorem processOrder_conserves:
  assumes "engine_wf e" and "fresh r e" and "order_ok (store e r)"
    and "\<forall>x \<in> insert r (heap_refs e). exact_order g (store e x)" and "0 < bval (rem_q (store e r))"
    and "processOrder fuel r e = Done e'"
  shows "total_qty (store e' x) = total_qty (store e x) \<and> (exact_order g (store e x) \<longrightarrow> exact_order g (store e' x))"
  using processOrder_keeps [OF assms] by (simp add: keeps_qty_def)

theorem processOrder_conserves_witness:
  "\<exists>e'. processOrder 2 1 demo_engine = Done e' \<and> total_qty (store e' 0) = 5 \<and> total_qty (store e' 1) = 3"
proof -
  obtain e' where e': "processOrder 2 1 demo_engine = Done e'"
    using processOrder_done [OF demo_wf demo_fresh, of 2] by auto
  have "total_qty (store e' x) = total_qty (store demo_engine x)" for x
    using processOrder_conserves [OF demo_wf demo_fresh demo_exact _ e', of x] by simp
  then show ?thesis using e' by (simp add: total_qty_def)
qed

text \<open>
  What is filled is what is traded. As long as the trade channel has room, the increase of the taker's filled
  quantity is exactly the sum of the quantities of the trades the loop emits.
\<close>

theorem filled_is_traded:
  assumes "taking r e" and "\<forall>x \<in> insert r (heap_refs e). exact_order g (store e x)"
    and "match_loop brk fuel r e = Done e'" and "length (e_Trades e') < chan_cap"
  shows "bval (o_FilledQty (store e' r)) - bval (o_FilledQty (store e r)) =
    (\<Sum>t\<leftarrow>drop (length (e_Trades e)) (e_Trades e'). bval (t_Quantity t))"
proof -
  have "(match_step brk r)\<^sup>*\<^sup>* e e'" using match_loop_refines [OF assms(3,1)] by simp
  from match_steps_traded [OF this assms(1,2,4)] show ?thesis by (simp add: traded_def)
qed

theorem filled_is_traded_witness:
  "bval (o_FilledQty (store (after_fill 1 0 demo_engine) 1)) =
    (\<Sum>t\<leftarrow>e_Trades (after_fill 1 0 demo_engine). bval (t_Quantity t))"
proof -
  have "length (e_Trades (after_fill 1 0 demo_engine)) < chan_cap" using demo_trades by (auto simp: chan_cap_def)
  from filled_is_traded [OF demo_taking demo_exact demo_run this] show ?thesis by simp
qed

text \<open>
  C5: The book is never left crossed by an order that is not an iceberg. On a well-formed engine, if every live bid is below every live ask before a new order of
  any other type and of either side, with the fields that \<open>processOrder_total\<close> asks for, is processed, and self-trade prevention is off or cancels
  makers, the same holds afterwards.
\<close>

theorem processOrder_uncrossed:
  assumes "engine_wf e" and "fresh r e" and "order_ok (store e r)" and "uncrossed e" and "stp_safe e (store e r)"
    and "o_Side (store e r) \<in> {Buy, Sell}" and "processOrder fuel r e = Done e'"
  shows "uncrossed e'"
  using assms by (rule processOrder_uncrossed_aux)

theorem processOrder_uncrossed_witness: "\<exists>e'. processOrder 2 1 demo_engine = Done e' \<and> uncrossed e'"
proof -
  obtain e' where e': "processOrder 2 1 demo_engine = Done e'"
    using processOrder_done [OF demo_wf demo_fresh, of 2] by auto
  moreover have "uncrossed e'"
    by (rule processOrder_uncrossed [OF demo_wf demo_fresh demo_uncrossed _ _ e']) (simp_all add: stp_safe_def stp_mode_of_def)
  ultimately show ?thesis by blast
qed

section \<open>Stops\<close>

text \<open>One pending stop-loss of carol on an engine whose last trade price is 90.\<close>

definition demo_stop_engine :: engine where
  "demo_stop_engine = (NewMatchingEngine
     (\<lambda>r. (NewOrder ''s1'' 3 ''carol'' ''BTC/USDT'' Sell StopLoss None (Some (BF 128 2)))\<lparr>o_StopPrice := Some (BF 128 95)\<rparr>)
     (\<lambda>n. ''trade'') ''BTC/USDT'')\<lparr>nextref := 1, stops := [0], lastTradePrice := Some (BF 128 90)\<rparr>"

lemma demo_stop_wf: "engine_wf demo_stop_engine" "orders demo_stop_engine = []" "stops demo_stop_engine = [0]"
  by (simp_all add: demo_stop_engine_def NewMatchingEngine_def book.extend_def NewOrderBook_def engine_wf_def
      resting_ok_def stops_ok_def known_stp_def book_wf_def side_ok_def orders_ok_def unique_ids_def index_ok_def
      indexed_def alloc_ok_def heap_refs_def side_heap_def off_book_def stop_ok_def sized_def NewOrder_def
      newBigFloatCopy_def bf_set_def)

text \<open>
  The stop scan is total and keeps the engine well-formed: every pending stop whose trigger price the last trade
  has reached is matched, once each, as a market or a limit order, and the rest stay pending. Fuel above the number of open orders plus pending
  stops is enough.
\<close>

theorem triggerStops_total:
  assumes "engine_wf e" and "length (orders e) + length (stops e) < fuel"
  shows "\<exists>e'. triggerStops fuel e = Done e' \<and> engine_wf e'"
  using assms by (rule triggerStops_ok)

theorem triggerStops_total_witness: "\<exists>e'. triggerStops 2 demo_stop_engine = Done e' \<and> engine_wf e'"
  by (rule triggerStops_total [OF demo_stop_wf(1)]) (simp add: demo_stop_wf)

text \<open>
  The stop scan activates exactly the stops it should. With a positive last trade price, a pending buy stop is taken
  off the list when the price is at or above its stop price, a sell stop when it is at or below, and
  both lists keep their order.
\<close>

theorem stop_trigger_partition:
  assumes "\<forall>r \<in> set rs. o_StopPrice (st r) = Some (sp r)"
  shows "split_stops st lp rs =
    Done (filter (\<lambda>r. o_Side (st r) = Buy \<and> bval (sp r) \<le> bval lp \<or> o_Side (st r) = Sell \<and> bval lp \<le> bval (sp r)) rs,
          filter (\<lambda>r. \<not> (o_Side (st r) = Buy \<and> bval (sp r) \<le> bval lp \<or> o_Side (st r) = Sell \<and> bval lp \<le> bval (sp r))) rs)"
  using assms by (induction rs) (simp_all add: stop_fires_eq)

theorem stop_trigger_partition_witness:
  "split_stops (store demo_stop_engine) (BF 128 90) [0] = Done ([0], [])"
  using stop_trigger_partition [of "[0]" "store demo_stop_engine" "\<lambda>r. BF 128 95" "BF 128 90"]
  by (simp add: demo_stop_engine_def NewMatchingEngine_def book.extend_def NewOrderBook_def NewOrder_def)

section \<open>Cancels\<close>

text \<open>
  A cancel does what its caller may do and nothing else. With an accepting journal, \<open>processCancel\<close> on a well-formed engine
  reports an unknown order or one of another user and leaves orders, heaps and index as they
  are; otherwise it takes the order, and no other, out of the lookup map and the user index, marks it cancelled and leaves every
  other order's state alone. The engine stays well-formed.
\<close>

theorem processCancel_correct:
  assumes "engine_wf e" and "journal_ok e" and "processCancel oid uid e = (res, e')"
  shows "engine_wf e' \<and>
    (case gm_get (orders e) oid of
       None \<Rightarrow> res = Inl OrderNotFound \<and> store e' = store e \<and> orders e' = orders e \<and> userOrders e' = userOrders e
     | Some r \<Rightarrow>
         if uid \<noteq> [] \<and> o_UserID (store e r) \<noteq> uid
         then res = Inl OrderNotOwned \<and> store e' = store e \<and> orders e' = orders e \<and> userOrders e' = userOrders e
         else res = Inr r \<and> o_Status (store e' r) = Cancelled \<and>
           (\<forall>x. x \<noteq> r \<longrightarrow> store e' x = store e x) \<and>
           (\<forall>i. gm_get (orders e') i = (if i = oid then None else gm_get (orders e) i)) \<and>
           \<not> indexed e' (o_UserID (store e r)) oid)"
proof -
  have wf': "engine_wf e'" using processCancel_wf [OF assms(1), of oid uid] assms(3) by simp
  from processCancel_cases [OF assms(2), of oid uid] obtain w where
    w: "processCancel oid uid e =
      (case gm_get (orders e) oid of
         None \<Rightarrow> (Inl OrderNotFound, e\<lparr>e_wal := w\<rparr>)
       | Some r \<Rightarrow> if uid \<noteq> [] \<and> o_UserID (store e r) \<noteq> uid then (Inl OrderNotOwned, e\<lparr>e_wal := w\<rparr>)
           else (Inr r, upd_stats (\<lambda>t. t\<lparr>OrdersCancelled := OrdersCancelled t + 1\<rparr>)
                   (snd (removeLocked (o_ID (store e r)) (e\<lparr>e_wal := w\<rparr>)))))"
    by (auto simp: Let_def)
  show ?thesis
  proof (cases "gm_get (orders e) oid")
    case None
    then show ?thesis using wf' w assms(3) by auto
  next
    case (Some r)
    have id: "o_ID (store e r) = oid" using assms(1) Some ids_of_refs by (auto simp: engine_wf_def resting_ok_def)
    have ix: "index_ok e'" using wf' by (simp add: engine_wf_def resting_ok_def book_wf_def)
    show ?thesis
    proof (cases "uid \<noteq> [] \<and> o_UserID (store e r) \<noteq> uid")
      case True
      then show ?thesis using wf' w assms(3) Some by auto
    next
      case False
      then have e': "res = Inr r" "e' = upd_stats (\<lambda>t. t\<lparr>OrdersCancelled := OrdersCancelled t + 1\<rparr>)
                   (snd (removeLocked oid (e\<lparr>e_wal := w\<rparr>)))"
        using w assms(3) Some id by auto
      have g: "gm_get (orders e') i = (if i = oid then None else gm_get (orders e) i)" for i
        by (simp add: e')
      then have "\<not> indexed e' (o_UserID (store e r)) oid" using ix by (simp add: index_ok_def)
      then show ?thesis using wf' e' g Some False by (auto simp: store_removeLocked)
    qed
  qed
qed

theorem processCancel_correct_witness:
  "\<exists>e'. processCancel ''m1'' ''alice'' demo_engine = (Inr 0, e') \<and> o_Status (store e' 0) = Cancelled \<and> engine_wf e'"
proof -
  have j: "journal_ok demo_engine" by (simp add: journal_ok_def)
  obtain res e' where e': "processCancel ''m1'' ''alice'' demo_engine = (res, e')" by fastforce
  show ?thesis using processCancel_correct [OF demo_wf j e'] e' by auto
qed

text \<open>
  Cancelling all orders of a user. \<open>CancelAll\<close> reports the number of the user's open orders, leaves none of
  them open, marks each cancelled, and touches no order of anyone else.
\<close>

theorem CancelAll_complete:
  assumes "engine_wf e" and "journal_ok e"
  shows "\<exists>e'. CancelAll uid e = (length (GetOrdersByUser uid e), e') \<and> engine_wf e' \<and> GetOrdersByUser uid e' = [] \<and>
    (\<forall>r \<in> set (GetOrdersByUser uid e). o_Status (store e' r) = Cancelled) \<and>
    (\<forall>r. r \<notin> set (GetOrdersByUser uid e) \<longrightarrow> store e' r = store e r)"
proof -
  have wf: "book_wf e" using assms(1) by (simp add: engine_wf_def resting_ok_def)
  have "\<forall>r \<in> set (GetOrdersByUser uid e). gm_get (orders e) (o_ID (store e r)) = Some r \<and> o_UserID (store e r) = uid"
    using set_GetOrdersByUser [OF wf] ids_of_refs [OF wf] by auto
  from cancel_each_ok [OF assms distinct_GetOrdersByUser [OF wf] this, of 0] obtain e' where
    e': "cancel_each (GetOrdersByUser uid e) uid 0 e = (length (GetOrdersByUser uid e), e')" "engine_wf e'"
      "\<forall>i. gm_get (orders e') i =
        (if i \<in> (\<lambda>r. o_ID (store e r)) ` set (GetOrdersByUser uid e) then None else gm_get (orders e) i)"
      "\<forall>r \<in> set (GetOrdersByUser uid e). o_Status (store e' r) = Cancelled"
      "\<forall>r. r \<notin> set (GetOrdersByUser uid e) \<longrightarrow> store e' r = store e r" by auto
  have wf': "book_wf e'" using e'(2) by (simp add: engine_wf_def resting_ok_def)
  have "r \<notin> set (GetOrdersByUser uid e')" for r
  proof
    assume "r \<in> set (GetOrdersByUser uid e')"
    then obtain i where i: "gm_get (orders e') i = Some r" "o_UserID (store e' r) = uid"
      using set_GetOrdersByUser [OF wf'] by auto
    then have n: "i \<notin> (\<lambda>r. o_ID (store e r)) ` set (GetOrdersByUser uid e)" "gm_get (orders e) i = Some r"
      using e'(3) by (auto split: if_splits)
    have "r \<notin> set (GetOrdersByUser uid e)" using n ids_of_refs [OF wf] by auto
    then have "o_UserID (store e r) = uid" using e'(5) i(2) by simp
    then show False using n \<open>r \<notin> set (GetOrdersByUser uid e)\<close> set_GetOrdersByUser [OF wf] by auto
  qed
  then have "GetOrdersByUser uid e' = []" by (metis list.set_intros(1) neq_Nil_conv)
  then show ?thesis using e' by (auto simp: CancelAll_def)
qed

theorem CancelAll_complete_witness:
  "\<exists>e'. CancelAll ''alice'' demo_engine = (1, e') \<and> o_Status (store e' 0) = Cancelled \<and> GetOrdersByUser ''alice'' e' = []"
proof -
  have g: "GetOrdersByUser ''alice'' demo_engine = [0]" by (simp add: GetOrdersByUser_def List.map_filter_simps)
  have "journal_ok demo_engine" by (simp add: journal_ok_def)
  from CancelAll_complete [OF demo_wf this, of "''alice''"] show ?thesis by (auto simp: g)
qed

section \<open>Durability\<close>

text \<open>
  Journal first. When the journal refuses an order, the order is rejected with the journal's error, nothing is
  matched, booked or traded, every other order is untouched, and the engine reports itself unhealthy with
  the failure counted.
\<close>

theorem journal_failure_rejects:
  assumes "AppendOrder (e_io e) (clock e) (store e r) (e_wal e) = (Some err, w)"
    and "o_done (store e r) \<noteq> ClosedChan"
  shows "\<exists>e'. processOrder fuel r e = Done e' \<and> o_Status (store e' r) = Rejected \<and>
    o_Err (store e' r) = Some WalAppendFailed \<and> (\<forall>x. x \<noteq> r \<longrightarrow> store e' x = store e x) \<and>
    bids e' = bids e \<and> asks e' = asks e \<and> orders e' = orders e \<and> stops e' = stops e \<and> e_Trades e' = e_Trades e \<and>
    \<not> IsHealthy e' \<and> WALFailureCount e' = WALFailureCount e + 1"
proof -
  define e1 where "e1 = upd_order r (\<lambda>v. v\<lparr>o_UpdatedAt := clock e\<rparr>) (reject_count
            (upd_order r (\<lambda>v. v\<lparr>o_Status := Rejected, o_Err := Some WalAppendFailed\<rparr>) (markWALFailure (e\<lparr>e_wal := w\<rparr>))))"
  have res: "processOrder fuel r e = close_done r e1" using assms(1) by (simp add: processOrder_def e1_def)
  have f: "bids e1 = bids e" "asks e1 = asks e" "orders e1 = orders e" "stops e1 = stops e" "e_Trades e1 = e_Trades e"
    "e_degraded e1" "WALErrors (e_stats e1) = WALErrors (e_stats e) + 1"
    "store e1 = (store e)(r := (store e r)\<lparr>o_Status := Rejected, o_Err := Some WalAppendFailed, o_UpdatedAt := clock e\<rparr>)"
    by (simp_all add: e1_def markWALFailure_def reject_count_def)
  have "\<exists>e'. close_done r e1 = Done e' \<and> ((\<forall>x. x \<noteq> r \<longrightarrow> store e' x = store e1 x) \<and>
      o_Status (store e' r) = o_Status (store e1 r) \<and> o_Err (store e' r) = o_Err (store e1 r)) \<and>
      bids e' = bids e1 \<and> asks e' = asks e1 \<and> orders e' = orders e1 \<and> stops e' = stops e1 \<and> e_Trades e' = e_Trades e1 \<and>
      e_degraded e' = e_degraded e1 \<and> e_stats e' = e_stats e1"
    using assms(2) f(8) by (cases "o_done (store e r)") (auto simp: close_done_def)
  then obtain e' where e': "close_done r e1 = Done e'" "\<forall>x. x \<noteq> r \<longrightarrow> store e' x = store e1 x"
      "o_Status (store e' r) = o_Status (store e1 r)" "o_Err (store e' r) = o_Err (store e1 r)"
      "bids e' = bids e1" "asks e' = asks e1" "orders e' = orders e1" "stops e' = stops e1" "e_Trades e' = e_Trades e1"
      "e_degraded e' = e_degraded e1" "e_stats e' = e_stats e1" by blast
  show ?thesis unfolding res e'(1)
    by (intro exI [of _ e']) (simp add: e'(2-) f IsHealthy_def WALFailureCount_def)
qed

theorem journal_failure_rejects_witness:
  "\<exists>e'. processOrder 2 1 (demo_engine\<lparr>e_wal := Some (NewWALWriter [] (1, 0) 0), e_io := SyncFault\<rparr>) = Done e' \<and>
    o_Status (store e' 1) = Rejected \<and> \<not> IsHealthy e'"
proof -
  let ?e = "demo_engine\<lparr>e_wal := Some (NewWALWriter [] (1, 0) 0), e_io := SyncFault\<rparr>"
  obtain w where "AppendOrder (e_io ?e) (clock ?e) (store ?e 1) (e_wal ?e) = (Some SyncFailed, w)"
    by (simp add: AppendOrder_def AppendRecord_def wal_append_def maybeSync_def NewWALWriter_def Let_def)
  from journal_failure_rejects [OF this] show ?thesis by auto
qed

section \<open>The order book\<close>

text \<open>
  Best order. On a well-formed book \<open>bestLocked\<close>, the body of \<open>bestBidLocked\<close> and \<open>bestAskLocked\<close>, always returns, drops
  only stale heap entries, and returns the live order of the side that no live order of the side precedes in
  price-time priority, or nothing when the side has no live order.
\<close>

theorem best_order_correct:
  assumes "book_wf s"
  shows "\<exists>b t. bestLocked sd s = Done (b, t) \<and> book_wf t \<and> best_spec sd s b \<and> store t = store s \<and> orders t = orders s \<and>
    (\<forall>x. is_live s x \<longrightarrow> (x \<in> set (side_heap sd t) \<longleftrightarrow> x \<in> set (side_heap sd s)))"
proof -
  from bestLocked_ok [OF assms, of sd] obtain b h where
    b: "bestLocked sd s = Done (b, set_side_heap sd h s)" "book_wf (set_side_heap sd h s)" "set h \<subseteq> set (side_heap sd s)"
      "\<forall>x \<in> set (side_heap sd s). is_live s x \<longrightarrow> x \<in> set h" "best_spec sd s b" by blast
  then show ?thesis by (intro exI [of _ b] exI [of _ "set_side_heap sd h s"]) auto
qed

theorem best_order_correct_witness:
  "\<exists>b t. bestLocked Sell demo_engine = Done (b, t) \<and> best_spec Sell demo_engine b \<and> b = Some 0"
proof -
  have "book_wf demo_engine" using demo_wf by (simp add: engine_wf_def resting_ok_def)
  from best_order_correct [OF this, of Sell] obtain b t where
    b: "bestLocked Sell demo_engine = Done (b, t)" "best_spec Sell demo_engine b" by blast
  moreover have "b = Some 0" using b(2) demo_live by (cases b) (auto simp: best_spec_def side_heap_def)
  ultimately show ?thesis by blast
qed

text \<open>
  Popping the best order. \<open>PopBestBid\<close> and \<open>PopBestAsk\<close> always return on a well-formed book, keep it well-formed, and
  hand out the best live order of the side, which leaves the lookup map.
\<close>

theorem pop_best_correct:
  assumes "book_wf s"
  shows "\<exists>b t. popBest sd s = Done (b, t) \<and> book_wf t \<and> best_spec sd s b \<and>
    (\<forall>r. b = Some r \<longrightarrow> gm_get (orders t) (o_ID (store s r)) = None)"
  using assms by (rule popBest_ok)

theorem pop_best_correct_witness:
  "\<exists>t. popBest Sell demo_engine = Done (Some 0, t) \<and> book_wf t \<and> gm_get (orders t) ''m1'' = None"
proof -
  have "book_wf demo_engine" using demo_wf by (simp add: engine_wf_def resting_ok_def)
  from pop_best_correct [OF this, of Sell] obtain b t where
    b: "popBest Sell demo_engine = Done (b, t)" "book_wf t" "best_spec Sell demo_engine b"
      "\<forall>r. b = Some r \<longrightarrow> gm_get (orders t) (o_ID (store demo_engine r)) = None" by blast
  moreover have "b = Some 0" using b(3) demo_live by (cases b) (auto simp: best_spec_def side_heap_def)
  ultimately show ?thesis by auto
qed

text \<open>
  Booked orders are found. After \<open>addLocked\<close> of a new priced order the book is well-formed, \<open>GetOrder\<close> finds the
  order under its id, \<open>GetOrdersByUser\<close> lists it for its owner, and all other lookups are as before; after
  \<open>removeLocked\<close> of that id both forget it again.
\<close>

theorem booked_order_found:
  assumes "book_wf s" and "addable r s"
  shows "\<exists>t. addLocked r s = Done t \<and> book_wf t \<and> GetOrder (o_ID (store s r)) t = Some r \<and>
    r \<in> set (GetOrdersByUser (o_UserID (store s r)) t) \<and>
    (\<forall>i. i \<noteq> o_ID (store s r) \<longrightarrow> GetOrder i t = GetOrder i s) \<and>
    GetOrder (o_ID (store s r)) (snd (removeLocked (o_ID (store s r)) t)) = None \<and>
    r \<notin> set (GetOrdersByUser (o_UserID (store s r)) (snd (removeLocked (o_ID (store s r)) t)))"
proof -
  from addLocked_ok [OF assms] obtain t where
    t: "addLocked r s = Done t" "book_wf t" "store t = store (next_seq r s)"
      "orders t = gm_put (o_ID (store s r)) r (orders s)" by blast
  define u where "u = snd (removeLocked (o_ID (store s r)) t)"
  have wu: "book_wf u" unfolding u_def by (rule removeLocked_wf [OF t(2)])
  have id: "o_ID (store u r) = o_ID (store s r)" "o_UserID (store t r) = o_UserID (store s r)"
    by (auto simp: u_def store_removeLocked t(3) store_next_seq split: option.split)
  have "gm_get (orders u) i \<noteq> Some r" for i
  proof
    assume g: "gm_get (orders u) i = Some r"
    then have "i = o_ID (store s r)" using ids_of_refs [OF wu g] id by simp
    then show False using g by (simp add: u_def)
  qed
  then show ?thesis using t(1,2,4) id set_GetOrdersByUser [OF t(2)] set_GetOrdersByUser [OF wu]
    by (intro exI [of _ t]) (auto simp: GetOrder_def u_def)
qed

theorem booked_order_found_witness:
  "\<exists>t. addLocked 1 demo_engine = Done t \<and> book_wf t \<and> GetOrder ''t1'' t = Some 1 \<and> GetOrder ''m1'' t = Some 0"
proof -
  have "book_wf demo_engine" "addable 1 demo_engine"
    using demo_wf by (simp_all add: engine_wf_def resting_ok_def addable_def heap_refs_def)
  from booked_order_found [OF this] show ?thesis by (auto simp: GetOrder_def)
qed

section \<open>Surprises\<close>

text \<open>
  A completely filled resting order ends up marked cancelled. \<open>fillLocked\<close> sets its status to filled and then calls
  \<open>removeLocked\<close>, which overwrites the status: whenever the maker's remaining quantity is used up,
  the order object that the book's clients hold says \<open>Cancelled\<close> although it has nothing remaining.
\<close>

theorem filled_maker_is_cancelled:
  assumes "taking r e" and "m \<in> heap_refs e" and "is_live e m" and "0 < bval (rem_q (store e r))"
    and "bval (rem_q (store e m)) \<le> bval (rem_q (store e r))"
  shows "\<exists>e'. fillLocked r m e = Done e' \<and> bval (rem_q (store e' m)) = 0 \<and> o_Status (store e' m) = Cancelled"
proof -
  have wf: "book_wf e" and s: "sized (store e r)" "sized (store e m)" and rm: "r \<noteq> m"
    using assms by (auto simp: taking_def off_book_def)
  note lm = live_mapped [OF wf assms(2,3)]
  have "bval (rem_q (take_fill (fill_qty (store e r) (store e m)) (store e m))) = 0"
    using rem_after_fill [OF s(2), of "fill_qty (store e r) (store e m)"] bval_fill_qty [OF s] assms(4,5) lm(2) by simp
  then show ?thesis using fillLocked_Done [OF assms(1-4)]
    by (simp add: store_after_fill [OF rm lm(1)] maker_after_def)
qed

theorem filled_maker_is_cancelled_witness:
  "\<exists>e'. fillLocked 1 0 (upd_order 1 (\<lambda>v. v\<lparr>o_RemainingQty := Some (BF 128 7)\<rparr>) demo_engine) = Done e' \<and>
    o_Status (store e' 0) = Cancelled"
proof -
  let ?e = "upd_order 1 (\<lambda>v. v\<lparr>o_RemainingQty := Some (BF 128 7)\<rparr>) demo_engine"
  have "taking 1 ?e"
    by (rule taking_shrink [OF demo_taking taking_free_wf [OF demo_taking]]) (auto simp: sized_def heap_refs_def)
  then show ?thesis using filled_maker_is_cancelled [of 1 ?e 0] demo_live by (simp add: is_live_def) blast
qed

text \<open>
  An iceberg order that finds nothing to trade with never returns. Its loop repeats while quantity remains and
  stops only on a missing visible quantity; with an empty book no slice ever fills, so no amount of
  fuel suffices, and the engine goroutine holds the book's lock for ever.
\<close>

theorem iceberg_never_returns:
  assumes "bids e = []" and "asks e = []" and "0 < bval (rem_q (store e r))" and "r < nextref e"
    and "o_VisibleQty (store e r) = Some q" and "0 < bval q"
    and "bprec (o_FilledQty (store e r)) = 128" and "bf_ok (o_FilledQty (store e r))"
    and "o_RemainingQty (store e r) \<noteq> None" and "bf_ok (rem_q (store e r))" and "0 < bprec (rem_q (store e r))"
  shows "matchIcebergLocked fuel r e = OutOfFuel"
proof (cases fuel)
  case (Suc k)
  then have "iceberg_loop fuel fuel r e = OutOfFuel" using assms by (intro iceberg_stuck) auto
  then show ?thesis by (simp add: matchIcebergLocked_def)
qed (simp add: matchIcebergLocked_def)

theorem iceberg_never_returns_witness:
  "matchIcebergLocked 1000 0 ((NewMatchingEngine
     (\<lambda>r. (NewOrder ''i1'' 1 ''dave'' ''BTC/USDT'' Buy Iceberg (Some (BF 128 100)) (Some (BF 128 8)))\<lparr>o_VisibleQty := Some (BF 128 2)\<rparr>)
     (\<lambda>n. ''trade'') ''BTC/USDT'')\<lparr>nextref := 1\<rparr>) = OutOfFuel"
  by (rule iceberg_never_returns [where q = "BF 128 2"])
    (simp_all add: NewMatchingEngine_def book.extend_def NewOrderBook_def NewOrder_def newBigFloatCopy_def bf_set_def
      rem_q_def bf_ok_def)

text \<open>
  An unknown self-trade mode hangs the engine. \<open>applySTP\<close> answers a mode outside the four constants with \<open>true\<close> and changes nothing, so
  when the best opposite order is the taker's own and crosses, the matching loop meets it again for ever.
\<close>

theorem unknown_stp_never_returns:
  assumes "bestOppositeLocked (o_Side (store e r)) e = Done (Some m, e)" and "0 < bval (rem_q (store e r))"
    and "brk (store e r) (store e m) = Done False" and "isSelfTrade e (store e r) (store e m)"
    and "stp_mode_of e (store e r) = OtherSTP k"
  shows "match_loop brk fuel r e = OutOfFuel"
  using assms by (rule best_stays)

theorem unknown_stp_never_returns_witness:
  "match_loop market_break 500 1
     (upd_order 1 (\<lambda>v. v\<lparr>o_UserID := ''alice'', o_STP := OtherSTP 7\<rparr>) demo_engine) = OutOfFuel"
proof -
  let ?e = "upd_order 1 (\<lambda>v. v\<lparr>o_UserID := ''alice'', o_STP := OtherSTP 7\<rparr>) demo_engine"
  have "is_live ?e 0" by (simp add: is_live_def)
  then have "bestOppositeLocked (o_Side (store ?e 1)) ?e = Done (Some 0, ?e)"
    by (simp add: bestOppositeLocked_def bestAskLocked_def bestLocked_def side_heap_def set_side_heap_def)
  then show ?thesis
    by (rule unknown_stp_never_returns) (simp_all add: market_break_def isSelfTrade_def stp_mode_of_def rem_q_def)
qed

text \<open>
  A limit order that self-trade prevention cancels is booked all the same. Under the cancel-taker mode, when the best
  opposite order is the taker's own and crosses its limit, a good-till-cancelled taker is marked cancelled
  and then added to the book with status new, next to the order it crosses.
\<close>

theorem stp_cancelled_taker_rests:
  assumes "taking r e" and "o_Price (store e r) \<noteq> None" and "o_Side (store e r) \<in> {Buy, Sell}" and "o_TIF (store e r) = GTC"
    and "0 < bval (rem_q (store e r))" and "bestOppositeLocked (o_Side (store e r)) e = Done (Some m, e1)"
    and "limit_break (store e r) (store e m) = Done False"
    and "o_UserID (store e m) = o_UserID (store e r)" and "o_UserID (store e r) \<noteq> []"
    and "stp_mode_of e (store e r) = STPCancelTaker"
  shows "\<exists>e'. matchLimitLocked (Suc fuel) r e = Done e' \<and> GetOrder (o_ID (store e r)) e' = Some r \<and>
    o_Status (store e' r) = New \<and> \<not> uncrossed e'"
proof -
  let ?sd = "o_Side (store e r)"
  have wf: "book_wf e" using assms(1) by (simp add: taking_def)
  have b: "cleaned (side_Opposite ?sd) e e1" "best_spec (side_Opposite ?sd) e1 (Some m)"
    using bestOpposite_ok [OF wf, of ?sd] assms(6) by auto
  have t1: "taking r e1" by (rule taking_cleaned [OF assms(1) b(1)])
  have st: "store e1 = store e" "e_stp e1 = e_stp e" using cleaned_simps [OF b(1)] cleaned_engine [OF b(1)] by simp_all
  note lv = best_spec_live [OF b(2)] and mm = trade_step_mapped [OF t1 b(2)]
  have self: "isSelfTrade e1 (store e1 r) (store e1 m)"
    using assms(8-10) by (auto simp: isSelfTrade_def st stp_mode_of_def split: if_splits)
  have "stp_mode_of e1 (store e1 r) = STPCancelTaker"
    using assms(10) stp_mode_of_cong [of e1 e "store e r" "store e r"] st by simp
  then have stp: "applySTP r m e1 = (False, set_status Cancelled r e1)" by (simp add: applySTP_def)
  define e2 where "e2 = set_status Cancelled r e1"
  have loop: "match_loop limit_break (Suc fuel) r e = Done e2"
    using assms(5,6,7) self stp by (simp add: st e2_def)
  have t2: "taking r e2" unfolding e2_def by (rule taking_set_status [OF t1])
  have a: "addable r e2" using t2 assms(2) sized_rem by (auto simp: taking_def addable_def off_book_def e2_def st)
  have wf2: "book_wf e2" using t2 by (simp add: taking_def)
  have same: "o_ID (store e2 r) = o_ID (store e r)" "o_Side (store e2 r) = ?sd" "o_Price (store e2 x) = o_Price (store e x)"
    "rem_q (store e2 x) = rem_q (store e x)" "o_ID (store e2 x) = o_ID (store e x)" "o_TIF (store e2 r) = GTC"
    "o_Status (store e2 r) = Cancelled" for x using assms(4) by (simp_all add: e2_def st)
  from addLocked_ok [OF wf2 a] obtain e3 where
    e3: "addLocked r e2 = Done e3" "book_wf e3" "store e3 = store (next_seq r e2)"
      "orders e3 = gm_put (o_ID (store e r)) r (orders e2)" "heap_refs e3 = insert r (heap_refs e2)"
      "set (side_heap ?sd e3) = insert r (set (side_heap ?sd e2))" unfolding same by blast
  have s3: "o_Status (store e3 r) = Cancelled" "rem_q (store e3 x) = rem_q (store e x)" "o_ID (store e3 x) = o_ID (store e x)"
    "price_of (store e3 x) = price_of (store e x)" "o_Side (store e3 x) = o_Side (store e x)" for x
    by (simp_all add: e3(3) store_next_seq same price_of_def) (simp add: e2_def st)
  have res: "matchLimitLocked (Suc fuel) r e = Done (set_status New r e3)"
    unfolding matchLimitLocked_def loop obind.simps using assms(5) e3(1) s3(1) by (simp add: same)
  have other: "m \<in> set (side_heap (side_Opposite ?sd) e3)"
  proof -
    have m3: "m \<in> heap_refs e3" using lv(2) e3(5) by (simp add: e2_def)
    have "(o_Side (store e m) = Buy) = (side_Opposite ?sd = Buy)"
      using book_wf_side [of e1 "side_Opposite ?sd"] t1 lv(1) st by (auto simp: taking_def side_ok_def)
    moreover have "x \<in> set (bids e3) \<Longrightarrow> o_Side (store e x) = Buy" "x \<in> set (asks e3) \<Longrightarrow> o_Side (store e x) \<noteq> Buy" for x
      using book_wf_side [OF e3(2), of Buy] book_wf_side [OF e3(2), of Sell] s3(5) by (auto simp: side_ok_def)
    ultimately show ?thesis using m3
      by (cases "side_Opposite ?sd = Buy") (auto simp: heap_refs_def)
  qed
  have ids: "o_ID (store e m) \<noteq> o_ID (store e r)" using t1 lv(2) st by (auto simp: taking_def off_book_def)
  have lm: "is_live (set_status New r e3) m" using lv(3) ids mm(1)
    by (simp add: is_live_def s3 e3(4) st) (simp add: e2_def)
  have lr: "is_live (set_status New r e3) r" using assms(5) by (simp add: is_live_def s3 e3(4))
  obtain p q where pq: "o_Price (store e r) = Some p" "o_Price (store e m) = Some q" using assms(2) mm(4) st by auto
  define e4 where "e4 = set_status New r e3"
  have p4: "price_of (store e4 x) = price_of (store e x)" "bids e4 = bids e3" "asks e4 = asks e3" for x
    using s3(4) [of x] by (cases "x = r") (simp_all add: e4_def price_of_def)
  have "\<exists>b \<in> set (bids e4). \<exists>a \<in> set (asks e4). is_live e4 b \<and> is_live e4 a \<and> price_of (store e a) \<le> price_of (store e b)"
  proof (cases "?sd = Buy")
    case True
    then have "r \<in> set (bids e4)" "m \<in> set (asks e4)" using e3(6) other by (simp_all add: side_Opposite.simps p4)
    moreover have "price_of (store e m) \<le> price_of (store e r)"
      using assms(7) True pq by (auto simp: limit_break_def price_cmp_def price_of_def)
    ultimately show ?thesis using lm lr unfolding e4_def by blast
  next
    case False
    then have "r \<in> set (asks e4)" "m \<in> set (bids e4)" using e3(6) other assms(3) by (simp_all add: side_Opposite.simps p4)
    moreover have "price_of (store e r) \<le> price_of (store e m)"
      using assms(3,7) False pq by (auto simp: limit_break_def price_cmp_def price_of_def)
    ultimately show ?thesis using lm lr unfolding e4_def by blast
  qed
  then have "\<not> uncrossed (set_status New r e3)"
    unfolding uncrossed_def e4_def [symmetric] p4(1) by (meson not_less)
  then show ?thesis using res by (simp add: GetOrder_def e3(4))
qed

theorem stp_cancelled_taker_rests_witness:
  "\<exists>e'. matchLimitLocked 2 1 (upd_order 1 (\<lambda>v. v\<lparr>o_UserID := ''alice'', o_STP := STPCancelTaker\<rparr>) demo_engine) = Done e' \<and>
    GetOrder ''t1'' e' = Some 1 \<and> o_Status (store e' 1) = New \<and> \<not> uncrossed e'"
proof -
  let ?e = "upd_order 1 (\<lambda>v. v\<lparr>o_UserID := ''alice'', o_STP := STPCancelTaker\<rparr>) demo_engine"
  have t: "taking 1 ?e"
    by (rule taking_shrink [OF demo_taking taking_free_wf [OF demo_taking]]) (auto simp: sized_def heap_refs_def)
  have "is_live ?e 0" by (simp add: is_live_def)
  then have b: "bestOppositeLocked (o_Side (store ?e 1)) ?e = Done (Some 0, ?e)"
    by (simp add: bestOppositeLocked_def bestAskLocked_def bestLocked_def side_heap_def set_side_heap_def)
  show ?thesis using stp_cancelled_taker_rests [OF t _ _ _ _ b, of 1]
    by (simp add: limit_break_def price_cmp_def stp_mode_of_def rem_q_def numeral_2_eq_2)
qed

text \<open>
  An order without quantity leaves its submitter waiting. \<open>processOrder\<close> rejects it and returns before it reaches
  \<open>close(order.done)\<close>, so \<open>SubmitOrderSync\<close>, which waits on that channel, is not woken.
\<close>

theorem empty_order_never_signalled:
  assumes "journal_ok e" and "o_Quantity (store e r) = None \<or> o_Quantity (store e r) = Some q \<and> bval q \<le> 0"
    and "o_done (store e r) = OpenChan"
  shows "\<exists>e'. processOrder fuel r e = Done e' \<and> o_Status (store e' r) = Rejected \<and> o_done (store e' r) = OpenChan"
proof -
  obtain w where "AppendOrder (e_io e) (clock e) (store e r) (e_wal e) = (None, w)"
    using AppendRecord_ok [OF assms(1)] by (auto simp: AppendOrder_def)
  then show ?thesis using assms(2,3) by (auto simp: processOrder_def Let_def)
qed

theorem empty_order_never_signalled_witness:
  "\<exists>e'. processOrder 9 1 (upd_order 1 (\<lambda>v. v\<lparr>o_Quantity := None, o_done := OpenChan\<rparr>) demo_engine) = Done e' \<and>
    o_done (store e' 1) = OpenChan"
  using empty_order_never_signalled [of "upd_order 1 (\<lambda>v. v\<lparr>o_Quantity := None, o_done := OpenChan\<rparr>) demo_engine" 1]
  by (auto simp: journal_ok_def)

end
