(* ===== verification/Book_Depth.thy ===== *)
theory Book_Depth
  imports Book_Invariant
begin

text \<open>
  The aggregated depth of the book: \<open>Depth\<close>, \<open>aggregateLevelsFromMap\<close> and \<open>sortPriceLevels\<close> of
  \<open>internal/matching/orderbook.go\<close>, and the JSON view of \<open>orderbook_json.go\<close>. Go iterates over the order map in no fixed
  order; the model iterates over the association list, and the facts below hold for every such list.
\<close>

section \<open>Aggregation\<close>

type_synonym level_acc = "(string, price_level) gomap \<times> string list"

definition add_level :: "order \<Rightarrow> level_acc \<Rightarrow> level_acc outcome" where
  "add_level v acc =
     (case (o_RemainingQty v, o_Price v) of
        (Some q, Some p) \<Rightarrow>
          if bf_sign q \<le> 0 then Done acc
          else let k = text_f 18 p;
                   (pm, keys) = acc;
                   (pl, keys') = (case gm_get pm k of
                      Some pl \<Rightarrow> (pl, keys)
                    | None \<Rightarrow> (\<lparr>pl_Price = p, pl_Quantity = NewFloat 0, pl_Count = 0\<rparr>, keys @ [k]))
               in Done (gm_put k (pl\<lparr>pl_Quantity := bf_add (pl_Quantity pl) (pl_Quantity pl) q,
                                    pl_Count := Suc (pl_Count pl)\<rparr>) pm, keys')
      | (Some q, None) \<Rightarrow> if bf_sign q \<le> 0 then Done acc else Panicked
      | (None, p) \<Rightarrow> Panicked)"

fun add_levels :: "side \<Rightarrow> order list \<Rightarrow> level_acc \<Rightarrow> level_acc outcome" where
  "add_levels sd [] acc = Done acc"
| "add_levels sd (v # vs) acc =
     (if o_Side v \<noteq> sd then add_levels sd vs acc else obind (add_level v acc) (add_levels sd vs))"

text \<open>
  \<open>sort.Slice\<close> by the parsed keys. Distinct prices of at most 18 decimals parse to distinct values,
  so the order of equal elements, which \<open>sort.Slice\<close> leaves open, plays no role.
\<close>

definition parsed_key :: "string \<Rightarrow> rat" where
  "parsed_key k = bval (case bf_parse (BF 256 0) k of None \<Rightarrow> NewFloat 0 | Some f \<Rightarrow> f)"

definition sortPriceLevels :: "side \<Rightarrow> string list \<Rightarrow> string list" where
  "sortPriceLevels sd keys =
     (if sd = Buy then sort_key (\<lambda>k. - parsed_key k) keys else sort_key parsed_key keys)"

definition level_limit :: "int \<Rightarrow> nat" where
  "level_limit levels = (if levels \<le> 0 then 100 else nat levels)"

definition aggregateLevelsFromMap :: "order list \<Rightarrow> side \<Rightarrow> int \<Rightarrow> price_level list outcome" where
  "aggregateLevelsFromMap vs sd levels =
     obind (add_levels sd vs ([], [])) (\<lambda>(pm, keys).
       Done (take (level_limit levels) (map (\<lambda>k. the (gm_get pm k)) (sortPriceLevels sd keys))))"

definition Depth :: "int \<Rightarrow> 'a book_scheme \<Rightarrow> book_depth outcome" where
  "Depth levels s =
     (let vs = map (\<lambda>(i, r). store s r) (orders s)
      in obind (aggregateLevelsFromMap vs Buy levels) (\<lambda>bs.
         obind (aggregateLevelsFromMap vs Sell levels) (\<lambda>sl.
         Done \<lparr>d_Pair = ob_Pair s, d_Bids = bs, d_Asks = sl, d_SeqNo = seqNo s\<rparr>)))"

section \<open>What a level holds\<close>

text \<open>The live orders of a side at a price text, in iteration order.\<close>

definition counts :: "side \<Rightarrow> order \<Rightarrow> bool" where
  "counts sd v \<longleftrightarrow> o_Side v = sd \<and> 0 < bval (rem_q v)"

definition price_key :: "order \<Rightarrow> string" where
  "price_key v = text_f 18 (the (o_Price v))"

definition at_key :: "side \<Rightarrow> string \<Rightarrow> order list \<Rightarrow> order list" where
  "at_key sd k vs = filter (\<lambda>v. counts sd v \<and> price_key v = k) vs"

definition sum_qty :: "order list \<Rightarrow> bf" where
  "sum_qty vs = foldl (\<lambda>a v. bf_add a a (rem_q v)) (NewFloat 0) vs"

definition levelable :: "order \<Rightarrow> bool" where
  "levelable v \<longleftrightarrow> o_RemainingQty v \<noteq> None \<and> o_Price v \<noteq> None"

definition acc_ok :: "side \<Rightarrow> order list \<Rightarrow> level_acc \<Rightarrow> bool" where
  "acc_ok sd vs acc \<longleftrightarrow> distinct (snd acc) \<and> set (snd acc) = price_key ` {v \<in> set vs. counts sd v} \<and>
     (\<forall>k. gm_get (fst acc) k =
        (if at_key sd k vs = [] then None
         else Some \<lparr>pl_Price = the (o_Price (hd (at_key sd k vs))), pl_Quantity = sum_qty (at_key sd k vs),
                    pl_Count = length (at_key sd k vs)\<rparr>))"

lemma at_key_snoc:
  "at_key sd k (vs @ [v]) = at_key sd k vs @ (if counts sd v \<and> price_key v = k then [v] else [])"
  by (simp add: at_key_def)

lemma at_key_Nil: "at_key sd k vs = [] \<longleftrightarrow> k \<notin> price_key ` {v \<in> set vs. counts sd v}"
  by (auto simp: at_key_def filter_empty_conv)

lemma add_level_ok:
  assumes "acc_ok sd vs acc" "levelable v" "o_Side v = sd"
  shows "\<exists>acc'. add_level v acc = Done acc' \<and> acc_ok sd (vs @ [v]) acc'"
proof -
  obtain q p where q: "o_RemainingQty v = Some q" and p: "o_Price v = Some p" using assms(2) by (auto simp: levelable_def)
  have rq: "rem_q v = q" by (simp add: rem_q_def q)
  show ?thesis
  proof (cases "bval q \<le> 0")
    case True
    then have nc: "\<not> counts sd v" by (simp add: counts_def rq)
    have "acc_ok sd (vs @ [v]) acc" using assms(1) nc by (auto simp: acc_ok_def at_key_snoc)
    then show ?thesis using True by (simp add: add_level_def q p)
  next
    case False
    then have c: "counts sd v" using assms(3) by (simp add: counts_def rq)
    define k where "k = text_f 18 p"
    have pk: "price_key v = k" by (simp add: price_key_def p k_def)
    obtain pm keys where acc: "acc = (pm, keys)" by fastforce
    have get: "gm_get pm k' = (if at_key sd k' vs = [] then None
         else Some \<lparr>pl_Price = the (o_Price (hd (at_key sd k' vs))), pl_Quantity = sum_qty (at_key sd k' vs),
                    pl_Count = length (at_key sd k' vs)\<rparr>)" for k'
      using assms(1) by (simp add: acc_ok_def acc)
    have keys: "distinct keys" "set keys = price_key ` {v \<in> set vs. counts sd v}"
      using assms(1) by (simp_all add: acc_ok_def acc)
    have dom: "at_key sd k vs = [] \<longleftrightarrow> k \<notin> set keys" using at_key_Nil keys(2) by metis
    define pl where "pl = \<lparr>pl_Price = the (o_Price (hd (at_key sd k (vs @ [v])))),
        pl_Quantity = sum_qty (at_key sd k (vs @ [v])), pl_Count = length (at_key sd k (vs @ [v]))\<rparr>"
    have snoc: "at_key sd k (vs @ [v]) = at_key sd k vs @ [v]" using c pk by (simp add: at_key_snoc)
    have res: "add_level v acc = Done (gm_put k pl pm, if k \<in> set keys then keys else keys @ [k])"
    proof (cases "at_key sd k vs = []")
      case True
      then show ?thesis using False dom get [of k]
        by (simp add: add_level_def q p acc k_def [symmetric] pl_def snoc sum_qty_def rq)
    next
      case nonempty: False
      then show ?thesis using False dom get [of k]
        by (simp add: add_level_def q p acc k_def [symmetric] pl_def snoc sum_qty_def rq)
    qed
    have "acc_ok sd (vs @ [v]) (gm_put k pl pm, if k \<in> set keys then keys else keys @ [k])"
      unfolding acc_ok_def
    proof (intro conjI allI)
      show "distinct (snd (gm_put k pl pm, if k \<in> set keys then keys else keys @ [k]))" using keys by simp
      show "set (snd (gm_put k pl pm, if k \<in> set keys then keys else keys @ [k])) = price_key ` {x \<in> set (vs @ [v]). counts sd x}"
        using keys c pk by (auto 0 3)
      fix k'
      show "gm_get (fst (gm_put k pl pm, if k \<in> set keys then keys else keys @ [k])) k' =
          (if at_key sd k' (vs @ [v]) = [] then None
           else Some \<lparr>pl_Price = the (o_Price (hd (at_key sd k' (vs @ [v])))), pl_Quantity = sum_qty (at_key sd k' (vs @ [v])),
                    pl_Count = length (at_key sd k' (vs @ [v]))\<rparr>)"
        by (cases "k' = k") (simp_all add: pl_def snoc get at_key_snoc pk c)
    qed
    then show ?thesis using res by blast
  qed
qed

lemma add_levels_ok:
  assumes "acc_ok sd us acc" "\<forall>v \<in> set vs. o_Side v = sd \<longrightarrow> levelable v"
  shows "\<exists>acc'. add_levels sd vs acc = Done acc' \<and> acc_ok sd (us @ vs) acc'"
  using assms
proof (induction vs arbitrary: us acc)
  case (Cons v vs)
  show ?case
  proof (cases "o_Side v = sd")
    case True
    then obtain a where a: "add_level v acc = Done a" "acc_ok sd (us @ [v]) a"
      using add_level_ok [OF Cons.prems(1), of v] Cons.prems(2) by (metis list.set_intros(1))
    then show ?thesis using Cons.IH [OF a(2)] Cons.prems(2) True by simp
  next
    case False
    then have "acc_ok sd (us @ [v]) acc" using Cons.prems(1)
      by (auto simp: acc_ok_def at_key_snoc counts_def)
    then show ?thesis using Cons.IH [of "us @ [v]" acc] Cons.prems(2) False by simp
  qed
qed simp

text \<open>The levels of a side, as a specification: one per price text, best price first.\<close>

definition level_of :: "side \<Rightarrow> order list \<Rightarrow> string \<Rightarrow> price_level" where
  "level_of sd vs k = \<lparr>pl_Price = the (o_Price (hd (at_key sd k vs))), pl_Quantity = sum_qty (at_key sd k vs),
     pl_Count = length (at_key sd k vs)\<rparr>"

lemma aggregate_ok:
  assumes "\<forall>v \<in> set vs. o_Side v = sd \<longrightarrow> levelable v"
  shows "\<exists>ks. aggregateLevelsFromMap vs sd n = Done (take (level_limit n) (map (level_of sd vs) ks)) \<and>
    distinct ks \<and> set ks = price_key ` {v \<in> set vs. counts sd v} \<and>
    sorted (map (\<lambda>k. if sd = Buy then - parsed_key k else parsed_key k) ks)"
proof -
  have "acc_ok sd [] ([], [])" by (simp add: acc_ok_def at_key_def)
  from add_levels_ok [OF this assms] obtain pm keys where
    a: "add_levels sd vs ([], []) = Done (pm, keys)" "acc_ok sd vs (pm, keys)" by auto
  define ks where "ks = sortPriceLevels sd keys"
  have k: "distinct ks" "set ks = price_key ` {v \<in> set vs. counts sd v}"
    using a(2) by (auto simp: ks_def sortPriceLevels_def acc_ok_def)
  have "map (\<lambda>k. the (gm_get pm k)) ks = map (level_of sd vs) ks"
  proof (rule map_cong [OF refl])
    fix x assume "x \<in> set ks"
    then have "at_key sd x vs \<noteq> []" using k(2) at_key_Nil by metis
    then show "the (gm_get pm x) = level_of sd vs x" using a(2) by (simp add: acc_ok_def level_of_def)
  qed
  then have "aggregateLevelsFromMap vs sd n = Done (take (level_limit n) (map (level_of sd vs) ks))"
    using a(1) unfolding aggregateLevelsFromMap_def ks_def by (simp del: map_eq_conv)
  moreover have "sorted (map (\<lambda>k. if sd = Buy then - parsed_key k else parsed_key k) ks)"
    by (simp add: ks_def sortPriceLevels_def)
  ultimately show ?thesis using k by blast
qed

text \<open>Quantities on a binary grid add up exactly while the sum fits the 53 bits of the accumulator.\<close>

lemma sum_qty_exact:
  assumes "\<forall>v \<in> set vs. on_grid g (bval (rem_q v)) \<and> 0 \<le> bval (rem_q v)"
    and "(\<Sum>v\<leftarrow>vs. bval (rem_q v)) < 2 powi (g + 53)"
  shows "sum_qty vs = BF 53 (\<Sum>v\<leftarrow>vs. bval (rem_q v))"
proof -
  have gen: "foldl (\<lambda>a v. bf_add a a (rem_q v)) (BF 53 c) ws = BF 53 (c + (\<Sum>v\<leftarrow>ws. bval (rem_q v)))"
    if "on_grid g c" "0 \<le> c" "\<forall>v \<in> set ws. on_grid g (bval (rem_q v)) \<and> 0 \<le> bval (rem_q v)"
      "c + (\<Sum>v\<leftarrow>ws. bval (rem_q v)) < 2 powi (g + int 53)" for c ws
    using that
  proof (induction ws arbitrary: c)
    case (Cons w ws)
    let ?d = "c + bval (rem_q w)"
    have s: "0 \<le> (\<Sum>v\<leftarrow>ws. bval (rem_q v))" by (rule sum_list_nonneg) (use Cons.prems(3) in auto)
    have d: "on_grid g ?d" "0 \<le> ?d" using Cons.prems(1-3) by (auto intro: on_grid_add)
    have "\<bar>?d\<bar> < 2 powi (g + int 53)" using Cons.prems(4) s d(2) by simp
    then have "fround 53 ?d = ?d" using d(1) by (intro fround_exact) simp_all
    then show ?case using Cons.IH [OF d] Cons.prems(3,4) by (simp add: bf_add_def res_prec_def add.assoc)
  qed simp
  show ?thesis using gen [of 0 vs] assms by (simp add: sum_qty_def NewFloat_def)
qed

section \<open>Properties\<close>

definition is_levels :: "side \<Rightarrow> order list \<Rightarrow> int \<Rightarrow> price_level list \<Rightarrow> bool" where
  "is_levels sd vs n ls \<longleftrightarrow> (\<exists>ks. ls = take (level_limit n) (map (level_of sd vs) ks) \<and> distinct ks \<and>
     set ks = price_key ` {v \<in> set vs. counts sd v} \<and>
     sorted (map (\<lambda>k. if sd = Buy then - parsed_key k else parsed_key k) ks))"

definition demo_level_order :: order where
  "demo_level_order = NewOrder ''o1'' 1 ''alice'' ''BTC/USDT'' Sell Limit (Some (BF 128 100)) (Some (BF 128 9007199254740993))"

definition demo_depth_book :: book where
  "demo_depth_book = (NewOrderBook (\<lambda>r. demo_level_order) ''BTC/USDT'')\<lparr>orders := [(''o1'', 0)], nextref := 1, asks := [0]\<rparr>"

lemma demo_level_simps [simp]:
  "o_Side demo_level_order = Sell" "o_Price demo_level_order = Some (BF 128 100)"
  "o_RemainingQty demo_level_order = Some (BF 128 9007199254740993)"
  by (simp_all add: demo_level_order_def NewOrder_def newBigFloatCopy_def bf_set_def newBigFloat_def DefaultPrecision_def)

lemma fround_53_odd: "fround 53 9007199254740993 = 9007199254740992"
proof -
  have b: "bexp 9007199254740993 = 54" by (rule bexp_unique) (simp_all add: power_int_def)
  have f: "\<lfloor>9007199254740993 / 2 :: rat\<rfloor> = 4503599627370496" by (rule floor_unique) simp_all
  have "round_even (9007199254740993 / 2) = 4503599627370496" by (simp add: round_even_def Let_def f)
  then show ?thesis by (simp add: fround_def b)
qed

text \<open>
  The depth is the book. When every order of the book has a price and a remaining quantity, \<open>Depth\<close> returns, and each
  side of what it returns is the list of the best levels, at most as many as asked for (100 when the caller asks for none): one level per price text
  of the live orders of the side, best price first, with the number of orders at that price and the sum of their
  remaining quantities as the code's accumulator computes it.
\<close>

theorem Depth_correct:
  assumes "\<forall>(i, r) \<in> set (orders s). levelable (store s r)"
  shows "\<exists>bs sl. Depth n s = Done \<lparr>d_Pair = ob_Pair s, d_Bids = bs, d_Asks = sl, d_SeqNo = seqNo s\<rparr> \<and>
    is_levels Buy (map (\<lambda>(i, r). store s r) (orders s)) n bs \<and>
    is_levels Sell (map (\<lambda>(i, r). store s r) (orders s)) n sl"
proof -
  let ?vs = "map (\<lambda>(i, r). store s r) (orders s)"
  have l: "\<forall>v \<in> set ?vs. o_Side v = sd \<longrightarrow> levelable v" for sd using assms by auto
  from aggregate_ok [OF l, of Buy n] obtain bs where
    b: "aggregateLevelsFromMap ?vs Buy n = Done bs" "is_levels Buy ?vs n bs" unfolding is_levels_def by blast
  from aggregate_ok [OF l, of Sell n] obtain sl where
    s: "aggregateLevelsFromMap ?vs Sell n = Done sl" "is_levels Sell ?vs n sl" unfolding is_levels_def by blast
  show ?thesis
    by (rule exI [of _ bs], rule exI [of _ sl]) (simp only: Depth_def Let_def b s obind.simps simp_thms)
qed

theorem Depth_correct_witness:
  "\<exists>d. Depth 0 demo_depth_book = Done d \<and> is_levels Sell [demo_level_order] 0 (d_Asks d)"
proof -
  have s: "orders demo_depth_book = [(''o1'', 0)]" "store demo_depth_book = (\<lambda>r. demo_level_order)"
    by (simp_all add: demo_depth_book_def NewOrderBook_def)
  then show ?thesis using Depth_correct [of demo_depth_book 0] by (auto simp: levelable_def)
qed

text \<open>
  A level's quantity is exact on a 53-bit grid. When the remaining quantities at a price are multiples of one power of two and their
  sum is below 2 to the 53 times it, the level carries exactly their sum.
\<close>

theorem level_quantity_exact:
  assumes "\<forall>v \<in> set (at_key sd k vs). on_grid g (bval (rem_q v))"
    and "(\<Sum>v\<leftarrow>at_key sd k vs. bval (rem_q v)) < 2 powi (g + 53)"
  shows "bval (pl_Quantity (level_of sd vs k)) = (\<Sum>v\<leftarrow>at_key sd k vs. bval (rem_q v))"
proof -
  have "\<forall>v \<in> set (at_key sd k vs). on_grid g (bval (rem_q v)) \<and> 0 \<le> bval (rem_q v)"
    using assms(1) by (auto simp: at_key_def counts_def)
  from sum_qty_exact [OF this assms(2)] show ?thesis by (simp add: level_of_def)
qed

theorem level_quantity_exact_witness:
  "bval (pl_Quantity (level_of Sell [demo_level_order\<lparr>o_RemainingQty := Some (BF 128 5)\<rparr>] (price_key demo_level_order))) = 5"
proof -
  let ?v = "demo_level_order\<lparr>o_RemainingQty := Some (BF 128 5)\<rparr>"
  have k: "at_key Sell (price_key demo_level_order) [?v] = [?v]" by (simp add: at_key_def counts_def price_key_def)
  have "on_grid 0 5" using on_grid_int [of 5] by simp
  then have "\<forall>v \<in> set (at_key Sell (price_key demo_level_order) [?v]). on_grid 0 (bval (rem_q v))"
    "(\<Sum>v\<leftarrow>at_key Sell (price_key demo_level_order) [?v]. bval (rem_q v)) < 2 powi (0 + 53)" by (simp_all add: k)
  from level_quantity_exact [OF this] show ?thesis by (simp add: k)
qed

text \<open>
  A level rounds to 53 bits what the book keeps at 128. The accumulator of a level is \<open>big.NewFloat(0)\<close>, whose precision is 53,
  so a level made of a single order shows that order's quantity rounded to 53 bits.
\<close>

theorem single_level_rounds:
  assumes "o_Price v = Some p" "o_RemainingQty v = Some q" "0 < bval q"
  shows "aggregateLevelsFromMap [v] (o_Side v) n =
    Done [\<lparr>pl_Price = p, pl_Quantity = BF 53 (fround 53 (bval q)), pl_Count = 1\<rparr>]"
proof -
  obtain m where m: "level_limit n = Suc m" by (cases "level_limit n") (auto simp: level_limit_def split: if_splits)
  have s: "sortPriceLevels sd [k] = [k]" for sd k by (simp add: sortPriceLevels_def)
  have "add_levels (o_Side v) [v] ([], []) =
      Done ([(text_f 18 p, \<lparr>pl_Price = p, pl_Quantity = BF 53 (fround 53 (bval q)), pl_Count = 1\<rparr>)], [text_f 18 p])"
    using assms by (simp add: add_level_def bf_add_def res_prec_def NewFloat_def Let_def)
  then show ?thesis by (simp add: aggregateLevelsFromMap_def s m)
qed

theorem single_level_rounds_witness:
  "\<exists>l. aggregateLevelsFromMap [demo_level_order] Sell 0 = Done [l] \<and>
     bval (pl_Quantity l) = 9007199254740992 \<and> bval (rem_q demo_level_order) = 9007199254740993"
  using single_level_rounds [of demo_level_order "BF 128 100" "BF 128 9007199254740993" 0]
  by (simp add: rem_q_def fround_53_odd)

end
