(* ===== verification/Ring_Buffer.thy ===== *)
theory Ring_Buffer
  imports Prelude
begin

text \<open>
  \<open>internal/matching/ringbuffer.go\<close>: the ring buffers between submitters and the engine loop. Indices
  are 64-bit words that wrap; a slot is selected with a mask. This theory has the data, the
  sequential operations and their contract as a bounded queue. A slot is an option, \<open>nil\<close> being \<open>None\<close>.
\<close>

unbundle bit_operations_syntax

section \<open>Data and operations\<close>

record 'a ring =
  rb_buffer :: "'a option list"
  rb_mask :: "64 word"
  rb_head :: "64 word"
  rb_tail :: "64 word"

text \<open>The loop that rounds the capacity up to a power of two; it need not end.\<close>

partial_function (option) grow_cap :: "64 word \<Rightarrow> 64 word \<Rightarrow> 64 word option" where
  "grow_cap cap capacity = (if cap < capacity then grow_cap (push_bit 1 cap) capacity else Some cap)"

definition NewRingBuffer :: "64 word \<Rightarrow> 'a ring option" where
  "NewRingBuffer capacity =
     map_option (\<lambda>cap. \<lparr>rb_buffer = replicate (unat cap) None, rb_mask = cap - 1, rb_head = 0, rb_tail = 0\<rparr>)
       (grow_cap 1 capacity)"

definition slot :: "'a ring \<Rightarrow> 64 word \<Rightarrow> nat" where
  "slot rb i = unat (i AND rb_mask rb)"

definition Enqueue :: "'a \<Rightarrow> 'a ring \<Rightarrow> bool \<times> 'a ring" where
  "Enqueue x rb =
     (if rb_mask rb \<le> rb_tail rb - rb_head rb then (False, rb)
      else (True, rb\<lparr>rb_buffer := (rb_buffer rb)[slot rb (rb_tail rb) := Some x], rb_tail := rb_tail rb + 1\<rparr>))"

fun drain_from :: "nat \<Rightarrow> 64 word \<Rightarrow> 'a ring \<Rightarrow> 'a option list \<times> 'a ring" where
  "drain_from 0 i rb = ([], rb)"
| "drain_from (Suc n) i rb =
     (let x = rb_buffer rb ! slot rb i;
          (xs, rb') = drain_from n (i + 1) (rb\<lparr>rb_buffer := (rb_buffer rb)[slot rb i := None]\<rparr>)
      in (x # xs, rb'))"

definition Drain :: "'a ring \<Rightarrow> 'a option list \<times> 'a ring" where
  "Drain rb =
     (let n = unat (rb_tail rb - rb_head rb); (xs, rb') = drain_from n (rb_head rb) rb
      in (xs, rb'\<lparr>rb_head := rb_tail rb\<rparr>))"

text \<open>
  The consumer side of \<open>MPRingBuffer\<close>, run while no producer moves: it stops at the first slot that is reserved but
  not yet published, and leaves the head there.
\<close>

fun mp_collect :: "nat \<Rightarrow> 64 word \<Rightarrow> 'a ring \<Rightarrow> 'a list \<times> 'a ring" where
  "mp_collect 0 i rb = ([], rb)"
| "mp_collect (Suc n) i rb =
     (case rb_buffer rb ! slot rb i of
        None \<Rightarrow> ([], rb)
      | Some x \<Rightarrow>
          let (xs, rb') = mp_collect n (i + 1) (rb\<lparr>rb_buffer := (rb_buffer rb)[slot rb i := None]\<rparr>)
          in (x # xs, rb'))"

definition MPDrain :: "'a ring \<Rightarrow> 'a list \<times> 'a ring" where
  "MPDrain rb =
     (let (xs, rb') = mp_collect (unat (rb_tail rb - rb_head rb)) (rb_head rb) rb
      in (xs, if xs = [] then rb' else rb'\<lparr>rb_head := rb_head rb + of_nat (length xs)\<rparr>))"

definition DrainStalled :: "'a ring \<Rightarrow> bool" where
  "DrainStalled rb \<longleftrightarrow> rb_head rb < rb_tail rb \<and> rb_buffer rb ! slot rb (rb_head rb) = None"

definition Len :: "'a ring \<Rightarrow> 64 word" where
  "Len rb = rb_tail rb - rb_head rb"

section \<open>Capacity\<close>

lemma grow_cap_step: "c < n \<Longrightarrow> grow_cap c n = grow_cap (push_bit 1 c) n"
  by (subst grow_cap.simps) simp

lemma grow_cap_stop: "n \<le> c \<Longrightarrow> grow_cap c n = Some c"
  by (subst grow_cap.simps) (simp add: leD)

lemma grow_cap_pow:
  assumes "n \<le> 2 ^ 63" "k \<le> 63"
  shows "\<exists>j \<le> 63. k \<le> j \<and> grow_cap (2 ^ k) n = Some (2 ^ j) \<and> n \<le> 2 ^ j"
  using assms(2)
proof (induction "63 - k" arbitrary: k)
  case 0
  then have "k = 63" by simp
  then show ?case using assms(1) grow_cap_stop [of n "2 ^ k"] by (intro exI [of _ 63]) simp
next
  case (Suc d)
  show ?case
  proof (cases "(2 :: 64 word) ^ k < n")
    case True
    have "d = 63 - Suc k" "Suc k \<le> 63" using Suc.hyps(2) by simp_all
    from Suc.hyps(1) [OF this] obtain j where "j \<le> 63" "Suc k \<le> j" "grow_cap (2 ^ Suc k) n = Some (2 ^ j)" "n \<le> 2 ^ j"
      by blast
    moreover have "push_bit 1 ((2 :: 64 word) ^ k) = 2 ^ Suc k" by (simp add: push_bit_eq_mult)
    ultimately show ?thesis using grow_cap_step [OF True] by (intro exI [of _ j]) (simp add: mult.commute)
  next
    case False
    then show ?thesis using Suc.prems grow_cap_stop [of n "2 ^ k"] by (intro exI [of _ k]) (simp add: not_less)
  qed
qed

lemma unat_pow: "k < 64 \<Longrightarrow> unat ((2 :: 64 word) ^ k) = 2 ^ k"
proof -
  assume "k < 64"
  then have "(2 :: nat) ^ k < 2 ^ 64" by (intro power_strict_increasing) simp_all
  moreover have "(2 :: 64 word) ^ k = of_nat (2 ^ k)" by simp
  ultimately show ?thesis by (simp add: unat_of_nat take_bit_nat_eq_self del: of_nat_power)
qed

text \<open>A capacity above \<open>2 ^ 63\<close> shifts the bit out, after which the loop runs for ever on zero.\<close>

definition dies_out :: "64 word \<Rightarrow> bool" where
  "dies_out c \<longleftrightarrow> c = 0 \<or> (\<exists>k. k \<le> 63 \<and> c = 2 ^ k)"

lemma dies_out_shift: "dies_out c \<Longrightarrow> dies_out (push_bit 1 c)"
  unfolding dies_out_def
proof (elim disjE exE conjE)
  fix k :: nat
  assume k: "k \<le> 63" "c = 2 ^ k"
  have p: "push_bit 1 c = 2 ^ Suc k" by (simp add: k(2) push_bit_eq_mult)
  show "push_bit 1 c = 0 \<or> (\<exists>k. k \<le> 63 \<and> push_bit 1 c = 2 ^ k)"
  proof (cases "k = 63")
    case True
    then show ?thesis unfolding p by (intro disjI1) simp
  next
    case False
    then show ?thesis using k(1) unfolding p by (intro disjI2 exI [of _ "Suc k"]) simp
  qed
qed simp

lemma dies_out_less: "dies_out c \<Longrightarrow> 2 ^ 63 < n \<Longrightarrow> c < n"
proof -
  assume c: "dies_out c" and n: "2 ^ 63 < n"
  have "c \<le> 2 ^ 63" using c unfolding dies_out_def
  proof (elim disjE exE conjE)
    fix k :: nat
    assume k: "k \<le> 63" "c = 2 ^ k"
    then have "(2 :: nat) ^ k \<le> 2 ^ 63" by (intro power_increasing) simp_all
    moreover have "unat ((2 :: 64 word) ^ k) = 2 ^ k" using k(1) by (simp add: unat_pow)
    ultimately show ?thesis by (simp add: word_le_nat_alt k(2))
  qed simp
  then show ?thesis using n by simp
qed

lemma grow_cap_bit:
  assumes "grow_cap c n = Some y"
  shows "2 ^ 63 < n \<longrightarrow> \<not> dies_out c"
proof (rule grow_cap.raw_induct [where P = "\<lambda>c n y. 2 ^ 63 < n \<longrightarrow> \<not> dies_out c", OF _ assms])
  fix grow :: "64 word \<Rightarrow> 64 word \<Rightarrow> 64 word option" and c n y
  assume ih: "\<And>c n y. grow c n = Some y \<Longrightarrow> 2 ^ 63 < n \<longrightarrow> \<not> dies_out c"
    and body: "(if c < n then grow (push_bit 1 c) n else Some c) = Some y"
  show "2 ^ 63 < n \<longrightarrow> \<not> dies_out c"
  proof (intro impI notI)
    assume n: "2 ^ 63 < n" and c: "dies_out c"
    have "grow (push_bit 1 c) n = Some y" using body dies_out_less [OF c n] by (simp split: if_splits)
    then show False using ih n dies_out_shift [OF c] by blast
  qed
qed

lemma grow_cap_diverges: "2 ^ 63 < n \<Longrightarrow> grow_cap 1 n = None"
proof -
  assume n: "2 ^ 63 < n"
  have "grow_cap 1 n \<noteq> Some y" for y
  proof
    assume "grow_cap 1 n = Some y"
    then have "\<not> dies_out 1" using grow_cap_bit n by blast
    then show False unfolding dies_out_def by (metis power_0 zero_le)
  qed
  then show ?thesis by (cases "grow_cap 1 n") auto
qed

section \<open>The window of live slots\<close>

text \<open>
  A ring of \<open>2 ^ k\<close> slots, and the values between head and tail. One slot always stays free: at most \<open>2 ^ k - 1\<close>
  values are queued.
\<close>

definition shaped :: "nat \<Rightarrow> 'a ring \<Rightarrow> bool" where
  "shaped k rb \<longleftrightarrow> k \<le> 63 \<and> rb_mask rb = 2 ^ k - 1 \<and> length (rb_buffer rb) = 2 ^ k"

definition used :: "'a ring \<Rightarrow> nat" where
  "used rb = unat (rb_tail rb - rb_head rb)"

definition window :: "nat \<Rightarrow> 'a ring \<Rightarrow> 'a option list" where
  "window k rb = map (\<lambda>i. rb_buffer rb ! ((unat (rb_head rb) + i) mod 2 ^ k)) [0..<used rb]"

lemma mask_pow: "k \<le> 63 \<Longrightarrow> unat (i AND (2 ^ k - 1 :: 64 word)) = unat i mod 2 ^ k"
proof -
  assume "k \<le> 63"
  have "i AND (2 ^ k - 1) = take_bit k i" by (simp add: take_bit_eq_mask mask_eq_exp_minus_1)
  moreover have "unat (take_bit k i) = take_bit k (unat i)" by (rule unsigned_take_bit_eq)
  ultimately show ?thesis by (simp only: take_bit_eq_mod [of k "unat i"])
qed

lemma slot_shaped: "shaped k rb \<Longrightarrow> slot rb i = unat i mod 2 ^ k"
  by (simp add: slot_def shaped_def mask_pow)

lemma unat_add_mod: "k \<le> 63 \<Longrightarrow> unat (h + of_nat i :: 64 word) mod 2 ^ k = (unat h + i) mod 2 ^ k"
proof -
  assume k: "k \<le> 63"
  have d: "(2 :: nat) ^ k dvd 2 ^ 64" using k by (intro le_imp_power_dvd) simp
  have "unat (h + of_nat i :: 64 word) = (unat h + unat (of_nat i :: 64 word)) mod 2 ^ 64"
    by (simp add: unat_word_ariths)
  also have "... = (unat h + i) mod 2 ^ 64"
    by (simp add: unat_of_nat take_bit_eq_mod mod_add_right_eq)
  finally show ?thesis by (simp only: mod_mod_cancel [OF d])
qed

lemma slot_add: "shaped k rb \<Longrightarrow> slot rb (h + of_nat i) = (unat h + i) mod 2 ^ k"
  using unat_add_mod [of k h i] by (simp add: slot_shaped) (simp add: shaped_def)

lemma unat_mask: "k \<le> 63 \<Longrightarrow> unat (2 ^ k - 1 :: 64 word) = 2 ^ k - 1"
proof -
  assume k: "k \<le> 63"
  have "(1 :: 64 word) \<le> 2 ^ k" using k unat_pow [of k] by (simp add: word_le_nat_alt)
  then show ?thesis using k unat_pow [of k] by (simp add: unat_sub_if')
qed

lemma mod_window_inj:
  fixes h i j m :: nat
  assumes "(h + i) mod m = (h + j) mod m" "i < m" "j < m"
  shows "i = j"
proof -
  have le: "i = j" if a: "(h + j) mod m = (h + i) mod m" "i \<le> j" "j < m" for i j
  proof -
    have "m dvd (h + j) - (h + i)" using a(1,2) mod_eq_dvd_iff_nat [of "h + i" "h + j" m] by simp
    then have "m dvd j - i" by simp
    then show ?thesis using a(2,3) by (metis dvd_imp_le le_antisym less_imp_diff_less not_le zero_less_diff le_neq_implies_less)
  qed
  show ?thesis using le [of i j] le [of j i] assms by (metis nat_le_linear)
qed

lemma shaped_buffer [simp]: "shaped k (rb\<lparr>rb_buffer := (rb_buffer rb)[j := x]\<rparr>) = shaped k rb"
  by (simp add: shaped_def)

section \<open>The contract: a bounded first-in first-out queue\<close>

text \<open>
  What the engine loop relies on: an accepted order joins the end, a full queue refuses, a drain hands out everything
  in order. Over any sequence of calls, what has been drained followed by what is
  still queued is what was accepted, in order, each once.
\<close>

datatype 'a op = Put 'a | Take_all

fun queue_run :: "('a \<Rightarrow> 'q \<Rightarrow> bool \<times> 'q) \<Rightarrow> ('q \<Rightarrow> 'a list \<times> 'q) \<Rightarrow> 'a op list \<Rightarrow> 'q \<Rightarrow> 'a list \<times> 'a list \<times> 'q" where
  "queue_run enq drain [] q = ([], [], q)"
| "queue_run enq drain (Put x # ops) q =
     (let (b, q1) = enq x q; (acc, out, q2) = queue_run enq drain ops q1 in (if b then x # acc else acc, out, q2))"
| "queue_run enq drain (Take_all # ops) q =
     (let (xs, q1) = drain q; (acc, out, q2) = queue_run enq drain ops q1 in (acc, xs @ out, q2))"

locale bounded_fifo =
  fixes ok :: "'q \<Rightarrow> bool" and items :: "'q \<Rightarrow> 'a list" and room :: nat
    and enq :: "'a \<Rightarrow> 'q \<Rightarrow> bool \<times> 'q" and drain :: "'q \<Rightarrow> 'a list \<times> 'q"
  assumes enq_ok: "ok q \<Longrightarrow> ok (snd (enq x q))"
    and enq_accepts: "ok q \<Longrightarrow> fst (enq x q) \<longleftrightarrow> length (items q) < room"
    and enq_items: "ok q \<Longrightarrow> items (snd (enq x q)) = (if fst (enq x q) then items q @ [x] else items q)"
    and drain_ok: "ok q \<Longrightarrow> ok (snd (drain q))"
    and drain_items: "ok q \<Longrightarrow> fst (drain q) = items q \<and> items (snd (drain q)) = []"
begin

lemma exactly_once:
  assumes "ok q" "queue_run enq drain ops q = (acc, out, q')"
  shows "ok q' \<and> items q @ acc = out @ items q'"
  using assms
proof (induction ops arbitrary: q acc out q')
  case (Cons o' ops)
  show ?case
  proof (cases o')
    case (Put x)
    obtain b q1 where e: "enq x q = (b, q1)" by fastforce
    obtain a o2 q2 where r: "queue_run enq drain ops q1 = (a, o2, q2)" by (metis prod_cases3)
    have "ok q1" "items q1 = (if b then items q @ [x] else items q)"
      using enq_ok [OF Cons.prems(1), of x] enq_items [OF Cons.prems(1), of x] e by auto
    then show ?thesis using Cons.IH [OF _ r] Cons.prems(2) e r Put by (auto split: if_splits)
  next
    case Take_all
    obtain xs q1 where d: "drain q = (xs, q1)" by fastforce
    obtain a o2 q2 where r: "queue_run enq drain ops q1 = (a, o2, q2)" by (metis prod_cases3)
    have "ok q1" "xs = items q" "items q1 = []" using drain_ok [OF Cons.prems(1)] drain_items [OF Cons.prems(1)] d by auto
    then show ?thesis using Cons.IH [OF _ r] Cons.prems(2) d r Take_all by auto
  qed
qed simp

end

section \<open>The rings keep the contract\<close>

text \<open>A ring whose slots between head and tail are all published.\<close>

definition full_window :: "nat \<Rightarrow> 'a ring \<Rightarrow> bool" where
  "full_window k rb \<longleftrightarrow> shaped k rb \<and> used rb < 2 ^ k \<and> None \<notin> set (window k rb)"

definition queued :: "nat \<Rightarrow> 'a ring \<Rightarrow> 'a list" where
  "queued k rb = map the (window k rb)"

lemma length_queued [simp]: "length (queued k rb) = used rb"
  by (simp add: queued_def window_def)

lemma map_Some_the: "None \<notin> set xs \<Longrightarrow> map Some (map the xs) = xs"
  by (induction xs) auto

lemma window_Some: "full_window k rb \<Longrightarrow> window k rb = map Some (queued k rb)"
  by (simp add: queued_def full_window_def map_Some_the del: map_map)

lemma Enqueue_accepts: "shaped k rb \<Longrightarrow> fst (Enqueue x rb) \<longleftrightarrow> used rb < 2 ^ k - 1"
proof -
  assume s: "shaped k rb"
  then have "unat (rb_mask rb) = 2 ^ k - 1" using unat_mask by (simp add: shaped_def)
  then show ?thesis by (simp add: Enqueue_def used_def word_le_nat_alt not_le)
qed

lemma used_Suc: "used rb < 2 ^ 63 \<Longrightarrow> unat (rb_tail rb + 1 - rb_head rb) = Suc (used rb)"
proof -
  assume u: "used rb < 2 ^ 63"
  have "rb_tail rb + 1 - rb_head rb = (rb_tail rb - rb_head rb) + 1" by simp
  moreover have "unat ((rb_tail rb - rb_head rb) + 1) = (used rb + 1) mod 2 ^ 64"
    by (simp add: unat_word_ariths used_def)
  ultimately have "unat (rb_tail rb + 1 - rb_head rb) = (used rb + 1) mod 2 ^ 64" by (simp only:)
  then show ?thesis using u by simp
qed

lemma tail_split: "rb_tail rb = rb_head rb + of_nat (used rb)"
  by (simp add: used_def)

lemma Enqueue_window:
  assumes "shaped k rb" "used rb < 2 ^ k - 1"
  shows "window k (snd (Enqueue x rb)) = window k rb @ [Some x]"
    "shaped k (snd (Enqueue x rb))" "used (snd (Enqueue x rb)) = Suc (used rb)" "fst (Enqueue x rb)"
proof -
  have k: "k \<le> 63" using assms(1) by (simp add: shaped_def)
  have "(2 :: nat) ^ k \<le> 2 ^ 63" using k by (intro power_increasing) simp_all
  then have u: "used rb < 2 ^ 63" using assms(2) by linarith
  show acc: "fst (Enqueue x rb)" using Enqueue_accepts [OF assms(1)] assms(2) by simp
  then have e: "snd (Enqueue x rb) = rb\<lparr>rb_buffer := (rb_buffer rb)[slot rb (rb_tail rb) := Some x], rb_tail := rb_tail rb + 1\<rparr>"
    by (auto simp: Enqueue_def split: if_splits)
  have sl: "slot rb (rb_tail rb) = (unat (rb_head rb) + used rb) mod 2 ^ k"
    by (subst tail_split) (rule slot_add [OF assms(1)])
  show "shaped k (snd (Enqueue x rb))" using assms(1) by (simp add: e shaped_def)
  show us: "used (snd (Enqueue x rb)) = Suc (used rb)" using used_Suc [OF u] by (simp add: e used_def)
  have "rb_buffer (snd (Enqueue x rb)) ! ((unat (rb_head rb) + i) mod 2 ^ k) =
      (if i = used rb then Some x else rb_buffer rb ! ((unat (rb_head rb) + i) mod 2 ^ k))" if "i \<le> used rb" for i
  proof -
    have "(unat (rb_head rb) + used rb) mod 2 ^ k = (unat (rb_head rb) + i) mod 2 ^ k \<longleftrightarrow> i = used rb"
      using mod_window_inj [of "unat (rb_head rb)" i "2 ^ k" "used rb"] that assms(2) by auto
    moreover have "length (rb_buffer rb) = 2 ^ k" using assms(1) by (simp add: shaped_def)
    ultimately show ?thesis by (simp add: e sl nth_list_update)
  qed
  then show "window k (snd (Enqueue x rb)) = window k rb @ [Some x]"
    unfolding window_def us by (auto simp: e)
qed

lemma slot_next:
  assumes "shaped k rb" "Suc n \<le> 2 ^ k" "t < n"
  shows "((rb_buffer rb)[slot rb (h + of_nat j) := y]) ! ((unat h + (Suc j + t)) mod 2 ^ k) =
    rb_buffer rb ! ((unat h + (Suc j + t)) mod 2 ^ k)"
proof -
  have "(unat h + j + 0) mod 2 ^ k \<noteq> (unat h + j + Suc t) mod 2 ^ k"
    using mod_window_inj [of "unat h + j" 0 "2 ^ k" "Suc t"] assms(2,3) by auto
  then have "slot rb (h + of_nat j) \<noteq> (unat h + (Suc j + t)) mod 2 ^ k"
    by (simp add: slot_add [OF assms(1)] add.assoc)
  then show ?thesis by simp
qed

lemma drain_from_ok:
  assumes "shaped k rb" "n \<le> 2 ^ k"
  shows "fst (drain_from n (h + of_nat j) rb) = map (\<lambda>t. rb_buffer rb ! ((unat h + (j + t)) mod 2 ^ k)) [0..<n] \<and>
    shaped k (snd (drain_from n (h + of_nat j) rb)) \<and> rb_tail (snd (drain_from n (h + of_nat j) rb)) = rb_tail rb"
  using assms
proof (induction n arbitrary: j rb)
  case (Suc n)
  define rb1 where "rb1 = rb\<lparr>rb_buffer := (rb_buffer rb)[slot rb (h + of_nat j) := None]\<rparr>"
  have s1: "shaped k rb1" "rb_tail rb1 = rb_tail rb" using Suc.prems(1) by (simp_all add: rb1_def)
  have nx: "h + of_nat j + 1 = h + of_nat (Suc j)" by simp
  have d: "drain_from (Suc n) (h + of_nat j) rb =
      (let (xs, rb') = drain_from n (h + of_nat (Suc j)) rb1 in (rb_buffer rb ! ((unat h + j) mod 2 ^ k) # xs, rb'))"
    unfolding drain_from.simps Let_def rb1_def nx slot_add [OF Suc.prems(1)] ..
  have "map (\<lambda>t. rb_buffer rb1 ! ((unat h + (Suc j + t)) mod 2 ^ k)) [0..<n] =
      map (\<lambda>t. rb_buffer rb ! ((unat h + (Suc j + t)) mod 2 ^ k)) [0..<n]"
    using slot_next [OF Suc.prems] by (auto simp: rb1_def)
  moreover have "map (\<lambda>t. rb_buffer rb ! ((unat h + (j + t)) mod 2 ^ k)) [0..<Suc n] =
      rb_buffer rb ! ((unat h + j) mod 2 ^ k) # map (\<lambda>t. rb_buffer rb ! ((unat h + (Suc j + t)) mod 2 ^ k)) [0..<n]"
    unfolding upt_conv_Cons [OF zero_less_Suc] map_Suc_upt [symmetric] by simp
  ultimately show ?case using Suc.IH [OF s1(1), of "Suc j"] Suc.prems(2) s1(2)
    unfolding d by (auto simp: split_beta)
qed simp

lemma Drain_window:
  assumes "shaped k rb" "used rb < 2 ^ k"
  shows "fst (Drain rb) = window k rb" "shaped k (snd (Drain rb))" "used (snd (Drain rb)) = 0"
  using drain_from_ok [OF assms(1), of "used rb" "rb_head rb" 0] assms(2)
  by (auto simp: Drain_def Let_def used_def window_def split_beta shaped_def)

text \<open>The consumer of \<open>MPRingBuffer\<close> takes the published prefix and leaves the rest in place.\<close>

lemma mp_collect_ok:
  assumes "shaped k rb" "n \<le> 2 ^ k"
  shows "\<exists>m rb'. mp_collect n (h + of_nat j) rb =
      (map (\<lambda>t. the (rb_buffer rb ! ((unat h + (j + t)) mod 2 ^ k))) [0..<m], rb') \<and> m \<le> n \<and>
    (\<forall>t < m. rb_buffer rb ! ((unat h + (j + t)) mod 2 ^ k) \<noteq> None) \<and>
    (m < n \<longrightarrow> rb_buffer rb ! ((unat h + (j + m)) mod 2 ^ k) = None) \<and>
    shaped k rb' \<and> rb_tail rb' = rb_tail rb \<and> rb_head rb' = rb_head rb \<and>
    (\<forall>t. m \<le> t \<and> t < n \<longrightarrow> rb_buffer rb' ! ((unat h + (j + t)) mod 2 ^ k) = rb_buffer rb ! ((unat h + (j + t)) mod 2 ^ k))"
  using assms
proof (induction n arbitrary: j rb)
  case (Suc n)
  show ?case
  proof (cases "rb_buffer rb ! ((unat h + j) mod 2 ^ k)")
    case None
    then show ?thesis using Suc.prems(1) by (intro exI [of _ 0] exI [of _ rb]) (simp add: slot_add)
  next
    case (Some x)
    define rb1 where "rb1 = rb\<lparr>rb_buffer := (rb_buffer rb)[slot rb (h + of_nat j) := None]\<rparr>"
    have s1: "shaped k rb1" "rb_tail rb1 = rb_tail rb" "rb_head rb1 = rb_head rb" using Suc.prems(1) by (simp_all add: rb1_def)
    have nx: "h + of_nat j + 1 = h + of_nat (Suc j)" by simp
    have nt: "rb_buffer rb1 ! ((unat h + (Suc j + t)) mod 2 ^ k) = rb_buffer rb ! ((unat h + (Suc j + t)) mod 2 ^ k)" if "t < n" for t
      using slot_next [OF Suc.prems that] by (simp add: rb1_def)
    obtain m rb' where m: "mp_collect n (h + of_nat (Suc j)) rb1 =
        (map (\<lambda>t. the (rb_buffer rb1 ! ((unat h + (Suc j + t)) mod 2 ^ k))) [0..<m], rb')" "m \<le> n"
      "\<forall>t < m. rb_buffer rb1 ! ((unat h + (Suc j + t)) mod 2 ^ k) \<noteq> None"
      "m < n \<longrightarrow> rb_buffer rb1 ! ((unat h + (Suc j + m)) mod 2 ^ k) = None"
      "shaped k rb'" "rb_tail rb' = rb_tail rb1" "rb_head rb' = rb_head rb1"
      "\<forall>t. m \<le> t \<and> t < n \<longrightarrow> rb_buffer rb' ! ((unat h + (Suc j + t)) mod 2 ^ k) = rb_buffer rb1 ! ((unat h + (Suc j + t)) mod 2 ^ k)"
      using Suc.IH [OF s1(1), of "Suc j"] Suc.prems(2) by auto
    have col: "mp_collect (Suc n) (h + of_nat j) rb =
        (x # map (\<lambda>t. the (rb_buffer rb1 ! ((unat h + (Suc j + t)) mod 2 ^ k))) [0..<m], rb')"
      unfolding mp_collect.simps slot_add [OF Suc.prems(1)] Some option.case
      using m(1) by (simp only: nx rb1_def slot_add [OF Suc.prems(1)] prod.case Let_def)
    have "map (\<lambda>t. the (rb_buffer rb1 ! ((unat h + (Suc j + t)) mod 2 ^ k))) [0..<m] =
        map (\<lambda>t. the (rb_buffer rb ! ((unat h + (Suc j + t)) mod 2 ^ k))) [0..<m]"
      using nt m(2) by (intro map_cong [OF refl]) auto
    then have "mp_collect (Suc n) (h + of_nat j) rb =
        (map (\<lambda>t. the (rb_buffer rb ! ((unat h + (j + t)) mod 2 ^ k))) [0..<Suc m], rb')"
      unfolding col upt_conv_Cons [OF zero_less_Suc] map_Suc_upt [symmetric] using Some by simp
    moreover have "rb_buffer rb ! ((unat h + (j + t)) mod 2 ^ k) \<noteq> None" if "t < Suc m" for t
      using that Some m(2,3) nt by (cases t) auto
    moreover have "rb_buffer rb ! ((unat h + (j + Suc m)) mod 2 ^ k) = None" if "Suc m < Suc n"
      using that m(4) nt [of m] by simp
    moreover have "rb_buffer rb' ! ((unat h + (j + t)) mod 2 ^ k) = rb_buffer rb ! ((unat h + (j + t)) mod 2 ^ k)"
      if "Suc m \<le> t" "t < Suc n" for t
      using that m(8) nt [of "t - 1"] by (cases t) auto
    ultimately show ?thesis using m(2,5-7) s1(2,3) by (intro exI [of _ "Suc m"] exI [of _ rb']) auto
  qed
qed (auto intro!: exI [of _ 0])

definition ring_ok :: "nat \<Rightarrow> 'a ring \<Rightarrow> bool" where
  "ring_ok k rb \<longleftrightarrow> full_window k rb"

definition ring_drain :: "'a ring \<Rightarrow> 'a list \<times> 'a ring" where
  "ring_drain rb = (map the (fst (Drain rb)), snd (Drain rb))"

lemma full_window_empty: "shaped k rb \<Longrightarrow> used rb = 0 \<Longrightarrow> full_window k rb"
  by (simp add: full_window_def window_def)

lemma full_window_Enqueue:
  assumes "full_window k rb"
  shows "full_window k (snd (Enqueue x rb))"
    "queued k (snd (Enqueue x rb)) = (if fst (Enqueue x rb) then queued k rb @ [x] else queued k rb)"
proof -
  have s: "shaped k rb" using assms by (simp add: full_window_def)
  show "full_window k (snd (Enqueue x rb))"
  proof (cases "used rb < 2 ^ k - 1")
    case True
    then show ?thesis using Enqueue_window [OF s True, of x] assms by (auto simp: full_window_def)
  next
    case False
    then show ?thesis using Enqueue_accepts [OF s, of x] assms by (auto simp: Enqueue_def split: if_splits)
  qed
  show "queued k (snd (Enqueue x rb)) = (if fst (Enqueue x rb) then queued k rb @ [x] else queued k rb)"
  proof (cases "used rb < 2 ^ k - 1")
    case True
    then show ?thesis using Enqueue_window [OF s True, of x] by (simp add: queued_def)
  next
    case False
    then show ?thesis using Enqueue_accepts [OF s, of x] by (auto simp: Enqueue_def split: if_splits)
  qed
qed

lemma MPDrain_full:
  assumes "full_window k rb"
  shows "fst (MPDrain rb) = queued k rb" "full_window k (snd (MPDrain rb))" "queued k (snd (MPDrain rb)) = []"
proof -
  have s: "shaped k rb" and u: "used rb \<le> 2 ^ k" using assms by (simp_all add: full_window_def)
  obtain m rb' where m: "mp_collect (used rb) (rb_head rb) rb =
      (map (\<lambda>t. the (rb_buffer rb ! ((unat (rb_head rb) + t) mod 2 ^ k))) [0..<m], rb')" "m \<le> used rb"
    "m < used rb \<longrightarrow> rb_buffer rb ! ((unat (rb_head rb) + m) mod 2 ^ k) = None"
    "shaped k rb'" "rb_tail rb' = rb_tail rb" "rb_head rb' = rb_head rb"
    using mp_collect_ok [OF s u, of "rb_head rb" 0] by auto
  have mu: "m = used rb"
  proof (rule ccontr)
    assume "m \<noteq> used rb"
    then have "m < used rb" using m(2) by simp
    then have "None \<in> set (window k rb)" using m(3) unfolding window_def by (force simp: image_iff)
    then show False using assms by (simp add: full_window_def)
  qed
  have q: "map (\<lambda>t. the (rb_buffer rb ! ((unat (rb_head rb) + t) mod 2 ^ k))) [0..<used rb] = queued k rb"
    by (simp add: queued_def window_def)
  have d: "MPDrain rb = (queued k rb, if queued k rb = [] then rb' else rb'\<lparr>rb_head := rb_head rb + of_nat (used rb)\<rparr>)"
    using m(1) mu q by (simp add: MPDrain_def used_def [symmetric])
  show "fst (MPDrain rb) = queued k rb" by (simp add: d)
  have z: "used (snd (MPDrain rb)) = 0"
  proof (cases "used rb = 0")
    case True
    then have "queued k rb = []" by (metis length_queued length_0_conv)
    then show ?thesis using True m(5,6) by (simp add: d used_def)
  next
    case False
    then have "queued k rb \<noteq> []" by (metis length_queued length_0_conv)
    then show ?thesis by (simp add: d used_def m(5))
  qed
  have "shaped k (snd (MPDrain rb))" using m(4) by (simp add: d shaped_def)
  then show "full_window k (snd (MPDrain rb))" "queued k (snd (MPDrain rb)) = []"
    using z full_window_empty by (auto simp: queued_def window_def)
qed

interpretation spsc: bounded_fifo "full_window k" "queued k" "2 ^ k - 1" Enqueue ring_drain for k
proof
  fix q :: "'a ring" and x
  assume ok: "full_window k q"
  then have s: "shaped k q" "used q < 2 ^ k" by (simp_all add: full_window_def)
  show "full_window k (snd (Enqueue x q))" by (rule full_window_Enqueue [OF ok])
  show "fst (Enqueue x q) \<longleftrightarrow> length (queued k q) < 2 ^ k - 1" using Enqueue_accepts [OF s(1)] by simp
  show "queued k (snd (Enqueue x q)) = (if fst (Enqueue x q) then queued k q @ [x] else queued k q)"
    by (rule full_window_Enqueue [OF ok])
  show "full_window k (snd (ring_drain q))"
    using Drain_window [OF s] by (simp add: ring_drain_def full_window_empty)
  show "fst (ring_drain q) = queued k q \<and> queued k (snd (ring_drain q)) = []"
    using Drain_window [OF s] by (simp add: ring_drain_def queued_def) (simp add: window_def)
qed

interpretation mpsc: bounded_fifo "full_window k" "queued k" "2 ^ k - 1" Enqueue MPDrain for k
proof
  fix q :: "'a ring" and x
  assume ok: "full_window k q"
  then have s: "shaped k q" "used q < 2 ^ k" by (simp_all add: full_window_def)
  show "full_window k (snd (Enqueue x q))" by (rule full_window_Enqueue [OF ok])
  show "fst (Enqueue x q) \<longleftrightarrow> length (queued k q) < 2 ^ k - 1" using Enqueue_accepts [OF s(1)] by simp
  show "queued k (snd (Enqueue x q)) = (if fst (Enqueue x q) then queued k q @ [x] else queued k q)"
    by (rule full_window_Enqueue [OF ok])
  show "full_window k (snd (MPDrain q))" by (rule MPDrain_full [OF ok])
  show "fst (MPDrain q) = queued k q \<and> queued k (snd (MPDrain q)) = []"
    using MPDrain_full [OF ok] by simp
qed

text \<open>A new ring is shaped and empty; its room is one less than its power of two.\<close>

lemma NewRingBuffer_shaped:
  assumes "capacity \<le> 2 ^ 63"
  shows "\<exists>k rb. NewRingBuffer capacity = Some rb \<and> full_window k rb \<and> queued k rb = [] \<and> k \<le> 63 \<and> unat capacity \<le> 2 ^ k"
proof -
  from grow_cap_pow [OF assms, of 0] obtain j where
    j: "j \<le> 63" "grow_cap 1 capacity = Some (2 ^ j)" "capacity \<le> 2 ^ j" by auto
  define rb where "rb = \<lparr>rb_buffer = replicate (unat ((2 :: 64 word) ^ j)) (None :: 'a option), rb_mask = 2 ^ j - 1, rb_head = 0, rb_tail = 0\<rparr>"
  have "NewRingBuffer capacity = Some rb" using j(2) by (simp add: NewRingBuffer_def rb_def)
  moreover have s: "shaped j rb" using j(1) by (simp add: shaped_def rb_def unat_pow)
  moreover have u: "used rb = 0" by (simp add: used_def rb_def)
  moreover have "unat capacity \<le> 2 ^ j" using j(1,3) by (simp add: word_le_nat_alt unat_pow)
  ultimately show ?thesis using full_window_empty [OF s u] j(1)
    by (intro exI [of _ j] exI [of _ rb]) (simp add: queued_def window_def)
qed

section \<open>Properties\<close>

text \<open>
  The constructor of the rings returns exactly for capacities up to \<open>2 ^ 63\<close>: it rounds up to a power of two at least the
  capacity and makes an empty ring; above that the doubling shifts its only bit out and the loop
  never ends.
\<close>

theorem NewRingBuffer_total:
  "(capacity \<le> 2 ^ 63 \<and> (\<exists>k rb. NewRingBuffer capacity = Some rb \<and> full_window k rb \<and> queued k rb = [] \<and> unat capacity \<le> 2 ^ k))
   \<or> (2 ^ 63 < capacity \<and> (NewRingBuffer capacity :: nat ring option) = None)"
proof (cases "capacity \<le> 2 ^ 63")
  case True
  then show ?thesis using NewRingBuffer_shaped by blast
next
  case False
  then show ?thesis using grow_cap_diverges by (simp add: NewRingBuffer_def not_le)
qed

text \<open>
  C15: First in, first out, exactly once. Whatever sequence of enqueues and drains is run on a well-formed multi-producer ring,
  without interleaving inside a call, the orders drained, in order, followed by those still queued are the
  orders queued before followed by the accepted ones.
\<close>

theorem ring_exactly_once:
  assumes "full_window k rb" and "queue_run Enqueue MPDrain ops rb = (accepted, drained, rb')"
  shows "full_window k rb' \<and> queued k rb @ accepted = drained @ queued k rb'"
  using assms by (rule mpsc.exactly_once)

theorem ring_exactly_once_witness:
  "\<exists>rb' acc out. queue_run Enqueue MPDrain [Put 7, Put 8, Take_all, Put (9 :: nat)]
      \<lparr>rb_buffer = [None, None], rb_mask = 1, rb_head = 0, rb_tail = 0\<rparr> = (acc, out, rb') \<and> acc = out @ queued 1 rb'"
proof -
  define rb :: "nat ring" where "rb = \<lparr>rb_buffer = [None, None], rb_mask = 1, rb_head = 0, rb_tail = 0\<rparr>"
  have f: "full_window 1 rb" by (simp add: full_window_def shaped_def rb_def used_def window_def)
  have "queued 1 rb = []" by (simp add: queued_def window_def used_def rb_def)
  then show ?thesis using ring_exactly_once [OF f] unfolding rb_def [symmetric] by (metis append_Nil prod_cases3)
qed

text \<open>
  A ring made for one order holds none. With capacity 0 or 1 the mask is 0, the test for a full ring is
  always true, and every enqueue is refused.
\<close>

theorem tiny_ring_refuses:
  assumes "capacity \<le> 1" and "NewRingBuffer capacity = Some rb"
  shows "fst (Enqueue x rb) = False"
proof -
  have "grow_cap 1 capacity = Some 1" using grow_cap_stop [OF assms(1)] .
  then have "rb_mask rb = 0" using assms(2) by (auto simp: NewRingBuffer_def)
  then show ?thesis by (simp add: Enqueue_def word_le_nat_alt)
qed

theorem tiny_ring_refuses_witness:
  "\<exists>rb. NewRingBuffer 1 = Some rb \<and> fst (Enqueue (5 :: nat) rb) = False"
proof -
  obtain rb :: "nat ring" where rb: "NewRingBuffer 1 = Some rb" using NewRingBuffer_shaped [of 1] by auto
  have "fst (Enqueue 5 rb) = False" by (rule tiny_ring_refuses [OF _ rb]) simp
  with rb show ?thesis by blast
qed

end
