(* ===== verification/Address_Validation.thy ===== *)
theory Address_Validation
  imports Prelude
begin

text \<open>
  \<open>internal/wallet/validate.go\<close>: the strict formats of withdrawal addresses. Strings are ASCII. The hash functions of the
  standard library and of \<open>golang.org/x/crypto\<close> are parameters: \<open>sha\<close> is SHA-256, \<open>keccak\<close> the legacy Keccak-256.
\<close>

unbundle bit_operations_syntax

type_synonym byte = "8 word"

definition lower :: "char \<Rightarrow> char" where
  "lower c = (if 65 \<le> (of_char c :: nat) \<and> (of_char c :: nat) \<le> 90 then char_of ((of_char c :: nat) + 32) else c)"

definition upper :: "char \<Rightarrow> char" where
  "upper c = (if 97 \<le> (of_char c :: nat) \<and> (of_char c :: nat) \<le> 122 then char_of ((of_char c :: nat) - 32) else c)"

definition ToLower :: "string \<Rightarrow> string" where "ToLower = map lower"

definition ToUpper :: "string \<Rightarrow> string" where "ToUpper = map upper"

definition HasPrefix :: "string \<Rightarrow> string \<Rightarrow> bool" where
  "HasPrefix s p \<longleftrightarrow> take (length p) s = p"

fun index_of :: "char \<Rightarrow> string \<Rightarrow> nat option" where
  "index_of c [] = None"
| "index_of c (d # ds) = (if c = d then Some 0 else map_option Suc (index_of c ds))"

section \<open>Base58\<close>

definition base58Alphabet :: string where
  "base58Alphabet = ''123456789ABCDEFGHJKLMNPQRSTUVWXYZabcdefghijkmnopqrstuvwxyz''"

fun base58_value :: "nat \<Rightarrow> string \<Rightarrow> nat option" where
  "base58_value x [] = Some x"
| "base58_value x (c # cs) =
     (case index_of c base58Alphabet of None \<Rightarrow> None | Some i \<Rightarrow> base58_value (x * 58 + i) cs)"

text \<open>\<open>big.Int.Bytes\<close>: big-endian, no leading zero.\<close>

fun int_bytes :: "nat \<Rightarrow> byte list" where
  "int_bytes n = (if n = 0 then [] else int_bytes (n div 256) @ [of_nat (n mod 256)])"

declare int_bytes.simps [simp del]

definition base58Decode :: "string \<Rightarrow> byte list option" where
  "base58Decode s =
     (case base58_value 0 s of
        None \<Rightarrow> None
      | Some x \<Rightarrow> Some (replicate (length (takeWhile (\<lambda>c. c = CHR ''1'') s)) 0 @ int_bytes x))"

definition base58CheckDecode :: "(byte list \<Rightarrow> byte list) \<Rightarrow> string \<Rightarrow> (byte \<times> byte list) option" where
  "base58CheckDecode sha s =
     (case base58Decode s of
        None \<Rightarrow> None
      | Some data \<Rightarrow>
          if length data < 5 then None
          else let payload = take (length data - 4) data; checksum = drop (length data - 4) data
               in if take 4 (sha (sha payload)) \<noteq> checksum then None else Some (hd payload, tl payload))"

section \<open>Bech32\<close>

definition bech32Charset :: string where
  "bech32Charset = ''qpzry9x8gf2tvdw0s3jn54khce6mua7l''"

definition bech32_gen :: "32 word list" where
  "bech32_gen = [0x3b6a57b2, 0x26508e6d, 0x1ea119fa, 0x3d4233dd, 0x2a1462b3]"

text \<open>The generators selected by the bits of \<open>b\<close>, from bit \<open>i\<close> on.\<close>

fun mix :: "32 word \<Rightarrow> nat \<Rightarrow> 32 word list \<Rightarrow> 32 word \<Rightarrow> 32 word" where
  "mix b i [] chk = chk"
| "mix b i (g # gs) chk = mix b (Suc i) gs (if drop_bit i b AND 1 = 1 then chk XOR g else chk)"

definition polymod_step :: "32 word \<Rightarrow> byte \<Rightarrow> 32 word" where
  "polymod_step chk v =
     (let b = drop_bit 25 chk in mix b 0 bech32_gen (push_bit 5 (chk AND 0x1ffffff) XOR ucast v))"

definition bech32Polymod :: "byte list \<Rightarrow> 32 word" where
  "bech32Polymod values = foldl polymod_step 1 values"

text \<open>The groups that are complete, and how many bits are left. (The source's loop does not end for \<open>to = 0\<close>.)\<close>

function emit :: "nat \<Rightarrow> 32 word \<Rightarrow> nat \<Rightarrow> byte list \<times> nat" where
  "emit t acc bits =
     (if t \<le> bits \<and> 0 < t
      then let (out, r) = emit t acc (bits - t)
           in (ucast (drop_bit (bits - t) acc AND (push_bit t 1 - 1)) # out, r)
      else ([], bits))"
  by pat_completeness auto
termination
  by (relation "measure (\<lambda>(t, acc, bits). bits)") auto

declare emit.simps [simp del]

fun convert_loop :: "nat \<Rightarrow> nat \<Rightarrow> byte list \<Rightarrow> 32 word \<Rightarrow> nat \<Rightarrow> (byte list \<times> 32 word \<times> nat) option" where
  "convert_loop f t [] acc bits = Some ([], acc, bits)"
| "convert_loop f t (b # bs) acc bits =
     (if drop_bit f (ucast b :: 32 word) \<noteq> 0 then None
      else let acc' = push_bit f acc OR ucast b; (out, bits') = emit t acc' (bits + f)
           in map_option (\<lambda>(rest, r). (out @ rest, r)) (convert_loop f t bs acc' bits'))"

definition convertBits :: "byte list \<Rightarrow> nat \<Rightarrow> nat \<Rightarrow> bool \<Rightarrow> byte list option" where
  "convertBits data f t pad =
     (case convert_loop f t data 0 0 of
        None \<Rightarrow> None
      | Some (out, acc, bits) \<Rightarrow>
          let rest = push_bit (t - bits) acc AND (push_bit t 1 - 1)
          in if pad then Some (if 0 < bits then out @ [ucast rest] else out)
             else if f \<le> bits \<or> rest \<noteq> 0 then None else Some out)"

text \<open>\<open>strings.LastIndex(addr, "1")\<close>\<close>

fun last_index :: "char \<Rightarrow> string \<Rightarrow> nat option" where
  "last_index c [] = None"
| "last_index c (d # ds) =
     (case last_index c ds of Some i \<Rightarrow> Some (Suc i) | None \<Rightarrow> if d = c then Some 0 else None)"

fun charset_values :: "string \<Rightarrow> byte list option" where
  "charset_values [] = Some []"
| "charset_values (c # cs) =
     (case index_of c bech32Charset of
        None \<Rightarrow> None
      | Some i \<Rightarrow> map_option (\<lambda>vs. of_nat i # vs) (charset_values cs))"

definition hrp_expand :: "string \<Rightarrow> byte list" where
  "hrp_expand hrp = map (\<lambda>c. drop_bit 5 (of_nat (of_char c))) hrp @ [0] @ map (\<lambda>c. of_nat (of_char c) AND 31) hrp"

text \<open>\<open>data[1 : len(data)-6]\<close> panics when there are only the six symbols of the checksum.\<close>

definition witness_ok :: "byte list \<Rightarrow> bool outcome" where
  "witness_ok data =
     (if length data < 7 then Panicked
      else case convertBits (take (length data - 7) (tl data)) 5 8 False of
        None \<Rightarrow> Done False
      | Some conv \<Rightarrow>
          Done (if hd data = 0 then length conv = 20 \<or> length conv = 32
                else 1 \<le> hd data \<and> hd data \<le> 16 \<and> 2 \<le> length conv \<and> length conv \<le> 40))"

definition validateBech32Address :: "string \<Rightarrow> string \<Rightarrow> bool outcome" where
  "validateBech32Address addr0 expHRP =
     (if length addr0 < 8 \<or> 90 < length addr0 then Done False
      else if addr0 \<noteq> ToLower addr0 \<and> addr0 \<noteq> ToUpper addr0 then Done False
      else let addr = ToLower addr0
           in case last_index (CHR ''1'') addr of
                None \<Rightarrow> Done False
              | Some pos \<Rightarrow>
                  if pos < 1 \<or> length addr < pos + 7 then Done False
                  else if take pos addr \<noteq> expHRP then Done False
                  else case charset_values (drop (Suc pos) addr) of
                         None \<Rightarrow> Done False
                       | Some data \<Rightarrow>
                           if bech32Polymod (hrp_expand (take pos addr) @ data) \<noteq> 1 then Done False
                           else witness_ok data)"

section \<open>Bitcoin\<close>

definition legacy_ok :: "string \<Rightarrow> byte \<Rightarrow> byte list \<Rightarrow> bool" where
  "legacy_ok addr version payload =
     (if length payload \<noteq> 20 then False
      else if version = 0x00 then HasPrefix addr ''1''
      else if version = 0x05 then HasPrefix addr ''3''
      else if version = 0x6F then HasPrefix addr ''m'' \<or> HasPrefix addr ''n''
      else if version = 0xC4 then HasPrefix addr ''2''
      else False)"

definition ValidateBTCAddress :: "(byte list \<Rightarrow> byte list) \<Rightarrow> string \<Rightarrow> bool outcome" where
  "ValidateBTCAddress sha addr =
     (if addr = [] then Done False
      else if HasPrefix addr ''bc1'' \<or> HasPrefix addr ''tb1''
      then validateBech32Address addr (if HasPrefix addr ''tb1'' then ''tb'' else ''bc'')
      else if length addr < 25 \<or> 34 < length addr then Done False
      else case base58CheckDecode sha addr of
             None \<Rightarrow> Done False
           | Some (version, payload) \<Rightarrow> Done (legacy_ok addr version payload))"

section \<open>Ethereum\<close>

definition is_hex :: "char \<Rightarrow> bool" where
  "is_hex c \<longleftrightarrow> (let n = (of_char c :: nat) in 48 \<le> n \<and> n \<le> 57 \<or> 97 \<le> n \<and> n \<le> 102 \<or> 65 \<le> n \<and> n \<le> 70)"

definition nibble :: "byte list \<Rightarrow> nat \<Rightarrow> byte" where
  "nibble hash i = (if i mod 2 = 0 then drop_bit 4 (hash ! (i div 2)) else hash ! (i div 2) AND 15)"

definition eip55_char :: "byte list \<Rightarrow> nat \<Rightarrow> char \<Rightarrow> char" where
  "eip55_char hash i c =
     (let n = (of_char c :: nat)
      in if n < 97 \<or> 102 < n then c else if 8 \<le> nibble hash i then char_of (n - 32) else c)"

definition eip55Checksum :: "(string \<Rightarrow> byte list) \<Rightarrow> string \<Rightarrow> string" where
  "eip55Checksum keccak body =
     (let hash = keccak (ToLower body); out = ToLower body
      in map (\<lambda>i. eip55_char hash i (out ! i)) [0..<length out])"

definition ValidateETHAddress :: "(string \<Rightarrow> byte list) \<Rightarrow> string \<Rightarrow> bool" where
  "ValidateETHAddress keccak addr =
     (if length addr \<noteq> 42 \<or> \<not> (HasPrefix addr ''0x'' \<or> HasPrefix addr ''0X'') then False
      else let body = drop 2 addr
           in if \<not> list_all is_hex body then False
              else if body = ToLower body \<or> body = ToUpper body then True
              else eip55Checksum keccak body = body)"

text \<open>\<open>strings.TrimSpace\<close> on ASCII white space.\<close>

definition is_space :: "char \<Rightarrow> bool" where
  "is_space c \<longleftrightarrow> (of_char c :: nat) \<in> {9, 10, 11, 12, 13, 32}"

definition TrimSpace :: "string \<Rightarrow> string" where
  "TrimSpace s = rev (dropWhile is_space (rev (dropWhile is_space s)))"

definition ValidateWithdrawalAddress ::
  "(byte list \<Rightarrow> byte list) \<Rightarrow> (string \<Rightarrow> byte list) \<Rightarrow> string \<Rightarrow> string \<Rightarrow> bool outcome" where
  "ValidateWithdrawalAddress sha keccak asset address =
     (let a = ToUpper (TrimSpace asset)
      in if a = ''BTC'' then ValidateBTCAddress sha address
         else if a = ''ETH'' \<or> a = ''POLYGON'' \<or> a = ''MATIC'' then Done (ValidateETHAddress keccak address)
         else Done True)"

end
