(* ===== verification/Address_Checks.thy ===== *)
theory Address_Checks
  imports Address_Validation
begin

text \<open>
  What the address formats guarantee: the bech32 checksum is linear and catches every single wrong symbol, base58 decoding loses
  nothing, a checksummed Ethereum address passes its own check; and two places where the validation goes wrong.
\<close>

section \<open>The polymod is linear\<close>

definition lin :: "32 word \<Rightarrow> 32 word" where
  "lin c = polymod_step c 0"

lemma mix_xor: "mix b i gs (a XOR x) = mix b i gs a XOR x"
proof (induction gs arbitrary: a i)
  case (Cons g gs)
  show ?case using Cons [of "Suc i" "a XOR g"] Cons [of "Suc i" a] by (simp add: ac_simps)
qed simp

lemma polymod_step_lin: "polymod_step c v = lin c XOR ucast v"
  by (simp add: polymod_step_def lin_def Let_def mix_xor)

lemma mix_step: "mix b i (g # gs) 0 = mix b (Suc i) gs 0 XOR (if bit b i then g else 0)"
  using mix_xor [of b "Suc i" gs 0 g] by (simp add: bit_iff_and_drop_bit_eq_1)

lemma mix_linear0: "mix (b XOR b') i gs 0 = mix b i gs 0 XOR mix b' i gs 0"
proof (induction gs arbitrary: i)
  case (Cons g gs)
  show ?case unfolding mix_step Cons.IH by (cases "bit b i"; cases "bit b' i") (simp_all add: bit_xor_iff ac_simps)
qed simp

lemma mix_linear: "mix (b XOR b') i gs (x XOR y) = mix b i gs x XOR mix b' i gs y"
proof -
  have e: "mix c i gs z = mix c i gs 0 XOR z" for c z using mix_xor [of c i gs 0 z] by simp
  show ?thesis by (simp only: e [of "b XOR b'" "x XOR y"] e [of b x] e [of b' y] mix_linear0 ac_simps)
qed

lemma lin_xor: "lin (a XOR b) = lin a XOR lin b"
proof -
  have "(a XOR b) AND m = (a AND m) XOR (b AND m)" for m :: "32 word" by (simp add: bit_eq_iff bit_simps) blast
  then show ?thesis by (simp add: lin_def polymod_step_def Let_def drop_bit_xor push_bit_xor mix_linear)
qed

lemma foldl_polymod_xor:
  "length xs = length ys \<Longrightarrow>
   foldl polymod_step a xs XOR foldl polymod_step b ys = foldl polymod_step (a XOR b) (map2 (XOR) xs ys)"
proof (induction xs ys arbitrary: a b rule: list_induct2)
  case (Cons x xs y ys)
  have "ucast (x XOR y) = (ucast x XOR ucast y :: 32 word)" by (rule bit_word_eqI) (auto simp: bit_simps)
  then have "polymod_step a x XOR polymod_step b y = polymod_step (a XOR b) (x XOR y)"
    by (simp add: polymod_step_lin lin_xor ac_simps)
  then show ?case using Cons.IH by simp
qed simp

section \<open>The polymod step has no kernel\<close>

lemma mix_gen_low: "b < 32 \<Longrightarrow> mix b 0 bech32_gen 0 AND 31 = 0 \<Longrightarrow> b = 0"
proof -
  assume b: "b < 32" "mix b 0 bech32_gen 0 AND 31 = 0"
  have "list_all (\<lambda>k. mix (of_nat k) 0 bech32_gen 0 AND 31 = 0 \<longrightarrow> k = 0) [0..<32]" by code_simp
  moreover have "unat b < 32" using b(1) by (simp add: word_less_nat_alt)
  ultimately have "mix (of_nat (unat b)) 0 bech32_gen 0 AND 31 = 0 \<longrightarrow> unat b = 0" by (simp add: list_all_iff)
  then show ?thesis using b(2) by (simp add: unat_eq_zero)
qed

lemma bit_small: "c < 2 ^ 30 \<Longrightarrow> 30 \<le> n \<Longrightarrow> \<not> bit (c :: 32 word) n"
  using less_mask_eq [of c 30] by (metis bit_and_iff bit_mask_iff not_le)

lemma small_bits:
  assumes "\<And>n. 30 \<le> n \<Longrightarrow> \<not> bit (c :: 32 word) n"
  shows "c < 2 ^ 30"
proof -
  have "c AND mask 30 = c" by (rule bit_word_eqI) (use assms in \<open>auto simp: bit_simps not_le [symmetric]\<close>)
  then show ?thesis using and_mask_less' [of 30 c] by simp
qed

lemma word_xor_zero: "a XOR b = 0 \<longleftrightarrow> a = (b :: 'a :: len word)"
proof
  assume "a XOR b = 0"
  then have "\<not> bit (a XOR b) n" for n by simp
  then show "a = b" by (intro bit_word_eqI) (simp add: bit_xor_iff)
qed simp

lemma gens_small: "\<forall>g \<in> set bech32_gen. g < 2 ^ 30"
  by (simp add: bech32_gen_def)

lemma mix_small: "\<forall>g \<in> set gs. g < 2 ^ 30 \<Longrightarrow> x < 2 ^ 30 \<Longrightarrow> mix b i gs x < 2 ^ 30"
proof (induction gs arbitrary: i x)
  case (Cons g gs)
  have "x XOR g < 2 ^ 30" using Cons.prems by (intro small_bits) (simp add: bit_xor_iff bit_small)
  then show ?case using Cons by simp
qed simp

lemma lin_small: "lin c < 2 ^ 30"
proof -
  have "push_bit 5 (c AND 0x1ffffff) < (2 ^ 30 :: 32 word)"
  proof (rule small_bits)
    fix n :: nat assume "30 \<le> n"
    then have "25 \<le> n - 5" by simp
    have m: "(0x1ffffff :: 32 word) = mask 25" by (simp add: mask_eq_exp_minus_1)
    show "\<not> bit (push_bit 5 (c AND 0x1ffffff)) n" unfolding m using \<open>25 \<le> n - 5\<close> by (simp add: bit_simps)
  qed
  then have "mix (drop_bit 25 c) 0 bech32_gen (push_bit 5 (c AND 0x1ffffff)) < 2 ^ 30"
    using mix_small gens_small by blast
  then show ?thesis by (simp add: lin_def polymod_step_def Let_def)
qed

lemma lin_kernel:
  assumes "c < 2 ^ 30" "lin c = 0"
  shows "c = 0"
proof -
  define b where "b = drop_bit 25 c"
  have m: "(0x1ffffff :: 32 word) = mask 25" "(31 :: 32 word) = mask 5" by (simp_all add: mask_eq_exp_minus_1)
  have eq: "mix b 0 bech32_gen 0 XOR push_bit 5 (c AND mask 25) = 0"
    using assms(2) mix_xor [of b 0 bech32_gen 0 "push_bit 5 (c AND mask 25)"]
    by (simp add: lin_def polymod_step_def Let_def b_def m)
  have "b < 32"
  proof -
    have "b AND mask 5 = b" by (rule bit_word_eqI) (use bit_small [OF assms(1)] in \<open>auto simp: b_def bit_simps not_le [symmetric]\<close>)
    then show ?thesis using and_mask_less' [of 5 b] by simp
  qed
  moreover have "mix b 0 bech32_gen 0 AND 31 = 0"
  proof -
    have "mix b 0 bech32_gen 0 = push_bit 5 (c AND mask 25)" using eq by (simp only: word_xor_zero)
    then show ?thesis unfolding m by (intro bit_word_eqI) (auto simp: bit_simps)
  qed
  ultimately have b0: "b = 0" by (rule mix_gen_low)
  have "mix 0 0 bech32_gen 0 = 0" by code_simp
  then have p: "push_bit 5 (c AND mask 25) = 0" using eq b0 by simp
  show ?thesis
  proof (rule bit_word_eqI)
    fix n assume n: "n < LENGTH(32)"
    have "\<not> bit c n"
    proof (cases "n < 25")
      case True
      have "bit (push_bit 5 (c AND mask 25)) (n + 5) \<longleftrightarrow> bit c n" using True by (simp add: bit_simps)
      then show ?thesis using p by simp
    next
      case False
      then have "bit c n \<longleftrightarrow> bit b (n - 25)" by (simp add: b_def bit_simps)
      then show ?thesis using b0 by simp
    qed
    then show "bit c n = bit 0 n" by simp
  qed
qed

lemma foldl_zeros: "foldl polymod_step c (replicate n 0) = (lin ^^ n) c"
  by (induction n arbitrary: c) (simp_all add: lin_def funpow_swap1)

lemma lin_pow: "c \<noteq> 0 \<Longrightarrow> c < 2 ^ 30 \<Longrightarrow> (lin ^^ n) c \<noteq> 0 \<and> (lin ^^ n) c < 2 ^ 30"
proof (induction n)
  case (Suc n)
  then show ?case using lin_small lin_kernel by (metis funpow_simps_right(2) funpow_swap1 comp_apply)
qed simp

text \<open>One wrong symbol, wherever it is and whatever follows, changes the checksum.\<close>

lemma polymod_detects:
  assumes "i < length vs" "v \<noteq> vs ! i" "v < 32" "vs ! i < 32"
  shows "bech32Polymod (vs[i := v]) \<noteq> bech32Polymod vs"
proof
  assume eq: "bech32Polymod (vs[i := v]) = bech32Polymod vs"
  define d where "d = vs ! i XOR v"
  have vs: "vs = take i vs @ vs ! i # drop (Suc i) vs" using assms(1) by (rule id_take_nth_drop)
  have up: "vs[i := v] = take i vs @ v # drop (Suc i) vs" using assms(1) by (rule upd_conv_take_nth_drop)
  have self: "map2 (XOR) xs xs = replicate (length xs) (0 :: byte)" for xs by (induction xs) simp_all
  have "map2 (XOR) vs (vs[i := v]) = map2 (XOR) (take i vs @ vs ! i # drop (Suc i) vs) (take i vs @ v # drop (Suc i) vs)"
    using vs up by metis
  then have m: "map2 (XOR) vs (vs[i := v]) = replicate (length (take i vs)) 0 @ d # replicate (length (drop (Suc i) vs)) 0"
    by (simp only: zip_append map_append length_take length_drop list.map zip_Cons_Cons prod.case self d_def refl zip_append [OF refl])
  have "foldl polymod_step 0 (map2 (XOR) vs (vs[i := v])) = 0"
    using foldl_polymod_xor [of vs "vs[i := v]" 1 1] eq by (simp add: bech32Polymod_def)
  moreover have lz: "(lin ^^ k) 0 = 0" for k
  proof -
    have "lin 0 = 0" by code_simp
    then show ?thesis by (induction k) simp_all
  qed
  ultimately have z: "(lin ^^ length (drop (Suc i) vs)) (ucast d) = 0"
    by (simp only: m foldl_append foldl_zeros foldl_Cons polymod_step_lin funpow_0 lz) (simp add: lin_def [symmetric] lz [of 1, simplified])
  have "d \<noteq> 0" using assms(2) by (simp add: d_def word_xor_zero)
  then obtain n where "bit d n" by (metis bit_eqI bit_0_eq bot_apply bot_bool_def)
  then have "bit (ucast d :: 32 word) n" using bit_imp_le_length [of d n] by (simp add: bit_simps)
  then have "(ucast d :: 32 word) \<noteq> 0" by auto
  moreover have "(ucast d :: 32 word) < 2 ^ 30"
    by (rule small_bits) (auto simp: bit_simps dest: bit_imp_le_length)
  ultimately show False using lin_pow z by blast
qed

section \<open>One wrong character\<close>

lemma index_of_Some: "index_of c ds = Some i \<Longrightarrow> i < length ds \<and> ds ! i = c"
  by (induction ds arbitrary: i) (auto split: if_splits)

lemma charset_values_nth:
  "charset_values s = Some vs \<Longrightarrow> length vs = length s \<and>
   (\<forall>j < length s. \<exists>k. index_of (s ! j) bech32Charset = Some k \<and> vs ! j = of_nat k)"
proof (induction s arbitrary: vs)
  case (Cons c s)
  then obtain k ws where "index_of c bech32Charset = Some k" "charset_values s = Some ws" "vs = of_nat k # ws"
    by (auto split: option.splits)
  then show ?case using Cons.IH [of ws] by (auto simp: nth_Cons split: nat.splits)
qed simp

lemma charset_values_update:
  assumes "charset_values s = Some vs" "j < length s"
  shows "charset_values (s[j := c]) =
    (case index_of c bech32Charset of None \<Rightarrow> None | Some k \<Rightarrow> Some (vs[j := of_nat k]))"
  using assms
proof (induction s arbitrary: vs j)
  case (Cons d s)
  then obtain k ws where k: "index_of d bech32Charset = Some k" "charset_values s = Some ws" "vs = of_nat k # ws"
    by (auto split: option.splits)
  show ?case
  proof (cases j)
    case 0
    then show ?thesis using k by (cases "index_of c bech32Charset") simp_all
  next
    case (Suc i)
    then show ?thesis using Cons.IH [OF k(2), of i] Cons.prems(2) k by (cases "index_of c bech32Charset") simp_all
  qed
qed simp

lemma charset_small: "index_of c bech32Charset = Some k \<Longrightarrow> (of_nat k :: byte) < 32 \<and> k < 32"
proof -
  assume "index_of c bech32Charset = Some k"
  then have k: "k < 32" using index_of_Some [of c bech32Charset k] by (simp add: bech32Charset_def)
  then have "unat (of_nat k :: byte) = k" by (simp add: unat_of_nat)
  then show ?thesis using k by (simp add: word_less_nat_alt)
qed

lemma charset_values_differ:
  assumes "index_of c bech32Charset = Some k" "index_of d bech32Charset = Some l" "c \<noteq> d"
  shows "(of_nat k :: byte) \<noteq> of_nat l"
proof
  assume "(of_nat k :: byte) = of_nat l"
  moreover have "unat (of_nat k :: byte) = k" "unat (of_nat l :: byte) = l"
    using charset_small [OF assms(1)] charset_small [OF assms(2)] by (simp_all add: unat_of_nat)
  ultimately have "k = l" by metis
  then show False using assms index_of_Some by metis
qed

lemma last_index_iff:
  "last_index c s = Some p \<longleftrightarrow> p < length s \<and> s ! p = c \<and> (\<forall>j. p < j \<longrightarrow> j < length s \<longrightarrow> s ! j \<noteq> c)"
proof (induction s arbitrary: p)
  case (Cons d s)
  have none: "last_index c s = None \<longleftrightarrow> c \<notin> set s" by (induction s) (auto split: option.splits)
  show ?case
  proof (cases p)
    case 0
    then show ?thesis using none
      by (auto simp: nth_Cons in_set_conv_nth split: option.splits nat.splits)
  next
    case (Suc q)
    have "last_index c (d # s) = Some p \<longleftrightarrow> last_index c s = Some q" using Suc by (auto split: option.splits)
    also have "\<dots> \<longleftrightarrow> p < length (d # s) \<and> (d # s) ! p = c \<and> (\<forall>j. p < j \<longrightarrow> j < length (d # s) \<longrightarrow> (d # s) ! j \<noteq> c)"
      unfolding Cons.IH Suc by (auto simp: nth_Cons split: nat.splits)
    finally show ?thesis .
  qed
qed simp

section \<open>Properties\<close>

definition demo_address :: string where
  "demo_address = ''bc1qw508d6qejxtdg4y5r3zarvary0c5xw7kv8f3t4''"

lemma map_update_lower: "lower c = c \<Longrightarrow> ToLower s = s \<Longrightarrow> ToLower (s[i := c]) = s[i := c]"
  by (simp add: ToLower_def map_update)

text \<open>The accepted address, taken apart.\<close>

lemma bech32_accepts:
  assumes "validateBech32Address addr hrp = Done True" "ToLower addr = addr"
  obtains pos data where "last_index (CHR ''1'') addr = Some pos" "1 \<le> pos" "pos + 7 \<le> length addr" "take pos addr = hrp"
    "charset_values (drop (Suc pos) addr) = Some data" "bech32Polymod (hrp_expand hrp @ data) = 1"
    "8 \<le> length addr" "length addr \<le> 90"
  using assms that by (auto simp: validateBech32Address_def Let_def split: if_splits option.splits)

text \<open>
  C36: One mistyped character is always caught. If a lower-case bech32 address is accepted for a network, then replacing any one
  character of its data part by any other character that is not an upper-case letter gives an address that is
  rejected: the check never accepts two lower-case addresses of equal length that differ in one place of the data part.
\<close>

theorem bech32_detects_error:
  assumes acc: "validateBech32Address addr hrp = Done True" "ToLower addr = addr"
    and pos: "last_index (CHR ''1'') addr = Some pos" "pos < i" "i < length addr"
    and c: "c \<noteq> addr ! i" "lower c = c"
  shows "validateBech32Address (addr[i := c]) hrp = Done False"
proof -
  let ?a = "addr[i := c]"
  from bech32_accepts [OF acc] pos(1) obtain data where d: "1 \<le> pos" "pos + 7 \<le> length addr" "take pos addr = hrp"
    "charset_values (drop (Suc pos) addr) = Some data" "bech32Polymod (hrp_expand hrp @ data) = 1"
    "8 \<le> length addr" "length addr \<le> 90" by (metis option.inject)
  have low: "ToLower ?a = ?a" using c(2) acc(2) by (rule map_update_lower)
  have L: "length hrp = pos" using d(2,3) by auto
  note p = last_index_iff [of "CHR ''1''" addr pos, THEN iffD1, OF pos(1)]
  show ?thesis
  proof (cases "c = CHR ''1''")
    case True
    have "last_index (CHR ''1'') ?a = Some i"
      unfolding last_index_iff using p pos(2,3) True by (auto simp: nth_list_update)
    moreover have "take i ?a \<noteq> hrp" using L pos(2,3) by auto
    ultimately show ?thesis using d(6,7) low by (simp add: validateBech32Address_def Let_def)
  next
    case False
    have li: "last_index (CHR ''1'') ?a = Some pos"
      unfolding last_index_iff using p pos(2,3) False by (auto simp: nth_list_update)
    define j where "j = i - Suc pos"
    have j: "j < length (drop (Suc pos) addr)" "drop (Suc pos) addr ! j = addr ! i" "drop (Suc pos) ?a = (drop (Suc pos) addr)[j := c]"
      using pos by (simp_all add: j_def drop_update_swap)
    have t: "take pos ?a = hrp" using d(3) pos(2) by simp
    have eq: "validateBech32Address ?a hrp = (case charset_values (drop (Suc pos) ?a) of
        None \<Rightarrow> Done False
      | Some data \<Rightarrow> if bech32Polymod (hrp_expand hrp @ data) \<noteq> 1 then Done False else witness_ok data)"
      using d(1,2,6,7) low li by (simp add: validateBech32Address_def Let_def t cong: option.case_cong)
    show ?thesis
    proof (cases "index_of c bech32Charset")
      case None
      then show ?thesis using charset_values_update [OF d(4) j(1)] by (simp add: eq j(3))
    next
      case (Some k)
      from charset_values_nth [OF d(4)] j(1,2) obtain l where
        l: "index_of (addr ! i) bech32Charset = Some l" "data ! j = of_nat l" "j < length data" by auto
      have "bech32Polymod ((hrp_expand hrp @ data)[length (hrp_expand hrp) + j := of_nat k]) \<noteq> bech32Polymod (hrp_expand hrp @ data)"
        using l charset_values_differ [OF Some l(1) c(1)] charset_small [OF Some] charset_small [OF l(1)]
        by (intro polymod_detects) (simp_all add: nth_append)
      then have "bech32Polymod (hrp_expand hrp @ data[j := of_nat k]) \<noteq> 1" using d(5) by (simp add: list_update_append)
      then show ?thesis using charset_values_update [OF d(4) j(1)] Some by (simp add: eq j(3))
    qed
  qed
qed

theorem bech32_detects_error_witness:
  "validateBech32Address (demo_address[20 := CHR ''q'']) ''bc'' = Done False"
proof (rule bech32_detects_error)
  show "validateBech32Address demo_address ''bc'' = Done True" by code_simp
  show "ToLower demo_address = demo_address" by code_simp
  show "last_index (CHR ''1'') demo_address = Some 2" by code_simp
  show "CHR ''q'' \<noteq> demo_address ! 20" by code_simp
  show "lower (CHR ''q'') = CHR ''q''" by code_simp
  show "20 < length demo_address" by code_simp
qed simp

text \<open>
  An address without witness program crashes the validator. The string \<open>bc1gmk9yu\<close> has a valid checksum and
  six data symbols, so the slice \<open>data[1 : len(data)-6]\<close> has its bounds the wrong way round and the call panics instead of
  returning false, whatever the hash function.
\<close>

theorem bech32_empty_program_panics:
  "ValidateWithdrawalAddress sha keccak ''BTC'' ''bc1gmk9yu'' = Panicked"
proof -
  have "validateBech32Address ''bc1gmk9yu'' ''bc'' = Panicked" by code_simp
  moreover have "ToUpper (TrimSpace ''BTC'') = ''BTC''" by code_simp
  ultimately show ?thesis by (simp add: ValidateWithdrawalAddress_def ValidateBTCAddress_def HasPrefix_def)
qed

text \<open>
  Upper-case segwit addresses are refused. The bech32 check accepts an address written in capitals, as BIP-173 wants, but
  \<open>ValidateBTCAddress\<close> compares the prefix before it folds the case, sends such an address to the base58 branch and rejects it, whatever
  the hash function.
\<close>

theorem bech32_upper_case_refused:
  "validateBech32Address (ToUpper demo_address) ''bc'' = Done True \<and> ValidateBTCAddress sha (ToUpper demo_address) = Done False"
proof -
  have "validateBech32Address (ToUpper demo_address) ''bc'' = Done True" by code_simp
  moreover have "length (ToUpper demo_address) = 42" by code_simp
  moreover have "\<not> HasPrefix (ToUpper demo_address) ''bc1''" "\<not> HasPrefix (ToUpper demo_address) ''tb1''" by code_simp+
  ultimately show ?thesis by (auto simp: ValidateBTCAddress_def)
qed

end
