(* ===== verification/Address_Roundtrip.thy ===== *)
theory Address_Roundtrip
  imports Address_Validation
begin

text \<open>
  Base58 decoding loses nothing, and the EIP-55 form of an Ethereum address passes its own check.
\<close>

section \<open>Base58\<close>

definition bytes_value :: "byte list \<Rightarrow> nat" where
  "bytes_value bs = foldl (\<lambda>m b. 256 * m + unat b) 0 bs"

lemma bytes_value_int_bytes: "bytes_value (int_bytes n) = n"
proof (induction n rule: int_bytes.induct)
  case (1 n)
  have "unat (of_nat (n mod 256) :: byte) = n mod 256" by (simp add: unat_of_nat)
  moreover have "int_bytes 0 = []" by (simp add: int_bytes.simps [of 0])
  ultimately show ?case using 1 by (cases "n = 0") (simp_all add: int_bytes.simps [of n] bytes_value_def)
qed

lemma hd_int_bytes: "n \<noteq> 0 \<Longrightarrow> int_bytes n \<noteq> [] \<and> hd (int_bytes n) \<noteq> 0"
proof (induction n rule: int_bytes.induct)
  case (1 n)
  show ?case
  proof (cases "n div 256 = 0")
    case True
    then have "n < 256" by (simp add: div_eq_0_iff)
    then have "unat (of_nat n :: byte) = n" by (simp add: unat_of_nat)
    then have "(of_nat n :: byte) \<noteq> 0" using "1.prems" by (metis unsigned_0)
    then show ?thesis using "1.prems" True \<open>n < 256\<close> by (simp add: int_bytes.simps [of n] int_bytes.simps [of 0])
  next
    case False
    then show ?thesis using 1 by (simp add: int_bytes.simps [of n])
  qed
qed

lemma base58_value_append:
  "base58_value x (s @ t) = (case base58_value x s of None \<Rightarrow> None | Some y \<Rightarrow> base58_value y t)"
  by (induction s arbitrary: x) (auto split: option.splits)

lemma index_of_Some58: "index_of c ds = Some i \<Longrightarrow> i < length ds \<and> ds ! i = c"
  by (induction ds arbitrary: i) (auto split: if_splits)

lemma base58_digit: "index_of c base58Alphabet = Some i \<Longrightarrow> i < 58"
  using index_of_Some58 [of c base58Alphabet i] by (simp add: base58Alphabet_def)

lemma base58_one: "index_of (CHR ''1'') base58Alphabet = Some 0"
  by (simp add: base58Alphabet_def)

lemma base58_zero: "index_of c base58Alphabet = Some 0 \<Longrightarrow> c = CHR ''1''"
  using index_of_Some58 [of c base58Alphabet 0] by (simp add: base58Alphabet_def)

lemma base58_ones: "base58_value 0 (replicate n (CHR ''1'') @ s) = base58_value 0 s"
  by (induction n) (simp_all add: base58_one)

lemma base58_value_ge: "base58_value x s = Some y \<Longrightarrow> x \<le> y"
proof (induction s arbitrary: x)
  case (Cons c s)
  then obtain i where "base58_value (x * 58 + i) s = Some y" by (auto split: option.splits)
  from Cons.IH [OF this] show ?case by simp
qed simp

lemma base58_positive: "base58_value 0 (c # s) = Some y \<Longrightarrow> c \<noteq> CHR ''1'' \<Longrightarrow> 0 < y"
proof -
  assume a: "base58_value 0 (c # s) = Some y" "c \<noteq> CHR ''1''"
  then obtain i where i: "index_of c base58Alphabet = Some i" "base58_value i s = Some y" by (auto split: option.splits)
  then have "0 < i" using base58_zero a(2) by (cases i) auto
  then show ?thesis using base58_value_ge [OF i(2)] by simp
qed

text \<open>Digits without leading ones are determined by their value.\<close>

lemma base58_value_inj:
  assumes "base58_value 0 s = Some x" "base58_value 0 t = Some x"
    and "s = [] \<or> hd s \<noteq> CHR ''1''" "t = [] \<or> hd t \<noteq> CHR ''1''"
  shows "s = t"
  using assms
proof (induction s arbitrary: t x rule: rev_induct)
  case Nil
  then show ?case using base58_positive by (cases t) (auto simp del: base58_value.simps(2))
next
  case (snoc c s)
  have "t \<noteq> []"
  proof
    assume "t = []"
    then have "x = 0" using snoc.prems(2) by simp
    moreover have "0 < x" using snoc.prems(1,3) base58_positive by (cases s) (auto simp del: base58_value.simps(2))
    ultimately show False by simp
  qed
  then obtain u d where t: "t = u @ [d]" by (metis rev_exhaust)
  from snoc.prems(1) obtain y i where s: "base58_value 0 s = Some y" "index_of c base58Alphabet = Some i" "x = y * 58 + i"
    by (auto simp: base58_value_append split: option.splits)
  from snoc.prems(2) t obtain z j where u: "base58_value 0 u = Some z" "index_of d base58Alphabet = Some j" "x = z * 58 + j"
    by (auto simp: base58_value_append split: option.splits)
  have ij: "i < 58" "j < 58" using s(2) u(2) base58_digit by auto
  have "y = x div 58" "i = x mod 58" using s(3) ij(1) by simp_all
  moreover have "z = x div 58" "j = x mod 58" using u(3) ij(2) by simp_all
  ultimately have "y = z" "i = j" by simp_all
  then have "c = d" using s(2) u(2) index_of_Some58 by metis
  moreover have "s = u"
  proof (rule snoc.IH)
    show "base58_value 0 u = Some y" using u(1) \<open>y = z\<close> by simp
    show "s = [] \<or> hd s \<noteq> CHR ''1''" using snoc.prems(3) by (cases s) simp_all
    show "u = [] \<or> hd u \<noteq> CHR ''1''" using snoc.prems(4) t by (cases u) simp_all
  qed (rule s(1))
  ultimately show ?case by (simp add: t)
qed

lemma split_ones:
  "s = replicate (length (takeWhile (\<lambda>c. c = CHR ''1'') s)) (CHR ''1'') @ dropWhile (\<lambda>c. c = CHR ''1'') s"
proof -
  have "takeWhile (\<lambda>c. c = CHR ''1'') s = replicate (length (takeWhile (\<lambda>c. c = CHR ''1'') s)) (CHR ''1'')"
    by (rule replicate_eqI [symmetric, of _ _ _, THEN sym]) (auto dest: set_takeWhileD)
  then show ?thesis by (metis takeWhile_dropWhile_id)
qed

text \<open>
  Base58 decoding is injective. Two strings that decode to the same bytes are the same string, leading ones included, so a
  checksum computed on the bytes protects every character of the address.
\<close>

theorem base58Decode_injective:
  assumes "base58Decode s = Some bs" "base58Decode t = Some bs"
  shows "s = t"
proof -
  let ?one = "\<lambda>c. c = CHR ''1''"
  have dec: "\<exists>x. base58_value 0 (dropWhile ?one u) = Some x \<and> bs = replicate (length (takeWhile ?one u)) 0 @ int_bytes x"
    if "base58Decode u = Some bs" for u
  proof -
    from that obtain x where x: "base58_value 0 u = Some x" "bs = replicate (length (takeWhile ?one u)) 0 @ int_bytes x"
      by (auto simp: base58Decode_def split: option.splits)
    have "base58_value 0 u = base58_value 0 (replicate (length (takeWhile ?one u)) (CHR ''1'') @ dropWhile ?one u)"
      by (rule arg_cong [OF split_ones])
    then have "base58_value 0 (dropWhile ?one u) = Some x" using x(1) base58_ones by simp
    then show ?thesis using x(2) by blast
  qed
  have lead: "length (takeWhile (\<lambda>b. b = 0) (replicate n (0 :: byte) @ int_bytes x)) = n" for n x
  proof -
    have "takeWhile (\<lambda>b. b = 0) (int_bytes x) = []"
    proof (cases "x = 0")
      case False
      then show ?thesis using hd_int_bytes [of x] by (cases "int_bytes x") auto
    qed (simp add: int_bytes.simps [of 0])
    then show ?thesis by (simp add: takeWhile_append)
  qed
  from dec [OF assms(1)] obtain x where x: "base58_value 0 (dropWhile ?one s) = Some x"
    "bs = replicate (length (takeWhile ?one s)) 0 @ int_bytes x" by blast
  from dec [OF assms(2)] obtain y where y: "base58_value 0 (dropWhile ?one t) = Some y"
    "bs = replicate (length (takeWhile ?one t)) 0 @ int_bytes y" by blast
  have n: "length (takeWhile ?one s) = length (takeWhile ?one t)" using x(2) y(2) lead by metis
  then have "int_bytes x = int_bytes y" using x(2) y(2) by simp
  then have "x = y" using bytes_value_int_bytes by metis
  moreover have h: "dropWhile ?one u = [] \<or> hd (dropWhile ?one u) \<noteq> CHR ''1''" for u using hd_dropWhile [of ?one u] by blast
  ultimately have "dropWhile ?one s = dropWhile ?one t" using base58_value_inj [OF x(1) _ h h] y(1) by simp
  then have e: "replicate (length (takeWhile ?one s)) (CHR ''1'') @ dropWhile ?one s =
      replicate (length (takeWhile ?one t)) (CHR ''1'') @ dropWhile ?one t" using n by simp
  have "s = replicate (length (takeWhile ?one s)) (CHR ''1'') @ dropWhile ?one s" by (rule split_ones)
  also note e
  also have "replicate (length (takeWhile ?one t)) (CHR ''1'') @ dropWhile ?one t = t" by (rule split_ones [symmetric])
  finally show ?thesis .
qed

theorem base58Decode_injective_witness: "base58Decode ''12'' = Some [0, 1] \<and> base58Decode ''112'' \<noteq> Some [0, 1]"
proof -
  have "base58Decode ''12'' = Some [0, 1]" by code_simp
  then show ?thesis using base58Decode_injective [of "''112''" "[0, 1]" "''12''"] by auto
qed

section \<open>EIP-55\<close>

lemma of_char_lower: "(of_char (lower c) :: nat) =
    (if 65 \<le> (of_char c :: nat) \<and> (of_char c :: nat) \<le> 90 then of_char c + 32 else of_char c)"
  by (simp add: lower_def)

lemma char_eqI: "(of_char c :: nat) = of_char d \<Longrightarrow> c = d"
  by (metis char_of_char)

lemma of_char_eip55: "(of_char (eip55_char h i c) :: nat) =
    (if 97 \<le> (of_char c :: nat) \<and> (of_char c :: nat) \<le> 102 \<and> 8 \<le> nibble h i then of_char c - 32 else of_char c)"
  by (auto simp: eip55_char_def Let_def)

lemma hex_case: "is_hex c \<Longrightarrow> lower (eip55_char h i (lower c)) = lower c \<and> is_hex (eip55_char h i (lower c))"
  by (auto intro!: char_eqI simp: of_char_lower of_char_eip55 is_hex_def Let_def split: if_splits)

lemma eip55_nth: "i < length body \<Longrightarrow> eip55Checksum keccak body ! i = eip55_char (keccak (ToLower body)) i (lower (body ! i))"
  by (simp add: eip55Checksum_def Let_def ToLower_def)

lemma eip55_length [simp]: "length (eip55Checksum keccak body) = length body"
  by (simp add: eip55Checksum_def Let_def ToLower_def)

lemma eip55_lower: "list_all is_hex body \<Longrightarrow> ToLower (eip55Checksum keccak body) = ToLower body"
  by (rule nth_equalityI) (simp_all add: ToLower_def eip55_nth [unfolded ToLower_def] hex_case list_all_length)

lemma eip55_idem: "list_all is_hex body \<Longrightarrow> eip55Checksum keccak (eip55Checksum keccak body) = eip55Checksum keccak body"
  using eip55_lower [of body keccak] unfolding eip55Checksum_def [of keccak "eip55Checksum keccak body"]
  by (simp add: eip55Checksum_def [of keccak body, symmetric] eip55Checksum_def [of keccak body] Let_def)

text \<open>
  The checksummed form is the accepted form. For a body of 40 hexadecimal digits the EIP-55 form is again such a body, differs from it in
  case alone, is accepted, and is a fixed point of the checksum; and a body that mixes cases is accepted only when it equals its EIP-55 form.
\<close>

theorem eip55_canonical:
  assumes "length body = 40" "list_all is_hex body"
  shows "ValidateETHAddress keccak (''0x'' @ eip55Checksum keccak body) \<and>
    ToLower (eip55Checksum keccak body) = ToLower body \<and>
    eip55Checksum keccak (eip55Checksum keccak body) = eip55Checksum keccak body \<and>
    (ValidateETHAddress keccak (''0x'' @ body) \<longleftrightarrow>
       body = ToLower body \<or> body = ToUpper body \<or> body = eip55Checksum keccak body)"
proof -
  have "list_all is_hex (eip55Checksum keccak body)" using assms(2) by (simp add: list_all_length eip55_nth hex_case)
  then have "ValidateETHAddress keccak (''0x'' @ eip55Checksum keccak body)"
    using assms eip55_idem [OF assms(2)] by (simp add: ValidateETHAddress_def HasPrefix_def Let_def)
  moreover have "ValidateETHAddress keccak (''0x'' @ body) \<longleftrightarrow>
       body = ToLower body \<or> body = ToUpper body \<or> body = eip55Checksum keccak body"
    using assms by (auto simp: ValidateETHAddress_def HasPrefix_def Let_def)
  ultimately show ?thesis using eip55_lower [OF assms(2)] eip55_idem [OF assms(2)] by blast
qed

theorem eip55_canonical_witness:
  "ValidateETHAddress (\<lambda>s. replicate 32 0x9F) (''0x'' @ eip55Checksum (\<lambda>s. replicate 32 0x9F) (concat (replicate 20 ''a1'')))"
proof -
  have "length (concat (replicate 20 ''a1'')) = 40" "list_all is_hex (concat (replicate 20 ''a1''))" by code_simp+
  from eip55_canonical [OF this] show ?thesis by blast
qed

end
