(* ===== verification/Wallet_Store.thy ===== *)
theory Wallet_Store
  imports Effects Decimal
begin

text \<open>
  \<open>internal/wallet/types.go\<close> and \<open>internal/store/pg_wallet.go\<close>: the ledger of wallets. The three tables
  are maps keyed as the unique constraints say; a column \<open>NUMERIC(40,18)\<close> is a rational with at most 18 decimals,
  since the code sends \<open>Text('f', 18)\<close> and PostgreSQL adds and compares exactly. A statement is atomic and may fail for a
  reason outside the program (connection, constraint, overflow of the column): \<open>db_faults\<close> says which of the coming
  statements do. A transaction whose body or commit fails is rolled back.
\<close>

section \<open>Data\<close>

datatype tx_type = DepositTx | WithdrawalTx | TransferTx | TradeBuy | TradeSell | FeeTx
  | FuturesMargin | FuturesPnl | FuturesLiquidation | FuturesFunding | OtherTx "8 word"

datatype tx_status = Pending | Confirming | Completed | Failed | Reviewing | Approved | Broadcast
  | RejectedTx | ColdSigning | ColdSigned | OtherTxStatus "8 word"

fun tx_type_String :: "tx_type \<Rightarrow> string" where
  "tx_type_String DepositTx = ''deposit''"
| "tx_type_String WithdrawalTx = ''withdrawal''"
| "tx_type_String TransferTx = ''transfer''"
| "tx_type_String TradeBuy = ''trade_buy''"
| "tx_type_String TradeSell = ''trade_sell''"
| "tx_type_String FeeTx = ''fee''"
| "tx_type_String FuturesMargin = ''futures_margin''"
| "tx_type_String FuturesPnl = ''futures_pnl''"
| "tx_type_String FuturesLiquidation = ''futures_liquidation''"
| "tx_type_String FuturesFunding = ''futures_funding''"
| "tx_type_String (OtherTx n) = ''unknown''"

fun tx_status_String :: "tx_status \<Rightarrow> string" where
  "tx_status_String Pending = ''pending''"
| "tx_status_String Confirming = ''confirming''"
| "tx_status_String Completed = ''completed''"
| "tx_status_String Failed = ''failed''"
| "tx_status_String Reviewing = ''reviewing''"
| "tx_status_String Approved = ''approved''"
| "tx_status_String Broadcast = ''broadcast''"
| "tx_status_String RejectedTx = ''rejected''"
| "tx_status_String ColdSigning = ''cold_signing''"
| "tx_status_String ColdSigned = ''cold_signed''"
| "tx_status_String (OtherTxStatus n) = ''unknown''"

definition AccountSpot :: string where "AccountSpot = ''spot''"
definition AccountFutures :: string where "AccountFutures = ''futures''"
definition AccountFunding :: string where "AccountFunding = ''funding''"

definition ValidAccountType :: "string \<Rightarrow> bool" where
  "ValidAccountType s \<longleftrightarrow> s = AccountSpot \<or> s = AccountFutures \<or> s = AccountFunding"

definition NormalizeAccountType :: "string \<Rightarrow> string" where
  "NormalizeAccountType s = (if s = [] then AccountSpot else s)"

record wallet =
  wa_ID :: string
  wa_UserID :: string
  wa_Asset :: string
  wa_Address :: string
  wa_AccountType :: string
  wa_Balance :: bf
  wa_Locked :: bf
  wa_CreatedAt :: int
  wa_UpdatedAt :: int

record tx =
  x_ID :: string
  x_UserID :: string
  x_WalletID :: string
  x_Asset :: string
  x_TxHash :: string
  x_Type :: tx_type
  x_Status :: tx_status
  x_Amount :: bf
  x_Fee :: bf
  x_Confirmations :: int
  x_CreatedAt :: int
  x_ToAddress :: string
  x_AccountType :: string
  x_ColdRef :: string

record settle_op =
  so_UserID :: string
  so_Asset :: string
  so_AccountType :: string
  so_Unlock :: "bf option"
  so_Delta :: "bf option"

datatype wallet_err = InsufficientBalance | WalletNotFound | InvalidAddress | NegativeAmount | UnsupportedAsset
  | InvalidPair | DailyLimitExceeded | InvalidAccount | SameAccountTransfer | TxNotFound | EmptyStatusSet | DBError
  | GoPanic

text \<open>\<open>GoPanic\<close> is no error value of the code: it stands for a run-time panic on the way (a \<open>nil\<close> dereference, a slice out of bounds).\<close>

section \<open>The database\<close>

type_synonym wallet_key = "string \<times> string \<times> string"

record wallet_row =
  wl_ID :: string
  wl_Balance :: rat
  wl_Locked :: rat
  wl_Address :: string
  wl_CreatedAt :: int
  wl_UpdatedAt :: int

record pg =
  db_wallets :: "(wallet_key, wallet_row) gomap"
  db_txs :: "(string, tx) gomap"
  db_usage :: "(string \<times> string \<times> string, rat) gomap"
  db_faults :: "bool list"
  db_ids :: "nat \<Rightarrow> string"
  db_nid :: nat
  db_now :: int
  db_day :: string

text \<open>The value a column takes from \<open>x.Text('f', 18)\<close>, and a float parsed from a column (64 bits).\<close>

definition numeric :: "bf \<Rightarrow> rat" where
  "numeric x = (case parse_dec (text_f 18 x) of Some v \<Rightarrow> v | None \<Rightarrow> 0)"

definition read_numeric :: "rat \<Rightarrow> bf" where
  "read_numeric v = BF 64 (fround 64 v)"

definition stmt :: "(pg \<Rightarrow> 'a \<times> pg) \<Rightarrow> (pg, wallet_err, 'a) act" where
  "stmt f s =
     (case db_faults s of
        True # fs \<Rightarrow> (Inl DBError, s\<lparr>db_faults := fs\<rparr>)
      | False # fs \<Rightarrow> (let (x, s') = f (s\<lparr>db_faults := fs\<rparr>) in (Inr x, s'))
      | [] \<Rightarrow> (let (x, s') = f s in (Inr x, s')))"

definition transaction :: "(pg, wallet_err, 'a) act \<Rightarrow> (pg, wallet_err, 'a) act" where
  "transaction m s =
     (case abind (stmt (\<lambda>s. ((), s))) (\<lambda>u. abind m (\<lambda>x. abind (stmt (\<lambda>s. ((), s))) (\<lambda>u. ret x))) s of
        (Inl e, s') \<Rightarrow> (Inl e, s\<lparr>db_faults := db_faults s', db_nid := db_nid s'\<rparr>)
      | (Inr x, s') \<Rightarrow> (Inr x, s'))"

definition fresh_id :: "pg \<Rightarrow> string \<times> pg" where
  "fresh_id s = (db_ids s (db_nid s), s\<lparr>db_nid := Suc (db_nid s)\<rparr>)"

text \<open>\<open>INSERT INTO wallets \<dots> ON CONFLICT (user_id, asset, account_type) DO NOTHING\<close>\<close>

definition insert_wallet :: "wallet_key \<Rightarrow> wallet_row \<Rightarrow> pg \<Rightarrow> unit \<times> pg" where
  "insert_wallet k w s =
     ((), if gm_get (db_wallets s) k = None then s\<lparr>db_wallets := gm_put k w (db_wallets s)\<rparr> else s)"

text \<open>\<open>UPDATE wallets SET \<dots> WHERE key AND cond\<close>, with the number of rows affected.\<close>

definition update_wallet :: "wallet_key \<Rightarrow> (wallet_row \<Rightarrow> bool) \<Rightarrow> (wallet_row \<Rightarrow> wallet_row) \<Rightarrow> pg \<Rightarrow> nat \<times> pg" where
  "update_wallet k cond f s =
     (case gm_get (db_wallets s) k of
        None \<Rightarrow> (0, s)
      | Some w \<Rightarrow> if cond w then (1, s\<lparr>db_wallets := gm_put k ((f w)\<lparr>wl_UpdatedAt := db_now s\<rparr>) (db_wallets s)\<rparr>) else (0, s))"

definition empty_row :: "string \<Rightarrow> int \<Rightarrow> wallet_row" where
  "empty_row wid now =
     \<lparr>wl_ID = wid, wl_Balance = 0, wl_Locked = 0, wl_Address = [], wl_CreatedAt = now, wl_UpdatedAt = now\<rparr>"

text \<open>The upsert of an empty row under a new id.\<close>

definition upsert_wallet :: "wallet_key \<Rightarrow> (pg, wallet_err, unit) act" where
  "upsert_wallet k s = (let (wid, s1) = fresh_id s in stmt (insert_wallet k (empty_row wid (db_now s1))) s1)"

section \<open>Reading\<close>

definition wallet_of :: "wallet_key \<Rightarrow> wallet_row \<Rightarrow> wallet" where
  "wallet_of k w =
     \<lparr>wa_ID = wl_ID w, wa_UserID = fst k, wa_Asset = fst (snd k), wa_Address = wl_Address w, wa_AccountType = snd (snd k),
      wa_Balance = read_numeric (wl_Balance w), wa_Locked = read_numeric (wl_Locked w),
      wa_CreatedAt = wl_CreatedAt w, wa_UpdatedAt = wl_UpdatedAt w\<rparr>"

definition GetWalletForAccount :: "string \<Rightarrow> string \<Rightarrow> string \<Rightarrow> (pg, wallet_err, wallet) act" where
  "GetWalletForAccount userID asset accountType =
     (let k = (userID, asset, NormalizeAccountType accountType)
      in abind (stmt (\<lambda>s. (gm_get (db_wallets s) k, s))) (\<lambda>row.
           case row of None \<Rightarrow> throw WalletNotFound | Some w \<Rightarrow> ret (wallet_of k w)))"

definition GetWallet :: "string \<Rightarrow> string \<Rightarrow> (pg, wallet_err, wallet) act" where
  "GetWallet userID asset = GetWalletForAccount userID asset AccountSpot"

definition GetWallets :: "string \<Rightarrow> (pg, wallet_err, wallet list) act" where
  "GetWallets userID =
     stmt (\<lambda>s. (map (\<lambda>(k, w). wallet_of k w) (filter (\<lambda>(k, w). fst k = userID) (db_wallets s)), s))"

section \<open>Single statements\<close>

definition SaveWallet :: "wallet \<Rightarrow> (pg, wallet_err, unit) act" where
  "SaveWallet w =
     stmt (insert_wallet (wa_UserID w, wa_Asset w, NormalizeAccountType (wa_AccountType w))
       \<lparr>wl_ID = wa_ID w, wl_Balance = numeric (wa_Balance w), wl_Locked = numeric (wa_Locked w), wl_Address = wa_Address w,
        wl_CreatedAt = wa_CreatedAt w, wl_UpdatedAt = wa_UpdatedAt w\<rparr>)"

text \<open>\<open>UPDATE wallets SET \<dots> WHERE id = \<dots>\<close>; no row, no error.\<close>

definition update_by_id :: "string \<Rightarrow> (wallet_row \<Rightarrow> wallet_row) \<Rightarrow> pg \<Rightarrow> unit \<times> pg" where
  "update_by_id i f s =
     ((), s\<lparr>db_wallets := map (\<lambda>(k, w). (k, if wl_ID w = i then (f w)\<lparr>wl_UpdatedAt := db_now s\<rparr> else w)) (db_wallets s)\<rparr>)"

definition UpdateBalance :: "string \<Rightarrow> bf \<Rightarrow> (pg, wallet_err, unit) act" where
  "UpdateBalance i delta = stmt (update_by_id i (\<lambda>w. w\<lparr>wl_Balance := wl_Balance w + numeric delta\<rparr>))"

definition LockBalance :: "string \<Rightarrow> bf \<Rightarrow> (pg, wallet_err, unit) act" where
  "LockBalance i amt = stmt (update_by_id i (\<lambda>w. w\<lparr>wl_Locked := wl_Locked w + numeric amt\<rparr>))"

definition UnlockBalance :: "string \<Rightarrow> bf \<Rightarrow> (pg, wallet_err, unit) act" where
  "UnlockBalance i amt = stmt (update_by_id i (\<lambda>w. w\<lparr>wl_Locked := wl_Locked w - numeric amt\<rparr>))"

text \<open>\<open>AssignDepositAddress\<close>: the first address ever bound to the spot row wins, and is returned.\<close>

datatype assign_err = MissingArgument | AssignDB

definition bind_address :: "wallet_key \<Rightarrow> string \<Rightarrow> string \<Rightarrow> pg \<Rightarrow> string \<times> pg" where
  "bind_address k wid addr s =
     (case gm_get (db_wallets s) k of
        None \<Rightarrow> (addr, s\<lparr>db_wallets := gm_put k ((empty_row wid (db_now s))\<lparr>wl_Address := addr\<rparr>) (db_wallets s)\<rparr>)
      | Some w \<Rightarrow>
          if wl_Address w = []
          then (addr, s\<lparr>db_wallets := gm_put k (w\<lparr>wl_Address := addr, wl_UpdatedAt := db_now s\<rparr>) (db_wallets s)\<rparr>)
          else (wl_Address w, s))"

definition AssignDepositAddress :: "string \<Rightarrow> string \<Rightarrow> string \<Rightarrow> pg \<Rightarrow> (assign_err + string) \<times> pg" where
  "AssignDepositAddress userID asset address s =
     (if userID = [] \<or> asset = [] \<or> address = [] then (Inl MissingArgument, s)
      else let (wid, s1) = fresh_id s
           in case stmt (bind_address (userID, asset, AccountSpot) wid address) s1 of
                (Inl e, s2) \<Rightarrow> (Inl AssignDB, s2)
              | (Inr a, s2) \<Rightarrow> (Inr a, s2))"

section \<open>Reservations\<close>

definition reserve_row :: "wallet_key \<Rightarrow> rat \<Rightarrow> (pg, wallet_err, unit) act" where
  "reserve_row k a =
     abind (stmt (update_wallet k (\<lambda>w. a \<le> wl_Balance w - wl_Locked w) (\<lambda>w. w\<lparr>wl_Locked := wl_Locked w + a\<rparr>))) (\<lambda>n.
       if n = 0 then throw InsufficientBalance else ret ())"

definition ReserveForAccount :: "string \<Rightarrow> string \<Rightarrow> string \<Rightarrow> bf option \<Rightarrow> (pg, wallet_err, wallet) act" where
  "ReserveForAccount userID asset accountType amt =
     (let acct = NormalizeAccountType accountType; k = (userID, asset, acct)
      in if \<not> ValidAccountType acct then throw InvalidAccount
         else case amt of
             None \<Rightarrow> throw NegativeAmount
           | Some a \<Rightarrow>
               if bf_sign a \<le> 0 then throw NegativeAmount
               else abind (transaction (abind (upsert_wallet k) (\<lambda>u. reserve_row k (numeric a)))) (\<lambda>u.
                      GetWalletForAccount userID asset acct))"

definition ReserveForOrder :: "string \<Rightarrow> string \<Rightarrow> bf option \<Rightarrow> (pg, wallet_err, wallet) act" where
  "ReserveForOrder userID asset amt = ReserveForAccount userID asset AccountSpot amt"

text \<open>The conditional upsert of the usage row: both branches carry the limit.\<close>

definition accrue_usage :: "string \<times> string \<times> string \<Rightarrow> rat \<Rightarrow> rat \<Rightarrow> pg \<Rightarrow> nat \<times> pg" where
  "accrue_usage k u limit s =
     (if u \<le> limit then
        case gm_get (db_usage s) k of
          None \<Rightarrow> (1, s\<lparr>db_usage := gm_put k u (db_usage s)\<rparr>)
        | Some v \<Rightarrow> if v + u \<le> limit then (1, s\<lparr>db_usage := gm_put k (v + u) (db_usage s)\<rparr>) else (0, s)
      else (0, s))"

definition ReserveWithDailyLimit ::
  "string \<Rightarrow> string \<Rightarrow> bf option \<Rightarrow> bf option \<Rightarrow> bf \<Rightarrow> (pg, wallet_err, wallet) act" where
  "ReserveWithDailyLimit userID asset amount usdtEquiv limit =
     (case (amount, usdtEquiv) of
        (Some a, Some u) \<Rightarrow>
          if bf_sign a \<le> 0 \<or> bf_sign u \<le> 0 then throw NegativeAmount
          else let k = (userID, asset, AccountSpot)
               in abind (transaction (abind (upsert_wallet k) (\<lambda>_. abind (reserve_row k (numeric a)) (\<lambda>_.
                    abind (stmt (\<lambda>s. accrue_usage (userID, asset, db_day s) (numeric u) (numeric limit) s)) (\<lambda>n.
                      if n = 0 then throw DailyLimitExceeded else ret ())))))
                    (\<lambda>_. GetWallet userID asset)
      | _ \<Rightarrow> throw NegativeAmount)"

definition ReleaseDailyUsage :: "string \<Rightarrow> string \<Rightarrow> bf option \<Rightarrow> (pg, wallet_err, unit) act" where
  "ReleaseDailyUsage userID asset usdtEquiv =
     (case usdtEquiv of
        None \<Rightarrow> ret ()
      | Some u \<Rightarrow>
          if bf_sign u \<le> 0 then ret ()
          else stmt (\<lambda>s. ((), case gm_get (db_usage s) (userID, asset, db_day s) of
                 None \<Rightarrow> s
               | Some v \<Rightarrow> s\<lparr>db_usage := gm_put (userID, asset, db_day s) (max (v - numeric u) 0) (db_usage s)\<rparr>)))"

section \<open>Settle\<close>

definition op_key :: "settle_op \<Rightarrow> wallet_key" where
  "op_key p = (so_UserID p, so_Asset p, NormalizeAccountType (so_AccountType p))"

text \<open>An unlock of more than is locked matches no row, and is not an error.\<close>

definition settle_unlock :: "settle_op \<Rightarrow> (pg, wallet_err, unit) act" where
  "settle_unlock p =
     (case so_Unlock p of
        None \<Rightarrow> ret ()
      | Some u \<Rightarrow>
          if bf_sign u = 0 then ret ()
          else abind (stmt (update_wallet (op_key p) (\<lambda>w. numeric u \<le> wl_Locked w)
                        (\<lambda>w. w\<lparr>wl_Locked := wl_Locked w - numeric u\<rparr>))) (\<lambda>n. ret ()))"

definition settle_delta :: "settle_op \<Rightarrow> (pg, wallet_err, unit) act" where
  "settle_delta p =
     (case so_Delta p of
        None \<Rightarrow> ret ()
      | Some d \<Rightarrow>
          if bf_sign d = 0 then ret ()
          else if bf_sign d < 0
          then abind (stmt (update_wallet (op_key p) (\<lambda>w. numeric (bf_neg new_float d) \<le> wl_Balance w - wl_Locked w)
                        (\<lambda>w. w\<lparr>wl_Balance := wl_Balance w + numeric d\<rparr>))) (\<lambda>n.
                 if n = 0 then throw InsufficientBalance else ret ())
          else abind (stmt (update_wallet (op_key p) (\<lambda>w. True)
                        (\<lambda>w. w\<lparr>wl_Balance := wl_Balance w + numeric d\<rparr>))) (\<lambda>n. ret ()))"

definition settle_apply :: "settle_op \<Rightarrow> (pg, wallet_err, unit) act" where
  "settle_apply p = abind (settle_unlock p) (\<lambda>_. settle_delta p)"

text \<open>A transaction row, as \<open>GetTx\<close> reads it back.\<close>

definition stored_tx :: "tx \<Rightarrow> tx" where
  "stored_tx t = t\<lparr>x_Amount := read_numeric (numeric (x_Amount t)), x_Fee := read_numeric (numeric (x_Fee t)),
     x_AccountType := [], x_ColdRef := []\<rparr>"

text \<open>\<open>transactions.wallet_id\<close> is a foreign key: a new row must name a wallet.\<close>

definition wallet_exists :: "string \<Rightarrow> pg \<Rightarrow> bool" where
  "wallet_exists wid s = list_ex (\<lambda>(k, w). wl_ID w = wid) (db_wallets s)"

definition insert_tx :: "tx \<Rightarrow> pg \<Rightarrow> bool \<times> pg" where
  "insert_tx t s =
     (if gm_get (db_txs s) (x_ID t) \<noteq> None then (True, s)
      else if wallet_exists (x_WalletID t) s then (True, s\<lparr>db_txs := gm_put (x_ID t) (stored_tx t) (db_txs s)\<rparr>)
      else (False, s))"

definition checked :: "(pg \<Rightarrow> bool \<times> pg) \<Rightarrow> (pg, wallet_err, unit) act" where
  "checked f = abind (stmt f) (\<lambda>ok. if ok then ret () else throw DBError)"

definition settle_tx :: "tx \<Rightarrow> (pg, wallet_err, unit) act" where
  "settle_tx t =
     abind (if x_WalletID t \<noteq> [] then ret (x_WalletID t)
            else abind (stmt (\<lambda>s. (gm_get (db_wallets s) (x_UserID t, x_Asset t, NormalizeAccountType (x_AccountType t)), s)))
                   (\<lambda>row. case row of None \<Rightarrow> throw WalletNotFound | Some w \<Rightarrow> ret (wl_ID w)))
       (\<lambda>wid. checked (insert_tx (t\<lparr>x_WalletID := wid, x_ToAddress := []\<rparr>)))"

definition pg_Settle :: "settle_op list \<Rightarrow> tx list \<Rightarrow> (pg, wallet_err, unit) act" where
  "pg_Settle ops txns =
     transaction (abind (each (\<lambda>p. upsert_wallet (op_key p)) ops) (\<lambda>_.
       abind (each settle_apply ops) (\<lambda>_. each settle_tx txns)))"

section \<open>Transactions\<close>

text \<open>\<open>INSERT \<dots> ON CONFLICT (id) DO UPDATE\<close> of the three lifecycle columns.\<close>

definition save_tx :: "tx \<Rightarrow> pg \<Rightarrow> bool \<times> pg" where
  "save_tx t s =
     (case gm_get (db_txs s) (x_ID t) of
        None \<Rightarrow> insert_tx t s
      | Some old \<Rightarrow> (True, s\<lparr>db_txs := gm_put (x_ID t)
          (old\<lparr>x_Status := x_Status t, x_TxHash := x_TxHash t, x_Confirmations := x_Confirmations t\<rparr>) (db_txs s)\<rparr>))"

definition SaveTx :: "tx \<Rightarrow> (pg, wallet_err, unit) act" where
  "SaveTx t = checked (save_tx t)"

definition GetTx :: "string \<Rightarrow> (pg, wallet_err, tx) act" where
  "GetTx i = abind (stmt (\<lambda>s. (gm_get (db_txs s) i, s))) (\<lambda>row. case row of None \<Rightarrow> throw TxNotFound | Some t \<Rightarrow> ret t)"

text \<open>\<open>ORDER BY created_at DESC LIMIT \<dots> OFFSET \<dots>\<close>, ties in table order.\<close>

definition page :: "nat \<Rightarrow> nat \<Rightarrow> tx list \<Rightarrow> tx list" where
  "page limit offset ts = take limit (drop offset (sort_key (\<lambda>t. - x_CreatedAt t) ts))"

definition ListTx :: "string \<Rightarrow> nat \<Rightarrow> nat \<Rightarrow> (pg, wallet_err, tx list) act" where
  "ListTx userID limit offset =
     stmt (\<lambda>s. (page limit offset (filter (\<lambda>t. x_UserID t = userID) (map snd (db_txs s))), s))"

definition ListTxByStatus :: "tx_status \<Rightarrow> nat \<Rightarrow> nat \<Rightarrow> (pg, wallet_err, tx list) act" where
  "ListTxByStatus st limit offset =
     stmt (\<lambda>s. (page limit offset (filter (\<lambda>t. x_Status t = st) (map snd (db_txs s))), s))"

definition update_tx :: "string \<Rightarrow> (tx \<Rightarrow> bool) \<Rightarrow> tx_status \<Rightarrow> pg \<Rightarrow> nat \<times> pg" where
  "update_tx i cond st s =
     (case gm_get (db_txs s) i of
        None \<Rightarrow> (0, s)
      | Some t \<Rightarrow> if cond t then (1, s\<lparr>db_txs := gm_put i (t\<lparr>x_Status := st\<rparr>) (db_txs s)\<rparr>) else (0, s))"

definition UpdateTxStatus :: "string \<Rightarrow> tx_status \<Rightarrow> (pg, wallet_err, unit) act" where
  "UpdateTxStatus i st = abind (stmt (update_tx i (\<lambda>t. True) st)) (\<lambda>n. if n = 0 then throw TxNotFound else ret ())"

definition UpdateTxStatusFrom :: "string \<Rightarrow> tx_status list \<Rightarrow> tx_status \<Rightarrow> (pg, wallet_err, bool) act" where
  "UpdateTxStatusFrom i froms st =
     (if froms = [] then throw EmptyStatusSet
      else abind (stmt (update_tx i (\<lambda>t. x_Status t \<in> set froms) st)) (\<lambda>n. ret (0 < n)))"

end
