(* ===== verification/Wallet_Ledger.thy ===== *)
theory Wallet_Ledger
  imports Wallet_Store
begin

text \<open>
  What the wallet store guarantees: balances and locked amounts as functions of the wallet, the effect of \<open>Settle\<close> and of
  the reservations on them, solvency, and the contract of \<open>Settle\<close> as an interface that the services use.
\<close>

section \<open>Columns\<close>

lemma numeric_eq: "numeric x = of_int (round_even (bval x * 10 ^ 18)) / 10 ^ 18"
  by (simp add: numeric_def parse_text_f)

lemma numeric_zero [simp]: "bval x = 0 \<Longrightarrow> numeric x = 0"
  by (simp add: numeric_eq)

lemma numeric_neg [simp]: "numeric (bf_neg new_float x) = - numeric x"
  by (simp add: numeric_eq bf_neg_def bf_set_def round_even_minus)

lemma numeric_nonneg: "0 \<le> bval x \<Longrightarrow> 0 \<le> numeric x"
  using round_even_ge [of 0 "bval x * 10 ^ 18"] by (simp add: numeric_eq)

lemma numeric_nonpos: "bval x \<le> 0 \<Longrightarrow> numeric x \<le> 0"
  using round_even_le [of "bval x * 10 ^ 18" 0] by (simp add: numeric_eq mult_nonpos_nonneg)

lemma numeric_exact: "bval x * 10 ^ 18 = of_int k \<Longrightarrow> numeric x = bval x"
  by (simp add: numeric_eq field_simps)

section \<open>Balances and locks\<close>

definition bal :: "pg \<Rightarrow> wallet_key \<Rightarrow> rat" where
  "bal s k = (case gm_get (db_wallets s) k of None \<Rightarrow> 0 | Some w \<Rightarrow> wl_Balance w)"

definition lck :: "pg \<Rightarrow> wallet_key \<Rightarrow> rat" where
  "lck s k = (case gm_get (db_wallets s) k of None \<Rightarrow> 0 | Some w \<Rightarrow> wl_Locked w)"

definition has :: "pg \<Rightarrow> wallet_key \<Rightarrow> bool" where
  "has s k \<longleftrightarrow> gm_get (db_wallets s) k \<noteq> None"

text \<open>The columns of two states agree.\<close>

definition same_money :: "pg \<Rightarrow> pg \<Rightarrow> bool" where
  "same_money s s' \<longleftrightarrow> bal s' = bal s \<and> lck s' = lck s"

definition dn :: "settle_op \<Rightarrow> rat" where
  "dn p = (case so_Delta p of None \<Rightarrow> 0 | Some d \<Rightarrow> numeric d)"

definition un :: "settle_op \<Rightarrow> rat" where
  "un p = (case so_Unlock p of None \<Rightarrow> 0 | Some u \<Rightarrow> numeric u)"

definition delta_at :: "settle_op list \<Rightarrow> wallet_key \<Rightarrow> rat" where
  "delta_at ops k = (\<Sum>p\<leftarrow>ops. if op_key p = k then dn p else 0)"

lemma delta_at_simps [simp]:
  "delta_at [] k = 0" "delta_at (p # ops) k = (if op_key p = k then dn p else 0) + delta_at ops k"
  by (simp_all add: delta_at_def)

definition solvent :: "(wallet_key \<Rightarrow> rat) \<Rightarrow> (wallet_key \<Rightarrow> rat) \<Rightarrow> bool" where
  "solvent b l \<longleftrightarrow> (\<forall>k. 0 \<le> l k \<and> l k \<le> b k)"

lemma faults_money [simp]:
  "bal (s\<lparr>db_faults := fs\<rparr>) = bal s" "lck (s\<lparr>db_faults := fs\<rparr>) = lck s" "has (s\<lparr>db_faults := fs\<rparr>) = has s"
  "bal (s\<lparr>db_nid := n\<rparr>) = bal s" "lck (s\<lparr>db_nid := n\<rparr>) = lck s" "has (s\<lparr>db_nid := n\<rparr>) = has s"
  "bal (s\<lparr>db_txs := ts\<rparr>) = bal s" "lck (s\<lparr>db_txs := ts\<rparr>) = lck s" "has (s\<lparr>db_txs := ts\<rparr>) = has s"
  "bal (s\<lparr>db_usage := us\<rparr>) = bal s" "lck (s\<lparr>db_usage := us\<rparr>) = lck s" "has (s\<lparr>db_usage := us\<rparr>) = has s"
  by (simp_all add: bal_def lck_def has_def fun_eq_iff)

text \<open>A statement fails and changes nothing, or does what it says on a state that differs in the faults to come alone.\<close>

lemma stmt_cases:
  assumes "stmt f s = (r, s')"
  obtains fs where "r = Inl DBError" "s' = s\<lparr>db_faults := fs\<rparr>"
  | fs x where "r = Inr x" "f (s\<lparr>db_faults := fs\<rparr>) = (x, s')"
proof (cases "db_faults s")
  case Nil
  then have e: "f (s\<lparr>db_faults := []\<rparr>) = f s" by (cases s) simp
  obtain x t where "f s = (x, t)" by fastforce
  then show ?thesis using assms Nil e by (intro that(2) [of x "[]"]) (simp_all add: stmt_def)
next
  case (Cons b fs)
  then show ?thesis using assms that by (cases b) (auto simp: stmt_def split: prod.splits)
qed

lemma transaction_Inl: "transaction m s = (Inl e, s') \<Longrightarrow> \<exists>fs n. s' = s\<lparr>db_faults := fs, db_nid := n\<rparr>"
  by (auto simp: transaction_def split: prod.splits sum.splits)

lemma transaction_Inr:
  assumes "transaction m s = (Inr x, s')"
  shows "\<exists>fs fs' s1. m (s\<lparr>db_faults := fs\<rparr>) = (Inr x, s1) \<and> s' = s1\<lparr>db_faults := fs'\<rparr>"
proof -
  from assms have "abind (stmt (\<lambda>s. ((), s))) (\<lambda>u. abind m (\<lambda>x. abind (stmt (\<lambda>s. ((), s))) (\<lambda>u. ret x))) s = (Inr x, s')"
    by (auto simp: transaction_def split: prod.splits sum.splits)
  then obtain s0 s1 where a: "stmt (\<lambda>s. ((), s)) s = (Inr (), s0)" "m s0 = (Inr x, s1)" "stmt (\<lambda>s. ((), s)) s1 = (Inr (), s')"
    by (auto simp: abind_Inr)
  from a(1) obtain fs where "s0 = s\<lparr>db_faults := fs\<rparr>" by (auto elim: stmt_cases)
  moreover from a(3) obtain fs' where "s' = s1\<lparr>db_faults := fs'\<rparr>" by (auto elim: stmt_cases)
  ultimately show ?thesis using a(2) by blast
qed

section \<open>The statements on a wallet\<close>

lemma upsert_wallet_money:
  assumes "upsert_wallet k s = (r, s')"
  shows "same_money s s' \<and> (has s k0 \<longrightarrow> has s' k0) \<and> (r = Inr () \<longrightarrow> has s' k) \<and> db_txs s' = db_txs s \<and> db_usage s' = db_usage s
    \<and> db_day s' = db_day s"
  using assms
  by (auto simp: upsert_wallet_def fresh_id_def insert_wallet_def empty_row_def same_money_def has_def bal_def lck_def fun_eq_iff
      elim!: stmt_cases split: if_splits)

lemma update_wallet_money:
  assumes "update_wallet k cond f s = (n, s')"
    and "\<And>w. wl_Balance (f w) = wl_Balance w + d" "\<And>w. wl_Locked (f w) = wl_Locked w + l"
    and "\<And>w. cond w \<longleftrightarrow> P (wl_Balance w) (wl_Locked w)" and "has s k"
  shows "n = (if P (bal s k) (lck s k) then 1 else 0) \<and>
    bal s' = (if P (bal s k) (lck s k) then (bal s)(k := bal s k + d) else bal s) \<and>
    lck s' = (if P (bal s k) (lck s k) then (lck s)(k := lck s k + l) else lck s) \<and>
    has s' = has s \<and> db_txs s' = db_txs s \<and> db_usage s' = db_usage s \<and> db_day s' = db_day s"
proof -
  from assms(5) obtain w where "gm_get (db_wallets s) k = Some w" by (auto simp: has_def)
  then show ?thesis using assms(1)
    by (auto simp: update_wallet_def bal_def lck_def has_def fun_eq_iff assms(2-4) split: if_splits)
qed

text \<open>What an unlock does to the locked amount: nothing when less is locked.\<close>

definition unlocked :: "rat \<Rightarrow> rat \<Rightarrow> rat" where
  "unlocked u l = (if u \<le> l then l - u else l)"

lemma settle_unlock_money:
  assumes "settle_unlock p s = (Inr (), s')" "has s (op_key p)"
  shows "bal s' = bal s \<and> lck s' = (lck s)(op_key p := unlocked (un p) (lck s (op_key p))) \<and> has s' = has s \<and> db_txs s' = db_txs s"
proof (cases "so_Unlock p = None \<or> (\<exists>u. so_Unlock p = Some u \<and> bf_sign u = 0)")
  case True
  then have "un p = 0" by (auto simp: un_def)
  then show ?thesis using assms(1) True by (auto simp: settle_unlock_def unlocked_def fun_eq_iff split: option.splits if_splits)
next
  case False
  then obtain u where u: "so_Unlock p = Some u" "bf_sign u \<noteq> 0" by auto
  from assms(1) u obtain n where "stmt (update_wallet (op_key p) (\<lambda>w. numeric u \<le> wl_Locked w)
      (\<lambda>w. w\<lparr>wl_Locked := wl_Locked w - numeric u\<rparr>)) s = (Inr n, s')" by (auto simp: settle_unlock_def abind_Inr)
  then obtain fs where "update_wallet (op_key p) (\<lambda>w. numeric u \<le> wl_Locked w)
      (\<lambda>w. w\<lparr>wl_Locked := wl_Locked w - numeric u\<rparr>) (s\<lparr>db_faults := fs\<rparr>) = (n, s')" by (auto elim: stmt_cases)
  from update_wallet_money [OF this, of 0 "- numeric u" "\<lambda>b l. numeric u \<le> l"] assms(2) u
  show ?thesis by (auto simp: un_def unlocked_def fun_eq_iff)
qed

lemma settle_delta_money:
  assumes "settle_delta p s = (Inr (), s')" "has s (op_key p)"
  shows "bal s' = (bal s)(op_key p := bal s (op_key p) + dn p) \<and> lck s' = lck s \<and> has s' = has s \<and> db_txs s' = db_txs s \<and>
    (dn p < 0 \<longrightarrow> lck s (op_key p) \<le> bal s (op_key p) + dn p)"
proof (cases "so_Delta p = None \<or> (\<exists>d. so_Delta p = Some d \<and> bf_sign d = 0)")
  case True
  then have "dn p = 0" by (auto simp: dn_def)
  then show ?thesis using assms(1) True by (auto simp: settle_delta_def fun_eq_iff split: option.splits if_splits)
next
  case False
  then obtain d where d: "so_Delta p = Some d" "bf_sign d \<noteq> 0" by auto
  define neg where "neg = (bf_sign d < 0)"
  let ?c = "\<lambda>w. if neg then numeric (bf_neg new_float d) \<le> wl_Balance w - wl_Locked w else True"
  let ?f = "\<lambda>w. w\<lparr>wl_Balance := wl_Balance w + numeric d\<rparr>"
  from assms(1) d obtain n where n: "stmt (update_wallet (op_key p) ?c ?f) s = (Inr n, s')" "neg \<longrightarrow> n \<noteq> 0"
    by (auto simp: settle_delta_def abind_Inr neg_def split: if_splits)
  then obtain fs where "update_wallet (op_key p) ?c ?f (s\<lparr>db_faults := fs\<rparr>) = (n, s')" by (auto elim: stmt_cases)
  from update_wallet_money [OF this, of "numeric d" 0 "\<lambda>b l. if neg then - numeric d \<le> b - l else True"] assms(2) n(2)
  show ?thesis using d numeric_nonneg [of d]
    by (auto simp: dn_def neg_def fun_eq_iff algebra_simps split: if_splits)
qed

lemma settle_apply_money:
  assumes "settle_apply p s = (Inr (), s')" "has s (op_key p)"
  shows "bal s' = (bal s)(op_key p := bal s (op_key p) + dn p)
    \<and> lck s' = (lck s)(op_key p := unlocked (un p) (lck s (op_key p))) \<and> has s' = has s \<and> db_txs s' = db_txs s \<and>
    (dn p < 0 \<longrightarrow> unlocked (un p) (lck s (op_key p)) \<le> bal s (op_key p) + dn p)"
proof -
  from assms(1) obtain s1 where a: "settle_unlock p s = (Inr (), s1)" "settle_delta p s1 = (Inr (), s')"
    by (auto simp: settle_apply_def abind_Inr)
  note u = settle_unlock_money [OF a(1) assms(2)]
  then have "has s1 (op_key p)" using assms(2) by simp
  from settle_delta_money [OF a(2) this] u show ?thesis by simp
qed

lemma settle_apply_solvent:
  assumes "settle_apply p s = (Inr (), s')" "has s (op_key p)" "0 \<le> un p" "solvent (bal s) (lck s)"
  shows "solvent (bal s') (lck s')"
proof -
  note m = settle_apply_money [OF assms(1,2)]
  have "0 \<le> lck s k \<and> lck s k \<le> bal s k" for k using assms(4) unfolding solvent_def by blast
  moreover have "0 \<le> unlocked (un p) l \<and> unlocked (un p) l \<le> l" if "0 \<le> l" for l using that assms(3) by (simp add: unlocked_def)
  ultimately show ?thesis using m unfolding solvent_def
    by (auto 0 3 simp: not_less) (metis add_increasing2 not_less order_trans)
qed

section \<open>Settle\<close>

lemma each_upsert_money:
  assumes "each (\<lambda>p. upsert_wallet (op_key p)) ops s = (r, s')"
  shows "same_money s s' \<and> (has s k0 \<longrightarrow> has s' k0) \<and> (r = Inr () \<longrightarrow> (\<forall>p \<in> set ops. has s' (op_key p))) \<and> db_txs s' = db_txs s"
  using assms
proof (induction ops arbitrary: s)
  case Nil
  then show ?case by (simp add: same_money_def)
next
  case (Cons p ops)
  obtain r1 s1 where u: "upsert_wallet (op_key p) s = (r1, s1)" by fastforce
  show ?case
  proof (cases r1)
    case (Inl e)
    then show ?thesis using Cons.prems u upsert_wallet_money [OF u, of k0] by auto
  next
    case (Inr v)
    then have e: "each (\<lambda>p. upsert_wallet (op_key p)) ops s1 = (r, s')" using Cons.prems u by simp
    have keep: "has s1 k \<longrightarrow> has s' k" for k
    proof -
      have "has s' k" if "has s1 k"
      proof (rule each_keeps [of ops "\<lambda>s. has s k", OF _ that e])
        show "has t' k" if "has t k" "upsert_wallet (op_key x) t = (r0, t')" for x t r0 t'
          using upsert_wallet_money [OF that(2), of k] that(1) by blast
      qed
      then show ?thesis by blast
    qed
    show ?thesis using Cons.IH [OF e] keep [of "op_key p"] keep [of k0] upsert_wallet_money [OF u, of k0] Inr
      by (auto simp: same_money_def)
  qed
qed

text \<open>What a list of operations does to the locked amount of one wallet, in their order.\<close>

definition unlocked_at :: "settle_op list \<Rightarrow> wallet_key \<Rightarrow> rat \<Rightarrow> rat" where
  "unlocked_at ops k l = fold (\<lambda>p l. if op_key p = k then unlocked (un p) l else l) ops l"

lemma unlocked_at_simps [simp]:
  "unlocked_at [] k l = l"
  "unlocked_at (p # ops) k l = unlocked_at ops k (if op_key p = k then unlocked (un p) l else l)"
  by (simp_all add: unlocked_at_def)

lemma each_apply_money:
  assumes "each settle_apply ops s = (Inr (), s')" "\<forall>p \<in> set ops. has s (op_key p)"
  shows "bal s' k = bal s k + delta_at ops k \<and> lck s' k = unlocked_at ops k (lck s k) \<and> db_txs s' = db_txs s \<and> has s' = has s \<and>
    ((\<forall>p \<in> set ops. 0 \<le> un p) \<longrightarrow> solvent (bal s) (lck s) \<longrightarrow> solvent (bal s') (lck s'))"
  using assms
proof (induction ops arbitrary: s)
  case (Cons p ops)
  obtain r1 s1 where a: "settle_apply p s = (r1, s1)" by fastforce
  from Cons.prems(1) a obtain v where "r1 = Inr v" and e: "each settle_apply ops s1 = (Inr (), s')" by (cases r1) auto
  then have a: "settle_apply p s = (Inr (), s1)" using a by simp
  have h: "has s (op_key p)" using Cons.prems(2) by simp
  note m = settle_apply_money [OF a h]
  have h1: "\<forall>q \<in> set ops. has s1 (op_key q)" using m Cons.prems(2) by simp
  have sol: "solvent (bal s) (lck s) \<longrightarrow> 0 \<le> un p \<longrightarrow> solvent (bal s1) (lck s1)"
    using settle_apply_solvent [OF a h] by blast
  note ih = Cons.IH [OF e h1]
  have "bal s' k = bal s k + delta_at (p # ops) k" using ih m by (simp add: add.assoc)
  moreover have "lck s' k = unlocked_at (p # ops) k (lck s k)" using ih m by simp
  moreover have "(\<forall>q \<in> set (p # ops). 0 \<le> un q) \<longrightarrow> solvent (bal s) (lck s) \<longrightarrow> solvent (bal s') (lck s')"
    using ih sol by (metis list.set_intros)
  ultimately show ?case using ih m by simp
qed simp

lemma settle_tx_money:
  assumes "settle_tx t s = (r, s')"
  shows "same_money s s'"
proof -
  have ins: "same_money s s'" if "checked (insert_tx v) s = (q, s')" for v q s s'
    using that by (auto simp: same_money_def insert_tx_def checked_def abind_def ret_def throw_def
        elim!: stmt_cases split: if_splits sum.splits prod.splits)
  have sel: "same_money s s'" if "stmt (\<lambda>s. (g s, s)) s = (q, s')" for g :: "pg \<Rightarrow> wallet_row option" and q s s'
    using that by (auto simp: same_money_def elim!: stmt_cases)
  show ?thesis
  proof (cases "x_WalletID t = []")
    case False
    then show ?thesis using assms ins by (auto simp: settle_tx_def abind_def ret_def)
  next
    case True
    obtain q s1 where q: "stmt (\<lambda>s. (gm_get (db_wallets s) (x_UserID t, x_Asset t, NormalizeAccountType (x_AccountType t)), s)) s = (q, s1)"
      by fastforce
    from sel [OF this] have "same_money s s1" .
    then show ?thesis using assms q True ins
      by (auto simp: settle_tx_def abind_def throw_def ret_def same_money_def split: sum.splits option.splits prod.splits)
  qed
qed

lemma each_tx_money: "each settle_tx ts s = (r, s') \<Longrightarrow> same_money s s'"
proof (rule each_keeps [of ts "\<lambda>t. same_money s t"])
  show "same_money s t'" if "same_money s t" "settle_tx x t = (r0, t')" for x t r0 t'
    using settle_tx_money [OF that(2)] that(1) by (simp add: same_money_def)
qed (simp_all add: same_money_def)

lemma pg_Settle_ok:
  assumes "pg_Settle ops ts s = (Inr u, s')"
  shows "bal s' k = bal s k + delta_at ops k" and "lck s' k = unlocked_at ops k (lck s k)"
    and "\<forall>p \<in> set ops. 0 \<le> un p \<Longrightarrow> solvent (bal s) (lck s) \<Longrightarrow> solvent (bal s') (lck s')"
proof -
  from transaction_Inr [OF assms [unfolded pg_Settle_def]] obtain fs fs' s3 where
    t: "abind (each (\<lambda>p. upsert_wallet (op_key p)) ops) (\<lambda>_. abind (each settle_apply ops) (\<lambda>_. each settle_tx ts))
      (s\<lparr>db_faults := fs\<rparr>) = (Inr u, s3)" "s' = s3\<lparr>db_faults := fs'\<rparr>" by blast
  then obtain s1 s2 where a: "each (\<lambda>p. upsert_wallet (op_key p)) ops (s\<lparr>db_faults := fs\<rparr>) = (Inr (), s1)"
    "each settle_apply ops s1 = (Inr (), s2)" "each settle_tx ts s2 = (Inr u, s3)" by (auto simp: abind_Inr)
  from each_upsert_money [OF a(1)] have u: "bal s1 = bal s" "lck s1 = lck s" "\<forall>p \<in> set ops. has s1 (op_key p)"
    by (auto simp: same_money_def)
  note m = each_apply_money [OF a(2) u(3)]
  have f: "bal s' = bal s2" "lck s' = lck s2" using each_tx_money [OF a(3)] t(2) by (simp_all add: same_money_def)
  show "bal s' k = bal s k + delta_at ops k" "lck s' k = unlocked_at ops k (lck s k)" using m u f by simp_all
  show "solvent (bal s') (lck s')" if "\<forall>p \<in> set ops. 0 \<le> un p" "solvent (bal s) (lck s)" using m u f that by simp
qed

lemma pg_Settle_fails: "pg_Settle ops ts s = (Inl e, s') \<Longrightarrow> \<exists>fs n. s' = s\<lparr>db_faults := fs, db_nid := n\<rparr>"
  unfolding pg_Settle_def by (rule transaction_Inl)

section \<open>The interface of Settle\<close>

text \<open>The sum of an asset over a finite set of wallets.\<close>

definition held :: "wallet_key set \<Rightarrow> string \<Rightarrow> (wallet_key \<Rightarrow> rat) \<Rightarrow> rat" where
  "held K a b = (\<Sum>k\<in>{k \<in> K. fst (snd k) = a}. b k)"

definition flow :: "string \<Rightarrow> settle_op list \<Rightarrow> rat" where
  "flow a ops = (\<Sum>p\<leftarrow>ops. if so_Asset p = a then dn p else 0)"

lemma flow_simps [simp]:
  "flow a [] = 0" "flow a (p # ops) = (if so_Asset p = a then dn p else 0) + flow a ops"
  by (simp_all add: flow_def)

lemma held_delta:
  assumes "finite K" "\<And>k. b' k = b k + delta_at ops k" "op_key ` set ops \<subseteq> K"
  shows "held K a b' = held K a b + flow a ops"
proof -
  let ?A = "{k \<in> K. fst (snd k) = a}"
  have fin: "finite ?A" using assms(1) by simp
  have "(\<Sum>k\<in>?A. delta_at ops k) = flow a ops" using assms(3)
  proof (induction ops)
    case (Cons p ops)
    have "op_key p \<in> ?A \<longleftrightarrow> so_Asset p = a" using Cons.prems by (simp add: op_key_def)
    then have "(\<Sum>k\<in>?A. if op_key p = k then dn p else 0) = (if so_Asset p = a then dn p else 0)"
      using fin by (subst sum.delta') simp_all
    then show ?case using Cons by (simp add: sum.distrib)
  qed simp
  then show ?thesis by (simp add: held_def assms(2) sum.distrib)
qed

text \<open>
  What the services rely on: a \<open>Settle\<close> that fails moves no money; one that succeeds moves exactly the deltas of its
  operations and unlocks what they say, where that much is locked; and no wallet's balance ever drops below what is locked in it.
\<close>

locale ledger =
  fixes settle :: "settle_op list \<Rightarrow> tx list \<Rightarrow> ('s, wallet_err, unit) act"
    and balance :: "'s \<Rightarrow> wallet_key \<Rightarrow> rat"
    and locked :: "'s \<Rightarrow> wallet_key \<Rightarrow> rat"
  assumes settle_fails: "settle ops ts s = (Inl e, s') \<Longrightarrow> balance s' = balance s \<and> locked s' = locked s"
    and settle_moves: "settle ops ts s = (Inr u, s') \<Longrightarrow> balance s' k = balance s k + delta_at ops k"
    and settle_unlocks: "settle ops ts s = (Inr u, s') \<Longrightarrow> locked s' k = unlocked_at ops k (locked s k)"
    and settle_solvent: "settle ops ts s = (Inr u, s') \<Longrightarrow> \<forall>p \<in> set ops. 0 \<le> un p \<Longrightarrow>
      solvent (balance s) (locked s) \<Longrightarrow> solvent (balance s') (locked s')"
begin

lemma settle_total:
  assumes "settle ops ts s = (r, s')" "finite K" "op_key ` set ops \<subseteq> K"
  shows "held K a (balance s') = held K a (balance s) + (case r of Inl e \<Rightarrow> 0 | Inr u \<Rightarrow> flow a ops)"
proof (cases r)
  case (Inl e)
  then show ?thesis using settle_fails assms(1) by simp
next
  case (Inr u)
  then show ?thesis using held_delta [OF assms(2) settle_moves assms(3)] assms(1) by simp
qed

lemma settle_keeps_solvent:
  assumes "settle ops ts s = (r, s')" "\<forall>p \<in> set ops. 0 \<le> un p" "solvent (balance s) (locked s)"
  shows "solvent (balance s') (locked s')"
  using assms settle_fails settle_solvent by (cases r) (metis, metis)

text \<open>No one spends what he does not have: a debit settles only when the balance covers it.\<close>

lemma settle_covers:
  assumes "settle ops ts s = (Inr u, s')" "\<forall>p \<in> set ops. 0 \<le> un p" "solvent (balance s) (locked s)"
  shows "- delta_at ops k \<le> balance s k"
proof -
  have "0 \<le> balance s' k"
    using settle_solvent [OF assms] unfolding solvent_def by (meson order_trans)
  then show ?thesis using settle_moves [OF assms(1), of k] by simp
qed

end

interpretation pg_ledger: ledger pg_Settle bal lck
proof
  show "bal s' = bal s \<and> lck s' = lck s" if "pg_Settle ops ts s = (Inl e, s')" for ops ts s e s'
    using pg_Settle_fails [OF that] by auto
qed (use pg_Settle_ok in blast)+

section \<open>Reservations\<close>

lemma reserve_row_money:
  assumes "reserve_row k a s = (r, s')" "has s k"
  shows "(r = Inr () \<longrightarrow> a \<le> bal s k - lck s k \<and> bal s' = bal s \<and> lck s' = (lck s)(k := lck s k + a)) \<and>
    (r \<noteq> Inr () \<longrightarrow> same_money s s') \<and> (r = Inl InsufficientBalance \<longrightarrow> \<not> a \<le> bal s k - lck s k) \<and>
    r \<in> {Inr (), Inl InsufficientBalance, Inl DBError} \<and> db_usage s' = db_usage s \<and> db_day s' = db_day s"
proof -
  let ?st = "update_wallet k (\<lambda>w. a \<le> wl_Balance w - wl_Locked w) (\<lambda>w. w\<lparr>wl_Locked := wl_Locked w + a\<rparr>)"
  obtain q s1 where q: "stmt ?st s = (q, s1)" by fastforce
  from q show ?thesis
  proof (cases rule: stmt_cases)
    case (1 fs)
    then show ?thesis using assms(1) q by (auto simp: reserve_row_def same_money_def)
  next
    case (2 fs n)
    from update_wallet_money [OF 2(2), of 0 a "\<lambda>b l. a \<le> b - l"] assms(2)
    show ?thesis using assms(1) q 2(1)
      by (auto simp: reserve_row_def same_money_def fun_eq_iff ret_def throw_def split: if_splits)
  qed
qed

lemma ReserveForAccount_money:
  assumes "ReserveForAccount u a acct (Some x) s = (r, s')" "0 < bval x" "ValidAccountType (NormalizeAccountType acct)"
  defines "k \<equiv> (u, a, NormalizeAccountType acct)"
  shows "(\<forall>w. r = Inr w \<longrightarrow> numeric x \<le> bal s k - lck s k \<and> bal s' = bal s \<and> lck s' = (lck s)(k := lck s k + numeric x)) \<and>
    (r = Inl InsufficientBalance \<longrightarrow> same_money s s' \<and> \<not> numeric x \<le> bal s k - lck s k) \<and>
    (same_money s s' \<or> numeric x \<le> bal s k - lck s k \<and> bal s' = bal s \<and> lck s' = (lck s)(k := lck s k + numeric x))"
proof -
  let ?t = "transaction (abind (upsert_wallet k) (\<lambda>u. reserve_row k (numeric x)))"
  have eq: "ReserveForAccount u a acct (Some x) s =
      abind ?t (\<lambda>_. GetWalletForAccount u a (NormalizeAccountType acct)) s"
    using assms(2,3) by (simp add: ReserveForAccount_def Let_def k_def)
  obtain q s1 where q: "?t s = (q, s1)" by fastforce
  have get: "same_money t t' \<and> p \<noteq> Inl InsufficientBalance"
    if "GetWalletForAccount u a (NormalizeAccountType acct) t = (p, t')" for t p t'
    using that by (auto simp: GetWalletForAccount_def abind_def same_money_def throw_def ret_def Let_def
        elim!: stmt_cases split: prod.splits sum.splits option.splits)
  show ?thesis
  proof (cases q)
    case (Inl e)
    then have rs: "r = Inl e" "s' = s1" using assms(1) q by (auto simp: eq)
    from transaction_Inl [OF q [unfolded Inl]] have sm: "same_money s s1" by (auto simp: same_money_def)
    have "\<not> numeric x \<le> bal s k - lck s k" if "e = InsufficientBalance"
    proof -
      from q Inl that have "\<exists>t t2. (\<exists>fs. t = s\<lparr>db_faults := fs\<rparr>) \<and>
          abind (upsert_wallet k) (\<lambda>u. reserve_row k (numeric x)) t = (Inl InsufficientBalance, t2)"
        by (auto simp: transaction_def abind_Inl elim!: stmt_cases split: prod.splits sum.splits)
      then obtain fs t2 where t: "abind (upsert_wallet k) (\<lambda>u. reserve_row k (numeric x)) (s\<lparr>db_faults := fs\<rparr>) =
          (Inl InsufficientBalance, t2)" by blast
      have up: "upsert_wallet k v \<noteq> (Inl InsufficientBalance, v')" for v v'
        by (auto simp: upsert_wallet_def fresh_id_def elim: stmt_cases)
      from t up obtain s3 where a: "upsert_wallet k (s\<lparr>db_faults := fs\<rparr>) = (Inr (), s3)"
        "reserve_row k (numeric x) s3 = (Inl InsufficientBalance, t2)" by (auto simp: abind_Inl)
      from upsert_wallet_money [OF a(1)] have "same_money s s3" "has s3 k" by (auto simp: same_money_def)
      with reserve_row_money [OF a(2)] show ?thesis by (simp add: same_money_def)
    qed
    then show ?thesis using rs sm by simp
  next
    case (Inr v)
    from transaction_Inr [OF q [unfolded Inr]] obtain fs fs' s2 where
      t: "abind (upsert_wallet k) (\<lambda>u. reserve_row k (numeric x)) (s\<lparr>db_faults := fs\<rparr>) = (Inr v, s2)" "s1 = s2\<lparr>db_faults := fs'\<rparr>"
      by blast
    then obtain s3 where a: "upsert_wallet k (s\<lparr>db_faults := fs\<rparr>) = (Inr (), s3)" "reserve_row k (numeric x) s3 = (Inr v, s2)"
      by (auto simp: abind_Inr)
    from upsert_wallet_money [OF a(1)] have up: "bal s3 = bal s" "lck s3 = lck s" "has s3 k" by (auto simp: same_money_def)
    from reserve_row_money [OF a(2) up(3)] up have m: "numeric x \<le> bal s k - lck s k" "bal s2 = bal s"
      "lck s2 = (lck s)(k := lck s k + numeric x)" by simp_all
    from assms(1) q Inr have "GetWalletForAccount u a (NormalizeAccountType acct) s1 = (r, s')" by (simp add: eq)
    from get [OF this] m t(2) show ?thesis by (simp add: same_money_def)
  qed
qed

section \<open>The daily limit\<close>

definition used_today :: "pg \<Rightarrow> string \<Rightarrow> string \<Rightarrow> rat" where
  "used_today s u a = (case gm_get (db_usage s) (u, a, db_day s) of None \<Rightarrow> 0 | Some v \<Rightarrow> v)"

lemma used_today_simps [simp]:
  "used_today (s\<lparr>db_faults := fs\<rparr>) = used_today s" "used_today (s\<lparr>db_nid := n\<rparr>) = used_today s"
  by (simp_all add: used_today_def fun_eq_iff)

lemma accrue_usage_facts:
  assumes "accrue_usage (u, a, db_day s) v limit s = (n, s')"
  shows "(n \<noteq> 0 \<longrightarrow> used_today s' u a = used_today s u a + v \<and> used_today s' u a \<le> limit) \<and> same_money s s' \<and>
    (n = 0 \<longrightarrow> used_today s' = used_today s \<and> (limit < used_today s u a + v \<or> limit < v)) \<and> db_day s' = db_day s"
  using assms by (auto simp: accrue_usage_def used_today_def same_money_def split: if_splits option.splits)

text \<open>The body of the transaction of \<open>ReserveWithDailyLimit\<close>.\<close>

lemma daily_body:
  assumes "abind (upsert_wallet k) (\<lambda>_. abind (reserve_row k x) (\<lambda>_.
      abind (stmt (\<lambda>s. accrue_usage (u, a, db_day s) v limit s)) (\<lambda>n. if n = 0 then throw DailyLimitExceeded else ret ()))) s = (r, s')"
  shows "(r = Inr () \<longrightarrow> x \<le> bal s k - lck s k \<and> bal s' = bal s \<and> lck s' = (lck s)(k := lck s k + x) \<and>
      used_today s' u a = used_today s u a + v \<and> used_today s' u a \<le> limit) \<and>
    (r = Inl DailyLimitExceeded \<longrightarrow> limit < used_today s u a + v \<or> limit < v)"
proof -
  obtain r1 s1 where u1: "upsert_wallet k s = (r1, s1)" by fastforce
  have e1: "r1 = Inr () \<or> r1 = Inl DBError"
    using u1 by (auto simp: upsert_wallet_def fresh_id_def elim: stmt_cases)
  note f1 = upsert_wallet_money [OF u1]
  have d1: "used_today s1 = used_today s" using f1 by (simp add: used_today_def fun_eq_iff)
  show ?thesis
  proof (cases "r1 = Inr ()")
    case False
    then show ?thesis using assms(1) u1 e1 by (auto simp: abind_def)
  next
    case True
    obtain r2 s2 where u2: "reserve_row k x s1 = (r2, s2)" by fastforce
    have h: "has s1 k" using f1 True by blast
    note f2 = reserve_row_money [OF u2 h]
    have d2: "used_today s2 = used_today s" using f2 d1 by (simp add: used_today_def fun_eq_iff)
    show ?thesis
    proof (cases "r2 = Inr ()")
      case False
      then show ?thesis using assms(1) u1 u2 True f2 by (auto simp: abind_def split: sum.splits)
    next
      case ok: True
      obtain r3 s3 where u3: "stmt (\<lambda>s. accrue_usage (u, a, db_day s) v limit s) s2 = (r3, s3)" by fastforce
      have m: "bal s2 = bal s" "lck s2 = (lck s)(k := lck s k + x)" "x \<le> bal s k - lck s k"
        using f1 f2 ok by (auto simp: same_money_def)
      from u3 show ?thesis
      proof (cases rule: stmt_cases)
        case (1 fs)
        then show ?thesis using assms(1) u1 u2 u3 True ok by (auto simp: abind_def)
      next
        case (2 fs n)
        then have "accrue_usage (u, a, db_day (s2\<lparr>db_faults := fs\<rparr>)) v limit (s2\<lparr>db_faults := fs\<rparr>) = (n, s3)" by simp
        from accrue_usage_facts [OF this] show ?thesis
          using assms(1) u1 u2 u3 True ok m d2 2(1) by (auto simp: abind_def same_money_def ret_def throw_def split: if_splits)
      qed
    qed
  qed
qed

end
