(* ===== verification/Fill_LRU.thy ===== *)
theory Fill_LRU
  imports Prelude
begin

text \<open>
  \<open>internal/wallet/lru.go\<close>: the bounded set of settled fills. The linked list \<open>order\<close> is a list of entries, most recently
  accessed first; the map \<open>items\<close> finds the entry of a key in it, so the model looks the key up in the list. \<open>now\<close> is
  what \<open>time.Now\<close> returns, in nanoseconds.
\<close>

section \<open>Operations\<close>

record fill_lru =
  lru_order :: "(string \<times> int) list"
  lru_capacity :: int
  lru_ttl :: int

definition defaultProcessedFillCapacity :: int where
  "defaultProcessedFillCapacity = 100000"

definition newFillLRU :: "int \<Rightarrow> int \<Rightarrow> fill_lru" where
  "newFillLRU capacity ttl =
     \<lparr>lru_order = [], lru_capacity = (if capacity \<le> 0 then defaultProcessedFillCapacity else capacity), lru_ttl = ttl\<rparr>"

definition isExpired :: "int \<Rightarrow> fill_lru \<Rightarrow> int \<Rightarrow> bool" where
  "isExpired now l accessedAt \<longleftrightarrow> 0 < lru_ttl l \<and> lru_ttl l < now - accessedAt"

definition removeElement :: "string \<Rightarrow> fill_lru \<Rightarrow> fill_lru" where
  "removeElement key l = l\<lparr>lru_order := AList.delete key (lru_order l)\<rparr>"

text \<open>\<open>e.accessedAt = time.Now(); l.order.MoveToFront(el)\<close>\<close>

definition touch :: "int \<Rightarrow> string \<Rightarrow> fill_lru \<Rightarrow> fill_lru" where
  "touch now key l = l\<lparr>lru_order := (key, now) # AList.delete key (lru_order l)\<rparr>"

definition lru_contains :: "int \<Rightarrow> string \<Rightarrow> fill_lru \<Rightarrow> bool \<times> fill_lru" where
  "lru_contains now key l =
     (case map_of (lru_order l) key of
        None \<Rightarrow> (False, l)
      | Some t \<Rightarrow> if isExpired now l t then (False, removeElement key l) else (True, touch now key l))"

text \<open>The two loops of \<open>evict\<close>, on the list reversed: back first.\<close>

fun evict_over :: "int \<Rightarrow> (string \<times> int) list \<Rightarrow> (string \<times> int) list" where
  "evict_over capacity [] = []"
| "evict_over capacity (b # bs) = (if capacity < int (length (b # bs)) then evict_over capacity bs else b # bs)"

fun evict_expired :: "(int \<Rightarrow> bool) \<Rightarrow> (string \<times> int) list \<Rightarrow> (string \<times> int) list" where
  "evict_expired expired [] = []"
| "evict_expired expired (b # bs) = (if expired (snd b) then evict_expired expired bs else b # bs)"

definition evict :: "int \<Rightarrow> fill_lru \<Rightarrow> fill_lru" where
  "evict now l =
     l\<lparr>lru_order := rev (evict_expired (isExpired now l) (evict_over (lru_capacity l) (rev (lru_order l))))\<rparr>"

definition lru_add :: "int \<Rightarrow> string \<Rightarrow> fill_lru \<Rightarrow> fill_lru" where
  "lru_add now key l =
     (case map_of (lru_order l) key of
        Some t \<Rightarrow> touch now key l
      | None \<Rightarrow> evict now (l\<lparr>lru_order := (key, now) # lru_order l\<rparr>))"

definition lru_len :: "fill_lru \<Rightarrow> nat" where
  "lru_len l = length (lru_order l)"

definition setCapacity :: "int \<Rightarrow> int \<Rightarrow> fill_lru \<Rightarrow> fill_lru" where
  "setCapacity now n l = evict now (l\<lparr>lru_capacity := (if n \<le> 0 then defaultProcessedFillCapacity else n)\<rparr>)"

definition setTTL :: "int \<Rightarrow> int \<Rightarrow> fill_lru \<Rightarrow> fill_lru" where
  "setTTL now d l = evict now (l\<lparr>lru_ttl := d\<rparr>)"

section \<open>Well-formedness\<close>

text \<open>No key twice, at most \<open>capacity\<close> entries, most recent access first, and no access in the future.\<close>

definition lru_wf :: "int \<Rightarrow> fill_lru \<Rightarrow> bool" where
  "lru_wf now l \<longleftrightarrow> distinct (map fst (lru_order l)) \<and> int (length (lru_order l)) \<le> lru_capacity l \<and> 0 < lru_capacity l \<and>
     sorted (rev (map snd (lru_order l))) \<and> (\<forall>(k, t) \<in> set (lru_order l). t \<le> now)"

lemma evict_over_drop: "evict_over c bs = drop (length bs - nat c) bs"
proof (induction bs)
  case (Cons b bs)
  then show ?case by (cases "c < int (length (b # bs))") (auto simp: Suc_diff_le)
qed simp

lemma evict_expired_dropWhile: "evict_expired e bs = dropWhile (\<lambda>b. e (snd b)) bs"
  by (induction bs) auto

lemma rev_drop_rev: "rev (drop n (rev xs)) = take (length xs - n) xs"
  by (simp add: rev_drop)

text \<open>Eviction keeps a prefix of the list: the entries accessed last.\<close>

lemma evict_take:
  obtains n where "lru_order (evict now l) = take n (lru_order l)" "int n \<le> max 0 (lru_capacity l)"
    "\<forall>x \<in> set (drop n (take (nat (lru_capacity l)) (lru_order l))). isExpired now l (snd x)"
proof -
  let ?xs = "take (nat (lru_capacity l)) (lru_order l)"
  have r: "evict_over (lru_capacity l) (rev (lru_order l)) = rev ?xs"
    by (cases "length (lru_order l) \<le> nat (lru_capacity l)") (simp_all add: evict_over_drop drop_rev)
  let ?w = "takeWhile (\<lambda>b. isExpired now l (snd b)) (rev ?xs)"
  define n where "n = length ?xs - length ?w"
  have split: "rev ?xs = ?w @ dropWhile (\<lambda>b. isExpired now l (snd b)) (rev ?xs)" by simp
  have d: "dropWhile (\<lambda>b. isExpired now l (snd b)) (rev ?xs) = drop (length ?w) (rev ?xs)"
    by (rule dropWhile_eq_drop)
  have t: "lru_order (evict now l) = take n ?xs"
    unfolding evict_def r evict_expired_dropWhile d n_def rev_drop_rev by simp
  have "n \<le> length ?xs" unfolding n_def by (rule diff_le_self)
  then have "n \<le> nat (lru_capacity l)" by simp
  then have "lru_order (evict now l) = take n (lru_order l)" "int n \<le> max 0 (lru_capacity l)" using t by (simp_all add: min_absorb1)
  moreover have "isExpired now l (snd x)" if "x \<in> set (drop n ?xs)" for x
  proof -
    have "?xs = rev (drop (length ?w) (rev ?xs)) @ rev ?w" using split d by (metis rev_append rev_rev_ident)
    moreover have "length (rev (drop (length ?w) (rev ?xs))) = n" by (simp add: n_def)
    ultimately have "drop n ?xs = rev ?w" by (metis append_eq_conv_conj)
    then show ?thesis using that by (auto dest: set_takeWhileD)
  qed
  ultimately show ?thesis using that by blast
qed

lemma evict_fields [simp]: "lru_capacity (evict now l) = lru_capacity l" "lru_ttl (evict now l) = lru_ttl l"
  by (simp_all add: evict_def)

lemma sorted_rev_take: "sorted (rev xs) \<Longrightarrow> sorted (rev (take n xs))"
  by (simp add: rev_take sorted_wrt_drop)

lemma evict_wf:
  assumes "distinct (map fst (lru_order l))" "0 < lru_capacity l" "sorted (rev (map snd (lru_order l)))"
    "\<forall>(k, t) \<in> set (lru_order l). t \<le> now"
  shows "lru_wf now (evict now l)"
proof -
  obtain n where n: "lru_order (evict now l) = take n (lru_order l)" "int n \<le> max 0 (lru_capacity l)" by (rule evict_take)
  then show ?thesis using assms sorted_rev_take [of "map snd (lru_order l)" n]
    by (auto simp: lru_wf_def take_map [symmetric] distinct_take dest: in_set_takeD)
qed

lemma delete_sub: "x \<in> set (AList.delete k m) \<Longrightarrow> x \<in> set m \<and> fst x \<noteq> k"
  by (auto simp: AList.delete_eq)

lemma sorted_delete: "sorted (rev (map snd m)) \<Longrightarrow> sorted (rev (map snd (AList.delete k m)))"
proof (induction m)
  case (Cons p m)
  then have "sorted (rev (map snd (AList.delete k m)))" by (simp add: sorted_append)
  then show ?case using Cons.prems delete_sub by (cases p) (fastforce simp: sorted_append)
qed simp

lemma touch_wf:
  assumes "lru_wf now l" "map_of (lru_order l) key \<noteq> None" "now \<le> now'"
  shows "lru_wf now' (touch now' key l)"
proof -
  have d: "distinct (map fst (AList.delete key (lru_order l)))" using assms(1) by (simp add: lru_wf_def)
  have len: "Suc (length (AList.delete key (lru_order l))) = length (lru_order l)"
    using assms(1,2) length_gm_del by (metis lru_wf_def)
  have "key \<notin> fst ` set (AList.delete key (lru_order l))" using delete_sub by fastforce
  moreover have "\<forall>(k, t) \<in> set (AList.delete key (lru_order l)). t \<le> now'"
    using assms(1,3) delete_sub by (fastforce simp: lru_wf_def)
  ultimately show ?thesis
    using assms(1) d len sorted_delete [of "lru_order l" key] by (auto simp: lru_wf_def touch_def sorted_append)
qed

lemma lru_wf_later: "lru_wf now l \<Longrightarrow> now \<le> now' \<Longrightarrow> lru_wf now' l"
  by (fastforce simp: lru_wf_def)

lemma lru_add_wf: "lru_wf now l \<Longrightarrow> now \<le> now' \<Longrightarrow> lru_wf now' (lru_add now' key l)"
proof (cases "map_of (lru_order l) key")
  case None
  assume wf: "lru_wf now l" "now \<le> now'"
  then have "\<forall>(k, t) \<in> set (lru_order l). t \<le> now'" by (fastforce simp: lru_wf_def)
  moreover have "key \<notin> fst ` set (lru_order l)" using None by (simp add: map_of_eq_None_iff)
  ultimately have "lru_wf now' (evict now' (l\<lparr>lru_order := (key, now') # lru_order l\<rparr>))"
    using wf by (intro evict_wf) (auto simp: lru_wf_def sorted_append)
  then show ?thesis by (simp add: lru_add_def None)
qed (use touch_wf in \<open>simp add: lru_add_def\<close>)

lemma lru_contains_wf: "lru_wf now l \<Longrightarrow> now \<le> now' \<Longrightarrow> lru_wf now' (snd (lru_contains now' key l))"
proof (cases "map_of (lru_order l) key")
  case (Some t)
  assume wf: "lru_wf now l" "now \<le> now'"
  have "lru_wf now' (removeElement key l)"
    using lru_wf_later [OF wf] sorted_delete [of "lru_order l" key] delete_sub [of _ key "lru_order l"]
      order_trans [OF of_nat_mono [OF length_gm_del_le [of key "lru_order l"]]]
    by (fastforce simp: lru_wf_def removeElement_def)
  then show ?thesis using Some touch_wf [OF wf(1) _ wf(2)] by (simp add: lru_contains_def)
qed (use lru_wf_later in \<open>simp add: lru_contains_def\<close>)

section \<open>What is remembered\<close>

text \<open>The position of a key in the recency order.\<close>

definition recency :: "string \<Rightarrow> fill_lru \<Rightarrow> nat option" where
  "recency key l = (if key \<in> fst ` set (lru_order l) then Some (length (takeWhile (\<lambda>p. fst p \<noteq> key) (lru_order l))) else None)"

text \<open>A key accessed at \<open>t\<close> with at most \<open>n\<close> other keys accessed since.\<close>

definition remembered :: "string \<Rightarrow> int \<Rightarrow> nat \<Rightarrow> fill_lru \<Rightarrow> bool" where
  "remembered key t n l \<longleftrightarrow> (\<exists>us vs. lru_order l = us @ (key, t) # vs \<and> length us \<le> n \<and> key \<notin> fst ` set us)"

lemma remembered_get: "remembered key t n l \<Longrightarrow> map_of (lru_order l) key = Some t"
  by (auto simp: remembered_def map_of_append map_add_Some_iff map_of_eq_None_iff [THEN iffD2])

lemma remembered_contains:
  assumes "remembered key t n l" "\<not> isExpired now l t"
  shows "fst (lru_contains now key l)"
  using remembered_get [OF assms(1)] assms(2) by (simp add: lru_contains_def)

lemma delete_append: "AList.delete k (xs @ ys) = AList.delete k xs @ AList.delete k ys"
  by (simp add: AList.delete_eq)

lemma touch_remembered:
  assumes "remembered key t n l" "k \<noteq> key"
  shows "remembered key t (Suc n) (touch now k l)"
proof -
  from assms(1) obtain us vs where l: "lru_order l = us @ (key, t) # vs" "length us \<le> n" "key \<notin> fst ` set us"
    by (auto simp: remembered_def)
  have "lru_order (touch now k l) = ((k, now) # AList.delete k us) @ (key, t) # AList.delete k vs"
    using l assms(2) by (simp add: touch_def delete_append)
  moreover have "length ((k, now) # AList.delete k us) \<le> Suc n" using l(2) length_gm_del_le [of k us] by simp
  moreover have "key \<notin> fst ` set ((k, now) # AList.delete k us)" using l(3) assms(2) delete_sub by fastforce
  ultimately show ?thesis unfolding remembered_def by blast
qed

lemma evict_remembered:
  assumes "remembered key t n l" "int n < lru_capacity l" "\<not> isExpired now l t"
  shows "remembered key t n (evict now l)"
proof -
  from assms(1) obtain us vs where l: "lru_order l = us @ (key, t) # vs" "length us \<le> n" "key \<notin> fst ` set us"
    by (auto simp: remembered_def)
  obtain m where m: "lru_order (evict now l) = take m (lru_order l)" "int m \<le> max 0 (lru_capacity l)"
    "\<forall>x \<in> set (drop m (take (nat (lru_capacity l)) (lru_order l))). isExpired now l (snd x)"
    by (rule evict_take [where now = now and l = l])
  have "length us < m"
  proof (rule ccontr)
    assume "\<not> length us < m"
    moreover have "length us < nat (lru_capacity l)" using assms(2) l(2) by linarith
    ultimately have "(key, t) \<in> set (drop m (take (nat (lru_capacity l)) (lru_order l)))"
      by (subst in_set_conv_nth, intro exI [of _ "length us - m"]) (simp add: l(1) nth_append)
    then show False using m(3) assms(3) by fastforce
  qed
  then have "lru_order (evict now l) = us @ (key, t) # take (m - Suc (length us)) vs"
    using m(1) l(1) by (simp add: take_Cons' Suc_diff_Suc)
  then show ?thesis using l(2,3) unfolding remembered_def by blast
qed

lemma add_remembered:
  assumes "remembered key t n l" "int (Suc n) < lru_capacity l" "\<not> isExpired now l t" "k \<noteq> key"
  shows "remembered key t (Suc n) (lru_add now k l)"
proof (cases "map_of (lru_order l) k")
  case None
  from assms(1) obtain us vs where l: "lru_order l = us @ (key, t) # vs" "length us \<le> n" "key \<notin> fst ` set us"
    by (auto simp: remembered_def)
  have "lru_order (l\<lparr>lru_order := (k, now) # lru_order l\<rparr>) = ((k, now) # us) @ (key, t) # vs" using l(1) by simp
  moreover have "length ((k, now) # us) \<le> Suc n" "key \<notin> fst ` set ((k, now) # us)" using l assms(4) by auto
  ultimately have "remembered key t (Suc n) (l\<lparr>lru_order := (k, now) # lru_order l\<rparr>)" unfolding remembered_def by blast
  from evict_remembered [OF this] show ?thesis using assms(2,3) None by (simp add: lru_add_def isExpired_def)
qed (use touch_remembered [OF assms(1,4)] in \<open>simp add: lru_add_def\<close>)

lemma remembered_mono: "remembered key t n l \<Longrightarrow> n \<le> m \<Longrightarrow> remembered key t m l"
  unfolding remembered_def by (meson order_trans)

lemma added_remembered:
  assumes "lru_wf now0 l" "now0 \<le> now"
  shows "remembered key now 0 (lru_add now key l)"
proof (cases "map_of (lru_order l) key")
  case None
  have "remembered key now 0 (l\<lparr>lru_order := (key, now) # lru_order l\<rparr>)" by (simp add: remembered_def)
  from evict_remembered [OF this, of now] show ?thesis
    using assms None by (simp add: lru_add_def isExpired_def lru_wf_def)
qed (simp add: lru_add_def remembered_def touch_def)

text \<open>Adding the keys \<open>ks\<close> at their times, in turn.\<close>

fun add_all :: "(int \<times> string) list \<Rightarrow> fill_lru \<Rightarrow> fill_lru" where
  "add_all [] l = l"
| "add_all ((now, k) # xs) l = add_all xs (lru_add now k l)"

lemma lru_add_fields [simp]: "lru_capacity (lru_add now k l) = lru_capacity l" "lru_ttl (lru_add now k l) = lru_ttl l"
  by (simp_all add: lru_add_def touch_def split: option.splits)

lemma add_all_remembered:
  assumes "remembered key t n l" "int (n + length xs) < lru_capacity l"
    "\<forall>(now, k) \<in> set xs. k \<noteq> key \<and> (lru_ttl l \<le> 0 \<or> now - t \<le> lru_ttl l)"
  shows "remembered key t (n + length xs) (add_all xs l)"
  using assms
proof (induction xs arbitrary: n l)
  case (Cons x xs)
  obtain now k where x: "x = (now, k)" by (cases x)
  have "\<not> isExpired now l t" using Cons.prems(3) x by (auto simp: isExpired_def)
  then have "remembered key t (Suc n) (lru_add now k l)"
    using Cons.prems x by (intro add_remembered) auto
  from Cons.IH [OF this] show ?case using Cons.prems x by simp
qed simp

lemma add_all_fields [simp]: "lru_capacity (add_all xs l) = lru_capacity l" "lru_ttl (add_all xs l) = lru_ttl l"
  by (induction xs l rule: add_all.induct) auto

section \<open>Properties\<close>

text \<open>
  Recent fills are never forgotten. After a fill id is added to a well-formed set, it is still found after fewer than \<open>capacity\<close> further
  additions of other ids, at any time within the expiry window; and the set never exceeds its capacity, holds no
  id twice and stays ordered by access time.
\<close>

theorem recent_fill_remembered:
  assumes "lru_wf now0 l" "now0 \<le> t" "int (length xs) < lru_capacity l"
    and "\<forall>(now', k) \<in> set xs. k \<noteq> key \<and> (lru_ttl l \<le> 0 \<or> now' - t \<le> lru_ttl l)"
    and "lru_ttl l \<le> 0 \<or> now - t \<le> lru_ttl l"
  shows "fst (lru_contains now key (add_all xs (lru_add t key l))) \<and> lru_wf t (lru_add t key l)"
proof -
  have "remembered key t (0 + length xs) (add_all xs (lru_add t key l))"
    using assms added_remembered [OF assms(1,2)] by (intro add_all_remembered) simp_all
  moreover have "\<not> isExpired now (add_all xs (lru_add t key l)) t" using assms(5) by (auto simp: isExpired_def)
  ultimately show ?thesis using remembered_contains lru_add_wf [OF assms(1,2)] by blast
qed

theorem recent_fill_remembered_witness:
  "fst (lru_contains 9 ''f1'' (lru_add 8 ''f2'' (lru_add 7 ''f1'' (newFillLRU 2 100))))"
proof -
  have "lru_wf 0 (newFillLRU 2 100)" by (simp add: lru_wf_def newFillLRU_def)
  from recent_fill_remembered [OF this, of 7 "[(8, ''f2'')]" "''f1''" 9] show ?thesis
    by (simp add: newFillLRU_def)
qed

end
