(* ===== verification/Wallet_Service.thy ===== *)
theory Wallet_Service
  imports Wallet_Ledger Fill_LRU Address_Validation
begin

text \<open>
  \<open>internal/wallet/service.go\<close>: the wallet service. Its state has the database behind its store (none in best-effort
  mode), the set of settled fills, the reservations per order, and the optional store shared between instances.
  The shared store is what the comments of \<open>RedisLike\<close> promise (\<open>shared_store.go\<close>), with operations that may fail; keys do not expire
  in the model. Its two key prefixes are two maps. A float put there as JSON comes back as \<open>sh_json\<close> of it. The blockchain clients
  are their address checks; \<open>ws_sha\<close> and \<open>ws_keccak\<close> are the hash functions. Locks are held per step, so an operation here is
  one that no other interrupts.
\<close>

section \<open>State\<close>

record fee_config =
  fc_TakerRate :: "bf option"
  fc_MakerRate :: "bf option"

record static_fees =
  sf_Default :: fee_config
  sf_Pairs :: "(string, fee_config) gomap"

definition StaticFees :: "static_fees \<Rightarrow> string \<Rightarrow> fee_config" where
  "StaticFees f pair = (case gm_get (sf_Pairs f) pair of Some c \<Rightarrow> c | None \<Rightarrow> sf_Default f)"

record reservation =
  rv_asset :: string
  rv_remaining :: bf

record shared =
  sh_claims :: "(string, string) gomap"
  sh_res :: "(string, reservation) gomap"
  sh_faults :: "bool list"
  sh_json :: "bf \<Rightarrow> bf"

record wsvc =
  ws_store :: "pg option"
  ws_clients :: "(string, string \<Rightarrow> bool) gomap"
  ws_fees :: "string \<Rightarrow> fee_config"
  ws_fills :: fill_lru
  ws_reservations :: "(string, reservation) gomap"
  ws_shared :: "shared option"
  ws_warned :: bool
  ws_instance :: string
  ws_ids :: "nat \<Rightarrow> string"
  ws_nid :: nat
  ws_now :: int
  ws_sha :: "byte list \<Rightarrow> byte list"
  ws_keccak :: "string \<Rightarrow> byte list"

type_synonym 'a wact = "(wsvc, wallet_err, 'a) act"

definition defaultProcessedFillTTL :: int where
  "defaultProcessedFillTTL = 7 * 24 * 3600000000000"

definition NewService ::
  "pg option \<Rightarrow> (string, string \<Rightarrow> bool) gomap \<Rightarrow> (string \<Rightarrow> fee_config) option \<Rightarrow> shared option \<Rightarrow> string \<Rightarrow> (nat \<Rightarrow> string) \<Rightarrow>
   (byte list \<Rightarrow> byte list) \<Rightarrow> (string \<Rightarrow> byte list) \<Rightarrow> wsvc" where
  "NewService st clients fees sh inst ids sha keccak =
     \<lparr>ws_store = st, ws_clients = clients,
      ws_fees = (case fees of Some f \<Rightarrow> f
                 | None \<Rightarrow> StaticFees \<lparr>sf_Default = \<lparr>fc_TakerRate = Some (NewFloat 0), fc_MakerRate = Some (NewFloat 0)\<rparr>, sf_Pairs = []\<rparr>),
      ws_fills = newFillLRU defaultProcessedFillCapacity defaultProcessedFillTTL, ws_reservations = [],
      ws_shared = sh, ws_warned = False, ws_instance = inst, ws_ids = ids, ws_nid = 0, ws_now = 0, ws_sha = sha, ws_keccak = keccak\<rparr>"

definition SetSharedStore :: "shared option \<Rightarrow> wsvc \<Rightarrow> wsvc" where
  "SetSharedStore rs s = s\<lparr>ws_shared := rs, ws_warned := False\<rparr>"

definition SetProcessedFillCapacity :: "int \<Rightarrow> wsvc \<Rightarrow> wsvc" where
  "SetProcessedFillCapacity n s = s\<lparr>ws_fills := setCapacity (ws_now s) n (ws_fills s)\<rparr>"

definition SetProcessedFillTTL :: "int \<Rightarrow> wsvc \<Rightarrow> wsvc" where
  "SetProcessedFillTTL d s = s\<lparr>ws_fills := setTTL (ws_now s) d (ws_fills s)\<rparr>"

definition RegisterClient :: "string \<Rightarrow> (string \<Rightarrow> bool) \<Rightarrow> wsvc \<Rightarrow> wsvc" where
  "RegisterClient asset c s = s\<lparr>ws_clients := gm_put asset c (ws_clients s)\<rparr>"

definition SetFeeSchedule :: "(string \<Rightarrow> fee_config) \<Rightarrow> wsvc \<Rightarrow> wsvc" where
  "SetFeeSchedule fees s = s\<lparr>ws_fees := fees\<rparr>"

text \<open>A call of the store, \<open>nil\<close> having been excluded.\<close>

definition on_db :: "(pg, wallet_err, 'a) act \<Rightarrow> 'a wact" where
  "on_db m s = (case ws_store s of None \<Rightarrow> (Inl GoPanic, s) | Some db \<Rightarrow> (let (r, db') = m db in (r, s\<lparr>ws_store := Some db'\<rparr>)))"

definition new_uuid :: "string wact" where
  "new_uuid s = (Inr (ws_ids s (ws_nid s)), s\<lparr>ws_nid := Suc (ws_nid s)\<rparr>)"

definition get_now :: "int wact" where
  "get_now s = (Inr (ws_now s), s)"

definition no_store :: "wsvc \<Rightarrow> bool" where
  "no_store s \<longleftrightarrow> ws_store s = None"

section \<open>Balances\<close>

definition svc_GetBalance :: "string \<Rightarrow> string \<Rightarrow> wallet wact" where
  "svc_GetBalance userID asset s = (if no_store s then (Inl WalletNotFound, s) else on_db (GetWallet userID asset) s)"

definition svc_GetBalanceForAccount :: "string \<Rightarrow> string \<Rightarrow> string \<Rightarrow> wallet wact" where
  "svc_GetBalanceForAccount userID asset accountType s =
     (if no_store s then (Inl WalletNotFound, s)
      else if \<not> ValidAccountType (NormalizeAccountType accountType) then (Inl InvalidAccount, s)
      else on_db (GetWalletForAccount userID asset (NormalizeAccountType accountType)) s)"

definition svc_GetBalances :: "string \<Rightarrow> wallet list wact" where
  "svc_GetBalances userID s = (if no_store s then (Inr [], s) else on_db (GetWallets userID) s)"

text \<open>The offset is what the handlers pass, not negative.\<close>

definition svc_ListTransactions :: "string \<Rightarrow> int \<Rightarrow> int \<Rightarrow> tx list wact" where
  "svc_ListTransactions userID limit offset s =
     (if no_store s then (Inr [], s)
      else on_db (ListTx userID (nat (if limit \<le> 0 \<or> 500 < limit then 50 else limit)) (nat offset)) s)"

section \<open>Deposits and withdrawals\<close>

definition new_tx :: "string \<Rightarrow> string \<Rightarrow> string \<Rightarrow> tx_type \<Rightarrow> bf \<Rightarrow> tx_status \<Rightarrow> int \<Rightarrow> tx" where
  "new_tx i userID asset ty amount st now =
     \<lparr>x_ID = i, x_UserID = userID, x_WalletID = [], x_Asset = asset, x_TxHash = [], x_Type = ty, x_Status = st,
      x_Amount = amount, x_Fee = NewFloat 0, x_Confirmations = 0, x_CreatedAt = now, x_ToAddress = [], x_AccountType = [], x_ColdRef = []\<rparr>"

text \<open>The wallet that receives a deposit, created when it cannot be read.\<close>

definition deposit_wallet :: "string \<Rightarrow> string \<Rightarrow> int \<Rightarrow> wallet wact" where
  "deposit_wallet userID asset now s =
     (case on_db (GetWallet userID asset) s of
        (Inr w, s1) \<Rightarrow> (Inr w, s1)
      | (Inl e, s1) \<Rightarrow>
          abind new_uuid (\<lambda>u.
            let w = \<lparr>wa_ID = ''wal_'' @ u, wa_UserID = userID, wa_Asset = asset, wa_Address = [], wa_AccountType = [],
                     wa_Balance = NewFloat 0, wa_Locked = NewFloat 0, wa_CreatedAt = now, wa_UpdatedAt = now\<rparr>
            in abind (on_db (SaveWallet w)) (\<lambda>_. ret w)) s1)"

definition already_deposited :: "string \<Rightarrow> bool wact" where
  "already_deposited txHash s =
     (if txHash = [] then (Inr False, s)
      else case on_db (GetTx txHash) s of (Inr t, s1) \<Rightarrow> (Inr True, s1) | (Inl e, s1) \<Rightarrow> (Inr False, s1))"

definition svc_Deposit :: "string \<Rightarrow> string \<Rightarrow> bf option \<Rightarrow> string \<Rightarrow> unit wact" where
  "svc_Deposit userID asset amount txHash s =
     (case amount of
        None \<Rightarrow> (Inl NegativeAmount, s)
      | Some a \<Rightarrow>
          if bf_sign a \<le> 0 then (Inl NegativeAmount, s)
          else if no_store s then (Inl WalletNotFound, s)
          else abind (already_deposited txHash) (\<lambda>dup.
                 if dup then ret ()
                 else abind (deposit_wallet userID asset (ws_now s)) (\<lambda>w.
                      abind (on_db (UpdateBalance (wa_ID w) a)) (\<lambda>_.
                      abind (if txHash = [] then abind new_uuid (\<lambda>u. ret (''dep_'' @ u)) else ret txHash) (\<lambda>i.
                      on_db (SaveTx ((new_tx i userID asset DepositTx a Completed (ws_now s))
                        \<lparr>x_WalletID := wa_ID w, x_TxHash := txHash\<rparr>)))))) s)"

definition svc_Withdraw :: "string \<Rightarrow> string \<Rightarrow> string \<Rightarrow> bf option \<Rightarrow> unit wact" where
  "svc_Withdraw userID asset address amount s =
     (case amount of
        None \<Rightarrow> (Inl NegativeAmount, s)
      | Some a \<Rightarrow>
          if bf_sign a \<le> 0 then (Inl NegativeAmount, s)
          else if no_store s then (Inl WalletNotFound, s)
          else case gm_get (ws_clients s) asset of
              None \<Rightarrow> (Inl UnsupportedAsset, s)
            | Some isValidAddress \<Rightarrow>
                (case ValidateWithdrawalAddress (ws_sha s) (ws_keccak s) asset address of
                   Done False \<Rightarrow> (Inl InvalidAddress, s)
                 | Done True \<Rightarrow>
                     if \<not> isValidAddress address then (Inl InvalidAddress, s)
                     else abind (on_db (ReserveForOrder userID asset (Some a))) (\<lambda>w.
                          abind new_uuid (\<lambda>u.
                          on_db (SaveTx ((new_tx (''wd_'' @ u) userID asset WithdrawalTx a Pending (ws_now s))
                            \<lparr>x_WalletID := wa_ID w\<rparr>)))) s
                 | _ \<Rightarrow> (Inl GoPanic, s)))"

section \<open>The shared store\<close>

text \<open>An operation of the shared store fails, or yields a value.\<close>

definition sh_op :: "(shared \<Rightarrow> 'a \<times> shared) \<Rightarrow> shared \<Rightarrow> 'a option \<times> shared" where
  "sh_op f h =
     (case sh_faults h of
        True # fs \<Rightarrow> (None, h\<lparr>sh_faults := fs\<rparr>)
      | False # fs \<Rightarrow> (let (x, h') = f (h\<lparr>sh_faults := fs\<rparr>) in (Some x, h'))
      | [] \<Rightarrow> (let (x, h') = f h in (Some x, h')))"

definition sh_SetNX :: "string \<Rightarrow> string \<Rightarrow> shared \<Rightarrow> bool option \<times> shared" where
  "sh_SetNX k v = sh_op (\<lambda>h. if gm_get (sh_claims h) k = None then (True, h\<lparr>sh_claims := gm_put k v (sh_claims h)\<rparr>) else (False, h))"

definition sh_DelClaim :: "string \<Rightarrow> shared \<Rightarrow> unit option \<times> shared" where
  "sh_DelClaim k = sh_op (\<lambda>h. ((), h\<lparr>sh_claims := gm_del k (sh_claims h)\<rparr>))"

definition sh_SetRes :: "string \<Rightarrow> reservation \<Rightarrow> shared \<Rightarrow> unit option \<times> shared" where
  "sh_SetRes k r = sh_op (\<lambda>h. ((), h\<lparr>sh_res := gm_put k r (sh_res h)\<rparr>))"

definition sh_DelRes :: "string \<Rightarrow> shared \<Rightarrow> unit option \<times> shared" where
  "sh_DelRes k = sh_op (\<lambda>h. ((), h\<lparr>sh_res := gm_del k (sh_res h)\<rparr>))"

text \<open>\<open>None\<close>: an error. \<open>Some None\<close>: no usable record.\<close>

definition loadReservationL2 :: "string \<Rightarrow> shared \<Rightarrow> reservation option option \<times> shared" where
  "loadReservationL2 k =
     sh_op (\<lambda>h. (case gm_get (sh_res h) k of
         None \<Rightarrow> None
       | Some r \<Rightarrow> if rv_asset r = [] then None
                   else Some \<lparr>rv_asset = rv_asset r, rv_remaining = sh_json h (rv_remaining r)\<rparr>, h))"

definition warnSharedOnce :: "wsvc \<Rightarrow> wsvc" where
  "warnSharedOnce s = s\<lparr>ws_warned := True\<rparr>"

text \<open>A best-effort call: nothing without a shared store, a warning when it fails.\<close>

definition best_effort :: "(shared \<Rightarrow> unit option \<times> shared) \<Rightarrow> wsvc \<Rightarrow> wsvc" where
  "best_effort f s =
     (case ws_shared s of
        None \<Rightarrow> s
      | Some h \<Rightarrow> (case f h of
            (None, h') \<Rightarrow> warnSharedOnce (s\<lparr>ws_shared := Some h'\<rparr>)
          | (Some u, h') \<Rightarrow> s\<lparr>ws_shared := Some h'\<rparr>))"

fun syncReservationsL2 :: "string list \<Rightarrow> wsvc \<Rightarrow> wsvc" where
  "syncReservationsL2 [] s = s"
| "syncReservationsL2 (i # is) s =
     syncReservationsL2 is (best_effort
       (case gm_get (ws_reservations s) i of Some r \<Rightarrow> sh_SetRes i r | None \<Rightarrow> sh_DelRes i) s)"

section \<open>Reserving and releasing\<close>

text \<open>\<open>strings.Split(pair, "/")\<close>, which must have two parts that are not empty.\<close>

definition SplitPair :: "string \<Rightarrow> (string \<times> string) option" where
  "SplitPair pair =
     (let base = takeWhile (\<lambda>c. c \<noteq> CHR ''/'') pair; rest = dropWhile (\<lambda>c. c \<noteq> CHR ''/'') pair
      in case rest of
           [] \<Rightarrow> None
         | c # quote \<Rightarrow> if base = [] \<or> quote = [] \<or> CHR ''/'' \<in> set quote then None else Some (base, quote))"

text \<open>What an order locks: the asset and the amount, nothing for a market buy. \<open>side\<close> is 1 or -1.\<close>

definition reserve_plan ::
  "(string \<Rightarrow> fee_config) \<Rightarrow> string \<Rightarrow> int \<Rightarrow> int \<Rightarrow> bf option \<Rightarrow> bf \<Rightarrow> wallet_err + (string \<times> bf) option" where
  "reserve_plan fees pair sd oType price qty =
     (case SplitPair pair of
        None \<Rightarrow> Inl InvalidPair
      | Some (base, quote) \<Rightarrow>
          if sd = 1 \<and> oType = 0 then
            (case price of
               None \<Rightarrow> Inl NegativeAmount
             | Some p \<Rightarrow>
                 if bf_sign p \<le> 0 then Inl NegativeAmount
                 else let amt = bf_mul new_float p qty
                      in case fc_TakerRate (fees pair) of
                           Some t \<Rightarrow> Inr (Some (quote, if 0 < bf_sign t then bf_add new_float amt (bf_mul new_float amt t) else amt))
                         | None \<Rightarrow> Inr (Some (quote, amt)))
          else if sd = -1 then Inr (Some (base, qty))
          else Inr None)"

definition svc_ReserveOrder :: "string \<Rightarrow> string \<Rightarrow> string \<Rightarrow> int \<Rightarrow> int \<Rightarrow> bf option \<Rightarrow> bf option \<Rightarrow> unit wact" where
  "svc_ReserveOrder orderID userID pair sd oType price qty s =
     (if no_store s then (Inr (), s)
      else case qty of
          None \<Rightarrow> (Inl NegativeAmount, s)
        | Some q \<Rightarrow>
            if bf_sign q \<le> 0 then (Inl NegativeAmount, s)
            else case reserve_plan (ws_fees s) pair sd oType price q of
                Inl e \<Rightarrow> (Inl e, s)
              | Inr None \<Rightarrow> (Inr (), s)
              | Inr (Some (asset, amt)) \<Rightarrow>
                  abind (on_db (ReserveForOrder userID asset (Some amt))) (\<lambda>w s1.
                    (Inr (), syncReservationsL2 [orderID]
                       (s1\<lparr>ws_reservations := gm_put orderID \<lparr>rv_asset = asset, rv_remaining = amt\<rparr> (ws_reservations s1)\<rparr>))) s)"

definition unlock_op :: "string \<Rightarrow> string \<Rightarrow> bf \<Rightarrow> settle_op" where
  "unlock_op userID asset u = \<lparr>so_UserID = userID, so_Asset = asset, so_AccountType = [], so_Unlock = Some u, so_Delta = None\<rparr>"

definition delta_op :: "string \<Rightarrow> string \<Rightarrow> bf \<Rightarrow> settle_op" where
  "delta_op userID asset d = \<lparr>so_UserID = userID, so_Asset = asset, so_AccountType = [], so_Unlock = None, so_Delta = Some d\<rparr>"

text \<open>The local record is dropped first; without one the shared store is asked.\<close>

definition find_reservation :: "string \<Rightarrow> wsvc \<Rightarrow> reservation option \<times> wsvc" where
  "find_reservation orderID s =
     (case gm_get (ws_reservations s) orderID of
        Some r \<Rightarrow> (Some r, s\<lparr>ws_reservations := gm_del orderID (ws_reservations s)\<rparr>)
      | None \<Rightarrow>
          (case ws_shared s of
             None \<Rightarrow> (None, s)
           | Some h \<Rightarrow>
               (case loadReservationL2 orderID h of
                  (None, h') \<Rightarrow> (None, warnSharedOnce (s\<lparr>ws_shared := Some h'\<rparr>))
                | (Some r, h') \<Rightarrow> (r, s\<lparr>ws_shared := Some h'\<rparr>))))"

definition svc_ReleaseOrder :: "string \<Rightarrow> string \<Rightarrow> unit wact" where
  "svc_ReleaseOrder orderID userID s =
     (if no_store s then (Inr (), s)
      else case find_reservation orderID s of
          (None, s1) \<Rightarrow> (Inr (), s1)
        | (Some r, s1) \<Rightarrow>
            if bf_sign (rv_remaining r) \<le> 0 then (Inr (), s1)
            else abind (on_db (pg_Settle [unlock_op userID (rv_asset r) (rv_remaining r)] [])) (\<lambda>_ s2.
                   (Inr (), best_effort (sh_DelRes orderID) s2)) s1)"

definition svc_ReserveForOrder :: "string \<Rightarrow> string \<Rightarrow> bf option \<Rightarrow> wallet wact" where
  "svc_ReserveForOrder userID asset amt s =
     (if no_store s then (Inr \<lparr>wa_ID = [], wa_UserID = userID, wa_Asset = asset, wa_Address = [], wa_AccountType = [],
           wa_Balance = NewFloat 0, wa_Locked = NewFloat 0, wa_CreatedAt = 0, wa_UpdatedAt = 0\<rparr>, s)
      else case amt of
          None \<Rightarrow> (Inl NegativeAmount, s)
        | Some a \<Rightarrow> if bf_sign a \<le> 0 then (Inl NegativeAmount, s) else on_db (ReserveForOrder userID asset amt) s)"

definition svc_ReserveForAccount :: "string \<Rightarrow> string \<Rightarrow> string \<Rightarrow> bf option \<Rightarrow> wallet wact" where
  "svc_ReserveForAccount userID asset accountType amt s =
     (let acct = NormalizeAccountType accountType
      in if \<not> ValidAccountType acct then (Inl InvalidAccount, s)
         else if no_store s then (Inr \<lparr>wa_ID = [], wa_UserID = userID, wa_Asset = asset, wa_Address = [], wa_AccountType = acct,
           wa_Balance = NewFloat 0, wa_Locked = NewFloat 0, wa_CreatedAt = 0, wa_UpdatedAt = 0\<rparr>, s)
         else case amt of
             None \<Rightarrow> (Inl NegativeAmount, s)
           | Some a \<Rightarrow> if bf_sign a \<le> 0 then (Inl NegativeAmount, s) else on_db (ReserveForAccount userID asset acct amt) s)"

section \<open>Transfers\<close>

definition transfer_ops :: "string \<Rightarrow> string \<Rightarrow> string \<Rightarrow> string \<Rightarrow> bf \<Rightarrow> settle_op list" where
  "transfer_ops userID from to' asset a =
     [(delta_op userID asset (bf_neg new_float a))\<lparr>so_AccountType := from\<rparr>,
      (delta_op userID asset a)\<lparr>so_AccountType := to'\<rparr>]"

definition svc_Transfer :: "string \<Rightarrow> string \<Rightarrow> string \<Rightarrow> string \<Rightarrow> bf option \<Rightarrow> unit wact" where
  "svc_Transfer userID from to' asset amount s =
     (if no_store s then (Inl WalletNotFound, s)
      else if \<not> ValidAccountType from \<or> \<not> ValidAccountType to' then (Inl InvalidAccount, s)
      else if from = to' then (Inl SameAccountTransfer, s)
      else if TrimSpace asset = [] then (Inl UnsupportedAsset, s)
      else case amount of
          None \<Rightarrow> (Inl NegativeAmount, s)
        | Some a \<Rightarrow>
            if bf_sign a \<le> 0 then (Inl NegativeAmount, s)
            else abind new_uuid (\<lambda>u1. abind new_uuid (\<lambda>u2.
                   on_db (pg_Settle (transfer_ops userID from to' asset a)
                     [(new_tx (''tf_'' @ u1) userID asset TransferTx (bf_neg new_float a) Completed (ws_now s))\<lparr>x_AccountType := from\<rparr>,
                      (new_tx (''tf_'' @ u2) userID asset TransferTx a Completed (ws_now s))\<lparr>x_AccountType := to'\<rparr>]))) s)"

definition svc_Settle :: "settle_op list \<Rightarrow> tx list \<Rightarrow> unit wact" where
  "svc_Settle ops txns s = (if no_store s then (Inr (), s) else on_db (pg_Settle ops txns) s)"

section \<open>Settling a fill\<close>

text \<open>The claim of a fill: settled before, claimed by another instance, or to be settled (with or without a claim).\<close>

datatype claim = AlreadySettled | ClaimedElsewhere | Claimed bool

definition claim_fill :: "string \<Rightarrow> wsvc \<Rightarrow> claim \<times> wsvc" where
  "claim_fill fillID s =
     (let (hit, l) = lru_contains (ws_now s) fillID (ws_fills s); s1 = s\<lparr>ws_fills := l\<rparr>
      in if hit then (AlreadySettled, s1)
         else case ws_shared s1 of
             None \<Rightarrow> (Claimed False, s1)
           | Some h \<Rightarrow>
               (case sh_SetNX fillID (ws_instance s1) h of
                  (None, h') \<Rightarrow> (Claimed False, warnSharedOnce (s1\<lparr>ws_shared := Some h'\<rparr>))
                | (Some False, h') \<Rightarrow>
                    (ClaimedElsewhere, s1\<lparr>ws_shared := Some h', ws_fills := lru_add (ws_now s1) fillID (ws_fills s1)\<rparr>)
                | (Some True, h') \<Rightarrow> (Claimed True, s1\<lparr>ws_shared := Some h'\<rparr>)))"

text \<open>A reservation this instance never saw is loaded from the shared store.\<close>

definition hydrate :: "string \<Rightarrow> wsvc \<Rightarrow> wsvc" where
  "hydrate oid s =
     (case (ws_shared s, gm_get (ws_reservations s) oid) of
        (Some h, None) \<Rightarrow>
          (case loadReservationL2 oid h of
             (None, h') \<Rightarrow> warnSharedOnce (s\<lparr>ws_shared := Some h'\<rparr>)
           | (Some None, h') \<Rightarrow> s\<lparr>ws_shared := Some h'\<rparr>
           | (Some (Some r), h') \<Rightarrow> s\<lparr>ws_shared := Some h', ws_reservations := gm_put oid r (ws_reservations s)\<rparr>)
      | _ \<Rightarrow> s)"

text \<open>
  What an order's reservation contributes to a fill: the wanted amount, capped at what remains. The record stays in the hands of the caller, who puts
  it back when the settlement fails. The two orders of a fill are different, so the two records are.
\<close>

definition take_reserved :: "string \<Rightarrow> string \<Rightarrow> bf \<Rightarrow> wsvc \<Rightarrow> reservation option \<times> bf \<times> wsvc" where
  "take_reserved oid asset want s =
     (case gm_get (ws_reservations s) oid of
        None \<Rightarrow> (None, new_float, s)
      | Some r \<Rightarrow>
          if rv_asset r \<noteq> asset then (None, new_float, s)
          else let unlock = (if 0 < bf_cmp want (rv_remaining r) then rv_remaining r else want);
                   r' = r\<lparr>rv_remaining := bf_sub (rv_remaining r) (rv_remaining r) unlock\<rparr>
               in (Some r', unlock,
                   s\<lparr>ws_reservations := (if bf_sign (rv_remaining r') \<le> 0 then gm_del oid (ws_reservations s)
                                         else gm_put oid r' (ws_reservations s))\<rparr>))"

definition put_back :: "string \<Rightarrow> reservation option \<Rightarrow> bf \<Rightarrow> wsvc \<Rightarrow> wsvc" where
  "put_back oid r unlock s =
     (case r of
        None \<Rightarrow> s
      | Some r' \<Rightarrow> s\<lparr>ws_reservations :=
          gm_put oid (r'\<lparr>rv_remaining := bf_add (rv_remaining r') (rv_remaining r') unlock\<rparr>) (ws_reservations s)\<rparr>)"

definition fill_ops :: "string \<Rightarrow> string \<Rightarrow> string \<Rightarrow> string \<Rightarrow> bf \<Rightarrow> bf \<Rightarrow> bf \<Rightarrow> bf \<Rightarrow> bf \<Rightarrow> settle_op list" where
  "fill_ops base quote buyerID sellerID qty buyerDebit sellerCredit buyerUnlock sellerUnlock =
     (if 0 < bf_sign buyerUnlock then [unlock_op buyerID quote buyerUnlock] else []) @
     [delta_op buyerID quote (bf_neg new_float buyerDebit), delta_op buyerID base qty] @
     (if 0 < bf_sign sellerUnlock then [unlock_op sellerID base sellerUnlock] else []) @
     [delta_op sellerID base (bf_neg new_float qty), delta_op sellerID quote sellerCredit]"

text \<open>The settlement of a claimed fill: buyer and seller, their fees, the unlocks, the ledger entries.\<close>

definition settle_claimed ::
  "string \<Rightarrow> bool \<Rightarrow> string \<times> string \<Rightarrow> string \<times> string \<Rightarrow> string \<times> string \<Rightarrow> bf \<Rightarrow> bf \<Rightarrow> bf \<Rightarrow> bf \<Rightarrow> unit wact" where
  "settle_claimed fillID claimed bq orders users notional qty buyerFee sellerFee s =
     (let (base, quote) = bq; (buyerOrder, sellerOrder) = orders; (buyerID, sellerID) = users;
          s1 = hydrate sellerOrder (hydrate buyerOrder s);
          buyerDebit = bf_add new_float notional buyerFee;
          (br, bu, s2) = take_reserved buyerOrder quote buyerDebit s1;
          (sr, su, s3) = take_reserved sellerOrder base qty s2;
          s4 = syncReservationsL2 [buyerOrder, sellerOrder] s3;
          ops = fill_ops base quote buyerID sellerID qty buyerDebit (bf_sub new_float notional sellerFee) bu su;
          t1 = (new_tx (''tb_'' @ ws_ids s4 (ws_nid s4)) buyerID base TradeBuy qty Completed (ws_now s4))\<lparr>x_Fee := buyerFee\<rparr>;
          t2 = (new_tx (''ts_'' @ ws_ids s4 (Suc (ws_nid s4))) sellerID base TradeSell qty Completed (ws_now s4))\<lparr>x_Fee := sellerFee\<rparr>
      in case on_db (pg_Settle ops [t1, t2]) (s4\<lparr>ws_nid := Suc (Suc (ws_nid s4))\<rparr>) of
           (Inl e, s5) \<Rightarrow>
             let s6 = syncReservationsL2 [buyerOrder, sellerOrder] (put_back sellerOrder sr su (put_back buyerOrder br bu s5))
             in (Inl e, if claimed then best_effort (sh_DelClaim fillID) s6 else s6)
         | (Inr u, s5) \<Rightarrow> (Inr (), s5\<lparr>ws_fills := lru_add (ws_now s5) fillID (ws_fills s5)\<rparr>))"

definition svc_SettleFill ::
  "string \<Rightarrow> string \<Rightarrow> int \<Rightarrow> string \<Rightarrow> string \<Rightarrow> string \<Rightarrow> string \<Rightarrow> bf option \<Rightarrow> bf option \<Rightarrow> unit wact" where
  "svc_SettleFill fillID pair takerSide takerOrder makerOrder takerUser makerUser price qty s =
     (if no_store s then (Inr (), s)
      else case (price, qty) of
          (Some p, Some q) \<Rightarrow>
            if bf_sign q \<le> 0 \<or> bf_sign p \<le> 0 then (Inl NegativeAmount, s)
            else (case claim_fill fillID s of
                (AlreadySettled, s1) \<Rightarrow> (Inr (), s1)
              | (ClaimedElsewhere, s1) \<Rightarrow> (Inr (), s1)
              | (Claimed claimed, s1) \<Rightarrow>
                  (case SplitPair pair of
                     None \<Rightarrow> (Inl InvalidPair, s1)
                   | Some bq \<Rightarrow>
                       let notional = bf_mul new_float p q
                       in case (fc_TakerRate (ws_fees s1 pair), fc_MakerRate (ws_fees s1 pair)) of
                            (Some tr, Some mr) \<Rightarrow>
                              let takerFee = bf_mul new_float notional tr; makerFee = bf_mul new_float notional mr
                              in if takerSide = -1
                                 then settle_claimed fillID claimed bq (makerOrder, takerOrder) (makerUser, takerUser)
                                        notional q makerFee takerFee s1
                                 else settle_claimed fillID claimed bq (takerOrder, makerOrder) (takerUser, makerUser)
                                        notional q takerFee makerFee s1
                          | _ \<Rightarrow> (Inl GoPanic, s1)))
        | _ \<Rightarrow> (Inl NegativeAmount, s))"

end
