(* ===== verification/Wallet_Properties.thy ===== *)
theory Wallet_Properties
  imports Wallet_Service
begin

text \<open>
  What the wallet service guarantees its users: the store's contract carried over to the service, settlements that conserve
  what they move, fills settled once, transfers, reservations and the daily limit.
\<close>

section \<open>The contract of Settle, seen from the service\<close>

definition svc_bal :: "wsvc \<Rightarrow> wallet_key \<Rightarrow> rat" where
  "svc_bal s k = (case ws_store s of None \<Rightarrow> 0 | Some db \<Rightarrow> bal db k)"

definition svc_lck :: "wsvc \<Rightarrow> wallet_key \<Rightarrow> rat" where
  "svc_lck s k = (case ws_store s of None \<Rightarrow> 0 | Some db \<Rightarrow> lck db k)"

lemma svc_store_eq: "ws_store s = Some db \<Longrightarrow> svc_bal s = bal db" "ws_store s = Some db \<Longrightarrow> svc_lck s = lck db"
  by (simp_all add: svc_bal_def svc_lck_def fun_eq_iff)

lemma on_db_cases:
  assumes "on_db m s = (r, s')"
  obtains "ws_store s = None" "r = Inl GoPanic" "s' = s"
  | db db' where "ws_store s = Some db" "m db = (r, db')" "s' = s\<lparr>ws_store := Some db'\<rparr>"
  using assms by (auto simp: on_db_def split: option.splits prod.splits)

interpretation svc_ledger: ledger "\<lambda>ops ts. on_db (pg_Settle ops ts)" svc_bal svc_lck
proof
  fix ops ts s e s'
  assume "on_db (pg_Settle ops ts) s = (Inl e, s')"
  then show "svc_bal s' = svc_bal s \<and> svc_lck s' = svc_lck s"
    by (cases rule: on_db_cases) (auto simp: svc_store_eq dest: pg_ledger.settle_fails)
next
  fix ops ts s u s' k
  assume *: "on_db (pg_Settle ops ts) s = (Inr u, s')"
  then show "svc_bal s' k = svc_bal s k + delta_at ops k"
    by (cases rule: on_db_cases) (auto simp: svc_store_eq pg_ledger.settle_moves)
  from * show "svc_lck s' k = unlocked_at ops k (svc_lck s k)"
    by (cases rule: on_db_cases) (auto simp: svc_store_eq pg_ledger.settle_unlocks)
  assume "\<forall>p \<in> set ops. 0 \<le> un p" "solvent (svc_bal s) (svc_lck s)"
  with * show "solvent (svc_bal s') (svc_lck s')"
    by (cases rule: on_db_cases) (auto simp: svc_store_eq intro: pg_ledger.settle_solvent)
qed


section \<open>Steps that leave the store alone\<close>

lemma money_frame [simp]:
  "svc_bal (s\<lparr>ws_fills := l\<rparr>) = svc_bal s" "svc_lck (s\<lparr>ws_fills := l\<rparr>) = svc_lck s"
  "svc_bal (s\<lparr>ws_nid := n\<rparr>) = svc_bal s" "svc_lck (s\<lparr>ws_nid := n\<rparr>) = svc_lck s"
  by (simp_all add: svc_bal_def svc_lck_def fun_eq_iff)

lemma best_effort_frame [simp]:
  "ws_store (best_effort f s) = ws_store s" "ws_fills (best_effort f s) = ws_fills s"
  "ws_reservations (best_effort f s) = ws_reservations s" "ws_now (best_effort f s) = ws_now s"
  by (auto simp: best_effort_def warnSharedOnce_def split: option.splits prod.splits)

lemma sync_frame [simp]:
  "ws_store (syncReservationsL2 is s) = ws_store s" "ws_fills (syncReservationsL2 is s) = ws_fills s"
  "ws_reservations (syncReservationsL2 is s) = ws_reservations s" "ws_now (syncReservationsL2 is s) = ws_now s"
  by (induction "is" s rule: syncReservationsL2.induct) simp_all

lemma hydrate_frame [simp]:
  "ws_store (hydrate i s) = ws_store s" "ws_fills (hydrate i s) = ws_fills s" "ws_now (hydrate i s) = ws_now s"
  by (auto simp: hydrate_def warnSharedOnce_def split: option.splits prod.splits)

lemma take_reserved_frame:
  "take_reserved i a w s = (r, u, s') \<Longrightarrow> ws_store s' = ws_store s \<and> ws_fills s' = ws_fills s \<and> ws_now s' = ws_now s"
  by (auto simp: take_reserved_def Let_def split: option.splits if_splits)

lemma put_back_frame [simp]:
  "ws_store (put_back i r u s) = ws_store s" "ws_fills (put_back i r u s) = ws_fills s"
  by (auto simp: put_back_def split: option.splits)

lemma claim_fill_frame: "claim_fill i s = (c, s') \<Longrightarrow> ws_store s' = ws_store s \<and> ws_now s' = ws_now s \<and> ws_fees s' = ws_fees s"
  by (auto simp: claim_fill_def warnSharedOnce_def Let_def split: prod.splits option.splits if_splits bool.splits)

lemma money_of_store: "ws_store s' = ws_store s \<Longrightarrow> svc_bal s' = svc_bal s \<and> svc_lck s' = svc_lck s"
  by (simp add: svc_bal_def svc_lck_def fun_eq_iff)

section \<open>Settling a fill\<close>

lemma settle_claimed_store:
  assumes "settle_claimed fillID claimed (base, quote) (bo, so) (bu, su) notional qty bf sf s = (r, s')"
  obtains s4 s5 ts x y where "ws_store s4 = ws_store s" "ws_fills s4 = ws_fills s" "ws_now s4 = ws_now s"
    "on_db (pg_Settle (fill_ops base quote bu su qty (bf_add new_float notional bf) (bf_sub new_float notional sf) x y) ts) s4 = (r, s5)"
    "ws_store s' = ws_store s5"
    "r = Inr () \<Longrightarrow> ws_fills s' = lru_add (ws_now s) fillID (ws_fills s)"
proof -
  define s1 where "s1 = hydrate so (hydrate bo s)"
  obtain br x s2 where t1: "take_reserved bo quote (bf_add new_float notional bf) s1 = (br, x, s2)" by (metis prod_cases3)
  obtain sr y s3 where t2: "take_reserved so base qty s2 = (sr, y, s3)" by (metis prod_cases3)
  let ?s4 = "syncReservationsL2 [bo, so] s3"
  let ?ops = "fill_ops base quote bu su qty (bf_add new_float notional bf) (bf_sub new_float notional sf) x y"
  let ?t1 = "(new_tx (''tb_'' @ ws_ids ?s4 (ws_nid ?s4)) bu base TradeBuy qty Completed (ws_now ?s4))\<lparr>x_Fee := bf\<rparr>"
  let ?t2 = "(new_tx (''ts_'' @ ws_ids ?s4 (Suc (ws_nid ?s4))) su base TradeSell qty Completed (ws_now ?s4))\<lparr>x_Fee := sf\<rparr>"
  let ?s = "?s4\<lparr>ws_nid := Suc (Suc (ws_nid ?s4))\<rparr>"
  obtain r5 s5 where o: "on_db (pg_Settle ?ops [?t1, ?t2]) ?s = (r5, s5)" by fastforce
  note body = assms [unfolded settle_claimed_def Let_def prod.case s1_def [symmetric] t1 t2 o]
  have f: "ws_store ?s = ws_store s" "ws_fills ?s = ws_fills s" "ws_now ?s = ws_now s"
    using take_reserved_frame [OF t1] take_reserved_frame [OF t2] by (simp_all add: s1_def)
  have k: "ws_fills s5 = ws_fills s \<and> ws_now s5 = ws_now s" using o f by (cases rule: on_db_cases) simp_all
  show ?thesis
  proof (cases r5)
    case (Inl e)
    then have "r = Inl e" "ws_store s' = ws_store s5" using body by (auto split: if_splits)
    then show ?thesis using that [OF f, of x y] o Inl by simp
  next
    case (Inr u)
    then have "r = Inr ()" "ws_store s' = ws_store s5" "ws_fills s' = lru_add (ws_now s) fillID (ws_fills s)"
      using body k by auto
    then show ?thesis using that [OF f, of x y] o Inr by simp
  qed
qed

text \<open>What a fill moves: the base exactly, the quote less what the two fees keep.\<close>

lemma fill_ops_facts:
  "\<forall>p \<in> set (fill_ops base quote b s q d c x y). 0 \<le> un p"
  "op_key ` set (fill_ops base quote b s q d c x y) \<subseteq>
     {(b, quote, AccountSpot), (b, base, AccountSpot), (s, base, AccountSpot), (s, quote, AccountSpot)}"
  "flow a (fill_ops base quote b s q d c x y) = (if a = quote then numeric c - numeric d else 0)"
  by (auto simp: fill_ops_def unlock_op_def delta_op_def un_def dn_def op_key_def NormalizeAccountType_def numeric_nonneg)

lemma add_fee_ge:
  assumes "bf_ok n" "0 \<le> bval f"
  shows "bval n \<le> bval (bf_add new_float n f)" and "bval (bf_sub new_float n f) \<le> bval n"
proof -
  let ?p = "max (bprec n) (bprec f)"
  have e: "fround ?p (bval n) = bval n"
    using fround_widen [of "bprec n" ?p "bval n"] assms(1) by (simp add: bf_ok_def)
  show "bval n \<le> bval (bf_add new_float n f)"
    using fround_mono [of "bval n" "bval n + bval f" ?p] assms(2) e by (simp add: bf_add_def res_prec_def)
  show "bval (bf_sub new_float n f) \<le> bval n"
    using fround_mono [of "bval n - bval f" "bval n" ?p] assms(2) e by (simp add: bf_sub_def res_prec_def)
qed

lemma numeric_mono: "bval x \<le> bval y \<Longrightarrow> numeric x \<le> numeric y"
  by (simp add: numeric_eq divide_right_mono round_even_mono)

text \<open>A step that conserves: nothing is made, and of the other assets than \<open>quote\<close> nothing is lost; a failure moves nothing.\<close>

definition conserves :: "wallet_key set \<Rightarrow> string \<Rightarrow> wsvc \<Rightarrow> wsvc \<Rightarrow> bool" where
  "conserves K quote s s' \<longleftrightarrow>
     (\<forall>a. held K a (svc_bal s') \<le> held K a (svc_bal s) \<and> (a \<noteq> quote \<longrightarrow> held K a (svc_bal s') = held K a (svc_bal s)))"

lemma fill_conserves_same: "ws_store s' = ws_store s \<Longrightarrow> conserves K quote s s'"
  using money_of_store [of s' s] by (simp add: conserves_def)

lemma settle_claimed_effect:
  assumes "settle_claimed fillID claimed (base, quote) (bo, so) (bu, su) notional qty bf sf s = (r, s')"
    and "bf_ok notional" "0 \<le> bval bf" "0 \<le> bval sf"
    and "finite K" "{bu, su} \<times> {base, quote} \<times> {AccountSpot} \<subseteq> K" "solvent (svc_bal s) (svc_lck s)"
  shows "solvent (svc_bal s') (svc_lck s') \<and> conserves K quote s s' \<and> (r \<noteq> Inr () \<longrightarrow> svc_bal s' = svc_bal s \<and> svc_lck s' = svc_lck s)"
proof -
  obtain s4 s5 ts x y where o: "ws_store s4 = ws_store s"
      "on_db (pg_Settle (fill_ops base quote bu su qty (bf_add new_float notional bf) (bf_sub new_float notional sf) x y) ts) s4 = (r, s5)"
      "ws_store s' = ws_store s5"
    by (rule settle_claimed_store [OF assms(1)])
  note m = money_of_store [OF o(1)] money_of_store [OF o(3)]
  let ?ops = "fill_ops base quote bu su qty (bf_add new_float notional bf) (bf_sub new_float notional sf) x y"
  have K: "op_key ` set ?ops \<subseteq> K" using assms(6) by (intro order_trans [OF fill_ops_facts(2)]) auto
  have "solvent (svc_bal s5) (svc_lck s5)"
    using svc_ledger.settle_keeps_solvent [OF o(2) fill_ops_facts(1)] assms(7) m by simp
  moreover have "flow a ?ops \<le> 0 \<and> (a \<noteq> quote \<longrightarrow> flow a ?ops = 0)" for a
    using add_fee_ge [OF assms(2,3)] add_fee_ge [OF assms(2,4)]
    by (simp add: fill_ops_facts(3) numeric_mono)
  then have "conserves K quote s s'" unfolding conserves_def
    using svc_ledger.settle_total [OF o(2) assms(5) K] m by (auto split: sum.splits)
  moreover have "r \<noteq> Inr () \<longrightarrow> svc_bal s5 = svc_bal s4 \<and> svc_lck s5 = svc_lck s4"
    using svc_ledger.settle_fails o(2) by (cases r) auto
  ultimately show ?thesis using m by simp
qed


section \<open>A fill settles once\<close>

lemma lru_contains_fields:
  "lru_capacity (snd (lru_contains now k l)) = lru_capacity l" "lru_ttl (snd (lru_contains now k l)) = lru_ttl l"
  by (simp_all add: lru_contains_def removeElement_def touch_def split: option.split)

lemma contains_remembered: "lru_contains now k l = (True, l') \<Longrightarrow> remembered k now 0 l'"
  by (auto simp: lru_contains_def touch_def remembered_def split: option.splits if_splits)

lemma SettleFill_remembers:
  assumes "svc_SettleFill fillID pair sd to' mo tu mu price qty s = (Inr (), s')" "\<not> no_store s"
    and "lru_wf now0 (ws_fills s)" "now0 \<le> ws_now s"
  shows "remembered fillID (ws_now s) 0 (ws_fills s') \<and> lru_capacity (ws_fills s') = lru_capacity (ws_fills s) \<and>
    lru_ttl (ws_fills s') = lru_ttl (ws_fills s)"
proof -
  obtain p q where pq: "price = Some p" "qty = Some q" "\<not> (bf_sign q \<le> 0 \<or> bf_sign p \<le> 0)"
    using assms(1,2) by (auto simp: svc_SettleFill_def split: option.splits if_splits)
  obtain hit l where l: "lru_contains (ws_now s) fillID (ws_fills s) = (hit, l)" by fastforce
  have lf: "lru_capacity l = lru_capacity (ws_fills s)" "lru_ttl l = lru_ttl (ws_fills s)"
    using lru_contains_fields [of "ws_now s" fillID "ws_fills s"] l by simp_all
  have wf: "lru_wf (ws_now s) l" using lru_contains_wf [OF assms(3,4), of fillID] l by simp
  note rem = added_remembered [OF wf order_refl, of fillID]
  obtain c s1 where c: "claim_fill fillID s = (c, s1)" by fastforce
  have fills: "ws_fills s1 = (if c = ClaimedElsewhere then lru_add (ws_now s) fillID l else l) \<and> (c = AlreadySettled \<longrightarrow> hit)"
    using c l by (auto simp: claim_fill_def warnSharedOnce_def Let_def split: if_splits option.splits prod.splits bool.splits)
  show ?thesis
  proof (cases c)
    case AlreadySettled
    then have "s' = s1" "hit" using assms(1,2) pq c fills by (simp_all add: svc_SettleFill_def)
    then show ?thesis using contains_remembered l fills AlreadySettled lf by simp
  next
    case ClaimedElsewhere
    then have "s' = s1" using assms(1,2) pq c by (simp add: svc_SettleFill_def)
    then show ?thesis using fills ClaimedElsewhere rem lf by simp
  next
    case (Claimed b)
    then obtain bq os us n fb fs where e: "settle_claimed fillID b bq os us n q fb fs s1 = (Inr (), s')"
      using assms(1,2) pq c by (auto simp: svc_SettleFill_def Let_def split: option.splits if_splits)
    obtain ba qu bo so bu su where t: "bq = (ba, qu)" "os = (bo, so)" "us = (bu, su)" by (metis prod.collapse)
    have "ws_fills s' = lru_add (ws_now s1) fillID (ws_fills s1)"
      by (rule settle_claimed_store [OF e [unfolded t]]) simp
    then show ?thesis using fills Claimed rem lf claim_fill_frame [OF c] by simp
  qed
qed


section \<open>Transfers\<close>

lemma transfer_facts:
  "\<forall>p \<in> set (transfer_ops u acc1 acc2 asset a). un p = 0" "flow c (transfer_ops u acc1 acc2 asset a) = 0"
  "acc1 \<noteq> [] \<Longrightarrow> acc2 \<noteq> [] \<Longrightarrow> op_key ` set (transfer_ops u acc1 acc2 asset a) = {(u, asset, acc1), (u, asset, acc2)}"
  "acc1 \<noteq> [] \<Longrightarrow> acc2 \<noteq> [] \<Longrightarrow> delta_at (transfer_ops u acc1 acc2 asset a) k =
     (if k = (u, asset, acc1) then - numeric a else 0) + (if k = (u, asset, acc2) then numeric a else 0)"
  by (auto simp: transfer_ops_def delta_op_def un_def dn_def op_key_def NormalizeAccountType_def unlocked_def)

lemma valid_account_not_empty: "ValidAccountType a \<Longrightarrow> a \<noteq> []"
  by (auto simp: ValidAccountType_def AccountSpot_def AccountFutures_def AccountFunding_def)

lemma unlocked_at_none: "\<forall>p \<in> set ops. un p = 0 \<Longrightarrow> unlocked_at ops k l = l"
  by (induction ops arbitrary: l) (auto simp: unlocked_def)

text \<open>
  A transfer between two accounts of a user moves the amount from the one to the other and touches no other wallet, or reports an error
  and moves nothing. It succeeds only when what the source has free (its balance less what is locked in it) covers the amount.
\<close>

theorem transfer_moves:
  assumes "svc_Transfer u acc1 acc2 asset (Some a) s = (r, s')" "solvent (svc_bal s) (svc_lck s)"
  shows "svc_lck s' = svc_lck s \<and> solvent (svc_bal s') (svc_lck s') \<and>
    (case r of Inl e \<Rightarrow> svc_bal s' = svc_bal s
     | Inr x \<Rightarrow> acc1 \<noteq> acc2 \<and> numeric a \<le> svc_bal s (u, asset, acc1) - svc_lck s (u, asset, acc1) \<and>
        svc_bal s' = (svc_bal s)((u, asset, acc1) := svc_bal s (u, asset, acc1) - numeric a,
                                 (u, asset, acc2) := svc_bal s (u, asset, acc2) + numeric a))"
proof (cases "no_store s \<or> (\<not> ValidAccountType acc1 \<or> \<not> ValidAccountType acc2) \<or> acc1 = acc2 \<or> TrimSpace asset = [] \<or> bf_sign a \<le> 0")
  case True
  then have "s' = s" "\<exists>e. r = Inl e" using assms(1) by (auto simp: svc_Transfer_def split: if_splits)
  then show ?thesis using assms(2) by auto
next
  case False
  let ?ops = "transfer_ops u acc1 acc2 asset a"
  from assms(1) False obtain ts n where o: "on_db (pg_Settle ?ops ts) (s\<lparr>ws_nid := n\<rparr>) = (r, s')"
    by (auto simp: svc_Transfer_def abind_def new_uuid_def)
  have ne: "acc1 \<noteq> []" "acc2 \<noteq> []" "acc1 \<noteq> acc2" using False valid_account_not_empty by auto
  note keep = svc_ledger.settle_keeps_solvent [OF o]
  have sol: "solvent (svc_bal s') (svc_lck s')" using keep transfer_facts(1) [of u acc1 acc2 asset a] assms(2) by simp
  show ?thesis
  proof (cases r)
    case (Inl e)
    then show ?thesis using svc_ledger.settle_fails o sol by simp
  next
    case (Inr x)
    then have o: "on_db (pg_Settle ?ops ts) (s\<lparr>ws_nid := n\<rparr>) = (Inr x, s')" using o by simp
    have l: "svc_lck s' = svc_lck s"
      using svc_ledger.settle_unlocks [OF o] unlocked_at_none [OF transfer_facts(1)] by (simp add: fun_eq_iff)
    have b: "svc_bal s' k = svc_bal s k + ((if k = (u, asset, acc1) then - numeric a else 0) + (if k = (u, asset, acc2) then numeric a else 0))" for k
      using svc_ledger.settle_moves [OF o, of k] transfer_facts(4) [OF ne(1,2)] by simp
    have "svc_lck s (u, asset, acc1) \<le> svc_bal s' (u, asset, acc1)" using sol l unfolding solvent_def by metis
    then have "numeric a \<le> svc_bal s (u, asset, acc1) - svc_lck s (u, asset, acc1)" using b ne by simp
    moreover have "svc_bal s' = (svc_bal s)((u, asset, acc1) := svc_bal s (u, asset, acc1) - numeric a,
        (u, asset, acc2) := svc_bal s (u, asset, acc2) + numeric a)"
      using ne by (auto simp: fun_eq_iff b)
    ultimately show ?thesis using Inr l sol ne by simp
  qed
qed

section \<open>Reservations of orders\<close>

lemma ReserveForOrder_money:
  assumes "ReserveForOrder u a (Some x) s = (Inr w, s')"
  shows "0 < bval x \<and> numeric x \<le> bal s (u, a, AccountSpot) - lck s (u, a, AccountSpot) \<and> bal s' = bal s \<and>
    lck s' = (lck s)((u, a, AccountSpot) := lck s (u, a, AccountSpot) + numeric x)"
proof -
  have n: "NormalizeAccountType AccountSpot = AccountSpot" "ValidAccountType AccountSpot"
    by (simp_all add: NormalizeAccountType_def ValidAccountType_def AccountSpot_def)
  have "0 < bval x"
    using assms by (auto simp: ReserveForOrder_def ReserveForAccount_def Let_def n split: if_splits)
  then show ?thesis using ReserveForAccount_money [of u a AccountSpot x s "Inr w" s'] assms n
    by (simp add: ReserveForOrder_def)
qed

lemma reserved_released:
  assumes "svc_ReserveOrder oid u pair sd oType price (Some q) s = (Inr (), s1)" "\<not> no_store s"
    and "reserve_plan (ws_fees s) pair sd oType price q = Inr (Some (asset, amt))"
    and "svc_ReleaseOrder oid u s1 = (Inr (), s2)" "0 \<le> svc_lck s (u, asset, AccountSpot)"
  shows "numeric amt \<le> svc_bal s (u, asset, AccountSpot) - svc_lck s (u, asset, AccountSpot) \<and> svc_bal s1 = svc_bal s \<and>
    svc_lck s1 = (svc_lck s)((u, asset, AccountSpot) := svc_lck s (u, asset, AccountSpot) + numeric amt) \<and>
    svc_bal s2 = svc_bal s \<and> svc_lck s2 = svc_lck s \<and> gm_get (ws_reservations s2) oid = None"
proof -
  let ?k = "(u, asset, AccountSpot)"
  obtain r0 s0 where o: "on_db (ReserveForOrder u asset (Some amt)) s = (r0, s0)" by fastforce
  from assms(1) obtain w where w: "r0 = Inr w" and
    s1: "s1 = syncReservationsL2 [oid] (s0\<lparr>ws_reservations := gm_put oid \<lparr>rv_asset = asset, rv_remaining = amt\<rparr> (ws_reservations s0)\<rparr>)"
    using assms(2,3) o by (cases r0) (auto simp: svc_ReserveOrder_def split: if_splits)
  have m: "0 < bval amt \<and> numeric amt \<le> svc_bal s ?k - svc_lck s ?k \<and> svc_bal s0 = svc_bal s \<and>
      svc_lck s0 = (svc_lck s)(?k := svc_lck s ?k + numeric amt) \<and> \<not> no_store s0"
    using o w by (cases rule: on_db_cases) (auto simp: svc_store_eq no_store_def dest: ReserveForOrder_money)
  have st: "ws_store s1 = ws_store s0" "gm_get (ws_reservations s1) oid = Some \<lparr>rv_asset = asset, rv_remaining = amt\<rparr>"
    by (simp_all add: s1)
  note m1 = money_of_store [OF st(1)]
  define s1' where "s1' = s1\<lparr>ws_reservations := gm_del oid (ws_reservations s1)\<rparr>"
  let ?ops = "[unlock_op u asset amt]"
  obtain r3 s3 where o3: "on_db (pg_Settle ?ops []) s1' = (r3, s3)" by fastforce
  have "\<not> no_store s1" using m st by (simp add: no_store_def)
  then have r3: "r3 = Inr ()" "s2 = best_effort (sh_DelRes oid) s3"
    using assms(4) st m o3 by (auto simp: svc_ReleaseOrder_def find_reservation_def s1'_def abind_def split: sum.splits)
  have o3: "on_db (pg_Settle ?ops []) s1' = (Inr (), s3)" using o3 r3 by simp
  have "ws_reservations s3 = gm_del oid (ws_reservations s1)" using o3 by (cases rule: on_db_cases) (simp_all add: s1'_def)
  then have g: "gm_get (ws_reservations s2) oid = None" by (simp add: r3)
  have eq: "svc_bal s1' = svc_bal s1" "svc_lck s1' = svc_lck s1" using money_of_store [of s1' s1] by (simp_all add: s1'_def)
  have "svc_bal s3 = svc_bal s"
    using svc_ledger.settle_moves [OF o3] eq m1 m by (simp add: fun_eq_iff unlock_op_def dn_def)
  moreover have "svc_lck s3 = svc_lck s"
    using svc_ledger.settle_unlocks [OF o3] eq m1 m assms(5)
    by (auto simp: fun_eq_iff unlock_op_def un_def op_key_def NormalizeAccountType_def unlocked_def)
  ultimately show ?thesis using m m1 g money_of_store [of s2 s3] by (simp add: r3)
qed

text \<open>
  Reserving for an order and releasing it is a round trip. A limit buy or a sell that is accepted locks exactly what its plan says (the cost and
  the taker fee in the quote asset, or the quantity in the base asset), which the free balance covers; releasing the order then unlocks
  exactly that, drops the record, and leaves every balance and every lock as before the order.
\<close>

theorem reserve_release:
  assumes "svc_ReserveOrder oid u pair sd oType price (Some q) s = (Inr (), s1)" "\<not> no_store s"
    and "reserve_plan (ws_fees s) pair sd oType price q = Inr (Some (asset, amt))"
    and "svc_ReleaseOrder oid u s1 = (Inr (), s2)" "0 \<le> svc_lck s (u, asset, AccountSpot)"
  shows "numeric amt \<le> svc_bal s (u, asset, AccountSpot) - svc_lck s (u, asset, AccountSpot) \<and> svc_bal s1 = svc_bal s \<and>
    svc_lck s1 = (svc_lck s)((u, asset, AccountSpot) := svc_lck s (u, asset, AccountSpot) + numeric amt) \<and>
    svc_bal s2 = svc_bal s \<and> svc_lck s2 = svc_lck s \<and> gm_get (ws_reservations s2) oid = None"
  using assms by (rule reserved_released)

text \<open>
  Without a shared store, a release that fails cannot be retried. The record of the reservation is dropped before the database is
  asked: after a failed release the amount is still locked, and the next release of the order succeeds without unlocking anything.
\<close>

theorem failed_release_strands_funds:
  assumes "svc_ReleaseOrder oid u s = (Inl e, s1)" "ws_shared s = None"
  shows "svc_bal s1 = svc_bal s \<and> svc_lck s1 = svc_lck s \<and> svc_ReleaseOrder oid u s1 = (Inr (), s1)"
proof -
  have "\<not> no_store s" using assms(1) by (auto simp: svc_ReleaseOrder_def)
  with assms obtain r where r: "gm_get (ws_reservations s) oid = Some r" "0 < bf_sign (rv_remaining r)"
    by (auto simp: svc_ReleaseOrder_def find_reservation_def split: option.splits if_splits)
  define s0 where "s0 = s\<lparr>ws_reservations := gm_del oid (ws_reservations s)\<rparr>"
  have o: "on_db (pg_Settle [unlock_op u (rv_asset r) (rv_remaining r)] []) s0 = (Inl e, s1)"
    using assms r \<open>\<not> no_store s\<close>
    by (auto simp: svc_ReleaseOrder_def find_reservation_def s0_def abind_def split: sum.splits prod.splits)
  have "ws_reservations s1 = gm_del oid (ws_reservations s)" "ws_shared s1 = None"
    using o assms(2) by (cases rule: on_db_cases; simp add: s0_def)+
  moreover have "svc_bal s0 = svc_bal s" "svc_lck s0 = svc_lck s" using money_of_store [of s0 s] by (simp_all add: s0_def)
  ultimately show ?thesis using svc_ledger.settle_fails [OF o]
    by (simp add: svc_ReleaseOrder_def find_reservation_def)
qed

section \<open>The daily limit\<close>

text \<open>The reservation is a transaction, and then the row is read back.\<close>

lemma daily_steps:
  assumes "\<not> (bf_sign x \<le> 0 \<or> bf_sign v \<le> 0)"
  shows "ReserveWithDailyLimit u a (Some x) (Some v) limit s =
    abind (transaction (abind (upsert_wallet (u, a, AccountSpot)) (\<lambda>_. abind (reserve_row (u, a, AccountSpot) (numeric x)) (\<lambda>_.
      abind (stmt (\<lambda>s. accrue_usage (u, a, db_day s) (numeric v) (numeric limit) s)) (\<lambda>n.
        if n = 0 then throw DailyLimitExceeded else ret ()))))) (\<lambda>_. GetWallet u a) s"
  unfolding ReserveWithDailyLimit_def prod.case option.case Let_def if_not_P [OF assms] by (rule refl)

lemma GetWallet_reads:
  assumes "GetWallet u a t = (p, t')"
  shows "same_money t t' \<and> used_today t' = used_today t \<and> (\<forall>e. p = Inl e \<longrightarrow> e \<in> {WalletNotFound, DBError})"
  using assms by (auto simp: GetWallet_def GetWalletForAccount_def abind_def same_money_def throw_def ret_def Let_def
      elim!: stmt_cases split: prod.splits sum.splits option.splits)

lemma daily_granted:
  assumes "ReserveWithDailyLimit u a (Some x) (Some v) limit s = (Inr w, s')"
  shows "used_today s' u a = used_today s u a + numeric v \<and> used_today s' u a \<le> numeric limit \<and>
    numeric x \<le> bal s (u, a, AccountSpot) - lck s (u, a, AccountSpot) \<and> bal s' = bal s \<and>
    lck s' = (lck s)((u, a, AccountSpot) := lck s (u, a, AccountSpot) + numeric x)"
proof -
  have pos: "\<not> (bf_sign x \<le> 0 \<or> bf_sign v \<le> 0)" using assms by (auto simp: ReserveWithDailyLimit_def throw_def)
  from assms [unfolded daily_steps [OF pos] abind_Inr] obtain y s1 where q: "transaction (abind (upsert_wallet (u, a, AccountSpot))
      (\<lambda>_. abind (reserve_row (u, a, AccountSpot) (numeric x)) (\<lambda>_.
      abind (stmt (\<lambda>s. accrue_usage (u, a, db_day s) (numeric v) (numeric limit) s)) (\<lambda>n.
        if n = 0 then throw DailyLimitExceeded else ret ())))) s = (Inr y, s1)" and g: "GetWallet u a s1 = (Inr w, s')" by blast
  from transaction_Inr [OF q] obtain fs fs' s2 where t: "abind (upsert_wallet (u, a, AccountSpot))
      (\<lambda>_. abind (reserve_row (u, a, AccountSpot) (numeric x)) (\<lambda>_.
      abind (stmt (\<lambda>s. accrue_usage (u, a, db_day s) (numeric v) (numeric limit) s)) (\<lambda>n.
        if n = 0 then throw DailyLimitExceeded else ret ()))) (s\<lparr>db_faults := fs\<rparr>) = (Inr y, s2)" "s1 = s2\<lparr>db_faults := fs'\<rparr>" by blast
  show ?thesis using daily_body [OF t(1)] GetWallet_reads [OF g] t(2) by (simp add: same_money_def)
qed

text \<open>
  C18: The daily limit holds for each asset. A withdrawal that is granted is counted in full against the day of this user in this asset, keeps that total within
  the limit, and locks its amount, which the free balance covers; one that is refused (for the balance, the limit or a negative amount) moves and counts nothing.
  The meter is kept per user, asset and day: withdrawals of several assets are not added up.
\<close>

theorem daily_limit_respected:
  assumes "ReserveWithDailyLimit u a (Some x) (Some v) limit s = (r, s')"
  shows "case r of
      Inr w \<Rightarrow> used_today s' u a = used_today s u a + numeric v \<and> used_today s' u a \<le> numeric limit \<and>
        numeric x \<le> bal s (u, a, AccountSpot) - lck s (u, a, AccountSpot) \<and> bal s' = bal s \<and>
        lck s' = (lck s)((u, a, AccountSpot) := lck s (u, a, AccountSpot) + numeric x)
    | Inl e \<Rightarrow> e \<in> {InsufficientBalance, DailyLimitExceeded, NegativeAmount} \<longrightarrow> same_money s s' \<and> used_today s' u a = used_today s u a"
proof (cases "bf_sign x \<le> 0 \<or> bf_sign v \<le> 0")
  case True
  then show ?thesis using assms by (auto simp: ReserveWithDailyLimit_def same_money_def throw_def)
next
  case False
  show ?thesis
  proof (cases r)
    case (Inr w)
    then show ?thesis using daily_granted [OF assms [unfolded Inr]] by simp
  next
    case (Inl e)
    from assms [unfolded daily_steps [OF False] Inl abind_Inl] transaction_Inl GetWallet_reads have
      "(\<exists>fs n. s' = s\<lparr>db_faults := fs, db_nid := n\<rparr>) \<or> e \<in> {WalletNotFound, DBError}" by blast
    then show ?thesis using Inl by (auto simp: same_money_def)
  qed
qed

section \<open>Two steps that are not one\<close>

lemma row_after_update:
  assumes "gm_get (db_wallets s) k = Some w"
  shows "gm_get (db_wallets (snd (update_by_id (wl_ID w) f s))) k = Some ((f w)\<lparr>wl_UpdatedAt := db_now s\<rparr>)"
proof -
  have "map_of (map (\<lambda>(k, v). (k, g v)) m) k = map_option g (map_of m k)" for g :: "wallet_row \<Rightarrow> wallet_row" and m
    by (induction m) auto
  then show ?thesis using assms by (simp add: update_by_id_def)
qed

lemma wallet_exists_get: "gm_get (db_wallets s) k = Some w \<Longrightarrow> wallet_exists (wl_ID w) s"
  by (auto simp: wallet_exists_def list_ex_iff dest!: map_of_SomeD)

text \<open>A deposit to a wallet that exists, of a transaction not seen before, statement by statement.\<close>

definition credited :: "wallet_row \<Rightarrow> bf \<Rightarrow> pg \<Rightarrow> pg" where
  "credited w x db = snd (update_by_id (wl_ID w) (\<lambda>w. w\<lparr>wl_Balance := wl_Balance w + numeric x\<rparr>) db)"

lemma credited_frame:
  "db_txs (credited w x db) = db_txs db" "db_faults (credited w x db) = db_faults db"
  "credited w x (db\<lparr>db_faults := fs\<rparr>) = (credited w x db)\<lparr>db_faults := fs\<rparr>"
  by (simp_all add: credited_def update_by_id_def cong: if_cong)

lemma credited_facts:
  assumes "gm_get (db_wallets db) k = Some w"
  shows "gm_get (db_wallets (credited w x db)) k = Some (w\<lparr>wl_Balance := wl_Balance w + numeric x, wl_UpdatedAt := db_now db\<rparr>)"
    "wallet_exists (wl_ID w) (credited w x db)"
proof -
  show g: "gm_get (db_wallets (credited w x db)) k = Some (w\<lparr>wl_Balance := wl_Balance w + numeric x, wl_UpdatedAt := db_now db\<rparr>)"
    using row_after_update [OF assms] by (simp add: credited_def)
  show "wallet_exists (wl_ID w) (credited w x db)" using wallet_exists_get [OF g] by simp
qed

lemma wallet_exists_faults: "wallet_exists i (s\<lparr>db_faults := fs\<rparr>) = wallet_exists i s"
  by (simp add: wallet_exists_def)

text \<open>A deposit to a wallet that exists, of a transaction not seen before; \<open>b\<close>: the last of its statements fails.\<close>

lemma deposit_steps:
  assumes "ws_store s = Some db" "db_faults db = [False, False, False, b] @ rest" "gm_get (db_txs db) h = None" "h \<noteq> []"
    and "gm_get (db_wallets db) (u, a, AccountSpot) = Some w" "0 < bval x"
  defines "t \<equiv> (new_tx h u a DepositTx x Completed (ws_now s))\<lparr>x_WalletID := wl_ID w, x_TxHash := h\<rparr>"
  shows "svc_Deposit u a (Some x) h s =
    (if b then (Inl DBError, s\<lparr>ws_store := Some ((credited w x db)\<lparr>db_faults := rest\<rparr>)\<rparr>)
     else (Inr (), s\<lparr>ws_store := Some ((credited w x db)\<lparr>db_faults := rest, db_txs := gm_put h (stored_tx t) (db_txs db)\<rparr>)\<rparr>))"
proof -
  let ?s = "\<lambda>fs. s\<lparr>ws_store := Some (db\<lparr>db_faults := fs\<rparr>)\<rparr>"
  let ?r = "b # rest"
  have n: "NormalizeAccountType AccountSpot = AccountSpot" by (simp add: NormalizeAccountType_def AccountSpot_def)
  have a: "already_deposited h s = (Inr False, ?s ([False, False] @ ?r))"
    using assms(1-4) by (simp add: already_deposited_def on_db_def GetTx_def stmt_def abind_def throw_def)
  have d: "deposit_wallet u a now (?s ([False, False] @ ?r)) = (Inr (wallet_of (u, a, AccountSpot) w), ?s ([False] @ ?r))" for now
    using assms(5) by (simp add: deposit_wallet_def on_db_def GetWallet_def GetWalletForAccount_def stmt_def abind_def Let_def ret_def n)
  have i: "wa_ID (wallet_of (u, a, AccountSpot) w) = wl_ID w" by (simp add: wallet_of_def)
  let ?c = "s\<lparr>ws_store := Some ((credited w x db)\<lparr>db_faults := ?r\<rparr>)\<rparr>"
  have up: "on_db (UpdateBalance (wl_ID w) x) (?s ([False] @ ?r)) = (Inr (), ?c)"
    using credited_frame(3)
    by (simp add: on_db_def UpdateBalance_def stmt_def credited_def update_by_id_def cong: if_cong)
  have sv: "on_db (SaveTx t) ?c =
    (if b then (Inl DBError, s\<lparr>ws_store := Some ((credited w x db)\<lparr>db_faults := rest\<rparr>)\<rparr>)
     else (Inr (), s\<lparr>ws_store := Some ((credited w x db)\<lparr>db_faults := rest, db_txs := gm_put h (stored_tx t) (db_txs db)\<rparr>)\<rparr>))"
    using credited_facts [OF assms(5), of x] assms(3) credited_frame(1,2)
    by (simp add: on_db_def SaveTx_def checked_def save_tx_def insert_tx_def stmt_def abind_def t_def new_tx_def ret_def wallet_exists_faults)
  show ?thesis using a d [of "ws_now s"] up sv assms(1,4,6) i
    by (simp add: svc_Deposit_def no_store_def t_def)
qed

text \<open>
  A deposit is not one step. The credit of the wallet and the record of the transaction, which is what makes a deposit idempotent, are two
  statements: when the second fails, the caller is told of an error with the credit in place, and the retry
  he is entitled to credits the same transaction a second time.
\<close>

theorem failed_deposit_credits_again:
  assumes "ws_store s = Some db" "db_faults db = [False, False, False, True, False, False, False, False]"
    and "gm_get (db_txs db) h = None" "h \<noteq> []" "gm_get (db_wallets db) (u, a, AccountSpot) = Some w" "0 < bval x"
  shows "case svc_Deposit u a (Some x) h s of (r1, s1) \<Rightarrow> (case svc_Deposit u a (Some x) h s1 of (r2, s2) \<Rightarrow>
    r1 = Inl DBError \<and> r2 = Inr () \<and> svc_bal s2 (u, a, AccountSpot) = svc_bal s (u, a, AccountSpot) + 2 * numeric x)"
proof -
  let ?k = "(u, a, AccountSpot)"
  define w1 where "w1 = w\<lparr>wl_Balance := wl_Balance w + numeric x, wl_UpdatedAt := db_now db\<rparr>"
  define db1 where "db1 = (credited w x db)\<lparr>db_faults := [False, False, False, False]\<rparr>"
  define s1 where "s1 = s\<lparr>ws_store := Some db1\<rparr>"
  have d1: "svc_Deposit u a (Some x) h s = (Inl DBError, s1)"
    using deposit_steps [of s db True "[False, False, False, False]" h u a w x] assms by (simp add: s1_def db1_def)
  have g: "gm_get (db_wallets db1) ?k = Some w1" using credited_facts(1) [OF assms(5)] by (simp add: db1_def w1_def)
  have "db_txs db1 = db_txs db" by (simp add: db1_def credited_frame)
  then obtain s2 txs where d2: "svc_Deposit u a (Some x) h s1 = (Inr (), s2)"
      "ws_store s2 = Some ((credited w1 x db1)\<lparr>db_faults := [], db_txs := txs\<rparr>)"
    using deposit_steps [of s1 db1 False "[]" h u a w1 x] assms g by (simp add: s1_def db1_def)
  have "svc_bal s2 ?k = svc_bal s ?k + 2 * numeric x"
    using credited_facts(1) [OF g, of x] d2(2) assms(1,5) by (simp add: svc_bal_def bal_def w1_def)
  then show ?thesis using d1 d2(1) by simp
qed

section \<open>At work\<close>

text \<open>Two users: alice with 100 USDT, bob with 5 BTC; no fees, no shared store.\<close>

definition demo_row :: "string \<Rightarrow> rat \<Rightarrow> wallet_row" where
  "demo_row i b = \<lparr>wl_ID = i, wl_Balance = b, wl_Locked = 0, wl_Address = [], wl_CreatedAt = 0, wl_UpdatedAt = 0\<rparr>"

definition demo_db :: pg where
  "demo_db =
     \<lparr>db_wallets = [((''alice'', ''USDT'', AccountSpot), demo_row ''w1'' 100), ((''bob'', ''BTC'', AccountSpot), demo_row ''w2'' 5)],
      db_txs = [], db_usage = [], db_faults = [], db_ids = (\<lambda>n. ''w'' @ nat_text (n + 3)), db_nid = 0, db_now = 0, db_day = ''d''\<rparr>"

definition demo :: wsvc where
  "demo = NewService (Some demo_db) [] None None ''i'' (\<lambda>n. ''u'' @ nat_text n) (\<lambda>x. []) (\<lambda>x. [])"

lemma numeric_int: "numeric (BF p (of_int k)) = of_int k"
  using numeric_exact [of "BF p (of_int k)" "k * 10 ^ 18"] by simp

lemma numeric_numeral [simp]: "numeric (BF p (numeral n)) = numeral n" "numeric (BF p (- numeral n)) = - numeral n"
  "numeric (BF p 1) = 1" "numeric (BF p (- 1)) = - 1"
  using numeric_int [of p "numeral n"] numeric_int [of p "- numeral n"] numeric_int [of p 1] numeric_int [of p "-1"] by simp_all

lemma NewFloat_numeral: "(numeral n :: int) < 2 ^ 53 \<Longrightarrow> NewFloat (numeral n) = BF 53 (numeral n)" "NewFloat 0 = BF 53 0" "NewFloat 1 = BF 53 1"
  by (simp_all add: NewFloat_def)

lemmas service_defs = on_db_def no_store_def get_now_def new_uuid_def claim_fill_def settle_claimed_def hydrate_def take_reserved_def put_back_def
  fill_ops_def unlock_op_def delta_op_def best_effort_def

lemmas store_defs = pg_Settle_def transaction_def stmt_def abind_def ret_def throw_def upsert_wallet_def fresh_id_def insert_wallet_def settle_apply_def
  settle_unlock_def settle_delta_def update_wallet_def op_key_def NormalizeAccountType_def settle_tx_def checked_def insert_tx_def
  wallet_exists_def new_tx_def

lemma demo_eq: "demo = \<lparr>ws_store = Some demo_db, ws_clients = [], ws_fees = (\<lambda>p. \<lparr>fc_TakerRate = Some (BF 53 0), fc_MakerRate = Some (BF 53 0)\<rparr>),
   ws_fills = newFillLRU defaultProcessedFillCapacity defaultProcessedFillTTL, ws_reservations = [], ws_shared = None, ws_warned = False,
   ws_instance = ''i'', ws_ids = (\<lambda>n. ''u'' @ nat_text n), ws_nid = 0, ws_now = 0, ws_sha = (\<lambda>x. []), ws_keccak = (\<lambda>x. [])\<rparr>"
  by (simp add: demo_def NewService_def StaticFees_def NewFloat_numeral fun_eq_iff)


lemmas float_defs = NewFloat_numeral bf_mul_def bf_add_def bf_sub_def bf_neg_def bf_set_def res_prec_def bf_sign_def

lemmas demo_defs = demo_eq demo_db_def demo_row_def empty_row_def lru_contains_def newFillLRU_def defaultProcessedFillCapacity_def

lemma demo_solvent: "solvent (svc_bal demo) (svc_lck demo)"
  by (simp add: solvent_def svc_bal_def svc_lck_def bal_def lck_def demo_eq demo_db_def demo_row_def split: option.split)

lemma demo_bal:
  "svc_bal demo k = (if k = (''alice'', ''USDT'', AccountSpot) then 100 else if k = (''bob'', ''BTC'', AccountSpot) then 5 else 0)"
  by (simp add: svc_bal_def bal_def demo_eq demo_db_def demo_row_def)

lemma demo_lck: "svc_lck demo k = 0"
  by (simp add: svc_lck_def lck_def demo_eq demo_db_def demo_row_def)

lemma demo_store: "\<not> no_store demo"
  by (simp add: no_store_def demo_eq)

lemma demo_pair: "SplitPair ''BTC/USDT'' = Some (''BTC'', ''USDT'')"
  by (simp add: SplitPair_def)

abbreviation demo_fill :: "wsvc \<Rightarrow> (wallet_err + unit) \<times> wsvc" where
  "demo_fill \<equiv> svc_SettleFill ''f1'' ''BTC/USDT'' 1 ''o1'' ''o2'' ''alice'' ''bob'' (Some (NewFloat 2)) (Some (NewFloat 3))"

lemma demo_fill_ok: "fst (demo_fill demo) = Inr ()"
  by (simp add: svc_SettleFill_def demo_pair service_defs store_defs float_defs demo_defs Let_def)




theorem transfer_moves_witness:
  "svc_bal (snd (svc_Transfer ''alice'' AccountSpot AccountFutures ''USDT'' (Some (NewFloat 30)) demo)) (''alice'', ''USDT'', AccountFutures) = 30"
proof -
  have ok: "fst (svc_Transfer ''alice'' AccountSpot AccountFutures ''USDT'' (Some (NewFloat 30)) demo) = Inr ()"
    by (simp add: svc_Transfer_def transfer_ops_def service_defs store_defs float_defs demo_defs Let_def ValidAccountType_def AccountSpot_def
        AccountFutures_def AccountFunding_def TrimSpace_def is_space_def)
  have ne: "AccountSpot \<noteq> AccountFutures" by (simp add: AccountSpot_def AccountFutures_def)
  from transfer_moves [OF prod.collapse [symmetric] demo_solvent, of "''alice''" AccountSpot AccountFutures "''USDT''" "NewFloat 30", unfolded ok sum.case]
  show ?thesis using ne by (simp add: demo_bal float_defs(1))
qed

theorem reserve_release_witness:
  "let s1 = snd (svc_ReserveOrder ''o1'' ''bob'' ''BTC/USDT'' (- 1) 0 None (Some (NewFloat 2)) demo)
   in svc_lck s1 (''bob'', ''BTC'', AccountSpot) = 2 \<and> svc_lck (snd (svc_ReleaseOrder ''o1'' ''bob'' s1)) = svc_lck demo"
proof -
  let ?p = "svc_ReserveOrder ''o1'' ''bob'' ''BTC/USDT'' (- 1) 0 None (Some (NewFloat 2)) demo"
  note ev = service_defs store_defs float_defs demo_defs ReserveForOrder_def ReserveForAccount_def GetWalletForAccount_def reserve_row_def
    reserve_plan_def demo_pair ValidAccountType_def AccountSpot_def
  have 1: "?p = (Inr (), snd ?p)" by (simp add: svc_ReserveOrder_def ev Let_def)
  have 2: "svc_ReleaseOrder ''o1'' ''bob'' (snd ?p) = (Inr (), snd (svc_ReleaseOrder ''o1'' ''bob'' (snd ?p)))"
    by (simp add: svc_ReserveOrder_def svc_ReleaseOrder_def find_reservation_def ev Let_def)
  have 3: "reserve_plan (ws_fees demo) ''BTC/USDT'' (- 1) 0 None (NewFloat 2) = Inr (Some (''BTC'', NewFloat 2))"
    by (simp add: reserve_plan_def demo_pair)
  from reserve_release [OF 1 demo_store 3 2] show ?thesis by (simp add: Let_def demo_lck float_defs)
qed

text \<open>The same reservation, with the database down.\<close>

definition demo_down :: wsvc where
  "demo_down = demo\<lparr>ws_reservations := [(''o1'', \<lparr>rv_asset = ''BTC'', rv_remaining = BF 53 2\<rparr>)],
     ws_store := Some (demo_db\<lparr>db_faults := [True]\<rparr>)\<rparr>"

theorem failed_release_strands_funds_witness:
  "fst (svc_ReleaseOrder ''o1'' ''bob'' demo_down) = Inl DBError \<and>
   fst (svc_ReleaseOrder ''o1'' ''bob'' (snd (svc_ReleaseOrder ''o1'' ''bob'' demo_down))) = Inr ()"
proof -
  have "svc_ReleaseOrder ''o1'' ''bob'' demo_down = (Inl DBError, snd (svc_ReleaseOrder ''o1'' ''bob'' demo_down))"
    by (simp add: svc_ReleaseOrder_def find_reservation_def demo_down_def service_defs store_defs float_defs demo_defs)
  moreover have "ws_shared demo_down = None" by (simp add: demo_down_def demo_eq)
  ultimately show ?thesis using failed_release_strands_funds by (metis fst_conv)
qed

theorem daily_limit_respected_witness:
  "used_today (snd (ReserveWithDailyLimit ''alice'' ''USDT'' (Some (NewFloat 50)) (Some (NewFloat 50)) (NewFloat 60) demo_db)) ''alice'' ''USDT'' = 50"
proof -
  let ?r = "ReserveWithDailyLimit ''alice'' ''USDT'' (Some (NewFloat 50)) (Some (NewFloat 50)) (NewFloat 60) demo_db"
  obtain w where "fst ?r = Inr w"
    by (simp add: ReserveWithDailyLimit_def accrue_usage_def GetWallet_def GetWalletForAccount_def reserve_row_def store_defs float_defs demo_defs
        Let_def AccountSpot_def)
  moreover note daily_limit_respected [where u = "''alice''" and a = "''USDT''" and x = "NewFloat 50" and v = "NewFloat 50" and limit = "NewFloat 60"
      and s = demo_db, OF prod.collapse [symmetric]]
  moreover have "used_today demo_db ''alice'' ''USDT'' = 0" by (simp add: used_today_def demo_db_def)
  ultimately show ?thesis by (simp add: float_defs(1))
qed

theorem failed_deposit_credits_again_witness:
  "let s = demo\<lparr>ws_store := Some (demo_db\<lparr>db_faults := [False, False, False, True, False, False, False, False]\<rparr>)\<rparr>;
       s2 = snd (svc_Deposit ''alice'' ''USDT'' (Some (NewFloat 7)) ''0xab'' (snd (svc_Deposit ''alice'' ''USDT'' (Some (NewFloat 7)) ''0xab'' s)))
   in svc_bal s2 (''alice'', ''USDT'', AccountSpot) = 114"
proof -
  let ?db = "demo_db\<lparr>db_faults := [False, False, False, True, False, False, False, False]\<rparr>"
  let ?s = "demo\<lparr>ws_store := Some ?db\<rparr>"
  have b: "svc_bal ?s (''alice'', ''USDT'', AccountSpot) = 100" by (simp add: svc_bal_def bal_def demo_db_def demo_row_def)
  have "case svc_Deposit ''alice'' ''USDT'' (Some (NewFloat 7)) ''0xab'' ?s of (r1, s1) \<Rightarrow>
      (case svc_Deposit ''alice'' ''USDT'' (Some (NewFloat 7)) ''0xab'' s1 of (r2, s2) \<Rightarrow>
      r1 = Inl DBError \<and> r2 = Inr () \<and> svc_bal s2 (''alice'', ''USDT'', AccountSpot) =
        svc_bal ?s (''alice'', ''USDT'', AccountSpot) + 2 * numeric (NewFloat 7))"
    by (rule failed_deposit_credits_again [of _ ?db _ _ _ "demo_row ''w1'' 100"]) (simp_all add: demo_db_def float_defs)
  then show ?thesis by (auto simp: b Let_def float_defs split: prod.splits)
qed

end
