(* ===== verification/Amm_Math.thy ===== *)
theory Amm_Math
  imports Decimal
begin

text \<open>
  \<open>internal/amm/types.go\<close>, \<open>math.go\<close> and \<open>errors.go\<close>: constant-product pools, the shares a deposit mints, what burning them pays, the quote
  of a swap and its effect on the reserves. A division by zero leaves the finite floats (an infinity, or a panic on
  \<open>0/0\<close>): the model stops there with \<open>NonFinite\<close>.
\<close>

section \<open>Data\<close>

datatype amm_err = InvalidAmount | InvalidToken | EmptyPool | InsufficientLiquidity | PoolPaused | SlippageExceeded
  | StoreUnavailable | BadFeeRate | StoreError | WalletError | NonFinite

record pool =
  pl_ID :: string
  pl_Pair :: string
  pl_Token0 :: string
  pl_Token1 :: string
  pl_Reserve0 :: bf
  pl_Reserve1 :: bf
  pl_LPShares :: bf
  pl_FeeRate :: bf
  pl_ProtocolFees0 :: bf
  pl_ProtocolFees1 :: bf
  pl_Status :: string
  pl_CreatedAt :: int
  pl_UpdatedAt :: int

record lp_position =
  lp_ID :: string
  lp_UserID :: string
  lp_PoolID :: string
  lp_Shares :: bf
  lp_CreatedAt :: int
  lp_UpdatedAt :: int

record amm_swap =
  sw_ID :: string
  sw_PoolID :: string
  sw_UserID :: string
  sw_TokenIn :: string
  sw_TokenOut :: string
  sw_AmountIn :: "bf option"
  sw_AmountOut :: "bf option"
  sw_Fee :: "bf option"
  sw_CreatedAt :: int

definition NewPool :: "string \<Rightarrow> string \<Rightarrow> string \<Rightarrow> string \<Rightarrow> bf option \<Rightarrow> int \<Rightarrow> pool" where
  "NewPool i pair token0 token1 feeRate now =
     \<lparr>pl_ID = i, pl_Pair = pair, pl_Token0 = token0, pl_Token1 = token1,
      pl_Reserve0 = NewFloat 0, pl_Reserve1 = NewFloat 0, pl_LPShares = NewFloat 0,
      pl_FeeRate = (case feeRate of None \<Rightarrow> NewFloat (3 / 1000) | Some f \<Rightarrow> if bf_sign f < 0 then NewFloat (3 / 1000) else f),
      pl_ProtocolFees0 = NewFloat 0, pl_ProtocolFees1 = NewFloat 0, pl_Status = ''active'', pl_CreatedAt = now, pl_UpdatedAt = now\<rparr>"

section \<open>Square root\<close>

text \<open>\<open>new(big.Float).SetMantExp(big.NewFloat(1), e)\<close>\<close>

definition two_to :: "int \<Rightarrow> bf" where
  "two_to e = BF 53 (2 powi e)"

text \<open>One step \<open>(x / z + z) / 2\<close>, each operation rounded at the precision of its operands.\<close>

definition newton_step :: "bf \<Rightarrow> bf \<Rightarrow> bf option" where
  "newton_step x z =
     (case bf_quo new_float x z of
        None \<Rightarrow> None
      | Some q \<Rightarrow> (let t = bf_add q q z in Some (bf_mul t t (NewFloat (1 / 2)))))"

text \<open>The loop, with the number of rounds still allowed.\<close>

fun newton :: "nat \<Rightarrow> bf \<Rightarrow> bf \<Rightarrow> bf \<Rightarrow> bf option" where
  "newton 0 x z prev = Some z"
| "newton (Suc n) x z prev =
     (case newton_step x z of
        None \<Rightarrow> None
      | Some t \<Rightarrow>
          if bf_cmp t z = 0 then Some z
          else if 0 < bf_sign prev \<and> bf_cmp t prev = 0 then Some (if bf_cmp z t < 0 then z else t)
          else newton n x t z)"

definition sqrtBigFloat :: "bf \<Rightarrow> bf option" where
  "sqrtBigFloat x =
     (if bf_sign x \<le> 0 then Some (NewFloat 0)
      else let e = bexp (bval x); z = two_to (if 0 \<le> e then e div 2 else - (- e div 2))
           in newton 100 x z new_float)"

section \<open>Liquidity\<close>

definition lift_quo :: "bf option \<Rightarrow> (bf \<Rightarrow> amm_err + 'a) \<Rightarrow> amm_err + 'a" where
  "lift_quo q f = (case q of None \<Rightarrow> Inl NonFinite | Some x \<Rightarrow> f x)"

definition AddLiquidity :: "pool \<Rightarrow> bf option \<Rightarrow> bf option \<Rightarrow> amm_err + (bf \<times> bf)" where
  "AddLiquidity p amount0 amount1 =
     (case (amount0, amount1) of
        (Some a0, Some a1) \<Rightarrow>
          if bf_sign a0 \<le> 0 \<or> bf_sign a1 \<le> 0 then Inl InvalidAmount
          else if bf_cmp (pl_LPShares p) (NewFloat 0) = 0
          then lift_quo (sqrtBigFloat (bf_mul new_float a0 a1)) (\<lambda>shares. Inr (a1, shares))
          else let n = bf_mul new_float a0 (pl_Reserve1 p)
               in lift_quo (bf_quo n n (pl_Reserve0 p)) (\<lambda>needed.
                    let s = bf_mul new_float a0 (pl_LPShares p)
                    in lift_quo (bf_quo s s (pl_Reserve0 p)) (\<lambda>shares.
                         Inr (if 0 < bf_cmp a1 needed then needed else a1, shares)))
      | _ \<Rightarrow> Inl InvalidAmount)"

definition RemoveLiquidity :: "pool \<Rightarrow> bf option \<Rightarrow> amm_err + (bf \<times> bf)" where
  "RemoveLiquidity p shares =
     (case shares of
        None \<Rightarrow> Inl InvalidAmount
      | Some s \<Rightarrow>
          if bf_sign s \<le> 0 then Inl InvalidAmount
          else if bf_cmp (pl_LPShares p) (NewFloat 0) = 0 then Inl EmptyPool
          else if 0 < bf_cmp s (pl_LPShares p) then Inl InsufficientLiquidity
          else let n0 = bf_mul new_float s (pl_Reserve0 p); n1 = bf_mul new_float s (pl_Reserve1 p)
               in lift_quo (bf_quo n0 n0 (pl_LPShares p)) (\<lambda>a0.
                  lift_quo (bf_quo n1 n1 (pl_LPShares p)) (\<lambda>a1. Inr (a0, a1))))"

section \<open>Swaps\<close>

text \<open>The output, the fee and the input less the fee.\<close>

definition quote_amounts :: "bf \<Rightarrow> bf \<Rightarrow> bf \<Rightarrow> bf \<Rightarrow> amm_err + (bf \<times> bf \<times> bf)" where
  "quote_amounts reserveIn reserveOut feeRate amountIn =
     (let fee = bf_mul new_float amountIn feeRate;
          amountInWithFee = bf_sub new_float amountIn fee;
          numerator = bf_mul new_float reserveOut amountInWithFee;
          denominator = bf_add new_float reserveIn amountInWithFee
      in lift_quo (bf_quo new_float numerator denominator) (\<lambda>amountOut. Inr (amountOut, fee, amountInWithFee)))"

definition QuoteSwap :: "pool \<Rightarrow> string \<Rightarrow> bf option \<Rightarrow> amm_err + (bf \<times> bf \<times> bf)" where
  "QuoteSwap p tokenIn amountIn =
     (case amountIn of
        None \<Rightarrow> Inl InvalidAmount
      | Some a \<Rightarrow>
          if bf_sign a \<le> 0 then Inl InvalidAmount
          else if pl_Status p \<noteq> ''active'' then Inl PoolPaused
          else if tokenIn \<noteq> pl_Token0 p \<and> tokenIn \<noteq> pl_Token1 p then Inl InvalidToken
          else let (rin, rout) = (if tokenIn = pl_Token0 p then (pl_Reserve0 p, pl_Reserve1 p) else (pl_Reserve1 p, pl_Reserve0 p))
               in if bf_sign rin \<le> 0 \<or> bf_sign rout \<le> 0 then Inl EmptyPool
                  else quote_amounts rin rout (pl_FeeRate p) a)"

definition ApplySwap :: "string \<Rightarrow> bf \<Rightarrow> bf \<Rightarrow> int \<Rightarrow> pool \<Rightarrow> pool" where
  "ApplySwap tokenIn amountIn amountOut now p =
     (let oneMinusFee = bf_sub new_float (NewFloat 1) (pl_FeeRate p);
          amountInWithFee = bf_mul new_float amountIn oneMinusFee
      in (if tokenIn = pl_Token0 p
          then p\<lparr>pl_Reserve0 := bf_add (pl_Reserve0 p) (pl_Reserve0 p) amountInWithFee,
                 pl_Reserve1 := bf_sub (pl_Reserve1 p) (pl_Reserve1 p) amountOut\<rparr>
          else p\<lparr>pl_Reserve1 := bf_add (pl_Reserve1 p) (pl_Reserve1 p) amountInWithFee,
                 pl_Reserve0 := bf_sub (pl_Reserve0 p) (pl_Reserve0 p) amountOut\<rparr>)\<lparr>pl_UpdatedAt := now\<rparr>)"

end
