(* ===== verification/Amm_Precision.thy ===== *)
theory Amm_Precision
  imports Amm_Math
begin

text \<open>
  How exactly the pool computes: relative errors in units of the last place of a 53-bit float, the precision at which
  reserves are read back from the database, and the constant product under a swap.
\<close>

section \<open>Relative errors\<close>

definition ulp :: rat where
  "ulp = 1 / 2 ^ 53"

text \<open>\<open>x\<close> is \<open>y\<close> up to \<open>k\<close> units.\<close>

definition near :: "rat \<Rightarrow> rat \<Rightarrow> rat \<Rightarrow> bool" where
  "near k x y \<longleftrightarrow> \<bar>x - y\<bar> \<le> k * ulp * \<bar>y\<bar>"

lemma ulp_pos [simp]: "0 < ulp" "0 \<le> ulp"
  by (simp_all add: ulp_def)

lemma near_refl [simp]: "0 \<le> k \<Longrightarrow> near k x x"
  by (simp add: near_def)

lemma near_mono: "near j x y \<Longrightarrow> j \<le> k \<Longrightarrow> near k x y"
  unfolding near_def by (meson abs_ge_zero mult_right_mono order_trans ulp_pos(2))

lemma near_fround: "53 \<le> p \<Longrightarrow> near 1 (fround p x) x"
proof -
  assume p: "53 \<le> p"
  have "(2::rat) powi (- int p) \<le> 2 powi (- 53)" unfolding powi_le using p by simp
  also have "\<dots> = ulp" by (simp add: ulp_def power_int_minus inverse_eq_divide)
  finally have "\<bar>x\<bar> * 2 powi (- int p) \<le> \<bar>x\<bar> * ulp" by (simp add: mult_left_mono)
  with fround_error [of p x] p show ?thesis by (simp add: near_def mult.commute)
qed

lemma near_abs: "near k x y \<Longrightarrow> \<bar>x\<bar> \<le> (1 + k * ulp) * \<bar>y\<bar>"
  unfolding near_def using abs_triangle_ineq2 [of x y] by (simp add: algebra_simps)

text \<open>The second-order term is at most one unit.\<close>

lemma small_square: "0 \<le> j \<Longrightarrow> 0 \<le> k \<Longrightarrow> j * k \<le> 2 ^ 53 \<Longrightarrow> j * ulp * (k * ulp) \<le> ulp"
proof -
  assume "0 \<le> j" "0 \<le> k" "j * k \<le> 2 ^ 53"
  then have "j * k * (ulp * ulp) \<le> 2 ^ 53 * (ulp * ulp)" by (intro mult_right_mono) simp_all
  also have "\<dots> = ulp" by (simp add: ulp_def)
  finally show ?thesis by (simp add: mult.assoc mult.left_commute)
qed

lemma near_trans:
  assumes "near j x y" "near k y z" "0 \<le> j" "0 \<le> k" "j * k \<le> 2 ^ 53"
  shows "near (j + k + 1) x z"
proof -
  have "\<bar>x - z\<bar> \<le> \<bar>x - y\<bar> + \<bar>y - z\<bar>" by linarith
  also have "\<bar>x - y\<bar> \<le> j * ulp * \<bar>y\<bar>" using assms(1) by (simp add: near_def)
  also have "j * ulp * \<bar>y\<bar> \<le> j * ulp * ((1 + k * ulp) * \<bar>z\<bar>)"
    using near_abs [OF assms(2)] assms(3) by (intro mult_left_mono) simp_all
  also have "\<bar>y - z\<bar> \<le> k * ulp * \<bar>z\<bar>" using assms(2) by (simp add: near_def)
  also have "j * ulp * ((1 + k * ulp) * \<bar>z\<bar>) + k * ulp * \<bar>z\<bar> = (j * ulp + k * ulp + j * ulp * (k * ulp)) * \<bar>z\<bar>"
    by (simp add: algebra_simps)
  also have "\<dots> \<le> (j * ulp + k * ulp + ulp) * \<bar>z\<bar>"
    using small_square [OF assms(3-5)] by (intro mult_right_mono) simp_all
  finally show ?thesis by (simp add: near_def algebra_simps)
qed

lemma near_mult:
  assumes "near j x y" "near k v w" "0 \<le> j" "0 \<le> k" "j * k \<le> 2 ^ 53"
  shows "near (j + k + 1) (x * v) (y * w)"
proof -
  have "x * v - y * w = (x - y) * v + y * (v - w)" by (simp add: algebra_simps)
  then have "\<bar>x * v - y * w\<bar> \<le> \<bar>x - y\<bar> * \<bar>v\<bar> + \<bar>y\<bar> * \<bar>v - w\<bar>"
    by (metis abs_mult abs_triangle_ineq)
  also have "\<bar>x - y\<bar> * \<bar>v\<bar> \<le> (j * ulp * \<bar>y\<bar>) * ((1 + k * ulp) * \<bar>w\<bar>)"
    using assms(1) near_abs [OF assms(2)] assms(3) by (intro mult_mono) (simp_all add: near_def)
  also have "\<bar>y\<bar> * \<bar>v - w\<bar> \<le> \<bar>y\<bar> * (k * ulp * \<bar>w\<bar>)" using assms(2) by (simp add: near_def mult_left_mono)
  also have "(j * ulp * \<bar>y\<bar>) * ((1 + k * ulp) * \<bar>w\<bar>) + \<bar>y\<bar> * (k * ulp * \<bar>w\<bar>) =
      (j * ulp + k * ulp + j * ulp * (k * ulp)) * (\<bar>y\<bar> * \<bar>w\<bar>)" by (simp add: algebra_simps)
  also have "\<dots> \<le> (j * ulp + k * ulp + ulp) * (\<bar>y\<bar> * \<bar>w\<bar>)"
    using small_square [OF assms(3-5)] by (intro mult_right_mono) simp_all
  finally show ?thesis by (simp add: near_def algebra_simps abs_mult)
qed

text \<open>Division, by a positive number known up to a thousand units at most.\<close>

lemma near_recip:
  assumes "near k v w" "0 < w" "0 \<le> k" "k \<le> 1000"
  shows "near (k + 1) (1 / v) (1 / w)" and "0 < v"
proof -
  have "k * ulp \<le> 1000 * ulp" using assms(4) by (intro mult_right_mono) simp_all
  also have "1000 * ulp \<le> 1 / 2" by (simp add: ulp_def)
  finally have half: "k * ulp \<le> 1 / 2" .
  have e: "\<bar>v - w\<bar> \<le> k * ulp * w" using assms(1,2) by (simp add: near_def)
  then have v: "w - k * ulp * w \<le> v" by linarith
  have "0 < w * (1 - k * ulp)" using half assms(2) by simp
  with v show pos: "0 < v" by (simp add: algebra_simps)
  have "\<bar>1 / v - 1 / w\<bar> = \<bar>v - w\<bar> / (v * w)"
    using pos assms(2) by (simp add: field_simps abs_minus_commute)
  also have "\<dots> \<le> (k * ulp * w) / (v * w)" using e pos assms(2) by (intro divide_right_mono) simp_all
  also have "\<dots> = k * ulp / v" using assms(2) by simp
  also have "\<dots> \<le> (k + 1) * ulp / w"
  proof -
    have "k * ((k + 1) * ulp) \<le> 1000 * (1001 * ulp)" using assms(3,4) by (intro mult_mono) simp_all
    also have "\<dots> \<le> 1" by (simp add: ulp_def)
    finally have "k \<le> (k + 1) * (1 - k * ulp)" by (simp add: algebra_simps)
    then have "k * w \<le> (k + 1) * (1 - k * ulp) * w" using assms(2) by (intro mult_right_mono) simp_all
    also have "\<dots> = (k + 1) * (w - k * ulp * w)" by (simp add: algebra_simps)
    also have "\<dots> \<le> (k + 1) * v" using v assms(3) by (intro mult_left_mono) simp_all
    finally have "k * w \<le> (k + 1) * v" .
    then have "k * w * ulp \<le> (k + 1) * v * ulp" by (intro mult_right_mono) simp_all
    then show ?thesis using pos assms(2) by (simp add: field_simps)
  qed
  finally show "near (k + 1) (1 / v) (1 / w)" using assms(2) by (simp add: near_def)
qed

lemma near_divide:
  assumes "near j x y" "near k v w" "0 < w" "0 \<le> j" "j \<le> 1000" "0 \<le> k" "k \<le> 1000"
  shows "near (j + k + 2) (x / v) (y / w)"
proof -
  have "j * (k + 1) \<le> 1000 * 1001" using assms by (intro mult_mono) simp_all
  then have "near (j + (k + 1) + 1) (x * (1 / v)) (y * (1 / w))"
    using near_mult [OF assms(1) near_recip(1) [OF assms(2,3,6,7)]] assms by simp
  then show ?thesis by (simp add: add.assoc)
qed

lemma near_add:
  assumes "near k x y" "0 \<le> y" "0 \<le> z" "0 \<le> k"
  shows "near k (z + x) (z + y)"
proof -
  have "k * ulp * y \<le> k * ulp * (z + y)" using assms by (intro mult_left_mono) simp_all
  then show ?thesis using assms by (simp add: near_def)
qed

section \<open>Swaps\<close>

lemma near_zero: "near 0 x x"
  by (simp add: near_def)

lemma near_pos: "near k x y \<Longrightarrow> 0 < y \<Longrightarrow> k * ulp < 1 \<Longrightarrow> 0 < x"
proof -
  assume "near k x y" "0 < y" "k * ulp < 1"
  then have "y - k * ulp * y \<le> x" "k * ulp * y < 1 * y"
    by (auto simp: near_def abs_le_iff intro: mult_strict_right_mono)
  then show ?thesis by simp
qed

lemma round_near: "near k x y \<Longrightarrow> 53 \<le> p \<Longrightarrow> 0 \<le> k \<Longrightarrow> k \<le> 2 ^ 53 \<Longrightarrow> near (k + 2) (fround p x) y"
  using near_trans [OF near_fround [of p x], of k y] by (simp add: add.commute)

text \<open>The two ways the code deducts the fee, against the exact deduction.\<close>

lemma net_input_near:
  assumes "0 < bval a" "0 \<le> bval f" "bval f \<le> 1 / 2" "53 \<le> bprec f"
  shows "near 3 (bval (bf_sub new_float a (bf_mul new_float a f))) (bval a * (1 - bval f))"
    and "near 4 (bval (bf_mul new_float a (bf_sub new_float (NewFloat 1) f))) (bval a * (1 - bval f))"
proof -
  define fee where "fee = bval (bf_mul new_float a f)"
  have "near 1 fee (bval a * bval f)"
    using assms(4) near_fround [of "max (bprec a) (bprec f)"] by (simp add: fee_def bf_mul_def res_prec_def)
  then have "\<bar>fee - bval a * bval f\<bar> \<le> ulp * (bval a * bval f)" using assms(1,2) by (simp add: near_def)
  also have "\<dots> \<le> ulp * (bval a * (1 - bval f))" using assms(1,3) by (intro mult_left_mono) simp_all
  finally have "near 1 (bval a - fee) (bval a * (1 - bval f))"
    using assms(1,3) by (simp add: near_def algebra_simps abs_minus_commute)
  from round_near [OF this, of "max (bprec a) (max (bprec a) (bprec f))"] assms(4)
  show "near 3 (bval (bf_sub new_float a (bf_mul new_float a f))) (bval a * (1 - bval f))"
    by (simp add: bf_sub_def res_prec_def fee_def bf_mul_def)
  let ?q = "max 53 (bprec f)"
  have q: "bf_sub new_float (NewFloat 1) f = BF ?q (fround ?q (1 - bval f))"
    by (simp add: bf_sub_def res_prec_def NewFloat_def)
  have "near (0 + 1 + 1) (bval a * fround ?q (1 - bval f)) (bval a * (1 - bval f))"
    by (rule near_mult [OF near_zero near_fround]) simp_all
  from round_near [OF this, of "max (bprec a) ?q"]
  show "near 4 (bval (bf_mul new_float a (bf_sub new_float (NewFloat 1) f))) (bval a * (1 - bval f))"
    by (simp add: q bf_mul_def res_prec_def)
qed

text \<open>The constant-product output for a net input.\<close>

definition ideal_out :: "rat \<Rightarrow> rat \<Rightarrow> rat \<Rightarrow> rat" where
  "ideal_out rin rout w = rout * w / (rin + w)"

lemma ideal_product:
  "0 < rin \<Longrightarrow> 0 \<le> w \<Longrightarrow> (rin + w) * (rout - ideal_out rin rout w) = rin * rout"
  by (simp add: ideal_out_def field_simps)

lemma ideal_rest: "0 < rin \<Longrightarrow> 0 \<le> w \<Longrightarrow> ideal_out rin rout w = (rout - ideal_out rin rout w) * (w / rin)"
  by (simp add: ideal_out_def field_simps)

lemma quote_near:
  assumes "quote_amounts rin rout f a = Inr (out, fee, w)"
    and "0 < bval rin" "0 < bval rout" "0 < bval a" "0 \<le> bval f" "bval f \<le> 1 / 2"
    and "53 \<le> bprec rin" "53 \<le> bprec rout" "53 \<le> bprec f"
  shows "near 15 (bval out) (ideal_out (bval rin) (bval rout) (bval a * (1 - bval f)))"
proof -
  define W where "W = bval a * (1 - bval f)"
  have W: "0 < W" using assms(4,6) by (simp add: W_def)
  have w: "w = bf_sub new_float a (bf_mul new_float a f)" "near 3 (bval w) W"
    using assms(1) net_input_near(1) [OF assms(4,5,6,9)] by (auto simp: quote_amounts_def lift_quo_def W_def Let_def split: option.splits)
  let ?pn = "max (bprec rout) (bprec w)" and ?pd = "max (bprec rin) (bprec w)"
  have out: "bval out = fround (max ?pn ?pd) (fround ?pn (bval rout * bval w) / fround ?pd (bval rin + bval w))"
    using assms(1) w(1) by (auto simp: quote_amounts_def lift_quo_def Let_def bf_quo_def bf_mul_def bf_add_def res_prec_def split: if_splits)
  have "near (0 + 3 + 1) (bval rout * bval w) (bval rout * W)" using w(2) by (intro near_mult) (simp_all add: near_zero)
  then have n: "near 6 (fround ?pn (bval rout * bval w)) (bval rout * W)" using assms(8) round_near by fastforce
  have "near 3 (bval rin + bval w) (bval rin + W)" using w(2) W assms(2) by (intro near_add) simp_all
  then have d: "near 5 (fround ?pd (bval rin + bval w)) (bval rin + W)" using assms(7) round_near by fastforce
  have "near (6 + 5 + 2) (fround ?pn (bval rout * bval w) / fround ?pd (bval rin + bval w)) (bval rout * W / (bval rin + W))"
    using n d W assms(2) by (intro near_divide) simp_all
  then show ?thesis using assms(7) round_near [of 13 _ _ "max ?pn ?pd"] unfolding out ideal_out_def W_def [symmetric] by simp
qed

text \<open>The reserves after a swap, in units that grow with the size of the swap relative to the pool.\<close>

lemma swap_near:
  assumes "quote_amounts rin rout f a = Inr (out, fee, w)"
    and "0 < bval rin" "0 < bval rout" "0 < bval a" "0 \<le> bval f" "bval f \<le> 1 / 2"
    and "53 \<le> bprec rin" "53 \<le> bprec rout" "53 \<le> bprec f"
  defines "W \<equiv> bval a * (1 - bval f)"
  defines "rin' \<equiv> bf_add rin rin (bf_mul new_float a (bf_sub new_float (NewFloat 1) f))" and "rout' \<equiv> bf_sub rout rout out"
  assumes "W \<le> 2 ^ 40 * bval rin"
  shows "near (9 + 15 * (W / bval rin)) (bval rin' * bval rout') (bval rin * bval rout)" and "0 < bval rin'" and "0 < bval rout'"
proof -
  let ?ri = "bval rin" and ?ro = "bval rout"
  let ?rho = "W / ?ri" and ?e = "ideal_out ?ri ?ro W"
  have W: "0 < W" using assms(4,6) by (simp add: W_def)
  have rho: "0 \<le> ?rho" "?rho \<le> 2 ^ 40" using W assms(2) assms(13) by (simp_all add: field_simps)
  have rest: "0 < ?ro - ?e"
  proof -
    have "0 < (?ri + W) * (?ro - ?e)" using ideal_product [of ?ri W ?ro] W assms(2,3) by simp
    then show ?thesis using W assms(2) by (simp add: zero_less_mult_iff)
  qed
  have "near 4 (?ri + bval (bf_mul new_float a (bf_sub new_float (NewFloat 1) f))) (?ri + W)"
    using net_input_near(2) [OF assms(4,5,6,9)] W assms(2) by (intro near_add) (simp_all add: W_def)
  then have i: "near 6 (bval rin') (?ri + W)"
    using assms(7) round_near [of 4 _ _ "bprec rin"] by (simp add: rin'_def bf_add_def res_prec_def)
  have "near 15 (bval out) ?e" using quote_near [OF assms(1-9)] by (simp add: W_def)
  then have "\<bar>bval out - ?e\<bar> \<le> 15 * ulp * ?e" using ideal_rest [of ?ri W ?ro] W rest rho assms(2,3)
    by (simp add: near_def ideal_out_def)
  also have "\<dots> = 15 * ?rho * ulp * (?ro - ?e)"
    by (subst ideal_rest [of ?ri W ?ro]) (use W assms(2) in \<open>simp_all add: mult_ac\<close>)
  finally have "near (15 * ?rho) (?ro - bval out) (?ro - ?e)" using rest by (simp add: near_def abs_minus_commute)
  then have o: "near (15 * ?rho + 2) (bval rout') (?ro - ?e)"
    using assms(8) rho round_near [of "15 * ?rho" _ _ "bprec rout"] by (simp add: rout'_def bf_sub_def res_prec_def)
  have "6 * (15 * ?rho + 2) \<le> 2 ^ 53" using rho by simp
  then have "near (6 + (15 * ?rho + 2) + 1) (bval rin' * bval rout') ((?ri + W) * (?ro - ?e))"
    using near_mult [OF i o] rho by simp
  then show "near (9 + 15 * ?rho) (bval rin' * bval rout') (?ri * ?ro)"
    using ideal_product [of ?ri W ?ro] W assms(2) by (simp add: algebra_simps)
  show "0 < bval rin'" using near_pos [OF i] W assms(2) by (simp add: ulp_def)
  have "(15 * ?rho + 2) * ulp \<le> (15 * 2 ^ 40 + 2) * ulp" using rho by (intro mult_right_mono) simp_all
  also have "\<dots> < 1" by (simp add: ulp_def)
  finally show "0 < bval rout'" using near_pos [OF o rest] by simp
qed

end
