(* ===== verification/Amm_Sqrt.thy ===== *)
theory Amm_Sqrt
  imports Amm_Precision
begin

text \<open>
  The square root that mints the first shares of a pool: the loop never divides by zero, and it returns the root of its argument up to a few units
  in the last place. The argument follows the square of the iterate relative to \<open>x\<close>: an exact step maps the
  deviation \<open>e\<close> to \<open>e\<^sup>2 / (4 (1 + e))\<close>, and rounding adds a few units.
\<close>

section \<open>One step\<close>

definition dev :: "rat \<Rightarrow> rat \<Rightarrow> rat" where
  "dev x z = z * z / x - 1"

definition damped :: "rat \<Rightarrow> rat" where
  "damped e = e * e / (4 * (1 + e))"

lemma fround_half: "fround 53 (1 / 2) = 1 / 2"
proof (rule fround_exact [where g = "- 1"])
  show "on_grid (- 1) (1 / 2)" unfolding on_grid_def by (rule exI [of _ 1]) (simp add: power_int_minus)
  show "\<bar>1 / 2 :: rat\<bar> < 2 powi (- 1 + int 53)" by (simp add: power_int_def)
qed simp

lemma newton_step_near:
  assumes "0 < bval x" "0 < bval z" "53 \<le> bprec z"
  obtains t where "newton_step x z = Some t" "0 < bval t" "53 \<le> bprec t"
    "\<bar>dev (bval x) (bval t) - damped (dev (bval x) (bval z))\<bar> \<le> 11 * ulp * (1 + damped (dev (bval x) (bval z)))"
proof -
  let ?x = "bval x" and ?z = "bval z" and ?P = "max (bprec x) (bprec z)"
  define q where "q = fround ?P (?x / ?z)"
  define t1 where "t1 = fround ?P (q + ?z)"
  define t where "t = BF ?P (fround ?P (t1 * (1 / 2)))"
  have P: "53 \<le> ?P" using assms(3) by simp
  have st: "newton_step x z = Some t"
    using assms(2,3) by (simp add: newton_step_def bf_quo_def bf_add_def bf_mul_def res_prec_def q_def t1_def t_def NewFloat_def fround_half Let_def)
  let ?N = "(?z + ?x / ?z) / 2"
  have pos: "0 < ?x / ?z" "0 < ?N" using assms(1,2) by (simp_all add: add_pos_pos)
  have "near 1 (?z + q) (?z + ?x / ?z)"
    unfolding q_def using P pos assms(2) by (intro near_add near_fround) simp_all
  then have "near 3 t1 (?z + ?x / ?z)" using round_near [OF _ P, of 1] by (simp add: t1_def add.commute)
  then have "near 3 (t1 * (1 / 2)) ?N" by (simp add: near_def abs_divide diff_divide_distrib [symmetric])
  then have t: "near 5 (bval t) ?N" using round_near [OF _ P, of 3] by (simp add: t_def)
  then have "near (5 + 5 + 1) (bval t * bval t) (?N * ?N)" by (intro near_mult) simp_all
  then have "\<bar>bval t * bval t - ?N * ?N\<bar> \<le> 11 * ulp * (?N * ?N)" by (simp add: near_def)
  then have "\<bar>bval t * bval t - ?N * ?N\<bar> / ?x \<le> 11 * ulp * (?N * ?N) / ?x"
    using assms(1) by (intro divide_right_mono) simp_all
  moreover have "\<bar>a - b\<bar> / ?x = \<bar>a / ?x - b / ?x\<bar>" for a b
    using assms(1) by (simp add: diff_divide_distrib [symmetric])
  ultimately have "\<bar>bval t * bval t / ?x - ?N * ?N / ?x\<bar> \<le> 11 * ulp * (?N * ?N / ?x)"
    by (metis times_divide_eq_right)
  moreover have "?N * ?N / ?x = 1 + damped (dev ?x ?z)"
    using assms(1,2) by (simp add: damped_def dev_def field_simps)
  ultimately have "\<bar>bval t * bval t / ?x - (1 + damped (dev ?x ?z))\<bar> \<le> 11 * ulp * (1 + damped (dev ?x ?z))"
    by metis
  moreover have "dev ?x (bval t) - d = bval t * bval t / ?x - (1 + d)" for d by (simp add: dev_def)
  ultimately have "\<bar>dev ?x (bval t) - damped (dev ?x ?z)\<bar> \<le> 11 * ulp * (1 + damped (dev ?x ?z))" by metis
  moreover have "0 < bval t" using near_pos [OF t pos(2)] by (simp add: ulp_def)
  ultimately show ?thesis using that [OF st] P by (simp add: t_def)
qed

lemma damped_bounds:
  assumes "- 1 / 2 \<le> e"
  shows "0 \<le> damped e" and "damped e \<le> e * e / 2" and "0 \<le> e \<Longrightarrow> damped e \<le> e / 4"
proof -
  show "0 \<le> damped e" using assms by (simp add: damped_def)
  have "e * e * (2 * 1) \<le> e * e * (4 * (1 + e))" using assms by (intro mult_left_mono) simp_all
  then show "damped e \<le> e * e / 2" using assms by (simp add: damped_def field_simps)
  show "damped e \<le> e / 4" if "0 \<le> e" using that by (simp add: damped_def field_simps)
qed

section \<open>The deviation after each step\<close>

definition bound :: "nat \<Rightarrow> rat" where
  "bound k = (if k = 0 then 3 else if k = 1 then 3 / 5 else if k = 2 then 1 / 5 else if k = 3 then 1 / 40 else if k = 4 then 1 / 3000
     else if k = 5 then 1 / 10 ^ 7 else if k = 6 then 1 / 10 ^ 14 else 23 * ulp)"

text \<open>The deviation of the \<open>k\<close>-th iterate.\<close>

definition in_bound :: "nat \<Rightarrow> rat \<Rightarrow> bool" where
  "in_bound k e \<longleftrightarrow> e \<le> bound k \<and> (if k = 0 then - 1 / 2 \<le> e else - 11 * ulp \<le> e)"

lemma within_half: "in_bound k e \<Longrightarrow> - 1 / 2 \<le> e \<and> e \<le> 3"
  by (auto simp: in_bound_def bound_def ulp_def split: if_splits)

lemma damped_within:
  assumes "in_bound k e"
  shows "damped e + 22 * ulp \<le> bound (Suc k)" and "damped e \<le> 1"
proof -
  have sq: "damped e \<le> b * b / 2" if "\<bar>e\<bar> \<le> b" "- 1 / 2 \<le> e" for b
  proof -
    have "\<bar>e\<bar> * \<bar>e\<bar> \<le> b * b" using that(1) by (intro mult_mono) simp_all
    then have "e * e \<le> b * b" by simp
    then show ?thesis using damped_bounds(2) [OF that(2)] by simp
  qed
  note h = within_half [OF assms]
  show "damped e + 22 * ulp \<le> bound (Suc k)"
  proof (cases "k = 0")
    case True
    have "damped e \<le> 9 / 16"
    proof (cases "0 \<le> e")
      case True
      have "(e - 3) * (16 * e + 12) \<le> 0" using h True by (intro mult_nonpos_nonneg) simp_all
      then have "e * e * 16 \<le> 9 * (4 * (1 + e))" by (simp add: algebra_simps)
      then show ?thesis using True by (simp add: damped_def field_simps)
    next
      case False
      then show ?thesis using sq [of "1 / 2"] h by simp
    qed
    then show ?thesis using True by (simp add: bound_def ulp_def)
  next
    case False
    then have "\<bar>e\<bar> \<le> bound k" using assms by (auto simp: in_bound_def bound_def ulp_def abs_le_iff split: if_splits)
    from sq [OF this] h have "damped e \<le> bound k * bound k / 2" by simp
    also have "\<dots> + 22 * ulp \<le> bound (Suc k)" using False by (auto simp: bound_def ulp_def)
    finally show ?thesis by simp
  qed
  then show "damped e \<le> 1" by (auto simp: bound_def ulp_def split: if_splits)
qed

lemma newton_step_within:
  assumes "0 < bval x" "0 < bval z" "53 \<le> bprec z" "in_bound k (dev (bval x) (bval z))"
  obtains t where "newton_step x z = Some t" "0 < bval t" "53 \<le> bprec t" "in_bound (Suc k) (dev (bval x) (bval t))"
    "\<bar>dev (bval x) (bval t) - damped (dev (bval x) (bval z))\<bar> \<le> 22 * ulp"
proof -
  define D where "D = damped (dev (bval x) (bval z))"
  obtain t where t: "newton_step x z = Some t" "0 < bval t" "53 \<le> bprec t" "\<bar>dev (bval x) (bval t) - D\<bar> \<le> 11 * ulp * (1 + D)"
    unfolding D_def by (rule newton_step_near [OF assms(1-3)])
  have D: "0 \<le> D" "D \<le> 1" "D + 22 * ulp \<le> bound (Suc k)"
    using damped_bounds(1) within_half [OF assms(4)] damped_within [OF assms(4)] unfolding D_def by blast+
  have "11 * ulp * (1 + D) \<le> 11 * ulp * 2" using D by (intro mult_left_mono) simp_all
  with t(4) have u: "\<bar>dev (bval x) (bval t) - D\<bar> \<le> 22 * ulp" by linarith
  have "11 * ulp * D \<le> 1 * D" using D(1) by (intro mult_right_mono) (simp_all add: ulp_def)
  then have "- 11 * ulp \<le> dev (bval x) (bval t)" using t(4) by (simp add: abs_le_iff algebra_simps)
  moreover have "dev (bval x) (bval t) \<le> bound (Suc k)" using u D(3) by (simp add: abs_le_iff)
  ultimately have "in_bound (Suc k) (dev (bval x) (bval t))" by (simp add: in_bound_def)
  then show ?thesis using that t u by (simp add: D_def)
qed

section \<open>The loop\<close>

lemma damped_quarter: "- 1 / 2 \<le> e \<Longrightarrow> damped e \<le> \<bar>e\<bar> / 4"
proof (cases "0 \<le> e")
  case False
  assume h: "- 1 / 2 \<le> e"
  then have "- e * - e \<le> - e * (1 / 2)" using False by (intro mult_left_mono) simp_all
  then show ?thesis using damped_bounds(2) [OF h] False by simp
qed (use damped_bounds(3) in simp)

text \<open>The two early exits: a step that changes nothing, and two iterates that alternate.\<close>

lemma fixed_point_close: "- 1 / 2 \<le> e \<Longrightarrow> \<bar>e - damped e\<bar> \<le> 22 * ulp \<Longrightarrow> \<bar>e\<bar> \<le> 31 * ulp"
  using damped_quarter [of e] damped_bounds(1) [of e] by (simp add: abs_le_iff) linarith

lemma two_cycle_close:
  assumes "- 1 / 2 \<le> a" "- 1 / 2 \<le> c" "\<bar>c - damped a\<bar> \<le> 22 * ulp" "\<bar>a - damped c\<bar> \<le> 22 * ulp"
  shows "\<bar>a\<bar> \<le> 31 * ulp \<and> \<bar>c\<bar> \<le> 31 * ulp"
proof -
  have "\<bar>c\<bar> \<le> \<bar>a\<bar> / 4 + 22 * ulp" "\<bar>a\<bar> \<le> \<bar>c\<bar> / 4 + 22 * ulp"
    using damped_quarter [OF assms(1)] damped_quarter [OF assms(2)] damped_bounds(1) [OF assms(1)] damped_bounds(1) [OF assms(2)]
      assms(3,4) by linarith+
  then show ?thesis using ulp_pos by linarith
qed

definition close_root :: "bf \<Rightarrow> bf \<Rightarrow> bool" where
  "close_root x w \<longleftrightarrow> 0 < bval w \<and> \<bar>dev (bval x) (bval w)\<bar> \<le> 31 * ulp"

lemma newton_close:
  assumes "0 < bval x" "0 < bval z" "53 \<le> bprec z" "in_bound k (dev (bval x) (bval z))" "7 \<le> n + k"
    and "bval prev = 0 \<or> 0 < bval prev \<and> in_bound j (dev (bval x) (bval prev)) \<and>
      \<bar>dev (bval x) (bval z) - damped (dev (bval x) (bval prev))\<bar> \<le> 22 * ulp"
  shows "\<exists>w. newton n x z prev = Some w \<and> close_root x w"
  using assms(2-)
proof (induction n arbitrary: z prev k j)
  case 0
  then have "\<bar>dev (bval x) (bval z)\<bar> \<le> 23 * ulp" by (auto simp: in_bound_def bound_def abs_le_iff ulp_def split: if_splits)
  then have "\<bar>dev (bval x) (bval z)\<bar> \<le> 31 * ulp" using ulp_pos by linarith
  then show ?case using 0 by (simp add: close_root_def)
next
  case (Suc n)
  obtain t where t: "newton_step x z = Some t" "0 < bval t" "53 \<le> bprec t" "in_bound (Suc k) (dev (bval x) (bval t))"
      "\<bar>dev (bval x) (bval t) - damped (dev (bval x) (bval z))\<bar> \<le> 22 * ulp"
    by (rule newton_step_within [OF assms(1) Suc.prems(1-3)])
  note hz = within_half [OF Suc.prems(3)]
  consider "bval t = bval z" | "bval t \<noteq> bval z" "0 < bval prev" "bval t = bval prev"
    | "bval t \<noteq> bval z" "\<not> (0 < bval prev \<and> bval t = bval prev)" by blast
  then show ?case
  proof cases
    case 1
    then have "close_root x z" using fixed_point_close t(5) hz Suc.prems(1) by (simp add: close_root_def)
    then show ?thesis using t(1) 1 by simp
  next
    case 2
    then have p: "in_bound j (dev (bval x) (bval prev))"
      "\<bar>dev (bval x) (bval z) - damped (dev (bval x) (bval prev))\<bar> \<le> 22 * ulp" using Suc.prems(5) by auto
    have "\<bar>dev (bval x) (bval prev)\<bar> \<le> 31 * ulp \<and> \<bar>dev (bval x) (bval z)\<bar> \<le> 31 * ulp"
      using two_cycle_close [OF conjunct1 [OF within_half [OF p(1)]] conjunct1 [OF hz] p(2) t(5) [unfolded 2(3)]] .
    then have "close_root x z" "close_root x t" using t(2) Suc.prems(1) 2(3) by (simp_all add: close_root_def)
    then show ?thesis using t(1) 2 by simp
  next
    case 3
    have "\<exists>w. newton n x t z = Some w \<and> close_root x w"
      using Suc.IH [of t "Suc k" z k] t Suc.prems by simp
    then show ?thesis using t(1) 3 by auto
  qed
qed

lemma two_to_start:
  assumes "0 < v"
  defines "e \<equiv> bexp v"
  defines "h \<equiv> (if 0 \<le> e then e div 2 else - (- e div 2))"
  shows "in_bound 0 (dev v (2 powi h))"
proof -
  obtain r where r: "e = 2 * h + r" "r \<in> {- 1, 0, 1}"
  proof -
    have "e - 2 * h \<in> {- 1, 0, 1}" unfolding h_def by (cases "0 \<le> e") (simp_all, presburger+)
    then show ?thesis using that [of "e - 2 * h"] by simp
  qed
  have sq: "(2::rat) powi h * 2 powi h = 2 powi (2 * h)" by (simp add: power_int_add [symmetric])
  have b: "2 powi (2 * h + r - 1) \<le> v" "v < 2 powi (2 * h + r)"
    using bexp_bounds [of v] assms(1) r by (simp_all add: e_def)
  have s: "(2::rat) powi (2 * h + r) = 2 powi (2 * h) * 2 powi r" "(2::rat) powi (2 * h + r - 1) = 2 powi (2 * h) * 2 powi (r - 1)"
    by (simp_all add: power_int_add [symmetric] add_diff_eq)
  have "(2::rat) powi r \<le> 2" "1 / 4 \<le> (2::rat) powi (r - 1)" using r(2) by (auto simp: power_int_minus)
  then have "2 powi (2 * h) * (2::rat) powi r \<le> 2 powi (2 * h) * 2" "2 powi (2 * h) * (1 / 4) \<le> 2 powi (2 * h) * (2::rat) powi (r - 1)"
    by (intro mult_left_mono; simp)+
  then have "2 powi (2 * h) * (1 / 4) \<le> v" "v \<le> 2 powi (2 * h) * 2" using b unfolding s by linarith+
  then have "2 powi (2 * h) / v \<le> 4" "1 / 2 \<le> 2 powi (2 * h) / v" using assms(1) by (simp_all add: field_simps)
  then have "dev v (2 powi h) \<le> 3" "- 1 / 2 \<le> dev v (2 powi h)" unfolding dev_def sq by linarith+
  then show ?thesis by (simp add: in_bound_def bound_def)
qed

text \<open>
  C35: The square root is the square root. For every positive argument the Newton iteration of \<open>sqrtBigFloat\<close>, within its hundred rounds and whatever
  exit it takes, returns a positive float whose square is the argument up to 31 units of the last place of a 53-bit float;
  it never divides by zero.
\<close>

theorem sqrt_accurate:
  assumes "0 < bval x"
  shows "\<exists>z. sqrtBigFloat x = Some z \<and> 0 < bval z \<and> \<bar>bval z * bval z - bval x\<bar> \<le> 31 / 2 ^ 53 * bval x"
proof -
  let ?e = "bexp (bval x)"
  let ?z = "two_to (if 0 \<le> ?e then ?e div 2 else - (- ?e div 2))"
  have z: "0 < bval ?z" "53 \<le> bprec ?z" by (simp_all add: two_to_def)
  have "in_bound 0 (dev (bval x) (bval ?z))" using two_to_start [OF assms] by (simp add: two_to_def)
  from newton_close [OF assms z this, of 100 new_float] obtain w where w: "newton 100 x ?z new_float = Some w" "close_root x w"
    by auto
  have "\<bar>bval w * bval w - bval x\<bar> / bval x = \<bar>dev (bval x) (bval w)\<bar>"
  proof -
    have "(bval w * bval w - bval x) / bval x = dev (bval x) (bval w)" using assms by (simp add: dev_def diff_divide_distrib)
    then show ?thesis using assms by (metis abs_divide abs_of_pos)
  qed
  also have "\<dots> \<le> 31 / 2 ^ 53" using w(2) by (simp add: close_root_def ulp_def)
  finally have "\<bar>bval w * bval w - bval x\<bar> \<le> 31 / 2 ^ 53 * bval x" using assms by (simp add: pos_divide_le_eq)
  moreover have "sqrtBigFloat x = Some w" using w(1) assms by (simp add: sqrtBigFloat_def Let_def)
  ultimately show ?thesis using w(2) by (auto simp: close_root_def)
qed

theorem sqrt_accurate_witness:
  "\<exists>z. sqrtBigFloat (BF 53 2) = Some z \<and> 0 < bval z \<and> \<bar>bval z * bval z - 2\<bar> \<le> 31 / 2 ^ 53 * 2"
  using sqrt_accurate [of "BF 53 2"] by simp

end
