(* ===== verification/Amm_Store.thy ===== *)
theory Amm_Store
  imports Amm_Math Wallet_Store
begin

text \<open>
  \<open>internal/store/pg_amm.go\<close>: the three tables of the AMM, keyed as their unique constraints say. As in the wallet store a statement
  is atomic and may fail for a reason outside the program. Pools are read at 53 bits, because the receivers of \<open>Parse\<close> come from
  \<open>NewPool\<close>; positions and swaps at 64. \<open>ad_feecols\<close>: migration 008 has been applied. The fee rate has nine
  decimals, rounded half away from zero by PostgreSQL.
\<close>

record pool_row =
  pr_Pair :: string
  pr_Token0 :: string
  pr_Token1 :: string
  pr_Reserve0 :: rat
  pr_Reserve1 :: rat
  pr_LPShares :: rat
  pr_FeeRate :: rat
  pr_Status :: string
  pr_CreatedAt :: int
  pr_UpdatedAt :: int
  pr_Fees0 :: rat
  pr_Fees1 :: rat

record position_row =
  ps_ID :: string
  ps_Shares :: rat
  ps_CreatedAt :: int
  ps_UpdatedAt :: int

record amm_db =
  ad_pools :: "(string, pool_row) gomap"
  ad_positions :: "(string \<times> string, position_row) gomap"
  ad_swaps :: "(string, amm_swap) gomap"
  ad_faults :: "bool list"
  ad_feecols :: bool
  ad_now :: int

type_synonym 'a adb = "(amm_db, amm_err, 'a) act"

text \<open>A statement that fails, violates a constraint (\<open>None\<close>), or yields a value.\<close>

definition astmt :: "(amm_db \<Rightarrow> 'a option \<times> amm_db) \<Rightarrow> 'a adb" where
  "astmt f s =
     (case ad_faults s of
        True # fs \<Rightarrow> (Inl StoreError, s\<lparr>ad_faults := fs\<rparr>)
      | _ \<Rightarrow> (let s1 = s\<lparr>ad_faults := tl (ad_faults s)\<rparr>
              in case f s1 of (Some x, s2) \<Rightarrow> (Inr x, s2) | (None, s2) \<Rightarrow> (Inl StoreError, s1)))"

definition rate_col :: "rat \<Rightarrow> rat" where
  "rate_col v = (if v < 0 then - of_int \<lfloor>- v * 10 ^ 9 + 1 / 2\<rfloor> else of_int \<lfloor>v * 10 ^ 9 + 1 / 2\<rfloor>) / 10 ^ 9"

definition row_of :: "pool \<Rightarrow> bool \<Rightarrow> pool_row" where
  "row_of p fees =
     \<lparr>pr_Pair = pl_Pair p, pr_Token0 = pl_Token0 p, pr_Token1 = pl_Token1 p, pr_Reserve0 = numeric (pl_Reserve0 p),
      pr_Reserve1 = numeric (pl_Reserve1 p), pr_LPShares = numeric (pl_LPShares p), pr_FeeRate = rate_col (numeric (pl_FeeRate p)),
      pr_Status = pl_Status p, pr_CreatedAt = pl_CreatedAt p, pr_UpdatedAt = pl_UpdatedAt p,
      pr_Fees0 = (if fees then numeric (pl_ProtocolFees0 p) else 0), pr_Fees1 = (if fees then numeric (pl_ProtocolFees1 p) else 0)\<rparr>"

definition amm_SavePool :: "pool \<Rightarrow> unit adb" where
  "amm_SavePool p =
     astmt (\<lambda>s. let new = row_of p (ad_feecols s) in
       case gm_get (ad_pools s) (pl_ID p) of
         None \<Rightarrow>
           if list_ex (\<lambda>(i, r). pr_Pair r = pl_Pair p) (ad_pools s) then (None, s)
           else (Some (), s\<lparr>ad_pools := gm_put (pl_ID p) new (ad_pools s)\<rparr>)
       | Some old \<Rightarrow>
           if list_ex (\<lambda>(i, r). i \<noteq> pl_ID p \<and> pr_Pair r = pl_Pair p) (ad_pools s) then (None, s)
           else (Some (), s\<lparr>ad_pools := gm_put (pl_ID p)
             (new\<lparr>pr_Token0 := pr_Token0 old, pr_Token1 := pr_Token1 old, pr_CreatedAt := pr_CreatedAt old,
                  pr_Fees0 := (if ad_feecols s then pr_Fees0 new else pr_Fees0 old),
                  pr_Fees1 := (if ad_feecols s then pr_Fees1 new else pr_Fees1 old)\<rparr>) (ad_pools s)\<rparr>))"

definition read53 :: "rat \<Rightarrow> bf" where
  "read53 v = BF 53 (fround 53 v)"

definition scanPool :: "bool \<Rightarrow> string \<Rightarrow> pool_row \<Rightarrow> pool" where
  "scanPool fees i r =
     \<lparr>pl_ID = i, pl_Pair = pr_Pair r, pl_Token0 = pr_Token0 r, pl_Token1 = pr_Token1 r,
      pl_Reserve0 = read53 (pr_Reserve0 r), pl_Reserve1 = read53 (pr_Reserve1 r), pl_LPShares = read53 (pr_LPShares r),
      pl_FeeRate = read53 (pr_FeeRate r), pl_ProtocolFees0 = (if fees then read53 (pr_Fees0 r) else NewFloat 0),
      pl_ProtocolFees1 = (if fees then read53 (pr_Fees1 r) else NewFloat 0),
      pl_Status = pr_Status r, pl_CreatedAt = pr_CreatedAt r, pl_UpdatedAt = pr_UpdatedAt r\<rparr>"

definition amm_GetPool :: "string \<Rightarrow> pool adb" where
  "amm_GetPool i = astmt (\<lambda>s. (map_option (scanPool (ad_feecols s) i) (gm_get (ad_pools s) i), s))"

definition amm_GetPoolByPair :: "string \<Rightarrow> pool option adb" where
  "amm_GetPoolByPair pair =
     astmt (\<lambda>s. (Some (map_option (\<lambda>(i, r). scanPool (ad_feecols s) i r) (find (\<lambda>(i, r). pr_Pair r = pair) (ad_pools s))), s))"

definition amm_ListPools :: "pool list adb" where
  "amm_ListPools =
     astmt (\<lambda>s. (Some (map (\<lambda>(i, r). scanPool (ad_feecols s) i r) (sort_key (\<lambda>(i, r). - pr_CreatedAt r) (ad_pools s))), s))"

text \<open>An update of a row that does not exist is no error.\<close>

definition update_pool :: "string \<Rightarrow> (pool_row \<Rightarrow> pool_row) \<Rightarrow> amm_db \<Rightarrow> unit option \<times> amm_db" where
  "update_pool i f s =
     (Some (), case gm_get (ad_pools s) i of
        None \<Rightarrow> s
      | Some r \<Rightarrow> s\<lparr>ad_pools := gm_put i ((f r)\<lparr>pr_UpdatedAt := ad_now s\<rparr>) (ad_pools s)\<rparr>)"

definition amm_UpdatePoolReserves :: "string \<Rightarrow> bf \<Rightarrow> bf \<Rightarrow> bf \<Rightarrow> unit adb" where
  "amm_UpdatePoolReserves i r0 r1 lp =
     astmt (update_pool i (\<lambda>r. r\<lparr>pr_Reserve0 := numeric r0, pr_Reserve1 := numeric r1, pr_LPShares := numeric lp\<rparr>))"

definition amm_UpdatePoolProtocolFees :: "string \<Rightarrow> bf \<Rightarrow> bf \<Rightarrow> unit adb" where
  "amm_UpdatePoolProtocolFees i f0 f1 s =
     (if \<not> ad_feecols s then (Inr (), s)
      else astmt (update_pool i (\<lambda>r. r\<lparr>pr_Fees0 := numeric f0, pr_Fees1 := numeric f1\<rparr>)) s)"

definition amm_SavePosition :: "lp_position \<Rightarrow> unit adb" where
  "amm_SavePosition p =
     astmt (\<lambda>s. let k = (lp_UserID p, lp_PoolID p) in
       if gm_get (ad_pools s) (lp_PoolID p) = None then (None, s)
       else (Some (), s\<lparr>ad_positions := gm_put k
         (case gm_get (ad_positions s) k of
            None \<Rightarrow> \<lparr>ps_ID = lp_ID p, ps_Shares = numeric (lp_Shares p), ps_CreatedAt = lp_CreatedAt p, ps_UpdatedAt = lp_UpdatedAt p\<rparr>
          | Some old \<Rightarrow> old\<lparr>ps_Shares := numeric (lp_Shares p), ps_UpdatedAt := lp_UpdatedAt p\<rparr>) (ad_positions s)\<rparr>))"

definition position_of :: "string \<times> string \<Rightarrow> position_row \<Rightarrow> lp_position" where
  "position_of k r =
     \<lparr>lp_ID = ps_ID r, lp_UserID = fst k, lp_PoolID = snd k, lp_Shares = read_numeric (ps_Shares r),
      lp_CreatedAt = ps_CreatedAt r, lp_UpdatedAt = ps_UpdatedAt r\<rparr>"

definition amm_GetPosition :: "string \<Rightarrow> string \<Rightarrow> lp_position adb" where
  "amm_GetPosition i userID =
     astmt (\<lambda>s. (map_option (\<lambda>(k, r). position_of k r)
       (find (\<lambda>(k, r). ps_ID r = i \<and> fst k = userID) (ad_positions s)), s))"

definition amm_GetPositionByPool :: "string \<Rightarrow> string \<Rightarrow> lp_position option adb" where
  "amm_GetPositionByPool userID poolID =
     astmt (\<lambda>s. (Some (map_option (position_of (userID, poolID)) (gm_get (ad_positions s) (userID, poolID))), s))"

definition amm_ListPositions :: "(string \<times> string \<Rightarrow> bool) \<Rightarrow> lp_position list adb" where
  "amm_ListPositions sel =
     astmt (\<lambda>s. (Some (map (\<lambda>(k, r). position_of k r)
       (sort_key (\<lambda>(k, r). - ps_UpdatedAt r) (filter (\<lambda>(k, r). sel k) (ad_positions s)))), s))"

definition amm_ListPositionsByUser :: "string \<Rightarrow> lp_position list adb" where
  "amm_ListPositionsByUser userID = amm_ListPositions (\<lambda>k. fst k = userID)"

definition amm_ListPositionsByPool :: "string \<Rightarrow> lp_position list adb" where
  "amm_ListPositionsByPool poolID = amm_ListPositions (\<lambda>k. snd k = poolID)"

text \<open>The amounts of a swap as the columns keep them: \<open>textF\<close> writes 0 for a \<open>nil\<close> float.\<close>

definition amount_col :: "bf option \<Rightarrow> bf" where
  "amount_col a = read_numeric (case a of None \<Rightarrow> 0 | Some x \<Rightarrow> numeric x)"

definition amm_SaveSwap :: "amm_swap \<Rightarrow> unit adb" where
  "amm_SaveSwap sw =
     astmt (\<lambda>s.
       if gm_get (ad_pools s) (sw_PoolID sw) = None \<or> gm_get (ad_swaps s) (sw_ID sw) \<noteq> None then (None, s)
       else (Some (), s\<lparr>ad_swaps := gm_put (sw_ID sw)
         (sw\<lparr>sw_AmountIn := Some (amount_col (sw_AmountIn sw)), sw_AmountOut := Some (amount_col (sw_AmountOut sw)),
             sw_Fee := Some (amount_col (sw_Fee sw))\<rparr>) (ad_swaps s)\<rparr>))"

definition amm_ListSwaps :: "string \<Rightarrow> nat \<Rightarrow> nat \<Rightarrow> amm_swap list adb" where
  "amm_ListSwaps poolID limit offset =
     astmt (\<lambda>s. (Some (take limit (drop offset
       (sort_key (\<lambda>w. - sw_CreatedAt w) (filter (\<lambda>w. sw_PoolID w = poolID) (map snd (ad_swaps s)))))), s))"

section \<open>Statements\<close>

lemma astmt_cases:
  assumes "astmt f s = (r, s')"
  obtains fs where "r = Inl StoreError" "s' = s\<lparr>ad_faults := fs\<rparr>"
  | fs x where "r = Inr x" "f (s\<lparr>ad_faults := fs\<rparr>) = (Some x, s')"
  using assms by (auto simp: astmt_def Let_def split: list.splits bool.splits prod.splits option.splits)

text \<open>Without faults to come.\<close>

lemma astmt_ok: "ad_faults s = [] \<Longrightarrow> f s = (Some x, s') \<Longrightarrow> astmt f s = (Inr x, s')"
proof -
  assume a: "ad_faults s = []" "f s = (Some x, s')"
  have e: "s\<lparr>ad_faults := []\<rparr> = s" using a(1) by (cases s) simp
  show ?thesis by (simp only: astmt_def Let_def a list.case list.sel e option.case prod.case)
qed

end
