(* ===== verification/Amm_Service.thy ===== *)
theory Amm_Service
  imports Amm_Store Wallet_Service
begin

text \<open>
  \<open>internal/amm/service.go\<close>: the AMM service over its store (\<open>None\<close>: the disabled store) and the wallet service (\<open>None\<close>:
  none attached). The mutex makes the four operations that change a pool one step each; \<open>SavePoolReserves\<close> and
  \<open>SaveSwapRecord\<close> take no lock.
\<close>

record amm_svc =
  am_store :: "amm_db option"
  am_wallet :: "wsvc option"
  am_ids :: "nat \<Rightarrow> string"
  am_nid :: nat
  am_now :: int

type_synonym 'a amact = "(amm_svc, amm_err, 'a) act"

text \<open>Every method of \<open>disabledStore\<close> reports the same error.\<close>

definition on_store :: "'a adb \<Rightarrow> 'a amact" where
  "on_store m s =
     (case am_store s of
        None \<Rightarrow> (Inl StoreUnavailable, s)
      | Some d \<Rightarrow> (let (r, d') = m d in (r, s\<lparr>am_store := Some d'\<rparr>)))"

definition amm_uuid :: "string amact" where
  "amm_uuid s = (Inr (am_ids s (am_nid s)), s\<lparr>am_nid := Suc (am_nid s)\<rparr>)"

text \<open>\<open>if s.wallet != nil { if err := s.wallet.Settle(ops, nil); err != nil { return \<dots> } }\<close>\<close>

definition pay :: "settle_op list \<Rightarrow> unit amact" where
  "pay ops s =
     (case am_wallet s of
        None \<Rightarrow> (Inr (), s)
      | Some w \<Rightarrow> (case svc_Settle ops [] w of
            (Inl e, w') \<Rightarrow> (Inl WalletError, s\<lparr>am_wallet := Some w'\<rparr>)
          | (Inr u, w') \<Rightarrow> (Inr (), s\<lparr>am_wallet := Some w'\<rparr>)))"

definition raise_sum :: "amm_err + 'a \<Rightarrow> 'a amact" where
  "raise_sum r = (case r of Inl e \<Rightarrow> throw e | Inr x \<Rightarrow> ret x)"

definition save_reserves :: "pool \<Rightarrow> unit amact" where
  "save_reserves p = on_store (amm_UpdatePoolReserves (pl_ID p) (pl_Reserve0 p) (pl_Reserve1 p) (pl_LPShares p))"

definition CreatePool :: "string \<Rightarrow> string \<Rightarrow> string \<Rightarrow> bf option \<Rightarrow> pool amact" where
  "CreatePool pair token0 token1 feeRate s =
     (case feeRate of
        None \<Rightarrow> (Inl BadFeeRate, s)
      | Some f \<Rightarrow>
          if bf_sign f < 0 \<or> 0 \<le> bf_cmp f (NewFloat 1) then (Inl BadFeeRate, s)
          else abind amm_uuid (\<lambda>u.
                 let p = NewPool (''pool_'' @ u) pair token0 token1 (Some f) (am_now s)
                 in abind (on_store (amm_SavePool p)) (\<lambda>_. ret p)) s)"

section \<open>Liquidity\<close>

text \<open>The position after new shares: an existing one keeps its id and creation time. An error in reading it is ignored.\<close>

definition merged_position :: "string \<Rightarrow> string \<Rightarrow> bf \<Rightarrow> lp_position amact" where
  "merged_position userID poolID shares s =
     (let (existing, s1) = on_store (amm_GetPositionByPool userID poolID) s
      in abind amm_uuid (\<lambda>u.
           let new = \<lparr>lp_ID = ''lp_'' @ u, lp_UserID = userID, lp_PoolID = poolID, lp_Shares = shares,
                      lp_CreatedAt = am_now s1, lp_UpdatedAt = am_now s1\<rparr>
           in ret (case existing of
                Inr (Some old) \<Rightarrow> new\<lparr>lp_ID := lp_ID old, lp_CreatedAt := lp_CreatedAt old,
                                      lp_Shares := bf_add shares shares (lp_Shares old)\<rparr>
              | _ \<Rightarrow> new)) s1)"

definition amm_AddLiquidity :: "string \<Rightarrow> string \<Rightarrow> bf option \<Rightarrow> bf option \<Rightarrow> (pool \<times> lp_position \<times> bf \<times> bf) amact" where
  "amm_AddLiquidity userID poolID amount0 amount1 s =
     (case (amount0, amount1) of
        (Some a0, Some a1) \<Rightarrow>
          if bf_sign a0 \<le> 0 \<or> bf_sign a1 \<le> 0 then (Inl InvalidAmount, s)
          else abind (on_store (amm_GetPool poolID)) (\<lambda>p.
               abind (raise_sum (AddLiquidity p amount0 amount1)) (\<lambda>(final1, shares).
               abind (pay [delta_op userID (pl_Token0 p) (bf_neg new_float a0), delta_op userID (pl_Token1 p) (bf_neg new_float final1)]) (\<lambda>_.
               let p' = p\<lparr>pl_Reserve0 := bf_add (pl_Reserve0 p) (pl_Reserve0 p) a0,
                          pl_Reserve1 := bf_add (pl_Reserve1 p) (pl_Reserve1 p) final1,
                          pl_LPShares := bf_add (pl_LPShares p) (pl_LPShares p) shares, pl_UpdatedAt := am_now s\<rparr>
               in abind (save_reserves p') (\<lambda>_.
                  abind (merged_position userID (pl_ID p) shares) (\<lambda>pos.
                  abind (on_store (amm_SavePosition pos)) (\<lambda>_. ret (p', pos, final1, shares))))))) s
      | _ \<Rightarrow> (Inl InvalidAmount, s))"

definition amm_RemoveLiquidity :: "string \<Rightarrow> string \<Rightarrow> bf option \<Rightarrow> (pool \<times> bf \<times> bf) amact" where
  "amm_RemoveLiquidity userID poolID shares s =
     (case shares of
        None \<Rightarrow> (Inl InvalidAmount, s)
      | Some sh \<Rightarrow>
          if bf_sign sh \<le> 0 then (Inl InvalidAmount, s)
          else abind (on_store (amm_GetPool poolID)) (\<lambda>p.
               abind (raise_sum (RemoveLiquidity p shares)) (\<lambda>(a0, a1).
               abind (on_store (amm_GetPositionByPool userID poolID)) (\<lambda>q.
               case q of
                 None \<Rightarrow> throw InsufficientLiquidity
               | Some pos \<Rightarrow>
                   if bf_cmp (lp_Shares pos) sh < 0 then throw InsufficientLiquidity
                   else abind (pay [delta_op userID (pl_Token0 p) a0, delta_op userID (pl_Token1 p) a1]) (\<lambda>_.
                        let p' = p\<lparr>pl_Reserve0 := bf_sub (pl_Reserve0 p) (pl_Reserve0 p) a0,
                                   pl_Reserve1 := bf_sub (pl_Reserve1 p) (pl_Reserve1 p) a1,
                                   pl_LPShares := bf_sub (pl_LPShares p) (pl_LPShares p) sh, pl_UpdatedAt := am_now s\<rparr>
                        in abind (save_reserves p') (\<lambda>_.
                           abind (on_store (amm_SavePosition (pos\<lparr>lp_Shares := bf_sub (lp_Shares pos) (lp_Shares pos) sh,
                                     lp_UpdatedAt := am_now s\<rparr>))) (\<lambda>_. ret (p', a0, a1))))))) s)"

section \<open>Swaps\<close>

definition amm_Quote :: "string \<Rightarrow> string \<Rightarrow> bf option \<Rightarrow> (bf \<times> bf \<times> bf) amact" where
  "amm_Quote poolID tokenIn amountIn =
     abind (on_store (amm_GetPool poolID)) (\<lambda>p. raise_sum (QuoteSwap p tokenIn amountIn))"

definition below_min :: "bf \<Rightarrow> bf option \<Rightarrow> bool" where
  "below_min amountOut minOut = (case minOut of None \<Rightarrow> False | Some m \<Rightarrow> 0 < bf_sign m \<and> bf_cmp amountOut m < 0)"

text \<open>The fee goes to the accumulator of the input token.\<close>

definition accrue_fee :: "string \<Rightarrow> bf \<Rightarrow> pool \<Rightarrow> unit amact" where
  "accrue_fee tokenIn fee p =
     (if bf_sign fee \<le> 0 then ret ()
      else let p' = (if tokenIn = pl_Token0 p
                     then p\<lparr>pl_ProtocolFees0 := bf_add (pl_ProtocolFees0 p) (pl_ProtocolFees0 p) fee\<rparr>
                     else p\<lparr>pl_ProtocolFees1 := bf_add (pl_ProtocolFees1 p) (pl_ProtocolFees1 p) fee\<rparr>)
           in on_store (amm_UpdatePoolProtocolFees (pl_ID p) (pl_ProtocolFees0 p') (pl_ProtocolFees1 p')))"

definition ExecuteSwapWithMinOut :: "string \<Rightarrow> string \<Rightarrow> string \<Rightarrow> bf option \<Rightarrow> bf option \<Rightarrow> amm_swap amact" where
  "ExecuteSwapWithMinOut userID poolID tokenIn amountIn minOut s =
     (case amountIn of
        None \<Rightarrow> (Inl InvalidAmount, s)
      | Some a \<Rightarrow>
          if bf_sign a \<le> 0 then (Inl InvalidAmount, s)
          else abind (on_store (amm_GetPool poolID)) (\<lambda>p.
               abind (raise_sum (QuoteSwap p tokenIn amountIn)) (\<lambda>(out, fee, net).
               if below_min out minOut then throw SlippageExceeded
               else let tokenOut = (if tokenIn = pl_Token0 p then pl_Token1 p else pl_Token0 p);
                        p' = ApplySwap tokenIn a out (am_now s) p
                    in abind (pay [delta_op userID tokenIn (bf_neg new_float a), delta_op userID tokenOut out]) (\<lambda>_.
                       abind (save_reserves p') (\<lambda>_.
                       abind (accrue_fee tokenIn fee p') (\<lambda>_.
                       abind amm_uuid (\<lambda>u.
                       let sw = \<lparr>sw_ID = ''swap_'' @ u, sw_PoolID = pl_ID p, sw_UserID = userID, sw_TokenIn = tokenIn, sw_TokenOut = tokenOut,
                                 sw_AmountIn = Some a, sw_AmountOut = Some out, sw_Fee = Some fee, sw_CreatedAt = am_now s\<rparr>
                       in abind (on_store (amm_SaveSwap sw)) (\<lambda>_. ret sw))))))) s)"

definition ExecuteSwap :: "string \<Rightarrow> string \<Rightarrow> string \<Rightarrow> bf option \<Rightarrow> amm_swap amact" where
  "ExecuteSwap userID poolID tokenIn amountIn = ExecuteSwapWithMinOut userID poolID tokenIn amountIn None"

section \<open>Reading, fees and seeding\<close>

definition svc_GetPool :: "string \<Rightarrow> pool amact" where
  "svc_GetPool i = on_store (amm_GetPool i)"

definition svc_ListPools :: "pool list amact" where
  "svc_ListPools = on_store amm_ListPools"

definition svc_GetPositionByPool :: "string \<Rightarrow> string \<Rightarrow> lp_position option amact" where
  "svc_GetPositionByPool userID poolID = on_store (amm_GetPositionByPool userID poolID)"

definition svc_ListPositionsByUser :: "string \<Rightarrow> lp_position list amact" where
  "svc_ListPositionsByUser userID = on_store (amm_ListPositionsByUser userID)"

definition svc_ListSwaps :: "string \<Rightarrow> nat \<Rightarrow> nat \<Rightarrow> amm_swap list amact" where
  "svc_ListSwaps poolID limit offset = on_store (amm_ListSwaps poolID limit offset)"

definition svc_GetPoolByPair :: "string \<Rightarrow> pool option amact" where
  "svc_GetPoolByPair pair = on_store (amm_GetPoolByPair pair)"

definition GetProtocolFees :: "string \<Rightarrow> (bf \<times> bf) amact" where
  "GetProtocolFees poolID = abind (on_store (amm_GetPool poolID)) (\<lambda>p. ret (pl_ProtocolFees0 p, pl_ProtocolFees1 p))"

definition CollectProtocolFees :: "string \<Rightarrow> (bf \<times> bf) amact" where
  "CollectProtocolFees poolID =
     abind (on_store (amm_GetPool poolID)) (\<lambda>p.
     abind (on_store (amm_UpdatePoolProtocolFees (pl_ID p) (NewFloat 0) (NewFloat 0))) (\<lambda>_.
     ret (pl_ProtocolFees0 p, pl_ProtocolFees1 p)))"

definition SavePoolReserves :: "pool option \<Rightarrow> unit amact" where
  "SavePoolReserves p = (case p of None \<Rightarrow> throw InvalidAmount | Some q \<Rightarrow> save_reserves q)"

definition SaveSwapRecord :: "amm_swap option \<Rightarrow> unit amact" where
  "SaveSwapRecord sw s =
     (case sw of
        None \<Rightarrow> (Inl InvalidAmount, s)
      | Some w \<Rightarrow>
          abind (if sw_ID w = [] then abind amm_uuid (\<lambda>u. ret (''swap_'' @ u)) else ret (sw_ID w)) (\<lambda>i.
            on_store (amm_SaveSwap (w\<lparr>sw_ID := i, sw_CreatedAt := (if sw_CreatedAt w = 0 then am_now s else sw_CreatedAt w)\<rparr>))) s)"

definition SeedPoolReserves :: "string \<Rightarrow> bf option \<Rightarrow> bf option \<Rightarrow> unit amact" where
  "SeedPoolReserves poolID reserve0 reserve1 s =
     (case (reserve0, reserve1) of
        (Some r0, Some r1) \<Rightarrow>
          if bf_sign r0 \<le> 0 \<or> bf_sign r1 \<le> 0 then (Inl InvalidAmount, s)
          else abind (on_store (amm_GetPool poolID)) (\<lambda>p.
               abind (raise_sum (lift_quo (sqrtBigFloat (bf_mul new_float r0 r1)) Inr)) (\<lambda>lp.
               save_reserves (p\<lparr>pl_Reserve0 := r0, pl_Reserve1 := r1, pl_LPShares := lp, pl_UpdatedAt := am_now s\<rparr>))) s
      | _ \<Rightarrow> (Inl InvalidAmount, s))"

end
