(* ===== verification/Amm_Properties.thy ===== *)
theory Amm_Properties
  imports Amm_Precision Amm_Service Wallet_Properties
begin

text \<open>
  What the automated market maker guarantees and what it does not: the constant product under a swap, the effect of an executed swap on the
  trader's wallet and on the pool, and two ways in which liquidity providers lose money.
\<close>

section \<open>The pool\<close>

definition reserves :: "string \<Rightarrow> pool \<Rightarrow> bf \<times> bf" where
  "reserves tokenIn p = (if tokenIn = pl_Token0 p then (pl_Reserve0 p, pl_Reserve1 p) else (pl_Reserve1 p, pl_Reserve0 p))"

text \<open>A pool as the store hands it out: reserves and fee rate at 53 bits or more, a fee of at most one half.\<close>

definition pool_ok :: "pool \<Rightarrow> bool" where
  "pool_ok p \<longleftrightarrow> 53 \<le> bprec (pl_Reserve0 p) \<and> 53 \<le> bprec (pl_Reserve1 p) \<and> 53 \<le> bprec (pl_FeeRate p) \<and>
     0 \<le> bval (pl_FeeRate p) \<and> bval (pl_FeeRate p) \<le> 1 / 2"

lemma QuoteSwap_amounts:
  assumes "QuoteSwap p tokenIn (Some a) = Inr (out, fee, net)"
  shows "quote_amounts (fst (reserves tokenIn p)) (snd (reserves tokenIn p)) (pl_FeeRate p) a = Inr (out, fee, net)"
    and "0 < bval a" "0 < bval (fst (reserves tokenIn p))" "0 < bval (snd (reserves tokenIn p))"
    and "tokenIn = pl_Token0 p \<or> tokenIn = pl_Token1 p" "pl_Status p = ''active''"
  using assms by (auto simp: QuoteSwap_def reserves_def Let_def not_le split: if_splits prod.splits)

lemma reserves_ApplySwap:
  "reserves tokenIn (ApplySwap tokenIn a out now p) =
    (let f = bf_mul new_float a (bf_sub new_float (NewFloat 1) (pl_FeeRate p)); r = reserves tokenIn p
     in (bf_add (fst r) (fst r) f, bf_sub (snd r) (snd r) out))"
  by (simp add: reserves_def ApplySwap_def Let_def)

text \<open>
  C8: A swap keeps the constant product, in a pool whose fee is between 0 and one half and whose reserves and fee have at least 53 bits, when the input less
  the fee is at most \<open>2 ^ 40\<close> times the reserve that it enters. The quoted output is
  the ideal output for the input less the fee, up to 15 units of the last place of 53 bits, and after the swap the product of the reserves is what it was, up
  to units that grow with the size of the swap relative to the pool: the fee stays outside of the reserves, nothing of it leaks to the trader, and
  neither reserve is emptied. (A fee above one half, which \<open>CreatePool\<close> accepts below one, is not
  covered: the input less the fee then loses leading digits.)
\<close>

theorem swap_keeps_product:
  assumes "QuoteSwap p tokenIn (Some a) = Inr (out, fee, net)" "pool_ok p"
    and "bval a * (1 - bval (pl_FeeRate p)) \<le> 2 ^ 40 * bval (fst (reserves tokenIn p))"
  shows "let (rin, rout) = reserves tokenIn p; (rin', rout') = reserves tokenIn (ApplySwap tokenIn a out now p);
             w = bval a * (1 - bval (pl_FeeRate p))
         in near 15 (bval out) (ideal_out (bval rin) (bval rout) w) \<and>
            near (9 + 15 * (w / bval rin)) (bval rin' * bval rout') (bval rin * bval rout) \<and> 0 < bval rin' \<and> 0 < bval rout'"
proof -
  let ?ri = "fst (reserves tokenIn p)" and ?ro = "snd (reserves tokenIn p)"
  note q = QuoteSwap_amounts [OF assms(1)]
  have ok: "53 \<le> bprec ?ri" "53 \<le> bprec ?ro" "53 \<le> bprec (pl_FeeRate p)" "0 \<le> bval (pl_FeeRate p)" "bval (pl_FeeRate p) \<le> 1 / 2"
    using assms(2) by (simp_all add: pool_ok_def reserves_def)
  note n = quote_near [OF q(1,3,4,2) ok(4,5,1-3)] swap_near [OF q(1,3,4,2) ok(4,5,1-3) assms(3)]
  show ?thesis using n reserves_ApplySwap [of tokenIn a out now p] by (simp add: Let_def case_prod_unfold)
qed

section \<open>Shares\<close>

text \<open>
  The shares a deposit mints ignore its second amount. Once a pool has shares, a depositor who brings much less of the second token than the
  pool's ratio asks for is not refused and not scaled down: he pays the little he offered and receives the
  same shares as if he had paid in full, at the expense of the other providers.
\<close>

theorem shares_ignore_second_token:
  assumes "AddLiquidity p (Some a0) (Some a1) = Inr (final1, shares)" "bval (pl_LPShares p) \<noteq> 0" "0 < bval less1" "bval less1 \<le> bval a1"
  shows "\<exists>paid. AddLiquidity p (Some a0) (Some less1) = Inr (paid, shares) \<and> bval paid \<le> bval less1"
proof -
  have z: "bval (NewFloat 0) = 0" by (simp add: NewFloat_def)
  let ?n = "bf_mul new_float a0 (pl_Reserve1 p)" and ?s = "bf_mul new_float a0 (pl_LPShares p)"
  from assms(1) have pos: "\<not> (bf_sign a0 \<le> 0 \<or> bf_sign a1 \<le> 0)" by (auto simp: AddLiquidity_def split: if_splits)
  from assms(1,2) pos obtain needed where n: "bf_quo ?n ?n (pl_Reserve0 p) = Some needed"
    by (auto simp: AddLiquidity_def Let_def lift_quo_def z split: option.splits)
  from assms(1,2) pos n have s: "bf_quo ?s ?s (pl_Reserve0 p) = Some shares"
    by (auto simp: AddLiquidity_def Let_def lift_quo_def z split: option.splits)
  have pos2: "\<not> (bf_sign a0 \<le> 0 \<or> bf_sign less1 \<le> 0)" using pos assms(3) by simp
  have "AddLiquidity p (Some a0) (Some less1) = Inr (if 0 < bf_cmp less1 needed then needed else less1, shares)"
    using pos2 assms(2) n s by (simp add: AddLiquidity_def Let_def lift_quo_def z)
  then show ?thesis by auto
qed

section \<open>Statements of the service\<close>

lemma on_store_cases:
  assumes "on_store m s = (r, s')"
  obtains "am_store s = None" "r = Inl StoreUnavailable" "s' = s"
  | d d' where "am_store s = Some d" "m d = (r, d')" "s' = s\<lparr>am_store := Some d'\<rparr>"
  using assms by (auto simp: on_store_def split: option.splits prod.splits)

text \<open>Two databases that differ in the faults to come alone.\<close>

definition same_rows :: "amm_db \<Rightarrow> amm_db \<Rightarrow> bool" where
  "same_rows d d' \<longleftrightarrow> (\<exists>fs. d' = d\<lparr>ad_faults := fs\<rparr>)"

lemma get_pool_step:
  assumes "on_store (amm_GetPool i) s = (r, s')" "am_store s = Some d"
  shows "\<exists>d'. am_store s' = Some d' \<and> same_rows d d' \<and> s' = s\<lparr>am_store := Some d'\<rparr> \<and>
    (\<forall>p. r = Inr p \<longrightarrow> (\<exists>row. gm_get (ad_pools d) i = Some row \<and> p = scanPool (ad_feecols d) i row))"
  using assms(1)
proof (cases rule: on_store_cases)
  case (2 d1 d2)
  then show ?thesis using assms(2) by (auto simp: amm_GetPool_def same_rows_def elim!: astmt_cases)
qed (use assms(2) in simp)

lemma same_rows_facts: "same_rows d d' \<Longrightarrow> ad_pools d' = ad_pools d \<and> ad_positions d' = ad_positions d \<and> ad_swaps d' = ad_swaps d \<and>
    ad_feecols d' = ad_feecols d \<and> ad_now d' = ad_now d"
  by (auto simp: same_rows_def)

definition am_bal :: "amm_svc \<Rightarrow> wallet_key \<Rightarrow> rat" where
  "am_bal s k = (case am_wallet s of None \<Rightarrow> 0 | Some w \<Rightarrow> svc_bal w k)"

definition am_lck :: "amm_svc \<Rightarrow> wallet_key \<Rightarrow> rat" where
  "am_lck s k = (case am_wallet s of None \<Rightarrow> 0 | Some w \<Rightarrow> svc_lck w k)"

definition paying :: "amm_svc \<Rightarrow> bool" where
  "paying s \<longleftrightarrow> (case am_wallet s of None \<Rightarrow> False | Some w \<Rightarrow> \<not> no_store w)"

text \<open>The wallet seen through the AMM service obeys the contract of \<open>Settle\<close>, as long as there is one.\<close>

lemma pay_facts:
  assumes "pay ops s = (r, s')"
  shows "am_store s' = am_store s \<and> am_ids s' = am_ids s \<and> am_nid s' = am_nid s \<and> am_now s' = am_now s"
    and "r = Inl e \<Longrightarrow> e = WalletError \<and> am_bal s' = am_bal s \<and> am_lck s' = am_lck s"
    and "r = Inr u \<Longrightarrow> paying s \<Longrightarrow> am_bal s' k = am_bal s k + delta_at ops k"
    and "paying s \<Longrightarrow> \<forall>p \<in> set ops. 0 \<le> un p \<Longrightarrow> solvent (am_bal s) (am_lck s) \<Longrightarrow> solvent (am_bal s') (am_lck s')"
proof -
  show "am_store s' = am_store s \<and> am_ids s' = am_ids s \<and> am_nid s' = am_nid s \<and> am_now s' = am_now s"
    using assms by (auto simp: pay_def split: option.splits prod.splits sum.splits)
  have st: "svc_bal w' = svc_bal w \<and> svc_lck w' = svc_lck w" if "svc_Settle ops [] w = (Inl e', w')" for e' w w'
    using that svc_ledger.settle_fails by (auto simp: svc_Settle_def split: if_splits)
  show "e = WalletError \<and> am_bal s' = am_bal s \<and> am_lck s' = am_lck s" if "r = Inl e"
    using assms that st by (auto simp: pay_def am_bal_def am_lck_def fun_eq_iff split: option.splits prod.splits sum.splits)
  show "am_bal s' k = am_bal s k + delta_at ops k" if "r = Inr u" "paying s"
    using assms that svc_ledger.settle_moves [where k = k]
    by (auto simp: pay_def am_bal_def paying_def svc_Settle_def split: option.splits prod.splits sum.splits if_splits)
  show "solvent (am_bal s') (am_lck s')" if p: "paying s" and u: "\<forall>p \<in> set ops. 0 \<le> un p" and sol: "solvent (am_bal s) (am_lck s)"
  proof -
    from p obtain w where w: "am_wallet s = Some w" "\<not> no_store w" by (auto simp: paying_def split: option.splits)
    obtain q w' where q: "on_db (pg_Settle ops []) w = (q, w')" by fastforce
    have m: "am_bal s = svc_bal w" "am_lck s = svc_lck w" by (simp_all add: am_bal_def am_lck_def fun_eq_iff w)
    have "am_wallet s' = Some w'" using assms w q by (auto simp: pay_def svc_Settle_def split: sum.splits)
    then have "am_bal s' = svc_bal w'" "am_lck s' = svc_lck w'" by (simp_all add: am_bal_def am_lck_def fun_eq_iff)
    then show ?thesis using svc_ledger.settle_keeps_solvent [OF q u] sol m by simp
  qed
qed

lemma save_reserves_step:
  assumes "save_reserves p s = (r, s')" "am_store s = Some d"
  shows "am_wallet s' = am_wallet s \<and> am_now s' = am_now s \<and>
    (\<exists>d'. am_store s' = Some d' \<and> ad_feecols d' = ad_feecols d \<and> ad_swaps d' = ad_swaps d \<and>
      (case r of Inl e \<Rightarrow> same_rows d d'
       | Inr u \<Rightarrow> (\<forall>row. gm_get (ad_pools d) (pl_ID p) = Some row \<longrightarrow> gm_get (ad_pools d') (pl_ID p) =
           Some (row\<lparr>pr_Reserve0 := numeric (pl_Reserve0 p), pr_Reserve1 := numeric (pl_Reserve1 p), pr_LPShares := numeric (pl_LPShares p),
                     pr_UpdatedAt := ad_now d\<rparr>)))) \<and> (\<forall>e. r = Inl e \<longrightarrow> e = StoreError)"
  using assms(1) [unfolded save_reserves_def]
proof (cases rule: on_store_cases)
  case (2 d1 d2)
  from 2(2) [unfolded amm_UpdatePoolReserves_def] show ?thesis
    using 2 assms(2) by (cases rule: astmt_cases) (auto simp: same_rows_def update_pool_def split: option.splits)
qed (use assms(2) in simp)

lemma accrue_fee_step:
  assumes "accrue_fee t fee p s = (r, s')" "am_store s = Some d"
  shows "am_wallet s' = am_wallet s \<and> am_now s' = am_now s \<and>
    (\<exists>d'. am_store s' = Some d' \<and> ad_swaps d' = ad_swaps d \<and>
      (\<forall>row. gm_get (ad_pools d) i = Some row \<longrightarrow> (\<exists>row'. gm_get (ad_pools d') i = Some row' \<and> pr_Reserve0 row' = pr_Reserve0 row \<and>
        pr_Reserve1 row' = pr_Reserve1 row \<and> pr_LPShares row' = pr_LPShares row))) \<and> (\<forall>e. r = Inl e \<longrightarrow> e = StoreError)"
proof (cases "bf_sign fee \<le> 0")
  case True
  then show ?thesis using assms by (auto simp: accrue_fee_def)
next
  case False
  with assms(1) obtain f0 f1 where o: "on_store (amm_UpdatePoolProtocolFees (pl_ID p) f0 f1) s = (r, s')"
    by (auto simp: accrue_fee_def Let_def)
  from o show ?thesis
  proof (cases rule: on_store_cases)
    case (2 d1 d2)
    show ?thesis
    proof (cases "ad_feecols d1")
      case False
      then show ?thesis using 2 assms(2) by (auto simp: amm_UpdatePoolProtocolFees_def)
    next
      case True
      then have "astmt (update_pool (pl_ID p) (\<lambda>r. r\<lparr>pr_Fees0 := numeric f0, pr_Fees1 := numeric f1\<rparr>)) d1 = (r, d2)"
        using 2(2) by (simp add: amm_UpdatePoolProtocolFees_def)
      then show ?thesis using 2 assms(2)
        by (cases rule: astmt_cases) (auto simp: update_pool_def split: option.splits)
    qed
  qed (use assms(2) in simp)
qed

lemma save_swap_step:
  assumes "on_store (amm_SaveSwap sw) s = (r, s')" "am_store s = Some d"
  shows "am_wallet s' = am_wallet s \<and> (\<exists>d'. am_store s' = Some d' \<and> ad_pools d' = ad_pools d \<and>
    (\<forall>u. r = Inr u \<longrightarrow> gm_get (ad_swaps d) (sw_ID sw) = None \<and> gm_get (ad_swaps d') (sw_ID sw) \<noteq> None)) \<and> (\<forall>e. r = Inl e \<longrightarrow> e = StoreError)"
  using assms(1)
proof (cases rule: on_store_cases)
  case (2 d1 d2)
  from 2(2) [unfolded amm_SaveSwap_def] show ?thesis
    using 2 assms(2) by (cases rule: astmt_cases) (auto simp: Let_def split: if_splits)
qed (use assms(2) in simp)

section \<open>Executed swaps\<close>

lemma swap_ops_facts:
  "\<forall>p \<in> set [delta_op u t (bf_neg new_float a), delta_op u t' b]. 0 \<le> un p"
  "delta_at [delta_op u t (bf_neg new_float a), delta_op u t' b] k =
     (if k = (u, t, AccountSpot) then - numeric a else 0) + (if k = (u, t', AccountSpot) then numeric b else 0)"
  by (auto simp: delta_op_def un_def dn_def op_key_def NormalizeAccountType_def)

definition other_token :: "string \<Rightarrow> pool \<Rightarrow> string" where
  "other_token tokenIn p = (if tokenIn = pl_Token0 p then pl_Token1 p else pl_Token0 p)"

text \<open>The part of a swap that changes state, from the payment on.\<close>

lemma swap_run:
  assumes "abind (pay [delta_op u t (bf_neg new_float a), delta_op u t' out]) (\<lambda>_. abind (save_reserves p') (\<lambda>_.
      abind (accrue_fee t fee p') (\<lambda>_. abind amm_uuid (\<lambda>v.
        let sw = \<lparr>sw_ID = ''swap_'' @ v, sw_PoolID = i, sw_UserID = u, sw_TokenIn = t, sw_TokenOut = t',
                  sw_AmountIn = Some a, sw_AmountOut = Some out, sw_Fee = Some fee, sw_CreatedAt = now\<rparr>
        in abind (on_store (amm_SaveSwap sw)) (\<lambda>_. ret sw))))) s = (r, s')"
    and "am_store s = Some d" "paying s" "solvent (am_bal s) (am_lck s)" "gm_get (ad_pools d) (pl_ID p') = Some row"
  shows "solvent (am_bal s') (am_lck s') \<and>
    (case r of
       Inr sw \<Rightarrow> sw_AmountOut sw = Some out \<and>
         (\<forall>k. am_bal s' k = am_bal s k + (if k = (u, t, AccountSpot) then - numeric a else 0) +
            (if k = (u, t', AccountSpot) then numeric out else 0)) \<and>
         (\<exists>d' row'. am_store s' = Some d' \<and> gm_get (ad_pools d') (pl_ID p') = Some row' \<and>
            pr_Reserve0 row' = numeric (pl_Reserve0 p') \<and> pr_Reserve1 row' = numeric (pl_Reserve1 p') \<and>
            gm_get (ad_swaps d) (sw_ID sw) = None \<and> gm_get (ad_swaps d') (sw_ID sw) \<noteq> None)
     | Inl e \<Rightarrow> e \<noteq> StoreError \<longrightarrow> am_bal s' = am_bal s \<and> am_store s' = am_store s)"
proof -
  have am: "am_bal x = am_bal y \<and> am_lck x = am_lck y" if "am_wallet x = am_wallet y" for x y
    using that by (simp add: am_bal_def am_lck_def fun_eq_iff)
  let ?ops = "[delta_op u t (bf_neg new_float a), delta_op u t' out]"
  obtain r1 s1 where 1: "pay ?ops s = (r1, s1)" by fastforce
  have st: "am_store s1 = Some d" using pay_facts(1) [OF 1] assms(2) by simp
  have sol1: "solvent (am_bal s1) (am_lck s1)" using pay_facts(4) [OF 1 assms(3) swap_ops_facts(1) assms(4)] .
  show ?thesis
  proof (cases r1)
    case (Inl e)
    then have "r = Inl e" "s' = s1" using assms(1) 1 by auto
    then show ?thesis using pay_facts(2) [OF 1 Inl] sol1 st assms(2) by simp
  next
    case r1: (Inr v)
    have b1: "am_bal s1 k = am_bal s k + (if k = (u, t, AccountSpot) then - numeric a else 0) +
        (if k = (u, t', AccountSpot) then numeric out else 0)" for k
      using pay_facts(3) [OF 1 r1 assms(3), of k] swap_ops_facts(2) [of u t a t' out k] by simp
    obtain r2 s2 where 2: "save_reserves p' s1 = (r2, s2)" by fastforce
    obtain d2 where d2: "am_store s2 = Some d2" "ad_swaps d2 = ad_swaps d" "am_wallet s2 = am_wallet s1" "\<forall>e. r2 = Inl e \<longrightarrow> e = StoreError"
      "\<forall>v. r2 = Inr v \<longrightarrow> (\<exists>row2. gm_get (ad_pools d2) (pl_ID p') = Some row2 \<and> pr_Reserve0 row2 = numeric (pl_Reserve0 p') \<and>
         pr_Reserve1 row2 = numeric (pl_Reserve1 p'))"
      using save_reserves_step [OF 2 st] assms(5) by (cases r2) auto
    show ?thesis
    proof (cases r2)
      case (Inl e)
      then have "r = Inl StoreError" "s' = s2" using assms(1) 1 2 r1 d2(4) by auto
      then show ?thesis using sol1 am [of s2 s1] d2(3) by simp
    next
      case r2: (Inr v2)
      then obtain row2 where row2: "gm_get (ad_pools d2) (pl_ID p') = Some row2" "pr_Reserve0 row2 = numeric (pl_Reserve0 p')"
        "pr_Reserve1 row2 = numeric (pl_Reserve1 p')" using d2(5) by blast
      obtain r3 s3 where 3: "accrue_fee t fee p' s2 = (r3, s3)" by fastforce
      obtain d3 row3 where d3: "am_store s3 = Some d3" "ad_swaps d3 = ad_swaps d" "am_wallet s3 = am_wallet s1" "\<forall>e. r3 = Inl e \<longrightarrow> e = StoreError"
        "gm_get (ad_pools d3) (pl_ID p') = Some row3" "pr_Reserve0 row3 = numeric (pl_Reserve0 p')" "pr_Reserve1 row3 = numeric (pl_Reserve1 p')"
        using accrue_fee_step [OF 3 d2(1), of "pl_ID p'"] d2(2,3) row2 by auto
      show ?thesis
      proof (cases r3)
        case (Inl e)
        then have "r = Inl StoreError" "s' = s3" using assms(1) 1 2 3 r1 r2 d3(4) by auto
        then show ?thesis using sol1 am [of s3 s1] d3(3) by simp
      next
        case r3: (Inr v3)
        define sw where "sw = \<lparr>sw_ID = ''swap_'' @ am_ids s3 (am_nid s3), sw_PoolID = i, sw_UserID = u, sw_TokenIn = t, sw_TokenOut = t',
                  sw_AmountIn = Some a, sw_AmountOut = Some out, sw_Fee = Some fee, sw_CreatedAt = now\<rparr>"
        obtain r4 s4 where 4: "on_store (amm_SaveSwap sw) (s3\<lparr>am_nid := Suc (am_nid s3)\<rparr>) = (r4, s4)" by fastforce
        have "am_store (s3\<lparr>am_nid := Suc (am_nid s3)\<rparr>) = Some d3" using d3(1) by simp
        from save_swap_step [OF 4 this] obtain d4 where d4: "am_store s4 = Some d4" "ad_pools d4 = ad_pools d3" "am_wallet s4 = am_wallet s1"
          "\<forall>x. r4 = Inr x \<longrightarrow> gm_get (ad_swaps d) (sw_ID sw) = None \<and> gm_get (ad_swaps d4) (sw_ID sw) \<noteq> None" "\<forall>e. r4 = Inl e \<longrightarrow> e = StoreError"
          using d3(2,3) by auto
        have b4: "am_bal s4 = am_bal s1" "am_lck s4 = am_lck s1" using am [of s4 s1] d4(3) by simp_all
        have res: "r = (case r4 of Inl e \<Rightarrow> Inl e | Inr x \<Rightarrow> Inr sw) \<and> s' = s4"
          using assms(1) 1 2 3 4 r1 r2 r3 by (cases r4) (auto simp: amm_uuid_def abind_def sw_def Let_def)
        show ?thesis
        proof (cases r4)
          case (Inl e)
          then show ?thesis using res d4(5) sol1 b4 by simp
        next
          case (Inr x)
          then show ?thesis using res d4 d3 sol1 b4 b1 by (simp add: sw_def)
        qed
      qed
    qed
  qed
qed

text \<open>
  C17: An executed swap is the quoted swap. When it succeeds the recorded output is the quote on the stored pool and at least the
  minimum asked for; the trader's wallet is debited exactly the input and credited exactly the output, his debit
  being covered; the stored reserves are those of the swapped pool, and the swap is recorded. When it is refused for the trader's
  reasons (amount, token, pool, slippage, funds), neither his wallet nor the pool has changed.
\<close>

theorem executed_swap:
  assumes "ExecuteSwapWithMinOut u i t (Some a) minOut s = (r, s')"
    and "am_store s = Some d" "paying s" "solvent (am_bal s) (am_lck s)"
  shows "solvent (am_bal s') (am_lck s') \<and>
    (case r of
       Inr sw \<Rightarrow> \<exists>row out fee net d' row'. gm_get (ad_pools d) i = Some row \<and>
         (let p = scanPool (ad_feecols d) i row; p' = ApplySwap t a out (am_now s) p
          in QuoteSwap p t (Some a) = Inr (out, fee, net) \<and> sw_AmountOut sw = Some out \<and>
            (\<forall>m. minOut = Some m \<longrightarrow> 0 < bval m \<longrightarrow> bval m \<le> bval out) \<and>
            (\<forall>k. am_bal s' k = am_bal s k + (if k = (u, t, AccountSpot) then - numeric a else 0) +
                (if k = (u, other_token t p, AccountSpot) then numeric out else 0)) \<and>
            am_store s' = Some d' \<and> gm_get (ad_pools d') i = Some row' \<and>
            pr_Reserve0 row' = numeric (pl_Reserve0 p') \<and> pr_Reserve1 row' = numeric (pl_Reserve1 p') \<and>
            gm_get (ad_swaps d) (sw_ID sw) = None \<and> gm_get (ad_swaps d') (sw_ID sw) \<noteq> None)
     | Inl e \<Rightarrow> e \<noteq> StoreError \<longrightarrow> am_bal s' = am_bal s \<and> (\<exists>d'. am_store s' = Some d' \<and> same_rows d d'))"
proof -
  have am: "am_bal t' = am_bal t'' \<and> am_lck t' = am_lck t''" if "am_wallet t' = am_wallet t''" for t' t''
    using that by (simp add: am_bal_def am_lck_def fun_eq_iff)
  have refused: ?thesis if "r = Inl e" "am_wallet s' = am_wallet s" "am_store s' = Some d'" "same_rows d d'" for e d'
  proof -
    have "am_bal s' = am_bal s" "am_lck s' = am_lck s" using am [of s' s] that(2) by simp_all
    then show ?thesis unfolding that(1) sum.case using that(3,4) assms(4) by auto
  qed
  show ?thesis
  proof (cases "bf_sign a \<le> 0")
    case True
    have "same_rows d d" by (simp add: same_rows_def exI [of _ "ad_faults d"])
    moreover have e: "r = Inl InvalidAmount" "s' = s" using True assms(1) by (simp_all add: ExecuteSwapWithMinOut_def)
    ultimately show ?thesis using assms(2) by (intro refused [OF e(1)]) simp_all
  next
    case False
    obtain r1 s1 where g: "on_store (amm_GetPool i) s = (r1, s1)" by fastforce
    obtain d1 where d1: "am_store s1 = Some d1" "same_rows d d1" "s1 = s\<lparr>am_store := Some d1\<rparr>"
      "\<forall>p. r1 = Inr p \<longrightarrow> (\<exists>row. gm_get (ad_pools d) i = Some row \<and> p = scanPool (ad_feecols d) i row)"
      using get_pool_step [OF g assms(2)] by blast
    show ?thesis
    proof (cases r1)
      case (Inl e)
      then have e: "r = Inl e" "s' = s1" using assms(1) False g by (simp_all add: ExecuteSwapWithMinOut_def)
      then show ?thesis using d1 by (intro refused [OF e(1)]) simp_all
    next
      case (Inr p)
      then obtain row where row: "gm_get (ad_pools d) i = Some row" "p = scanPool (ad_feecols d) i row" using d1(4) by blast
      have pid: "pl_ID p = i" "pl_ID (ApplySwap t a out now p) = i" for out now using row(2) by (simp_all add: scanPool_def ApplySwap_def Let_def)
      have go: "abind (raise_sum (QuoteSwap p t (Some a))) f s1 = (case QuoteSwap p t (Some a) of Inl e \<Rightarrow> (Inl e, s1) | Inr x \<Rightarrow> f x s1)" for f :: "_ \<Rightarrow> amm_swap amact"
        by (auto simp: raise_sum_def abind_def ret_def throw_def split: sum.splits)
      note body = assms(1) [unfolded ExecuteSwapWithMinOut_def option.case if_not_P [OF False] abind_step(1) [where m = "on_store (amm_GetPool i)" and s = s, OF g [unfolded Inr]] go]
      show ?thesis
      proof (cases "QuoteSwap p t (Some a)")
        case (Inl e)
        then have e: "r = Inl e" "s' = s1" using body by simp_all
        then show ?thesis using d1 by (intro refused [OF e(1)]) simp_all
      next
        case q: (Inr x)
        obtain out fee net where x: "x = (out, fee, net)" by (metis prod_cases3)
        show ?thesis
        proof (cases "below_min out minOut")
          case True
          then have e: "r = Inl SlippageExceeded" "s' = s1" using body q x by (simp_all add: throw_def)
          then show ?thesis using d1 by (intro refused [OF e(1)]) simp_all
        next
          case min: False
          let ?p' = "ApplySwap t a out (am_now s) p"
          have row1: "gm_get (ad_pools d1) (pl_ID ?p') = Some row" using row(1) same_rows_facts [OF d1(2)] pid by simp
          have eq: "am_bal s1 = am_bal s" "am_lck s1 = am_lck s" "paying s1 = paying s"
            using am [of s1 s] d1(3) by (simp_all add: paying_def)
          note run = swap_run [of u t a "other_token t p" out ?p' fee "pl_ID p" "am_now s" s1 r s', OF _ d1(1) _ _ row1]
          have "(\<forall>m. minOut = Some m \<longrightarrow> 0 < bval m \<longrightarrow> bval m \<le> bval out)" using min by (auto simp: below_min_def)
          moreover note run = run [OF _ assms(3) [folded eq(3)] assms(4) [folded eq(1,2)]]
          moreover have "abind (pay [delta_op u t (bf_neg new_float a), delta_op u (other_token t p) out]) (\<lambda>_. abind (save_reserves ?p') (\<lambda>_.
              abind (accrue_fee t fee ?p') (\<lambda>_. abind amm_uuid (\<lambda>v.
                let sw = \<lparr>sw_ID = ''swap_'' @ v, sw_PoolID = pl_ID p, sw_UserID = u, sw_TokenIn = t, sw_TokenOut = other_token t p,
                          sw_AmountIn = Some a, sw_AmountOut = Some out, sw_Fee = Some fee, sw_CreatedAt = am_now s\<rparr>
                in abind (on_store (amm_SaveSwap sw)) (\<lambda>_. ret sw))))) s1 = (r, s')"
            using body unfolding q x sum.case prod.case if_not_P [OF min] other_token_def Let_def .
          note run = run [OF this]
          show ?thesis
          proof (cases r)
            case (Inl e)
            then show ?thesis using run d1(1,2) eq by simp
          next
            case (Inr sw)
            from run [unfolded Inr sum.case eq] obtain d' row' where R: "solvent (am_bal s') (am_lck s')" "sw_AmountOut sw = Some out"
              "\<forall>k. am_bal s' k = am_bal s k + (if k = (u, t, AccountSpot) then - numeric a else 0) +
                 (if k = (u, other_token t p, AccountSpot) then numeric out else 0)"
              "am_store s' = Some d'" "gm_get (ad_pools d') i = Some row'" "pr_Reserve0 row' = numeric (pl_Reserve0 ?p')"
              "pr_Reserve1 row' = numeric (pl_Reserve1 ?p')" "gm_get (ad_swaps d) (sw_ID sw) = None" "gm_get (ad_swaps d') (sw_ID sw) \<noteq> None"
              unfolding pid using same_rows_facts [OF d1(2)] by auto
            have "gm_get (ad_pools d) i = Some row \<and> (let p = scanPool (ad_feecols d) i row; p' = ApplySwap t a out (am_now s) p
                in QuoteSwap p t (Some a) = Inr (out, fee, net) \<and> sw_AmountOut sw = Some out \<and>
                  (\<forall>m. minOut = Some m \<longrightarrow> 0 < bval m \<longrightarrow> bval m \<le> bval out) \<and>
                  (\<forall>k. am_bal s' k = am_bal s k + (if k = (u, t, AccountSpot) then - numeric a else 0) +
                      (if k = (u, other_token t p, AccountSpot) then numeric out else 0)) \<and>
                  am_store s' = Some d' \<and> gm_get (ad_pools d') i = Some row' \<and>
                  pr_Reserve0 row' = numeric (pl_Reserve0 p') \<and> pr_Reserve1 row' = numeric (pl_Reserve1 p') \<and>
                  gm_get (ad_swaps d) (sw_ID sw) = None \<and> gm_get (ad_swaps d') (sw_ID sw) \<noteq> None)"
              unfolding row(2) [symmetric] Let_def by (intro conjI row(1) q [unfolded x] calculation(1) R)
            then show ?thesis unfolding Inr sum.case using R(1) by blast
          qed
        qed
      qed
    qed
  qed
qed

section \<open>Money lost between statements\<close>

lemma first_ok:
  assumes "on_store (amm_GetPool i) s = (r, s')" "am_store s = Some d" "ad_faults d = False # fs" "gm_get (ad_pools d) i = Some row"
  shows "r = Inr (scanPool (ad_feecols d) i row) \<and> s' = s\<lparr>am_store := Some (d\<lparr>ad_faults := fs\<rparr>)\<rparr>"
  using assms by (simp add: on_store_def amm_GetPool_def astmt_def)

text \<open>
  A swap whose pool update fails is paid for all the same. Wallets and pools are changed by separate statements: when the update of
  the reserves fails after the payment, the trader is told of an error, but he has been debited and credited at the quote,
  and the pool still has its old reserves, so that the next trader gets a price that no swap has moved.
\<close>

theorem failed_update_keeps_payment:
  assumes "ExecuteSwapWithMinOut u i t (Some a) minOut s = (Inl StoreError, s')"
    and "am_store s = Some d" "ad_faults d = [False, True] @ rest" "gm_get (ad_pools d) i = Some row" "paying s"
  shows "\<exists>out fee net. QuoteSwap (scanPool (ad_feecols d) i row) t (Some a) = Inr (out, fee, net) \<and>
    (\<forall>k. am_bal s' k = am_bal s k + (if k = (u, t, AccountSpot) then - numeric a else 0) +
       (if k = (u, other_token t (scanPool (ad_feecols d) i row), AccountSpot) then numeric out else 0)) \<and>
    (\<exists>d'. am_store s' = Some d' \<and> ad_pools d' = ad_pools d)"
proof -
  let ?p = "scanPool (ad_feecols d) i row"
  have False: "\<not> bf_sign a \<le> 0" using assms(1) by (auto simp: ExecuteSwapWithMinOut_def split: if_splits)
  obtain r1 s1 where g: "on_store (amm_GetPool i) s = (r1, s1)" by fastforce
  have s1: "r1 = Inr ?p" "s1 = s\<lparr>am_store := Some (d\<lparr>ad_faults := True # rest\<rparr>)\<rparr>"
    using first_ok [OF g assms(2) _ assms(4)] assms(3) by simp_all
  have go: "abind (raise_sum q) f s1 = (case q of Inl e \<Rightarrow> (Inl e, s1) | Inr x \<Rightarrow> f x s1)" for q :: "amm_err + 'b" and f :: "'b \<Rightarrow> amm_swap amact"
    by (auto simp: raise_sum_def abind_def ret_def throw_def split: sum.splits)
  note body = assms(1) [unfolded ExecuteSwapWithMinOut_def option.case if_not_P [OF False]
      abind_step(1) [where m = "on_store (amm_GetPool i)" and s = s, OF g [unfolded s1(1)]] go]
  have "QuoteSwap ?p t (Some a) \<noteq> Inl StoreError"
    by (auto simp: QuoteSwap_def quote_amounts_def lift_quo_def Let_def split: option.splits prod.splits)
  then have "\<not> isl (QuoteSwap ?p t (Some a))" using body by (cases "QuoteSwap ?p t (Some a)") simp_all
  then obtain out fee net where q: "QuoteSwap ?p t (Some a) = Inr (out, fee, net)" by (metis prod_cases3 sum.collapse(2))
  have min: "\<not> below_min out minOut" using body by (auto simp: q throw_def split: if_splits)
  let ?ops = "[delta_op u t (bf_neg new_float a), delta_op u (other_token t ?p) out]"
  obtain r2 s2 where 2: "pay ?ops s1 = (r2, s2)" by fastforce
  have "r2 \<noteq> Inl e" for e
    using body 2 pay_facts(2) [OF 2, of e] min by (auto simp: q Let_def other_token_def abind_def)
  then have r2: "r2 = Inr ()" by (cases r2) (blast, simp)
  have st: "am_store s2 = Some (d\<lparr>ad_faults := True # rest\<rparr>)" using pay_facts(1) [OF 2] s1 by simp
  have "save_reserves (ApplySwap t a out (am_now s) ?p) s2 = (Inl StoreError, s2\<lparr>am_store := Some (d\<lparr>ad_faults := rest\<rparr>)\<rparr>)"
    using st by (simp add: save_reserves_def on_store_def amm_UpdatePoolReserves_def astmt_def)
  then have s': "s' = s2\<lparr>am_store := Some (d\<lparr>ad_faults := rest\<rparr>)\<rparr>"
    using body 2 r2 min by (simp add: q Let_def other_token_def)
  have eq: "am_bal s1 = am_bal s" "paying s1" "am_bal s' = am_bal s2"
    using assms(5) s1 s' by (simp_all add: am_bal_def paying_def fun_eq_iff)
  have "am_bal s' k = am_bal s k + (if k = (u, t, AccountSpot) then - numeric a else 0) +
      (if k = (u, other_token t ?p, AccountSpot) then numeric out else 0)" for k
    using pay_facts(3) [OF 2 r2 eq(2), of k] swap_ops_facts(2) [of u t a "other_token t ?p" out k] eq by simp
  moreover have "\<exists>d'. am_store s' = Some d' \<and> ad_pools d' = ad_pools d" using s' by simp
  ultimately show ?thesis using q by blast
qed

text \<open>
  A position that cannot be read is overwritten. When the statement that reads the depositor's position fails, the error is dropped and
  the deposit goes on as if he had none: it succeeds, and the saved position holds the new shares alone, whatever he held before.
\<close>

theorem unread_position_overwritten:
  assumes "amm_AddLiquidity u i (Some a0) (Some a1) s = (Inr (p, pos, final1, shares), s')"
    and "am_store s = Some d" "ad_faults d = [False, False, True] @ rest"
  shows "lp_Shares pos = shares \<and> (\<exists>d' row. am_store s' = Some d' \<and> gm_get (ad_positions d') (u, i) = Some row \<and> ps_Shares row = numeric shares)"
proof -
  have False: "\<not> (bf_sign a0 \<le> 0 \<or> bf_sign a1 \<le> 0)" using assms(1) by (auto simp: amm_AddLiquidity_def split: if_splits)
  note body = assms(1) [unfolded amm_AddLiquidity_def option.case prod.case if_not_P [OF False]]
  obtain p0 s1 where g: "on_store (amm_GetPool i) s = (Inr p0, s1)" using body by (auto simp: abind_Inr)
  have s1: "s1 = s\<lparr>am_store := Some (d\<lparr>ad_faults := [False, True] @ rest\<rparr>)\<rparr>" "pl_ID p0 = i"
    using g assms(2,3) by (auto simp: on_store_def amm_GetPool_def astmt_def scanPool_def Let_def split: option.splits)
  define mk where "mk final1 shares = p0\<lparr>pl_Reserve0 := bf_add (pl_Reserve0 p0) (pl_Reserve0 p0) a0,
      pl_Reserve1 := bf_add (pl_Reserve1 p0) (pl_Reserve1 p0) final1,
      pl_LPShares := bf_add (pl_LPShares p0) (pl_LPShares p0) shares, pl_UpdatedAt := am_now s\<rparr>" for final1 shares
  from body g obtain f1 sh s2 s3 s4 pos' s5 where
    p: "pay [delta_op u (pl_Token0 p0) (bf_neg new_float a0), delta_op u (pl_Token1 p0) (bf_neg new_float f1)] s1 = (Inr (), s2)" and
    r: "save_reserves (mk f1 sh) s2 = (Inr (), s3)" and
    m: "merged_position u i sh s3 = (Inr pos', s4)" and
    w: "on_store (amm_SavePosition pos') s4 = (Inr (), s5)" and
    eq: "pos' = pos" "f1 = final1" "sh = shares" "s' = s5"
    by (auto simp: abind_Inr Let_def raise_sum_def s1(2) mk_def split: sum.splits)
  have "am_store s2 = Some (d\<lparr>ad_faults := [False, True] @ rest\<rparr>)" using pay_facts(1) [OF p] s1 by simp
  then obtain d3 where d3: "am_store s3 = Some d3" "ad_faults d3 = True # rest"
    using r by (auto simp: save_reserves_def on_store_def amm_UpdatePoolReserves_def astmt_def update_pool_def mk_def Let_def split: option.splits)
  then have pos: "lp_Shares pos = shares" "lp_UserID pos = u" "lp_PoolID pos = i" and s4: "am_store s4 = Some (d3\<lparr>ad_faults := rest\<rparr>)"
    using m eq by (auto simp: merged_position_def on_store_def amm_GetPositionByPool_def astmt_def amm_uuid_def abind_def Let_def)
  obtain d5 where d5: "amm_SavePosition pos (d3\<lparr>ad_faults := rest\<rparr>) = (Inr (), d5)" "s' = s4\<lparr>am_store := Some d5\<rparr>"
    using w s4 eq by (auto simp: on_store_def split: prod.splits)
  from d5(1) [unfolded amm_SavePosition_def] obtain row where "gm_get (ad_positions d5) (u, i) = Some row" "ps_Shares row = numeric shares"
    by (cases rule: astmt_cases) (auto simp: Let_def pos split: if_splits option.splits)
  then show ?thesis using pos d5(2) by simp
qed

section \<open>At work\<close>

text \<open>A pool of 100 ETH and 100 USDT without a fee, and alice of the wallet's example with her 100 USDT.\<close>

definition demo_pool_row :: pool_row where
  "demo_pool_row =
     \<lparr>pr_Pair = ''ETH/USDT'', pr_Token0 = ''ETH'', pr_Token1 = ''USDT'', pr_Reserve0 = 100, pr_Reserve1 = 100, pr_LPShares = 100,
      pr_FeeRate = 0, pr_Status = ''active'', pr_CreatedAt = 0, pr_UpdatedAt = 0, pr_Fees0 = 0, pr_Fees1 = 0\<rparr>"

definition demo_amm :: "bool list \<Rightarrow> amm_svc" where
  "demo_amm faults =
     \<lparr>am_store = Some \<lparr>ad_pools = [(''p'', demo_pool_row)], ad_positions = [], ad_swaps = [], ad_faults = faults, ad_feecols = True, ad_now = 0\<rparr>,
      am_wallet = Some demo, am_ids = (\<lambda>n. ''u'' @ nat_text n), am_nid = 0, am_now = 0\<rparr>"

definition demo_pool :: pool where
  "demo_pool = scanPool True ''p'' demo_pool_row"

lemma demo_pool_eq:
  "demo_pool = \<lparr>pl_ID = ''p'', pl_Pair = ''ETH/USDT'', pl_Token0 = ''ETH'', pl_Token1 = ''USDT'', pl_Reserve0 = BF 53 100, pl_Reserve1 = BF 53 100,
     pl_LPShares = BF 53 100, pl_FeeRate = BF 53 0, pl_ProtocolFees0 = BF 53 0, pl_ProtocolFees1 = BF 53 0, pl_Status = ''active'',
     pl_CreatedAt = 0, pl_UpdatedAt = 0\<rparr>"
  by (simp add: demo_pool_def scanPool_def demo_pool_row_def read53_def)

lemma demo_pool_fields: "pl_ID demo_pool = ''p''" "pl_Token0 demo_pool = ''ETH''" "pl_Token1 demo_pool = ''USDT''"
  by (simp_all add: demo_pool_eq)

lemma demo_quote: "QuoteSwap demo_pool ''USDT'' (Some (BF 53 100)) = Inr (BF 53 50, BF 53 0, BF 53 100)"
  by (simp add: QuoteSwap_def demo_pool_eq quote_amounts_def lift_quo_def bf_quo_def float_defs Let_def)

lemma demo_amm_money: "am_bal (demo_amm fs) = svc_bal demo" "am_lck (demo_amm fs) = svc_lck demo" "paying (demo_amm fs)"
  using demo_store by (simp_all add: am_bal_def am_lck_def paying_def demo_amm_def fun_eq_iff)

lemmas amm_defs = on_store_def amm_GetPool_def astmt_def raise_sum_def pay_def svc_Settle_def save_reserves_def amm_UpdatePoolReserves_def update_pool_def
  accrue_fee_def amm_uuid_def amm_SaveSwap_def

theorem swap_keeps_product_witness:
  "near 24 (bval (pl_Reserve0 (ApplySwap ''USDT'' (NewFloat 100) (BF 53 50) 0 demo_pool)) *
     bval (pl_Reserve1 (ApplySwap ''USDT'' (NewFloat 100) (BF 53 50) 0 demo_pool))) 10000"
proof -
  have "pool_ok demo_pool" by (simp add: pool_ok_def demo_pool_eq)
  from swap_keeps_product [OF demo_quote this, of 0] show ?thesis
    by (simp add: reserves_def demo_pool_eq float_defs ApplySwap_def Let_def mult.commute)
qed

theorem shares_ignore_second_token_witness:
  "\<exists>paid. AddLiquidity demo_pool (Some (NewFloat 100)) (Some (NewFloat 1)) = Inr (paid, BF 53 100) \<and> bval paid \<le> 1"
proof -
  have "AddLiquidity demo_pool (Some (NewFloat 100)) (Some (NewFloat 100)) = Inr (BF 53 100, BF 53 100)"
    by (simp add: AddLiquidity_def demo_pool_eq lift_quo_def bf_quo_def float_defs bf_cmp_def Let_def)
  from shares_ignore_second_token [OF this, of "NewFloat 1"] show ?thesis by (simp add: demo_pool_eq float_defs)
qed

theorem executed_swap_witness:
  "\<exists>sw. fst (ExecuteSwap ''alice'' ''p'' ''USDT'' (Some (NewFloat 100)) (demo_amm [])) = Inr sw \<and>
     am_bal (snd (ExecuteSwap ''alice'' ''p'' ''USDT'' (Some (NewFloat 100)) (demo_amm []))) (''alice'', ''ETH'', AccountSpot) = 50"
proof -
  let ?r = "ExecuteSwapWithMinOut ''alice'' ''p'' ''USDT'' (Some (NewFloat 100)) None (demo_amm [])"
  have ap: "pl_ID (ApplySwap t a b n demo_pool) = ''p''" for t a b n by (simp add: ApplySwap_def Let_def demo_pool_eq)
  have ok: "\<not> isl (fst ?r)"
    by (simp add: ExecuteSwapWithMinOut_def demo_amm_def amm_defs demo_pool_def [symmetric] demo_quote demo_pool_fields below_min_def Let_def ap
        service_defs store_defs float_defs demo_defs)
  then obtain sw where sw: "fst ?r = Inr sw" by (metis sum.collapse(2))
  have "am_store (demo_amm []) = Some \<lparr>ad_pools = [(''p'', demo_pool_row)], ad_positions = [], ad_swaps = [], ad_faults = [], ad_feecols = True, ad_now = 0\<rparr>"
    by (simp add: demo_amm_def)
  note x = executed_swap [where u = "''alice''" and i = "''p''" and t = "''USDT''" and a = "NewFloat 100" and minOut = None,
      OF prod.collapse [symmetric] this demo_amm_money(3)]
  have "solvent (am_bal (demo_amm [])) (am_lck (demo_amm []))" by (simp add: demo_amm_money demo_solvent)
  from x [OF this, unfolded sw sum.case] obtain row out fee net where
    row: "demo_pool_row = row" "QuoteSwap (scanPool True ''p'' row) ''USDT'' (Some (NewFloat 100)) = Inr (out, fee, net)" and
    b: "\<forall>k. am_bal (snd ?r) k = am_bal (demo_amm []) k + (if k = (''alice'', ''USDT'', AccountSpot) then - numeric (NewFloat 100) else 0) +
      (if k = (''alice'', other_token ''USDT'' (scanPool True ''p'' row), AccountSpot) then numeric out else 0)"
    by (auto simp: Let_def)
  have "out = BF 53 50" using row demo_quote by (simp add: demo_pool_def [symmetric] float_defs(1))
  then have "am_bal (snd ?r) (''alice'', ''ETH'', AccountSpot) = 50"
    using row(1) by (simp add: b [rule_format] demo_pool_def [symmetric] other_token_def demo_pool_fields demo_amm_money demo_bal)
  then show ?thesis using sw by (simp add: ExecuteSwap_def)
qed

theorem failed_update_keeps_payment_witness:
  "let s' = snd (ExecuteSwap ''alice'' ''p'' ''USDT'' (Some (NewFloat 100)) (demo_amm [False, True]))
   in am_bal s' (''alice'', ''USDT'', AccountSpot) = 0 \<and> am_bal s' (''alice'', ''ETH'', AccountSpot) = 50"
proof -
  let ?r = "ExecuteSwapWithMinOut ''alice'' ''p'' ''USDT'' (Some (NewFloat 100)) None (demo_amm [False, True])"
  have ap: "pl_ID (ApplySwap t a b n demo_pool) = ''p''" for t a b n by (simp add: ApplySwap_def Let_def demo_pool_eq)
  have e: "?r = (Inl StoreError, snd ?r)"
    by (simp add: ExecuteSwapWithMinOut_def demo_amm_def amm_defs demo_pool_def [symmetric] demo_quote demo_pool_fields below_min_def Let_def ap
        service_defs store_defs float_defs demo_defs)
  have d: "am_store (demo_amm [False, True]) = Some \<lparr>ad_pools = [(''p'', demo_pool_row)], ad_positions = [], ad_swaps = [],
      ad_faults = [False, True], ad_feecols = True, ad_now = 0\<rparr>" by (simp add: demo_amm_def)
  have "\<exists>out fee net. QuoteSwap demo_pool ''USDT'' (Some (NewFloat 100)) = Inr (out, fee, net) \<and>
    (\<forall>k. am_bal (snd ?r) k = am_bal (demo_amm [False, True]) k + (if k = (''alice'', ''USDT'', AccountSpot) then - numeric (NewFloat 100) else 0) +
       (if k = (''alice'', other_token ''USDT'' demo_pool, AccountSpot) then numeric out else 0))"
    using failed_update_keeps_payment [OF e d, of "[]" demo_pool_row] demo_amm_money(3) by (auto simp: demo_pool_def)
  then show ?thesis
    by (auto simp: ExecuteSwap_def demo_quote float_defs(1) other_token_def demo_pool_fields demo_amm_money demo_bal Let_def)
qed

theorem unread_position_overwritten_witness:
  "let r = amm_AddLiquidity ''alice'' ''p'' (Some (NewFloat 1)) (Some (NewFloat 1))
     ((demo_amm [False, False, True])\<lparr>am_wallet := None\<rparr>)
   in \<exists>p pos final1 shares. fst r = Inr (p, pos, final1, shares) \<and> lp_Shares pos = shares"
proof -
  let ?s = "(demo_amm [False, False, True])\<lparr>am_wallet := None\<rparr>"
  let ?r = "amm_AddLiquidity ''alice'' ''p'' (Some (NewFloat 1)) (Some (NewFloat 1)) ?s"
  have al: "AddLiquidity demo_pool (Some (BF 53 1)) (Some (BF 53 1)) = Inr (BF 53 1, BF 53 1)"
    by (simp add: AddLiquidity_def demo_pool_eq lift_quo_def bf_quo_def float_defs bf_cmp_def Let_def)
  have "\<not> isl (fst ?r)"
    by (simp add: amm_AddLiquidity_def demo_amm_def amm_defs demo_pool_def [symmetric] al demo_pool_fields Let_def merged_position_def
        amm_GetPositionByPool_def amm_SavePosition_def service_defs store_defs float_defs demo_defs)
  then obtain p pos final1 shares where r: "?r = (Inr (p, pos, final1, shares), snd ?r)"
    by (metis sum.collapse(2) prod_cases4 prod.collapse)
  have "am_store ?s = Some \<lparr>ad_pools = [(''p'', demo_pool_row)], ad_positions = [], ad_swaps = [],
      ad_faults = [False, False, True], ad_feecols = True, ad_now = 0\<rparr>" by (simp add: demo_amm_def)
  from unread_position_overwritten [OF r this, of "[]"] have "lp_Shares pos = shares" by simp
  then show ?thesis using r unfolding Let_def by (metis fst_conv)
qed

end
