(* ===== verification/Address_Whitelist.thy ===== *)
theory Address_Whitelist
  imports Effects Address_Validation
begin

text \<open>
  The withdrawal addresses a user has approved: \<open>internal/store/pg_address_whitelist.go\<close>, a table keyed by user, asset and the
  address in lower case, and the in-process map that \<open>internal/wallet/withdrawal.go\<close> falls back to. As in the wallet store a
  statement is atomic and \<open>al_faults\<close> says which of the coming statements fail.
\<close>

record address_entry =
  ae_ID :: string
  ae_UserID :: string
  ae_Asset :: string
  ae_Address :: string
  ae_Label :: string
  ae_CreatedAt :: int

record allowlist =
  al_rows :: "(string \<times> string \<times> string, address_entry) gomap"
  al_faults :: "bool list"

definition al_stmt :: "(allowlist \<Rightarrow> 'a \<times> allowlist) \<Rightarrow> (allowlist, unit, 'a) act" where
  "al_stmt f s =
     (case al_faults s of
        True # fs \<Rightarrow> (Inl (), s\<lparr>al_faults := fs\<rparr>)
      | False # fs \<Rightarrow> (let (x, s') = f (s\<lparr>al_faults := fs\<rparr>) in (Inr x, s'))
      | [] \<Rightarrow> (let (x, s') = f s in (Inr x, s')))"

section \<open>The table\<close>

text \<open>The row shows the address as it was written; the column of the key is its lower-case form.\<close>

definition AddWhitelistAddress :: "address_entry \<Rightarrow> string \<Rightarrow> (allowlist, unit, bool) act" where
  "AddWhitelistAddress e createdBy =
     al_stmt (\<lambda>s. let k = (ae_UserID e, ToUpper (ae_Asset e), ToLower (ae_Address e))
       in if gm_get (al_rows s) k \<noteq> None then (False, s)
          else (True, s\<lparr>al_rows := gm_put k (e\<lparr>ae_Asset := ToUpper (ae_Asset e)\<rparr>) (al_rows s)\<rparr>))"

definition RemoveWhitelistAddress :: "string \<Rightarrow> string \<Rightarrow> string \<Rightarrow> (allowlist, unit, bool) act" where
  "RemoveWhitelistAddress userID asset address =
     al_stmt (\<lambda>s. let k = (userID, ToUpper asset, ToLower (TrimSpace address))
       in (gm_get (al_rows s) k \<noteq> None, s\<lparr>al_rows := gm_del k (al_rows s)\<rparr>))"

definition ContainsWhitelistedAddress :: "string \<Rightarrow> string \<Rightarrow> string \<Rightarrow> (allowlist, unit, bool) act" where
  "ContainsWhitelistedAddress userID asset address =
     al_stmt (\<lambda>s. (gm_get (al_rows s) (userID, ToUpper asset, ToLower (TrimSpace address)) \<noteq> None, s))"

text \<open>\<open>ORDER BY created_at ASC\<close>, ties in table order; an empty asset selects every asset.\<close>

definition ListWhitelistAddresses :: "string \<Rightarrow> string \<Rightarrow> (allowlist, unit, address_entry list) act" where
  "ListWhitelistAddresses userID asset =
     al_stmt (\<lambda>s. (sort_key ae_CreatedAt (filter (\<lambda>e. ae_UserID e = userID \<and> (asset = [] \<or> ae_Asset e = ToUpper asset))
       (map snd (al_rows s))), s))"

section \<open>The in-process address book\<close>

text \<open>\<open>strings.EqualFold\<close>, on ASCII.\<close>

definition EqualFold :: "string \<Rightarrow> string \<Rightarrow> bool" where
  "EqualFold a b \<longleftrightarrow> ToLower a = ToLower b"

type_synonym address_book = "(string, address_entry list) gomap"

definition book_key :: "string \<Rightarrow> string \<Rightarrow> string" where
  "book_key userID asset = userID @ '':'' @ asset"

definition book_at :: "address_book \<Rightarrow> string \<Rightarrow> address_entry list" where
  "book_at b k = (case gm_get b k of None \<Rightarrow> [] | Some es \<Rightarrow> es)"

definition book_add :: "address_entry \<Rightarrow> address_book \<Rightarrow> bool \<times> address_book" where
  "book_add e b =
     (let k = book_key (ae_UserID e) (ae_Asset e)
      in if list_ex (\<lambda>x. EqualFold (ae_Address x) (ae_Address e)) (book_at b k) then (False, b)
         else (True, gm_put k (book_at b k @ [e]) b))"

fun drop_first :: "('a \<Rightarrow> bool) \<Rightarrow> 'a list \<Rightarrow> 'a list option" where
  "drop_first p [] = None"
| "drop_first p (x # xs) = (if p x then Some xs else map_option (Cons x) (drop_first p xs))"

definition book_remove :: "string \<Rightarrow> string \<Rightarrow> string \<Rightarrow> address_book \<Rightarrow> bool \<times> address_book" where
  "book_remove userID asset address b =
     (let k = book_key userID asset
      in case drop_first (\<lambda>e. EqualFold (ae_Address e) address) (book_at b k) of
           None \<Rightarrow> (False, b)
         | Some es \<Rightarrow> (True, gm_put k es b))"

definition book_contains :: "string \<Rightarrow> string \<Rightarrow> string \<Rightarrow> address_book \<Rightarrow> bool" where
  "book_contains userID asset address b =
     list_ex (\<lambda>e. EqualFold (ae_Address e) address) (book_at b (book_key userID asset))"

definition book_list :: "string \<Rightarrow> string \<Rightarrow> address_book \<Rightarrow> address_entry list" where
  "book_list userID asset b =
     (if asset = [] then concat (map snd (filter (\<lambda>(k, es). HasPrefix k (userID @ '':'')) b))
      else book_at b (book_key userID asset))"

end
