(* ===== verification/Cold_Wallet.thy ===== *)
theory Cold_Wallet
  imports Effects Address_Validation Decimal
begin

text \<open>
  \<open>internal/wallet/cold_wallet.go\<close>: the policy that sends large withdrawals to an offline signer, and the signer that works
  through two directories. A directory is a map from file names to contents; a file operation may fail, as \<open>cs_faults\<close> says.
  A signed file is the record it decodes to, or no record at all. \<open>strconv.ParseFloat\<close> is the parameter \<open>pf\<close>: the
  finite 64-bit value of a string, if it has one.
\<close>

section \<open>Policy\<close>

definition DefaultColdWalletThreshold :: rat where "DefaultColdWalletThreshold = 10000"

record cold_policy =
  cp_Default :: "bf option"
  cp_Thresholds :: "(string, bf option) gomap"

definition NewColdWalletPolicy :: cold_policy where
  "NewColdWalletPolicy = \<lparr>cp_Default = Some (NewFloat DefaultColdWalletThreshold), cp_Thresholds = []\<rparr>"

text \<open>\<open>newBigFloatCopy\<close> of this package: 128 bits, \<open>nil\<close> stays \<open>nil\<close>.\<close>

definition wallet_copy :: "bf option \<Rightarrow> bf option" where
  "wallet_copy x = map_option (bf_set (bf_setprec new_float 128)) x"

definition SetThreshold :: "string \<Rightarrow> bf option \<Rightarrow> cold_policy \<Rightarrow> cold_policy" where
  "SetThreshold asset t p = p\<lparr>cp_Thresholds := gm_put (ToUpper asset) (wallet_copy t) (cp_Thresholds p)\<rparr>"

definition ThresholdFor :: "cold_policy option \<Rightarrow> string \<Rightarrow> bf" where
  "ThresholdFor p asset =
     (case p of
        None \<Rightarrow> NewFloat DefaultColdWalletThreshold
      | Some q \<Rightarrow>
          (case gm_get (cp_Thresholds q) (ToUpper asset) of
             Some (Some t) \<Rightarrow> t
           | _ \<Rightarrow> (case cp_Default q of Some d \<Rightarrow> d | None \<Rightarrow> NewFloat DefaultColdWalletThreshold)))"

definition RequiresCold :: "cold_policy option \<Rightarrow> string \<Rightarrow> bf option \<Rightarrow> bool" where
  "RequiresCold p asset amount =
     (case (p, amount) of
        (Some q, Some a) \<Rightarrow> 0 \<le> bf_cmp a (ThresholdFor p asset)
      | _ \<Rightarrow> False)"

text \<open>The environment is the list of its \<open>KEY=value\<close> pairs, split.\<close>

definition threshold_var :: string where "threshold_var = ''COLD_WALLET_THRESHOLD''"

fun env_thresholds :: "(string \<Rightarrow> rat option) \<Rightarrow> (string \<times> string) list \<Rightarrow> cold_policy \<Rightarrow> cold_policy" where
  "env_thresholds pf [] p = p"
| "env_thresholds pf ((k, v) # env) p =
     env_thresholds pf env
       (if k \<noteq> [] \<and> HasPrefix k (threshold_var @ ''_'')
        then (case pf v of
                Some f \<Rightarrow> if 0 \<le> f then SetThreshold (drop (length threshold_var + 1) k) (Some (NewFloat f)) p else p
              | None \<Rightarrow> p)
        else p)"

definition ColdWalletPolicyFromEnv :: "(string \<Rightarrow> rat option) \<Rightarrow> (string, string) gomap \<Rightarrow> cold_policy" where
  "ColdWalletPolicyFromEnv pf env =
     (let p = NewColdWalletPolicy;
          q = (case gm_get env threshold_var of
                 None \<Rightarrow> p
               | Some v \<Rightarrow> if v = [] then p
                   else case pf v of Some f \<Rightarrow> if 0 \<le> f then p\<lparr>cp_Default := Some (NewFloat f)\<rparr> else p | None \<Rightarrow> p)
      in env_thresholds pf env q)"

section \<open>The signer\<close>

record cold_desc =
  cd_RefID :: string
  cd_WithdrawID :: string
  cd_Asset :: string
  cd_ToAddress :: string
  cd_Amount :: bf
  cd_FeeStrategy :: string
  cd_QueuedAt :: int

text \<open>The amount of a description is the decimal text of the float, here the float.\<close>

datatype cold_status = ColdQueued | ColdSignedOk | ColdSignFailed | OtherColdStatus "8 word"

fun cold_status_String :: "cold_status \<Rightarrow> string" where
  "cold_status_String ColdQueued = ''queued''"
| "cold_status_String ColdSignedOk = ''signed''"
| "cold_status_String ColdSignFailed = ''failed''"
| "cold_status_String (OtherColdStatus n) = ''unknown''"

record signed_tx =
  sg_RefID :: string
  sg_SignedRawTx :: string
  sg_SignerID :: string
  sg_SignedAt :: int
  sg_Error :: string

record sign_state =
  st_Status :: cold_status
  st_Signed :: "signed_tx option"

record cold_signer =
  cs_pending :: "(string, cold_desc) gomap"
  cs_signed :: "(string, signed_tx option) gomap"
  cs_faults :: "bool list"
  cs_ids :: "nat \<Rightarrow> string"
  cs_nid :: nat
  cs_now :: int

datatype cold_err = InvalidColdRef | ColdFileError | CorruptSignedFile

text \<open>\<open>strings.Contains(refID, "..")\<close>.\<close>

fun has_dotdot :: "string \<Rightarrow> bool" where
  "has_dotdot (a # b # cs) = (a = CHR ''.'' \<and> b = CHR ''.'' \<or> has_dotdot (b # cs))"
| "has_dotdot _ = False"

text \<open>A reference without separators is its own base name, and joining it to the directory stays in the directory; only the file of \<open>.\<close> starts like a parent directory.\<close>

definition refFilePath :: "string \<Rightarrow> string option" where
  "refFilePath refID =
     (if refID = [] \<or> CHR ''/'' \<in> set refID \<or> CHR 0x5C \<in> set refID \<or> has_dotdot refID \<or> HasPrefix (refID @ ''.json'') ''..''
      then None else Some (refID @ ''.json''))"

definition file_op :: "(cold_signer \<Rightarrow> (cold_err + 'a) \<times> cold_signer) \<Rightarrow> (cold_signer, cold_err, 'a) act" where
  "file_op f s =
     (case cs_faults s of
        True # fs \<Rightarrow> (Inl ColdFileError, s\<lparr>cs_faults := fs\<rparr>)
      | False # fs \<Rightarrow> f (s\<lparr>cs_faults := fs\<rparr>)
      | [] \<Rightarrow> f s)"

definition Queue :: "cold_desc \<Rightarrow> (cold_signer, cold_err, string) act" where
  "Queue d s =
     (let (i, s1) = (if cd_RefID d = [] then (''cold_'' @ cs_ids s (cs_nid s), s\<lparr>cs_nid := Suc (cs_nid s)\<rparr>) else (cd_RefID d, s))
      in case refFilePath i of
           None \<Rightarrow> (Inl InvalidColdRef, s1)
         | Some path \<Rightarrow>
             let d' = d\<lparr>cd_RefID := i, cd_QueuedAt := (if cd_QueuedAt d = 0 then cs_now s else cd_QueuedAt d)\<rparr>
             in file_op (\<lambda>s. (Inr i, s\<lparr>cs_pending := gm_put path d' (cs_pending s)\<rparr>)) s1)"

definition cold_Status :: "string \<Rightarrow> (cold_signer, cold_err, sign_state) act" where
  "cold_Status refID s =
     (if refID = [] then (Inl InvalidColdRef, s)
      else case refFilePath refID of
          None \<Rightarrow> (Inl InvalidColdRef, s)
        | Some path \<Rightarrow>
            file_op (\<lambda>s.
              (case gm_get (cs_signed s) path of
                 None \<Rightarrow> Inr \<lparr>st_Status = ColdQueued, st_Signed = None\<rparr>
               | Some None \<Rightarrow> Inl CorruptSignedFile
               | Some (Some g) \<Rightarrow>
                   if sg_Error g \<noteq> [] \<or> sg_SignedRawTx g = []
                   then Inr \<lparr>st_Status = ColdSignFailed, st_Signed = Some g\<rparr>
                   else Inr \<lparr>st_Status = ColdSignedOk, st_Signed = Some g\<rparr>, s)) s)"

lemma refFilePath_empty [simp]: "refFilePath [] = None"
  by (simp add: refFilePath_def)

text \<open>Two references never share a file.\<close>

lemma refFilePath_inj: "refFilePath a = Some p \<Longrightarrow> refFilePath b = Some p \<Longrightarrow> a = b"
  by (auto simp: refFilePath_def split: if_splits)

end
