(* ===== verification/Withdrawal.thy ===== *)
theory Withdrawal
  imports Wallet_Service Address_Whitelist Cold_Wallet
begin

text \<open>
  \<open>internal/wallet/withdrawal.go\<close>: the withdrawal service around the wallet service \<open>wd_svc\<close>. The blockchain clients are the
  parameters of \<open>chain\<close>: what the next submission answers, how many confirmations a hash has, which clients broadcast signed
  transactions; it records what was submitted. The price source, the lookup of the verification level and the loader of the
  limits are functions that may have no answer. The address book is the table of \<open>Address_Whitelist\<close> when a store is wired.
\<close>

section \<open>State\<close>

record withdrawal_limit =
  wl_UserID :: string
  wl_Asset :: string
  wl_DailyLimit :: "bf option"
  wl_WindowHours :: int

type_synonym platform_limits = "(int, bf option) gomap"

text \<open>A payment out of the hot wallet, or a signed transaction handed to the network.\<close>

datatype submission = HotPayment string string bf | SignedPayment string string

record chain =
  ch_answer :: "nat \<Rightarrow> string option"
  ch_count :: nat
  ch_sent :: "submission list"
  ch_conf :: "string \<Rightarrow> string \<Rightarrow> int option"
  ch_signed_ok :: "string \<Rightarrow> bool"

record wdsvc =
  wd_svc :: wsvc
  wd_book :: address_book
  wd_allow :: "allowlist option"
  wd_limits :: "(string, withdrawal_limit) gomap"
  wd_daily :: "(string, bf) gomap"
  wd_threshold :: "bf option"
  wd_signer :: "cold_signer option"
  wd_policy :: "cold_policy option"
  wd_feeStrategies :: "(string, string) gomap"
  wd_price :: "(string \<Rightarrow> bf option) option"
  wd_kyc :: "(string \<Rightarrow> int option) option"
  wd_loader :: "platform_limits option option"
  wd_platform :: platform_limits
  wd_kycCache :: "(string, int \<times> int) gomap"
  wd_confThresholds :: "(string, int) gomap"
  wd_chain :: chain
  wd_today :: string

datatype wd_err = WalletErr wallet_err | WdNotFound | NotAWithdrawal | AlreadyApproved | AlreadyRejected | NotApprovable
  | NotRejectable | NotApproved | NotBroadcast | NotAllowlisted | AllowlistFailed | PriceUnavailable | SaveFailed wallet_err
  | ReleaseFailed wallet_err | FinaliseFailed wallet_err | ColdSignerUnavailable | ColdTxNotSignedYet | ColdSignerErr cold_err
  | UnknownColdStatus | NotInColdFlow | CannotBroadcastSigned | BroadcastFailed | ConfirmationsFailed | LimitsNotLoaded

type_synonym 'a dact = "(wdsvc, wd_err, 'a) act"

definition NewWithdrawalService :: "wsvc \<Rightarrow> (string, int) gomap \<Rightarrow> chain \<Rightarrow> wdsvc" where
  "NewWithdrawalService svc confs ch =
     \<lparr>wd_svc = svc, wd_book = [], wd_allow = None, wd_limits = [], wd_daily = [], wd_threshold = Some (NewFloat 10000),
      wd_signer = None, wd_policy = None,
      wd_feeStrategies = [(''BTC'', ''satvbyte=auto''), (''ETH'', ''eip1559''), (''POLYGON'', ''eip1559'')],
      wd_price = None, wd_kyc = None, wd_loader = None, wd_platform = [], wd_kycCache = [], wd_confThresholds = confs,
      wd_chain = ch, wd_today = []\<rparr>"

definition SetReviewThreshold :: "bf option \<Rightarrow> wdsvc \<Rightarrow> wdsvc" where
  "SetReviewThreshold t s = s\<lparr>wd_threshold := wallet_copy t\<rparr>"

definition SetLimit :: "withdrawal_limit \<Rightarrow> wdsvc \<Rightarrow> wdsvc" where
  "SetLimit l s = s\<lparr>wd_limits := gm_put (book_key (wl_UserID l) (wl_Asset l)) l (wd_limits s)\<rparr>"

definition SetColdSigner :: "cold_signer option \<Rightarrow> cold_policy option \<Rightarrow> cold_policy \<Rightarrow> wdsvc \<Rightarrow> wdsvc" where
  "SetColdSigner signer policy fromEnv s =
     s\<lparr>wd_signer := signer, wd_policy := Some (case policy of Some p \<Rightarrow> p | None \<Rightarrow> fromEnv)\<rparr>"

definition SetColdFeeStrategy :: "string \<Rightarrow> string \<Rightarrow> wdsvc \<Rightarrow> wdsvc" where
  "SetColdFeeStrategy asset strategy s = s\<lparr>wd_feeStrategies := gm_put (ToUpper asset) strategy (wd_feeStrategies s)\<rparr>"

text \<open>The sources of prices, levels and limits, and the table of addresses, are wired by the caller.\<close>

definition SetPriceGetter :: "(string \<Rightarrow> bf option) option \<Rightarrow> wdsvc \<Rightarrow> wdsvc" where
  "SetPriceGetter pg s = s\<lparr>wd_price := pg\<rparr>"

definition SetKycLevelLookup :: "(string \<Rightarrow> int option) option \<Rightarrow> wdsvc \<Rightarrow> wdsvc" where
  "SetKycLevelLookup l s = s\<lparr>wd_kyc := l\<rparr>"

definition SetPlatformLimitLoader :: "platform_limits option option \<Rightarrow> wdsvc \<Rightarrow> wdsvc" where
  "SetPlatformLimitLoader l s = s\<lparr>wd_loader := l\<rparr>"

definition SetAddressWhitelistStore :: "allowlist option \<Rightarrow> wdsvc \<Rightarrow> wdsvc" where
  "SetAddressWhitelistStore al s = s\<lparr>wd_allow := al\<rparr>"

definition updateWithdrawalStatus :: "string \<Rightarrow> tx_status \<Rightarrow> wdsvc \<Rightarrow> (wd_err + unit) \<times> wdsvc" where
  "updateWithdrawalStatus i st s =
     (case on_db (UpdateTxStatus i st) (wd_svc s) of (Inl e, v) \<Rightarrow> (Inl (WalletErr e), s\<lparr>wd_svc := v\<rparr>) | (Inr u, v) \<Rightarrow> (Inr (), s\<lparr>wd_svc := v\<rparr>))"

definition ReloadPlatformLimits :: "unit dact" where
  "ReloadPlatformLimits s =
     (case wd_loader s of
        None \<Rightarrow> (Inr (), s)
      | Some None \<Rightarrow> (Inl LimitsNotLoaded, s)
      | Some (Some m) \<Rightarrow> (Inr (), s\<lparr>wd_platform := m\<rparr>))"

definition InvalidateKycLevelCache :: "string \<Rightarrow> wdsvc \<Rightarrow> wdsvc" where
  "InvalidateKycLevelCache userID s = s\<lparr>wd_kycCache := gm_del userID (wd_kycCache s)\<rparr>"

text \<open>A call of the wallet service, one of its store, and one of the table of addresses.\<close>

definition on_svc :: "(wallet_err \<Rightarrow> wd_err) \<Rightarrow> 'a wact \<Rightarrow> 'a dact" where
  "on_svc f m s = (case m (wd_svc s) of (Inl e, v) \<Rightarrow> (Inl (f e), s\<lparr>wd_svc := v\<rparr>) | (Inr x, v) \<Rightarrow> (Inr x, s\<lparr>wd_svc := v\<rparr>))"

definition wal :: "(wallet_err \<Rightarrow> wd_err) \<Rightarrow> (pg, wallet_err, 'a) act \<Rightarrow> 'a dact" where
  "wal f m = on_svc f (on_db m)"

definition on_allow :: "(allowlist, unit, 'a) act \<Rightarrow> allowlist \<Rightarrow> 'a dact" where
  "on_allow m al s =
     (case m al of (Inl e, al') \<Rightarrow> (Inl AllowlistFailed, s\<lparr>wd_allow := Some al'\<rparr>) | (Inr x, al') \<Rightarrow> (Inr x, s\<lparr>wd_allow := Some al'\<rparr>))"

definition on_signer :: "(cold_signer, cold_err, 'a) act \<Rightarrow> 'a dact" where
  "on_signer m s =
     (case wd_signer s of
        None \<Rightarrow> (Inl ColdSignerUnavailable, s)
      | Some c \<Rightarrow> (case m c of (Inl e, c') \<Rightarrow> (Inl (ColdSignerErr e), s\<lparr>wd_signer := Some c'\<rparr>)
                  | (Inr x, c') \<Rightarrow> (Inr x, s\<lparr>wd_signer := Some c'\<rparr>)))"

definition clientFor :: "string \<Rightarrow> (string \<Rightarrow> bool) dact" where
  "clientFor asset s =
     (case gm_get (ws_clients (wd_svc s)) asset of None \<Rightarrow> (Inl (WalletErr UnsupportedAsset), s) | Some c \<Rightarrow> (Inr c, s))"

section \<open>The address book\<close>

definition AddAddress :: "address_entry \<Rightarrow> string \<Rightarrow> bool dact" where
  "AddAddress e createdBy =
     abind (if ae_ID e = [] then on_svc WalletErr new_uuid else ret (ae_ID e)) (\<lambda>i s.
       let e' = e\<lparr>ae_Asset := ToUpper (TrimSpace (ae_Asset e)), ae_Address := TrimSpace (ae_Address e), ae_ID := i,
                  ae_CreatedAt := (if ae_CreatedAt e = 0 then ws_now (wd_svc s) else ae_CreatedAt e)\<rparr>
       in case wd_allow s of
            Some al \<Rightarrow> on_allow (AddWhitelistAddress e' createdBy) al s
          | None \<Rightarrow> (let (ok, b) = book_add e' (wd_book s) in (Inr ok, s\<lparr>wd_book := b\<rparr>)))"

definition RemoveAddress :: "string \<Rightarrow> string \<Rightarrow> string \<Rightarrow> bool dact" where
  "RemoveAddress userID asset address s =
     (let a = ToUpper (TrimSpace asset); d = TrimSpace address
      in case wd_allow s of
           Some al \<Rightarrow> on_allow (RemoveWhitelistAddress userID a d) al s
         | None \<Rightarrow> (let (ok, b) = book_remove userID a d (wd_book s) in (Inr ok, s\<lparr>wd_book := b\<rparr>)))"

definition whitelisted :: "string \<Rightarrow> string \<Rightarrow> string \<Rightarrow> bool dact" where
  "whitelisted userID asset address s =
     (let a = ToUpper (TrimSpace asset); d = TrimSpace address
      in case wd_allow s of
           Some al \<Rightarrow> on_allow (ContainsWhitelistedAddress userID a d) al s
         | None \<Rightarrow> (Inr (book_contains userID a d (wd_book s)), s))"

definition IsWhitelisted :: "string \<Rightarrow> string \<Rightarrow> string \<Rightarrow> wdsvc \<Rightarrow> bool \<times> wdsvc" where
  "IsWhitelisted userID asset address s =
     (case whitelisted userID asset address s of (Inl e, s') \<Rightarrow> (False, s') | (Inr ok, s') \<Rightarrow> (ok, s'))"

definition ListAddresses :: "string \<Rightarrow> string \<Rightarrow> address_entry list dact" where
  "ListAddresses userID asset s =
     (let a = ToUpper (TrimSpace asset)
      in case wd_allow s of
           Some al \<Rightarrow> on_allow (ListWhitelistAddresses userID a) al s
         | None \<Rightarrow> (Inr (book_list userID a (wd_book s)), s))"

section \<open>Daily limits\<close>

definition positive :: "bf option \<Rightarrow> bool" where
  "positive x \<longleftrightarrow> (case x of None \<Rightarrow> False | Some v \<Rightarrow> 0 < bf_sign v)"

text \<open>The cached level lives for 60 seconds; no answer is level 0.\<close>

definition kycLevelCached :: "string \<Rightarrow> wdsvc \<Rightarrow> int \<times> wdsvc" where
  "kycLevelCached userID s =
     (let now = ws_now (wd_svc s);
          level = (case wd_kyc s of None \<Rightarrow> 0 | Some f \<Rightarrow> (case f userID of None \<Rightarrow> 0 | Some l \<Rightarrow> l));
          fresh = (level, s\<lparr>wd_kycCache := gm_put userID (level, now + 60 * 1000000000) (wd_kycCache s)\<rparr>)
      in case gm_get (wd_kycCache s) userID of
           None \<Rightarrow> fresh
         | Some (l, expires) \<Rightarrow> if now < expires then (l, s) else fresh)"

definition defaultDailyLimitUSDT :: rat where "defaultDailyLimitUSDT = 1000"

definition resolveDailyLimitUSDT :: "string \<Rightarrow> string \<Rightarrow> wdsvc \<Rightarrow> bf \<times> wdsvc" where
  "resolveDailyLimitUSDT userID asset s =
     (let personal = (case gm_get (wd_limits s) (book_key userID asset) of None \<Rightarrow> None | Some l \<Rightarrow> wl_DailyLimit l)
      in if positive personal then (the personal, s)
         else let (level, s') = kycLevelCached userID s;
                  tier = Option.bind (gm_get (wd_platform s) level) (\<lambda>x. x);
                  base = Option.bind (gm_get (wd_platform s) 0) (\<lambda>x. x)
              in (if positive tier then the tier else if positive base then the base else NewFloat defaultDailyLimitUSDT, s'))"

definition stableAssets :: "string list" where
  "stableAssets = [''USDT'', ''USDC'', ''DAI'', ''BUSD'', ''TUSD'']"

definition usdtEquivalent :: "string \<Rightarrow> bf \<Rightarrow> wdsvc \<Rightarrow> bf option" where
  "usdtEquivalent asset amount s =
     (let up = ToUpper asset
      in if up \<in> set stableAssets then Some amount
         else case wd_price s of
             None \<Rightarrow> None
           | Some f \<Rightarrow> let price = f (up @ ''/USDT'') in if positive price then Some (bf_mul new_float amount (the price)) else None)"

text \<open>The PostgreSQL store has the daily meter; without a store there is none.\<close>

definition releaseDailyUsageBestEffort :: "string \<Rightarrow> string \<Rightarrow> bf \<Rightarrow> wdsvc \<Rightarrow> wdsvc" where
  "releaseDailyUsageBestEffort userID asset amount s =
     (if no_store (wd_svc s) \<or> wd_price s = None then s
      else case usdtEquivalent asset amount s of
          None \<Rightarrow> s
        | Some eq \<Rightarrow> snd (wal WalletErr (ReleaseDailyUsage userID asset (Some eq)) s))"

definition daily_key :: "string \<Rightarrow> string \<Rightarrow> string \<Rightarrow> string" where
  "daily_key userID asset today = userID @ '':'' @ asset @ '':'' @ today"

definition daily_used :: "string \<Rightarrow> string \<Rightarrow> wdsvc \<Rightarrow> bf" where
  "daily_used userID asset s =
     (case gm_get (wd_daily s) (daily_key userID asset (wd_today s)) of None \<Rightarrow> NewFloat 0 | Some v \<Rightarrow> v)"

definition within_daily_limit :: "string \<Rightarrow> string \<Rightarrow> bf \<Rightarrow> wdsvc \<Rightarrow> bool" where
  "within_daily_limit userID asset amount s =
     (case gm_get (wd_limits s) (book_key userID asset) of
        None \<Rightarrow> True
      | Some l \<Rightarrow> if positive (wl_DailyLimit l)
          then bf_cmp (bf_add new_float (daily_used userID asset s) amount) (the (wl_DailyLimit l)) \<le> 0 else True)"

definition recordDailyWithdrawn :: "string \<Rightarrow> string \<Rightarrow> bf \<Rightarrow> wdsvc \<Rightarrow> wdsvc" where
  "recordDailyWithdrawn userID asset amount s =
     (let u = daily_used userID asset s
      in s\<lparr>wd_daily := gm_put (daily_key userID asset (wd_today s)) (bf_add u u amount) (wd_daily s)\<rparr>)"

section \<open>Requesting a withdrawal\<close>

text \<open>The format of the address, the verdict of the client, and the address book.\<close>

definition check_destination :: "string \<Rightarrow> string \<Rightarrow> string \<Rightarrow> unit dact" where
  "check_destination userID asset address =
     abind (clientFor asset) (\<lambda>isValidAddress s.
       (case ValidateWithdrawalAddress (ws_sha (wd_svc s)) (ws_keccak (wd_svc s)) asset address of
          Done ok \<Rightarrow>
            if \<not> ok \<or> \<not> isValidAddress address then (Inl (WalletErr InvalidAddress), s)
            else abind (whitelisted userID asset address) (\<lambda>ok. if ok then ret () else throw NotAllowlisted) s
        | _ \<Rightarrow> (Inl (WalletErr GoPanic), s)))"

text \<open>The funds and the daily limit: in one transaction on the database, or first the limit in memory and then the funds.\<close>

definition reserve_withdrawal :: "string \<Rightarrow> string \<Rightarrow> bf \<Rightarrow> (wallet \<times> bf option) dact" where
  "reserve_withdrawal userID asset amount s =
     (if \<not> no_store (wd_svc s) \<and> wd_price s \<noteq> None then
        let (limit, s1) = resolveDailyLimitUSDT userID asset s
        in (case usdtEquivalent asset amount s1 of
              None \<Rightarrow> (Inl PriceUnavailable, s1)
            | Some eq \<Rightarrow>
                abind (wal WalletErr (ReserveWithDailyLimit userID asset (Some amount) (Some eq) limit)) (\<lambda>w. ret (w, Some eq)) s1)
      else if \<not> within_daily_limit userID asset amount s then (Inl (WalletErr DailyLimitExceeded), s)
      else abind (wal WalletErr (ReserveForOrder userID asset (Some amount))) (\<lambda>w. ret (w, None)) s)"

definition initial_status :: "bf \<Rightarrow> wdsvc \<Rightarrow> tx_status" where
  "initial_status amount s =
     (if positive (wd_threshold s) \<and> 0 \<le> bf_cmp amount (the (wd_threshold s)) then Reviewing else Pending)"

text \<open>The row cannot be saved: the funds are unlocked and the meter is credited, whatever comes of it.\<close>

definition undo_reserve :: "string \<Rightarrow> string \<Rightarrow> bf \<Rightarrow> bf option \<Rightarrow> wdsvc \<Rightarrow> wdsvc" where
  "undo_reserve userID asset amount eq s =
     (let s1 = snd (wal WalletErr (pg_Settle [unlock_op userID asset amount] []) s)
      in case eq of None \<Rightarrow> s1 | Some u \<Rightarrow> snd (wal WalletErr (ReleaseDailyUsage userID asset (Some u)) s1))"

definition record_withdrawal :: "string \<Rightarrow> string \<Rightarrow> string \<Rightarrow> bf \<Rightarrow> wallet \<Rightarrow> bf option \<Rightarrow> tx dact" where
  "record_withdrawal userID asset address amount w eq =
     abind (on_svc WalletErr new_uuid) (\<lambda>u s.
       let t = (new_tx (''wd_'' @ u) userID asset WithdrawalTx amount (initial_status amount s) (ws_now (wd_svc s)))
                 \<lparr>x_WalletID := wa_ID w, x_ToAddress := address\<rparr>
       in case wal SaveFailed (SaveTx t) s of
            (Inl e, s1) \<Rightarrow> (Inl e, undo_reserve userID asset amount eq s1)
          | (Inr v, s1) \<Rightarrow> (Inr t, if eq = None then recordDailyWithdrawn userID asset amount s1 else s1))"

definition RequestWithdrawal :: "string \<Rightarrow> string \<Rightarrow> string \<Rightarrow> bf option \<Rightarrow> tx dact" where
  "RequestWithdrawal userID asset address amount =
     (case amount of
        None \<Rightarrow> throw (WalletErr NegativeAmount)
      | Some a \<Rightarrow>
          if bf_sign a \<le> 0 then throw (WalletErr NegativeAmount)
          else abind (check_destination userID asset address) (\<lambda>_.
               abind (reserve_withdrawal userID asset a) (\<lambda>(w, eq). record_withdrawal userID asset address a w eq)))"

definition Withdraw :: "string \<Rightarrow> string \<Rightarrow> string \<Rightarrow> bf option \<Rightarrow> unit dact" where
  "Withdraw userID asset address amount = abind (RequestWithdrawal userID asset address amount) (\<lambda>t. ret ())"

section \<open>Review\<close>

text \<open>The row of a withdrawal; any failure of the lookup is reported by \<open>f\<close>.\<close>

definition load_withdrawal :: "(wallet_err \<Rightarrow> wd_err) \<Rightarrow> string \<Rightarrow> tx dact" where
  "load_withdrawal f i = abind (wal f (GetTx i)) (\<lambda>t. if x_Type t \<noteq> WithdrawalTx then throw NotAWithdrawal else ret t)"

definition ApproveWithdrawal :: "string \<Rightarrow> unit dact" where
  "ApproveWithdrawal i =
     abind (load_withdrawal (\<lambda>_. WdNotFound) i) (\<lambda>t.
       if x_Status t \<in> {Pending, Reviewing} then
         abind (wal WalletErr (UpdateTxStatusFrom i [Pending, Reviewing] Approved)) (\<lambda>ok. if ok then ret () else throw NotApprovable)
       else if x_Status t \<in> {Approved, Broadcast, Confirming, Completed, ColdSigning, ColdSigned} then throw AlreadyApproved
       else if x_Status t = RejectedTx then throw AlreadyRejected
       else throw NotApprovable)"

definition release_rejected :: "string \<Rightarrow> tx \<Rightarrow> unit dact" where
  "release_rejected i t s =
     (case wal ReleaseFailed (pg_Settle [unlock_op (x_UserID t) (x_Asset t) (x_Amount t)] []) s of
        (Inl e, s1) \<Rightarrow> (Inl e, snd (wal WalletErr (UpdateTxStatus i (x_Status t)) s1))
      | (Inr u, s1) \<Rightarrow> (Inr (), releaseDailyUsageBestEffort (x_UserID t) (x_Asset t) (x_Amount t) s1))"

definition RejectWithdrawal :: "string \<Rightarrow> unit dact" where
  "RejectWithdrawal i =
     abind (load_withdrawal (\<lambda>_. WdNotFound) i) (\<lambda>t.
       if x_Status t = RejectedTx then throw AlreadyRejected
       else if x_Status t \<notin> {Pending, Reviewing, ColdSigning} then throw NotRejectable
       else abind (wal WalletErr (UpdateTxStatusFrom i [Pending, Reviewing, ColdSigning] RejectedTx)) (\<lambda>ok.
         if ok then release_rejected i t else throw NotRejectable))"

section \<open>Listing\<close>

definition GetWithdrawal :: "string \<Rightarrow> tx dact" where
  "GetWithdrawal i = wal WalletErr (GetTx i)"

definition ListByStatus :: "tx_status \<Rightarrow> nat \<Rightarrow> nat \<Rightarrow> tx list dact" where
  "ListByStatus st limit offset = wal WalletErr (ListTxByStatus st limit offset)"

definition batch_limit :: "int \<Rightarrow> nat" where
  "batch_limit limit = nat (if limit \<le> 0 \<or> 1000 < limit then 100 else limit)"

fun list_statuses :: "tx_status list \<Rightarrow> nat \<Rightarrow> tx list dact" where
  "list_statuses [] limit = ret []"
| "list_statuses (st # sts) limit =
     abind (ListByStatus st limit 0) (\<lambda>ts. abind (list_statuses sts limit) (\<lambda>us. ret (ts @ us)))"

definition ListPendingWithdrawals :: "int \<Rightarrow> tx list dact" where
  "ListPendingWithdrawals limit =
     list_statuses [Pending, Reviewing, Approved, Broadcast, ColdSigning, ColdSigned] (batch_limit limit)"

definition ListUserWithdrawals :: "string \<Rightarrow> nat \<Rightarrow> nat \<Rightarrow> tx list dact" where
  "ListUserWithdrawals userID limit offset =
     abind (wal WalletErr (ListTx userID limit offset)) (\<lambda>ts. ret (filter (\<lambda>t. x_Type t = WithdrawalTx) ts))"

section \<open>Broadcasting\<close>

text \<open>A submission to the network: the client answers with a hash, or fails and has submitted nothing.\<close>

definition submit :: "submission \<Rightarrow> string dact" where
  "submit x s =
     (let c = wd_chain s; n = ch_count c
      in case ch_answer c n of
           None \<Rightarrow> (Inl BroadcastFailed, s\<lparr>wd_chain := c\<lparr>ch_count := Suc n\<rparr>\<rparr>)
         | Some h \<Rightarrow> (Inr h, s\<lparr>wd_chain := c\<lparr>ch_count := Suc n, ch_sent := ch_sent c @ [x]\<rparr>\<rparr>))"

definition save_status :: "tx \<Rightarrow> unit dact" where
  "save_status t = wal WalletErr (SaveTx t)"

definition coldRequired :: "tx \<Rightarrow> wdsvc \<Rightarrow> bool" where
  "coldRequired t s \<longleftrightarrow> wd_signer s \<noteq> None \<and> RequiresCold (wd_policy s) (x_Asset t) (Some (x_Amount t))"

definition queueColdWithdrawal :: "tx \<Rightarrow> unit dact" where
  "queueColdWithdrawal t s =
     (let d = \<lparr>cd_RefID = [], cd_WithdrawID = x_ID t, cd_Asset = x_Asset t, cd_ToAddress = x_ToAddress t, cd_Amount = x_Amount t,
               cd_FeeStrategy = (case gm_get (wd_feeStrategies s) (ToUpper (x_Asset t)) of None \<Rightarrow> [] | Some f \<Rightarrow> f),
               cd_QueuedAt = 0\<rparr>
      in abind (on_signer (Queue d)) (\<lambda>ref. save_status (t\<lparr>x_ColdRef := ref, x_Status := ColdSigning\<rparr>)) s)"

definition BroadcastWithdrawal :: "string \<Rightarrow> unit dact" where
  "BroadcastWithdrawal i =
     abind (load_withdrawal WalletErr i) (\<lambda>t s.
       if x_Status t \<noteq> Approved then (Inl NotApproved, s)
       else if coldRequired t s then queueColdWithdrawal t s
       else abind (clientFor (x_Asset t)) (\<lambda>_.
            abind (submit (HotPayment (x_Asset t) (x_ToAddress t) (x_Amount t))) (\<lambda>h.
              save_status (t\<lparr>x_TxHash := h, x_Status := Broadcast\<rparr>))) s)"

text \<open>A pass over a batch: a withdrawal that fails is logged, and the next one is tried.\<close>

fun try_each :: "('a \<Rightarrow> unit dact) \<Rightarrow> 'a list \<Rightarrow> wdsvc \<Rightarrow> wdsvc" where
  "try_each f [] s = s"
| "try_each f (x # xs) s = try_each f xs (snd (f x s))"

definition pass :: "tx_status \<Rightarrow> (string \<Rightarrow> unit dact) \<Rightarrow> int \<Rightarrow> unit dact" where
  "pass st f limit = abind (ListByStatus st (batch_limit limit) 0) (\<lambda>ts s. (Inr (), try_each f (map x_ID ts) s))"

definition ProcessApprovedWithdrawals :: "int \<Rightarrow> unit dact" where
  "ProcessApprovedWithdrawals limit = pass Approved BroadcastWithdrawal limit"

section \<open>The cold flow\<close>

text \<open>Only a client that can broadcast signed transactions may; the hot wallet is never the way out.\<close>

definition send_signed :: "tx \<Rightarrow> string \<Rightarrow> unit dact" where
  "send_signed t raw =
     abind (clientFor (x_Asset t)) (\<lambda>_ s.
       if ch_signed_ok (wd_chain s) (x_Asset t)
       then abind (submit (SignedPayment (x_Asset t) raw)) (\<lambda>h. save_status (t\<lparr>x_TxHash := h, x_Status := Broadcast\<rparr>)) s
       else (Inl CannotBroadcastSigned, s))"

definition broadcastColdSigned :: "tx \<Rightarrow> unit dact" where
  "broadcastColdSigned t =
     abind (on_signer (cold_Status (x_ColdRef t))) (\<lambda>st.
       case (st_Status st, st_Signed st) of
         (ColdSignedOk, Some g) \<Rightarrow> if sg_SignedRawTx g = [] then throw ColdTxNotSignedYet else send_signed t (sg_SignedRawTx g)
       | _ \<Rightarrow> throw ColdTxNotSignedYet)"

definition cold_failed :: "tx \<Rightarrow> unit dact" where
  "cold_failed t =
     abind (save_status (t\<lparr>x_Status := Failed\<rparr>)) (\<lambda>_.
     abind (wal WalletErr (pg_Settle [unlock_op (x_UserID t) (x_Asset t) (x_Amount t)] [])) (\<lambda>_ s.
       (Inr (), releaseDailyUsageBestEffort (x_UserID t) (x_Asset t) (x_Amount t) s)))"

definition AdvanceColdWithdrawal :: "string \<Rightarrow> unit dact" where
  "AdvanceColdWithdrawal i =
     abind (load_withdrawal WalletErr i) (\<lambda>t.
       if x_Status t = ColdSigning then
         abind (on_signer (cold_Status (x_ColdRef t))) (\<lambda>st.
           case st_Status st of
             ColdQueued \<Rightarrow> throw ColdTxNotSignedYet
           | ColdSignFailed \<Rightarrow> cold_failed t
           | ColdSignedOk \<Rightarrow> save_status (t\<lparr>x_Status := ColdSigned\<rparr>)
           | OtherColdStatus n \<Rightarrow> throw UnknownColdStatus)
       else if x_Status t = ColdSigned then broadcastColdSigned t
       else throw NotInColdFlow)"

text \<open>Up to two steps for one withdrawal, while it is in the cold flow and the step succeeds.\<close>

fun cold_steps :: "nat \<Rightarrow> string \<Rightarrow> wdsvc \<Rightarrow> wdsvc" where
  "cold_steps 0 i s = s"
| "cold_steps (Suc n) i s =
     (case wal WalletErr (GetTx i) s of
        (Inl e, s1) \<Rightarrow> s1
      | (Inr t, s1) \<Rightarrow>
          if x_Status t \<noteq> ColdSigning \<and> x_Status t \<noteq> ColdSigned then s1
          else (case AdvanceColdWithdrawal i s1 of (Inl e, s2) \<Rightarrow> s2 | (Inr u, s2) \<Rightarrow> cold_steps n i s2))"

definition ProcessColdWithdrawals :: "int \<Rightarrow> unit dact" where
  "ProcessColdWithdrawals limit =
     abind (list_statuses [ColdSigning, ColdSigned] (batch_limit limit)) (\<lambda>ts s.
       (Inr (), fold (cold_steps 2) (map x_ID ts) s))"

section \<open>Confirming\<close>

definition confThreshold :: "string \<Rightarrow> wdsvc \<Rightarrow> int" where
  "confThreshold asset s = (case gm_get (wd_confThresholds s) asset of Some n \<Rightarrow> n | None \<Rightarrow> 6)"

definition final_op :: "tx \<Rightarrow> settle_op" where
  "final_op t = \<lparr>so_UserID = x_UserID t, so_Asset = x_Asset t, so_AccountType = [], so_Unlock = Some (x_Amount t),
     so_Delta = Some (bf_neg new_float (x_Amount t))\<rparr>"

definition ConfirmWithdrawal :: "string \<Rightarrow> unit dact" where
  "ConfirmWithdrawal i =
     abind (load_withdrawal WalletErr i) (\<lambda>t.
       if x_Status t \<noteq> Broadcast then throw NotBroadcast
       else abind (clientFor (x_Asset t)) (\<lambda>_ s.
         case ch_conf (wd_chain s) (x_Asset t) (x_TxHash t) of
           None \<Rightarrow> (Inl ConfirmationsFailed, s)
         | Some conf \<Rightarrow>
             if conf < confThreshold (x_Asset t) s then (Inr (), s)
             else abind (wal FinaliseFailed (pg_Settle [final_op t] [])) (\<lambda>_.
               save_status (t\<lparr>x_Confirmations := conf, x_Status := Completed\<rparr>)) s))"

definition ProcessBroadcastWithdrawals :: "int \<Rightarrow> unit dact" where
  "ProcessBroadcastWithdrawals limit = pass Broadcast ConfirmWithdrawal limit"

end
