(* ===== verification/Withdrawal_Runs.thy ===== *)
theory Withdrawal_Runs
  imports Withdrawal
begin

text \<open>
  Calls of the withdrawal service as commands, and the interface of an invariant over them: a relation between the states before and
  after that every single operation establishes is established by the passes over many withdrawals, and by every command.
\<close>

datatype wd_cmd = Request string string string "bf option" | Approve string | Reject string | BroadcastOne string
  | Advance string | Confirm string | ApprovedPass int | ColdPass int | BroadcastPass int

fun wd_exec :: "wd_cmd \<Rightarrow> wdsvc \<Rightarrow> wdsvc" where
  "wd_exec (Request u a d x) s = snd (RequestWithdrawal u a d x s)"
| "wd_exec (Approve i) s = snd (ApproveWithdrawal i s)"
| "wd_exec (Reject i) s = snd (RejectWithdrawal i s)"
| "wd_exec (BroadcastOne i) s = snd (BroadcastWithdrawal i s)"
| "wd_exec (Advance i) s = snd (AdvanceColdWithdrawal i s)"
| "wd_exec (Confirm i) s = snd (ConfirmWithdrawal i s)"
| "wd_exec (ApprovedPass n) s = snd (ProcessApprovedWithdrawals n s)"
| "wd_exec (ColdPass n) s = snd (ProcessColdWithdrawals n s)"
| "wd_exec (BroadcastPass n) s = snd (ProcessBroadcastWithdrawals n s)"

locale withdrawal_runs =
  fixes good :: "wdsvc \<Rightarrow> bool"
    and rel :: "wdsvc \<Rightarrow> wdsvc \<Rightarrow> bool"
    and may :: "wdsvc \<Rightarrow> bf option \<Rightarrow> bool"
  assumes rel_refl: "good s \<Longrightarrow> rel s s"
    and rel_good: "rel s s' \<Longrightarrow> good s'"
    and rel_trans: "rel s s1 \<Longrightarrow> rel s1 s2 \<Longrightarrow> rel s s2"
    and get_rel: "wal WalletErr (GetTx i) s = (q, s') \<Longrightarrow> good s \<Longrightarrow> rel s s'"
    and list_rel: "ListByStatus st n k s = (l, s') \<Longrightarrow> good s \<Longrightarrow> rel s s'"
    and approve_rel: "ApproveWithdrawal i s = (r, s') \<Longrightarrow> good s \<Longrightarrow> rel s s'"
    and reject_rel: "RejectWithdrawal i s = (r, s') \<Longrightarrow> good s \<Longrightarrow> rel s s'"
    and broadcast_rel: "BroadcastWithdrawal i s = (r, s') \<Longrightarrow> good s \<Longrightarrow> rel s s'"
    and advance_rel: "AdvanceColdWithdrawal i s = (r, s') \<Longrightarrow> good s \<Longrightarrow> rel s s'"
    and confirm_rel: "ConfirmWithdrawal i s = (r, s') \<Longrightarrow> good s \<Longrightarrow> rel s s'"
    and request_rel: "RequestWithdrawal u a d x s = (rr, s') \<Longrightarrow> good s \<Longrightarrow> may s x \<Longrightarrow> rel s s'"
begin

lemma snd_rel: "(\<And>r s'. p = (r, s') \<Longrightarrow> rel s s') \<Longrightarrow> rel s (snd p)"
  by (cases p) simp

lemma try_each_rel:
  assumes "good s" "\<And>x s r s'. f x s = (r, s') \<Longrightarrow> good s \<Longrightarrow> rel s s'"
  shows "rel s (try_each f xs s)"
  using assms(1)
proof (induction xs arbitrary: s)
  case Nil
  then show ?case by (simp add: rel_refl)
next
  case (Cons x xs)
  have "rel s (snd (f x s))" using assms(2) Cons.prems by (cases "f x s") simp
  then show ?case using Cons.IH rel_trans rel_good by fastforce
qed

lemma pass_rel:
  assumes "good s" "\<And>x s r s'. f x s = (r, s') \<Longrightarrow> good s \<Longrightarrow> rel s s'"
  shows "rel s (snd (pass st f n s))"
proof -
  obtain q s1 where q: "ListByStatus st (batch_limit n) 0 s = (q, s1)" by fastforce
  have 1: "rel s s1" using list_rel [OF q assms(1)] .
  show ?thesis
  proof (cases q)
    case (Inl e)
    then show ?thesis using q 1 by (simp add: pass_def)
  next
    case (Inr ts)
    have "rel s1 (try_each f (map x_ID ts) s1)" by (rule try_each_rel [OF rel_good [OF 1] assms(2)])
    then show ?thesis using q 1 Inr rel_trans by (simp add: pass_def)
  qed
qed

lemma cold_steps_rel: "good s \<Longrightarrow> rel s (cold_steps n i s)"
proof (induction n arbitrary: s)
  case 0
  then show ?case by (simp add: rel_refl)
next
  case (Suc n)
  obtain q s1 where q: "wal WalletErr (GetTx i) s = (q, s1)" by fastforce
  obtain p s2 where p: "AdvanceColdWithdrawal i s1 = (p, s2)" by fastforce
  have 1: "rel s s1" using get_rel [OF q Suc.prems] .
  have 2: "rel s1 s2" using advance_rel [OF p] 1 rel_good by blast
  have 3: "rel s2 (cold_steps n i s2)" using Suc.IH 2 rel_good by blast
  have "cold_steps (Suc n) i s \<in> {s1, s2, cold_steps n i s2}" using q p by (auto split: sum.splits)
  then show ?case using 1 rel_trans [OF 1 2] rel_trans [OF rel_trans [OF 1 2] 3] by auto
qed

lemma list_statuses_rel: "list_statuses sts n s = (r, s') \<Longrightarrow> good s \<Longrightarrow> rel s s'"
proof (induction sts arbitrary: s r s')
  case (Cons st sts)
  obtain q s1 where q: "ListByStatus st n 0 s = (q, s1)" by fastforce
  obtain p s2 where p: "list_statuses sts n s1 = (p, s2)" by fastforce
  have "s' = s1 \<or> s' = s2" using Cons.prems q p by (auto simp: abind_def split: sum.splits)
  then show ?case using list_rel [OF q] Cons.IH [OF p] Cons.prems(2) rel_good rel_trans by blast
qed (simp add: rel_refl)

lemma cold_pass_rel:
  assumes "good s"
  shows "rel s (snd (ProcessColdWithdrawals n s))"
proof -
  have f: "rel t (fold (cold_steps 2) is t)" if "good t" for "is" t
    using that
  proof (induction "is" arbitrary: t)
    case (Cons i "is")
    have "rel t (cold_steps 2 i t)" using Cons.prems by (rule cold_steps_rel)
    then show ?case using Cons.IH rel_good rel_trans by fastforce
  qed (simp add: rel_refl)
  obtain q s1 where q: "list_statuses [ColdSigning, ColdSigned] (batch_limit n) s = (q, s1)" by fastforce
  have 1: "rel s s1" using list_statuses_rel [OF q assms] .
  show ?thesis
  proof (cases q)
    case (Inl e)
    then have "snd (ProcessColdWithdrawals n s) = s1" using q unfolding ProcessColdWithdrawals_def by simp
    then show ?thesis using 1 by simp
  next
    case (Inr ts)
    then have "snd (ProcessColdWithdrawals n s) = fold (cold_steps 2) (map x_ID ts) s1"
      using q unfolding ProcessColdWithdrawals_def by simp
    then show ?thesis using rel_trans [OF 1 f [OF rel_good [OF 1]]] by simp
  qed
qed

lemma exec_rel:
  assumes "good s" "case c of Request u a d x \<Rightarrow> may s x | _ \<Rightarrow> True"
  shows "rel s (wd_exec c s)"
proof (cases c)
  case (ApprovedPass n)
  then show ?thesis using pass_rel [OF assms(1) broadcast_rel] by (simp add: ProcessApprovedWithdrawals_def)
next
  case (BroadcastPass n)
  then show ?thesis using pass_rel [OF assms(1) confirm_rel] by (simp add: ProcessBroadcastWithdrawals_def)
next
  case (Request u a d x)
  then show ?thesis using snd_rel [OF request_rel] assms by simp
qed (use cold_pass_rel [OF assms(1)] snd_rel [OF approve_rel] snd_rel [OF reject_rel] snd_rel [OF broadcast_rel]
  snd_rel [OF advance_rel] snd_rel [OF confirm_rel] assms(1) in simp_all)

text \<open>Runs: commands, mixed with whatever else the relation allows.\<close>

lemma runs_rel:
  assumes "(\<lambda>s s'. rel s s' \<or> (\<exists>c. (case c of Request u a d x \<Rightarrow> may s x | _ \<Rightarrow> True) \<and> s' = wd_exec c s))\<^sup>*\<^sup>* s s'" "good s"
  shows "rel s s'"
  using assms
proof (induction rule: rtranclp_induct)
  case base
  then show ?case by (rule rel_refl)
next
  case (step s1 s2)
  then have "rel s s1" by simp
  moreover have "rel s1 s2" using step(2) exec_rel rel_good [OF \<open>rel s s1\<close>] by blast
  ultimately show ?case by (rule rel_trans)
qed

end

end
