(* ===== verification/Withdrawal_Lifecycle.thy ===== *)
theory Withdrawal_Lifecycle
  imports Withdrawal_Runs Wallet_Properties
begin

text \<open>
  The life of a withdrawal: every operation of the service moves a recorded withdrawal along the edges of one state machine and
  leaves the rest of its record alone, whatever statements fail on the way.
\<close>

section \<open>The transactions table under the operations of the store\<close>

definition tx_at :: "pg \<Rightarrow> string \<Rightarrow> tx option" where
  "tx_at s = gm_get (db_txs s)"

lemma tx_at_frame [simp]:
  "tx_at (s\<lparr>db_faults := fs\<rparr>) = tx_at s" "tx_at (s\<lparr>db_nid := n\<rparr>) = tx_at s" "tx_at (s\<lparr>db_usage := us\<rparr>) = tx_at s"
  "tx_at (s\<lparr>db_wallets := ws\<rparr>) = tx_at s"
  by (simp_all add: tx_at_def)

lemma GetTx_txs:
  assumes "GetTx i s = (r, s')"
  shows "tx_at s' = tx_at s \<and> (\<forall>t. r = Inr t \<longrightarrow> tx_at s i = Some t)"
  using assms by (auto simp: GetTx_def abind_def tx_at_def throw_def ret_def elim!: stmt_cases
      split: prod.splits sum.splits option.splits)

definition lifecycle_of :: "tx \<Rightarrow> tx \<Rightarrow> tx" where
  "lifecycle_of t old = old\<lparr>x_Status := x_Status t, x_TxHash := x_TxHash t, x_Confirmations := x_Confirmations t\<rparr>"

lemma SaveTx_txs:
  assumes "SaveTx t s = (r, s')"
  shows "(r \<noteq> Inr () \<longrightarrow> tx_at s' = tx_at s) \<and> (r = Inr () \<longrightarrow>
    tx_at s' = (tx_at s)(x_ID t \<mapsto> (case tx_at s (x_ID t) of None \<Rightarrow> stored_tx t | Some old \<Rightarrow> lifecycle_of t old)))"
  using assms by (auto simp: SaveTx_def checked_def abind_def tx_at_def save_tx_def insert_tx_def lifecycle_of_def
      throw_def ret_def fun_eq_iff elim!: stmt_cases split: prod.splits sum.splits option.splits if_splits)

lemma UpdateTxStatus_txs:
  assumes "UpdateTxStatus i st s = (r, s')"
  shows "tx_at s' = tx_at s \<or> (\<exists>t. tx_at s i = Some t \<and> tx_at s' = (tx_at s)(i \<mapsto> t\<lparr>x_Status := st\<rparr>))"
  using assms by (auto simp: UpdateTxStatus_def abind_def tx_at_def update_tx_def throw_def ret_def fun_eq_iff elim!: stmt_cases
      split: prod.splits sum.splits option.splits if_splits)

lemma UpdateTxStatusFrom_txs:
  assumes "UpdateTxStatusFrom i froms st s = (r, s')"
  shows "(r \<noteq> Inr True \<longrightarrow> tx_at s' = tx_at s) \<and> (r = Inr True \<longrightarrow>
    (\<exists>t. tx_at s i = Some t \<and> x_Status t \<in> set froms \<and> tx_at s' = (tx_at s)(i \<mapsto> t\<lparr>x_Status := st\<rparr>)))"
  using assms by (auto simp: UpdateTxStatusFrom_def abind_def tx_at_def update_tx_def throw_def ret_def fun_eq_iff elim!: stmt_cases
      split: prod.splits sum.splits option.splits if_splits)

lemma transaction_db_txs:
  assumes "transaction m s = (r, s')" "\<And>s r s'. m s = (r, s') \<Longrightarrow> db_txs s' = db_txs s"
  shows "db_txs s' = db_txs s"
proof (cases r)
  case (Inl e)
  with transaction_Inl assms(1) show ?thesis by fastforce
next
  case (Inr x)
  from transaction_Inr [OF assms(1) [unfolded Inr]] obtain fs fs' s1 where "m (s\<lparr>db_faults := fs\<rparr>) = (Inr x, s1)" "s' = s1\<lparr>db_faults := fs'\<rparr>" by blast
  then show ?thesis using assms(2) [of "s\<lparr>db_faults := fs\<rparr>"] by simp
qed

lemma pg_Settle_db_txs:
  assumes "pg_Settle ops [] s = (r, s')"
  shows "db_txs s' = db_txs s"
proof (cases r)
  case (Inl e)
  then show ?thesis using assms pg_Settle_fails by fastforce
next
  case (Inr u)
  from transaction_Inr [OF assms [unfolded pg_Settle_def Inr]] obtain fs fs' s3 where
    t: "abind (each (\<lambda>p. upsert_wallet (op_key p)) ops) (\<lambda>_. abind (each settle_apply ops) (\<lambda>_. each settle_tx []))
      (s\<lparr>db_faults := fs\<rparr>) = (Inr u, s3)" "s' = s3\<lparr>db_faults := fs'\<rparr>" by blast
  then obtain s1 where a: "each (\<lambda>p. upsert_wallet (op_key p)) ops (s\<lparr>db_faults := fs\<rparr>) = (Inr (), s1)"
    "each settle_apply ops s1 = (Inr (), s3)" by (auto simp: abind_Inr)
  show ?thesis using each_upsert_money [OF a(1)] each_apply_money [OF a(2)] t(2) by simp
qed

lemma pg_Settle_txs: "pg_Settle ops [] s = (r, s') \<Longrightarrow> tx_at s' = tx_at s"
  by (simp add: tx_at_def pg_Settle_db_txs)

lemma reserve_steps_db_txs:
  "upsert_wallet k s = (r, s') \<Longrightarrow> db_txs s' = db_txs s"
  "reserve_row k a s = (r, s') \<Longrightarrow> db_txs s' = db_txs s"
  "GetWalletForAccount u as ac s = (r2, s') \<Longrightarrow> db_txs s' = db_txs s"
  "GetWallet u as s = (r2, s') \<Longrightarrow> db_txs s' = db_txs s"
  "stmt (accrue_usage key v l) s = (r3, s') \<Longrightarrow> db_txs s' = db_txs s"
  by (auto simp: upsert_wallet_def fresh_id_def insert_wallet_def reserve_row_def update_wallet_def GetWalletForAccount_def GetWallet_def
      accrue_usage_def abind_def throw_def ret_def Let_def elim!: stmt_cases split: prod.splits sum.splits option.splits if_splits)

lemma ReserveForOrder_db_txs:
  assumes "ReserveForOrder u a x s = (r, s')"
  shows "db_txs s' = db_txs s"
proof -
  have body: "db_txs t' = db_txs t" if "abind (upsert_wallet k) (\<lambda>u. reserve_row k v) t = (q, t')" for k v t q t'
    using that by (auto simp: abind_def split: prod.splits sum.splits dest!: reserve_steps_db_txs)
  show ?thesis using assms
    by (auto simp: ReserveForOrder_def ReserveForAccount_def Let_def abind_def throw_def
        split: prod.splits sum.splits option.splits if_splits dest!: transaction_db_txs [OF _ body] reserve_steps_db_txs)
qed

lemma ReserveWithDailyLimit_db_txs:
  assumes "ReserveWithDailyLimit u a x e l s = (r, s')"
  shows "db_txs s' = db_txs s"
proof -
  have body: "db_txs t' = db_txs t" if "abind (upsert_wallet k) (\<lambda>_. abind (reserve_row k v) (\<lambda>_.
      abind (stmt (\<lambda>s. accrue_usage (u, a, db_day s) w l' s)) (\<lambda>n. if n = 0 then throw DailyLimitExceeded else ret ()))) t = (q, t')"
    for k v w l' t q t'
    using that
    by (auto simp: abind_def accrue_usage_def throw_def ret_def elim!: stmt_cases
        split: prod.splits sum.splits if_splits option.splits dest!: reserve_steps_db_txs)
  show ?thesis using assms
    by (auto simp: ReserveWithDailyLimit_def Let_def abind_def throw_def
        split: prod.splits sum.splits option.splits if_splits dest!: transaction_db_txs [OF _ body] reserve_steps_db_txs)
qed

lemmas reserve_txs = ReserveForOrder_db_txs [THEN arg_cong [of _ _ map_of], folded tx_at_def]
  ReserveWithDailyLimit_db_txs [THEN arg_cong [of _ _ map_of], folded tx_at_def]

lemma ReleaseDailyUsage_txs: "ReleaseDailyUsage u a e s = (r, s') \<Longrightarrow> tx_at s' = tx_at s"
  by (auto simp: ReleaseDailyUsage_def tx_at_def elim!: stmt_cases split: option.splits if_splits)

lemma List_txs:
  "ListTxByStatus st n k s = (r, s') \<Longrightarrow> tx_at s' = tx_at s"
  "ListTx u n k s = (r, s') \<Longrightarrow> tx_at s' = tx_at s"
  by (auto simp: ListTxByStatus_def ListTx_def tx_at_def elim!: stmt_cases)

section \<open>The rows behind the service\<close>

definition rows :: "wdsvc \<Rightarrow> string \<Rightarrow> tx option" where
  "rows s = (case ws_store (wd_svc s) of None \<Rightarrow> Map.empty | Some db \<Rightarrow> tx_at db)"

lemma rows_Some [simp]: "ws_store (wd_svc s) = Some db \<Longrightarrow> rows s = tx_at db"
  by (simp add: rows_def)

lemma wal_cases:
  assumes "wal f m s = (r, s')"
  obtains "r = Inl (f GoPanic)" "s' = s"
  | db db' q where "ws_store (wd_svc s) = Some db" "m db = (q, db')" "s' = s\<lparr>wd_svc := (wd_svc s)\<lparr>ws_store := Some db'\<rparr>\<rparr>"
      "r = (case q of Inl e \<Rightarrow> Inl (f e) | Inr x \<Rightarrow> Inr x)"
proof -
  obtain q v where q: "on_db m (wd_svc s) = (q, v)" by fastforce
  from q show thesis
  proof (cases rule: on_db_cases)
    case 1
    moreover have "s\<lparr>wd_svc := wd_svc s\<rparr> = s" by (cases s) simp
    ultimately show thesis using assms q that(1) by (simp add: wal_def on_svc_def)
  next
    case (2 db db')
    then show thesis using assms q that(2) [of db q db'] by (cases q) (simp_all add: wal_def on_svc_def)
  qed
qed

lemma wal_rows:
  assumes "wal f m s = (r, s')" "\<And>db q db'. m db = (q, db') \<Longrightarrow> tx_at db' = tx_at db"
  shows "rows s' = rows s"
  using assms(1) by (cases rule: wal_cases) (use assms(2) in auto)

lemma load_withdrawal_rows:
  assumes "load_withdrawal f i s = (r, s')"
  shows "rows s' = rows s \<and> (\<forall>t. r = Inr t \<longrightarrow> rows s i = Some t \<and> x_Type t = WithdrawalTx)"
proof -
  obtain q s1 where q: "wal f (GetTx i) s = (q, s1)" by fastforce
  have k: "rows s1 = rows s" using q by (rule wal_rows) (blast dest: GetTx_txs)
  have "rows s i = Some t" if "q = Inr t" for t
    using q that by (cases rule: wal_cases) (auto dest!: GetTx_txs split: sum.splits)
  then show ?thesis using assms q k by (auto simp: load_withdrawal_def abind_def throw_def ret_def split: sum.splits if_splits)
qed

text \<open>
  The edges of the life of a withdrawal that carries the cold reference \<open>ref\<close>: an offline signature is picked up, or given up,
  under a reference only.
\<close>

inductive wd_edge :: "string \<Rightarrow> tx_status \<Rightarrow> tx_status \<Rightarrow> bool" for ref where
  approve: "st \<in> {Pending, Reviewing} \<Longrightarrow> wd_edge ref st Approved"
| reject: "st \<in> {Pending, Reviewing, ColdSigning} \<Longrightarrow> wd_edge ref st RejectedTx"
| broadcast: "wd_edge ref Approved Broadcast"
| queue: "wd_edge ref Approved ColdSigning"
| signed: "ref \<noteq> [] \<Longrightarrow> wd_edge ref ColdSigning ColdSigned"
| unsigned: "ref \<noteq> [] \<Longrightarrow> wd_edge ref ColdSigning Failed"
| broadcast_signed: "wd_edge ref ColdSigned Broadcast"
| confirm: "wd_edge ref Broadcast Completed"

inductive_simps wd_edge_from_done [simp]:
  "wd_edge ref Completed st" "wd_edge ref RejectedTx st" "wd_edge ref Failed st"

inductive_cases wd_edge_signing: "wd_edge ref ColdSigning st"

lemma wd_done:
  assumes "(wd_edge ref)\<^sup>*\<^sup>* st st'" "st \<in> {Completed, RejectedTx, Failed}"
  shows "st' = st"
  using assms by (induction rule: converse_rtranclp_induct) auto

lemma wd_signing_without_reference:
  assumes "(wd_edge [])\<^sup>*\<^sup>* st st'" "st \<in> {ColdSigning, RejectedTx}"
  shows "st' \<in> {ColdSigning, RejectedTx}"
  using assms by (induction rule: converse_rtranclp_induct) (auto elim: wd_edge_signing)

text \<open>Of a row only the lifecycle columns change, along the edges.\<close>

definition advanced :: "tx \<Rightarrow> tx \<Rightarrow> bool" where
  "advanced t t' \<longleftrightarrow> lifecycle_of t' t = t' \<and> (wd_edge (x_ColdRef t))\<^sup>*\<^sup>* (x_Status t) (x_Status t')"

lemma advanced_refl [simp]: "advanced t t"
  by (cases t) (simp add: advanced_def lifecycle_of_def)

lemma advanced_trans: "advanced t t' \<Longrightarrow> advanced t' t'' \<Longrightarrow> advanced t t''"
  by (cases t; cases t'; cases t'') (auto simp: advanced_def lifecycle_of_def)

definition keyed :: "wdsvc \<Rightarrow> bool" where
  "keyed s \<longleftrightarrow> (\<forall>i t. rows s i = Some t \<longrightarrow> x_ID t = i)"

definition moves :: "wdsvc \<Rightarrow> wdsvc \<Rightarrow> bool" where
  "moves s s' \<longleftrightarrow> keyed s' \<and> (\<forall>i t. rows s i = Some t \<longrightarrow> (\<exists>t'. rows s' i = Some t' \<and> advanced t t'))"

lemma moves_same: "keyed s \<Longrightarrow> rows s' = rows s \<Longrightarrow> moves s s'"
  by (auto simp: moves_def keyed_def)

lemma moves_trans: "moves s s1 \<Longrightarrow> moves s1 s2 \<Longrightarrow> moves s s2"
  unfolding moves_def by (meson advanced_trans)

lemma moves_keyed: "moves s s' \<Longrightarrow> keyed s'"
  by (simp add: moves_def)

lemma rows_frame [simp]:
  "rows (s\<lparr>wd_chain := c\<rparr>) = rows s" "rows (s\<lparr>wd_signer := g\<rparr>) = rows s" "rows (s\<lparr>wd_allow := al\<rparr>) = rows s"
  "rows (s\<lparr>wd_daily := d\<rparr>) = rows s" "rows (s\<lparr>wd_kycCache := k\<rparr>) = rows s" "rows (s\<lparr>wd_book := b\<rparr>) = rows s"
  by (simp_all add: rows_def)

lemma other_rows:
  "on_signer m s = (r1, s') \<Longrightarrow> rows s' = rows s"
  "submit x s = (r2, s') \<Longrightarrow> rows s' = rows s"
  "clientFor a s = (r3, s') \<Longrightarrow> s' = s"
  "on_allow am al s = (r4, s') \<Longrightarrow> rows s' = rows s"
  "whitelisted u a d s = (r5, s') \<Longrightarrow> rows s' = rows s"
  "on_svc f new_uuid s = (r6, s') \<Longrightarrow> rows s' = rows s"
  by (auto simp: on_signer_def submit_def clientFor_def on_allow_def whitelisted_def on_svc_def new_uuid_def rows_def Let_def
      split: option.splits prod.splits sum.splits)

lemma release_usage_rows [simp]: "rows (releaseDailyUsageBestEffort u a x s) = rows s"
proof -
  have "rows (snd (wal WalletErr (ReleaseDailyUsage u a e) s)) = rows s" for e
    by (cases "wal WalletErr (ReleaseDailyUsage u a e) s") (auto dest: wal_rows ReleaseDailyUsage_txs)
  then show ?thesis by (auto simp: releaseDailyUsageBestEffort_def split: option.splits)
qed

lemma settle_rows: "wal f (pg_Settle ops []) s = (r, s') \<Longrightarrow> rows s' = rows s"
  by (erule wal_rows) (rule pg_Settle_txs)

text \<open>Saving a loaded withdrawal with a later status.\<close>

lemma save_moves:
  assumes "save_status t' s = (r, s')" "keyed s" "rows s (x_ID t') = Some t" "wd_edge (x_ColdRef t) (x_Status t) (x_Status t')"
  shows "moves s s'"
  using assms(1) unfolding save_status_def
proof (cases rule: wal_cases)
  case 1
  then show ?thesis using assms(2) by (simp add: moves_same)
next
  case (2 db db' q)
  have t: "tx_at db (x_ID t') = Some t" using 2(1) assms(3) by simp
  show ?thesis
  proof (cases "q = Inr ()")
    case False
    then have "rows s' = rows s" using 2 SaveTx_txs [OF 2(2)] by simp
    then show ?thesis using assms(2) by (rule moves_same [rotated])
  next
    case True
    then have r: "rows s' = (rows s)(x_ID t' \<mapsto> lifecycle_of t' t)" using 2 SaveTx_txs [OF 2(2)] t by simp
    have "advanced t (lifecycle_of t' t)" using assms(4) by (auto simp: advanced_def lifecycle_of_def)
    moreover have "x_ID (lifecycle_of t' t) = x_ID t'" using assms(2,3) by (auto simp: keyed_def lifecycle_of_def)
    ultimately show ?thesis using assms(2,3) r by (auto simp: moves_def keyed_def)
  qed
qed

lemma update_moves:
  assumes "wal f (UpdateTxStatusFrom i froms st) s = (r, s')" "keyed s" "\<And>ref st0. st0 \<in> set froms \<Longrightarrow> wd_edge ref st0 st"
  shows "moves s s'"
  using assms(1)
proof (cases rule: wal_cases)
  case 1
  then show ?thesis using assms(2) by (simp add: moves_same)
next
  case (2 db db' q)
  have k: "\<And>j t. tx_at db j = Some t \<Longrightarrow> x_ID t = j" using 2(1) assms(2) by (simp add: keyed_def)
  have e: "(wd_edge (x_ColdRef t))\<^sup>*\<^sup>* (x_Status t) st" if "x_Status t \<in> set froms" for t using assms(3) that by blast
  show ?thesis using UpdateTxStatusFrom_txs [OF 2(2)] 2 k e
    by (cases "q = Inr True") (auto simp: moves_def keyed_def advanced_def lifecycle_of_def split: if_splits)
qed

lemma load_step:
  assumes "abind (load_withdrawal f i) g s = (r, s')" "keyed s"
    and "\<And>t s1. rows s1 = rows s \<Longrightarrow> rows s i = Some t \<Longrightarrow> x_Type t = WithdrawalTx \<Longrightarrow> x_ID t = i \<Longrightarrow> keyed s1 \<Longrightarrow>
      g t s1 = (r, s') \<Longrightarrow> moves s1 s'"
  shows "moves s s'"
proof -
  obtain q s1 where q: "load_withdrawal f i s = (q, s1)" by fastforce
  note l = load_withdrawal_rows [OF q]
  have k: "keyed s1" using assms(2) l by (simp add: keyed_def)
  show ?thesis
  proof (cases q)
    case (Inl e)
    then show ?thesis using assms(1,2) q l by (simp add: moves_same)
  next
    case (Inr t)
    then have "g t s1 = (r, s')" using assms(1) q by simp
    with assms(3) [of s1 t] Inr l k assms(2) have "moves s1 s'" by (auto simp: keyed_def)
    with l show ?thesis by (simp add: moves_def)
  qed
qed

section \<open>Every operation moves withdrawals along the edges\<close>

lemma ApproveWithdrawal_moves:
  assumes "ApproveWithdrawal i s = (r, s')" "keyed s"
  shows "moves s s'"
  using assms(1) unfolding ApproveWithdrawal_def
proof (rule load_step [OF _ assms(2)])
  fix t s1
  assume k: "keyed s1" and g: "(if x_Status t \<in> {Pending, Reviewing} then
         abind (wal WalletErr (UpdateTxStatusFrom i [Pending, Reviewing] Approved)) (\<lambda>ok. if ok then ret () else throw NotApprovable)
       else if x_Status t \<in> {Approved, Broadcast, Confirming, Completed, ColdSigning, ColdSigned} then throw AlreadyApproved
       else if x_Status t = RejectedTx then throw AlreadyRejected
       else throw NotApprovable) s1 = (r, s')"
  show "moves s1 s'"
  proof (cases "x_Status t \<in> {Pending, Reviewing}")
    case False
    then show ?thesis using g k by (auto simp: throw_def moves_same split: if_splits)
  next
    case True
    obtain q s2 where q: "wal WalletErr (UpdateTxStatusFrom i [Pending, Reviewing] Approved) s1 = (q, s2)" by fastforce
    have "s' = s2" using True g q by (auto simp: abind_def throw_def ret_def split: sum.splits if_splits)
    moreover have "moves s1 s2" by (rule update_moves [OF q k]) (auto intro: wd_edge.intros)
    ultimately show ?thesis by simp
  qed
qed

text \<open>Two steps: one that leaves the rows alone, and one that moves them.\<close>

lemma abind_still:
  assumes "abind m g s = (r, s')" "keyed s" "\<And>q s1. m s = (q, s1) \<Longrightarrow> rows s1 = rows s"
    and "\<And>x s1. m s = (Inr x, s1) \<Longrightarrow> rows s1 = rows s \<Longrightarrow> keyed s1 \<Longrightarrow> g x s1 = (r, s') \<Longrightarrow> moves s1 s'"
  shows "moves s s'"
proof -
  obtain q s1 where q: "m s = (q, s1)" by fastforce
  have k: "rows s1 = rows s" "keyed s1" using assms(2,3) q by (auto simp: keyed_def)
  show ?thesis
  proof (cases q)
    case (Inl e)
    then show ?thesis using assms(1,2) q k by (simp add: moves_same)
  next
    case (Inr x)
    then have "moves s1 s'" using assms(1,4) q k by simp
    then show ?thesis using k by (simp add: moves_def)
  qed
qed

lemma abind_moving:
  assumes "abind m g s = (r, s')" "\<And>q s1. m s = (q, s1) \<Longrightarrow> moves s s1"
    and "\<And>x s1. m s = (Inr x, s1) \<Longrightarrow> keyed s1 \<Longrightarrow> g x s1 = (r, s') \<Longrightarrow> moves s1 s'"
  shows "moves s s'"
proof -
  obtain q s1 where q: "m s = (q, s1)" by fastforce
  show ?thesis
  proof (cases q)
    case (Inl e)
    then show ?thesis using assms(1,2) q by simp
  next
    case (Inr x)
    then show ?thesis using assms(1,3) q assms(2) [OF q] moves_keyed moves_trans by auto
  qed
qed

lemma release_rejected_moves:
  assumes "release_rejected i t s1 = (r, s')" "rows s i = Some t" "rows s1 = (rows s)(i \<mapsto> t\<lparr>x_Status := RejectedTx\<rparr>)"
    "keyed s" "wd_edge (x_ColdRef t) (x_Status t) RejectedTx"
  shows "moves s s'"
proof -
  obtain q s2 where q: "wal ReleaseFailed (pg_Settle [unlock_op (x_UserID t) (x_Asset t) (x_Amount t)] []) s1 = (q, s2)" by fastforce
  have r2: "rows s2 = rows s1" using q by (rule settle_rows)
  have adv: "advanced t (t\<lparr>x_Status := RejectedTx\<rparr>)" using assms(5) by (auto simp: advanced_def lifecycle_of_def)
  have id: "x_ID t = i" using assms(2,4) by (simp add: keyed_def)
  have rej: "moves s s3" if "rows s3 = rows s1" for s3
    using that assms(2-4) adv id by (auto simp: moves_def keyed_def)
  show ?thesis
  proof (cases q)
    case (Inr u)
    then have "s' = releaseDailyUsageBestEffort (x_UserID t) (x_Asset t) (x_Amount t) s2"
      using assms(1) q by (simp add: release_rejected_def)
    then show ?thesis using rej [of s'] r2 by simp
  next
    case (Inl e)
    obtain q3 s3 where q3: "wal WalletErr (UpdateTxStatus i (x_Status t)) s2 = (q3, s3)" by fastforce
    then have s': "s' = s3" using assms(1) q Inl by (simp add: release_rejected_def)
    from q3 show ?thesis
    proof (cases rule: wal_cases)
      case 1
      then show ?thesis using rej r2 s' by simp
    next
      case (2 db db' qq)
      have t2: "tx_at db i = Some (t\<lparr>x_Status := RejectedTx\<rparr>)" using 2(1) r2 assms(3) by simp
      have "(rows s)(i := Some t) = rows s" using assms(2) by (auto simp: fun_eq_iff)
      then have "rows s3 = rows s1 \<or> rows s3 = rows s"
        using UpdateTxStatus_txs [OF 2(2)] 2 t2 r2 assms(3) by auto
      then show ?thesis using rej s' assms(4) by (auto simp: moves_same)
    qed
  qed
qed

lemma RejectWithdrawal_moves:
  assumes "RejectWithdrawal i s = (r, s')" "keyed s"
  shows "moves s s'"
  using assms(1) unfolding RejectWithdrawal_def
proof (rule load_step [OF _ assms(2)])
  fix t s1
  let ?u = "wal WalletErr (UpdateTxStatusFrom i [Pending, Reviewing, ColdSigning] RejectedTx)"
  assume k: "keyed s1" and rs: "rows s1 = rows s" "rows s i = Some t" and g: "(if x_Status t = RejectedTx then throw AlreadyRejected
       else if x_Status t \<notin> {Pending, Reviewing, ColdSigning} then throw NotRejectable
       else abind ?u (\<lambda>ok. if ok then release_rejected i t else throw NotRejectable)) s1 = (r, s')"
  show "moves s1 s'"
  proof (cases "x_Status t \<in> {Pending, Reviewing, ColdSigning}")
    case False
    then show ?thesis using g k by (auto simp: throw_def moves_same split: if_splits)
  next
    case True
    obtain q s2 where q: "?u s1 = (q, s2)" by fastforce
    have m: "moves s1 s2" by (rule update_moves [OF q k]) (auto intro: wd_edge.intros)
    show ?thesis
    proof (cases "q = Inr True")
      case False
      then have "s' = s2" using True g q by (auto simp: abind_def throw_def split: sum.splits if_splits)
      then show ?thesis using m by simp
    next
      case ok: True
      from q have b: "rows s2 = (rows s1)(i \<mapsto> t\<lparr>x_Status := RejectedTx\<rparr>)"
        by (cases rule: wal_cases) (use ok rs in \<open>auto dest!: UpdateTxStatusFrom_txs split: sum.splits\<close>)
      have a: "release_rejected i t s2 = (r, s')" using True ok g q by (auto simp: split: if_splits)
      show ?thesis by (rule release_rejected_moves [OF a _ b k]) (use rs True in \<open>simp_all add: wd_edge.reject\<close>)
    qed
  qed
qed

lemma submit_then_save:
  assumes "abind (submit x) (\<lambda>h. save_status (t\<lparr>x_TxHash := h, x_Status := st\<rparr>)) s = (r, s')" "keyed s" "rows s (x_ID t) = Some t"
    "wd_edge (x_ColdRef t) (x_Status t) st"
  shows "moves s s'"
  using assms(1,2)
proof (rule abind_still)
  fix h s1
  assume "rows s1 = rows s" "keyed s1" "save_status (t\<lparr>x_TxHash := h, x_Status := st\<rparr>) s1 = (r, s')"
  with assms(3,4) save_moves [of "t\<lparr>x_TxHash := h, x_Status := st\<rparr>" s1 r s' t] show "moves s1 s'" by simp
qed (rule other_rows(2))

lemma queue_moves:
  assumes "queueColdWithdrawal t s = (r, s')" "keyed s" "rows s (x_ID t) = Some t" "x_Status t = Approved"
  shows "moves s s'"
  using assms(1,2) unfolding queueColdWithdrawal_def Let_def
proof (rule abind_still)
  fix ref s1
  assume "rows s1 = rows s" "keyed s1" "save_status (t\<lparr>x_ColdRef := ref, x_Status := ColdSigning\<rparr>) s1 = (r, s')"
  with assms(3,4) save_moves [of "t\<lparr>x_ColdRef := ref, x_Status := ColdSigning\<rparr>" s1 r s' t] show "moves s1 s'"
    by (simp add: wd_edge.queue)
qed (rule other_rows(1))

lemma BroadcastWithdrawal_moves:
  assumes "BroadcastWithdrawal i s = (r, s')" "keyed s"
  shows "moves s s'"
  using assms(1) unfolding BroadcastWithdrawal_def
proof (rule load_step [OF _ assms(2)])
  fix t s1
  let ?send = "abind (submit (HotPayment (x_Asset t) (x_ToAddress t) (x_Amount t))) (\<lambda>h.
    save_status (t\<lparr>x_TxHash := h, x_Status := Broadcast\<rparr>))"
  assume k: "rows s1 = rows s" "rows s i = Some t" "x_ID t = i" "keyed s1"
    and g: "(if x_Status t \<noteq> Approved then (Inl NotApproved, s1)
       else if coldRequired t s1 then queueColdWithdrawal t s1
       else abind (clientFor (x_Asset t)) (\<lambda>_. ?send) s1) = (r, s')"
  show "moves s1 s'"
  proof (cases "x_Status t = Approved \<and> \<not> coldRequired t s1")
    case False
    then show ?thesis using g k by (auto simp: moves_same intro: queue_moves split: if_splits)
  next
    case True
    then have "abind (clientFor (x_Asset t)) (\<lambda>_. ?send) s1 = (r, s')" using g by simp
    then show ?thesis using k(4)
    proof (rule abind_still)
      fix c s2
      assume "rows s2 = rows s1" and k2: "keyed s2" and send: "?send s2 = (r, s')"
      then have "rows s2 (x_ID t) = Some t" using k by simp
      then show "moves s2 s'" by (rule submit_then_save [OF send k2]) (use True in \<open>simp add: wd_edge.broadcast\<close>)
    qed (auto dest: other_rows(3))
  qed
qed

lemma send_signed_moves:
  assumes "send_signed t raw s = (r, s')" "keyed s" "rows s (x_ID t) = Some t" "x_Status t = ColdSigned"
  shows "moves s s'"
  using assms(1,2) unfolding send_signed_def
proof (rule abind_still)
  fix c s1
  let ?send = "abind (submit (SignedPayment (x_Asset t) raw)) (\<lambda>h. save_status (t\<lparr>x_TxHash := h, x_Status := Broadcast\<rparr>))"
  assume "rows s1 = rows s" and k: "keyed s1"
    and g: "(if ch_signed_ok (wd_chain s1) (x_Asset t) then ?send s1 else (Inl CannotBroadcastSigned, s1)) = (r, s')"
  then have t: "rows s1 (x_ID t) = Some t" using assms(3) by simp
  show "moves s1 s'"
  proof (cases "ch_signed_ok (wd_chain s1) (x_Asset t)")
    case True
    then have "?send s1 = (r, s')" using g by simp
    then show ?thesis by (rule submit_then_save [OF _ k t]) (simp add: assms(4) wd_edge.broadcast_signed)
  qed (use g k in \<open>simp add: moves_same\<close>)
qed (auto dest: other_rows(3))

lemma broadcastColdSigned_moves:
  assumes "broadcastColdSigned t s = (r, s')" "keyed s" "rows s (x_ID t) = Some t" "x_Status t = ColdSigned"
  shows "moves s s'"
  using assms(1,2) unfolding broadcastColdSigned_def
proof (rule abind_still)
  fix st s1
  assume rs: "rows s1 = rows s" and k: "keyed s1"
  assume "(case (st_Status st, st_Signed st) of
         (ColdSignedOk, Some g) \<Rightarrow> if sg_SignedRawTx g = [] then throw ColdTxNotSignedYet else send_signed t (sg_SignedRawTx g)
       | _ \<Rightarrow> throw ColdTxNotSignedYet) s1 = (r, s')"
  then consider "s' = s1" | raw where "send_signed t raw s1 = (r, s')"
    by (cases "st_Status st"; cases "st_Signed st") (auto simp: throw_def split: if_splits)
  then show "moves s1 s'"
    by cases (use k rs assms(3,4) in \<open>auto simp: moves_same intro: send_signed_moves\<close>)
qed (rule other_rows(1))

lemma cold_failed_moves:
  assumes "cold_failed t s = (r, s')" "keyed s" "rows s (x_ID t) = Some t" "x_Status t = ColdSigning" "x_ColdRef t \<noteq> []"
  shows "moves s s'"
  using assms(1) unfolding cold_failed_def
proof (rule abind_moving)
  fix q s1
  assume "save_status (t\<lparr>x_Status := Failed\<rparr>) s = (q, s1)"
  from save_moves [OF this assms(2)] assms(3-5) show "moves s s1" by (simp add: wd_edge.unsigned)
next
  fix u s1
  assume "keyed s1" "abind (wal WalletErr (pg_Settle [unlock_op (x_UserID t) (x_Asset t) (x_Amount t)] [])) (\<lambda>_ s.
       (Inr (), releaseDailyUsageBestEffort (x_UserID t) (x_Asset t) (x_Amount t) s)) s1 = (r, s')"
  from this(2,1) show "moves s1 s'" by (rule abind_still) (auto dest: settle_rows intro: moves_same)
qed

lemma AdvanceColdWithdrawal_moves:
  assumes "AdvanceColdWithdrawal i s = (r, s')" "keyed s"
  shows "moves s s'"
  using assms(1) unfolding AdvanceColdWithdrawal_def
proof (rule load_step [OF _ assms(2)])
  fix t s1
  let ?poll = "abind (on_signer (cold_Status (x_ColdRef t))) (\<lambda>st.
           case st_Status st of
             ColdQueued \<Rightarrow> throw ColdTxNotSignedYet
           | ColdSignFailed \<Rightarrow> cold_failed t
           | ColdSignedOk \<Rightarrow> save_status (t\<lparr>x_Status := ColdSigned\<rparr>)
           | OtherColdStatus n \<Rightarrow> throw UnknownColdStatus)"
  assume k: "rows s1 = rows s" "rows s i = Some t" "x_ID t = i" "keyed s1"
    and g: "(if x_Status t = ColdSigning then ?poll
       else if x_Status t = ColdSigned then broadcastColdSigned t
       else throw NotInColdFlow) s1 = (r, s')"
  show "moves s1 s'"
  proof (cases "x_Status t = ColdSigning")
    case False
    then show ?thesis using g k
      by (auto simp: throw_def moves_same intro: broadcastColdSigned_moves split: if_splits)
  next
    case True
    then have "?poll s1 = (r, s')" using g by simp
    then show ?thesis using k(4)
    proof (rule abind_still)
      fix st s2
      assume "on_signer (cold_Status (x_ColdRef t)) s1 = (Inr st, s2)"
      then have ref: "x_ColdRef t \<noteq> []"
        by (auto simp: on_signer_def cold_Status_def split: option.splits sum.splits prod.splits if_splits)
      assume s2: "rows s2 = rows s1" "keyed s2" and "(case st_Status st of
             ColdQueued \<Rightarrow> throw ColdTxNotSignedYet
           | ColdSignFailed \<Rightarrow> cold_failed t
           | ColdSignedOk \<Rightarrow> save_status (t\<lparr>x_Status := ColdSigned\<rparr>)
           | OtherColdStatus n \<Rightarrow> throw UnknownColdStatus) s2 = (r, s')"
      then consider "s' = s2" | "cold_failed t s2 = (r, s')" | "save_status (t\<lparr>x_Status := ColdSigned\<rparr>) s2 = (r, s')"
        by (auto simp: throw_def split: cold_status.splits)
      then show "moves s2 s'"
      proof cases
        case 1
        then show ?thesis using s2 by (simp add: moves_same)
      next
        case 2
        then show ?thesis using s2 k True ref by (intro cold_failed_moves) simp_all
      next
        case 3
        then show ?thesis using s2 k True ref save_moves [OF 3, of t] by (simp add: wd_edge.signed)
      qed
    qed (rule other_rows(1))
  qed
qed

lemma ConfirmWithdrawal_moves:
  assumes "ConfirmWithdrawal i s = (r, s')" "keyed s"
  shows "moves s s'"
  using assms(1) unfolding ConfirmWithdrawal_def
proof (rule load_step [OF _ assms(2)])
  fix t s1
  let ?fin = "\<lambda>conf. abind (wal FinaliseFailed (pg_Settle [final_op t] [])) (\<lambda>_.
      save_status (t\<lparr>x_Confirmations := conf, x_Status := Completed\<rparr>))"
  let ?rest = "\<lambda>_ s. case ch_conf (wd_chain s) (x_Asset t) (x_TxHash t) of
           None \<Rightarrow> (Inl ConfirmationsFailed, s)
         | Some conf \<Rightarrow> if conf < confThreshold (x_Asset t) s then (Inr (), s) else ?fin conf s"
  assume k: "rows s1 = rows s" "rows s i = Some t" "x_ID t = i" "keyed s1"
    and g: "(if x_Status t \<noteq> Broadcast then throw NotBroadcast else abind (clientFor (x_Asset t)) ?rest) s1 = (r, s')"
  show "moves s1 s'"
  proof (cases "x_Status t = Broadcast")
    case False
    then show ?thesis using g k by (simp add: throw_def moves_same)
  next
    case True
    then have "abind (clientFor (x_Asset t)) ?rest s1 = (r, s')" using g by simp
    then show ?thesis using k(4)
    proof (rule abind_still)
      fix c s2
      assume s2: "rows s2 = rows s1" "keyed s2" and "?rest c s2 = (r, s')"
      then consider "s' = s2" | conf where "?fin conf s2 = (r, s')" by (auto split: option.splits if_splits)
      then show "moves s2 s'"
      proof cases
        case 1
        then show ?thesis using s2 by (simp add: moves_same)
      next
        case (2 conf)
        then show ?thesis using s2(2)
        proof (rule abind_still)
          fix u s3
          assume "rows s3 = rows s2" "keyed s3" "save_status (t\<lparr>x_Confirmations := conf, x_Status := Completed\<rparr>) s3 = (r, s')"
          with s2 k True save_moves [of "t\<lparr>x_Confirmations := conf, x_Status := Completed\<rparr>" s3 r s' t] show "moves s3 s'"
            by (simp add: wd_edge.confirm)
        qed (rule settle_rows)
      qed
    qed (auto dest: other_rows(3))
  qed
qed

section \<open>Requests\<close>

lemma reserve_withdrawal_rows: "reserve_withdrawal u a x s = (r, s') \<Longrightarrow> rows s' = rows s"
proof -
  have l: "rows (snd (resolveDailyLimitUSDT u a s)) = rows s"
    by (auto simp: resolveDailyLimitUSDT_def kycLevelCached_def Let_def split: option.splits prod.splits)
  have w: "rows t' = rows t" if "wal f (ReserveWithDailyLimit u a x e l) t = (q, t')" for f x e l t q t'
    using that by (rule wal_rows) (rule reserve_txs)
  have w2: "rows t' = rows t" if "wal f (ReserveForOrder u a x) t = (q, t')" for f x t q t'
    using that by (rule wal_rows) (rule reserve_txs)
  assume "reserve_withdrawal u a x s = (r, s')"
  then show ?thesis using l
    by (auto simp: reserve_withdrawal_def abind_def ret_def split: prod.splits sum.splits option.splits if_splits dest!: w w2)
qed

lemma check_destination_rows:
  assumes "check_destination u a d s = (r, s')"
  shows "rows s' = rows s"
  using assms by (auto simp: check_destination_def clientFor_def abind_def throw_def ret_def
      split: prod.splits sum.splits option.splits if_splits outcome.splits dest!: other_rows(5))

lemma undo_reserve_rows: "rows (undo_reserve u a x e s) = rows s"
proof -
  have 1: "rows (snd (wal f (pg_Settle ops []) t)) = rows t" for f ops t
    by (cases "wal f (pg_Settle ops []) t") (auto dest: settle_rows)
  have 2: "rows (snd (wal f (ReleaseDailyUsage u a y) t)) = rows t" for f y t
    by (cases "wal f (ReleaseDailyUsage u a y) t") (auto dest: wal_rows ReleaseDailyUsage_txs)
  show ?thesis by (auto simp: undo_reserve_def Let_def 1 2 split: option.splits)
qed

text \<open>The next identifier the service draws names no row.\<close>

definition fresh_wd :: "wdsvc \<Rightarrow> bool" where
  "fresh_wd s \<longleftrightarrow> rows s (''wd_'' @ ws_ids (wd_svc s) (ws_nid (wd_svc s))) = None"

lemma insert_moves:
  assumes "wal f (SaveTx t) s = (r, s')" "keyed s" "rows s (x_ID t) = None"
  shows "moves s s'"
  using assms(1)
proof (cases rule: wal_cases)
  case 1
  then show ?thesis using assms(2) by (simp add: moves_same)
next
  case (2 db db' q)
  then show ?thesis using SaveTx_txs [OF 2(2)] assms(2,3)
    by (cases "q = Inr ()") (auto simp: moves_def keyed_def stored_tx_def)
qed

lemma record_withdrawal_moves:
  assumes "record_withdrawal u a d x w e s = (r, s')" "keyed s" "fresh_wd s"
  shows "moves s s'"
proof -
  let ?i = "ws_ids (wd_svc s) (ws_nid (wd_svc s))"
  let ?s = "s\<lparr>wd_svc := (wd_svc s)\<lparr>ws_nid := Suc (ws_nid (wd_svc s))\<rparr>\<rparr>"
  define t where "t = (new_tx (''wd_'' @ ?i) u a WithdrawalTx x (initial_status x ?s) (ws_now (wd_svc ?s)))
                 \<lparr>x_WalletID := wa_ID w, x_ToAddress := d\<rparr>"
  obtain q s1 where q: "wal SaveFailed (SaveTx t) ?s = (q, s1)" by fastforce
  have r: "rows ?s = rows s" by (simp add: rows_def)
  have id: "x_ID t = ''wd_'' @ ?i" by (simp add: t_def new_tx_def)
  have "moves ?s s1" by (rule insert_moves [OF q]) (use assms(2,3) r id in \<open>simp_all add: keyed_def fresh_wd_def\<close>)
  then have m: "moves s s1" using r by (simp add: moves_def)
  have new: "on_svc WalletErr new_uuid s = (Inr ?i, ?s)" by (simp add: on_svc_def new_uuid_def)
  have "record_withdrawal u a d x w e s = (case wal SaveFailed (SaveTx t) ?s of
            (Inl er, s1) \<Rightarrow> (Inl er, undo_reserve u a x e s1)
          | (Inr v, s1) \<Rightarrow> (Inr t, if e = None then recordDailyWithdrawn u a x s1 else s1))"
    unfolding record_withdrawal_def abind_step(1) [where m = "on_svc WalletErr new_uuid" and s = s, OF new] Let_def t_def ..
  then have "rows s' = rows s1" using assms(1) q
    by (cases q) (auto simp: undo_reserve_rows recordDailyWithdrawn_def Let_def split: if_splits)
  then show ?thesis using m by (simp add: moves_def keyed_def)
qed

lemma ids_kept:
  "wal f m s = (r1, s') \<Longrightarrow> ws_ids (wd_svc s') = ws_ids (wd_svc s) \<and> ws_nid (wd_svc s') = ws_nid (wd_svc s)"
  "on_allow am al s = (r2, s') \<Longrightarrow> wd_svc s' = wd_svc s"
  "whitelisted u a d s = (r3, s') \<Longrightarrow> wd_svc s' = wd_svc s"
proof -
  show "wal f m s = (r1, s') \<Longrightarrow> ws_ids (wd_svc s') = ws_ids (wd_svc s) \<and> ws_nid (wd_svc s') = ws_nid (wd_svc s)"
    by (erule wal_cases) simp_all
qed (auto simp: on_allow_def whitelisted_def Let_def split: option.splits prod.splits sum.splits)

lemma check_destination_svc:
  assumes "check_destination u a d s = (r, s')"
  shows "wd_svc s' = wd_svc s"
  using assms by (auto simp: check_destination_def clientFor_def abind_def throw_def ret_def
      split: prod.splits sum.splits option.splits if_splits outcome.splits dest!: ids_kept(3))

lemma reserve_withdrawal_ids:
  assumes "reserve_withdrawal u a x s = (r, s')"
  shows "ws_ids (wd_svc s') = ws_ids (wd_svc s) \<and> ws_nid (wd_svc s') = ws_nid (wd_svc s)"
proof -
  have l: "wd_svc (snd (resolveDailyLimitUSDT u a s)) = wd_svc s"
    by (auto simp: resolveDailyLimitUSDT_def kycLevelCached_def Let_def split: option.splits prod.splits)
  show ?thesis using assms l
    by (auto simp: reserve_withdrawal_def abind_def ret_def split: prod.splits sum.splits option.splits if_splits dest!: ids_kept(1))
qed

lemma RequestWithdrawal_moves:
  assumes "RequestWithdrawal u a d x s = (r, s')" "keyed s" "fresh_wd s"
  shows "moves s s'"
proof (cases "x = None \<or> bf_sign (the x) \<le> 0")
  case True
  then have "s' = s" using assms(1) by (auto simp: RequestWithdrawal_def split: option.splits if_splits)
  then show ?thesis using assms(2) by (simp add: moves_same)
next
  case False
  then obtain v where v: "x = Some v" "\<not> bf_sign v \<le> 0" by auto
  have "abind (check_destination u a d) (\<lambda>_. abind (reserve_withdrawal u a v) (\<lambda>(w, e). record_withdrawal u a d v w e)) s = (r, s')"
    using assms(1) v by (simp add: RequestWithdrawal_def)
  then show ?thesis using assms(2)
  proof (rule abind_still)
    fix y s1
    assume c: "check_destination u a d s = (Inr y, s1)" "rows s1 = rows s" "keyed s1"
    assume "abind (reserve_withdrawal u a v) (\<lambda>(w, e). record_withdrawal u a d v w e) s1 = (r, s')"
    then show "moves s1 s'" using c(3)
    proof (rule abind_still)
      fix we s2
      assume e: "reserve_withdrawal u a v s1 = (Inr we, s2)" "rows s2 = rows s1" "keyed s2"
        "(case we of (w, e) \<Rightarrow> record_withdrawal u a d v w e) s2 = (r, s')"
      have "fresh_wd s2" using assms(3) c e(2) reserve_withdrawal_ids [OF e(1)] check_destination_svc [OF c(1)]
        by (simp add: fresh_wd_def)
      with e show "moves s2 s'" by (cases we) (simp add: record_withdrawal_moves)
    qed (rule reserve_withdrawal_rows)
  qed (rule check_destination_rows)
qed

lemma ListByStatus_rows: "ListByStatus st n k s = (r, s') \<Longrightarrow> rows s' = rows s"
  unfolding ListByStatus_def by (erule wal_rows) (rule List_txs)

lemma GetTx_rows: "wal f (GetTx i) s = (r, s') \<Longrightarrow> rows s' = rows s"
  by (erule wal_rows) (blast dest: GetTx_txs)

section \<open>Runs of the service\<close>

interpretation lifecycle: withdrawal_runs keyed moves "\<lambda>s x. fresh_wd s"
proof
  show "moves s s" if "keyed s" for s using that by (simp add: moves_same)
  show "moves s s2" if "moves s s1" "moves s1 s2" for s s1 s2 using that by (rule moves_trans)
qed (auto intro: moves_keyed moves_same ListByStatus_rows GetTx_rows ApproveWithdrawal_moves RejectWithdrawal_moves
  BroadcastWithdrawal_moves AdvanceColdWithdrawal_moves ConfirmWithdrawal_moves RequestWithdrawal_moves)

text \<open>
  One step: an operation of the service, for a request with an identifier not yet taken, or anything else that leaves the
  recorded transactions alone (time, prices, the chain, the signer, settings, the address book, failing statements to come).
\<close>

inductive wd_step :: "wdsvc \<Rightarrow> wdsvc \<Rightarrow> bool" where
  command: "(case c of Request u a d x \<Rightarrow> fresh_wd s | _ \<Rightarrow> True) \<Longrightarrow> wd_step s (wd_exec c s)"
| world: "rows s' = rows s \<Longrightarrow> wd_step s s'"

lemma wd_step_moves: "wd_step s s' \<Longrightarrow> keyed s \<Longrightarrow> moves s s'"
  by (cases rule: wd_step.cases) (auto intro: lifecycle.exec_rel moves_same)

lemma wd_steps_moves: "wd_step\<^sup>*\<^sup>* s s' \<Longrightarrow> keyed s \<Longrightarrow> moves s s'"
  by (induction rule: rtranclp_induct) (auto intro: moves_same moves_trans wd_step_moves moves_keyed)

lemma save_status_row:
  assumes "save_status t' s = (Inr u, s')" "rows s (x_ID t') = Some t"
  shows "rows s' (x_ID t') = Some (lifecycle_of t' t)"
  using assms(1) unfolding save_status_def
proof (cases rule: wal_cases)
  case (2 db db' q)
  have "tx_at db (x_ID t') = Some t" using 2(1) assms(2) by simp
  moreover have "q = Inr ()" using 2(4) by (cases q) simp_all
  ultimately show ?thesis using SaveTx_txs [OF 2(2)] 2(3) by simp
qed simp

end
