(* ===== verification/Withdrawal_Funds.thy ===== *)
theory Withdrawal_Funds
  imports Withdrawal_Lifecycle
begin

text \<open>
  The money behind withdrawals. While no statement fails, every live withdrawal is covered by locked funds: what is locked beyond
  the live withdrawals never changes, and money leaves a wallet exactly when a withdrawal completes. Then what goes wrong when a
  statement fails, or when an amount has more digits than are read back.
\<close>

section \<open>The store without failures\<close>

definition calmly :: "(pg, wallet_err, 'a) act \<Rightarrow> bool" where
  "calmly m \<longleftrightarrow> (\<forall>s. db_faults s = [] \<longrightarrow> db_faults (snd (m s)) = [])"

named_theorems calm \<open>actions that keep a store without failures free of them\<close>

lemma calmlyI: "(\<And>s. db_faults s = [] \<Longrightarrow> db_faults (snd (m s)) = []) \<Longrightarrow> calmly m"
  by (simp add: calmly_def)

lemma calmlyD: "calmly m \<Longrightarrow> m s = (r, s') \<Longrightarrow> db_faults s = [] \<Longrightarrow> db_faults s' = []"
  unfolding calmly_def by (metis snd_conv)

lemma stmt_calm: "db_faults s = [] \<Longrightarrow> stmt f s = (Inr (fst (f s)), snd (f s))"
  by (simp add: stmt_def split_def Let_def)

lemma calmly_ret [calm]: "calmly (ret x)" "calmly (throw e)"
  by (simp_all add: calmly_def ret_def throw_def)

lemma calmly_abind [calm]:
  assumes "calmly m" "\<And>x. calmly (f x)"
  shows "calmly (abind m f)"
proof (rule calmlyI)
  fix s :: pg
  assume s: "db_faults s = []"
  obtain q s1 where q: "m s = (q, s1)" by fastforce
  have "db_faults s1 = []" by (rule calmlyD [OF assms(1) q s])
  then show "db_faults (snd (abind m f s)) = []" using assms(2) q by (cases q) (simp_all add: calmly_def)
qed

lemma calmly_stmt [calm]: "(\<And>s. db_faults (snd (f s)) = db_faults s) \<Longrightarrow> calmly (stmt f)"
  by (simp add: calmly_def stmt_calm)

lemma calmly_transaction [calm]:
  assumes "calmly m"
  shows "calmly (transaction m)"
proof (rule calmlyI)
  fix s :: pg
  assume s: "db_faults s = []"
  let ?b = "abind (stmt (\<lambda>s. ((), s))) (\<lambda>u. abind m (\<lambda>x. abind (stmt (\<lambda>s. ((), s))) (\<lambda>u. ret x)))"
  have c: "calmly ?b" by (intro calm assms) simp_all
  obtain q s1 where q: "?b s = (q, s1)" by fastforce
  have "db_faults s1 = []" by (rule calmlyD [OF c q s])
  then show "db_faults (snd (transaction m s)) = []" using q by (cases q) (simp_all add: transaction_def)
qed

lemma calmly_each [calm]:
  assumes "\<And>x. calmly (f x)"
  shows "calmly (each f xs)"
proof (rule calmlyI)
  fix s :: pg
  assume s: "db_faults s = []"
  show "db_faults (snd (each f xs s)) = []"
  proof (rule each_keeps [of xs "\<lambda>s. db_faults s = []" f s "fst (each f xs s)"])
    show "db_faults t' = []" if "db_faults t = []" "f x t = (q, t')" for x t q t'
      using calmlyD [OF assms that(2,1)] .
  qed (simp_all add: s)
qed

lemma calmly_wallet [calm]:
  "calmly (upsert_wallet k)" "calmly (settle_unlock p)" "calmly (settle_delta p)" "calmly (reserve_row k a)"
  "calmly (GetWalletForAccount u as ac)"
proof -
  have u: "db_faults (snd (update_wallet k c f s)) = db_faults s" for k c f s
    by (auto simp: update_wallet_def split: option.splits)
  show "calmly (upsert_wallet k)"
    by (rule calmlyI) (auto simp: upsert_wallet_def fresh_id_def Let_def insert_wallet_def stmt_calm split: if_splits)
  show "calmly (settle_unlock p)"
    unfolding settle_unlock_def by (cases "so_Unlock p") (auto intro!: calm u)
  show "calmly (settle_delta p)"
    unfolding settle_delta_def by (cases "so_Delta p") (auto intro!: calm u)
  show "calmly (reserve_row k a)"
    unfolding reserve_row_def by (auto intro!: calm u)
  show "calmly (GetWalletForAccount u as ac)"
    unfolding GetWalletForAccount_def Let_def by (auto split: option.splits intro!: calm)
qed

lemma calmly_Settle [calm]: "calmly (pg_Settle ops ts)"
proof -
  have i: "db_faults (snd (insert_tx t s)) = db_faults s" for t s by (simp add: insert_tx_def)
  have 1: "calmly (settle_apply p)" for p unfolding settle_apply_def by (intro calm)
  have 2: "calmly (settle_tx t)" for t
    unfolding settle_tx_def checked_def by (auto intro!: calm i split: option.splits)
  show ?thesis unfolding pg_Settle_def by (intro calm 1 2)
qed

text \<open>Without failures reading changes nothing, and writing does what it says.\<close>

lemma GetTx_calm: "db_faults s = [] \<Longrightarrow> GetTx i s = (case gm_get (db_txs s) i of None \<Rightarrow> Inl TxNotFound | Some t \<Rightarrow> Inr t, s)"
  by (simp add: GetTx_def abind_def stmt_calm throw_def ret_def split: option.splits)

lemma ListTx_calm: "db_faults s = [] \<Longrightarrow> snd (ListTxByStatus st n k s) = s"
  by (simp add: ListTxByStatus_def stmt_calm)

lemma SaveTx_calm:
  assumes "db_faults s = []" "gm_get (db_txs s) (x_ID t) = Some old"
  shows "SaveTx t s = (Inr (), s\<lparr>db_txs := gm_put (x_ID t) (lifecycle_of t old) (db_txs s)\<rparr>)"
  using assms by (simp add: SaveTx_def checked_def abind_def stmt_calm save_tx_def lifecycle_of_def ret_def)

lemma UpdateTxStatus_calm:
  assumes "db_faults s = []" "gm_get (db_txs s) i = Some t"
  shows "UpdateTxStatus i st s = (Inr (), s\<lparr>db_txs := gm_put i (t\<lparr>x_Status := st\<rparr>) (db_txs s)\<rparr>)"
  using assms by (simp add: UpdateTxStatus_def abind_def stmt_calm update_tx_def ret_def)

lemma UpdateTxStatusFrom_calm:
  assumes "db_faults s = []" "gm_get (db_txs s) i = Some t" "x_Status t \<in> set froms"
  shows "UpdateTxStatusFrom i froms st s = (Inr True, s\<lparr>db_txs := gm_put i (t\<lparr>x_Status := st\<rparr>) (db_txs s)\<rparr>)"
  using assms by (auto simp: UpdateTxStatusFrom_def abind_def stmt_calm update_tx_def ret_def)

lemma ReleaseDailyUsage_calm:
  "db_faults s = [] \<Longrightarrow> \<exists>us. ReleaseDailyUsage u a x s = (Inr (), s\<lparr>db_usage := us\<rparr>)"
  by (cases s) (auto simp: ReleaseDailyUsage_def stmt_calm ret_def split: option.splits)

text \<open>An unlock alone cannot fail.\<close>

lemma unlock_succeeds:
  assumes "db_faults s = []"
  shows "\<exists>s'. pg_Settle [unlock_op u a x] [] s = (Inr (), s')"
proof -
  have k: "\<exists>s'. upsert_wallet k s = (Inr (), s') \<and> db_faults s' = []" if "db_faults s = []" for k s
    using that by (auto simp: upsert_wallet_def fresh_id_def Let_def insert_wallet_def stmt_calm)
  have p: "\<exists>s'. settle_apply (unlock_op u a x) s = (Inr (), s')" if "db_faults s = []" for s
    using that by (auto simp: settle_apply_def unlock_op_def settle_unlock_def settle_delta_def abind_def ret_def stmt_calm)
  obtain s1 where s1: "upsert_wallet (op_key (unlock_op u a x)) s = (Inr (), s1)" "db_faults s1 = []" using k assms by blast
  obtain s2 where s2: "settle_apply (unlock_op u a x) s1 = (Inr (), s2)" using p s1(2) by blast
  have "calmly (settle_apply (unlock_op u a x))" unfolding settle_apply_def by (intro calm)
  from calmlyD [OF this s2 s1(2)] have "db_faults s2 = []" .
  then show ?thesis using assms s1 s2 by (simp add: pg_Settle_def transaction_def abind_def stmt_calm ret_def)
qed

section \<open>The books\<close>

text \<open>A withdrawal that has neither ended nor been paid out: its amount is owed to the user who locked it.\<close>

definition live :: "tx_status \<Rightarrow> bool" where
  "live st \<longleftrightarrow> st \<in> {Pending, Reviewing, Approved, Broadcast, ColdSigning, ColdSigned}"

definition tx_key :: "tx \<Rightarrow> wallet_key" where
  "tx_key t = (x_UserID t, x_Asset t, AccountSpot)"

definition owed :: "wallet_key \<Rightarrow> tx \<Rightarrow> rat" where
  "owed k t = (if x_Type t = WithdrawalTx \<and> live (x_Status t) \<and> tx_key t = k then numeric (x_Amount t) else 0)"

definition paid :: "wallet_key \<Rightarrow> tx \<Rightarrow> rat" where
  "paid k t = (if x_Type t = WithdrawalTx \<and> x_Status t = Completed \<and> tx_key t = k then numeric (x_Amount t) else 0)"

definition total :: "(tx \<Rightarrow> rat) \<Rightarrow> pg \<Rightarrow> rat" where
  "total g s = (\<Sum>(i, t)\<leftarrow>db_txs s. g t)"

text \<open>What is locked beyond the live withdrawals; what the wallet holds and has paid out.\<close>

definition spare :: "pg \<Rightarrow> wallet_key \<Rightarrow> rat" where
  "spare s k = lck s k - total (owed k) s"

definition worth :: "pg \<Rightarrow> wallet_key \<Rightarrow> rat" where
  "worth s k = bal s k + total (paid k) s"

lemma total_frame [simp]:
  "total g (s\<lparr>db_faults := fs\<rparr>) = total g s" "total g (s\<lparr>db_nid := n\<rparr>) = total g s" "total g (s\<lparr>db_usage := us\<rparr>) = total g s"
  by (simp_all add: total_def)

lemma total_save:
  "gm_get (db_txs s) j = Some t \<Longrightarrow> total g (s\<lparr>db_txs := gm_put j t' (db_txs s)\<rparr>) = total g s + g t' - g t"
  by (simp add: total_def sum_gm_put)

definition sound_db :: "pg \<Rightarrow> bool" where
  "sound_db s \<longleftrightarrow> db_faults s = [] \<and> (\<forall>(i, t) \<in> set (db_txs s). x_ID t = i \<and> 0 \<le> numeric (x_Amount t)) \<and> (\<forall>k. 0 \<le> spare s k)"

definition balanced_db :: "pg \<Rightarrow> pg \<Rightarrow> bool" where
  "balanced_db s s' \<longleftrightarrow> sound_db s' \<and> spare s' = spare s \<and> worth s' = worth s"

lemma sum_ge_member:
  "(i, t) \<in> set m \<Longrightarrow> (\<And>j u. (j, u) \<in> set m \<Longrightarrow> 0 \<le> g u) \<Longrightarrow> g t \<le> (\<Sum>(i, t)\<leftarrow>m. (g t :: rat))"
proof (induction m)
  case (Cons p m)
  obtain j u where p: "p = (j, u)" by fastforce
  have nn: "0 \<le> (\<Sum>(i, t)\<leftarrow>m. g t)" using Cons.prems(2) by (intro sum_list_nonneg) auto
  have "0 \<le> g u" using Cons.prems(2) [of j u] p by simp
  moreover have "g t \<le> (\<Sum>(i, t)\<leftarrow>m. g t)" if "(i, t) \<in> set m"
    by (rule Cons.IH [OF that]) (use Cons.prems(2) in auto)
  ultimately show ?case using Cons.prems(1) p nn by fastforce
qed simp

text \<open>A live withdrawal is covered by what is locked.\<close>

lemma live_covered:
  assumes "sound_db s" "gm_get (db_txs s) i = Some t" "x_Type t = WithdrawalTx" "live (x_Status t)"
  shows "numeric (x_Amount t) \<le> lck s (tx_key t)" "0 \<le> numeric (x_Amount t)"
proof -
  have m: "(i, t) \<in> set (db_txs s)" using map_of_SomeD assms(2) .
  have nn: "\<And>j u. (j, u) \<in> set (db_txs s) \<Longrightarrow> 0 \<le> numeric (x_Amount u)" using assms(1) by (auto simp: sound_db_def)
  then show "0 \<le> numeric (x_Amount t)" using m by blast
  have "owed (tx_key t) t \<le> total (owed (tx_key t)) s"
    unfolding total_def by (rule sum_ge_member [OF m]) (auto simp: owed_def nn)
  moreover have "0 \<le> spare s (tx_key t)" using assms(1) unfolding sound_db_def by blast
  ultimately show "numeric (x_Amount t) \<le> lck s (tx_key t)" using assms(3,4) by (simp add: owed_def spare_def)
qed

text \<open>A row changes, and the money with it; a row is added.\<close>

lemma books_change:
  assumes "sound_db s" "gm_get (db_txs s) i = Some t" "db_faults s' = []" "db_txs s' = gm_put i t' (db_txs s)"
    "x_ID t' = x_ID t" "x_Amount t' = x_Amount t"
    "\<And>k. lck s' k = lck s k + owed k t' - owed k t" "\<And>k. bal s' k = bal s k + paid k t - paid k t'"
  shows "balanced_db s s'"
proof -
  have t: "x_ID t = i" "0 \<le> numeric (x_Amount t)" using assms(1) map_of_SomeD [OF assms(2)] by (auto simp: sound_db_def)
  have "total g s' = total g s + g t' - g t" for g using assms(2,4) by (simp add: total_def sum_gm_put)
  then have sp: "spare s' = spare s" "worth s' = worth s" using assms(7,8) by (simp_all add: spare_def worth_def fun_eq_iff)
  have "set (db_txs s') \<subseteq> insert (i, t') (set (db_txs s))" using assms(4) set_gm_put by metis
  then show ?thesis using sp assms(1,3,5,6) t by (fastforce simp: balanced_db_def sound_db_def)
qed

lemma books_add:
  assumes "sound_db s" "gm_get (db_txs s) i = None" "db_faults s' = []" "db_txs s' = gm_put i t' (db_txs s)"
    "x_ID t' = i" "0 \<le> numeric (x_Amount t')"
    "\<And>k. lck s' k = lck s k + owed k t'" "\<And>k. bal s' k = bal s k" "\<And>k. paid k t' = 0"
  shows "balanced_db s s'"
proof -
  have "total g s' = total g s + g t'" for g using assms(2,4) by (simp add: total_def sum_gm_put)
  then have sp: "spare s' = spare s" "worth s' = worth s" using assms(7-9) by (simp_all add: spare_def worth_def fun_eq_iff)
  have "set (db_txs s') \<subseteq> insert (i, t') (set (db_txs s))" using assms(4) set_gm_put by metis
  then show ?thesis using sp assms(1,3,5,6) by (fastforce simp: balanced_db_def sound_db_def)
qed

lemma books_same:
  assumes "sound_db s" "db_faults s' = []" "db_txs s' = db_txs s" "bal s' = bal s" "lck s' = lck s"
  shows "balanced_db s s'"
  using assms by (simp add: balanced_db_def sound_db_def spare_def worth_def total_def fun_eq_iff)

lemma balanced_trans: "balanced_db s s1 \<Longrightarrow> balanced_db s1 s2 \<Longrightarrow> balanced_db s s2"
  by (simp add: balanced_db_def)

section \<open>The books behind the service\<close>

definition set_db :: "wdsvc \<Rightarrow> pg \<Rightarrow> wdsvc" where
  "set_db s db = s\<lparr>wd_svc := (wd_svc s)\<lparr>ws_store := Some db\<rparr>\<rparr>"

lemma set_db_simps [simp]:
  "ws_store (wd_svc (set_db s db)) = Some db" "set_db (set_db s db) db' = set_db s db'"
  "wd_chain (set_db s db) = wd_chain s" "wd_signer (set_db s db) = wd_signer s" "wd_price (set_db s db) = wd_price s"
  "wd_confThresholds (set_db s db) = wd_confThresholds s" "ws_clients (wd_svc (set_db s db)) = ws_clients (wd_svc s)"
  by (simp_all add: set_db_def)

lemma set_db_same: "ws_store (wd_svc s) = Some db \<Longrightarrow> set_db s db = s"
  by (cases s; cases "wd_svc s") (simp add: set_db_def)

lemma wal_at:
  "ws_store (wd_svc s) = Some db \<Longrightarrow>
   wal f m s = (case m db of (Inl e, db') \<Rightarrow> (Inl (f e), set_db s db') | (Inr x, db') \<Rightarrow> (Inr x, set_db s db'))"
  by (auto simp: wal_def on_svc_def on_db_def set_db_def Let_def split: prod.splits sum.splits)

definition sound :: "wdsvc \<Rightarrow> bool" where
  "sound s \<longleftrightarrow> (\<exists>db. ws_store (wd_svc s) = Some db \<and> sound_db db)"

definition balanced :: "wdsvc \<Rightarrow> wdsvc \<Rightarrow> bool" where
  "balanced s s' \<longleftrightarrow> (\<exists>db db'. ws_store (wd_svc s) = Some db \<and> ws_store (wd_svc s') = Some db' \<and> balanced_db db db')"

lemma balanced_same_store: "sound s \<Longrightarrow> ws_store (wd_svc s') = ws_store (wd_svc s) \<Longrightarrow> balanced s s'"
  by (auto simp: sound_def balanced_def balanced_db_def)

lemma load_calm:
  assumes "ws_store (wd_svc s) = Some db" "db_faults db = []"
  shows "load_withdrawal f i s =
    (case gm_get (db_txs db) i of None \<Rightarrow> Inl (f TxNotFound)
     | Some t \<Rightarrow> if x_Type t \<noteq> WithdrawalTx then Inl NotAWithdrawal else Inr t, s)"
  using assms by (simp add: load_withdrawal_def wal_at GetTx_calm abind_def throw_def ret_def set_db_same split: option.splits)

abbreviation same_store :: "wdsvc \<Rightarrow> wdsvc \<Rightarrow> bool" where
  "same_store s s' \<equiv> ws_store (wd_svc s') = ws_store (wd_svc s)"

lemma store_kept:
  "submit x s = (r1, s') \<Longrightarrow> same_store s s'"
  "on_signer m s = (r2, s') \<Longrightarrow> same_store s s'"
  "clientFor a s = (r3, s') \<Longrightarrow> same_store s s'"
  by (auto simp: submit_def on_signer_def clientFor_def Let_def split: option.splits prod.splits sum.splits)

lemma abind_quiet:
  assumes "abind m g s = (r, s')" "sound s" "\<And>q s1. m s = (q, s1) \<Longrightarrow> same_store s s1"
    and "\<And>x s1. m s = (Inr x, s1) \<Longrightarrow> same_store s s1 \<Longrightarrow> g x s1 = (r, s') \<Longrightarrow> balanced s1 s'"
  shows "balanced s s'"
proof -
  obtain q s1 where q: "m s = (q, s1)" by fastforce
  note k = assms(3) [OF q]
  show ?thesis
  proof (cases q)
    case (Inl e)
    then show ?thesis using assms(1,2) q k by (simp add: balanced_same_store)
  next
    case (Inr x)
    then have "balanced s1 s'" using assms(1,4) q k by simp
    then show ?thesis using k by (simp add: balanced_def)
  qed
qed

text \<open>The row behind a loaded withdrawal.\<close>

lemma load_sound:
  assumes "abind (load_withdrawal f i) g s = (r, s')" "sound s"
    and "\<And>db t. ws_store (wd_svc s) = Some db \<Longrightarrow> sound_db db \<Longrightarrow> gm_get (db_txs db) i = Some t \<Longrightarrow> x_Type t = WithdrawalTx \<Longrightarrow>
      x_ID t = i \<Longrightarrow> g t s = (r, s') \<Longrightarrow> balanced s s'"
  shows "balanced s s'"
proof -
  obtain db where db: "ws_store (wd_svc s) = Some db" "sound_db db" using assms(2) by (auto simp: sound_def)
  have l: "load_withdrawal f i s = (case gm_get (db_txs db) i of None \<Rightarrow> Inl (f TxNotFound)
     | Some t \<Rightarrow> if x_Type t \<noteq> WithdrawalTx then Inl NotAWithdrawal else Inr t, s)"
    by (rule load_calm [OF db(1)]) (use db(2) in \<open>simp add: sound_db_def\<close>)
  show ?thesis
  proof (cases "\<exists>t. gm_get (db_txs db) i = Some t \<and> x_Type t = WithdrawalTx")
    case True
    then obtain t where t: "gm_get (db_txs db) i = Some t" "x_Type t = WithdrawalTx" by blast
    then have "x_ID t = i" using db(2) map_of_SomeD by (fastforce simp: sound_db_def)
    moreover have "g t s = (r, s')" using assms(1) l t by simp
    ultimately show ?thesis using assms(3) [OF db] t by blast
  next
    case False
    then have "s' = s" using assms(1) l by (auto split: option.splits if_splits)
    then show ?thesis using assms(2) by (simp add: balanced_same_store)
  qed
qed

text \<open>Saving a live withdrawal with a status that is live too.\<close>

lemma owed_lifecycle [simp]:
  "x_Type (lifecycle_of t' t) = x_Type t" "x_Status (lifecycle_of t' t) = x_Status t'" "x_Amount (lifecycle_of t' t) = x_Amount t"
  "tx_key (lifecycle_of t' t) = tx_key t" "x_ID (lifecycle_of t' t) = x_ID t" "tx_key (t\<lparr>x_Status := st\<rparr>) = tx_key t"
  by (simp_all add: lifecycle_of_def tx_key_def)

lemma live_not_completed [simp]: "live Completed = False" "live RejectedTx = False" "live Failed = False"
  by (simp_all add: live_def)

lemma save_at:
  assumes "ws_store (wd_svc s) = Some db" "db_faults db = []" "gm_get (db_txs db) (x_ID t') = Some t"
  shows "save_status t' s = (Inr (), set_db s (db\<lparr>db_txs := gm_put (x_ID t') (lifecycle_of t' t) (db_txs db)\<rparr>))"
  using assms by (simp add: save_status_def wal_at SaveTx_calm)

lemma balanced_set_db: "ws_store (wd_svc s) = Some db \<Longrightarrow> balanced_db db db' \<Longrightarrow> balanced s (set_db s db')"
  by (simp add: balanced_def)

lemma live_change:
  assumes "sound_db db" "gm_get (db_txs db) i = Some t" "live (x_Status t)" "live (x_Status t')"
    "x_ID t' = x_ID t" "x_Amount t' = x_Amount t" "x_Type t' = x_Type t" "tx_key t' = tx_key t"
  shows "balanced_db db (db\<lparr>db_txs := gm_put i t' (db_txs db)\<rparr>)"
  by (rule books_change [OF assms(1,2), of _ t']) (use assms in \<open>auto simp: owed_def paid_def sound_db_def\<close>)

lemma save_balanced:
  assumes "save_status t' s = (r, s')" "ws_store (wd_svc s) = Some db" "sound_db db" "gm_get (db_txs db) (x_ID t') = Some t"
    "live (x_Status t)" "live (x_Status t')"
  shows "balanced s s'"
proof -
  have "s' = set_db s (db\<lparr>db_txs := gm_put (x_ID t') (lifecycle_of t' t) (db_txs db)\<rparr>)"
    using assms(1) save_at [OF assms(2) _ assms(4)] assms(3) by (simp add: sound_db_def)
  moreover have "balanced_db db (db\<lparr>db_txs := gm_put (x_ID t') (lifecycle_of t' t) (db_txs db)\<rparr>)"
    by (rule live_change [OF assms(3,4,5)]) (use assms(6) in simp_all)
  ultimately show ?thesis using balanced_set_db assms(2) by simp
qed

section \<open>Every operation keeps the books\<close>

lemma ApproveWithdrawal_balanced:
  assumes "ApproveWithdrawal i s = (r, s')" "sound s"
  shows "balanced s s'"
  using assms(1) unfolding ApproveWithdrawal_def
proof (rule load_sound [OF _ assms(2)])
  fix db t
  assume db: "ws_store (wd_svc s) = Some db" "sound_db db" "gm_get (db_txs db) i = Some t"
    and g: "(if x_Status t \<in> {Pending, Reviewing} then
         abind (wal WalletErr (UpdateTxStatusFrom i [Pending, Reviewing] Approved)) (\<lambda>ok. if ok then ret () else throw NotApprovable)
       else if x_Status t \<in> {Approved, Broadcast, Confirming, Completed, ColdSigning, ColdSigned} then throw AlreadyApproved
       else if x_Status t = RejectedTx then throw AlreadyRejected
       else throw NotApprovable) s = (r, s')"
  show "balanced s s'"
  proof (cases "x_Status t \<in> {Pending, Reviewing}")
    case False
    then show ?thesis using g assms(2) by (auto simp: throw_def balanced_same_store split: if_splits)
  next
    case True
    let ?db = "db\<lparr>db_txs := gm_put i (t\<lparr>x_Status := Approved\<rparr>) (db_txs db)\<rparr>"
    have "wal WalletErr (UpdateTxStatusFrom i [Pending, Reviewing] Approved) s = (Inr True, set_db s ?db)"
      using db True by (simp add: wal_at UpdateTxStatusFrom_calm sound_db_def)
    then have "s' = set_db s ?db" using g True by (simp add: abind_def ret_def)
    moreover have "balanced_db db ?db" by (rule live_change [OF db(2,3)]) (use True in \<open>auto simp: live_def\<close>)
    ultimately show ?thesis using balanced_set_db db(1) by simp
  qed
qed

lemma balanced_sound: "balanced s s' \<Longrightarrow> sound s'"
  by (auto simp: balanced_def sound_def balanced_db_def)

lemma balanced_join: "balanced s s1 \<Longrightarrow> balanced s1 s2 \<Longrightarrow> balanced s s2"
  by (auto simp: balanced_def intro: balanced_trans)

lemma release_usage_balanced:
  assumes "sound s"
  shows "balanced s (releaseDailyUsageBestEffort u a x s)"
proof -
  obtain db where db: "ws_store (wd_svc s) = Some db" "sound_db db" using assms by (auto simp: sound_def)
  have "balanced s (snd (wal WalletErr (ReleaseDailyUsage u a e) s))" for e
  proof -
    obtain us where "ReleaseDailyUsage u a e db = (Inr (), db\<lparr>db_usage := us\<rparr>)"
      using ReleaseDailyUsage_calm [of db u a e] db(2) unfolding sound_db_def by blast
    then have "snd (wal WalletErr (ReleaseDailyUsage u a e) s) = set_db s (db\<lparr>db_usage := us\<rparr>)" using db(1) by (simp add: wal_at)
    moreover have "balanced_db db (db\<lparr>db_usage := us\<rparr>)" by (rule books_same [OF db(2)]) (use db(2) in \<open>simp_all add: sound_db_def\<close>)
    ultimately show ?thesis using balanced_set_db db(1) by simp
  qed
  then show ?thesis using assms by (auto simp: releaseDailyUsageBestEffort_def balanced_same_store split: option.splits)
qed

text \<open>A live withdrawal ends without payment and its funds are unlocked.\<close>

lemma unlock_books:
  assumes "sound_db db" "gm_get (db_txs db) i = Some t" "x_Type t = WithdrawalTx" "live (x_Status t)"
    "x_ID t' = x_ID t" "x_Amount t' = x_Amount t" "\<not> live (x_Status t')" "x_Status t' \<noteq> Completed"
    "pg_Settle [unlock_op (x_UserID t) (x_Asset t) (x_Amount t)] [] (db\<lparr>db_txs := gm_put i t' (db_txs db)\<rparr>) = (Inr (), db2)"
  shows "balanced_db db db2"
proof (rule books_change [OF assms(1,2)])
  let ?p = "unlock_op (x_UserID t) (x_Asset t) (x_Amount t)" and ?db1 = "db\<lparr>db_txs := gm_put i t' (db_txs db)\<rparr>"
  have key: "op_key ?p = tx_key t" "un ?p = numeric (x_Amount t)" "dn ?p = 0"
    by (simp_all add: unlock_op_def op_key_def tx_key_def NormalizeAccountType_def un_def dn_def)
  note c = live_covered [OF assms(1-4)]
  show "db_faults db2 = []" by (rule calmlyD [OF calmly_Settle assms(9)]) (use assms(1) in \<open>simp add: sound_db_def\<close>)
  show "db_txs db2 = gm_put i t' (db_txs db)" using pg_Settle_db_txs [OF assms(9)] by simp
  show "lck db2 k = lck db k + owed k t' - owed k t" for k
    using pg_Settle_ok(2) [OF assms(9), of k] assms(3,4,7) c key by (auto simp: owed_def unlocked_def)
  show "bal db2 k = bal db k + paid k t - paid k t'" for k
    using pg_Settle_ok(1) [OF assms(9), of k] assms(4,8) key by (auto simp: paid_def)
qed (use assms in simp_all)

lemma RejectWithdrawal_balanced:
  assumes "RejectWithdrawal i s = (r, s')" "sound s"
  shows "balanced s s'"
  using assms(1) unfolding RejectWithdrawal_def
proof (rule load_sound [OF _ assms(2)])
  fix db t
  let ?u = "wal WalletErr (UpdateTxStatusFrom i [Pending, Reviewing, ColdSigning] RejectedTx)"
  assume db: "ws_store (wd_svc s) = Some db" "sound_db db" "gm_get (db_txs db) i = Some t" "x_Type t = WithdrawalTx"
    and g: "(if x_Status t = RejectedTx then throw AlreadyRejected
       else if x_Status t \<notin> {Pending, Reviewing, ColdSigning} then throw NotRejectable
       else abind ?u (\<lambda>ok. if ok then release_rejected i t else throw NotRejectable)) s = (r, s')"
  show "balanced s s'"
  proof (cases "x_Status t \<in> {Pending, Reviewing, ColdSigning}")
    case False
    then show ?thesis using g assms(2) by (auto simp: throw_def balanced_same_store split: if_splits)
  next
    case True
    let ?db = "db\<lparr>db_txs := gm_put i (t\<lparr>x_Status := RejectedTx\<rparr>) (db_txs db)\<rparr>"
    have f: "db_faults ?db = []" using db(2) by (simp add: sound_db_def)
    have "?u s = (Inr True, set_db s ?db)" using db True by (simp add: wal_at UpdateTxStatusFrom_calm sound_db_def)
    then have g2: "release_rejected i t (set_db s ?db) = (r, s')" using g True by (auto simp: split: if_splits)
    obtain db2 where db2: "pg_Settle [unlock_op (x_UserID t) (x_Asset t) (x_Amount t)] [] ?db = (Inr (), db2)"
      using unlock_succeeds [OF f] by blast
    have "balanced_db db db2"
      by (rule unlock_books [OF db(2,3,4) _ _ _ _ _ db2]) (use True in \<open>auto simp: live_def\<close>)
    then have b: "balanced s (set_db s db2)" using balanced_set_db db(1) by blast
    have "s' = releaseDailyUsageBestEffort (x_UserID t) (x_Asset t) (x_Amount t) (set_db s db2)"
      using g2 db2 by (simp add: release_rejected_def wal_at)
    then show ?thesis using balanced_join [OF b release_usage_balanced [OF balanced_sound [OF b]]] by simp
  qed
qed

lemma submit_save_balanced:
  assumes "abind (submit x) (\<lambda>h. save_status (t\<lparr>x_TxHash := h, x_Status := Broadcast\<rparr>)) s = (r, s')"
    "ws_store (wd_svc s) = Some db" "sound_db db" "gm_get (db_txs db) (x_ID t) = Some t" "live (x_Status t)"
  shows "balanced s s'"
  using assms(1)
proof (rule abind_quiet)
  show "sound s" using assms(2,3) by (auto simp: sound_def)
  fix h s1
  assume "same_store s s1" "save_status (t\<lparr>x_TxHash := h, x_Status := Broadcast\<rparr>) s1 = (r, s')"
  then show "balanced s1 s'"
    using save_balanced [of "t\<lparr>x_TxHash := h, x_Status := Broadcast\<rparr>" s1 r s' db t] assms(2-5) by (simp add: live_def)
qed (rule store_kept(1))

lemma BroadcastWithdrawal_balanced:
  assumes "BroadcastWithdrawal i s = (r, s')" "sound s"
  shows "balanced s s'"
  using assms(1) unfolding BroadcastWithdrawal_def
proof (rule load_sound [OF _ assms(2)])
  fix db t
  let ?send = "abind (submit (HotPayment (x_Asset t) (x_ToAddress t) (x_Amount t))) (\<lambda>h.
    save_status (t\<lparr>x_TxHash := h, x_Status := Broadcast\<rparr>))"
  assume db: "ws_store (wd_svc s) = Some db" "sound_db db" "gm_get (db_txs db) i = Some t" "x_ID t = i"
    and g: "(if x_Status t \<noteq> Approved then (Inl NotApproved, s)
       else if coldRequired t s then queueColdWithdrawal t s
       else abind (clientFor (x_Asset t)) (\<lambda>_. ?send) s) = (r, s')"
  show "balanced s s'"
  proof (cases "x_Status t = Approved")
    case False
    then show ?thesis using g assms(2) by (simp add: balanced_same_store)
  next
    case st: True
    show ?thesis
    proof (cases "coldRequired t s")
      case True
      then have "queueColdWithdrawal t s = (r, s')" using g st by simp
      then show ?thesis unfolding queueColdWithdrawal_def Let_def
      proof (rule abind_quiet [OF _ assms(2)])
        fix ref s1
        assume "same_store s s1" "save_status (t\<lparr>x_ColdRef := ref, x_Status := ColdSigning\<rparr>) s1 = (r, s')"
        then show "balanced s1 s'"
          using save_balanced [of "t\<lparr>x_ColdRef := ref, x_Status := ColdSigning\<rparr>" s1 r s' db t] db st by (simp add: live_def)
      qed (rule store_kept(2))
    next
      case False
      then have "abind (clientFor (x_Asset t)) (\<lambda>_. ?send) s = (r, s')" using g st by simp
      then show ?thesis
      proof (rule abind_quiet [OF _ assms(2)])
        fix c s1
        assume "same_store s s1" and send: "?send s1 = (r, s')"
        then show "balanced s1 s'" by (intro submit_save_balanced [OF send, of db]) (use db st in \<open>simp_all add: live_def\<close>)
      qed (rule store_kept(3))
    qed
  qed
qed

lemma cold_failed_balanced:
  assumes "cold_failed t s = (r, s')" "ws_store (wd_svc s) = Some db" "sound_db db" "gm_get (db_txs db) (x_ID t) = Some t"
    "x_Type t = WithdrawalTx" "x_Status t = ColdSigning"
  shows "balanced s s'"
proof -
  let ?t = "lifecycle_of (t\<lparr>x_Status := Failed\<rparr>) t"
  let ?db = "db\<lparr>db_txs := gm_put (x_ID t) ?t (db_txs db)\<rparr>"
  have f: "db_faults db = []" "db_faults ?db = []" using assms(3) by (simp_all add: sound_db_def)
  have sv: "save_status (t\<lparr>x_Status := Failed\<rparr>) s = (Inr (), set_db s ?db)"
    using save_at [OF assms(2) f(1), of "t\<lparr>x_Status := Failed\<rparr>" t] assms(4) by simp
  obtain db2 where db2: "pg_Settle [unlock_op (x_UserID t) (x_Asset t) (x_Amount t)] [] ?db = (Inr (), db2)"
    using unlock_succeeds [OF f(2)] by blast
  have "balanced_db db db2"
    by (rule unlock_books [OF assms(3,4,5) _ _ _ _ _ db2]) (use assms(6) in \<open>simp_all add: live_def\<close>)
  then have b: "balanced s (set_db s db2)" using balanced_set_db assms(2) by blast
  have "s' = releaseDailyUsageBestEffort (x_UserID t) (x_Asset t) (x_Amount t) (set_db s db2)"
    using assms(1) sv db2 by (simp add: cold_failed_def wal_at abind_def)
  then show ?thesis using balanced_join [OF b release_usage_balanced [OF balanced_sound [OF b]]] by simp
qed

lemma broadcastColdSigned_balanced:
  assumes "broadcastColdSigned t s = (r, s')" "ws_store (wd_svc s) = Some db" "sound_db db" "gm_get (db_txs db) (x_ID t) = Some t"
    "x_Status t = ColdSigned"
  shows "balanced s s'"
proof -
  have s: "sound s" using assms(2,3) by (auto simp: sound_def)
  have send: "balanced s1 s'" if "send_signed t raw s1 = (r, s')" "same_store s s1" for raw s1
    using that(1) unfolding send_signed_def
  proof (rule abind_quiet)
    show "sound s1" using s that(2) by (simp add: sound_def)
    let ?send = "abind (submit (SignedPayment (x_Asset t) raw)) (\<lambda>h. save_status (t\<lparr>x_TxHash := h, x_Status := Broadcast\<rparr>))"
    fix c s2
    assume k: "same_store s1 s2"
      and g: "(if ch_signed_ok (wd_chain s2) (x_Asset t) then ?send s2 else (Inl CannotBroadcastSigned, s2)) = (r, s')"
    show "balanced s2 s'"
    proof (cases "ch_signed_ok (wd_chain s2) (x_Asset t)")
      case True
      then have "?send s2 = (r, s')" using g by simp
      then show ?thesis
        by (rule submit_save_balanced [of _ _ _ _ _ db]) (use assms k that(2) in \<open>simp_all add: live_def\<close>)
    next
      case False
      then show ?thesis using g k that(2) s by (simp add: balanced_same_store sound_def)
    qed
  qed (rule store_kept(3))
  show ?thesis using assms(1) unfolding broadcastColdSigned_def
  proof (rule abind_quiet [OF _ s])
    fix st s1
    assume k: "same_store s s1" and "(case (st_Status st, st_Signed st) of
         (ColdSignedOk, Some g) \<Rightarrow> if sg_SignedRawTx g = [] then throw ColdTxNotSignedYet else send_signed t (sg_SignedRawTx g)
       | _ \<Rightarrow> throw ColdTxNotSignedYet) s1 = (r, s')"
    then consider "s' = s1" | raw where "send_signed t raw s1 = (r, s')"
      by (cases "st_Status st"; cases "st_Signed st") (auto simp: throw_def split: if_splits)
    then show "balanced s1 s'" by cases (use k s send in \<open>auto simp: balanced_same_store sound_def\<close>)
  qed (rule store_kept(2))
qed

lemma AdvanceColdWithdrawal_balanced:
  assumes "AdvanceColdWithdrawal i s = (r, s')" "sound s"
  shows "balanced s s'"
  using assms(1) unfolding AdvanceColdWithdrawal_def
proof (rule load_sound [OF _ assms(2)])
  fix db t
  let ?poll = "abind (on_signer (cold_Status (x_ColdRef t))) (\<lambda>st.
           case st_Status st of
             ColdQueued \<Rightarrow> throw ColdTxNotSignedYet
           | ColdSignFailed \<Rightarrow> cold_failed t
           | ColdSignedOk \<Rightarrow> save_status (t\<lparr>x_Status := ColdSigned\<rparr>)
           | OtherColdStatus n \<Rightarrow> throw UnknownColdStatus)"
  assume db: "ws_store (wd_svc s) = Some db" "sound_db db" "gm_get (db_txs db) i = Some t" "x_Type t = WithdrawalTx" "x_ID t = i"
    and g: "(if x_Status t = ColdSigning then ?poll
       else if x_Status t = ColdSigned then broadcastColdSigned t
       else throw NotInColdFlow) s = (r, s')"
  consider "x_Status t = ColdSigning" | "x_Status t = ColdSigned" | "x_Status t \<notin> {ColdSigning, ColdSigned}" by blast
  then show "balanced s s'"
  proof cases
    case 1
    then have "?poll s = (r, s')" using g by simp
    then show ?thesis
    proof (rule abind_quiet [OF _ assms(2)])
      fix st s1
      assume k: "same_store s s1" and "(case st_Status st of
             ColdQueued \<Rightarrow> throw ColdTxNotSignedYet
           | ColdSignFailed \<Rightarrow> cold_failed t
           | ColdSignedOk \<Rightarrow> save_status (t\<lparr>x_Status := ColdSigned\<rparr>)
           | OtherColdStatus n \<Rightarrow> throw UnknownColdStatus) s1 = (r, s')"
      then consider "s' = s1" | "cold_failed t s1 = (r, s')" | "save_status (t\<lparr>x_Status := ColdSigned\<rparr>) s1 = (r, s')"
        by (auto simp: throw_def split: cold_status.splits)
      then show "balanced s1 s'"
      proof cases
        case a: 1
        then show ?thesis using k assms(2) by (simp add: balanced_same_store sound_def)
      next
        case b: 2
        then show ?thesis using k db 1 by (intro cold_failed_balanced [OF b]) simp_all
      next
        case c: 3
        then show ?thesis using k db 1 by (intro save_balanced [OF c, of db t]) (simp_all add: live_def)
      qed
    qed (rule store_kept(2))
  next
    case 2
    then show ?thesis using g db by (intro broadcastColdSigned_balanced) simp_all
  next
    case 3
    then show ?thesis using g assms(2) by (simp add: throw_def balanced_same_store)
  qed
qed

text \<open>A broadcast withdrawal is paid out of the wallet and completed.\<close>

lemma final_op_simps [simp]:
  "op_key (final_op t) = tx_key t" "un (final_op t) = numeric (x_Amount t)" "dn (final_op t) = - numeric (x_Amount t)"
  by (simp_all add: final_op_def op_key_def tx_key_def NormalizeAccountType_def un_def dn_def)

lemma final_books:
  assumes "sound_db db" "gm_get (db_txs db) i = Some t" "x_Type t = WithdrawalTx" "x_Status t = Broadcast"
    "x_ID t' = x_ID t" "x_Amount t' = x_Amount t" "x_Status t' = Completed" "x_Type t' = WithdrawalTx" "tx_key t' = tx_key t"
    "pg_Settle [final_op t] [] db = (Inr (), db2)"
  shows "balanced_db db (db2\<lparr>db_txs := gm_put i t' (db_txs db2)\<rparr>)"
proof (rule books_change [OF assms(1,2), of _ t'])
  have live: "live (x_Status t)" using assms(4) by (simp add: live_def)
  note c = live_covered [OF assms(1-3) live]
  have "db_faults db2 = []" by (rule calmlyD [OF calmly_Settle assms(10)]) (use assms(1) in \<open>simp add: sound_db_def\<close>)
  then show "db_faults (db2\<lparr>db_txs := gm_put i t' (db_txs db2)\<rparr>) = []" by simp
  show "db_txs (db2\<lparr>db_txs := gm_put i t' (db_txs db2)\<rparr>) = gm_put i t' (db_txs db)"
    using pg_Settle_db_txs [OF assms(10)] by simp
  show "lck (db2\<lparr>db_txs := gm_put i t' (db_txs db2)\<rparr>) k = lck db k + owed k t' - owed k t" for k
    using pg_Settle_ok(2) [OF assms(10), of k] assms live c by (auto simp: owed_def unlocked_def)
  show "bal (db2\<lparr>db_txs := gm_put i t' (db_txs db2)\<rparr>) k = bal db k + paid k t - paid k t'" for k
    using pg_Settle_ok(1) [OF assms(10), of k] assms by (auto simp: paid_def)
qed (use assms in simp_all)

lemma ConfirmWithdrawal_balanced:
  assumes "ConfirmWithdrawal i s = (r, s')" "sound s"
  shows "balanced s s'"
  using assms(1) unfolding ConfirmWithdrawal_def
proof (rule load_sound [OF _ assms(2)])
  fix db t
  let ?fin = "\<lambda>conf. abind (wal FinaliseFailed (pg_Settle [final_op t] [])) (\<lambda>_.
      save_status (t\<lparr>x_Confirmations := conf, x_Status := Completed\<rparr>))"
  let ?rest = "\<lambda>_ s. case ch_conf (wd_chain s) (x_Asset t) (x_TxHash t) of
           None \<Rightarrow> (Inl ConfirmationsFailed, s)
         | Some conf \<Rightarrow> if conf < confThreshold (x_Asset t) s then (Inr (), s) else ?fin conf s"
  assume db: "ws_store (wd_svc s) = Some db" "sound_db db" "gm_get (db_txs db) i = Some t" "x_Type t = WithdrawalTx" "x_ID t = i"
    and g: "(if x_Status t \<noteq> Broadcast then throw NotBroadcast else abind (clientFor (x_Asset t)) ?rest) s = (r, s')"
  show "balanced s s'"
  proof (cases "x_Status t = Broadcast")
    case False
    then show ?thesis using g assms(2) by (simp add: throw_def balanced_same_store)
  next
    case True
    then have "abind (clientFor (x_Asset t)) ?rest s = (r, s')" using g by simp
    then show ?thesis
    proof (rule abind_quiet [OF _ assms(2)])
      fix c s1
      assume k: "same_store s s1" and "?rest c s1 = (r, s')"
      then consider "s' = s1" | conf where "?fin conf s1 = (r, s')" by (auto split: option.splits if_splits)
      then show "balanced s1 s'"
      proof cases
        case 1
        then show ?thesis using k assms(2) by (simp add: balanced_same_store sound_def)
      next
        case (2 conf)
        let ?t = "t\<lparr>x_Confirmations := conf, x_Status := Completed\<rparr>"
        have s1: "ws_store (wd_svc s1) = Some db" using k db(1) by simp
        obtain q db2 where q: "pg_Settle [final_op t] [] db = (q, db2)" by fastforce
        have f: "db_faults db2 = []" by (rule calmlyD [OF calmly_Settle q]) (use db(2) in \<open>simp add: sound_db_def\<close>)
        have x: "db_txs db2 = db_txs db" using pg_Settle_db_txs [OF q] .
        show ?thesis
        proof (cases q)
          case (Inl e)
          then have "s' = set_db s1 db2" using 2 q s1 by (simp add: wal_at abind_def)
          moreover have "balanced_db db db2"
            by (rule books_same [OF db(2) f x]) (use q Inl pg_ledger.settle_fails in blast)+
          ultimately show ?thesis using balanced_set_db s1 by simp
        next
          case (Inr u)
          have "save_status ?t (set_db s1 db2) =
              (Inr (), set_db s1 (db2\<lparr>db_txs := gm_put i (lifecycle_of ?t t) (db_txs db2)\<rparr>))"
            using save_at [of "set_db s1 db2" db2 ?t t] f x db(3,5) by simp
          then have "s' = set_db s1 (db2\<lparr>db_txs := gm_put i (lifecycle_of ?t t) (db_txs db2)\<rparr>)"
            using 2 q Inr s1 by (simp add: wal_at abind_def)
          moreover have "balanced_db db (db2\<lparr>db_txs := gm_put i (lifecycle_of ?t t) (db_txs db2)\<rparr>)"
            by (rule final_books [OF db(2,3,4) True]) (use q Inr db(4) in simp_all)
          ultimately show ?thesis using balanced_set_db s1 by simp
        qed
      qed
    qed (rule store_kept(3))
  qed
qed

section \<open>Requests\<close>

lemma has_kept:
  "upsert_wallet k s = (Inr u, s') \<Longrightarrow> has s' k"
  "reserve_row k x s = (r, s') \<Longrightarrow> has s k \<Longrightarrow> has s' k"
  "stmt (accrue_usage key v l) s = (r2, s') \<Longrightarrow> has s k \<Longrightarrow> has s' k"
proof -
  show "upsert_wallet k s = (Inr u, s') \<Longrightarrow> has s' k" using upsert_wallet_money by simp
  show "reserve_row k x s = (r, s') \<Longrightarrow> has s k \<Longrightarrow> has s' k"
    by (auto simp: reserve_row_def abind_def update_wallet_def has_def throw_def ret_def elim!: stmt_cases
        split: prod.splits sum.splits option.splits if_splits)
  show "stmt (accrue_usage key v l) s = (r2, s') \<Longrightarrow> has s k \<Longrightarrow> has s' k"
    by (auto simp: accrue_usage_def has_def elim!: stmt_cases split: if_splits option.splits)
qed

text \<open>Both reservations: a transaction that locks the amount, then the row is read back.\<close>

definition reserves :: "wallet_key \<Rightarrow> rat \<Rightarrow> pg \<Rightarrow> wallet_err + wallet \<Rightarrow> pg \<Rightarrow> bool" where
  "reserves k x s r s' \<longleftrightarrow> db_faults s' = [] \<and> db_txs s' = db_txs s \<and> bal s' = bal s \<and>
    (case r of Inl e \<Rightarrow> lck s' = lck s | Inr w \<Rightarrow> lck s' = (lck s)(k := lck s k + x) \<and> wallet_exists (wa_ID w) s')"

lemma reserved_read:
  assumes "abind (transaction m) (\<lambda>_. GetWalletForAccount (fst k) (fst (snd k)) AccountSpot) s = (r, s')" "db_faults s = []" "calmly m"
    "snd (snd k) = AccountSpot"
    "\<And>s u s'. m s = (Inr u, s') \<Longrightarrow> db_faults s = [] \<Longrightarrow> db_txs s' = db_txs s \<and> bal s' = bal s \<and> lck s' = (lck s)(k := lck s k + x) \<and> has s' k"
  shows "reserves k x s r s'"
proof -
  obtain q s1 where q: "transaction m s = (q, s1)" by fastforce
  have f: "db_faults s1 = []" by (rule calmlyD [OF calmly_transaction [OF assms(3)] q assms(2)])
  show ?thesis
  proof (cases q)
    case (Inl e)
    then have "r = Inl e" "s' = s1" using assms(1) q by auto
    then show ?thesis using transaction_Inl [OF q [unfolded Inl]] f by (auto simp: reserves_def)
  next
    case (Inr u)
    obtain s2 where "m s = (Inr u, s2)" "s1 = s2"
    proof -
      obtain p t where p: "m s = (p, t)" by fastforce
      have "db_faults t = []" by (rule calmlyD [OF assms(3) p assms(2)])
      then have st: "stmt (\<lambda>s. ((), s)) s = (Inr (), s)" "stmt (\<lambda>s. ((), s)) t = (Inr (), t)"
        using assms(2) by (simp_all add: stmt_calm)
      show thesis
      proof (cases p)
        case (Inl e)
        then have "fst (transaction m s) = Inl e" by (simp add: transaction_def abind_def st p)
        then show thesis using q \<open>q = Inr u\<close> by simp
      next
        case (Inr v)
        then have "transaction m s = (Inr v, t)" by (simp add: transaction_def abind_def st p ret_def)
        then show thesis using that [of t] q p Inr \<open>q = Inr u\<close> by simp
      qed
    qed
    then have m: "db_txs s1 = db_txs s" "bal s1 = bal s" "lck s1 = (lck s)(k := lck s k + x)" "has s1 k"
      using assms(2,5) by blast+
    obtain w where w: "gm_get (db_wallets s1) k = Some w" using m(4) by (auto simp: has_def)
    have k: "(fst k, fst (snd k), AccountSpot) = k" using assms(4) by (metis prod.collapse)
    have nz: "NormalizeAccountType AccountSpot = AccountSpot" by (simp add: NormalizeAccountType_def AccountSpot_def)
    have "GetWalletForAccount (fst k) (fst (snd k)) AccountSpot s1 = (Inr (wallet_of k w), s1)"
      using w k nz f by (simp add: GetWalletForAccount_def Let_def abind_def stmt_calm ret_def)
    then have r: "r = Inr (wallet_of k w)" "s' = s1" using assms(1) q Inr by simp_all
    have "wallet_exists (wa_ID (wallet_of k w)) s1"
      using map_of_SomeD [OF w] by (force simp: wallet_exists_def wallet_of_def list_ex_iff)
    then show ?thesis using r m f by (simp add: reserves_def)
  qed
qed

lemma ReserveForOrder_reserves:
  assumes "ReserveForOrder u a (Some x) s = (r, s')" "db_faults s = []" "0 < bval x"
  shows "reserves (u, a, AccountSpot) (numeric x) s r s'"
proof (rule reserved_read)
  have spot: "NormalizeAccountType AccountSpot = AccountSpot" "ValidAccountType AccountSpot"
    by (simp_all add: NormalizeAccountType_def AccountSpot_def ValidAccountType_def)
  show "abind (transaction (abind (upsert_wallet (u, a, AccountSpot)) (\<lambda>_. reserve_row (u, a, AccountSpot) (numeric x))))
      (\<lambda>_. GetWalletForAccount (fst (u, a, AccountSpot)) (fst (snd (u, a, AccountSpot))) AccountSpot) s = (r, s')"
    using assms(1,3) spot by (simp add: ReserveForOrder_def ReserveForAccount_def Let_def)
  show "calmly (abind (upsert_wallet (u, a, AccountSpot)) (\<lambda>_. reserve_row (u, a, AccountSpot) (numeric x)))" by (intro calm)
  fix t v t'
  assume "abind (upsert_wallet (u, a, AccountSpot)) (\<lambda>_. reserve_row (u, a, AccountSpot) (numeric x)) t = (Inr v, t')"
  then obtain t1 where b: "upsert_wallet (u, a, AccountSpot) t = (Inr (), t1)"
    "reserve_row (u, a, AccountSpot) (numeric x) t1 = (Inr v, t')" by (auto simp: abind_Inr)
  note h = has_kept(1) [OF b(1)]
  show "db_txs t' = db_txs t \<and> bal t' = bal t \<and> lck t' = (lck t)((u, a, AccountSpot) := lck t (u, a, AccountSpot) + numeric x) \<and>
      has t' (u, a, AccountSpot)"
    using upsert_wallet_money [OF b(1)] reserve_row_money [OF b(2) h] has_kept(2) [OF b(2) h] reserve_steps_db_txs(2) [OF b(2)]
    by (simp add: same_money_def)
qed (use assms(2) in simp_all)

lemma ReserveWithDailyLimit_reserves:
  assumes "ReserveWithDailyLimit u a (Some x) (Some e) l s = (r, s')" "db_faults s = []" "0 < bval x" "0 < bval e"
  shows "reserves (u, a, AccountSpot) (numeric x) s r s'"
proof (rule reserved_read)
  let ?k = "(u, a, AccountSpot)"
  let ?acc = "stmt (\<lambda>s. accrue_usage (u, a, db_day s) (numeric e) (numeric l) s)"
  let ?m = "abind (upsert_wallet ?k) (\<lambda>_. abind (reserve_row ?k (numeric x)) (\<lambda>_.
    abind ?acc (\<lambda>n. if n = 0 then throw DailyLimitExceeded else ret ())))"
  show "abind (transaction ?m) (\<lambda>_. GetWalletForAccount (fst ?k) (fst (snd ?k)) AccountSpot) s = (r, s')"
    using assms(1,3,4) by (simp add: ReserveWithDailyLimit_def GetWallet_def Let_def)
  show "calmly ?m" by (auto intro!: calm simp: accrue_usage_def split: option.splits)
  fix t v t'
  assume m: "?m t = (Inr v, t')"
  then obtain t1 t2 n where b: "upsert_wallet ?k t = (Inr (), t1)" "reserve_row ?k (numeric x) t1 = (Inr (), t2)"
    "?acc t2 = (Inr n, t')" by (auto simp: abind_Inr ret_def throw_def split: if_splits)
  have tx: "db_txs t' = db_txs t2" "has t2 ?k \<Longrightarrow> has t' ?k" using b(3)
    by (auto simp: accrue_usage_def has_def elim!: stmt_cases split: if_splits option.splits)
  have "v = ()" by simp
  with daily_body [OF m] have "bal t' = bal t \<and> lck t' = (lck t)(?k := lck t ?k + numeric x)" by simp
  then show "db_txs t' = db_txs t \<and> bal t' = bal t \<and> lck t' = (lck t)(?k := lck t ?k + numeric x) \<and> has t' ?k"
    using tx has_kept(2) [OF b(2) has_kept(1) [OF b(1)]] upsert_wallet_money [OF b(1)] reserve_steps_db_txs(2) [OF b(2)] by simp
qed (use assms(2) in simp_all)

lemma wal_reserves:
  assumes "abind (wal f m) (\<lambda>w. ret (w, e)) s = (r, s')" "ws_store (wd_svc s) = Some db"
    "\<And>q db'. m db = (q, db') \<Longrightarrow> reserves k x db q db'"
  shows "\<exists>q db'. s' = set_db s db' \<and> reserves k x db q db' \<and> (\<forall>w e. r = Inr (w, e) \<longrightarrow> q = Inr w) \<and> (\<forall>e. r = Inl e \<longrightarrow> isl q)"
proof -
  obtain q db' where q: "m db = (q, db')" by fastforce
  then have "wal f m s = (case q of Inl e \<Rightarrow> Inl (f e) | Inr x \<Rightarrow> Inr x, set_db s db')"
    using assms(2) by (simp add: wal_at split: sum.splits)
  then have "s' = set_db s db'" "r = (case q of Inl er \<Rightarrow> Inl (f er) | Inr w \<Rightarrow> Inr (w, e))"
    using assms(1) by (auto simp: abind_def ret_def split: sum.splits)
  then show ?thesis using assms(3) [OF q] by (intro exI [of _ q] exI [of _ db']) (cases q, auto)
qed

lemma resolve_svc [simp]: "wd_svc (snd (resolveDailyLimitUSDT u a s)) = wd_svc s"
  by (auto simp: resolveDailyLimitUSDT_def kycLevelCached_def Let_def split: option.splits prod.splits)

text \<open>The state after a reservation: the service as before but for its store (and its cache).\<close>

lemma reserve_withdrawal_reserves:
  assumes "reserve_withdrawal u a x s = (r, s')" "ws_store (wd_svc s) = Some db" "db_faults db = []" "0 < bval x"
  obtains q db' s0 where "s' = set_db s0 db'" "wd_svc s0 = wd_svc s" "reserves (u, a, AccountSpot) (numeric x) db q db'"
    "\<And>w e. r = Inr (w, e) \<Longrightarrow> q = Inr w" "\<And>e. r = Inl e \<Longrightarrow> isl q"
proof (cases "\<not> no_store (wd_svc s) \<and> wd_price s \<noteq> None")
  case priced: True
  obtain l s1 where l: "resolveDailyLimitUSDT u a s = (l, s1)" by fastforce
  have s1: "wd_svc s1 = wd_svc s" using resolve_svc [of u a s] l by simp
  have quiet: "reserves (u, a, AccountSpot) (numeric x) db (Inl e) db" for e using assms(3) by (simp add: reserves_def)
  show thesis
  proof (cases "usdtEquivalent a x s1")
    case None
    then have "s' = s1" "r = Inl PriceUnavailable" using assms(1) priced l by (simp_all add: reserve_withdrawal_def)
    then show thesis using that [of s1 db "Inl DBError"] s1 assms(2) quiet by (simp add: set_db_same)
  next
    case (Some eq)
    then have ab: "abind (wal WalletErr (ReserveWithDailyLimit u a (Some x) (Some eq) l)) (\<lambda>w. ret (w, Some eq)) s1 = (r, s')"
      using assms(1) priced l by (simp add: reserve_withdrawal_def)
    have "reserves (u, a, AccountSpot) (numeric x) db q db'"
      if "ReserveWithDailyLimit u a (Some x) (Some eq) l db = (q, db')" for q db'
    proof (cases "0 < bval eq")
      case True
      with ReserveWithDailyLimit_reserves [OF that assms(3,4)] show ?thesis .
    next
      case False
      then show ?thesis using that quiet by (auto simp: ReserveWithDailyLimit_def)
    qed
    from wal_reserves [OF ab _ this] s1 assms(2) that [of s1] show thesis by auto
  qed
next
  case free: False
  show thesis
  proof (cases "within_daily_limit u a x s")
    case False
    then have "s' = s" "r = Inl (WalletErr DailyLimitExceeded)" using assms(1) free by (auto simp: reserve_withdrawal_def)
    moreover have "reserves (u, a, AccountSpot) (numeric x) db (Inl DBError) db" using assms(3) by (simp add: reserves_def)
    ultimately show thesis using that [of s db "Inl DBError"] assms(2) by (simp add: set_db_same)
  next
    case True
    then have ab: "abind (wal WalletErr (ReserveForOrder u a (Some x))) (\<lambda>w. ret (w, None)) s = (r, s')"
      using assms(1) free by (auto simp: reserve_withdrawal_def)
    have "reserves (u, a, AccountSpot) (numeric x) db q db'" if "ReserveForOrder u a (Some x) db = (q, db')" for q db'
      by (rule ReserveForOrder_reserves [OF that assms(3,4)])
    from wal_reserves [OF ab assms(2) this] that [of s] show thesis by auto
  qed
qed

text \<open>An amount that is read back from the database as it was sent.\<close>

definition exact_amount :: "bf \<Rightarrow> bool" where
  "exact_amount x \<longleftrightarrow> numeric (read_numeric (numeric x)) = numeric x"

lemma SaveTx_new:
  assumes "db_faults s = []" "gm_get (db_txs s) (x_ID t) = None" "wallet_exists (x_WalletID t) s"
  shows "SaveTx t s = (Inr (), s\<lparr>db_txs := gm_put (x_ID t) (stored_tx t) (db_txs s)\<rparr>)"
  using assms by (simp add: SaveTx_def checked_def abind_def stmt_calm save_tx_def insert_tx_def ret_def)

lemma RequestWithdrawal_balanced:
  assumes "RequestWithdrawal u a d x s = (r, s')" "sound s" "fresh_wd s" "\<forall>v. x = Some v \<longrightarrow> exact_amount v"
  shows "balanced s s'"
proof (cases "x = None \<or> bf_sign (the x) \<le> 0")
  case True
  then have "s' = s" using assms(1) by (auto simp: RequestWithdrawal_def split: option.splits if_splits)
  then show ?thesis using assms(2) by (simp add: balanced_same_store)
next
  case False
  then obtain v where v: "x = Some v" "0 < bval v" by auto
  obtain db where db: "ws_store (wd_svc s) = Some db" "sound_db db" using assms(2) by (auto simp: sound_def)
  have f: "db_faults db = []" using db(2) by (simp add: sound_db_def)
  have "abind (check_destination u a d) (\<lambda>_. abind (reserve_withdrawal u a v) (\<lambda>(w, e). record_withdrawal u a d v w e)) s = (r, s')"
    using assms(1) v by (simp add: RequestWithdrawal_def)
  then show ?thesis
  proof (rule abind_quiet [OF _ assms(2)])
    show "same_store s s1" if "check_destination u a d s = (q, s1)" for q s1 using check_destination_svc [OF that] by simp
    fix y s1
    assume c: "check_destination u a d s = (Inr y, s1)"
      and g: "abind (reserve_withdrawal u a v) (\<lambda>(w, e). record_withdrawal u a d v w e) s1 = (r, s')"
    have s1: "wd_svc s1 = wd_svc s" using check_destination_svc [OF c] .
    obtain p s2 where p: "reserve_withdrawal u a v s1 = (p, s2)" by fastforce
    from p obtain q db1 s0 where s2: "s2 = set_db s0 db1" "wd_svc s0 = wd_svc s1"
      "reserves (u, a, AccountSpot) (numeric v) db q db1" "\<And>w e. p = Inr (w, e) \<Longrightarrow> q = Inr w" "\<And>e. p = Inl e \<Longrightarrow> isl q"
      by (rule reserve_withdrawal_reserves [where db = db]) (use s1 db(1) f v(2) in simp_all)
    show "balanced s1 s'"
    proof (cases p)
      case (Inl e)
      then have "s' = s2" using g p by simp
      moreover have "balanced_db db db1"
        by (rule books_same [OF db(2)]) (use s2(3,5) Inl in \<open>auto simp: reserves_def split: sum.splits\<close>)
      ultimately show ?thesis using s1 db(1) s2(1) by (simp add: balanced_def)
    next
      case (Inr we)
      obtain w e where we: "we = (w, e)" by fastforce
      then have rq: "db_faults db1 = []" "db_txs db1 = db_txs db" "bal db1 = bal db"
        "lck db1 = (lck db)((u, a, AccountSpot) := lck db (u, a, AccountSpot) + numeric v)" "wallet_exists (wa_ID w) db1"
        using s2(3) s2(4) Inr by (simp_all add: reserves_def)
      let ?v = "wd_svc s2"
      let ?s3 = "s2\<lparr>wd_svc := ?v\<lparr>ws_nid := Suc (ws_nid ?v)\<rparr>\<rparr>"
      define t where "t = (new_tx (''wd_'' @ ws_ids ?v (ws_nid ?v)) u a WithdrawalTx v (initial_status v ?s3) (ws_now (wd_svc ?s3)))
          \<lparr>x_WalletID := wa_ID w, x_ToAddress := d\<rparr>"
      have "ws_ids ?v = ws_ids (wd_svc s)" "ws_nid ?v = ws_nid (wd_svc s)" using s1 s2(1,2) by (simp_all add: set_db_def)
      then have fresh: "gm_get (db_txs db1) (x_ID t) = None"
        using assms(3) db(1) rq(2) by (simp add: t_def new_tx_def fresh_wd_def tx_at_def)
      define db2 where "db2 = db1\<lparr>db_txs := gm_put (x_ID t) (stored_tx t) (db_txs db1)\<rparr>"
      have save: "SaveTx t db1 = (Inr (), db2)"
        unfolding db2_def by (rule SaveTx_new [OF rq(1) fresh]) (use rq(5) in \<open>simp add: t_def\<close>)
      have st: "ws_store (wd_svc ?s3) = Some db1" using s2(1) by simp
      have new: "on_svc WalletErr new_uuid s2 = (Inr (ws_ids ?v (ws_nid ?v)), ?s3)" by (simp add: on_svc_def new_uuid_def)
      have wt: "wal SaveFailed (SaveTx t) ?s3 = (Inr (), set_db ?s3 db2)" by (simp add: wal_at [OF st] save)
      have "record_withdrawal u a d v w e s2 = (case wal SaveFailed (SaveTx t) ?s3 of
            (Inl er, s1) \<Rightarrow> (Inl er, undo_reserve u a v e s1)
          | (Inr y, s1) \<Rightarrow> (Inr t, if e = None then recordDailyWithdrawn u a v s1 else s1))"
        unfolding record_withdrawal_def abind_step(1) [where m = "on_svc WalletErr new_uuid" and s = s2, OF new] Let_def t_def ..
      then have "record_withdrawal u a d v w e s2 =
          (Inr t, if e = None then recordDailyWithdrawn u a v (set_db ?s3 db2) else set_db ?s3 db2)" unfolding wt by simp
      then have "s' = (if e = None then recordDailyWithdrawn u a v (set_db ?s3 db2) else set_db ?s3 db2)" using g p Inr we by simp
      then have store: "ws_store (wd_svc s') = Some db2" by (simp add: recordDailyWithdrawn_def Let_def)
      have stt: "initial_status v ?s3 \<in> {Pending, Reviewing}" by (simp add: initial_status_def)
      have ow: "owed k (stored_tx t) = (if k = (u, a, AccountSpot) then numeric v else 0)" for k
        using assms(4) v(1) stt by (auto simp: owed_def stored_tx_def t_def new_tx_def tx_key_def live_def exact_amount_def)
      have pd: "paid k (stored_tx t) = 0" for k
        using stt by (auto simp: paid_def stored_tx_def t_def new_tx_def)
      have nn: "0 \<le> numeric (x_Amount (stored_tx t))"
        using assms(4) v numeric_nonneg [of v] by (simp add: stored_tx_def t_def new_tx_def exact_amount_def)
      have "balanced_db db db2"
      proof (rule books_add [OF db(2), of "x_ID t" _ "stored_tx t"])
        show "gm_get (db_txs db) (x_ID t) = None" using fresh rq(2) by simp
        show "lck db2 k = lck db k + owed k (stored_tx t)" for k using rq(4) ow by (simp add: db2_def)
        show "bal db2 k = bal db k" for k using rq(3) by (simp add: db2_def)
      qed (use rq pd nn in \<open>simp_all add: db2_def stored_tx_def\<close>)
      then show ?thesis using store s1 db(1) by (simp add: balanced_def)
    qed
  qed
qed

section \<open>Runs without failures\<close>

interpretation funds: withdrawal_runs sound balanced
  "\<lambda>s x. fresh_wd s \<and> (\<forall>v. x = Some v \<longrightarrow> exact_amount v)"
proof
  show "balanced s s" if "sound s" for s using that by (simp add: balanced_same_store)
  show "balanced s s'" if "wal WalletErr (GetTx i) s = (q, s')" "sound s" for i s q s'
    using that by (auto simp: sound_def sound_db_def wal_at GetTx_calm set_db_same balanced_def balanced_db_def split: option.splits)
  show "balanced s s'" if ls: "ListByStatus st n k s = (l, s')" and sd: "sound s" for st n k s l s'
  proof -
    obtain db where db: "ws_store (wd_svc s) = Some db" "sound_db db" using sd by (auto simp: sound_def)
    obtain q db' where q: "ListTxByStatus st n k db = (q, db')" by fastforce
    have "db' = db" using ListTx_calm [of db st n k] db(2) q by (simp add: sound_db_def)
    then have "s' = s" using ls q db(1) by (auto simp: ListByStatus_def wal_at set_db_same split: sum.splits)
    then show ?thesis using sd by (simp add: balanced_same_store)
  qed
qed (auto intro: balanced_sound balanced_join ApproveWithdrawal_balanced RejectWithdrawal_balanced
  BroadcastWithdrawal_balanced AdvanceColdWithdrawal_balanced ConfirmWithdrawal_balanced RequestWithdrawal_balanced)

text \<open>A step without failures: a command, or anything that leaves the store behind the service alone.\<close>

inductive calm_step :: "wdsvc \<Rightarrow> wdsvc \<Rightarrow> bool" where
  command: "(case c of Request u a d x \<Rightarrow> fresh_wd s \<and> (\<forall>v. x = Some v \<longrightarrow> exact_amount v) | _ \<Rightarrow> True) \<Longrightarrow> calm_step s (wd_exec c s)"
| world: "same_store s s' \<Longrightarrow> calm_step s s'"

lemma calm_steps_balanced: "calm_step\<^sup>*\<^sup>* s s' \<Longrightarrow> sound s \<Longrightarrow> balanced s s'"
proof (induction rule: rtranclp_induct)
  case (step s1 s2)
  then have "balanced s s1" by simp
  moreover have "balanced s1 s2" using step(2) balanced_sound [OF calculation]
    by (cases rule: calm_step.cases) (auto intro: funds.exec_rel balanced_same_store)
  ultimately show ?case by (rule balanced_join)
qed (simp add: balanced_same_store)

end
