(* ===== verification/Withdrawal_Properties.thy ===== *)
theory Withdrawal_Properties
  imports Withdrawal_Funds
begin

text \<open>
  What the withdrawal service guarantees, and where it fails: the life cycle, the cover of live withdrawals, the checks of a request,
  and four ways in which funds are paid twice or stay locked.
\<close>

section \<open>What holds\<close>

text \<open>
  C10: However the operations of the withdrawal service are called, and whatever statements of the database fail, a recorded withdrawal
  keeps its owner, asset, amount and destination, its status moves along the edges of the life cycle only, and a withdrawal that is
  completed, rejected or failed stays so.
\<close>

theorem withdrawal_lifecycle:
  assumes "wd_step\<^sup>*\<^sup>* s s'" "keyed s" "rows s i = Some t"
  shows "\<exists>t'. rows s' i = Some t' \<and> (wd_edge (x_ColdRef t))\<^sup>*\<^sup>* (x_Status t) (x_Status t') \<and>
    t' = t\<lparr>x_Status := x_Status t', x_TxHash := x_TxHash t', x_Confirmations := x_Confirmations t'\<rparr> \<and>
    (x_Status t \<in> {Completed, RejectedTx, Failed} \<longrightarrow> x_Status t' = x_Status t)"
proof -
  from wd_steps_moves [OF assms(1,2)] assms(3) obtain t' where t': "rows s' i = Some t'" "advanced t t'"
    unfolding moves_def by blast
  then have "lifecycle_of t' t = t'" "(wd_edge (x_ColdRef t))\<^sup>*\<^sup>* (x_Status t) (x_Status t')" by (simp_all add: advanced_def)
  then show ?thesis using t'(1) wd_done unfolding lifecycle_of_def by metis
qed

lemma load_cold: "load_withdrawal f i s = (q, s') \<Longrightarrow> coldRequired t s' = coldRequired t s"
  by (auto simp: load_withdrawal_def abind_def wal_def on_svc_def throw_def ret_def coldRequired_def split: prod.splits sum.splits if_splits)

lemma on_signer_rows: "on_signer m s = (q, s') \<Longrightarrow> rows s' = rows s"
  by (auto simp: on_signer_def rows_def split: option.splits prod.splits sum.splits)

text \<open>
  C20: A withdrawal that needs the cold wallet never arrives. The reference of its offline transaction is set on the row in memory, but no column of the
  table holds it: once such a withdrawal has been queued for signing, no operation in whatever order makes it signed, broadcast,
  completed or failed. Only a rejection ends it.
\<close>

theorem cold_withdrawal_stuck:
  assumes "BroadcastWithdrawal i s = (Inr (), s1)" "keyed s" "rows s i = Some t" "coldRequired t s" "x_ColdRef t = []"
    "wd_step\<^sup>*\<^sup>* s1 s'"
  shows "\<exists>t'. rows s' i = Some t' \<and> x_Status t' \<in> {ColdSigning, RejectedTx}"
proof -
  have i: "x_ID t = i" using assms(2,3) unfolding keyed_def by blast
  have k: "keyed s1" using BroadcastWithdrawal_moves [OF assms(1,2)] by (rule moves_keyed)
  from assms(1) obtain t0 sl where l: "load_withdrawal WalletErr i s = (Inr t0, sl)" by (auto simp: BroadcastWithdrawal_def abind_Inr)
  have f: "rows sl = rows s" "t0 = t" using load_withdrawal_rows [OF l] assms(3) by simp_all
  have c: "coldRequired t sl" using load_cold [OF l] assms(4) by simp
  then have "queueColdWithdrawal t sl = (Inr (), s1)"
    using assms(1) l f(2) c by (auto simp: BroadcastWithdrawal_def split: if_splits)
  then obtain ref sq where q: "on_signer (Queue \<lparr>cd_RefID = [], cd_WithdrawID = x_ID t, cd_Asset = x_Asset t, cd_ToAddress = x_ToAddress t,
        cd_Amount = x_Amount t, cd_FeeStrategy = (case gm_get (wd_feeStrategies sl) (ToUpper (x_Asset t)) of None \<Rightarrow> [] | Some f \<Rightarrow> f),
        cd_QueuedAt = 0\<rparr>) sl = (Inr ref, sq)" "save_status (t\<lparr>x_ColdRef := ref, x_Status := ColdSigning\<rparr>) sq = (Inr (), s1)"
    by (auto simp: queueColdWithdrawal_def abind_Inr)
  have "rows sq = rows s" using on_signer_rows [OF q(1)] f(1) by simp
  then have r: "rows s1 i = Some (lifecycle_of (t\<lparr>x_ColdRef := ref, x_Status := ColdSigning\<rparr>) t)" (is "_ = Some ?t")
    using save_status_row [OF q(2)] assms(3) i by simp
  from wd_steps_moves [OF assms(6) k] r obtain t' where t': "rows s' i = Some t'" "advanced ?t t'"
    unfolding moves_def by blast
  then have "(wd_edge [])\<^sup>*\<^sup>* ColdSigning (x_Status t')" using assms(5) by (simp add: advanced_def lifecycle_of_def)
  then show ?thesis using t'(1) wd_signing_without_reference by blast
qed

text \<open>
  C9: Withdrawals are covered as long as no statement of the database fails, every new withdrawal gets an unused identifier, and every requested amount comes
  back from the database as it was stored (it is read with 64 bits). From a state in which, further, every recorded amount is not negative and every wallet has locked at least the
  amounts of its live withdrawals, whatever operations run, in whatever order, the funds locked in a wallet exceed the
  amounts of its live withdrawals by what they exceeded them at the start, and the balance falls by exactly the amounts of the withdrawals
  that complete: under these conditions a withdrawal neither creates nor strands money. An amount that the 64 bits change can be stranded: \<open>rejected_amount_stays_locked\<close>.
\<close>

theorem withdrawals_covered:
  assumes "calm_step\<^sup>*\<^sup>* s s'" "sound s" "ws_store (wd_svc s) = Some db" "ws_store (wd_svc s') = Some db'"
  shows "lck db' k - total (owed k) db' = lck db k - total (owed k) db \<and>
    bal db' k = bal db k - (total (paid k) db' - total (paid k) db) \<and> total (owed k) db' \<le> lck db' k"
proof -
  have b: "balanced_db db db'" using calm_steps_balanced [OF assms(1,2)] assms(3,4) by (simp add: balanced_def)
  then have "spare db' k = spare db k" "worth db' k = worth db k" by (simp_all add: balanced_db_def)
  moreover have "0 \<le> spare db' k" using b unfolding balanced_db_def sound_db_def by blast
  ultimately show ?thesis by (simp add: spare_def worth_def)
qed

lemma check_destination_ok:
  assumes "check_destination u a d s = (Inr y, s1)"
  shows "(\<exists>c. gm_get (ws_clients (wd_svc s)) a = Some c \<and> c d) \<and>
    ValidateWithdrawalAddress (ws_sha (wd_svc s)) (ws_keccak (wd_svc s)) a d = Done True \<and> fst (whitelisted u a d s) = Inr True \<and>
    (\<exists>al. s1 = s\<lparr>wd_allow := al\<rparr>)"
proof -
  from assms obtain c where c: "gm_get (ws_clients (wd_svc s)) a = Some c" "c d"
    "ValidateWithdrawalAddress (ws_sha (wd_svc s)) (ws_keccak (wd_svc s)) a d = Done True"
    and w: "abind (whitelisted u a d) (\<lambda>ok. if ok then ret () else throw NotAllowlisted) s = (Inr y, s1)"
    by (auto simp: check_destination_def clientFor_def abind_def split: option.splits outcome.splits if_splits)
  then have w: "whitelisted u a d s = (Inr True, s1)"
    by (auto simp: abind_def ret_def throw_def split: prod.splits sum.splits if_splits)
  have "s1 = s\<lparr>wd_allow := wd_allow s1\<rparr>"
    using w by (cases s) (auto simp: whitelisted_def on_allow_def Let_def split: option.splits prod.splits sum.splits)
  then have "\<exists>al. s1 = s\<lparr>wd_allow := al\<rparr>" by blast
  then show ?thesis using c w by simp
qed

lemma resolve_allow [simp]: "fst (resolveDailyLimitUSDT u a (s\<lparr>wd_allow := al\<rparr>)) = fst (resolveDailyLimitUSDT u a s)"
  by (simp add: resolveDailyLimitUSDT_def kycLevelCached_def Let_def split: option.split prod.split)

lemma resolve_threshold: "wd_threshold (snd (resolveDailyLimitUSDT u a s)) = wd_threshold s"
  by (auto simp: resolveDailyLimitUSDT_def kycLevelCached_def Let_def split: option.split prod.split)

lemma reserve_withdrawal_ok:
  assumes "reserve_withdrawal u a x s = (Inr (w, e), s')" "ws_store (wd_svc s) = Some db" "0 < bval x"
  shows "\<exists>db' s0. s' = set_db s0 db' \<and> wd_svc s0 = wd_svc s \<and> wd_threshold s0 = wd_threshold s \<and> tx_at db' = tx_at db \<and>
    numeric x \<le> bal db (u, a, AccountSpot) - lck db (u, a, AccountSpot) \<and>
    lck db' (u, a, AccountSpot) = lck db (u, a, AccountSpot) + numeric x \<and> bal db' = bal db \<and>
    (wd_price s \<noteq> None \<longrightarrow> used_today db' u a \<le> numeric (fst (resolveDailyLimitUSDT u a s)))"
proof (cases "\<not> no_store (wd_svc s) \<and> wd_price s \<noteq> None")
  case priced: True
  obtain l s1 where l: "resolveDailyLimitUSDT u a s = (l, s1)" by fastforce
  have s1: "wd_svc s1 = wd_svc s" "wd_threshold s1 = wd_threshold s"
    using resolve_svc [of u a s] resolve_threshold [of u a s] l by simp_all
  from assms(1) priced l obtain eq where eq: "usdtEquivalent a x s1 = Some eq"
    by (auto simp: reserve_withdrawal_def split: option.splits)
  then obtain w' where "wal WalletErr (ReserveWithDailyLimit u a (Some x) (Some eq) l) s1 = (Inr w', s')"
    using assms(1) priced l by (auto simp: reserve_withdrawal_def abind_Inr)
  then obtain db' where r: "ReserveWithDailyLimit u a (Some x) (Some eq) l db = (Inr w', db')" "s' = set_db s1 db'"
    using s1 assms(2) by (auto simp: wal_at split: prod.splits sum.splits)
  have "db_txs db' = db_txs db" by (rule ReserveWithDailyLimit_db_txs [OF r(1)])
  then show ?thesis using daily_granted [OF r(1)] s1 l
    by (intro exI [of _ db'] exI [of _ s1]) (simp add: tx_at_def r(2))
next
  case False
  then have np: "wd_price s = None" using assms(2) by (simp add: no_store_def)
  from assms(1) False obtain w' where "wal WalletErr (ReserveForOrder u a (Some x)) s = (Inr w', s')"
    by (auto simp: reserve_withdrawal_def abind_Inr split: if_splits)
  then obtain db' where r: "ReserveForOrder u a (Some x) db = (Inr w', db')" "s' = set_db s db'"
    using assms(2) by (auto simp: wal_at split: prod.splits sum.splits)
  have "db_txs db' = db_txs db" by (rule ReserveForOrder_db_txs [OF r(1)])
  moreover have "NormalizeAccountType AccountSpot = AccountSpot" "ValidAccountType AccountSpot"
    by (simp_all add: NormalizeAccountType_def AccountSpot_def ValidAccountType_def)
  ultimately show ?thesis
    using ReserveForAccount_money [OF r(1) [unfolded ReserveForOrder_def] assms(3)] np
    by (intro exI [of _ db'] exI [of _ s]) (simp add: tx_at_def r(2))
qed

lemma SaveTx_money:
  "SaveTx t s = (r, s') \<Longrightarrow> bal s' = bal s \<and> lck s' = lck s \<and> used_today s' = used_today s"
  by (auto simp: SaveTx_def checked_def abind_def save_tx_def insert_tx_def throw_def ret_def used_today_def fun_eq_iff
      elim!: stmt_cases split: prod.splits sum.splits option.splits if_splits)

lemma record_withdrawal_ok:
  assumes "record_withdrawal u a d x w e s = (Inr t, s')" "ws_store (wd_svc s) = Some db"
  shows "(\<exists>db'. ws_store (wd_svc s') = Some db' \<and> bal db' = bal db \<and> lck db' = lck db \<and> used_today db' = used_today db \<and>
      (tx_at db (x_ID t) = None \<longrightarrow> tx_at db' (x_ID t) = Some (stored_tx t))) \<and>
    x_ID t = ''wd_'' @ ws_ids (wd_svc s) (ws_nid (wd_svc s)) \<and> x_Amount t = x \<and> x_ToAddress t = d \<and>
    x_Status t = (if positive (wd_threshold s) \<and> bf_cmp x (the (wd_threshold s)) \<ge> 0 then Reviewing else Pending)"
proof -
  let ?i = "ws_ids (wd_svc s) (ws_nid (wd_svc s))"
  let ?s = "s\<lparr>wd_svc := (wd_svc s)\<lparr>ws_nid := Suc (ws_nid (wd_svc s))\<rparr>\<rparr>"
  let ?t = "(new_tx (''wd_'' @ ?i) u a WithdrawalTx x (initial_status x ?s) (ws_now (wd_svc ?s)))\<lparr>x_WalletID := wa_ID w, x_ToAddress := d\<rparr>"
  have new: "on_svc WalletErr new_uuid s = (Inr ?i, ?s)" by (simp add: on_svc_def new_uuid_def)
  obtain q db1 where q: "SaveTx ?t db = (q, db1)" by fastforce
  have st: "ws_store (wd_svc ?s) = Some db" using assms(2) by simp
  have "record_withdrawal u a d x w e s = (case wal SaveFailed (SaveTx ?t) ?s of
            (Inl er, s1) \<Rightarrow> (Inl er, undo_reserve u a x e s1)
          | (Inr v, s1) \<Rightarrow> (Inr ?t, if e = None then recordDailyWithdrawn u a x s1 else s1))"
    unfolding record_withdrawal_def abind_step(1) [where m = "on_svc WalletErr new_uuid" and s = s, OF new] Let_def ..
  then have r: "q = Inr ()" "t = ?t" "s' = (if e = None then recordDailyWithdrawn u a x (set_db ?s db1) else set_db ?s db1)"
    using assms(1) q wal_at [OF st, of SaveFailed "SaveTx ?t"] by (auto split: sum.splits)
  have "ws_store (wd_svc s') = Some db1" using r(3) by (simp add: recordDailyWithdrawn_def Let_def)
  moreover have "x_ID ?t = ''wd_'' @ ?i" "x_Amount ?t = x" by (simp_all add: new_tx_def)
  moreover have "x_Status ?t = (if positive (wd_threshold s) \<and> bf_cmp x (the (wd_threshold s)) \<ge> 0 then Reviewing else Pending)"
    by (simp add: new_tx_def initial_status_def)
  ultimately show ?thesis using SaveTx_money [OF q] SaveTx_txs [OF q] r(1,2) by simp
qed

text \<open>
  C19: A withdrawal that is accepted has passed every check: the amount is positive, the client of the asset and the format rules accept the address, it
  is in the user's address book, the free balance covers the amount, which is now locked, and, with a price source, the total in USDT of
  the user's withdrawals of this asset on this day is within the limit (each asset has a meter of its own). It is recorded under its identifier, if that was unused, for review
  when it reaches the threshold, and as pending below it.
\<close>

theorem accepted_withdrawal_checked:
  assumes "RequestWithdrawal u a d (Some x) s = (Inr t, s')" "ws_store (wd_svc s) = Some db"
  shows "0 < bval x \<and> (\<exists>c. gm_get (ws_clients (wd_svc s)) a = Some c \<and> c d) \<and>
    ValidateWithdrawalAddress (ws_sha (wd_svc s)) (ws_keccak (wd_svc s)) a d = Done True \<and> fst (whitelisted u a d s) = Inr True \<and>
    (\<exists>db'. ws_store (wd_svc s') = Some db' \<and> numeric x \<le> bal db (u, a, AccountSpot) - lck db (u, a, AccountSpot) \<and>
      lck db' (u, a, AccountSpot) = lck db (u, a, AccountSpot) + numeric x \<and> bal db' = bal db \<and>
      (wd_price s \<noteq> None \<longrightarrow> used_today db' u a \<le> numeric (fst (resolveDailyLimitUSDT u a s)))) \<and>
    (fresh_wd s \<longrightarrow> rows s' (x_ID t) = Some (stored_tx t)) \<and> x_Amount t = x \<and> x_ToAddress t = d \<and>
    x_Status t = (if positive (wd_threshold s) \<and> bf_cmp x (the (wd_threshold s)) \<ge> 0 then Reviewing else Pending)"
proof -
  have x: "0 < bval x" using assms(1) by (cases "bf_sign x \<le> 0") (auto simp: RequestWithdrawal_def)
  then obtain y s1 w e s2 where c: "check_destination u a d s = (Inr y, s1)" "reserve_withdrawal u a x s1 = (Inr (w, e), s2)"
    "record_withdrawal u a d x w e s2 = (Inr t, s')"
    using assms(1) by (auto simp: RequestWithdrawal_def abind_Inr)
  note k = check_destination_ok [OF c(1)]
  then obtain al where s1: "s1 = s\<lparr>wd_allow := al\<rparr>" by blast
  then have "ws_store (wd_svc s1) = Some db" using assms(2) by simp
  from reserve_withdrawal_ok [OF c(2) this x] obtain db2 s0 where s2: "s2 = set_db s0 db2" "wd_svc s0 = wd_svc s1"
    "wd_threshold s0 = wd_threshold s1" and f: "tx_at db2 = tx_at db" "numeric x \<le> bal db (u, a, AccountSpot) - lck db (u, a, AccountSpot)"
    "lck db2 (u, a, AccountSpot) = lck db (u, a, AccountSpot) + numeric x" "bal db2 = bal db"
    "wd_price s1 \<noteq> None \<longrightarrow> used_today db2 u a \<le> numeric (fst (resolveDailyLimitUSDT u a s1))" by blast
  have st: "ws_store (wd_svc s2) = Some db2" using s2(1) by simp
  note r = record_withdrawal_ok [OF c(3) st]
  have th: "wd_threshold s2 = wd_threshold s" "ws_ids (wd_svc s2) = ws_ids (wd_svc s)" "ws_nid (wd_svc s2) = ws_nid (wd_svc s)"
    using s2 s1 by (simp_all add: set_db_def)
  show ?thesis using x k r f s1 th assms(2) by (auto simp: fresh_wd_def)
qed

section \<open>Amounts that are read back\<close>

text \<open>
  An amount below 8 survives the database. It is sent with 18 decimals and read back into a float of 64 bits, and whatever
  its precision was, what a later operation sends again is the same decimal.
\<close>

theorem small_amounts_exact:
  assumes "0 \<le> numeric x" "numeric x < 8"
  shows "numeric (read_numeric (numeric x)) = numeric x"
proof -
  define k where "k = round_even (bval x * 10 ^ 18)"
  have v: "numeric x * 10 ^ 18 = of_int k" by (simp add: numeric_eq k_def)
  have "\<bar>fround 64 (numeric x) - numeric x\<bar> \<le> numeric x * 2 powi - 64"
    using fround_error [of 64 "numeric x"] assms(1) by simp
  also have "\<dots> \<le> 8 * 2 powi - 64" using assms(2) by (intro mult_right_mono) simp_all
  finally have "\<bar>fround 64 (numeric x) - numeric x\<bar> * 10 ^ 18 \<le> 8 * 2 powi - 64 * 10 ^ 18" by (intro mult_right_mono) simp_all
  then have "\<bar>fround 64 (numeric x) * 10 ^ 18 - of_int k\<bar> \<le> 8 * 2 powi - 64 * 10 ^ 18"
    unfolding v [symmetric] left_diff_distrib [symmetric] abs_mult by simp
  also have "8 * 2 powi - 64 * 10 ^ 18 < (1/2 :: rat)" by (simp add: power_int_def power_divide)
  finally have "round_even (fround 64 (numeric x) * 10 ^ 18) = k" by (rule round_even_unique)
  then have "numeric (read_numeric (numeric x)) = of_int k / 10 ^ 18"
    unfolding numeric_eq [of "read_numeric (numeric x)"] by (simp add: read_numeric_def)
  then show ?thesis using v by (simp add: field_simps)
qed

lemma release_usage_store:
  assumes "ws_store (wd_svc s) = Some db" "db_faults db = []"
  shows "\<exists>us. ws_store (wd_svc (releaseDailyUsageBestEffort u a y s)) = Some (db\<lparr>db_usage := us\<rparr>)"
proof (cases "wd_price s = None \<or> usdtEquivalent a y s = None")
  case True
  moreover have "db\<lparr>db_usage := db_usage db\<rparr> = db" by (cases db) simp
  ultimately show ?thesis using assms(1) by (auto simp: releaseDailyUsageBestEffort_def split: option.splits intro!: exI [of _ "db_usage db"])
next
  case False
  then obtain e where e: "usdtEquivalent a y s = Some e" by auto
  from ReleaseDailyUsage_calm [OF assms(2)] obtain us where "ReleaseDailyUsage u a (Some e) db = (Inr (), db\<lparr>db_usage := us\<rparr>)" by blast
  then show ?thesis using False e assms(1) by (auto simp: releaseDailyUsageBestEffort_def no_store_def wal_at)
qed

text \<open>
  A larger amount need not survive, and then the lock outlives the withdrawal. The amount that is read back can be larger than the amount
  that was locked: the unlock of a rejection then matches no row, which the store does not take for an error, so the rejection
  succeeds, the withdrawal is rejected, and its funds stay locked.
\<close>

theorem rejected_amount_stays_locked:
  assumes "ws_store (wd_svc s) = Some db" "db_faults db = []" "tx_at db i = Some t" "x_Type t = WithdrawalTx"
    "x_Status t \<in> {Pending, Reviewing}" "lck db (tx_key t) = numeric x" "x_Amount t = read_numeric (numeric x)"
    "numeric x < numeric (read_numeric (numeric x))"
  shows "\<exists>s' db'. RejectWithdrawal i s = (Inr (), s') \<and> ws_store (wd_svc s') = Some db' \<and>
    tx_at db' i = Some (t\<lparr>x_Status := RejectedTx\<rparr>) \<and> lck db' (tx_key t) = numeric x"
proof -
  have t: "gm_get (db_txs db) i = Some t" using assms(3) by (simp add: tx_at_def)
  let ?db = "db\<lparr>db_txs := gm_put i (t\<lparr>x_Status := RejectedTx\<rparr>) (db_txs db)\<rparr>"
  let ?p = "unlock_op (x_UserID t) (x_Asset t) (x_Amount t)"
  have f: "db_faults ?db = []" using assms(2) by simp
  obtain db2 where st: "pg_Settle [?p] [] ?db = (Inr (), db2)" using unlock_succeeds [OF f] by blast
  have key: "op_key ?p = tx_key t" "un ?p = numeric (x_Amount t)"
    by (simp_all add: unlock_op_def op_key_def tx_key_def NormalizeAccountType_def un_def)
  have l: "lck db2 (tx_key t) = numeric x"
    using pg_Settle_ok(2) [OF st, of "tx_key t"] assms(6-8) key by (simp add: unlocked_def)
  have x: "tx_at db2 i = Some (t\<lparr>x_Status := RejectedTx\<rparr>)" using pg_Settle_db_txs [OF st] by (simp add: tx_at_def)
  have f2: "db_faults db2 = []" by (rule calmlyD [OF calmly_Settle st f])
  have u: "wal WalletErr (UpdateTxStatusFrom i [Pending, Reviewing, ColdSigning] RejectedTx) s = (Inr True, set_db s ?db)"
    using assms(1,2,5) t by (auto simp: wal_at UpdateTxStatusFrom_calm)
  have w: "wal ReleaseFailed (pg_Settle [?p] []) (set_db s ?db) = (Inr (), set_db s db2)" using st by (simp add: wal_at)
  let ?s2 = "releaseDailyUsageBestEffort (x_UserID t) (x_Asset t) (x_Amount t) (set_db s db2)"
  have r: "release_rejected i t (set_db s ?db) = (Inr (), ?s2)" by (simp add: release_rejected_def w)
  have "RejectWithdrawal i s = (Inr (), ?s2)"
    using load_calm [OF assms(1,2), of "\<lambda>_. WdNotFound" i] t assms(4,5) u r by (auto simp: RejectWithdrawal_def)
  moreover obtain us where "ws_store (wd_svc ?s2) = Some (db2\<lparr>db_usage := us\<rparr>)"
    using release_usage_store [OF set_db_simps(1) f2] by blast
  ultimately show ?thesis using l x by auto
qed

section \<open>Two statements that are not one\<close>

text \<open>Loading a withdrawal, with or without failures.\<close>

lemma load_any:
  assumes "load_withdrawal f i s = (q, s1)" "ws_store (wd_svc s) = Some db"
  shows "\<exists>fs. s1 = set_db s (db\<lparr>db_faults := fs\<rparr>) \<and> (\<forall>t. q = Inr t \<longrightarrow> tx_at db i = Some t)"
proof -
  obtain p db1 where p: "GetTx i db = (p, db1)" by fastforce
  have "\<exists>fs. db1 = db\<lparr>db_faults := fs\<rparr>"
  proof (cases "db_faults db")
    case Nil
    then have "db1 = db" using GetTx_calm [OF Nil, of i] p by simp
    then show ?thesis by (intro exI [of _ "db_faults db"]) simp
  next
    case (Cons b fs)
    then show ?thesis using p
      by (cases b) (auto simp: GetTx_def stmt_def abind_def throw_def ret_def split: option.splits)
  qed
  moreover have "tx_at db i = Some t" if "p = Inr t" for t using GetTx_txs [OF p] that by simp
  ultimately show ?thesis using assms p
    by (auto simp: load_withdrawal_def wal_at abind_def throw_def ret_def split: sum.splits if_splits)
qed

text \<open>
  What one call of \<open>ConfirmWithdrawal\<close> can do to a withdrawal with enough confirmations: fail and change nothing, debit the
  wallet and fail to record it, or debit the wallet and record it.
\<close>

lemma confirm_steps:
  assumes "ConfirmWithdrawal i s = (r, s')" "ws_store (wd_svc s) = Some db" "tx_at db i = Some t"
    "ch_conf (wd_chain s) (x_Asset t) (x_TxHash t) = Some conf" "confThreshold (x_Asset t) s \<le> conf"
  shows "\<exists>db'. ws_store (wd_svc s') = Some db' \<and> wd_chain s' = wd_chain s \<and> confThreshold a s' = confThreshold a s \<and>
    (bal db' = bal db \<and> isl r \<and> tx_at db' = tx_at db \<or>
     bal db' (tx_key t) = bal db (tx_key t) - numeric (x_Amount t) \<and> (isl r \<longrightarrow> tx_at db' = tx_at db))"
proof -
  obtain q s1 where q: "load_withdrawal WalletErr i s = (q, s1)" by fastforce
  from load_any [OF q assms(2)] assms(3) obtain fs where s1: "s1 = set_db s (db\<lparr>db_faults := fs\<rparr>)" and t: "q = Inr t \<or> isl q"
    by (cases q) auto
  let ?db1 = "db\<lparr>db_faults := fs\<rparr>" and ?t = "t\<lparr>x_Confirmations := conf, x_Status := Completed\<rparr>"
  obtain p db2 where p: "pg_Settle [final_op t] [] ?db1 = (p, db2)" by fastforce
  obtain w db3 where w: "SaveTx ?t db2 = (w, db3)" by fastforce
  have th: "confThreshold b (set_db s d) = confThreshold b s" for b d by (simp add: confThreshold_def)
  have nc: "\<not> conf < confThreshold (x_Asset t) s" using assms(5) by simp
  consider "s' = set_db s ?db1" "isl r" | "isl p" "s' = set_db s db2" "isl r"
    | "\<not> isl p" "s' = set_db s db3" "isl w \<longleftrightarrow> isl r"
    using assms(1,4) q s1 t p w nc
    by (cases q; cases p; cases w)
      (auto simp: ConfirmWithdrawal_def clientFor_def abind_def wal_at save_status_def throw_def th split: if_splits option.splits)
  then show ?thesis
  proof cases
    case 1
    then show ?thesis by (simp add: th)
  next
    case 2
    then obtain e where "pg_Settle [final_op t] [] ?db1 = (Inl e, db2)" using p by (cases p) auto
    from pg_Settle_fails [OF this] have "bal db2 = bal db" "tx_at db2 = tx_at db" by auto
    then show ?thesis using 2 by (simp add: th)
  next
    case 3
    then obtain u where pu: "pg_Settle [final_op t] [] ?db1 = (Inr u, db2)" using p by (cases p) auto
    have "bal db2 (tx_key t) = bal db (tx_key t) - numeric (x_Amount t)" using pg_Settle_ok(1) [OF pu, of "tx_key t"] by simp
    moreover have "tx_at db2 = tx_at db" using pg_Settle_txs [OF pu] by simp
    ultimately show ?thesis using 3 SaveTx_money [OF w] SaveTx_txs [OF w] by (cases w) (auto simp: th)
  qed
qed

text \<open>
  The completion of a withdrawal settles the wallet first and records the completion second. When the record fails the row still
  says \<open>broadcast\<close>, and the next pass settles the same withdrawal again: the user pays twice.
\<close>

theorem unsaved_completion_debits_twice:
  assumes "ConfirmWithdrawal i s = (Inl e, s1)" "ConfirmWithdrawal i s1 = (Inr (), s2)"
    "ws_store (wd_svc s) = Some db" "ws_store (wd_svc s1) = Some db1" "ws_store (wd_svc s2) = Some db2"
    "tx_at db i = Some t" "bal db1 \<noteq> bal db"
    "ch_conf (wd_chain s) (x_Asset t) (x_TxHash t) = Some conf" "confThreshold (x_Asset t) s \<le> conf"
  shows "bal db2 (tx_key t) = bal db (tx_key t) - 2 * numeric (x_Amount t)"
proof -
  from confirm_steps [OF assms(1,3,6,8,9), of "x_Asset t"] assms(4,7)
  have 1: "bal db1 (tx_key t) = bal db (tx_key t) - numeric (x_Amount t)" "tx_at db1 i = Some t"
    "ch_conf (wd_chain s1) (x_Asset t) (x_TxHash t) = Some conf" "confThreshold (x_Asset t) s1 \<le> conf"
    using assms(6,8,9) by auto
  from confirm_steps [OF assms(2,4) 1(2,3,4), of "x_Asset t"] assms(5)
  have "bal db2 (tx_key t) = bal db1 (tx_key t) - numeric (x_Amount t)" by simp
  then show ?thesis using 1(1) by simp
qed

text \<open>What one call of \<open>BroadcastWithdrawal\<close> can do to a withdrawal that goes out of the hot wallet.\<close>

lemma broadcast_steps:
  assumes "BroadcastWithdrawal i s = (r, s')" "ws_store (wd_svc s) = Some db" "tx_at db i = Some t" "\<not> coldRequired t s"
  defines "p \<equiv> HotPayment (x_Asset t) (x_ToAddress t) (x_Amount t)"
  shows "\<exists>db'. ws_store (wd_svc s') = Some db' \<and> coldRequired t s' = coldRequired t s \<and>
    (ch_sent (wd_chain s') = ch_sent (wd_chain s) \<and> isl r \<or>
     ch_sent (wd_chain s') = ch_sent (wd_chain s) @ [p] \<and> (isl r \<longrightarrow> tx_at db' = tx_at db))"
proof -
  obtain q s1 where q: "load_withdrawal WalletErr i s = (q, s1)" by fastforce
  from load_any [OF q assms(2)] assms(3) obtain fs where s1: "s1 = set_db s (db\<lparr>db_faults := fs\<rparr>)" and t: "q = Inr t \<or> isl q"
    by (cases q) auto
  let ?db1 = "db\<lparr>db_faults := fs\<rparr>" and ?c = "wd_chain s"
  have cold: "coldRequired t (set_db s d) = coldRequired t s" for d by (simp add: coldRequired_def set_db_def)
  show ?thesis
  proof (cases "ch_answer ?c (ch_count ?c)")
    case None
    then have "ch_sent (wd_chain s') = ch_sent ?c \<and> isl r \<and> (\<exists>d. ws_store (wd_svc s') = Some d) \<and> coldRequired t s' = coldRequired t s"
      using assms(1,4) q s1 t cold
      by (cases q) (auto simp: BroadcastWithdrawal_def clientFor_def submit_def abind_def Let_def coldRequired_def set_db_def split: if_splits option.splits)
    then show ?thesis by blast
  next
    case (Some h)
    let ?t = "t\<lparr>x_TxHash := h, x_Status := Broadcast\<rparr>"
    let ?s2 = "(set_db s ?db1)\<lparr>wd_chain := ?c\<lparr>ch_count := Suc (ch_count ?c), ch_sent := ch_sent ?c @ [p]\<rparr>\<rparr>"
    obtain w db2 where w: "SaveTx ?t ?db1 = (w, db2)" by fastforce
    have sub: "submit p (set_db s ?db1) = (Inr h, ?s2)" using Some by (simp add: submit_def Let_def)
    have sv: "save_status ?t ?s2 = (case w of Inl e \<Rightarrow> Inl (WalletErr e) | Inr u \<Rightarrow> Inr u, set_db ?s2 db2)"
    proof -
      have "ws_store (wd_svc ?s2) = Some ?db1" by simp
      from wal_at [OF this, of WalletErr "SaveTx ?t"] w show ?thesis by (cases w) (simp_all add: save_status_def)
    qed
    consider "s' = set_db s ?db1" "isl r" | "s' = set_db ?s2 db2" "isl r \<longleftrightarrow> isl w"
      using assms(1,4) q s1 t cold sub sv
      by (cases q; cases w) (auto simp: BroadcastWithdrawal_def clientFor_def abind_def p_def split: if_splits option.splits)
    then show ?thesis
    proof cases
      case 1
      then show ?thesis by (simp add: cold)
    next
      case 2
      have "coldRequired t s' = coldRequired t s" using 2(1) by (simp add: coldRequired_def set_db_def)
      moreover have "tx_at db2 = tx_at db" if "isl r" using that 2(2) SaveTx_txs [OF w] by (cases w) auto
      ultimately show ?thesis using 2(1) by (simp add: set_db_def)
    qed
  qed
qed

text \<open>
  The same in the other direction: the payment is sent to the network first and recorded second. When the record fails the withdrawal is still
  \<open>approved\<close>, and the next pass pays the same address again.
\<close>

theorem unsaved_broadcast_pays_twice:
  assumes "BroadcastWithdrawal i s = (Inl e, s1)" "BroadcastWithdrawal i s1 = (Inr (), s2)"
    "ws_store (wd_svc s) = Some db" "tx_at db i = Some t" "ch_sent (wd_chain s1) \<noteq> ch_sent (wd_chain s)" "\<not> coldRequired t s"
  shows "ch_sent (wd_chain s2) = ch_sent (wd_chain s) @ replicate 2 (HotPayment (x_Asset t) (x_ToAddress t) (x_Amount t))"
proof -
  from broadcast_steps [OF assms(1,3,4,6)] assms(4-6) obtain db1 where
    "ws_store (wd_svc s1) = Some db1" "tx_at db1 i = Some t" "\<not> coldRequired t s1"
    and 1: "ch_sent (wd_chain s1) = ch_sent (wd_chain s) @ [HotPayment (x_Asset t) (x_ToAddress t) (x_Amount t)]" by auto
  from broadcast_steps [OF assms(2) this(1-3)] show ?thesis by (auto simp: 1 numeral_2_eq_2)
qed

section \<open>At work\<close>

text \<open>A withdrawal of 5 USDT by alice, whose funds are locked; a network that answers every submission and reports ten confirmations.\<close>

definition demo_wd :: "tx_status \<Rightarrow> bf \<Rightarrow> tx" where
  "demo_wd st x = \<lparr>x_ID = ''wd_1'', x_UserID = ''alice'', x_WalletID = ''w1'', x_Asset = ''USDT'', x_TxHash = [], x_Type = WithdrawalTx,
     x_Status = st, x_Amount = x, x_Fee = BF 64 0, x_Confirmations = 0, x_CreatedAt = 0, x_ToAddress = ''T1'', x_AccountType = [],
     x_ColdRef = []\<rparr>"

definition demo_wd_db :: "tx \<Rightarrow> rat \<Rightarrow> bool list \<Rightarrow> pg" where
  "demo_wd_db t l fs = demo_db\<lparr>db_wallets := [((''alice'', ''USDT'', AccountSpot), (demo_row ''w1'' 100)\<lparr>wl_Locked := l\<rparr>)],
     db_txs := [(''wd_1'', t)], db_faults := fs\<rparr>"

definition demo_chain :: chain where
  "demo_chain = \<lparr>ch_answer = (\<lambda>n. Some ''hash''), ch_count = 0, ch_sent = [], ch_conf = (\<lambda>a h. Some 10), ch_signed_ok = (\<lambda>a. True)\<rparr>"

definition demo_desk :: "tx \<Rightarrow> rat \<Rightarrow> bool list \<Rightarrow> wdsvc" where
  "demo_desk t l fs = (NewWithdrawalService (demo\<lparr>ws_store := Some (demo_wd_db t l fs), ws_clients := [(''USDT'', \<lambda>a. True)]\<rparr>) []
     demo_chain)\<lparr>wd_book := [(''alice:USDT'', [\<lparr>ae_ID = ''a1'', ae_UserID = ''alice'', ae_Asset = ''USDT'', ae_Address = ''T1'',
       ae_Label = [], ae_CreatedAt = 0\<rparr>])]\<rparr>"

lemmas desk_defs = demo_desk_def demo_wd_db_def demo_wd_def demo_chain_def NewWithdrawalService_def demo_defs

lemma demo_desk_rows: "rows (demo_desk t l fs) i = (if i = ''wd_1'' then Some t else None)"
  by (simp add: desk_defs tx_at_def rows_def)

lemma demo_desk_keyed: "x_ID t = ''wd_1'' \<Longrightarrow> keyed (demo_desk t l fs)"
  by (simp add: keyed_def demo_desk_rows)

lemma demo_desk_store: "ws_store (wd_svc (demo_desk t l fs)) = Some (demo_wd_db t l fs)"
  by (simp add: demo_desk_def NewWithdrawalService_def)

theorem withdrawal_lifecycle_witness:
  "\<exists>t. rows (wd_exec (Approve ''wd_1'') (demo_desk (demo_wd Pending (BF 64 5)) 5 [])) ''wd_1'' = Some t \<and>
     (wd_edge [])\<^sup>*\<^sup>* Pending (x_Status t)"
proof -
  let ?s = "demo_desk (demo_wd Pending (BF 64 5)) 5 []"
  have "wd_step\<^sup>*\<^sup>* ?s (wd_exec (Approve ''wd_1'') ?s)" by (rule r_into_rtranclp, rule wd_step.command) simp
  then show ?thesis
    using withdrawal_lifecycle [of ?s _ "''wd_1''" "demo_wd Pending (BF 64 5)"] demo_desk_keyed [of "demo_wd Pending (BF 64 5)" 5 "[]"]
    by (auto simp: demo_desk_rows demo_wd_def)
qed

theorem cold_withdrawal_stuck_witness:
  "let cs = \<lparr>cs_pending = [], cs_signed = [], cs_faults = [], cs_ids = (\<lambda>n. nat_text n), cs_nid = 0, cs_now = 0\<rparr>;
       s = SetColdSigner (Some cs) None NewColdWalletPolicy (demo_desk (demo_wd Approved (BF 64 20000)) 20000 [])
   in fst (BroadcastWithdrawal ''wd_1'' s) = Inr () \<and>
      (\<exists>t. rows (wd_exec (Advance ''wd_1'') (snd (BroadcastWithdrawal ''wd_1'' s))) ''wd_1'' = Some t \<and> x_Status t \<in> {ColdSigning, RejectedTx})"
proof -
  define cs where "cs = \<lparr>cs_pending = [], cs_signed = [], cs_faults = [], cs_ids = (\<lambda>n. nat_text n), cs_nid = 0, cs_now = 0\<rparr>"
  define s where "s = SetColdSigner (Some cs) None NewColdWalletPolicy (demo_desk (demo_wd Approved (BF 64 20000)) 20000 [])"
  have r: "rows s ''wd_1'' = Some (demo_wd Approved (BF 64 20000))" "keyed s"
    by (simp_all add: s_def SetColdSigner_def keyed_def rows_def desk_defs tx_at_def)
  have c: "coldRequired (demo_wd Approved (BF 64 20000)) s"
    by (simp add: coldRequired_def s_def SetColdSigner_def NewColdWalletPolicy_def RequiresCold_def ThresholdFor_def demo_wd_def
      DefaultColdWalletThreshold_def NewFloat_numeral bf_cmp_def)
  have u: "ToUpper ''USDT'' = ''USDT''" by code_simp
  have n: "nat_text 0 = ''0''" by code_simp
  have ok: "fst (BroadcastWithdrawal ''wd_1'' s) = Inr ()"
    using c by (simp add: BroadcastWithdrawal_def load_withdrawal_def queueColdWithdrawal_def save_status_def wal_def on_svc_def on_db_def
      GetTx_def SaveTx_def save_tx_def checked_def on_signer_def Queue_def refFilePath_def HasPrefix_def file_op_def u n s_def cs_def SetColdSigner_def
      desk_defs stmt_def abind_def ret_def throw_def Let_def coldRequired_def NewColdWalletPolicy_def RequiresCold_def ThresholdFor_def
      DefaultColdWalletThreshold_def NewFloat_numeral bf_cmp_def)
  have "wd_step\<^sup>*\<^sup>* t (wd_exec (Advance ''wd_1'') t)" for t by (rule r_into_rtranclp, rule wd_step.command) simp
  with cold_withdrawal_stuck [of "''wd_1''" s, OF _ r(2,1) c] ok show ?thesis
    unfolding Let_def cs_def [symmetric] s_def [symmetric] by (metis demo_wd_def prod.collapse tx.select_convs(14))
qed

theorem withdrawals_covered_witness:
  "\<exists>db. ws_store (wd_svc (wd_exec (Reject ''wd_1'') (demo_desk (demo_wd Pending (BF 64 5)) 5 []))) = Some db \<and>
     lck db (''alice'', ''USDT'', AccountSpot) = total (owed (''alice'', ''USDT'', AccountSpot)) db"
proof -
  let ?k = "(''alice'', ''USDT'', AccountSpot)"
  define t where "t = demo_wd Pending (BF 64 5)"
  define s where "s = demo_desk t 5 []"
  define db where "db = demo_wd_db t 5 []"
  have st: "ws_store (wd_svc s) = Some db" by (simp add: s_def db_def demo_desk_store)
  have spare: "0 \<le> spare db k" for k
    by (simp add: spare_def db_def demo_wd_db_def lck_def total_def owed_def tx_key_def t_def demo_wd_def demo_row_def live_def)
  have tot: "total (owed ?k) db = 5" "lck db ?k = 5"
    by (simp_all add: db_def demo_wd_db_def lck_def total_def owed_def tx_key_def t_def demo_wd_def demo_row_def live_def)
  have sd: "sound s"
    unfolding sound_def using spare st by (intro exI [of _ db]) (simp add: sound_db_def, simp add: db_def demo_wd_db_def t_def demo_wd_def)
  have step: "calm_step\<^sup>*\<^sup>* s (wd_exec (Reject ''wd_1'') s)" by (rule r_into_rtranclp, rule calm_step.command) simp
  have "balanced s (wd_exec (Reject ''wd_1'') s)" using calm_steps_balanced [OF step sd] .
  then obtain db' where st': "ws_store (wd_svc (wd_exec (Reject ''wd_1'') s)) = Some db'" unfolding balanced_def by blast
  from withdrawals_covered [OF step sd st st', of ?k] tot st' show ?thesis
    unfolding s_def t_def by (intro exI [of _ db']) simp
qed

theorem accepted_withdrawal_checked_witness:
  "let p = RequestWithdrawal ''alice'' ''USDT'' ''T1'' (Some (NewFloat 20)) (demo_desk (demo_wd Pending (BF 64 5)) 5 [])
   in isl (fst p) = False \<and> (\<exists>db. ws_store (wd_svc (snd p)) = Some db \<and> lck db (''alice'', ''USDT'', AccountSpot) = 25)"
proof -
  define s where "s = demo_desk (demo_wd Pending (BF 64 5)) 5 []"
  let ?r = "RequestWithdrawal ''alice'' ''USDT'' ''T1'' (Some (NewFloat 20)) s"
  have u: "ToUpper (TrimSpace ''USDT'') = ''USDT''" "TrimSpace ''T1'' = ''T1''" "book_key ''alice'' ''USDT'' = ''alice:USDT''" by code_simp+
  have "\<exists>t. fst ?r = Inr t"
    by (simp add: RequestWithdrawal_def check_destination_def clientFor_def ValidateWithdrawalAddress_def whitelisted_def book_contains_def
      book_at_def EqualFold_def u reserve_withdrawal_def within_daily_limit_def record_withdrawal_def wal_def on_svc_def service_defs
      SaveTx_def save_tx_def recordDailyWithdrawn_def daily_used_def initial_status_def positive_def bf_cmp_def
      ReserveForOrder_def ReserveForAccount_def GetWalletForAccount_def reserve_row_def ValidAccountType_def AccountSpot_def wallet_of_def
      store_defs float_defs s_def desk_defs Let_def)
  then obtain t where t: "?r = (Inr t, snd ?r)" by (metis prod.collapse)
  have st: "ws_store (wd_svc s) = Some (demo_wd_db (demo_wd Pending (BF 64 5)) 5 [])" by (simp add: s_def demo_desk_store)
  have "lck (demo_wd_db (demo_wd Pending (BF 64 5)) 5 []) (''alice'', ''USDT'', AccountSpot) = 5"
    by (simp add: lck_def demo_wd_db_def demo_row_def)
  moreover obtain db where "ws_store (wd_svc (snd ?r)) = Some db" "lck db (''alice'', ''USDT'', AccountSpot) =
      lck (demo_wd_db (demo_wd Pending (BF 64 5)) 5 []) (''alice'', ''USDT'', AccountSpot) + numeric (NewFloat 20)"
    using accepted_withdrawal_checked [OF t st] by blast
  moreover have "isl (fst ?r) = False" by (subst t) simp
  ultimately show ?thesis unfolding s_def [symmetric] Let_def by (simp add: float_defs(1))
qed

theorem small_amounts_exact_witness: "numeric (read_numeric (numeric (NewFloat (3/2)))) = 3/2"
proof -
  have "NewFloat (3/2) = BF 53 (3/2)" unfolding NewFloat_def using fround_exact [of 53 "-1" "3/2"] by (simp add: on_grid_def)
  moreover have "numeric (BF 53 (3/2)) = 3/2" using numeric_exact [of "BF 53 (3/2)" "15 * 10 ^ 17"] by simp
  ultimately have n: "numeric (NewFloat (3/2)) = 3/2" by simp
  have "0 \<le> numeric (NewFloat (3/2))" "numeric (NewFloat (3/2)) < 8" unfolding n by simp_all
  from small_amounts_exact [OF this] show ?thesis unfolding n .
qed

theorem unsaved_completion_debits_twice_witness:
  "let s = demo_desk ((demo_wd Broadcast (BF 64 5))\<lparr>x_TxHash := ''hash''\<rparr>) 5 (replicate 6 False @ [True]);
       s2 = snd (ConfirmWithdrawal ''wd_1'' (snd (ConfirmWithdrawal ''wd_1'' s)))
   in \<exists>db. ws_store (wd_svc s2) = Some db \<and> bal db (''alice'', ''USDT'', AccountSpot) = 90"
proof -
  let ?k = "(''alice'', ''USDT'', AccountSpot)"
  define t where "t = (demo_wd Broadcast (BF 64 5))\<lparr>x_TxHash := ''hash''\<rparr>"
  define s where "s = demo_desk t 5 (replicate 6 False @ [True])"
  let ?r = "ConfirmWithdrawal ''wd_1'' s"
  let ?q = "ConfirmWithdrawal ''wd_1'' (snd ?r)"
  note ev = ConfirmWithdrawal_def load_withdrawal_def save_status_def final_op_def wal_def on_svc_def service_defs GetTx_def SaveTx_def
    save_tx_def clientFor_def confThreshold_def store_defs float_defs s_def t_def desk_defs Let_def numeral_eq_Suc
  have 1: "\<exists>e db. fst ?r = Inl e \<and> ws_store (wd_svc (snd ?r)) = Some db \<and> bal db ?k = 95" by (simp add: ev bal_def)
  have 2: "\<exists>db. fst ?q = Inr () \<and> ws_store (wd_svc (snd ?q)) = Some db" by (simp add: ev)
  from 1 obtain e db1 where r: "?r = (Inl e, snd ?r)" "ws_store (wd_svc (snd ?r)) = Some db1" "bal db1 ?k = 95" by (metis prod.collapse)
  from 2 obtain db2 where q: "?q = (Inr (), snd ?q)" "ws_store (wd_svc (snd ?q)) = Some db2" by (metis prod.collapse)
  let ?db = "demo_wd_db t 5 (replicate 6 False @ [True])"
  have b: "bal ?db ?k = 100" by (simp add: bal_def demo_wd_db_def demo_row_def)
  then have "bal db1 \<noteq> bal ?db" using r(3) by auto
  moreover have "ws_store (wd_svc s) = Some ?db" "tx_at ?db ''wd_1'' = Some t" by (simp_all add: s_def demo_desk_store tx_at_def demo_wd_db_def)
  moreover have "ch_conf (wd_chain s) (x_Asset t) (x_TxHash t) = Some 10" "confThreshold (x_Asset t) s \<le> 10"
    by (simp_all add: s_def desk_defs confThreshold_def)
  ultimately have "bal db2 (tx_key t) = bal ?db (tx_key t) - 2 * numeric (x_Amount t)"
    by (intro unsaved_completion_debits_twice [OF r(1) q(1) _ r(2) q(2)])
  moreover have "tx_key t = ?k" "x_Amount t = BF 64 5" by (simp_all add: t_def demo_wd_def tx_key_def)
  ultimately show ?thesis using q(2) b unfolding s_def [symmetric] t_def [symmetric] Let_def by simp
qed

theorem unsaved_broadcast_pays_twice_witness:
  "let s = demo_desk (demo_wd Approved (BF 64 5)) 5 [False, True];
       s2 = snd (BroadcastWithdrawal ''wd_1'' (snd (BroadcastWithdrawal ''wd_1'' s)))
   in ch_sent (wd_chain s2) = replicate 2 (HotPayment ''USDT'' ''T1'' (BF 64 5))"
proof -
  define t where "t = demo_wd Approved (BF 64 5)"
  define s where "s = demo_desk t 5 [False, True]"
  let ?r = "BroadcastWithdrawal ''wd_1'' s"
  let ?q = "BroadcastWithdrawal ''wd_1'' (snd ?r)"
  note ev = BroadcastWithdrawal_def load_withdrawal_def save_status_def wal_def on_svc_def service_defs GetTx_def SaveTx_def
    save_tx_def clientFor_def submit_def coldRequired_def store_defs s_def t_def desk_defs Let_def
  have 1: "\<exists>e. fst ?r = Inl e" "ch_sent (wd_chain (snd ?r)) \<noteq> ch_sent (wd_chain s)" "fst ?q = Inr ()" by (simp_all add: ev)
  then obtain e where r: "?r = (Inl e, snd ?r)" "?q = (Inr (), snd ?q)" by (metis prod.collapse)
  have "ws_store (wd_svc s) = Some (demo_wd_db t 5 [False, True])" "tx_at (demo_wd_db t 5 [False, True]) ''wd_1'' = Some t" "\<not> coldRequired t s"
    by (simp_all add: s_def demo_desk_store tx_at_def) (simp_all add: desk_defs t_def coldRequired_def)
  from unsaved_broadcast_pays_twice [OF r this(1,2) 1(2) this(3)] show ?thesis
    unfolding s_def [symmetric] t_def [symmetric] Let_def by (simp add: s_def desk_defs t_def)
qed

text \<open>Sixteen and one unit of the last decimal: 64 bits read it back as sixteen and two.\<close>

definition big_amount :: rat where "big_amount = 16000000000000000001 / 10 ^ 18"

lemma big_amount_sent: "numeric (BF 128 (fround 128 big_amount)) = big_amount"
proof -
  have "\<bar>fround 128 big_amount - big_amount\<bar> * 10 ^ 18 \<le> big_amount * 2 powi - 128 * 10 ^ 18"
    using fround_error [of 128 big_amount] by (intro mult_right_mono) (simp_all add: big_amount_def)
  also have "\<dots> < 1/2" by (simp add: big_amount_def power_int_def power_divide)
  finally have "\<bar>fround 128 big_amount - big_amount\<bar> * \<bar>10 ^ 18\<bar> < 1/2" by simp
  then have "\<bar>fround 128 big_amount * 10 ^ 18 - of_int 16000000000000000001\<bar> < 1/2"
    unfolding abs_mult [symmetric] left_diff_distrib by (simp add: big_amount_def)
  from round_even_unique [OF this] show ?thesis by (simp add: numeric_eq big_amount_def)
qed

lemma big_amount_read: "numeric (read_numeric big_amount) = 16000000000000000002 / 10 ^ 18"
proof -
  have b: "bexp big_amount = 5" by (rule bexp_unique) (simp_all add: big_amount_def power_int_def)
  have u: "(2 :: rat) powi - 59 = 1 / 576460752303423488" by (simp add: power_int_def power_divide)
  have "round_even (big_amount / 2 powi - 59) = 9223372036854775809"
    by (rule round_even_unique) (simp add: big_amount_def u abs_if)
  then have f: "fround 64 big_amount = 9223372036854775809 / 576460752303423488"
    unfolding fround_def b by (simp add: u Let_def) (simp add: big_amount_def)
  have "round_even (9223372036854775809 / 576460752303423488 * 10 ^ 18) = 16000000000000000002"
    by (rule round_even_unique) (simp add: abs_if)
  then show ?thesis unfolding numeric_eq read_numeric_def bf.sel f by simp
qed

theorem rejected_amount_stays_locked_witness:
  "let x = BF 128 (fround 128 big_amount); s = demo_desk (demo_wd Pending (read_numeric (numeric x))) (numeric x) []
   in \<exists>s' db'. RejectWithdrawal ''wd_1'' s = (Inr (), s') \<and> ws_store (wd_svc s') = Some db' \<and>
        lck db' (''alice'', ''USDT'', AccountSpot) = big_amount"
proof -
  define x where "x = BF 128 (fround 128 big_amount)"
  define t where "t = demo_wd Pending (read_numeric (numeric x))"
  define db where "db = demo_wd_db t (numeric x) []"
  define s where "s = demo_desk t (numeric x) []"
  have n: "numeric x = big_amount" unfolding x_def by (rule big_amount_sent)
  have "numeric x < numeric (read_numeric (numeric x))" unfolding n big_amount_read by (simp add: big_amount_def)
  then obtain s' db' where "RejectWithdrawal ''wd_1'' s = (Inr (), s')" "ws_store (wd_svc s') = Some db'" "lck db' (tx_key t) = numeric x"
    using rejected_amount_stays_locked [of s db "''wd_1''" t x]
    by (auto simp: s_def db_def demo_desk_store)
      (auto simp: demo_wd_db_def tx_at_def lck_def demo_row_def t_def demo_wd_def tx_key_def)
  moreover have "tx_key t = (''alice'', ''USDT'', AccountSpot)" by (simp add: t_def demo_wd_def tx_key_def)
  ultimately show ?thesis unfolding x_def [symmetric] t_def [symmetric] s_def [symmetric] Let_def using n by simp
qed

end
