(* ===== verification/Futures_Store.thy ===== *)
theory Futures_Store
  imports Wallet_Store
begin

text \<open>
  Perpetual futures, the data and their two stores: the records of \<open>internal/api/futures_handler.go\<close> with its in-memory store, and
  the tables behind \<open>internal/store/pg_futures.go\<close>. A row of the database is kept as the record that reading it yields; all its amounts
  are \<open>NUMERIC(40,18)\<close>. As in the wallet store, \<open>pf_faults\<close> says which of the coming statements fail. The in-memory store hands out
  its own pointers in the lists of a user, and copies elsewhere: \<open>write_through\<close> is an assignment through such a pointer.
\<close>

section \<open>Data\<close>

record fpos =
  fp_ID :: string
  fp_UserID :: string
  fp_Pair :: string
  fp_Side :: string
  fp_Leverage :: int
  fp_MarginMode :: string
  fp_Entry :: bf
  fp_Mark :: bf
  fp_Qty :: bf
  fp_Margin :: bf
  fp_PnL :: bf
  fp_PnLPct :: bf
  fp_Liq :: bf
  fp_TP :: "bf option"
  fp_SL :: "bf option"
  fp_Status :: string
  fp_CreatedAt :: int
  fp_UpdatedAt :: int

record forder =
  fo_ID :: string
  fo_UserID :: string
  fo_Pair :: string
  fo_Side :: string
  fo_Type :: string
  fo_Price :: "bf option"
  fo_Stop :: "bf option"
  fo_Qty :: bf
  fo_TP :: "bf option"
  fo_SL :: "bf option"
  fo_Leverage :: int
  fo_MarginMode :: string
  fo_Status :: string
  fo_CreatedAt :: int

datatype fs_err = FutNotFound | FutDown | FutScan

section \<open>The database\<close>

record pg_futures =
  pf_positions :: "(string, fpos) gomap"
  pf_orders :: "(string, forder) gomap"
  pf_faults :: "bool list"

definition pf_stmt :: "(pg_futures \<Rightarrow> 'a \<times> pg_futures) \<Rightarrow> (pg_futures, fs_err, 'a) act" where
  "pf_stmt f s =
     (case pf_faults s of
        True # fs \<Rightarrow> (Inl FutDown, s\<lparr>pf_faults := fs\<rparr>)
      | False # fs \<Rightarrow> (let (x, s') = f (s\<lparr>pf_faults := fs\<rparr>) in (Inr x, s'))
      | [] \<Rightarrow> (let (x, s') = f s in (Inr x, s')))"

text \<open>A column, written and read back; a \<open>nil\<close> price stays \<open>NULL\<close>.\<close>

definition column :: "bf \<Rightarrow> bf" where
  "column x = read_numeric (numeric x)"

definition stored_pos :: "fpos \<Rightarrow> fpos" where
  "stored_pos p = p\<lparr>fp_Entry := column (fp_Entry p), fp_Mark := column (fp_Mark p), fp_Qty := column (fp_Qty p),
     fp_Margin := column (fp_Margin p), fp_PnL := column (fp_PnL p), fp_PnLPct := column (fp_PnLPct p), fp_Liq := column (fp_Liq p),
     fp_TP := map_option column (fp_TP p), fp_SL := map_option column (fp_SL p)\<rparr>"

text \<open>The columns that \<open>ON CONFLICT (id) DO UPDATE\<close> names; the others keep what the first insert put there.\<close>

definition upsert_pos :: "fpos \<Rightarrow> fpos \<Rightarrow> fpos" where
  "upsert_pos p old = old\<lparr>fp_Mark := column (fp_Mark p), fp_Margin := column (fp_Margin p), fp_Leverage := fp_Leverage p,
     fp_PnL := column (fp_PnL p), fp_PnLPct := column (fp_PnLPct p), fp_Liq := column (fp_Liq p),
     fp_TP := map_option column (fp_TP p), fp_SL := map_option column (fp_SL p), fp_Status := fp_Status p,
     fp_UpdatedAt := fp_UpdatedAt p\<rparr>"

definition pf_SavePosition :: "fpos \<Rightarrow> (pg_futures, fs_err, unit) act" where
  "pf_SavePosition p =
     pf_stmt (\<lambda>s. ((), s\<lparr>pf_positions := gm_put (fp_ID p)
       (case gm_get (pf_positions s) (fp_ID p) of None \<Rightarrow> stored_pos p | Some old \<Rightarrow> upsert_pos p old) (pf_positions s)\<rparr>))"

definition pf_GetPosition :: "string \<Rightarrow> string \<Rightarrow> (pg_futures, fs_err, fpos) act" where
  "pf_GetPosition i userID =
     abind (pf_stmt (\<lambda>s. (gm_get (pf_positions s) i, s))) (\<lambda>row.
       case row of None \<Rightarrow> throw FutNotFound | Some p \<Rightarrow> if fp_UserID p = userID then ret p else throw FutNotFound)"

text \<open>\<open>ORDER BY created_at DESC\<close>, ties in table order.\<close>

definition pf_ListPositions :: "string \<Rightarrow> (pg_futures, fs_err, fpos list) act" where
  "pf_ListPositions userID =
     pf_stmt (\<lambda>s. (sort_key (\<lambda>p. - fp_CreatedAt p) (filter (\<lambda>p. fp_UserID p = userID) (map snd (pf_positions s))), s))"

definition pf_ListOpenPositions :: "(pg_futures, fs_err, fpos list) act" where
  "pf_ListOpenPositions =
     pf_stmt (\<lambda>s. (sort_key (\<lambda>p. - fp_CreatedAt p) (filter (\<lambda>p. fp_Status p = ''open'') (map snd (pf_positions s))), s))"

definition stored_order :: "forder \<Rightarrow> forder" where
  "stored_order p = p\<lparr>fo_Price := map_option column (fo_Price p), fo_Stop := map_option column (fo_Stop p), fo_Qty := column (fo_Qty p),
     fo_TP := map_option column (fo_TP p), fo_SL := map_option column (fo_SL p)\<rparr>"

definition pf_SaveOrder :: "forder \<Rightarrow> (pg_futures, fs_err, unit) act" where
  "pf_SaveOrder p =
     pf_stmt (\<lambda>s. ((), s\<lparr>pf_orders := gm_put (fo_ID p)
       (case gm_get (pf_orders s) (fo_ID p) of None \<Rightarrow> stored_order p
        | Some old \<Rightarrow> old\<lparr>fo_Price := map_option column (fo_Price p), fo_Stop := map_option column (fo_Stop p), fo_Status := fo_Status p\<rparr>)
       (pf_orders s)\<rparr>))"

text \<open>
  \<open>scanOrders\<close>. The quantity is scanned into a \<open>big.Float\<close>, which is no \<open>sql.Scanner\<close>: \<open>database/sql\<close> has no conversion from the
  text of a column to it and reports an error, so that a row is never read.
\<close>

definition scanOrders :: "forder list \<Rightarrow> (pg_futures, fs_err, forder list) act" where
  "scanOrders rows = (if rows = [] then ret [] else throw FutScan)"

definition pf_ListOrders :: "string \<Rightarrow> (pg_futures, fs_err, forder list) act" where
  "pf_ListOrders userID =
     abind (pf_stmt (\<lambda>s. (sort_key (\<lambda>p. - fo_CreatedAt p) (filter (\<lambda>p. fo_UserID p = userID) (map snd (pf_orders s))), s))) scanOrders"

definition pf_ListOpenOrders :: "(pg_futures, fs_err, forder list) act" where
  "pf_ListOpenOrders =
     abind (pf_stmt (\<lambda>s. (sort_key (\<lambda>p. - fo_CreatedAt p) (filter (\<lambda>p. fo_Status p = ''open'') (map snd (pf_orders s))), s))) scanOrders"

definition set_order_status :: "string \<Rightarrow> string \<Rightarrow> (string, forder) gomap \<Rightarrow> (string, forder) gomap" where
  "set_order_status i st m = (case gm_get m i of None \<Rightarrow> m | Some p \<Rightarrow> gm_put i (p\<lparr>fo_Status := st\<rparr>) m)"

definition pf_UpdateOrderStatus :: "string \<Rightarrow> string \<Rightarrow> (pg_futures, fs_err, unit) act" where
  "pf_UpdateOrderStatus i st = pf_stmt (\<lambda>s. ((), s\<lparr>pf_orders := set_order_status i st (pf_orders s)\<rparr>))"

section \<open>In memory\<close>

record mem_futures =
  mf_positions :: "(string, fpos) gomap"
  mf_orders :: "(string, forder) gomap"

datatype fut_store = PGFut pg_futures | MemFut mem_futures

text \<open>The operation of the database, or that of the in-memory store, which never fails but to find.\<close>

fun on_fs :: "(pg_futures, fs_err, 'a) act \<Rightarrow> (mem_futures \<Rightarrow> (fs_err + 'a) \<times> mem_futures) \<Rightarrow> (fut_store, fs_err, 'a) act" where
  "on_fs f g (PGFut d) = (let (r, d') = f d in (r, PGFut d'))"
| "on_fs f g (MemFut m) = (let (r, m') = g m in (r, MemFut m'))"

definition fs_SavePosition :: "fpos \<Rightarrow> (fut_store, fs_err, unit) act" where
  "fs_SavePosition p = on_fs (pf_SavePosition p) (\<lambda>m. (Inr (), m\<lparr>mf_positions := gm_put (fp_ID p) p (mf_positions m)\<rparr>))"

definition fs_GetPosition :: "string \<Rightarrow> string \<Rightarrow> (fut_store, fs_err, fpos) act" where
  "fs_GetPosition i userID = on_fs (pf_GetPosition i userID) (\<lambda>m.
     (case gm_get (mf_positions m) i of
        None \<Rightarrow> Inl FutNotFound
      | Some p \<Rightarrow> if fp_UserID p \<noteq> userID then Inl FutNotFound else Inr p, m))"

definition fs_ListPositions :: "string \<Rightarrow> (fut_store, fs_err, fpos list) act" where
  "fs_ListPositions userID = on_fs (pf_ListPositions userID) (\<lambda>m. (Inr (filter (\<lambda>p. fp_UserID p = userID) (map snd (mf_positions m))), m))"

definition fs_ListOpenPositions :: "(fut_store, fs_err, fpos list) act" where
  "fs_ListOpenPositions = on_fs pf_ListOpenPositions (\<lambda>m. (Inr (filter (\<lambda>p. fp_Status p = ''open'') (map snd (mf_positions m))), m))"

definition fs_SaveOrder :: "forder \<Rightarrow> (fut_store, fs_err, unit) act" where
  "fs_SaveOrder p = on_fs (pf_SaveOrder p) (\<lambda>m. (Inr (), m\<lparr>mf_orders := gm_put (fo_ID p) p (mf_orders m)\<rparr>))"

definition fs_ListOrders :: "string \<Rightarrow> (fut_store, fs_err, forder list) act" where
  "fs_ListOrders userID = on_fs (pf_ListOrders userID) (\<lambda>m. (Inr (filter (\<lambda>p. fo_UserID p = userID) (map snd (mf_orders m))), m))"

definition fs_ListOpenOrders :: "(fut_store, fs_err, forder list) act" where
  "fs_ListOpenOrders = on_fs pf_ListOpenOrders (\<lambda>m. (Inr (filter (\<lambda>p. fo_Status p = ''open'') (map snd (mf_orders m))), m))"

definition fs_UpdateOrderStatus :: "string \<Rightarrow> string \<Rightarrow> (fut_store, fs_err, unit) act" where
  "fs_UpdateOrderStatus i st =
     on_fs (pf_UpdateOrderStatus i st) (\<lambda>m. (Inr (), m\<lparr>mf_orders := set_order_status i st (mf_orders m)\<rparr>))"

fun write_through :: "fpos \<Rightarrow> fut_store \<Rightarrow> fut_store" where
  "write_through p (PGFut d) = PGFut d"
| "write_through p (MemFut m) = MemFut (m\<lparr>mf_positions := gm_put (fp_ID p) p (mf_positions m)\<rparr>)"

end
