(* ===== verification/Futures_Math.thy ===== *)
theory Futures_Math
  imports Futures_Store Address_Validation
begin

text \<open>
  The arithmetic of perpetual futures in \<open>internal/api/futures_handler.go\<close>: profit and loss, margin, liquidation price, the weighted
  entry price of a merged position, the leverage after a change of margin, and the funding rate drawn from a hash of the pair.
\<close>

text \<open>\<open>Quo\<close> by a divisor that is not zero, which the guards of the callers see to.\<close>

definition fdiv :: "bf \<Rightarrow> bf \<Rightarrow> bf \<Rightarrow> bf" where
  "fdiv z x y = BF (res_prec z x y) (fround (res_prec z x y) (bval x / bval y))"

lemma fdiv_quo: "bval y \<noteq> 0 \<Longrightarrow> bf_quo z x y = Some (fdiv z x y)"
  by (simp add: bf_quo_def fdiv_def)

definition calcFuturesPnL :: "string \<Rightarrow> bf \<Rightarrow> bf \<Rightarrow> bf \<Rightarrow> bf \<Rightarrow> bf \<times> bf" where
  "calcFuturesPnL side entry mark qty margin =
     (let d = bf_sub new_float mark entry;
          diff = (if side = ''short'' then bf_neg d d else d);
          pnl = bf_mul new_float diff qty;
          pct = (if bf_sign margin \<noteq> 0 then let r = fdiv new_float pnl margin in bf_mul r r (NewFloat 100) else new_float)
      in (pnl, pct))"

definition calcMargin :: "bf \<Rightarrow> bf \<Rightarrow> int \<Rightarrow> bf" where
  "calcMargin entry qty leverage = fdiv new_float (bf_mul new_float entry qty) (NewFloat (of_int leverage))"

definition maintenance :: rat where "maintenance = 5 / 1000"

definition calcLiqPrice :: "string \<Rightarrow> bf \<Rightarrow> int \<Rightarrow> bf" where
  "calcLiqPrice side entry leverage =
     (let one = NewFloat 1; inv = fdiv new_float one (NewFloat (of_int leverage))
      in if side = ''long''
         then let f = bf_sub new_float one inv in bf_mul new_float entry (bf_add f f (NewFloat maintenance))
         else let f = bf_add new_float one inv in bf_mul new_float entry (bf_sub f f (NewFloat maintenance)))"

text \<open>\<open>Int64\<close>: truncation towards zero, clamped to 64 bits.\<close>

definition bf_int64 :: "bf \<Rightarrow> int" where
  "bf_int64 x =
     (let k = (if 0 \<le> bval x then \<lfloor>bval x\<rfloor> else \<lceil>bval x\<rceil>)
      in max (- (2 ^ 63)) (min (2 ^ 63 - 1) k))"

text \<open>Notional over margin as an integer. Over a margin of zero it is an infinity, and zero over zero panics.\<close>

definition margin_leverage :: "bf \<Rightarrow> bf \<Rightarrow> int option" where
  "margin_leverage notional margin =
     (if bval margin \<noteq> 0 then Some (bf_int64 (fdiv new_float notional margin))
      else if bval notional = 0 then None
      else Some (if 0 < bval notional then 2 ^ 63 - 1 else - (2 ^ 63)))"

definition mergeSameSidePosition :: "fpos \<Rightarrow> bf \<Rightarrow> bf \<Rightarrow> bf \<Rightarrow> int \<Rightarrow> int \<Rightarrow> fpos" where
  "mergeSameSidePosition pos entry qty margin leverage now =
     (let oldNotional = bf_mul new_float (fp_Entry pos) (fp_Qty pos);
          addNotional = bf_mul new_float entry qty;
          totalQty = bf_add new_float (fp_Qty pos) qty;
          sum = bf_add new_float oldNotional addNotional;
          newEntry = (if 0 < bf_sign totalQty then fdiv sum sum totalQty else sum)
      in pos\<lparr>fp_Entry := newEntry, fp_Qty := totalQty, fp_Margin := bf_add new_float (fp_Margin pos) margin, fp_Leverage := leverage,
             fp_Liq := calcLiqPrice (fp_Side pos) newEntry leverage, fp_UpdatedAt := now\<rparr>)"

text \<open>\<open>strings.Split\<close> on the slash: two parts, or the default.\<close>

definition quoteAsset :: "string \<Rightarrow> string" where
  "quoteAsset pair =
     (case dropWhile (\<lambda>c. c \<noteq> CHR ''/'') pair of
        [] \<Rightarrow> ''USDT''
      | c # quote \<Rightarrow> if CHR ''/'' \<in> set quote then ''USDT'' else quote)"

definition parseFuturesSide :: "string \<Rightarrow> string option" where
  "parseFuturesSide s =
     (let l = ToLower s
      in if l = ''long'' \<or> l = ''buy'' then Some ''long'' else if l = ''short'' \<or> l = ''sell'' then Some ''short'' else None)"

text \<open>\<open>SetString\<close> into 64 bits, for the plain decimals that \<open>bf_parse\<close> covers.\<close>

definition parseBigFloat :: "string \<Rightarrow> bf option" where
  "parseBigFloat s = bf_parse new_float s"

section \<open>Funding\<close>

definition fnvHash :: "string \<Rightarrow> 32 word" where
  "fnvHash s = fold (\<lambda>c h. (xor h (of_nat (of_char c))) * 16777619) s 2166136261"

text \<open>The quotient of two small integers is rounded once, as a float64.\<close>

definition fundingRate :: "string \<Rightarrow> bf" where
  "fundingRate pair = NewFloat ((of_int (int (unat (fnvHash pair) mod 200)) - 100) / 10000)"

definition hour :: int where "hour = 3600 * 1000000000"

definition nextFunding :: "int \<Rightarrow> int" where
  "nextFunding now = now div hour * hour + hour"

text \<open>One entry of the history that is made up for a pair: hour, rate, price.\<close>

definition funding_entry :: "string \<Rightarrow> bf \<Rightarrow> int \<Rightarrow> nat \<Rightarrow> int \<times> bf \<times> bf" where
  "funding_entry pair mark now i =
     (let h = unat (fnvHash (pair @ '':'' @ nat_text i));
          rate = NewFloat ((of_nat (h mod 600) - 300) / 1000000);
          variation = NewFloat ((of_nat (h mod 200) - 100) / 200000)
      in (now div hour * hour - int i * hour, rate, bf_add new_float mark (bf_mul new_float mark variation)))"

section \<open>Facts\<close>

lemma quoteAsset_pair: "CHR ''/'' \<notin> set a \<Longrightarrow> CHR ''/'' \<notin> set b \<Longrightarrow> quoteAsset (a @ CHR ''/'' # b) = b"
  by (simp add: quoteAsset_def dropWhile_append)

lemma pnl_sign: "fst (calcFuturesPnL ''short'' e m q g) = bf_neg new_float (fst (calcFuturesPnL ''long'' e m q g))"
  by (simp add: calcFuturesPnL_def Let_def bf_neg_def bf_set_def bf_mul_def bf_sub_def res_prec_def fround_minus)

end
