(* ===== verification/Futures.thy ===== *)
theory Futures
  imports Futures_Math Wallet_Service
begin

text \<open>
  The handlers of \<open>internal/api/futures_handler.go\<close>. A handler is given the authenticated user, if there is one, and the decoded body of the
  request, if it decodes; it answers with an error or with what it shows. \<open>fu_price\<close> is \<open>PriceHandler.BestPrice\<close>: a price, or none when the
  lookup fails. Positions are shown with the mark price and the profit of the moment (\<open>positionToJSON\<close>). A write whose error the code
  discards is \<open>ignored\<close>. Infinite amounts, which \<open>SetString\<close> would accept, are outside the model.
\<close>

section \<open>State\<close>

record fut =
  fu_store :: fut_store
  fu_wallet :: "wsvc option"
  fu_price :: "string \<Rightarrow> bf option"
  fu_ids :: "nat \<Rightarrow> string"
  fu_nid :: nat
  fu_now :: int

datatype close_err = CloseSettle wallet_err | CloseSave fs_err

datatype fut_err = Unauthorized | InvalidBody | BadSide | BadLeverage | BadMarginMode | BadQuantity | BadType | BadAmount
  | MarginReservation wallet_err | CloseExisting close_err | PositionNotFound | PositionNotOpen | PositionClosed | CloseFailed close_err
  | QuantityExceeds | PartialSettle wallet_err | MarginTransfer wallet_err | MarginExceeds | WouldLiquidate | NotLiquidated
  | LiquidationSettle wallet_err | LoadFailed | OrderNotFound | OrderNotOpen | PairRequired | NoPrice | HandlerPanic

type_synonym 'a fact = "(fut, fut_err, 'a) act"

definition NewFuturesHandler ::
  "(string \<Rightarrow> bf option) \<Rightarrow> wsvc option \<Rightarrow> fut_store option \<Rightarrow> (nat \<Rightarrow> string) \<Rightarrow> fut" where
  "NewFuturesHandler price svc st ids =
     \<lparr>fu_store = (case st of Some x \<Rightarrow> x | None \<Rightarrow> MemFut \<lparr>mf_positions = [], mf_orders = []\<rparr>),
      fu_wallet = svc, fu_price = price, fu_ids = ids, fu_nid = 0, fu_now = 0\<rparr>"

text \<open>Calls of the store and of the wallet service, with their errors reported by \<open>f\<close>; and calls whose error is discarded.\<close>

definition on_futs :: "(fs_err \<Rightarrow> 'e) \<Rightarrow> (fut_store, fs_err, 'a) act \<Rightarrow> (fut, 'e, 'a) act" where
  "on_futs f m s = (case m (fu_store s) of (Inl e, t) \<Rightarrow> (Inl (f e), s\<lparr>fu_store := t\<rparr>) | (Inr x, t) \<Rightarrow> (Inr x, s\<lparr>fu_store := t\<rparr>))"

definition on_wallet :: "(wallet_err \<Rightarrow> 'e) \<Rightarrow> 'a wact \<Rightarrow> wsvc \<Rightarrow> (fut, 'e, 'a) act" where
  "on_wallet f m w s = (case m w of (Inl e, v) \<Rightarrow> (Inl (f e), s\<lparr>fu_wallet := Some v\<rparr>) | (Inr x, v) \<Rightarrow> (Inr x, s\<lparr>fu_wallet := Some v\<rparr>))"

definition ignored :: "(fut_store, fs_err, 'a) act \<Rightarrow> fut \<Rightarrow> fut" where
  "ignored m s = s\<lparr>fu_store := snd (m (fu_store s))\<rparr>"

definition fut_uuid :: "fut \<Rightarrow> string \<times> fut" where
  "fut_uuid s = (fu_ids s (fu_nid s), s\<lparr>fu_nid := Suc (fu_nid s)\<rparr>)"

definition currentUserID :: "string option \<Rightarrow> string option" where
  "currentUserID uid = (case uid of Some u \<Rightarrow> if u \<noteq> [] then Some u else None | None \<Rightarrow> None)"

definition liveMarkPrice :: "string \<Rightarrow> fut \<Rightarrow> bf" where
  "liveMarkPrice pair s = (case fu_price s pair of Some p \<Rightarrow> p | None \<Rightarrow> NewFloat 0)"

definition positionToJSON :: "fpos \<Rightarrow> bf \<Rightarrow> bf \<Rightarrow> bf \<Rightarrow> fpos" where
  "positionToJSON p mark pnl pct = p\<lparr>fp_Mark := mark, fp_PnL := pnl, fp_PnLPct := pct\<rparr>"

definition pnl_of :: "fpos \<Rightarrow> bf \<Rightarrow> bf \<times> bf" where
  "pnl_of p mark = calcFuturesPnL (fp_Side p) (fp_Entry p) mark (fp_Qty p) (fp_Margin p)"

definition shown :: "fpos \<Rightarrow> bf \<Rightarrow> fpos" where
  "shown p mark = positionToJSON p mark (fst (pnl_of p mark)) (snd (pnl_of p mark))"

section \<open>Money\<close>

text \<open>\<open>ReserveForAccount\<close> on the futures account, when a wallet service is wired.\<close>

definition reserve_margin :: "string \<Rightarrow> string \<Rightarrow> bf \<Rightarrow> (fut, wallet_err, unit) act" where
  "reserve_margin userID asset margin s =
     (case fu_wallet s of
        None \<Rightarrow> (Inr (), s)
      | Some w \<Rightarrow> abind (on_wallet (\<lambda>e. e) (svc_ReserveForAccount userID asset AccountFutures (Some margin)) w) (\<lambda>_. ret ()) s)"

definition fut_op :: "string \<Rightarrow> string \<Rightarrow> bf option \<Rightarrow> bf option \<Rightarrow> settle_op" where
  "fut_op userID pair unlock delta =
     \<lparr>so_UserID = userID, so_Asset = quoteAsset pair, so_AccountType = AccountFutures, so_Unlock = unlock, so_Delta = delta\<rparr>"

text \<open>A settlement of one operation; \<open>rec\<close> is the prefix, the type and the amount of its ledger entry, if it has one.\<close>

definition settle_futures :: "settle_op \<Rightarrow> (string \<times> tx_type \<times> bf) option \<Rightarrow> (fut, wallet_err, unit) act" where
  "settle_futures p rec s =
     (case fu_wallet s of
        None \<Rightarrow> (Inr (), s)
      | Some w \<Rightarrow>
          (case rec of
             None \<Rightarrow> on_wallet (\<lambda>e. e) (svc_Settle [p] []) w s
           | Some (prefix, ty, amount) \<Rightarrow>
               let (i, s1) = fut_uuid s;
                   t = (new_tx (prefix @ i) (so_UserID p) (so_Asset p) ty amount Completed (fu_now s))\<lparr>x_AccountType := AccountFutures\<rparr>
               in on_wallet (\<lambda>e. e) (svc_Settle [p] [t]) w s1))"

section \<open>Closing\<close>

definition closed_pos :: "fpos \<Rightarrow> bf \<Rightarrow> int \<Rightarrow> fpos" where
  "closed_pos p mark now =
     p\<lparr>fp_Mark := mark, fp_PnL := fst (pnl_of p mark), fp_Status := ''closed'', fp_UpdatedAt := now\<rparr>"

definition mapped_err :: "('e \<Rightarrow> 'f) \<Rightarrow> ('s, 'e, 'a) act \<Rightarrow> ('s, 'f, 'a) act" where
  "mapped_err f m s = (case m s of (Inl e, s') \<Rightarrow> (Inl (f e), s') | (Inr x, s') \<Rightarrow> (Inr x, s'))"

definition closePosition :: "fpos \<Rightarrow> bf \<Rightarrow> (fut, close_err, fpos) act" where
  "closePosition p mark s =
     (let q = closed_pos p mark (fu_now s)
      in abind (mapped_err CloseSettle (settle_futures (fut_op (fp_UserID p) (fp_Pair p) (Some (fp_Margin p)) (Some (fp_PnL q)))
                  (Some (''fpnl_'', FuturesPnl, fp_PnL q)))) (\<lambda>_.
           abind (on_futs CloseSave (fs_SavePosition q)) (\<lambda>_. ret q)) s)"

text \<open>The open position of a user in a pair, as the list hands it out; a list that cannot be read shows none.\<close>

definition netPosition :: "string \<Rightarrow> string \<Rightarrow> fut \<Rightarrow> fpos option \<times> fut" where
  "netPosition userID pair s =
     (case on_futs (\<lambda>e. e) (fs_ListPositions userID) s of
        (Inl e, s1) \<Rightarrow> (None, s1)
      | (Inr ps, s1) \<Rightarrow> (find (\<lambda>p. fp_Status p = ''open'' \<and> fp_Pair p = pair) ps, s1))"

text \<open>Closing what \<open>netPosition\<close> returned: the assignments go through its pointer before the money moves.\<close>

definition close_existing :: "fpos \<Rightarrow> bf \<Rightarrow> (fut, close_err, fpos) act" where
  "close_existing p mark s = closePosition p mark (s\<lparr>fu_store := write_through (closed_pos p mark (fu_now s)) (fu_store s)\<rparr>)"

text \<open>
  A position of the other side is closed first; then the margin is reserved. \<open>Inl\<close> of the error says at which of the two
  steps it failed.
\<close>

definition make_room :: "fpos option \<Rightarrow> string \<Rightarrow> string \<Rightarrow> bf \<Rightarrow> bf \<Rightarrow> (fut, close_err + wallet_err, unit) act" where
  "make_room existing userID pair mark margin =
     abind (case existing of None \<Rightarrow> ret () | Some p \<Rightarrow> abind (mapped_err Inl (close_existing p mark)) (\<lambda>_. ret ())) (\<lambda>_.
       mapped_err Inr (reserve_margin userID (quoteAsset pair) margin))"

definition reported :: "close_err + wallet_err \<Rightarrow> fut_err" where
  "reported e = (case e of Inl c \<Rightarrow> CloseExisting c | Inr w \<Rightarrow> MarginReservation w)"

section \<open>Opening\<close>

record openPositionReq =
  op_Pair :: string
  op_Side :: string
  op_Leverage :: int
  op_MarginMode :: string
  op_Quantity :: string
  op_Price :: string
  op_TPPrice :: string
  op_SLPrice :: string

text \<open>\<open>binding:"required"\<close>: the field is not the zero value.\<close>

definition open_bound :: "openPositionReq \<Rightarrow> bool" where
  "open_bound r \<longleftrightarrow> op_Pair r \<noteq> [] \<and> op_Side r \<noteq> [] \<and> op_Leverage r \<noteq> 0 \<and> op_MarginMode r \<noteq> [] \<and> op_Quantity r \<noteq> []"

definition positive_price :: "string \<Rightarrow> bf option \<Rightarrow> bf option" where
  "positive_price txt old =
     (if txt = [] then old else case parseBigFloat txt of Some p \<Rightarrow> if 0 < bf_sign p then Some p else old | None \<Rightarrow> old)"

definition new_position ::
  "string \<Rightarrow> string \<Rightarrow> string \<Rightarrow> string \<Rightarrow> int \<Rightarrow> string \<Rightarrow> bf \<Rightarrow> bf \<Rightarrow> bf \<Rightarrow> bf \<Rightarrow> bf \<times> bf \<Rightarrow> bf option \<Rightarrow> bf option \<Rightarrow> int \<Rightarrow> fpos" where
  "new_position i userID pair side leverage mode entry mark qty margin pnl tp sl now =
     \<lparr>fp_ID = i, fp_UserID = userID, fp_Pair = pair, fp_Side = side, fp_Leverage = leverage, fp_MarginMode = mode, fp_Entry = entry,
      fp_Mark = mark, fp_Qty = qty, fp_Margin = margin, fp_PnL = fst pnl, fp_PnLPct = snd pnl, fp_Liq = calcLiqPrice side entry leverage,
      fp_TP = tp, fp_SL = sl, fp_Status = ''open'', fp_CreatedAt = now, fp_UpdatedAt = now\<rparr>"

text \<open>Room is made, and a new position is written under a new id.\<close>

definition open_fresh ::
  "fpos option \<Rightarrow> bf \<Rightarrow> (string \<Rightarrow> int \<Rightarrow> fpos) \<Rightarrow> (fut, close_err + wallet_err, fpos) act" where
  "open_fresh existing mark new s =
     (let n = new [] 0
      in abind (make_room existing (fp_UserID n) (fp_Pair n) mark (fp_Margin n)) (\<lambda>_ s1.
           let (i, s2) = fut_uuid s1; p = new i (fu_now s2) in (Inr p, ignored (fs_SavePosition p) s2)) s)"

text \<open>\<open>OpenPosition\<close> after the checks. The second component of the answer says whether the position was merged.\<close>

definition open_checked :: "string \<Rightarrow> string \<Rightarrow> bf \<Rightarrow> openPositionReq \<Rightarrow> (fpos \<times> bool) fact" where
  "open_checked userID side qty r s =
     (let pair = op_Pair r; mark = liveMarkPrice pair s;
          entry = (case positive_price (op_Price r) None of Some p \<Rightarrow> p | None \<Rightarrow> mark);
          margin = calcMargin entry qty (op_Leverage r);
          new = (\<lambda>i. new_position i userID pair side (op_Leverage r) (op_MarginMode r) entry mark qty margin
                       (calcFuturesPnL side entry mark qty margin) (positive_price (op_TPPrice r) None) (positive_price (op_SLPrice r) None));
          (existing, s1) = netPosition userID pair s
      in case existing of
           Some p \<Rightarrow>
             if fp_Side p = side then
               abind (mapped_err MarginReservation (reserve_margin userID (quoteAsset pair) margin)) (\<lambda>_ s2.
                 let m = mergeSameSidePosition p entry qty margin (op_Leverage r) (fu_now s2);
                     q = m\<lparr>fp_TP := positive_price (op_TPPrice r) (fp_TP m), fp_SL := positive_price (op_SLPrice r) (fp_SL m)\<rparr>
                 in (Inr (shown q mark, True), ignored (fs_SavePosition q) s2)) s1
             else abind (mapped_err reported (open_fresh (Some p) mark new)) (\<lambda>q. ret (q, False)) s1
         | None \<Rightarrow> abind (mapped_err reported (open_fresh None mark new)) (\<lambda>q. ret (q, False)) s1)"

definition OpenPosition :: "string option \<Rightarrow> openPositionReq option \<Rightarrow> (fpos \<times> bool) fact" where
  "OpenPosition uid req =
     (case (currentUserID uid, req) of
        (None, _) \<Rightarrow> throw Unauthorized
      | (Some userID, None) \<Rightarrow> throw InvalidBody
      | (Some userID, Some r) \<Rightarrow>
          if \<not> open_bound r then throw InvalidBody
          else (case parseFuturesSide (op_Side r) of
              None \<Rightarrow> throw BadSide
            | Some side \<Rightarrow>
                if op_Leverage r \<le> 0 \<or> 125 < op_Leverage r then throw BadLeverage
                else if op_MarginMode r \<noteq> ''isolated'' \<and> op_MarginMode r \<noteq> ''cross'' then throw BadMarginMode
                else (case parseBigFloat (op_Quantity r) of
                    None \<Rightarrow> throw BadQuantity
                  | Some qty \<Rightarrow> if bf_sign qty \<le> 0 then throw BadQuantity else open_checked userID side qty r)))"

section \<open>Closing and partial closing\<close>

text \<open>The position of the authenticated user; \<open>bad\<close> is the error when its status does not pass.\<close>

definition load_position :: "string option \<Rightarrow> string \<Rightarrow> (string \<Rightarrow> bool) \<Rightarrow> fut_err \<Rightarrow> fpos fact" where
  "load_position uid i ok bad =
     (case currentUserID uid of
        None \<Rightarrow> throw Unauthorized
      | Some userID \<Rightarrow> abind (on_futs (\<lambda>_. PositionNotFound) (fs_GetPosition i userID)) (\<lambda>p.
          if ok (fp_Status p) then ret p else throw bad))"

abbreviation load_open :: "string option \<Rightarrow> string \<Rightarrow> fpos fact" where
  "load_open uid i \<equiv> load_position uid i (\<lambda>st. st = ''open'') PositionNotOpen"

definition ClosePosition :: "string option \<Rightarrow> string \<Rightarrow> fpos fact" where
  "ClosePosition uid i =
     abind (load_open uid i) (\<lambda>p s. mapped_err CloseFailed (closePosition p (liveMarkPrice (fp_Pair p) s)) s)"

text \<open>The amount of a request: decoded, not empty, a positive number.\<close>

definition positive_amount :: "string option \<Rightarrow> fut_err \<Rightarrow> bf fact" where
  "positive_amount req bad =
     (case req of
        None \<Rightarrow> throw InvalidBody
      | Some txt \<Rightarrow>
          if txt = [] then throw InvalidBody
          else (case parseBigFloat txt of Some x \<Rightarrow> if bf_sign x \<le> 0 then throw bad else ret x | None \<Rightarrow> throw bad))"

definition reduced_pos :: "fpos \<Rightarrow> bf \<Rightarrow> bf \<Rightarrow> bf \<Rightarrow> int \<Rightarrow> fpos" where
  "reduced_pos p closeQty closedMargin mark now =
     (let q = p\<lparr>fp_Qty := bf_sub new_float (fp_Qty p) closeQty, fp_Margin := bf_sub new_float (fp_Margin p) closedMargin\<rparr>
      in (shown q mark)\<lparr>fp_UpdatedAt := now\<rparr>)"

text \<open>The margin and the profit that go with a share of the position.\<close>

definition partial_share :: "fpos \<Rightarrow> bf \<Rightarrow> bf \<Rightarrow> bf \<times> bf" where
  "partial_share p closeQty mark =
     (let ratio = fdiv new_float closeQty (fp_Qty p)
      in (bf_mul new_float (fp_Margin p) ratio, bf_mul new_float (fst (pnl_of p mark)) ratio))"

definition ClosePositionPartial :: "string option \<Rightarrow> string \<Rightarrow> string option \<Rightarrow> fpos fact" where
  "ClosePositionPartial uid i req =
     abind (load_open uid i) (\<lambda>p. abind (positive_amount req BadQuantity) (\<lambda>closeQty s.
       let mark = liveMarkPrice (fp_Pair p) s; (closedMargin, closedPnL) = partial_share p closeQty mark
       in if 0 < bf_cmp closeQty (fp_Qty p) then (Inl QuantityExceeds, s)
          else if bf_cmp closeQty (fp_Qty p) = 0 then mapped_err CloseFailed (closePosition p mark) s
          else abind (mapped_err PartialSettle (settle_futures (fut_op (fp_UserID p) (fp_Pair p) (Some closedMargin) (Some closedPnL))
                  (Some (''fpnl_'', FuturesPnl, closedPnL)))) (\<lambda>_ s1.
               let q = reduced_pos p closeQty closedMargin mark (fu_now s1) in (Inr q, ignored (fs_SavePosition q) s1)) s))"

section \<open>Margin\<close>

text \<open>
  \<open>isLiquidated\<close>: the margin and the profit, with the free balance of the account under cross margin, are no more than the
  maintenance margin. Reading the balance may use up a statement.
\<close>

definition isLiquidated :: "fpos \<Rightarrow> bf \<Rightarrow> fut \<Rightarrow> bool \<times> fut" where
  "isLiquidated p mark s =
     (if bf_sign (fp_Margin p) \<le> 0 then (True, s)
      else let remaining = bf_add new_float (fp_Margin p) (fst (pnl_of p mark));
               n = bf_mul new_float (fp_Entry p) (fp_Qty p);
               mm = bf_mul n n (NewFloat maintenance)
           in (case (if fp_MarginMode p = ''cross'' then fu_wallet s else None) of
                 None \<Rightarrow> (bf_cmp remaining mm \<le> 0, s)
               | Some w \<Rightarrow>
                   (case on_wallet (\<lambda>e. e) (svc_GetBalanceForAccount (fp_UserID p) (quoteAsset (fp_Pair p)) AccountFutures) w s of
                      (Inl e, s1) \<Rightarrow> (bf_cmp remaining mm \<le> 0, s1)
                    | (Inr wa, s1) \<Rightarrow>
                        let a = bf_sub new_float (wa_Balance wa) (wa_Locked wa); available = bf_add a a (fp_Margin p)
                        in (bf_cmp (bf_add remaining remaining available) mm \<le> 0, s1))))"

definition with_margin :: "fpos \<Rightarrow> bf \<Rightarrow> int \<Rightarrow> int \<Rightarrow> fpos" where
  "with_margin p margin leverage now =
     p\<lparr>fp_Margin := margin, fp_Leverage := leverage, fp_Liq := calcLiqPrice (fp_Side p) (fp_Entry p) leverage, fp_UpdatedAt := now\<rparr>"

definition AddMargin :: "string option \<Rightarrow> string \<Rightarrow> string option \<Rightarrow> fpos fact" where
  "AddMargin uid i req =
     abind (load_open uid i) (\<lambda>p. abind (positive_amount req BadAmount) (\<lambda>amt.
       abind (mapped_err MarginTransfer (settle_futures (fut_op (fp_UserID p) (fp_Pair p) None (Some (bf_neg new_float amt))) None)) (\<lambda>_ s.
         let margin = bf_add new_float (fp_Margin p) amt
         in (case margin_leverage (bf_mul new_float (fp_Entry p) (fp_Qty p)) margin of
               None \<Rightarrow> (Inl HandlerPanic, s)
             | Some l \<Rightarrow> let q = with_margin p margin (max l 1) (fu_now s)
                 in (Inr (q\<lparr>fp_Mark := liveMarkPrice (fp_Pair p) s\<rparr>), ignored (fs_SavePosition q) s)))))"

definition ReduceMargin :: "string option \<Rightarrow> string \<Rightarrow> string option \<Rightarrow> fpos fact" where
  "ReduceMargin uid i req =
     abind (load_position uid i (\<lambda>st. st \<noteq> ''closed'') PositionClosed) (\<lambda>p. abind (positive_amount req BadAmount) (\<lambda>amt s.
       if 0 < bf_cmp amt (fp_Margin p) then (Inl MarginExceeds, s)
       else let margin = bf_sub new_float (fp_Margin p) amt; mark = liveMarkPrice (fp_Pair p) s;
                (gone, s1) = isLiquidated (p\<lparr>fp_Margin := margin\<rparr>) mark s
            in if gone then (Inl WouldLiquidate, s1)
               else abind (mapped_err MarginTransfer (settle_futures (fut_op (fp_UserID p) (fp_Pair p) None (Some amt)) None)) (\<lambda>_ s2.
                 (case margin_leverage (bf_mul new_float (fp_Entry p) (fp_Qty p)) margin of
                    None \<Rightarrow> (Inl HandlerPanic, s2)
                  | Some l \<Rightarrow> let q = with_margin p margin (max (min l 125) 1) (fu_now s2)
                      in (Inr (q\<lparr>fp_Mark := mark\<rparr>), ignored (fs_SavePosition q) s2))) s1))"

end
