(* ===== verification/Futures_Jobs.thy ===== *)
theory Futures_Jobs
  imports Futures
begin

text \<open>
  The rest of \<open>internal/api/futures_handler.go\<close>: liquidation, the orders that wait for a price, and the jobs that a ticker runs over
  all positions (liquidations, take-profit and stop-loss, funding, waiting orders), which log nothing and go on when one of them fails.
\<close>

section \<open>Liquidation\<close>

definition liquidated_pos :: "fpos \<Rightarrow> bf \<Rightarrow> int \<Rightarrow> fpos" where
  "liquidated_pos p mark now =
     p\<lparr>fp_Mark := mark, fp_PnL := bf_neg new_float (fp_Margin p), fp_PnLPct := NewFloat (- 100), fp_Status := ''liquidated'',
       fp_UpdatedAt := now\<rparr>"

text \<open>The whole margin is unlocked and taken.\<close>

definition settle_liquidation :: "fpos \<Rightarrow> (fut, wallet_err, unit) act" where
  "settle_liquidation p =
     settle_futures (fut_op (fp_UserID p) (fp_Pair p) (Some (fp_Margin p)) (Some (bf_neg new_float (fp_Margin p))))
       (Some (''fliq_'', FuturesLiquidation, fp_Margin p))"

definition LiquidatePosition :: "string option \<Rightarrow> string \<Rightarrow> fpos fact" where
  "LiquidatePosition uid i =
     abind (load_open uid i) (\<lambda>p s.
       let mark = liveMarkPrice (fp_Pair p) s; (gone, s1) = isLiquidated p mark s
       in if \<not> gone then (Inl NotLiquidated, s1)
          else abind (mapped_err LiquidationSettle (settle_liquidation p)) (\<lambda>_ s2.
            let q = liquidated_pos p mark (fu_now s2) in (Inr q, ignored (fs_SavePosition q) s2)) s1)"

text \<open>A job over the positions that are open when it starts.\<close>

definition each_open :: "(fpos \<Rightarrow> fut \<Rightarrow> fut) \<Rightarrow> fut \<Rightarrow> fut" where
  "each_open f s = (case on_futs (\<lambda>e. e) fs_ListOpenPositions s of (Inl e, s1) \<Rightarrow> s1 | (Inr ps, s1) \<Rightarrow> fold f ps s1)"

definition check_liquidation :: "fpos \<Rightarrow> fut \<Rightarrow> fut" where
  "check_liquidation p s =
     (let mark = liveMarkPrice (fp_Pair p) s; (gone, s1) = isLiquidated p mark s
      in if gone then ignored (fs_SavePosition (liquidated_pos p mark (fu_now s1))) (snd (settle_liquidation p s1)) else s1)"

definition CheckLiquidations :: "fut \<Rightarrow> fut" where
  "CheckLiquidations = each_open check_liquidation"

section \<open>Take-profit, stop-loss and funding\<close>

definition level_hit :: "(bf \<Rightarrow> bf \<Rightarrow> bool) \<Rightarrow> bf \<Rightarrow> bf option \<Rightarrow> bool" where
  "level_hit c mark l \<longleftrightarrow> (case l of Some x \<Rightarrow> 0 < bf_sign x \<and> c mark x | None \<Rightarrow> False)"

definition tpsl_hit :: "fpos \<Rightarrow> bf \<Rightarrow> bool" where
  "tpsl_hit p mark \<longleftrightarrow>
     (if fp_Side p = ''long''
      then level_hit (\<lambda>m x. 0 \<le> bf_cmp m x) mark (fp_TP p) \<or> level_hit (\<lambda>m x. bf_cmp m x \<le> 0) mark (fp_SL p)
      else level_hit (\<lambda>m x. bf_cmp m x \<le> 0) mark (fp_TP p) \<or> level_hit (\<lambda>m x. 0 \<le> bf_cmp m x) mark (fp_SL p))"

definition check_tpsl :: "fpos \<Rightarrow> fut \<Rightarrow> fut" where
  "check_tpsl p s =
     (let mark = liveMarkPrice (fp_Pair p) s
      in if bf_sign mark \<le> 0 then s else if tpsl_hit p mark then snd (closePosition p mark s) else s)"

definition CheckTPSL :: "fut \<Rightarrow> fut" where
  "CheckTPSL = each_open check_tpsl"

definition funding_of :: "fpos \<Rightarrow> bf \<Rightarrow> bf" where
  "funding_of p mark =
     (let f = bf_mul new_float (bf_mul new_float mark (fp_Qty p)) (fundingRate (fp_Pair p))
      in bf_mul f f (NewFloat (if fp_Side p = ''long'' then - 1 else 1)))"

definition fund :: "fpos \<Rightarrow> fut \<Rightarrow> fut" where
  "fund p s =
     (let mark = liveMarkPrice (fp_Pair p) s; f = funding_of p mark
      in if bf_sign mark \<le> 0 then s
         else (case settle_futures (fut_op (fp_UserID p) (fp_Pair p) None (Some f)) (Some (''ffund_'', FuturesFunding, f)) s of
             (Inl e, s1) \<Rightarrow> s1
           | (Inr u, s1) \<Rightarrow>
               ignored (fs_SavePosition (p\<lparr>fp_Margin := bf_add new_float (fp_Margin p) f, fp_Mark := mark, fp_UpdatedAt := fu_now s1\<rparr>)) s1))"

definition ApplyFunding :: "fut \<Rightarrow> fut" where
  "ApplyFunding s = (if fu_wallet s = None then s else each_open fund s)"

section \<open>Orders\<close>

record createFuturesOrderReq =
  co_Pair :: string
  co_Side :: string
  co_Type :: string
  co_Quantity :: string
  co_Price :: string
  co_StopPrice :: string
  co_TPPrice :: string
  co_SLPrice :: string
  co_Leverage :: int
  co_MarginMode :: string

definition order_bound :: "createFuturesOrderReq \<Rightarrow> bool" where
  "order_bound r \<longleftrightarrow> co_Pair r \<noteq> [] \<and> co_Side r \<noteq> [] \<and> co_Type r \<noteq> [] \<and> co_Quantity r \<noteq> [] \<and> co_Leverage r \<noteq> 0 \<and> co_MarginMode r \<noteq> []"

definition given_price :: "string \<Rightarrow> bf option" where
  "given_price txt = (if txt = [] then None else parseBigFloat txt)"

definition side_of :: "string \<Rightarrow> string" where
  "side_of sd = (if sd = ''sell'' then ''short'' else ''long'')"

text \<open>An order that is due takes effect at the mark price: merged into the open position, or opened in its own right.\<close>

definition fill_order :: "forder \<Rightarrow> bf \<Rightarrow> (fut, close_err + wallet_err, fpos \<times> bool) act" where
  "fill_order r mark s =
     (let side = side_of (fo_Side r); margin = calcMargin mark (fo_Qty r) (fo_Leverage r);
          new = (\<lambda>i. new_position i (fo_UserID r) (fo_Pair r) side (fo_Leverage r) (fo_MarginMode r) mark mark (fo_Qty r) margin
                       (new_float, new_float) (fo_TP r) (fo_SL r));
          (existing, s1) = netPosition (fo_UserID r) (fo_Pair r) s
      in case existing of
           Some p \<Rightarrow>
             if fp_Side p = side then
               abind (mapped_err Inr (reserve_margin (fo_UserID r) (quoteAsset (fo_Pair r)) margin)) (\<lambda>_ s2.
                 let q = (mergeSameSidePosition p mark (fo_Qty r) margin (fo_Leverage r) (fu_now s2))\<lparr>fp_TP := fo_TP r, fp_SL := fo_SL r\<rparr>
                 in (Inr (positionToJSON q mark new_float new_float, True), ignored (fs_SavePosition q) s2)) s1
             else abind (open_fresh (Some p) mark new) (\<lambda>q. ret (q, False)) s1
         | None \<Rightarrow> abind (open_fresh None mark new) (\<lambda>q. ret (q, False)) s1)"

text \<open>The order as it is recorded; a market order takes effect first, and is not recorded when it was merged.\<close>

definition place_order :: "forder \<Rightarrow> (forder \<times> fpos option) fact" where
  "place_order r s =
     (if fo_Type r = ''market'' then
        (case fill_order r (liveMarkPrice (fo_Pair r) s) s of
           (Inl e, s1) \<Rightarrow> (Inl (reported e), s1)
         | (Inr (p, merged), s1) \<Rightarrow> if merged then (Inr (r, Some p), s1) else (Inr (r, None), ignored (fs_SaveOrder r) s1))
      else (Inr (r, None), ignored (fs_SaveOrder r) s))"

definition CreateOrder :: "string option \<Rightarrow> createFuturesOrderReq option \<Rightarrow> (forder \<times> fpos option) fact" where
  "CreateOrder uid req =
     (case (currentUserID uid, req) of
        (None, _) \<Rightarrow> throw Unauthorized
      | (Some userID, None) \<Rightarrow> throw InvalidBody
      | (Some userID, Some r) \<Rightarrow>
          if \<not> order_bound r then throw InvalidBody
          else if co_Side r \<noteq> ''buy'' \<and> co_Side r \<noteq> ''sell'' then throw BadSide
          else if co_Type r \<noteq> ''market'' \<and> co_Type r \<noteq> ''limit'' then throw BadType
          else if co_Leverage r \<le> 0 \<or> 125 < co_Leverage r then throw BadLeverage
          else (case parseBigFloat (co_Quantity r) of
              None \<Rightarrow> throw BadQuantity
            | Some qty \<Rightarrow>
                if bf_sign qty \<le> 0 then throw BadQuantity
                else (\<lambda>s. let (i, s1) = fut_uuid s in
                  place_order \<lparr>fo_ID = i, fo_UserID = userID, fo_Pair = co_Pair r, fo_Side = co_Side r, fo_Type = co_Type r,
                    fo_Price = given_price (co_Price r), fo_Stop = given_price (co_StopPrice r), fo_Qty = qty,
                    fo_TP = given_price (co_TPPrice r), fo_SL = given_price (co_SLPrice r), fo_Leverage = co_Leverage r,
                    fo_MarginMode = co_MarginMode r, fo_Status = (if co_Type r = ''market'' then ''filled'' else ''open''),
                    fo_CreatedAt = fu_now s\<rparr> s1)))"

text \<open>The in-memory list shows its own order, which the update has changed.\<close>

definition CancelOrder :: "string option \<Rightarrow> string \<Rightarrow> forder fact" where
  "CancelOrder uid i =
     (case currentUserID uid of
        None \<Rightarrow> throw Unauthorized
      | Some userID \<Rightarrow> abind (on_futs (\<lambda>_. LoadFailed) (fs_ListOrders userID)) (\<lambda>rs.
          case find (\<lambda>r. fo_ID r = i) rs of
            None \<Rightarrow> throw OrderNotFound
          | Some r \<Rightarrow> if fo_Status r \<noteq> ''open'' then throw OrderNotOpen
              else (\<lambda>s. (Inr (case fu_store s of PGFut d \<Rightarrow> r | MemFut m \<Rightarrow> r\<lparr>fo_Status := ''cancelled''\<rparr>),
                     ignored (fs_UpdateOrderStatus i ''cancelled'') s))))"

text \<open>When a waiting order is due: at its stop price if it has one, at its limit, or, as a market order, at once.\<close>

definition limit_due :: "forder \<Rightarrow> bf \<Rightarrow> bool" where
  "limit_due r mark \<longleftrightarrow>
     (case if fo_Type r = ''limit'' then fo_Price r else None of
        Some x \<Rightarrow> if 0 < bf_sign x
          then fo_Side r = ''buy'' \<and> bf_cmp mark x \<le> 0 \<or> fo_Side r = ''sell'' \<and> 0 \<le> bf_cmp mark x
          else False
      | None \<Rightarrow> fo_Type r = ''market'')"

definition order_due :: "forder \<Rightarrow> bf \<Rightarrow> bool" where
  "order_due r mark \<longleftrightarrow>
     (case fo_Stop r of
        Some x \<Rightarrow> if 0 < bf_sign x
          then fo_Side r = ''buy'' \<and> 0 \<le> bf_cmp mark x \<or> fo_Side r = ''sell'' \<and> bf_cmp mark x \<le> 0
          else limit_due r mark
      | None \<Rightarrow> limit_due r mark)"

definition process_order :: "forder \<Rightarrow> fut \<Rightarrow> fut" where
  "process_order r s =
     (let mark = liveMarkPrice (fo_Pair r) s
      in if bf_sign mark \<le> 0 \<or> \<not> order_due r mark then s
         else (case fill_order r mark s of
             (Inl (Inl c), s1) \<Rightarrow> s1
           | (Inl (Inr w), s1) \<Rightarrow> ignored (fs_UpdateOrderStatus (fo_ID r) ''cancelled'') s1
           | (Inr x, s1) \<Rightarrow> ignored (fs_UpdateOrderStatus (fo_ID r) ''filled'') s1))"

definition fut_ProcessOrders :: "fut \<Rightarrow> fut" where
  "fut_ProcessOrders s = (case on_futs (\<lambda>e. e) fs_ListOpenOrders s of (Inl e, s1) \<Rightarrow> s1 | (Inr rs, s1) \<Rightarrow> fold process_order rs s1)"

section \<open>Reading\<close>

definition GetMarkPrice :: "string \<Rightarrow> fut \<Rightarrow> fut_err + bf \<times> bf \<times> int" where
  "GetMarkPrice path s =
     (let pair = (if HasPrefix path ''/'' then tl path else path)
      in if pair = [] then Inl PairRequired
         else case fu_price s pair of None \<Rightarrow> Inl NoPrice | Some m \<Rightarrow> Inr (m, fundingRate pair, nextFunding (fu_now s)))"

text \<open>The limit is what \<open>Atoi\<close> makes of the query, if it is a number.\<close>

definition funding_limit :: "int option \<Rightarrow> nat" where
  "funding_limit l = (case l of Some n \<Rightarrow> if n \<le> 0 then 24 else nat (min n 168) | None \<Rightarrow> 24)"

definition GetFundingHistory :: "string option \<Rightarrow> string \<Rightarrow> int option \<Rightarrow> fut \<Rightarrow> fut_err + (int \<times> bf \<times> bf) list" where
  "GetFundingHistory uid path limit s =
     (let pair = (if HasPrefix path ''/'' then tl path else path); mark = liveMarkPrice pair s
      in if currentUserID uid = None then Inl Unauthorized
         else if pair = [] then Inl PairRequired
         else if bf_sign mark \<le> 0 then Inl NoPrice
         else Inr (map (funding_entry pair mark (fu_now s)) [0..<funding_limit limit]))"

definition GetPositions :: "string option \<Rightarrow> fpos list fact" where
  "GetPositions uid =
     (case currentUserID uid of
        None \<Rightarrow> throw Unauthorized
      | Some userID \<Rightarrow> abind (on_futs (\<lambda>_. LoadFailed) (fs_ListPositions userID)) (\<lambda>ps s.
          (Inr (map (\<lambda>p. shown p (liveMarkPrice (fp_Pair p) s)) ps), s)))"

definition fut_ListOrders :: "string option \<Rightarrow> forder list fact" where
  "fut_ListOrders uid =
     (case currentUserID uid of
        None \<Rightarrow> throw Unauthorized
      | Some userID \<Rightarrow> on_futs (\<lambda>_. LoadFailed) (fs_ListOrders userID))"

record account_summary =
  as_open :: nat
  as_margin :: bf
  as_pnl :: bf
  as_wallet :: "(bf \<times> bf) option"

fun sum_positions :: "fut \<Rightarrow> fpos list \<Rightarrow> nat \<times> bf \<times> bf \<Rightarrow> nat \<times> bf \<times> bf" where
  "sum_positions s [] acc = acc"
| "sum_positions s (p # ps) (n, m, g) =
     sum_positions s ps
       (if fp_Status p = ''open'' then (Suc n, bf_add m m (fp_Margin p), bf_add g g (fst (pnl_of p (liveMarkPrice (fp_Pair p) s))))
        else (n, m, g))"

definition AccountSummary :: "string option \<Rightarrow> account_summary fact" where
  "AccountSummary uid =
     (case currentUserID uid of
        None \<Rightarrow> throw Unauthorized
      | Some userID \<Rightarrow> abind (on_futs (\<lambda>_. LoadFailed) (fs_ListPositions userID)) (\<lambda>ps s.
          let (n, m, g) = sum_positions s ps (0, new_float, new_float);
              answer = (\<lambda>w. \<lparr>as_open = n, as_margin = m, as_pnl = g, as_wallet = w\<rparr>)
          in (case fu_wallet s of
                None \<Rightarrow> (Inr (answer None), s)
              | Some v \<Rightarrow>
                  (case on_wallet (\<lambda>e. e) (svc_GetBalanceForAccount userID ''USDT'' AccountFutures) v s of
                     (Inl e, s1) \<Rightarrow> (Inr (answer None), s1)
                   | (Inr wa, s1) \<Rightarrow> (Inr (answer (Some (wa_Balance wa, wa_Locked wa))), s1)))))"

end
