(* ===== verification/Futures_Positions.thy ===== *)
theory Futures_Positions
  imports Futures_Jobs
begin

text \<open>
  What happens to the rows of the futures tables, over every handler and job: the frame of each operation, and the relation that all of
  them keep. What a position was opened with never changes in the database, and a position that has ended never comes back.
\<close>

section \<open>Frames\<close>

definition pos_rows :: "fut \<Rightarrow> (string, fpos) gomap" where
  "pos_rows s = (case fu_store s of PGFut d \<Rightarrow> pf_positions d | MemFut m \<Rightarrow> mf_positions m)"

definition in_pg :: "fut \<Rightarrow> bool" where
  "in_pg s \<longleftrightarrow> (\<exists>d. fu_store s = PGFut d)"

text \<open>Nothing but the wallet, the statements to come and the identifiers drawn.\<close>

definition tame :: "fut \<Rightarrow> fut \<Rightarrow> bool" where
  "tame s s' \<longleftrightarrow> fu_ids s' = fu_ids s \<and> fu_nid s \<le> fu_nid s' \<and> fu_price s' = fu_price s \<and> fu_now s' = fu_now s \<and>
     (in_pg s \<longrightarrow> in_pg s' \<and> pos_rows s' = pos_rows s)"

lemma tame_refl [simp, intro]: "tame s s"
  by (simp add: tame_def)

lemma tame_trans: "tame s s1 \<Longrightarrow> tame s1 s2 \<Longrightarrow> tame s s2"
  by (auto simp: tame_def)

lemma tame_wallet [simp]: "tame s (s\<lparr>fu_wallet := w\<rparr>)"
  by (simp add: tame_def in_pg_def pos_rows_def)

lemma tame_nid: "fu_nid s \<le> n \<Longrightarrow> tame s (s\<lparr>fu_nid := n\<rparr>)"
  by (simp add: tame_def in_pg_def pos_rows_def)

lemma tame_on_wallet: "on_wallet f m w s = (r, s') \<Longrightarrow> tame s s'"
  by (auto simp: on_wallet_def split: prod.splits sum.splits)

lemma tame_reserve: "reserve_margin u a m s = (r, s') \<Longrightarrow> tame s s'"
  by (auto simp: reserve_margin_def abind_def ret_def split: option.splits prod.splits sum.splits dest: tame_on_wallet)

lemma tame_settle: "settle_futures p rec s = (r, s') \<Longrightarrow> tame s s'"
proof -
  assume r: "settle_futures p rec s = (r, s')"
  have n: "tame s (s\<lparr>fu_nid := Suc (fu_nid s)\<rparr>)" by (rule tame_nid) simp
  show ?thesis using r
    by (auto simp: settle_futures_def fut_uuid_def Let_def split: option.splits prod.splits
        dest!: tame_on_wallet intro: tame_trans [OF n])
qed

lemma tame_isLiquidated: "tame s (snd (isLiquidated p mark s))"
  by (auto simp: isLiquidated_def Let_def split: option.splits prod.splits sum.splits dest!: tame_on_wallet)

lemma tame_mapped: "mapped_err f m s = (r, s') \<Longrightarrow> (\<And>q. m s = (q, s') \<Longrightarrow> tame s s') \<Longrightarrow> tame s s'"
  by (auto simp: mapped_err_def split: prod.splits sum.splits)

text \<open>Statements that only read, and those on the table of orders.\<close>

lemma pf_stmt_cases:
  assumes "pf_stmt f s = (r, s')"
  obtains fs where "r = Inl FutDown" "s' = s\<lparr>pf_faults := fs\<rparr>"
  | fs x where "r = Inr x" "f (s\<lparr>pf_faults := fs\<rparr>) = (x, s')"
proof (cases "pf_faults s")
  case Nil
  then have e: "f (s\<lparr>pf_faults := []\<rparr>) = f s" by (cases s) simp
  obtain x t where "f s = (x, t)" by fastforce
  then show ?thesis using assms Nil e by (intro that(2) [of x "[]"]) (simp_all add: pf_stmt_def)
next
  case (Cons b fs)
  then show ?thesis using assms that by (cases b) (auto simp: pf_stmt_def split: prod.splits)
qed

definition reading :: "(fut_store, fs_err, 'a) act \<Rightarrow> bool" where
  "reading m \<longleftrightarrow> (\<forall>d. \<exists>d'. snd (m (PGFut d)) = PGFut d' \<and> pf_positions d' = pf_positions d)"

lemma readingI:
  assumes "\<And>d. pf_positions (snd (f d)) = pf_positions d"
  shows "reading (on_fs f g)"
proof -
  have "snd (on_fs f g (PGFut d)) = PGFut (snd (f d))" for d by (simp add: split_def Let_def)
  then show ?thesis using assms by (auto simp: reading_def)
qed

lemma pf_read: "pf_positions (snd (pf_stmt (\<lambda>s. (g s, s)) d)) = pf_positions d"
  by (cases "pf_stmt (\<lambda>s. (g s, s)) d") (auto elim: pf_stmt_cases)

lemma pf_read_then: "pf_positions (snd (abind (pf_stmt (\<lambda>s. (g s, s))) f d)) = pf_positions d"
  if "\<And>x s. snd (f x s) = s" for f :: "'a \<Rightarrow> (pg_futures, fs_err, 'b) act"
proof -
  obtain q d' where q: "pf_stmt (\<lambda>s. (g s, s)) d = (q, d')" by fastforce
  have "pf_positions d' = pf_positions d" using pf_read [of g d] q by simp
  then show ?thesis using q that by (cases q) (simp_all add: abind_def)
qed

lemma reading_ops:
  "reading (fs_GetPosition i u)" "reading (fs_ListPositions u)" "reading fs_ListOpenPositions" "reading (fs_ListOrders u)"
  "reading fs_ListOpenOrders" "reading (fs_SaveOrder r)" "reading (fs_UpdateOrderStatus i st)"
proof -
  have get: "snd ((case x of None \<Rightarrow> throw FutNotFound | Some p \<Rightarrow> if fp_UserID p = u then ret p else throw FutNotFound) s) = s"
    for x and s :: pg_futures by (simp add: throw_def ret_def split: option.split)
  have scan: "snd (scanOrders x s) = s" for x s by (simp add: scanOrders_def ret_def throw_def)
  show "reading (fs_GetPosition i u)" unfolding fs_GetPosition_def pf_GetPosition_def by (rule readingI, rule pf_read_then, rule get)
  show "reading (fs_ListPositions u)" unfolding fs_ListPositions_def pf_ListPositions_def by (rule readingI, rule pf_read)
  show "reading fs_ListOpenPositions" unfolding fs_ListOpenPositions_def pf_ListOpenPositions_def by (rule readingI, rule pf_read)
  show "reading (fs_ListOrders u)" unfolding fs_ListOrders_def pf_ListOrders_def by (rule readingI, rule pf_read_then, rule scan)
  show "reading fs_ListOpenOrders" unfolding fs_ListOpenOrders_def pf_ListOpenOrders_def by (rule readingI, rule pf_read_then, rule scan)
  have w: "pf_positions (snd (pf_stmt (\<lambda>s. ((), s\<lparr>pf_orders := g s\<rparr>)) d)) = pf_positions d" for g d
    by (cases "pf_stmt (\<lambda>s. ((), s\<lparr>pf_orders := g s\<rparr>)) d") (auto elim: pf_stmt_cases)
  show "reading (fs_SaveOrder r)" unfolding fs_SaveOrder_def pf_SaveOrder_def by (rule readingI, rule w)
  show "reading (fs_UpdateOrderStatus i st)" unfolding fs_UpdateOrderStatus_def pf_UpdateOrderStatus_def by (rule readingI, rule w)
qed

lemma tame_reading:
  assumes "reading m"
  shows "on_futs f m s = (r, s') \<Longrightarrow> tame s s'" "tame s (ignored m s)"
proof -
  have st: "tame s (s\<lparr>fu_store := snd (m (fu_store s))\<rparr>)"
  proof (cases "fu_store s")
    case (PGFut d)
    with assms obtain d' where "snd (m (PGFut d)) = PGFut d'" "pf_positions d' = pf_positions d" by (auto simp: reading_def)
    with PGFut show ?thesis by (simp add: tame_def in_pg_def pos_rows_def)
  qed (simp add: tame_def in_pg_def)
  then show "tame s (ignored m s)" by (simp add: ignored_def)
  show "tame s s'" if "on_futs f m s = (r, s')"
    using that st by (auto simp: on_futs_def split: prod.splits sum.splits)
qed

lemma tame_net: "netPosition u pair s = (x, s') \<Longrightarrow> tame s s'"
  by (auto simp: netPosition_def split: prod.splits sum.splits dest!: tame_reading(1) [OF reading_ops(2)])

text \<open>What the reads find.\<close>

lemma pf_read_result: "pf_stmt (\<lambda>s. (g s, s)) d = (Inr x, d') \<Longrightarrow> (\<And>fs. g (d\<lparr>pf_faults := fs\<rparr>) = g d) \<Longrightarrow> x = g d"
  by (auto elim: pf_stmt_cases)

lemma GetPosition_found:
  assumes "on_futs f (fs_GetPosition i u) s = (Inr p, s')"
  shows "gm_get (pos_rows s) i = Some p \<and> fp_UserID p = u"
proof (cases "fu_store s")
  case (PGFut d)
  then obtain d1 where "pf_GetPosition i u d = (Inr p, d1)"
    using assms by (auto simp: on_futs_def fs_GetPosition_def Let_def split: prod.splits sum.splits)
  then obtain row d2 where "pf_stmt (\<lambda>s. (gm_get (pf_positions s) i, s)) d = (Inr row, d2)" "row = Some p" "fp_UserID p = u"
    by (auto simp: pf_GetPosition_def abind_Inr split: option.splits if_splits)
  then show ?thesis using PGFut pf_read_result [of "\<lambda>s. gm_get (pf_positions s) i" d row d2] by (simp add: pos_rows_def)
next
  case (MemFut m)
  then show ?thesis using assms by (auto simp: on_futs_def fs_GetPosition_def pos_rows_def Let_def split: option.splits if_splits)
qed

lemma ListOpen_found:
  assumes "on_futs f fs_ListOpenPositions s = (Inr ps, s')" "in_pg s"
  shows "mset ps = mset (filter (\<lambda>p. fp_Status p = ''open'') (map snd (pos_rows s)))"
proof -
  from assms(2) obtain d where d: "fu_store s = PGFut d" by (auto simp: in_pg_def)
  let ?g = "\<lambda>s. sort_key (\<lambda>p. - fp_CreatedAt p) (filter (\<lambda>p. fp_Status p = ''open'') (map snd (pf_positions s)))"
  from d assms(1) obtain d1 where "pf_stmt (\<lambda>s. (?g s, s)) d = (Inr ps, d1)"
    by (auto simp: on_futs_def fs_ListOpenPositions_def pf_ListOpenPositions_def Let_def split: prod.splits sum.splits)
  then have "ps = ?g d" by (rule pf_read_result) simp
  then show ?thesis using d by (simp add: pos_rows_def)
qed

lemma net_found:
  assumes "netPosition u pair s = (Some p, s')" "in_pg s"
  shows "p \<in> snd ` set (pos_rows s) \<and> fp_Status p = ''open'' \<and> fp_Pair p = pair \<and> fp_UserID p = u"
proof -
  from assms(2) obtain d where d: "fu_store s = PGFut d" by (auto simp: in_pg_def)
  let ?g = "\<lambda>s. sort_key (\<lambda>p. - fp_CreatedAt p) (filter (\<lambda>p. fp_UserID p = u) (map snd (pf_positions s)))"
  from assms(1) obtain ps where ps: "on_futs (\<lambda>e. e) (fs_ListPositions u) s = (Inr ps, s')" "find (\<lambda>p. fp_Status p = ''open'' \<and> fp_Pair p = pair) ps = Some p"
    by (auto simp: netPosition_def split: prod.splits sum.splits)
  from d ps(1) obtain d1 where "pf_stmt (\<lambda>s. (?g s, s)) d = (Inr ps, d1)"
    by (auto simp: on_futs_def fs_ListPositions_def pf_ListPositions_def Let_def split: prod.splits sum.splits)
  then have "ps = ?g d" by (rule pf_read_result) simp
  then have "set ps = {p \<in> snd ` set (pos_rows s). fp_UserID p = u}" using d by (simp add: pos_rows_def)
  moreover from ps(2) obtain n where "n < length ps" "fp_Status (ps ! n) = ''open''" "fp_Pair (ps ! n) = pair" "p = ps ! n"
    unfolding find_Some_iff by blast
  then have "p \<in> set ps" "fp_Status p = ''open''" "fp_Pair p = pair" using nth_mem by simp_all
  ultimately show ?thesis by blast
qed

section \<open>What the rows keep\<close>

text \<open>The columns that no statement updates, and the status once it is not \<open>open\<close>.\<close>

definition kept :: "fpos \<Rightarrow> fpos \<Rightarrow> bool" where
  "kept p p' \<longleftrightarrow> fp_ID p' = fp_ID p \<and> fp_UserID p' = fp_UserID p \<and> fp_Pair p' = fp_Pair p \<and> fp_Side p' = fp_Side p \<and>
     fp_MarginMode p' = fp_MarginMode p \<and> fp_Entry p' = fp_Entry p \<and> fp_Qty p' = fp_Qty p \<and> fp_CreatedAt p' = fp_CreatedAt p \<and>
     (fp_Status p \<noteq> ''open'' \<longrightarrow> fp_Status p' = fp_Status p)"

lemma kept_refl [simp]: "kept p p"
  by (simp add: kept_def)

lemma kept_trans: "kept p q \<Longrightarrow> kept q r \<Longrightarrow> kept p r"
  by (auto simp: kept_def)

lemma kept_upsert: "fp_Status p = ''open'' \<or> fp_Status q = fp_Status p \<Longrightarrow> kept p (upsert_pos q p)"
  by (auto simp: kept_def upsert_pos_def)

text \<open>A table keyed by the identifiers of its rows, in the database, none of which is still to be drawn.\<close>

definition orderly :: "fut \<Rightarrow> bool" where
  "orderly s \<longleftrightarrow> in_pg s \<and> gm_wf (pos_rows s) \<and> (\<forall>(i, p) \<in> set (pos_rows s). fp_ID p = i) \<and> inj (fu_ids s) \<and>
     (\<forall>n \<ge> fu_nid s. gm_get (pos_rows s) (fu_ids s n) = None)"

definition keeps :: "fut \<Rightarrow> fut \<Rightarrow> bool" where
  "keeps s s' \<longleftrightarrow> orderly s' \<and> (\<forall>i p. gm_get (pos_rows s) i = Some p \<longrightarrow> (\<exists>p'. gm_get (pos_rows s') i = Some p' \<and> kept p p'))"

lemma keeps_orderly: "keeps s s' \<Longrightarrow> orderly s'"
  by (simp add: keeps_def)

lemma keeps_trans: "keeps s s1 \<Longrightarrow> keeps s1 s2 \<Longrightarrow> keeps s s2"
  unfolding keeps_def by (meson kept_trans)

lemma tame_orderly: "tame s s' \<Longrightarrow> orderly s \<Longrightarrow> orderly s'"
  unfolding tame_def orderly_def by (metis order_trans)

lemma tame_keeps: "tame s s' \<Longrightarrow> orderly s \<Longrightarrow> keeps s s'"
proof -
  assume t: "tame s s'" and o: "orderly s"
  have "pos_rows s' = pos_rows s" using t o unfolding tame_def orderly_def by blast
  then show ?thesis using tame_orderly [OF t o] by (simp add: keeps_def)
qed

lemma orderly_row: "orderly s \<Longrightarrow> p \<in> snd ` set (pos_rows s) \<Longrightarrow> gm_get (pos_rows s) (fp_ID p) = Some p"
proof -
  assume o: "orderly s" and p: "p \<in> snd ` set (pos_rows s)"
  from p obtain i where i: "(i, p) \<in> set (pos_rows s)" by auto
  then have "fp_ID p = i" using o unfolding orderly_def by blast
  then show ?thesis using i o set_gm_get by (simp add: orderly_def)
qed

lemma orderly_key: "orderly s \<Longrightarrow> gm_get (pos_rows s) i = Some p \<Longrightarrow> fp_ID p = i"
  unfolding orderly_def using map_of_SomeD by fastforce

text \<open>A save writes its row, or fails.\<close>

definition put_pos :: "fpos \<Rightarrow> (string, fpos) gomap \<Rightarrow> (string, fpos) gomap" where
  "put_pos q m = gm_put (fp_ID q) (case gm_get m (fp_ID q) of None \<Rightarrow> stored_pos q | Some old \<Rightarrow> upsert_pos q old) m"

lemma save_pg:
  assumes "fs_SavePosition q (PGFut d) = (r, t)"
  shows "\<exists>d'. t = PGFut d' \<and> (r = Inr () \<and> pf_positions d' = put_pos q (pf_positions d) \<or> isl r \<and> pf_positions d' = pf_positions d)"
proof -
  obtain r' d' where d': "pf_SavePosition q d = (r', d')" by fastforce
  then show ?thesis using assms
    by (auto simp: fs_SavePosition_def pf_SavePosition_def put_pos_def elim!: pf_stmt_cases)
qed

lemma put_orderly:
  assumes "orderly s" "fu_ids s' = fu_ids s" "fu_nid s' = fu_nid s" "in_pg s'" "pos_rows s' = put_pos q (pos_rows s)"
    "gm_get (pos_rows s) (fp_ID q) = None \<longrightarrow> (\<exists>n < fu_nid s. fp_ID q = fu_ids s n)"
  shows "orderly s'"
proof -
  have id: "fp_ID (stored_pos q) = fp_ID q" "fp_ID (upsert_pos q p) = fp_ID p" for p
    by (simp_all add: stored_pos_def upsert_pos_def)
  let ?v = "case gm_get (pos_rows s) (fp_ID q) of None \<Rightarrow> stored_pos q | Some old \<Rightarrow> upsert_pos q old"
  have v: "fp_ID ?v = fp_ID q" using orderly_key [OF assms(1)] id by (simp split: option.split)
  have old: "\<forall>(i, p) \<in> set (pos_rows s). fp_ID p = i" using assms(1) unfolding orderly_def by blast
  have "set (pos_rows s') \<subseteq> insert (fp_ID q, ?v) (set (pos_rows s))" unfolding assms(5) put_pos_def by (rule set_gm_put)
  then have "\<forall>(i, p) \<in> set (pos_rows s'). fp_ID p = i" using v old by blast
  moreover have "gm_get (pos_rows s') (fu_ids s' n) = None" if "fu_nid s' \<le> n" for n
  proof -
    have f: "gm_get (pos_rows s) (fu_ids s n) = None" using assms(1,3) that by (simp add: orderly_def)
    have "fp_ID q \<noteq> fu_ids s n"
    proof
      assume "fp_ID q = fu_ids s n"
      then show False using f assms(1,3,6) that by (auto simp: orderly_def dest: injD)
    qed
    then show ?thesis using f assms(2,5) by (simp add: put_pos_def)
  qed
  ultimately show ?thesis using assms(1,2,4,5) by (simp add: orderly_def put_pos_def)
qed

lemma ignored_save:
  assumes "orderly s" "gm_get (pos_rows s) (fp_ID q) = None \<longrightarrow> (\<exists>n < fu_nid s. fp_ID q = fu_ids s n)"
    "\<And>p. gm_get (pos_rows s) (fp_ID q) = Some p \<Longrightarrow> fp_Status p = ''open'' \<or> fp_Status q = fp_Status p"
  shows "keeps s (ignored (fs_SavePosition q) s)"
proof -
  from assms(1) obtain d where d: "fu_store s = PGFut d" by (auto simp: orderly_def in_pg_def)
  obtain r t where rt: "fs_SavePosition q (PGFut d) = (r, t)" by fastforce
  from save_pg [OF rt] obtain d' where d': "t = PGFut d'" "pf_positions d' = put_pos q (pf_positions d) \<or> pf_positions d' = pf_positions d" by blast
  let ?s = "ignored (fs_SavePosition q) s"
  have st: "fu_store ?s = PGFut d'" "fu_ids ?s = fu_ids s" "fu_nid ?s = fu_nid s" using rt d d'(1) by (simp_all add: ignored_def)
  have r: "pos_rows s = pf_positions d" "pos_rows ?s = pf_positions d'" "in_pg ?s" using d st by (simp_all add: pos_rows_def in_pg_def)
  show ?thesis
  proof (cases "pf_positions d' = pf_positions d")
    case True
    then have "tame s ?s" using r st by (simp add: tame_def) (simp add: ignored_def)
    then show ?thesis using assms(1) by (rule tame_keeps)
  next
    case False
    then have p: "pos_rows ?s = put_pos q (pos_rows s)" using d'(2) r by simp
    have "orderly ?s" by (rule put_orderly [OF assms(1) st(2,3) r(3) p assms(2)])
    moreover have "\<exists>p'. gm_get (pos_rows ?s) i = Some p' \<and> kept p p'" if "gm_get (pos_rows s) i = Some p" for i p
      using that kept_upsert [OF assms(3)] unfolding p by (auto simp: put_pos_def)
    ultimately show ?thesis by (simp add: keeps_def)
  qed
qed

text \<open>An operation on one row.\<close>

definition edits :: "string \<Rightarrow> fut \<Rightarrow> fut \<Rightarrow> bool" where
  "edits i s s' \<longleftrightarrow> keeps s s' \<and> (\<forall>j. j \<noteq> i \<longrightarrow> gm_get (pos_rows s') j = gm_get (pos_rows s) j)"

lemma edits_keeps: "edits i s s' \<Longrightarrow> keeps s s'"
  by (simp add: edits_def)

lemma edits_trans: "edits i s s1 \<Longrightarrow> edits i s1 s2 \<Longrightarrow> edits i s s2"
  unfolding edits_def using keeps_trans by metis

lemma tame_edits: "tame s s' \<Longrightarrow> orderly s \<Longrightarrow> edits i s s'"
  using tame_keeps [of s s'] by (simp add: edits_def tame_def orderly_def)

lemma tame_then_edits: "tame s s1 \<Longrightarrow> orderly s \<Longrightarrow> (orderly s1 \<Longrightarrow> edits i s1 s2) \<Longrightarrow> edits i s s2"
  using tame_edits tame_orderly edits_trans by blast

lemma snd_on_futs: "snd (on_futs f m s) = ignored m s"
  by (simp add: on_futs_def ignored_def split: prod.split sum.split)

lemma snd_mapped: "snd (mapped_err f m s) = snd (m s)"
  by (simp add: mapped_err_def split: prod.split sum.split)

lemma ignored_save_frame:
  assumes "in_pg s" "j \<noteq> fp_ID q"
  shows "gm_get (pos_rows (ignored (fs_SavePosition q) s)) j = gm_get (pos_rows s) j"
proof -
  from assms(1) obtain d where d: "fu_store s = PGFut d" by (auto simp: in_pg_def)
  obtain r t where rt: "fs_SavePosition q (PGFut d) = (r, t)" by fastforce
  from save_pg [OF rt] obtain d' where "t = PGFut d'" "pf_positions d' = put_pos q (pf_positions d) \<or> pf_positions d' = pf_positions d" by blast
  then show ?thesis using rt d assms(2) by (auto simp: ignored_def pos_rows_def put_pos_def)
qed

lemma save_edits:
  assumes "orderly s" "gm_get (pos_rows s) (fp_ID q) = Some p" "fp_Status p = ''open'' \<or> fp_Status q = fp_Status p"
  shows "edits (fp_ID q) s (ignored (fs_SavePosition q) s)"
proof -
  have "in_pg s" using assms(1) by (simp add: orderly_def)
  then show ?thesis using ignored_save [OF assms(1), of q] ignored_save_frame assms(2,3) by (simp add: edits_def)
qed

text \<open>Money first, then the row.\<close>

lemma settle_then_save:
  assumes "orderly s" "gm_get (pos_rows s) i = Some p" "fp_Status p = ''open'' \<or> st = fp_Status p"
    and "\<And>x s1. tame s s1 \<Longrightarrow> orderly s1 \<Longrightarrow> gm_get (pos_rows s1) i = Some p \<Longrightarrow> edits i s1 (snd (g x s1))"
    and "\<And>q s1. m s = (q, s1) \<Longrightarrow> tame s s1"
  shows "edits i s (snd (abind m g s))"
proof -
  obtain q s1 where q: "m s = (q, s1)" by fastforce
  have t: "tame s s1" using assms(5) q .
  have o: "orderly s1" "gm_get (pos_rows s1) i = Some p"
    using tame_orderly [OF t assms(1)] t assms(1,2) by (simp_all add: tame_def orderly_def)
  show ?thesis
  proof (cases q)
    case (Inl e)
    then show ?thesis using q tame_edits [OF t assms(1)] by simp
  next
    case (Inr x)
    have "edits i s1 (snd (g x s1))" by (rule assms(4) [OF t o])
    then show ?thesis using q Inr edits_trans [OF tame_edits [OF t assms(1)]] by simp
  qed
qed

lemma tame_mapped_settle: "mapped_err f (settle_futures a b) s = (q, s1) \<Longrightarrow> tame s s1"
  by (metis snd_conv snd_mapped tame_settle prod.collapse)

lemma close_edits:
  assumes "orderly s" "gm_get (pos_rows s) (fp_ID p) = Some p0" "fp_Status p0 = ''open''"
  shows "edits (fp_ID p) s (snd (closePosition p mark s))"
  unfolding closePosition_def Let_def
proof (rule settle_then_save [OF assms(1,2), of "''closed''"])
  fix x s1
  let ?q = "closed_pos p mark (fu_now s)"
  assume o: "orderly s1" "gm_get (pos_rows s1) (fp_ID p) = Some p0"
  have id: "fp_ID ?q = fp_ID p" by (simp add: closed_pos_def)
  have "snd (abind (on_futs CloseSave (fs_SavePosition ?q)) (\<lambda>_. ret ?q) s1) = snd (on_futs CloseSave (fs_SavePosition ?q) s1)"
    by (simp add: abind_def ret_def split: prod.split sum.split)
  then show "edits (fp_ID p) s1 (snd (abind (on_futs CloseSave (fs_SavePosition ?q)) (\<lambda>_. ret ?q) s1))"
    using save_edits [OF o(1), of ?q p0] o(2) assms(3) id by (simp add: snd_on_futs)
qed (use assms(3) tame_mapped_settle in blast)+

section \<open>The handlers\<close>

lemma load_edits:
  assumes "orderly s"
    and "\<And>p s1. orderly s1 \<Longrightarrow> gm_get (pos_rows s1) i = Some p \<Longrightarrow> fp_ID p = i \<Longrightarrow> ok (fp_Status p) \<Longrightarrow> edits i s1 (snd (g p s1))"
  shows "edits i s (snd (abind (load_position uid i ok bad) g s))"
proof (cases "currentUserID uid")
  case None
  then show ?thesis using tame_edits [OF tame_refl assms(1)] by (simp add: load_position_def abind_def throw_def)
next
  case (Some u)
  obtain q s1 where q: "on_futs (\<lambda>_. PositionNotFound) (fs_GetPosition i u) s = (q, s1)" by fastforce
  have t: "tame s s1" by (rule tame_reading(1) [OF reading_ops(1) q])
  have o: "orderly s1" by (rule tame_orderly [OF t assms(1)])
  have e: "edits i s s1" by (rule tame_edits [OF t assms(1)])
  show ?thesis
  proof (cases q)
    case (Inl x)
    then show ?thesis using Some q e by (simp add: load_position_def abind_def)
  next
    case (Inr p)
    have "gm_get (pos_rows s) i = Some p" using GetPosition_found q Inr by blast
    then have r: "gm_get (pos_rows s1) i = Some p" using t assms(1) by (simp add: tame_def orderly_def)
    have "edits i s1 (snd (g p s1))" if "ok (fp_Status p)"
      by (rule assms(2) [OF o r orderly_key [OF o r] that])
    then show ?thesis using Some q Inr e edits_trans [OF e]
      by (simp add: load_position_def abind_def throw_def ret_def)
  qed
qed

lemma amount_edits:
  assumes "orderly s" "\<And>x. edits i s (snd (g x s))"
  shows "edits i s (snd (abind (positive_amount req bad) g s))"
proof -
  have e: "edits i s s" by (rule tame_edits [OF tame_refl assms(1)])
  have "snd (positive_amount req bad s) = s" by (simp add: positive_amount_def throw_def ret_def split: option.split)
  then show ?thesis using assms(2) e by (cases "positive_amount req bad s") (auto simp: abind_def split: sum.split)
qed

lemma ClosePosition_edits: "orderly s \<Longrightarrow> edits i s (snd (ClosePosition uid i s))"
  unfolding ClosePosition_def by (rule load_edits) (auto simp: snd_mapped intro: close_edits)

lemma save_after_settle:
  assumes "orderly s" "gm_get (pos_rows s) i = Some p" "fp_ID p = i"
    "\<And>t. fp_ID (q t) = i" "\<And>t. fp_Status p = ''open'' \<or> fp_Status (q t) = fp_Status p"
    and m: "\<And>r s1. m s = (r, s1) \<Longrightarrow> tame s s1"
  shows "edits i s (snd (abind m (\<lambda>_ s1. (v s1, ignored (fs_SavePosition (q s1)) s1)) s))"
proof (rule settle_then_save [OF assms(1,2), of "fp_Status p"])
  show "edits i s1 (snd (v s1, ignored (fs_SavePosition (q s1)) s1))"
    if "tame s s1" "orderly s1" "gm_get (pos_rows s1) i = Some p" for s1
    using save_edits [OF that(2), of "q s1" p] that(3) assms(4,5) by simp
qed (use m in auto)

lemma Partial_edits: "orderly s \<Longrightarrow> edits i s (snd (ClosePositionPartial uid i req s))"
  unfolding ClosePositionPartial_def
proof (rule load_edits, assumption, rule amount_edits, assumption)
  fix p s1 x
  assume o: "orderly s1" "gm_get (pos_rows s1) i = Some p" "fp_ID p = i" "fp_Status p = ''open''"
  let ?mark = "liveMarkPrice (fp_Pair p) s1"
  obtain cm cp where c: "partial_share p x ?mark = (cm, cp)" by fastforce
  let ?m = "mapped_err PartialSettle (settle_futures (fut_op (fp_UserID p) (fp_Pair p) (Some cm) (Some cp)) (Some (''fpnl_'', FuturesPnl, cp)))"
  have "edits i s1 (snd (abind ?m (\<lambda>_ s2. (Inr (reduced_pos p x cm ?mark (fu_now s2)),
      ignored (fs_SavePosition (reduced_pos p x cm ?mark (fu_now s2))) s2)) s1))"
    by (rule save_after_settle [OF o(1,2,3)]) (use o tame_mapped_settle in \<open>auto simp: reduced_pos_def shown_def positionToJSON_def Let_def\<close>)
  then show "edits i s1 (snd (let mark = ?mark; (closedMargin, closedPnL) = partial_share p x mark
       in if 0 < bf_cmp x (fp_Qty p) then (Inl QuantityExceeds, s1)
          else if bf_cmp x (fp_Qty p) = 0 then mapped_err CloseFailed (closePosition p mark) s1
          else abind (mapped_err PartialSettle (settle_futures (fut_op (fp_UserID p) (fp_Pair p) (Some closedMargin) (Some closedPnL))
                  (Some (''fpnl_'', FuturesPnl, closedPnL)))) (\<lambda>_ s2.
               let q = reduced_pos p x closedMargin mark (fu_now s2) in (Inr q, ignored (fs_SavePosition q) s2)) s1))"
    using close_edits [OF o(1), of p p ?mark] o tame_edits [OF tame_refl o(1), of i] by (simp add: c Let_def snd_mapped)
qed

lemma AddMargin_edits: "orderly s \<Longrightarrow> edits i s (snd (AddMargin uid i req s))"
  unfolding AddMargin_def
proof (rule load_edits, assumption, rule amount_edits, assumption)
  fix p s1 x
  assume o: "orderly s1" "gm_get (pos_rows s1) i = Some p" "fp_ID p = i" "fp_Status p = ''open''"
  let ?m = "mapped_err MarginTransfer (settle_futures (fut_op (fp_UserID p) (fp_Pair p) None (Some (bf_neg new_float x))) None)"
  show "edits i s1 (snd (abind ?m (\<lambda>_ s. let margin = bf_add new_float (fp_Margin p) x
      in (case margin_leverage (bf_mul new_float (fp_Entry p) (fp_Qty p)) margin of None \<Rightarrow> (Inl HandlerPanic, s)
          | Some l \<Rightarrow> let q = with_margin p margin (max l 1) (fu_now s)
              in (Inr (q\<lparr>fp_Mark := liveMarkPrice (fp_Pair p) s\<rparr>), ignored (fs_SavePosition q) s))) s1))"
  proof (rule settle_then_save [OF o(1,2), of "''open''"])
    fix s2
    assume o2: "orderly s2" "gm_get (pos_rows s2) i = Some p"
    have "edits i s2 (ignored (fs_SavePosition (with_margin p mg l (fu_now s2))) s2)" for mg l
      using save_edits [OF o2(1), of "with_margin p mg l (fu_now s2)" p] o2(2) o(3,4) by (simp add: with_margin_def)
    then show "edits i s2 (snd (let margin = bf_add new_float (fp_Margin p) x
      in (case margin_leverage (bf_mul new_float (fp_Entry p) (fp_Qty p)) margin of None \<Rightarrow> (Inl HandlerPanic, s2)
          | Some l \<Rightarrow> let q = with_margin p margin (max l 1) (fu_now s2)
              in (Inr (q\<lparr>fp_Mark := liveMarkPrice (fp_Pair p) s2\<rparr>), ignored (fs_SavePosition q) s2))))"
      using tame_edits [OF tame_refl o2(1)] by (simp add: Let_def split: option.split)
  qed (use o tame_mapped_settle in auto)
qed

lemma ReduceMargin_edits: "orderly s \<Longrightarrow> edits i s (snd (ReduceMargin uid i req s))"
  unfolding ReduceMargin_def
proof (rule load_edits, assumption, rule amount_edits, assumption)
  fix p s1 x
  assume o: "orderly s1" "gm_get (pos_rows s1) i = Some p" "fp_ID p = i" "fp_Status p \<noteq> ''closed''"
  let ?mg = "bf_sub new_float (fp_Margin p) x" and ?mark = "liveMarkPrice (fp_Pair p) s1"
  obtain gone s2 where g: "isLiquidated (p\<lparr>fp_Margin := ?mg\<rparr>) ?mark s1 = (gone, s2)" by fastforce
  have t: "tame s1 s2" using tame_isLiquidated [of s1 "p\<lparr>fp_Margin := ?mg\<rparr>" ?mark] g by simp
  have o2: "orderly s2" "gm_get (pos_rows s2) i = Some p"
    using tame_orderly [OF t o(1)] t o by (simp_all add: tame_def orderly_def)
  have sv: "edits i s3 (ignored (fs_SavePosition (with_margin p ?mg l (fu_now s3))) s3)"
    if "orderly s3" "gm_get (pos_rows s3) i = Some p" for l s3
    using save_edits [OF that(1), of "with_margin p ?mg l (fu_now s3)" p] that(2) o(3) by (simp add: with_margin_def)
  let ?body = "\<lambda>_ s2. (case margin_leverage (bf_mul new_float (fp_Entry p) (fp_Qty p)) ?mg of
        None \<Rightarrow> (Inl HandlerPanic, s2)
      | Some l \<Rightarrow> let q = with_margin p ?mg (max (min l 125) 1) (fu_now s2)
          in (Inr (q\<lparr>fp_Mark := ?mark\<rparr>), ignored (fs_SavePosition q) s2))"
  let ?m = "mapped_err MarginTransfer (settle_futures (fut_op (fp_UserID p) (fp_Pair p) None (Some x)) None)"
  have "edits i s2 (snd (abind ?m ?body s2))"
    by (rule settle_then_save [OF o2, of "fp_Status p"])
      (auto simp: Let_def split: option.split intro: sv tame_edits tame_mapped_settle)
  then have "edits i s1 (snd (abind ?m ?body s2))" using edits_trans [OF tame_edits [OF t o(1)]] by blast
  then show "edits i s1 (snd (if 0 < bf_cmp x (fp_Margin p) then (Inl MarginExceeds, s1)
       else let margin = ?mg; mark = ?mark; (gone, s1) = isLiquidated (p\<lparr>fp_Margin := margin\<rparr>) mark s1
            in if gone then (Inl WouldLiquidate, s1)
               else abind (mapped_err MarginTransfer (settle_futures (fut_op (fp_UserID p) (fp_Pair p) None (Some x)) None)) (\<lambda>_ s2.
                 (case margin_leverage (bf_mul new_float (fp_Entry p) (fp_Qty p)) margin of
                    None \<Rightarrow> (Inl HandlerPanic, s2)
                  | Some l \<Rightarrow> let q = with_margin p margin (max (min l 125) 1) (fu_now s2)
                      in (Inr (q\<lparr>fp_Mark := mark\<rparr>), ignored (fs_SavePosition q) s2))) s1))"
    using tame_edits [OF t o(1)] tame_edits [OF tame_refl o(1)] by (simp add: g Let_def)
qed

lemma settle_liquidation_tame: "settle_liquidation p s = (r, s') \<Longrightarrow> tame s s'"
  unfolding settle_liquidation_def by (rule tame_settle)

lemma Liquidate_edits: "orderly s \<Longrightarrow> edits i s (snd (LiquidatePosition uid i s))"
  unfolding LiquidatePosition_def
proof (rule load_edits, assumption)
  fix p s1
  assume o: "orderly s1" "gm_get (pos_rows s1) i = Some p" "fp_ID p = i" "fp_Status p = ''open''"
  let ?mark = "liveMarkPrice (fp_Pair p) s1"
  obtain gone s2 where g: "isLiquidated p ?mark s1 = (gone, s2)" by fastforce
  have t: "tame s1 s2" using tame_isLiquidated [of s1 p ?mark] g by simp
  have o2: "orderly s2" "gm_get (pos_rows s2) i = Some p"
    using tame_orderly [OF t o(1)] t o by (simp_all add: tame_def orderly_def)
  have "edits i s2 (snd (abind (mapped_err LiquidationSettle (settle_liquidation p))
      (\<lambda>_ s2. (Inr (liquidated_pos p ?mark (fu_now s2)), ignored (fs_SavePosition (liquidated_pos p ?mark (fu_now s2))) s2)) s2))"
    by (rule save_after_settle [OF o2 o(3)])
      (use o in \<open>auto simp: liquidated_pos_def settle_liquidation_def intro: tame_mapped_settle\<close>)
  then show "edits i s1 (snd (let mark = ?mark; (gone, s2) = isLiquidated p mark s1
      in if \<not> gone then (Inl NotLiquidated, s2)
         else abind (mapped_err LiquidationSettle (settle_liquidation p)) (\<lambda>_ s2.
            let q = liquidated_pos p mark (fu_now s2) in (Inr q, ignored (fs_SavePosition q) s2)) s2))"
    using tame_edits [OF t o(1), of i] edits_trans [OF tame_edits [OF t o(1)]] by (simp add: g Let_def)
qed

section \<open>Opening and orders\<close>

lemma same_store: "in_pg s \<Longrightarrow> s\<lparr>fu_store := write_through p (fu_store s)\<rparr> = s"
  by (cases s) (auto simp: in_pg_def)

lemma room_keeps:
  assumes "make_room ex u pair mark margin s = (r, s')" "orderly s"
    and "\<And>p. ex = Some p \<Longrightarrow> gm_get (pos_rows s) (fp_ID p) = Some p \<and> fp_Status p = ''open''"
  shows "keeps s s'"
proof -
  let ?c = "(case ex of None \<Rightarrow> ret () | Some p \<Rightarrow> abind (mapped_err Inl (close_existing p mark)) (\<lambda>_. ret ()))
    :: (fut, close_err + wallet_err, unit) act"
  obtain q s1 where q: "?c s = (q, s1)" by fastforce
  have pg: "in_pg s" using assms(2) by (simp add: orderly_def)
  have c: "keeps s s1"
  proof (cases ex)
    case None
    then show ?thesis using q tame_keeps [OF tame_refl assms(2)] by (simp add: ret_def)
  next
    case (Some p)
    have "s1 = snd (closePosition p mark s)"
      using q Some same_store [OF pg] by (auto simp: close_existing_def abind_def ret_def mapped_err_def split: prod.splits sum.splits)
    then show ?thesis using close_edits [OF assms(2), of p p mark] assms(3) Some edits_keeps by simp
  qed
  have t: "tame s1 (snd (reserve_margin u (quoteAsset pair) margin s1))"
    using tame_reserve [of u "quoteAsset pair" margin s1] by (cases "reserve_margin u (quoteAsset pair) margin s1") simp
  have "abind ?c (\<lambda>_. mapped_err Inr (reserve_margin u (quoteAsset pair) margin)) s = (r, s')"
    using assms(1) unfolding make_room_def .
  then have "s' = s1 \<or> s' = snd (reserve_margin u (quoteAsset pair) margin s1)"
    unfolding abind_def [of ?c] q by (cases q) (auto dest!: arg_cong [of _ _ snd] simp: snd_mapped)
  then show ?thesis using c tame_keeps [OF t keeps_orderly [OF c]] keeps_trans by blast
qed

lemma fresh_keeps:
  assumes "open_fresh ex mark new s = (r, s')" "orderly s"
    and "\<And>p. ex = Some p \<Longrightarrow> gm_get (pos_rows s) (fp_ID p) = Some p \<and> fp_Status p = ''open''" "\<And>i t. fp_ID (new i t) = i"
  shows "keeps s s'"
proof -
  obtain q s1 where q: "make_room ex (fp_UserID (new [] 0)) (fp_Pair (new [] 0)) mark (fp_Margin (new [] 0)) s = (q, s1)" by fastforce
  have k: "keeps s s1" by (rule room_keeps [OF q assms(2,3)])
  show ?thesis
  proof (cases q)
    case (Inl e)
    then show ?thesis using assms(1) q k by (simp add: open_fresh_def)
  next
    case (Inr x)
    let ?i = "fu_ids s1 (fu_nid s1)" and ?s2 = "s1\<lparr>fu_nid := Suc (fu_nid s1)\<rparr>"
    have t: "tame s1 ?s2" by (rule tame_nid) simp
    have o: "orderly s1" "orderly ?s2" using keeps_orderly [OF k] tame_orderly [OF t] by simp_all
    have none: "gm_get (pos_rows ?s2) ?i = None" using o(1) t by (simp add: orderly_def tame_def)
    have "keeps ?s2 (ignored (fs_SavePosition (new ?i (fu_now ?s2))) ?s2)"
    proof (rule ignored_save [OF o(2)])
      show "gm_get (pos_rows ?s2) (fp_ID (new ?i (fu_now ?s2))) = None \<longrightarrow>
          (\<exists>n < fu_nid ?s2. fp_ID (new ?i (fu_now ?s2)) = fu_ids ?s2 n)"
        using assms(4) by (auto intro: exI [of _ "fu_nid s1"])
      show "fp_Status p = ''open'' \<or> fp_Status (new ?i (fu_now ?s2)) = fp_Status p"
        if "gm_get (pos_rows ?s2) (fp_ID (new ?i (fu_now ?s2))) = Some p" for p using none that assms(4) by simp
    qed
    moreover have "s' = ignored (fs_SavePosition (new ?i (fu_now ?s2))) ?s2"
      using assms(1) q Inr by (simp add: open_fresh_def fut_uuid_def Let_def)
    ultimately show ?thesis using keeps_trans [OF k] keeps_trans [OF tame_keeps [OF t o(1)]] by blast
  qed
qed

text \<open>Netting: merged into the open position of the same side, or opened anew.\<close>

lemma netting_keeps:
  assumes "orderly s" "netPosition u pair s = (ex, s1)"
    and merged: "\<And>p s2. tame s1 s2 \<Longrightarrow> fp_ID (q p s2) = fp_ID p" "\<And>p s2. fp_Status (q p s2) = fp_Status p"
    and new: "\<And>i t. fp_ID (new i t) = i"
  shows "keeps s (snd (case ex of
      Some p \<Rightarrow> if P p then abind (mapped_err f (reserve_margin u a m)) (\<lambda>_ s2. (v p s2, ignored (fs_SavePosition (q p s2)) s2)) s1
                else abind (mapped_err g (open_fresh (Some p) mark new)) (\<lambda>x. ret (h x)) s1
    | None \<Rightarrow> abind (mapped_err g (open_fresh None mark new)) (\<lambda>x. ret (h x)) s1))"
proof -
  have t: "tame s s1" by (rule tame_net [OF assms(2)])
  have o: "orderly s1" by (rule tame_orderly [OF t assms(1)])
  have pg: "in_pg s" "pos_rows s1 = pos_rows s" using t assms(1) by (simp_all add: orderly_def tame_def)
  have row: "gm_get (pos_rows s1) (fp_ID p) = Some p \<and> fp_Status p = ''open''" if "ex = Some p" for p
    using net_found [of u pair s p s1] assms(2) that pg orderly_row [OF o] by simp
  have fr: "keeps s1 (snd (abind (mapped_err g (open_fresh ex mark new)) (\<lambda>x. ret (h x)) s1))"
  proof -
    obtain r s2 where r: "open_fresh ex mark new s1 = (r, s2)" by fastforce
    have "snd (abind (mapped_err g (open_fresh ex mark new)) (\<lambda>x. ret (h x)) s1) = s2"
      using r by (cases r) (simp_all add: abind_def mapped_err_def ret_def)
    then show ?thesis using fresh_keeps [OF r o row new] by simp
  qed
  have mg: "keeps s1 (snd (abind (mapped_err f (reserve_margin u a m)) (\<lambda>_ s2. (v p s2, ignored (fs_SavePosition (q p s2)) s2)) s1))"
    if "ex = Some p" for p
  proof -
    obtain r s2 where r: "reserve_margin u a m s1 = (r, s2)" by fastforce
    have t2: "tame s1 s2" by (rule tame_reserve [OF r])
    have o2: "orderly s2" "gm_get (pos_rows s2) (fp_ID p) = Some p"
      using tame_orderly [OF t2 o] t2 o row [OF that] by (simp_all add: orderly_def tame_def)
    have "edits (fp_ID p) s2 (ignored (fs_SavePosition (q p s2)) s2)"
      using save_edits [OF o2(1), of "q p s2" p] o2(2) merged t2 by simp
    then have "keeps s2 (ignored (fs_SavePosition (q p s2)) s2)" by (rule edits_keeps)
    then show ?thesis using r keeps_trans [OF tame_keeps [OF t2 o]] tame_keeps [OF t2 o] by (cases r) (simp_all add: abind_def mapped_err_def)
  qed
  show ?thesis
  proof (cases ex)
    case None
    then show ?thesis using fr keeps_trans [OF tame_keeps [OF t assms(1)]] by simp
  next
    case (Some p)
    then show ?thesis using fr mg [OF Some] keeps_trans [OF tame_keeps [OF t assms(1)]] by simp
  qed
qed

lemma merge_fields [simp]:
  "fp_ID (mergeSameSidePosition p e q m l t) = fp_ID p" "fp_Status (mergeSameSidePosition p e q m l t) = fp_Status p"
  by (simp_all add: mergeSameSidePosition_def Let_def)

lemma new_position_id [simp]: "fp_ID (new_position i u pair sd l mo e mk q m g tp sl t) = i"
  by (simp add: new_position_def)

lemma open_checked_keeps: "orderly s \<Longrightarrow> keeps s (snd (open_checked u side qty r s))"
proof -
  assume o: "orderly s"
  obtain ex s1 where n: "netPosition u (op_Pair r) s = (ex, s1)" by fastforce
  show ?thesis unfolding open_checked_def Let_def n prod.case
    by (rule netting_keeps [OF o n]) simp_all
qed

lemma same_keeps: "orderly s \<Longrightarrow> keeps s s"
  using tame_keeps [OF tame_refl] .

lemma OpenPosition_keeps: "orderly s \<Longrightarrow> keeps s (snd (OpenPosition uid req s))"
  unfolding OpenPosition_def using open_checked_keeps same_keeps
  by (auto simp: throw_def split: option.split)

lemma fill_order_keeps: "orderly s \<Longrightarrow> keeps s (snd (fill_order r mark s))"
proof -
  assume o: "orderly s"
  obtain ex s1 where n: "netPosition (fo_UserID r) (fo_Pair r) s = (ex, s1)" by fastforce
  have id: "mapped_err (\<lambda>e. e) m = m" for m :: "(fut, close_err + wallet_err, fpos) act"
    by (simp add: mapped_err_def fun_eq_iff split: prod.split sum.split)
  show ?thesis unfolding fill_order_def Let_def n prod.case
    by (rule netting_keeps [OF o n, where g = "\<lambda>e. e", unfolded id]) simp_all
qed

lemma ignored_reading_keeps: "reading m \<Longrightarrow> orderly s \<Longrightarrow> keeps s (ignored m s)"
  using tame_keeps tame_reading(2) by blast

lemma place_order_keeps: "orderly s \<Longrightarrow> keeps s (snd (place_order r s))"
proof -
  assume o: "orderly s"
  obtain q s1 where q: "fill_order r (liveMarkPrice (fo_Pair r) s) s = (q, s1)" by fastforce
  have k: "keeps s s1" using fill_order_keeps [OF o, of r "liveMarkPrice (fo_Pair r) s"] q by simp
  have "keeps s1 (ignored (fs_SaveOrder r) s1)" by (rule ignored_reading_keeps [OF reading_ops(6) keeps_orderly [OF k]])
  then show ?thesis using k keeps_trans [OF k] ignored_reading_keeps [OF reading_ops(6) o] q
    by (auto simp: place_order_def split: sum.split)
qed

lemma CreateOrder_keeps: "orderly s \<Longrightarrow> keeps s (snd (CreateOrder uid req s))"
proof -
  assume o: "orderly s"
  let ?s = "s\<lparr>fu_nid := Suc (fu_nid s)\<rparr>"
  have t: "tame s ?s" by (rule tame_nid) simp
  have "keeps ?s (snd (place_order r ?s))" for r by (rule place_order_keeps [OF tame_orderly [OF t o]])
  then have "keeps s (snd (place_order r ?s))" for r using keeps_trans [OF tame_keeps [OF t o]] by blast
  then show ?thesis unfolding CreateOrder_def
    by (auto simp: throw_def same_keeps [OF o] fut_uuid_def Let_def split: option.split)
qed

lemma CancelOrder_keeps: "orderly s \<Longrightarrow> keeps s (snd (CancelOrder uid i s))"
proof (cases "currentUserID uid")
  case (Some u)
  assume o: "orderly s"
  obtain q s1 where q: "on_futs (\<lambda>_. LoadFailed) (fs_ListOrders u) s = (q, s1)" by fastforce
  have t: "tame s s1" by (rule tame_reading(1) [OF reading_ops(4) q])
  have "tame s1 (ignored (fs_UpdateOrderStatus i ''cancelled'') s1)" by (rule tame_reading(2) [OF reading_ops(7)])
  then have "keeps s s1" "keeps s (ignored (fs_UpdateOrderStatus i ''cancelled'') s1)" using t tame_trans tame_keeps o by blast+
  then show ?thesis using Some q by (auto simp: CancelOrder_def abind_def throw_def split: sum.split option.split)
qed (simp add: CancelOrder_def throw_def same_keeps)

lemma process_order_keeps: "orderly s \<Longrightarrow> keeps s (process_order r s)"
proof -
  assume o: "orderly s"
  obtain q s1 where q: "fill_order r (liveMarkPrice (fo_Pair r) s) s = (q, s1)" by fastforce
  have k: "keeps s s1" using fill_order_keeps [OF o, of r "liveMarkPrice (fo_Pair r) s"] q by simp
  have "keeps s (ignored (fs_UpdateOrderStatus (fo_ID r) st) s1)" for st
    using keeps_trans [OF k ignored_reading_keeps [OF reading_ops(7) keeps_orderly [OF k]]] .
  then show ?thesis using k q same_keeps [OF o] by (auto simp: process_order_def Let_def split: sum.split)
qed

section \<open>The jobs\<close>

lemma fold_keeps:
  assumes "orderly s" "\<And>x t. orderly t \<Longrightarrow> keeps t (f x t)"
  shows "keeps s (fold f xs s)"
  using assms(1)
proof (induction xs arbitrary: s)
  case (Cons x xs)
  then show ?case using assms(2) keeps_orderly keeps_trans by (metis fold_simps(2))
qed (simp add: same_keeps)

text \<open>A job edits the positions of its list, one at a time; each is still as it was listed when its turn comes.\<close>

lemma fold_edits:
  assumes "orderly s" "distinct (map fp_ID ps)" "\<forall>p \<in> set ps. gm_get (pos_rows s) (fp_ID p) = Some p \<and> fp_Status p = ''open''"
    and "\<And>p t. orderly t \<Longrightarrow> gm_get (pos_rows t) (fp_ID p) = Some p \<Longrightarrow> fp_Status p = ''open'' \<Longrightarrow> edits (fp_ID p) t (f p t)"
  shows "keeps s (fold f ps s)"
  using assms(1-3)
proof (induction ps arbitrary: s)
  case (Cons p ps)
  have e: "edits (fp_ID p) s (f p s)" using assms(4) Cons.prems(1,3) by simp
  have "\<forall>q \<in> set ps. gm_get (pos_rows (f p s)) (fp_ID q) = Some q \<and> fp_Status q = ''open''"
  proof
    fix q
    assume q: "q \<in> set ps"
    then have "fp_ID q \<noteq> fp_ID p" using Cons.prems(2) by (metis distinct.simps(2) image_eqI list.set_map list.simps(9))
    then have "gm_get (pos_rows (f p s)) (fp_ID q) = gm_get (pos_rows s) (fp_ID q)" using e unfolding edits_def by blast
    then show "gm_get (pos_rows (f p s)) (fp_ID q) = Some q \<and> fp_Status q = ''open''" using Cons.prems(3) q by simp
  qed
  then have "keeps (f p s) (fold f ps (f p s))"
    using Cons.IH [of "f p s"] Cons.prems(2) keeps_orderly [OF edits_keeps [OF e]] by simp
  then show ?case using keeps_trans [OF edits_keeps [OF e]] by simp
qed (simp add: same_keeps)

lemma rows_distinct: "orderly s \<Longrightarrow> distinct (map fp_ID (map snd (pos_rows s)))"
proof -
  assume o: "orderly s"
  have eq: "map fp_ID (map snd (pos_rows s)) = map fst (pos_rows s)"
    using o unfolding orderly_def map_map by (intro map_cong) auto
  show ?thesis using o unfolding orderly_def eq by blast
qed

lemma each_open_keeps:
  assumes "orderly s"
    and "\<And>p t. orderly t \<Longrightarrow> gm_get (pos_rows t) (fp_ID p) = Some p \<Longrightarrow> fp_Status p = ''open'' \<Longrightarrow> edits (fp_ID p) t (f p t)"
  shows "keeps s (each_open f s)"
proof -
  obtain q s1 where q: "on_futs (\<lambda>e. e) fs_ListOpenPositions s = (q, s1)" by fastforce
  have t: "tame s s1" by (rule tame_reading(1) [OF reading_ops(3) q])
  have o: "orderly s1" by (rule tame_orderly [OF t assms(1)])
  have r: "in_pg s" "pos_rows s1 = pos_rows s" using t assms(1) by (simp_all add: orderly_def tame_def)
  show ?thesis
  proof (cases q)
    case (Inl e)
    then show ?thesis using q tame_keeps [OF t assms(1)] by (simp add: each_open_def)
  next
    case (Inr ps)
    have m: "mset ps = mset (filter (\<lambda>p. fp_Status p = ''open'') (map snd (pos_rows s1)))"
      using ListOpen_found q Inr r by simp
    then have "set ps = set (filter (\<lambda>p. fp_Status p = ''open'') (map snd (pos_rows s1)))" by (rule mset_eq_setD)
    then have "set ps = {p \<in> snd ` set (pos_rows s1). fp_Status p = ''open''}" by simp
    then have row: "\<forall>p \<in> set ps. gm_get (pos_rows s1) (fp_ID p) = Some p \<and> fp_Status p = ''open''"
      using orderly_row [OF o] by simp
    have "mset (map fp_ID ps) = mset (map fp_ID (filter (\<lambda>p. fp_Status p = ''open'') (map snd (pos_rows s1))))" using m by simp
    then have "distinct (map fp_ID ps)"
      using rows_distinct [OF o] distinct_map_filter mset_eq_imp_distinct_iff by blast
    from fold_edits [OF o this row assms(2)] have "keeps s1 (fold f ps s1)" .
    then show ?thesis using q Inr keeps_trans [OF tame_keeps [OF t assms(1)]] by (simp add: each_open_def)
  qed
qed

lemma check_liquidation_edits:
  assumes "orderly s" "gm_get (pos_rows s) (fp_ID p) = Some p" "fp_Status p = ''open''"
  shows "edits (fp_ID p) s (check_liquidation p s)"
proof -
  let ?mark = "liveMarkPrice (fp_Pair p) s"
  obtain gone s1 where g: "isLiquidated p ?mark s = (gone, s1)" by fastforce
  have t1: "tame s s1" using tame_isLiquidated [of s p ?mark] g by simp
  obtain r s2 where r: "settle_liquidation p s1 = (r, s2)" by fastforce
  have t: "tame s s2" using tame_trans [OF t1 settle_liquidation_tame [OF r]] .
  have o: "orderly s2" "gm_get (pos_rows s2) (fp_ID p) = Some p"
    using tame_orderly [OF t assms(1)] t assms by (simp_all add: orderly_def tame_def)
  have "edits (fp_ID p) s2 (ignored (fs_SavePosition (liquidated_pos p ?mark (fu_now s1))) s2)"
    using save_edits [OF o(1), of "liquidated_pos p ?mark (fu_now s1)" p] o(2) assms(3) by (simp add: liquidated_pos_def)
  then show ?thesis
    using g r tame_edits [OF t1 assms(1)] edits_trans [OF tame_edits [OF t assms(1)]] by (simp add: check_liquidation_def Let_def)
qed

lemma check_tpsl_edits:
  assumes "orderly s" "gm_get (pos_rows s) (fp_ID p) = Some p" "fp_Status p = ''open''"
  shows "edits (fp_ID p) s (check_tpsl p s)"
  using close_edits [OF assms] tame_edits [OF tame_refl assms(1)] by (simp add: check_tpsl_def Let_def)

lemma fund_edits:
  assumes "orderly s" "gm_get (pos_rows s) (fp_ID p) = Some p" "fp_Status p = ''open''"
  shows "edits (fp_ID p) s (fund p s)"
proof -
  let ?f = "funding_of p (liveMarkPrice (fp_Pair p) s)"
  let ?p = "\<lambda>t. p\<lparr>fp_Margin := bf_add new_float (fp_Margin p) ?f, fp_Mark := liveMarkPrice (fp_Pair p) s, fp_UpdatedAt := t\<rparr>"
  obtain r s1 where r: "settle_futures (fut_op (fp_UserID p) (fp_Pair p) None (Some ?f)) (Some (''ffund_'', FuturesFunding, ?f)) s = (r, s1)"
    by fastforce
  have t: "tame s s1" by (rule tame_settle [OF r])
  have o: "orderly s1" "gm_get (pos_rows s1) (fp_ID p) = Some p"
    using tame_orderly [OF t assms(1)] t assms by (simp_all add: orderly_def tame_def)
  have "edits (fp_ID p) s1 (ignored (fs_SavePosition (?p (fu_now s1))) s1)"
    using save_edits [OF o(1), of "?p (fu_now s1)" p] o(2) by simp
  then show ?thesis
    using r tame_edits [OF t assms(1)] tame_edits [OF tame_refl assms(1)] edits_trans [OF tame_edits [OF t assms(1)]]
    by (simp add: fund_def Let_def split: sum.split)
qed

lemma process_orders_keeps: "orderly s \<Longrightarrow> keeps s (fut_ProcessOrders s)"
proof -
  assume o: "orderly s"
  obtain q s1 where q: "on_futs (\<lambda>e. e) fs_ListOpenOrders s = (q, s1)" by fastforce
  have t: "tame s s1" by (rule tame_reading(1) [OF reading_ops(5) q])
  have k: "keeps s1 (fold process_order rs s1)" for rs by (rule fold_keeps [OF tame_orderly [OF t o] process_order_keeps])
  show ?thesis using q tame_keeps [OF t o] keeps_trans [OF tame_keeps [OF t o] k]
    by (auto simp: fut_ProcessOrders_def split: sum.split)
qed

section \<open>Runs\<close>

datatype fut_cmd = Open "string option" "openPositionReq option" | Close "string option" string
  | ClosePart "string option" string "string option" | MarginUp "string option" string "string option"
  | MarginDown "string option" string "string option" | Liquidate "string option" string
  | Order "string option" "createFuturesOrderReq option" | Cancel "string option" string
  | LiquidationJob | LevelJob | FundingJob | OrderJob

fun fut_exec :: "fut_cmd \<Rightarrow> fut \<Rightarrow> fut" where
  "fut_exec (Open u r) s = snd (OpenPosition u r s)"
| "fut_exec (Close u i) s = snd (ClosePosition u i s)"
| "fut_exec (ClosePart u i x) s = snd (ClosePositionPartial u i x s)"
| "fut_exec (MarginUp u i x) s = snd (AddMargin u i x s)"
| "fut_exec (MarginDown u i x) s = snd (ReduceMargin u i x s)"
| "fut_exec (Liquidate u i) s = snd (LiquidatePosition u i s)"
| "fut_exec (Order u r) s = snd (CreateOrder u r s)"
| "fut_exec (Cancel u i) s = snd (CancelOrder u i s)"
| "fut_exec LiquidationJob s = CheckLiquidations s"
| "fut_exec LevelJob s = CheckTPSL s"
| "fut_exec FundingJob s = ApplyFunding s"
| "fut_exec OrderJob s = fut_ProcessOrders s"

lemma exec_keeps: "orderly s \<Longrightarrow> keeps s (fut_exec c s)"
  by (cases c)
    (auto simp: CheckLiquidations_def CheckTPSL_def ApplyFunding_def same_keeps
      intro!: each_open_keeps check_liquidation_edits check_tpsl_edits fund_edits
      intro: OpenPosition_keeps CreateOrder_keeps CancelOrder_keeps process_orders_keeps edits_keeps ClosePosition_edits Partial_edits
        AddMargin_edits ReduceMargin_edits Liquidate_edits)

text \<open>A step: an operation, or anything that leaves the rows, the identifiers and their order alone (prices, time, the wallets, failures).\<close>

inductive fut_step :: "fut \<Rightarrow> fut \<Rightarrow> bool" where
  command: "fut_step s (fut_exec c s)"
| world: "pos_rows s' = pos_rows s \<Longrightarrow> in_pg s' = in_pg s \<Longrightarrow> fu_ids s' = fu_ids s \<Longrightarrow> fu_nid s' = fu_nid s \<Longrightarrow> fut_step s s'"

lemma fut_step_keeps: "fut_step s s' \<Longrightarrow> orderly s \<Longrightarrow> keeps s s'"
proof (induction rule: fut_step.induct)
  case (world s' s)
  then show ?case by (auto simp: keeps_def orderly_def)
qed (rule exec_keeps)

lemma fut_steps_keeps: "fut_step\<^sup>*\<^sup>* s s' \<Longrightarrow> orderly s \<Longrightarrow> keeps s s'"
proof (induction rule: rtranclp_induct)
  case (step s1 s2)
  then show ?case using keeps_trans fut_step_keeps keeps_orderly by blast
qed (rule same_keeps)

end
