(* ===== verification/Futures_Money.thy ===== *)
theory Futures_Money
  imports Futures_Positions Wallet_Properties
begin

text \<open>
  The money side of perpetual futures: balances and locks of the wallets behind the handlers, what reserving and settling do to
  them, and what one call of a handler does to its position and to the wallet of its owner.
\<close>

section \<open>Balances and locks\<close>

definition fut_bal :: "fut \<Rightarrow> wallet_key \<Rightarrow> rat" where
  "fut_bal s k = (case fu_wallet s of None \<Rightarrow> 0 | Some w \<Rightarrow> svc_bal w k)"

definition fut_lck :: "fut \<Rightarrow> wallet_key \<Rightarrow> rat" where
  "fut_lck s k = (case fu_wallet s of None \<Rightarrow> 0 | Some w \<Rightarrow> svc_lck w k)"

text \<open>A wallet service with a database behind it.\<close>

definition funded :: "fut \<Rightarrow> bool" where
  "funded s \<longleftrightarrow> (\<exists>w. fu_wallet s = Some w \<and> \<not> no_store w)"

text \<open>The wallet that pays for a position of a user in a pair.\<close>

definition margin_key :: "string \<Rightarrow> string \<Rightarrow> wallet_key" where
  "margin_key u pair = (u, quoteAsset pair, AccountFutures)"

abbreviation pos_key :: "fpos \<Rightarrow> wallet_key" where
  "pos_key p \<equiv> margin_key (fp_UserID p) (fp_Pair p)"

lemma fut_op_key [simp]: "op_key (fut_op u pair x y) = margin_key u pair"
  by (simp add: fut_op_def op_key_def NormalizeAccountType_def AccountFutures_def margin_key_def)

lemma fut_op_amounts [simp]:
  "dn (fut_op u pair x y) = (case y of None \<Rightarrow> 0 | Some d \<Rightarrow> numeric d)"
  "un (fut_op u pair x y) = (case x of None \<Rightarrow> 0 | Some d \<Rightarrow> numeric d)"
  by (simp_all add: fut_op_def dn_def un_def)

text \<open>The wallets agree.\<close>

definition same_funds :: "fut \<Rightarrow> fut \<Rightarrow> bool" where
  "same_funds s s' \<longleftrightarrow> fut_bal s' = fut_bal s \<and> fut_lck s' = fut_lck s \<and> (funded s \<longrightarrow> funded s')"

lemma same_fundsI: "fu_wallet s' = fu_wallet s \<Longrightarrow> same_funds s s'"
  by (simp add: same_funds_def fut_bal_def fut_lck_def funded_def fun_eq_iff)

lemma same_funds_trans: "same_funds s s1 \<Longrightarrow> same_funds s1 s2 \<Longrightarrow> same_funds s s2"
  by (simp add: same_funds_def)

lemma store_funds [simp]:
  "fu_wallet (ignored m s) = fu_wallet s" "fu_price (ignored m s) = fu_price s" "fu_now (ignored m s) = fu_now s"
  by (simp_all add: ignored_def)

lemma on_futs_funds: "on_futs f m s = (r, s') \<Longrightarrow> fu_wallet s' = fu_wallet s \<and> fu_price s' = fu_price s \<and> fu_now s' = fu_now s"
  by (auto simp: on_futs_def split: prod.splits sum.splits)

lemma on_db_store: "on_db m w = (r, v) \<Longrightarrow> \<not> no_store w \<Longrightarrow> \<not> no_store v"
  by (auto simp: on_db_def no_store_def split: option.splits prod.splits)

lemma unlocked_0 [simp]: "unlocked 0 l = l"
  by (simp add: unlocked_def)

section \<open>Settling and reserving\<close>

text \<open>The effect of one operation on the wallets.\<close>

definition moved :: "settle_op \<Rightarrow> fut \<Rightarrow> fut \<Rightarrow> bool" where
  "moved p s s' \<longleftrightarrow> fut_bal s' = (fut_bal s)(op_key p := fut_bal s (op_key p) + dn p) \<and>
     fut_lck s' = (fut_lck s)(op_key p := unlocked (un p) (fut_lck s (op_key p)))"

lemma svc_Settle_one:
  assumes "svc_Settle [p] ts w = (r, v)" "\<not> no_store w"
  shows "\<not> no_store v" "r = Inr () \<Longrightarrow> svc_bal v = (svc_bal w)(op_key p := svc_bal w (op_key p) + dn p) \<and>
      svc_lck v = (svc_lck w)(op_key p := unlocked (un p) (svc_lck w (op_key p)))"
    "isl r \<Longrightarrow> svc_bal v = svc_bal w \<and> svc_lck v = svc_lck w"
proof -
  have o: "on_db (pg_Settle [p] ts) w = (r, v)" using assms by (simp add: svc_Settle_def)
  show "\<not> no_store v" by (rule on_db_store [OF o assms(2)])
  show "svc_bal v = (svc_bal w)(op_key p := svc_bal w (op_key p) + dn p) \<and>
      svc_lck v = (svc_lck w)(op_key p := unlocked (un p) (svc_lck w (op_key p)))" if "r = Inr ()"
    using svc_ledger.settle_moves svc_ledger.settle_unlocks o that by (simp add: fun_eq_iff)
  show "svc_bal v = svc_bal w \<and> svc_lck v = svc_lck w" if "isl r"
    using svc_ledger.settle_fails o that by (cases r) simp_all
qed

lemma settle_funds:
  assumes "settle_futures p rec s = (r, s')" "funded s"
  shows "funded s'" "r = Inr () \<Longrightarrow> moved p s s'" "isl r \<Longrightarrow> same_funds s s'"
    "fu_store s' = fu_store s" "fu_price s' = fu_price s" "fu_now s' = fu_now s"
proof -
  from assms(2) obtain w where w: "fu_wallet s = Some w" "\<not> no_store w" by (auto simp: funded_def)
  obtain ts s1 where s1: "on_wallet (\<lambda>e. e) (svc_Settle [p] ts) w s1 = (r, s')" "fu_wallet s1 = fu_wallet s"
      "fu_store s1 = fu_store s" "fu_price s1 = fu_price s" "fu_now s1 = fu_now s"
    using assms(1) w by (auto simp: settle_futures_def fut_uuid_def Let_def split: option.splits prod.splits)
  obtain v where v: "svc_Settle [p] ts w = (r, v)" "s' = s1\<lparr>fu_wallet := Some v\<rparr>"
    using s1(1) by (auto simp: on_wallet_def split: prod.splits sum.splits)
  note m = svc_Settle_one [OF v(1) w(2)]
  have b: "fut_bal s' = svc_bal v" "fut_lck s' = svc_lck v" "fut_bal s = svc_bal w" "fut_lck s = svc_lck w"
    using v(2) w by (simp_all add: fut_bal_def fut_lck_def fun_eq_iff)
  show f: "funded s'" using m(1) v(2) by (simp add: funded_def)
  show "moved p s s'" if "r = Inr ()" using m(2) that b by (simp add: moved_def)
  show "same_funds s s'" if "isl r" using m(3) that b f by (simp add: same_funds_def)
  show "fu_store s' = fu_store s" "fu_price s' = fu_price s" "fu_now s' = fu_now s" using s1 v(2) by simp_all
qed

lemma reserve_funds:
  assumes "reserve_margin u a m s = (Inr (), s')" "funded s"
  defines "k \<equiv> (u, a, AccountFutures)"
  shows "funded s'" "0 < bval m" "numeric m \<le> fut_bal s k - fut_lck s k" "fut_bal s' = fut_bal s"
    "fut_lck s' = (fut_lck s)(k := fut_lck s k + numeric m)" "fu_store s' = fu_store s" "fu_price s' = fu_price s" "fu_now s' = fu_now s"
    "fu_ids s' = fu_ids s" "fu_nid s' = fu_nid s"
proof -
  have n: "NormalizeAccountType AccountFutures = AccountFutures" "ValidAccountType AccountFutures"
    by (simp_all add: NormalizeAccountType_def ValidAccountType_def AccountFutures_def)
  from assms(2) obtain w where w: "fu_wallet s = Some w" "\<not> no_store w" by (auto simp: funded_def)
  obtain x v where v: "svc_ReserveForAccount u a AccountFutures (Some m) w = (Inr x, v)" "s' = s\<lparr>fu_wallet := Some v\<rparr>"
    using assms(1) w by (auto simp: reserve_margin_def abind_def on_wallet_def ret_def split: prod.splits sum.splits)
  have pos: "0 < bval m" and o: "on_db (ReserveForAccount u a AccountFutures (Some m)) w = (Inr x, v)"
    using v(1) w(2) n by (auto simp: svc_ReserveForAccount_def Let_def bf_sign_def sgn_if split: if_splits)
  from o w obtain db db' where db: "ws_store w = Some db" "ReserveForAccount u a AccountFutures (Some m) db = (Inr x, db')"
      "v = w\<lparr>ws_store := Some db'\<rparr>" by (auto simp: on_db_def split: option.splits prod.splits)
  have r: "numeric m \<le> bal db k - lck db k" "bal db' = bal db" "lck db' = (lck db)(k := lck db k + numeric m)"
    using ReserveForAccount_money [OF db(2) pos] n by (simp_all add: k_def)
  have b: "fut_bal s' = bal db'" "fut_lck s' = lck db'" "fut_bal s = bal db" "fut_lck s = lck db"
    using v(2) w db by (simp_all add: fut_bal_def fut_lck_def svc_bal_def svc_lck_def fun_eq_iff)
  show "0 < bval m" by (rule pos)
  show "numeric m \<le> fut_bal s k - fut_lck s k" "fut_bal s' = fut_bal s" "fut_lck s' = (fut_lck s)(k := fut_lck s k + numeric m)"
    using r b by simp_all
  show "funded s'" "fu_store s' = fu_store s" "fu_price s' = fu_price s" "fu_now s' = fu_now s" "fu_ids s' = fu_ids s" "fu_nid s' = fu_nid s"
    using v(2) db by (simp_all add: funded_def no_store_def)
qed

section \<open>One call of a handler\<close>

lemma mapped_Inr: "mapped_err f m s = (Inr x, s') \<longleftrightarrow> m s = (Inr x, s')"
  by (auto simp: mapped_err_def split: prod.splits sum.splits)

text \<open>Loading the position reads the row of the user and uses up one statement.\<close>

lemma load_found:
  assumes "load_position (Some u) i ok bad s = (Inr p, s1)"
  shows "u \<noteq> []" "gm_get (pos_rows s) i = Some p" "fp_UserID p = u" "ok (fp_Status p)" "tame s s1" "same_funds s s1"
proof -
  from assms have l: "u \<noteq> []" "on_futs (\<lambda>_. PositionNotFound) (fs_GetPosition i u) s = (Inr p, s1)" "ok (fp_Status p)"
    by (auto simp: load_position_def currentUserID_def abind_Inr throw_def ret_def split: option.splits if_splits)
  show "u \<noteq> []" "ok (fp_Status p)" by (rule l)+
  show "gm_get (pos_rows s) i = Some p" "fp_UserID p = u" using GetPosition_found [OF l(2)] by simp_all
  show "tame s s1" by (rule tame_reading(1) [OF reading_ops(1) l(2)])
  show "same_funds s s1" using on_futs_funds [OF l(2)] by (simp add: same_fundsI)
qed

lemma tame_mark: "tame s s1 \<Longrightarrow> liveMarkPrice pair s1 = liveMarkPrice pair s"
  by (simp add: tame_def liveMarkPrice_def)

lemma amount_parsed: "positive_amount (Some txt) bad s = (Inr x, s1) \<Longrightarrow> parseBigFloat txt = Some x \<and> 0 < bval x \<and> s1 = s"
  by (auto simp: positive_amount_def throw_def ret_def bf_sign_def sgn_if split: if_splits option.splits)

text \<open>A save that succeeds has written its row; one that is ignored may not have, but writes nothing else.\<close>

lemma save_done:
  assumes "on_futs f (fs_SavePosition q) s = (Inr (), s')" "in_pg s"
  shows "in_pg s' \<and> pos_rows s' = put_pos q (pos_rows s)"
proof -
  from assms(2) obtain d where d: "fu_store s = PGFut d" by (auto simp: in_pg_def)
  obtain r t where rt: "fs_SavePosition q (PGFut d) = (r, t)" by fastforce
  from save_pg [OF rt] show ?thesis using assms(1) d rt
    by (auto simp: on_futs_def in_pg_def pos_rows_def split: sum.splits)
qed

lemma ignored_save_row:
  assumes "in_pg s" "gm_get (pos_rows s) (fp_ID q) = Some p"
  shows "gm_get (pos_rows (ignored (fs_SavePosition q) s)) (fp_ID q) \<in> {Some p, Some (upsert_pos q p)}"
proof -
  from assms(1) obtain d where d: "fu_store s = PGFut d" by (auto simp: in_pg_def)
  obtain r t where rt: "fs_SavePosition q (PGFut d) = (r, t)" by fastforce
  from save_pg [OF rt] show ?thesis using assms(2) d rt by (auto simp: ignored_def pos_rows_def put_pos_def)
qed

lemma close_effect:
  assumes "closePosition p mark s = (Inr q, s')" "in_pg s" "funded s"
  shows "q = closed_pos p mark (fu_now s)" "pos_rows s' = put_pos q (pos_rows s)"
    "moved (fut_op (fp_UserID p) (fp_Pair p) (Some (fp_Margin p)) (Some (fst (pnl_of p mark)))) s s'" "funded s'" "in_pg s'"
proof -
  define c where "c = closed_pos p mark (fu_now s)"
  let ?op = "fut_op (fp_UserID p) (fp_Pair p) (Some (fp_Margin p)) (Some (fp_PnL c))"
  from assms(1) obtain s1 s2 where s: "settle_futures ?op (Some (''fpnl_'', FuturesPnl, fp_PnL c)) s = (Inr (), s1)"
      "on_futs CloseSave (fs_SavePosition c) s1 = (Inr (), s2)" "q = c" "s' = s2"
    unfolding closePosition_def Let_def c_def [symmetric] by (auto simp: abind_Inr mapped_Inr ret_def)
  note f = settle_funds [OF s(1) assms(3)]
  have pg: "in_pg s1" "pos_rows s1 = pos_rows s" using f(4) assms(2) by (simp_all add: in_pg_def pos_rows_def)
  have m: "same_funds s1 s2" using on_futs_funds [OF s(2)] by (simp add: same_fundsI)
  show "q = closed_pos p mark (fu_now s)" using s(3) by (simp add: c_def)
  show "pos_rows s' = put_pos q (pos_rows s)" "in_pg s'" using save_done [OF s(2) pg(1)] s(3,4) pg(2) by simp_all
  have "fp_PnL c = fst (pnl_of p mark)" by (simp add: c_def closed_pos_def)
  then show "moved (fut_op (fp_UserID p) (fp_Pair p) (Some (fp_Margin p)) (Some (fst (pnl_of p mark)))) s s'"
    using f(2) m s(4) by (simp add: moved_def same_funds_def)
  show "funded s'" using m f(1) s(4) by (simp add: same_funds_def)
qed

text \<open>Asking for the balance of the account moves nothing.\<close>

lemma GetWallet_money: "GetWalletForAccount u a acct db = (r, db') \<Longrightarrow> same_money db db'"
  by (auto simp: GetWalletForAccount_def abind_def same_money_def throw_def ret_def Let_def
      elim!: stmt_cases split: prod.splits sum.splits option.splits)

lemma svc_GetBalance_money:
  assumes "svc_GetBalanceForAccount u a acct w = (r, v)"
  shows "svc_bal v = svc_bal w \<and> svc_lck v = svc_lck w \<and> (no_store v \<longleftrightarrow> no_store w)"
proof -
  have "v = w \<or> (\<exists>db db' q. ws_store w = Some db \<and> GetWalletForAccount u a (NormalizeAccountType acct) db = (q, db') \<and>
      v = w\<lparr>ws_store := Some db'\<rparr>)"
    using assms by (auto simp: svc_GetBalanceForAccount_def on_db_def split: if_splits option.splits prod.splits)
  then show ?thesis
    using GetWallet_money by (fastforce simp: svc_bal_def svc_lck_def no_store_def same_money_def fun_eq_iff)
qed

lemma isLiquidated_funds: "isLiquidated p mark s = (b, s') \<Longrightarrow> same_funds s s'"
proof -
  assume i: "isLiquidated p mark s = (b, s')"
  consider "s' = s" | w r where "fu_wallet s = Some w"
      "on_wallet (\<lambda>e. e) (svc_GetBalanceForAccount (fp_UserID p) (quoteAsset (fp_Pair p)) AccountFutures) w s = (r, s')"
    using i by (auto simp: isLiquidated_def Let_def split: if_splits option.splits prod.splits sum.splits)
  then show ?thesis
  proof cases
    case (2 w r)
    then obtain q v where "svc_GetBalanceForAccount (fp_UserID p) (quoteAsset (fp_Pair p)) AccountFutures w = (q, v)"
        "s' = s\<lparr>fu_wallet := Some v\<rparr>" by (auto simp: on_wallet_def split: prod.splits sum.splits)
    then show ?thesis using svc_GetBalance_money 2(1) by (simp add: same_funds_def fut_bal_def fut_lck_def funded_def fun_eq_iff)
  qed (simp add: same_fundsI)
qed

lemma isLiquidated_store: "isLiquidated p mark s = (b, s') \<Longrightarrow> fu_store s' = fu_store s"
  by (auto simp: isLiquidated_def on_wallet_def Let_def split: if_splits option.splits prod.splits sum.splits)

lemma settle_store: "settle_futures p rec s = (r, s') \<Longrightarrow> fu_store s' = fu_store s"
  by (auto simp: settle_futures_def on_wallet_def fut_uuid_def Let_def split: option.splits prod.splits sum.splits)

end
