(* ===== verification/Futures_Properties.thy ===== *)
theory Futures_Properties
  imports Futures_Money
begin

text \<open>
  What the holders of perpetual positions can rely on, and what they cannot: the terms of a position, the money that opening and closing
  move, partial closes, added margin, outages of the price feed, and the orders that wait for a price.
\<close>

section \<open>The terms of a position\<close>

text \<open>
  C11: What identifies a position never changes in the database, and its end is final. Over any run of handlers and jobs, whatever fails in between, from a state
  whose rows are stored under their own identifiers and whose new identifiers are unused, a row keeps its
  user, pair, side, margin mode and creation time, and a position that is not open any more keeps its status: it is not reopened, and a liquidated one is not closed.
\<close>

theorem position_terms_fixed:
  assumes "fut_step\<^sup>*\<^sup>* s s'" "orderly s" "gm_get (pos_rows s) i = Some p"
  shows "\<exists>p'. gm_get (pos_rows s') i = Some p' \<and> fp_UserID p' = fp_UserID p \<and> fp_Pair p' = fp_Pair p \<and> fp_Side p' = fp_Side p \<and>
    fp_MarginMode p' = fp_MarginMode p \<and> fp_CreatedAt p' = fp_CreatedAt p \<and> (fp_Status p \<noteq> ''open'' \<longrightarrow> fp_Status p' = fp_Status p)"
proof -
  from fut_steps_keeps [OF assms(1,2)] assms(3) obtain p' where "gm_get (pos_rows s') i = Some p'" "kept p p'"
    unfolding keeps_def by blast
  then show ?thesis by (auto simp: kept_def)
qed

text \<open>
  What should change does not: the row also keeps its quantity and its entry price, through partial closes, which are to reduce the quantity, and through merges,
  which are to increase it at an averaged price. The statement that saves a position leaves both columns out.
\<close>

theorem position_size_never_stored:
  assumes "fut_step\<^sup>*\<^sup>* s s'" "orderly s" "gm_get (pos_rows s) i = Some p"
  shows "\<exists>p'. gm_get (pos_rows s') i = Some p' \<and> fp_Qty p' = fp_Qty p \<and> fp_Entry p' = fp_Entry p"
proof -
  from fut_steps_keeps [OF assms(1,2)] assms(3) obtain p' where "gm_get (pos_rows s') i = Some p'" "kept p p'"
    unfolding keeps_def by blast
  then show ?thesis by (auto simp: kept_def)
qed

section \<open>Closing\<close>

text \<open>What a successful close does, with the unlock as the store makes it.\<close>

lemma close_result:
  assumes "ClosePosition (Some u) i s = (Inr q, s')" "orderly s" "funded s"
  shows "\<exists>p p'. gm_get (pos_rows s) i = Some p \<and> fp_UserID p = u \<and> fp_Status p = ''open'' \<and>
    q = closed_pos p (liveMarkPrice (fp_Pair p) s) (fu_now s) \<and> gm_get (pos_rows s') i = Some p' \<and> fp_Status p' = ''closed'' \<and>
    fut_bal s' = (fut_bal s)(pos_key p := fut_bal s (pos_key p) + numeric (fst (pnl_of p (liveMarkPrice (fp_Pair p) s)))) \<and>
    fut_lck s' = (fut_lck s)(pos_key p := unlocked (numeric (fp_Margin p)) (fut_lck s (pos_key p)))"
proof -
  from assms(1) obtain p s1 where p: "load_open (Some u) i s = (Inr p, s1)" "closePosition p (liveMarkPrice (fp_Pair p) s1) s1 = (Inr q, s')"
    by (auto simp: ClosePosition_def abind_Inr mapped_Inr)
  note l = load_found [OF p(1)]
  have pg: "in_pg s1" "pos_rows s1 = pos_rows s" "funded s1" "fu_now s1 = fu_now s"
    using l(5,6) assms(2,3) by (simp_all add: tame_def orderly_def same_funds_def)
  note c = close_effect [OF p(2) pg(1,3), unfolded tame_mark [OF l(5)] pg(2)]
  have id: "fp_ID q = i" using orderly_key [OF assms(2) l(2)] c(1) by (simp add: closed_pos_def)
  have "gm_get (pos_rows s') i = Some (upsert_pos q p)" using c(2) l(2) id by (simp add: put_pos_def)
  moreover have "fp_Status (upsert_pos q p) = ''closed''" using c(1) by (simp add: upsert_pos_def closed_pos_def)
  moreover have "fut_bal s1 = fut_bal s" "fut_lck s1 = fut_lck s" using l(6) by (simp_all add: same_funds_def)
  ultimately show ?thesis using l(2,3,4) c(1,3) pg(4) by (intro exI [of _ p] exI [of _ "upsert_pos q p"]) (simp add: moved_def)
qed

text \<open>
  C12: Closing a position settles it. In a state with a wallet service on a store and rows stored under their own identifiers, a close that succeeds was asked for by
  the owner of an open position; it moves the balance of the
  futures wallet by the profit at the mark price, touches no other wallet, and leaves the row closed. It unlocks the margin of the position when at least that
  much is locked in the wallet; when less is locked (margin was added, or funding credited), it unlocks nothing: \<open>added_margin_stays_locked\<close>.
\<close>

theorem close_settles:
  assumes "ClosePosition (Some u) i s = (Inr q, s')" "orderly s" "funded s"
  shows "\<exists>p p'. gm_get (pos_rows s) i = Some p \<and> fp_UserID p = u \<and> fp_Status p = ''open'' \<and>
    q = closed_pos p (liveMarkPrice (fp_Pair p) s) (fu_now s) \<and> gm_get (pos_rows s') i = Some p' \<and> fp_Status p' = ''closed'' \<and>
    fut_bal s' = (fut_bal s)(pos_key p := fut_bal s (pos_key p) + numeric (fst (pnl_of p (liveMarkPrice (fp_Pair p) s)))) \<and>
    fut_lck s' = (fut_lck s)(pos_key p := if numeric (fp_Margin p) \<le> fut_lck s (pos_key p) then fut_lck s (pos_key p) - numeric (fp_Margin p)
      else fut_lck s (pos_key p))"
  using close_result [OF assms] unfolding unlocked_def .

section \<open>Partial closes\<close>

lemma partial_effect:
  assumes "ClosePositionPartial (Some u) i (Some txt) s = (Inr q, s')" "orderly s" "funded s" "gm_get (pos_rows s) i = Some p"
    and "parseBigFloat txt = Some x" "bf_cmp x (fp_Qty p) \<noteq> 0"
  shows "orderly s'" "funded s'" "tame s (s'\<lparr>fu_store := fu_store s\<rparr>)"
    "\<exists>p'. gm_get (pos_rows s') i = Some p' \<and> fp_Qty p' = fp_Qty p \<and> fp_Entry p' = fp_Entry p \<and> fp_Side p' = fp_Side p \<and>
       fp_UserID p' = fp_UserID p \<and> fp_Pair p' = fp_Pair p"
    "fut_bal s' (pos_key p) = fut_bal s (pos_key p) + numeric (snd (partial_share p x (liveMarkPrice (fp_Pair p) s)))"
proof -
  from assms(1) obtain p0 s1 s1' y where p0: "load_open (Some u) i s = (Inr p0, s1)" "positive_amount (Some txt) BadQuantity s1 = (Inr y, s1')"
    by (auto simp: ClosePositionPartial_def abind_Inr)
  note l = load_found [OF p0(1)]
  have e: "p0 = p" "y = x" "s1' = s1" using l(2) assms(4,5) amount_parsed [OF p0(2)] by simp_all
  have pg: "in_pg s1" "pos_rows s1 = pos_rows s" "funded s1" "orderly s1"
    using l(5,6) assms(2,3) tame_orderly [OF l(5)] by (simp_all add: tame_def orderly_def same_funds_def)
  let ?mark = "liveMarkPrice (fp_Pair p) s"
  obtain cm cp where c: "partial_share p x ?mark = (cm, cp)" by fastforce
  from assms(1) p0 e c tame_mark [OF l(5)] assms(6) obtain s2 where s2:
      "settle_futures (fut_op (fp_UserID p) (fp_Pair p) (Some cm) (Some cp)) (Some (''fpnl_'', FuturesPnl, cp)) s1 = (Inr (), s2)"
      "s' = ignored (fs_SavePosition (reduced_pos p x cm ?mark (fu_now s2))) s2"
    by (auto simp: ClosePositionPartial_def abind_Inr mapped_Inr Let_def split: if_splits)
  note f = settle_funds [OF s2(1) pg(3)]
  have k: "keeps s s'" using Partial_edits [OF assms(2), of i "Some u" "Some txt"] assms(1) by (simp add: edits_def)
  then show "orderly s'" by (rule keeps_orderly)
  from k assms(4) obtain p' where "gm_get (pos_rows s') i = Some p'" "kept p p'" unfolding keeps_def by blast
  then show "\<exists>p'. gm_get (pos_rows s') i = Some p' \<and> fp_Qty p' = fp_Qty p \<and> fp_Entry p' = fp_Entry p \<and> fp_Side p' = fp_Side p \<and>
      fp_UserID p' = fp_UserID p \<and> fp_Pair p' = fp_Pair p" by (auto simp: kept_def)
  have w: "same_funds s2 s'" using s2(2) by (simp add: same_fundsI)
  then show "funded s'" using f(1) by (simp add: same_funds_def)
  have b: "fut_bal s1 = fut_bal s" using l(6) by (simp add: same_funds_def)
  show "fut_bal s' (pos_key p) = fut_bal s (pos_key p) + numeric (snd (partial_share p x ?mark))"
    using f(2) w b c by (simp add: same_funds_def moved_def)
  have "tame s1 s2" by (rule tame_settle [OF s2(1)])
  then show "tame s (s'\<lparr>fu_store := fu_store s\<rparr>)" using l(5) s2(2)
    by (simp add: tame_def in_pg_def pos_rows_def ignored_def)
qed

lemma share_kept:
  "fp_Qty p' = fp_Qty p \<Longrightarrow> fp_Entry p' = fp_Entry p \<Longrightarrow> fp_Side p' = fp_Side p \<Longrightarrow>
    snd (partial_share p' x m) = snd (partial_share p x m)"
  by (simp add: partial_share_def pnl_of_def calcFuturesPnL_def Let_def)

text \<open>
  A partial close can be repeated without end. The quantity that a partial close leaves is not written, so the row keeps the quantity
  it was opened with, and each of \<open>n\<close> successful partial closes of the same amount pays the same share of the full profit.
\<close>

theorem partial_close_repeats:
  assumes "orderly (f 0)" "funded (f 0)" "gm_get (pos_rows (f 0)) i = Some p"
    and "parseBigFloat txt = Some x" "bf_cmp x (fp_Qty p) \<noteq> 0"
    and "\<forall>k < n. \<exists>q. ClosePositionPartial (Some u) i (Some txt) (f k) = (Inr q, f (Suc k))"
  shows "\<exists>p'. gm_get (pos_rows (f n)) i = Some p' \<and> fp_Qty p' = fp_Qty p \<and>
    fut_bal (f n) (pos_key p) = fut_bal (f 0) (pos_key p) + of_nat n * numeric (snd (partial_share p x (liveMarkPrice (fp_Pair p) (f 0))))"
proof -
  define v where "v = numeric (snd (partial_share p x (liveMarkPrice (fp_Pair p) (f 0))))"
  have "m \<le> n \<Longrightarrow> orderly (f m) \<and> funded (f m) \<and> fu_price (f m) = fu_price (f 0) \<and>
      fut_bal (f m) (pos_key p) = fut_bal (f 0) (pos_key p) + of_nat m * v \<and>
      (\<exists>p'. gm_get (pos_rows (f m)) i = Some p' \<and> fp_Qty p' = fp_Qty p \<and> fp_Entry p' = fp_Entry p \<and> fp_Side p' = fp_Side p \<and>
        fp_UserID p' = fp_UserID p \<and> fp_Pair p' = fp_Pair p)" for m
  proof (induction m)
    case (Suc m)
    then obtain p1 where ih: "orderly (f m)" "funded (f m)" "fu_price (f m) = fu_price (f 0)"
        "fut_bal (f m) (pos_key p) = fut_bal (f 0) (pos_key p) + of_nat m * v" "gm_get (pos_rows (f m)) i = Some p1"
        "fp_Qty p1 = fp_Qty p" "fp_Entry p1 = fp_Entry p" "fp_Side p1 = fp_Side p" "fp_UserID p1 = fp_UserID p" "fp_Pair p1 = fp_Pair p"
      by auto
    from assms(6) Suc.prems obtain q where q: "ClosePositionPartial (Some u) i (Some txt) (f m) = (Inr q, f (Suc m))" using Suc_le_lessD by blast
    have ne: "bf_cmp x (fp_Qty p1) \<noteq> 0" using assms(5) ih(6) by simp
    note e = partial_effect [OF q ih(1,2,5) assms(4) ne]
    have "liveMarkPrice (fp_Pair p1) (f m) = liveMarkPrice (fp_Pair p) (f 0)" using ih(3,10) by (simp add: liveMarkPrice_def)
    then have "numeric (snd (partial_share p1 x (liveMarkPrice (fp_Pair p1) (f m)))) = v"
      using share_kept [OF ih(6-8)] by (simp add: v_def)
    then have "fut_bal (f (Suc m)) (pos_key p) = fut_bal (f 0) (pos_key p) + of_nat (Suc m) * v"
      using e(5) ih by (simp add: field_simps)
    moreover have "fu_price (f (Suc m)) = fu_price (f 0)" using e(3) ih(3) by (simp add: tame_def)
    ultimately show ?case using e(1,2,4) ih(6-10) by auto
  qed (use assms in auto)
  then show ?thesis unfolding v_def by blast
qed

section \<open>Opening\<close>

lemma OpenPosition_checked:
  assumes "OpenPosition uid (Some r) s = (Inr x, s')"
  obtains u side qty where "uid = Some u" "u \<noteq> []" "parseFuturesSide (op_Side r) = Some side" "0 < op_Leverage r" "op_Leverage r \<le> 125"
    "parseBigFloat (op_Quantity r) = Some qty" "0 < bval qty" "open_checked u side qty r s = (Inr x, s')"
  using assms
  by (auto simp: OpenPosition_def currentUserID_def throw_def bf_sign_def sgn_if split: option.splits if_splits)

lemma fresh_effect:
  assumes "open_fresh None mark new s = (Inr p, s')" "orderly s" "funded s" "\<And>i t. fp_ID (new i t) = i"
    and "\<And>i t. fp_UserID (new i t) = u" "\<And>i t. fp_Pair (new i t) = pair" "\<And>i t. fp_Margin (new i t) = m"
  defines "k \<equiv> margin_key u pair"
  shows "\<exists>i. p = new i (fu_now s) \<and> gm_get (pos_rows s) i = None \<and> gm_get (pos_rows s') i \<in> {None, Some (stored_pos p)} \<and>
    numeric m \<le> fut_bal s k - fut_lck s k \<and> fut_bal s' = fut_bal s \<and> fut_lck s' = (fut_lck s)(k := fut_lck s k + numeric m)"
    and "funded s'" "fu_price s' = fu_price s"
proof -
  from assms(1,5-7) obtain s1 where s1: "reserve_margin u (quoteAsset pair) m s = (Inr (), s1)"
      "p = new (fu_ids s1 (fu_nid s1)) (fu_now s1)" "s' = ignored (fs_SavePosition p) (s1\<lparr>fu_nid := Suc (fu_nid s1)\<rparr>)"
    by (auto simp: open_fresh_def make_room_def abind_Inr mapped_Inr ret_def fut_uuid_def Let_def)
  note f = reserve_funds [OF s1(1) assms(3), folded margin_key_def, folded k_def]
  let ?i = "fu_ids s (fu_nid s)"
  have p: "p = new ?i (fu_now s)" using s1(2) f by simp
  have none: "gm_get (pos_rows s) ?i = None" using assms(2) by (simp add: orderly_def)
  let ?s = "s1\<lparr>fu_nid := Suc (fu_nid s1)\<rparr>"
  have pg: "pos_rows ?s = pos_rows s" "in_pg ?s" using f(6) assms(2) by (simp_all add: pos_rows_def in_pg_def orderly_def)
  then obtain d where d: "fu_store ?s = PGFut d" unfolding in_pg_def by blast
  obtain q t where qt: "fs_SavePosition p (PGFut d) = (q, t)" by fastforce
  have "gm_get (pos_rows s') ?i \<in> {None, Some (stored_pos p)}"
    using save_pg [OF qt] d qt none p assms(4) pg(1) s1(3) by (auto simp: ignored_def pos_rows_def put_pos_def)
  moreover have "same_funds s1 s'" using s1(3) by (simp add: same_fundsI)
  ultimately show "\<exists>i. p = new i (fu_now s) \<and> gm_get (pos_rows s) i = None \<and> gm_get (pos_rows s') i \<in> {None, Some (stored_pos p)} \<and>
      numeric m \<le> fut_bal s k - fut_lck s k \<and> fut_bal s' = fut_bal s \<and> fut_lck s' = (fut_lck s)(k := fut_lck s k + numeric m)"
    and "funded s'"
    using p none f(1,3,4,5) by (auto simp: same_funds_def)
  show "fu_price s' = fu_price s" using s1(3) f(7) by simp
qed

text \<open>The entry price of an order to open: the one it names, or the mark price.\<close>

definition entry_price :: "openPositionReq \<Rightarrow> fut \<Rightarrow> bf" where
  "entry_price r s = (case positive_price (op_Price r) None of Some p \<Rightarrow> p | None \<Rightarrow> liveMarkPrice (op_Pair r) s)"

lemma open_effect:
  assumes "OpenPosition (Some u) (Some r) s = (Inr (p, merged), s')" "orderly s" "funded s" "fst (netPosition u (op_Pair r) s) = None"
  shows "\<not> merged \<and> fp_UserID p = u \<and> fp_Pair p = op_Pair r \<and> fp_Status p = ''open'' \<and> 1 \<le> fp_Leverage p \<and> fp_Leverage p \<le> 125 \<and>
    parseFuturesSide (op_Side r) = Some (fp_Side p) \<and> parseBigFloat (op_Quantity r) = Some (fp_Qty p) \<and>
    fp_Entry p = entry_price r s \<and> fp_Margin p = calcMargin (entry_price r s) (fp_Qty p) (fp_Leverage p) \<and>
    gm_get (pos_rows s) (fp_ID p) = None \<and> gm_get (pos_rows s') (fp_ID p) \<in> {None, Some (stored_pos p)} \<and>
    numeric (fp_Margin p) \<le> fut_bal s (pos_key p) - fut_lck s (pos_key p) \<and> fut_bal s' = fut_bal s \<and>
    fut_lck s' = (fut_lck s)(pos_key p := fut_lck s (pos_key p) + numeric (fp_Margin p))"
    and "funded s'" "fu_price s' = fu_price s"
proof -
  from OpenPosition_checked [OF assms(1)] obtain side qty where c: "parseFuturesSide (op_Side r) = Some side" "0 < op_Leverage r"
      "op_Leverage r \<le> 125" "parseBigFloat (op_Quantity r) = Some qty" "open_checked u side qty r s = (Inr (p, merged), s')" by (metis option.inject)
  from assms(4) obtain s1 where n: "netPosition u (op_Pair r) s = (None, s1)" by (metis prod.collapse)
  have t: "tame s s1" by (rule tame_net [OF n])
  have w: "fu_wallet s1 = fu_wallet s"
    using n by (auto simp: netPosition_def split: prod.splits sum.splits dest: on_futs_funds)
  have o: "orderly s1" "funded s1" "same_funds s s1" using tame_orderly [OF t assms(2)] assms(3) w by (simp_all add: funded_def same_fundsI)
  have same: "pos_rows s1 = pos_rows s" "fu_now s1 = fu_now s" "fu_price s1 = fu_price s" using t assms(2) by (simp_all add: tame_def orderly_def)
  let ?e = "entry_price r s" and ?mark = "liveMarkPrice (op_Pair r) s"
  let ?m = "calcMargin ?e qty (op_Leverage r)"
  let ?new = "\<lambda>i. new_position i u (op_Pair r) side (op_Leverage r) (op_MarginMode r) ?e ?mark qty ?m (calcFuturesPnL side ?e ?mark qty ?m)
     (positive_price (op_TPPrice r) None) (positive_price (op_SLPrice r) None)"
  from c(5) have op: "open_fresh None ?mark ?new s1 = (Inr p, s')" and nm: "\<not> merged"
    by (auto simp: open_checked_def n Let_def abind_Inr mapped_Inr ret_def simp flip: entry_price_def)
  have f: "fp_ID (?new i t) = i" "fp_UserID (?new i t) = u" "fp_Pair (?new i t) = op_Pair r" "fp_Margin (?new i t) = ?m" for i t
    by (simp_all add: new_position_def)
  note e = fresh_effect [OF op o(1,2) f]
  from e(1) obtain i where i: "p = ?new i (fu_now s)" "gm_get (pos_rows s) i = None" "gm_get (pos_rows s') i \<in> {None, Some (stored_pos p)}"
      "numeric ?m \<le> fut_bal s (margin_key u (op_Pair r)) - fut_lck s (margin_key u (op_Pair r))" "fut_bal s' = fut_bal s"
      "fut_lck s' = (fut_lck s)(margin_key u (op_Pair r) := fut_lck s (margin_key u (op_Pair r)) + numeric ?m)"
    using o(3) same by (auto simp: same_funds_def)
  have p: "fp_ID p = i" "fp_UserID p = u" "fp_Pair p = op_Pair r" "fp_Margin p = ?m" "fp_Status p = ''open''" "fp_Leverage p = op_Leverage r"
      "fp_Side p = side" "fp_Qty p = qty" "fp_Entry p = ?e"
    by (simp_all add: i(1) new_position_def)
  show "\<not> merged \<and> fp_UserID p = u \<and> fp_Pair p = op_Pair r \<and> fp_Status p = ''open'' \<and> 1 \<le> fp_Leverage p \<and> fp_Leverage p \<le> 125 \<and>
    parseFuturesSide (op_Side r) = Some (fp_Side p) \<and> parseBigFloat (op_Quantity r) = Some (fp_Qty p) \<and>
    fp_Entry p = entry_price r s \<and> fp_Margin p = calcMargin (entry_price r s) (fp_Qty p) (fp_Leverage p) \<and>
    gm_get (pos_rows s) (fp_ID p) = None \<and> gm_get (pos_rows s') (fp_ID p) \<in> {None, Some (stored_pos p)} \<and>
    numeric (fp_Margin p) \<le> fut_bal s (pos_key p) - fut_lck s (pos_key p) \<and> fut_bal s' = fut_bal s \<and>
    fut_lck s' = (fut_lck s)(pos_key p := fut_lck s (pos_key p) + numeric (fp_Margin p))"
    using p i(2-6) nm c(1-4) by simp
  show "funded s'" "fu_price s' = fu_price s" using e(2,3) same by simp_all
qed

text \<open>
  C33: Opening a position locks its margin. When the user has no open position in the pair, an order to open that succeeds answers with a
  position of the user under a fresh id, with a leverage from 1 to 125 and with the margin of its terms. That margin was free in the futures
  wallet and is now locked there; no balance moves.
\<close>

theorem open_locks_margin:
  assumes "OpenPosition (Some u) (Some r) s = (Inr (p, merged), s')" "orderly s" "funded s" "fst (netPosition u (op_Pair r) s) = None"
  shows "\<not> merged \<and> fp_UserID p = u \<and> fp_Status p = ''open'' \<and> gm_get (pos_rows s) (fp_ID p) = None \<and>
    1 \<le> fp_Leverage p \<and> fp_Leverage p \<le> 125 \<and> fp_Margin p = calcMargin (entry_price r s) (fp_Qty p) (fp_Leverage p) \<and>
    numeric (fp_Margin p) \<le> fut_bal s (pos_key p) - fut_lck s (pos_key p) \<and> fut_bal s' = fut_bal s \<and>
    fut_lck s' = (fut_lck s)(pos_key p := fut_lck s (pos_key p) + numeric (fp_Margin p))"
  using open_effect(1) [OF assms] by blast

text \<open>
  The user names the price. A position that is opened at a price of the request's own choosing and closed again, without any move of
  the market, changes the balance by the full difference between the mark price and the named price, whatever that is.
\<close>

theorem named_price_pays:
  assumes "OpenPosition (Some u) (Some r) s = (Inr (p, merged), s1)" "orderly s" "funded s" "fst (netPosition u (op_Pair r) s) = None"
    and "positive_price (op_Price r) None = Some e" "ClosePosition (Some u) (fp_ID p) s1 = (Inr q, s2)"
  shows "fut_bal s2 (pos_key p) = fut_bal s (pos_key p) +
    numeric (fst (calcFuturesPnL (fp_Side p) (column e) (liveMarkPrice (op_Pair r) s) (column (fp_Qty p)) (column (fp_Margin p))))"
proof -
  note o = open_effect [OF assms(1-4)]
  have s1: "orderly s1" using keeps_orderly [OF OpenPosition_keeps [OF assms(2), of "Some u" "Some r"]] assms(1) by simp
  from close_result [OF assms(6) s1 o(2)] obtain p1 where p1: "gm_get (pos_rows s1) (fp_ID p) = Some p1"
      "fut_bal s2 = (fut_bal s1)(pos_key p1 := fut_bal s1 (pos_key p1) + numeric (fst (pnl_of p1 (liveMarkPrice (fp_Pair p1) s1))))" by blast
  have eq: "p1 = stored_pos p" using o(1) p1(1) by auto
  have e: "fp_Entry p = e" using o(1) assms(5) by (simp add: entry_price_def)
  have "pos_key p1 = pos_key p" "liveMarkPrice (fp_Pair p1) s1 = liveMarkPrice (op_Pair r) s"
    using o(1,3) by (simp_all add: eq stored_pos_def liveMarkPrice_def)
  then show ?thesis using p1(2) o(1) e by (simp add: eq stored_pos_def pnl_of_def)
qed

section \<open>Margin\<close>

text \<open>
  Added margin is lost. It is taken from the balance but not locked, so the close of the position tries to unlock more than the position
  has locked, which unlocks nothing: after it, all that was locked is still locked, and nothing is left that would unlock it.
\<close>

theorem added_margin_stays_locked:
  assumes "AddMargin (Some u) i (Some txt) s = (Inr p1, s1)" "ClosePosition (Some u) i s1 = (Inr q, s2)" "orderly s" "funded s"
    and "gm_get (pos_rows s) i = Some p" "gm_get (pos_rows s1) i = Some p'" "fut_lck s (pos_key p) < numeric (fp_Margin p')"
  shows "fut_lck s2 (pos_key p) = fut_lck s (pos_key p) \<and> (\<exists>amt. parseBigFloat txt = Some amt \<and>
    fut_bal s2 (pos_key p) = fut_bal s (pos_key p) - numeric amt + numeric (fst (pnl_of p' (liveMarkPrice (fp_Pair p) s))))"
proof -
  from assms(1) obtain p0 t1 t1' y where p0: "load_open (Some u) i s = (Inr p0, t1)" "positive_amount (Some txt) BadAmount t1 = (Inr y, t1')"
    by (auto simp: AddMargin_def abind_Inr)
  note l = load_found [OF p0(1)]
  have e: "p0 = p" "parseBigFloat txt = Some y" "t1' = t1" using l(2) assms(5) amount_parsed [OF p0(2)] by simp_all
  have fu: "funded t1" using l(6) assms(4) by (simp add: same_funds_def)
  from assms(1) p0 e obtain t2 where t2:
      "settle_futures (fut_op (fp_UserID p) (fp_Pair p) None (Some (bf_neg new_float y))) None t1 = (Inr (), t2)"
      "fu_wallet s1 = fu_wallet t2" "fu_price s1 = fu_price t2"
    by (auto simp: AddMargin_def abind_Inr mapped_Inr Let_def split: option.splits)
  note f = settle_funds [OF t2(1) fu]
  have w: "same_funds t2 s1" using t2(2) by (rule same_fundsI)
  have b: "fut_bal s1 (pos_key p) = fut_bal s (pos_key p) - numeric y" "fut_lck s1 = fut_lck s" "funded s1"
    using f(1,2) w l(6) by (simp_all add: same_funds_def moved_def)
  have k: "keeps s s1" using AddMargin_edits [OF assms(3), of i "Some u" "Some txt"] assms(1) by (simp add: edits_def)
  have kp: "kept p p'" using k assms(5,6) unfolding keeps_def by fastforce
  from close_result [OF assms(2) keeps_orderly [OF k] b(3)] assms(6) have c:
      "fut_bal s2 = (fut_bal s1)(pos_key p' := fut_bal s1 (pos_key p') + numeric (fst (pnl_of p' (liveMarkPrice (fp_Pair p') s1))))"
      "fut_lck s2 = (fut_lck s1)(pos_key p' := unlocked (numeric (fp_Margin p')) (fut_lck s1 (pos_key p')))" by auto
  have key: "fp_Pair p' = fp_Pair p" "fp_UserID p' = fp_UserID p" using kp by (simp_all add: kept_def)
  have "liveMarkPrice (fp_Pair p') s1 = liveMarkPrice (fp_Pair p) s"
    using key t2(3) f(5) l(5) by (simp add: liveMarkPrice_def tame_def)
  then show ?thesis using c key b e(2) assms(7) by (auto simp: unlocked_def)
qed

text \<open>
  Margin that was taken is paid out. Reducing the margin asks only that the position is not closed, and the row of a liquidated
  position still names its margin: the owner of a liquidated position whose reduction succeeds is paid the amount, and no lock changes.
\<close>

theorem liquidated_margin_paid_out:
  assumes "ReduceMargin (Some u) i (Some txt) s = (Inr q, s')" "orderly s" "funded s"
    and "gm_get (pos_rows s) i = Some p" "fp_Status p = ''liquidated''" "parseBigFloat txt = Some amt"
  shows "fut_bal s' = (fut_bal s)(pos_key p := fut_bal s (pos_key p) + numeric amt) \<and> fut_lck s' = fut_lck s \<and> 0 < bval amt \<and>
    (\<exists>p'. gm_get (pos_rows s') i = Some p' \<and> fp_Status p' = ''liquidated'')"
proof -
  from assms(1) obtain p0 t1 t1' y where p0: "load_position (Some u) i (\<lambda>st. st \<noteq> ''closed'') PositionClosed s = (Inr p0, t1)"
      "positive_amount (Some txt) BadAmount t1 = (Inr y, t1')"
    by (auto simp: ReduceMargin_def abind_Inr)
  note l = load_found [OF p0(1)]
  have e: "p0 = p" "y = amt" "t1' = t1" "0 < bval amt" using l(2) assms(4,6) amount_parsed [OF p0(2)] by simp_all
  let ?mark = "liveMarkPrice (fp_Pair p) t1"
  obtain gone t2 where g: "isLiquidated (p\<lparr>fp_Margin := bf_sub new_float (fp_Margin p) amt\<rparr>) ?mark t1 = (gone, t2)" by fastforce
  from assms(1) p0 e g obtain t3 where t3:
      "settle_futures (fut_op (fp_UserID p) (fp_Pair p) None (Some amt)) None t2 = (Inr (), t3)" "fu_wallet s' = fu_wallet t3"
    by (auto simp: ReduceMargin_def abind_Inr mapped_Inr Let_def split: option.splits if_splits)
  have gf: "same_funds t1 t2" using g by (rule isLiquidated_funds)
  have fu: "funded t2" using gf l(6) assms(3) by (simp add: same_funds_def)
  note f = settle_funds [OF t3(1) fu]
  have w: "same_funds t3 s'" using t3(2) by (rule same_fundsI)
  have k: "keeps s s'" using ReduceMargin_edits [OF assms(2), of i "Some u" "Some txt"] assms(1) by (simp add: edits_def)
  then obtain p' where "gm_get (pos_rows s') i = Some p'" "kept p p'" using assms(4) unfolding keeps_def by blast
  then have "\<exists>p'. gm_get (pos_rows s') i = Some p' \<and> fp_Status p' = ''liquidated''" using assms(5) by (auto simp: kept_def)
  then show ?thesis using f(2) w gf l(6) e(4) by (simp add: same_funds_def moved_def)
qed

section \<open>An outage of the price feed\<close>

text \<open>The amounts of a row as they are read from the table.\<close>

definition as_read :: "fpos \<Rightarrow> bool" where
  "as_read p \<longleftrightarrow> (\<exists>e q m. fp_Entry p = read_numeric e \<and> fp_Qty p = read_numeric q \<and> fp_Margin p = read_numeric m)"

text \<open>A long position whose margin is not above its notional.\<close>

definition backed_long :: "fpos \<Rightarrow> bool" where
  "backed_long p \<longleftrightarrow> as_read p \<and> fp_Side p = ''long'' \<and> fp_MarginMode p = ''isolated'' \<and> 0 \<le> bval (fp_Entry p) \<and> 0 \<le> bval (fp_Qty p) \<and>
     bval (fp_Margin p) \<le> bval (fp_Entry p) * bval (fp_Qty p)"

lemma gone_at_zero:
  assumes "backed_long p"
  shows "isLiquidated p (NewFloat 0) s = (True, s)"
proof -
  from assms obtain e q m where r: "fp_Entry p = read_numeric e" "fp_Qty p = read_numeric q" "fp_Margin p = read_numeric m"
    by (auto simp: backed_long_def as_read_def)
  let ?e = "fround 64 e" and ?q = "fround 64 q" and ?m = "fround 64 m"
  have b: "?m \<le> ?e * ?q" "0 \<le> ?e * ?q" using assms r by (simp_all add: backed_long_def read_numeric_def)
  have z: "NewFloat 0 = BF 53 0" by (simp add: NewFloat_def)
  have pnl: "fst (pnl_of p (BF 53 0)) = BF 64 (- fround 64 (?e * ?q))"
    using assms by (simp add: pnl_of_def calcFuturesPnL_def Let_def backed_long_def r read_numeric_def bf_sub_def bf_mul_def res_prec_def
        fround_minus)
  have "?m \<le> fround 64 (?e * ?q)" using fround_mono [OF b(1), of 64] by simp
  then have rem: "bval (bf_add new_float (fp_Margin p) (fst (pnl_of p (BF 53 0)))) \<le> 0"
    using fround_mono [of "?m - fround 64 (?e * ?q)" 0 64] by (simp add: pnl r(3) read_numeric_def bf_add_def res_prec_def)
  have "0 \<le> bval (let n = bf_mul new_float (fp_Entry p) (fp_Qty p) in bf_mul n n (NewFloat maintenance))"
    using b(2) by (simp add: r read_numeric_def bf_mul_def res_prec_def NewFloat_def maintenance_def Let_def fround_nonneg)
  then show ?thesis using rem assms by (simp add: isLiquidated_def z Let_def backed_long_def bf_cmp_def)
qed

text \<open>A database that answers every statement.\<close>

definition answering :: "fut \<Rightarrow> bool" where
  "answering s \<longleftrightarrow> (\<exists>d. fu_store s = PGFut d \<and> pf_faults d = [])"

lemma answering_save:
  assumes "answering s"
  shows "answering (ignored (fs_SavePosition q) s)" "pos_rows (ignored (fs_SavePosition q) s) = put_pos q (pos_rows s)"
  using assms by (auto simp: answering_def ignored_def fs_SavePosition_def pf_SavePosition_def pf_stmt_def pos_rows_def put_pos_def)

lemma answering_store: "fu_store s' = fu_store s \<Longrightarrow> answering s' = answering s \<and> pos_rows s' = pos_rows s"
  by (simp add: answering_def pos_rows_def)

lemma check_answering: "answering s \<Longrightarrow> answering (check_liquidation p s)"
proof -
  assume a: "answering s"
  obtain b s1 where i: "isLiquidated p (liveMarkPrice (fp_Pair p) s) s = (b, s1)" by fastforce
  obtain r s2 where r: "settle_liquidation p s1 = (r, s2)" by fastforce
  have "answering s1" using a answering_store [OF isLiquidated_store [OF i]] by simp
  moreover from this have "answering s2" using answering_store [OF settle_store [OF r [unfolded settle_liquidation_def]]] by simp
  ultimately show ?thesis using answering_save(1) i r by (simp add: check_liquidation_def Let_def)
qed

lemma check_gone:
  assumes "answering s" "isLiquidated p (liveMarkPrice (fp_Pair p) s) s = (True, s1)" "gm_get (pos_rows s) (fp_ID p) = Some p0"
  shows "\<exists>p'. gm_get (pos_rows (check_liquidation p s)) (fp_ID p) = Some p' \<and> fp_Status p' = ''liquidated''"
proof -
  obtain r s2 where r: "settle_liquidation p s1 = (r, s2)" by fastforce
  have s2: "answering s2" "pos_rows s2 = pos_rows s"
    using assms(1) answering_store [OF isLiquidated_store [OF assms(2)]]
      answering_store [OF settle_store [OF r [unfolded settle_liquidation_def]]] by simp_all
  let ?q = "liquidated_pos p (liveMarkPrice (fp_Pair p) s) (fu_now s1)"
  have "check_liquidation p s = ignored (fs_SavePosition ?q) s2" using assms(2) r by (simp add: check_liquidation_def Let_def)
  moreover have "fp_ID ?q = fp_ID p" "fp_Status ?q = ''liquidated''" by (simp_all add: liquidated_pos_def)
  ultimately show ?thesis using answering_save(2) [OF s2(1)] s2(2) assms(3)
    by (simp add: put_pos_def upsert_pos_def)
qed

lemma check_price: "fu_price (check_liquidation p s) = fu_price s"
proof -
  obtain b s1 where i: "isLiquidated p (liveMarkPrice (fp_Pair p) s) s = (b, s1)" by fastforce
  obtain r s2 where r: "settle_liquidation p s1 = (r, s2)" by fastforce
  have "fu_price s1 = fu_price s" "fu_price s2 = fu_price s1"
    using tame_isLiquidated [of s p "liveMarkPrice (fp_Pair p) s"] i settle_liquidation_tame [OF r] by (simp_all add: tame_def)
  then show ?thesis using i r by (simp add: check_liquidation_def Let_def)
qed

text \<open>The list of a job: distinct positions, each as its row has it and open.\<close>

definition listed :: "fpos list \<Rightarrow> fut \<Rightarrow> bool" where
  "listed ps s \<longleftrightarrow> orderly s \<and> answering s \<and> distinct (map fp_ID ps) \<and>
     (\<forall>p \<in> set ps. gm_get (pos_rows s) (fp_ID p) = Some p \<and> fp_Status p = ''open'')"

lemma listed_next:
  assumes "listed (a # ps) s"
  shows "listed ps (check_liquidation a s)"
proof -
  have e: "edits (fp_ID a) s (check_liquidation a s)" using assms check_liquidation_edits by (simp add: listed_def)
  have "gm_get (pos_rows (check_liquidation a s)) (fp_ID q) = gm_get (pos_rows s) (fp_ID q)" if "q \<in> set ps" for q
  proof -
    have "fp_ID q \<noteq> fp_ID a" using that assms unfolding listed_def by (metis distinct.simps(2) image_eqI list.set_map list.simps(9))
    then show ?thesis using e unfolding edits_def by blast
  qed
  then show ?thesis using assms check_answering [of s a] keeps_orderly [OF edits_keeps [OF e]] unfolding listed_def by simp
qed

lemma listed_keeps: "listed ps s \<Longrightarrow> keeps s (fold check_liquidation ps s)"
  using fold_edits [OF _ _ _ check_liquidation_edits] unfolding listed_def by blast

lemma fold_liquidates:
  assumes "listed ps s" "p \<in> set ps" "\<And>t. fu_price t = fu_price s \<Longrightarrow> \<exists>t'. isLiquidated p (liveMarkPrice (fp_Pair p) t) t = (True, t')"
  shows "\<exists>p'. gm_get (pos_rows (fold check_liquidation ps s)) (fp_ID p) = Some p' \<and> fp_Status p' = ''liquidated''"
  using assms
proof (induction ps arbitrary: s)
  case (Cons a ps)
  note nx = listed_next [OF Cons.prems(1)]
  show ?case
  proof (cases "a = p")
    case True
    obtain t' where "isLiquidated p (liveMarkPrice (fp_Pair p) s) s = (True, t')" using Cons.prems(3) by blast
    with check_gone [of s p t' p] Cons.prems(1) True obtain p1 where
      p1: "gm_get (pos_rows (check_liquidation p s)) (fp_ID p) = Some p1" "fp_Status p1 = ''liquidated''" by (auto simp: listed_def)
    from listed_keeps [OF nx] p1(1) True obtain p2 where
      "gm_get (pos_rows (fold check_liquidation ps (check_liquidation p s))) (fp_ID p) = Some p2" "kept p1 p2" unfolding keeps_def by blast
    then show ?thesis using p1(2) True by (simp add: kept_def)
  next
    case False
    then have "p \<in> set ps" using Cons.prems(2) by simp
    from Cons.IH [OF nx this] Cons.prems(3) show ?thesis by (simp add: check_price)
  qed
qed simp

text \<open>
  C37: An outage of the price feed liquidates every long position. A lookup that fails counts as a price of zero, so the next run of the
  liquidation job, over a database that answers, leaves every open isolated long position whose margin is not above its notional liquidated.
\<close>

theorem outage_liquidates_longs:
  assumes "orderly s" "answering s" "gm_get (pos_rows s) i = Some p" "fp_Status p = ''open''" "backed_long p" "fu_price s (fp_Pair p) = None"
  shows "\<exists>p'. gm_get (pos_rows (CheckLiquidations s)) i = Some p' \<and> fp_Status p' = ''liquidated''"
proof -
  from assms(2) obtain d where d: "fu_store s = PGFut d" "pf_faults d = []" by (auto simp: answering_def)
  define ps where "ps = sort_key (\<lambda>p. - fp_CreatedAt p) (filter (\<lambda>p. fp_Status p = ''open'') (map snd (pos_rows s)))"
  have q: "on_futs (\<lambda>e. e) fs_ListOpenPositions s = (Inr ps, s)"
    using d by (cases s) (simp add: on_futs_def fs_ListOpenPositions_def pf_ListOpenPositions_def pf_stmt_def ps_def pos_rows_def)
  have m: "mset ps = mset (filter (\<lambda>p. fp_Status p = ''open'') (map snd (pos_rows s)))" by (simp add: ps_def)
  have set: "set ps = {p \<in> snd ` set (pos_rows s). fp_Status p = ''open''}" by (simp add: ps_def)
  have "mset (map fp_ID ps) = mset (map fp_ID (filter (\<lambda>p. fp_Status p = ''open'') (map snd (pos_rows s))))" using m by simp
  then have "distinct (map fp_ID ps)"
    using rows_distinct [OF assms(1)] distinct_map_filter mset_eq_imp_distinct_iff by blast
  then have l: "listed ps s" using orderly_row [OF assms(1)] assms(1,2) set by (simp add: listed_def)
  have id: "fp_ID p = i" by (rule orderly_key [OF assms(1,3)])
  have "(i, p) \<in> set (pos_rows s)" using assms(3) map_of_SomeD by fastforce
  then have p: "p \<in> set ps" using assms(4) set by (force simp: image_iff)
  have "isLiquidated p (liveMarkPrice (fp_Pair p) t) t = (True, t)" if "fu_price t = fu_price s" for t
    using gone_at_zero [OF assms(5)] assms(6) that by (simp add: liveMarkPrice_def)
  then have "\<exists>p'. gm_get (pos_rows (fold check_liquidation ps s)) (fp_ID p) = Some p' \<and> fp_Status p' = ''liquidated''"
    by (intro fold_liquidates [OF l p]) blast
  then show ?thesis using q id by (simp add: CheckLiquidations_def each_open_def)
qed

section \<open>Waiting orders\<close>

text \<open>
  No waiting order is ever filled or cancelled. Behind the database, the job that should fill the orders that are due leaves every table,
  every wallet and every identifier as it was, whatever the prices, and no request to cancel an order succeeds.
\<close>

theorem waiting_orders_never_leave:
  assumes "in_pg s"
  shows "(\<exists>d fs. fu_store s = PGFut d \<and> fut_ProcessOrders s = s\<lparr>fu_store := PGFut (d\<lparr>pf_faults := fs\<rparr>)\<rparr>) \<and>
    isl (fst (CancelOrder uid i s))"
proof -
  from assms obtain d where d: "fu_store s = PGFut d" by (auto simp: in_pg_def)
  have scan: "\<exists>fs r'. abind (pf_stmt (\<lambda>s. (g s, s))) scanOrders d = (r', d\<lparr>pf_faults := fs\<rparr>) \<and> (r' = Inr [] \<or> isl r')" for g
  proof -
    obtain q d' where q: "pf_stmt (\<lambda>s. (g s, s)) d = (q, d')" by fastforce
    then have "abind (pf_stmt (\<lambda>s. (g s, s))) scanOrders d = (case q of Inl e \<Rightarrow> (Inl e, d') | Inr x \<Rightarrow> scanOrders x d')"
      by (simp add: abind_def)
    moreover from q have "\<exists>fs. d' = d\<lparr>pf_faults := fs\<rparr>" by (cases rule: pf_stmt_cases) auto
    ultimately show ?thesis by (cases q) (auto simp: scanOrders_def ret_def throw_def)
  qed
  obtain fs r1 where r1: "pf_ListOpenOrders d = (r1, d\<lparr>pf_faults := fs\<rparr>)" "r1 = Inr [] \<or> isl r1"
    using scan [of "\<lambda>s. sort_key (\<lambda>p. - fo_CreatedAt p) (filter (\<lambda>p. fo_Status p = ''open'') (map snd (pf_orders s)))"]
    unfolding pf_ListOpenOrders_def by blast
  then have p: "fut_ProcessOrders s = s\<lparr>fu_store := PGFut (d\<lparr>pf_faults := fs\<rparr>)\<rparr>"
    using d by (auto simp: fut_ProcessOrders_def on_futs_def fs_ListOpenOrders_def split: sum.split)
  have c: "isl (fst (CancelOrder uid i s))"
  proof (cases "currentUserID uid")
    case (Some u)
    obtain fs r2 where r2: "pf_ListOrders u d = (r2, d\<lparr>pf_faults := fs\<rparr>)" "r2 = Inr [] \<or> isl r2"
      using scan [of "\<lambda>s. sort_key (\<lambda>p. - fo_CreatedAt p) (filter (\<lambda>p. fo_UserID p = u) (map snd (pf_orders s)))"]
      unfolding pf_ListOrders_def by blast
    then show ?thesis using d Some
      by (auto simp: CancelOrder_def abind_def on_futs_def fs_ListOrders_def throw_def split: sum.split)
  qed (simp add: CancelOrder_def throw_def)
  show ?thesis using d p c by blast
qed

section \<open>At work\<close>

definition demo_pos :: "string \<Rightarrow> bf \<Rightarrow> fpos" where
  "demo_pos st margin =
     \<lparr>fp_ID = ''p1'', fp_UserID = ''alice'', fp_Pair = ''BTC/USDT'', fp_Side = ''long'', fp_Leverage = 10, fp_MarginMode = ''isolated'',
      fp_Entry = BF 64 100, fp_Mark = BF 64 100, fp_Qty = BF 64 2, fp_Margin = margin, fp_PnL = BF 64 0, fp_PnLPct = BF 64 0,
      fp_Liq = BF 64 90, fp_TP = None, fp_SL = None, fp_Status = st, fp_CreatedAt = 0, fp_UpdatedAt = 0\<rparr>"

definition demo_fut_db :: "rat \<Rightarrow> pg" where
  "demo_fut_db locked =
     \<lparr>db_wallets = [((''alice'', ''USDT'', AccountFutures), (demo_row ''w1'' 100)\<lparr>wl_Locked := locked\<rparr>)],
      db_txs = [], db_usage = [], db_faults = [], db_ids = (\<lambda>n. ''w'' @ nat_text (n + 3)), db_nid = 0, db_now = 0, db_day = ''d''\<rparr>"

definition demo_fut :: "bf option \<Rightarrow> fpos list \<Rightarrow> rat \<Rightarrow> fut" where
  "demo_fut price ps locked =
     \<lparr>fu_store = PGFut \<lparr>pf_positions = map (\<lambda>p. (fp_ID p, p)) ps, pf_orders = [], pf_faults = []\<rparr>,
      fu_wallet = Some (demo\<lparr>ws_store := Some (demo_fut_db locked)\<rparr>), fu_price = (\<lambda>_. price), fu_ids = (\<lambda>n. CHR ''f'' # replicate n CHR ''f''), fu_nid = 0, fu_now = 0\<rparr>"

lemma demo_pos_fields [simp]:
  "fp_Qty (demo_pos st m) = BF 64 2" "fp_Entry (demo_pos st m) = BF 64 100" "fp_Margin (demo_pos st m) = m" "fp_Status (demo_pos st m) = st"
  "fp_UserID (demo_pos st m) = ''alice''" "fp_Pair (demo_pos st m) = ''BTC/USDT''" "fp_Side (demo_pos st m) = ''long''"
  "fp_MarginMode (demo_pos st m) = ''isolated''" "fp_ID (demo_pos st m) = ''p1''"
  by (simp_all add: demo_pos_def)

lemmas fut_defs = demo_fut_def demo_fut_db_def demo_pos_def demo_defs

lemma demo_quote_asset: "quoteAsset ''BTC/USDT'' = ''USDT''"
  by (simp add: quoteAsset_def)

lemma parsed_amounts:
  "parseBigFloat ''1'' = Some (BF 64 1)" "parseBigFloat ''2'' = Some (BF 64 2)" "parseBigFloat ''20'' = Some (BF 64 20)"
  by code_simp+

lemma account_names: "AccountFutures \<noteq> []" "AccountSpot \<noteq> []"
  by (simp_all add: AccountFutures_def AccountSpot_def)

lemma half: "fround 64 (1/2) = 1/2"
  by (rule fround_exact [of 64 "-1"]) (simp_all add: on_grid_def)

lemma demo_orderly: "orderly (demo_fut price ps l)" if "ps = [] \<or> ps = [demo_pos st m]"
proof -
  have "''p1'' \<noteq> CHR ''f'' # replicate n CHR ''f''" "CHR ''f'' # replicate n CHR ''f'' \<noteq> ''p1''" for n by simp_all
  moreover have "inj (\<lambda>n. CHR ''f'' # replicate n CHR ''f'')" by (metis (no_types, lifting) injI length_replicate list.inject)
  ultimately show ?thesis using that by (auto simp: orderly_def in_pg_def pos_rows_def demo_fut_def demo_pos_def)
qed

lemma demo_funded: "funded (demo_fut price ps l)"
  by (simp add: funded_def demo_fut_def no_store_def)

lemma demo_fut_money:
  "fut_bal (demo_fut price ps l) k = (if k = (''alice'', ''USDT'', AccountFutures) then 100 else 0)"
  "fut_lck (demo_fut price ps l) k = (if k = (''alice'', ''USDT'', AccountFutures) then l else 0)"
  by (simp_all add: fut_bal_def fut_lck_def svc_bal_def svc_lck_def bal_def lck_def fut_defs)

lemma demo_fut_row: "gm_get (pos_rows (demo_fut price [demo_pos st m] l)) ''p1'' = Some (demo_pos st m)"
  by (simp add: pos_rows_def demo_fut_def demo_pos_def)

lemma demo_pos_key: "margin_key ''alice'' ''BTC/USDT'' = (''alice'', ''USDT'', AccountFutures)" "pos_key (demo_pos st m) = (''alice'', ''USDT'', AccountFutures)"
  by (simp_all add: margin_key_def demo_pos_def demo_quote_asset)

lemma demo_pnl: "fst (pnl_of (demo_pos st m) (BF 64 110)) = BF 64 20"
  by (simp add: pnl_of_def calcFuturesPnL_def demo_pos_def float_defs Let_def)

lemma demo_share: "snd (partial_share (demo_pos st m) (BF 64 1) (BF 64 110)) = BF 64 10"
  by (simp add: partial_share_def demo_pnl fdiv_def half float_defs Let_def)

lemma demo_mark: "liveMarkPrice pair (demo_fut (Some m) ps l) = m"
  by (simp add: liveMarkPrice_def demo_fut_def)

lemmas fut_ev = settle_futures_def fut_op_def on_wallet_def svc_Settle_def fut_uuid_def load_position_def currentUserID_def
  on_futs_def fs_GetPosition_def pf_GetPosition_def pf_stmt_def closePosition_def mapped_err_def fs_SavePosition_def pf_SavePosition_def
  closed_pos_def pnl_of_def calcFuturesPnL_def liveMarkPrice_def ignored_def demo_quote_asset positive_amount_def parsed_amounts
  service_defs store_defs float_defs fut_defs upsert_pos_def column_def half read_numeric_def account_names

theorem close_settles_witness:
  "let s' = snd (ClosePosition (Some ''alice'') ''p1'' (demo_fut (Some (BF 64 110)) [demo_pos ''open'' (BF 64 20)] 20))
   in fut_bal s' (''alice'', ''USDT'', AccountFutures) = 120 \<and> fut_lck s' (''alice'', ''USDT'', AccountFutures) = 0"
proof -
  define s where "s = demo_fut (Some (BF 64 110)) [demo_pos ''open'' (BF 64 20)] 20"
  let ?r = "ClosePosition (Some ''alice'') ''p1'' s"
  have "\<exists>q. fst ?r = Inr q" by (simp add: s_def ClosePosition_def fut_ev Let_def)
  then obtain q where "?r = (Inr q, snd ?r)" by (metis prod.collapse)
  from close_settles [OF this] obtain p where p: "gm_get (pos_rows s) ''p1'' = Some p"
    "fut_bal (snd ?r) = (fut_bal s)(pos_key p := fut_bal s (pos_key p) + numeric (fst (pnl_of p (liveMarkPrice (fp_Pair p) s))))"
    "fut_lck (snd ?r) = (fut_lck s)(pos_key p := if numeric (fp_Margin p) \<le> fut_lck s (pos_key p) then fut_lck s (pos_key p) - numeric (fp_Margin p)
      else fut_lck s (pos_key p))"
    unfolding s_def by (metis demo_orderly demo_funded)
  have eq: "p = demo_pos ''open'' (BF 64 20)" using p(1) by (simp add: s_def demo_fut_row)
  have "numeric (fst (pnl_of p (liveMarkPrice (fp_Pair p) s))) = 20"
    by (simp add: eq s_def demo_pnl demo_mark)
  moreover have "numeric (fp_Margin p) = 20" by (simp add: eq demo_pos_def)
  ultimately show ?thesis using p(2,3) unfolding s_def [symmetric] Let_def eq demo_pos_key
    by (simp add: s_def demo_fut_money)
qed

lemma demo_fut_step: "fut_step\<^sup>*\<^sup>* (s :: fut) (fut_exec c s)"
  by (intro r_into_rtranclp fut_step.command)

definition demo_start :: "string \<Rightarrow> fut" where
  "demo_start st = demo_fut (Some (BF 64 110)) [demo_pos st (BF 64 20)] 20"

lemma demo_start_row: "orderly (demo_start st)" "gm_get (pos_rows (demo_start st)) ''p1'' = Some (demo_pos st (BF 64 20))"
  by (simp_all add: demo_start_def demo_orderly demo_fut_row)

theorem position_terms_fixed_witness:
  "\<exists>p'. gm_get (pos_rows (fut_exec (Close (Some ''alice'') ''p1'') (demo_start ''liquidated''))) ''p1'' = Some p' \<and>
     fp_UserID p' = ''alice'' \<and> fp_Status p' = ''liquidated''"
proof -
  from position_terms_fixed [OF demo_fut_step demo_start_row, of "Close (Some ''alice'') ''p1''" "''liquidated''"] obtain p' where
      "gm_get (pos_rows (fut_exec (Close (Some ''alice'') ''p1'') (demo_start ''liquidated''))) ''p1'' = Some p'"
      "fp_UserID p' = fp_UserID (demo_pos ''liquidated'' (BF 64 20))" "fp_Status p' = fp_Status (demo_pos ''liquidated'' (BF 64 20))"
    by (auto simp: demo_pos_def simp del: fut_exec.simps)
  then show ?thesis by (intro exI [of _ p']) (simp add: demo_pos_def del: fut_exec.simps)
qed

theorem position_size_never_stored_witness:
  "\<exists>p'. gm_get (pos_rows (fut_exec (ClosePart (Some ''alice'') ''p1'' (Some ''1'')) (demo_start ''open''))) ''p1'' = Some p' \<and>
     fp_Qty p' = BF 64 2 \<and> fp_Entry p' = BF 64 100"
proof -
  from position_size_never_stored [OF demo_fut_step demo_start_row, of "ClosePart (Some ''alice'') ''p1'' (Some ''1'')" "''open''"] obtain p' where
      "gm_get (pos_rows (fut_exec (ClosePart (Some ''alice'') ''p1'' (Some ''1'')) (demo_start ''open''))) ''p1'' = Some p'"
      "fp_Qty p' = fp_Qty (demo_pos ''open'' (BF 64 20))" "fp_Entry p' = fp_Entry (demo_pos ''open'' (BF 64 20))"
    by blast
  then show ?thesis by (intro exI [of _ p']) (simp add: demo_pos_def del: fut_exec.simps)
qed

theorem partial_close_repeats_witness:
  "let c = \<lambda>s. snd (ClosePositionPartial (Some ''alice'') ''p1'' (Some ''1'') s);
       s = demo_fut (Some (BF 64 110)) [demo_pos ''open'' (BF 64 20)] 20
   in \<exists>p'. gm_get (pos_rows (c (c s))) ''p1'' = Some p' \<and> fp_Qty p' = BF 64 2 \<and>
        fut_bal (c (c s)) (''alice'', ''USDT'', AccountFutures) = 120"
proof -
  let ?c = "ClosePositionPartial (Some ''alice'') ''p1'' (Some ''1'')"
  define s where "s = demo_fut (Some (BF 64 110)) [demo_pos ''open'' (BF 64 20)] 20"
  define f where "f k = ((\<lambda>s. snd (?c s)) ^^ k) s" for k :: nat
  note ev = s_def ClosePositionPartial_def partial_share_def fdiv_def bf_cmp_def reduced_pos_def shown_def positionToJSON_def fut_ev Let_def
  have "\<exists>q. fst (?c (f 0)) = Inr q" "\<exists>q. fst (?c (f 1)) = Inr q" by (simp_all add: f_def ev)
  then have "\<forall>k < 2. \<exists>q. ?c (f k) = (Inr q, f (Suc k))"
    by (simp add: f_def less_2_cases_iff) (metis prod.collapse)
  from partial_close_repeats [of f "''p1''" "demo_pos ''open'' (BF 64 20)", OF _ _ _ parsed_amounts(1) _ this]
  show ?thesis unfolding s_def [symmetric] Let_def demo_pos_key
    by (simp add: f_def s_def demo_orderly demo_funded demo_fut_row demo_fut_money numeral_2_eq_2 demo_share bf_cmp_def demo_pos_key demo_mark)
qed

definition demo_open :: openPositionReq where
  "demo_open = \<lparr>op_Pair = ''BTC/USDT'', op_Side = ''long'', op_Leverage = 2, op_MarginMode = ''isolated'', op_Quantity = ''2'',
     op_Price = ''1'', op_TPPrice = [], op_SLPrice = []\<rparr>"

lemma lower_sides: "ToLower ''long'' = ''long''"
  by code_simp

lemmas open_ev = OpenPosition_def open_bound_def demo_open_def parseFuturesSide_def lower_sides open_checked_def positive_price_def
  netPosition_def fs_ListPositions_def pf_ListPositions_def calcMargin_def fdiv_def new_position_def open_fresh_def make_room_def
  reserve_margin_def svc_ReserveForAccount_def ReserveForAccount_def reserve_row_def ValidAccountType_def GetWalletForAccount_def wallet_of_def
  stored_pos_def fut_ev Let_def

lemma demo_no_net: "fst (netPosition u pair (demo_fut price [] l)) = None"
  by (simp add: netPosition_def fs_ListPositions_def pf_ListPositions_def on_futs_def pf_stmt_def demo_fut_def Let_def)

lemma demo_opened:
  "\<exists>p. OpenPosition (Some ''alice'') (Some demo_open) (demo_fut (Some (BF 64 110)) [] 0) =
     (Inr (p, False), snd (OpenPosition (Some ''alice'') (Some demo_open) (demo_fut (Some (BF 64 110)) [] 0))) \<and>
     fp_Margin p = BF 64 1 \<and> fp_ID p = ''f'' \<and> pos_key p = (''alice'', ''USDT'', AccountFutures)"
proof -
  have "\<exists>p. fst (OpenPosition (Some ''alice'') (Some demo_open) (demo_fut (Some (BF 64 110)) [] 0)) = Inr (p, False) \<and>
      fp_Margin p = BF 64 1 \<and> fp_ID p = ''f'' \<and> pos_key p = (''alice'', ''USDT'', AccountFutures)"
    by (simp add: open_ev margin_key_def)
  then show ?thesis by (metis prod.collapse)
qed

theorem open_locks_margin_witness:
  "let s' = snd (OpenPosition (Some ''alice'') (Some demo_open) (demo_fut (Some (BF 64 110)) [] 0))
   in fut_lck s' (''alice'', ''USDT'', AccountFutures) = 1 \<and> fut_bal s' (''alice'', ''USDT'', AccountFutures) = 100"
proof -
  obtain p where p: "OpenPosition (Some ''alice'') (Some demo_open) (demo_fut (Some (BF 64 110)) [] 0) =
     (Inr (p, False), snd (OpenPosition (Some ''alice'') (Some demo_open) (demo_fut (Some (BF 64 110)) [] 0)))"
    "fp_Margin p = BF 64 1" "pos_key p = (''alice'', ''USDT'', AccountFutures)" using demo_opened by blast
  show ?thesis using open_locks_margin [OF p(1) demo_orderly demo_funded demo_no_net] p(2,3) by (simp add: Let_def demo_fut_money)
qed

theorem named_price_pays_witness:
  "let s1 = snd (OpenPosition (Some ''alice'') (Some demo_open) (demo_fut (Some (BF 64 110)) [] 0));
       s2 = snd (ClosePosition (Some ''alice'') ''f'' s1)
   in fut_bal s2 (''alice'', ''USDT'', AccountFutures) = 318"
proof -
  define s where "s = demo_fut (Some (BF 64 110)) [] 0"
  let ?o = "OpenPosition (Some ''alice'') (Some demo_open) s"
  obtain p where p: "?o = (Inr (p, False), snd ?o)" "fp_Margin p = BF 64 1" "fp_ID p = ''f''" "pos_key p = (''alice'', ''USDT'', AccountFutures)"
    using demo_opened unfolding s_def by blast
  have f: "fp_Qty p = BF 64 2" "fp_Side p = ''long''"
    using open_effect(1) [OF p(1)] by (auto simp: s_def demo_orderly demo_funded demo_no_net demo_open_def parsed_amounts parseFuturesSide_def lower_sides)
  have "\<exists>q. fst (ClosePosition (Some ''alice'') ''f'' (snd ?o)) = Inr q"
    by (simp add: s_def ClosePosition_def open_ev)
  then obtain q where q: "ClosePosition (Some ''alice'') (fp_ID p) (snd ?o) = (Inr q, snd (ClosePosition (Some ''alice'') (fp_ID p) (snd ?o)))"
    unfolding p(3) by (metis prod.collapse)
  have "positive_price (op_Price demo_open) None = Some (BF 64 1)" by (simp add: positive_price_def demo_open_def parsed_amounts)
  from named_price_pays [OF p(1) _ _ _ this q] have "fut_bal (snd (ClosePosition (Some ''alice'') ''f'' (snd ?o))) (pos_key p) = 100 +
      numeric (fst (calcFuturesPnL ''long'' (column (BF 64 1)) (BF 64 110) (column (BF 64 2)) (column (BF 64 1))))"
    using f p by (simp add: s_def demo_orderly demo_funded demo_no_net demo_fut_money demo_mark)
  also have "\<dots> = 318" by (simp add: calcFuturesPnL_def column_def read_numeric_def float_defs Let_def)
  finally show ?thesis unfolding s_def [symmetric] Let_def p(4) .
qed

theorem added_margin_stays_locked_witness:
  "let s1 = snd (AddMargin (Some ''alice'') ''p1'' (Some ''20'') (demo_fut (Some (BF 64 110)) [demo_pos ''open'' (BF 64 20)] 20));
       s2 = snd (ClosePosition (Some ''alice'') ''p1'' s1)
   in fut_lck s2 (''alice'', ''USDT'', AccountFutures) = 20 \<and> fut_bal s2 (''alice'', ''USDT'', AccountFutures) = 100"
proof -
  define s where "s = demo_fut (Some (BF 64 110)) [demo_pos ''open'' (BF 64 20)] 20"
  let ?a = "AddMargin (Some ''alice'') ''p1'' (Some ''20'') s"
  let ?c = "ClosePosition (Some ''alice'') ''p1'' (snd ?a)"
  note ev = s_def AddMargin_def margin_leverage_def bf_int64_def with_margin_def fdiv_def fut_ev Let_def
  have "\<exists>p. fst ?a = Inr p" "\<exists>q. fst ?c = Inr q" by (simp add: ev) (simp add: ClosePosition_def ev)
  then obtain p q where r: "?a = (Inr p, snd ?a)" "?c = (Inr q, snd ?c)" by (metis prod.collapse)
  have "\<exists>p'. gm_get (pos_rows (snd ?a)) ''p1'' = Some p' \<and> fp_Margin p' = BF 64 40 \<and> fst (pnl_of p' (BF 64 110)) = BF 64 20"
    by (simp add: pos_rows_def ev)
  then obtain p' where p': "gm_get (pos_rows (snd ?a)) ''p1'' = Some p'" "fp_Margin p' = BF 64 40" "fst (pnl_of p' (BF 64 110)) = BF 64 20" by blast
  from added_margin_stays_locked [OF r _ _ _ p'(1), of "demo_pos ''open'' (BF 64 20)"] p'(2,3)
  show ?thesis unfolding s_def [symmetric] Let_def
    by (simp add: s_def demo_orderly demo_funded demo_fut_row demo_fut_money demo_pos_key demo_mark parsed_amounts)
qed

lemma demo_above: "isLiquidated (demo_pos st (BF 64 20)\<lparr>fp_Margin := BF 64 19\<rparr>) (BF 64 110) s = (False, s)"
proof -
  have "fround 53 maintenance \<le> fround 53 (1/8)" by (rule fround_mono) (simp add: maintenance_def)
  moreover have "fround 53 (1/8) = 1/8" by (rule fround_exact [of 53 "-3"]) (simp_all add: on_grid_def)
  ultimately have "200 * fround 53 maintenance \<le> 25" by simp
  from fround_mono [OF this, of 64] have "fround 64 (200 * fround 53 maintenance) < 39" by simp
  then show ?thesis
    by (simp add: isLiquidated_def pnl_of_def calcFuturesPnL_def demo_pos_def bf_cmp_def NewFloat_def bf_mul_def bf_add_def bf_sub_def
        res_prec_def bf_sign_def Let_def)
qed

theorem liquidated_margin_paid_out_witness:
  "let s' = snd (ReduceMargin (Some ''alice'') ''p1'' (Some ''1'') (demo_fut (Some (BF 64 110)) [demo_pos ''liquidated'' (BF 64 20)] 0))
   in fut_bal s' (''alice'', ''USDT'', AccountFutures) = 101"
proof -
  define s where "s = demo_fut (Some (BF 64 110)) [demo_pos ''liquidated'' (BF 64 20)] 0"
  let ?r = "ReduceMargin (Some ''alice'') ''p1'' (Some ''1'') s"
  have l: "load_position (Some ''alice'') ''p1'' (\<lambda>st. st \<noteq> ''closed'') PositionClosed s = (Inr (demo_pos ''liquidated'' (BF 64 20)), s)"
    by (simp add: s_def load_position_def currentUserID_def on_futs_def fs_GetPosition_def pf_GetPosition_def pf_stmt_def demo_fut_def
        abind_def ret_def Let_def)
  have "\<exists>t. settle_futures (fut_op ''alice'' ''BTC/USDT'' None (Some (BF 64 1))) None s = (Inr (), t)" by (simp add: s_def fut_ev Let_def)
  then obtain t where t: "settle_futures (fut_op ''alice'' ''BTC/USDT'' None (Some (BF 64 1))) None s = (Inr (), t)" by blast
  have m: "liveMarkPrice pair s = BF 64 110" for pair by (simp add: s_def demo_mark)
  have "\<exists>q. fst ?r = Inr q"
    unfolding ReduceMargin_def abind_def [of "load_position (Some ''alice'') ''p1'' (\<lambda>st. st \<noteq> ''closed'') PositionClosed"] l sum.case prod.case
    by (simp add: positive_amount_def parsed_amounts abind_def mapped_err_def ret_def bf_cmp_def margin_leverage_def t m demo_above float_defs Let_def)
  then obtain q where r: "?r = (Inr q, snd ?r)" by (metis prod.collapse)
  from liquidated_margin_paid_out [OF r _ _ _ _ parsed_amounts(1), of "demo_pos ''liquidated'' (BF 64 20)"]
  show ?thesis unfolding s_def [symmetric] Let_def
    by (simp add: s_def demo_orderly demo_funded demo_fut_row demo_fut_money demo_pos_key)
qed

theorem outage_liquidates_longs_witness:
  "\<exists>p'. gm_get (pos_rows (CheckLiquidations (demo_fut None [demo_pos ''open'' (BF 64 20)] 20))) ''p1'' = Some p' \<and> fp_Status p' = ''liquidated''"
proof (rule outage_liquidates_longs [OF _ _ demo_fut_row])
  have "BF 64 100 = read_numeric 100" "BF 64 2 = read_numeric 2" "BF 64 20 = read_numeric 20" by (simp_all add: read_numeric_def)
  then have "as_read (demo_pos ''open'' (BF 64 20))" unfolding as_read_def demo_pos_fields by blast
  then show "backed_long (demo_pos ''open'' (BF 64 20))" by (simp add: backed_long_def)
  show "orderly (demo_fut None [demo_pos ''open'' (BF 64 20)] 20)" by (simp add: demo_orderly)
qed (simp_all add: answering_def demo_fut_def)

theorem waiting_orders_never_leave_witness:
  "let o1 = \<lparr>fo_ID = ''o1'', fo_UserID = ''alice'', fo_Pair = ''BTC/USDT'', fo_Side = ''buy'', fo_Type = ''limit'', fo_Price = Some (BF 64 120),
       fo_Stop = None, fo_Qty = BF 64 1, fo_TP = None, fo_SL = None, fo_Leverage = 1, fo_MarginMode = ''isolated'', fo_Status = ''open'',
       fo_CreatedAt = 0\<rparr>;
       s = (demo_fut (Some (BF 64 110)) [] 0)\<lparr>fu_store := PGFut \<lparr>pf_positions = [], pf_orders = [(''o1'', o1)], pf_faults = []\<rparr>\<rparr>
   in order_due o1 (BF 64 110) \<and> (\<exists>d. fu_store (fut_ProcessOrders s) = PGFut d \<and> pf_orders d = [(''o1'', o1)]) \<and>
      isl (fst (CancelOrder (Some ''alice'') ''o1'' s))"
proof -
  define o1 where "o1 = \<lparr>fo_ID = ''o1'', fo_UserID = ''alice'', fo_Pair = ''BTC/USDT'', fo_Side = ''buy'', fo_Type = ''limit'',
     fo_Price = Some (BF 64 120), fo_Stop = None, fo_Qty = BF 64 1, fo_TP = None, fo_SL = None, fo_Leverage = 1, fo_MarginMode = ''isolated'',
     fo_Status = ''open'', fo_CreatedAt = 0\<rparr>"
  define s where "s = (demo_fut (Some (BF 64 110)) [] 0)\<lparr>fu_store := PGFut \<lparr>pf_positions = [], pf_orders = [(''o1'', o1)], pf_faults = []\<rparr>\<rparr>"
  have "in_pg s" by (simp add: s_def in_pg_def)
  from waiting_orders_never_leave [OF this, of "Some ''alice''" "''o1''"] obtain d fs where
    "fu_store s = PGFut d" "fut_ProcessOrders s = s\<lparr>fu_store := PGFut (d\<lparr>pf_faults := fs\<rparr>)\<rparr>" "isl (fst (CancelOrder (Some ''alice'') ''o1'' s))" by blast
  moreover from this(1) have "pf_orders d = [(''o1'', o1)]" by (auto simp: s_def)
  moreover have "order_due o1 (BF 64 110)" by (simp add: o1_def order_due_def limit_due_def bf_cmp_def float_defs)
  ultimately show ?thesis unfolding o1_def [symmetric] Let_def s_def [symmetric] by simp
qed

end
