(* ===== verification/Risk.thy ===== *)
theory Risk
  imports Order_Model
begin

text \<open>
  The pre-trade checks of \<open>internal/risk/risk.go\<close>: the rules of a pair (\<open>PairConfig\<close>), the limits of a user, the circuit breaker, the
  rate limits and the counters of open orders, with the order request of \<open>internal/matching/exchange.go\<close>. \<open>rk_now\<close> is the clock in
  nanoseconds. A pointer that may be \<open>nil\<close> is an option. The slices of time stamps share their array: what a rejected call has
  moved to its front is seen by the next one (\<open>overwritten\<close>).
\<close>

section \<open>Requests\<close>

record order_request =
  rq_UserID :: string
  rq_Pair :: string
  rq_Side :: side
  rq_Type :: order_type
  rq_Price :: "bf option"
  rq_Quantity :: "bf option"

definition positive_bf :: "bf option \<Rightarrow> bf option" where
  "positive_bf x = (case x of Some v \<Rightarrow> if 0 < bf_sign v then Some v else None | None \<Rightarrow> None)"

definition Notional :: "order_request \<Rightarrow> bf" where
  "Notional r =
     (let q = (case rq_Quantity r of Some v \<Rightarrow> bf_set (BF 128 0) v | None \<Rightarrow> BF 128 0)
      in case positive_bf (rq_Price r) of Some p \<Rightarrow> bf_mul new_float p q | None \<Rightarrow> q)"

section \<open>Rules and limits\<close>

datatype risk_err = ErrPriceBandBreached | ErrMinNotional | ErrMaxNotional | ErrMaxPosition | ErrOrderRateLimit | ErrDailyVolumeLimit
  | ErrMarketOrderDisabled | ErrTradingSuspended | ErrCircuitBreakerOpen | QuantityNotPositive | QuantityOffLot | QuantityAboveMax
  | QuantityBelowMin | PriceOffTick | InvalidNotional

record pair_config =
  pc_Pair :: string
  pc_MinNotional :: "bf option"
  pc_MaxNotional :: "bf option"
  pc_MinQty :: "bf option"
  pc_MaxQty :: "bf option"
  pc_TickSize :: "bf option"
  pc_LotSize :: "bf option"
  pc_PriceBandPct :: "bf option"
  pc_CircuitBreakerPct :: "bf option"
  pc_ReferencePrice :: "bf option"
  pc_MarketOrdersEnabled :: bool
  pc_TradingEnabled :: bool

record user_limit =
  ul_UserID :: string
  ul_MaxOpenOrders :: int
  ul_OrdersPerMinute :: int
  ul_OrdersPerHour :: int
  ul_OrdersPerDay :: int
  ul_DailyOrderNotional :: "(string, bf) gomap"
  ul_MaxPosition :: "(string, bf option) gomap"

record risk =
  rk_pairs :: "(string, pair_config) gomap"
  rk_limits :: "(string, user_limit) gomap"
  rk_counts :: "(string, int list) gomap"
  rk_open :: "(string, int) gomap"
  rk_tripped :: "(string, bool) gomap"
  rk_now :: int

definition NewRiskEngine :: risk where
  "NewRiskEngine = \<lparr>rk_pairs = [], rk_limits = [], rk_counts = [], rk_open = [], rk_tripped = [], rk_now = 0\<rparr>"

definition SetPairConfig :: "pair_config \<Rightarrow> risk \<Rightarrow> risk" where
  "SetPairConfig c s = s\<lparr>rk_pairs := gm_put (pc_Pair c) c (rk_pairs s)\<rparr>"

definition GetPairConfig :: "string \<Rightarrow> risk \<Rightarrow> pair_config option" where
  "GetPairConfig pair s = gm_get (rk_pairs s) pair"

definition AllPairs :: "risk \<Rightarrow> pair_config list" where
  "AllPairs s = map snd (rk_pairs s)"

definition SetUserLimit :: "user_limit \<Rightarrow> risk \<Rightarrow> risk" where
  "SetUserLimit l s = s\<lparr>rk_limits := gm_put (ul_UserID l) l (rk_limits s)\<rparr>"

definition GetUserLimit :: "string \<Rightarrow> risk \<Rightarrow> user_limit option" where
  "GetUserLimit u s = gm_get (rk_limits s) u"

section \<open>Multiples of the lot and of the tick\<close>

text \<open>\<open>Int\<close> truncates towards zero; \<open>SetInt\<close> takes the precision that the integer needs, at least 64.\<close>

definition bf_trunc :: "bf \<Rightarrow> int" where
  "bf_trunc f = (if 0 \<le> bval f then \<lfloor>bval f\<rfloor> else \<lceil>bval f\<rceil>)"

definition bf_of_int :: "int \<Rightarrow> bf" where
  "bf_of_int i = BF (max 64 (nbits (nat \<bar>i\<bar>))) (of_int i)"

definition isIntegral :: "bf \<Rightarrow> bool" where
  "isIntegral f \<longleftrightarrow> of_int (bf_trunc f) = bval f"

definition nearIntegral :: "bf \<Rightarrow> bool" where
  "nearIntegral f \<longleftrightarrow> isIntegral f \<or>
     (let d = bf_sub new_float f (bf_of_int (bf_trunc f)); frac = bf_abs d d;
          frac = (if 0 < bf_cmp frac (NewFloat (1/2)) then bf_sub frac (NewFloat 1) frac else frac);
          t = BF (max (bprec f) 53) (fround (max (bprec f) 53) (bval f / bval (NewFloat (10 ^ 9)))); tol = bf_abs t t
      in bf_cmp frac tol \<le> 0)"

text \<open>A quotient by a divisor that is not zero.\<close>

definition ratio :: "bf \<Rightarrow> bf \<Rightarrow> bf" where
  "ratio x y = BF (res_prec new_float x y) (fround (res_prec new_float x y) (bval x / bval y))"

section \<open>The checks\<close>

definition checkQuantityPrecision :: "order_request \<Rightarrow> pair_config \<Rightarrow> risk_err option" where
  "checkQuantityPrecision r c =
     (case (positive_bf (pc_LotSize c), rq_Quantity r) of
        (Some lot, Some q) \<Rightarrow>
          if bf_sign q \<le> 0 then Some QuantityNotPositive
          else if \<not> nearIntegral (ratio q lot) then Some QuantityOffLot
          else if (case positive_bf (pc_MaxQty c) of Some m \<Rightarrow> 0 < bf_cmp q m | None \<Rightarrow> False) then Some QuantityAboveMax
          else if (case positive_bf (pc_MinQty c) of Some m \<Rightarrow> bf_cmp q m < 0 | None \<Rightarrow> False) then Some QuantityBelowMin
          else None
      | _ \<Rightarrow> None)"

definition checkPricePrecision :: "order_request \<Rightarrow> pair_config \<Rightarrow> risk_err option" where
  "checkPricePrecision r c =
     (case (positive_bf (pc_TickSize c), positive_bf (rq_Price r)) of
        (Some tick, Some p) \<Rightarrow> if nearIntegral (ratio p tick) then None else Some PriceOffTick
      | _ \<Rightarrow> None)"

definition checkNotional :: "order_request \<Rightarrow> pair_config \<Rightarrow> risk_err option" where
  "checkNotional r c =
     (let n = Notional r
      in if bf_sign n \<le> 0 then Some InvalidNotional
         else if (case positive_bf (pc_MinNotional c) of Some m \<Rightarrow> bf_cmp n m < 0 | None \<Rightarrow> False) then Some ErrMinNotional
         else if (case positive_bf (pc_MaxNotional c) of Some m \<Rightarrow> 0 < bf_cmp n m | None \<Rightarrow> False) then Some ErrMaxNotional
         else None)"

definition checkPriceBand :: "order_request \<Rightarrow> pair_config \<Rightarrow> risk_err option" where
  "checkPriceBand r c =
     (case (positive_bf (pc_PriceBandPct c), positive_bf (pc_ReferencePrice c), positive_bf (rq_Price r)) of
        (Some pct, Some ref, Some p) \<Rightarrow>
          let band = bf_mul new_float ref pct
          in if bf_cmp p (bf_sub new_float ref band) < 0 \<or> 0 < bf_cmp p (bf_add new_float ref band) then Some ErrPriceBandBreached else None
      | _ \<Rightarrow> None)"

definition tripped :: "string \<Rightarrow> risk \<Rightarrow> bool" where
  "tripped pair s \<longleftrightarrow> gm_get (rk_tripped s) pair = Some True"

definition trip :: "string \<Rightarrow> risk \<Rightarrow> risk" where
  "trip pair s = s\<lparr>rk_tripped := gm_put pair True (rk_tripped s)\<rparr>"

definition deviates :: "bf \<Rightarrow> bf \<Rightarrow> bf \<Rightarrow> bool" where
  "deviates p ref pct \<longleftrightarrow>
     (let d = bf_sub new_float p ref in 0 < bf_cmp (bf_abs d d) (bf_mul new_float ref pct))"

definition checkCircuitBreaker :: "order_request \<Rightarrow> pair_config \<Rightarrow> risk \<Rightarrow> risk_err option \<times> risk" where
  "checkCircuitBreaker r c s =
     (case positive_bf (pc_CircuitBreakerPct c) of
        None \<Rightarrow> (None, s)
      | Some pct \<Rightarrow>
          if tripped (rq_Pair r) s then (Some ErrCircuitBreakerOpen, s)
          else (case (positive_bf (pc_ReferencePrice c), positive_bf (rq_Price r)) of
              (Some ref, Some p) \<Rightarrow> if deviates p ref pct then (Some ErrCircuitBreakerOpen, trip (rq_Pair r) s) else (None, s)
            | _ \<Rightarrow> (None, s)))"

definition IsCircuitOpen :: "string \<Rightarrow> risk \<Rightarrow> bool" where
  "IsCircuitOpen pair s = tripped pair s"

definition ResetCircuitBreaker :: "string \<Rightarrow> risk \<Rightarrow> risk" where
  "ResetCircuitBreaker pair s = s\<lparr>rk_tripped := gm_del pair (rk_tripped s)\<rparr>"

section \<open>Rate limits\<close>

definition minute :: int where "minute = 60 * 1000000000"
definition rk_hour :: int where "rk_hour = 60 * minute"
definition rk_day :: int where "rk_day = 24 * rk_hour"

definition since :: "int \<Rightarrow> int list \<Rightarrow> int list" where
  "since cutoff ts = filter (\<lambda>t. cutoff < t) ts"

text \<open>The stored slice after its first elements were overwritten in place by those that are kept.\<close>

definition overwritten :: "int list \<Rightarrow> int list \<Rightarrow> int list" where
  "overwritten kept ts = kept @ drop (length kept) ts"

definition stamps :: "string \<Rightarrow> risk \<Rightarrow> int list" where
  "stamps u s = (case gm_get (rk_counts s) u of Some ts \<Rightarrow> ts | None \<Rightarrow> [])"

definition rate_exceeded :: "user_limit \<Rightarrow> int \<Rightarrow> int list \<Rightarrow> risk_err option" where
  "rate_exceeded l now kept =
     (if 0 < ul_OrdersPerDay l \<and> ul_OrdersPerDay l \<le> int (length kept) then Some ErrDailyVolumeLimit
      else if 0 < ul_OrdersPerHour l \<and> ul_OrdersPerHour l \<le> int (length (since (now - rk_hour) kept)) then Some ErrOrderRateLimit
      else if 0 < ul_OrdersPerMinute l \<and> ul_OrdersPerMinute l \<le> int (length (since (now - minute) kept)) then Some ErrOrderRateLimit
      else None)"

definition checkUserRateLimits :: "order_request \<Rightarrow> risk \<Rightarrow> risk_err option \<times> risk" where
  "checkUserRateLimits r s =
     (case gm_get (rk_limits s) (rq_UserID r) of
        None \<Rightarrow> (None, s)
      | Some l \<Rightarrow>
          let ts = stamps (rq_UserID r) s; kept = since (rk_now s - rk_day) ts
          in (case rate_exceeded l (rk_now s) kept of
                Some e \<Rightarrow>
                  (Some e, case gm_get (rk_counts s) (rq_UserID r) of None \<Rightarrow> s
                     | Some _ \<Rightarrow> s\<lparr>rk_counts := gm_put (rq_UserID r) (overwritten kept ts) (rk_counts s)\<rparr>)
              | None \<Rightarrow> (None, s\<lparr>rk_counts := gm_put (rq_UserID r) (kept @ [rk_now s]) (rk_counts s)\<rparr>)))"

text \<open>The position that a user holds is not known here: the quantity of the order alone is compared.\<close>

definition checkPositionLimit :: "order_request \<Rightarrow> risk \<Rightarrow> risk_err option" where
  "checkPositionLimit r s =
     (case gm_get (rk_limits s) (rq_UserID r) of
        None \<Rightarrow> None
      | Some l \<Rightarrow>
          (case (gm_get (ul_MaxPosition l) (rq_Pair r), rq_Quantity r) of
             (Some m, Some q) \<Rightarrow> (case positive_bf m of Some x \<Rightarrow> if 0 < bf_cmp q x then Some ErrMaxPosition else None | None \<Rightarrow> None)
           | _ \<Rightarrow> None))"

section \<open>All checks\<close>

text \<open>The checks that only read, in their order.\<close>

definition first_error :: "risk_err option list \<Rightarrow> risk_err option" where
  "first_error es = (case filter (\<lambda>e. e \<noteq> None) es of [] \<Rightarrow> None | e # _ \<Rightarrow> e)"

definition Check :: "order_request \<Rightarrow> risk \<Rightarrow> risk_err option \<times> risk" where
  "Check r s =
     (case gm_get (rk_pairs s) (rq_Pair r) of
        None \<Rightarrow> (None, s)
      | Some c \<Rightarrow>
          if \<not> pc_TradingEnabled c then (Some ErrTradingSuspended, s)
          else if rq_Type r = Market \<and> \<not> pc_MarketOrdersEnabled c then (Some ErrMarketOrderDisabled, s)
          else (case checkCircuitBreaker r c s of
              (Some e, s1) \<Rightarrow> (Some e, s1)
            | (None, s1) \<Rightarrow>
                (case first_error [checkQuantityPrecision r c, checkPricePrecision r c, checkNotional r c, checkPriceBand r c] of
                   Some e \<Rightarrow> (Some e, s1)
                 | None \<Rightarrow>
                     (case checkUserRateLimits r s1 of
                        (Some e, s2) \<Rightarrow> (Some e, s2)
                      | (None, s2) \<Rightarrow> (checkPositionLimit r s2, s2)))))"

section \<open>Counters and reference prices\<close>

definition OpenOrders :: "string \<Rightarrow> risk \<Rightarrow> int" where
  "OpenOrders u s = (case gm_get (rk_open s) u of Some n \<Rightarrow> n | None \<Rightarrow> 0)"

definition RecordOpen :: "string \<Rightarrow> risk \<Rightarrow> risk" where
  "RecordOpen u s = s\<lparr>rk_open := gm_put u (OpenOrders u s + 1) (rk_open s)\<rparr>"

definition RecordClose :: "string \<Rightarrow> risk \<Rightarrow> risk" where
  "RecordClose u s = (if 0 < OpenOrders u s then s\<lparr>rk_open := gm_put u (OpenOrders u s - 1) (rk_open s)\<rparr> else s)"

definition empty_config :: "string \<Rightarrow> pair_config" where
  "empty_config pair =
     \<lparr>pc_Pair = pair, pc_MinNotional = None, pc_MaxNotional = None, pc_MinQty = None, pc_MaxQty = None, pc_TickSize = None, pc_LotSize = None,
      pc_PriceBandPct = None, pc_CircuitBreakerPct = None, pc_ReferencePrice = None, pc_MarketOrdersEnabled = False, pc_TradingEnabled = False\<rparr>"

definition UpdateReferencePrice :: "string \<Rightarrow> bf option \<Rightarrow> risk \<Rightarrow> risk" where
  "UpdateReferencePrice pair price s =
     (let c = (case gm_get (rk_pairs s) pair of Some c \<Rightarrow> c | None \<Rightarrow> empty_config pair)
      in s\<lparr>rk_pairs := gm_put pair (c\<lparr>pc_ReferencePrice := newBigFloatCopy price\<rparr>) (rk_pairs s)\<rparr>)"

end
