(* ===== verification/Risk_Properties.thy ===== *)
theory Risk_Properties
  imports Risk Wallet_Properties
begin

text \<open>
  What the pre-trade checks guarantee, over runs of requests and administrative calls: the rate limits, the circuit breaker, the bounds on
  price and notional, and what the tests for multiples of lot and tick accept.
\<close>

section \<open>Multiples\<close>

text \<open>The distance to the nearest integer.\<close>

definition off_integer :: "rat \<Rightarrow> rat" where
  "off_integer x = min (x - of_int \<lfloor>x\<rfloor>) (1 - (x - of_int \<lfloor>x\<rfloor>))"

lemma off_integer_le: "off_integer x \<le> \<bar>x - of_int k\<bar>"
proof (cases "k \<le> \<lfloor>x\<rfloor>")
  case True
  then have "(of_int k :: rat) \<le> of_int \<lfloor>x\<rfloor>" by simp
  then have "x - of_int \<lfloor>x\<rfloor> \<le> \<bar>x - of_int k\<bar>" by linarith
  then show ?thesis by (simp add: off_integer_def min_le_iff_disj)
next
  case False
  then have "\<lfloor>x\<rfloor> + 1 \<le> k" by simp
  then have "(of_int (\<lfloor>x\<rfloor> + 1) :: rat) \<le> of_int k" by (simp only: of_int_le_iff)
  then show ?thesis unfolding off_integer_def by (simp add: min_le_iff_disj) linarith
qed

lemma off_integer_half: "off_integer x \<le> 1/2"
  unfolding off_integer_def by linarith

lemma off_integer_0: "off_integer x = 0 \<longleftrightarrow> of_int \<lfloor>x\<rfloor> = x"
proof -
  have "x < of_int \<lfloor>x\<rfloor> + 1" "of_int \<lfloor>x\<rfloor> \<le> x" by linarith+
  then show ?thesis unfolding off_integer_def min_def by auto
qed

text \<open>The fractional part of a float is computed exactly.\<close>

lemma frac_exact:
  assumes "bf_ok f" "0 < bval f" "0 < bprec f" "bprec f \<le> p" "of_int \<lfloor>bval f\<rfloor> \<noteq> bval f"
  defines "d \<equiv> bval f - of_int \<lfloor>bval f\<rfloor>"
  shows "fround p d = d" "1/2 < d \<Longrightarrow> fround p (1 - d) = 1 - d"
proof -
  define x where "x = bval f"
  define g where "g = bexp x - int (bprec f)"
  have x: "on_grid g x" using assms(1-3) by (auto simp: x_def bf_ok_def fround_def on_grid_def Let_def g_def intro: sym)
  have neg: "g < 0"
  proof (rule ccontr)
    assume "\<not> g < 0"
    then obtain n where "g = int n" by (metis nonneg_int_cases linorder_not_le)
    moreover from x obtain k where "x = of_int k * 2 powi g" by (auto simp: on_grid_def)
    ultimately have "x = of_int (k * 2 ^ n)" by simp
    then have "of_int \<lfloor>x\<rfloor> = x" by (metis of_int_floor_cancel)
    then show False using assms(5) by (simp add: x_def)
  qed
  have int: "on_grid g (of_int k)" for k
  proof -
    obtain n where n: "g = - int n" using neg by (metis nonpos_int_cases less_imp_le)
    have "of_int k = of_int (k * 2 ^ n) * (2::rat) powi g" by (simp add: n power_int_minus)
    then show ?thesis unfolding on_grid_def by blast
  qed
  have g: "on_grid g d" "on_grid g (1 - d)"
    using on_grid_diff [OF x int] on_grid_diff [OF int [of 1]] by (simp_all add: d_def x_def)
  have f: "of_int \<lfloor>x\<rfloor> \<le> x" "x < of_int \<lfloor>x\<rfloor> + 1" by linarith+
  have d: "0 < d" "d < 1" using f assms(5) unfolding d_def x_def [symmetric] by linarith+
  have b: "d < 2 powi (g + int p)"
  proof (cases "x < 1")
    case True
    then have "\<lfloor>x\<rfloor> = 0" using assms(2) x_def by (simp add: floor_eq_iff)
    then have "d = x" by (simp add: d_def x_def)
    moreover have "x < 2 powi bexp x" using bexp_bounds [of x] assms(2) x_def by simp
    moreover have "(2::rat) powi bexp x \<le> 2 powi (g + int p)" using assms(4) unfolding powi_le g_def by simp
    ultimately show ?thesis by linarith
  next
    case False
    then have "(2::rat) powi 0 < 2 powi bexp x" using bexp_bounds [of x] assms(2) x_def by simp
    then have "0 < bexp x" unfolding powi_less .
    then have "1 \<le> g + int p" using assms(4) by (simp add: g_def)
    then have "(2::rat) powi 1 \<le> 2 powi (g + int p)" unfolding powi_le .
    then show ?thesis using d by simp
  qed
  show "fround p d = d" using d b g assms(3,4) by (intro fround_exact [of p g]) simp_all
  show "fround p (1 - d) = 1 - d" if "1/2 < d" using that d b g assms(3,4) by (intro fround_exact [of p g]) simp_all
qed

text \<open>The tolerance of the test: one part in a thousand million, rounded.\<close>

definition tolerance :: "bf \<Rightarrow> rat" where
  "tolerance f = fround (max (bprec f) 53) (bval f / 10 ^ 9)"

lemma nearIntegral_iff:
  assumes "bf_ok f" "0 < bval f" "0 < bprec f"
  shows "nearIntegral f \<longleftrightarrow> off_integer (bval f) \<le> tolerance f"
proof -
  let ?x = "bval f" and ?d = "bval f - of_int \<lfloor>bval f\<rfloor>"
  have t0: "0 \<le> tolerance f" using assms(2) by (simp add: tolerance_def fround_nonneg)
  have tr: "bf_trunc f = \<lfloor>?x\<rfloor>" using assms(2) by (simp add: bf_trunc_def)
  have f: "of_int \<lfloor>?x\<rfloor> \<le> ?x" "?x < of_int \<lfloor>?x\<rfloor> + 1" by linarith+
  show ?thesis
  proof (cases "of_int \<lfloor>?x\<rfloor> = ?x")
    case True
    then show ?thesis using t0 off_integer_0 [of ?x] by (simp add: nearIntegral_def isIntegral_def tr)
  next
    case False
    define q where "q = max (bprec f) (max 64 (nbits (nat \<bar>\<lfloor>?x\<rfloor>\<bar>)))"
    have le: "bprec f \<le> q" by (simp add: q_def)
    note e = frac_exact [OF assms le False]
    have q0: "q \<noteq> 0" by (simp add: q_def)
    have sub: "bf_sub new_float f (bf_of_int (bf_trunc f)) = BF q ?d"
      using e(1) by (simp add: bf_sub_def res_prec_def bf_of_int_def tr q_def)
    have half: "bval (NewFloat (1/2)) = 1/2" and one: "bval (NewFloat 1) = 1"
      using fround_exact [of 53 "-1" "1/2"] by (simp_all add: NewFloat_def on_grid_def)
    have big: "bval (NewFloat (10 ^ 9)) = 10 ^ 9"
      using fround_of_int [of 53 "10 ^ 9"] by (simp add: NewFloat_def)
    have ab: "bf_abs (BF q ?d) (BF q ?d) = BF q ?d" using f q0 by (simp add: bf_abs_def bf_set_def)
    have tol: "bf_abs (BF (max (bprec f) 53) (tolerance f)) (BF (max (bprec f) 53) (tolerance f)) = BF (max (bprec f) 53) (tolerance f)"
      using t0 by (simp add: bf_abs_def bf_set_def)
    have fr: "(if 0 < bf_cmp (BF q ?d) (NewFloat (1/2)) then bf_sub (BF q ?d) (NewFloat 1) (BF q ?d) else BF q ?d) = BF q (off_integer ?x)"
      using e(2) q0 by (auto simp: bf_cmp_def half one bf_sub_def res_prec_def off_integer_def min_def)
    have "nearIntegral f \<longleftrightarrow> bf_cmp (BF q (off_integer ?x)) (BF (max (bprec f) 53) (tolerance f)) \<le> 0"
      using False unfolding nearIntegral_def Let_def sub ab fr big tolerance_def [symmetric] tol by (simp add: isIntegral_def tr)
    then show ?thesis by (auto simp: bf_cmp_def)
  qed
qed

text \<open>
  The test for multiples of lot and tick measures the distance to the nearest integer exactly and compares it with a thousand-millionth of
  the quotient. From a quotient of five hundred million on it therefore accepts everything.
\<close>

theorem multiple_test_exact:
  assumes "bf_ok f" "0 < bval f" "0 < bprec f"
  shows "(nearIntegral f \<longleftrightarrow> off_integer (bval f) \<le> tolerance f) \<and> (5 * 10 ^ 8 \<le> bval f \<longrightarrow> nearIntegral f)"
proof -
  have "nearIntegral f" if "5 * 10 ^ 8 \<le> bval f"
  proof -
    have "1/2 \<le> bval f / 10 ^ 9" using that by simp
    then have "fround (max (bprec f) 53) (1/2) \<le> tolerance f" unfolding tolerance_def by (rule fround_mono)
    moreover have "fround (max (bprec f) 53) (1/2) = 1/2" using fround_widen [of 53 "max (bprec f) 53" "1/2"]
      fround_exact [of 53 "-1" "1/2"] by (simp add: on_grid_def)
    ultimately show ?thesis using nearIntegral_iff [OF assms] off_integer_half [of "bval f"] by simp
  qed
  then show ?thesis using nearIntegral_iff [OF assms] by blast
qed

text \<open>
  No well-formed amount is refused. A quantity that is a multiple of the lot, when both are decimals rounded to at least 53 bits, passes the
  test of \<open>checkQuantityPrecision\<close>, and so for prices and ticks.
\<close>

theorem well_formed_multiple_passes:
  assumes "0 < t" "0 < k" "\<bar>bval q - of_int k * t\<bar> \<le> of_int k * t * 2 powi - 53" "\<bar>bval lot - t\<bar> \<le> t * 2 powi - 53" "53 \<le> bprec q"
  shows "nearIntegral (ratio q lot)"
proof -
  define e :: rat where "e = 1 / 9007199254740992"
  have e: "(2 :: rat) powi - 53 = e" by (simp add: e_def power_int_def power_divide)
  define m where "m = of_int k * t"
  have m: "0 < m" using assms(1,2) by (simp add: m_def)
  have q: "m * (1 - e) \<le> bval q" "bval q \<le> m * (1 + e)" using assms(3) [unfolded e m_def [symmetric]] by (simp_all add: algebra_simps abs_le_iff)
  have l: "t * (1 - e) \<le> bval lot" "bval lot \<le> t * (1 + e)" using assms(4) [unfolded e] by (simp_all add: algebra_simps abs_le_iff)
  have "0 < t * (1 - e)" using assms(1) by (simp add: e_def)
  then have lp: "0 < bval lot" using l(1) by linarith
  have kp: "(0 :: rat) < of_int k" using assms(2) by simp
  have "m * (1 + e) \<le> m * ((1 + 3 * e) * (1 - e))" using m by (intro mult_left_mono) (simp_all add: e_def)
  also have "\<dots> = (of_int k * (1 + 3 * e)) * (t * (1 - e))" by (simp add: m_def)
  also have "\<dots> \<le> (of_int k * (1 + 3 * e)) * bval lot" using l(1) kp by (intro mult_left_mono) (simp_all add: e_def)
  finally have up: "bval q / bval lot \<le> of_int k * (1 + 3 * e)" using q(2) lp by (simp add: divide_le_eq)
  have "(of_int k * (1 - 3 * e)) * bval lot \<le> (of_int k * (1 - 3 * e)) * (t * (1 + e))" using l(2) kp by (intro mult_left_mono) (simp_all add: e_def)
  also have "\<dots> = m * ((1 - 3 * e) * (1 + e))" by (simp add: m_def)
  also have "\<dots> \<le> m * (1 - e)" using m by (intro mult_left_mono) (simp_all add: e_def)
  finally have lo: "of_int k * (1 - 3 * e) \<le> bval q / bval lot" using q(1) lp by (simp add: le_divide_eq)
  let ?f = "ratio q lot" and ?p = "res_prec new_float q lot"
  have p: "53 \<le> ?p" "0 < ?p" using assms(5) by (simp_all add: res_prec_def)
  have pe: "(2 :: rat) powi - int n \<le> e" if "53 \<le> n" for n unfolding e [symmetric] powi_le using that by simp
  have v: "bval ?f = fround ?p (bval q / bval lot)" "bprec ?f = ?p" by (simp_all add: ratio_def)
  have "0 < of_int k * (1 - 3 * e)" using kp by (simp add: e_def)
  then have pos: "0 < bval q / bval lot" using lo by linarith
  have "\<bar>bval ?f - bval q / bval lot\<bar> \<le> \<bar>bval q / bval lot\<bar> * 2 powi - int ?p" unfolding v by (rule fround_error [OF p(2)])
  also have "\<dots> \<le> (of_int k * (1 + 3 * e)) * e" using up pos pe [OF p(1)] kp by (intro mult_mono) (simp_all add: e_def)
  also have "\<dots> = of_int k * ((1 + 3 * e) * e)" by simp
  also have "\<dots> \<le> of_int k * (2 * e)" using kp by (intro mult_left_mono) (simp_all add: e_def)
  finally have ab: "\<bar>bval ?f - of_int k\<bar> \<le> of_int k * (5 * e)" using up lo by (simp add: algebra_simps abs_le_iff)
  have d: "off_integer (bval ?f) \<le> of_int k * (5 * e)" by (rule order_trans [OF off_integer_le ab])
  have d2: "of_int k * (1 - 5 * e) \<le> bval ?f" using ab by (simp add: algebra_simps abs_le_iff)
  have fp: "0 < bval ?f" using pos p by (simp add: v)
  let ?P = "max (bprec ?f) 53"
  define y where "y = bval ?f / 10 ^ 9"
  have y: "0 < y" using fp by (simp add: y_def)
  have "\<bar>tolerance ?f - y\<bar> \<le> \<bar>y\<bar> * 2 powi - int ?P" unfolding tolerance_def y_def by (rule fround_error) simp
  also have "\<dots> \<le> y * e" using y pe [of ?P] by (intro mult_mono) simp_all
  finally have up': "y * (1 - e) \<le> tolerance ?f" by (simp add: algebra_simps abs_le_iff)
  have "off_integer (bval ?f) \<le> of_int k * (5 * e)" by (rule d)
  also have "\<dots> \<le> of_int k * ((1 - 5 * e) / 10 ^ 9 * (1 - e))" using kp by (intro mult_left_mono) (simp_all add: e_def)
  also have "\<dots> = of_int k * (1 - 5 * e) / 10 ^ 9 * (1 - e)" by simp
  also have "\<dots> \<le> y * (1 - e)" unfolding y_def using d2 by (intro mult_right_mono divide_right_mono) (simp_all add: e_def)
  also note up'
  finally have "off_integer (bval ?f) \<le> tolerance ?f" .
  moreover have "bf_ok ?f" "0 < bprec ?f" using p(2) by (simp_all add: ratio_def bf_ok_def)
  ultimately show ?thesis using nearIntegral_iff fp by blast
qed

section \<open>What an accepted order satisfies\<close>

lemma first_error_None: "first_error es = None \<longleftrightarrow> (\<forall>e \<in> set es. e = None)"
  by (induction es) (auto simp: first_error_def)

lemma Check_passed:
  assumes "Check r s = (None, s')" "gm_get (rk_pairs s) (rq_Pair r) = Some c"
  obtains s1 where "pc_TradingEnabled c" "rq_Type r = Market \<Longrightarrow> pc_MarketOrdersEnabled c" "checkCircuitBreaker r c s = (None, s1)"
    "checkQuantityPrecision r c = None" "checkPricePrecision r c = None" "checkNotional r c = None" "checkPriceBand r c = None"
    "checkUserRateLimits r s1 = (None, s')" "checkPositionLimit r s' = None"
  using assms by (auto simp: Check_def first_error_None split: if_splits prod.splits option.splits)

lemma breaker_passed: "checkCircuitBreaker r c s = (None, s1) \<Longrightarrow> s1 = s"
  by (auto simp: checkCircuitBreaker_def split: option.splits if_splits)


section \<open>Runs\<close>

datatype risk_cmd = RiskCheck order_request | Wait nat | Configure pair_config | Restrict user_limit | ResetBreaker string
  | Reference string "bf option" | Opened string | Gone string

fun risk_exec :: "risk_cmd \<Rightarrow> risk \<Rightarrow> risk" where
  "risk_exec (RiskCheck r) s = snd (Check r s)"
| "risk_exec (Wait n) s = s\<lparr>rk_now := rk_now s + int n\<rparr>"
| "risk_exec (Configure c) s = SetPairConfig c s"
| "risk_exec (Restrict l) s = SetUserLimit l s"
| "risk_exec (ResetBreaker p) s = ResetCircuitBreaker p s"
| "risk_exec (Reference p x) s = UpdateReferencePrice p x s"
| "risk_exec (Opened u) s = RecordOpen u s"
| "risk_exec (Gone u) s = RecordClose u s"

text \<open>The requests that pass, each with its time, and the state at the end.\<close>

fun passed :: "risk_cmd \<Rightarrow> risk \<Rightarrow> (order_request \<times> int) list" where
  "passed (RiskCheck r) s = (if fst (Check r s) = None then [(r, rk_now s)] else [])"
| "passed c s = []"

fun risk_run :: "risk_cmd list \<Rightarrow> risk \<Rightarrow> (order_request \<times> int) list \<times> risk" where
  "risk_run [] s = ([], s)"
| "risk_run (c # cs) s = (let (out, s') = risk_run cs (risk_exec c s) in (passed c s @ out, s'))"

lemma checks_frame:
  "checkCircuitBreaker r c s = (e, s1) \<Longrightarrow> rk_pairs s1 = rk_pairs s \<and> rk_limits s1 = rk_limits s \<and> rk_counts s1 = rk_counts s \<and> rk_now s1 = rk_now s \<and>
     rk_open s1 = rk_open s \<and> (tripped p s \<longrightarrow> tripped p s1)"
  "checkUserRateLimits r s = (e, s1) \<Longrightarrow> rk_pairs s1 = rk_pairs s \<and> rk_limits s1 = rk_limits s \<and> rk_now s1 = rk_now s \<and> rk_open s1 = rk_open s \<and>
     rk_tripped s1 = rk_tripped s"
  by (auto simp: checkCircuitBreaker_def trip_def tripped_def split: option.splits if_splits)
    (auto simp: checkUserRateLimits_def Let_def split: option.splits)

lemma Check_frame:
  "Check r s = (e, s1) \<Longrightarrow> rk_pairs s1 = rk_pairs s \<and> rk_limits s1 = rk_limits s \<and> rk_now s1 = rk_now s \<and> rk_open s1 = rk_open s \<and>
     (tripped p s \<longrightarrow> tripped p s1)"
  by (auto simp: Check_def tripped_def split: option.splits if_splits prod.splits dest!: checks_frame(2) dest: checks_frame(1) [where p = p])

section \<open>The circuit breaker\<close>

definition halted :: "string \<Rightarrow> risk \<Rightarrow> bool" where
  "halted pair s \<longleftrightarrow> tripped pair s \<and> (\<exists>c. gm_get (rk_pairs s) pair = Some c \<and> positive_bf (pc_CircuitBreakerPct c) \<noteq> None)"

fun resumes :: "string \<Rightarrow> risk_cmd \<Rightarrow> bool" where
  "resumes pair (ResetBreaker p) \<longleftrightarrow> p = pair"
| "resumes pair (Configure c) \<longleftrightarrow> pc_Pair c = pair"
| "resumes pair c \<longleftrightarrow> False"

lemma halted_step:
  assumes "halted pair s" "\<not> resumes pair c"
  shows "halted pair (risk_exec c s)"
proof (cases c)
  case (RiskCheck r)
  obtain e s1 where "Check r s = (e, s1)" by fastforce
  then show ?thesis using assms(1) RiskCheck Check_frame [of r s e s1 pair] by (simp add: halted_def)
qed (use assms in \<open>auto simp: halted_def tripped_def SetPairConfig_def SetUserLimit_def ResetCircuitBreaker_def UpdateReferencePrice_def
    RecordOpen_def RecordClose_def Let_def\<close>)

lemma halted_refuses:
  assumes "halted (rq_Pair r) s"
  shows "fst (Check r s) \<noteq> None"
  using assms by (auto simp: halted_def Check_def checkCircuitBreaker_def)

lemma halted_run:
  "risk_run cs s = (out, s') \<Longrightarrow> halted pair s \<Longrightarrow> \<forall>c \<in> set cs. \<not> resumes pair c \<Longrightarrow> (r, t) \<in> set out \<Longrightarrow> rq_Pair r \<noteq> pair"
proof (induction cs arbitrary: s out s')
  case (Cons c cs)
  obtain out1 s1 where run: "risk_run cs (risk_exec c s) = (out1, s1)" by fastforce
  have h: "halted pair (risk_exec c s)" using halted_step [OF Cons.prems(2)] Cons.prems(3) by simp
  have "(r, t) \<in> set (passed c s) \<or> (r, t) \<in> set out1" using Cons.prems(1,4) run by auto
  then show ?case
  proof
    assume "(r, t) \<in> set (passed c s)"
    then show ?thesis using halted_refuses [of r s] Cons.prems(2) by (cases c) (auto split: if_splits)
  qed (use Cons.IH [OF run h] Cons.prems(3) in simp)
qed simp

text \<open>
  C38: One order halts a pair for everyone. In a pair that trades, with a breaker percentage and a reference price, an order whose price is further from the reference than
  that percentage opens the breaker (a market order, where these are enabled), whoever sends
  it, whatever it would cost, and whether or not the band would have refused it, since the band is tested later: it is refused, and whatever
  else happens (orders of all users, new reference prices, time), no order for the pair passes until the breaker is reset or the pair is configured anew.
\<close>

theorem one_order_halts_pair:
  assumes "gm_get (rk_pairs s) (rq_Pair r) = Some c" "pc_TradingEnabled c" "rq_Type r = Market \<longrightarrow> pc_MarketOrdersEnabled c"
    and "positive_bf (pc_CircuitBreakerPct c) = Some pct" "positive_bf (pc_ReferencePrice c) = Some ref" "positive_bf (rq_Price r) = Some p"
    and "deviates p ref pct" "risk_run cs (snd (Check r s)) = (out, s')" "\<forall>x \<in> set cs. \<not> resumes (rq_Pair r) x"
  shows "fst (Check r s) = Some ErrCircuitBreakerOpen \<and> (\<forall>(q, t) \<in> set out. rq_Pair q \<noteq> rq_Pair r)"
proof -
  have "fst (Check r s) = Some ErrCircuitBreakerOpen \<and> halted (rq_Pair r) (snd (Check r s))"
    using assms(1-7) by (auto simp: Check_def checkCircuitBreaker_def trip_def halted_def tripped_def)
  then show ?thesis using halted_run [OF assms(8) _ assms(9)] by auto
qed

text \<open>
  A trade in a pair without rules suspends it. Orders of a pair that nobody configured pass; the first reference price creates a
  configuration in which trading is disabled, and every order of the pair is refused from then on.
\<close>

theorem reference_price_suspends:
  assumes "gm_get (rk_pairs s) (rq_Pair r) = None"
  shows "fst (Check r s) = None \<and> fst (Check r (UpdateReferencePrice (rq_Pair r) x s)) = Some ErrTradingSuspended"
  using assms by (simp add: Check_def UpdateReferencePrice_def empty_config_def Let_def)

section \<open>Rate limits\<close>

text \<open>The times at which requests of a user passed.\<close>

definition times_of :: "string \<Rightarrow> (order_request \<times> int) list \<Rightarrow> int list" where
  "times_of u out = map snd (filter (\<lambda>(r, t). rq_UserID r = u) out)"

lemma times_of_append [simp]: "times_of u (xs @ ys) = times_of u xs @ times_of u ys"
  by (simp add: times_of_def)

text \<open>What the stamps of a user are worth: they count at least what passed in any part of the last day.\<close>

definition counted :: "string \<Rightarrow> int list \<Rightarrow> risk \<Rightarrow> bool" where
  "counted u A s \<longleftrightarrow> (\<forall>t \<in> set A. t \<le> rk_now s) \<and> (\<forall>c \<ge> rk_now s - rk_day. length (since c A) \<le> length (since c (stamps u s)))"

lemma since_append [simp]: "since c (xs @ ys) = since c xs @ since c ys"
  by (simp add: since_def)

lemma since_since: "c' \<le> c \<Longrightarrow> since c (since c' ts) = since c ts"
  unfolding since_def filter_filter by (rule filter_cong) auto

lemma length_filter_mono: "(\<And>x. P x \<Longrightarrow> Q x) \<Longrightarrow> length (filter P xs) \<le> length (filter Q xs)"
  by (induction xs) auto

text \<open>No window of the given length has more passed orders than its limit.\<close>

definition sparse :: "int \<Rightarrow> int \<Rightarrow> int list \<Rightarrow> bool" where
  "sparse w n A \<longleftrightarrow> 0 < n \<longrightarrow> (\<forall>t. int (length (filter (\<lambda>a. t - w < a \<and> a \<le> t) A)) \<le> n)"

lemma sparse_snoc:
  assumes "sparse w n A" "\<forall>t \<in> set A. t \<le> now" "0 < n \<Longrightarrow> int (length (since (now - w) A)) < n" "0 < w"
  shows "sparse w n (A @ [now])"
  unfolding sparse_def
proof (intro impI allI)
  fix t
  assume n: "0 < n"
  show "int (length (filter (\<lambda>a. t - w < a \<and> a \<le> t) (A @ [now]))) \<le> n"
  proof (cases "t - w < now \<and> now \<le> t")
    case True
    have "length (filter (\<lambda>a. t - w < a \<and> a \<le> t) A) \<le> length (since (now - w) A)"
      unfolding since_def using True by (intro length_filter_mono) auto
    then show ?thesis using assms(3) [OF n] True by simp
  next
    case False
    then have "filter (\<lambda>a. t - w < a \<and> a \<le> t) (A @ [now]) = filter (\<lambda>a. t - w < a \<and> a \<le> t) A" by simp
    then show ?thesis using assms(1) n unfolding sparse_def by metis
  qed
qed

lemma rate_passed:
  assumes "checkUserRateLimits r s = (None, s')" "gm_get (rk_limits s) (rq_UserID r) = Some l"
  defines "ts \<equiv> stamps (rq_UserID r) s"
  shows "stamps (rq_UserID r) s' = since (rk_now s - rk_day) ts @ [rk_now s]"
    "0 < ul_OrdersPerDay l \<Longrightarrow> int (length (since (rk_now s - rk_day) ts)) < ul_OrdersPerDay l"
    "0 < ul_OrdersPerHour l \<Longrightarrow> int (length (since (rk_now s - rk_hour) ts)) < ul_OrdersPerHour l"
    "0 < ul_OrdersPerMinute l \<Longrightarrow> int (length (since (rk_now s - minute) ts)) < ul_OrdersPerMinute l"
proof -
  have w: "since (rk_now s - rk_hour) (since (rk_now s - rk_day) ts) = since (rk_now s - rk_hour) ts"
    "since (rk_now s - minute) (since (rk_now s - rk_day) ts) = since (rk_now s - minute) ts"
    by (simp_all add: since_since rk_day_def rk_hour_def minute_def)
  from assms have e: "rate_exceeded l (rk_now s) (since (rk_now s - rk_day) ts) = None"
    "s' = s\<lparr>rk_counts := gm_put (rq_UserID r) (since (rk_now s - rk_day) ts @ [rk_now s]) (rk_counts s)\<rparr>"
    by (auto simp: checkUserRateLimits_def Let_def split: option.splits)
  show "stamps (rq_UserID r) s' = since (rk_now s - rk_day) ts @ [rk_now s]" by (simp add: e(2) stamps_def)
  show "0 < ul_OrdersPerDay l \<Longrightarrow> int (length (since (rk_now s - rk_day) ts)) < ul_OrdersPerDay l"
    "0 < ul_OrdersPerHour l \<Longrightarrow> int (length (since (rk_now s - rk_hour) ts)) < ul_OrdersPerHour l"
    "0 < ul_OrdersPerMinute l \<Longrightarrow> int (length (since (rk_now s - minute) ts)) < ul_OrdersPerMinute l"
    using e(1) w by (auto simp: rate_exceeded_def split: if_splits)
qed

text \<open>A refusal keeps everything in the slice that is still of the last day.\<close>

lemma rate_refused:
  assumes "checkUserRateLimits r s = (Some e, s')" "rk_now s - rk_day \<le> c"
  shows "length (since c (stamps u s)) \<le> length (since c (stamps u s'))"
proof -
  let ?ts = "stamps (rq_UserID r) s"
  have "stamps u s' = (if u = rq_UserID r then overwritten (since (rk_now s - rk_day) ?ts) ?ts else stamps u s) \<or> stamps u s' = stamps u s"
    using assms(1) by (auto simp: checkUserRateLimits_def stamps_def Let_def split: option.splits)
  then show ?thesis using since_since [OF assms(2), of ?ts] by (auto simp: overwritten_def)
qed

lemma Check_stamps:
  assumes "Check r s = (e, s')"
  shows "rk_counts s' = rk_counts s \<or> (\<exists>e1. checkUserRateLimits r s = (e1, s'))"
proof (cases "gm_get (rk_pairs s) (rq_Pair r)")
  case (Some c)
  obtain b s1 where b: "checkCircuitBreaker r c s = (b, s1)" by fastforce
  have s1: "rk_counts s1 = rk_counts s" "b = None \<Longrightarrow> s1 = s" using checks_frame(1) [OF b] breaker_passed b by auto
  obtain e1 s2 where u: "checkUserRateLimits r s1 = (e1, s2)" by fastforce
  show ?thesis using assms Some b s1 u by (cases b) (auto simp: Check_def split: if_splits option.splits)
qed (use assms in \<open>auto simp: Check_def\<close>)

text \<open>One request and the stamps: it counts when it passes in a pair with rules.\<close>

lemma Check_counted:
  assumes "Check r s = (e, s')" "counted u A s" "gm_get (rk_limits s) u = Some l" "rq_UserID r = u \<longrightarrow> gm_get (rk_pairs s) (rq_Pair r) \<noteq> None"
    and "\<forall>(w, n) \<in> {(minute, ul_OrdersPerMinute l), (rk_hour, ul_OrdersPerHour l), (rk_day, ul_OrdersPerDay l)}. sparse w n A"
  defines "A' \<equiv> A @ times_of u (passed (RiskCheck r) s)"
  shows "counted u A' s' \<and> (\<forall>(w, n) \<in> {(minute, ul_OrdersPerMinute l), (rk_hour, ul_OrdersPerHour l), (rk_day, ul_OrdersPerDay l)}. sparse w n A')"
proof (cases "rq_UserID r = u \<and> e = None")
  case True
  then obtain c where "gm_get (rk_pairs s) (rq_Pair r) = Some c" using assms(4) by auto
  with Check_passed [of r s s'] assms(1) True obtain s1 where c: "checkCircuitBreaker r c s = (None, s1)" "checkUserRateLimits r s1 = (None, s')"
    by metis
  have s1: "s1 = s" by (rule breaker_passed [OF c(1)])
  note r = rate_passed [OF c(2) [unfolded s1], unfolded True [THEN conjunct1], OF assms(3)]
  have A': "A' = A @ [rk_now s]" using True assms(1) by (simp add: A'_def times_of_def)
  have now: "rk_now s' = rk_now s" using Check_frame [OF assms(1)] by simp
  have le: "\<forall>t \<in> set A. t \<le> rk_now s" using assms(2) by (simp add: counted_def)
  have ct: "length (since c A) \<le> length (since c (stamps u s))" if "rk_now s - rk_day \<le> c" for c using assms(2) that by (simp add: counted_def)
  have "length (since c A') \<le> length (since c (stamps u s'))" if "rk_now s - rk_day \<le> c" for c
    using ct [OF that] since_since [OF that] by (simp add: A' r(1))
  then have "counted u A' s'" using le A' by (auto simp: counted_def now)
  moreover have "sparse minute (ul_OrdersPerMinute l) A'" unfolding A'
    using assms(5) le r(4) ct [of "rk_now s - minute"] by (intro sparse_snoc) (auto simp: rk_day_def rk_hour_def minute_def)
  moreover have "sparse rk_hour (ul_OrdersPerHour l) A'" unfolding A'
    using assms(5) le r(3) ct [of "rk_now s - rk_hour"] by (intro sparse_snoc) (auto simp: rk_day_def rk_hour_def minute_def)
  moreover have "sparse rk_day (ul_OrdersPerDay l) A'" unfolding A'
    using assms(5) le r(2) ct [of "rk_now s - rk_day"] by (intro sparse_snoc) (auto simp: rk_day_def rk_hour_def minute_def)
  ultimately show ?thesis by simp
next
  case False
  have A': "A' = A" using False assms(1) by (auto simp: A'_def times_of_def)
  have now: "rk_now s' = rk_now s" using Check_frame [OF assms(1)] by simp
  have "length (since c (stamps u s)) \<le> length (since c (stamps u s'))" if c: "rk_now s - rk_day \<le> c" for c
  proof -
    from Check_stamps [OF assms(1)] show ?thesis
    proof
      assume "\<exists>e1. checkUserRateLimits r s = (e1, s')"
      then obtain e1 where e1: "checkUserRateLimits r s = (e1, s')" ..
      show ?thesis
      proof (cases e1)
        case None
        show ?thesis
        proof (cases "rq_UserID r = u")
          case True
          then have "stamps u s' = since (rk_now s - rk_day) (stamps u s) @ [rk_now s]"
            using rate_passed(1) [of r s s' l] e1 None assms(3) by simp
          then show ?thesis using since_since [OF c] by simp
        next
          case False
          then show ?thesis using e1 None by (auto simp: checkUserRateLimits_def stamps_def Let_def split: option.splits)
        qed
      next
        case (Some x)
        show ?thesis by (rule rate_refused [OF e1 [unfolded Some] c])
      qed
    next
      assume "rk_counts s' = rk_counts s"
      then show ?thesis by (simp add: stamps_def)
    qed
  qed
  note grow = this
  have ct: "length (since c A) \<le> length (since c (stamps u s))" if "rk_now s - rk_day \<le> c" for c using assms(2) that by (simp add: counted_def)
  have "length (since c A) \<le> length (since c (stamps u s'))" if c: "rk_now s - rk_day \<le> c" for c
    by (rule order_trans [OF ct [OF c] grow [OF c]])
  then have "counted u A s'" using assms(2) by (simp add: counted_def now)
  then show ?thesis using assms(5) unfolding A' by (rule conjI)
qed

text \<open>The other commands let time pass or leave the stamps and limits of the user alone.\<close>

lemma other_cmd:
  assumes "\<forall>r. c \<noteq> RiskCheck r" "\<forall>x. c = Restrict x \<longrightarrow> ul_UserID x \<noteq> u"
  shows "stamps u (risk_exec c s) = stamps u s \<and> rk_now s \<le> rk_now (risk_exec c s) \<and> gm_get (rk_limits (risk_exec c s)) u = gm_get (rk_limits s) u \<and>
    (gm_get (rk_pairs s) p \<noteq> None \<longrightarrow> gm_get (rk_pairs (risk_exec c s)) p \<noteq> None)"
  using assms by (cases c) (auto simp: stamps_def SetPairConfig_def SetUserLimit_def ResetCircuitBreaker_def UpdateReferencePrice_def
    RecordOpen_def RecordClose_def Let_def)

lemma run_counted:
  assumes "risk_run cs s = (out, s')" "counted u A s" "gm_get (rk_limits s) u = Some l"
    and "\<forall>x. Restrict x \<in> set cs \<longrightarrow> ul_UserID x \<noteq> u" "\<forall>r. RiskCheck r \<in> set cs \<and> rq_UserID r = u \<longrightarrow> gm_get (rk_pairs s) (rq_Pair r) \<noteq> None"
    and "\<forall>(w, n) \<in> {(minute, ul_OrdersPerMinute l), (rk_hour, ul_OrdersPerHour l), (rk_day, ul_OrdersPerDay l)}. sparse w n A"
  shows "\<forall>(w, n) \<in> {(minute, ul_OrdersPerMinute l), (rk_hour, ul_OrdersPerHour l), (rk_day, ul_OrdersPerDay l)}. sparse w n (A @ times_of u out)"
  using assms
proof (induction cs arbitrary: s out s' A)
  case Nil
  then show ?case by (simp add: times_of_def)
next
  case (Cons c cs)
  obtain out1 s1 where run: "risk_run cs (risk_exec c s) = (out1, s1)" by fastforce
  then have o: "out = passed c s @ out1" "s1 = s'" using Cons.prems(1) by auto
  let ?A = "A @ times_of u (passed c s)" and ?s = "risk_exec c s"
  have step: "counted u ?A ?s \<and> gm_get (rk_limits ?s) u = Some l \<and>
      (\<forall>p. gm_get (rk_pairs s) p \<noteq> None \<longrightarrow> gm_get (rk_pairs ?s) p \<noteq> None) \<and>
      (\<forall>(w, n) \<in> {(minute, ul_OrdersPerMinute l), (rk_hour, ul_OrdersPerHour l), (rk_day, ul_OrdersPerDay l)}. sparse w n ?A)"
  proof (cases "\<exists>r. c = RiskCheck r")
    case True
    then obtain r where r: "c = RiskCheck r" ..
    obtain e s2 where e: "Check r s = (e, s2)" by fastforce
    have k: "rq_UserID r = u \<longrightarrow> gm_get (rk_pairs s) (rq_Pair r) \<noteq> None" using Cons.prems(5) r by simp
    show ?thesis using Check_counted [OF e Cons.prems(2,3) k Cons.prems(6)] Check_frame [OF e] r e Cons.prems(3) by simp
  next
    case False
    have p: "passed c s = []" using False by (cases c) auto
    have x: "\<forall>x. c = Restrict x \<longrightarrow> ul_UserID x \<noteq> u" using Cons.prems(4) by simp
    have f: "stamps u ?s = stamps u s" "rk_now s \<le> rk_now ?s" "gm_get (rk_limits ?s) u = gm_get (rk_limits s) u"
      "\<forall>p. gm_get (rk_pairs s) p \<noteq> None \<longrightarrow> gm_get (rk_pairs ?s) p \<noteq> None"
      using other_cmd [of c u s] False x by blast+
    have "counted u A ?s" using Cons.prems(2) f(1,2) by (auto simp: counted_def)
    then show ?thesis using f(3,4) Cons.prems(3,6) p by (simp add: times_of_def)
  qed
  show ?case using Cons.IH [OF run, of ?A] step Cons.prems(4,5) o by auto
qed

text \<open>
  C29: The rate limits hold. Over any run of requests of all users, trades, administrative calls and time, and whatever was refused in
  between, no minute, hour or day holds more passed orders of a user than the limits of the user allow, in pairs that have rules and as long as
  the limits stay as they are.
\<close>

theorem rate_limits_hold:
  assumes "risk_run cs s = (out, s')" "stamps u s = []" "gm_get (rk_limits s) u = Some l"
    and "\<forall>x. Restrict x \<in> set cs \<longrightarrow> ul_UserID x \<noteq> u" "\<forall>r. RiskCheck r \<in> set cs \<and> rq_UserID r = u \<longrightarrow> gm_get (rk_pairs s) (rq_Pair r) \<noteq> None"
  shows "sparse minute (ul_OrdersPerMinute l) (times_of u out) \<and> sparse rk_hour (ul_OrdersPerHour l) (times_of u out) \<and>
    sparse rk_day (ul_OrdersPerDay l) (times_of u out)"
  using run_counted [OF assms(1), of u "[]" l] assms(2-5) by (simp add: counted_def sparse_def)

text \<open>
  A refusal counts orders twice. When at least as many old stamps have expired as recent ones remain, a refusal compacts the slice in place
  without shortening it, and the next call counts each order of the last day two times.
\<close>

theorem refusal_counts_twice:
  assumes "checkUserRateLimits r s = (Some e, s')" "stamps (rq_UserID r) s = old @ recent" "length recent \<le> length old"
    and "\<forall>t \<in> set old. t \<le> rk_now s - rk_day" "\<forall>t \<in> set recent. rk_now s - rk_day < t" "recent \<noteq> []"
  shows "since (rk_now s - rk_day) (stamps (rq_UserID r) s') = recent @ recent"
proof -
  have k: "since (rk_now s - rk_day) (old @ recent) = recent" using assms(4,5) by (auto simp: since_def filter_empty_conv)
  have ne: "gm_get (rk_counts s) (rq_UserID r) \<noteq> None" using assms(2,6) by (auto simp: stamps_def split: option.splits)
  have "stamps (rq_UserID r) s' = overwritten recent (old @ recent)"
    using assms(1,2) ne k by (auto simp: checkUserRateLimits_def stamps_def Let_def split: option.splits)
  then have "stamps (rq_UserID r) s' = recent @ drop (length recent) old @ recent" using assms(3) by (simp add: overwritten_def)
  moreover have "since (rk_now s - rk_day) (drop (length recent) old) = []"
    using assms(4) in_set_dropD by (fastforce simp: since_def filter_empty_conv)
  moreover have "since (rk_now s - rk_day) recent = recent" using assms(5) by (simp add: since_def)
  ultimately show ?thesis by simp
qed

section \<open>Open orders\<close>

text \<open>The counter never drops below zero, and between an opening and its closing it returns to where it was.\<close>

lemma open_orders_counter:
  "OpenOrders u (RecordOpen u s) = OpenOrders u s + 1" "0 \<le> OpenOrders u s \<Longrightarrow> 0 \<le> OpenOrders u (RecordClose u s)"
  "0 \<le> OpenOrders u s \<Longrightarrow> OpenOrders u (RecordClose u (RecordOpen u s)) = OpenOrders u s"
  by (auto simp: OpenOrders_def RecordOpen_def RecordClose_def)

section \<open>At work\<close>

definition demo_rules :: pair_config where
  "demo_rules = (empty_config ''BTC/USDT'')\<lparr>pc_TradingEnabled := True, pc_MinNotional := Some (BF 53 5), pc_LotSize := Some (BF 53 2),
     pc_TickSize := Some (BF 53 2), pc_PriceBandPct := Some (BF 53 (1/2)), pc_CircuitBreakerPct := Some (BF 53 1), pc_ReferencePrice := Some (BF 128 100)\<rparr>"

definition demo_limit :: user_limit where
  "demo_limit = \<lparr>ul_UserID = ''alice'', ul_MaxOpenOrders = 0, ul_OrdersPerMinute = 2, ul_OrdersPerHour = 0, ul_OrdersPerDay = 4,
     ul_DailyOrderNotional = [], ul_MaxPosition = []\<rparr>"

definition demo_risk :: "int list \<Rightarrow> int \<Rightarrow> risk" where
  "demo_risk ts now = NewRiskEngine\<lparr>rk_pairs := [(''BTC/USDT'', demo_rules)], rk_limits := [(''alice'', demo_limit)],
     rk_counts := (if ts = [] then [] else [(''alice'', ts)]), rk_now := now\<rparr>"

definition demo_request :: "string \<Rightarrow> bf \<Rightarrow> order_request" where
  "demo_request pair p = \<lparr>rq_UserID = ''alice'', rq_Pair = pair, rq_Side = Buy, rq_Type = Limit, rq_Price = Some p, rq_Quantity = Some (BF 64 4)\<rparr>"

lemmas risk_defs = demo_risk_def demo_rules_def demo_limit_def demo_request_def NewRiskEngine_def empty_config_def Check_def
  checkCircuitBreaker_def checkQuantityPrecision_def checkPricePrecision_def checkNotional_def checkPriceBand_def checkUserRateLimits_def
  checkPositionLimit_def rate_exceeded_def positive_bf_def Notional_def deviates_def first_error_def tripped_def trip_def stamps_def since_def
  overwritten_def bf_abs_def bf_cmp_def minute_def rk_hour_def rk_day_def

lemma whole_passes: "bval f = of_int k \<Longrightarrow> nearIntegral f"
  by (simp add: nearIntegral_def isIntegral_def bf_trunc_def)

lemma demo_multiples: "nearIntegral (ratio (BF 64 4) (BF 53 2))" "nearIntegral (ratio (BF 64 120) (BF 53 2))" "nearIntegral (ratio (BF 64 300) (BF 53 2))"
  by (rule whole_passes [of _ 2] whole_passes [of _ 60] whole_passes [of _ 150], simp add: ratio_def res_prec_def)+

lemma demo_passes: "Check (demo_request ''BTC/USDT'' (BF 64 120)) (demo_risk [] now) = (None, demo_risk [now] now)"
  by (simp add: risk_defs demo_multiples float_defs Let_def)

theorem multiple_test_exact_witness: "\<not> nearIntegral (BF 64 (5/2)) \<and> nearIntegral (BF 64 (1000000001/2))"
proof -
  have ok: "bf_ok (BF 64 (5/2))" "bf_ok (BF 64 (1000000001/2))"
    by (simp_all add: bf_ok_def fround_exact [of 64 "-1"] on_grid_def)
  have "tolerance (BF 64 (5/2)) \<le> fround 64 (1/4)" unfolding tolerance_def by (simp add: fround_mono)
  also have "fround 64 (1/4 :: rat) = 1/4" by (rule fround_exact [of 64 "-2"]) (simp_all add: on_grid_def)
  finally have "tolerance (BF 64 (5/2)) \<le> 1/4" .
  moreover have "\<lfloor>5/2 :: rat\<rfloor> = 2" by (simp add: floor_eq_iff)
  then have "off_integer (5/2) = 1/2" by (simp add: off_integer_def)
  ultimately have "\<not> off_integer (5/2) \<le> tolerance (BF 64 (5/2))" by simp
  then show ?thesis using multiple_test_exact [OF ok(1)] multiple_test_exact [OF ok(2), THEN conjunct2] by simp
qed

theorem well_formed_multiple_passes_witness: "nearIntegral (ratio (BF 53 (fround 53 (3/10))) (BF 53 (fround 53 (1/10))))"
  using fround_error [of 53 "3/10"] fround_error [of 53 "1/10"]
  by (intro well_formed_multiple_passes [of "1/10" 3]) simp_all


theorem one_order_halts_pair_witness:
  "let s = snd (Check (demo_request ''BTC/USDT'' (BF 64 300)) (demo_risk [] 0))
   in fst (risk_run [Wait 1000, Reference ''BTC/USDT'' (Some (BF 64 300)), RiskCheck (demo_request ''BTC/USDT'' (BF 64 300))] s) = []"
proof -
  let ?r = "demo_request ''BTC/USDT'' (BF 64 300)"
  let ?cs = "[Wait 1000, Reference ''BTC/USDT'' (Some (BF 64 300)), RiskCheck ?r]"
  obtain out s' where run: "risk_run ?cs (snd (Check ?r (demo_risk [] 0))) = (out, s')" by fastforce
  have c: "gm_get (rk_pairs (demo_risk [] 0)) (rq_Pair ?r) = Some demo_rules" "pc_TradingEnabled demo_rules" "rq_Type ?r = Market \<longrightarrow> pc_MarketOrdersEnabled demo_rules"
    "positive_bf (pc_CircuitBreakerPct demo_rules) = Some (BF 53 1)" "positive_bf (pc_ReferencePrice demo_rules) = Some (BF 128 100)"
    "positive_bf (rq_Price ?r) = Some (BF 64 300)" "deviates (BF 64 300) (BF 128 100) (BF 53 1)" "\<forall>x \<in> set ?cs. \<not> resumes (rq_Pair ?r) x"
    by (simp_all add: risk_defs float_defs Let_def)
  have "\<forall>(q, t) \<in> set out. rq_Pair q \<noteq> ''BTC/USDT''"
    using one_order_halts_pair [OF c(1-7) run c(8)] by (simp add: demo_request_def)
  moreover have "\<forall>(q, t) \<in> set out. rq_Pair q = ''BTC/USDT''"
    using run by (auto simp: demo_request_def split: if_splits)
  ultimately have "out = []" by (cases out) auto
  then show ?thesis using run unfolding Let_def by simp
qed

theorem reference_price_suspends_witness:
  "let s = demo_risk [] 0; r = demo_request ''XYZ/USDT'' (BF 64 120)
   in fst (Check r s) = None \<and> fst (Check r (UpdateReferencePrice ''XYZ/USDT'' (Some (BF 64 120)) s)) = Some ErrTradingSuspended"
  using reference_price_suspends [of "demo_risk [] 0" "demo_request ''XYZ/USDT'' (BF 64 120)" "Some (BF 64 120)"]
  by (simp add: demo_risk_def demo_request_def NewRiskEngine_def)

theorem rate_limits_hold_witness:
  "let r = RiskCheck (demo_request ''BTC/USDT'' (BF 64 120)); out = fst (risk_run [r, Wait 5, r, Wait 5, r] (demo_risk [] 0))
   in length out = 2 \<and> sparse minute 2 (times_of ''alice'' out)"
proof -
  let ?r = "RiskCheck (demo_request ''BTC/USDT'' (BF 64 120))"
  obtain out s' where run: "risk_run [?r, Wait 5, ?r, Wait 5, ?r] (demo_risk [] 0) = (out, s')" by fastforce
  have "stamps ''alice'' (demo_risk [] 0) = []" "gm_get (rk_limits (demo_risk [] 0)) ''alice'' = Some demo_limit"
    by (simp_all add: stamps_def demo_risk_def NewRiskEngine_def)
  from rate_limits_hold [OF run this] have "sparse minute (ul_OrdersPerMinute demo_limit) (times_of ''alice'' out)"
    by (auto simp: demo_request_def demo_risk_def)
  moreover have "length (fst (risk_run [?r, Wait 5, ?r, Wait 5, ?r] (demo_risk [] 0))) = 2"
    by (simp add: risk_defs demo_multiples float_defs Let_def)
  ultimately show ?thesis unfolding Let_def run fst_conv by (simp add: demo_limit_def)
qed

lemma one_day: "1 < rk_day"
  by (simp add: rk_day_def rk_hour_def minute_def)

text \<open>Two orders yesterday, two just now: the third is refused, after which the two count as four, the limit of a day.\<close>

theorem refusal_counts_twice_witness:
  "let r = demo_request ''BTC/USDT'' (BF 64 120); s = demo_risk [0, 0, rk_day + 2, rk_day + 2] (rk_day + 3); s1 = snd (checkUserRateLimits r s)
   in since 3 (stamps ''alice'' s1) = [rk_day + 2, rk_day + 2, rk_day + 2, rk_day + 2] \<and>
      fst (Check r (s1\<lparr>rk_now := rk_now s1 + rk_hour\<rparr>)) = Some ErrDailyVolumeLimit"
proof -
  define r where "r = demo_request ''BTC/USDT'' (BF 64 120)"
  define s where "s = demo_risk [0, 0, rk_day + 2, rk_day + 2] (rk_day + 3)"
  define s1 where "s1 = snd (checkUserRateLimits r s)"
  have "fst (checkUserRateLimits r s) = Some ErrOrderRateLimit" by (simp add: r_def s_def risk_defs Let_def)
  then have "checkUserRateLimits r s = (Some ErrOrderRateLimit, s1)" by (metis prod.collapse s1_def)
  from refusal_counts_twice [OF this, of "[0, 0]" "[rk_day + 2, rk_day + 2]"]
  have "since 3 (stamps ''alice'' s1) = [rk_day + 2, rk_day + 2, rk_day + 2, rk_day + 2]"
    by (simp add: r_def s_def demo_request_def demo_risk_def stamps_def one_day)
  moreover have "fst (Check r (s1\<lparr>rk_now := rk_now s1 + rk_hour\<rparr>)) = Some ErrDailyVolumeLimit"
    by (simp add: s1_def r_def s_def risk_defs demo_multiples float_defs Let_def)
  ultimately show ?thesis unfolding r_def [symmetric] s_def [symmetric] Let_def s1_def [symmetric] by simp
qed

end
