(* ===== verification/Pnl.thy ===== *)
theory Pnl
  imports Engine
begin

text \<open>
  Realized profit and loss of spot trading, \<open>internal/pnl/service.go\<close>: positions per user and asset with their average cost, fed by the fills of
  the matching engine, and the daily totals. The clock is the number \<open>pn_day\<close> of the day with the time \<open>pn_now\<close>; \<open>pn_date\<close> writes a day as
  \<open>2006-01-02\<close>. A key is the user and the asset, or the date, joined by a colon.
\<close>

record pnl_position =
  pp_Asset :: string
  pp_Qty :: bf
  pp_AvgCost :: bf
  pp_Realized :: bf
  pp_TodayRealized :: bf
  pp_TotalFees :: bf
  pp_LastFill :: int

record pnl =
  pn_positions :: "(string, pnl_position) gomap"
  pn_daily :: "(string, bf) gomap"
  pn_date :: "int \<Rightarrow> string"
  pn_day :: int
  pn_now :: int

definition NewPnlService :: "(int \<Rightarrow> string) \<Rightarrow> pnl" where
  "NewPnlService date = \<lparr>pn_positions = [], pn_daily = [], pn_date = date, pn_day = 0, pn_now = 0\<rparr>"

definition join_key :: "string \<Rightarrow> string \<Rightarrow> string" where
  "join_key u x = u @ CHR '':'' # x"

definition empty_position :: "string \<Rightarrow> pnl_position" where
  "empty_position asset =
     \<lparr>pp_Asset = asset, pp_Qty = new_float, pp_AvgCost = new_float, pp_Realized = new_float, pp_TodayRealized = new_float,
      pp_TotalFees = new_float, pp_LastFill = 0\<rparr>"

definition position_at :: "string \<Rightarrow> string \<Rightarrow> pnl \<Rightarrow> pnl_position" where
  "position_at u asset s = (case gm_get (pn_positions s) (join_key u asset) of Some p \<Rightarrow> p | None \<Rightarrow> empty_position asset)"

definition addDaily :: "string \<Rightarrow> string \<Rightarrow> bf \<Rightarrow> pnl \<Rightarrow> pnl" where
  "addDaily u date amount s =
     (let d = (case gm_get (pn_daily s) (join_key u date) of Some d \<Rightarrow> d | None \<Rightarrow> new_float)
      in s\<lparr>pn_daily := gm_put (join_key u date) (bf_add d d amount) (pn_daily s)\<rparr>)"

text \<open>What a fill realizes against an open position of the other direction.\<close>

definition reduces :: "bf \<Rightarrow> bf \<Rightarrow> bool" where
  "reduces oldQty delta \<longleftrightarrow> 0 < bf_sign oldQty \<and> bf_sign delta < 0 \<or> bf_sign oldQty < 0 \<and> 0 < bf_sign delta"

definition realized_of :: "pnl_position \<Rightarrow> bf \<Rightarrow> bf \<Rightarrow> bf" where
  "realized_of p delta price =
     (let a = bf_abs new_float delta; b = bf_abs new_float (pp_Qty p); closed = (if bf_cmp b a < 0 then b else a);
          r = bf_mul new_float closed (bf_sub new_float price (pp_AvgCost p))
      in if bf_sign (pp_Qty p) < 0 then bf_neg r r else r)"

text \<open>The quotient is taken of a quantity that is not zero.\<close>

definition new_cost :: "bf \<Rightarrow> bf \<Rightarrow> bf \<Rightarrow> bf \<Rightarrow> bf \<Rightarrow> bf" where
  "new_cost oldQty avg newQty delta price =
     (let n = bf_add new_float (bf_mul new_float oldQty avg) (bf_mul new_float delta price); p = res_prec new_float n newQty
      in if bf_sign newQty = 0 then new_float
         else if bf_sign oldQty \<noteq> 0 \<and> bf_sign oldQty \<noteq> bf_sign newQty then price
         else if bf_sign oldQty = 0 \<or> bf_sign oldQty = bf_sign delta then BF p (fround p (bval n / bval newQty))
         else avg)"

definition filled_position :: "pnl_position \<Rightarrow> bf \<Rightarrow> bf \<Rightarrow> int \<Rightarrow> pnl_position" where
  "filled_position p delta price now =
     (let newQty = bf_add new_float (pp_Qty p) delta
      in p\<lparr>pp_Realized := (if reduces (pp_Qty p) delta then bf_add (pp_Realized p) (pp_Realized p) (realized_of p delta price) else pp_Realized p),
           pp_AvgCost := new_cost (pp_Qty p) (pp_AvgCost p) newQty delta price, pp_Qty := newQty, pp_LastFill := now\<rparr>)"

definition updateUser :: "string \<Rightarrow> string \<Rightarrow> side \<Rightarrow> bf \<Rightarrow> bf \<Rightarrow> string \<Rightarrow> pnl \<Rightarrow> pnl" where
  "updateUser u base sd price qty date s =
     (if u = [] then s
      else let delta = (if sd = Buy then qty else bf_neg new_float qty);
               p = position_at u base s;
               s1 = (if reduces (pp_Qty p) delta then addDaily u date (realized_of p delta price) s else s)
           in s1\<lparr>pn_positions := gm_put (join_key u base) (filled_position p delta price (pn_now s)) (pn_positions s1)\<rparr>)"

text \<open>\<open>strings.Split\<close> on the slash, when it gives two parts.\<close>

definition two_parts :: "string \<Rightarrow> (string \<times> string) option" where
  "two_parts pair =
     (case dropWhile (\<lambda>c. c \<noteq> CHR ''/'') pair of
        [] \<Rightarrow> None
      | c # quote \<Rightarrow> if CHR ''/'' \<in> set quote then None else Some (takeWhile (\<lambda>c. c \<noteq> CHR ''/'') pair, quote))"

definition RecordFill :: "fill option \<Rightarrow> pnl \<Rightarrow> pnl" where
  "RecordFill f s =
     (case f of
        None \<Rightarrow> s
      | Some f \<Rightarrow>
          (case (f_Price f, two_parts (f_Pair f)) of
             (Some price, Some (base, quote)) \<Rightarrow>
               let date = pn_date s (pn_day s)
               in updateUser (f_MakerUserID f) base (if f_Side f = Sell then Buy else Sell) price (f_Quantity f) date
                    (updateUser (f_TakerUserID f) base (f_Side f) price (f_Quantity f) date s)
           | _ \<Rightarrow> s))"

definition RecordFee :: "string \<Rightarrow> string \<Rightarrow> bf option \<Rightarrow> pnl \<Rightarrow> pnl" where
  "RecordFee u asset fee s =
     (case fee of
        None \<Rightarrow> s
      | Some x \<Rightarrow>
          if u = [] \<or> bf_sign x = 0 then s
          else let p = position_at u asset s
               in s\<lparr>pn_positions := gm_put (join_key u asset) (p\<lparr>pp_TotalFees := bf_add (pp_TotalFees p) (pp_TotalFees p) x\<rparr>) (pn_positions s)\<rparr>)"

section \<open>Reading\<close>

record pnl_summary =
  sm_UserID :: string
  sm_Date :: string
  sm_TodayRealized :: bf
  sm_TotalRealized :: bf
  sm_Unrealized :: bf
  sm_TotalFees :: bf
  sm_PortfolioValue :: bf
  sm_Positions :: "(string, pnl_position) gomap"
  sm_Refs :: "(string, bf) gomap"

text \<open>One position added to the summary; a reference price may be missing or \<open>nil\<close>.\<close>

definition add_position :: "(string, bf option) gomap \<Rightarrow> pnl_position \<Rightarrow> pnl_summary \<Rightarrow> pnl_summary" where
  "add_position refs p m =
     (let m1 = m\<lparr>sm_TotalRealized := bf_add (sm_TotalRealized m) (sm_TotalRealized m) (pp_Realized p),
                 sm_TotalFees := bf_add (sm_TotalFees m) (sm_TotalFees m) (pp_TotalFees p)\<rparr>;
          m2 = (case gm_get refs (pp_Asset p) of
                  Some (Some ref) \<Rightarrow>
                    let v = bf_mul new_float (pp_Qty p) ref
                    in m1\<lparr>sm_Refs := gm_put (pp_Asset p) ref (sm_Refs m1),
                          sm_Unrealized := bf_add (sm_Unrealized m1) (sm_Unrealized m1)
                            (bf_mul new_float (pp_Qty p) (bf_sub new_float ref (pp_AvgCost p))),
                          sm_PortfolioValue := bf_add (sm_PortfolioValue m1) (sm_PortfolioValue m1) (if bf_sign v < 0 then bf_neg v v else v)\<rparr>
                | _ \<Rightarrow> m1)
      in m2\<lparr>sm_Positions := gm_put (pp_Asset p) (p\<lparr>pp_TodayRealized := sm_TodayRealized m\<rparr>) (sm_Positions m2)\<rparr>)"

definition has_prefix :: "string \<Rightarrow> string \<Rightarrow> bool" where
  "has_prefix k pre \<longleftrightarrow> take (length pre) k = pre"

definition Summary :: "string \<Rightarrow> (string, bf option) gomap \<Rightarrow> pnl \<Rightarrow> pnl_summary" where
  "Summary u refs s =
     (let date = pn_date s (pn_day s);
          today = (case gm_get (pn_daily s) (join_key u date) of Some d \<Rightarrow> d | None \<Rightarrow> new_float);
          m = \<lparr>sm_UserID = u, sm_Date = date, sm_TodayRealized = today, sm_TotalRealized = new_float, sm_Unrealized = new_float,
               sm_TotalFees = new_float, sm_PortfolioValue = new_float, sm_Positions = [], sm_Refs = []\<rparr>
      in fold (add_position refs) (map snd (filter (\<lambda>(k, p). has_prefix k (join_key u [])) (pn_positions s))) m)"

definition history_days :: "int \<Rightarrow> nat" where
  "history_days n = nat (if n \<le> 0 then 30 else min n 365)"

definition History :: "string \<Rightarrow> int \<Rightarrow> pnl \<Rightarrow> (string \<times> bf) list" where
  "History u days s =
     map (\<lambda>i. let date = pn_date s (pn_day s - int i)
              in (date, case gm_get (pn_daily s) (join_key u date) of Some d \<Rightarrow> d | None \<Rightarrow> new_float))
         (rev [0..<history_days days])"

definition asset_value :: "(string, bf option) gomap \<Rightarrow> string \<times> bf option \<Rightarrow> bf option" where
  "asset_value refs = (\<lambda>(asset, bal). case bal of
      None \<Rightarrow> None
    | Some b \<Rightarrow> if asset = ''USDT'' then Some b
        else (case gm_get refs asset of Some (Some ref) \<Rightarrow> Some (bf_mul b b ref) | _ \<Rightarrow> None))"

definition PortfolioValue :: "(string, bf option) gomap \<Rightarrow> (string, bf option) gomap \<Rightarrow> bf" where
  "PortfolioValue balances refs =
     fold (\<lambda>x t. case asset_value refs x of Some v \<Rightarrow> bf_add t t v | None \<Rightarrow> t) balances new_float"

end
