(* ===== verification/Pnl_Properties.thy ===== *)
theory Pnl_Properties
  imports Pnl Wallet_Properties
begin

text \<open>
  What the profit-and-loss book guarantees: each fill moves realized profit minus cost of the position by the money that changes hands, up to rounding;
  over any run of fills the positions in an asset add up to zero; and a summary shows the positions of its user.
\<close>

section \<open>Rounding\<close>

text \<open>\<open>off e k B x y\<close>: \<open>x\<close> is \<open>y\<close> up to \<open>k\<close> roundings relative to \<open>B\<close>.\<close>

definition off :: "rat \<Rightarrow> rat \<Rightarrow> rat \<Rightarrow> rat \<Rightarrow> rat \<Rightarrow> bool" where
  "off e k B x y \<longleftrightarrow> \<bar>x - y\<bar> \<le> k * e * B"

lemma off_refl [simp]: "0 \<le> e \<Longrightarrow> 0 \<le> B \<Longrightarrow> off e 0 B x x"
  by (simp add: off_def)

lemma off_add: "off e k B x y \<Longrightarrow> off e k C u v \<Longrightarrow> off e k (B + C) (x + u) (y + v)"
  unfolding off_def by (simp add: algebra_simps)

lemma off_minus: "off e k B (- x) (- y) \<longleftrightarrow> off e k B x y"
  unfolding off_def by linarith

lemma off_diff: "off e k B x y \<Longrightarrow> off e k C u v \<Longrightarrow> off e k (B + C) (x - u) (y - v)"
  using off_add [of e k B x y C "- u" "- v"] by (simp add: off_minus)

lemma off_mult: "off e k B x y \<Longrightarrow> off e k (\<bar>c\<bar> * B) (c * x) (c * y)"
proof -
  assume "off e k B x y"
  then have "\<bar>c\<bar> * \<bar>x - y\<bar> \<le> \<bar>c\<bar> * (k * e * B)" unfolding off_def by (rule mult_left_mono) simp
  then show ?thesis by (simp add: off_def abs_mult [symmetric] algebra_simps)
qed

lemma off_weaken: "off e k B x y \<Longrightarrow> k \<le> k' \<Longrightarrow> B \<le> B' \<Longrightarrow> 0 \<le> e \<Longrightarrow> 0 \<le> k \<Longrightarrow> 0 \<le> B \<Longrightarrow> off e k' B' x y"
  unfolding off_def by (erule order_trans, rule mult_mono) (auto intro: mult_right_mono)

text \<open>One more rounding at a precision of at least \<open>n\<close> bits.\<close>

lemma off_round:
  assumes x: "off e k B x y" and y: "\<bar>y\<bar> \<le> B" and e: "e = 2 powi - int n" "k * e \<le> 1" "0 \<le> k" and p: "n \<le> p" "0 < n"
  shows "off e (k + 2) B (fround p x) y"
proof -
  have pe: "2 powi - int p \<le> e" using p by (simp add: e powi_le)
  have B: "0 \<le> B" using y by linarith
  have "k * e * B \<le> 1 * B" using e(2) B by (rule mult_right_mono)
  then have "\<bar>x\<bar> \<le> 2 * B" using x y unfolding off_def by linarith
  then have "\<bar>x\<bar> * 2 powi - int p \<le> 2 * B * e" using pe B by (intro mult_mono) auto
  then have "\<bar>fround p x - x\<bar> \<le> 2 * B * e" using fround_error [of p x] p by linarith
  then show ?thesis using x unfolding off_def by (simp add: algebra_simps)
qed

lemma off_round_exact: "e = 2 powi - int n \<Longrightarrow> n \<le> p \<Longrightarrow> 0 < n \<Longrightarrow> \<bar>y\<bar> \<le> B \<Longrightarrow> off e 1 B (fround p y) y"
proof -
  assume a: "e = 2 powi - int n" "n \<le> p" "0 < n" "\<bar>y\<bar> \<le> B"
  have "\<bar>y\<bar> * 2 powi - int p \<le> B * e" using a by (intro mult_mono) (auto simp: powi_le)
  then show ?thesis using fround_error [of p y] a by (simp add: off_def algebra_simps)
qed

section \<open>One fill\<close>

text \<open>Realized profit minus the cost of what is held.\<close>

definition equity :: "pnl_position \<Rightarrow> rat" where
  "equity p = bval (pp_Realized p) - bval (pp_Qty p) * bval (pp_AvgCost p)"

text \<open>What the amounts of a fill can reach, to which the error is relative.\<close>

definition volume :: "pnl_position \<Rightarrow> bf \<Rightarrow> bf \<Rightarrow> rat" where
  "volume p delta price = \<bar>bval (pp_Realized p)\<bar> + (\<bar>bval (pp_Qty p)\<bar> + \<bar>bval delta\<bar>) * (\<bar>bval (pp_AvgCost p)\<bar> + \<bar>bval price\<bar>)"


text \<open>The precisions at which the book computes: those of the fill, and that of a realized profit once there is one.\<close>

definition precise :: "nat \<Rightarrow> pnl_position \<Rightarrow> bf \<Rightarrow> bf \<Rightarrow> bool" where
  "precise n p delta price \<longleftrightarrow> 3 \<le> n \<and> n \<le> bprec delta \<and> n \<le> bprec price \<and>
     (bval (pp_Qty p) = 0 \<or> n \<le> bprec (pp_Qty p)) \<and>
     (if bprec (pp_Realized p) = 0 then bval (pp_Realized p) = 0 else n \<le> bprec (pp_Realized p))"

lemma small_unit: "3 \<le> n \<Longrightarrow> (2::rat) powi - int n \<le> 1 / 8"
proof -
  assume "3 \<le> n"
  then have "(2::rat) powi - int n \<le> 2 powi - 3" by (simp only: powi_le)
  also have "(2::rat) powi - 3 = 1 / 8" by (simp add: power_int_def power_divide)
  finally show ?thesis .
qed

lemma bf_abs_new [simp]: "bf_abs new_float x = BF (bprec x) \<bar>bval x\<bar>"
  by (simp add: bf_abs_def bf_set_def)

lemma bf_neg_self [simp]: "bf_neg x x = BF (bprec x) (- bval x)"
  by (simp add: bf_neg_def bf_set_def)

lemma realized_of_eq:
  "realized_of p delta price =
     (let q = max (if \<bar>bval (pp_Qty p)\<bar> < \<bar>bval delta\<bar> then bprec (pp_Qty p) else bprec delta) (max (bprec price) (bprec (pp_AvgCost p)));
          v = fround q (min \<bar>bval (pp_Qty p)\<bar> \<bar>bval delta\<bar> * fround (max (bprec price) (bprec (pp_AvgCost p))) (bval price - bval (pp_AvgCost p)))
      in BF q (if bval (pp_Qty p) < 0 then - v else v))"
proof -
  have m: "min x y = (if x < y then x else y)" for x y :: rat by (simp add: min_def)
  show ?thesis unfolding m realized_of_def Let_def bf_mul_def bf_sub_def res_prec_def bf_cmp_simps bf_sign_simps bf_abs_new bf_neg_self
    by (cases "\<bar>bval (pp_Qty p)\<bar> < \<bar>bval delta\<bar>"; cases "bval (pp_Qty p) < 0"; simp only: bf.sel if_True if_False simp_thms)
qed

lemma realized_near:
  assumes pr: "precise n p delta price" and e: "e = 2 powi - int n"
  defines "c \<equiv> min \<bar>bval (pp_Qty p)\<bar> \<bar>bval delta\<bar>" and "g \<equiv> bval price - bval (pp_AvgCost p)"
  shows "off e 3 (c * (\<bar>bval price\<bar> + \<bar>bval (pp_AvgCost p)\<bar>)) (bval (realized_of p delta price)) ((if bval (pp_Qty p) < 0 then - c else c) * g)"
    and "n \<le> bprec (realized_of p delta price)"
proof -
  let ?B = "\<bar>bval price\<bar> + \<bar>bval (pp_AvgCost p)\<bar>" and ?p = "max (bprec price) (bprec (pp_AvgCost p))"
  have n: "3 \<le> n" "n \<le> ?p" using pr by (auto simp: precise_def)
  have s: "e \<le> 1/8" "0 \<le> e" using small_unit [OF n(1)] e by auto
  have c: "0 \<le> c" by (simp add: c_def)
  have g: "\<bar>g\<bar> \<le> ?B" unfolding g_def by linarith
  have "off e 1 ?B (fround ?p g) g" by (rule off_round_exact [OF e n(2) _ g]) (use n in simp)
  from off_mult [OF this, of c] have 1: "off e 1 (c * ?B) (c * fround ?p g) (c * g)" using c by simp
  have 2: "\<bar>c * g\<bar> \<le> c * ?B" using g c by (simp add: abs_mult mult_left_mono)
  have 3: "off e 3 (c * ?B) (fround q (c * fround ?p g)) (c * g)" if "n \<le> q" for q
    using off_round [OF 1 2 e _ _ that] n s by simp
  obtain q where r: "realized_of p delta price = BF q (if bval (pp_Qty p) < 0 then - fround q (c * fround ?p g) else fround q (c * fround ?p g))" "n \<le> q"
  proof (rule that [of "max (if \<bar>bval (pp_Qty p)\<bar> < \<bar>bval delta\<bar> then bprec (pp_Qty p) else bprec delta) ?p"])
    show "n \<le> max (if \<bar>bval (pp_Qty p)\<bar> < \<bar>bval delta\<bar> then bprec (pp_Qty p) else bprec delta) ?p" using n by simp
  qed (use realized_of_eq [of p delta price] in \<open>simp add: c_def g_def Let_def\<close>)
  show "n \<le> bprec (realized_of p delta price)" using r by simp
  show "off e 3 (c * ?B) (bval (realized_of p delta price)) ((if bval (pp_Qty p) < 0 then - c else c) * g)"
    using 3 [OF r(2)] r(1) by (simp add: off_minus)
qed

text \<open>The realized profit after a fill that reduces the position.\<close>

lemma booked_near:
  assumes pr: "precise n p delta price" and e: "e = 2 powi - int n"
  defines "c \<equiv> min \<bar>bval (pp_Qty p)\<bar> \<bar>bval delta\<bar>"
  shows "off e 5 (\<bar>bval (pp_Realized p)\<bar> + c * (\<bar>bval price\<bar> + \<bar>bval (pp_AvgCost p)\<bar>))
    (bval (bf_add (pp_Realized p) (pp_Realized p) (realized_of p delta price)))
    (bval (pp_Realized p) + (if bval (pp_Qty p) < 0 then - c else c) * (bval price - bval (pp_AvgCost p)))"
proof -
  let ?R = "bval (pp_Realized p)" and ?B = "\<bar>bval price\<bar> + \<bar>bval (pp_AvgCost p)\<bar>" and ?g = "(if bval (pp_Qty p) < 0 then - c else c) * (bval price - bval (pp_AvgCost p))"
  let ?q = "res_prec (pp_Realized p) (pp_Realized p) (realized_of p delta price)"
  have n: "3 \<le> n" using pr by (simp add: precise_def)
  have s: "e \<le> 1/8" "0 \<le> e" using small_unit [OF n] e by auto
  have c: "0 \<le> c" by (simp add: c_def)
  have q: "n \<le> ?q" using pr realized_near(2) [OF pr e] by (auto simp: precise_def res_prec_def split: if_splits)
  have r: "off e 3 (c * ?B) (bval (realized_of p delta price)) ?g" unfolding c_def by (rule realized_near(1) [OF pr e])
  have "off e 3 \<bar>?R\<bar> ?R ?R" using s by (simp add: off_def)
  from off_add [OF this r] have a: "off e 3 (\<bar>?R\<bar> + c * ?B) (?R + bval (realized_of p delta price)) (?R + ?g)" .
  have "\<bar>bval price - bval (pp_AvgCost p)\<bar> \<le> ?B" by linarith
  then have "\<bar>?g\<bar> \<le> c * ?B" using c by (auto simp: abs_mult intro!: mult_left_mono)
  then have b: "\<bar>?R + ?g\<bar> \<le> \<bar>?R\<bar> + c * ?B" by linarith
  show ?thesis using off_round [OF a b e _ _ q] n s by (simp add: bf_add_def)
qed


lemma off_diff_sum: "off e k V x y \<Longrightarrow> off e j V u v \<Longrightarrow> off e (k + j) V (x - u) (y - v)"
  unfolding off_def by (simp add: algebra_simps)

text \<open>The quantity after the fill, times a cost that is at most the costs involved.\<close>

lemma held_near:
  assumes pr: "precise n p delta price" and e: "e = 2 powi - int n" and k: "\<bar>k\<bar> \<le> \<bar>bval (pp_AvgCost p)\<bar> + \<bar>bval price\<bar>"
  shows "off e 1 (volume p delta price) (bval (bf_add new_float (pp_Qty p) delta) * k) ((bval (pp_Qty p) + bval delta) * k)"
proof -
  let ?q = "bval (pp_Qty p) + bval delta" and ?B = "\<bar>bval (pp_AvgCost p)\<bar> + \<bar>bval price\<bar>"
  have n: "0 < n" "n \<le> max (bprec (pp_Qty p)) (bprec delta)" using pr by (auto simp: precise_def)
  have "off e 1 \<bar>?q\<bar> (fround (max (bprec (pp_Qty p)) (bprec delta)) ?q) ?q" by (rule off_round_exact [OF e n(2,1)]) simp
  from off_mult [OF this, of k] have 1: "off e 1 (\<bar>k\<bar> * \<bar>?q\<bar>) (bval (bf_add new_float (pp_Qty p) delta) * k) (?q * k)"
    by (simp add: bf_add_def res_prec_def mult.commute)
  have "\<bar>k\<bar> * \<bar>?q\<bar> \<le> ?B * (\<bar>bval (pp_Qty p)\<bar> + \<bar>bval delta\<bar>)" using k by (intro mult_mono) auto
  then have 2: "\<bar>k\<bar> * \<bar>?q\<bar> \<le> volume p delta price" by (simp add: volume_def mult.commute add_increasing)
  have "0 \<le> e" by (simp add: e)
  from off_weaken [OF 1 order_refl 2 this] show ?thesis by simp
qed

lemma reducing_near:
  assumes pr: "precise n p delta price" and e: "e = 2 powi - int n" and k: "\<bar>k\<bar> \<le> \<bar>bval (pp_AvgCost p)\<bar> + \<bar>bval price\<bar>"
    and y: "y = bval (pp_Realized p) + (if bval (pp_Qty p) < 0 then - c else c) * (bval price - bval (pp_AvgCost p)) - (bval (pp_Qty p) + bval delta) * k"
      "c = min \<bar>bval (pp_Qty p)\<bar> \<bar>bval delta\<bar>"
  shows "off e 6 (volume p delta price)
    (bval (bf_add (pp_Realized p) (pp_Realized p) (realized_of p delta price)) - bval (bf_add new_float (pp_Qty p) delta) * k) y"
proof -
  have "c * (\<bar>bval price\<bar> + \<bar>bval (pp_AvgCost p)\<bar>) \<le> (\<bar>bval (pp_Qty p)\<bar> + \<bar>bval delta\<bar>) * (\<bar>bval (pp_AvgCost p)\<bar> + \<bar>bval price\<bar>)"
    unfolding add.commute [of "\<bar>bval price\<bar>"] by (rule mult_right_mono) (simp_all add: y(2) min_def)
  then have v: "\<bar>bval (pp_Realized p)\<bar> + c * (\<bar>bval price\<bar> + \<bar>bval (pp_AvgCost p)\<bar>) \<le> volume p delta price" by (simp add: volume_def)
  have c: "0 \<le> c" by (simp add: y(2))
  have "off e 5 (volume p delta price) (bval (bf_add (pp_Realized p) (pp_Realized p) (realized_of p delta price)))
      (bval (pp_Realized p) + (if bval (pp_Qty p) < 0 then - c else c) * (bval price - bval (pp_AvgCost p)))"
    unfolding y(2) by (rule off_weaken [OF booked_near [OF pr e] _ v [unfolded y(2)]]) (use c in \<open>simp_all add: e y(2)\<close>)
  from off_diff_sum [OF this held_near [OF pr e k]] show ?thesis by (simp add: y(1))
qed

lemma same_sign: "bf_sign x = bf_sign y \<longleftrightarrow> (0 < bval x \<longleftrightarrow> 0 < bval y) \<and> (bval x < 0 \<longleftrightarrow> bval y < 0)"
  by (simp add: bf_sign_def)

lemma quotient_near:
  assumes N: "off e 3 B N y" "\<bar>y\<bar> \<le> B" and F: "off e 1 \<bar>N / Q\<bar> F (N / Q)" and e: "e \<le> 1/8" "0 \<le> e" and Q: "Q \<noteq> 0"
  shows "off e 5 B (Q * F) y"
proof -
  have "\<bar>N\<bar> \<le> B + 3 * e * B" using N unfolding off_def by linarith
  also have "\<dots> \<le> 2 * B" using mult_right_mono [of "3 * e" 1 B] e N(2) by simp
  finally have "e * \<bar>N\<bar> \<le> e * (2 * B)" using e(2) by (rule mult_left_mono)
  moreover have "\<bar>Q * F - N\<bar> \<le> e * \<bar>N\<bar>" using off_mult [OF F, of Q] Q by (simp add: off_def abs_divide)
  ultimately show ?thesis using N(1) unfolding off_def by (simp add: algebra_simps)
qed

text \<open>A fill in the direction of the position, or into an empty one.\<close>

lemma adding_near:
  assumes pr: "precise n p delta price" and e: "e = 2 powi - int n"
    and q: "bf_sign (bf_add new_float (pp_Qty p) delta) \<noteq> 0" "bf_sign (pp_Qty p) = 0 \<or> bf_sign (pp_Qty p) = bf_sign delta"
  shows "off e 5 (volume p delta price)
    (bval (bf_add new_float (pp_Qty p) delta) * bval (new_cost (pp_Qty p) (pp_AvgCost p) (bf_add new_float (pp_Qty p) delta) delta price))
    (bval (pp_Qty p) * bval (pp_AvgCost p) + bval delta * bval price)"
proof -
  let ?q = "bval (pp_Qty p)" and ?a = "bval (pp_AvgCost p)" and ?x = "bval delta" and ?m = "bval price" and ?Q = "bf_add new_float (pp_Qty p) delta"
  let ?B = "\<bar>?q * ?a\<bar> + \<bar>?x * ?m\<bar>"
  let ?n1 = "bf_mul new_float (pp_Qty p) (pp_AvgCost p)" and ?n2 = "bf_mul new_float delta price"
  let ?N = "bf_add new_float ?n1 ?n2"
  have n: "3 \<le> n" "n \<le> bprec delta" "n \<le> bprec price" "0 < n" using pr by (auto simp: precise_def)
  have s: "e \<le> 1/8" "0 \<le> e" using small_unit [OF n(1)] e by auto
  have q0: "?q = 0 \<or> n \<le> bprec (pp_Qty p)" using pr by (auto simp: precise_def)
  have f: "\<not> (bf_sign (pp_Qty p) \<noteq> 0 \<and> bf_sign (pp_Qty p) \<noteq> bf_sign ?Q)"
    using q n by (auto simp: bf_add_def res_prec_def bf_sign_def split: if_splits)
  have n1: "off e 1 \<bar>?q * ?a\<bar> (bval ?n1) (?q * ?a)"
  proof (cases "?q = 0")
    case False
    then have "n \<le> max (bprec (pp_Qty p)) (bprec (pp_AvgCost p))" using q0 by simp
    then show ?thesis unfolding bf_mul_def by (simp add: res_prec_def off_round_exact [OF e _ n(4)])
  qed (use s in \<open>simp add: bf_mul_def off_def\<close>)
  have n2: "off e 1 \<bar>?x * ?m\<bar> (bval ?n2) (?x * ?m)"
    unfolding bf_mul_def by (simp add: res_prec_def off_round_exact [OF e _ n(4)] n le_max_iff_disj)
  have B: "\<bar>?q * ?a + ?x * ?m\<bar> \<le> ?B" by linarith
  have "n \<le> res_prec new_float ?n1 ?n2" using n by (auto simp: res_prec_def bf_mul_def)
  then have N: "off e 3 ?B (bval ?N) (?q * ?a + ?x * ?m)"
    using off_round [OF off_add [OF n1 n2] B e _ _ _ n(4)] s by (simp add: bf_add_def)
  have P: "n \<le> res_prec new_float ?N ?Q" using n by (auto simp: res_prec_def bf_add_def)
  have "off e 1 \<bar>bval ?N / bval ?Q\<bar> (fround (res_prec new_float ?N ?Q) (bval ?N / bval ?Q)) (bval ?N / bval ?Q)"
    by (rule off_round_exact [OF e P n(4)]) simp
  from quotient_near [OF N B this s] have "off e 5 ?B (bval ?Q * fround (res_prec new_float ?N ?Q) (bval ?N / bval ?Q)) (?q * ?a + ?x * ?m)"
    using q(1) by simp
  moreover have "bval (new_cost (pp_Qty p) (pp_AvgCost p) ?Q delta price) = fround (res_prec new_float ?N ?Q) (bval ?N / bval ?Q)"
    by (simp only: new_cost_def Let_def if_not_P [OF q(1)] if_not_P [OF f] if_P [OF q(2)] bf.sel)
  ultimately have "off e 5 ?B (bval ?Q * bval (new_cost (pp_Qty p) (pp_AvgCost p) ?Q delta price)) (?q * ?a + ?x * ?m)" by simp
  moreover have "?B \<le> volume p delta price" unfolding volume_def by (simp add: abs_mult algebra_simps add_increasing add_increasing2)
  ultimately show ?thesis using off_weaken [of e 5 ?B _ _ 5] s by simp
qed


text \<open>
  C31: Fills are booked at what they cost. Whether a fill opens, adds to, reduces, closes or turns a position around, the realized profit minus the cost of what is held
  changes by exactly the money that changes hands, up to six roundings relative to the amounts involved.
\<close>

theorem fill_books_cash:
  assumes pr: "precise n p delta price"
  shows "\<bar>equity (filled_position p delta price now) - (equity p - bval delta * bval price)\<bar> \<le> 6 * 2 powi - int n * volume p delta price"
proof -
  let ?q = "bval (pp_Qty p)" and ?a = "bval (pp_AvgCost p)" and ?x = "bval delta" and ?m = "bval price" and ?r = "bval (pp_Realized p)"
  let ?Q = "bf_add new_float (pp_Qty p) delta" and ?V = "volume p delta price"
  let ?A = "new_cost (pp_Qty p) (pp_AvgCost p) ?Q delta price"
  define e where e: "e = (2::rat) powi - int n"
  have n: "3 \<le> n" "n \<le> bprec delta" using pr by (auto simp: precise_def)
  have Q: "bval ?Q < 0 \<longleftrightarrow> ?q + ?x < 0" "0 < bval ?Q \<longleftrightarrow> 0 < ?q + ?x" using n by (simp_all add: bf_add_def res_prec_def)
  have V: "0 \<le> ?V" "0 \<le> e" by (simp_all add: volume_def e)
  have "off e 6 ?V (equity (filled_position p delta price now)) (equity p - ?x * ?m)"
  proof (cases "reduces (pp_Qty p) delta")
    case True
    consider "bval ?A = 0" "?x = - ?q" | "bval ?A = ?m" "0 < ?q \<and> ?q + ?x < 0 \<or> ?q < 0 \<and> 0 < ?q + ?x" |
      "bval ?A = ?a" "0 < ?q \<and> 0 < ?q + ?x \<or> ?q < 0 \<and> ?q + ?x < 0"
      using True Q by (cases "?q + ?x" "0::rat" rule: linorder_cases) (auto simp: new_cost_def reduces_def same_sign Let_def)
    then have k: "\<bar>bval ?A\<bar> \<le> \<bar>?a\<bar> + \<bar>?m\<bar> \<and>
        equity p - ?x * ?m = ?r + (if ?q < 0 then - min \<bar>?q\<bar> \<bar>?x\<bar> else min \<bar>?q\<bar> \<bar>?x\<bar>) * (?m - ?a) - (?q + ?x) * bval ?A"
      using True by cases (auto simp: equity_def reduces_def min_def algebra_simps)
    have "equity (filled_position p delta price now) = bval (bf_add (pp_Realized p) (pp_Realized p) (realized_of p delta price)) - bval ?Q * bval ?A"
      using True by (simp add: equity_def filled_position_def Let_def)
    then show ?thesis using reducing_near [OF pr e conjunct1 [OF k] conjunct2 [OF k] refl] by simp
  next
    case False
    then have E: "equity (filled_position p delta price now) = ?r - bval ?Q * bval ?A"
      by (simp add: equity_def filled_position_def Let_def)
    consider "bval ?Q = 0" "?q = 0" "?x = 0" | "bf_sign ?Q \<noteq> 0" "bf_sign (pp_Qty p) = 0 \<or> bf_sign (pp_Qty p) = bf_sign delta" | "bval ?A = ?a" "?x = 0"
      using False Q
      by (cases "?x = 0"; cases "?q + ?x" "0::rat" rule: linorder_cases; cases ?q "0::rat" rule: linorder_cases) (auto simp: new_cost_def reduces_def same_sign Let_def)
    then show ?thesis
    proof cases
      case 1
      then show ?thesis using V unfolding E by (simp add: equity_def off_def)
    next
      case 2
      from adding_near [OF pr e this] have "off e (0 + 5) ?V (?r - bval ?Q * bval ?A) (?r - (?q * ?a + ?x * ?m))"
        using V by (intro off_diff_sum) (simp_all add: off_def)
      then have "off e 5 ?V (?r - bval ?Q * bval ?A) (equity p - ?x * ?m)" by (simp add: equity_def algebra_simps)
      from off_weaken [OF this, of 6 ?V] V show ?thesis unfolding E by simp
    next
      case 3
      from held_near [OF pr e, of ?a] have "off e (0 + 1) ?V (?r - bval ?Q * ?a) (?r - (?q + ?x) * ?a)"
        using V by (intro off_diff_sum) (simp_all add: off_def)
      then have "off e 1 ?V (?r - bval ?Q * bval ?A) (equity p - ?x * ?m)" using 3 by (simp add: equity_def)
      from off_weaken [OF this, of 6 ?V] V show ?thesis unfolding E by simp
    qed
  qed
  then show ?thesis by (simp add: off_def e)
qed


section \<open>Runs of fills\<close>

text \<open>The fills that were recorded, in their order, with time passing between them.\<close>

inductive booked :: "fill list \<Rightarrow> pnl \<Rightarrow> pnl \<Rightarrow> bool" where
  start: "booked [] s s"
| fill: "booked fs s s' \<Longrightarrow> booked (fs @ [f]) s (RecordFill (Some f) s')"
| tick: "booked fs s s' \<Longrightarrow> booked fs s (s'\<lparr>pn_day := d, pn_now := t\<rparr>)"

text \<open>User identifiers hold no colon.\<close>

definition plain :: "string \<Rightarrow> bool" where
  "plain u \<longleftrightarrow> CHR '':'' \<notin> set u"

lemma join_key_inj: "plain u \<Longrightarrow> plain v \<Longrightarrow> join_key u a = join_key v b \<longleftrightarrow> u = v \<and> a = b"
  unfolding join_key_def plain_def
proof (induction u arbitrary: v)
  case Nil
  then show ?case by (cases v) auto
next
  case (Cons x u)
  then show ?case by (cases v) auto
qed

definition net_position :: "string \<Rightarrow> pnl \<Rightarrow> rat" where
  "net_position a s = (\<Sum>(k, p)\<leftarrow>pn_positions s. if pp_Asset p = a then bval (pp_Qty p) else 0)"

text \<open>Each position is stored under its user and asset, on the grid \<open>g\<close> and within \<open>T\<close>.\<close>

definition kept_at :: "string \<Rightarrow> pnl_position \<Rightarrow> bool" where
  "kept_at k p \<longleftrightarrow> (\<exists>u. plain u \<and> k = join_key u (pp_Asset p))"

definition keyed :: "pnl \<Rightarrow> bool" where
  "keyed s \<longleftrightarrow> gm_wf (pn_positions s) \<and> (\<forall>k p. gm_get (pn_positions s) k = Some p \<longrightarrow> kept_at k p \<and> pp_TotalFees p = new_float)"

definition pnl_inv :: "int \<Rightarrow> rat \<Rightarrow> pnl \<Rightarrow> bool" where
  "pnl_inv g T s \<longleftrightarrow> keyed s \<and>
     (\<forall>k p. gm_get (pn_positions s) k = Some p \<longrightarrow> on_grid g (bval (pp_Qty p)) \<and> \<bar>bval (pp_Qty p)\<bar> \<le> T)"

lemma pnl_inv_mono: "pnl_inv g T s \<Longrightarrow> T \<le> T' \<Longrightarrow> pnl_inv g T' s"
  unfolding pnl_inv_def by (meson order_trans)

lemma position_at_keyed:
  assumes "keyed s" "plain u"
  shows "pp_Asset (position_at u a s) = a" "pp_TotalFees (position_at u a s) = new_float"
proof -
  have "pp_Asset (position_at u a s) = a \<and> pp_TotalFees (position_at u a s) = new_float"
  proof (cases "gm_get (pn_positions s) (join_key u a)")
    case (Some p)
    then have "kept_at (join_key u a) p \<and> pp_TotalFees p = new_float" using assms(1) unfolding keyed_def by blast
    then show ?thesis using assms(2) Some by (auto simp: kept_at_def join_key_inj position_at_def)
  qed (simp add: position_at_def empty_position_def)
  then show "pp_Asset (position_at u a s) = a" "pp_TotalFees (position_at u a s) = new_float" by simp_all
qed

lemma position_at_bounds:
  assumes "pnl_inv g T s" "0 \<le> T"
  shows "on_grid g (bval (pp_Qty (position_at u a s)))" "\<bar>bval (pp_Qty (position_at u a s))\<bar> \<le> T"
proof -
  have "on_grid g (bval (pp_Qty (position_at u a s))) \<and> \<bar>bval (pp_Qty (position_at u a s))\<bar> \<le> T"
  proof (cases "gm_get (pn_positions s) (join_key u a)")
    case (Some p)
    then show ?thesis using assms unfolding pnl_inv_def position_at_def by auto
  qed (use assms in \<open>simp add: position_at_def empty_position_def\<close>)
  then show "on_grid g (bval (pp_Qty (position_at u a s)))" "\<bar>bval (pp_Qty (position_at u a s))\<bar> \<le> T" by simp_all
qed

definition side_delta :: "side \<Rightarrow> bf \<Rightarrow> bf" where
  "side_delta sd qty = (if sd = Buy then qty else bf_neg new_float qty)"

lemma side_delta_simps [simp]: "bval (side_delta sd q) = (if sd = Buy then bval q else - bval q)" "bprec (side_delta sd q) = bprec q"
  by (simp_all add: side_delta_def bf_neg_def bf_set_def)

lemma updateUser_positions:
  "u \<noteq> [] \<Longrightarrow> pn_positions (updateUser u a sd price qty date s) =
     gm_put (join_key u a) (filled_position (position_at u a s) (side_delta sd qty) price (pn_now s)) (pn_positions s)"
  by (simp add: updateUser_def side_delta_def addDaily_def Let_def)

lemma updateUser_keyed:
  assumes "keyed s" "plain u"
  shows "keyed (updateUser u a sd price qty date s)"
proof (cases "u = []")
  case False
  let ?p = "filled_position (position_at u a s) (side_delta sd qty) price (pn_now s)"
  have A: "pp_Asset ?p = a" "pp_TotalFees ?p = new_float" using position_at_keyed [OF assms] by (simp_all add: filled_position_def Let_def)
  have "kept_at (join_key u a) ?p" unfolding kept_at_def A using assms(2) by blast
  then show ?thesis using assms(1) A(2) unfolding keyed_def updateUser_positions [OF False] by auto
qed (use assms in \<open>simp add: updateUser_def\<close>)

lemma updateUser_inv:
  assumes inv: "pnl_inv g T s" "0 \<le> T" and u: "plain u" "u \<noteq> []"
    and q: "on_grid g (bval qty)" "0 < n" "n \<le> bprec qty" "T + \<bar>bval qty\<bar> < 2 powi (g + int n)"
    and s': "s' = updateUser u a sd price qty date s"
  shows "pnl_inv g (T + \<bar>bval qty\<bar>) s'"
    and "net_position b s' = net_position b s + (if b = a then bval (side_delta sd qty) else 0)"
proof -
  let ?p = "position_at u a s" and ?d = "side_delta sd qty"
  let ?p' = "filled_position ?p ?d price (pn_now s)"
  have P: "pn_positions s' = gm_put (join_key u a) ?p' (pn_positions s)" using u by (simp add: s' updateUser_positions)
  note bd = position_at_bounds [OF inv, of u a]
  have d: "on_grid g (bval ?d)" "\<bar>bval ?d\<bar> = \<bar>bval qty\<bar>" using q(1) by (simp_all add: on_grid_minus)
  have le: "\<bar>bval (pp_Qty ?p) + bval ?d\<bar> \<le> T + \<bar>bval qty\<bar>" using bd(2) d(2) by linarith
  let ?m = "max (bprec (pp_Qty ?p)) (bprec qty)"
  have "(2::rat) powi (g + int n) \<le> 2 powi (g + int ?m)" using q(3) by (simp add: powi_le)
  then have "\<bar>bval (pp_Qty ?p) + bval ?d\<bar> < 2 powi (g + int ?m)" using le q(4) by linarith
  then have "fround ?m (bval (pp_Qty ?p) + bval ?d) = bval (pp_Qty ?p) + bval ?d"
    using q(2,3) fround_exact [of ?m g, OF _ on_grid_add [OF bd(1) d(1)]] by simp
  then have Q: "bval (pp_Qty ?p') = bval (pp_Qty ?p) + bval ?d" by (simp add: filled_position_def Let_def bf_add_def res_prec_def)
  have A: "pp_Asset ?p = a" "pp_Asset ?p' = a" using position_at_keyed(1) [OF _ u(1)] inv(1) by (simp_all add: filled_position_def Let_def pnl_inv_def)
  have new: "on_grid g (bval (pp_Qty ?p')) \<and> \<bar>bval (pp_Qty ?p')\<bar> \<le> T + \<bar>bval qty\<bar>"
    unfolding Q using le on_grid_add [OF bd(1) d(1)] by blast
  have "pnl_inv g (T + \<bar>bval qty\<bar>) s" by (rule pnl_inv_mono [OF inv(1)]) simp
  then show "pnl_inv g (T + \<bar>bval qty\<bar>) s'"
    unfolding pnl_inv_def P using new updateUser_keyed [OF _ u(1)] by (auto simp: s' P [unfolded s'] simp del: abs_le_iff)
  show "net_position b s' = net_position b s + (if b = a then bval ?d else 0)"
  proof (cases "gm_get (pn_positions s) (join_key u a)")
    case None
    then show ?thesis using Q A unfolding net_position_def P sum_gm_put by (simp add: position_at_def empty_position_def)
  next
    case (Some p)
    then have "p = ?p" by (simp add: position_at_def)
    then show ?thesis using Some Q A unfolding net_position_def P sum_gm_put by simp
  qed
qed


text \<open>
  C32: Positions cancel out. Over any run of fills between named users whose identifiers contain no colon (which separates user and asset in the keys), the quantities
  that all users hold of an asset add up to exactly zero, as long as the traded quantities lie on a common binary grid and their sum fits the precision.
\<close>

theorem positions_cancel_out:
  assumes "booked fs (NewPnlService date) s" "0 < n"
    and "\<forall>f \<in> set fs. f_MakerUserID f \<noteq> [] \<and> f_TakerUserID f \<noteq> [] \<and> plain (f_MakerUserID f) \<and> plain (f_TakerUserID f) \<and>
      f_Side f \<in> {Buy, Sell} \<and> on_grid g (bval (f_Quantity f)) \<and> n \<le> bprec (f_Quantity f)"
    and "2 * (\<Sum>f\<leftarrow>fs. \<bar>bval (f_Quantity f)\<bar>) < 2 powi (g + int n)"
  shows "net_position a s = 0"
proof -
  let ?T = "\<lambda>fs. 2 * (\<Sum>f\<leftarrow>fs. \<bar>bval (f_Quantity f)\<bar>)"
  have T: "0 \<le> ?T fs" for fs by (auto intro!: sum_list_nonneg)
  have "pnl_inv g (?T fs) s \<and> net_position a s = 0"
    using assms(1,3,4)
  proof (induction fs "NewPnlService date" s rule: booked.induct)
    case start
    then show ?case by (simp add: pnl_inv_def keyed_def NewPnlService_def net_position_def)
  next
    case (fill fs s f)
    let ?q = "f_Quantity f"
    have ih: "pnl_inv g (?T fs) s" "net_position a s = 0" using fill by simp_all
    have f: "f_MakerUserID f \<noteq> []" "f_TakerUserID f \<noteq> []" "plain (f_MakerUserID f)" "plain (f_TakerUserID f)" "on_grid g (bval ?q)" "n \<le> bprec ?q" "f_Side f \<in> {Buy, Sell}"
      using fill.prems by simp_all
    have lim: "?T fs + \<bar>bval ?q\<bar> < 2 powi (g + int n)" "(?T fs + \<bar>bval ?q\<bar>) + \<bar>bval ?q\<bar> < 2 powi (g + int n)"
      using fill.prems(2) by auto
    show ?case
    proof (cases "\<exists>p b c. f_Price f = Some p \<and> two_parts (f_Pair f) = Some (b, c)")
      case False
      then have "RecordFill (Some f) s = s" by (auto simp: RecordFill_def split: option.splits)
      then show ?thesis using ih pnl_inv_mono [OF ih(1)] by simp
    next
      case True
      then obtain p b c where pair: "f_Price f = Some p" "two_parts (f_Pair f) = Some (b, c)" by blast
      define s1 where s1: "s1 = updateUser (f_TakerUserID f) b (f_Side f) p ?q (pn_date s (pn_day s)) s"
      define s2 where s2: "s2 = updateUser (f_MakerUserID f) b (if f_Side f = Sell then Buy else Sell) p ?q (pn_date s (pn_day s)) s1"
      have r: "RecordFill (Some f) s = s2" using pair by (simp add: RecordFill_def s1 s2 Let_def)
      note u1 = updateUser_inv [OF ih(1) T f(4,2,5) assms(2) f(6) lim(1) s1]
      have "0 \<le> ?T fs + \<bar>bval ?q\<bar>" using T [of fs] by linarith
      note u2 = updateUser_inv [OF u1(1) this f(3,1,5) assms(2) f(6) lim(2) s2]
      have "net_position a s2 = 0" using u1(2) [of a] u2(2) [of a] ih(2) f(7) by auto
      then show ?thesis using u2(1) r by (simp add: algebra_simps)
    qed
  next
    case (tick fs s d t)
    then show ?case by (simp add: pnl_inv_def keyed_def net_position_def)
  qed
  then show ?thesis ..
qed


section \<open>Summaries\<close>

lemma updateUser_clock [simp]: "pn_date (updateUser u a sd price qty date s) = pn_date s"
  by (simp add: updateUser_def addDaily_def Let_def)

lemma RecordFill_clock [simp]: "pn_date (RecordFill f s) = pn_date s"
  by (simp add: RecordFill_def Let_def split: option.split)

lemma has_prefix_key: "plain u \<Longrightarrow> plain v \<Longrightarrow> has_prefix (join_key v a) (join_key u []) \<longleftrightarrow> u = v"
proof (induction u arbitrary: v)
  case Nil
  then show ?case by (cases v) (auto simp: has_prefix_def join_key_def plain_def)
next
  case (Cons x u)
  then show ?case by (cases v) (auto simp: has_prefix_def join_key_def plain_def)
qed

lemma add_position_frame [simp]: "sm_TodayRealized (add_position refs p m) = sm_TodayRealized m"
  by (simp add: add_position_def Let_def split: option.split)

lemma add_position_positions [simp]:
  "sm_Positions (add_position refs p m) = gm_put (pp_Asset p) (p\<lparr>pp_TodayRealized := sm_TodayRealized m\<rparr>) (sm_Positions m)"
  by (simp add: add_position_def Let_def split: option.split)

lemma add_position_fees [simp]: "sm_TotalFees (add_position refs p m) = bf_add (sm_TotalFees m) (sm_TotalFees m) (pp_TotalFees p)"
  by (simp add: add_position_def Let_def split: option.split)

lemma fold_today [simp]: "sm_TodayRealized (fold (add_position refs) ps m) = sm_TodayRealized m"
  by (induction ps arbitrary: m) simp_all

lemma fold_positions:
  "distinct (map pp_Asset ps) \<Longrightarrow> gm_get (sm_Positions (fold (add_position refs) ps m)) a =
     (case find (\<lambda>p. pp_Asset p = a) ps of Some p \<Rightarrow> Some (p\<lparr>pp_TodayRealized := sm_TodayRealized m\<rparr>) | None \<Rightarrow> gm_get (sm_Positions m) a)"
proof (induction ps arbitrary: m)
  case (Cons p ps)
  have "pp_Asset p \<notin> pp_Asset ` set ps" using Cons.prems by simp
  then have "\<forall>x \<in> set ps. pp_Asset x \<noteq> pp_Asset p" by (metis imageI)
  then have "pp_Asset p = a \<Longrightarrow> find (\<lambda>p. pp_Asset p = a) ps = None" by (auto simp: find_None_iff)
  then show ?case using Cons by (auto split: option.split)
qed simp

lemma fold_fees: "\<forall>p \<in> set ps. pp_TotalFees p = new_float \<Longrightarrow> sm_TotalFees m = new_float \<Longrightarrow> sm_TotalFees (fold (add_position refs) ps m) = new_float"
  by (induction ps arbitrary: m) (simp_all add: bf_add_def res_prec_def)

text \<open>The positions of the map whose key starts with the user.\<close>

definition own :: "string \<Rightarrow> pnl \<Rightarrow> pnl_position list" where
  "own u s = map snd (filter (\<lambda>(k, p). has_prefix k (join_key u [])) (pn_positions s))"

lemma own_iff:
  assumes "keyed s" "plain u"
  shows "p \<in> set (own u s) \<longleftrightarrow> gm_get (pn_positions s) (join_key u (pp_Asset p)) = Some p"
proof
  assume "p \<in> set (own u s)"
  then obtain k where kp: "(k, p) \<in> set (pn_positions s)" "has_prefix k (join_key u [])" by (auto simp: own_def)
  have "gm_wf (pn_positions s)" using assms(1) by (simp add: keyed_def)
  then have k: "gm_get (pn_positions s) k = Some p" "has_prefix k (join_key u [])" using set_gm_get kp by fast+
  then have "kept_at k p" using assms(1) unfolding keyed_def by blast
  then obtain v where "plain v" "k = join_key v (pp_Asset p)" unfolding kept_at_def by blast
  then show "gm_get (pn_positions s) (join_key u (pp_Asset p)) = Some p" using k has_prefix_key assms(2) by blast
next
  assume "gm_get (pn_positions s) (join_key u (pp_Asset p)) = Some p"
  moreover have "has_prefix (join_key u (pp_Asset p)) (join_key u [])" using has_prefix_key assms(2) by blast
  ultimately show "p \<in> set (own u s)" by (force simp: own_def dest: map_of_SomeD)
qed

lemma own_distinct:
  assumes "keyed s" "plain u"
  shows "distinct (map pp_Asset (own u s))"
proof -
  let ?m = "filter (\<lambda>(k, p). has_prefix k (join_key u [])) (pn_positions s)"
  have "distinct (map fst ?m)" using assms(1) by (simp add: keyed_def distinct_map_filter)
  moreover have "map fst ?m = map (\<lambda>p. join_key u (pp_Asset p)) (own u s)"
    unfolding own_def map_map
  proof (rule map_cong)
    fix x assume x: "x \<in> set ?m"
    obtain k p where kp: "x = (k, p)" by fastforce
    then have "gm_get (pn_positions s) k = Some p" using x assms(1) by (auto simp: keyed_def)
    then have "kept_at k p" using assms(1) unfolding keyed_def by blast
    then obtain v where v: "plain v" "k = join_key v (pp_Asset p)" unfolding kept_at_def by blast
    then have "v = u" using x kp has_prefix_key assms(2) by auto
    then show "fst x = ((\<lambda>p. join_key u (pp_Asset p)) \<circ> snd) x" using kp v by simp
  qed simp
  ultimately have "distinct (map (join_key u) (map pp_Asset (own u s)))" by (simp add: comp_def)
  then show ?thesis by (simp only: distinct_map)
qed

lemma booked_keyed:
  "booked fs s0 s \<Longrightarrow> keyed s0 \<Longrightarrow> \<forall>f \<in> set fs. plain (f_MakerUserID f) \<and> plain (f_TakerUserID f) \<Longrightarrow> keyed s"
proof (induction rule: booked.induct)
  case (fill fs s s' f)
  then show ?case by (auto simp: RecordFill_def Let_def updateUser_keyed split: option.split)
next
  case (tick fs s s' d t)
  then show ?case unfolding keyed_def by simp
qed

text \<open>
  A summary shows what its user holds. After any run of fills the summary of a user has exactly one position for each asset the user has traded, with the
  quantity, cost and profit of the book, none of another user, and no fees.
\<close>

theorem summary_shows_own:
  assumes "booked fs (NewPnlService date) s" "plain u" "\<forall>f \<in> set fs. plain (f_MakerUserID f) \<and> plain (f_TakerUserID f)"
  shows "gm_get (sm_Positions (Summary u refs s)) a =
      map_option (\<lambda>p. p\<lparr>pp_TodayRealized := sm_TodayRealized (Summary u refs s)\<rparr>) (gm_get (pn_positions s) (join_key u a)) \<and>
    sm_TotalFees (Summary u refs s) = new_float"
proof -
  have k: "keyed s" by (rule booked_keyed [OF assms(1) _ assms(3)]) (simp add: keyed_def NewPnlService_def)
  obtain m where m: "Summary u refs s = fold (add_position refs) (own u s) m" "sm_Positions m = []" "sm_TotalFees m = new_float"
    by (rule that [OF Summary_def [of u refs s, unfolded Let_def, folded own_def]]) simp_all
  have "find (\<lambda>p. pp_Asset p = a) (own u s) = gm_get (pn_positions s) (join_key u a)"
  proof (cases "find (\<lambda>p. pp_Asset p = a) (own u s)")
    case None
    have "gm_get (pn_positions s) (join_key u a) = None"
    proof (rule ccontr)
      assume "gm_get (pn_positions s) (join_key u a) \<noteq> None"
      then obtain p where p: "gm_get (pn_positions s) (join_key u a) = Some p" by blast
      then have "pp_Asset p = a" using position_at_keyed(1) [OF k assms(2), of a] by (simp add: position_at_def)
      then show False using None p own_iff [OF k assms(2), of p] by (auto simp: find_None_iff)
    qed
    then show ?thesis using None by simp
  next
    case (Some p)
    then have "p \<in> set (own u s)" "pp_Asset p = a" by (auto simp: find_Some_iff)
    then show ?thesis using Some own_iff [OF k assms(2), of p] by simp
  qed
  moreover have "\<forall>p \<in> set (own u s). pp_TotalFees p = new_float" using own_iff [OF k assms(2)] k unfolding keyed_def by blast
  ultimately show ?thesis unfolding m(1) fold_positions [OF own_distinct [OF k assms(2)]] fold_today using m fold_fees by (auto split: option.split)
qed


section \<open>At work\<close>

definition demo_fill :: "string \<Rightarrow> string \<Rightarrow> side \<Rightarrow> rat \<Rightarrow> rat \<Rightarrow> fill" where
  "demo_fill taker maker sd price qty = \<lparr>f_TakerOrderID = [], f_MakerOrderID = [], f_TakerUserID = taker, f_MakerUserID = maker, f_Pair = ''BTC/USDT'',
     f_Side = sd, f_Price = Some (BF 128 price), f_Quantity = BF 128 qty, f_RemainingQty = None, f_TakerFilled = True, f_MakerFilled = True\<rparr>"

definition demo_book :: pnl where
  "demo_book = RecordFill (Some (demo_fill ''bob'' ''alice'' Buy 120 3)) (RecordFill (Some (demo_fill ''alice'' ''bob'' Buy 100 2)) (NewPnlService (\<lambda>d. ''day'')))"

lemma demo_booked: "booked [demo_fill ''alice'' ''bob'' Buy 100 2, demo_fill ''bob'' ''alice'' Buy 120 3] (NewPnlService (\<lambda>d. ''day'')) demo_book"
  unfolding demo_book_def using booked.fill [OF booked.fill [OF booked.start]] by force

theorem positions_cancel_out_witness: "net_position ''BTC'' demo_book = 0"
proof (rule positions_cancel_out [OF demo_booked, of 128 0])
  show "\<forall>f \<in> set [demo_fill ''alice'' ''bob'' Buy 100 2, demo_fill ''bob'' ''alice'' Buy 120 3]. f_MakerUserID f \<noteq> [] \<and> f_TakerUserID f \<noteq> [] \<and>
      plain (f_MakerUserID f) \<and> plain (f_TakerUserID f) \<and> f_Side f \<in> {Buy, Sell} \<and> on_grid 0 (bval (f_Quantity f)) \<and> 128 \<le> bprec (f_Quantity f)"
    using on_grid_int [of 2] on_grid_int [of 3] by (simp add: demo_fill_def plain_def)
qed (simp_all add: demo_fill_def)

text \<open>Alice buys two at 100 and sells three at 120: she realizes 40 and is one short at 120.\<close>

lemmas pnl_defs = updateUser_def filled_position_def new_cost_def realized_of_def reduces_def position_at_def empty_position_def addDaily_def join_key_def
  NewPnlService_def bf_abs_def bf_cmp_def

lemma demo_bought:
  "updateUser ''alice'' ''BTC'' Buy (BF 128 100) (BF 128 2) ''day'' (NewPnlService (\<lambda>d. ''day'')) = (NewPnlService (\<lambda>d. ''day''))\<lparr>pn_positions :=
     [(''alice:BTC'', (empty_position ''BTC'')\<lparr>pp_Qty := BF 128 2, pp_AvgCost := BF 128 100\<rparr>)]\<rparr>"
  by (simp add: pnl_defs float_defs Let_def)

lemma demo_both:
  "RecordFill (Some (demo_fill ''alice'' ''bob'' Buy 100 2)) (NewPnlService (\<lambda>d. ''day'')) = (NewPnlService (\<lambda>d. ''day''))\<lparr>pn_positions :=
     [(''alice:BTC'', (empty_position ''BTC'')\<lparr>pp_Qty := BF 128 2, pp_AvgCost := BF 128 100\<rparr>),
      (''bob:BTC'', (empty_position ''BTC'')\<lparr>pp_Qty := BF 128 (- 2), pp_AvgCost := BF 128 100\<rparr>)]\<rparr>"
proof -
  have "two_parts ''BTC/USDT'' = Some (''BTC'', ''USDT'')" by (simp add: two_parts_def)
  moreover have "updateUser ''bob'' ''BTC'' Sell (BF 128 100) (BF 128 2) ''day'' ((NewPnlService (\<lambda>d. ''day''))\<lparr>pn_positions :=
     [(''alice:BTC'', (empty_position ''BTC'')\<lparr>pp_Qty := BF 128 2, pp_AvgCost := BF 128 100\<rparr>)]\<rparr>) = (NewPnlService (\<lambda>d. ''day''))\<lparr>pn_positions :=
     [(''alice:BTC'', (empty_position ''BTC'')\<lparr>pp_Qty := BF 128 2, pp_AvgCost := BF 128 100\<rparr>),
      (''bob:BTC'', (empty_position ''BTC'')\<lparr>pp_Qty := BF 128 (- 2), pp_AvgCost := BF 128 100\<rparr>)]\<rparr>"
    by (simp add: pnl_defs float_defs Let_def)
  ultimately show ?thesis using demo_bought by (simp add: RecordFill_def demo_fill_def Let_def) (simp add: NewPnlService_def)
qed


definition demo_alice :: pnl_position where
  "demo_alice = (empty_position ''BTC'')\<lparr>pp_Qty := BF 128 (- 1), pp_AvgCost := BF 128 120, pp_Realized := BF 128 40\<rparr>"

lemma demo_sold: "gm_get (pn_positions demo_book) ''alice:BTC'' = Some demo_alice" "gm_get (pn_daily demo_book) ''alice:day'' = Some (BF 128 40)"
proof -
  define s where "s = (NewPnlService (\<lambda>d. ''day''))\<lparr>pn_positions :=
     [(''alice:BTC'', (empty_position ''BTC'')\<lparr>pp_Qty := BF 128 2, pp_AvgCost := BF 128 100\<rparr>),
      (''bob:BTC'', (empty_position ''BTC'')\<lparr>pp_Qty := BF 128 (- 2), pp_AvgCost := BF 128 100\<rparr>)]\<rparr>"
  define s1 where "s1 = updateUser ''bob'' ''BTC'' Buy (BF 128 120) (BF 128 3) ''day'' s"
  have s1: "s1 = s\<lparr>pn_positions :=
     [(''alice:BTC'', (empty_position ''BTC'')\<lparr>pp_Qty := BF 128 2, pp_AvgCost := BF 128 100\<rparr>),
      (''bob:BTC'', (empty_position ''BTC'')\<lparr>pp_Qty := BF 128 1, pp_AvgCost := BF 128 120, pp_Realized := BF 128 (- 40)\<rparr>)],
      pn_daily := [(''bob:day'', BF 128 (- 40))]\<rparr>"
    by (simp add: s1_def s_def pnl_defs float_defs Let_def)
  have "two_parts ''BTC/USDT'' = Some (''BTC'', ''USDT'')" by (simp add: two_parts_def)
  moreover have "pn_date s (pn_day s) = ''day''" by (simp add: s_def NewPnlService_def)
  ultimately have b: "demo_book = updateUser ''alice'' ''BTC'' Sell (BF 128 120) (BF 128 3) ''day'' s1"
    unfolding demo_book_def demo_both s_def [symmetric] by (simp add: RecordFill_def demo_fill_def s1_def Let_def)
  show "gm_get (pn_positions demo_book) ''alice:BTC'' = Some demo_alice" "gm_get (pn_daily demo_book) ''alice:day'' = Some (BF 128 40)"
    unfolding b s1 by (simp_all add: s_def demo_alice_def pnl_defs float_defs fround_minus Let_def)
qed

theorem fill_books_cash_witness:
  "\<bar>equity (filled_position ((empty_position ''BTC'')\<lparr>pp_Qty := BF 128 2, pp_AvgCost := BF 128 100\<rparr>) (BF 128 (- 3)) (BF 128 120) 0) - 160\<bar>
   \<le> 6 * 2 powi - 128 * 1100"
  using fill_books_cash [of 128 "(empty_position ''BTC'')\<lparr>pp_Qty := BF 128 2, pp_AvgCost := BF 128 100\<rparr>" "BF 128 (- 3)" "BF 128 120" 0]
  by (simp add: precise_def empty_position_def equity_def volume_def)

lemma demo_date: "pn_date demo_book d = ''day''"
  by (simp add: demo_book_def) (simp add: NewPnlService_def)

theorem summary_shows_own_witness:
  "gm_get (sm_Positions (Summary ''alice'' [] demo_book)) ''BTC'' = Some (demo_alice\<lparr>pp_TodayRealized := BF 128 40\<rparr>)"
proof -
  have "sm_TodayRealized (Summary ''alice'' [] demo_book) = BF 128 40"
    by (simp add: Summary_def Let_def fold_today join_key_def demo_sold demo_date)
  moreover have "plain ''alice''" by (simp add: plain_def)
  ultimately show ?thesis using summary_shows_own [OF demo_booked, of "''alice''" "[]" "''BTC''"] demo_sold(1)
    by (simp add: demo_fill_def plain_def join_key_def)
qed

end
