(* ===== verification/Exchange.thy ===== *)
theory Exchange
  imports Engine Ring_Buffer Risk Address_Validation
begin

text \<open>
  \<open>internal/matching/exchange.go\<close> and \<open>snapshot.go\<close>: one engine per pair behind the pre-trade checks, snapshots of the books, and recovery from a
  snapshot and the log. The files that an exchange finds at start-up are maps from paths to decoded contents: the lines of a log, a snapshot. An engine's
  goroutine takes its work in steps: one cancel, or all queued orders (\<open>run_engine\<close>). \<open>ex_faults\<close> says which of the coming
  file operations fail.
\<close>

section \<open>Snapshots of a book\<close>

text \<open>A snapshot that was read may hold \<open>null\<close> entries; one that the code takes has none.\<close>

record ob_snapshot =
  os_SeqNo :: "64 word"
  os_Orders :: "order option list"
  os_Stops :: "order option list"

text \<open>The fields that the copy leaves out are zero: \<open>bookSeq\<close>, \<open>done\<close>, \<open>Err\<close>.\<close>

definition copyOrder :: "order \<Rightarrow> order" where
  "copyOrder v = v\<lparr>o_Price := newBigFloatCopy (o_Price v), o_StopPrice := newBigFloatCopy (o_StopPrice v),
     o_Quantity := newBigFloatCopy (o_Quantity v), o_FilledQty := bf_set newBigFloat (o_FilledQty v),
     o_RemainingQty := newBigFloatCopy (o_RemainingQty v), o_IcebergQty := newBigFloatCopy (o_IcebergQty v),
     o_VisibleQty := newBigFloatCopy (o_VisibleQty v), o_bookSeq := 0, o_done := NoChan, o_Err := None\<rparr>"

text \<open>The orders of the lookup map in the order of the map, which Go leaves open.\<close>

definition book_Snapshot :: "'a book_scheme \<Rightarrow> ob_snapshot" where
  "book_Snapshot b = \<lparr>os_SeqNo = seqNo b, os_Orders = map (\<lambda>(i, r). Some (copyOrder (store b r))) (orders b),
     os_Stops = map (\<lambda>r. Some (copyOrder (store b r))) (stops b)\<rparr>"

definition named_orders :: "order option list \<Rightarrow> order list" where
  "named_orders xs = filter (\<lambda>v. o_ID v \<noteq> []) (List.map_filter (\<lambda>x. x) xs)"

text \<open>An order enters the book with a fresh sequence number.\<close>

definition restored :: "nat \<Rightarrow> order \<Rightarrow> order" where
  "restored i v = v\<lparr>o_RemainingQty := (case o_RemainingQty v of None \<Rightarrow> newBigFloatCopy (o_Quantity v) | Some q \<Rightarrow> Some q), o_bookSeq := of_nat (i + 1)\<rparr>"

definition restore_order :: "nat \<Rightarrow> order \<Rightarrow> 'a book_scheme \<Rightarrow> 'a book_scheme outcome" where
  "restore_order i v s =
     (let (r, s1) = alloc (restored i v) s;
          s2 = s1\<lparr>orders := gm_put (o_ID v) r (orders s1)\<rparr>;
          s3 = indexAdd (store s2 r) s2;
          sd = (if o_Side v = Buy then Buy else Sell)
      in obind (hpush (order_less sd (store s3)) (side_heap sd s3) r) (\<lambda>h. Done (set_side_heap sd h s3)))"

fun restore_orders :: "nat \<Rightarrow> order list \<Rightarrow> 'a book_scheme \<Rightarrow> 'a book_scheme outcome" where
  "restore_orders i [] s = Done s"
| "restore_orders i (v # vs) s = obind (restore_order i v s) (restore_orders (Suc i) vs)"

fun restore_stops :: "order list \<Rightarrow> 'a book_scheme \<Rightarrow> 'a book_scheme" where
  "restore_stops [] s = s"
| "restore_stops (v # vs) s = (let (r, s1) = alloc v s in restore_stops vs (s1\<lparr>stops := stops s1 @ [r]\<rparr>))"

definition cleared :: "64 word \<Rightarrow> 'a book_scheme \<Rightarrow> 'a book_scheme" where
  "cleared n s = s\<lparr>orders := [], userOrders := [], bids := [], asks := [], stops := [], seqNo := n\<rparr>"

definition book_Restore :: "ob_snapshot option \<Rightarrow> 'a book_scheme \<Rightarrow> 'a book_scheme outcome" where
  "book_Restore sn s =
     (case sn of
        None \<Rightarrow> Done s
      | Some x \<Rightarrow> obind (restore_orders 0 (sort_key o_CreatedAt (named_orders (os_Orders x))) (cleared (os_SeqNo x) s))
          (\<lambda>s1. Done (restore_stops (named_orders (os_Stops x)) s1)))"

section \<open>Snapshots of an engine\<close>

record engine_snapshot =
  es_Version :: string
  es_Pair :: string
  es_SeqNo :: "64 word"
  es_LastWALSeq :: "64 word"
  es_Timestamp :: int
  es_OrderBook :: "ob_snapshot option"
  es_LastTradePrice :: string

text \<open>
  The number of the last log record is read before the book, without a lock on the engine: \<open>e0\<close> is the engine at the first moment,
  \<open>e1\<close> at the second.
\<close>

definition engine_Snapshot :: "engine \<Rightarrow> engine \<Rightarrow> engine_snapshot" where
  "engine_Snapshot e0 e1 =
     \<lparr>es_Version = ''1'', es_Pair = ob_Pair e1, es_SeqNo = seqNo e1,
      es_LastWALSeq = (case e_wal e0 of Some w \<Rightarrow> w_seq w | None \<Rightarrow> 0), es_Timestamp = clock e1, es_OrderBook = Some (book_Snapshot e1),
      es_LastTradePrice = (case LastTradePrice e1 of Some p \<Rightarrow> if 0 < bf_sign p then text_f 18 p else [] | None \<Rightarrow> [])\<rparr>"

definition parse128 :: "string \<Rightarrow> bf option" where
  "parse128 s = bf_parse newBigFloat s"

definition engine_Restore :: "engine_snapshot option \<Rightarrow> engine \<Rightarrow> engine outcome" where
  "engine_Restore sn e =
     (case sn of
        None \<Rightarrow> Done e
      | Some x \<Rightarrow>
          (case es_OrderBook x of
             None \<Rightarrow> Done e
           | Some ob \<Rightarrow> obind (book_Restore (Some ob) e) (\<lambda>e1.
               if es_LastTradePrice x = [] then Done e1
               else case parse128 (es_LastTradePrice x) of Some p \<Rightarrow> setLastTradePrice (Some p) e1 | None \<Rightarrow> Done e1)))"

text \<open>
  A float in a snapshot file: \<open>MarshalText\<close> writes the shortest decimal within half a unit of the last place at the precision of the float, of two such
  decimals the nearer one, and an end of the interval only when the last bit is 0; \<open>UnmarshalText\<close> reads it into 64 bits.
\<close>

definition decimal_in :: "nat \<Rightarrow> rat \<Rightarrow> rat \<Rightarrow> bool" where
  "decimal_in p a d \<longleftrightarrow>
     (let h = 2 powi (bexp a - int p - 1) in \<bar>d - a\<bar> < h \<or> \<bar>d - a\<bar> = h \<and> even \<lfloor>a / 2 powi (bexp a - int p)\<rfloor>)"

definition decimal_at :: "nat \<Rightarrow> rat \<Rightarrow> int \<Rightarrow> rat option" where
  "decimal_at p a j =
     (let down = of_int \<lfloor>a / 10 powi j\<rfloor> * 10 powi j; up = down + 10 powi j;
          near = of_int (round_even (a / 10 powi j)) * 10 powi j
      in if decimal_in p a down \<and> decimal_in p a up then Some near
         else if decimal_in p a down then Some down else if decimal_in p a up then Some up else None)"

primrec first_some :: "('a \<Rightarrow> 'b option) \<Rightarrow> 'a list \<Rightarrow> 'b option" where
  "first_some f [] = None"
| "first_some f (x # xs) = (case f x of Some y \<Rightarrow> Some y | None \<Rightarrow> first_some f xs)"

definition shortest :: "nat \<Rightarrow> rat \<Rightarrow> rat" where
  "shortest p v =
     (let a = \<bar>v\<bar>; first = max 1 (bexp a); rounds = nat (first + \<bar>bexp a\<bar> + int p) + 2
      in if v = 0 then 0
         else case first_some (\<lambda>k. decimal_at p a (first - int k)) [0..<rounds] of
             Some d \<Rightarrow> (if v < 0 then - d else d) | None \<Rightarrow> v)"

definition json_float :: "bf \<Rightarrow> bf" where
  "json_float x = BF 64 (fround 64 (shortest (bprec x) (bval x)))"

definition json_order :: "order \<Rightarrow> order" where
  "json_order v = v\<lparr>o_Price := map_option json_float (o_Price v), o_StopPrice := map_option json_float (o_StopPrice v),
     o_Quantity := map_option json_float (o_Quantity v), o_FilledQty := json_float (o_FilledQty v),
     o_RemainingQty := map_option json_float (o_RemainingQty v), o_IcebergQty := map_option json_float (o_IcebergQty v),
     o_VisibleQty := map_option json_float (o_VisibleQty v), o_bookSeq := 0, o_done := NoChan, o_Err := None\<rparr>"

definition json_book :: "ob_snapshot \<Rightarrow> ob_snapshot" where
  "json_book x = x\<lparr>os_Orders := map (map_option json_order) (os_Orders x), os_Stops := map (map_option json_order) (os_Stops x)\<rparr>"

definition json_snapshot :: "engine_snapshot \<Rightarrow> engine_snapshot" where
  "json_snapshot s = s\<lparr>es_OrderBook := map_option json_book (es_OrderBook s)\<rparr>"

section \<open>The exchange\<close>

datatype exch_err = RiskRefused risk_err | EngineBusy | WalNotOpened | PairNotFound | CancelFailed cancel_error | SnapshotFailed

record pair_engine =
  pe_engine :: engine
  pe_inbound :: "order ring"

record exchange =
  ex_engines :: "(string, pair_engine) gomap"
  ex_risk :: "risk option"
  ex_walDir :: string
  ex_snapshotDir :: string
  ex_wals :: "(string, wal_line list) gomap"
  ex_snaps :: "(string, engine_snapshot) gomap"
  ex_faults :: "bool list"
  ex_policy :: "int \<times> int"
  ex_now :: int
  ex_uuid :: "string \<Rightarrow> nat \<Rightarrow> string"
  ex_memory :: "ref \<Rightarrow> order"

text \<open>Whether the next file operation succeeds.\<close>

definition file_op :: "exchange \<Rightarrow> bool \<times> exchange" where
  "file_op ex = (case ex_faults ex of [] \<Rightarrow> (True, ex) | f # fs \<Rightarrow> (\<not> f, ex\<lparr>ex_faults := fs\<rparr>))"

definition pair_slashes :: "string \<Rightarrow> string" where
  "pair_slashes = map (\<lambda>c. if c = CHR ''-'' then CHR ''/'' else c)"

definition normalizePair :: "string \<Rightarrow> string" where
  "normalizePair pair = ToUpper (pair_slashes pair)"

definition pair_dashes :: "string \<Rightarrow> string" where
  "pair_dashes = map (\<lambda>c. if c = CHR ''/'' then CHR ''-'' else c)"

definition walFileName :: "string \<Rightarrow> string" where
  "walFileName pair = pair_dashes pair @ ''.wal''"

definition snapshotFileName :: "string \<Rightarrow> string" where
  "snapshotFileName pair = pair_dashes pair @ ''.snapshot''"

text \<open>\<open>filepath.Join\<close> of a directory and a file name.\<close>

definition path_join :: "string \<Rightarrow> string \<Rightarrow> string" where
  "path_join d f = (if d = [] then f else d @ CHR ''/'' # f)"

definition LoadSnapshot :: "string \<Rightarrow> exchange \<Rightarrow> engine_snapshot option" where
  "LoadSnapshot path ex = map_option json_snapshot (gm_get (ex_snaps ex) path)"

text \<open>The file is replaced by the rename at the end: a failure before it leaves the old one.\<close>

definition SaveSnapshot :: "string \<Rightarrow> engine_snapshot \<Rightarrow> exchange \<Rightarrow> exch_err option \<times> exchange" where
  "SaveSnapshot path s ex =
     (let (ok, ex1) = file_op ex in if ok then (None, ex1\<lparr>ex_snaps := gm_put path s (ex_snaps ex1)\<rparr>) else (Some SnapshotFailed, ex1))"

section \<open>Recovery\<close>

text \<open>A text that does not parse gives \<open>nil\<close>.\<close>

definition parsed :: "string \<Rightarrow> bf option" where
  "parsed s = bf_parse new_float s"

definition orderFromWALRecord :: "string \<Rightarrow> wal_record \<Rightarrow> order option" where
  "orderFromWALRecord uuid w =
     (let price = parsed (wr_Price w); stop = parsed (wr_StopPrice w); qty = parsed (wr_Quantity w)
      in if wr_Quantity w \<noteq> [] \<and> (case qty of None \<Rightarrow> True | Some q \<Rightarrow> bf_sign q \<le> 0) then None
         else Some ((NewOrder uuid (wr_Timestamp w) (wr_UserID w) (wr_Pair w) (side_of_int8 (wr_Side w)) (type_of_int8 (wr_Type w)) price qty)
           \<lparr>o_ID := wr_OrderID w, o_ClientOrderID := wr_ClientOrderID w, o_StopPrice := stop, o_TIF := tif_of_int8 (wr_TIF w),
            o_STP := stp_of_int8 (wr_STP w), o_CreatedAt := wr_Timestamp w, o_UpdatedAt := wr_Timestamp w\<rparr>))"

definition replay_record :: "nat \<Rightarrow> 64 word \<Rightarrow> wal_record \<Rightarrow> engine \<Rightarrow> engine outcome" where
  "replay_record fuel lastSeq w e =
     (if wr_Seq w \<le> lastSeq then Done e
      else if wr_Op w = ''order'' then
        (let e1 = e\<lparr>e_nuuid := Suc (e_nuuid e)\<rparr>
         in case orderFromWALRecord (e_uuid e (e_nuuid e)) w of
              None \<Rightarrow> Done e
            | Some v \<Rightarrow> (let (r, e2) = alloc v e1 in processOrder fuel r e2))
      else if wr_Op w = ''cancel'' then Done (snd (processCancel (wr_OrderID w) (wr_UserID w) e))
      else Done e)"

text \<open>The writer is taken out while records are replayed.\<close>

definition replayWAL :: "nat \<Rightarrow> wal_line list \<Rightarrow> 64 word \<Rightarrow> engine \<Rightarrow> engine outcome" where
  "replayWAL fuel lines lastSeq e = obind (replay (replay_record fuel lastSeq) lines (e\<lparr>e_wal := None\<rparr>)) (\<lambda>e1. Done (e1\<lparr>e_wal := e_wal e\<rparr>))"

definition recoverPair :: "nat \<Rightarrow> exchange \<Rightarrow> engine \<Rightarrow> engine outcome" where
  "recoverPair fuel ex e =
     (let pair = ob_Pair e;
          walPath = path_join (ex_walDir ex) (walFileName pair); snapPath = path_join (ex_snapshotDir ex) (snapshotFileName pair)
      in obind (if ex_snapshotDir ex = [] then Done e
                else case LoadSnapshot snapPath ex of
                    None \<Rightarrow> Done e
                  | Some s \<Rightarrow> obind (engine_Restore (Some s) e) (\<lambda>e1. if es_OrderBook s = None then Panicked else Done e1)) (\<lambda>e1.
           if ex_walDir ex = [] then Done e1
           else replayWAL fuel (case gm_get (ex_wals ex) walPath of Some ls \<Rightarrow> ls | None \<Rightarrow> [])
                  (case LoadSnapshot snapPath ex of Some s \<Rightarrow> es_LastWALSeq s | None \<Rightarrow> 0) e1))"

definition fresh_engine :: "string \<Rightarrow> exchange \<Rightarrow> engine" where
  "fresh_engine pair ex = (NewMatchingEngine (ex_memory ex) (ex_uuid ex pair) pair)\<lparr>clock := ex_now ex\<rparr>"

text \<open>A failure of the recovery itself is logged and does not stop the registration; a panic does.\<close>

definition RegisterPair :: "nat \<Rightarrow> string \<Rightarrow> 64 word \<Rightarrow> exchange \<Rightarrow> ((exch_err + pair_engine) \<times> exchange) outcome" where
  "RegisterPair fuel pair0 ringCap ex =
     (let pair = normalizePair pair0
      in case gm_get (ex_engines ex) pair of
           Some p \<Rightarrow> Done (Inr p, ex)
         | None \<Rightarrow>
             (let e = fresh_engine pair ex;
                  (ok, ex1) = (if ex_walDir ex \<noteq> [] then file_op ex else (True, ex));
                  lines = (case gm_get (ex_wals ex) (path_join (ex_walDir ex) (walFileName pair)) of Some ls \<Rightarrow> ls | None \<Rightarrow> []);
                  e1 = (if ex_walDir ex \<noteq> [] then SetWAL (Some (NewWALWriter lines (ex_policy ex) (ex_now ex))) e else e)
              in if \<not> ok then Done (Inl WalNotOpened, ex1)
                 else obind (recoverPair fuel ex1 e1) (\<lambda>e2.
                      case NewRingBuffer ringCap of
                        None \<Rightarrow> OutOfFuel
                      | Some rb \<Rightarrow> let p = \<lparr>pe_engine = e2, pe_inbound = rb\<rparr> in Done (Inr p, ex1\<lparr>ex_engines := gm_put pair p (ex_engines ex1)\<rparr>))))"

section \<open>Operations\<close>

definition exch_Get :: "string \<Rightarrow> exchange \<Rightarrow> pair_engine option" where
  "exch_Get pair ex = gm_get (ex_engines ex) (normalizePair pair)"

definition EngineCount :: "exchange \<Rightarrow> nat" where
  "EngineCount ex = length (ex_engines ex)"

definition set_engine :: "string \<Rightarrow> pair_engine \<Rightarrow> exchange \<Rightarrow> exchange" where
  "set_engine pair p ex = ex\<lparr>ex_engines := gm_put pair p (ex_engines ex)\<rparr>"

text \<open>\<open>MatchingEngine.SubmitOrder\<close>: the queue holds the order; the engine stores it under a reference when it takes it out.\<close>

definition engine_SubmitOrder :: "order \<Rightarrow> pair_engine \<Rightarrow> bool \<times> pair_engine" where
  "engine_SubmitOrder v p =
     (let (ok, rb) = Enqueue v (pe_inbound p)
      in (ok, \<lparr>pe_engine = upd_stats (\<lambda>t. t\<lparr>OrdersReceived := OrdersReceived t + 1\<rparr>) (pe_engine p), pe_inbound = rb\<rparr>))"

definition request_of :: "order \<Rightarrow> order_request" where
  "request_of v = \<lparr>rq_UserID = o_UserID v, rq_Pair = o_Pair v, rq_Side = o_Side v, rq_Type = o_Type v, rq_Price = o_Price v, rq_Quantity = o_Quantity v\<rparr>"

definition risk_check :: "order \<Rightarrow> exchange \<Rightarrow> risk_err option \<times> exchange" where
  "risk_check v ex =
     (case ex_risk ex of
        None \<Rightarrow> (None, ex)
      | Some k \<Rightarrow> (let (e, k') = Check (request_of v) (k\<lparr>rk_now := ex_now ex\<rparr>) in (e, ex\<lparr>ex_risk := Some k'\<rparr>)))"

definition queue_capacity :: "64 word" where
  "queue_capacity = 1048576"

text \<open>The result is the error, the order as the caller sees it afterwards, and the exchange.\<close>

definition exch_SubmitOrder :: "nat \<Rightarrow> order \<Rightarrow> exchange \<Rightarrow> (exch_err option \<times> order \<times> exchange) outcome" where
  "exch_SubmitOrder fuel v0 ex =
     (let v = v0\<lparr>o_Pair := normalizePair (o_Pair v0)\<rparr>
      in case risk_check v ex of
           (Some e, ex1) \<Rightarrow> Done (Some (RiskRefused e), v\<lparr>o_Status := Rejected\<rparr>, ex1)
         | (None, ex1) \<Rightarrow>
             obind (RegisterPair fuel (o_Pair v) queue_capacity ex1) (\<lambda>(res, ex2).
               case res of
                 Inl e \<Rightarrow> Done (Some e, v, ex2)
               | Inr p \<Rightarrow>
                   let (ok, p') = engine_SubmitOrder v p; ex3 = set_engine (o_Pair v) p' ex2
                   in Done (if ok then None else Some EngineBusy, v, ex3)))"

text \<open>A cancel reaches the engine through its own channel, which is served before the queue.\<close>

definition exch_CancelOrder :: "string \<Rightarrow> string \<Rightarrow> string \<Rightarrow> exchange \<Rightarrow> (exch_err + order) \<times> exchange" where
  "exch_CancelOrder orderID userID pair0 ex =
     (let pair = normalizePair pair0
      in case gm_get (ex_engines ex) pair of
           None \<Rightarrow> (Inl PairNotFound, ex)
         | Some p \<Rightarrow>
             (case processCancel orderID userID (pe_engine p) of
                (Inl e, e1) \<Rightarrow> (Inl (CancelFailed e), set_engine pair (p\<lparr>pe_engine := e1\<rparr>) ex)
              | (Inr r, e1) \<Rightarrow> (Inr (store e1 r), set_engine pair (p\<lparr>pe_engine := e1\<rparr>) ex)))"

text \<open>One round of the engine loop with queued orders: each in turn, then the stops.\<close>

fun process_queued :: "nat \<Rightarrow> order list \<Rightarrow> engine \<Rightarrow> engine outcome" where
  "process_queued fuel [] e = triggerStops fuel e"
| "process_queued fuel (v # vs) e = (let (r, e1) = alloc v e in obind (processOrder fuel r e1) (process_queued fuel vs))"

definition run_engine :: "nat \<Rightarrow> string \<Rightarrow> exchange \<Rightarrow> exchange outcome" where
  "run_engine fuel pair ex =
     (case gm_get (ex_engines ex) pair of
        None \<Rightarrow> Done ex
      | Some p \<Rightarrow>
          (let (vs, rb) = MPDrain (pe_inbound p)
           in if vs = [] then Done ex
              else obind (process_queued fuel vs ((pe_engine p)\<lparr>clock := ex_now ex\<rparr>)) (\<lambda>e.
                     Done (set_engine pair \<lparr>pe_engine = e, pe_inbound = rb\<rparr> ex))))"

text \<open>All pairs in turn, up to the first failure; \<open>dir\<close> falls back to the configured directory.\<close>

fun snapshot_pairs :: "string \<Rightarrow> (string \<times> pair_engine) list \<Rightarrow> exchange \<Rightarrow> exch_err option \<times> exchange" where
  "snapshot_pairs dir [] ex = (None, ex)"
| "snapshot_pairs dir ((pair, p) # ps) ex =
     (case SaveSnapshot (path_join dir (snapshotFileName pair)) (engine_Snapshot (pe_engine p) (pe_engine p)) ex of
        (Some e, ex1) \<Rightarrow> (Some e, ex1)
      | (None, ex1) \<Rightarrow> snapshot_pairs dir ps ex1)"

definition exch_Snapshot :: "string \<Rightarrow> exchange \<Rightarrow> exch_err option \<times> exchange" where
  "exch_Snapshot dir0 ex =
     (let dir = (if dir0 = [] then ex_snapshotDir ex else dir0) in if dir = [] then (None, ex) else snapshot_pairs dir (ex_engines ex) ex)"

definition SnapshotAll :: "exchange \<Rightarrow> exch_err option \<times> exchange" where
  "SnapshotAll ex = exch_Snapshot [] ex"

text \<open>The next run of the program: a new exchange that finds the files of the old one. \<open>kept\<close> says how many lines of a log survived.\<close>

definition NewExchangeEngine :: "risk option \<Rightarrow> string \<Rightarrow> string \<Rightarrow> exchange \<Rightarrow> exchange" where
  "NewExchangeEngine k walDir snapshotDir env = env\<lparr>ex_engines := [], ex_risk := k, ex_walDir := walDir, ex_snapshotDir := snapshotDir\<rparr>"

definition log_of :: "pair_engine \<Rightarrow> wal_line list" where
  "log_of p = (case e_wal (pe_engine p) of Some w \<Rightarrow> w_file w | None \<Rightarrow> [])"

definition logs_left :: "(string \<Rightarrow> nat) \<Rightarrow> exchange \<Rightarrow> (string, wal_line list) gomap" where
  "logs_left kept ex = map (\<lambda>(pair, p). (path_join (ex_walDir ex) (walFileName pair), take (kept pair) (log_of p))) (ex_engines ex)"

end
