(* ===== verification/Recovery.thy ===== *)
theory Recovery
  imports Exchange Book_Invariant
begin

text \<open>
  What a restart keeps of a book: a restored snapshot is a well-formed book with the orders of the snapshot and the priority of their creation times
  (\<open>restored_book\<close>), the file keeps the values that fit into 64 bits (\<open>snapshot_file_roundtrip\<close>), and a logged order is read back as it was
  (\<open>recovered_order\<close>).
\<close>

section \<open>Restoring a book\<close>

lemma alloc_wf:
  assumes "book_wf s"
  shows "book_wf (snd (alloc v s))"
  by (rule book_wf_cong [OF assms]) (auto simp: alloc_def)

lemma cleared_wf [simp]: "book_wf (cleared n s)"
  by (simp add: cleared_def book_wf_def side_ok_def orders_ok_def unique_ids_def index_ok_def indexed_def alloc_ok_def heap_refs_def side_heap_def)

lemma restored_simps [simp]:
  "o_ID (restored i v) = o_ID v" "o_Side (restored i v) = o_Side v" "o_Price (restored i v) = o_Price v"
  "o_bookSeq (restored i v) = of_nat (i + 1)" "o_CreatedAt (restored i v) = o_CreatedAt v"
  by (simp_all add: restored_def)

lemma unat_small: "n < 2 ^ 64 \<Longrightarrow> unat (of_nat n :: 64 word) = n"
  by (simp add: unat_of_nat take_bit_nat_eq_self)

lemma seq_not_0: "i + 1 < 2 ^ 64 \<Longrightarrow> (of_nat (i + 1) :: 64 word) \<noteq> 0"
  using unat_small [of "i + 1"] by (metis Suc_eq_plus1 nat.distinct(1) unat_0)

text \<open>Restoring an order is adding it, with its sequence number already given.\<close>

lemma restore_order_add:
  assumes "i + 1 < 2 ^ 64"
  shows "restore_order i v s = addLocked (nextref s) ((snd (alloc (restored i v) s))\<lparr>seqNo := seqNo s - 1\<rparr>)"
proof -
  note seq_not_0 [OF assms]
  then have "next_seq (nextref s) ((snd (alloc (restored i v) s))\<lparr>seqNo := seqNo s - 1\<rparr>) = snd (alloc (restored i v) s)"
    by (simp add: next_seq_def alloc_def)
  then show ?thesis by (simp add: restore_order_def addLocked_def Let_def alloc_def)
qed

lemma restore_order_ok:
  assumes wf: "book_wf s" and p: "o_Price v \<noteq> None" "o_Quantity v \<noteq> None \<or> o_RemainingQty v \<noteq> None" and i: "i + 1 < 2 ^ 64"
    and new: "gm_get (orders s) (o_ID v) = None" "\<And>x. x \<in> heap_refs s \<Longrightarrow> o_ID (store s x) \<noteq> o_ID v"
  shows "\<exists>t. restore_order i v s = Done t \<and> book_wf t \<and> store t = (store s)(nextref s := restored i v) \<and>
    orders t = gm_put (o_ID v) (nextref s) (orders s) \<and> heap_refs t = insert (nextref s) (heap_refs s) \<and>
    nextref t = Suc (nextref s) \<and> stops t = stops s \<and> seqNo t = seqNo s"
proof -
  let ?s = "(snd (alloc (restored i v) s))\<lparr>seqNo := seqNo s - 1\<rparr>"
  have hr: "x < nextref s" if "x \<in> heap_refs s" for x
    using wf that by (auto simp: book_wf_def side_ok_def heap_refs_def)
  have w: "book_wf ?s" using alloc_wf [OF wf] by simp
  note ne = seq_not_0 [OF i]
  have "o_RemainingQty (restored i v) \<noteq> None" using p(2)
    by (auto simp: restored_def newBigFloatCopy_def split: option.splits)
  then have a: "addable (nextref s) ?s"
    using p new hr by (auto simp: addable_def alloc_def heap_refs_def)
  have n: "store (next_seq (nextref s) ?s) = (store s)(nextref s := restored i v)"
    using ne by (simp add: store_next_seq alloc_def fun_eq_iff)
  show ?thesis using addLocked_ok [OF w a] n unfolding restore_order_add [OF i] by (auto simp: alloc_def heap_refs_def)
qed

definition complete :: "order \<Rightarrow> bool" where
  "complete v \<longleftrightarrow> o_Price v \<noteq> None \<and> (o_Quantity v \<noteq> None \<or> o_RemainingQty v \<noteq> None)"

text \<open>What a run of restores leaves: the \<open>k\<close>-th order under the \<open>k\<close>-th fresh reference.\<close>

definition restored_to :: "nat \<Rightarrow> order list \<Rightarrow> 'a book_scheme \<Rightarrow> 'a book_scheme \<Rightarrow> bool" where
  "restored_to i vs s t \<longleftrightarrow> nextref t = nextref s + length vs \<and>
     heap_refs t = heap_refs s \<union> {nextref s ..< nextref s + length vs} \<and> stops t = stops s \<and> seqNo t = seqNo s \<and>
     (\<forall>x < nextref s. store t x = store s x) \<and>
     (\<forall>k < length vs. store t (nextref s + k) = restored (i + k) (vs ! k) \<and> gm_get (orders t) (o_ID (vs ! k)) = Some (nextref s + k)) \<and>
     (\<forall>j. j \<notin> o_ID ` set vs \<longrightarrow> gm_get (orders t) j = gm_get (orders s) j)"

lemma restored_to_Nil: "restored_to i [] s s"
  by (simp add: restored_to_def)

lemma restored_to_Cons:
  assumes t: "store t = (store s)(nextref s := restored i v)" "orders t = gm_put (o_ID v) (nextref s) (orders s)"
      "heap_refs t = insert (nextref s) (heap_refs s)" "nextref t = Suc (nextref s)" "stops t = stops s" "seqNo t = seqNo s"
    and r: "restored_to (Suc i) vs t u" and d: "o_ID v \<notin> o_ID ` set vs"
  shows "restored_to i (v # vs) s u"
proof -
  have "store u (nextref s + k) = restored (i + k) ((v # vs) ! k) \<and> gm_get (orders u) (o_ID ((v # vs) ! k)) = Some (nextref s + k)"
    if "k < length (v # vs)" for k
    using that r t d by (cases k) (auto simp: restored_to_def)
  moreover have "heap_refs u = heap_refs s \<union> {nextref s ..< nextref s + length (v # vs)}"
    using r t by (auto simp: restored_to_def)
  moreover have "\<forall>x < nextref s. store u x = store s x" using r t by (simp add: restored_to_def)
  ultimately show ?thesis using r t unfolding restored_to_def by simp
qed

lemma restore_orders_ok:
  assumes "book_wf s" "\<forall>v \<in> set vs. complete v" "distinct (map o_ID vs)" "i + length vs < 2 ^ 64"
    and "\<forall>v \<in> set vs. gm_get (orders s) (o_ID v) = None" "\<forall>v \<in> set vs. \<forall>x \<in> heap_refs s. o_ID (store s x) \<noteq> o_ID v"
  shows "\<exists>t. restore_orders i vs s = Done t \<and> book_wf t \<and> restored_to i vs s t"
  using assms
proof (induction vs arbitrary: i s)
  case Nil
  then show ?case by (simp add: restored_to_Nil)
next
  case (Cons v vs)
  have hr: "x < nextref s" if "x \<in> heap_refs s" for x
    using Cons.prems(1) that by (auto simp: book_wf_def side_ok_def heap_refs_def)
  obtain t where t: "restore_order i v s = Done t" "book_wf t" "store t = (store s)(nextref s := restored i v)"
      "orders t = gm_put (o_ID v) (nextref s) (orders s)" "heap_refs t = insert (nextref s) (heap_refs s)"
      "nextref t = Suc (nextref s)" "stops t = stops s" "seqNo t = seqNo s"
    using restore_order_ok [OF Cons.prems(1), of v i] Cons.prems by (auto simp: complete_def)
  have new: "o_ID w \<noteq> o_ID v" if "w \<in> set vs" for w using Cons.prems(3) that by (auto simp: image_iff)
  have "\<exists>u. restore_orders (Suc i) vs t = Done u \<and> book_wf u \<and> restored_to (Suc i) vs t u"
    using Cons.prems t(2-5) new hr by (intro Cons.IH) fastforce+
  then show ?case using t(1) restored_to_Cons [OF t(3-8)] Cons.prems(3) by auto
qed

lemma restore_stops_ok:
  "book_wf s \<Longrightarrow> book_wf (restore_stops vs s) \<and> nextref (restore_stops vs s) = nextref s + length vs \<and> heap_refs (restore_stops vs s) = heap_refs s \<and>
     orders (restore_stops vs s) = orders s \<and> seqNo (restore_stops vs s) = seqNo s \<and> (\<forall>x < nextref s. store (restore_stops vs s) x = store s x) \<and>
     stops (restore_stops vs s) = stops s @ [nextref s ..< nextref s + length vs] \<and>
     (\<forall>k < length vs. store (restore_stops vs s) (nextref s + k) = vs ! k)"
proof (induction vs arbitrary: s)
  case Nil
  then show ?case by simp
next
  case (Cons v vs)
  let ?s = "(snd (alloc v s))\<lparr>stops := stops s @ [nextref s]\<rparr>"
  have e: "restore_stops (v # vs) s = restore_stops vs ?s" by (simp add: alloc_def)
  have w: "book_wf ?s" by (rule book_wf_cong [OF Cons.prems]) (auto simp: alloc_def)
  have k: "store (restore_stops vs ?s) (nextref s + k) = (v # vs) ! k" if "k < length (v # vs)" for k
    using Cons.IH [OF w] that by (cases k) (auto simp: alloc_def)
  have u: "[nextref s ..< nextref s + length (v # vs)] = nextref s # [Suc (nextref s) ..< Suc (nextref s) + length vs]"
    by (simp add: upt_conv_Cons del: upt_Suc)
  have f: "nextref ?s = Suc (nextref s)" "heap_refs ?s = heap_refs s" "orders ?s = orders s" "seqNo ?s = seqNo s" "stops ?s = stops s @ [nextref s]"
    "\<And>x. x < nextref s \<Longrightarrow> store (snd (alloc v s)) x = store s x"
    by (simp_all add: alloc_def heap_refs_def)
  show ?case unfolding e u using Cons.IH [OF w] k [unfolded e] unfolding f by (simp add: f(6))
qed

text \<open>The orders of a snapshot in the order in which they are restored.\<close>

definition by_age :: "ob_snapshot \<Rightarrow> order list" where
  "by_age x = sort_key o_CreatedAt (named_orders (os_Orders x))"

definition restorable :: "ob_snapshot \<Rightarrow> bool" where
  "restorable x \<longleftrightarrow> (\<forall>v \<in> set (named_orders (os_Orders x)). complete v) \<and> distinct (map o_ID (named_orders (os_Orders x))) \<and>
     length (named_orders (os_Orders x)) < 2 ^ 64"

lemma by_age_facts:
  assumes "restorable x"
  shows "\<forall>v \<in> set (by_age x). complete v" "distinct (map o_ID (by_age x))" "length (by_age x) < 2 ^ 64"
    "set (by_age x) = set (named_orders (os_Orders x))" "sorted (map o_CreatedAt (by_age x))"
proof -
  have "mset (map o_ID (by_age x)) = mset (map o_ID (named_orders (os_Orders x)))" by (simp add: by_age_def)
  then show "distinct (map o_ID (by_age x))" using assms unfolding restorable_def by (metis distinct_map mset_eq_imp_distinct_iff)
qed (use assms in \<open>simp_all add: restorable_def by_age_def\<close>)

lemma Restore_ok:
  assumes "restorable x"
  shows "\<exists>t. book_Restore (Some x) s = Done t \<and> book_wf t \<and> seqNo t = os_SeqNo x \<and>
    heap_refs t = {nextref s ..< nextref s + length (by_age x)} \<and>
    (\<forall>k < length (by_age x). store t (nextref s + k) = restored k (by_age x ! k) \<and> gm_get (orders t) (o_ID (by_age x ! k)) = Some (nextref s + k)) \<and>
    (\<forall>i. i \<notin> o_ID ` set (by_age x) \<longrightarrow> gm_get (orders t) i = None) \<and> map (store t) (stops t) = named_orders (os_Stops x)"
proof -
  let ?c = "cleared (os_SeqNo x) s"
  have c: "nextref ?c = nextref s" "heap_refs ?c = {}" "orders ?c = []" "stops ?c = []" "seqNo ?c = os_SeqNo x"
    by (simp_all add: cleared_def heap_refs_def)
  obtain t where t: "restore_orders 0 (by_age x) ?c = Done t" "book_wf t" "restored_to 0 (by_age x) ?c t"
    using restore_orders_ok [of ?c "by_age x" 0] by_age_facts [OF assms] c by auto
  let ?u = "restore_stops (named_orders (os_Stops x)) t"
  have u: "book_Restore (Some x) s = Done ?u" using t(1) by (simp add: book_Restore_def by_age_def)
  note r = t(3) [unfolded restored_to_def c] and q = restore_stops_ok [OF t(2), of "named_orders (os_Stops x)"]
  have "map (store ?u) (stops ?u) = named_orders (os_Stops x)" using q r by (auto intro: nth_equalityI)
  moreover have "store ?u (nextref s + k) = restored k (by_age x ! k)" if "k < length (by_age x)" for k
    using q r that by simp
  ultimately show ?thesis using u q r by simp
qed

text \<open>
  C21: a snapshot of complete orders with different identifiers is restored into any book without a panic. The book is well-formed, it holds exactly the
  orders of the snapshot, under fresh references with the sequence numbers 1, 2, and so on, in the order of their creation, its next sequence
  number is that of the snapshot, and its stop list is the one of the snapshot.
\<close>

theorem restored_book:
  assumes "restorable x"
  shows "\<exists>t. book_Restore (Some x) s = Done t \<and> book_wf t \<and> seqNo t = os_SeqNo x \<and>
    heap_refs t = {nextref s ..< nextref s + length (by_age x)} \<and>
    (\<forall>k < length (by_age x). store t (nextref s + k) = restored k (by_age x ! k) \<and> gm_get (orders t) (o_ID (by_age x ! k)) = Some (nextref s + k)) \<and>
    (\<forall>i. i \<notin> o_ID ` set (by_age x) \<longrightarrow> gm_get (orders t) i = None) \<and> map (store t) (stops t) = named_orders (os_Stops x)"
  using assms by (rule Restore_ok)

section \<open>Values in a snapshot file\<close>

lemma first_some_Some: "first_some f xs = Some y \<Longrightarrow> \<exists>x \<in> set xs. f x = Some y"
  by (induction xs) (auto split: option.splits)

lemma decimal_in_near: "decimal_in p a d \<Longrightarrow> \<bar>d - a\<bar> \<le> 2 powi (bexp a - int p - 1)"
  by (auto simp: decimal_in_def Let_def)

lemma decimal_at_near: "decimal_at p a j = Some d \<Longrightarrow> \<bar>d - a\<bar> \<le> 2 powi (bexp a - int p - 1)"
proof -
  assume d: "decimal_at p a j = Some d"
  define P where "P = (10::rat) powi j"
  define X where "X = a / P"
  have "round_even X = \<lfloor>X\<rfloor> \<or> round_even X = \<lfloor>X\<rfloor> + 1" by (auto simp: round_even_def Let_def)
  then have n: "of_int (round_even X) * P = of_int \<lfloor>X\<rfloor> * P \<or> of_int (round_even X) * P = of_int \<lfloor>X\<rfloor> * P + P"
    by (auto simp: algebra_simps)
  have "decimal_in p a d" using d n unfolding decimal_at_def Let_def P_def [symmetric] X_def [symmetric]
    by (auto split: if_splits)
  then show ?thesis by (rule decimal_in_near)
qed

lemma shortest_near: "\<bar>shortest p v - v\<bar> \<le> 2 powi (bexp v - int p - 1)"
proof -
  have b: "bexp \<bar>v\<bar> = bexp v" by (simp add: bexp_def)
  show ?thesis
  proof (cases "v = 0 \<or> shortest p v = v")
    case False
    then obtain d j where d: "decimal_at p \<bar>v\<bar> j = Some d" "shortest p v = (if v < 0 then - d else d)"
      by (auto simp: shortest_def Let_def split: option.splits if_splits dest: first_some_Some)
    then show ?thesis using decimal_at_near [OF d(1)] b by (auto simp: abs_if split: if_splits)
  qed (auto simp: shortest_def)
qed

text \<open>A value of 128 bits is read back from the file if and only if it fits into 64 bits.\<close>

lemma json_float_exact: "bprec x = 128 \<Longrightarrow> bval (json_float x) = bval x \<longleftrightarrow> fround 64 (bval x) = bval x"
proof -
  assume p: "bprec x = 128"
  have keep: "fround 64 (shortest 128 v) = v" if v: "fround 64 v = v" for v
  proof -
    have near: "\<bar>shortest 128 v - v\<bar> < 2 powi (bexp v - int 64 - 2)"
    proof -
      have "(2::rat) powi (bexp v - int 128 - 1) < 2 powi (bexp v - int 64 - 2)" unfolding powi_less by simp
      with shortest_near [of 128 v] show ?thesis by linarith
    qed
    consider "v = 0" | "0 < v" | "0 < - v" by linarith
    then show ?thesis
    proof cases
      case 1 then show ?thesis by (simp add: shortest_def)
    next
      case 2 then show ?thesis using fround_near [OF _ 2 v near] by simp
    next
      case 3
      have "bexp (- v) = bexp v" by (simp add: bexp_def)
      moreover have "\<bar>- shortest 128 v - - v\<bar> < 2 powi (bexp v - int 64 - 2)" using near by (simp only: abs_minus_commute minus_diff_minus abs_minus_cancel)
      ultimately have "fround 64 (- shortest 128 v) = - v" using fround_near [of 64 "- v" "- shortest 128 v"] 3 v by (simp add: fround_minus)
      then show ?thesis by (simp add: fround_minus)
    qed
  qed
  have "bval (json_float x) = fround 64 (shortest 128 (bval x))" by (simp add: json_float_def p)
  then show ?thesis using keep [of "bval x"] by (metis fround_fround)
qed

text \<open>What an order agrees on, and its amounts.\<close>

definition terms :: "order \<Rightarrow> order" where
  "terms v = v\<lparr>o_Price := None, o_StopPrice := None, o_Quantity := None, o_FilledQty := new_float, o_RemainingQty := None, o_IcebergQty := None,
     o_VisibleQty := None, o_bookSeq := 0, o_done := NoChan, o_Err := None\<rparr>"

definition amounts :: "order \<Rightarrow> bf option list" where
  "amounts v = [o_Price v, o_StopPrice v, o_Quantity v, Some (o_FilledQty v), o_RemainingQty v, o_IcebergQty v, o_VisibleQty v]"

definition values_of :: "order \<Rightarrow> rat option list" where
  "values_of v = map (map_option bval) (amounts v)"

definition fits :: "nat \<Rightarrow> order \<Rightarrow> bool" where
  "fits p v \<longleftrightarrow> (\<forall>x. Some x \<in> set (amounts v) \<longrightarrow> fround p (bval x) = bval x)"

lemma filed_amounts: "amounts (json_order (copyOrder v)) = map (map_option (\<lambda>x. json_float (bf_set newBigFloat x))) (amounts v)"
  by (simp add: amounts_def json_order_def copyOrder_def newBigFloatCopy_def split: option.split)

lemma filed_terms: "terms (json_order (copyOrder v)) = terms v"
  by (simp add: terms_def json_order_def copyOrder_def)

lemma filed_values:
  assumes "fits 128 v"
  shows "values_of (json_order (copyOrder v)) = values_of v \<longleftrightarrow> fits 64 v"
proof -
  have "map_option bval (map_option (\<lambda>x. json_float (bf_set newBigFloat x)) y) = map_option bval y \<longleftrightarrow>
      (\<forall>x. y = Some x \<longrightarrow> fround 64 (bval x) = bval x)" if "y \<in> set (amounts v)" for y
  proof (cases y)
    case (Some x)
    then have "bval (bf_set newBigFloat x) = bval x" "bprec (bf_set newBigFloat x) = 128"
      using assms that by (auto simp: fits_def bf_set_def newBigFloat_def DefaultPrecision_def)
    then show ?thesis using json_float_exact [of "bf_set newBigFloat x"] Some by simp
  qed simp
  then show ?thesis by (auto simp: values_of_def filed_amounts fits_def list_eq_iff_nth_eq in_set_conv_nth all_set_conv_all_nth)
qed

section \<open>A book through the file\<close>

text \<open>A book between two orders: what rests in it is live, has an identifier and amounts of at most 128 bits.\<close>

definition at_rest :: "'a book_scheme \<Rightarrow> bool" where
  "at_rest b \<longleftrightarrow> book_wf b \<and> length (orders b) < 2 ^ 64 \<and> (\<forall>r \<in> set (stops b). o_ID (store b r) \<noteq> []) \<and>
     (\<forall>i r. gm_get (orders b) i = Some r \<longrightarrow> i \<noteq> [] \<and> 0 < bval (rem_q (store b r)) \<and> fits 128 (store b r))"

definition filed :: "'a book_scheme \<Rightarrow> ob_snapshot" where
  "filed b = json_book (book_Snapshot b)"

lemma map_filter_Some: "List.map_filter (\<lambda>x. x) (map (\<lambda>x. Some (f x)) xs) = map f xs"
  by (induction xs) (simp_all add: List.map_filter_def)

lemma filed_lists:
  "os_Orders (filed b) = map (\<lambda>p. Some (json_order (copyOrder (store b (snd p))))) (orders b)"
  "os_Stops (filed b) = map (\<lambda>r. Some (json_order (copyOrder (store b r)))) (stops b)"
  "os_SeqNo (filed b) = seqNo b"
  by (simp_all add: filed_def json_book_def book_Snapshot_def split_beta)

lemma filed_ID [simp]: "o_ID (json_order (copyOrder v)) = o_ID v" "o_CreatedAt (json_order (copyOrder v)) = o_CreatedAt v"
  by (simp_all add: json_order_def copyOrder_def)

lemma at_rest_get:
  assumes "at_rest b" "(i, r) \<in> set (orders b)"
  shows "gm_get (orders b) i = Some r" "o_ID (store b r) = i" "i \<noteq> []" "o_RemainingQty (store b r) \<noteq> None" "o_Price (store b r) \<noteq> None" "fits 128 (store b r)"
proof -
  have w: "book_wf b" using assms(1) by (simp add: at_rest_def)
  then have wf: "gm_wf (orders b)" by (simp add: book_wf_def orders_ok_def)
  show g: "gm_get (orders b) i = Some r" using set_gm_get [OF wf] assms(2) by blast
  show "o_ID (store b r) = i" using w g by (simp add: book_wf_def orders_ok_def)
  have l: "i \<noteq> [] \<and> 0 < bval (rem_q (store b r)) \<and> fits 128 (store b r)" using assms(1) g unfolding at_rest_def by blast
  then show "i \<noteq> []" "fits 128 (store b r)" by simp_all
  show "o_RemainingQty (store b r) \<noteq> None" using l by (auto simp: rem_q_def split: option.splits)
  have "r \<in> set (side_heap (o_Side (store b r)) b)" using w g l by (auto simp: book_wf_def orders_ok_def)
  then show "o_Price (store b r) \<noteq> None" using book_wf_side [OF w] by (auto simp: side_ok_def)
qed

lemma named_filed: "at_rest b \<Longrightarrow> named_orders (os_Orders (filed b)) = map (\<lambda>p. json_order (copyOrder (store b (snd p)))) (orders b)"
  unfolding named_orders_def filed_lists map_filter_Some
  by (rule filter_True) (use at_rest_get in \<open>fastforce\<close>)

lemma named_stops: "at_rest b \<Longrightarrow> named_orders (os_Stops (filed b)) = map (\<lambda>r. json_order (copyOrder (store b r))) (stops b)"
  unfolding named_orders_def filed_lists map_filter_Some by (rule filter_True) (simp add: at_rest_def)

lemma filed_restorable: "at_rest b \<Longrightarrow> restorable (filed b)"
proof -
  assume a: "at_rest b"
  have "complete (json_order (copyOrder (store b r)))" if "(i, r) \<in> set (orders b)" for i r
    using at_rest_get [OF a that] by (auto simp: complete_def json_order_def copyOrder_def newBigFloatCopy_def split: option.splits)
  then have "\<forall>v \<in> set (named_orders (os_Orders (filed b))). complete v" by (auto simp: named_filed [OF a])
  moreover have "map o_ID (named_orders (os_Orders (filed b))) = map fst (orders b)"
    using at_rest_get [OF a] by (simp add: named_filed [OF a])
  then have "distinct (map o_ID (named_orders (os_Orders (filed b))))" using a by (simp add: at_rest_def book_wf_def orders_ok_def)
  moreover have "length (named_orders (os_Orders (filed b))) < 2 ^ 64" using a by (simp add: named_filed [OF a]) (simp add: at_rest_def)
  ultimately show ?thesis unfolding restorable_def by blast
qed

text \<open>Where an order of the book is found after a restart.\<close>

lemma filed_place:
  assumes a: "at_rest b" and g: "gm_get (orders b) i = Some r"
  obtains k where "k < length (by_age (filed b))" "by_age (filed b) ! k = json_order (copyOrder (store b r))" "o_ID (store b r) = i"
proof -
  have m: "(i, r) \<in> set (orders b)" using g by (rule map_of_SomeD)
  then have "json_order (copyOrder (store b r)) \<in> set (by_age (filed b))"
    unfolding by_age_facts(4) [OF filed_restorable [OF a]] by (force simp: named_filed [OF a])
  with at_rest_get(2) [OF a m] show ?thesis using that by (auto simp: in_set_conv_nth)
qed

lemma restored_filed:
  assumes "o_RemainingQty v \<noteq> None"
  shows "terms (restored k (json_order (copyOrder v))) = terms v" "amounts (restored k (json_order (copyOrder v))) = amounts (json_order (copyOrder v))"
  using assms by (auto simp: restored_def terms_def amounts_def json_order_def copyOrder_def newBigFloatCopy_def split: option.splits)

lemma filed_restored:
  assumes "at_rest b"
  shows "\<exists>t. book_Restore (Some (filed b)) s = Done t \<and> book_wf t \<and> seqNo t = seqNo b \<and>
    (\<forall>i. gm_get (orders t) i = None \<longleftrightarrow> gm_get (orders b) i = None) \<and>
    (\<forall>i r r'. gm_get (orders b) i = Some r \<longrightarrow> gm_get (orders t) i = Some r' \<longrightarrow>
       terms (store t r') = terms (store b r) \<and> (values_of (store t r') = values_of (store b r) \<longleftrightarrow> fits 64 (store b r))) \<and>
    map (\<lambda>r. terms (store t r)) (stops t) = map (\<lambda>r. terms (store b r)) (stops b)"
proof -
  obtain t where t: "book_Restore (Some (filed b)) s = Done t" "book_wf t" "seqNo t = os_SeqNo (filed b)"
      "\<forall>k < length (by_age (filed b)). store t (nextref s + k) = restored k (by_age (filed b) ! k) \<and>
         gm_get (orders t) (o_ID (by_age (filed b) ! k)) = Some (nextref s + k)"
      "\<forall>i. i \<notin> o_ID ` set (by_age (filed b)) \<longrightarrow> gm_get (orders t) i = None" "map (store t) (stops t) = named_orders (os_Stops (filed b))"
    using Restore_ok [OF filed_restorable [OF assms], of s] by blast
  have ids: "o_ID ` set (by_age (filed b)) = fst ` set (orders b)"
    unfolding by_age_facts(4) [OF filed_restorable [OF assms]] named_filed [OF assms]
    using at_rest_get(2) [OF assms] by (force simp: image_image)
  have none: "gm_get (orders t) i = None \<longleftrightarrow> gm_get (orders b) i = None" for i
  proof (cases "gm_get (orders b) i")
    case None
    then show ?thesis using t(5) ids by (simp add: map_of_eq_None_iff)
  next
    case (Some r)
    obtain k where "k < length (by_age (filed b))" "by_age (filed b) ! k = json_order (copyOrder (store b r))" "o_ID (store b r) = i"
      using filed_place [OF assms Some] .
    then show ?thesis using t(4) Some by auto
  qed
  have kept: "terms (store t r') = terms (store b r) \<and> (values_of (store t r') = values_of (store b r) \<longleftrightarrow> fits 64 (store b r))"
    if g: "gm_get (orders b) i = Some r" "gm_get (orders t) i = Some r'" for i r r'
  proof -
    note m = at_rest_get [OF assms map_of_SomeD [OF g(1)]]
    obtain k where k: "k < length (by_age (filed b))" "by_age (filed b) ! k = json_order (copyOrder (store b r))" "o_ID (store b r) = i"
      using filed_place [OF assms g(1)] .
    then have "store t r' = restored k (json_order (copyOrder (store b r)))" using t(4) g(2) by auto
    then show ?thesis using restored_filed [OF m(4), of k] filed_values [OF m(6)] by (simp add: values_of_def)
  qed
  have "map terms (map (store t) (stops t)) = map (\<lambda>r. terms (store b r)) (stops b)"
    unfolding t(6) named_stops [OF assms] by (simp add: filed_terms)
  with t(1-3) none kept show ?thesis by (simp add: filed_lists comp_def)
qed

text \<open>The parked stops come back in their order.\<close>

lemma filed_stops:
  assumes "at_rest b" "book_Restore (Some (filed b)) s = Done t"
  shows "length (stops t) = length (stops b)"
    "j < length (stops b) \<Longrightarrow> store t (stops t ! j) = json_order (copyOrder (store b (stops b ! j)))"
proof -
  have "map (store t) (stops t) = named_orders (os_Stops (filed b))" using Restore_ok [OF filed_restorable [OF assms(1)], of s] assms(2) by auto
  then have m: "map (store t) (stops t) = map (\<lambda>r. json_order (copyOrder (store b r))) (stops b)" by (simp add: named_stops [OF assms(1)])
  show l: "length (stops t) = length (stops b)" using arg_cong [OF m, of length] by simp
  show "store t (stops t ! j) = json_order (copyOrder (store b (stops b ! j)))" if "j < length (stops b)"
    using arg_cong [OF m, of "\<lambda>xs. xs ! j"] l that by simp
qed

text \<open>
  C23: a book at rest that is written to a snapshot file and restored by the next run is well-formed again, with the sequence number of the book, the same order
  identifiers and the same parked stops in their order. At rest means that the book is well-formed, that every order and every stop has an identifier, and that an order
  has an open quantity and amounts of at most 128 bits. An order or stop keeps its identifiers, user, pair, side, type, time in force, status, times, self-trade
  mode and flags. Its amounts, the prices and quantities including the stop price, come back with the values they had if and only if these fit into 64 bits (for a
  stop again if they are of at most 128 bits): the file is read with that precision. Not kept are the place in the queue, which is given anew, the channel
  of a waiting caller and the error.
\<close>

theorem snapshot_file_roundtrip:
  assumes "at_rest b"
  shows "\<exists>t. book_Restore (Some (filed b)) s = Done t \<and> book_wf t \<and> seqNo t = seqNo b \<and>
    (\<forall>i. gm_get (orders t) i = None \<longleftrightarrow> gm_get (orders b) i = None) \<and>
    (\<forall>i r r'. gm_get (orders b) i = Some r \<longrightarrow> gm_get (orders t) i = Some r' \<longrightarrow>
       terms (store t r') = terms (store b r) \<and> (values_of (store t r') = values_of (store b r) \<longleftrightarrow> fits 64 (store b r))) \<and>
    length (stops t) = length (stops b) \<and>
    (\<forall>j < length (stops b). terms (store t (stops t ! j)) = terms (store b (stops b ! j)) \<and>
       (fits 128 (store b (stops b ! j)) \<longrightarrow>
          values_of (store t (stops t ! j)) = values_of (store b (stops b ! j)) \<longleftrightarrow> fits 64 (store b (stops b ! j))))"
proof -
  obtain t where t: "book_Restore (Some (filed b)) s = Done t" "book_wf t" "seqNo t = seqNo b"
      "\<forall>i. gm_get (orders t) i = None \<longleftrightarrow> gm_get (orders b) i = None"
      "\<forall>i r r'. gm_get (orders b) i = Some r \<longrightarrow> gm_get (orders t) i = Some r' \<longrightarrow>
         terms (store t r') = terms (store b r) \<and> (values_of (store t r') = values_of (store b r) \<longleftrightarrow> fits 64 (store b r))"
    using filed_restored [OF assms, of s] by blast
  note st = filed_stops [OF assms t(1)]
  show ?thesis
    by (rule exI [of _ t], intro conjI; (rule t)?) (simp_all add: st filed_terms filed_values)
qed

text \<open>
  C40: after a restart, of two orders at the same price the one created first comes first, whichever was ahead before. An order is created when its request
  is read and takes its place when it is matched, so the restart can turn the priority round.
\<close>

theorem restart_priority:
  assumes "at_rest b" "gm_get (orders b) i = Some x" "gm_get (orders b) j = Some y" "o_Price (store b x) = o_Price (store b y)"
    "o_CreatedAt (store b x) < o_CreatedAt (store b y)"
  shows "\<exists>t x' y'. book_Restore (Some (filed b)) s = Done t \<and> gm_get (orders t) i = Some x' \<and> gm_get (orders t) j = Some y' \<and> order_lt sd (store t) x' y'"
proof -
  note r = filed_restorable [OF assms(1)]
  obtain t where t: "book_Restore (Some (filed b)) s = Done t"
      "\<forall>k < length (by_age (filed b)). store t (nextref s + k) = restored k (by_age (filed b) ! k) \<and>
         gm_get (orders t) (o_ID (by_age (filed b) ! k)) = Some (nextref s + k)"
    using Restore_ok [OF r, of s] by blast
  obtain k where k: "k < length (by_age (filed b))" "by_age (filed b) ! k = json_order (copyOrder (store b x))" "o_ID (store b x) = i"
    using filed_place [OF assms(1,2)] .
  obtain l where l: "l < length (by_age (filed b))" "by_age (filed b) ! l = json_order (copyOrder (store b y))" "o_ID (store b y) = j"
    using filed_place [OF assms(1,3)] .
  have "k < l"
  proof (rule ccontr)
    assume "\<not> k < l"
    then have "map o_CreatedAt (by_age (filed b)) ! l \<le> map o_CreatedAt (by_age (filed b)) ! k"
      using by_age_facts(5) [OF r] k(1) by (intro sorted_nth_mono) auto
    then show False using k l assms(5) by simp
  qed
  moreover have "o_Price (json_order (copyOrder (store b x))) = o_Price (json_order (copyOrder (store b y)))"
    by (simp add: json_order_def copyOrder_def assms(4))
  moreover have "(of_nat (k + 1) :: 64 word) < of_nat (l + 1)"
    using \<open>k < l\<close> l(1) by_age_facts(3) [OF r] by (simp only: word_less_nat_alt unat_small)
  ultimately have "order_lt sd (store t) (nextref s + k) (nextref s + l)"
    using t(2) k l by (simp add: order_lt_def price_of_def)
  moreover have "gm_get (orders t) i = Some (nextref s + k)" "gm_get (orders t) j = Some (nextref s + l)"
    using t(2) k l by auto
  ultimately show ?thesis using t(1) by blast
qed

section \<open>Two orders at one price\<close>

text \<open>A book with two asks at the same price: \<open>b\<close> is ahead, \<open>a\<close> was created first.\<close>

definition demo_ask :: "string \<Rightarrow> int \<Rightarrow> 64 word \<Rightarrow> order" where
  "demo_ask i t n = (NewOrder i t ''alice'' ''BTC/USDT'' Sell Limit (Some (BF 128 100)) (Some (BF 128 2)))\<lparr>o_bookSeq := n\<rparr>"

definition demo_asks :: book where
  "demo_asks = (NewOrderBook (\<lambda>r. if r = 0 then demo_ask ''b'' 2 1 else demo_ask ''a'' 1 2) ''BTC/USDT'')
     \<lparr>nextref := 2, asks := [0, 1], orders := [(''b'', 0), (''a'', 1)], userOrders := [(''alice'', [(''b'', ()), (''a'', ())])], seqNo := 2\<rparr>"

lemma demo_ask_simps [simp]:
  "o_ID (demo_ask i t n) = i" "o_UserID (demo_ask i t n) = ''alice''" "o_Side (demo_ask i t n) = Sell" "o_Price (demo_ask i t n) = Some (BF 128 100)"
  "o_RemainingQty (demo_ask i t n) = Some (BF 128 2)" "rem_q (demo_ask i t n) = BF 128 2" "o_bookSeq (demo_ask i t n) = n" "o_CreatedAt (demo_ask i t n) = t"
  by (simp_all add: demo_ask_def NewOrder_def newBigFloatCopy_def bf_set_def newBigFloat_def DefaultPrecision_def rem_q_def)

lemma demo_ask_fits: "fits 128 (demo_ask i t n)" "fits 64 (demo_ask i t n)"
  by (auto simp: fits_def amounts_def demo_ask_def NewOrder_def newBigFloatCopy_def bf_set_def newBigFloat_def DefaultPrecision_def)

lemma demo_asks_simps [simp]:
  "store demo_asks = (\<lambda>r. if r = 0 then demo_ask ''b'' 2 1 else demo_ask ''a'' 1 2)" "orders demo_asks = [(''b'', 0), (''a'', 1)]"
  "asks demo_asks = [0, 1]" "bids demo_asks = []" "stops demo_asks = []" "nextref demo_asks = 2" "seqNo demo_asks = 2"
  "userOrders demo_asks = [(''alice'', [(''b'', ()), (''a'', ())])]"
  by (simp_all add: demo_asks_def NewOrderBook_def)

lemma demo_asks_rest: "at_rest demo_asks"
proof -
  have "book_wf demo_asks"
    by (auto simp: book_wf_def side_ok_def orders_ok_def unique_ids_def index_ok_def indexed_def alloc_ok_def heap_refs_def side_heap_def
        heap_upto_def less_2_cases_iff order_lt_def price_of_def numeral_2_eq_2 less_Suc_eq)
  then show ?thesis by (auto simp: at_rest_def demo_ask_fits)
qed

theorem restored_book_witness:
  "\<exists>t. book_Restore (Some (filed demo_asks)) demo_asks = Done t \<and> book_wf t \<and> seqNo t = 2"
  using restored_book [OF filed_restorable [OF demo_asks_rest], of demo_asks] by (auto simp: filed_lists)

text \<open>The same book with a parked stop whose trigger price takes 101 bits.\<close>

definition demo_stop :: order where
  "demo_stop = (demo_ask ''s'' 3 0)\<lparr>o_Type := StopLimit, o_StopPrice := Some (BF 128 (2 ^ 100 + 1))\<rparr>"

definition demo_parked :: book where
  "demo_parked = demo_asks\<lparr>store := (store demo_asks)(2 := demo_stop), nextref := 3, stops := [2]\<rparr>"

lemma demo_stop_simps [simp]: "o_ID demo_stop = ''s''" by (simp add: demo_stop_def)

lemma fits_stop:
  "fits p v \<Longrightarrow> fround p (bval x) = bval x \<Longrightarrow> fits p (v\<lparr>o_Type := k, o_StopPrice := Some x\<rparr>)"
  "fits p (v\<lparr>o_Type := k, o_StopPrice := Some x\<rparr>) \<Longrightarrow> fround p (bval x) = bval x"
  by (auto simp: fits_def amounts_def)

lemma demo_stop_fits: "fits 128 demo_stop" "\<not> fits 64 demo_stop"
proof -
  have e: "bexp 1267650600228229401496703205377 = 101" by (rule bexp_unique) simp_all
  have r: "fround 128 (2 ^ 100 + 1) = 2 ^ 100 + 1" by simp
  have "\<lfloor>1267650600228229401496703205377 / 137438953472 :: rat\<rfloor> = 9223372036854775808" by (rule floor_unique) simp_all
  then have "fround 64 (2 ^ 100 + 1) = 2 ^ 100" by (simp add: fround_def e round_even_def Let_def)
  then have r64: "fround 64 (2 ^ 100 + 1) \<noteq> 2 ^ 100 + 1" by simp
  show "fits 128 demo_stop" unfolding demo_stop_def by (rule fits_stop(1) [OF demo_ask_fits(1)]) (simp only: bf.sel r)
  show "\<not> fits 64 demo_stop"
  proof
    assume "fits 64 demo_stop"
    from fits_stop(2) [OF this [unfolded demo_stop_def]] show False using r64 by (simp only: bf.sel)
  qed
qed

lemma demo_parked_rest: "at_rest demo_parked"
proof -
  have "book_wf demo_parked"
    by (auto simp: demo_parked_def book_wf_def side_ok_def orders_ok_def unique_ids_def index_ok_def indexed_def alloc_ok_def heap_refs_def side_heap_def
        heap_upto_def less_2_cases_iff order_lt_def price_of_def numeral_2_eq_2 less_Suc_eq)
  then show ?thesis by (auto simp: at_rest_def demo_parked_def demo_ask_fits)
qed

theorem snapshot_file_roundtrip_witness:
  "\<exists>t. book_Restore (Some (filed demo_parked)) demo_parked = Done t \<and>
    (\<exists>r. gm_get (orders t) ''a'' = Some r \<and> values_of (store t r) = values_of (demo_ask ''a'' 1 2)) \<and>
    (\<exists>r. stops t = [r] \<and> terms (store t r) = terms demo_stop \<and> values_of (store t r) \<noteq> values_of demo_stop)"
proof -
  obtain t where t: "book_Restore (Some (filed demo_parked)) demo_parked = Done t" "gm_get (orders t) ''a'' = None \<longleftrightarrow> gm_get (orders demo_parked) ''a'' = None"
    "\<And>r'. gm_get (orders demo_parked) ''a'' = Some 1 \<Longrightarrow> gm_get (orders t) ''a'' = Some r' \<Longrightarrow>
       values_of (store t r') = values_of (store demo_parked 1) \<longleftrightarrow> fits 64 (store demo_parked 1)"
    and st: "length (stops t) = length (stops demo_parked)"
    "\<And>j. j < length (stops demo_parked) \<Longrightarrow> terms (store t (stops t ! j)) = terms (store demo_parked (stops demo_parked ! j))"
    "\<And>j. j < length (stops demo_parked) \<Longrightarrow> fits 128 (store demo_parked (stops demo_parked ! j)) \<Longrightarrow>
       values_of (store t (stops t ! j)) = values_of (store demo_parked (stops demo_parked ! j)) \<longleftrightarrow> fits 64 (store demo_parked (stops demo_parked ! j))"
    using snapshot_file_roundtrip [OF demo_parked_rest, of demo_parked] by blast
  have p: "orders demo_parked = orders demo_asks" "store demo_parked 1 = demo_ask ''a'' 1 2" "store demo_parked 2 = demo_stop" "stops demo_parked = [2]"
    by (simp_all add: demo_parked_def)
  obtain r where r: "stops t = [r]" using st(1) p(4) by (cases "stops t") auto
  have "terms (store t r) = terms demo_stop \<and> values_of (store t r) \<noteq> values_of demo_stop"
    using st(2,3) [of 0] r p demo_stop_fits by simp
  moreover obtain q where "gm_get (orders t) ''a'' = Some q" "values_of (store t q) = values_of (demo_ask ''a'' 1 2)"
    using t(2,3) p demo_ask_fits(2) by (cases "gm_get (orders t) ''a''") auto
  ultimately show ?thesis using t(1) r by blast
qed

theorem restart_priority_witness:
  "order_lt Sell (store demo_asks) 0 1 \<and>
   (\<exists>t x y. book_Restore (Some (filed demo_asks)) demo_asks = Done t \<and> gm_get (orders t) ''a'' = Some x \<and> gm_get (orders t) ''b'' = Some y \<and> order_lt Sell (store t) x y)"
  using restart_priority [OF demo_asks_rest, of "''a''" 1 "''b''" 0 demo_asks Sell] by (simp add: order_lt_def price_of_def)

end
