(* ===== verification/Order_Store.thy ===== *)
theory Order_Store
  imports Order_Model Wallet_Store
begin

text \<open>
  \<open>internal/store/pg_order.go\<close>: the tables of orders and trades. A column \<open>NUMERIC(40,18)\<close> is a rational that may be \<open>NULL\<close>; \<open>po_faults\<close>
  says which of the coming statements fail for a reason outside the program. The constraints are those of \<open>scripts/migrate/migrations/001_init.sql\<close>, whose
  table of trades requires the buyer, the seller and the side of the taker.
\<close>

section \<open>Tables\<close>

record order_row =
  or_ID :: string
  or_ClientOrderID :: string
  or_UserID :: string
  or_Pair :: string
  or_Side :: side
  or_Type :: order_type
  or_Price :: "rat option"
  or_StopPrice :: "rat option"
  or_Quantity :: rat
  or_FilledQty :: rat
  or_RemainingQty :: rat
  or_IcebergQty :: "rat option"
  or_VisibleQty :: "rat option"
  or_TIF :: time_in_force
  or_Status :: order_status
  or_CreatedAt :: int
  or_UpdatedAt :: int

record trade_row =
  tr_ID :: string
  tr_BuyOrderID :: string
  tr_SellOrderID :: string
  tr_BuyerID :: "string option"
  tr_SellerID :: "string option"
  tr_Pair :: string
  tr_Price :: rat
  tr_Quantity :: rat
  tr_TakerSide :: "side option"
  tr_CreatedAt :: int

record pg_orders =
  po_orders :: "(string, order_row) gomap"
  po_trades :: "(string, trade_row) gomap"
  po_faults :: "bool list"
  po_now :: int

datatype order_store_err = OrdersDown | OrderMissing | NullViolation | NegativeLimit | OrderPanic

definition po_stmt :: "(pg_orders \<Rightarrow> (order_store_err + 'a) \<times> pg_orders) \<Rightarrow> (pg_orders, order_store_err, 'a) act" where
  "po_stmt f s = (case po_faults s of True # fs \<Rightarrow> (Inl OrdersDown, s\<lparr>po_faults := fs\<rparr>) | False # fs \<Rightarrow> f (s\<lparr>po_faults := fs\<rparr>) | [] \<Rightarrow> f s)"

definition floatPtr :: "bf option \<Rightarrow> rat option" where
  "floatPtr x = (case x of None \<Rightarrow> None | Some v \<Rightarrow> if bf_sign v = 0 then None else Some (numeric v))"

definition scanFloat :: "rat option \<Rightarrow> bf \<Rightarrow> bf" where
  "scanFloat ns f = (case ns of None \<Rightarrow> f | Some v \<Rightarrow> (let p = (if bprec f = 0 then 64 else bprec f) in BF p (fround p v)))"

section \<open>Orders\<close>

definition order_row_of :: "order \<Rightarrow> bf \<Rightarrow> bf \<Rightarrow> order_row" where
  "order_row_of v qty rem =
     \<lparr>or_ID = o_ID v, or_ClientOrderID = o_ClientOrderID v, or_UserID = o_UserID v, or_Pair = o_Pair v, or_Side = o_Side v, or_Type = o_Type v,
      or_Price = floatPtr (o_Price v), or_StopPrice = floatPtr (o_StopPrice v), or_Quantity = numeric qty, or_FilledQty = numeric (o_FilledQty v),
      or_RemainingQty = numeric rem, or_IcebergQty = floatPtr (o_IcebergQty v), or_VisibleQty = floatPtr (o_VisibleQty v), or_TIF = o_TIF v,
      or_Status = o_Status v, or_CreatedAt = o_CreatedAt v, or_UpdatedAt = o_UpdatedAt v\<rparr>"

text \<open>The columns of \<open>ON CONFLICT (id) DO UPDATE\<close>. A \<open>nil\<close> quantity panics before the statement is sent.\<close>

definition po_Save :: "order \<Rightarrow> (pg_orders, order_store_err, unit) act" where
  "po_Save v =
     (case (o_Quantity v, o_RemainingQty v) of
        (Some q, Some rem) \<Rightarrow>
          po_stmt (\<lambda>s. let row = order_row_of v q rem
            in (Inr (), s\<lparr>po_orders := gm_put (o_ID v) (case gm_get (po_orders s) (o_ID v) of None \<Rightarrow> row
                 | Some old \<Rightarrow> old\<lparr>or_Status := or_Status row, or_FilledQty := or_FilledQty row, or_RemainingQty := or_RemainingQty row,
                     or_UpdatedAt := or_UpdatedAt row\<rparr>) (po_orders s)\<rparr>))
      | _ \<Rightarrow> throw OrderPanic)"

definition read_order :: "order_row \<Rightarrow> order" where
  "read_order w =
     \<lparr>o_ID = or_ID w, o_ClientOrderID = or_ClientOrderID w, o_UserID = or_UserID w, o_Pair = or_Pair w, o_Side = or_Side w, o_Type = or_Type w,
      o_Price = Some (scanFloat (or_Price w) new_float), o_StopPrice = Some (scanFloat (or_StopPrice w) new_float),
      o_Quantity = Some (scanFloat (Some (or_Quantity w)) new_float), o_FilledQty = scanFloat (Some (or_FilledQty w)) new_float,
      o_RemainingQty = Some (scanFloat (Some (or_RemainingQty w)) new_float), o_IcebergQty = Some (scanFloat (or_IcebergQty w) new_float),
      o_VisibleQty = Some (scanFloat (or_VisibleQty w) new_float), o_TIF = or_TIF w, o_Status = or_Status w, o_CreatedAt = or_CreatedAt w,
      o_UpdatedAt = or_UpdatedAt w, o_STP = STPDisabled, o_PostOnly = False, o_bookSeq = 0, o_done = NoChan, o_Err = None\<rparr>"

definition po_Get :: "string \<Rightarrow> (pg_orders, order_store_err, order) act" where
  "po_Get i = po_stmt (\<lambda>s. (case gm_get (po_orders s) i of None \<Rightarrow> Inl OrderMissing | Some w \<Rightarrow> Inr (read_order w), s))"

text \<open>A list leaves out the stop price, the iceberg quantities and the time of the last update.\<close>

definition listed_order :: "order_row \<Rightarrow> order" where
  "listed_order w = (read_order w)\<lparr>o_StopPrice := None, o_IcebergQty := None, o_VisibleQty := None, o_UpdatedAt := 0\<rparr>"

fun status_given :: "order_status \<Rightarrow> bool" where
  "status_given (OtherStatus n) = (0 \<le> sint n)"
| "status_given _ = True"

text \<open>\<open>ORDER BY created_at DESC LIMIT OFFSET\<close>; PostgreSQL refuses a negative limit or offset.\<close>

definition page :: "int \<Rightarrow> int \<Rightarrow> 'a list \<Rightarrow> 'a list" where
  "page limit offset xs = take (nat limit) (drop (nat offset) xs)"

definition po_ListByUser :: "string \<Rightarrow> string \<Rightarrow> order_status \<Rightarrow> int \<Rightarrow> int \<Rightarrow> (pg_orders, order_store_err, order list) act" where
  "po_ListByUser userID pair status limit offset =
     po_stmt (\<lambda>s. (if limit < 0 \<or> offset < 0 then Inl NegativeLimit
       else Inr (map listed_order (page limit offset (sort_key (\<lambda>w. - or_CreatedAt w)
         (filter (\<lambda>w. or_UserID w = userID \<and> (pair \<noteq> [] \<longrightarrow> or_Pair w = pair) \<and> (status_given status \<longrightarrow> or_Status w = status))
           (map snd (po_orders s)))))), s))"

definition po_UpdateOrderStatus :: "string \<Rightarrow> order_status \<Rightarrow> (pg_orders, order_store_err, unit) act" where
  "po_UpdateOrderStatus i st =
     po_stmt (\<lambda>s. (Inr (), s\<lparr>po_orders := (case gm_get (po_orders s) i of None \<Rightarrow> po_orders s
        | Some w \<Rightarrow> gm_put i (w\<lparr>or_Status := st, or_UpdatedAt := po_now s\<rparr>) (po_orders s))\<rparr>))"

section \<open>Trades\<close>

text \<open>The columns that the statement of \<open>SaveTrade\<close> names; the others are left \<open>NULL\<close>.\<close>

definition trade_insert :: "trade \<Rightarrow> trade_row" where
  "trade_insert t = \<lparr>tr_ID = t_ID t, tr_BuyOrderID = t_BuyOrderID t, tr_SellOrderID = t_SellOrderID t, tr_BuyerID = None, tr_SellerID = None,
     tr_Pair = t_Pair t, tr_Price = numeric (t_Price t), tr_Quantity = numeric (t_Quantity t), tr_TakerSide = None, tr_CreatedAt = t_CreatedAt t\<rparr>"

text \<open>The \<open>NOT NULL\<close> constraints are checked before a conflict of identifiers is looked for.\<close>

definition insert_trade :: "trade_row \<Rightarrow> pg_orders \<Rightarrow> (order_store_err + unit) \<times> pg_orders" where
  "insert_trade w s =
     (if tr_BuyerID w = None \<or> tr_SellerID w = None \<or> tr_TakerSide w = None then (Inl NullViolation, s)
      else (Inr (), if gm_get (po_trades s) (tr_ID w) = None then s\<lparr>po_trades := gm_put (tr_ID w) w (po_trades s)\<rparr> else s))"

definition po_SaveTrade :: "trade \<Rightarrow> (pg_orders, order_store_err, unit) act" where
  "po_SaveTrade t = po_stmt (insert_trade (trade_insert t))"

definition read_trade :: "trade_row \<Rightarrow> trade" where
  "read_trade w = \<lparr>t_ID = tr_ID w, t_BuyOrderID = tr_BuyOrderID w, t_SellOrderID = tr_SellOrderID w, t_BuyerID = [], t_SellerID = [], t_Pair = tr_Pair w,
     t_Price = read_numeric (tr_Price w), t_Quantity = read_numeric (tr_Quantity w), t_TakerSide = OtherSide 0, t_Fee = new_float, t_CreatedAt = tr_CreatedAt w\<rparr>"

definition po_GetTrades :: "string \<Rightarrow> int \<Rightarrow> (pg_orders, order_store_err, trade list) act" where
  "po_GetTrades pair limit =
     po_stmt (\<lambda>s. (if limit < 0 then Inl NegativeLimit
       else Inr (map read_trade (take (nat limit) (sort_key (\<lambda>w. - tr_CreatedAt w) (filter (\<lambda>w. tr_Pair w = pair) (map snd (po_trades s)))))), s))"

text \<open>No trade is ever recorded: the table stays as it is, whatever is saved.\<close>

lemma SaveTrade_fails: "isl (fst (po_SaveTrade t s)) \<and> po_trades (snd (po_SaveTrade t s)) = po_trades s \<and> po_orders (snd (po_SaveTrade t s)) = po_orders s"
  by (auto simp: po_SaveTrade_def po_stmt_def insert_trade_def trade_insert_def split: list.split bool.split)

end
