(* ===== verification/Trading.thy ===== *)
theory Trading
  imports Exchange Order_Store Pnl Wallet_Service Futures_Math
begin

text \<open>
  How the parts of spot trading work together: the order handler of \<open>internal/api/order_handler.go\<close>, which checks a request, reserves what it needs in the
  wallet, records it and submits it, and the bridge of \<open>internal/wsbridge/bridge.go\<close>, which takes trades and fills from the engines and passes them to
  the wallet, the profit-and-loss book and the risk checks. A handler is given the authenticated user and the decoded body of its request. The handler
  is the one that \<open>NewOrderHandlerWithExchange\<close> makes; the wallet is also the releaser. Messages to web sockets and candles are left out.
\<close>

section \<open>State\<close>

record venue =
  vn_exchange :: exchange
  vn_orders :: "pg_orders option"
  vn_wallet :: "wsvc option"
  vn_pnl :: "pnl option"
  vn_ids :: "nat \<Rightarrow> string"
  vn_nid :: nat

text \<open>A call of the wallet, and a call of a store, when there is one; the caller may ignore an error.\<close>

definition on_wallet :: "unit wact \<Rightarrow> venue \<Rightarrow> wallet_err option \<times> venue" where
  "on_wallet m s =
     (case vn_wallet s of
        None \<Rightarrow> (None, s)
      | Some w \<Rightarrow> (case m w of (Inl e, w') \<Rightarrow> (Some e, s\<lparr>vn_wallet := Some w'\<rparr>) | (Inr u, w') \<Rightarrow> (None, s\<lparr>vn_wallet := Some w'\<rparr>)))"

definition on_orders :: "(pg_orders, order_store_err, 'a) act \<Rightarrow> venue \<Rightarrow> 'a option \<times> venue" where
  "on_orders m s =
     (case vn_orders s of
        None \<Rightarrow> (None, s)
      | Some d \<Rightarrow> (case m d of (Inl e, d') \<Rightarrow> (None, s\<lparr>vn_orders := Some d'\<rparr>) | (Inr x, d') \<Rightarrow> (Some x, s\<lparr>vn_orders := Some d'\<rparr>)))"

section \<open>Requests\<close>

record place_req =
  pq_Pair :: string
  pq_Side :: string
  pq_Type :: string
  pq_Price :: string
  pq_StopPx :: string
  pq_Quantity :: string
  pq_TIF :: string

datatype place_err = NotAuthenticated | InvalidBody | UnsupportedPair | BadSide | BadType | BadQuantity | BadPrice | BadStopPrice | BadTIF
  | NotReserved wallet_err | NotSubmitted exch_err

definition place_bound :: "place_req \<Rightarrow> bool" where
  "place_bound r \<longleftrightarrow> pq_Pair r \<noteq> [] \<and> pq_Side r \<noteq> [] \<and> pq_Type r \<noteq> [] \<and> pq_Quantity r \<noteq> []"

definition api_normalizePair :: "string \<Rightarrow> string" where
  "api_normalizePair p = ToUpper (TrimSpace p)"

definition named_side :: "string \<Rightarrow> side option" where
  "named_side s = (if ToLower s = ''buy'' then Some Buy else if ToLower s = ''sell'' then Some Sell else None)"

definition named_type :: "string \<Rightarrow> order_type option" where
  "named_type s = map_of [(''limit'', Limit), (''market'', Market), (''ioc'', ImmediateOrCancel), (''fok'', FillOrKill), (''post_only'', PostOnly),
     (''stop_loss'', StopLoss), (''stop_limit'', StopLimit)] (ToLower s)"

definition named_tif :: "string \<Rightarrow> time_in_force option" where
  "named_tif s = map_of [([], GTC), (''gtc'', GTC), (''ioc'', IOC), (''fok'', FOK)] (ToLower s)"

definition needsPrice :: "order_type \<Rightarrow> bool" where
  "needsPrice t \<longleftrightarrow> t \<in> {Limit, StopLimit, PostOnly, Iceberg}"

definition positive_text :: "string \<Rightarrow> bf option" where
  "positive_text s = (case parseBigFloat s of Some x \<Rightarrow> if 0 < bf_sign x then Some x else None | None \<Rightarrow> None)"

text \<open>A text that may be left out: \<open>None\<close> is a refusal.\<close>

definition optional_positive :: "bool \<Rightarrow> string \<Rightarrow> bf option option" where
  "optional_positive needed s = (if needed \<or> s \<noteq> [] then map_option Some (positive_text s) else Some None)"

text \<open>The order that a request describes, or the first reason to refuse it.\<close>

definition order_of_request :: "string \<Rightarrow> int \<Rightarrow> string \<Rightarrow> string \<Rightarrow> place_req \<Rightarrow> place_err + order" where
  "order_of_request uuid now userID pair r =
     (case named_side (pq_Side r) of None \<Rightarrow> Inl BadSide | Some sd \<Rightarrow>
      (case named_type (pq_Type r) of None \<Rightarrow> Inl BadType | Some ty \<Rightarrow>
       (case positive_text (pq_Quantity r) of None \<Rightarrow> Inl BadQuantity | Some qty \<Rightarrow>
        (case optional_positive (needsPrice ty) (pq_Price r) of None \<Rightarrow> Inl BadPrice | Some price \<Rightarrow>
         (case optional_positive False (pq_StopPx r) of None \<Rightarrow> Inl BadStopPrice | Some stop \<Rightarrow>
          (case named_tif (pq_TIF r) of None \<Rightarrow> Inl BadTIF | Some tif \<Rightarrow>
             Inr ((NewOrder uuid now userID pair sd ty price (Some qty))\<lparr>o_StopPrice := stop, o_TIF := tif\<rparr>)))))))"

section \<open>Placing\<close>

text \<open>The wallet is given the price and the quantity of the request, whose precision is 64 bits; the order has them with 128.\<close>

definition reserve_order :: "order \<Rightarrow> place_req \<Rightarrow> unit wact" where
  "reserve_order v r = svc_ReserveOrder (o_ID v) (o_UserID v) (o_Pair v) (sint (int8_of_side (o_Side v))) (sint (int8_of_type (o_Type v)))
     (if o_Price v = None then None else positive_text (pq_Price r)) (positive_text (pq_Quantity r))"

definition submit_order :: "nat \<Rightarrow> order \<Rightarrow> venue \<Rightarrow> ((place_err + order) \<times> venue) outcome" where
  "submit_order fuel v s =
     obind (exch_SubmitOrder fuel v (vn_exchange s)) (\<lambda>(err, v', ex).
       let s1 = s\<lparr>vn_exchange := ex\<rparr>
       in case err of
            None \<Rightarrow> Done (Inr v', s1)
          | Some e \<Rightarrow> Done (Inl (NotSubmitted e), snd (on_wallet (svc_ReleaseOrder (o_ID v) (o_UserID v)) s1)))"

definition PlaceOrder :: "nat \<Rightarrow> string \<Rightarrow> place_req \<Rightarrow> venue \<Rightarrow> ((place_err + order) \<times> venue) outcome" where
  "PlaceOrder fuel userID r s =
     (let pair = api_normalizePair (pq_Pair r)
      in if userID = [] then Done (Inl NotAuthenticated, s)
         else if \<not> place_bound r then Done (Inl InvalidBody, s)
         else if exch_Get pair (vn_exchange s) = None then Done (Inl UnsupportedPair, s)
         else case order_of_request (vn_ids s (vn_nid s)) (ex_now (vn_exchange s)) userID pair r of
             Inl e \<Rightarrow> Done (Inl e, s)
           | Inr v \<Rightarrow>
               (case on_wallet (reserve_order v r) (s\<lparr>vn_nid := Suc (vn_nid s)\<rparr>) of
                  (Some e, s1) \<Rightarrow> Done (Inl (NotReserved e), s1)
                | (None, s1) \<Rightarrow> submit_order fuel v (snd (on_orders (po_Save v) s1))))"

section \<open>Cancelling\<close>

fun find_order_pair :: "string \<Rightarrow> string \<Rightarrow> (string \<times> pair_engine) list \<Rightarrow> string" where
  "find_order_pair userID i [] = []"
| "find_order_pair userID i ((pair, p) # ps) =
     (let e = pe_engine p
      in case find (\<lambda>r. o_ID (store e r) = i) (GetOrdersByUser userID e) of
           Some r \<Rightarrow> o_Pair (store e r) | None \<Rightarrow> find_order_pair userID i ps)"

datatype cancel_refusal = CancelNotAuthenticated | OrderUnknown | CancelRefused exch_err

text \<open>The answer holds the recorded order, when it can be read.\<close>

definition api_CancelOrder :: "string \<Rightarrow> string \<Rightarrow> string \<Rightarrow> venue \<Rightarrow> ((cancel_refusal + order option) \<times> venue) outcome" where
  "api_CancelOrder userID i query s =
     (let pair = (if query = [] then find_order_pair userID i (ex_engines (vn_exchange s)) else query)
      in if userID = [] then Done (Inl CancelNotAuthenticated, s)
         else if pair = [] then Done (Inl OrderUnknown, s)
         else case exch_CancelOrder i userID (api_normalizePair pair) (vn_exchange s) of
             (Inl e, ex) \<Rightarrow> Done (Inl (CancelRefused e), s\<lparr>vn_exchange := ex\<rparr>)
           | (Inr v, ex) \<Rightarrow>
               (let s1 = snd (on_wallet (svc_ReleaseOrder i userID) (s\<lparr>vn_exchange := ex\<rparr>))
                in if vn_orders s1 = None then Panicked
                   else let (o', s2) = on_orders (po_Get i) s1 in Done (Inr o', s2)))"

text \<open>All orders of one pair, then all pairs; an order that cannot be cancelled is passed over.\<close>

fun cancel_orders :: "string \<Rightarrow> string \<Rightarrow> string list \<Rightarrow> nat \<Rightarrow> venue \<Rightarrow> nat \<times> venue" where
  "cancel_orders userID pair [] n s = (n, s)"
| "cancel_orders userID pair (i # is) n s =
     (case gm_get (ex_engines (vn_exchange s)) pair of
        None \<Rightarrow> (n, s)
      | Some p \<Rightarrow>
          (case processCancel i userID (pe_engine p) of
             (Inl e, e1) \<Rightarrow> cancel_orders userID pair is n (s\<lparr>vn_exchange := set_engine pair (p\<lparr>pe_engine := e1\<rparr>) (vn_exchange s)\<rparr>)
           | (Inr r, e1) \<Rightarrow> cancel_orders userID pair is (Suc n)
               (snd (on_wallet (svc_ReleaseOrder i userID) (s\<lparr>vn_exchange := set_engine pair (p\<lparr>pe_engine := e1\<rparr>) (vn_exchange s)\<rparr>)))))"

fun cancel_pairs :: "string \<Rightarrow> string list \<Rightarrow> nat \<Rightarrow> venue \<Rightarrow> nat \<times> venue" where
  "cancel_pairs userID [] n s = (n, s)"
| "cancel_pairs userID (pair # ps) n s =
     (case gm_get (ex_engines (vn_exchange s)) pair of
        None \<Rightarrow> cancel_pairs userID ps n s
      | Some p \<Rightarrow>
          (let e = pe_engine p; (n1, s1) = cancel_orders userID pair (map (\<lambda>r. o_ID (store e r)) (GetOrdersByUser userID e)) n s
           in cancel_pairs userID ps n1 s1))"

definition CancelAllOrders :: "string \<Rightarrow> venue \<Rightarrow> nat option \<times> venue" where
  "CancelAllOrders userID s =
     (if userID = [] then (None, s)
      else let (n, s1) = cancel_pairs userID (map fst (ex_engines (vn_exchange s))) 0 s in (Some n, s1))"

section \<open>Reading\<close>

datatype read_refusal = ReadNotAuthenticated | StoreUnavailable | NoSuchOrder

definition api_GetOrder :: "string \<Rightarrow> string \<Rightarrow> venue \<Rightarrow> (read_refusal + order) \<times> venue" where
  "api_GetOrder userID i s =
     (if userID = [] then (Inl ReadNotAuthenticated, s)
      else if vn_orders s = None then (Inl StoreUnavailable, s)
      else case on_orders (po_Get i) s of
          (None, s1) \<Rightarrow> (Inl NoSuchOrder, s1)
        | (Some v, s1) \<Rightarrow> (if o_UserID v \<noteq> userID then Inl NoSuchOrder else Inr v, s1))"

definition api_ListOrders :: "string \<Rightarrow> string \<Rightarrow> int \<Rightarrow> int \<Rightarrow> venue \<Rightarrow> (read_refusal + order list) \<times> venue" where
  "api_ListOrders userID pair limit offset s =
     (if userID = [] then (Inl ReadNotAuthenticated, s)
      else case on_orders (po_ListByUser userID pair New limit offset) s of (None, s1) \<Rightarrow> (Inr [], s1) | (Some vs, s1) \<Rightarrow> (Inr vs, s1))"

text \<open>\<open>recent\<close> is the external tape, \<open>depth\<close> the external book; both may be missing or fail.\<close>

definition api_GetTrades :: "(string \<Rightarrow> int \<Rightarrow> 'x list option) \<Rightarrow> string \<Rightarrow> int \<Rightarrow> venue \<Rightarrow> ('x list + trade list) option \<times> venue" where
  "api_GetTrades recent pair limit0 s =
     (let limit = (if limit0 \<le> 0 \<or> 500 < limit0 then 50 else limit0)
      in if exch_Get pair (vn_exchange s) = None then (None, s)
         else (let (res, s1) = on_orders (po_GetTrades pair limit) s; ts = (case res of Some ts \<Rightarrow> ts | None \<Rightarrow> [])
               in if ts = [] then (case recent pair limit of
                      Some (x # xs) \<Rightarrow> (Some (Inl (x # xs)), s1) | _ \<Rightarrow> (Some (Inr []), s1))
                  else (Some (Inr ts), s1)))"

section \<open>The bridge\<close>

definition fixed18 :: "bf option \<Rightarrow> string" where
  "fixed18 f = (case f of None \<Rightarrow> [] | Some x \<Rightarrow> text_f 18 x)"

definition fillIDOf :: "fill \<Rightarrow> string" where
  "fillIDOf f = f_Pair f @ '':'' @ f_TakerOrderID f @ '':'' @ f_MakerOrderID f @ '':'' @ fixed18 (f_Price f) @ '':'' @ fixed18 (Some (f_Quantity f))"

definition settle_fill :: "fill \<Rightarrow> venue \<Rightarrow> venue" where
  "settle_fill f s =
     snd (on_wallet (svc_SettleFill (fillIDOf f) (f_Pair f) (sint (int8_of_side (f_Side f))) (f_TakerOrderID f) (f_MakerOrderID f)
       (f_TakerUserID f) (f_MakerUserID f) (f_Price f) (Some (f_Quantity f))) s)"

definition release_filled :: "bool \<Rightarrow> string \<Rightarrow> string \<Rightarrow> venue \<Rightarrow> venue" where
  "release_filled filled oid userID s = (if filled then snd (on_wallet (svc_ReleaseOrder oid userID) s) else s)"

text \<open>What the bridge does with one fill.\<close>

definition deliver_fill :: "fill \<Rightarrow> venue \<Rightarrow> venue" where
  "deliver_fill f s =
     (let s1 = settle_fill f s;
          s2 = s1\<lparr>vn_pnl := map_option (RecordFill (Some f)) (vn_pnl s1)\<rparr>
      in release_filled (f_MakerFilled f) (f_MakerOrderID f) (f_MakerUserID f)
           (release_filled (f_TakerFilled f) (f_TakerOrderID f) (f_TakerUserID f) s2))"

definition consumeFills :: "string \<Rightarrow> venue \<Rightarrow> venue" where
  "consumeFills pair s =
     (case gm_get (ex_engines (vn_exchange s)) pair of
        None \<Rightarrow> s
      | Some p \<Rightarrow>
          (case e_Fills (pe_engine p) of
             [] \<Rightarrow> s
           | f # fs \<Rightarrow> deliver_fill f (s\<lparr>vn_exchange := set_engine pair (p\<lparr>pe_engine := (pe_engine p)\<lparr>e_Fills := fs\<rparr>\<rparr>) (vn_exchange s)\<rparr>)))"

text \<open>What the bridge does with one trade; the reference price is that of the pair under which the engine is registered.\<close>

definition deliver_trade :: "string \<Rightarrow> trade \<Rightarrow> venue \<Rightarrow> venue" where
  "deliver_trade pair t s =
     (let s1 = snd (on_orders (po_SaveTrade t) s); ex = vn_exchange s1
      in if 0 < bf_sign (t_Price t)
         then s1\<lparr>vn_exchange := ex\<lparr>ex_risk := map_option (UpdateReferencePrice pair (Some (t_Price t))) (ex_risk ex)\<rparr>\<rparr> else s1)"

definition consumeTrades :: "string \<Rightarrow> venue \<Rightarrow> venue" where
  "consumeTrades pair s =
     (case gm_get (ex_engines (vn_exchange s)) pair of
        None \<Rightarrow> s
      | Some p \<Rightarrow>
          (case e_Trades (pe_engine p) of
             [] \<Rightarrow> s
           | t # ts \<Rightarrow> deliver_trade pair t (s\<lparr>vn_exchange := set_engine pair (p\<lparr>pe_engine := (pe_engine p)\<lparr>e_Trades := ts\<rparr>\<rparr>) (vn_exchange s)\<rparr>)))"

text \<open>One round of an engine's loop.\<close>

definition venue_run :: "nat \<Rightarrow> string \<Rightarrow> venue \<Rightarrow> venue outcome" where
  "venue_run fuel pair s = obind (run_engine fuel pair (vn_exchange s)) (\<lambda>ex. Done (s\<lparr>vn_exchange := ex\<rparr>))"

section \<open>A restart of the program\<close>

text \<open>The wallet service that a new process builds on the same database: no reservations, no settled fills, no shared store.\<close>

definition restarted_wallet :: "wsvc \<Rightarrow> wsvc" where
  "restarted_wallet w = w\<lparr>ws_fills := newFillLRU defaultProcessedFillCapacity defaultProcessedFillTTL, ws_reservations := [], ws_shared := None, ws_warned := False\<rparr>"

end
