(* ===== verification/Order_Recovery.thy ===== *)
theory Order_Recovery
  imports Trading
begin

text \<open>
  An order through the log. Amounts are logged with 18 decimals; a decimal of at most 18 places that was read into 64 bits is printed and read back as the same
  float (\<open>reparse18\<close>), so that a placed order is recovered as it was (\<open>recovered_order\<close>).
\<close>

section \<open>Decimals of 18 places\<close>

lemma fround_half_ulp: "0 < p \<Longrightarrow> \<bar>fround p x - x\<bar> \<le> 2 powi (bexp x - int p - 1)"
proof (cases "x = 0")
  case False
  assume p: "0 < p"
  define u where "u = (2::rat) powi (bexp x - int p)"
  have u: "0 < u" by (simp add: u_def)
  have "fround p x - x = (of_int (round_even (x / u)) - x / u) * u"
    using False p u by (simp add: fround_def Let_def u_def [symmetric] algebra_simps)
  then have "\<bar>fround p x - x\<bar> = \<bar>of_int (round_even (x / u)) - x / u\<bar> * u"
    using u by (simp add: abs_mult)
  also have "\<dots> \<le> 1/2 * u" using u by (intro mult_right_mono round_even_near) simp
  also have "\<dots> = 2 powi (bexp x - int p - 1)"
    unfolding u_def using powi_pred [of "bexp x - int p"] by simp
  finally show ?thesis .
qed simp

lemma bexp_le: "0 < x \<Longrightarrow> x < 2 powi e \<Longrightarrow> bexp x \<le> e"
proof -
  assume x: "0 < x" "x < 2 powi e"
  have "2 powi (bexp x - 1) \<le> x" using bexp_bounds [of x] x by simp
  with x have "(2::rat) powi (bexp x - 1) < 2 powi e" by linarith
  then show ?thesis by (simp add: powi_less)
qed

definition dec18 :: "rat \<Rightarrow> rat" where
  "dec18 x = of_int (round_even (x * 10 ^ 18)) / 10 ^ 18"

lemma dec18_near: "\<bar>dec18 x - x\<bar> \<le> 1 / (2 * 10 ^ 18)"
proof -
  have "dec18 x - x = (of_int (round_even (x * 10 ^ 18)) - x * 10 ^ 18) / 10 ^ 18" by (simp add: dec18_def field_simps)
  then have "\<bar>dec18 x - x\<bar> = \<bar>of_int (round_even (x * 10 ^ 18)) - x * 10 ^ 18\<bar> / 10 ^ 18" by (simp only: abs_divide) simp
  also have "\<dots> \<le> (1/2) / 10 ^ 18" by (intro divide_right_mono round_even_near) simp
  finally show ?thesis by simp
qed

lemma dec18_mono: "x \<le> y \<Longrightarrow> dec18 x \<le> dec18 y"
  unfolding dec18_def by (intro divide_right_mono) (simp_all add: round_even_mono)

lemma dec18_int [simp]: "dec18 (of_int k) = of_int k"
proof -
  have "(of_int k :: rat) * 10 ^ 18 = of_int (k * 10 ^ 18)" by simp
  then show ?thesis unfolding dec18_def by (simp only: round_even_of_int) simp
qed

text \<open>A decimal of at most 18 places is written and read back as the same float, of whatever size.\<close>

lemma reparse18:
  assumes a: "0 < a" "a * 10 ^ 18 = of_int k"
  shows "fround 64 (dec18 (fround 64 a)) = fround 64 a"
proof (cases "a < 16")
  case True
  have "bexp a \<le> 4" by (rule bexp_le) (use a True in simp_all)
  then have "(2::rat) powi (bexp a - int 64 - 1) \<le> 2 powi - 61" unfolding powi_le by simp
  then have "\<bar>fround 64 a - a\<bar> \<le> 2 powi - 61" using fround_half_ulp [of 64 a] by linarith
  then have "\<bar>fround 64 a - a\<bar> * 10 ^ 18 \<le> 2 powi - 61 * 10 ^ 18" by (intro mult_right_mono) simp_all
  also have "\<dots> < (1/2 :: rat)" by (simp add: power_int_def power_divide)
  finally have "\<bar>(fround 64 a - a) * 10 ^ 18\<bar> < 1/2" by (simp only: abs_mult) simp
  then have "\<bar>fround 64 a * 10 ^ 18 - of_int k\<bar> < 1/2" using a(2) by (simp only: left_diff_distrib)
  then have "round_even (fround 64 a * 10 ^ 18) = k" by (rule round_even_unique)
  then have "dec18 (fround 64 a) = a" using a(2) by (simp add: dec18_def field_simps)
  then show ?thesis by simp
next
  case False
  define p where "p = fround 64 a"
  define b where "b = bexp p"
  define d where "d = dec18 p"
  have p16: "16 \<le> p" using fround_mono [of 16 a 64] False by (simp add: p_def)
  have B: "2 powi (b - 1) \<le> p" "p < 2 powi b" using bexp_bounds [of p] p16 by (simp_all add: b_def)
  have "(2::rat) powi 4 < 2 powi b" using B(2) p16 by simp
  then have b: "5 \<le> b" unfolding powi_less by simp
  have int: "(2::rat) powi (b - 1) = of_int (2 ^ nat (b - 1))" "(2::rat) powi b = of_int (2 ^ nat b)"
    using b by (simp_all add: power_int_def)
  have lo: "2 powi (b - 1) \<le> d" using dec18_mono [OF B(1)] unfolding int dec18_int by (simp add: d_def)
  have near: "\<bar>d - p\<bar> < 2 powi (b - 65)"
  proof -
    have "1 / (2 * 10 ^ 18) < (2::rat) powi - 60" by (simp add: power_int_def power_divide)
    also have "\<dots> \<le> 2 powi (b - 65)" unfolding powi_le using b by simp
    finally show ?thesis using dec18_near [of p] by (simp add: d_def)
  qed
  have g: "on_grid (b - int 64) p" using on_grid_fround [of p 64] by (simp add: b_def p_def)
  have hi: "d < 2 powi b"
  proof -
    define u where "u = (2::rat) powi (b - 64)"
    have u: "0 < u" "2 powi (b - 65) < u" unfolding u_def powi_less by simp_all
    obtain k where k: "p = of_int k * u" using g by (auto simp: on_grid_def u_def)
    have top: "(2::rat) powi b = of_int (2 ^ 64) * u" using power_int_add [of "2::rat" 64 "b - 64"] by (simp add: u_def)
    have "k < 2 ^ 64" using B(2) u(1) unfolding k top by (simp only: mult_less_cancel_right_pos [of u] of_int_less_iff)
    then have "of_int (k + 1) * u \<le> of_int (2 ^ 64) * u" using u(1) by (intro mult_right_mono) (simp_all only: of_int_le_iff)
    then have "p + u \<le> 2 powi b" by (simp add: top k algebra_simps)
    then show ?thesis using near u by linarith
  qed
  have pos: "0 < d" using lo powi_pos [of "b - 1"] by linarith
  have e: "bexp d = b" by (rule bexp_unique) (use lo hi pos in simp_all)
  have "fround 64 d = p" by (rule fround_grid) (use pos g near in \<open>simp_all add: e\<close>)
  then show ?thesis by (simp add: d_def p_def)
qed

section \<open>Placed orders\<close>

definition short_decimal :: "string \<Rightarrow> bool" where
  "short_decimal s \<longleftrightarrow> (\<forall>a. parse_dec s = Some a \<longrightarrow> (\<exists>k. a * 10 ^ 18 = of_int k))"

lemma parsed_text: "parsed (wal_text (Some y)) = Some (BF 64 (fround 64 (dec18 (bval y))))"
  by (simp add: parsed_def wal_text_def bf_parse_def parse_text_f dec18_def)

lemma parsed_Nil [simp]: "parsed (wal_text None) = None" "wal_text (Some y) \<noteq> []"
proof -
  show "parsed (wal_text None) = None" by (simp add: parsed_def wal_text_def bf_parse_def)
  show "wal_text (Some y) \<noteq> []" using parse_text_f [of 18 y] by (auto simp: wal_text_def)
qed

lemma amount_logged:
  assumes "positive_text s = Some x" "short_decimal s"
  shows "parsed (wal_text (Some x)) = Some x" "parsed (wal_text (newBigFloatCopy (Some x))) = Some x" "0 < bf_sign x"
    "newBigFloatCopy (Some x) = Some (BF 128 (bval x))"
proof -
  obtain a where a: "parse_dec s = Some a" "x = BF 64 (fround 64 a)" "0 < bf_sign x"
    using assms(1) by (auto simp: positive_text_def parseBigFloat_def bf_parse_def split: option.splits if_splits)
  obtain k where k: "a * 10 ^ 18 = of_int k" using assms(2) a(1) by (auto simp: short_decimal_def)
  have p: "0 < a" using a by simp
  show "0 < bf_sign x" by (rule a(3))
  show c: "newBigFloatCopy (Some x) = Some (BF 128 (bval x))"
    using fround_widen [of 64 128 a] by (simp add: newBigFloatCopy_def bf_set_def newBigFloat_def DefaultPrecision_def a(2))
  show "parsed (wal_text (Some x)) = Some x" "parsed (wal_text (newBigFloatCopy (Some x))) = Some x"
    unfolding c parsed_text by (simp_all add: a(2) reparse18 [OF p k])
qed

lemma optional_logged:
  assumes "optional_positive b s = Some x" "short_decimal s"
  shows "parsed (wal_text x) = x \<and> parsed (wal_text (newBigFloatCopy x)) = x"
  using assms amount_logged [of s] by (auto simp: optional_positive_def newBigFloatCopy_def split: if_splits option.splits)

lemma named_canonical:
  "named_side a = Some sd \<Longrightarrow> named_type b = Some ty \<Longrightarrow> named_tif c = Some f \<Longrightarrow> canonical_enums sd ty f STPDisabled"
  by (auto simp: named_side_def named_type_def named_tif_def canonical_enums_def split: if_splits)

lemma order_of_request_cases:
  assumes "order_of_request uuid now userID pair r = Inr v"
  obtains sd ty qty price stop tif where "named_side (pq_Side r) = Some sd" "named_type (pq_Type r) = Some ty" "positive_text (pq_Quantity r) = Some qty"
    "optional_positive (needsPrice ty) (pq_Price r) = Some price" "optional_positive False (pq_StopPx r) = Some stop" "named_tif (pq_TIF r) = Some tif"
    "v = (NewOrder uuid now userID pair sd ty price (Some qty))\<lparr>o_StopPrice := stop, o_TIF := tif\<rparr>"
  using assms by (auto simp: order_of_request_def split: option.splits)

lemma recovered_placed:
  assumes "order_of_request uuid now userID pair r = Inr v" "short_decimal (pq_Price r)" "short_decimal (pq_StopPx r)" "short_decimal (pq_Quantity r)"
  shows "orderFromWALRecord uuid' ((order_record (v\<lparr>o_Pair := p\<rparr>))\<lparr>wr_Seq := n, wr_Timestamp := t\<rparr>) =
    Some (v\<lparr>o_Pair := p, o_CreatedAt := t, o_UpdatedAt := t\<rparr>)"
proof -
  obtain sd ty qty price stop tif where o: "named_side (pq_Side r) = Some sd" "named_type (pq_Type r) = Some ty" "positive_text (pq_Quantity r) = Some qty"
      "optional_positive (needsPrice ty) (pq_Price r) = Some price" "optional_positive False (pq_StopPx r) = Some stop" "named_tif (pq_TIF r) = Some tif"
      "v = (NewOrder uuid now userID pair sd ty price (Some qty))\<lparr>o_StopPrice := stop, o_TIF := tif\<rparr>"
    using assms(1) by (rule order_of_request_cases)
  note e = enum_roundtrip [OF named_canonical [OF o(1,2,6)]]
  note q = amount_logged [OF o(3) assms(4)] and x = optional_logged [OF o(4) assms(2)] and y = optional_logged [OF o(5) assms(3)]
  let ?w = "(order_record (v\<lparr>o_Pair := p\<rparr>))\<lparr>wr_Seq := n, wr_Timestamp := t\<rparr>"
  have w: "parsed (wr_Price ?w) = price" "parsed (wr_StopPrice ?w) = stop" "parsed (wr_Quantity ?w) = Some qty" "wr_Quantity ?w \<noteq> []"
    using q x y by (simp_all add: order_record_def o(7) NewOrder_def)
  have s: "wr_Timestamp ?w = t" "wr_UserID ?w = userID" "wr_Pair ?w = p" "side_of_int8 (wr_Side ?w) = sd" "type_of_int8 (wr_Type ?w) = ty"
    "tif_of_int8 (wr_TIF ?w) = tif" "stp_of_int8 (wr_STP ?w) = STPDisabled" "wr_OrderID ?w = uuid" "wr_ClientOrderID ?w = []"
    using e by (simp_all add: order_record_def o(7) NewOrder_def)
  have "orderFromWALRecord uuid' ?w = Some ((NewOrder uuid' t userID p sd ty price (Some qty))
      \<lparr>o_ID := uuid, o_ClientOrderID := [], o_StopPrice := stop, o_TIF := tif, o_STP := STPDisabled, o_CreatedAt := t, o_UpdatedAt := t\<rparr>)"
    using q(3) unfolding orderFromWALRecord_def Let_def w s by simp
  then show ?thesis by (simp add: o(7) NewOrder_def)
qed

text \<open>
  C22: a placed order comes back from the log as it was: the pair it was sent to, its side, type and time in force, and its price, stop price and quantity to the
  last bit, whatever their size, as long as the request gives at most 18 decimals. Only the times are those of the record.
\<close>

theorem recovered_order:
  assumes "order_of_request uuid now userID pair r = Inr v" "short_decimal (pq_Price r)" "short_decimal (pq_StopPx r)" "short_decimal (pq_Quantity r)"
  shows "orderFromWALRecord uuid' ((order_record (v\<lparr>o_Pair := p\<rparr>))\<lparr>wr_Seq := n, wr_Timestamp := t\<rparr>) =
    Some (v\<lparr>o_Pair := p, o_CreatedAt := t, o_UpdatedAt := t\<rparr>)"
  using assms by (rule recovered_placed)

definition demo_request :: place_req where
  "demo_request = \<lparr>pq_Pair = ''BTC/USDT'', pq_Side = ''buy'', pq_Type = ''limit'', pq_Price = ''100'', pq_StopPx = [], pq_Quantity = ''2'', pq_TIF = []\<rparr>"

lemma demo_texts: "parse_dec ''100'' = Some 100" "parse_dec ''2'' = Some 2" "parse_dec [] = None" "ToLower ''buy'' = ''buy''" "ToLower ''limit'' = ''limit''" "ToLower [] = []"
  by code_simp+

definition demo_placed :: order where
  "demo_placed = NewOrder ''o1'' 5 ''bob'' ''BTC/USDT'' Buy Limit (Some (BF 64 100)) (Some (BF 64 2))"

lemma demo_short: "short_decimal ''100''" "short_decimal ''2''" "short_decimal []"
proof -
  show "short_decimal ''100''" unfolding short_decimal_def demo_texts by (auto intro: exI [of _ 100000000000000000000])
  show "short_decimal ''2''" unfolding short_decimal_def demo_texts by (auto intro: exI [of _ 2000000000000000000])
  show "short_decimal []" by (simp add: short_decimal_def)
qed

lemma demo_amounts: "positive_text ''100'' = Some (BF 64 100)" "positive_text ''2'' = Some (BF 64 2)"
  unfolding positive_text_def parseBigFloat_def bf_parse_def demo_texts by simp_all

lemma demo_requested: "order_of_request ''o1'' 5 ''bob'' ''BTC/USDT'' demo_request = Inr demo_placed"
  by (simp add: order_of_request_def demo_request_def named_side_def named_type_def named_tif_def demo_texts demo_amounts optional_positive_def needsPrice_def)
    (simp add: demo_placed_def NewOrder_def)

theorem recovered_order_witness:
  "orderFromWALRecord ''x'' ((order_record (demo_placed\<lparr>o_Pair := ''BTC/USDT''\<rparr>))\<lparr>wr_Seq := 1, wr_Timestamp := 9\<rparr>) =
    Some (demo_placed\<lparr>o_Pair := ''BTC/USDT'', o_CreatedAt := 9, o_UpdatedAt := 9\<rparr>)"
  by (rule recovered_order [OF demo_requested]) (simp_all add: demo_request_def demo_short)

end
