(* ===== verification/Replay.thy ===== *)
theory Replay
  imports Recovery Order_Recovery Engine_Safety
begin

text \<open>
  Replaying a log. Two engines are twins when their books agree on everything but the times and errors of orders; their statistics,
  market data, outbound channels and logs may differ. Every operation keeps twins, so that replaying what a run has logged gives a twin of what the run left
  (\<open>replay_reproduces_book\<close>).
\<close>

section \<open>Twins\<close>

definition timeless :: "order \<Rightarrow> order" where
  "timeless v = v\<lparr>o_CreatedAt := 0, o_UpdatedAt := 0, o_Err := None\<rparr>"

definition twin :: "engine \<Rightarrow> engine \<Rightarrow> bool" where
  "twin a b \<longleftrightarrow> (\<forall>r. timeless (store a r) = timeless (store b r)) \<and> nextref a = nextref b \<and> bids a = bids b \<and> asks a = asks b \<and>
     orders a = orders b \<and> userOrders a = userOrders b \<and> seqNo a = seqNo b \<and> lastTradePrice a = lastTradePrice b \<and> stops a = stops b \<and>
     ob_Pair a = ob_Pair b \<and> e_stp a = e_stp b"

lemma timeless_fields:
  assumes "timeless v = timeless w"
  shows "o_ID v = o_ID w" "o_UserID v = o_UserID w" "o_Pair v = o_Pair w" "o_Side v = o_Side w" "o_Type v = o_Type w" "o_Price v = o_Price w"
    "o_StopPrice v = o_StopPrice w" "o_Quantity v = o_Quantity w" "o_FilledQty v = o_FilledQty w" "o_RemainingQty v = o_RemainingQty w"
    "o_IcebergQty v = o_IcebergQty w" "o_VisibleQty v = o_VisibleQty w" "o_TIF v = o_TIF w" "o_Status v = o_Status w" "o_STP v = o_STP w"
    "o_bookSeq v = o_bookSeq w" "rem_q v = rem_q w" "o_done v = o_done w"
  using assms by (cases v, cases w, simp add: timeless_def rem_q_def)+

lemma timeless_updates:
  assumes "timeless v = timeless w"
  shows "timeless (v\<lparr>o_Status := st\<rparr>) = timeless (w\<lparr>o_Status := st\<rparr>)" "timeless (v\<lparr>o_Type := ty\<rparr>) = timeless (w\<lparr>o_Type := ty\<rparr>)"
    "timeless (v\<lparr>o_UpdatedAt := x\<rparr>) = timeless (w\<lparr>o_UpdatedAt := y\<rparr>)" "timeless (v\<lparr>o_bookSeq := n\<rparr>) = timeless (w\<lparr>o_bookSeq := n\<rparr>)"
    "timeless (v\<lparr>o_done := d\<rparr>) = timeless (w\<lparr>o_done := d\<rparr>)" "timeless (v\<lparr>o_RemainingQty := q\<rparr>) = timeless (w\<lparr>o_RemainingQty := q\<rparr>)"
    "timeless (v\<lparr>o_FilledQty := f, o_RemainingQty := q\<rparr>) = timeless (w\<lparr>o_FilledQty := f, o_RemainingQty := q\<rparr>)"
    "timeless (v\<lparr>o_Status := st, o_UpdatedAt := x\<rparr>) = timeless (w\<lparr>o_Status := st, o_UpdatedAt := y\<rparr>)"
    "timeless (v\<lparr>o_VisibleQty := z\<rparr>) = timeless (w\<lparr>o_VisibleQty := z\<rparr>)"
    "timeless (v\<lparr>o_FilledQty := f, o_RemainingQty := q, o_VisibleQty := z\<rparr>) = timeless (w\<lparr>o_FilledQty := f, o_RemainingQty := q, o_VisibleQty := z\<rparr>)"
  using assms by (cases v, cases w, simp add: timeless_def)+

lemma twin_refl [simp]: "twin a a"
  by (simp add: twin_def)

lemma twin_fields:
  assumes "twin a b"
  shows "nextref a = nextref b" "bids a = bids b" "asks a = asks b" "orders a = orders b" "userOrders a = userOrders b" "seqNo a = seqNo b"
    "lastTradePrice a = lastTradePrice b" "stops a = stops b" "ob_Pair a = ob_Pair b" "e_stp a = e_stp b" "\<And>sd. side_heap sd a = side_heap sd b"
  using assms by (simp_all add: twin_def side_heap_def)

lemma twin_store: "twin a b \<Longrightarrow> timeless (store a r) = timeless (store b r)"
  by (simp add: twin_def)

lemmas twin_orders = twin_store [THEN timeless_fields(1)] twin_store [THEN timeless_fields(2)] twin_store [THEN timeless_fields(3)]
  twin_store [THEN timeless_fields(4)] twin_store [THEN timeless_fields(5)] twin_store [THEN timeless_fields(6)] twin_store [THEN timeless_fields(7)]
  twin_store [THEN timeless_fields(8)] twin_store [THEN timeless_fields(9)] twin_store [THEN timeless_fields(10)] twin_store [THEN timeless_fields(11)]
  twin_store [THEN timeless_fields(12)] twin_store [THEN timeless_fields(13)] twin_store [THEN timeless_fields(14)] twin_store [THEN timeless_fields(15)]
  twin_store [THEN timeless_fields(16)] twin_store [THEN timeless_fields(17)] twin_store [THEN timeless_fields(18)]

text \<open>What twins agree on.\<close>

lemmas twin_same = twin_fields twin_orders

lemma twin_less: "twin a b \<Longrightarrow> order_less sd (store a) = order_less sd (store b)"
  unfolding fun_eq_iff order_less_def by (simp only: twin_orders simp_thms)

lemma twin_live: "twin a b \<Longrightarrow> is_live a = is_live b"
  by (intro ext) (simp add: is_live_def twin_same)

text \<open>Fields that twins need not share.\<close>

lemma twin_ignored [simp]:
  "twin (a\<lparr>e_Trades := x1\<rparr>) b = twin a b" "twin (a\<lparr>e_Fills := x2\<rparr>) b = twin a b" "twin (a\<lparr>e_stats := x3\<rparr>) b = twin a b"
  "twin (a\<lparr>e_MD := x4\<rparr>) b = twin a b" "twin (a\<lparr>e_wal := x5\<rparr>) b = twin a b" "twin (a\<lparr>e_degraded := x6\<rparr>) b = twin a b"
  "twin (a\<lparr>e_io := x7\<rparr>) b = twin a b" "twin (a\<lparr>e_nuuid := x8\<rparr>) b = twin a b" "twin (a\<lparr>clock := x9\<rparr>) b = twin a b"
  "twin a (b\<lparr>e_Trades := x1\<rparr>) = twin a b" "twin a (b\<lparr>e_Fills := x2\<rparr>) = twin a b" "twin a (b\<lparr>e_stats := x3\<rparr>) = twin a b"
  "twin a (b\<lparr>e_MD := x4\<rparr>) = twin a b" "twin a (b\<lparr>e_wal := x5\<rparr>) = twin a b" "twin a (b\<lparr>e_degraded := x6\<rparr>) = twin a b"
  "twin a (b\<lparr>e_io := x7\<rparr>) = twin a b" "twin a (b\<lparr>e_nuuid := x8\<rparr>) = twin a b" "twin a (b\<lparr>clock := x9\<rparr>) = twin a b"
  "twin (upd_stats g1 a) b = twin a b" "twin a (upd_stats g2 b) = twin a b"
  "twin (emitTrade t1 a) b = twin a b" "twin a (emitTrade t2 b) = twin a b"
  "twin (emitFill i1 j1 q1 c1 a) b = twin a b" "twin a (emitFill i2 j2 q2 c2 b) = twin a b"
  "twin (reject_count a) b = twin a b" "twin a (reject_count b) = twin a b"
  by (simp_all add: twin_def upd_stats_def emitTrade_def emitFill_def Let_def reject_count_def)

section \<open>Results of twins\<close>

fun both :: "('a \<Rightarrow> 'b \<Rightarrow> bool) \<Rightarrow> 'a outcome \<Rightarrow> 'b outcome \<Rightarrow> bool" where
  "both R (Done x) (Done y) = R x y"
| "both R Panicked Panicked = True"
| "both R OutOfFuel OutOfFuel = True"
| "both R x y = False"

lemma both_bind: "both R x y \<Longrightarrow> (\<And>a b. R a b \<Longrightarrow> both S (f a) (g b)) \<Longrightarrow> both S (obind x f) (obind y g)"
  by (cases x; cases y) auto

lemma both_bind_same: "(\<And>a. x = Done a \<Longrightarrow> both S (f a) (g a)) \<Longrightarrow> both S (obind x f) (obind x g)"
  by (cases x) auto

lemma both_Done: "both R (Done x) y \<Longrightarrow> \<exists>z. y = Done z \<and> R x z"
  by (cases y) auto

text \<open>A value and an engine.\<close>

definition twin_with :: "'a \<times> engine \<Rightarrow> 'a \<times> engine \<Rightarrow> bool" where
  "twin_with p q \<longleftrightarrow> fst p = fst q \<and> twin (snd p) (snd q)"

lemma both_bind_with:
  "both twin_with x y \<Longrightarrow> (\<And>p a b. twin a b \<Longrightarrow> both S (F p a) (G p b)) \<Longrightarrow> both S (obind x (\<lambda>(p, e). F p e)) (obind y (\<lambda>(p, e). G p e))"
  by (erule both_bind) (auto simp: twin_with_def)

lemma both_if: "(c \<Longrightarrow> both R x y) \<Longrightarrow> (\<not> c \<Longrightarrow> both R x' y') \<Longrightarrow> both R (if c then x else x') (if c then y else y')"
  by simp

section \<open>Operations on the book\<close>

lemma twin_upd:
  "twin a b \<Longrightarrow> (\<And>v w. timeless v = timeless w \<Longrightarrow> timeless (f v) = timeless (g w)) \<Longrightarrow> twin (upd_order r f a) (upd_order r g b)"
  by (simp add: twin_def upd_order_def)

lemma twin_status: "twin a b \<Longrightarrow> twin (set_status st r a) (set_status st r b)"
  unfolding set_status_def by (rule twin_upd, assumption, rule timeless_updates(1))

lemma twin_alloc:
  assumes "twin a b" "timeless v = timeless w"
  shows "fst (alloc v a) = fst (alloc w b)" "twin (snd (alloc v a)) (snd (alloc w b))"
proof -
  note f = twin_fields [OF assms(1)] and s = twin_store [OF assms(1)]
  show "fst (alloc v a) = fst (alloc w b)" by (simp add: alloc_def f(1))
  have "timeless (if r = nextref b then v else store a r) = timeless (if r = nextref b then w else store b r)" for r
    using s assms(2) by simp
  then show "twin (snd (alloc v a)) (snd (alloc w b))" unfolding twin_def alloc_def using f by simp
qed

lemma twin_fields_upd:
  assumes "twin a b"
  shows "twin (a\<lparr>seqNo := n\<rparr>) (b\<lparr>seqNo := n\<rparr>)" "twin (a\<lparr>userOrders := u\<rparr>) (b\<lparr>userOrders := u\<rparr>)" "twin (a\<lparr>orders := m\<rparr>) (b\<lparr>orders := m\<rparr>)"
    "twin (a\<lparr>stops := xs\<rparr>) (b\<lparr>stops := xs\<rparr>)" "twin (a\<lparr>lastTradePrice := p\<rparr>) (b\<lparr>lastTradePrice := p\<rparr>)"
    "twin (set_side_heap sd h a) (set_side_heap sd h b)"
  using assms by (simp_all add: twin_def set_side_heap_def)

lemma twin_next_seq: "twin a b \<Longrightarrow> twin (next_seq r a) (next_seq r b)"
proof -
  assume t: "twin a b"
  have s: "twin (a\<lparr>seqNo := seqNo b + 1\<rparr>) (b\<lparr>seqNo := seqNo b + 1\<rparr>)" by (rule twin_fields_upd [OF t])
  have "twin (upd_order r (\<lambda>v. v\<lparr>o_bookSeq := seqNo b + 1\<rparr>) (a\<lparr>seqNo := seqNo b + 1\<rparr>))
      (upd_order r (\<lambda>v. v\<lparr>o_bookSeq := seqNo b + 1\<rparr>) (b\<lparr>seqNo := seqNo b + 1\<rparr>))"
    by (rule twin_upd [OF s]) (rule timeless_updates)
  with s show ?thesis unfolding next_seq_def Let_def twin_same [OF t] by simp
qed

lemma twin_addStop: "twin a b \<Longrightarrow> twin (addStop r a) (addStop r b)"
proof -
  assume t: "twin a b"
  show ?thesis unfolding addStop_def twin_same [OF t] by (rule twin_next_seq [OF twin_fields_upd(4) [OF t]])
qed

lemma twin_index:
  assumes t: "twin a b" and s: "timeless v = timeless w"
  shows "twin (indexAdd v a) (indexAdd w b)" "twin (indexRemove v a) (indexRemove w b)"
proof -
  show "twin (indexAdd v a) (indexAdd w b)"
    unfolding indexAdd_def Let_def twin_same [OF t] timeless_fields [OF s] by (rule twin_fields_upd [OF t])
  show "twin (indexRemove v a) (indexRemove w b)"
    unfolding indexRemove_def Let_def twin_same [OF t] timeless_fields [OF s]
    by (cases "gm_get (userOrders b) (o_UserID w)") (simp_all add: t twin_fields_upd [OF t])
qed

text \<open>The part of \<open>addLocked\<close> after the order is indexed.\<close>

definition push_side :: "ref \<Rightarrow> engine \<Rightarrow> engine outcome" where
  "push_side r e =
     (let sd = (if o_Side (store e r) = Buy then Buy else Sell)
      in obind (hpush (order_less sd (store e)) (side_heap sd e) r) (\<lambda>h. Done (set_side_heap sd h e)))"

lemma addLocked_push:
  "addLocked r e = (let e1 = next_seq r e; e2 = e1\<lparr>orders := gm_put (o_ID (store e1 r)) r (orders e1)\<rparr> in push_side r (indexAdd (store e2 r) e2))"
  by (simp add: addLocked_def push_side_def Let_def)

lemma twin_push: "twin a b \<Longrightarrow> both twin (push_side r a) (push_side r b)"
proof -
  assume t: "twin a b"
  show ?thesis unfolding push_side_def Let_def twin_same [OF t] twin_less [OF t]
    by (rule both_bind_same) (simp add: twin_fields_upd [OF t])
qed

lemma twin_add: "twin a b \<Longrightarrow> both twin (addLocked r a) (addLocked r b)"
proof -
  assume t: "twin a b"
  define a1 b1 where "a1 = next_seq r a" and "b1 = next_seq r b"
  have n: "twin a1 b1" unfolding a1_def b1_def by (rule twin_next_seq [OF t])
  note m = twin_fields_upd(3) [OF n, of "gm_put (o_ID (store b1 r)) r (orders b1)"]
  show ?thesis unfolding addLocked_push Let_def a1_def [symmetric] b1_def [symmetric] twin_same [OF n]
    by (rule twin_push [OF twin_index(1) [OF m twin_store [OF m]]])
qed

lemma twin_remove: "twin a b \<Longrightarrow> twin_with (removeLocked i a) (removeLocked i b)"
proof (cases "gm_get (orders b) i")
  case None
  assume t: "twin a b"
  show ?thesis unfolding removeLocked_def twin_same [OF t] None by (simp add: twin_with_def t)
next
  case (Some r)
  assume t: "twin a b"
  define a1 b1 where "a1 = a\<lparr>orders := gm_del i (orders b)\<rparr>" and "b1 = b\<lparr>orders := gm_del i (orders b)\<rparr>"
  have d: "twin a1 b1" unfolding a1_def b1_def by (rule twin_fields_upd [OF t])
  define a2 b2 where "a2 = indexRemove (store a1 r) a1" and "b2 = indexRemove (store b1 r) b1"
  have x: "twin a2 b2" unfolding a2_def b2_def by (rule twin_index [OF d twin_store [OF d]])
  define a3 b3 where "a3 = upd_order r (\<lambda>v. v\<lparr>o_Status := Cancelled, o_UpdatedAt := clock a\<rparr>) a2"
    and "b3 = upd_order r (\<lambda>v. v\<lparr>o_Status := Cancelled, o_UpdatedAt := clock b\<rparr>) b2"
  have u: "twin a3 b3" unfolding a3_def b3_def by (rule twin_upd [OF x]) (rule timeless_updates)
  have "removeLocked i a = (Some r, a3\<lparr>seqNo := seqNo a3 + 1\<rparr>)" "removeLocked i b = (Some r, b3\<lparr>seqNo := seqNo b3 + 1\<rparr>)"
    using Some unfolding removeLocked_def twin_same [OF t] by (simp_all add: Let_def a3_def b3_def a2_def b2_def a1_def b1_def)
  then show ?thesis using twin_fields_upd(1) [OF u] twin_same(6) [OF u] by (simp add: twin_with_def)
qed

lemma twin_best_loop: "twin a b \<Longrightarrow> best_loop sd a h = best_loop sd b h"
proof (induction sd a h rule: best_loop.induct)
  case (2 sd a t h)
  have "(\<lambda>(x, h'). best_loop sd a h') p = (\<lambda>(x, h'). best_loop sd b h') p"
    if "hpop (order_less sd (store a)) (t # h) = Done p" "\<not> is_live a t" for p
    using 2 that by (cases p) simp
  then show ?case unfolding best_loop.simps twin_live [OF 2(2)] twin_less [OF 2(2)]
    by (cases "hpop (order_less sd (store b)) (t # h)") auto
qed simp

lemma twin_best: "twin a b \<Longrightarrow> both twin_with (bestLocked sd a) (bestLocked sd b)"
proof -
  assume t: "twin a b"
  show ?thesis unfolding bestLocked_def twin_best_loop [OF t] twin_same [OF t]
    by (rule both_bind_same) (auto simp: twin_with_def twin_fields_upd [OF t])
qed

lemma twin_opposite: "twin a b \<Longrightarrow> both twin_with (bestOppositeLocked sd a) (bestOppositeLocked sd b)"
  by (simp add: bestOppositeLocked_def bestAskLocked_def bestBidLocked_def twin_best)

section \<open>Matching\<close>

lemma twin_take: "timeless v = timeless w \<Longrightarrow> timeless (take_fill q v) = timeless (take_fill q w)"
proof -
  assume s: "timeless v = timeless w"
  show ?thesis unfolding take_fill_def timeless_fields [OF s] by (rule timeless_updates(7) [OF s])
qed

lemma twin_fill_book: "twin a b \<Longrightarrow> twin (fill_book q r m a) (fill_book q r m b)"
proof -
  assume t: "twin a b"
  define a2 b2 where "a2 = upd_order m (take_fill q) (upd_order r (take_fill q) a)" and "b2 = upd_order m (take_fill q) (upd_order r (take_fill q) b)"
  have t2: "twin a2 b2" unfolding a2_def b2_def by (intro twin_upd t twin_take)
  define a3 b3 where "a3 = set_status (if bf_sign (rem_q (store a2 r)) = 0 then Filled else PartiallyFilled) r a2"
    and "b3 = set_status (if bf_sign (rem_q (store b2 r)) = 0 then Filled else PartiallyFilled) r b2"
  have t3: "twin a3 b3" unfolding a3_def b3_def twin_same [OF t2] by (rule twin_status [OF t2])
  define a4 b4 where "a4 = (if bf_sign (rem_q (store a3 m)) = 0 then snd (removeLocked (o_ID (store a3 m)) (set_status Filled m a3)) else set_status PartiallyFilled m a3)"
    and "b4 = (if bf_sign (rem_q (store b3 m)) = 0 then snd (removeLocked (o_ID (store b3 m)) (set_status Filled m b3)) else set_status PartiallyFilled m b3)"
  have t4: "twin a4 b4" unfolding a4_def b4_def twin_same [OF t3]
    using twin_remove [OF twin_status [OF t3], of "o_ID (store b3 m)" Filled m] twin_status [OF t3] by (simp add: twin_with_def)
  have "fill_book q r m a = upd_order m (\<lambda>v. v\<lparr>o_UpdatedAt := clock a4\<rparr>) a4" "fill_book q r m b = upd_order m (\<lambda>v. v\<lparr>o_UpdatedAt := clock b4\<rparr>) b4"
    by (simp_all add: fill_book_def Let_def a4_def b4_def a3_def b3_def a2_def b2_def)
  then show ?thesis using twin_upd [OF t4] timeless_updates(3) by simp
qed

lemma twin_fill: "twin a b \<Longrightarrow> both twin (fillLocked r m a) (fillLocked r m b)"
proof -
  assume t: "twin a b"
  define q where "q = fill_qty (store b r) (store b m)"
  have qa: "fill_qty (store a r) (store a m) = q" by (simp only: fill_qty_def q_def twin_same [OF t])
  define a1 b1 where "a1 = fill_book q r m a" and "b1 = fill_book q r m b"
  have t1: "twin a1 b1" unfolding a1_def b1_def by (rule twin_fill_book [OF t])
  have p: "both twin (setLastTradePrice x a1) (setLastTradePrice x b1)" for x
    by (cases x) (simp_all add: setLastTradePrice_def twin_fields_upd [OF t1])
  have f: "twin (fill_publish x q c r m a2) (fill_publish x q c' r m b2)" if "twin a2 b2" for x c c' a2 b2
    using that by (simp add: fill_publish_def Let_def)
  show ?thesis
    unfolding fillLocked_def qa q_def [symmetric] Let_def a1_def [symmetric] b1_def [symmetric] twin_same [OF t1]
    using t by (auto intro!: both_bind [OF p] both_bind_same f)
qed

lemma twin_self: "twin a b \<Longrightarrow> isSelfTrade a (store a r) (store a m) = isSelfTrade b (store b r) (store b m)"
proof -
  assume t: "twin a b"
  show ?thesis unfolding isSelfTrade_def twin_same [OF t] ..
qed

lemma twin_STP: "twin a b \<Longrightarrow> twin_with (applySTP r m a) (applySTP r m b)"
proof -
  assume t: "twin a b"
  have rm: "twin (snd (removeLocked (o_ID (store b m)) a)) (snd (removeLocked (o_ID (store b m)) b))"
    using twin_remove [OF t] by (simp add: twin_with_def)
  have mode: "stp_mode_of a (store a r) = stp_mode_of b (store b r)" unfolding stp_mode_of_def twin_same [OF t] ..
  show ?thesis unfolding applySTP_def mode twin_same [OF t]
    by (cases "stp_mode_of b (store b r)") (simp_all add: twin_with_def t rm twin_status [OF t] twin_status [OF rm])
qed

lemma twin_break: "twin a b \<Longrightarrow> reads_terms brk \<Longrightarrow> brk (store a r) (store a m) = brk (store b r) (store b m)"
proof -
  assume t: "twin a b" and "reads_terms brk"
  then show ?thesis unfolding reads_terms_def using twin_orders(4,6) [OF t] by metis
qed

lemma twin_match:
  assumes "reads_terms brk"
  shows "twin a b \<Longrightarrow> both twin (match_loop brk n r a) (match_loop brk n r b)"
proof (induction n arbitrary: a b)
  case (Suc n)
  note t = Suc.prems
  have step: "both twin
      (case best of None \<Rightarrow> Done a1 | Some m \<Rightarrow> obind (brk (store a1 r) (store a1 m)) (\<lambda>stop. if stop then Done a1
         else if isSelfTrade a1 (store a1 r) (store a1 m) then (let (go, e2) = applySTP r m a1 in if go then match_loop brk n r e2 else Done e2)
         else obind (fillLocked r m a1) (match_loop brk n r)))
      (case best of None \<Rightarrow> Done b1 | Some m \<Rightarrow> obind (brk (store b1 r) (store b1 m)) (\<lambda>stop. if stop then Done b1
         else if isSelfTrade b1 (store b1 r) (store b1 m) then (let (go, e2) = applySTP r m b1 in if go then match_loop brk n r e2 else Done e2)
         else obind (fillLocked r m b1) (match_loop brk n r)))" if t1: "twin a1 b1" for best a1 b1
  proof (cases best)
    case (Some m)
    obtain go a2 b2 where s: "applySTP r m a1 = (go, a2)" "applySTP r m b1 = (go, b2)" "twin a2 b2"
      using twin_STP [OF t1, of r m] by (cases "applySTP r m a1"; cases "applySTP r m b1") (auto simp: twin_with_def)
    have f: "both twin (obind (fillLocked r m a1) (match_loop brk n r)) (obind (fillLocked r m b1) (match_loop brk n r))"
      by (rule both_bind [OF twin_fill [OF t1]]) (rule Suc.IH)
    show ?thesis unfolding Some option.case twin_break [OF t1 assms] twin_self [OF t1] s(1,2) Let_def prod.case
      by (rule both_bind_same) (use t1 s(3) f Suc.IH in auto)
  qed (simp add: t1)
  show ?case unfolding match_loop.simps twin_same [OF t]
    by (rule both_if) (simp add: t, rule both_bind_with [OF twin_opposite [OF t]], rule step)
qed simp

section \<open>Strategies\<close>

lemma both_Done_twin: "twin a b \<Longrightarrow> both twin (Done a) (Done b)"
  by simp

lemma twin_limit: "twin a b \<Longrightarrow> both twin (matchLimitLocked n r a) (matchLimitLocked n r b)"
  unfolding matchLimitLocked_def
proof (rule both_bind [OF twin_match [OF reads_terms_tests(1)]])
  fix a b assume t: "twin a b"
  have "both twin (obind (addLocked r a) (\<lambda>e. Done (if o_Status (store e r) \<noteq> PartiallyFilled then set_status New r e else e)))
      (obind (addLocked r b) (\<lambda>e. Done (if o_Status (store e r) \<noteq> PartiallyFilled then set_status New r e else e)))"
  proof (rule both_bind [OF twin_add [OF t]])
    fix c d assume u: "twin c d"
    show "both twin (Done (if o_Status (store c r) \<noteq> PartiallyFilled then set_status New r c else c))
        (Done (if o_Status (store d r) \<noteq> PartiallyFilled then set_status New r d else d))"
      unfolding twin_same [OF u] using u twin_status [OF u] by simp
  qed
  then show "both twin (if 0 < bf_sign (rem_q (store a r)) \<and> o_TIF (store a r) = GTC
      then obind (addLocked r a) (\<lambda>e. Done (if o_Status (store e r) \<noteq> PartiallyFilled then set_status New r e else e)) else Done a)
    (if 0 < bf_sign (rem_q (store b r)) \<and> o_TIF (store b r) = GTC
      then obind (addLocked r b) (\<lambda>e. Done (if o_Status (store e r) \<noteq> PartiallyFilled then set_status New r e else e)) else Done b)"
    unfolding twin_same [OF t] using t by simp
qed

lemma twin_lapse: "twin a b \<Longrightarrow> twin (lapse r a) (lapse r b)"
proof -
  assume t: "twin a b"
  show ?thesis unfolding lapse_def twin_same [OF t] using t twin_status [OF t] by simp
qed

lemma twin_lapsing:
  "twin a b \<Longrightarrow> both twin (matchMarketLocked n r a) (matchMarketLocked n r b)"
  "twin a b \<Longrightarrow> both twin (matchIOCLocked n r a) (matchIOCLocked n r b)"
  unfolding matchMarketLocked_def matchIOCLocked_def
  by (rule both_bind [OF twin_match [OF reads_terms_tests(2)]], assumption, simp add: twin_lapse)
    (rule both_bind [OF twin_match [OF reads_terms_tests(3)]], assumption, simp add: twin_lapse)

lemma twin_reject: "twin a b \<Longrightarrow> twin (reject_count (set_status st r a)) (reject_count (set_status st r b))"
  by (simp add: twin_status)

lemma twin_available:
  assumes t: "twin a b"
  shows "fok_available a (store a r) ms acc = fok_available b (store b r) ms acc"
proof (induction ms arbitrary: acc)
  case (Cons m ms)
  show ?case unfolding fok_available.simps twin_break [OF t reads_terms_tests(3)] twin_self [OF t] twin_same [OF t]
    by (cases "ioc_break (store b r) (store b m)") (simp_all add: Cons)
qed simp

lemma twin_fok: "twin a b \<Longrightarrow> both twin (matchFOKLocked n r a) (matchFOKLocked n r b)"
proof -
  assume t: "twin a b"
  have c: "collectOppositeLocked sd a = collectOppositeLocked sd b" for sd unfolding collectOppositeLocked_def twin_same [OF t] ..
  have l: "both twin (obind (matchLimitLocked n r a) (\<lambda>e. Done (if 0 < bf_sign (rem_q (store e r)) then set_status Rejected r e else e)))
      (obind (matchLimitLocked n r b) (\<lambda>e. Done (if 0 < bf_sign (rem_q (store e r)) then set_status Rejected r e else e)))"
  proof (rule both_bind [OF twin_limit [OF t]])
    fix a b assume t: "twin a b"
    show "both twin (Done (if 0 < bf_sign (rem_q (store a r)) then set_status Rejected r a else a))
        (Done (if 0 < bf_sign (rem_q (store b r)) then set_status Rejected r b else b))"
      unfolding twin_same [OF t] using t twin_status [OF t] by simp
  qed
  show ?thesis unfolding matchFOKLocked_def c twin_available [OF t] twin_same [OF t]
    by (intro both_bind_same both_if l) (simp add: twin_status t)
qed

lemma twin_postonly: "twin a b \<Longrightarrow> both twin (matchPostOnlyLocked r a) (matchPostOnlyLocked r b)"
proof -
  assume t: "twin a b"
  have best: "both twin
      (obind (case best of None \<Rightarrow> Done False | Some m \<Rightarrow>
          if o_Side (store a1 r) = Buy then obind (price_cmp (o_Price (store a1 m)) (Some p)) (\<lambda>c. Done (c \<le> 0))
          else if o_Side (store a1 r) = Sell then obind (price_cmp (o_Price (store a1 m)) (Some p)) (\<lambda>c. Done (0 \<le> c)) else Done False)
        (\<lambda>w. if w then Done (reject_count (set_status Rejected r a1)) else obind (addLocked r a1) (\<lambda>e. Done (set_status New r e))))
      (obind (case best of None \<Rightarrow> Done False | Some m \<Rightarrow>
          if o_Side (store b1 r) = Buy then obind (price_cmp (o_Price (store b1 m)) (Some p)) (\<lambda>c. Done (c \<le> 0))
          else if o_Side (store b1 r) = Sell then obind (price_cmp (o_Price (store b1 m)) (Some p)) (\<lambda>c. Done (0 \<le> c)) else Done False)
        (\<lambda>w. if w then Done (reject_count (set_status Rejected r b1)) else obind (addLocked r b1) (\<lambda>e. Done (set_status New r e))))"
    if u: "twin a1 b1" for best p a1 b1
    unfolding twin_same [OF u]
    by (intro both_bind_same both_if) (simp add: twin_status u, rule both_bind [OF twin_add [OF u]], simp add: twin_status)
  show ?thesis unfolding matchPostOnlyLocked_def twin_same [OF t]
    by (cases "o_Price (store b r)") (auto simp: twin_status t intro!: both_bind_with [OF twin_opposite [OF t]] best)
qed

lemma twin_stop: "twin a b \<Longrightarrow> both twin (matchStopLocked n l r a) (matchStopLocked n l r b)"
proof -
  assume t: "twin a b"
  have tr: "triggerStopLocked a (store a r) = triggerStopLocked b (store b r)"
    unfolding triggerStopLocked_def LastTradePrice_def twin_same [OF t] ..
  have ty: "twin (upd_order r (\<lambda>v. v\<lparr>o_Type := x\<rparr>) a) (upd_order r (\<lambda>v. v\<lparr>o_Type := x\<rparr>) b)" for x
    by (rule twin_upd [OF t]) (rule timeless_updates(2))
  show ?thesis unfolding matchStopLocked_def tr twin_same [OF t]
    by (intro both_if both_bind_same) (simp_all add: twin_status t twin_limit [OF ty] twin_lapsing [OF ty] twin_addStop)
qed

lemma timeless_slice: "timeless v = timeless w \<Longrightarrow> timeless (ice_slice v) = timeless (ice_slice w)"
proof -
  assume s: "timeless v = timeless w"
  show ?thesis unfolding ice_slice_def timeless_fields [OF s] by (simp add: timeless_def)
qed

lemma timeless_absorb:
  assumes x: "timeless x = timeless y" and s: "timeless v = timeless w"
  shows "timeless (ice_absorb x v) = timeless (ice_absorb y w)"
proof -
  obtain now upd err where v: "v = w\<lparr>o_CreatedAt := now, o_UpdatedAt := upd, o_Err := err\<rparr>"
    using s by (cases v, cases w) (simp add: timeless_def)
  show ?thesis unfolding ice_absorb_def Let_def timeless_fields(9) [OF x] v
    by (simp add: timeless_def rem_q_def split: option.split)
qed

lemma twin_iceberg_loop: "twin a b \<Longrightarrow> both twin (iceberg_loop n fuel r a) (iceberg_loop n fuel r b)"
proof (induction n arbitrary: a b)
  case (Suc n)
  note t = Suc.prems
  note al = twin_alloc [OF t timeless_slice [OF twin_store [OF t]], of r]
  obtain vis a1 b1 where s: "alloc (ice_slice (store a r)) a = (vis, a1)" "alloc (ice_slice (store b r)) b = (vis, b1)" "twin a1 b1"
    using al by (cases "alloc (ice_slice (store a r)) a"; cases "alloc (ice_slice (store b r)) b") simp
  have "both twin (obind (matchIOCLocked fuel vis a1) (\<lambda>e. iceberg_loop n fuel r (upd_order r (ice_absorb (store e vis)) e)))
      (obind (matchIOCLocked fuel vis b1) (\<lambda>e. iceberg_loop n fuel r (upd_order r (ice_absorb (store e vis)) e)))"
  proof (rule both_bind [OF twin_lapsing(2) [OF s(3)]])
    fix c d assume u: "twin c d"
    show "both twin (iceberg_loop n fuel r (upd_order r (ice_absorb (store c vis)) c)) (iceberg_loop n fuel r (upd_order r (ice_absorb (store d vis)) d))"
      by (rule Suc.IH, rule twin_upd [OF u], rule timeless_absorb [OF twin_store [OF u]])
  qed
  then show ?case unfolding iceberg_loop.simps s(1,2) twin_same [OF t]
    by (cases "o_VisibleQty (store b r)") (simp_all add: t)
qed simp

lemma twin_iceberg: "twin a b \<Longrightarrow> both twin (matchIcebergLocked fuel r a) (matchIcebergLocked fuel r b)"
  unfolding matchIcebergLocked_def
proof (rule both_bind [OF twin_iceberg_loop])
  fix a b assume t: "twin a b"
  show "both twin (Done (set_status (if bf_sign (rem_q (store a r)) = 0 then Filled else if 0 < bf_sign (o_FilledQty (store a r)) then PartiallyFilled else Cancelled) r a))
      (Done (set_status (if bf_sign (rem_q (store b r)) = 0 then Filled else if 0 < bf_sign (o_FilledQty (store b r)) then PartiallyFilled else Cancelled) r b))"
    unfolding twin_same [OF t] by (simp add: twin_status t)
qed

lemma twin_dispatch: "twin a b \<Longrightarrow> both twin (dispatch n r a) (dispatch n r b)"
proof -
  assume t: "twin a b"
  show ?thesis unfolding dispatch_def twin_same [OF t]
    by (cases "o_Type (store b r)") (simp_all add: t twin_limit twin_lapsing twin_fok twin_postonly twin_stop twin_iceberg)
qed

lemma twin_ready: "twin a b \<Longrightarrow> twin (ready r a) (ready r b)"
proof -
  assume t: "twin a b"
  have "twin (upd_order r (\<lambda>v. v\<lparr>o_RemainingQty := newBigFloatCopy (o_Quantity v)\<rparr>) a) (upd_order r (\<lambda>v. v\<lparr>o_RemainingQty := newBigFloatCopy (o_Quantity v)\<rparr>) b)"
  proof (rule twin_upd [OF t])
    fix v w assume s: "timeless v = timeless w"
    show "timeless (v\<lparr>o_RemainingQty := newBigFloatCopy (o_Quantity v)\<rparr>) = timeless (w\<lparr>o_RemainingQty := newBigFloatCopy (o_Quantity w)\<rparr>)"
      unfolding timeless_fields [OF s] by (rule timeless_updates(6) [OF s])
  qed
  then show ?thesis unfolding ready_def twin_same [OF t] using t by simp
qed

lemma twin_close: "twin a b \<Longrightarrow> both twin (close_done r a) (close_done r b)"
proof -
  assume t: "twin a b"
  have "twin (upd_order r (\<lambda>v. v\<lparr>o_done := ClosedChan\<rparr>) a) (upd_order r (\<lambda>v. v\<lparr>o_done := ClosedChan\<rparr>) b)"
    by (rule twin_upd [OF t]) (rule timeless_updates(5))
  then show ?thesis unfolding close_done_def twin_same [OF t] using t by (cases "o_done (store b r)") simp_all
qed

text \<open>Two engines that both get an order into their logs, or have none, process it alike.\<close>

lemma twin_process:
  assumes t: "twin a b" and j: "fst (AppendOrder (e_io a) (clock a) (store a r) (e_wal a)) = None" "fst (AppendOrder (e_io b) (clock b) (store b r) (e_wal b)) = None"
  shows "both twin (processOrder n r a) (processOrder n r b)"
proof -
  obtain wa wb where w: "AppendOrder (e_io a) (clock a) (store a r) (e_wal a) = (None, wa)" "AppendOrder (e_io b) (clock b) (store b r) (e_wal b) = (None, wb)"
    using j by (metis prod.collapse)
  have t1: "twin (a\<lparr>e_wal := wa\<rparr>) (b\<lparr>e_wal := wb\<rparr>)" using t by simp
  have fin: "both twin
      (let e3 = (if o_Status (store c r) \<in> {Filled, PartiallyFilled} then upd_stats (\<lambda>t. t\<lparr>OrdersMatched := OrdersMatched t + 1\<rparr>) c else c)
       in close_done r (upd_order r (\<lambda>v. v\<lparr>o_UpdatedAt := clock e3\<rparr>) e3))
      (let e3 = (if o_Status (store d r) \<in> {Filled, PartiallyFilled} then upd_stats (\<lambda>t. t\<lparr>OrdersMatched := OrdersMatched t + 1\<rparr>) d else d)
       in close_done r (upd_order r (\<lambda>v. v\<lparr>o_UpdatedAt := clock e3\<rparr>) e3))" if u: "twin c d" for c d
    unfolding Let_def twin_same [OF u] by (intro twin_close twin_upd timeless_updates) (simp add: u)
  have d: "both twin (dispatch n r (ready r (a\<lparr>e_wal := wa\<rparr>))) (dispatch n r (ready r (b\<lparr>e_wal := wb\<rparr>)))"
    by (rule twin_dispatch [OF twin_ready [OF t1]])
  show ?thesis unfolding processOrder_def w prod.case option.case Let_def [of "_\<lparr>e_wal := _\<rparr>"] twin_same [OF t1]
    using twin_reject [OF t1] by (intro both_if both_bind [OF d] fin) simp_all
qed

lemma twin_cancel:
  assumes t: "twin a b" and j: "fst (AppendCancel (e_io a) (clock a) i u (e_wal a)) = None" "fst (AppendCancel (e_io b) (clock b) i u (e_wal b)) = None"
  shows "twin (snd (processCancel i u a)) (snd (processCancel i u b))"
proof -
  obtain wa wb where w: "AppendCancel (e_io a) (clock a) i u (e_wal a) = (None, wa)" "AppendCancel (e_io b) (clock b) i u (e_wal b) = (None, wb)"
    using j by (metis prod.collapse)
  have t1: "twin (a\<lparr>e_wal := wa\<rparr>) (b\<lparr>e_wal := wb\<rparr>)" using t by simp
  show ?thesis unfolding processCancel_def w prod.case option.case Let_def [of "_\<lparr>e_wal := _\<rparr>"] twin_same [OF t1]
    using twin_remove [OF t1] t1 by (simp add: twin_with_def split: option.split)
qed

section \<open>What matching leaves alone\<close>

text \<open>Without a stop order no operation touches the log or the list of stops.\<close>

definition steady :: "engine \<Rightarrow> engine \<Rightarrow> bool" where
  "steady a b \<longleftrightarrow> e_wal b = e_wal a \<and> e_io b = e_io a \<and> stops b = stops a"

definition stays :: "engine \<Rightarrow> engine outcome \<Rightarrow> bool" where
  "stays e x \<longleftrightarrow> (\<forall>e'. x = Done e' \<longrightarrow> steady e e')"

lemma stays_Done [simp]: "stays e (Done x) = steady e x"
  by (simp add: stays_def)

lemma stays_bind: "stays e x \<Longrightarrow> (\<And>y. steady e y \<Longrightarrow> stays e (f y)) \<Longrightarrow> stays e (obind x f)"
  by (cases x) (auto simp: stays_def)

lemma stays_value: "(\<And>y. x = Done y \<Longrightarrow> stays e (f y)) \<Longrightarrow> stays e (obind x f)"
  by (cases x) (auto simp: stays_def)

lemma stays_if: "stays e x \<Longrightarrow> stays e y \<Longrightarrow> stays e (if c then x else y)"
  by simp

lemma steady_trans: "steady a b \<Longrightarrow> steady b c \<Longrightarrow> steady a c"
  by (simp add: steady_def)

lemma stays_trans: "steady a b \<Longrightarrow> stays b x \<Longrightarrow> stays a x"
  unfolding stays_def by (blast intro: steady_trans)

lemma steady_simps [simp]:
  "steady a a" "steady a (upd_order r f b) = steady a b" "steady a (set_status st r b) = steady a b" "steady a (reject_count b) = steady a b"
  "steady a (upd_stats g b) = steady a b" "steady a (set_side_heap sd h b) = steady a b" "steady a (indexAdd v b) = steady a b"
  "steady a (next_seq r b) = steady a b" "steady a (snd (removeLocked i b)) = steady a b" "steady a (emitTrade t b) = steady a b"
  "steady a (emitFill x m q c b) = steady a b" "steady a (b\<lparr>e_nuuid := n\<rparr>) = steady a b" "steady a (b\<lparr>e_MD := md\<rparr>) = steady a b"
  "steady a (b\<lparr>orders := os\<rparr>) = steady a b" "steady a (b\<lparr>lastTradePrice := p\<rparr>) = steady a b" "steady a (snd (alloc w b)) = steady a b"
  "steady a (b\<lparr>bids := hs\<rparr>) = steady a b" "steady a (b\<lparr>asks := hs\<rparr>) = steady a b"
  by (auto simp: steady_def upd_order_def set_status_def reject_count_def upd_stats_def set_side_heap_def indexAdd_def indexRemove_def next_seq_def
      removeLocked_def emitTrade_def emitFill_def alloc_def Let_def split: option.split)

lemma steady_fill_book [simp]: "steady a (fill_book q r m b) = steady a b"
  by (simp add: fill_book_def Let_def)

lemma steady_publish [simp]: "steady a (fill_publish p q c r m b) = steady a b"
  by (simp add: fill_publish_def Let_def)

lemma stays_add: "steady a b \<Longrightarrow> stays a (addLocked r b)"
  unfolding addLocked_def Let_def by (rule stays_value) simp

lemma stays_fill: "steady a b \<Longrightarrow> stays a (fillLocked r m b)"
  unfolding fillLocked_def Let_def setLastTradePrice_def by (intro stays_if stays_bind stays_value) simp_all

lemma stays_D: "fillLocked r m b = Done c \<Longrightarrow> steady a b \<Longrightarrow> steady a c" "addLocked r b = Done c \<Longrightarrow> steady a b \<Longrightarrow> steady a c"
  using stays_fill [of a b r m] stays_add [of a b r] by (simp_all add: stays_def)

lemma steady_STP: "steady a b \<Longrightarrow> applySTP r m b = (go, c) \<Longrightarrow> steady a c"
  by (auto simp: applySTP_def split: stp_mode.splits)

lemma stays_opposite: "bestOppositeLocked sd b = Done (best, c) \<Longrightarrow> steady a b \<Longrightarrow> steady a c"
  by (auto simp: bestOppositeLocked_def bestAskLocked_def bestBidLocked_def bestLocked_def split: if_splits)

lemma stays_match: "steady a b \<Longrightarrow> stays a (match_loop brk n r b)"
proof (induction n arbitrary: b)
  case 0
  then show ?case by (simp add: stays_def)
next
  case (Suc n)
  have "stays a (case best of None \<Rightarrow> Done c | Some m \<Rightarrow> obind (brk (store c r) (store c m)) (\<lambda>stop. if stop then Done c
         else if isSelfTrade c (store c r) (store c m) then (let (go, d) = applySTP r m c in if go then match_loop brk n r d else Done d)
         else obind (fillLocked r m c) (match_loop brk n r)))" if c: "steady a c" for best c
    using c steady_STP [OF c]
    by (auto split: option.split prod.split intro!: stays_value Suc.IH intro: stays_D)
  then show ?case unfolding match_loop.simps using Suc.prems
    by (auto intro!: stays_value dest: stays_opposite)
qed

lemma stays_limit: "steady a b \<Longrightarrow> stays a (matchLimitLocked n r b)"
  unfolding matchLimitLocked_def by (intro stays_bind [OF stays_match] stays_if stays_bind [OF stays_add]) simp_all

lemma steady_lapse [simp]: "steady a (lapse r b) = steady a b"
  by (simp add: lapse_def)

lemma stays_lapsing: "steady a b \<Longrightarrow> stays a (matchMarketLocked n r b)" "steady a b \<Longrightarrow> stays a (matchIOCLocked n r b)"
  unfolding matchMarketLocked_def matchIOCLocked_def by (rule stays_bind [OF stays_match]; simp)+

lemma stays_fok: "steady a b \<Longrightarrow> stays a (matchFOKLocked n r b)"
  unfolding matchFOKLocked_def by (intro stays_value stays_if stays_bind [OF stays_limit]) simp_all

lemma stays_postonly:
  assumes s: "steady a b"
  shows "stays a (matchPostOnlyLocked r b)"
proof -
  have k: "stays a (obind x (\<lambda>w. if w then Done (reject_count (set_status Rejected r c)) else obind (addLocked r c) (\<lambda>e. Done (set_status New r e))))"
    if "steady a c" for x c
    by (rule stays_value) (auto simp: that intro!: stays_bind [OF stays_add [OF that]])
  have "stays a (obind (bestOppositeLocked sd b) (\<lambda>(best, c). obind (x best c)
      (\<lambda>w. if w then Done (reject_count (set_status Rejected r c)) else obind (addLocked r c) (\<lambda>e. Done (set_status New r e)))))" for x sd
  proof (rule stays_value)
    fix y assume "bestOppositeLocked sd b = Done y"
    then show "stays a (case y of (best, c) \<Rightarrow> obind (x best c)
        (\<lambda>w. if w then Done (reject_count (set_status Rejected r c)) else obind (addLocked r c) (\<lambda>e. Done (set_status New r e))))"
      by (cases y) (simp only: prod.case, blast intro: k stays_opposite s)
  qed
  then show ?thesis using s unfolding matchPostOnlyLocked_def by (cases "o_Price (store b r)") simp_all
qed

lemma stays_iceberg_loop: "steady a b \<Longrightarrow> stays a (iceberg_loop n fuel r b)"
proof (induction n arbitrary: b)
  case 0
  then show ?case by (simp add: stays_def)
next
  case (Suc n)
  then show ?case
    by (auto simp: alloc_def steady_def split: option.split intro!: stays_bind [OF stays_lapsing(2)] Suc.IH)
qed

definition plain :: "order \<Rightarrow> bool" where
  "plain v \<longleftrightarrow> o_Type v \<noteq> StopLoss \<and> o_Type v \<noteq> StopLimit"

lemma stays_dispatch: "steady a b \<Longrightarrow> plain (store b r) \<Longrightarrow> stays a (dispatch n r b)"
  by (cases "o_Type (store b r)")
    (simp_all add: dispatch_def plain_def stays_limit stays_lapsing stays_fok stays_postonly matchIcebergLocked_def stays_bind [OF stays_iceberg_loop])

lemma stays_close: "steady a b \<Longrightarrow> stays a (close_done r b)"
  by (cases "o_done (store b r)") (simp_all add: close_done_def stays_def)

lemma stays_process:
  assumes j: "AppendOrder (e_io e) (clock e) (store e r) (e_wal e) = (None, w)" and p: "plain (store e r)"
  shows "stays (e\<lparr>e_wal := w\<rparr>) (processOrder n r e)"
proof -
  have r: "steady (e\<lparr>e_wal := w\<rparr>) (ready r (e\<lparr>e_wal := w\<rparr>))" "plain (store (ready r (e\<lparr>e_wal := w\<rparr>)) r)"
    using p by (simp_all add: ready_def plain_def)
  show ?thesis unfolding processOrder_def j prod.case option.case Let_def
    by (intro stays_if stays_bind [OF stays_dispatch [OF r]] stays_close) simp_all
qed

lemma steady_cancel:
  "AppendCancel (e_io e) (clock e) i u (e_wal e) = (None, w) \<Longrightarrow> steady (e\<lparr>e_wal := w\<rparr>) (snd (processCancel i u e))"
  by (simp add: processCancel_def Let_def split: option.split)

section \<open>Runs and their logs\<close>

text \<open>The rounds of an engine's loop, each at its time: the queued orders, or one cancel.\<close>

datatype round = Batch "order list" | Undo string string

fun run_rounds :: "nat \<Rightarrow> (int \<times> round) list \<Rightarrow> engine \<Rightarrow> engine outcome" where
  "run_rounds fuel [] e = Done e"
| "run_rounds fuel ((now, Batch vs) # rs) e = obind (process_queued fuel vs (e\<lparr>clock := now\<rparr>)) (run_rounds fuel rs)"
| "run_rounds fuel ((now, Undo i u) # rs) e = run_rounds fuel rs (snd (processCancel i u (e\<lparr>clock := now\<rparr>)))"

fun ordered_in :: "(int \<times> round) list \<Rightarrow> order list" where
  "ordered_in [] = []"
| "ordered_in ((now, Batch vs) # rs) = vs @ ordered_in rs"
| "ordered_in ((now, Undo i u) # rs) = ordered_in rs"

fun entries :: "(int \<times> round) list \<Rightarrow> nat" where
  "entries [] = 0"
| "entries ((now, Batch vs) # rs) = length vs + entries rs"
| "entries ((now, Undo i u) # rs) = Suc (entries rs)"

text \<open>What the log needs of an order; orders that were placed have it (\<open>recovered_order\<close>).\<close>

definition loggable :: "order \<Rightarrow> bool" where
  "loggable v \<longleftrightarrow> plain v \<and> (\<forall>uuid n t. orderFromWALRecord uuid ((order_record v)\<lparr>wr_Seq := n, wr_Timestamp := t\<rparr>) = Some (v\<lparr>o_CreatedAt := t, o_UpdatedAt := t\<rparr>))"

text \<open>An engine whose log, replayed into \<open>b0\<close>, gives a twin of it.\<close>

definition logged :: "nat \<Rightarrow> engine \<Rightarrow> nat \<Rightarrow> engine \<Rightarrow> bool" where
  "logged fuel b0 k a \<longleftrightarrow> (\<exists>w b. e_wal a = Some w \<and> \<not> w_bwerr w \<and> ended (w_file w) \<and> w_seq w = of_nat k \<and> e_io a = NoFault \<and> stops a = [] \<and>
     replay (replay_record fuel 0) (w_file w) b0 = Done b \<and> twin a b \<and> e_wal b = None)"

lemma append_clean:
  assumes "\<not> w_bwerr w" "ended (w_file w)"
  shows "\<exists>w'. AppendRecord NoFault now rc (Some w) = (None, Some w') \<and> w_file w' = w_file w @ [Line (rc\<lparr>wr_Seq := w_seq w + 1, wr_Timestamp := now\<rparr>)] \<and>
    w_seq w' = w_seq w + 1 \<and> \<not> w_bwerr w' \<and> ended (w_file w')"
proof -
  obtain e w' where a: "wal_append NoFault now rc w = (e, w')" by fastforce
  have "e = None" using a assms(1) by (auto simp: wal_append_def maybeSync_def Let_def split: if_splits)
  then show ?thesis using a wal_append_ok [OF assms(1), of NoFault now rc] add_line_ended [OF assms(2)]
    by (auto simp: AppendRecord_def ended_def)
qed

lemma seq_after: "Suc k < 2 ^ 64 \<Longrightarrow> \<not> (of_nat k + 1 :: 64 word) \<le> 0"
  using seq_not_0 [of k] by (simp add: add.commute)

lemma logged_order:
  assumes l: "logged fuel b0 k a" and k: "Suc k < 2 ^ 64" and v: "loggable v" and p: "processOrder fuel (nextref a) (snd (alloc v a)) = Done a'"
  shows "logged fuel b0 (Suc k) a'"
proof -
  obtain w b where w: "e_wal a = Some w" "\<not> w_bwerr w" "ended (w_file w)" "w_seq w = of_nat k" "e_io a = NoFault" "stops a = []"
    and b: "replay (replay_record fuel 0) (w_file w) b0 = Done b" "twin a b" "e_wal b = None"
    using l by (auto simp: logged_def)
  define r a1 where "r = nextref a" and "a1 = snd (alloc v a)"
  have a1: "e_wal a1 = Some w" "e_io a1 = NoFault" "stops a1 = []" "store a1 r = v" "clock a1 = clock a"
    using w by (simp_all add: a1_def r_def alloc_def)
  define rc where "rc = (order_record v)\<lparr>wr_Seq := w_seq w + 1, wr_Timestamp := clock a\<rparr>"
  obtain w' where w': "AppendOrder (e_io a1) (clock a1) (store a1 r) (e_wal a1) = (None, Some w')" "w_file w' = w_file w @ [Line rc]"
      "w_seq w' = w_seq w + 1" "\<not> w_bwerr w'" "ended (w_file w')"
    using append_clean [OF w(2,3), of "clock a" "order_record v"] unfolding AppendOrder_def a1 rc_def by blast
  have s: "steady (a1\<lparr>e_wal := Some w'\<rparr>) a'"
    using stays_process [OF w'(1), of fuel] v p a1(4) by (simp add: loggable_def stays_def r_def a1_def)
  define v' where "v' = v\<lparr>o_CreatedAt := clock a, o_UpdatedAt := clock a\<rparr>"
  define b1 where "b1 = snd (alloc v' (b\<lparr>e_nuuid := Suc (e_nuuid b)\<rparr>))"
  have tv: "timeless v = timeless v'" by (simp add: timeless_def v'_def)
  have nb: "nextref b = r" using twin_fields(1) [OF b(2)] by (simp add: r_def)
  have t1: "twin a1 b1" unfolding a1_def b1_def by (rule twin_alloc(2)) (simp_all add: b(2) tv)
  have rr: "replay_record fuel 0 rc b = processOrder fuel r b1"
    using v seq_after [OF k] nb by (simp add: replay_record_def loggable_def rc_def w(4) order_record_def b1_def v'_def alloc_def Let_def)
  have jb: "AppendOrder (e_io b1) (clock b1) (store b1 r) (e_wal b1) = (None, None)" using b(3) by (simp add: b1_def alloc_def AppendOrder_def AppendRecord_def)
  have "both twin (processOrder fuel r a1) (processOrder fuel r b1)" by (rule twin_process [OF t1]) (simp_all add: w'(1) jb)
  then obtain b' where b': "processOrder fuel r b1 = Done b'" "twin a' b'" using p both_Done by (fastforce simp: r_def a1_def)
  have pb: "plain (store b1 r)" using v nb by (simp add: b1_def alloc_def loggable_def plain_def v'_def)
  have "steady (b1\<lparr>e_wal := None\<rparr>) b'" using stays_process [OF jb pb, of fuel] b'(1) by (simp add: stays_def)
  then have "e_wal b' = None" by (simp add: steady_def)
  moreover have "replay (replay_record fuel 0) (w_file w') b0 = Done b'" unfolding w'(2) replay_append b(1) using rr b'(1) by simp
  ultimately show ?thesis using s w'(3-5) w(4) a1 b'(2) by (auto simp: logged_def steady_def)
qed

lemma logged_clock: "logged fuel b0 k a \<Longrightarrow> logged fuel b0 k (a\<lparr>clock := now\<rparr>)"
  by (simp add: logged_def)

lemma logged_cancel:
  assumes l: "logged fuel b0 k a" and k: "Suc k < 2 ^ 64"
  shows "logged fuel b0 (Suc k) (snd (processCancel i u a))"
proof -
  obtain w b where w: "e_wal a = Some w" "\<not> w_bwerr w" "ended (w_file w)" "w_seq w = of_nat k" "e_io a = NoFault" "stops a = []"
    and b: "replay (replay_record fuel 0) (w_file w) b0 = Done b" "twin a b" "e_wal b = None"
    using l by (auto simp: logged_def)
  define rc where "rc = (cancel_record i u)\<lparr>wr_Seq := w_seq w + 1, wr_Timestamp := clock a\<rparr>"
  obtain w' where w': "AppendCancel (e_io a) (clock a) i u (e_wal a) = (None, Some w')" "w_file w' = w_file w @ [Line rc]"
      "w_seq w' = w_seq w + 1" "\<not> w_bwerr w'" "ended (w_file w')"
    using append_clean [OF w(2,3), of "clock a" "cancel_record i u"] unfolding AppendCancel_def w(1,5) rc_def by blast
  have jb: "AppendCancel (e_io b) (clock b) i u (e_wal b) = (None, None)" using b(3) by (simp add: AppendCancel_def AppendRecord_def)
  have t: "twin (snd (processCancel i u a)) (snd (processCancel i u b))" by (rule twin_cancel [OF b(2)]) (simp_all add: w'(1) jb)
  have "replay_record fuel 0 rc b = Done (snd (processCancel i u b))"
    using seq_after [OF k] by (simp add: replay_record_def rc_def w(4) cancel_record_def)
  then have "replay (replay_record fuel 0) (w_file w') b0 = Done (snd (processCancel i u b))" unfolding w'(2) replay_append b(1) by simp
  moreover have "steady (a\<lparr>e_wal := Some w'\<rparr>) (snd (processCancel i u a))" "steady (b\<lparr>e_wal := None\<rparr>) (snd (processCancel i u b))"
    by (rule steady_cancel, rule w'(1)) (rule steady_cancel, rule jb)
  ultimately show ?thesis using w'(3-5) w t by (auto simp: logged_def steady_def)
qed

lemma logged_queued:
  "logged fuel b0 k a \<Longrightarrow> k + length vs < 2 ^ 64 \<Longrightarrow> \<forall>v \<in> set vs. loggable v \<Longrightarrow> process_queued fuel vs a = Done a' \<Longrightarrow> logged fuel b0 (k + length vs) a'"
proof (induction vs arbitrary: k a)
  case Nil
  then show ?case by (auto simp: triggerStops_def logged_def)
next
  case (Cons v vs)
  obtain a1 where a1: "processOrder fuel (nextref a) (snd (alloc v a)) = Done a1" "process_queued fuel vs a1 = Done a'"
    using Cons.prems(4) by (auto simp: alloc_def Let_def)
  have "logged fuel b0 (Suc k) a1" by (rule logged_order [OF Cons.prems(1) _ _ a1(1)]) (use Cons.prems(2,3) in simp_all)
  from Cons.IH [OF this _ _ a1(2)] show ?case using Cons.prems(2,3) by simp
qed

lemma logged_rounds:
  "logged fuel b0 k a \<Longrightarrow> k + entries rs < 2 ^ 64 \<Longrightarrow> \<forall>v \<in> set (ordered_in rs). loggable v \<Longrightarrow> run_rounds fuel rs a = Done a' \<Longrightarrow> logged fuel b0 (k + entries rs) a'"
proof (induction rs arbitrary: k a rule: ordered_in.induct)
  case (2 now vs rs)
  obtain a1 where a1: "process_queued fuel vs (a\<lparr>clock := now\<rparr>) = Done a1" "run_rounds fuel rs a1 = Done a'"
    using 2(5) by auto
  have "logged fuel b0 (k + length vs) a1" by (rule logged_queued [OF logged_clock [OF 2(2)] _ _ a1(1)]) (use 2(3,4) in simp_all)
  from 2(1) [OF this _ _ a1(2)] show ?case using 2(3,4) by (simp add: add.assoc)
next
  case (3 now i u rs)
  have "logged fuel b0 (Suc k) (snd (processCancel i u (a\<lparr>clock := now\<rparr>)))" by (rule logged_cancel [OF logged_clock [OF 3(2)]]) (use 3(3) in simp)
  from 3(1) [OF this] show ?case using 3(3-5) by simp
qed simp

text \<open>
  C13: recovery gives back the book. An engine starts with an empty log and takes batches of orders and cancels; the next run of the program finds its log and no
  snapshot. The engine that it registers for the pair has the same book as the one that was stopped: the same orders with the same quantities, status and
  priority, the same heaps and indices, sequence number and last price. What the theorem asks is that no write fails, that the orders come back from the log
  (as placed orders do) and that there are no stop orders: a stop that was triggered in the run stays parked in the replay.
\<close>

theorem restart_reproduces_book:
  assumes run: "run_rounds fuel rs (SetWAL (Some (NewWALWriter [] policy t)) (NewMatchingEngine (ex_memory ex) uuid pair)) = Done e"
    and ok: "\<forall>v \<in> set (ordered_in rs). loggable v" "entries rs < 2 ^ 64"
    and found: "gm_get (ex_wals ex) (path_join (ex_walDir ex) (walFileName pair)) = map_option w_file (e_wal e)"
    and start: "normalizePair pair = pair" "gm_get (ex_engines ex) pair = None" "ex_walDir ex \<noteq> []" "ex_snapshotDir ex = []" "ex_snaps ex = []" "ex_faults ex = []"
      "NewRingBuffer cap = Some (rb :: order ring)"
  shows "\<exists>p. RegisterPair fuel pair cap ex = Done (Inr p, ex\<lparr>ex_engines := gm_put pair p (ex_engines ex)\<rparr>) \<and> twin e (pe_engine p)"
proof -
  define a0 where "a0 = SetWAL (Some (NewWALWriter [] policy t)) (NewMatchingEngine (ex_memory ex) uuid pair)"
  define lines where "lines = (case e_wal e of Some w \<Rightarrow> w_file w | None \<Rightarrow> [])"
  define b1 where "b1 = SetWAL (Some (NewWALWriter lines (ex_policy ex) (ex_now ex))) (fresh_engine pair ex)"
  define b0 where "b0 = b1\<lparr>e_wal := None\<rparr>"
  have "logged fuel b0 0 a0"
    by (simp add: logged_def a0_def b0_def b1_def SetWAL_def NewWALWriter_def countWALRecords_def ended_def fresh_engine_def NewMatchingEngine_def
        book.extend_def NewOrderBook_def twin_def)
  then have "logged fuel b0 (entries rs) e" using logged_rounds [of fuel b0 0 a0 rs e] ok run by (simp add: a0_def)
  then obtain w b where w: "e_wal e = Some w" "replay (replay_record fuel 0) (w_file w) b0 = Done b" "twin e b" by (auto simp: logged_def)
  have l: "lines = w_file w" by (simp add: lines_def w(1))
  have "replayWAL fuel lines 0 b1 = Done (b\<lparr>e_wal := e_wal b1\<rparr>)" using w(2) by (simp add: replayWAL_def b0_def l)
  moreover have "ob_Pair b1 = pair" by (simp add: b1_def SetWAL_def fresh_engine_def NewMatchingEngine_def book.extend_def NewOrderBook_def)
  ultimately have "recoverPair fuel ex b1 = Done (b\<lparr>e_wal := e_wal b1\<rparr>)"
    using start found by (simp add: recoverPair_def Let_def LoadSnapshot_def w(1) l)
  then have r: "recoverPair fuel ex (SetWAL (Some (NewWALWriter (w_file w) (ex_policy ex) (ex_now ex))) (fresh_engine pair ex)) = Done (b\<lparr>e_wal := e_wal b1\<rparr>)"
    by (simp add: b1_def l)
  have "RegisterPair fuel pair cap ex = Done (Inr \<lparr>pe_engine = b\<lparr>e_wal := e_wal b1\<rparr>, pe_inbound = rb\<rparr>,
      ex\<lparr>ex_engines := gm_put pair \<lparr>pe_engine = b\<lparr>e_wal := e_wal b1\<rparr>, pe_inbound = rb\<rparr> (ex_engines ex)\<rparr>)"
    using start found r unfolding RegisterPair_def Let_def by (simp add: file_op_def w(1))
  then show ?thesis using w(3) by simp
qed

section \<open>A snapshot between the log and the book\<close>

lemma replay_skips:
  assumes "\<forall>r \<in> set (lines_of ls). wr_Seq r \<le> n"
  shows "replayWAL fuel ls n e = Done e"
proof -
  have "foldl (\<lambda>acc r. obind acc (replay_record fuel n r)) (Done s) rs = Done s" if "\<forall>r \<in> set rs. wr_Seq r \<le> n" for s rs
    using that by (induction rs) (simp_all add: replay_record_def)
  then show ?thesis using assms by (simp add: replayWAL_def replay_lines_of)
qed

lemma numbered_le:
  assumes "numbered w" "length (lines_of (w_file w)) < 2 ^ 64" "r \<in> set (lines_of (w_file w))"
  shows "wr_Seq r \<le> w_seq w"
proof -
  have "wr_Seq r \<in> of_nat ` {1 ..< Suc (length (lines_of (w_file w)))}"
    using assms(1,3) unfolding numbered_def by (metis image_eqI list.set_map set_upt)
  then obtain k where "wr_Seq r = of_nat k" "k \<le> length (lines_of (w_file w))" by auto
  then show ?thesis using assms(1,2) by (simp add: numbered_def word_le_nat_alt unat_small)
qed

lemma book_Snapshot_wal [simp]: "book_Snapshot (e\<lparr>e_wal := w\<rparr>) = book_Snapshot e"
  by (simp add: book_Snapshot_def)

lemma engine_Restore_orders:
  assumes "book_Restore (Some ob) e = Done f" "es_OrderBook s = Some ob"
  shows "\<exists>g. engine_Restore (Some s) e = Done g \<and> orders g = orders f"
  using assms by (auto simp: engine_Restore_def setLastTradePrice_def split: option.split)

text \<open>
  C24: a snapshot can lose an order. The engine writes an order to the log before it takes the lock of the book; a snapshot reads the number of the last record
  and the book without waiting for that order. Taken between the two, it says that the order is in the book when it is not: the next run restores
  the book without the order and skips its record, although the write was acknowledged.
\<close>

theorem snapshot_loses_order:
  assumes "at_rest e" "gm_get (orders e) (o_ID v) = None"
    and log: "\<not> w_bwerr w0" "numbered w0" "AppendOrder NoFault now v (Some w0) = (None, Some w)" "length (lines_of (w_file w)) < 2 ^ 64"
    and s: "s = json_snapshot (engine_Snapshot (e\<lparr>e_wal := Some w\<rparr>) (e\<lparr>e_wal := Some w\<rparr>))"
  shows "(\<exists>r \<in> set (lines_of (w_file w)). wr_Op r = ''order'' \<and> wr_OrderID r = o_ID v) \<and>
    (\<exists>f. engine_Restore (Some s) e' = Done f \<and> replayWAL fuel (w_file w) (es_LastWALSeq s) f = Done f \<and> gm_get (orders f) (o_ID v) = None)"
proof -
  have w: "w = snd (wal_append NoFault now (order_record v) w0)"
    using log(3) by (simp add: AppendOrder_def AppendRecord_def split: prod.splits)
  have n: "numbered w" unfolding w by (rule wal_append_numbered [OF log(2,1)]) simp
  have "ended (w_file w0)" using log(2) by (simp add: numbered_def)
  then have "(order_record v)\<lparr>wr_Seq := w_seq w0 + 1, wr_Timestamp := now\<rparr> \<in> set (lines_of (w_file w))"
    unfolding w by (simp add: wal_append_ok [OF log(1)] add_line_ended)
  then have "\<exists>r \<in> set (lines_of (w_file w)). wr_Op r = ''order'' \<and> wr_OrderID r = o_ID v"
    by (rule bexI [rotated]) (simp add: order_record_def)
  moreover have "\<exists>f. engine_Restore (Some s) e' = Done f \<and> replayWAL fuel (w_file w) (es_LastWALSeq s) f = Done f \<and> gm_get (orders f) (o_ID v) = None"
  proof -
    obtain t where t: "book_Restore (Some (filed e)) e' = Done t" "gm_get (orders t) (o_ID v) = None"
      using filed_restored [OF assms(1), of e'] assms(2) by blast
    have f: "es_OrderBook s = Some (filed e)" "es_LastWALSeq s = w_seq w"
      by (simp_all add: s json_snapshot_def engine_Snapshot_def filed_def)
    obtain g where g: "engine_Restore (Some s) e' = Done g" "orders g = orders t" using engine_Restore_orders [OF t(1) f(1)] by blast
    have "replayWAL fuel (w_file w) (es_LastWALSeq s) g = Done g"
      by (rule replay_skips) (use numbered_le [OF n log(4)] f(2) in simp)
    then show ?thesis using g t(2) by auto
  qed
  ultimately show ?thesis ..
qed

section \<open>A failed sync\<close>

lemma obind_Done: "obind x (replay fn []) = x"
  by (cases x) simp_all

lemma replay_one:
  assumes "loggable v" "Suc k < 2 ^ 64" "rc = (order_record v)\<lparr>wr_Seq := of_nat k + 1, wr_Timestamp := now\<rparr>"
  shows "replay_record fuel 0 rc b = processOrder fuel (nextref b) (snd (alloc (v\<lparr>o_CreatedAt := now, o_UpdatedAt := now\<rparr>) (b\<lparr>e_nuuid := Suc (e_nuuid b)\<rparr>)))"
  using assms(1) seq_after [OF assms(2)] by (simp add: replay_record_def loggable_def assms(3) order_record_def alloc_def Let_def)

text \<open>
  C39: an order that was refused comes back. When the write to the log succeeds and the sync after it fails, the engine rejects the order without matching
  it and reports the error; the record stays in the file, and the next run takes the order from it and processes it like any other.
\<close>

theorem rejected_order_replayed:
  assumes e: "e_wal e = Some w0" "\<not> w_bwerr w0" "ended (w_file w0)" "w_seq w0 = of_nat k" "Suc k < 2 ^ 64" "w_syncEvery w0 \<le> 1" "e_io e = SyncFault"
    and v: "loggable (store e r)" "o_done (store e r) = NoChan"
    and b: "replay (replay_record fuel 0) (w_file w0) b0 = Done b"
  shows "\<exists>e' w v. processOrder fuel r e = Done e' \<and> o_Status (store e' r) = Rejected \<and> orders e' = orders e \<and> e_wal e' = Some w \<and>
    timeless v = timeless (store e r) \<and>
    replay (replay_record fuel 0) (w_file w) b0 = processOrder fuel (nextref b) (snd (alloc v (b\<lparr>e_nuuid := Suc (e_nuuid b)\<rparr>)))"
proof -
  define rc where "rc = (order_record (store e r))\<lparr>wr_Seq := of_nat k + 1, wr_Timestamp := clock e\<rparr>"
  define w where "w = snd (wal_append SyncFault (clock e) (order_record (store e r)) w0)"
  have a: "AppendOrder (e_io e) (clock e) (store e r) (e_wal e) = (Some SyncFailed, Some w)"
    using e(1,2,6,7) by (simp add: AppendOrder_def AppendRecord_def w_def wal_append_def maybeSync_def Let_def)
  have f: "w_file w = w_file w0 @ [Line rc]"
    using wal_append_ok(1) [OF e(2), of SyncFault] by (simp add: w_def add_line_ended [OF e(3)] rc_def e(4))
  define e' where "e' = upd_order r (\<lambda>v. v\<lparr>o_UpdatedAt := clock e\<rparr>) (reject_count (upd_order r (\<lambda>v. v\<lparr>o_Status := Rejected, o_Err := Some WalAppendFailed\<rparr>)
      (markWALFailure (e\<lparr>e_wal := Some w\<rparr>))))"
  have p: "processOrder fuel r e = Done e'" using v(2) by (simp add: processOrder_def a close_done_def e'_def markWALFailure_def)
  have "o_Status (store e' r) = Rejected" "orders e' = orders e" "e_wal e' = Some w" by (simp_all add: e'_def markWALFailure_def)
  moreover have "replay (replay_record fuel 0) (w_file w) b0 =
      processOrder fuel (nextref b) (snd (alloc ((store e r)\<lparr>o_CreatedAt := clock e, o_UpdatedAt := clock e\<rparr>) (b\<lparr>e_nuuid := Suc (e_nuuid b)\<rparr>)))"
    unfolding f replay_append b by (simp add: replay_one [OF v(1) e(5) rc_def] obind_Done)
  moreover have "timeless ((store e r)\<lparr>o_CreatedAt := clock e, o_UpdatedAt := clock e\<rparr>) = timeless (store e r)" by (simp add: timeless_def)
  ultimately show ?thesis using p by blast
qed

section \<open>Examples\<close>

lemma placed_loggable:
  assumes "order_of_request uuid now userID pair r = Inr v" "short_decimal (pq_Price r)" "short_decimal (pq_StopPx r)" "short_decimal (pq_Quantity r)" "plain v"
  shows "loggable (v\<lparr>o_Pair := p\<rparr>)"
  using recovered_placed [OF assms(1-4)] assms(5) by (simp add: loggable_def plain_def)

definition demo_fresh :: engine where
  "demo_fresh = SetWAL (Some (NewWALWriter [] (1, 0) 0)) (NewMatchingEngine (\<lambda>r. demo_placed) (\<lambda>n. ''t'') ''BTC/USDT'')"

definition demo_rounds :: "(int \<times> round) list" where
  "demo_rounds = [(6, Batch [demo_placed])]"

lemma demo_loggable: "loggable demo_placed"
proof -
  have "loggable (demo_placed\<lparr>o_Pair := o_Pair demo_placed\<rparr>)"
    by (rule placed_loggable [OF demo_requested]) (simp_all add: demo_request_def demo_short demo_placed_def NewOrder_def plain_def)
  then show ?thesis by simp
qed

lemma demo_placed_simps: "demo_placed = \<lparr>o_ID = ''o1'', o_ClientOrderID = [], o_UserID = ''bob'', o_Pair = ''BTC/USDT'', o_Side = Buy,
      o_Type = Limit, o_Price = Some (BF 128 100), o_StopPrice = None,
      o_Quantity = Some (BF 128 2), o_FilledQty = newBigFloat,
      o_RemainingQty = Some (BF 128 2), o_IcebergQty = None, o_VisibleQty = None,
      o_TIF = GTC, o_Status = New, o_CreatedAt = 5, o_UpdatedAt = 5, o_STP = STPDisabled,
      o_PostOnly = False, o_bookSeq = 0, o_done = NoChan, o_Err = None\<rparr>"
  by (simp add: demo_placed_def NewOrder_def newBigFloatCopy_def bf_set_def newBigFloat_def DefaultPrecision_def)

lemma demo_log_run: "\<exists>e w. run_rounds 2 demo_rounds demo_fresh = Done e \<and> e_wal e = Some w \<and> orders e = [(''o1'', 0)] \<and> bids e = [0]"
  by (simp add: demo_rounds_def demo_fresh_def SetWAL_def NewMatchingEngine_def book.extend_def NewOrderBook_def NewWALWriter_def countWALRecords_def alloc_def
      processOrder_def AppendOrder_def AppendRecord_def wal_append_def maybeSync_def Let_def dispatch_def matchLimitLocked_def numeral_2_eq_2 demo_placed_simps ready_def
      rem_q_def bestOppositeLocked_def bestAskLocked_def bestLocked_def side_heap_def set_side_heap_def addLocked_def next_seq_def upd_order_def indexAdd_def hpush_def hup.simps
      set_status_def close_done_def triggerStops_def del: add_line.simps)

definition demo_next :: "wal_line list \<Rightarrow> exchange" where
  "demo_next ls = \<lparr>ex_engines = [], ex_risk = None, ex_walDir = ''wal'', ex_snapshotDir = [], ex_wals = [(path_join ''wal'' (walFileName ''BTC/USDT''), ls)],
     ex_snaps = [], ex_faults = [], ex_policy = (1, 0), ex_now = 9, ex_uuid = (\<lambda>pair n. ''u''), ex_memory = (\<lambda>r. demo_placed)\<rparr>"

lemma demo_market: "normalizePair ''BTC/USDT'' = ''BTC/USDT''"
  by code_simp

theorem restart_reproduces_book_witness:
  "\<exists>(w :: wal_writer) p ex. RegisterPair 2 ''BTC/USDT'' 4 (demo_next (w_file w)) = Done (Inr p, ex) \<and> orders (pe_engine p) = [(''o1'', 0)] \<and> bids (pe_engine p) = [0]"
proof -
  obtain e w where e: "run_rounds 2 demo_rounds demo_fresh = Done e" "e_wal e = Some w" "orders e = [(''o1'', 0)]" "bids e = [0]"
    using demo_log_run by blast
  obtain rb :: "order ring" where rb: "NewRingBuffer 4 = Some rb" using NewRingBuffer_shaped [of 4] by auto
  have m: "ex_memory (demo_next (w_file w)) = (\<lambda>r. demo_placed)" by (simp add: demo_next_def)
  have "\<exists>p. RegisterPair 2 ''BTC/USDT'' 4 (demo_next (w_file w)) =
      Done (Inr p, (demo_next (w_file w))\<lparr>ex_engines := gm_put ''BTC/USDT'' p (ex_engines (demo_next (w_file w)))\<rparr>) \<and> twin e (pe_engine p)"
    by (rule restart_reproduces_book [OF e(1) [unfolded demo_fresh_def, folded m]])
      (simp_all add: demo_rounds_def demo_loggable demo_next_def demo_market rb e(2))
  then obtain p ex where p: "RegisterPair 2 ''BTC/USDT'' 4 (demo_next (w_file w)) = Done (Inr p, ex)" "twin e (pe_engine p)" by blast
  have "orders (pe_engine p) = [(''o1'', 0)]" "bids (pe_engine p) = [0]" using twin_fields(2,4) [OF p(2)] e(3,4) by simp_all
  with p(1) show ?thesis by blast
qed

lemma demo_fresh_rest: "at_rest demo_fresh"
  by (auto simp: at_rest_def demo_fresh_def SetWAL_def NewMatchingEngine_def book.extend_def NewOrderBook_def book_wf_def side_ok_def orders_ok_def
      unique_ids_def index_ok_def indexed_def alloc_ok_def heap_refs_def side_heap_def heap_upto_def)

theorem snapshot_loses_order_witness:
  "\<exists>(w :: wal_writer) s f. AppendOrder NoFault 6 demo_placed (Some (NewWALWriter [] (1, 0) 0)) = (None, Some w) \<and>
    s = json_snapshot (engine_Snapshot (demo_fresh\<lparr>e_wal := Some w\<rparr>) (demo_fresh\<lparr>e_wal := Some w\<rparr>)) \<and>
    (\<exists>r \<in> set (lines_of (w_file w)). wr_Op r = ''order'' \<and> wr_OrderID r = ''o1'') \<and>
    engine_Restore (Some s) demo_fresh = Done f \<and> replayWAL 2 (w_file w) (es_LastWALSeq s) f = Done f \<and> gm_get (orders f) ''o1'' = None"
proof -
  let ?w0 = "NewWALWriter [] (1, 0) 0"
  have w0: "\<not> w_bwerr ?w0" "ended (w_file ?w0)" "w_file ?w0 = []" by (simp_all add: NewWALWriter_def ended_def)
  obtain w where w: "AppendOrder NoFault 6 demo_placed (Some ?w0) = (None, Some w)"
      "w_file w = w_file ?w0 @ [Line ((order_record demo_placed)\<lparr>wr_Seq := w_seq ?w0 + 1, wr_Timestamp := 6\<rparr>)]"
    using append_clean [OF w0(1,2), of 6 "order_record demo_placed"] unfolding AppendOrder_def by blast
  have i: "o_ID demo_placed = ''o1''" by (simp add: demo_placed_def NewOrder_def)
  have n: "gm_get (orders demo_fresh) (o_ID demo_placed) = None" by (simp add: demo_fresh_def SetWAL_def NewMatchingEngine_def book.extend_def NewOrderBook_def)
  have l: "length (lines_of (w_file w)) < 2 ^ 64" by (simp add: w(2) w0(3))
  from snapshot_loses_order [OF demo_fresh_rest n w0(1) NewWALWriter_numbered_empty w(1) l refl, of demo_fresh 2] w(1) show ?thesis
    unfolding i by blast
qed

theorem rejected_order_replayed_witness:
  "\<exists>e (w :: wal_writer). processOrder 2 0 ((snd (alloc demo_placed demo_fresh))\<lparr>e_io := SyncFault\<rparr>) = Done e \<and> o_Status (store e 0) = Rejected \<and> orders e = [] \<and>
    e_wal e = Some w \<and> (\<exists>v. timeless v = timeless demo_placed \<and>
    replay (replay_record 2 0) (w_file w) demo_fresh = processOrder 2 0 (snd (alloc v (demo_fresh\<lparr>e_nuuid := 1\<rparr>))))"
proof -
  let ?e = "(snd (alloc demo_placed demo_fresh))\<lparr>e_io := SyncFault\<rparr>" and ?w0 = "NewWALWriter [] (1, 0) 0"
  have e: "e_wal ?e = Some ?w0" "store ?e 0 = demo_placed" "orders ?e = []" "nextref demo_fresh = 0" "e_nuuid demo_fresh = 0"
    by (simp_all add: alloc_def demo_fresh_def SetWAL_def NewMatchingEngine_def book.extend_def NewOrderBook_def)
  have w: "\<not> w_bwerr ?w0" "ended (w_file ?w0)" "w_seq ?w0 = of_nat 0" "w_syncEvery ?w0 \<le> 1" "w_file ?w0 = []"
    by (simp_all add: NewWALWriter_def ended_def countWALRecords_def)
  have v: "loggable (store ?e 0)" "o_done (store ?e 0) = NoChan" unfolding e(2) by (simp_all add: demo_loggable) (simp add: demo_placed_def NewOrder_def)
  have "\<exists>e' w v. processOrder 2 0 ?e = Done e' \<and> o_Status (store e' 0) = Rejected \<and> orders e' = orders ?e \<and> e_wal e' = Some w \<and>
    timeless v = timeless (store ?e 0) \<and>
    replay (replay_record 2 0) (w_file w) demo_fresh = processOrder 2 (nextref demo_fresh) (snd (alloc v (demo_fresh\<lparr>e_nuuid := Suc (e_nuuid demo_fresh)\<rparr>)))"
    by (rule rejected_order_replayed [OF e(1) w(1-3) _ w(4) _ v]) (simp_all add: w(5))
  then show ?thesis unfolding e by auto
qed

end
