(* ===== verification/Trading_Properties.thy ===== *)
theory Trading_Properties
  imports Order_Recovery Wallet_Properties
begin

text \<open>
  What trading as a whole does to the wallet: whatever orders are placed, cancelled, matched and settled, in whatever order and with whatever failures of
  the database, no asset is created and no wallet holds less than what is locked in it. Then what happens to the money of an order when a step
  of this chain fails.
\<close>

section \<open>Money in a wallet service\<close>

text \<open>The amount of an asset in all wallets.\<close>

definition total_of :: "wsvc \<Rightarrow> string \<Rightarrow> rat" where
  "total_of s a = held {k. svc_bal s k \<noteq> 0} a (svc_bal s)"

lemma finite_support: "finite {k. svc_bal s k \<noteq> 0}"
proof (cases "ws_store s")
  case (Some db)
  have "gm_get m k = Some v \<Longrightarrow> k \<in> fst ` set m" for m :: "(wallet_key, wallet_row) gomap" and k v
    using weak_map_of_SomeI map_of_SomeD by (force simp: image_iff)
  then have "{k. svc_bal s k \<noteq> 0} \<subseteq> fst ` set (db_wallets db)"
    by (auto simp: svc_bal_def Some bal_def split: option.splits)
  then show ?thesis by (rule finite_subset) simp
qed (simp add: svc_bal_def)

lemma total_of_on: "finite K \<Longrightarrow> {k. svc_bal s k \<noteq> 0} \<subseteq> K \<Longrightarrow> held K a (svc_bal s) = total_of s a"
  unfolding total_of_def held_def by (rule sum.mono_neutral_right) auto

definition sane_fees :: "(string \<Rightarrow> fee_config) \<Rightarrow> bool" where
  "sane_fees f \<longleftrightarrow> (\<forall>p t. (fc_TakerRate (f p) = Some t \<longrightarrow> 0 \<le> bval t) \<and> (fc_MakerRate (f p) = Some t \<longrightarrow> 0 \<le> bval t))"

definition sound :: "wsvc \<Rightarrow> bool" where
  "sound s \<longleftrightarrow> sane_fees (ws_fees s) \<and> solvent (svc_bal s) (svc_lck s)"

text \<open>A step that neither creates an asset nor overdraws a wallet.\<close>

definition careful :: "wsvc \<Rightarrow> wsvc \<Rightarrow> bool" where
  "careful s s' \<longleftrightarrow> (sound s \<longrightarrow> sound s' \<and> (\<forall>a. total_of s' a \<le> total_of s a))"

lemma careful_refl [simp]: "careful s s"
  by (simp add: careful_def)

lemma careful_trans: "careful s s1 \<Longrightarrow> careful s1 s2 \<Longrightarrow> careful s s2"
  by (auto simp: careful_def intro: order_trans)

lemma careful_money: "svc_bal s' = svc_bal s \<Longrightarrow> svc_lck s' = svc_lck s \<Longrightarrow> ws_fees s' = ws_fees s \<Longrightarrow> careful s s'"
  by (simp add: careful_def sound_def total_of_def)

lemma careful_same: "ws_store s' = ws_store s \<Longrightarrow> ws_fees s' = ws_fees s \<Longrightarrow> careful s s'"
  using money_of_store [of s' s] by (simp add: careful_money)

section \<open>The calls of the wallet\<close>

lemma fees_frame [simp]:
  "ws_fees (best_effort f s) = ws_fees s" "ws_fees (syncReservationsL2 is s) = ws_fees s" "ws_fees (hydrate i s) = ws_fees s"
  "ws_fees (put_back i r u s) = ws_fees s" "ws_fees (warnSharedOnce s) = ws_fees s" "ws_store (warnSharedOnce s) = ws_store s"
proof -
  show w: "ws_fees (warnSharedOnce s) = ws_fees s" "ws_store (warnSharedOnce s) = ws_store s" for s
    by (simp_all add: warnSharedOnce_def)
  show b: "ws_fees (best_effort f s) = ws_fees s" for f s
    by (auto simp: best_effort_def warnSharedOnce_def split: option.splits prod.splits)
  show "ws_fees (syncReservationsL2 is s) = ws_fees s"
    by (induction "is" s rule: syncReservationsL2.induct) (simp_all add: b)
  show "ws_fees (hydrate i s) = ws_fees s" by (auto simp: hydrate_def warnSharedOnce_def split: option.splits prod.splits)
  show "ws_fees (put_back i r u s) = ws_fees s" by (auto simp: put_back_def split: option.splits)
qed

lemma on_db_fees: "on_db m s = (r, s') \<Longrightarrow> ws_fees s' = ws_fees s"
  by (auto simp: on_db_def split: option.splits prod.splits)

lemma take_reserved_fees: "take_reserved i a w s = (r, u, s') \<Longrightarrow> ws_fees s' = ws_fees s"
  by (auto simp: take_reserved_def Let_def split: option.splits if_splits)

lemma careful_settle:
  assumes o: "on_db (pg_Settle ops ts) s = (r, s')" and un: "\<forall>p \<in> set ops. 0 \<le> un p" and flow: "\<And>a. flow a ops \<le> 0"
  shows "careful s s'"
proof -
  define K where "K = {k. svc_bal s k \<noteq> 0} \<union> {k. svc_bal s' k \<noteq> 0} \<union> op_key ` set ops"
  have fin: "finite K" using finite_support [of s] finite_support [of s'] by (simp add: K_def)
  have K: "op_key ` set ops \<subseteq> K" "{k. svc_bal s k \<noteq> 0} \<subseteq> K" "{k. svc_bal s' k \<noteq> 0} \<subseteq> K" by (auto simp: K_def)
  have "total_of s' a \<le> total_of s a" for a
    using svc_ledger.settle_total [OF o fin K(1), of a] flow [of a] total_of_on [OF fin K(2), of a] total_of_on [OF fin K(3), of a]
    by (simp split: sum.splits)
  then show ?thesis using svc_ledger.settle_keeps_solvent [OF o un] on_db_fees [OF o] by (simp add: careful_def sound_def)
qed

lemma careful_ReleaseOrder: "careful s (snd (svc_ReleaseOrder i u s))"
proof (cases "no_store s")
  case False
  obtain r s1 where f: "find_reservation i s = (r, s1)" by fastforce
  have s1: "careful s s1"
    using f by (intro careful_same) (auto simp: find_reservation_def split: option.splits prod.splits)
  show ?thesis
  proof (cases "\<exists>v. r = Some v \<and> 0 < bf_sign (rv_remaining v)")
    case True
    then obtain v where v: "r = Some v" "0 < bf_sign (rv_remaining v)" by blast
    obtain q s2 where o: "on_db (pg_Settle [unlock_op u (rv_asset v) (rv_remaining v)] []) s1 = (q, s2)" by fastforce
    have "0 \<le> numeric (rv_remaining v)" using v(2) by (intro numeric_nonneg) (simp add: bf_sign_def sgn_if split: if_splits)
    then have "careful s1 s2" by (intro careful_settle [OF o]) (simp_all add: unlock_op_def un_def dn_def)
    moreover have "careful s2 (snd (svc_ReleaseOrder i u s))"
      using False f v o by (intro careful_same) (auto simp: svc_ReleaseOrder_def abind_def split: sum.splits)
    ultimately show ?thesis using s1 careful_trans by blast
  next
    case no: False
    then have "snd (svc_ReleaseOrder i u s) = s1" using False f by (auto simp: svc_ReleaseOrder_def split: option.splits)
    then show ?thesis using s1 by simp
  qed
qed (simp add: svc_ReleaseOrder_def)

lemma ReserveForOrder_safe:
  assumes "ReserveForOrder u a (Some x) db = (r, db')" "0 < bval x"
  shows "bal db' = bal db \<and> (solvent (bal db) (lck db) \<longrightarrow> solvent (bal db') (lck db'))"
proof -
  have n: "ValidAccountType (NormalizeAccountType AccountSpot)" by (simp add: NormalizeAccountType_def ValidAccountType_def AccountSpot_def)
  let ?k = "(u, a, NormalizeAccountType AccountSpot)"
  have "0 \<le> numeric x" using assms(2) by (simp add: numeric_nonneg)
  moreover have "same_money db db' \<or> numeric x \<le> bal db ?k - lck db ?k \<and> bal db' = bal db \<and> lck db' = (lck db)(?k := lck db ?k + numeric x)"
    using ReserveForAccount_money [OF assms(1) [unfolded ReserveForOrder_def] assms(2) n] by blast
  ultimately show ?thesis by (auto simp: same_money_def solvent_def)
qed

lemma careful_ReserveOrder: "careful s (snd (svc_ReserveOrder i u pair sd ty price qty s))"
proof (cases "no_store s \<or> (\<exists>q. qty = Some q \<and> (bf_sign q \<le> 0 \<or> (\<forall>a x. reserve_plan (ws_fees s) pair sd ty price q \<noteq> Inr (Some (a, x))))) \<or> qty = None")
  case True
  then have "snd (svc_ReserveOrder i u pair sd ty price qty s) = s"
    by (auto simp: svc_ReserveOrder_def split: option.splits sum.splits prod.splits)
  then show ?thesis by simp
next
  case False
  then obtain q a x where q: "qty = Some q" "\<not> bf_sign q \<le> 0" "reserve_plan (ws_fees s) pair sd ty price q = Inr (Some (a, x))" "\<not> no_store s"
    by auto
  obtain r s1 where o: "on_db (ReserveForOrder u a (Some x)) s = (r, s1)" by fastforce
  have m: "svc_bal s1 = svc_bal s \<and> (solvent (svc_bal s) (svc_lck s) \<longrightarrow> solvent (svc_bal s1) (svc_lck s1))"
  proof (cases "0 < bval x")
    case True
    from o show ?thesis
      by (cases rule: on_db_cases) (use True in \<open>auto simp: svc_store_eq dest: ReserveForOrder_safe\<close>)
  next
    case False
    then have "ReserveForOrder u a (Some x) db = (Inl e, db') \<Longrightarrow> db' = db" for db e db'
      by (auto simp: ReserveForOrder_def ReserveForAccount_def Let_def bf_sign_def sgn_if split: if_splits)
    moreover have "ReserveForOrder u a (Some x) db \<noteq> (Inr w, db')" for db w db'
      using ReserveForOrder_money False by blast
    ultimately have "ReserveForOrder u a (Some x) db = (r', db') \<Longrightarrow> db' = db" for db r' db' by (cases r') blast+
    then have same: "ReserveForOrder u a (Some x) db = (r', db') \<Longrightarrow> db' = db" for db r' db' by blast
    from o show ?thesis by (cases rule: on_db_cases) (use same in \<open>auto simp: svc_store_eq\<close>)
  qed
  then have "careful s s1" using on_db_fees [OF o] by (auto simp: careful_def sound_def total_of_def)
  moreover have "careful s1 (snd (svc_ReserveOrder i u pair sd ty price qty s))"
    using q o by (intro careful_same) (auto simp: svc_ReserveOrder_def abind_def split: sum.splits)
  ultimately show ?thesis by (rule careful_trans)
qed

lemma settle_claimed_fees:
  assumes "settle_claimed i c bq os us n q bf sf s = (r, s')"
  shows "ws_fees s' = ws_fees s"
  using assms
  by (auto simp: settle_claimed_def Let_def dest!: take_reserved_fees on_db_fees split: prod.splits sum.splits if_splits)

lemma careful_settle_claimed:
  assumes "settle_claimed fillID claimed (base, quote) (bo, so) (bu, su) n qty bf sf s = (r, s')" "bf_ok n" "0 \<le> bval bf" "0 \<le> bval sf"
  shows "careful s s'"
proof -
  obtain s4 s5 ts x y where o: "ws_store s4 = ws_store s"
      "on_db (pg_Settle (fill_ops base quote bu su qty (bf_add new_float n bf) (bf_sub new_float n sf) x y) ts) s4 = (r, s5)"
      "ws_store s' = ws_store s5"
    by (rule settle_claimed_store [OF assms(1)])
  define t4 where "t4 = s4\<lparr>ws_fees := ws_fees s\<rparr>"
  have "on_db (pg_Settle (fill_ops base quote bu su qty (bf_add new_float n bf) (bf_sub new_float n sf) x y) ts) t4 = (r, s5\<lparr>ws_fees := ws_fees s\<rparr>)"
    using o(2) by (auto simp: on_db_def t4_def split: option.splits prod.splits)
  moreover have "numeric (bf_sub new_float n sf) \<le> numeric (bf_add new_float n bf)"
    using add_fee_ge(1) [OF assms(2,3)] add_fee_ge(2) [OF assms(2,4)] by (intro numeric_mono) linarith
  ultimately have "careful t4 (s5\<lparr>ws_fees := ws_fees s\<rparr>)"
    using fill_ops_facts(1) by (intro careful_settle) (assumption, blast, simp add: fill_ops_facts(3))
  moreover have "careful s t4" by (rule careful_same) (simp_all add: t4_def o(1))
  moreover have "careful (s5\<lparr>ws_fees := ws_fees s\<rparr>) s'" using o(3) settle_claimed_fees [OF assms(1)] by (intro careful_same) simp_all
  ultimately show ?thesis using careful_trans by blast
qed

lemma careful_SettleFill:
  assumes "sane_fees (ws_fees s)"
  shows "careful s (snd (svc_SettleFill i pair sd to' mo tu mu price qty s))"
proof -
  obtain r s' where e: "svc_SettleFill i pair sd to' mo tu mu price qty s = (r, s')" by fastforce
  obtain c s1 where c: "claim_fill i s = (c, s1)" by fastforce
  note f1 = claim_fill_frame [OF c]
  have s1: "careful s s1" using f1 by (intro careful_same) simp_all
  show ?thesis
  proof (cases "\<exists>p q b bq tr mr. \<not> no_store s \<and> price = Some p \<and> qty = Some q \<and> 0 < bf_sign q \<and> 0 < bf_sign p \<and> c = Claimed b \<and> SplitPair pair = Some bq \<and>
      fc_TakerRate (ws_fees s pair) = Some tr \<and> fc_MakerRate (ws_fees s pair) = Some mr")
    case True
    then obtain p q b base quote tr mr where t: "\<not> no_store s" "price = Some p" "qty = Some q" "0 < bf_sign q" "0 < bf_sign p" "c = Claimed b"
      "SplitPair pair = Some (base, quote)" "fc_TakerRate (ws_fees s pair) = Some tr" "fc_MakerRate (ws_fees s pair) = Some mr" by auto
    let ?n = "bf_mul new_float p q"
    have pos: "0 \<le> bval (bf_mul new_float ?n tr)" "0 \<le> bval (bf_mul new_float ?n mr)"
      using t(4,5,8,9) assms unfolding sane_fees_def bf_mul_def by (auto intro!: fround_nonneg mult_nonneg_nonneg)
    have "careful s1 s'"
    proof (cases "sd = -1")
      case True
      then have "settle_claimed i b (base, quote) (mo, to') (mu, tu) ?n q (bf_mul new_float ?n mr) (bf_mul new_float ?n tr) s1 = (r, s')"
        using e t c f1 by (simp add: svc_SettleFill_def Let_def)
      then show ?thesis by (rule careful_settle_claimed [OF _ _ pos(2,1)]) simp
    next
      case False
      then have "settle_claimed i b (base, quote) (to', mo) (tu, mu) ?n q (bf_mul new_float ?n tr) (bf_mul new_float ?n mr) s1 = (r, s')"
        using e t c f1 by (simp add: svc_SettleFill_def Let_def)
      then show ?thesis by (rule careful_settle_claimed [OF _ _ pos]) simp
    qed
    then show ?thesis using careful_trans [OF s1] e by simp
  next
    case False
    then have "s' = s \<or> s' = s1"
      using e c f1 by (auto simp: svc_SettleFill_def Let_def split: option.splits if_splits claim.splits)
    then show ?thesis using s1 e by auto
  qed
qed

section \<open>Steps of the venue\<close>

text \<open>The wallet of the venue, before and after.\<close>

definition guarded :: "venue \<Rightarrow> venue \<Rightarrow> bool" where
  "guarded s s' \<longleftrightarrow> (\<forall>w. vn_wallet s = Some w \<longrightarrow> (\<exists>w'. vn_wallet s' = Some w' \<and> careful w w'))"

lemma guarded_same [simp]: "vn_wallet s' = vn_wallet s \<Longrightarrow> guarded s s'"
  by (simp add: guarded_def)

lemma guarded_trans: "guarded s s1 \<Longrightarrow> guarded s1 s2 \<Longrightarrow> guarded s s2"
  unfolding guarded_def by (blast intro: careful_trans)

lemma guarded_on_wallet: "(\<And>w. careful w (snd (m w))) \<Longrightarrow> guarded s (snd (on_wallet m s))"
  by (simp add: guarded_def on_wallet_def split: option.split prod.split sum.split) (metis snd_conv)

lemma on_orders_wallet [simp]: "vn_wallet (snd (on_orders m s)) = vn_wallet s"
  by (auto simp: on_orders_def split: option.splits prod.splits sum.splits)

lemma on_orders_same: "on_orders m s = (x, t) \<Longrightarrow> vn_wallet t = vn_wallet s"
  using on_orders_wallet [of m s] by simp

lemma guarded_release: "vn_wallet s1 = vn_wallet s \<Longrightarrow> guarded s (snd (on_wallet (svc_ReleaseOrder i u) s1))"
  by (rule guarded_trans [OF guarded_same guarded_on_wallet [OF careful_ReleaseOrder]])

lemma guarded_release_ex [simp]: "guarded s (snd (on_wallet (svc_ReleaseOrder i u) (s\<lparr>vn_exchange := ex\<rparr>)))"
  by (simp add: guarded_release)

lemma exch_wallet [simp]: "vn_wallet (s\<lparr>vn_exchange := ex\<rparr>) = vn_wallet s"
  by simp

lemma guarded_submit: "submit_order fuel v s = Done (x, s') \<Longrightarrow> guarded s s'"
  by (auto simp: submit_order_def Let_def obind_eq_Done split: option.splits prod.splits)

lemma guarded_PlaceOrder:
  assumes "PlaceOrder fuel u r s = Done (x, s')"
  shows "guarded s s'"
proof (cases "vn_wallet s' = vn_wallet s")
  case False
  then obtain v q s1 where q: "on_wallet (reserve_order v r) (s\<lparr>vn_nid := Suc (vn_nid s)\<rparr>) = (q, s1)"
      "(q \<noteq> None \<and> s' = s1) \<or> submit_order fuel v (snd (on_orders (po_Save v) s1)) = Done (x, s')"
    using assms by (auto simp: PlaceOrder_def Let_def split: if_splits sum.splits option.splits prod.splits)
  have "guarded s s1"
    using guarded_trans [OF guarded_same guarded_on_wallet, of "s\<lparr>vn_nid := Suc (vn_nid s)\<rparr>" s "reserve_order v r"] q(1)
    by (simp add: reserve_order_def careful_ReserveOrder)
  moreover have "guarded s1 s'"
    using q(2) guarded_trans [OF guarded_same guarded_submit, of "snd (on_orders (po_Save v) s1)" s1] by auto
  ultimately show ?thesis by (rule guarded_trans)
qed simp

lemma guarded_eq: "guarded s t \<Longrightarrow> vn_wallet t' = vn_wallet t \<Longrightarrow> guarded s t'"
  by (simp add: guarded_def)

lemma guarded_api_CancelOrder:
  assumes "api_CancelOrder u i query s = Done (x, s')"
  shows "guarded s s'"
proof -
  have "vn_wallet s' = vn_wallet s \<or> (\<exists>ex. vn_wallet s' = vn_wallet (snd (on_wallet (svc_ReleaseOrder i u) (s\<lparr>vn_exchange := ex\<rparr>))))"
    using assms unfolding api_CancelOrder_def Let_def
    by (simp split: if_splits sum.splits prod.splits) (metis exch_wallet on_orders_wallet prod.collapse snd_conv)+
  then show ?thesis using guarded_eq [OF guarded_release_ex] by auto
qed

lemma guarded_cancel_orders: "guarded s (snd (cancel_orders u pair is n s))"
proof (induction "is" arbitrary: n s)
  case (Cons i "is")
  show ?case
  proof (cases "gm_get (ex_engines (vn_exchange s)) pair")
    case (Some p)
    obtain q e1 where q: "processCancel i u (pe_engine p) = (q, e1)" by fastforce
    define t where "t = s\<lparr>vn_exchange := set_engine pair (p\<lparr>pe_engine := e1\<rparr>) (vn_exchange s)\<rparr>"
    have t: "guarded s t" "guarded s (snd (on_wallet (svc_ReleaseOrder i u) t))" by (simp_all add: t_def guarded_release)
    show ?thesis using guarded_trans [OF t(1) Cons.IH] guarded_trans [OF t(2) Cons.IH] by (cases q) (simp_all add: Some q t_def)
  qed simp
qed simp

lemma guarded_cancel_pairs: "guarded s (snd (cancel_pairs u ps n s))"
proof (induction ps arbitrary: n s)
  case (Cons pair ps)
  show ?case
  proof (cases "gm_get (ex_engines (vn_exchange s)) pair")
    case (Some p)
    let ?is = "map (\<lambda>r. o_ID (store (pe_engine p) r)) (GetOrdersByUser u (pe_engine p))"
    obtain n1 s1 where q: "cancel_orders u pair ?is n s = (n1, s1)" by fastforce
    have "guarded s s1" using guarded_cancel_orders [of s u pair ?is n] q by simp
    then show ?thesis using guarded_trans [OF _ Cons.IH] by (simp add: Some q Let_def)
  qed (simp add: Cons.IH)
qed simp

lemma guarded_deliver_fill:
  assumes "\<forall>w. vn_wallet s = Some w \<longrightarrow> sane_fees (ws_fees w)"
  shows "guarded s (deliver_fill f s)"
proof -
  have r: "guarded t (release_filled b i u t)" for b i u t
    by (simp add: release_filled_def guarded_on_wallet careful_ReleaseOrder)
  have m: "careful w (snd (svc_SettleFill a1 a2 a3 a4 a5 a6 a7 a8 a9 w))" if "vn_wallet s = Some w" for w a1 a2 a3 a4 a5 a6 a7 a8 a9
    using assms that by (simp add: careful_SettleFill)
  have f: "guarded s (settle_fill f s)"
  proof (cases "vn_wallet s")
    case (Some w)
    then show ?thesis using m [OF Some] by (simp add: guarded_def settle_fill_def on_wallet_def split: prod.split sum.split) (metis snd_conv)
  qed (simp add: guarded_def)
  define t where "t = (settle_fill f s)\<lparr>vn_pnl := map_option (RecordFill (Some f)) (vn_pnl (settle_fill f s))\<rparr>"
  have "guarded s t" using f by (rule guarded_eq) (simp add: t_def)
  then show ?thesis using guarded_trans [OF _ guarded_trans [OF r r]] by (simp add: deliver_fill_def Let_def t_def)
qed

section \<open>Trading creates nothing\<close>

text \<open>
  One step of the venue: a call of the handler, a round of an engine, a trade or a fill that the bridge takes, or anything outside that leaves the money of the
  wallet as it is (time passes, statements of the database start or stop failing, another instance writes to the shared store, the program is
  started again with whatever books and queues).
\<close>

inductive venue_step :: "venue \<Rightarrow> venue \<Rightarrow> bool" where
  placing: "PlaceOrder fuel u r s = Done (x, t) \<Longrightarrow> venue_step s t"
| cancelling: "api_CancelOrder u i query s = Done (y, t) \<Longrightarrow> venue_step s t"
| cancelling_all: "CancelAllOrders u s = (n, t) \<Longrightarrow> venue_step s t"
| listing: "api_GetOrder u i s = (g, t) \<Longrightarrow> venue_step s t"
| listing_all: "api_ListOrders u pair m k s = (h, t) \<Longrightarrow> venue_step s t"
| running: "venue_run fuel pair s = Done t \<Longrightarrow> venue_step s t"
| settling: "consumeFills pair s = t \<Longrightarrow> venue_step s t"
| trading: "consumeTrades pair s = t \<Longrightarrow> venue_step s t"
| outside: "vn_wallet s = Some w \<Longrightarrow> vn_wallet t = Some w' \<Longrightarrow> svc_bal w' = svc_bal w \<Longrightarrow> svc_lck w' = svc_lck w \<Longrightarrow> ws_fees w' = ws_fees w \<Longrightarrow> venue_step s t"

lemma venue_step_guarded:
  assumes "venue_step s t" "\<forall>w. vn_wallet s = Some w \<longrightarrow> sane_fees (ws_fees w)"
  shows "guarded s t"
  using assms(1)
proof cases
  case (cancelling_all u n)
  then show ?thesis using guarded_cancel_pairs [of s u "map fst (ex_engines (vn_exchange s))" 0]
    by (auto simp: CancelAllOrders_def split: if_splits prod.splits)
next
  case (listing u i g)
  then show ?thesis by (auto simp: api_GetOrder_def dest: on_orders_same split: if_splits prod.splits option.splits)
next
  case (listing_all u pair m k h)
  then show ?thesis by (auto simp: api_ListOrders_def dest: on_orders_same split: if_splits prod.splits option.splits)
next
  case (settling pair)
  show ?thesis
  proof (cases "vn_wallet t = vn_wallet s")
    case False
    then obtain f ex where t: "t = deliver_fill f (s\<lparr>vn_exchange := ex\<rparr>)"
      using settling by (auto simp: consumeFills_def split: option.splits list.splits)
    have "guarded (s\<lparr>vn_exchange := ex\<rparr>) t" unfolding t using assms(2) by (intro guarded_deliver_fill) simp
    then show ?thesis by (simp add: guarded_def)
  qed simp
next
  case (trading pair)
  then show ?thesis by (auto simp: consumeTrades_def deliver_trade_def Let_def split: option.splits list.splits)
next
  case (outside w w')
  then show ?thesis by (simp add: guarded_def careful_money)
qed (auto simp: venue_run_def obind_eq_Done intro: guarded_PlaceOrder guarded_api_CancelOrder)

lemma venue_steps_careful:
  assumes "venue_step\<^sup>*\<^sup>* s t" "vn_wallet s = Some w" "sound w"
  shows "\<exists>w'. vn_wallet t = Some w' \<and> sound w' \<and> (\<forall>a. total_of w' a \<le> total_of w a)"
  using assms(1)
proof induction
  case (step t t')
  then obtain w1 where w1: "vn_wallet t = Some w1" "sound w1" "\<forall>a. total_of w1 a \<le> total_of w a" by blast
  then have "guarded t t'" using step(2) by (intro venue_step_guarded) (auto simp: sound_def)
  then show ?case using w1 unfolding guarded_def careful_def by (meson order_trans)
qed (use assms in auto)

text \<open>
  C14: trading creates nothing and overdraws nobody. Whatever orders are placed and cancelled, whatever the engines match, and in whatever order trades and fills
  reach the wallet, with the database failing at any statement and the program starting again in between: if no wallet held less than what is locked in it
  and no fee rate is negative, then no wallet does afterwards, and of no asset is there more in all wallets together than there was.
\<close>

theorem trading_creates_nothing:
  assumes "venue_step\<^sup>*\<^sup>* s t" "vn_wallet s = Some w" "sane_fees (ws_fees w)" "solvent (svc_bal w) (svc_lck w)"
  shows "\<exists>w'. vn_wallet t = Some w' \<and> solvent (svc_bal w') (svc_lck w') \<and> (\<forall>a. total_of w' a \<le> total_of w a)"
proof -
  obtain w' where "vn_wallet t = Some w'" "sound w'" "\<forall>a. total_of w' a \<le> total_of w a"
    using venue_steps_careful [OF assms(1,2)] assms(3,4) unfolding sound_def by blast
  then show ?thesis by (auto simp: sound_def)
qed

section \<open>An order that is not accepted\<close>

lemma quiet_unlock: "db_faults db = [] \<Longrightarrow> fst (pg_Settle [unlock_op u a x] [] db) = Inr ()"
  by (simp add: store_defs unlock_op_def Let_def split: option.split)

lemma quiet_reserve: "db_faults db = [] \<Longrightarrow> ReserveForOrder u a (Some x) db = (r, db') \<Longrightarrow> db_faults db' = []"
  by (auto simp: store_defs ReserveForOrder_def ReserveForAccount_def GetWalletForAccount_def reserve_row_def Let_def split: option.splits if_splits)

lemma placed_parts:
  assumes "order_of_request uuid now u pair r = Inr v"
  shows "o_ID v = uuid" "o_UserID v = u" "o_Pair v = pair" "named_type (pq_Type r) = Some (o_Type v)"
  using assms by (cases rule: order_of_request_cases; simp add: NewOrder_def)+

lemma request_refused: "order_of_request uuid now u pair r \<noteq> Inl (NotSubmitted e)"
  by (auto simp: order_of_request_def split: option.splits)

lemma on_wallet_run: "vn_wallet s = Some w \<Longrightarrow> vn_wallet (snd (on_wallet m s)) = Some (snd (m w))"
  by (auto simp: on_wallet_def split: prod.splits sum.splits)

lemma PlaceOrder_parts:
  assumes "PlaceOrder fuel u r s = Done (x, s')" "vn_wallet s = Some w" "\<forall>e. x = Inl e \<longrightarrow> (\<exists>e'. e = NotSubmitted e')"
  obtains v w1 s2 where "order_of_request (vn_ids s (vn_nid s)) (ex_now (vn_exchange s)) u (api_normalizePair (pq_Pair r)) r = Inr v"
    "reserve_order v r w = (Inr (), w1)" "vn_wallet s2 = Some w1" "submit_order fuel v s2 = Done (x, s')"
proof -
  from assms obtain v s1 where v: "order_of_request (vn_ids s (vn_nid s)) (ex_now (vn_exchange s)) u (api_normalizePair (pq_Pair r)) r = Inr v"
      "on_wallet (reserve_order v r) (s\<lparr>vn_nid := Suc (vn_nid s)\<rparr>) = (None, s1)" "submit_order fuel v (snd (on_orders (po_Save v) s1)) = Done (x, s')"
    by (auto simp: PlaceOrder_def Let_def split: if_splits sum.splits option.splits prod.splits) (metis request_refused)
  obtain w1 where "reserve_order v r w = (Inr (), w1)" "vn_wallet s1 = Some w1"
    using v(2) assms(2) by (auto simp: on_wallet_def split: prod.splits sum.splits)
  then show ?thesis using that [OF v(1) _ _ v(3)] by simp
qed

lemma reserve_then_release:
  assumes r: "svc_ReserveOrder i u pair sd ty price qty w = (Inr (), w1)" "ws_store w = Some db" "db_faults db = []"
    and i: "gm_get (ws_reservations w) i = None" "ws_shared w = None" and sol: "solvent (svc_bal w) (svc_lck w)"
  defines "w2 \<equiv> snd (svc_ReleaseOrder i u w1)"
  shows "svc_bal w2 = svc_bal w \<and> svc_lck w2 = svc_lck w \<and> gm_get (ws_reservations w2) i = None"
proof -
  have ns: "\<not> no_store w" by (simp add: no_store_def r(2))
  obtain q where q: "qty = Some q" "\<not> bf_sign q \<le> 0" using r(1) ns by (auto simp: svc_ReserveOrder_def split: option.splits if_splits)
  obtain plan where plan: "reserve_plan (ws_fees w) pair sd ty price q = Inr plan"
    using r(1) ns q by (auto simp: svc_ReserveOrder_def split: sum.splits)
  show ?thesis
  proof (cases plan)
    case None
    then have "w1 = w" using r(1) ns q plan by (simp add: svc_ReserveOrder_def)
    then show ?thesis using ns i by (simp add: w2_def svc_ReleaseOrder_def find_reservation_def)
  next
    case (Some ax)
    obtain a x where ax: "ax = (a, x)" by fastforce
    obtain v s0 where o: "on_db (ReserveForOrder u a (Some x)) w = (Inr v, s0)"
        "w1 = syncReservationsL2 [i] (s0\<lparr>ws_reservations := gm_put i \<lparr>rv_asset = a, rv_remaining = x\<rparr> (ws_reservations s0)\<rparr>)"
      using r(1) ns q plan Some ax by (auto simp: svc_ReserveOrder_def abind_def split: prod.splits sum.splits)
    obtain db' where db': "ws_store s0 = Some db'" "db_faults db' = []"
      using o(1) r(2,3) by (cases rule: on_db_cases) (auto dest: quiet_reserve)
    have "fst (svc_ReleaseOrder i u w1) = Inr ()"
      using db' quiet_unlock [OF db'(2), of u a x]
      by (auto simp: svc_ReleaseOrder_def o(2) no_store_def find_reservation_def abind_def on_db_def split: prod.splits sum.splits)
    then have "svc_ReleaseOrder i u w1 = (Inr (), w2)" by (simp add: w2_def prod_eq_iff)
    with reserved_released [OF _ ns _ this] r(1) q plan Some ax sol show ?thesis by (simp add: solvent_def)
  qed
qed

text \<open>
  C25: An order that the exchange refuses (the risk checks, a full queue, a log that cannot be opened) costs nothing, as long as the database answers, the wallet
  has no shared store, no wallet has more locked than it holds, and the order's identifier is new. What was reserved for it is released: every balance and every lock is as before the
  request, and no record of the reservation is left. When the database fails at the release, the amount stays locked: \<open>failed_release_strands_funds\<close>.
\<close>

theorem refused_order_refunded:
  assumes "PlaceOrder fuel u r s = Done (Inl (NotSubmitted e), s')" "vn_wallet s = Some w" "ws_store w = Some db" "db_faults db = []"
    and "gm_get (ws_reservations w) (vn_ids s (vn_nid s)) = None" "ws_shared w = None" "solvent (svc_bal w) (svc_lck w)"
  shows "\<exists>w'. vn_wallet s' = Some w' \<and> svc_bal w' = svc_bal w \<and> svc_lck w' = svc_lck w \<and> gm_get (ws_reservations w') (vn_ids s (vn_nid s)) = None"
proof (rule PlaceOrder_parts [OF assms(1,2)])
  fix v w1 s2
  assume v: "order_of_request (vn_ids s (vn_nid s)) (ex_now (vn_exchange s)) u (api_normalizePair (pq_Pair r)) r = Inr v"
    "reserve_order v r w = (Inr (), w1)" "vn_wallet s2 = Some w1" "submit_order fuel v s2 = Done (Inl (NotSubmitted e), s')"
  have "vn_wallet s' = Some (snd (svc_ReleaseOrder (o_ID v) (o_UserID v) w1))"
    using v(3,4) by (auto simp: submit_order_def obind_eq_Done Let_def on_wallet_run split: option.splits prod.splits)
  then show ?thesis
    using reserve_then_release [OF v(2) [unfolded reserve_order_def] assms(3,4) _ assms(6,7)] assms(5) placed_parts [OF v(1)] by simp
qed simp

section \<open>An order that nothing is reserved for\<close>

text \<open>
  C26: of the buy orders, only plain limit orders reserve money. A market, post-only, fill-or-kill, immediate-or-cancel or stop order to buy that is accepted has left the
  wallet exactly as it was, whatever the buyer owns; its fills are only checked when they are settled.
\<close>

theorem only_limit_buys_reserve:
  assumes "PlaceOrder fuel u r s = Done (Inr v, s')" "named_side (pq_Side r) = Some Buy" "named_type (pq_Type r) \<noteq> Some Limit"
  shows "vn_wallet s' = vn_wallet s"
proof (cases "vn_wallet s")
  case (Some w)
  show ?thesis
  proof (rule PlaceOrder_parts [OF assms(1) Some])
    fix v' w1 s2
    assume v: "order_of_request (vn_ids s (vn_nid s)) (ex_now (vn_exchange s)) u (api_normalizePair (pq_Pair r)) r = Inr v'"
      "reserve_order v' r w = (Inr (), w1)" "vn_wallet s2 = Some w1" "submit_order fuel v' s2 = Done (Inr v, s')"
    have sd: "o_Side v' = Buy" using v(1) assms(2) by (cases rule: order_of_request_cases) (simp add: NewOrder_def)
    have "sint (int8_of_type (o_Type v')) \<noteq> 0"
      using placed_parts(4) [OF v(1)] assms(3) by (auto simp: named_type_def split: if_splits)
    then have "w1 = w" using v(2) sd
      by (auto simp: reserve_order_def svc_ReserveOrder_def reserve_plan_def split: if_splits option.splits sum.splits prod.splits)
    then show ?thesis using v(3,4) Some by (auto simp: submit_order_def obind_eq_Done Let_def split: option.splits prod.splits)
  qed simp
next
  case None
  then have "on_wallet m t = (None, t)" if "vn_wallet t = None" for m t using that by (simp add: on_wallet_def)
  then show ?thesis using assms(1) None
    by (auto simp: PlaceOrder_def Let_def submit_order_def obind_eq_Done split: if_splits sum.splits option.splits prod.splits)
qed

section \<open>A fill that cannot be settled\<close>

lemma release_balance: "svc_bal (snd (svc_ReleaseOrder i u s)) = svc_bal s"
proof -
  obtain r s1 where f: "find_reservation i s = (r, s1)" by fastforce
  have s1: "ws_store s1 = ws_store s" using f by (auto simp: find_reservation_def split: option.splits prod.splits)
  have "svc_bal s2 = svc_bal s1" if o: "on_db (pg_Settle [unlock_op u a x] []) s1 = (q, s2)" for q s2 a x
  proof (cases q)
    case (Inr v)
    then show ?thesis using svc_ledger.settle_moves [of "[unlock_op u a x]" "[]" s1 v s2] o by (simp add: fun_eq_iff unlock_op_def dn_def)
  qed (use svc_ledger.settle_fails o in blast)
  then show ?thesis
    using f money_of_store [OF s1] money_of_store [of "best_effort _ _"]
    by (auto simp: svc_ReleaseOrder_def abind_def split: option.splits prod.splits sum.splits)
qed

lemma failed_SettleFill:
  assumes "svc_SettleFill i pair sd to' mo tu mu price qty s = (Inl e, s')"
  shows "svc_bal s' = svc_bal s"
proof -
  have claimed: "svc_bal s' = svc_bal s1" if c: "settle_claimed i b bq os us n q bf sf s1 = (Inl e, s')" for b bq os us n q bf sf s1
  proof -
    obtain ba qu bo so bu su where t: "bq = (ba, qu)" "os = (bo, so)" "us = (bu, su)" by (metis prod.collapse)
    obtain s4 s5 ts x y where o: "ws_store s4 = ws_store s1"
        "on_db (pg_Settle (fill_ops ba qu bu su q (bf_add new_float n bf) (bf_sub new_float n sf) x y) ts) s4 = (Inl e, s5)"
        "ws_store s' = ws_store s5"
      by (rule settle_claimed_store [OF c [unfolded t]])
    show ?thesis using svc_ledger.settle_fails [OF o(2)] money_of_store [OF o(1)] money_of_store [OF o(3)] by simp
  qed
  obtain c s1 where c: "claim_fill i s = (c, s1)" by fastforce
  have "svc_bal s1 = svc_bal s" using claim_fill_frame [OF c] money_of_store [of s1 s] by simp
  then show ?thesis
    using assms c by (auto simp: svc_SettleFill_def Let_def dest!: claimed split: option.splits if_splits claim.splits)
qed

text \<open>
  C27: a fill that cannot be settled is lost. When the wallet refuses it (the buyer cannot pay, the seller has nothing to deliver, or the database is down) the
  bridge has already taken it from the queue: no balance moves, nothing keeps the fill for another attempt, and both users' positions are
  changed as if the trade had been paid.
\<close>

theorem unpaid_fill_lost:
  assumes "gm_get (ex_engines (vn_exchange s)) pair = Some p" "e_Fills (pe_engine p) = f # fs" "vn_wallet s = Some w"
    and "svc_SettleFill (fillIDOf f) (f_Pair f) (sint (int8_of_side (f_Side f))) (f_TakerOrderID f) (f_MakerOrderID f) (f_TakerUserID f) (f_MakerUserID f)
      (f_Price f) (Some (f_Quantity f)) w = (Inl e, w1)"
  shows "\<exists>s' p' w'. consumeFills pair s = s' \<and> gm_get (ex_engines (vn_exchange s')) pair = Some p' \<and> e_Fills (pe_engine p') = fs \<and>
    vn_wallet s' = Some w' \<and> svc_bal w' = svc_bal w \<and> vn_pnl s' = map_option (RecordFill (Some f)) (vn_pnl s)"
proof -
  define ex where "ex = set_engine pair (p\<lparr>pe_engine := (pe_engine p)\<lparr>e_Fills := fs\<rparr>\<rparr>) (vn_exchange s)"
  define t where "t = s\<lparr>vn_exchange := ex, vn_wallet := Some w1, vn_pnl := map_option (RecordFill (Some f)) (vn_pnl s)\<rparr>"
  have frame: "vn_exchange (release_filled b i u t) = vn_exchange t \<and> vn_pnl (release_filled b i u t) = vn_pnl t \<and>
      (\<forall>v. vn_wallet t = Some v \<longrightarrow> (\<exists>v'. vn_wallet (release_filled b i u t) = Some v' \<and> svc_bal v' = svc_bal v))" for b i u t
    by (auto simp: release_filled_def on_wallet_def split: option.splits prod.splits sum.splits) (metis release_balance snd_conv)+
  define s1 where "s1 = release_filled (f_TakerFilled f) (f_TakerOrderID f) (f_TakerUserID f) t"
  define s' where "s' = release_filled (f_MakerFilled f) (f_MakerOrderID f) (f_MakerUserID f) s1"
  have c: "consumeFills pair s = s'"
    using assms(1-3) by (simp add: consumeFills_def ex_def [symmetric] deliver_fill_def settle_fill_def on_wallet_def assms(4) Let_def s'_def s1_def t_def)
  note keep = conjunct2 [OF conjunct2 [OF frame], rule_format]
  have "vn_wallet t = Some w1" by (simp add: t_def)
  then obtain v where v: "vn_wallet s1 = Some v" "svc_bal v = svc_bal w1" using keep unfolding s1_def by blast
  then obtain w' where w': "vn_wallet s' = Some w'" "svc_bal w' = svc_bal w1" using keep [of s1 v] unfolding s'_def by metis
  have "vn_exchange s' = ex" "vn_pnl s' = map_option (RecordFill (Some f)) (vn_pnl s)" using frame by (simp_all add: s'_def s1_def t_def)
  moreover have "gm_get (ex_engines ex) pair = Some (p\<lparr>pe_engine := (pe_engine p)\<lparr>e_Fills := fs\<rparr>\<rparr>)"
    by (simp add: ex_def set_engine_def)
  ultimately show ?thesis using c w' failed_SettleFill [OF assms(4)] by simp
qed

section \<open>Fills after a restart\<close>

lemma fill_moves:
  "delta_at (fill_ops base quote b s q d c x y) = delta_at (fill_ops base quote b s q d c new_float new_float)"
  by (auto simp: fun_eq_iff fill_ops_def unlock_op_def delta_op_def dn_def op_key_def)

lemma settle_claimed_moves:
  assumes "settle_claimed i b (base, quote) (bo, so) (bu, su) n q bf sf s = (Inr (), s')"
  shows "svc_bal s' k = svc_bal s k + delta_at (fill_ops base quote bu su q (bf_add new_float n bf) (bf_sub new_float n sf) new_float new_float) k"
proof -
  obtain s4 s5 ts x y where o: "ws_store s4 = ws_store s"
      "on_db (pg_Settle (fill_ops base quote bu su q (bf_add new_float n bf) (bf_sub new_float n sf) x y) ts) s4 = (Inr (), s5)"
      "ws_store s' = ws_store s5"
    by (rule settle_claimed_store [OF assms])
  from svc_ledger.settle_moves [OF o(2), of k] show ?thesis
    using money_of_store [OF o(1)] money_of_store [OF o(3)] by (simp add: fill_moves [of _ _ _ _ _ _ _ x y])
qed

lemma SettleFill_frame:
  assumes "svc_SettleFill i pair sd to' mo tu mu price qty s = (r, s')"
  shows "ws_fees s' = ws_fees s \<and> no_store s' = no_store s"
proof -
  have claimed: "ws_fees s' = ws_fees s1 \<and> no_store s' = no_store s1" if c: "settle_claimed i b bq os us n q bf sf s1 = (r, s')" for b bq os us n q bf sf s1
  proof -
    obtain ba qu bo so bu su where t: "bq = (ba, qu)" "os = (bo, so)" "us = (bu, su)" by (metis prod.collapse)
    obtain s4 s5 ts x y where o: "ws_store s4 = ws_store s1"
        "on_db (pg_Settle (fill_ops ba qu bu su q (bf_add new_float n bf) (bf_sub new_float n sf) x y) ts) s4 = (r, s5)"
        "ws_store s' = ws_store s5"
      by (rule settle_claimed_store [OF c [unfolded t]])
    have "no_store s5 = no_store s4" using o(2) by (cases rule: on_db_cases) (simp_all add: no_store_def)
    then show ?thesis using o settle_claimed_fees [OF c] by (simp add: no_store_def)
  qed
  obtain c s1 where c: "claim_fill i s = (c, s1)" by fastforce
  have "ws_fees s1 = ws_fees s" "no_store s1 = no_store s" using claim_fill_frame [OF c] by (simp_all add: no_store_def)
  then show ?thesis
    using assms c by (auto simp: svc_SettleFill_def Let_def dest!: claimed split: option.splits if_splits claim.splits)
qed

text \<open>What a settlement moves depends on the arguments and the fee rates only.\<close>

lemma SettleFill_moves:
  "\<exists>m. \<forall>s c s1 s'. claim_fill i s = (Claimed c, s1) \<longrightarrow> \<not> no_store s \<longrightarrow> ws_fees s = fees \<longrightarrow>
     svc_SettleFill i pair sd to' mo tu mu price qty s = (Inr (), s') \<longrightarrow> (\<forall>k. svc_bal s' k = svc_bal s k + m k)"
proof (cases "\<exists>p q base quote tr mr. price = Some p \<and> qty = Some q \<and> SplitPair pair = Some (base, quote) \<and>
    fc_TakerRate (fees pair) = Some tr \<and> fc_MakerRate (fees pair) = Some mr")
  case False
  then have "svc_SettleFill i pair sd to' mo tu mu price qty s \<noteq> (Inr (), s')"
    if "claim_fill i s = (Claimed c, s1)" "\<not> no_store s" "ws_fees s = fees" for s c s1 s'
    using that claim_fill_frame [OF that(1)] by (auto simp: svc_SettleFill_def Let_def split: option.splits if_splits)
  then show ?thesis by blast
next
  case True
  then obtain p q base quote tr mr where t: "price = Some p" "qty = Some q" "SplitPair pair = Some (base, quote)"
    "fc_TakerRate (fees pair) = Some tr" "fc_MakerRate (fees pair) = Some mr" by blast
  let ?n = "bf_mul new_float p q"
  let ?t = "bf_mul new_float ?n tr" and ?m = "bf_mul new_float ?n mr"
  let ?ops = "if sd = -1 then fill_ops base quote mu tu q (bf_add new_float ?n ?m) (bf_sub new_float ?n ?t) new_float new_float
    else fill_ops base quote tu mu q (bf_add new_float ?n ?t) (bf_sub new_float ?n ?m) new_float new_float"
  have "svc_bal s' k = svc_bal s k + delta_at ?ops k"
    if c: "claim_fill i s = (Claimed c, s1)" "\<not> no_store s" "ws_fees s = fees" and e: "svc_SettleFill i pair sd to' mo tu mu price qty s = (Inr (), s')"
    for s c s1 s' k
  proof -
    note f = claim_fill_frame [OF c(1)]
    have "svc_bal s1 = svc_bal s" using f money_of_store [of s1 s] by simp
    have m: "settle_claimed i c (base, quote) (if sd = -1 then (mo, to') else (to', mo)) (if sd = -1 then (mu, tu) else (tu, mu)) ?n q
        (if sd = -1 then ?m else ?t) (if sd = -1 then ?t else ?m) s1 = (Inr (), s')"
      using e c f t by (auto simp: svc_SettleFill_def Let_def split: if_splits)
    have "svc_bal s' k = svc_bal s1 k + delta_at ?ops k"
    proof (cases "sd = -1")
      case True
      from settle_claimed_moves [OF m [unfolded if_P [OF True]], of k] show ?thesis by (simp add: True)
    next
      case False
      from settle_claimed_moves [OF m [unfolded if_not_P [OF False]], of k] show ?thesis by (simp add: False)
    qed
    with \<open>svc_bal s1 = svc_bal s\<close> show ?thesis by simp
  qed
  then show ?thesis by blast
qed

text \<open>
  C28: a restart settles fills twice. The set of settled fills is kept in memory. A new process that has no shared store takes a fill that was settled
  before for a new one, and when the users can still pay it moves the same amounts once more. (Recovery replays the log through the matching
  engine and produces the fills of the run again, with the same order identifiers, prices and quantities, hence the same fill identifiers.)
\<close>

theorem restart_settles_twice:
  assumes "svc_SettleFill i pair sd to' mo tu mu price qty w = (Inr (), w1)" "fst (claim_fill i w) = Claimed c" "\<not> no_store w"
    and "svc_SettleFill i pair sd to' mo tu mu price qty (restarted_wallet w1) = (Inr (), w2)"
  shows "svc_bal w2 k - svc_bal w1 k = svc_bal w1 k - svc_bal w k"
proof -
  obtain m where m: "\<And>s c s1 s'. claim_fill i s = (Claimed c, s1) \<Longrightarrow> \<not> no_store s \<Longrightarrow> ws_fees s = ws_fees w \<Longrightarrow>
     svc_SettleFill i pair sd to' mo tu mu price qty s = (Inr (), s') \<Longrightarrow> (\<forall>k. svc_bal s' k = svc_bal s k + m k)"
    using SettleFill_moves [of i "ws_fees w" pair sd to' mo tu mu price qty] by blast
  have c: "claim_fill i w = (Claimed c, snd (claim_fill i w))" using assms(2) by (metis prod.collapse)
  have "claim_fill i (restarted_wallet w1) = (Claimed False, restarted_wallet w1)"
    by (simp add: claim_fill_def restarted_wallet_def lru_contains_def newFillLRU_def)
  moreover have "ws_fees (restarted_wallet w1) = ws_fees w" "\<not> no_store (restarted_wallet w1)" "svc_bal (restarted_wallet w1) = svc_bal w1"
    using SettleFill_frame [OF assms(1)] assms(3) by (simp_all add: restarted_wallet_def no_store_def svc_bal_def fun_eq_iff)
  ultimately have "svc_bal w2 k = svc_bal w1 k + m k" using m [OF _ _ _ assms(4)] by metis
  moreover have "svc_bal w1 k = svc_bal w k + m k" using m [OF c assms(3) refl assms(1)] by blast
  ultimately show ?thesis by simp
qed

section \<open>A reservation that is lost\<close>

text \<open>
  The reservation is committed before the wallet is read back. When that read fails, the order is refused for an error, the amount stays locked, and no record of the
  reservation exists by which it could be released.
\<close>

lemma failed_read_strands_funds:
  assumes "ws_store w = Some db" "db_faults db = [False, False, False, False, True]" "reserve_plan (ws_fees w) pair sd ty price q = Inr (Some (a, x))"
    "0 < bf_sign q" "0 < bval x" "numeric x \<le> svc_bal w (u, a, AccountSpot) - svc_lck w (u, a, AccountSpot)"
  shows "\<exists>w1. svc_ReserveOrder i u pair sd ty price (Some q) w = (Inl DBError, w1) \<and> ws_reservations w1 = ws_reservations w \<and>
    svc_lck w1 (u, a, AccountSpot) = svc_lck w (u, a, AccountSpot) + numeric x"
proof -
  have n: "NormalizeAccountType AccountSpot = AccountSpot" "ValidAccountType AccountSpot" "\<not> bf_sign x \<le> 0"
    using assms(5) by (simp_all add: NormalizeAccountType_def ValidAccountType_def AccountSpot_def bf_sign_def)
  have "\<exists>db'. ReserveForOrder u a (Some x) db = (Inl DBError, db') \<and> lck db' (u, a, AccountSpot) = lck db (u, a, AccountSpot) + numeric x"
    using assms(1,2,5,6)
    by (cases "gm_get (db_wallets db) (u, a, AccountSpot)")
      (simp_all add: ReserveForOrder_def ReserveForAccount_def GetWalletForAccount_def reserve_row_def n transaction_def stmt_def abind_def ret_def throw_def
        upsert_wallet_def fresh_id_def insert_wallet_def update_wallet_def empty_row_def svc_store_eq bal_def lck_def Let_def)
  then show ?thesis using assms(1,3,4) by (auto simp: svc_ReserveOrder_def no_store_def on_db_def abind_def svc_lck_def)
qed
section \<open>At work\<close>

definition demo_queue :: "order ring" where
  "demo_queue = \<lparr>rb_buffer = [None, None], rb_mask = 1, rb_head = 0, rb_tail = 0\<rparr>"

definition demo_venue :: "risk option \<Rightarrow> fill list \<Rightarrow> venue" where
  "demo_venue k fs =
     \<lparr>vn_exchange = \<lparr>ex_engines = [(''BTC/USDT'', \<lparr>pe_engine = (NewMatchingEngine (\<lambda>r. demo_placed) (\<lambda>n. ''t'') ''BTC/USDT'')\<lparr>e_Fills := fs\<rparr>,
          pe_inbound = demo_queue\<rparr>)], ex_risk = k, ex_walDir = [], ex_snapshotDir = [], ex_wals = [], ex_snaps = [], ex_faults = [], ex_policy = (1, 0),
        ex_now = 5, ex_uuid = (\<lambda>pair n. ''u''), ex_memory = (\<lambda>r. demo_placed)\<rparr>,
      vn_orders = None, vn_wallet = Some demo, vn_pnl = None, vn_ids = (\<lambda>n. ''o1''), vn_nid = 0\<rparr>"

definition demo_trade :: "bf \<Rightarrow> fill" where
  "demo_trade p = \<lparr>f_TakerOrderID = ''o1'', f_MakerOrderID = ''o2'', f_TakerUserID = ''alice'', f_MakerUserID = ''bob'', f_Pair = ''BTC/USDT'', f_Side = Buy,
     f_Price = Some p, f_Quantity = BF 53 3, f_RemainingQty = None, f_TakerFilled = False, f_MakerFilled = False\<rparr>"

definition demo_suspended :: risk where
  "demo_suspended = SetPairConfig (empty_config ''BTC/USDT'') NewRiskEngine"

definition demo_sell :: place_req where
  "demo_sell = demo_request\<lparr>pq_Side := ''sell''\<rparr>"

definition demo_maker :: place_req where
  "demo_maker = demo_request\<lparr>pq_Type := ''post_only''\<rparr>"

lemma demo_words: "ToLower ''sell'' = ''sell''" "ToLower ''post_only'' = ''post_only''" "api_normalizePair ''BTC/USDT'' = ''BTC/USDT''"
  "normalizePair ''BTC/USDT'' = ''BTC/USDT''"
  by code_simp+

lemma demo_ordered:
  "order_of_request i now ''bob'' ''BTC/USDT'' demo_sell = Inr (NewOrder i now ''bob'' ''BTC/USDT'' Sell Limit (Some (BF 64 100)) (Some (BF 64 2)))"
  "order_of_request i now ''eve'' ''BTC/USDT'' demo_maker = Inr (NewOrder i now ''eve'' ''BTC/USDT'' Buy PostOnly (Some (BF 64 100)) (Some (BF 64 2)))"
  by (simp_all add: order_of_request_def demo_sell_def demo_maker_def demo_request_def named_side_def named_type_def named_tif_def demo_texts demo_words
      demo_amounts optional_positive_def needsPrice_def) (simp_all add: NewOrder_def)

lemma demo_bound: "place_bound demo_sell" "place_bound demo_maker" "pq_Pair demo_sell = ''BTC/USDT''" "pq_Pair demo_maker = ''BTC/USDT''"
  by (simp_all add: place_bound_def demo_sell_def demo_maker_def demo_request_def)

lemma demo_wallet: "sane_fees (ws_fees demo)"
  by (simp add: sane_fees_def demo_eq)

theorem trading_creates_nothing_witness:
  "\<exists>w. vn_wallet (consumeFills ''BTC/USDT'' (demo_venue None [demo_trade (BF 53 2)])) = Some w \<and> solvent (svc_bal w) (svc_lck w) \<and> (\<forall>a. total_of w a \<le> total_of demo a)"
proof -
  have "venue_step\<^sup>*\<^sup>* (demo_venue None [demo_trade (BF 53 2)]) (consumeFills ''BTC/USDT'' (demo_venue None [demo_trade (BF 53 2)]))"
    by (intro r_into_rtranclp venue_step.settling) simp
  then show ?thesis by (rule trading_creates_nothing) (simp_all add: demo_venue_def demo_wallet demo_solvent)
qed

theorem refused_order_refunded_witness:
  "\<exists>s w. PlaceOrder 1 ''bob'' demo_sell (demo_venue (Some demo_suspended) []) = Done (Inl (NotSubmitted (RiskRefused ErrTradingSuspended)), s) \<and>
    vn_wallet s = Some w \<and> svc_lck w (''bob'', ''BTC'', AccountSpot) = 0"
proof -
  let ?v = "NewOrder ''o1'' 5 ''bob'' ''BTC/USDT'' Sell Limit (Some (BF 64 100)) (Some (BF 64 2))"
  note ev = service_defs store_defs float_defs demo_defs ReserveForOrder_def ReserveForAccount_def GetWalletForAccount_def reserve_row_def
    reserve_plan_def demo_pair ValidAccountType_def AccountSpot_def
  have r: "fst (reserve_order ?v demo_sell demo) = Inr ()"
    by (simp add: reserve_order_def NewOrder_def newBigFloatCopy_def demo_sell_def demo_request_def demo_amounts svc_ReserveOrder_def ev Let_def)
  have "\<exists>s. PlaceOrder 1 ''bob'' demo_sell (demo_venue (Some demo_suspended) []) = Done (Inl (NotSubmitted (RiskRefused ErrTradingSuspended)), s)"
    using r by (simp add: PlaceOrder_def demo_ordered demo_bound demo_words exch_Get_def submit_order_def exch_SubmitOrder_def risk_check_def on_wallet_def on_orders_def
        request_of_def Check_def demo_venue_def demo_suspended_def SetPairConfig_def empty_config_def NewRiskEngine_def Let_def split: prod.split sum.split)
      (auto simp: NewOrder_def demo_words)
  then obtain s where s: "PlaceOrder 1 ''bob'' demo_sell (demo_venue (Some demo_suspended) []) = Done (Inl (NotSubmitted (RiskRefused ErrTradingSuspended)), s)"
    by blast
  have "vn_wallet (demo_venue (Some demo_suspended) []) = Some demo" "ws_store demo = Some demo_db" "db_faults demo_db = []" "ws_shared demo = None" "ws_reservations demo = []"
    by (simp_all add: demo_venue_def demo_eq demo_db_def)
  with refused_order_refunded [OF s, of demo demo_db] show ?thesis using s by (auto simp: demo_solvent demo_lck)
qed

theorem only_limit_buys_reserve_witness:
  "\<exists>v s. PlaceOrder 1 ''eve'' demo_maker (demo_venue None []) = Done (Inr v, s) \<and> vn_wallet s = Some demo"
proof -
  have n: "named_side (pq_Side demo_maker) = Some Buy" "named_type (pq_Type demo_maker) \<noteq> Some Limit"
    by (simp_all add: demo_maker_def demo_request_def named_side_def named_type_def demo_words demo_texts)
  have "fst (reserve_order (NewOrder ''o1'' 5 ''eve'' ''BTC/USDT'' Buy PostOnly (Some (BF 64 100)) (Some (BF 64 2))) demo_maker demo) = Inr ()"
    by (simp add: reserve_order_def NewOrder_def newBigFloatCopy_def demo_maker_def demo_request_def demo_amounts svc_ReserveOrder_def reserve_plan_def demo_pair
        no_store_def demo_eq bf_sign_def)
  then have "\<exists>v s. PlaceOrder 1 ''eve'' demo_maker (demo_venue None []) = Done (Inr v, s)"
    by (simp add: PlaceOrder_def demo_ordered demo_bound demo_words exch_Get_def submit_order_def exch_SubmitOrder_def risk_check_def on_wallet_def on_orders_def
        engine_SubmitOrder_def RegisterPair_def Enqueue_def demo_queue_def NewOrder_def demo_venue_def Let_def split: prod.split sum.split)
      (auto simp: demo_words)
  then show ?thesis using only_limit_buys_reserve [OF _ n] by (fastforce simp: demo_venue_def)
qed

theorem unpaid_fill_lost_witness:
  "\<exists>s p w. consumeFills ''BTC/USDT'' (demo_venue None [demo_trade (BF 53 200)]) = s \<and> gm_get (ex_engines (vn_exchange s)) ''BTC/USDT'' = Some p \<and>
    e_Fills (pe_engine p) = [] \<and> vn_wallet s = Some w \<and> svc_bal w = svc_bal demo"
proof -
  let ?f = "demo_trade (BF 53 200)"
  have "fst (svc_SettleFill (fillIDOf ?f) (f_Pair ?f) (sint (int8_of_side (f_Side ?f))) (f_TakerOrderID ?f) (f_MakerOrderID ?f) (f_TakerUserID ?f)
      (f_MakerUserID ?f) (f_Price ?f) (Some (f_Quantity ?f)) demo) = Inl InsufficientBalance"
    by (simp add: svc_SettleFill_def demo_trade_def demo_pair service_defs store_defs float_defs demo_defs Let_def)
  then obtain w1 where f: "svc_SettleFill (fillIDOf ?f) (f_Pair ?f) (sint (int8_of_side (f_Side ?f))) (f_TakerOrderID ?f) (f_MakerOrderID ?f)
      (f_TakerUserID ?f) (f_MakerUserID ?f) (f_Price ?f) (Some (f_Quantity ?f)) demo = (Inl InsufficientBalance, w1)"
    by (metis prod.collapse)
  show ?thesis
    using unpaid_fill_lost [OF _ _ _ f, of "demo_venue None [?f]" "''BTC/USDT''" _ "[]"] by (fastforce simp: demo_venue_def)
qed

abbreviation demo_small :: "wsvc \<Rightarrow> (wallet_err + unit) \<times> wsvc" where
  "demo_small \<equiv> svc_SettleFill ''f1'' ''BTC/USDT'' 1 ''o1'' ''o2'' ''alice'' ''bob'' (Some (BF 53 3)) (Some (BF 53 2))"

theorem restart_settles_twice_witness:
  "svc_bal (snd (demo_small (restarted_wallet (snd (demo_small demo))))) (''alice'', ''USDT'', AccountSpot) = 88"
proof -
  note ev = svc_SettleFill_def demo_pair service_defs store_defs float_defs demo_defs Let_def
  have 1: "demo_small demo = (Inr (), snd (demo_small demo))" by (simp add: ev)
  have 2: "demo_small (restarted_wallet (snd (demo_small demo))) = (Inr (), snd (demo_small (restarted_wallet (snd (demo_small demo)))))"
    by (simp add: ev restarted_wallet_def)
  have c: "fst (claim_fill ''f1'' demo) = Claimed False" by (simp add: claim_fill_def demo_defs)
  have "svc_bal (snd (demo_small demo)) (''alice'', ''USDT'', AccountSpot) = 94"
    by (simp add: ev svc_bal_def bal_def AccountSpot_def)
  then show ?thesis
    using restart_settles_twice [OF 1 c demo_store 2, of "(''alice'', ''USDT'', AccountSpot)"] by (simp add: demo_bal)
qed

end
