(* ===== verification/Spec2Isabelle.thy ===== *)
theory Spec2Isabelle
  imports Engine_Properties Book_Depth Ring_Buffer Address_Checks Address_Roundtrip Wallet_Properties Amm_Sqrt Amm_Properties
    Withdrawal_Properties Futures_Properties Risk_Properties Pnl_Properties Replay Trading_Properties
begin

text \<open>
  A model of the core of the exchange \<open>fliance\<close>, translated from its Go sources under \<open>internal/\<close>, and what makes it
  correct.

  \<^bold>\<open>The program.\<close> Orders arrive through a ring buffer at the matching engine of their pair. The engine writes each order to a
  write-ahead log, matches it against a price-time priority book, and emits trades and fills. Fills are settled by the wallet service on a ledger
  of wallets in PostgreSQL, exactly once per fill; orders reserve funds there before they enter the book. Beside the engine an
  automated market maker trades against pools of two tokens over the same ledger, and withdrawals leave the ledger through a review workflow, a
  hot wallet or an offline signer. Perpetual positions are opened, funded, closed and liquidated against a third account of the same ledger. Amounts are \<open>math/big\<close> floats in memory and \<open>NUMERIC(40,18)\<close> in the database.

  \<^bold>\<open>Conventions.\<close> A struct is a record whose fields carry a prefix (\<open>o_Price\<close> is \<open>Order.Price\<close>), an enumeration a datatype
  with one more constructor for unnamed values, a Go map an association list without duplicate keys (\<open>gomap\<close>). Operations have the name
  of the Go function, with a prefix where several types have one (\<open>svc_\<close> for the wallet service, \<open>pg_\<close> for its store, \<open>amm_\<close>, \<open>lru_\<close>). Two forms of
  result are used. In the engine, \<open>outcome\<close>: \<open>Done x\<close>, \<open>Panicked\<close> for a run-time panic, \<open>OutOfFuel\<close>. In the services, actions
  \<open>'s \<Rightarrow> ('e + 'a) \<times> 's\<close> (theory \<open>Effects\<close>): an error or a value, and the state afterwards in both cases. A method of the source
  that holds its lock throughout is one step.

  \<^bold>\<open>Foundations.\<close> \<open>Prelude\<close>: association lists, outcomes, texts of numbers. \<open>BigFloat\<close>: \<open>big.Float\<close> as a precision and a rational
  value, every operation rounded to nearest even, with error bounds and exactness on binary grids. \<open>Decimal\<close>:
  \<open>Text('f', n)\<close> and \<open>Parse\<close>, and that values of at most \<open>n\<close> decimals survive the round trip up to the precision of the parser. \<open>Heap_Array\<close>:
  \<open>container/heap\<close> on a slice, with the locale \<open>prio_order\<close> of an order that decides the minimum; it is interpreted by
  the price-time order of each side in \<open>Order_Book\<close>.

  \<^bold>\<open>Matching (\<open>internal/matching\<close>).\<close> \<open>Order_Model\<close> (\<open>order.go\<close>): orders, trades, their notional. \<open>Order_Book\<close>
  (\<open>orderbook.go\<close>): the heaps hold references into a store of orders, since a lookup map, the heaps, the per-user index and the caller share them.
  \<open>Engine\<close> (\<open>engine.go\<close>): fills, self-trade prevention, all strategies, stops, cancels, batches. \<open>Matching\<close>: which
  orders are live and which is best. \<open>Book_Invariant\<close>: the well-formedness of the book, kept by every operation.
  \<open>Match_Loop\<close>: the loop refines abstract steps that always take the best live maker; the locale \<open>match_test\<close> is the interface of a
  strategy's price test, interpreted for limit, market and immediate orders. \<open>Engine_Safety\<close>: invariants of these steps (quantity,
  price limits, no crossed book). \<open>Engine_Correct\<close>: total correctness of every operation. \<open>Engine_Behaviour\<close>, \<open>Engine_Properties\<close>: their consequences for
  \<open>processOrder\<close>, \<open>processCancel\<close> and the stop scan. \<open>Book_Depth\<close>: the aggregated depth. \<open>Ring_Buffer\<close> (\<open>ringbuffer.go\<close>): 64-bit indices
  that wrap around; both rings interpret the locale \<open>bounded_fifo\<close>. \<open>Wal\<close> (\<open>wal.go\<close>): the log as lines of text, any write and any sync may fail. \<open>Market_Data\<close> (\<open>marketdata.go\<close>):
  window, candles, ticker.

  Fuel: the matching loop and the iceberg loop take a bound on the number of rounds. For orders of every type but \<open>Iceberg\<close>, \<open>processOrder_total\<close> shows that a
  bound that grows linearly with the orders in the book suffices, and the theorems on \<open>processOrder\<close> that assume \<open>order_ok\<close> are about these orders;
  \<open>iceberg_never_returns\<close> shows that no bound suffices for some icebergs.

  \<^bold>\<open>Wallets (\<open>internal/wallet\<close>, \<open>internal/store\<close>).\<close> \<open>Wallet_Store\<close> (\<open>pg_wallet.go\<close>, \<open>types.go\<close>): each SQL statement as a function on three tables keyed by their
  unique constraints. The list \<open>db_faults\<close> says which of the coming statements fail, so that a theorem about every state covers
  every pattern of failures; a transaction that fails is rolled back. \<open>Wallet_Ledger\<close>: what statements do to balances and locks, and the
  locale \<open>ledger\<close> of operations that move money, interpreted by the store (\<open>pg_ledger\<close>) and by the service (\<open>svc_ledger\<close>).
  \<open>Fill_LRU\<close> (\<open>lru.go\<close>): the set of settled fills. \<open>Wallet_Service\<close> (\<open>service.go\<close>): deposits, reservations, transfers, settlement, with an optional shared
  store between instances. \<open>Wallet_Properties\<close>: conservation, atomicity, idempotence. \<open>Address_Validation\<close>, \<open>Address_Checks\<close>,
  \<open>Address_Roundtrip\<close> (\<open>validate.go\<close>): address formats, with the hash functions as parameters.

  \<^bold>\<open>Withdrawals.\<close> \<open>Address_Whitelist\<close> (\<open>pg_address_whitelist.go\<close>), \<open>Cold_Wallet\<close> (\<open>cold_wallet.go\<close>) and \<open>Withdrawal\<close> (\<open>withdrawal.go\<close>). The network
  is the record \<open>chain\<close>: what it answers and what it was sent. \<open>Withdrawal_Runs\<close>: commands, and the locale \<open>withdrawal_runs\<close> of a relation kept
  by every operation, which lifts it to passes and runs. \<open>Withdrawal_Lifecycle\<close> interprets it by the life cycle of a recorded
  withdrawal (\<open>wd_edge\<close>), under any failures; \<open>Withdrawal_Funds\<close> by the cover of live withdrawals, without failures.
  \<open>Withdrawal_Properties\<close>: the consequences, and what failures between two statements do.

  \<^bold>\<open>Automated market maker (\<open>internal/amm\<close>).\<close> \<open>Amm_Math\<close> (\<open>math.go\<close>): quotes, shares, the Newton square root with the 100 rounds of the source.
  \<open>Amm_Store\<close> (\<open>pg_amm.go\<close>), \<open>Amm_Service\<close> (\<open>service.go\<close>). \<open>Amm_Precision\<close>, \<open>Amm_Sqrt\<close>, \<open>Amm_Properties\<close>: error bounds in units of the last place, the constant
  product, the effect of executed swaps, and where liquidity providers lose.

  \<^bold>\<open>Perpetual futures (\<open>internal/api/futures_handler.go\<close>).\<close> \<open>Futures_Store\<close>: positions and orders, the tables of \<open>store/pg_futures.go\<close> with
  failing statements (\<open>pf_faults\<close>), and the in-memory store, whose lists share their positions with the table. \<open>Futures_Math\<close>: profit, margin, liquidation
  price, funding. \<open>Futures\<close>: the state \<open>fut\<close> of the handler over its store and the wallet service, opening, closing, margin. \<open>Futures_Jobs\<close>:
  liquidation, the jobs over all open positions, orders, the read-only handlers. A handler is given the user and the decoded body of its request;
  \<open>PriceHandler.BestPrice\<close> is the parameter \<open>fu_price\<close>. \<open>Futures_Positions\<close>: the relation \<open>keeps\<close> between the tables before and after, kept by every
  handler and job and lifted to the runs of the step relation \<open>fut_step\<close>. \<open>Futures_Money\<close>: what a call does to balances and locks, from
  the facts of \<open>svc_ledger\<close>. \<open>Futures_Properties\<close>: the terms of positions, the quantity and entry price that the upsert never stores, the money of
  opening and closing, and where holders gain or lose what they should not.

  \<^bold>\<open>Risk checks and profit and loss.\<close> \<open>Risk\<close> (\<open>internal/risk/risk.go\<close>): the rules of a pair, the limits of a user, the checks in the order of \<open>Check\<close>, the
  latched circuit breaker and the time stamps of the rate limits, whose slices are compacted in place. \<open>Risk_Properties\<close>: over runs of requests and
  administrative calls, what a passed order satisfies, that the rate limits hold, and what one order or one refusal does to the others. \<open>Pnl\<close>
  (\<open>internal/pnl/service.go\<close>): positions with their average cost, daily totals, summaries. \<open>Pnl_Properties\<close>: each fill is booked at what it costs up to
  six roundings, positions of all users cancel out over the runs of the relation \<open>booked\<close>, and summaries show the positions of their user.

  \<^bold>\<open>Snapshots, recovery and the exchange.\<close> \<open>Exchange\<close> (\<open>internal/matching/snapshot.go\<close>, \<open>exchange.go\<close>): the engines of all pairs with their inbound queues, the files of logs
  and snapshots, which may fail to be opened, written or read, submission through the risk checks, and recovery from a snapshot and the log
  after it, with the panic on a snapshot file without a book. A float in a snapshot file is written as the shortest decimal and read with 64 bits. \<open>Recovery\<close>: a restored book is well-formed and holds the
  orders and stops of the snapshot, with the amounts they had exactly when these fit into 64 bits. \<open>Order_Recovery\<close>: an order that the handler accepts comes back from its record as it was. \<open>Replay\<close>: the replay of
  a log simulates the run that wrote it (the relation \<open>twin\<close>: equal books; the run and the replay have the same fuel), so that a restart reproduces the book, and the two ways in which it does not: a snapshot taken
  between the journalling and the booking of an order, and an order that was refused after it was written.

  \<^bold>\<open>Spot trading as a whole.\<close> \<open>Order_Store\<close> (\<open>internal/store/pg_order.go\<close>): the tables of orders and trades. \<open>Trading\<close> (\<open>internal/api/order_handler.go\<close>,
  \<open>internal/wsbridge/bridge.go\<close>): the record \<open>venue\<close> of exchange, order store, wallet and profit-and-loss book; placing, cancelling, listing, and what the bridge does with a trade
  and a fill. \<open>Trading_Properties\<close>: the step relation \<open>venue_step\<close> of handler calls, engine rounds, deliveries and events outside, over which no asset is created and no
  wallet is overdrawn; what a refused order gives back, which orders reserve nothing, and what happens to fills that cannot be settled or are settled before a restart.

  \<^bold>\<open>Not modelled.\<close> Infinities and \<open>NaN\<close> panics of \<open>big.Float\<close>: values are bounded by the columns. Exponents and other bases in the numbers of a request, which \<open>SetString\<close> accepts. The interleaving of the engine's run loop with its
  channels and timers, and the synchronous submission that waits on them; a batch, a cancel, a delivered trade or fill is one step. Candles and tickers, which come from external sources, and the JSON text of
  answers and of web-socket messages. The database's own concurrency beyond atomic
  statements and transactions. Uniqueness of generated identifiers, which is a hypothesis where a theorem needs it. Chain clients, the deposit
  watcher, the other HTTP and the gRPC handlers, authentication, audit, configuration, market feeds, websockets and the programs'
  start-up: input and output around the modelled core.
\<close>

end
